(* ===== verification/Transition.thy ===== *)
theory Transition
  imports GoPrelude
begin

text \<open>
  Runs of a component: a list of operations applied one after the other to its state. Every
  method of the program's stateful components holds the component's mutex for its whole body, so
  a concurrent execution is one of these sequences. The locales are the contract a component
  owes (its invariant holds at the start and every operation keeps it) and what follows for a
  whole run.
\<close>

primrec run :: "('s \<Rightarrow> 'e \<Rightarrow> 's) \<Rightarrow> 's \<Rightarrow> 'e list \<Rightarrow> 's" where
  "run step s [] = s"
| "run step s (e # es) = run step (step s e) es"

lemma run_append: "run step s (es @ fs) = run step (run step s es) fs"
  by (induction es arbitrary: s) simp_all

locale guarded_machine =
  fixes init :: 's and step :: "'s \<Rightarrow> 'e \<Rightarrow> 's" and inv :: "'s \<Rightarrow> bool"
  assumes inv_init: "inv init"
    and inv_step: "inv s \<Longrightarrow> inv (step s e)"
begin

lemma inv_run_from: "inv s \<Longrightarrow> inv (run step s es)"
  by (induction es arbitrary: s) (simp_all add: inv_step)

lemma inv_run: "inv (run step init es)"
  by (rule inv_run_from [OF inv_init])

end

text \<open>A machine whose invariant needs something of the operations (\<open>ok\<close>): which keys sign, who calls.\<close>

locale permitted_machine =
  fixes init :: 's and step :: "'s \<Rightarrow> 'e \<Rightarrow> 's" and ok :: "'e \<Rightarrow> bool" and inv :: "'s \<Rightarrow> bool"
  assumes inv_init: "inv init"
    and inv_step: "ok e \<Longrightarrow> inv s \<Longrightarrow> inv (step s e)"
begin

lemma inv_run_from: "list_all ok es \<Longrightarrow> inv s \<Longrightarrow> inv (run step s es)"
  by (induction es arbitrary: s) (simp_all add: inv_step)

lemma inv_run: "list_all ok es \<Longrightarrow> inv (run step init es)"
  by (rule inv_run_from [OF _ inv_init])

end

text \<open>A machine whose invariant needs something of an operation in the state it meets, such as a fresh
  identifier. A permission that does not look at the state is the special case above.\<close>

primrec run_ok :: "('s \<Rightarrow> 'e \<Rightarrow> 's) \<Rightarrow> ('s \<Rightarrow> 'e \<Rightarrow> bool) \<Rightarrow> 's \<Rightarrow> 'e list \<Rightarrow> bool" where
  "run_ok step ok s [] \<longleftrightarrow> True"
| "run_ok step ok s (e # es) \<longleftrightarrow> ok s e \<and> run_ok step ok (step s e) es"

locale fresh_machine =
  fixes init :: 's and step :: "'s \<Rightarrow> 'e \<Rightarrow> 's" and ok :: "'s \<Rightarrow> 'e \<Rightarrow> bool" and inv :: "'s \<Rightarrow> bool"
  assumes inv_init: "inv init"
    and inv_step: "ok s e \<Longrightarrow> inv s \<Longrightarrow> inv (step s e)"
begin

lemma inv_run_from: "run_ok step ok s es \<Longrightarrow> inv s \<Longrightarrow> inv (run step s es)"
  by (induction es arbitrary: s) (simp_all add: inv_step)

lemma inv_run: "run_ok step ok init es \<Longrightarrow> inv (run step init es)"
  by (rule inv_run_from [OF _ inv_init])

end

sublocale permitted_machine < stateful: fresh_machine init step "\<lambda>_. ok" inv
  by unfold_locales (auto intro: inv_init inv_step)

text \<open>A machine with a quantity no operation decreases (a counter, the set of issued ids).\<close>

locale growing_machine = guarded_machine init step inv
  for init :: 's and step :: "'s \<Rightarrow> 'e \<Rightarrow> 's" and inv :: "'s \<Rightarrow> bool" +
  fixes level :: "'s \<Rightarrow> 'o :: preorder"
  assumes level_step: "inv s \<Longrightarrow> level s \<le> level (step s e)"
begin

lemma level_run_from: "inv s \<Longrightarrow> level s \<le> level (run step s es)"
proof (induction es arbitrary: s)
  case Nil
  then show ?case by simp
next
  case (Cons e es)
  have "level s \<le> level (step s e)" using Cons.prems by (rule level_step)
  also have "\<dots> \<le> level (run step (step s e) es)" by (rule Cons.IH [OF inv_step [OF Cons.prems]])
  finally show ?case by simp
qed

lemma level_run_prefix: "level (run step init es) \<le> level (run step init (es @ fs))"
  unfolding run_append by (rule level_run_from [OF inv_run])

end

end
