(* ===== verification/SnmpBer.thy ===== *)
theory SnmpBer
  imports GoPrelude
begin

text \<open>
  The BER primitives of the agent's SNMP stack, \<open>src/cmd/agent/snmp_ber.go\<close>: lengths, TLV frames,
  signed and unsigned integers, object identifiers, and decoded values. An error return is
  \<^const>\<open>Inl\<close> with a constructor of \<open>ber_error\<close> per error message; \<open>int\<close> is 64 bits wide, so the
  check for a negative length after at most four length bytes never fires and has no branch here.
  The lemmas show that every decoder inverts its encoder, that frames split off a buffer without
  loss, and that reading a frame always shrinks the input.
\<close>

section \<open>Tags\<close>

abbreviation tagInteger :: byte where "tagInteger \<equiv> 0x02"
abbreviation tagOctetString :: byte where "tagOctetString \<equiv> 0x04"
abbreviation tagNull :: byte where "tagNull \<equiv> 0x05"
abbreviation tagOID :: byte where "tagOID \<equiv> 0x06"
abbreviation tagSequence :: byte where "tagSequence \<equiv> 0x30"
abbreviation tagIPAddress :: byte where "tagIPAddress \<equiv> 0x40"
abbreviation tagCounter32 :: byte where "tagCounter32 \<equiv> 0x41"
abbreviation tagGauge32 :: byte where "tagGauge32 \<equiv> 0x42"
abbreviation tagTimeTicks :: byte where "tagTimeTicks \<equiv> 0x43"
abbreviation tagOpaque :: byte where "tagOpaque \<equiv> 0x44"
abbreviation tagCounter64 :: byte where "tagCounter64 \<equiv> 0x46"
abbreviation tagNoSuchObject :: byte where "tagNoSuchObject \<equiv> 0x80"
abbreviation tagNoSuchInstance :: byte where "tagNoSuchInstance \<equiv> 0x81"
abbreviation tagEndOfMibView :: byte where "tagEndOfMibView \<equiv> 0x82"
abbreviation pduGet :: byte where "pduGet \<equiv> 0xA0"
abbreviation pduGetNext :: byte where "pduGetNext \<equiv> 0xA1"
abbreviation pduResponse :: byte where "pduResponse \<equiv> 0xA2"
abbreviation pduGetBulk :: byte where "pduGetBulk \<equiv> 0xA5"

datatype ber_error =
    MissingLength | IndefiniteLength | LengthFieldTooLong
  | TlvTooShort | TlvOverrun nat nat
  | EmptyInteger | IntegerTooLong | UnsignedTooLong
  | EmptyOid | OidTruncated | EmptyOidString | BadOidPart string
  | BadRequestId | BadErrorStatus | BadErrorIndex | BadVarbindList
  | VarbindNotSequence byte | BadVarbindOid | BadVarbindValue
  | OuterNotSequence | BadVersion | BadCommunity | BadPdu

section \<open>Lengths\<close>

fun length_bytes :: "nat \<Rightarrow> bytes \<Rightarrow> bytes" where
  "length_bytes n tmp = (if n > 0 then length_bytes (n div 256) (word_of_nat (n mod 256) # tmp) else tmp)"

declare length_bytes.simps [simp del]

definition encodeLength :: "nat \<Rightarrow> bytes" where
  "encodeLength n =
     (if n < 0x80 then [word_of_nat n]
      else let tmp = length_bytes n [] in (0x80 OR word_of_nat (length tmp)) # tmp)"

definition decodeLength :: "bytes \<Rightarrow> ber_error + (nat \<times> nat)" where
  "decodeLength b =
     (case b of [] \<Rightarrow> Inl MissingLength
      | first # more \<Rightarrow>
          if first < 0x80 then Inr (unat first, 1)
          else let numBytes = unat (first AND 0x7f)
               in if numBytes = 0 then Inl IndefiniteLength
                  else if numBytes > 4 \<or> 1 + numBytes > length b then Inl LengthFieldTooLong
                  else Inr (foldl (\<lambda>n x. n * 256 + unat x) 0 (take numBytes more), 1 + numBytes))"

section \<open>TLV frames\<close>

definition encodeTLV :: "byte \<Rightarrow> bytes \<Rightarrow> bytes" where
  "encodeTLV tag content = [tag] @ encodeLength (length content) @ content"

definition readTLV :: "bytes \<Rightarrow> ber_error + (byte \<times> bytes \<times> bytes)" where
  "readTLV b =
     (if length b < 2 then Inl TlvTooShort
      else case decodeLength (tl b) of
             Inl e \<Rightarrow> Inl e
           | Inr (len, hdr) \<Rightarrow>
               let start = 1 + hdr; stop = start + len
               in if stop > length b then Inl (TlvOverrun len (length b - start))
                  else Inr (hd b, take len (drop start b), drop stop b))"

section \<open>Signed integers\<close>

definition put_be64 :: "64 word \<Rightarrow> bytes" where
  "put_be64 v = map (\<lambda>i. ucast (drop_bit (8 * i) v)) [7, 6, 5, 4, 3, 2, 1, 0]"

fun strip_sign :: "byte \<Rightarrow> bool \<Rightarrow> bytes \<Rightarrow> bytes" where
  "strip_sign fill neg (b # c # bs) =
     (if b = fill \<and> (c AND 0x80 \<noteq> 0) = neg then strip_sign fill neg (c # bs) else b # c # bs)"
| "strip_sign fill neg bs = bs"

definition intContent :: "64 word \<Rightarrow> bytes" where
  "intContent v =
     (if 0 \<le>s v then strip_sign 0x00 False (put_be64 v) else strip_sign 0xff True (put_be64 v))"

definition encodeInteger :: "64 word \<Rightarrow> bytes" where
  "encodeInteger v = encodeTLV tagInteger (intContent v)"

definition shift_in :: "64 word \<Rightarrow> byte \<Rightarrow> 64 word" where
  "shift_in v b = push_bit 8 v OR ucast b"

definition decodeInteger :: "bytes \<Rightarrow> ber_error + 64 word" where
  "decodeInteger content =
     (case content of [] \<Rightarrow> Inl EmptyInteger
      | b # bs \<Rightarrow>
          if length content > 8 then Inl IntegerTooLong
          else Inr (foldl shift_in (if b AND 0x80 \<noteq> 0 then -1 else 0) content))"

section \<open>Unsigned integers\<close>

fun strip_zeros :: "bytes \<Rightarrow> bytes" where
  "strip_zeros (b # c # bs) = (if b = 0x00 then strip_zeros (c # bs) else b # c # bs)"
| "strip_zeros bs = bs"

definition uintContent :: "64 word \<Rightarrow> bytes" where
  "uintContent v =
     (if v = 0 then [0x00]
      else let content = strip_zeros (put_be64 v)
           in if hd content AND 0x80 \<noteq> 0 then 0x00 # content else content)"

definition encodeUnsigned :: "byte \<Rightarrow> 64 word \<Rightarrow> bytes" where
  "encodeUnsigned tag v = encodeTLV tag (uintContent v)"

definition decodeUnsigned :: "bytes \<Rightarrow> ber_error + 64 word" where
  "decodeUnsigned content =
     (if content = [] then Inr 0
      else if length content > 9 then Inl UnsignedTooLong
      else Inr (foldl shift_in 0 content))"

definition encodeOctetString :: "bytes \<Rightarrow> bytes" where
  "encodeOctetString b = encodeTLV tagOctetString b"

definition encodeNull :: bytes where
  "encodeNull = [tagNull, 0x00]"

section \<open>Object identifiers\<close>

type_synonym oid = "32 word list"

function base128_loop :: "32 word \<Rightarrow> bytes \<Rightarrow> bytes" where
  "base128_loop v tmp =
     (if v > 0 then base128_loop (drop_bit 7 v) (ucast (v AND 0x7f) # tmp) else tmp)"
  by pat_completeness auto
termination
proof (relation "measure (\<lambda>(v, tmp). unat v)")
  fix v :: "32 word" and tmp :: bytes
  assume "v > 0"
  then have "unat v > 0" by (simp add: word_greater_zero_iff unat_gt_0)
  then have "unat v div 128 < unat v" by simp
  then show "((drop_bit 7 v, ucast (v AND 0x7f) # tmp), (v, tmp)) \<in> measure (\<lambda>(v, tmp). unat v)"
    by (simp add: drop_bit_eq_div unat_div_distrib)
qed simp

declare base128_loop.simps [simp del]

definition encodeBase128 :: "32 word \<Rightarrow> bytes" where
  "encodeBase128 v =
     (if v = 0 then [0x00]
      else let tmp = base128_loop v [] in map (\<lambda>x. x OR 0x80) (butlast tmp) @ [last tmp])"

definition encodeOIDValue :: "oid \<Rightarrow> bytes" where
  "encodeOIDValue oid =
     (case oid of [] \<Rightarrow> [0x00]
      | [a] \<Rightarrow> encodeBase128 (40 * a)
      | a # b # subs \<Rightarrow> encodeBase128 (40 * a + b) @ concat (map encodeBase128 subs))"

definition encodeOID :: "oid \<Rightarrow> bytes" where
  "encodeOID oid = encodeTLV tagOID (encodeOIDValue oid)"

fun decode_oid_loop :: "32 word \<Rightarrow> bool \<Rightarrow> bool \<Rightarrow> oid \<Rightarrow> bytes \<Rightarrow> ber_error + oid" where
  "decode_oid_loop acc started firstDone out [] = (if started then Inl OidTruncated else Inr out)"
| "decode_oid_loop acc started firstDone out (b # bs) =
     (let acc' = push_bit 7 acc OR ucast (b AND 0x7f)
      in if b AND 0x80 = 0
         then (if \<not> firstDone
               then let a = (if acc' div 40 > 2 then 2 else acc' div 40)
                    in decode_oid_loop 0 False True (out @ [a, acc' - 40 * a]) bs
               else decode_oid_loop 0 False True (out @ [acc']) bs)
         else decode_oid_loop acc' True firstDone out bs)"

definition decodeOIDValue :: "bytes \<Rightarrow> ber_error + oid" where
  "decodeOIDValue content =
     (if content = [] then Inl EmptyOid else decode_oid_loop 0 False False [] content)"

fun parse_oid_parts :: "string list \<Rightarrow> ber_error + oid" where
  "parse_oid_parts [] = Inr []"
| "parse_oid_parts (p # ps) =
     (case parse_uint 10 32 p of
        None \<Rightarrow> Inl (BadOidPart p)
      | Some n \<Rightarrow> (case parse_oid_parts ps of Inl e \<Rightarrow> Inl e | Inr out \<Rightarrow> Inr (word_of_nat n # out)))"

definition parseOID :: "string \<Rightarrow> ber_error + oid" where
  "parseOID s0 =
     (let s = trim_prefix (trim_space s0) ''.''
      in if s = [] then Inl EmptyOidString else parse_oid_parts (split_sep s ''.''))"

fun oidToString :: "oid \<Rightarrow> string" where
  "oidToString [] = []"
| "oidToString [v] = show_nat (unat v)"
| "oidToString (v # w # vs) = show_nat (unat v) @ ''.'' @ oidToString (w # vs)"

fun oidHasPrefix :: "oid \<Rightarrow> oid \<Rightarrow> bool" where
  "oidHasPrefix oid [] = True"
| "oidHasPrefix [] (p # ps) = False"
| "oidHasPrefix (v # vs) (p # ps) = (v = p \<and> oidHasPrefix vs ps)"

definition oidEqual :: "oid \<Rightarrow> oid \<Rightarrow> bool" where
  "oidEqual a b \<longleftrightarrow> length a = length b \<and> list_all (\<lambda>(x, y). x = y) (zip a b)"

section \<open>Values\<close>

record snmp_value =
  vTag :: byte
  vInt :: "64 word"
  vUint :: "64 word"
  vBytes :: bytes
  vOID :: oid
  vExc :: byte

definition blank_value :: "byte \<Rightarrow> snmp_value" where
  "blank_value tag = \<lparr>vTag = tag, vInt = 0, vUint = 0, vBytes = [], vOID = [], vExc = 0\<rparr>"

definition decodeValue :: "byte \<Rightarrow> bytes \<Rightarrow> ber_error + snmp_value" where
  "decodeValue tag content =
     (let v = blank_value tag
      in if tag = tagInteger then
           (case decodeInteger content of Inl e \<Rightarrow> Inl e | Inr i \<Rightarrow> Inr (v\<lparr>vInt := i\<rparr>))
         else if tag \<in> {tagCounter32, tagGauge32, tagTimeTicks, tagCounter64} then
           (case decodeUnsigned content of Inl e \<Rightarrow> Inl e | Inr u \<Rightarrow> Inr (v\<lparr>vUint := u\<rparr>))
         else if tag \<in> {tagOctetString, tagOpaque, tagIPAddress} then Inr (v\<lparr>vBytes := content\<rparr>)
         else if tag = tagOID then
           (case decodeOIDValue content of Inl e \<Rightarrow> Inl e | Inr o' \<Rightarrow> Inr (v\<lparr>vOID := o'\<rparr>))
         else if tag = tagNull then Inr v
         else if tag \<in> {tagNoSuchObject, tagNoSuchInstance, tagEndOfMibView} then Inr (v\<lparr>vExc := tag\<rparr>)
         else Inr (v\<lparr>vBytes := content\<rparr>))"

definition hex2 :: "byte \<Rightarrow> string" where
  "hex2 b = [digit_char (unat b div 16), digit_char (unat b mod 16)]"

definition hexString :: "bytes \<Rightarrow> string" where
  "hexString b = concat (map (\<lambda>c. [digit_char (unat (drop_bit 4 c)), digit_char (unat (c AND 0x0f))]) b)"

definition isPrintable :: "bytes \<Rightarrow> bool" where
  "isPrintable b = list_all (\<lambda>c. c = 0x09 \<or> c = 0x0a \<or> c = 0x0d \<or> \<not> (c < 0x20 \<or> c > 0x7e)) b"

definition valueKind :: "snmp_value \<Rightarrow> string" where
  "valueKind v =
     (let t = vTag v
      in if t = tagInteger then ''Integer''
         else if t = tagCounter32 then ''Counter32''
         else if t = tagGauge32 then ''Gauge32''
         else if t = tagTimeTicks then ''TimeTicks''
         else if t = tagCounter64 then ''Counter64''
         else if t = tagOctetString then ''OctetString''
         else if t = tagIPAddress then ''IpAddress''
         else if t = tagOpaque then ''Opaque''
         else if t = tagOID then ''OID''
         else if t = tagNull then ''Null''
         else if t = tagNoSuchObject then ''noSuchObject''
         else if t = tagNoSuchInstance then ''noSuchInstance''
         else if t = tagEndOfMibView then ''endOfMibView''
         else ''tag_0x'' @ hex2 t)"

definition valueString :: "snmp_value \<Rightarrow> string" where
  "valueString v =
     (let t = vTag v; bs = vBytes v
      in if t = tagInteger then show_int (sint (vInt v))
         else if t \<in> {tagCounter32, tagGauge32, tagTimeTicks, tagCounter64} then
           show_nat (unat (vUint v))
         else if t = tagIPAddress then
           (case bs of
              [a, b, c, d] \<Rightarrow> show_nat (unat a) @ ''.'' @ show_nat (unat b) @ ''.'' @
                show_nat (unat c) @ ''.'' @ show_nat (unat d)
            | _ \<Rightarrow> concat (map hex2 bs))
         else if t \<in> {tagOctetString, tagOpaque} then
           (if isPrintable bs then string_of_bytes bs else ''0x'' @ hexString bs)
         else if t = tagOID then oidToString (vOID v)
         else if t = tagNull then ''''
         else if t \<in> {tagNoSuchObject, tagNoSuchInstance, tagEndOfMibView} then valueKind v
         else ''0x'' @ hexString bs)"

section \<open>Framing\<close>

lemma foldl_be_nat: "foldl (\<lambda>n x. n * 256 + unat x) a bs = a * 256 ^ length bs + be_nat bs"
  by (induction bs arbitrary: a) (simp_all add: algebra_simps)

lemma length_bytes_append: "length_bytes n tmp = length_bytes n [] @ tmp"
proof (induction n arbitrary: tmp rule: less_induct)
  case (less n)
  show ?case
  proof (cases "n > 0")
    case True
    then have "length_bytes (n div 256) xs = length_bytes (n div 256) [] @ xs" for xs
      by (intro less.IH) simp
    with True show ?thesis by (metis append.assoc append_Cons append_Nil length_bytes.simps)
  qed (simp add: length_bytes.simps)
qed

lemma length_bytes_0 [simp]: "length_bytes 0 [] = []"
  by (subst length_bytes.simps) simp

lemma length_bytes_step:
  "n > 0 \<Longrightarrow> length_bytes n [] = length_bytes (n div 256) [] @ [word_of_nat (n mod 256)]"
  by (subst length_bytes.simps) (simp add: length_bytes_append [of "n div 256" "[_]"])

lemma be_nat_length_bytes [simp]: "be_nat (length_bytes n []) = n"
proof (induction n rule: less_induct)
  case (less n)
  show ?case
  proof (cases "n > 0")
    case True
    then have "be_nat (length_bytes (n div 256) []) = n div 256" by (intro less.IH) simp
    with True show ?thesis
      by (simp add: length_bytes_step be_nat_append unsigned_of_nat take_bit_eq_mod)
  qed simp
qed

lemma length_length_bytes: "n < 256 ^ k \<Longrightarrow> length (length_bytes n []) \<le> k"
proof (induction k arbitrary: n)
  case 0
  then show ?case by simp
next
  case (Suc k)
  show ?case
  proof (cases "n > 0")
    case True
    from Suc.prems have "n div 256 < 256 ^ k" by (simp add: less_mult_imp_div_less mult.commute)
    with True Suc.IH show ?thesis by (simp add: length_bytes_step)
  qed simp
qed

lemma length_bytes_not_Nil: "n > 0 \<Longrightarrow> length_bytes n [] \<noteq> []"
  by (simp add: length_bytes_step)

lemma length_marker:
  assumes "1 \<le> k" and "k \<le> (4 :: nat)"
  shows "\<not> (0x80 OR word_of_nat k :: byte) < 0x80"
    and "unat ((0x80 OR word_of_nat k :: byte) AND 0x7f) = k"
proof -
  from assms consider "k = 1" | "k = 2" | "k = 3" | "k = 4" by linarith
  then show "\<not> (0x80 OR word_of_nat k :: byte) < 0x80"
    and "unat ((0x80 OR word_of_nat k :: byte) AND 0x7f) = k"
    by (cases; simp)+
qed

lemma decodeLength_encodeLength:
  assumes "n < 2 ^ 32"
  shows "decodeLength (encodeLength n @ rest) = Inr (n, length (encodeLength n))"
proof (cases "n < 0x80")
  case True
  then have "(word_of_nat n :: byte) < 0x80"
    by (simp add: word_less_nat_alt unsigned_of_nat take_bit_eq_mod)
  with True show ?thesis
    by (simp add: encodeLength_def decodeLength_def unsigned_of_nat take_bit_eq_mod)
next
  case False
  let ?t = "length_bytes n []"
  have "length ?t \<le> 4" using assms by (intro length_length_bytes) simp
  moreover have "1 \<le> length ?t"
    using False length_bytes_not_Nil [of n] by (cases "length_bytes n []") auto
  ultimately show ?thesis using False length_marker [of "length ?t"] length_bytes_not_Nil [of n]
    by (simp add: encodeLength_def decodeLength_def Let_def foldl_be_nat)
qed

lemma encodeLength_not_Nil [simp]: "encodeLength n \<noteq> []"
  by (simp add: encodeLength_def Let_def)

lemma length_encodeLength: "n < 2 ^ 32 \<Longrightarrow> length (encodeLength n) \<le> 5"
  using length_length_bytes [of n 4] by (simp add: encodeLength_def Let_def)

lemma readTLV_encodeTLV:
  assumes "length content < 2 ^ 32"
  shows "readTLV (encodeTLV tag content @ rest) = Inr (tag, content, rest)"
proof -
  let ?l = "encodeLength (length content)"
  have "\<not> length (encodeTLV tag content @ rest) < 2"
    by (cases ?l) (simp_all add: encodeTLV_def)
  moreover have "decodeLength (tl (encodeTLV tag content @ rest)) = Inr (length content, length ?l)"
    using decodeLength_encodeLength [OF assms, of "content @ rest"] by (simp add: encodeTLV_def)
  ultimately show ?thesis by (simp add: readTLV_def encodeTLV_def)
qed

text \<open>Reading a frame splits the buffer: header, content and rest, with a header of two bytes or more.\<close>

lemma decodeLength_hdr: "decodeLength b = Inr (n, h) \<Longrightarrow> 1 \<le> h \<and> h \<le> length b"
  by (auto simp: decodeLength_def Let_def split: list.splits if_splits)

lemma readTLV_split:
  assumes "readTLV b = Inr (tag, content, rest)"
  shows "\<exists>hdr. b = hdr @ content @ rest \<and> 2 \<le> length hdr \<and> hd b = tag"
proof -
  from assms obtain n h where len: "\<not> length b < 2"
    and dl: "decodeLength (tl b) = Inr (n, h)"
    and fits: "\<not> 1 + h + n > length b"
    and res: "tag = hd b" "content = take n (drop (1 + h) b)" "rest = drop (1 + h + n) b"
    by (auto simp: readTLV_def Let_def split: if_splits sum.splits prod.splits)
  have "b = take (1 + h) b @ take n (drop (1 + h) b) @ drop (1 + h + n) b"
    by (metis append_take_drop_id drop_drop add.commute)
  moreover have "2 \<le> length (take (1 + h) b)"
    using decodeLength_hdr [OF dl] len by (cases b) auto
  ultimately show ?thesis using res by metis
qed

lemma readTLV_shrinks:
  "readTLV b = Inr (tag, content, rest) \<Longrightarrow> length content + length rest + 2 \<le> length b"
  by (drule readTLV_split) auto

section \<open>Integers\<close>

lemma shift_in_arith: "shift_in v b = v * 256 + ucast b"
proof -
  have "push_bit 8 v AND ucast b = 0"
    by (rule bit_eqI) (auto simp: bit_simps dest: bit_imp_le_length)
  then have "push_bit 8 v OR ucast b = push_bit 8 v + ucast b"
    by (simp add: disjunctive_add_eq_or)
  then show ?thesis by (simp add: shift_in_def push_bit_eq_mult)
qed

lemma foldl_shift_in: "foldl shift_in a bs = a * 256 ^ length bs + word_of_nat (be_nat bs)"
proof (induction bs arbitrary: a)
  case (Cons b bs)
  have "(ucast b :: 64 word) = word_of_nat (unat b)" by simp
  with Cons show ?case by (simp add: shift_in_arith algebra_simps)
qed simp

lemma put_be64_eq: "put_be64 v = map (\<lambda>i. ucast (drop_bit (8 * i) v)) (rev [0..<8])"
  by (simp add: put_be64_def upt_rec)

lemma length_put_be64 [simp]: "length (put_be64 v) = 8"
  by (simp add: put_be64_def)

lemma unat_byte_of_word: "unat (ucast (drop_bit (8 * i) (v :: 64 word)) :: byte) = unat v div 256 ^ i mod 256"
proof -
  have "(256 :: nat) ^ i = 2 ^ (8 * i)" by (simp add: power_mult)
  moreover have "unat (ucast (drop_bit (8 * i) v) :: byte) = drop_bit (8 * i) (unat v) mod 256"
    by (simp only: unsigned_ucast_eq unat_drop_bit_eq take_bit_eq_mod) simp
  ultimately show ?thesis by (simp only: drop_bit_eq_div)
qed

lemma be_nat_bytes_of_word:
  "be_nat (map (\<lambda>i. ucast (drop_bit (8 * i) (v :: 64 word))) (rev [0..<k])) = unat v mod 256 ^ k"
proof (induction k)
  case (Suc k)
  have "unat v mod (256 ^ k * 256) = 256 ^ k * (unat v div 256 ^ k mod 256) + unat v mod 256 ^ k"
    by (rule mod_mult2_eq)
  with Suc unat_byte_of_word [of k v] show ?case by (simp add: mult.commute)
qed simp

lemma be_nat_put_be64 [simp]: "be_nat (put_be64 v) = unat v"
proof -
  have "unat v < 256 ^ 8" using unsigned_less [of v, where 'a = nat] by simp
  then show ?thesis unfolding put_be64_eq be_nat_bytes_of_word by simp
qed

definition sign_init :: "bytes \<Rightarrow> 64 word" where
  "sign_init bs = (if hd bs AND 0x80 \<noteq> 0 then -1 else 0)"

lemma strip_sign_props:
  assumes "(fill, neg) = (0x00, False) \<or> (fill, neg) = (0xff, True)" and "bs \<noteq> []"
  shows "foldl shift_in (sign_init (strip_sign fill neg bs)) (strip_sign fill neg bs)
         = foldl shift_in (sign_init bs) bs"
    and "strip_sign fill neg bs \<noteq> []"
    and "length (strip_sign fill neg bs) \<le> length bs"
  using assms
  by (induction fill neg bs rule: strip_sign.induct) (auto simp: sign_init_def shift_in_arith)

lemma decode_put_be64: "foldl shift_in (sign_init (put_be64 v)) (put_be64 v) = v"
  by (simp add: foldl_shift_in sign_init_def)

lemma intContent_strip:
  "\<exists>fill neg. ((fill, neg) = (0x00, False) \<or> (fill, neg) = (0xff, True))
     \<and> intContent v = strip_sign fill neg (put_be64 v)"
  by (auto simp: intContent_def)

lemma intContent_bounds: "intContent v \<noteq> []" "length (intContent v) \<le> 8"
proof -
  from intContent_strip obtain fill neg
    where k: "(fill, neg) = (0x00, False) \<or> (fill, neg) = (0xff, True)"
      and e: "intContent v = strip_sign fill neg (put_be64 v)" by blast
  have ne: "put_be64 v \<noteq> []" by (simp add: put_be64_def)
  show "intContent v \<noteq> []" "length (intContent v) \<le> 8"
    using strip_sign_props(2,3) [OF k ne] by (simp_all add: e)
qed

lemma decodeInteger_intContent: "decodeInteger (intContent v) = Inr v"
proof -
  from intContent_strip obtain fill neg
    where k: "(fill, neg) = (0x00, False) \<or> (fill, neg) = (0xff, True)"
      and e: "intContent v = strip_sign fill neg (put_be64 v)" by blast
  have ne: "put_be64 v \<noteq> []" by (simp add: put_be64_def)
  have "foldl shift_in (sign_init (intContent v)) (intContent v) = v"
    unfolding e using strip_sign_props(1) [OF k ne] decode_put_be64 by metis
  then show ?thesis using intContent_bounds [of v]
    by (auto simp: decodeInteger_def sign_init_def split: list.splits)
qed

lemma strip_zeros_props:
  assumes "bs \<noteq> []"
  shows "be_nat (strip_zeros bs) = be_nat bs" and "strip_zeros bs \<noteq> []"
    and "length (strip_zeros bs) \<le> length bs"
  using assms by (induction bs rule: strip_zeros.induct) auto

lemma uintContent_bounds: "uintContent v \<noteq> []" "length (uintContent v) \<le> 9"
  using strip_zeros_props(2,3) [of "put_be64 v"] by (auto simp: uintContent_def Let_def put_be64_def)

lemma put_be64_not_Nil [simp]: "put_be64 v \<noteq> []"
  by (simp add: put_be64_def)

lemma be_nat_uintContent: "be_nat (uintContent v) = unat v"
  by (simp add: uintContent_def Let_def strip_zeros_props(1))

lemma decodeUnsigned_uintContent: "decodeUnsigned (uintContent v) = Inr v"
  using uintContent_bounds [of v] by (simp add: decodeUnsigned_def foldl_shift_in be_nat_uintContent)

section \<open>Object identifiers round trip\<close>

lemma mask7: "(0x7f :: byte) = mask 7" "(0x7f :: 32 word) = mask 7"
  by (simp_all add: mask_eq_exp_minus_1)

lemma low7:
  fixes w :: "32 word"
  shows "push_bit 7 (drop_bit 7 w) OR ucast ((ucast (w AND 0x7f) :: byte) AND 0x7f) = w"
    and "(ucast (w AND 0x7f) :: byte) AND 0x80 = 0"
    and "((ucast (w AND 0x7f) :: byte) OR 0x80) AND 0x7f = (ucast (w AND 0x7f) :: byte) AND 0x7f"
    and "((ucast (w AND 0x7f) :: byte) OR 0x80) AND 0x80 \<noteq> 0"
proof -
  show "push_bit 7 (drop_bit 7 w) OR ucast ((ucast (w AND 0x7f) :: byte) AND 0x7f) = w"
  proof (rule bit_eqI)
    fix n
    show "bit (push_bit 7 (drop_bit 7 w) OR ucast ((ucast (w AND 0x7f) :: byte) AND 0x7f)) n = bit w n"
      by (cases "n < 7") (auto simp: mask7 bit_simps dest: bit_imp_le_length)
  qed
  have low: "(ucast (w AND 0x7f) :: byte) = ucast w AND 0x7f"
    by (rule bit_eqI) (auto simp: mask7 bit_simps)
  show "(ucast (w AND 0x7f) :: byte) AND 0x80 = 0"
    unfolding low by (simp add: and.assoc)
  show "((ucast (w AND 0x7f) :: byte) OR 0x80) AND 0x7f = (ucast (w AND 0x7f) :: byte) AND 0x7f"
    by (simp add: bit.conj_disj_distrib2)
  have "((ucast (w AND 0x7f) :: byte) OR 0x80) AND 0x80 = 0x80"
    unfolding low by (simp add: bit.conj_disj_distrib2 and.assoc)
  then show "((ucast (w AND 0x7f) :: byte) OR 0x80) AND 0x80 \<noteq> 0" by simp
qed

lemma drop_bit7_less: "(w :: 32 word) > 0 \<Longrightarrow> unat (drop_bit 7 w) < unat w"
  by (simp add: drop_bit_eq_div unat_div_distrib word_greater_zero_iff unat_gt_0)

lemma base128_append: "base128_loop v tmp = base128_loop v [] @ tmp"
proof (induction "unat v" arbitrary: v tmp rule: less_induct)
  case less
  show ?case
  proof (cases "v > 0")
    case True
    then have "base128_loop (drop_bit 7 v) xs = base128_loop (drop_bit 7 v) [] @ xs" for xs
      by (intro less.hyps drop_bit7_less)
    with True show ?thesis by (metis append.assoc append_Cons append_Nil base128_loop.simps)
  qed (simp add: base128_loop.simps)
qed

lemma base128_0 [simp]: "base128_loop 0 [] = []"
  by (subst base128_loop.simps) simp

lemma base128_step:
  "v > 0 \<Longrightarrow> base128_loop v [] = base128_loop (drop_bit 7 v) [] @ [ucast (v AND 0x7f)]"
  by (subst base128_loop.simps) (simp add: base128_append [of "drop_bit 7 v" "[_]"])

lemma decode_continuation:
  "decode_oid_loop 0 False fd out (map (\<lambda>x. x OR 0x80) (base128_loop w []) @ rest)
   = decode_oid_loop w (w > 0) fd out rest"
proof (induction "unat w" arbitrary: w rest rule: less_induct)
  case less
  show ?case
  proof (cases "w > 0")
    case True
    then show ?thesis
      by (simp add: base128_step less.hyps [OF drop_bit7_less] low7 Let_def)
  qed (simp add: word_greater_zero_iff)
qed

definition emit_subid :: "bool \<Rightarrow> oid \<Rightarrow> 32 word \<Rightarrow> oid" where
  "emit_subid fd out v =
     (if fd then out @ [v]
      else let a = (if v div 40 > 2 then 2 else v div 40) in out @ [a, v - 40 * a])"

lemma decode_base128:
  "decode_oid_loop 0 False fd out (encodeBase128 v @ rest)
   = decode_oid_loop 0 False True (emit_subid fd out v) rest"
proof (cases "v = 0")
  case True
  then show ?thesis by (simp add: encodeBase128_def emit_subid_def Let_def)
next
  case False
  then have "v > 0" by (simp add: word_greater_zero_iff)
  then show ?thesis
    by (simp add: encodeBase128_def base128_step decode_continuation low7 Let_def emit_subid_def)
qed

lemma decode_subids:
  "decode_oid_loop 0 False True out (concat (map encodeBase128 vs)) = Inr (out @ vs)"
proof (induction vs arbitrary: out)
  case (Cons v vs)
  then show ?case by (simp add: decode_base128 emit_subid_def)
qed simp

text \<open>The identifiers ITU-T X.690 can encode: two arcs or more, the first at most 2, the second below 40
  under arcs 0 and 1, and a first subidentifier of 32 bits.\<close>

definition wf_oid :: "oid \<Rightarrow> bool" where
  "wf_oid oid \<longleftrightarrow> (case oid of a # b # subs \<Rightarrow>
     unat a \<le> 2 \<and> (unat a < 2 \<longrightarrow> unat b < 40) \<and> 80 + unat b < 2 ^ 32 | _ \<Rightarrow> False)"

lemma first_arcs:
  fixes a b :: "32 word"
  assumes "unat a \<le> 2" and "unat a < 2 \<longrightarrow> unat b < 40" and "80 + unat b < 2 ^ 32"
  shows "emit_subid False out (40 * a + b) = out @ [a, b]"
proof -
  have u: "unat (40 * a + b) = 40 * unat a + unat b"
    using assms by (simp add: unat_word_ariths)
  have a: "a = word_of_nat (unat a)" by simp
  have "(if (40 * a + b) div 40 > 2 then 2 else (40 * a + b) div 40) = a"
  proof (cases "unat a < 2")
    case True
    then have "unat ((40 * a + b) div 40) = unat a"
      using assms by (simp add: unat_div_distrib u)
    then have "(40 * a + b) div 40 = a" by (simp add: word_unat_eq_iff)
    with True show ?thesis by (simp add: word_less_nat_alt)
  next
    case False
    with assms(1) have "a = 2" by (simp add: word_unat_eq_iff)
    have "unat ((40 * a + b) div 40) \<ge> 2"
      using False assms(1) by (simp add: unat_div_distrib u)
    then have "\<not> (40 * a + b) div 40 < 2" by (simp add: word_less_nat_alt)
    with \<open>a = 2\<close> show ?thesis by (auto simp: not_less)
  qed
  then show ?thesis by (simp add: emit_subid_def Let_def)
qed

lemma encodeBase128_not_Nil [simp]: "encodeBase128 v \<noteq> []"
  by (simp add: encodeBase128_def Let_def)

lemma encodeOIDValue_not_Nil [simp]: "encodeOIDValue oid \<noteq> []"
  by (auto simp: encodeOIDValue_def split: list.splits)

lemma decodeOIDValue_encodeOIDValue:
  assumes "wf_oid oid"
  shows "decodeOIDValue (encodeOIDValue oid) = Inr oid"
proof -
  from assms obtain a b subs where oid: "oid = a # b # subs"
    and ab: "unat a \<le> 2" "unat a < 2 \<longrightarrow> unat b < 40" "80 + unat b < 2 ^ 32"
    by (auto simp: wf_oid_def split: list.splits)
  have "decode_oid_loop 0 False False [] (encodeOIDValue oid) = Inr oid"
    by (simp add: oid encodeOIDValue_def decode_base128 first_arcs [OF ab] decode_subids)
  then show ?thesis by (simp add: decodeOIDValue_def)
qed

lemma length_encodeBase128: "length (encodeBase128 v) \<le> 5"
proof -
  have "unat w < 128 ^ k \<Longrightarrow> length (base128_loop w []) \<le> k" for w :: "32 word" and k
  proof (induction k arbitrary: w)
    case 0
    then have "w = 0" by (simp add: unat_eq_0)
    then show ?case by simp
  next
    case (Suc k)
    show ?case
    proof (cases "w > 0")
      case True
      have "unat (drop_bit 7 w) < 128 ^ k"
        using Suc.prems by (simp add: drop_bit_eq_div unat_div_distrib less_mult_imp_div_less mult.commute)
      with True Suc.IH show ?thesis by (simp add: base128_step)
    qed (simp add: word_greater_zero_iff)
  qed
  moreover have "unat v < 128 ^ 5" using unsigned_less [of v, where 'a = nat] by simp
  ultimately have "length (base128_loop v []) \<le> 5" .
  then show ?thesis by (auto simp: encodeBase128_def Let_def)
qed

lemma length_encodeOIDValue: "length (encodeOIDValue oid) \<le> 5 * length oid + 1"
proof -
  have "length (concat (map encodeBase128 vs)) \<le> 5 * length vs" for vs
  proof (induction vs)
    case (Cons v vs)
    then show ?case using length_encodeBase128 [of v] by simp
  qed simp
  note tail = this
  show ?thesis
  proof (cases oid rule: remdups_adj.cases)
    case (2 a)
    then show ?thesis using length_encodeBase128 [of "40 * a"] by (simp add: encodeOIDValue_def)
  next
    case (3 a b subs)
    then show ?thesis using length_encodeBase128 [of "40 * a + b"] tail [of subs]
      by (simp add: encodeOIDValue_def)
  qed (simp add: encodeOIDValue_def)
qed

lemma oidToString_join: "oidToString oid = join ''.'' (map (\<lambda>v. show_nat (unat v)) oid)"
  by (induction oid rule: oidToString.induct) simp_all

lemma parse_oid_parts_show:
  "parse_oid_parts (map (\<lambda>v. show_nat (unat v)) oid) = Inr oid"
proof (induction oid)
  case (Cons v oid)
  have "unat v < 2 ^ 32" using unsigned_less [of v, where 'a = nat] by simp
  with Cons show ?case by (simp add: parse_uint_show_nat)
qed simp

lemma parseOID_oidToString:
  assumes "oid \<noteq> []"
  shows "parseOID (oidToString oid) = Inr oid"
proof -
  let ?parts = "map (\<lambda>v. show_nat (unat v)) oid"
  have dot: "CHR ''.'' \<notin> set (show_nat n)" for n
    using show_nat_digits [of "CHR ''.''" n] by auto
  have chars: "(of_char c :: nat) \<in> {46} \<union> {48..57}" if "c \<in> set (oidToString oid)" for c
    using that set_join [of "''.''" ?parts] show_nat_digits by (fastforce simp: oidToString_join)
  have "\<not> is_space c" if "c \<in> set (oidToString oid)" for c
    using chars [OF that] by (auto simp: is_space_def Let_def)
  then have trim: "trim_space (oidToString oid) = oidToString oid" by (simp add: trim_space_id)
  obtain v vs where oid: "oid = v # vs" using assms by (cases oid) auto
  have hd: "\<exists>c cs. oidToString oid = c # cs \<and> c \<noteq> CHR ''.''"
  proof -
    have "\<exists>c cs. show_nat (unat v) = c # cs \<and> c \<noteq> CHR ''.''"
      using dot [of "unat v"] by (cases "show_nat (unat v)") auto
    then show ?thesis by (cases vs) (auto simp: oid)
  qed
  then have "trim_prefix (oidToString oid) ''.'' = oidToString oid"
    by (auto simp: trim_prefix_def has_prefix_def)
  moreover have "split_sep (oidToString oid) ''.'' = ?parts"
    unfolding oidToString_join using assms dot by (intro split_sep_join) auto
  ultimately show ?thesis using hd
    by (auto simp: parseOID_def trim parse_oid_parts_show Let_def)
qed

section \<open>The contract of a content codec\<close>

text \<open>
  What the frame layer relies on: a decoder that inverts its encoder on the values it accepts, and
  contents short enough for a four-byte length. Two framed values never share a prefix.
\<close>

locale ber_codec =
  fixes enc :: "'a \<Rightarrow> bytes" and dec :: "bytes \<Rightarrow> ber_error + 'a" and ok :: "'a \<Rightarrow> bool"
  assumes dec_enc: "ok x \<Longrightarrow> dec (enc x) = Inr x"
    and enc_fits: "ok x \<Longrightarrow> length (enc x) < 2 ^ 32"
begin

lemma framed: "ok x \<Longrightarrow> readTLV (encodeTLV tag (enc x) @ rest) = Inr (tag, enc x, rest)"
  by (rule readTLV_encodeTLV) (rule enc_fits)

lemma framed_alone: "ok x \<Longrightarrow> readTLV (encodeTLV tag (enc x)) = Inr (tag, enc x, [])"
  using framed [of x tag "[]"] by simp

lemma framed_decode:
  assumes "ok x"
  shows "\<exists>c. readTLV (encodeTLV tag (enc x) @ rest) = Inr (tag, c, rest) \<and> dec c = Inr x"
  using framed [OF assms] dec_enc [OF assms] by blast

lemma framed_inj:
  assumes "ok x" and "ok y"
    and "encodeTLV tag (enc x) @ rest = encodeTLV tag' (enc y) @ rest'"
  shows "x = y \<and> tag = tag' \<and> rest = rest'"
proof -
  have "readTLV (encodeTLV tag' (enc y) @ rest') = Inr (tag, enc x, rest)"
    using framed [OF assms(1), of tag rest] unfolding assms(3) .
  then have e: "tag = tag'" "enc x = enc y" "rest = rest'"
    unfolding framed [OF assms(2), of tag' rest'] by simp_all
  from e(2) have "dec (enc x) = dec (enc y)" by (rule arg_cong)
  then have "x = y" unfolding dec_enc [OF assms(1)] dec_enc [OF assms(2)] by simp
  with e show ?thesis by simp
qed

end

definition ok_oid :: "oid \<Rightarrow> bool" where
  "ok_oid oid \<longleftrightarrow> wf_oid oid \<and> length oid \<le> 2 ^ 20"

definition ok_octets :: "bytes \<Rightarrow> bool" where
  "ok_octets b \<longleftrightarrow> length b < 2 ^ 32"

interpretation int_codec: ber_codec intContent decodeInteger "\<lambda>_. True"
proof unfold_locales
  fix v
  show "decodeInteger (intContent v) = Inr v" by (rule decodeInteger_intContent)
  show "length (intContent v) < 2 ^ 32" using intContent_bounds(2) [of v] by simp
qed

interpretation uint_codec: ber_codec uintContent decodeUnsigned "\<lambda>_. True"
proof unfold_locales
  fix v
  show "decodeUnsigned (uintContent v) = Inr v" by (rule decodeUnsigned_uintContent)
  show "length (uintContent v) < 2 ^ 32" using uintContent_bounds(2) [of v] by simp
qed

interpretation oid_codec: ber_codec encodeOIDValue decodeOIDValue ok_oid
proof unfold_locales
  fix oid
  assume "ok_oid oid"
  then have w: "wf_oid oid" and l: "length oid \<le> 2 ^ 20" by (simp_all add: ok_oid_def)
  show "decodeOIDValue (encodeOIDValue oid) = Inr oid" using w by (rule decodeOIDValue_encodeOIDValue)
  show "length (encodeOIDValue oid) < 2 ^ 32" using length_encodeOIDValue [of oid] l by simp
qed

interpretation octets_codec: ber_codec "\<lambda>b. b" Inr ok_octets
  by unfold_locales (simp_all add: ok_octets_def)

section \<open>Properties\<close>

text \<open>Reading a tag-length-value element never invents or loses a byte: the data is a header of
  at least two bytes, the content and the rest, in this order; a failed read is one of the
  malformed lengths, or a length that promises more bytes than there are.\<close>

theorem readTLV_exact:
  "case readTLV b of
     Inr (tag, content, rest) \<Rightarrow> \<exists>hdr. b = hdr @ content @ rest \<and> 2 \<le> length hdr \<and> hd b = tag
   | Inl e \<Rightarrow> e \<in> {TlvTooShort, MissingLength, IndefiniteLength, LengthFieldTooLong} \<or>
       (\<exists>n m. e = TlvOverrun n m \<and> m < n)"
proof (cases "readTLV b")
  case (Inr r)
  then show ?thesis using readTLV_split [of b] by (cases r) simp
next
  case (Inl e)
  have "e' \<in> {MissingLength, IndefiniteLength, LengthFieldTooLong}" if "decodeLength (tl b) = Inl e'" for e'
    using that by (auto simp: decodeLength_def Let_def split: list.splits if_splits)
  moreover have "h \<le> length b - 1" if "decodeLength (tl b) = Inr (n, h)" for n h
    using decodeLength_hdr [OF that] by simp
  ultimately show ?thesis using Inl
    by (fastforce simp: readTLV_def Let_def split: if_splits sum.splits)
qed

text \<open>Every 64-bit integer, signed and unsigned, is the value of its own encoding, which takes one to
  eight bytes (nine for an unsigned one with its top bit set).\<close>

theorem integer_codecs_roundtrip:
  "decodeInteger (intContent v) = Inr v \<and> length (intContent v) \<in> {1..8} \<and>
   decodeUnsigned (uintContent w) = Inr w \<and> length (uintContent w) \<in> {1..9}"
  using int_codec.dec_enc [OF TrueI, of v] uint_codec.dec_enc [OF TrueI, of w]
    intContent_bounds [of v] uintContent_bounds [of w]
  by (cases "intContent v"; cases "uintContent w") simp_all

text \<open>An object identifier with well-formed first arcs survives both of its representations: the
  base-128 bytes on the wire and the dotted text.\<close>

theorem oid_roundtrip:
  assumes "wf_oid oid"
  shows "decodeOIDValue (encodeOIDValue oid) = Inr oid \<and> parseOID (oidToString oid) = Inr oid"
  using decodeOIDValue_encodeOIDValue [OF assms] parseOID_oidToString [of oid] assms
  by (cases oid) (simp_all add: wf_oid_def)

theorem oid_roundtrip_witness:
  "decodeOIDValue (encodeOIDValue [1, 3, 6, 1, 4, 1, 2011]) = Inr [1, 3, 6, 1, 4, 1, 2011] \<and>
   parseOID (oidToString [1, 3, 6, 1, 4, 1, 2011]) = Inr [1, 3, 6, 1, 4, 1, 2011]"
  by (rule oid_roundtrip) (simp add: wf_oid_def)

end
