(* ===== verification/SnmpPdu.thy ===== *)
theory SnmpPdu
  imports SnmpBer
begin

text \<open>
  SNMP PDUs and v2c messages, \<open>src/cmd/agent/snmp_pdu.go\<close>: building requests, parsing PDUs,
  varbind lists and messages. Where the Go code returns an error together with a half-filled
  result, the model keeps the error only; its callers never read the rest. A failed
  \<open>decodeInteger\<close> whose error is discarded yields 0, as in the code. The lemmas show that parsing
  inverts building for every request, that parsing a varbind list ends, and that a message never
  yields more varbinds than its bytes allow.
\<close>

record varbind =
  vbOid :: oid
  vbValue :: snmp_value

record pdu =
  pduType :: byte
  requestID :: "32 word"
  errStatus :: "64 word"
  errIndex :: "64 word"
  varbinds :: "varbind list"

text \<open>The request-id counter is one atomic \<open>int32\<close>: the new counter and the id.\<close>

definition nextRequestID :: "32 word \<Rightarrow> 32 word \<times> 32 word" where
  "nextRequestID counter =
     (let c = counter + 1; v = c AND 0x7fffffff in (c, if v = 0 then 1 else v))"

section \<open>Building requests\<close>

definition encodeVarbind :: "oid \<Rightarrow> bytes \<Rightarrow> bytes" where
  "encodeVarbind oid valueTLV = encodeTLV tagSequence (encodeOID oid @ valueTLV)"

definition encodeNullVarbinds :: "oid list \<Rightarrow> bytes" where
  "encodeNullVarbinds oids =
     encodeTLV tagSequence (concat (map (\<lambda>oid. encodeVarbind oid encodeNull) oids))"

definition buildRequestPDU ::
    "byte \<Rightarrow> 32 word \<Rightarrow> 64 word \<Rightarrow> 64 word \<Rightarrow> oid list \<Rightarrow> bytes" where
  "buildRequestPDU ptype reqID field2 field3 oids =
     encodeTLV ptype
       (encodeInteger (scast reqID) @ encodeInteger field2 @ encodeInteger field3 @
        encodeNullVarbinds oids)"

definition buildGet :: "32 word \<Rightarrow> oid list \<Rightarrow> bytes" where
  "buildGet reqID oids = buildRequestPDU pduGet reqID 0 0 oids"

definition buildGetBulk :: "32 word \<Rightarrow> 64 word \<Rightarrow> 64 word \<Rightarrow> oid list \<Rightarrow> bytes" where
  "buildGetBulk reqID nonRep maxRep oids = buildRequestPDU pduGetBulk reqID nonRep maxRep oids"

definition buildV2CMessage :: "string \<Rightarrow> bytes \<Rightarrow> bytes" where
  "buildV2CMessage community pduBytes =
     encodeTLV tagSequence
       (encodeInteger 1 @ encodeOctetString (bytes_of_string community) @ pduBytes)"

section \<open>Parsing\<close>

definition int_or_zero :: "bytes \<Rightarrow> 64 word" where
  "int_or_zero c = (case decodeInteger c of Inl _ \<Rightarrow> 0 | Inr v \<Rightarrow> v)"

text \<open>\<open>readTLV\<close> followed by a check of the tag; the caller's error replaces the reader's.\<close>

definition expect :: "byte \<Rightarrow> ber_error \<Rightarrow> bytes \<Rightarrow> ber_error + (bytes \<times> bytes)" where
  "expect tag err b =
     (case readTLV b of
        Inl _ \<Rightarrow> Inl err
      | Inr (t, c, rest) \<Rightarrow> if t \<noteq> tag then Inl err else Inr (c, rest))"

definition parseVarbind :: "bytes \<Rightarrow> ber_error + varbind" where
  "parseVarbind vbContent =
     (case expect tagOID BadVarbindOid vbContent of
        Inl e \<Rightarrow> Inl e
      | Inr (oc, vrest) \<Rightarrow>
          (case decodeOIDValue oc of
             Inl e \<Rightarrow> Inl e
           | Inr oid \<Rightarrow>
               (case readTLV vrest of
                  Inl _ \<Rightarrow> Inl BadVarbindValue
                | Inr (vtag, vc, _) \<Rightarrow>
                    (case decodeValue vtag vc of
                       Inl e \<Rightarrow> Inl e
                     | Inr val \<Rightarrow> Inr \<lparr>vbOid = oid, vbValue = val\<rparr>))))"

function parseVarbinds :: "varbind list \<Rightarrow> bytes \<Rightarrow> ber_error + varbind list" where
  "parseVarbinds out rest =
     (if rest = [] then Inr out
      else case readTLV rest of
             Inl e \<Rightarrow> Inl e
           | Inr (tag, vbContent, r) \<Rightarrow>
               if tag \<noteq> tagSequence then Inl (VarbindNotSequence tag)
               else case parseVarbind vbContent of
                      Inl e \<Rightarrow> Inl e
                    | Inr vb \<Rightarrow> parseVarbinds (out @ [vb]) r)"
  by pat_completeness auto
termination
  by (relation "measure (\<lambda>(out, rest). length rest)") (auto dest: readTLV_shrinks)

declare parseVarbinds.simps [simp del]

definition parsePDU :: "byte \<Rightarrow> bytes \<Rightarrow> ber_error + pdu" where
  "parsePDU ptype content =
     (case expect tagInteger BadRequestId content of
        Inl e \<Rightarrow> Inl e
      | Inr (c1, rest1) \<Rightarrow>
     (case expect tagInteger BadErrorStatus rest1 of
        Inl e \<Rightarrow> Inl e
      | Inr (c2, rest2) \<Rightarrow>
     (case expect tagInteger BadErrorIndex rest2 of
        Inl e \<Rightarrow> Inl e
      | Inr (c3, rest3) \<Rightarrow>
     (case expect tagSequence BadVarbindList rest3 of
        Inl e \<Rightarrow> Inl e
      | Inr (vbContent, _) \<Rightarrow>
     (case parseVarbinds [] vbContent of
        Inl e \<Rightarrow> Inl e
      | Inr vbs \<Rightarrow>
          Inr \<lparr>pduType = ptype, requestID = ucast (int_or_zero c1), errStatus = int_or_zero c2,
               errIndex = int_or_zero c3, varbinds = vbs\<rparr>)))))"

definition parseMessageHeader :: "bytes \<Rightarrow> ber_error + (64 word \<times> bytes)" where
  "parseMessageHeader b =
     (case expect tagSequence OuterNotSequence b of
        Inl e \<Rightarrow> Inl e
      | Inr (content, _) \<Rightarrow>
     (case expect tagInteger BadVersion content of
        Inl e \<Rightarrow> Inl e
      | Inr (vc, r) \<Rightarrow> Inr (int_or_zero vc, r)))"

definition parseV2CMessage :: "bytes \<Rightarrow> ber_error + (64 word \<times> string \<times> pdu)" where
  "parseV2CMessage b =
     (case parseMessageHeader b of
        Inl e \<Rightarrow> Inl e
      | Inr (ver, rest) \<Rightarrow>
     (case expect tagOctetString BadCommunity rest of
        Inl e \<Rightarrow> Inl e
      | Inr (cc, prest) \<Rightarrow>
     (case readTLV prest of
        Inl _ \<Rightarrow> Inl BadPdu
      | Inr (ptag, pc, _) \<Rightarrow>
     (case parsePDU ptag pc of
        Inl e \<Rightarrow> Inl e
      | Inr p \<Rightarrow> Inr (ver, string_of_bytes cc, p)))))"

section \<open>Parsing inverts building\<close>

lemma expect_TLV:
  "length c < 2 ^ 32 \<Longrightarrow> expect tag err (encodeTLV tag c @ rest) = Inr (c, rest)"
  by (simp add: expect_def readTLV_encodeTLV)

lemma expect_Integer: "expect tagInteger err (encodeInteger v @ rest) = Inr (intContent v, rest)"
  unfolding encodeInteger_def by (rule expect_TLV) (rule int_codec.enc_fits [OF TrueI])

lemma expect_OID:
  "ok_oid oid \<Longrightarrow> expect tagOID err (encodeOID oid @ rest) = Inr (encodeOIDValue oid, rest)"
  unfolding encodeOID_def by (rule expect_TLV) (rule oid_codec.enc_fits)

lemma int_or_zero_intContent [simp]: "int_or_zero (intContent v) = v"
  by (simp add: int_or_zero_def int_codec.dec_enc)

lemma readTLV_encodeNull: "readTLV encodeNull = Inr (tagNull, [], [])"
  by (simp add: encodeNull_def readTLV_def decodeLength_def)

definition null_value :: snmp_value where
  "null_value = blank_value tagNull"

lemma parseVarbind_encoded:
  assumes "ok_oid oid" and "readTLV valueTLV = Inr (vtag, vc, [])" and "decodeValue vtag vc = Inr val"
  shows "parseVarbind (encodeOID oid @ valueTLV) = Inr \<lparr>vbOid = oid, vbValue = val\<rparr>"
  using assms by (simp add: parseVarbind_def expect_OID oid_codec.dec_enc)

lemma length_encodeTLV: "length c < 2 ^ 32 \<Longrightarrow> length (encodeTLV tag c) \<le> length c + 6"
  using length_encodeLength [of "length c"] by (simp add: encodeTLV_def)

lemma encodeTLV_not_Nil [simp]: "encodeTLV tag c \<noteq> []"
  by (simp add: encodeTLV_def)

lemma length_encodeOID: "ok_oid oid \<Longrightarrow> length (encodeOID oid) \<le> 5 * length oid + 7"
  using length_encodeTLV [OF oid_codec.enc_fits, of oid tagOID] length_encodeOIDValue [of oid]
  by (simp add: encodeOID_def)

lemma null_varbind_fits:
  assumes "ok_oid oid"
  shows "length (encodeOID oid @ encodeNull) < 2 ^ 32"
    and "length (encodeVarbind oid encodeNull) \<le> 5 * length oid + 15"
proof -
  have l: "length oid \<le> 2 ^ 20" using assms by (simp add: ok_oid_def)
  have o: "length (encodeOID oid @ encodeNull) \<le> 5 * length oid + 9"
    using length_encodeOID [OF assms] by (simp add: encodeNull_def)
  with l show s: "length (encodeOID oid @ encodeNull) < 2 ^ 32" by simp
  show "length (encodeVarbind oid encodeNull) \<le> 5 * length oid + 15"
    using length_encodeTLV [OF s, of tagSequence] o by (simp add: encodeVarbind_def)
qed

definition null_varbind :: "oid \<Rightarrow> varbind" where
  "null_varbind oid = \<lparr>vbOid = oid, vbValue = null_value\<rparr>"

lemma parseVarbinds_nulls:
  "\<forall>oid \<in> set oids. ok_oid oid \<Longrightarrow>
   parseVarbinds out (concat (map (\<lambda>oid. encodeVarbind oid encodeNull) oids))
   = Inr (out @ map null_varbind oids)"
proof (induction oids arbitrary: out)
  case Nil
  then show ?case by (simp add: parseVarbinds.simps)
next
  case (Cons oid oids)
  let ?rest = "concat (map (\<lambda>oid. encodeVarbind oid encodeNull) oids)"
  have ok: "ok_oid oid" using Cons.prems by simp
  have "readTLV (encodeVarbind oid encodeNull @ ?rest) = Inr (tagSequence, encodeOID oid @ encodeNull, ?rest)"
    unfolding encodeVarbind_def by (rule readTLV_encodeTLV [OF null_varbind_fits(1) [OF ok]])
  moreover have "parseVarbind (encodeOID oid @ encodeNull) = Inr (null_varbind oid)"
    unfolding null_varbind_def
    by (rule parseVarbind_encoded [OF ok readTLV_encodeNull])
      (simp add: decodeValue_def null_value_def Let_def)
  ultimately show ?case using Cons
    by (subst parseVarbinds.simps) (simp add: encodeVarbind_def)
qed

text \<open>The requests small enough for every nested length to fit in four bytes.\<close>

definition ok_request :: "oid list \<Rightarrow> bool" where
  "ok_request oids \<longleftrightarrow> (\<forall>oid \<in> set oids. ok_oid oid) \<and> length (concat oids) + length oids \<le> 2 ^ 20"

lemma null_varbinds_fit:
  "\<forall>oid \<in> set oids. ok_oid oid \<Longrightarrow>
   length (concat (map (\<lambda>oid. encodeVarbind oid encodeNull) oids))
   \<le> 5 * length (concat oids) + 15 * length oids"
proof (induction oids)
  case (Cons oid oids)
  then show ?case using null_varbind_fits(2) [of oid] by simp
qed simp

lemma length_encodeInteger: "length (encodeInteger v) \<le> 14"
  using length_encodeTLV [OF int_codec.enc_fits [OF TrueI], of tagInteger v] intContent_bounds(2) [of v]
  by (simp add: encodeInteger_def)

lemma scast_ucast_int32: "(ucast (scast (w :: 32 word) :: 64 word) :: 32 word) = w"
  by (rule bit_eqI) (auto simp: bit_simps)

lemma request_body_fits:
  assumes "ok_request oids"
  shows "length (concat (map (\<lambda>oid. encodeVarbind oid encodeNull) oids)) < 2 ^ 32"
    and "length (encodeInteger a @ encodeInteger b @ encodeInteger c @ encodeNullVarbinds oids) \<le> 2 ^ 25"
proof -
  have all: "\<forall>oid \<in> set oids. ok_oid oid" and n: "length (concat oids) + length oids \<le> 2 ^ 20"
    using assms by (simp_all add: ok_request_def)
  have l: "length (concat (map (\<lambda>oid. encodeVarbind oid encodeNull) oids)) \<le> 15 * 2 ^ 20"
    using null_varbinds_fit [OF all] n by linarith
  then show s: "length (concat (map (\<lambda>oid. encodeVarbind oid encodeNull) oids)) < 2 ^ 32" by simp
  have "length (encodeNullVarbinds oids) \<le> 15 * 2 ^ 20 + 6"
    using length_encodeTLV [OF s, of tagSequence] l by (simp add: encodeNullVarbinds_def)
  then show "length (encodeInteger a @ encodeInteger b @ encodeInteger c @ encodeNullVarbinds oids) \<le> 2 ^ 25"
    using length_encodeInteger [of a] length_encodeInteger [of b] length_encodeInteger [of c] by simp
qed

lemma parsePDU_request:
  assumes "ok_request oids"
  shows "parsePDU ptype (encodeInteger (scast reqID) @ encodeInteger f2 @ encodeInteger f3 @
           encodeNullVarbinds oids)
         = Inr \<lparr>pduType = ptype, requestID = reqID, errStatus = f2, errIndex = f3,
                varbinds = map null_varbind oids\<rparr>"
proof -
  have all: "\<forall>oid \<in> set oids. ok_oid oid" using assms by (simp add: ok_request_def)
  have "expect tagSequence BadVarbindList (encodeNullVarbinds oids)
        = Inr (concat (map (\<lambda>oid. encodeVarbind oid encodeNull) oids), [])"
    using expect_TLV [OF request_body_fits(1) [OF assms], of tagSequence BadVarbindList "[]"]
    by (simp add: encodeNullVarbinds_def)
  then show ?thesis
    by (simp add: parsePDU_def expect_Integer parseVarbinds_nulls [OF all] scast_ucast_int32)
qed

lemma parsed_varbinds_bounded:
  "parseVarbinds out rest = Inr vbs \<Longrightarrow> 2 * length vbs \<le> 2 * length out + length rest"
proof (induction out rest rule: parseVarbinds.induct)
  case (1 out rest)
  show ?case
  proof (cases "rest = []")
    case True
    with "1.prems" show ?thesis by (simp add: parseVarbinds.simps)
  next
    case False
    with "1.prems" obtain vbContent r vb
      where tlv: "readTLV rest = Inr (tagSequence, vbContent, r)"
        and vb: "parseVarbind vbContent = Inr vb"
        and more: "parseVarbinds (out @ [vb]) r = Inr vbs"
      by (subst (asm) parseVarbinds.simps) (auto split: sum.splits prod.splits if_splits)
    have "2 * length vbs \<le> 2 * length (out @ [vb]) + length r"
      using "1.IH" [OF False tlv _ _ _ vb more] by simp
    with readTLV_shrinks [OF tlv] show ?thesis by simp
  qed
qed

section \<open>Properties\<close>

text \<open>C24. A request the agent builds, of any PDU type, for any list of well-formed identifiers, parses
  back to version 1, the community and a PDU with the same request id, fields and identifiers,
  each with the null value.\<close>

theorem v2c_request_roundtrip:
  assumes "ok_request oids" and "length community \<le> 2 ^ 20"
  shows "parseV2CMessage (buildV2CMessage community (buildRequestPDU ptype reqID f2 f3 oids)) =
    Inr (1, community, \<lparr>pduType = ptype, requestID = reqID, errStatus = f2, errIndex = f3,
                        varbinds = map null_varbind oids\<rparr>)"
proof -
  let ?body = "encodeInteger (scast reqID) @ encodeInteger f2 @ encodeInteger f3 @ encodeNullVarbinds oids"
  let ?pdu = "encodeTLV ptype ?body" and ?c = "bytes_of_string community"
  have body: "length ?body \<le> 2 ^ 25" using request_body_fits(2) [OF assms(1)] .
  then have b32: "length ?body < 2 ^ 32" by simp
  have c32: "length ?c < 2 ^ 32" using assms(2) by simp
  have "length (encodeInteger 1 @ encodeOctetString ?c @ ?pdu) < 2 ^ 32"
    using length_encodeTLV [OF b32, of ptype] length_encodeTLV [OF c32, of tagOctetString]
      length_encodeInteger [of 1] body assms(2) by (simp add: encodeOctetString_def)
  then have outer: "expect tagSequence OuterNotSequence (buildV2CMessage community ?pdu) =
      Inr (encodeInteger 1 @ encodeOctetString ?c @ ?pdu, [])"
    using expect_TLV [of _ tagSequence OuterNotSequence "[]"] by (simp add: buildV2CMessage_def)
  have comm: "expect tagOctetString BadCommunity (encodeOctetString ?c @ ?pdu) = Inr (?c, ?pdu)"
    unfolding encodeOctetString_def by (rule expect_TLV [OF c32])
  have "readTLV ?pdu = Inr (ptype, ?body, [])" using readTLV_encodeTLV [OF b32, of ptype "[]"] by simp
  then show ?thesis
    using outer comm parsePDU_request [OF assms(1), of ptype reqID f2 f3]
    by (simp add: parseV2CMessage_def parseMessageHeader_def expect_Integer buildRequestPDU_def)
qed

theorem v2c_request_roundtrip_witness:
  "parseV2CMessage (buildV2CMessage ''public'' (buildRequestPDU 0xA0 7 0 0 [[1, 3, 6, 1]])) =
    Inr (1, ''public'', \<lparr>pduType = 0xA0, requestID = 7, errStatus = 0, errIndex = 0,
                        varbinds = [null_varbind [1, 3, 6, 1]]\<rparr>)"
  using v2c_request_roundtrip [of "[[1, 3, 6, 1]]" "''public''" "0xA0" 7 0 0]
  by (simp add: ok_request_def ok_oid_def wf_oid_def)

text \<open>A response cannot make the parser build more than its bytes pay for: each variable binding costs
  at least two bytes of the list it is read from.\<close>

lemma varbind_count_bounded:
  "case parseVarbinds [] rest of Inr vbs \<Rightarrow> 2 * length vbs \<le> length rest | Inl e \<Rightarrow> True"
  using parsed_varbinds_bounded [of "[]" rest] by (simp split: sum.split)

end
