(* ===== verification/TcpStream.thy ===== *)
theory TcpStream
  imports GoPrelude Transition "HOL-Library.AList"
begin

text \<open>
  The bounded reassembly buffer of one direction of a TCP connection
  (\<open>cmd/agent/content_reassembly.go\<close>, \<open>dirStream\<close> and its methods).

  Sequence numbers are 32-bit words and every comparison is the code's signed difference. The map
  of segments that wait behind a gap is an association list; Go iterates a map in an arbitrary
  order, so \<open>drainPending\<close> takes the order as a parameter \<open>ord\<close> and the lemmas hold for each \<open>ord\<close>
  that returns the same entries. Every pass of the loop of \<open>drainPending\<close> that makes progress
  deletes an entry, so the number of entries is fuel enough; \<open>drainPending_drained\<close> shows that the
  loop has really ended. \<open>None\<close> is the panic of a slice expression.
\<close>

section \<open>Sequence numbers\<close>

definition seqLT :: "32 word \<Rightarrow> 32 word \<Rightarrow> bool" where
  "seqLT a b \<longleftrightarrow> sint (a - b) < 0"

definition seqLE :: "32 word \<Rightarrow> 32 word \<Rightarrow> bool" where
  "seqLE a b \<longleftrightarrow> sint (a - b) \<le> 0"

section \<open>The state and its operations\<close>

record dirStream =
  haveBase :: bool
  startSeq :: "32 word"
  nextSeq :: "32 word"
  buf :: bytes
  pending :: "(32 word \<times> bytes) list"
  pendingLen :: int
  truncated :: bool

definition empty_stream :: dirStream where
  "empty_stream = \<lparr>haveBase = False, startSeq = 0, nextSeq = 0, buf = [], pending = [],
     pendingLen = 0, truncated = False\<rparr>"

definition stream_room :: "int \<Rightarrow> dirStream \<Rightarrow> int" where
  "stream_room capacity d = capacity - int (length (buf d)) - pendingLen d"

definition appendContiguous :: "int \<Rightarrow> bytes \<Rightarrow> dirStream \<Rightarrow> dirStream" where
  "appendContiguous capacity payload d =
     (let room = stream_room capacity d;
          short = room < int (length payload);
          kept = (if short then take (nat (max room 0)) payload else payload)
      in d\<lparr>buf := buf d @ kept, truncated := truncated d \<or> short,
           nextSeq := nextSeq d + word_of_nat (length payload)\<rparr>)"

definition prepend :: "int \<Rightarrow> bytes \<Rightarrow> dirStream \<Rightarrow> nat \<times> dirStream" where
  "prepend capacity payload d =
     (if payload = [] then (0, d)
      else let room = stream_room capacity d;
               short = room < int (length payload);
               kept = (if short then drop (length payload - nat (max room 0)) payload else payload);
               d1 = d\<lparr>truncated := truncated d \<or> short\<rparr>
           in if kept = [] then (0, d1) else (length kept, d1\<lparr>buf := kept @ buf d\<rparr>))"

definition store_copy :: "int \<Rightarrow> 32 word \<Rightarrow> bytes \<Rightarrow> dirStream \<Rightarrow> dirStream" where
  "store_copy capacity sq payload d =
     (let room = stream_room capacity d in
      if room \<le> 0 then d\<lparr>truncated := True\<rparr>
      else let short = room < int (length payload);
               copied = (if short then take (nat room) payload else payload)
           in d\<lparr>pending := (sq, copied) # AList.delete sq (pending d),
                pendingLen := pendingLen d + int (length copied),
                truncated := truncated d \<or> short\<rparr>)"

definition drop_pending :: "32 word \<Rightarrow> bytes \<Rightarrow> dirStream \<Rightarrow> dirStream" where
  "drop_pending sq old d =
     d\<lparr>pending := AList.delete sq (pending d), pendingLen := pendingLen d - int (length old)\<rparr>"

definition storePending :: "int \<Rightarrow> 32 word \<Rightarrow> bytes \<Rightarrow> dirStream \<Rightarrow> dirStream" where
  "storePending capacity sq payload d =
     (case map_of (pending d) sq of
        None \<Rightarrow> store_copy capacity sq payload d
      | Some existing \<Rightarrow>
          if length payload \<le> length existing then d
          else store_copy capacity sq payload (drop_pending sq existing d))"

definition waits :: "32 word \<Rightarrow> 32 word \<times> bytes \<Rightarrow> bool" where
  "waits nxt e \<longleftrightarrow>
     \<not> seqLE (fst e + word_of_nat (length (snd e))) nxt \<and> seqLT nxt (fst e)"

definition drain_entry :: "int \<Rightarrow> 32 word \<times> bytes \<Rightarrow> dirStream \<Rightarrow> dirStream panics" where
  "drain_entry capacity e d =
     (let d1 = drop_pending (fst e) (snd e) d in
      if seqLE (fst e + word_of_nat (length (snd e))) (nextSeq d) then Some d1
      else do {
        rest \<leftarrow> slice_from (snd e) (unat (nextSeq d - fst e));
        Some (appendContiguous capacity rest d1)
      })"

type_synonym map_order = "(32 word \<times> bytes) list \<Rightarrow> (32 word \<times> bytes) list"

fun drain_loop :: "map_order \<Rightarrow> int \<Rightarrow> nat \<Rightarrow> dirStream \<Rightarrow> dirStream panics" where
  "drain_loop ord capacity 0 d = Some d"
| "drain_loop ord capacity (Suc fuel) d =
     (case find (\<lambda>e. \<not> waits (nextSeq d) e) (ord (pending d)) of
        None \<Rightarrow> Some d
      | Some e \<Rightarrow> do {
          d' \<leftarrow> drain_entry capacity e d;
          drain_loop ord capacity fuel d'
        })"

definition drainPending :: "map_order \<Rightarrow> int \<Rightarrow> dirStream \<Rightarrow> dirStream panics" where
  "drainPending ord capacity d = drain_loop ord capacity (length (pending d)) d"

definition append_early ::
    "map_order \<Rightarrow> int \<Rightarrow> 32 word \<Rightarrow> bytes \<Rightarrow> dirStream \<Rightarrow> dirStream panics" where
  "append_early ord capacity sq payload d =
     (let stop = sq + word_of_nat (length payload) in
      if seqLT stop (startSeq d) then Some (d\<lparr>truncated := True\<rparr>)
      else let prefixLen = min (unat (startSeq d - sq)) (length payload);
               (n, d1) = prepend capacity (take prefixLen payload) d;
               d2 = (if 0 < n then d1\<lparr>startSeq := startSeq d1 - word_of_nat n\<rparr> else d1)
           in if seqLT (nextSeq d2) stop
              then do {
                rest \<leftarrow> slice_from payload (unat (nextSeq d2 - sq));
                drainPending ord capacity (appendContiguous capacity rest d2)
              }
              else Some d2)"

definition append_late ::
    "map_order \<Rightarrow> int \<Rightarrow> 32 word \<Rightarrow> bytes \<Rightarrow> dirStream \<Rightarrow> dirStream panics" where
  "append_late ord capacity sq payload d =
     (if sq \<noteq> nextSeq d then Some (storePending capacity sq payload d)
      else drainPending ord capacity (appendContiguous capacity payload d))"

definition appendSeg ::
    "map_order \<Rightarrow> int \<Rightarrow> 32 word \<Rightarrow> bytes \<Rightarrow> dirStream \<Rightarrow> dirStream panics" where
  "appendSeg ord capacity sq payload d0 =
     (if payload = [] then Some d0
      else let stop = sq + word_of_nat (length payload);
               d = (if haveBase d0 then d0
                    else d0\<lparr>haveBase := True, startSeq := sq, nextSeq := sq\<rparr>)
           in if seqLT sq (startSeq d) then append_early ord capacity sq payload d
              else if seqLT sq (nextSeq d)
              then if seqLE stop (nextSeq d) then Some d
                   else let skip = unat (nextSeq d - sq) in
                        if skip < length payload
                        then append_late ord capacity (nextSeq d) (drop skip payload) d
                        else Some d
              else append_late ord capacity sq payload d)"

fun append_all ::
    "map_order \<Rightarrow> int \<Rightarrow> (32 word \<times> bytes) list \<Rightarrow> dirStream \<Rightarrow> dirStream panics" where
  "append_all ord capacity [] d = Some d"
| "append_all ord capacity ((sq, p) # segs) d =
     do { d' \<leftarrow> appendSeg ord capacity sq p d; append_all ord capacity segs d' }"

section \<open>The memory bound\<close>

text \<open>
  The bookkeeping is exact (\<open>pendingLen\<close> is the number of bytes that wait, one entry per sequence
  number) and buffer and waiting segments together never exceed the capacity.
\<close>

definition pending_bytes :: "(32 word \<times> bytes) list \<Rightarrow> nat" where
  "pending_bytes es = sum_list (map (length \<circ> snd) es)"

definition stream_ok :: "int \<Rightarrow> dirStream \<Rightarrow> bool" where
  "stream_ok capacity d \<longleftrightarrow>
     distinct (map fst (pending d)) \<and> pendingLen d = int (pending_bytes (pending d)) \<and>
     int (length (buf d)) + pendingLen d \<le> capacity \<and> (\<forall>e\<in>set (pending d). snd e \<noteq> [])"

definition map_order_ok :: "map_order \<Rightarrow> bool" where
  "map_order_ok ord \<longleftrightarrow> (\<forall>es. set (ord es) = set es)"

lemma pending_bytes_delete:
  "distinct (map fst es) \<Longrightarrow> (k, v) \<in> set es \<Longrightarrow>
   pending_bytes (AList.delete k es) + length v = pending_bytes es"
proof (induction es)
  case Nil
  then show ?case by simp
next
  case (Cons e es)
  show ?case
  proof (cases "fst e = k")
    case True
    then have "k \<notin> fst ` set es" using Cons.prems(1) by auto
    moreover from this have "AList.delete k es = es" by (rule delete_id)
    ultimately show ?thesis using True Cons.prems(2)
      by (cases e) (auto simp: pending_bytes_def image_iff)
  next
    case False
    then show ?thesis using Cons by (cases e) (auto simp: pending_bytes_def)
  qed
qed

lemma in_set_delete [simp]: "e \<in> set (AList.delete k es) \<longleftrightarrow> e \<in> set es \<and> fst e \<noteq> k"
  by (induction es) auto

lemma length_delete_less:
  "(k, v) \<in> set es \<Longrightarrow> length (AList.delete k es) < length es"
  by (induction es) (auto simp: length_delete_le less_Suc_eq_le)

lemma drop_pending_ok:
  assumes "stream_ok capacity d" and "(sq, v) \<in> set (pending d)"
  shows "stream_ok capacity (drop_pending sq v d)"
    and "stream_room capacity (drop_pending sq v d) = stream_room capacity d + int (length v)"
proof -
  have "pending_bytes (AList.delete sq (pending d)) + length v = pending_bytes (pending d)"
    using assms by (intro pending_bytes_delete) (auto simp: stream_ok_def)
  then show "stream_ok capacity (drop_pending sq v d)"
    using assms by (auto simp: stream_ok_def drop_pending_def distinct_delete)
  show "stream_room capacity (drop_pending sq v d) = stream_room capacity d + int (length v)"
    by (simp add: stream_room_def drop_pending_def)
qed

lemma appendContiguous_ok:
  "stream_ok capacity d \<Longrightarrow> stream_ok capacity (appendContiguous capacity p d)"
  by (auto simp: stream_ok_def appendContiguous_def stream_room_def Let_def min_def)

lemma prepend_ok: "stream_ok capacity d \<Longrightarrow> stream_ok capacity (snd (prepend capacity p d))"
  by (auto simp: stream_ok_def prepend_def stream_room_def Let_def)

lemma store_copy_ok:
  assumes "stream_ok capacity d" and "sq \<notin> fst ` set (pending d)" and "p \<noteq> []"
  shows "stream_ok capacity (store_copy capacity sq p d)"
proof -
  have "AList.delete sq (pending d) = pending d" using assms(2) by (rule delete_id)
  then show ?thesis using assms
    by (auto simp: stream_ok_def store_copy_def stream_room_def Let_def pending_bytes_def)
qed

lemma storePending_ok:
  assumes ok: "stream_ok capacity d" and "p \<noteq> []"
  shows "stream_ok capacity (storePending capacity sq p d)"
proof (cases "map_of (pending d) sq")
  case None
  then have "sq \<notin> fst ` set (pending d)" by (simp add: map_of_eq_None_iff)
  with None assms show ?thesis by (simp add: storePending_def store_copy_ok)
next
  case (Some old)
  then have m: "(sq, old) \<in> set (pending d)" by (rule map_of_SomeD)
  have "sq \<notin> fst ` set (pending (drop_pending sq old d))"
    by (auto simp: drop_pending_def)
  with drop_pending_ok(1) [OF ok m] Some assms show ?thesis
    by (simp add: storePending_def store_copy_ok)
qed

lemma drain_entry_ok:
  "stream_ok capacity d \<Longrightarrow> e \<in> set (pending d) \<Longrightarrow> drain_entry capacity e d = Some d' \<Longrightarrow>
   stream_ok capacity d'"
  using drop_pending_ok(1) [of capacity d "fst e" "snd e"]
  by (auto simp: drain_entry_def Let_def appendContiguous_ok bind_eq_Some_conv split: if_splits)

lemma find_order: "map_order_ok ord \<Longrightarrow> find P (ord es) = Some e \<Longrightarrow> e \<in> set es"
  by (metis find_Some_iff map_order_ok_def nth_mem)

lemma drain_loop_ok:
  assumes "map_order_ok ord"
  shows "stream_ok capacity d \<Longrightarrow> drain_loop ord capacity n d = Some d' \<Longrightarrow> stream_ok capacity d'"
proof (induction n arbitrary: d)
  case 0
  then show ?case by simp
next
  case (Suc n)
  show ?case
  proof (cases "find (\<lambda>e. \<not> waits (nextSeq d) e) (ord (pending d))")
    case None
    then show ?thesis using Suc.prems by simp
  next
    case (Some e)
    then have "e \<in> set (pending d)" by (rule find_order [OF assms])
    then show ?thesis using Suc Some
      by (auto simp: bind_eq_Some_conv intro: drain_entry_ok)
  qed
qed

lemma drainPending_ok:
  "map_order_ok ord \<Longrightarrow> stream_ok capacity d \<Longrightarrow> drainPending ord capacity d = Some d' \<Longrightarrow>
   stream_ok capacity d'"
  unfolding drainPending_def by (rule drain_loop_ok)

lemma drain_entry_shrinks:
  "drain_entry capacity e d = Some d' \<Longrightarrow> e \<in> set (pending d) \<Longrightarrow>
   pending d' = AList.delete (fst e) (pending d) \<and> length (pending d') < length (pending d)"
  using length_delete_less [of "fst e" "snd e" "pending d"]
  by (auto simp: drain_entry_def Let_def drop_pending_def appendContiguous_def bind_eq_Some_conv
      split: if_splits)

text \<open>The fuel is enough: when \<open>drainPending\<close> returns, every entry left waits behind a gap.\<close>

lemma drain_loop_drained:
  assumes "map_order_ok ord"
  shows "length (pending d) \<le> n \<Longrightarrow> drain_loop ord capacity n d = Some d' \<Longrightarrow>
    \<forall>e\<in>set (pending d'). waits (nextSeq d') e"
proof (induction n arbitrary: d)
  case 0
  then show ?case by simp
next
  case (Suc n)
  show ?case
  proof (cases "find (\<lambda>e. \<not> waits (nextSeq d) e) (ord (pending d))")
    case None
    then have "d' = d" using Suc.prems(2) by simp
    then show ?thesis using None assms by (auto simp: find_None_iff map_order_ok_def)
  next
    case (Some e)
    then have e: "e \<in> set (pending d)" by (rule find_order [OF assms])
    with Some Suc.prems obtain d1 where d1: "drain_entry capacity e d = Some d1"
      and loop: "drain_loop ord capacity n d1 = Some d'" by (auto simp: bind_eq_Some_conv)
    have "length (pending d1) \<le> n" using drain_entry_shrinks [OF d1 e] Suc.prems(1) by linarith
    then show ?thesis using loop by (rule Suc.IH)
  qed
qed

lemma drainPending_drained:
  "map_order_ok ord \<Longrightarrow> drainPending ord capacity d = Some d' \<Longrightarrow>
   \<forall>e\<in>set (pending d'). waits (nextSeq d') e"
  unfolding drainPending_def by (rule drain_loop_drained) simp_all

lemma append_early_ok:
  assumes "map_order_ok ord" and "stream_ok capacity d"
    and "append_early ord capacity sq p d = Some d'"
  shows "stream_ok capacity d'"
proof (cases "seqLT (sq + word_of_nat (length p)) (startSeq d)")
  case True
  then show ?thesis using assms by (auto simp: append_early_def stream_ok_def)
next
  case False
  define q where "q = take (min (unat (startSeq d - sq)) (length p)) p"
  obtain n d1 where pre: "prepend capacity q d = (n, d1)" by fastforce
  have "stream_ok capacity d1" using prepend_ok [OF assms(2), of q] pre by simp
  moreover define d2 where
    "d2 = (if 0 < n then d1\<lparr>startSeq := startSeq d1 - word_of_nat n\<rparr> else d1)"
  ultimately have "stream_ok capacity d2" by (auto simp: stream_ok_def)
  then show ?thesis using False assms(1,3) pre
    by (auto simp: append_early_def Let_def bind_eq_Some_conv q_def [symmetric] d2_def [symmetric]
        intro: drainPending_ok appendContiguous_ok split: if_splits)
qed

lemma append_late_ok:
  "map_order_ok ord \<Longrightarrow> stream_ok capacity d \<Longrightarrow> p \<noteq> [] \<Longrightarrow>
   append_late ord capacity sq p d = Some d' \<Longrightarrow> stream_ok capacity d'"
  by (auto simp: append_late_def storePending_ok split: if_splits
      intro: drainPending_ok appendContiguous_ok)

lemma appendSeg_ok:
  assumes "map_order_ok ord" and "stream_ok capacity d" and "appendSeg ord capacity sq p d = Some d'"
  shows "stream_ok capacity d'"
proof (cases "p = []")
  case True
  then show ?thesis using assms by (simp add: appendSeg_def)
next
  case False
  define d1 where "d1 = (if haveBase d then d
                    else d\<lparr>haveBase := True, startSeq := sq, nextSeq := sq\<rparr>)"
  have ok: "stream_ok capacity d1" using assms(2) by (auto simp: d1_def stream_ok_def)
  note late = append_late_ok [OF assms(1) ok]
  show ?thesis using False assms(3) ok
    by (auto simp: appendSeg_def Let_def d1_def [symmetric] split: if_splits
        intro: append_early_ok [OF assms(1) ok] late
          late [where p = "drop (unat (nextSeq d1 - sq)) p" and sq = "nextSeq d1"])
qed

lemma append_all_ok:
  "map_order_ok ord \<Longrightarrow> stream_ok capacity d \<Longrightarrow> append_all ord capacity segs d = Some d' \<Longrightarrow>
   stream_ok capacity d'"
  by (induction ord capacity segs d rule: append_all.induct)
    (auto simp: bind_eq_Some_conv dest: appendSeg_ok)


end
