(* ===== verification/TcpDelivery.thy ===== *)
theory TcpDelivery
  imports TcpStream
begin

text \<open>
  What the reassembly buffer of \<open>TcpStream\<close> delivers. The specification is a message \<open>M\<close> sent from
  sequence number \<open>base\<close>, of which the program observes segments: slices of \<open>M\<close> in any order, with
  repetitions and overlaps. Every sequence number of the state is the image of an offset into \<open>M\<close>,
  the signed comparisons of the code become comparisons of offsets, and the buffer is the slice
  of \<open>M\<close> between the two offsets as long as nothing was cut.
\<close>

section \<open>Offsets and sequence numbers\<close>

definition sq_at :: "32 word \<Rightarrow> nat \<Rightarrow> 32 word" where
  "sq_at base i = base + word_of_nat i"

lemma sq_at_add: "sq_at base i + word_of_nat n = sq_at base (i + n)"
  by (simp add: sq_at_def add.assoc)

lemma sq_at_diff: "i \<le> j \<Longrightarrow> sq_at base j - sq_at base i = word_of_nat (j - i)"
  by (simp add: sq_at_def of_nat_diff)

lemma sq_at_sub: "n \<le> i \<Longrightarrow> sq_at base i - word_of_nat n = sq_at base (i - n)"
  by (simp add: sq_at_def of_nat_diff)

lemma unat_sq_diff:
  assumes "i \<le> j" and "j < 2 ^ 31"
  shows "unat (sq_at base j - sq_at base i) = j - i"
proof -
  have "unat (word_of_nat (j - i) :: 32 word) = j - i"
    using assms by (simp add: unsigned_of_nat take_bit_eq_mod del: of_nat_diff)
  then show ?thesis using assms(1) by (simp only: sq_at_diff)
qed

lemma sint_sq_diff:
  assumes "i < 2 ^ 31" and "j < 2 ^ 31"
  shows "sint (sq_at base i - sq_at base j) = int i - int j"
proof -
  have eq: "sq_at base i - sq_at base j = (word_of_int (int i - int j) :: 32 word)"
    by (simp add: sq_at_def)
  have "signed_take_bit 31 (int i - int j) = int i - int j"
    using assms by (intro signed_take_bit_int_eq_self) simp_all
  then have "sint (word_of_int (int i - int j) :: 32 word) = int i - int j"
    by (simp add: signed_of_int del: of_int_diff)
  then show ?thesis by (simp only: eq)
qed

lemma seqLT_offsets: "i < 2 ^ 31 \<Longrightarrow> j < 2 ^ 31 \<Longrightarrow> seqLT (sq_at base i) (sq_at base j) \<longleftrightarrow> i < j"
  by (simp add: seqLT_def sint_sq_diff)

lemma seqLE_offsets: "i < 2 ^ 31 \<Longrightarrow> j < 2 ^ 31 \<Longrightarrow> seqLE (sq_at base i) (sq_at base j) \<longleftrightarrow> i \<le> j"
  by (simp add: seqLE_def sint_sq_diff)

lemma sq_at_inject: "i < 2 ^ 31 \<Longrightarrow> j < 2 ^ 31 \<Longrightarrow> sq_at base i = sq_at base j \<longleftrightarrow> i = j"
  using sint_sq_diff [of i j base] by auto

section \<open>Slices of a message\<close>

definition is_slice :: "bytes \<Rightarrow> nat \<Rightarrow> bytes \<Rightarrow> bool" where
  "is_slice M i p \<longleftrightarrow> i + length p \<le> length M \<and> p = take (length p) (drop i M)"

lemma is_slice_take: "is_slice M i p \<Longrightarrow> is_slice M i (take n p)"
  unfolding is_slice_def by (metis add_le_cancel_left length_take min.cobounded1 order_trans take_take min.commute)

lemma is_slice_drop: "is_slice M i p \<Longrightarrow> n \<le> length p \<Longrightarrow> is_slice M (i + n) (drop n p)"
  unfolding is_slice_def by (metis (no_types, opaque_lifting) add.assoc add.commute drop_drop drop_take le_add_diff_inverse length_drop)

lemma is_slice_bound: "is_slice M i p \<Longrightarrow> i + length p \<le> length M"
  by (simp add: is_slice_def)

lemma is_slice_append:
  assumes "is_slice M i p" and "is_slice M (i + length p) q"
  shows "is_slice M i (p @ q)"
proof -
  have "p @ q = take (length p) (drop i M) @ take (length q) (drop (i + length p) M)"
    using assms by (simp add: is_slice_def)
  also have "\<dots> = take (length p + length q) (drop i M)"
    by (simp add: take_add add.commute)
  finally have eq: "p @ q = take (length (p @ q)) (drop i M)" unfolding length_append .
  have "i + length (p @ q) \<le> length M" using is_slice_bound [OF assms(2)] by simp
  then show ?thesis unfolding is_slice_def using eq by (rule conjI)
qed

lemma is_slice_whole: "is_slice M 0 p \<Longrightarrow> length p = length M \<Longrightarrow> p = M"
  by (simp add: is_slice_def)

section \<open>The invariant\<close>

text \<open>
  \<open>tracks M base so no d\<close>: the direction has seen the offsets \<open>so\<close> to \<open>no\<close> of \<open>M\<close>; what waits is
  a slice further on.
\<close>

definition tracks :: "bytes \<Rightarrow> 32 word \<Rightarrow> nat \<Rightarrow> nat \<Rightarrow> dirStream \<Rightarrow> bool" where
  "tracks M base so no d \<longleftrightarrow>
     haveBase d \<and> startSeq d = sq_at base so \<and> nextSeq d = sq_at base no \<and> so \<le> no \<and>
     no \<le> length M \<and> (\<not> truncated d \<longrightarrow> is_slice M so (buf d) \<and> so + length (buf d) = no) \<and>
     (\<forall>e\<in>set (pending d). \<exists>i. so \<le> i \<and> fst e = sq_at base i \<and> is_slice M i (snd e)) \<and>
     length M < 2 ^ 31"

text \<open>\<open>holds_at\<close>: the byte at offset \<open>i\<close> is in the buffer or waits.\<close>

definition holds_at :: "32 word \<Rightarrow> nat \<Rightarrow> nat \<Rightarrow> dirStream \<Rightarrow> nat \<Rightarrow> bool" where
  "holds_at base so no d i \<longleftrightarrow>
     so \<le> i \<and> i < no \<or>
     (\<exists>k p. (sq_at base k, p) \<in> set (pending d) \<and> k \<le> i \<and> i < k + length p \<and> k < 2 ^ 31)"

lemma holds_at_seen: "so \<le> i \<Longrightarrow> i < no \<Longrightarrow> holds_at base so no d i"
  by (simp add: holds_at_def)

lemma holds_at_waiting:
  "(sq_at base k, p) \<in> set (pending d) \<Longrightarrow> k \<le> i \<Longrightarrow> i < k + length p \<Longrightarrow> k < 2 ^ 31 \<Longrightarrow>
   holds_at base so no d i"
  by (auto simp: holds_at_def)

lemma holds_atE:
  assumes "holds_at base so no d i"
  obtains (seen) "so \<le> i" and "i < no"
  | (waiting) k p where "(sq_at base k, p) \<in> set (pending d)" and "k \<le> i"
      and "i < k + length p" and "k < 2 ^ 31"
  using assms unfolding holds_at_def by (elim disjE conjE exE)

lemma tracks_small: "tracks M base so no d \<Longrightarrow> so < 2 ^ 31 \<and> no < 2 ^ 31"
  by (auto simp: tracks_def)

lemma tracks_entry:
  assumes "tracks M base so no d" and "e \<in> set (pending d)"
  obtains i where "so \<le> i" and "fst e = sq_at base i" and "is_slice M i (snd e)"
    and "i + length (snd e) < 2 ^ 31"
  using assms is_slice_bound by (fastforce simp: tracks_def)

lemma appendContiguous_tracks:
  assumes t: "tracks M base so no d" and p: "is_slice M no p"
  shows "tracks M base so (no + length p) (appendContiguous capacity p d)"
    and "pending (appendContiguous capacity p d) = pending d"
proof -
  have "is_slice M so (buf d @ p) \<and> so + length (buf d @ p) = no + length p" if "\<not> truncated d"
    using that t p is_slice_append [of M so "buf d" p] by (auto simp: tracks_def)
  moreover have "nextSeq d + word_of_nat (length p) = sq_at base (no + length p)"
    using t by (simp add: tracks_def sq_at_add)
  ultimately show "tracks M base so (no + length p) (appendContiguous capacity p d)"
    using t is_slice_bound [OF p] by (auto simp: tracks_def appendContiguous_def Let_def)
  show "pending (appendContiguous capacity p d) = pending d"
    by (simp add: appendContiguous_def Let_def)
qed

lemma drop_pending_tracks: "tracks M base so no d \<Longrightarrow> tracks M base so no (drop_pending k v d)"
  by (auto simp: tracks_def drop_pending_def)

lemma waits_offsets:
  assumes "tracks M base so no d" and "fst e = sq_at base i" and "is_slice M i (snd e)"
  shows "waits (nextSeq d) e \<longleftrightarrow> no < i + length (snd e) \<and> no < i"
proof -
  have "i + length (snd e) < 2 ^ 31" using assms is_slice_bound [OF assms(3)] by (simp add: tracks_def)
  moreover have "no < 2 ^ 31" using tracks_small [OF assms(1)] by simp
  ultimately show ?thesis using assms
    by (simp add: waits_def sq_at_add seqLE_offsets seqLT_offsets not_le tracks_def)
qed

lemma drain_entry_tracks:
  assumes t: "tracks M base so no d" and e: "e \<in> set (pending d)"
    and w: "\<not> waits (nextSeq d) e" and ok: "distinct (map fst (pending d))"
  shows "\<exists>no' d'. drain_entry capacity e d = Some d' \<and> no \<le> no' \<and> tracks M base so no' d' \<and>
    (\<forall>i. holds_at base so no d i \<longrightarrow> holds_at base so no' d' i)"
proof -
  obtain i where i: "so \<le> i" "fst e = sq_at base i" "is_slice M i (snd e)"
    and small: "i + length (snd e) < 2 ^ 31" using t e by (rule tracks_entry)
  let ?d1 = "drop_pending (fst e) (snd e) d"
  have t1: "tracks M base so no ?d1" using t by (rule drop_pending_tracks)
  have pend: "(k, q) \<in> set (pending ?d1)" if "(k, q) \<in> set (pending d)" "k \<noteq> fst e" for k q
    using that by (simp add: drop_pending_def)
  have same: "q = snd e" if "(fst e, q) \<in> set (pending d)" for q
    using that e ok by (metis eq_key_imp_eq_value prod.collapse)
  have no: "no < 2 ^ 31" using tracks_small [OF t] by simp
  have nxt: "nextSeq d = sq_at base no" using t by (simp add: tracks_def)
  have keep: "holds_at base so no' d' j"
    if "holds_at base so no d j" and "pending d' = pending ?d1" and "no \<le> no'" and "i + length (snd e) \<le> no'"
    for no' d' j
    using that(1)
  proof (cases rule: holds_atE)
    case seen
    then show ?thesis using that(3) by (simp add: holds_at_seen)
  next
    case k: (waiting k q)
    show ?thesis
    proof (cases "sq_at base k = fst e")
      case True
      then have "k = i" using i(2) k(4) small by (simp add: sq_at_inject)
      moreover have "q = snd e" using same k(1) True by simp
      ultimately show ?thesis using k that(4) i(1) by (auto simp: holds_at_def)
    next
      case False
      then show ?thesis using pend [OF k(1)] k that(2) by (auto simp: holds_at_def)
    qed
  qed
  show ?thesis
  proof (cases "i + length (snd e) \<le> no")
    case True
    then have "drain_entry capacity e d = Some ?d1"
      using i(2) small no nxt by (simp add: drain_entry_def Let_def sq_at_add seqLE_offsets)
    then show ?thesis using t1 keep [of _ ?d1 no] True by auto
  next
    case False
    then have le: "i \<le> no" using w waits_offsets [OF t i(2,3)] by simp
    let ?rest = "drop (no - i) (snd e)"
    let ?d2 = "appendContiguous capacity ?rest ?d1"
    have "drain_entry capacity e d = Some ?d2"
      using i(2) small no nxt False le
      by (simp add: drain_entry_def Let_def sq_at_add seqLE_offsets unat_sq_diff slice_from_Some)
    moreover have sl: "is_slice M no ?rest"
      using is_slice_drop [OF i(3), of "no - i"] le False by simp
    moreover have "no + length ?rest = i + length (snd e)" using le False by simp
    moreover have "tracks M base so (no + length ?rest) ?d2" "pending ?d2 = pending ?d1"
      using appendContiguous_tracks [OF t1 sl, of capacity] by simp_all
    moreover have "no \<le> no + length ?rest" by simp
    ultimately show ?thesis using keep [of _ ?d2 "no + length ?rest"] by (metis order_refl)
  qed
qed

lemma drain_loop_tracks:
  assumes ord: "map_order_ok ord"
  shows "tracks M base so no d \<Longrightarrow> stream_ok capacity d \<Longrightarrow>
    \<exists>no' d'. drain_loop ord capacity n d = Some d' \<and> no \<le> no' \<and> tracks M base so no' d' \<and>
      (\<forall>i. holds_at base so no d i \<longrightarrow> holds_at base so no' d' i)"
proof (induction n arbitrary: no d)
  case 0
  then show ?case by auto
next
  case (Suc n)
  show ?case
  proof (cases "find (\<lambda>e. \<not> waits (nextSeq d) e) (ord (pending d))")
    case None
    then show ?thesis using Suc.prems by auto
  next
    case (Some e)
    have e: "e \<in> set (pending d)" using Some by (rule find_order [OF ord])
    have w: "\<not> waits (nextSeq d) e" using Some by (auto simp: find_Some_iff)
    have "distinct (map fst (pending d))" using Suc.prems(2) by (simp add: stream_ok_def)
    from drain_entry_tracks [OF Suc.prems(1) e w this, of capacity] obtain n1 d1 where
      d1: "drain_entry capacity e d = Some d1" "no \<le> n1" "tracks M base so n1 d1"
        "\<forall>i. holds_at base so no d i \<longrightarrow> holds_at base so n1 d1 i" by blast
    have "stream_ok capacity d1" using Suc.prems(2) e d1(1) by (rule drain_entry_ok)
    from Suc.IH [OF d1(3) this] obtain n2 d2 where
      "drain_loop ord capacity n d1 = Some d2" "n1 \<le> n2" "tracks M base so n2 d2"
      "\<forall>i. holds_at base so n1 d1 i \<longrightarrow> holds_at base so n2 d2 i" by blast
    moreover from this have "drain_loop ord capacity (Suc n) d = Some d2" using d1(1) Some by simp
    ultimately show ?thesis using d1(2,4) order_trans by blast
  qed
qed

lemmas drainPending_tracks =
  drain_loop_tracks [where n = "length (pending d)" and d = d for d, folded drainPending_def]

lemma store_copy_tracks:
  assumes t: "tracks M base so no d" and p: "is_slice M i p" "so \<le> i"
  shows "tracks M base so no (store_copy capacity (sq_at base i) p d)"
proof -
  have "\<exists>k\<ge>so. sq_at base i = sq_at base k \<and> is_slice M k (take (nat r) p)" for r
    using p is_slice_take by blast
  moreover have "\<exists>k\<ge>so. sq_at base i = sq_at base k \<and> is_slice M k p" using p by blast
  ultimately show ?thesis using t by (auto simp: tracks_def store_copy_def Let_def)
qed

text \<open>Storing behind a gap loses no byte unless the segment was cut, and then \<open>truncated\<close> says so.\<close>

lemma store_copy_holds:
  assumes "\<not> truncated (store_copy capacity (sq_at base i) p d)"
    and "sq_at base i \<notin> fst ` set (pending d)" and "i < 2 ^ 31"
  shows "holds_at base so no d j \<or> i \<le> j \<and> j < i + length p \<Longrightarrow>
    holds_at base so no (store_copy capacity (sq_at base i) p d) j"
proof -
  assume j: "holds_at base so no d j \<or> i \<le> j \<and> j < i + length p"
  have "AList.delete (sq_at base i) (pending d) = pending d" using assms(2) by (rule delete_id)
  then have "pending (store_copy capacity (sq_at base i) p d) = (sq_at base i, p) # pending d"
    using assms(1) by (auto simp: store_copy_def Let_def split: if_splits)
  then show ?thesis using j assms(3) by (auto simp: holds_at_def)
qed

lemma storePending_tracks:
  assumes t: "tracks M base so no d" and p: "is_slice M i p" "so \<le> i"
  shows "tracks M base so no (storePending capacity (sq_at base i) p d)"
  using assms by (auto simp: storePending_def store_copy_tracks drop_pending_tracks split: option.split)

lemma truncated_store_copy: "truncated d \<Longrightarrow> truncated (store_copy capacity k p d)"
  by (simp add: store_copy_def Let_def)

lemma storePending_holds:
  assumes nt: "\<not> truncated (storePending capacity (sq_at base i) p d)"
    and small: "i < 2 ^ 31" and dist: "distinct (map fst (pending d))"
    and j: "holds_at base so no d j \<or> i \<le> j \<and> j < i + length p"
  shows "holds_at base so no (storePending capacity (sq_at base i) p d) j"
proof (cases "map_of (pending d) (sq_at base i)")
  case None
  then have "sq_at base i \<notin> fst ` set (pending d)" by (simp add: map_of_eq_None_iff)
  then show ?thesis using None nt small j store_copy_holds by (simp add: storePending_def)
next
  case (Some old)
  then have old: "(sq_at base i, old) \<in> set (pending d)" by (rule map_of_SomeD)
  show ?thesis
  proof (cases "length p \<le> length old")
    case True
    then have "storePending capacity (sq_at base i) p d = d" using Some by (simp add: storePending_def)
    moreover have "i \<le> j \<and> j < i + length p \<Longrightarrow> holds_at base so no d j"
      using holds_at_waiting [OF old _ _ small] True by simp
    ultimately show ?thesis using j by auto
  next
    case False
    let ?d1 = "drop_pending (sq_at base i) old d"
    have only: "q = old" if "(sq_at base i, q) \<in> set (pending d)" for q
      using that old dist by (metis eq_key_imp_eq_value)
    have h: "holds_at base so no ?d1 j \<or> i \<le> j \<and> j < i + length p" if "holds_at base so no d j"
      using that
    proof (cases rule: holds_atE)
      case seen
      then show ?thesis by (simp add: holds_at_seen)
    next
      case k: (waiting k q)
      show ?thesis
      proof (cases "k = i")
        case True
        then have "q = old" using only k(1) by simp
        then show ?thesis using True k False by simp
      next
        case False
        then have "sq_at base k \<noteq> sq_at base i" using k(4) small by (simp add: sq_at_inject)
        then have "(sq_at base k, q) \<in> set (pending ?d1)" using k(1) by (simp add: drop_pending_def)
        then show ?thesis using k by (simp add: holds_at_waiting)
      qed
    qed
    have "sq_at base i \<notin> fst ` set (pending ?d1)" by (auto simp: drop_pending_def)
    moreover have "storePending capacity (sq_at base i) p d = store_copy capacity (sq_at base i) p ?d1"
      using Some False by (simp add: storePending_def)
    ultimately show ?thesis using h j nt small store_copy_holds by metis
  qed
qed

section \<open>One segment\<close>

text \<open>
  \<open>advances\<close>: the state tracks the message further on, and what it had seen and the offsets
  \<open>lo\<close> to \<open>hi\<close> are not lost, unless \<open>truncated\<close> is set.
\<close>

definition advances ::
    "bytes \<Rightarrow> 32 word \<Rightarrow> nat \<Rightarrow> nat \<Rightarrow> dirStream \<Rightarrow> nat \<Rightarrow> nat \<Rightarrow> nat \<Rightarrow> nat \<Rightarrow> dirStream \<Rightarrow> bool" where
  "advances M base so no d lo hi so' no' d' \<longleftrightarrow>
     so' \<le> so \<and> no \<le> no' \<and> tracks M base so' no' d' \<and> (truncated d \<longrightarrow> truncated d') \<and>
     (\<not> truncated d' \<longrightarrow>
        (\<forall>j. holds_at base so no d j \<or> lo \<le> j \<and> j < hi \<longrightarrow> holds_at base so' no' d' j))"

definition drained :: "dirStream \<Rightarrow> bool" where
  "drained d \<longleftrightarrow> (\<forall>e\<in>set (pending d). waits (nextSeq d) e)"

lemma advances_then:
  assumes "advances M base so no d lo hi so1 no1 d1" and "advances M base so1 no1 d1 lo hi so2 no2 d2"
  shows "advances M base so no d lo hi so2 no2 d2"
  using assms unfolding advances_def by (meson order_trans)

lemma drain_entry_truncated: "drain_entry capacity e d = Some d' \<Longrightarrow> truncated d \<Longrightarrow> truncated d'"
  by (auto simp: drain_entry_def Let_def drop_pending_def appendContiguous_def bind_eq_Some_conv
      split: if_splits)

lemma drain_loop_truncated: "drain_loop ord capacity n d = Some d' \<Longrightarrow> truncated d \<Longrightarrow> truncated d'"
  by (induction ord capacity n d rule: drain_loop.induct)
    (auto simp: bind_eq_Some_conv dest: drain_entry_truncated split: option.splits)

lemma drainPending_advances:
  assumes "map_order_ok ord" and t: "tracks M base so no d" and "stream_ok capacity d"
    and held: "\<And>j. lo \<le> j \<Longrightarrow> j < hi \<Longrightarrow> holds_at base so no d j"
  shows "\<exists>no' d'. drainPending ord capacity d = Some d' \<and> advances M base so no d lo hi so no' d' \<and>
    drained d'"
proof -
  from drainPending_tracks [OF assms(1) t assms(3)] obtain no' d' where
    r: "drainPending ord capacity d = Some d'" "no \<le> no'" "tracks M base so no' d'"
      "\<forall>j. holds_at base so no d j \<longrightarrow> holds_at base so no' d' j" by blast
  have "drained d'" using drainPending_drained [OF assms(1) r(1)] by (simp add: drained_def)
  moreover have "truncated d \<longrightarrow> truncated d'"
    using r(1) drain_loop_truncated by (auto simp: drainPending_def)
  ultimately show ?thesis using r held unfolding advances_def by blast
qed

lemma contiguous_drain:
  assumes ord: "map_order_ok ord" and t: "tracks M base so no d" and ok: "stream_ok capacity d"
    and p: "is_slice M no p"
  shows "\<exists>no' d'. drainPending ord capacity (appendContiguous capacity p d) = Some d' \<and>
    advances M base so no d no (no + length p) so no' d' \<and> drained d'"
proof -
  let ?d1 = "appendContiguous capacity p d" and ?n1 = "no + length p"
  note t1 = appendContiguous_tracks [OF t p, of capacity]
  have held: "holds_at base so ?n1 ?d1 j" if "holds_at base so no d j \<or> no \<le> j \<and> j < ?n1" for j
    using that t t1(2) by (auto simp: holds_at_def tracks_def)
  have "truncated d \<longrightarrow> truncated ?d1" by (simp add: appendContiguous_def Let_def)
  then have "advances M base so no d no ?n1 so ?n1 ?d1" using t1(1) held by (simp add: advances_def)
  moreover have "holds_at base so ?n1 ?d1 j" if "no \<le> j" "j < ?n1" for j using held that by simp
  ultimately show ?thesis
    using drainPending_advances [OF ord t1(1) appendContiguous_ok [OF ok], of no ?n1] advances_then
    by blast
qed

lemma append_late_advances:
  assumes ord: "map_order_ok ord" and t: "tracks M base so no d" and ok: "stream_ok capacity d"
    and dr: "drained d" and p: "is_slice M i p" "no \<le> i" "p \<noteq> []"
  shows "\<exists>no' d'. append_late ord capacity (sq_at base i) p d = Some d' \<and>
    advances M base so no d i (i + length p) so no' d' \<and> drained d'"
proof (cases "i = no")
  case True
  then show ?thesis using contiguous_drain [OF ord t ok] p(1) t
    by (simp add: append_late_def tracks_def)
next
  case False
  let ?d1 = "storePending capacity (sq_at base i) p d"
  have so: "so \<le> no" "no < 2 ^ 31" "length M < 2 ^ 31" using t tracks_small by (auto simp: tracks_def)
  have i: "i < 2 ^ 31" "i + length p < 2 ^ 31" using is_slice_bound [OF p(1)] so(3) by linarith+
  have ne: "sq_at base i \<noteq> nextSeq d" using False i so t by (simp add: tracks_def sq_at_inject)
  have t1: "tracks M base so no ?d1" using t p so(1) by (intro storePending_tracks) auto
  have "distinct (map fst (pending d))" using ok by (simp add: stream_ok_def)
  then have held: "holds_at base so no ?d1 j"
    if "\<not> truncated ?d1" "holds_at base so no d j \<or> i \<le> j \<and> j < i + length p" for j
    using storePending_holds [OF that(1) i(1)] that(2) by simp
  have "truncated d \<longrightarrow> truncated ?d1"
    by (auto simp: storePending_def drop_pending_def truncated_store_copy split: option.split)
  then have adv: "advances M base so no d i (i + length p) so no ?d1"
    using t1 held by (simp add: advances_def)
  have "waits (nextSeq d) (sq_at base i, q)" if "length q \<le> length p" for q
    using that so i p(2) False t
    by (simp add: waits_def sq_at_add seqLE_offsets seqLT_offsets tracks_def)
  then have "drained ?d1"
    using dr by (auto simp: drained_def storePending_def store_copy_def drop_pending_def Let_def
        split: option.split)
  then show ?thesis using adv ne by (auto simp: append_late_def)
qed

lemma prepend_tracks:
  assumes t: "tracks M base so no d" and q: "is_slice M (so - length q) q" "length q \<le> so"
    and pre: "prepend capacity q d = (n, d1)"
    and d2: "d2 = (if 0 < n then d1\<lparr>startSeq := startSeq d1 - word_of_nat n\<rparr> else d1)"
  shows "n \<le> length q \<and> tracks M base (so - n) no d2 \<and> pending d2 = pending d \<and>
    nextSeq d2 = nextSeq d \<and> (truncated d \<longrightarrow> truncated d2) \<and> (\<not> truncated d2 \<longrightarrow> n = length q)"
proof (cases "q = []")
  case True
  then show ?thesis using t pre d2 by (simp add: prepend_def)
next
  case False
  define short where "short \<longleftrightarrow> stream_room capacity d < int (length q)"
  define kept where
    "kept = (if short then drop (length q - nat (max (stream_room capacity d) 0)) q else q)"
  have n: "n = length kept" and d1: "d1 = (if kept = [] then d\<lparr>truncated := truncated d \<or> short\<rparr>
      else d\<lparr>truncated := truncated d \<or> short, buf := kept @ buf d\<rparr>)"
    using pre False unfolding prepend_def Let_def short_def kept_def by (auto split: if_splits)
  have le: "n \<le> length q" using n by (simp add: kept_def)
  have start: "startSeq d - word_of_nat n = sq_at base (so - n)"
    using t le q(2) by (simp add: tracks_def sq_at_sub)
  have whole: "kept = q" if "\<not> short" using that by (simp add: kept_def)
  have slice: "is_slice M (so - n) (kept @ buf d) \<and> so - n + length (kept @ buf d) = no"
    if "\<not> short" "\<not> truncated d"
  proof -
    have "is_slice M so (buf d)" "so + length (buf d) = no" using that t by (simp_all add: tracks_def)
    moreover have "so - length q + length q = so" using q(2) by simp
    ultimately show ?thesis using whole [OF that(1)] q n is_slice_append [of M "so - length q" q "buf d"]
      by simp
  qed
  have pos: "0 < n \<longleftrightarrow> kept \<noteq> []" using n by simp
  have "tracks M base (so - n) no d2"
  proof (cases "kept = []")
    case True
    then have "short" using whole False by auto
    then show ?thesis using t True d1 d2 n by (auto simp: tracks_def)
  next
    case False
    have "\<forall>e\<in>set (pending d). \<exists>i\<ge>so - n. fst e = sq_at base i \<and> is_slice M i (snd e)"
      using t unfolding tracks_def by (meson diff_le_self order_trans)
    moreover have "pending d2 = pending d" "nextSeq d2 = nextSeq d" "haveBase d2 = haveBase d"
      "startSeq d2 = sq_at base (so - n)" "buf d2 = kept @ buf d"
      "truncated d2 \<longleftrightarrow> truncated d \<or> short"
      using False d1 d2 start pos by simp_all
    moreover have "so - n \<le> no" using t unfolding tracks_def by linarith
    ultimately show ?thesis using t slice by (simp add: tracks_def)
  qed
  moreover have "\<not> truncated d2 \<longrightarrow> n = length q" using whole d1 d2 n by (auto split: if_splits)
  moreover have "pending d2 = pending d \<and> nextSeq d2 = nextSeq d \<and> (truncated d \<longrightarrow> truncated d2)"
    using d1 d2 by simp
  ultimately show ?thesis using le by simp
qed

lemma prepend_holds:
  assumes "pending d2 = pending d" and "holds_at base so no d j \<or> lo \<le> j \<and> j < so" and "lo \<le> so"
    and "so \<le> no"
  shows "holds_at base lo no d2 j"
  using assms by (auto simp: holds_at_def)

lemma append_early_advances:
  assumes ord: "map_order_ok ord" and t: "tracks M base so no d" and ok: "stream_ok capacity d"
    and dr: "drained d" and p: "is_slice M i p" "i < so"
  shows "\<exists>so' no' d'. append_early ord capacity (sq_at base i) p d = Some d' \<and>
    advances M base so no d i (i + length p) so' no' d' \<and> drained d'"
proof (cases "i + length p < so")
  case True
  have "so < 2 ^ 31" using tracks_small [OF t] by simp
  then have "append_early ord capacity (sq_at base i) p d = Some (d\<lparr>truncated := True\<rparr>)"
    using True t by (simp add: append_early_def Let_def sq_at_add seqLT_offsets tracks_def)
  moreover have "advances M base so no d i (i + length p) so no (d\<lparr>truncated := True\<rparr>)"
    using t by (simp add: advances_def tracks_def)
  ultimately show ?thesis using dr by (auto simp: drained_def)
next
  case False
  have small: "so < 2 ^ 31" "no < 2 ^ 31" "i + length p < 2 ^ 31" "so \<le> no"
    using tracks_small [OF t] is_slice_bound [OF p(1)] t by (auto simp: tracks_def)
  define q where "q = take (so - i) p"
  have len: "length q = so - i" using False by (simp add: q_def)
  obtain n d1 where pre: "prepend capacity q d = (n, d1)" by fastforce
  define d2 where "d2 = (if 0 < n then d1\<lparr>startSeq := startSeq d1 - word_of_nat n\<rparr> else d1)"
  have "is_slice M (so - length q) q" using p len by (simp add: q_def is_slice_take)
  from prepend_tracks [OF t this _ pre d2_def] len have two:
    "n \<le> so - i" "tracks M base (so - n) no d2" "pending d2 = pending d" "nextSeq d2 = nextSeq d"
    "truncated d \<longrightarrow> truncated d2" "\<not> truncated d2 \<longrightarrow> n = so - i" by simp_all
  have ok2: "stream_ok capacity d2"
    using prepend_ok [OF ok, of q] pre by (auto simp: d2_def stream_ok_def)
  have dr2: "drained d2" using dr two(3,4) by (simp add: drained_def)
  have held: "holds_at base (so - n) no d2 j"
    if "\<not> truncated d2" "holds_at base so no d j \<or> i \<le> j \<and> j < so" for j
    using prepend_holds [OF two(3), of base so no j "so - n"] that two(6) p(2) small(4) by simp
  have start: "startSeq d = sq_at base so" and next2: "nextSeq d2 = sq_at base no"
    using t two(2) by (simp_all add: tracks_def)
  have min: "min (unat (startSeq d - sq_at base i)) (length p) = so - i"
    using False small p(2) by (simp add: start unat_sq_diff)
  have early: "append_early ord capacity (sq_at base i) p d =
      (if no < i + length p
       then drainPending ord capacity (appendContiguous capacity (drop (no - i) p) d2)
       else Some d2)"
    using False small p(2) pre min
    by (simp add: append_early_def Let_def sq_at_add seqLT_offsets start q_def [symmetric]
        d2_def [symmetric] next2 unat_sq_diff slice_from_Some)
  show ?thesis
  proof (cases "no < i + length p")
    case True
    have "is_slice M (i + (no - i)) (drop (no - i) p)" using p(1) by (rule is_slice_drop) (use True in simp)
    then have sl: "is_slice M no (drop (no - i) p)" using p(2) small(4) by simp
    have sum: "no + length (drop (no - i) p) = i + length p" using True p(2) small(4) by simp
    from contiguous_drain [OF ord two(2) ok2 sl, unfolded sum] obtain no' d' where
      d': "drainPending ord capacity (appendContiguous capacity (drop (no - i) p) d2) = Some d'"
        "advances M base (so - n) no d2 no (i + length p) (so - n) no' d'" "drained d'" by blast
    have "holds_at base (so - n) no' d' j"
      if nt: "\<not> truncated d'" and j: "holds_at base so no d j \<or> i \<le> j \<and> j < i + length p" for j
    proof -
      have nt2: "\<not> truncated d2" using nt d'(2) by (auto simp: advances_def)
      have "holds_at base (so - n) no d2 j \<or> no \<le> j \<and> j < i + length p"
        using j held [OF nt2, of j] two(6) nt2 p(2) by (cases "j < no") (auto intro: holds_at_seen)
      then show ?thesis using d'(2) nt by (auto simp: advances_def)
    qed
    then have "advances M base so no d i (i + length p) (so - n) no' d'"
      using d'(2) two(5) by (auto simp: advances_def)
    then show ?thesis using early True d'(1,3) by auto
  next
    case beyond: False
    have "holds_at base (so - n) no d2 j"
      if nt: "\<not> truncated d2" and j: "holds_at base so no d j \<or> i \<le> j \<and> j < i + length p" for j
      using j held [OF nt, of j] two(6) nt p(2) beyond by (cases "j < no") (auto intro: holds_at_seen)
    then have "advances M base so no d i (i + length p) (so - n) no d2"
      using two(2,5) by (auto simp: advances_def)
    then show ?thesis using early beyond dr2 by auto
  qed
qed

lemma appendSeg_advances:
  assumes ord: "map_order_ok ord" and t: "tracks M base so no d" and ok: "stream_ok capacity d"
    and dr: "drained d" and p: "is_slice M i p"
  shows "\<exists>so' no' d'. appendSeg ord capacity (sq_at base i) p d = Some d' \<and>
    advances M base so no d i (i + length p) so' no' d' \<and> drained d'"
proof (cases "p = []")
  case True
  moreover from True have "advances M base so no d i (i + length p) so no d"
    using t by (auto simp: advances_def)
  ultimately show ?thesis using dr by (auto simp: appendSeg_def)
next
  case ne: False
  have small: "so < 2 ^ 31" "no < 2 ^ 31" "i + length p < 2 ^ 31" "so \<le> no"
    using tracks_small [OF t] is_slice_bound [OF p] t by (auto simp: tracks_def)
  have st: "haveBase d" "startSeq d = sq_at base so" "nextSeq d = sq_at base no"
    using t by (simp_all add: tracks_def)
  consider "i < so" | "so \<le> i" "i < no" "i + length p \<le> no" | "so \<le> i" "i < no" "no < i + length p"
    | "no \<le> i" by linarith
  then show ?thesis
  proof cases
    case 1
    then have "appendSeg ord capacity (sq_at base i) p d = append_early ord capacity (sq_at base i) p d"
      using ne st small by (simp add: appendSeg_def Let_def seqLT_offsets)
    then show ?thesis using append_early_advances [OF ord t ok dr p 1] by simp
  next
    case 2
    then have "appendSeg ord capacity (sq_at base i) p d = Some d"
      using ne st small by (simp add: appendSeg_def Let_def seqLT_offsets seqLE_offsets sq_at_add)
    moreover have "advances M base so no d i (i + length p) so no d"
      using t 2 by (auto simp: advances_def intro: holds_at_seen)
    ultimately show ?thesis using dr by blast
  next
    case 3
    let ?q = "drop (no - i) p"
    have "no - i < length p" using 3 by linarith
    then have eq: "appendSeg ord capacity (sq_at base i) p d = append_late ord capacity (sq_at base no) ?q d"
      using 3 ne st small
      by (simp add: appendSeg_def Let_def seqLT_offsets seqLE_offsets sq_at_add unat_sq_diff)
    have "is_slice M (i + (no - i)) ?q" using p by (rule is_slice_drop) (use 3 in simp)
    then have "is_slice M no ?q" using 3 by simp
    moreover have "?q \<noteq> []" using 3 by simp
    ultimately obtain no' d' where
      d': "append_late ord capacity (sq_at base no) ?q d = Some d'"
        "advances M base so no d no (no + length ?q) so no' d'" "drained d'"
      using append_late_advances [OF ord t ok dr _ order_refl] by blast
    have "no + length ?q = i + length p" using 3 by simp
    with d'(2) have "advances M base so no d i (i + length p) so no' d'"
      using 3(1) unfolding advances_def by (metis holds_at_seen linorder_not_less order_trans)
    then show ?thesis using eq d' by auto
  next
    case 4
    then have "appendSeg ord capacity (sq_at base i) p d = append_late ord capacity (sq_at base i) p d"
      using ne st small by (simp add: appendSeg_def Let_def seqLT_offsets)
    then show ?thesis using append_late_advances [OF ord t ok dr p 4 ne] by auto
  qed
qed

section \<open>A whole message\<close>

text \<open>The observed segments, as pairs of an offset into the message and the bytes.\<close>

definition on_wire :: "32 word \<Rightarrow> (nat \<times> bytes) list \<Rightarrow> (32 word \<times> bytes) list" where
  "on_wire base = map (\<lambda>(i, p). (sq_at base i, p))"

definition slices_of :: "bytes \<Rightarrow> (nat \<times> bytes) list \<Rightarrow> bool" where
  "slices_of M segs \<longleftrightarrow> (\<forall>(i, p)\<in>set segs. is_slice M i p)"

definition seen_at :: "(nat \<times> bytes) list \<Rightarrow> nat \<Rightarrow> bool" where
  "seen_at segs j \<longleftrightarrow> (\<exists>(i, p)\<in>set segs. i \<le> j \<and> j < i + length p)"

lemma append_all_advances:
  assumes ord: "map_order_ok ord"
  shows "slices_of M segs \<Longrightarrow> tracks M base so no d \<Longrightarrow> stream_ok capacity d \<Longrightarrow> drained d \<Longrightarrow>
    \<exists>so' no' d'. append_all ord capacity (on_wire base segs) d = Some d' \<and> tracks M base so' no' d' \<and>
      drained d' \<and> so' \<le> so \<and> (truncated d \<longrightarrow> truncated d') \<and>
      (\<not> truncated d' \<longrightarrow> (\<forall>j. holds_at base so no d j \<or> seen_at segs j \<longrightarrow> holds_at base so' no' d' j))"
proof (induction segs arbitrary: so no d)
  case Nil
  then show ?case by (auto simp: on_wire_def seen_at_def)
next
  case (Cons s segs)
  obtain i p where s: "s = (i, p)" by fastforce
  have p: "is_slice M i p" and rest: "slices_of M segs" using Cons.prems(1) s by (auto simp: slices_of_def)
  from appendSeg_advances [OF ord Cons.prems(2,3,4) p] obtain so1 no1 d1 where
    d1: "appendSeg ord capacity (sq_at base i) p d = Some d1"
      "advances M base so no d i (i + length p) so1 no1 d1" "drained d1" by blast
  have t1: "tracks M base so1 no1 d1" using d1(2) by (simp add: advances_def)
  have ok1: "stream_ok capacity d1" using ord Cons.prems(3) d1(1) by (rule appendSeg_ok)
  from Cons.IH [OF rest t1 ok1 d1(3)] obtain so2 no2 d2 where
    d2: "append_all ord capacity (on_wire base segs) d1 = Some d2" "tracks M base so2 no2 d2"
      "drained d2" "so2 \<le> so1" "truncated d1 \<longrightarrow> truncated d2"
      "\<not> truncated d2 \<longrightarrow> (\<forall>j. holds_at base so1 no1 d1 j \<or> seen_at segs j \<longrightarrow> holds_at base so2 no2 d2 j)"
    by blast
  have "append_all ord capacity (on_wire base (s # segs)) d = Some d2"
    using d1(1) d2(1) s by (simp add: on_wire_def)
  moreover have "holds_at base so2 no2 d2 j"
    if "\<not> truncated d2" "holds_at base so no d j \<or> seen_at (s # segs) j" for j
    using that d1(2) d2(5,6) s unfolding advances_def seen_at_def by auto
  moreover have "so2 \<le> so" "truncated d \<longrightarrow> truncated d2" using d1(2) d2(4,5) by (auto simp: advances_def)
  ultimately show ?case using d2(2,3) by blast
qed

lemma empty_stream_ok: "0 \<le> capacity \<Longrightarrow> stream_ok capacity empty_stream"
  by (simp add: stream_ok_def empty_stream_def pending_bytes_def)

definition first_base :: "32 word \<Rightarrow> dirStream" where
  "first_base sq = empty_stream\<lparr>haveBase := True, startSeq := sq, nextSeq := sq\<rparr>"

lemma append_all_first:
  "p \<noteq> [] \<Longrightarrow> append_all ord capacity ((sq, p) # segs) empty_stream =
    append_all ord capacity ((sq, p) # segs) (first_base sq)"
  by (simp add: appendSeg_def empty_stream_def first_base_def)

lemma first_base_ready:
  assumes "is_slice M i p" and "length M < 2 ^ 31" and "0 \<le> capacity"
  shows "tracks M base i i (first_base (sq_at base i))" and "drained (first_base sq)"
    and "stream_ok capacity (first_base sq)" and "\<not> truncated (first_base sq)"
  using assms is_slice_bound [OF assms(1)]
  by (simp_all add: tracks_def first_base_def empty_stream_def drained_def stream_ok_def
      pending_bytes_def is_slice_def)

text \<open>
  When every offset was seen, an untruncated buffer is the message and nothing is left waiting.
\<close>

lemma tracks_whole:
  assumes t: "tracks M base so no d" and dr: "drained d" and nt: "\<not> truncated d"
    and all: "\<And>j. j < length M \<Longrightarrow> holds_at base so no d j" and "M \<noteq> []"
  shows "buf d = M \<and> pending d = [] \<and> so = 0"
proof -
  have beyond: "no < i" if mem: "(sq_at base i, p) \<in> set (pending d)" and sm: "i < 2 ^ 31" for i p
  proof -
    obtain k where k: "fst (sq_at base i, p) = sq_at base k" "is_slice M k p" "k + length p < 2 ^ 31"
      using tracks_entry [OF t mem] by auto
    have "k = i" using k(1,3) sm by (simp add: sq_at_inject)
    moreover have "waits (nextSeq d) (sq_at base i, p)" using dr mem by (simp add: drained_def)
    ultimately show ?thesis using waits_offsets [OF t k(1)] k(2) by simp
  qed
  have here: "so \<le> j \<and> j < no \<or> no < j" if "j < length M" for j
    using all [OF that] by (cases rule: holds_atE) (use beyond in fastforce)+
  have le: "so \<le> no" "no \<le> length M" and b: "is_slice M so (buf d)" "so + length (buf d) = no"
    using t nt by (auto simp: tracks_def)
  have "no = length M" using here [of no] le by fastforce
  moreover have "so = 0" using here [of 0] \<open>M \<noteq> []\<close> by auto
  moreover have "pending d = []"
  proof (rule ccontr)
    assume "pending d \<noteq> []"
    then obtain e where e: "e \<in> set (pending d)" by (cases "pending d") auto
    obtain i where i: "fst e = sq_at base i" "is_slice M i (snd e)" "i + length (snd e) < 2 ^ 31"
      using tracks_entry [OF t e] by blast
    have "no < i" using beyond [of i "snd e"] e i by (metis add_lessD1 prod.collapse)
    then show False using is_slice_bound [OF i(2)] \<open>no = length M\<close> by simp
  qed
  ultimately show ?thesis using b is_slice_whole by simp
qed

lemma slices_of_nonempty:
  "slices_of M segs \<Longrightarrow> slices_of M (filter (\<lambda>s. snd s \<noteq> []) segs)"
  by (auto simp: slices_of_def)

lemma appendSeg_Nil [simp]: "appendSeg ord capacity sq [] d = Some d"
  by (simp add: appendSeg_def)

lemma append_all_nonempty:
  "append_all ord capacity (on_wire base (filter (\<lambda>s. snd s \<noteq> []) segs)) =
   append_all ord capacity (on_wire base segs)"
proof (induction segs)
  case Nil
  then show ?case by simp
next
  case (Cons s segs)
  show ?case
  proof (rule ext)
    fix d
    show "append_all ord capacity (on_wire base (filter (\<lambda>s. snd s \<noteq> []) (s # segs))) d =
        append_all ord capacity (on_wire base (s # segs)) d"
      using Cons.IH by (cases s; cases "snd s = []") (simp_all add: on_wire_def)
  qed
qed

lemma append_all_whole:
  assumes ord: "map_order_ok ord" and cap: "0 \<le> capacity" and M: "length M < 2 ^ 31"
    and sl: "slices_of M segs" and all: "\<And>j. j < length M \<Longrightarrow> seen_at segs j"
  shows "\<exists>d. append_all ord capacity (on_wire base segs) empty_stream = Some d \<and>
    stream_ok capacity d \<and> (\<not> truncated d \<longrightarrow> buf d = M \<and> pending d = [])"
proof (cases "filter (\<lambda>s. snd s \<noteq> []) segs")
  case Nil
  then have "\<not> seen_at segs j" for j by (force simp: seen_at_def filter_empty_conv)
  then have "M = []" using all by auto
  moreover have "append_all ord capacity (on_wire base segs) empty_stream = Some empty_stream"
    using append_all_nonempty [of ord capacity base segs, symmetric] Nil by (simp add: on_wire_def)
  ultimately show ?thesis using empty_stream_ok [OF cap] by (simp add: empty_stream_def)
next
  case (Cons s rest)
  obtain i p where s: "s = (i, p)" by fastforce
  let ?segs = "s # rest" and ?d0 = "first_base (sq_at base i)"
  have sl': "slices_of M ?segs" using slices_of_nonempty [OF sl] Cons by simp
  then have p: "is_slice M i p" by (simp add: slices_of_def s)
  have mem: "s \<in> set (filter (\<lambda>s. snd s \<noteq> []) segs)" by (simp add: Cons)
  then have ne: "p \<noteq> []" using s by simp
  have all': "seen_at ?segs j" if "j < length M" for j
  proof -
    have "seen_at (filter (\<lambda>s. snd s \<noteq> []) segs) j" using all [OF that] by (force simp: seen_at_def)
    then show ?thesis by (simp add: Cons)
  qed
  note ready = first_base_ready [OF p M cap]
  from append_all_advances [OF ord sl' ready(1,3,2), of base] obtain so no d where
    d: "append_all ord capacity (on_wire base ?segs) ?d0 = Some d" "tracks M base so no d" "drained d"
      "\<not> truncated d \<longrightarrow> (\<forall>j. holds_at base i i ?d0 j \<or> seen_at ?segs j \<longrightarrow> holds_at base so no d j)"
    by blast
  have run: "append_all ord capacity (on_wire base segs) empty_stream = Some d"
  proof -
    have "append_all ord capacity (on_wire base segs) empty_stream =
        append_all ord capacity (on_wire base ?segs) empty_stream"
      using append_all_nonempty [of ord capacity base segs] Cons by simp
    also have "\<dots> = append_all ord capacity (on_wire base ?segs) ?d0"
      using append_all_first [OF ne] s by (simp add: on_wire_def)
    finally show ?thesis using d(1) by simp
  qed
  have "M \<noteq> []" using p ne by (auto simp: is_slice_def)
  then have "\<not> truncated d \<longrightarrow> buf d = M \<and> pending d = []"
    using tracks_whole [OF d(2,3)] d(4) all' by blast
  moreover have "stream_ok capacity d" using append_all_ok [OF ord empty_stream_ok [OF cap] run] .
  ultimately show ?thesis using run by blast
qed

section \<open>When nothing is cut\<close>

text \<open>
  The buffer and what waits never hold more than the bytes that were fed, so with room for the sum
  of the segments nothing is cut; the only other reason for \<open>truncated\<close> is a segment before the
  first one seen.
\<close>

definition used :: "dirStream \<Rightarrow> int" where
  "used d = int (length (buf d)) + pendingLen d"

lemma appendContiguous_used:
  "used d + int (length p) \<le> capacity \<Longrightarrow>
   truncated (appendContiguous capacity p d) = truncated d \<and>
   used (appendContiguous capacity p d) = used d + int (length p)"
  by (auto simp: used_def appendContiguous_def stream_room_def Let_def)

lemma drop_pending_used:
  "used (drop_pending k v d) = used d - int (length v)" "truncated (drop_pending k v d) = truncated d"
  by (simp_all add: used_def drop_pending_def)

lemma drain_entry_used:
  assumes "used d \<le> capacity" and "drain_entry capacity e d = Some d'"
  shows "truncated d' = truncated d \<and> used d' \<le> used d"
proof (cases "seqLE (fst e + word_of_nat (length (snd e))) (nextSeq d)")
  case True
  then show ?thesis using assms(2) by (auto simp: drain_entry_def Let_def drop_pending_used)
next
  case False
  let ?rest = "drop (unat (nextSeq d - fst e)) (snd e)" and ?d1 = "drop_pending (fst e) (snd e) d"
  have d': "d' = appendContiguous capacity ?rest ?d1"
    using False assms(2) by (simp add: drain_entry_def Let_def slice_from_def split: if_splits)
  have len: "int (length ?rest) \<le> int (length (snd e))" by (simp only: length_drop of_nat_le_iff diff_le_self)
  then have "used ?d1 + int (length ?rest) \<le> capacity"
    using assms(1) unfolding drop_pending_used by linarith
  from appendContiguous_used [OF this] len show ?thesis unfolding d' drop_pending_used by linarith
qed

lemma drain_loop_used:
  "used d \<le> capacity \<Longrightarrow> drain_loop ord capacity n d = Some d' \<Longrightarrow>
   truncated d' = truncated d \<and> used d' \<le> used d"
proof (induction ord capacity n d rule: drain_loop.induct)
  case (1 ord capacity d)
  then show ?case by simp
next
  case (2 ord capacity fuel d)
  show ?case
  proof (cases "find (\<lambda>e. \<not> waits (nextSeq d) e) (ord (pending d))")
    case None
    then show ?thesis using 2(3) by simp
  next
    case (Some e)
    with 2(3) obtain d1 where d1: "drain_entry capacity e d = Some d1"
      and "drain_loop ord capacity fuel d1 = Some d'" by (auto simp: bind_eq_Some_conv)
    then show ?thesis using 2(1) [OF Some, of d1] drain_entry_used [OF 2(2) d1] 2(2) by simp
  qed
qed

lemma store_copy_used:
  "used d + int (length p) \<le> capacity \<Longrightarrow> p \<noteq> [] \<Longrightarrow>
   truncated (store_copy capacity k p d) = truncated d \<and>
   used (store_copy capacity k p d) = used d + int (length p)"
  by (cases p) (auto simp: used_def store_copy_def stream_room_def Let_def)

lemma storePending_used:
  "used d + int (length p) \<le> capacity \<Longrightarrow> p \<noteq> [] \<Longrightarrow>
   truncated (storePending capacity k p d) = truncated d \<and>
   used (storePending capacity k p d) \<le> used d + int (length p)"
  using store_copy_used [of d p capacity k] store_copy_used [of "drop_pending k v d" p capacity k for v]
  by (auto simp: storePending_def drop_pending_used split: option.split)

lemma append_late_used:
  assumes "used d + int (length p) \<le> capacity" and "p \<noteq> []"
    and "append_late ord capacity k p d = Some d'"
  shows "truncated d' = truncated d \<and> used d' \<le> used d + int (length p)"
proof (cases "k = nextSeq d")
  case True
  let ?d1 = "appendContiguous capacity p d"
  have r: "drainPending ord capacity ?d1 = Some d'" using True assms(3) by (simp add: append_late_def)
  note d1 = appendContiguous_used [OF assms(1)]
  then have "used ?d1 \<le> capacity" using assms(1) by simp
  from drain_loop_used [OF this r [unfolded drainPending_def]] d1 show ?thesis by simp
next
  case False
  then show ?thesis using storePending_used [OF assms(1,2)] assms(3) by (auto simp: append_late_def)
qed

lemma appendSeg_used:
  assumes "used d + int (length p) \<le> capacity" and "haveBase d" and "\<not> seqLT k (startSeq d)"
    and "appendSeg ord capacity k p d = Some d'"
  shows "truncated d' = truncated d \<and> used d' \<le> used d + int (length p)"
proof -
  have late: "truncated d' = truncated d \<and> used d' \<le> used d + int (length p)"
    if "append_late ord capacity k' (drop n p) d = Some d'" "n < length p" for k' n
    using append_late_used [of d "drop n p" capacity ord k' d'] that assms(1) by auto
  show ?thesis using assms(2-4) late [of k 0] late [of "nextSeq d" "unat (nextSeq d - k)"]
    by (auto simp: appendSeg_def Let_def split: if_splits)
qed

lemma append_all_used:
  assumes ord: "map_order_ok ord" and M: "length M < 2 ^ 31"
  shows "slices_of M segs \<Longrightarrow> tracks M base 0 no d \<Longrightarrow> stream_ok capacity d \<Longrightarrow> drained d \<Longrightarrow>
    used d + int (sum_list (map (length \<circ> snd) segs)) \<le> capacity \<Longrightarrow>
    append_all ord capacity (on_wire base segs) d = Some d' \<Longrightarrow> truncated d' = truncated d"
proof (induction segs arbitrary: no d)
  case Nil
  then show ?case by (simp add: on_wire_def)
next
  case (Cons s segs)
  obtain i p where s: "s = (i, p)" by fastforce
  have p: "is_slice M i p" and rest: "slices_of M segs" using Cons.prems(1) s by (auto simp: slices_of_def)
  from appendSeg_advances [OF ord Cons.prems(2,3,4) p] obtain so1 no1 d1 where
    d1: "appendSeg ord capacity (sq_at base i) p d = Some d1"
      "advances M base 0 no d i (i + length p) so1 no1 d1" "drained d1" by blast
  have t1: "tracks M base 0 no1 d1" using d1(2) by (auto simp: advances_def)
  have ok1: "stream_ok capacity d1" using ord Cons.prems(3) d1(1) by (rule appendSeg_ok)
  have "i < 2 ^ 31" using is_slice_bound [OF p] M by simp
  then have "\<not> seqLT (sq_at base i) (startSeq d)" "haveBase d"
    using Cons.prems(2) seqLT_offsets [of i 0 base] by (simp_all add: tracks_def)
  then have u: "truncated d1 = truncated d \<and> used d1 \<le> used d + int (length p)"
    using appendSeg_used [of d p capacity "sq_at base i" ord d1] d1(1) Cons.prems(5) s by simp
  have run: "append_all ord capacity (on_wire base segs) d1 = Some d'"
    using Cons.prems(6) d1(1) s by (simp add: on_wire_def)
  have "used d1 + int (sum_list (map (length \<circ> snd) segs)) \<le> capacity"
    using u Cons.prems(5) s by (simp add: o_def)
  from Cons.IH [OF rest t1 ok1 d1(3) this run] u show ?case by simp
qed

lemma append_all_uncut:
  assumes ord: "map_order_ok ord" and M: "length M < 2 ^ 31"
    and sl: "slices_of M ((0, p) # segs)" and "p \<noteq> []"
    and room: "int (sum_list (map (length \<circ> snd) ((0, p) # segs))) \<le> capacity"
    and r: "append_all ord capacity (on_wire base ((0, p) # segs)) empty_stream = Some d"
  shows "\<not> truncated d"
proof -
  have p: "is_slice M 0 p" using sl by (simp add: slices_of_def)
  have "0 \<le> capacity" using room by (simp add: o_def)
  note ready = first_base_ready [OF p M this]
  have run: "append_all ord capacity (on_wire base ((0, p) # segs)) (first_base (sq_at base 0)) = Some d"
    using r append_all_first [OF \<open>p \<noteq> []\<close>] by (simp add: on_wire_def)
  have "used (first_base (sq_at base 0)) = 0" by (simp add: used_def first_base_def empty_stream_def)
  then show ?thesis
    using append_all_used [OF ord M sl ready(1) ready(3) ready(2) _ run] room ready(4) by simp
qed

section \<open>A stream longer than half the sequence space\<close>

text \<open>
  \<open>startSeq\<close> stays at the first byte, so after \<open>2 ^ 31\<close> bytes of one direction the signed comparison
  takes a segment just below \<open>startSeq\<close> for one that reaches past \<open>nextSeq\<close>.
\<close>

definition long_stream :: "nat \<Rightarrow> (32 word \<times> bytes) list" where
  "long_stream k = map (\<lambda>i. (word_of_nat (1024 * i), replicate 1024 0)) [0..<k]"

lemma drainPending_none: "pending d = [] \<Longrightarrow> drainPending ord capacity d = Some d"
  by (simp add: drainPending_def)

lemma append_in_order:
  assumes "haveBase d" and "pending d = []" and "p \<noteq> []" and "nextSeq d = sq_at (startSeq d) n"
    and "n < 2 ^ 31"
  shows "appendSeg ord capacity (nextSeq d) p d = Some (appendContiguous capacity p d)"
proof -
  have "\<not> seqLT (nextSeq d) (startSeq d)"
    using assms(4,5) seqLT_offsets [of n 0 "startSeq d"] by (simp add: sq_at_def)
  moreover have "\<not> seqLT (nextSeq d) (nextSeq d)" by (simp add: seqLT_def)
  moreover have "pending (appendContiguous capacity p d) = []"
    using assms(2) by (simp add: appendContiguous_def Let_def)
  ultimately show ?thesis using assms(1,3)
    by (simp add: appendSeg_def Let_def append_late_def drainPending_none)
qed

lemma append_all_append:
  "append_all ord capacity (xs @ ys) d =
   do { d' \<leftarrow> append_all ord capacity xs d; append_all ord capacity ys d' }"
  by (induction ord capacity xs d rule: append_all.induct) (auto split: Option.bind_split)

lemma long_stream_state:
  "k \<le> 2 ^ 21 \<Longrightarrow> \<exists>d. append_all ord capacity (long_stream k) (first_base 0) = Some d \<and>
     haveBase d \<and> startSeq d = 0 \<and> nextSeq d = word_of_nat (1024 * k) \<and> pending d = []"
proof (induction k)
  case 0
  then show ?case by (simp add: long_stream_def first_base_def empty_stream_def)
next
  case (Suc k)
  then obtain d where d: "append_all ord capacity (long_stream k) (first_base 0) = Some d"
    "haveBase d" "startSeq d = 0" "nextSeq d = word_of_nat (1024 * k)" "pending d = []" by auto
  let ?p = "replicate 1024 0 :: bytes"
  have ne: "?p \<noteq> []" by (simp add: numeral_eq_Suc)
  have n: "1024 * k < 2 ^ 31" using Suc.prems by simp
  have "nextSeq d = sq_at (startSeq d) (1024 * k)" by (simp only: d(3,4) sq_at_def add_0)
  from append_in_order [OF d(2,5) ne this n, of ord capacity]
  have "appendSeg ord capacity (word_of_nat (1024 * k)) ?p d = Some (appendContiguous capacity ?p d)"
    by (simp only: d(4))
  then have "append_all ord capacity (long_stream (Suc k)) (first_base 0) =
      Some (appendContiguous capacity ?p d)"
    using d(1) by (simp add: long_stream_def append_all_append)
  then show ?case using d by (simp add: appendContiguous_def Let_def distrib_left)
qed

lemma long_stream_starts:
  "0 < k \<Longrightarrow> append_all ord capacity (long_stream k @ ys) empty_stream =
    append_all ord capacity (long_stream k @ ys) (first_base 0)"
  by (cases k) (simp_all add: long_stream_def upt_conv_Cons append_all_first del: upt_Suc append_all.simps)

lemma prepend_nextSeq: "prepend capacity q d = (n, d1) \<Longrightarrow> nextSeq d1 = nextSeq d"
  by (auto simp: prepend_def Let_def split: if_splits)

lemma append_behind_panics:
  assumes "haveBase d" and "startSeq d = 0" and "nextSeq d = 2 ^ 31"
  shows "appendSeg ord capacity (2 ^ 32 - 100) (replicate 100 0) d = None"
proof -
  have lt: "seqLT (2 ^ 32 - 100) 0" "\<not> seqLT 0 0" "seqLT (2 ^ 31) 0"
    by (simp_all add: seqLT_def)
  have fin: "(2 ^ 32 - 100) + word_of_nat (length (replicate 100 (0 :: byte))) = (0 :: 32 word)"
    by simp
  have "length (replicate 100 (0 :: byte)) < unat ((2 ^ 31 :: 32 word) - (2 ^ 32 - 100))" by simp
  then have "slice_from (replicate 100 (0 :: byte)) (unat ((2 ^ 31 :: 32 word) - (2 ^ 32 - 100))) = None"
    by (simp add: slice_from_def)
  then have "append_early ord capacity (2 ^ 32 - 100) (replicate 100 0) d = None"
    unfolding append_early_def Let_def fin using assms lt
    by (auto simp: prepend_nextSeq split: prod.split dest: prepend_nextSeq)
  moreover have "replicate 100 (0 :: byte) \<noteq> []" by (simp add: numeral_eq_Suc)
  ultimately show ?thesis
    unfolding appendSeg_def Let_def using assms(1,2) lt(1) by (simp only: if_True if_False)
qed

section \<open>Properties\<close>

lemma id_order_ok: "map_order_ok id"
  by (simp add: map_order_ok_def)

text \<open>The slices of a short message, for the witnesses.\<close>

definition demo_message :: bytes where
  "demo_message = [1, 2, 3, 4, 5]"

definition demo_segments :: "(nat \<times> bytes) list" where
  "demo_segments = [(0, [1, 2]), (3, [4, 5]), (1, [2, 3]), (1, [2, 3])]"

lemma demo_ok:
  "slices_of demo_message demo_segments" "\<forall>j<length demo_message. seen_at demo_segments j"
proof -
  show "slices_of demo_message demo_segments"
    by (simp add: slices_of_def is_slice_def demo_message_def demo_segments_def)
  have "j \<in> {0, 1, 2, 3, 4}" if "j < 5" for j :: nat using that by auto
  then show "\<forall>j<length demo_message. seen_at demo_segments j"
    by (auto simp: seen_at_def demo_message_def demo_segments_def)
qed

text \<open>C4. Segments of a message of less than 2 GiB, in any order, repeated and overlapping, do not make the reassembly
  panic; if they cover the message and the stream is not marked truncated, its buffer is exactly the
  message, with nothing left waiting. (A direction that carries 2 GiB or more can panic: see long_stream_panics.)\<close>

theorem reassembly_exact:
  assumes "map_order_ok ord" and "0 \<le> capacity" and "length M < 2 ^ 31" and "slices_of M segs"
    and "\<forall>j<length M. seen_at segs j"
  shows "\<exists>d. append_all ord capacity (on_wire base segs) empty_stream = Some d \<and>
    (truncated d \<or> (buf d = M \<and> pending d = []))"
  using append_all_whole [OF assms(1-4), of base] assms(5) by blast

theorem reassembly_exact_witness:
  "\<exists>d. append_all id 64 (on_wire 7 demo_segments) empty_stream = Some d \<and>
    (truncated d \<or> (buf d = demo_message \<and> pending d = []))"
  by (rule reassembly_exact [OF id_order_ok _ _ demo_ok]) (simp_all add: demo_message_def)

text \<open>C23. If the first segment seen is the start of the message and the capacity has room for the sum of
  the segments, the message arrives whole and is not marked truncated.\<close>

theorem reassembly_complete:
  assumes "map_order_ok ord" and "length M < 2 ^ 31" and "slices_of M ((0, p) # segs)" and "p \<noteq> []"
    and "\<forall>j<length M. seen_at ((0, p) # segs) j"
    and "int (sum_list (map (length \<circ> snd) ((0, p) # segs))) \<le> capacity"
  shows "\<exists>d. append_all ord capacity (on_wire base ((0, p) # segs)) empty_stream = Some d \<and>
    \<not> truncated d \<and> buf d = M \<and> pending d = []"
proof -
  have "0 \<le> capacity" using assms(6) by (simp add: o_def)
  from append_all_whole [OF assms(1) this assms(2,3), of base] assms(5) obtain d where
    d: "append_all ord capacity (on_wire base ((0, p) # segs)) empty_stream = Some d"
      "\<not> truncated d \<longrightarrow> buf d = M \<and> pending d = []" by blast
  have "\<not> truncated d" by (rule append_all_uncut [OF assms(1-4,6) d(1)])
  then show ?thesis using d by blast
qed

theorem reassembly_complete_witness:
  "\<exists>d. append_all id 9 (on_wire (2 ^ 32 - 2) demo_segments) empty_stream = Some d \<and>
    \<not> truncated d \<and> buf d = demo_message \<and> pending d = []"
  using reassembly_complete [OF id_order_ok, of demo_message "[1, 2]" "tl demo_segments" 9 "2 ^ 32 - 2"]
    demo_ok by (simp add: demo_segments_def) (simp add: demo_message_def)

text \<open>Whatever arrives, the bytes buffered and the bytes that wait for a gap to close never exceed the
  capacity together, the counter of waiting bytes is exact, and each sequence number waits once.\<close>

theorem reassembly_memory_bound:
  assumes "map_order_ok ord" and "0 \<le> capacity"
  shows "case append_all ord capacity segs empty_stream of
      None \<Rightarrow> True
    | Some d \<Rightarrow> length (buf d) + pending_bytes (pending d) \<le> nat capacity \<and>
        pendingLen d = int (pending_bytes (pending d)) \<and> distinct (map fst (pending d))"
  using append_all_ok [OF assms(1) empty_stream_ok [OF assms(2)]] assms(2)
  by (fastforce simp: stream_ok_def split: option.split)

theorem reassembly_memory_bound_witness:
  "case append_all id 3 [(5, [1, 2]), (9, [3, 4, 5]), (7, [6])] empty_stream of
      None \<Rightarrow> True
    | Some d \<Rightarrow> length (buf d) + pending_bytes (pending d) \<le> nat 3 \<and>
        pendingLen d = int (pending_bytes (pending d)) \<and> distinct (map fst (pending d))"
  by (rule reassembly_memory_bound [OF id_order_ok]) simp

text \<open>A direction that has carried 2 GiB makes the code panic: after 2 ^ 21 segments of 1024 bytes in
  order, a segment of 100 bytes just below the first one is sliced past its end.\<close>

theorem long_stream_panics:
  "append_all ord capacity (long_stream (2 ^ 21) @ [(2 ^ 32 - 100, replicate 100 0)]) empty_stream = None"
proof -
  obtain d where d: "append_all ord capacity (long_stream (2 ^ 21)) (first_base 0) = Some d"
    "haveBase d" "startSeq d = 0" "nextSeq d = word_of_nat (1024 * 2 ^ 21)"
    using long_stream_state [of "2 ^ 21" ord capacity] by blast
  have "nextSeq d = 2 ^ 31" using d(4) by simp
  from append_behind_panics [OF d(2,3) this, of ord capacity] d(1)
  have "append_all ord capacity (long_stream (2 ^ 21) @ [(2 ^ 32 - 100, replicate 100 0)]) (first_base 0) = None"
    by (simp only: append_all_append append_all.simps bind.bind_lunit bind.bind_lzero)
  then show ?thesis using long_stream_starts [of "2 ^ 21" ord capacity] by (simp del: power_numeral)
qed

end
