(* ===== verification/Utf8.thy ===== *)
theory Utf8
  imports GoPrelude
begin

text \<open>
  The part of Go's \<open>unicode/utf8\<close> and \<open>strings\<close> the program uses on bytes that may not be text: the
  width of the rune at the front, \<open>strings.ToValidUTF8(s, "")\<close>, \<open>utf8.RuneCountInString\<close> and the
  cut of a string to a number of runes through \<open>[]rune\<close>.
\<close>

section \<open>UTF-8 (strings.ToValidUTF8 with an empty replacement)\<close>

definition cont_byte :: "byte \<Rightarrow> bool" where
  "cont_byte b \<longleftrightarrow> 0x80 \<le> b \<and> b \<le> 0xBF"

definition second_ok :: "byte \<Rightarrow> byte \<Rightarrow> bool" where
  "second_ok a b \<longleftrightarrow>
     (if a = 0xE0 then 0xA0 \<le> b \<and> b \<le> 0xBF
      else if a = 0xED then 0x80 \<le> b \<and> b \<le> 0x9F
      else if a = 0xF0 then 0x90 \<le> b \<and> b \<le> 0xBF
      else if a = 0xF4 then 0x80 \<le> b \<and> b \<le> 0x8F
      else cont_byte b)"

text \<open>The length of the rune at the front of the list, 0 when its bytes are invalid.\<close>

definition rune_width :: "bytes \<Rightarrow> nat" where
  "rune_width bs =
     (case bs of [] \<Rightarrow> 0
      | a # rest \<Rightarrow>
          if a < 0x80 then 1
          else if 0xC2 \<le> a \<and> a \<le> 0xDF
          then (case rest of b # _ \<Rightarrow> if cont_byte b then 2 else 0 | _ \<Rightarrow> 0)
          else if 0xE0 \<le> a \<and> a \<le> 0xEF
          then (case rest of b # c # _ \<Rightarrow> if second_ok a b \<and> cont_byte c then 3 else 0 | _ \<Rightarrow> 0)
          else if 0xF0 \<le> a \<and> a \<le> 0xF4
          then (case rest of b # c # d # _ \<Rightarrow>
                  if second_ok a b \<and> cont_byte c \<and> cont_byte d then 4 else 0 | _ \<Rightarrow> 0)
          else 0)"

function to_valid_utf8 :: "bytes \<Rightarrow> bytes" where
  "to_valid_utf8 bs =
     (if bs = [] then []
      else let w = rune_width bs in
           if w = 0 then to_valid_utf8 (tl bs) else take w bs @ to_valid_utf8 (drop w bs))"
  by pat_completeness auto
termination
proof (relation "measure length")
  fix bs :: bytes and w :: nat assume "bs \<noteq> []" and "w \<noteq> 0"
  then show "(drop w bs, bs) \<in> measure length" by (cases bs) auto
next
  fix bs :: bytes assume "bs \<noteq> []"
  then show "(tl bs, bs) \<in> measure length" by (cases bs) auto
qed simp

declare to_valid_utf8.simps [simp del]

function valid_utf8 :: "bytes \<Rightarrow> bool" where
  "valid_utf8 bs =
     (if bs = [] then True
      else if rune_width bs = 0 then False else valid_utf8 (drop (rune_width bs) bs))"
  by pat_completeness auto
termination
proof (relation "measure length")
  fix bs :: bytes assume "bs \<noteq> []" "rune_width bs \<noteq> 0"
  then show "(drop (rune_width bs) bs, bs) \<in> measure length" by (cases bs) auto
qed simp

declare valid_utf8.simps [simp del]

section \<open>Lemmas\<close>

lemma rune_width_le: "rune_width bs \<le> length bs"
proof -
  have "rune_width (a # r) \<le> length (a # r)" for a r
    unfolding rune_width_def by (simp only: list.case if_distrib [of "\<lambda>w. w \<le> length (a # r)"] split: list.split) simp
  then show ?thesis by (cases bs) (simp_all add: rune_width_def)
qed

lemma rune_width_take:
  "rune_width bs \<noteq> 0 \<Longrightarrow> rune_width (take (rune_width bs) bs @ xs) = rune_width bs"
proof -
  assume ne: "rune_width bs \<noteq> 0"
  then obtain a r where bs: "bs = a # r" by (cases bs) (simp_all add: rune_width_def)
  consider "a < 0x80" | "\<not> a < 0x80" "0xC2 \<le> a \<and> a \<le> 0xDF"
    | "\<not> a < 0x80" "\<not> (0xC2 \<le> a \<and> a \<le> 0xDF)" "0xE0 \<le> a \<and> a \<le> 0xEF"
    | "\<not> a < 0x80" "\<not> (0xC2 \<le> a \<and> a \<le> 0xDF)" "\<not> (0xE0 \<le> a \<and> a \<le> 0xEF)"
        "0xF0 \<le> a \<and> a \<le> 0xF4"
    | "\<not> a < 0x80" "\<not> (0xC2 \<le> a \<and> a \<le> 0xDF)" "\<not> (0xE0 \<le> a \<and> a \<le> 0xEF)"
        "\<not> (0xF0 \<le> a \<and> a \<le> 0xF4)"
    by blast
  then show ?thesis
  proof cases
    case 1
    then show ?thesis by (simp add: rune_width_def bs)
  next
    case 2
    show ?thesis using ne unfolding rune_width_def bs list.case if_not_P [OF 2(1)] if_P [OF 2(2)]
      by (cases r) (simp_all add: if_not_P [OF 2(1)] if_P [OF 2(2)] split: if_split_asm)
  next
    case 3
    show ?thesis using ne unfolding rune_width_def bs list.case if_not_P [OF 3(1)] if_not_P [OF 3(2)] if_P [OF 3(3)]
      by (cases r; cases "tl r")
        (simp_all add: if_not_P [OF 3(1)] if_not_P [OF 3(2)] if_P [OF 3(3)] split: if_split_asm)
  next
    case 4
    show ?thesis using ne
      unfolding rune_width_def bs list.case if_not_P [OF 4(1)] if_not_P [OF 4(2)] if_not_P [OF 4(3)] if_P [OF 4(4)]
      by (cases r; cases "tl r"; cases "tl (tl r)")
        (simp_all add: if_not_P [OF 4(1)] if_not_P [OF 4(2)] if_not_P [OF 4(3)] if_P [OF 4(4)] split: if_split_asm)
  next
    case 5
    have "rune_width bs = 0"
      unfolding rune_width_def bs list.case if_not_P [OF 5(1)] if_not_P [OF 5(2)] if_not_P [OF 5(3)] if_not_P [OF 5(4)] ..
    with ne show ?thesis by simp
  qed
qed

lemma utf8_Nil [simp]: "to_valid_utf8 [] = []" "valid_utf8 []"
  by (subst to_valid_utf8.simps, simp, subst valid_utf8.simps, simp)

lemma valid_to_valid_utf8: "valid_utf8 (to_valid_utf8 bs)"
proof (induction bs rule: to_valid_utf8.induct)
  case (1 bs)
  consider "bs = []" | "bs \<noteq> []" "rune_width bs = 0" | "bs \<noteq> []" "rune_width bs \<noteq> 0" by blast
  then show ?case
  proof cases
    case 1
    then show ?thesis by simp
  next
    case 2
    then show ?thesis using "1.IH"(1) by (simp add: to_valid_utf8.simps [of bs] Let_def)
  next
    case 3
    let ?w = "rune_width bs"
    have eq: "to_valid_utf8 bs = take ?w bs @ to_valid_utf8 (drop ?w bs)"
      using 3 by (simp add: to_valid_utf8.simps [of bs] Let_def)
    have "rune_width (take ?w bs @ to_valid_utf8 (drop ?w bs)) = ?w"
      using 3(2) by (rule rune_width_take)
    then show ?thesis using 3 "1.IH"(2) [OF 3(1) refl 3(2)] rune_width_le [of bs]
      unfolding eq by (subst valid_utf8.simps) (simp add: min_absorb2)
  qed
qed

lemma to_valid_utf8_id: "valid_utf8 bs \<Longrightarrow> to_valid_utf8 bs = bs"
proof (induction bs rule: valid_utf8.induct)
  case (1 bs)
  show ?case
  proof (cases "bs = []")
    case True
    then show ?thesis by simp
  next
    case False
    then have w: "rune_width bs \<noteq> 0" and v: "valid_utf8 (drop (rune_width bs) bs)"
      using "1.prems" by (simp_all add: valid_utf8.simps [of bs] split: if_splits)
    have "to_valid_utf8 (drop (rune_width bs) bs) = drop (rune_width bs) bs"
      using "1.IH" [OF False w v] .
    then show ?thesis using False w by (simp add: to_valid_utf8.simps [of bs] Let_def)
  qed
qed

lemma to_valid_utf8_ascii: "\<forall>b\<in>set bs. b < 0x80 \<Longrightarrow> valid_utf8 bs"
proof (induction bs)
  case Nil
  then show ?case by simp
next
  case (Cons b bs)
  then show ?case by (subst valid_utf8.simps) (simp add: rune_width_def)
qed

lemma length_to_valid_utf8: "length (to_valid_utf8 bs) \<le> length bs"
proof (induction bs rule: to_valid_utf8.induct)
  case (1 bs)
  consider "bs = []" | "bs \<noteq> []" "rune_width bs = 0" | "bs \<noteq> []" "rune_width bs \<noteq> 0" by blast
  then show ?case
  proof cases
    case 2
    then have "length (to_valid_utf8 bs) \<le> length (tl bs)"
      using "1.IH"(1) by (simp add: to_valid_utf8.simps [of bs] Let_def)
    then show ?thesis by simp
  next
    case 3
    then show ?thesis using "1.IH"(2) [OF 3(1) refl 3(2)]
      by (simp add: to_valid_utf8.simps [of bs] Let_def)
  qed simp
qed

section \<open>Runes\<close>

text \<open>\<open>[]rune(s)\<close>, each rune as the bytes it is printed with: an invalid byte becomes U+FFFD.\<close>

function runes :: "bytes \<Rightarrow> bytes list" where
  "runes bs =
     (if bs = [] then []
      else let w = rune_width bs in
           if w = 0 then [0xEF, 0xBF, 0xBD] # runes (tl bs) else take w bs # runes (drop w bs))"
  by pat_completeness auto
termination
proof (relation "measure length")
  fix bs :: bytes and w :: nat assume "bs \<noteq> []" and "w \<noteq> 0"
  then show "(drop w bs, bs) \<in> measure length" by (cases bs) auto
next
  fix bs :: bytes assume "bs \<noteq> []"
  then show "(tl bs, bs) \<in> measure length" by (cases bs) auto
qed simp

declare runes.simps [simp del]

definition rune_count :: "string \<Rightarrow> nat" where
  "rune_count s = length (runes (bytes_of_string s))"

definition take_runes :: "nat \<Rightarrow> string \<Rightarrow> string" where
  "take_runes n s = string_of_bytes (concat (take n (runes (bytes_of_string s))))"

text \<open>A string literal of the source given by its UTF-8 bytes.\<close>

definition utf8_text :: "nat list \<Rightarrow> string" where
  "utf8_text = map char_of"

end
