(* ===== verification/HttpFraming.thy ===== *)
theory HttpFraming
  imports Utf8
begin

text \<open>
  When a reassembled HTTP request or response is complete, and what is in it
  (\<open>cmd/agent/content_reassembly.go\<close>, second half, and the method and port filters of
  \<open>cmd/agent/content_audit.go\<close>).

  \<open>None\<close> is the run-time panic of a slice expression. The decompressors of the Go library are a
  parameter: an \<open>inflater\<close> returns \<open>None\<close> when its reader cannot be created, else the bytes it
  yields and whether it ends in an error; the 2 MB limit of the code is part of the model
  (\<open>read_limited\<close>).
\<close>

section \<open>Cleaning\<close>

definition cleanUTF8 :: "bytes \<Rightarrow> bytes" where
  "cleanUTF8 b = to_valid_utf8 b"

section \<open>Requests, headers and lines\<close>

definition httpMethods :: "bytes list" where
  "httpMethods = map bytes_of_string
     [''GET '', ''POST '', ''PUT '', ''DELETE '', ''PATCH '', ''HEAD '', ''OPTIONS '']"

definition looksLikeHTTPRequest :: "bytes \<Rightarrow> bool" where
  "looksLikeHTTPRequest p \<longleftrightarrow> (\<exists>m\<in>set httpMethods. length m \<le> length p \<and> take (length m) p = m)"

definition contentPortMatch :: "int list \<Rightarrow> 16 word \<Rightarrow> bool" where
  "contentPortMatch ports dstPort \<longleftrightarrow> ports = [] \<or> (\<exists>p\<in>set ports. p = uint dstPort)"

definition crlf :: string where
  "crlf = [CHR 0x0D, CHR 0x0A]"

definition crlfcrlf :: bytes where
  "crlfcrlf = [0x0D, 0x0A, 0x0D, 0x0A]"

definition splitHeadBody :: "bytes \<Rightarrow> (bytes \<times> bytes) option" where
  "splitHeadBody b =
     (case index_of crlfcrlf b of None \<Rightarrow> None | Some i \<Rightarrow> Some (take i b, drop (i + 4) b))"

fun headerVal :: "string list \<Rightarrow> string \<Rightarrow> string" where
  "headerVal [] name = []"
| "headerVal (ln # lines) name =
     (let pfx = to_lower name @ '':'' in
      if has_prefix (to_lower ln) pfx then trim_space (drop (length pfx) ln)
      else headerVal lines name)"

definition parseContentLength :: "string list \<Rightarrow> nat option" where
  "parseContentLength lines =
     (let v = headerVal lines ''Content-Length'' in
      if v = [] then None
      else case parse_int 10 v of
             None \<Rightarrow> None
           | Some n \<Rightarrow> if n < 0 then None else Some (nat n))"

section \<open>Bodies\<close>

definition chunk_size :: "bytes \<Rightarrow> int option" where
  "chunk_size line =
     (let sizeLine = string_of_bytes line;
          cut = (case index_of '';'' sizeLine of None \<Rightarrow> sizeLine | Some semi \<Rightarrow> take semi sizeLine)
      in parse_int 16 (trim_space cut))"

definition skip_crlf :: "bytes \<Rightarrow> bytes" where
  "skip_crlf b = (if 2 \<le> length b \<and> b ! 0 = 0x0D \<and> b ! 1 = 0x0A then drop 2 b else b)"

lemma length_skip_crlf: "length (skip_crlf b) \<le> length b"
  by (simp add: skip_crlf_def)

function dechunk_loop :: "bytes \<Rightarrow> bytes \<Rightarrow> (bytes \<times> bool) panics" where
  "dechunk_loop out b =
     (case index_of [0x0D, 0x0A] b of
        None \<Rightarrow> Some (out, False)
      | Some i \<Rightarrow>
          (case chunk_size (take i b) of
             None \<Rightarrow> Some (out, False)
           | Some sz \<Rightarrow>
               let b1 = drop (i + 2) b in
               if sz = 0 then Some (out, True)
               else if int (length b1) < sz then Some (out @ b1, False)
               else if sz < 0 then None
               else dechunk_loop (out @ take (nat sz) b1) (skip_crlf (drop (nat sz) b1))))"
  by pat_completeness auto
termination
proof (relation "measure (\<lambda>(out, b). length b)", simp, goal_cases)
  case (1 out b i sz b1)
  have "i + 2 \<le> length b" using index_of_bound [OF 1(1)] by simp
  then have "length b1 < length b" using 1(3) by simp
  then have "length (skip_crlf (drop (nat sz) b1)) < length b"
    using length_skip_crlf [of "drop (nat sz) b1"] by simp
  then show ?case by simp
qed

declare dechunk_loop.simps [simp del]

definition dechunk :: "bytes \<Rightarrow> (bytes \<times> bool) panics" where
  "dechunk b = dechunk_loop [] b"

type_synonym inflater = "bytes \<Rightarrow> (bytes \<times> bool) option"

record codecs =
  gzip_reader :: inflater
  zlib_reader :: inflater
  flate_reader :: inflater

definition maxDecodedBody :: nat where
  "maxDecodedBody = 2 * 2 ^ 20"

definition read_limited :: "inflater \<Rightarrow> bytes \<Rightarrow> bytes option" where
  "read_limited rd b =
     (case rd b of
        None \<Rightarrow> None
      | Some (out, failed) \<Rightarrow>
          if maxDecodedBody \<le> length out then Some (take maxDecodedBody out)
          else if failed \<or> out = [] then None else Some out)"

definition or_else :: "'a option \<Rightarrow> 'a \<Rightarrow> 'a" where
  "or_else x d = (case x of None \<Rightarrow> d | Some v \<Rightarrow> v)"

definition decodeContentEncoding :: "codecs \<Rightarrow> bytes \<Rightarrow> string \<Rightarrow> bytes" where
  "decodeContentEncoding cd b enc0 =
     (let enc = to_lower (trim_space enc0) in
      if enc = [] \<or> b = [] then b
      else if contains_sub enc ''gzip'' then or_else (read_limited (gzip_reader cd) b) b
      else if contains_sub enc ''deflate''
      then (case read_limited (zlib_reader cd) b of
              Some out \<Rightarrow> out
            | None \<Rightarrow> or_else (read_limited (flate_reader cd) b) b)
      else b)"

definition body_text :: "bytes \<Rightarrow> string" where
  "body_text b = string_of_bytes (cleanUTF8 b)"

section \<open>Requests\<close>

record reqHead =
  rq_verb :: string
  rq_path :: string
  rq_host :: string
  rq_ctype :: string
  rq_body :: string

definition no_req :: reqHead where
  "no_req = \<lparr>rq_verb = [], rq_path = [], rq_host = [], rq_ctype = [], rq_body = []\<rparr>"

definition decode_chunked :: "codecs \<Rightarrow> bytes \<Rightarrow> string \<Rightarrow> (string \<times> bool) panics" where
  "decode_chunked cd body ce =
     do { (dec, fin) \<leftarrow> dechunk body;
          Some (body_text (if fin then decodeContentEncoding cd dec ce else dec), fin) }"

definition parseReqComplete :: "codecs \<Rightarrow> bytes \<Rightarrow> (reqHead \<times> bool) panics" where
  "parseReqComplete cd b =
     (if \<not> looksLikeHTTPRequest b then Some (no_req, False)
      else case splitHeadBody b of
             None \<Rightarrow> Some (no_req, False)
           | Some (head, body) \<Rightarrow>
               (let lines = split_sep (string_of_bytes head) crlf;
                    rl = str_fields (hd lines);
                    hs = tl lines
                in if length rl < 2 then Some (no_req, False)
                   else let h = \<lparr>rq_verb = rl ! 0, rq_path = rl ! 1, rq_host = headerVal hs ''Host'',
                                 rq_ctype = headerVal hs ''Content-Type'', rq_body = []\<rparr>;
                            ce = headerVal hs ''Content-Encoding'';
                            te = to_lower (headerVal hs ''Transfer-Encoding'')
                        in if contains_sub te ''chunked''
                           then do { (txt, fin) \<leftarrow> decode_chunked cd body ce;
                                     Some (h\<lparr>rq_body := txt\<rparr>, fin) }
                           else case parseContentLength hs of
                                  None \<Rightarrow> Some (h\<lparr>rq_body := body_text body\<rparr>, True)
                                | Some cl \<Rightarrow>
                                    if length body < cl then Some (no_req, False)
                                    else Some (h\<lparr>rq_body :=
                                      body_text (decodeContentEncoding cd (take cl body) ce)\<rparr>, True)))"

section \<open>Responses\<close>

record respHead =
  rs_status :: int
  rs_ctype :: string
  rs_body :: string

definition no_resp :: respHead where
  "no_resp = \<lparr>rs_status = 0, rs_ctype = [], rs_body = []\<rparr>"

definition status_of :: "string \<Rightarrow> int" where
  "status_of line = (let sl = str_fields line in if 2 \<le> length sl then atoi_value (sl ! 1) else 0)"

definition resp_body :: "codecs \<Rightarrow> respHead \<Rightarrow> string list \<Rightarrow> bytes \<Rightarrow> (respHead \<times> bool) panics" where
  "resp_body cd h hs body =
     (let te = to_lower (headerVal hs ''Transfer-Encoding'');
          ce = headerVal hs ''Content-Encoding''
      in if contains_sub te ''chunked''
         then do { (txt, fin) \<leftarrow> decode_chunked cd body ce; Some (h\<lparr>rs_body := txt\<rparr>, fin) }
         else case parseContentLength hs of
                Some cl \<Rightarrow>
                  if length body < cl then Some (no_resp, False)
                  else Some (h\<lparr>rs_body := body_text (decodeContentEncoding cd (take cl body) ce)\<rparr>, True)
              | None \<Rightarrow>
                  Some (h\<lparr>rs_body := body_text (decodeContentEncoding cd body ce)\<rparr>,
                    contains_sub (to_lower (rs_ctype h)) ''event-stream'' \<and>
                    contains_sub (string_of_bytes body) ''[DONE]''))"

function parseRespComplete :: "codecs \<Rightarrow> bytes \<Rightarrow> (respHead \<times> bool) panics" where
  "parseRespComplete cd b =
     (if length b < 12 \<or> \<not> has_prefix b (bytes_of_string ''HTTP/'') then Some (no_resp, False)
      else case splitHeadBody b of
             None \<Rightarrow> Some (no_resp, False)
           | Some (head, body) \<Rightarrow>
               (let lines = split_sep (string_of_bytes head) crlf;
                    hs = tl lines;
                    status = status_of (hd lines)
                in if 100 \<le> status \<and> status < 200 \<and> status \<noteq> 101
                   then (if body = [] then Some (no_resp, False) else parseRespComplete cd body)
                   else let h = \<lparr>rs_status = status, rs_ctype = headerVal hs ''Content-Type'', rs_body = []\<rparr>
                        in if status = 101 \<or> status = 204 \<or> status = 304 then Some (h, True)
                           else resp_body cd h hs body))"
  by pat_completeness auto
termination
proof (relation "measure (\<lambda>(cd, b). length b)")
  fix cd :: codecs and b body :: bytes and p head
  assume "splitHeadBody b = Some p" and "(head, body) = p"
  then obtain i where "index_of crlfcrlf b = Some i" "body = drop (i + 4) b"
    by (auto simp: splitHeadBody_def split: option.splits)
  then show "((cd, body), (cd, b)) \<in> measure (\<lambda>(cd, b). length b)"
    using index_of_bound [of crlfcrlf b i] by (simp add: crlfcrlf_def)
qed simp

declare parseRespComplete.simps [simp del]

section \<open>Decoded bodies\<close>

lemma decoded_bound:
  "length (decodeContentEncoding cd b enc) \<le> max (length b) maxDecodedBody"
proof -
  have r: "length out \<le> maxDecodedBody" if "read_limited rd b = Some out" for rd out
    using that by (auto simp: read_limited_def split: option.splits if_splits)
  have e: "length (or_else (read_limited rd b) b) \<le> max (length b) maxDecodedBody" for rd
    using r [of rd] by (cases "read_limited rd b") (auto simp: or_else_def)
  show ?thesis
    using r e by (auto simp: decodeContentEncoding_def Let_def le_max_iff_disj split: option.split)
qed

section \<open>Finding the end of the head\<close>

lemma index_of_take:
  "index_of p s = Some i \<Longrightarrow> i + length p \<le> k \<Longrightarrow> index_of p (take k s) = Some i"
proof (induction s arbitrary: i k)
  case Nil
  then show ?case by simp
next
  case (Cons c cs)
  then obtain k' where k: "k = Suc k' \<or> k = 0" by (cases k) auto
  show ?case
  proof (cases "has_prefix (c # cs) p")
    case True
    then have "i = 0" using Cons.prems by simp
    then have "has_prefix (take k (c # cs)) p" using True Cons.prems(2)
      by (simp add: has_prefix_def min_absorb1)
    then show ?thesis using \<open>i = 0\<close> by (cases "take k (c # cs)") (auto simp: has_prefix_def)
  next
    case False
    then obtain j where j: "index_of p cs = Some j" "i = Suc j" using Cons.prems(1) by auto
    then obtain k' where k: "k = Suc k'" "j + length p \<le> k'" using Cons.prems(2) by (cases k) auto
    have "\<not> has_prefix (take k (c # cs)) p"
    proof
      assume "has_prefix (take k (c # cs)) p"
      then have "take (length p) (take k (c # cs)) = p" by (simp add: has_prefix_def)
      moreover have "length p \<le> k" using Cons.prems(2) by simp
      ultimately show False using False by (simp add: has_prefix_def min_absorb1)
    qed
    then show ?thesis using Cons.IH [OF j(1) k(2)] j k by simp
  qed
qed

lemma index_of_take_None:
  "index_of p s = Some i \<Longrightarrow> k < i + length p \<Longrightarrow> index_of p (take k s) = None"
proof (induction s arbitrary: i k)
  case Nil
  then show ?case by (auto split: if_splits)
next
  case (Cons c cs)
  show ?case
  proof (cases "has_prefix (c # cs) p")
    case True
    then have "k < length p" using Cons.prems by simp
    then show ?thesis using index_of_bound [of p "take k (c # cs)"] by (cases "index_of p (take k (c # cs))") auto
  next
    case False
    then obtain j where j: "index_of p cs = Some j" "i = Suc j" using Cons.prems(1) by auto
    have "p \<noteq> []" using False by (auto simp: has_prefix_def)
    show ?thesis
    proof (cases k)
      case 0
      then show ?thesis using \<open>p \<noteq> []\<close> by simp
    next
      case (Suc k')
      have "\<not> has_prefix (take k (c # cs)) p"
      proof
        assume h: "has_prefix (take k (c # cs)) p"
        then have "length p \<le> k" by (metis has_prefix_def length_take min.absorb_iff2 min.bounded_iff min.cobounded1)
        then show False using h False by (simp add: has_prefix_def min_absorb1)
      qed
      then show ?thesis using Cons.IH [OF j(1), of k'] Cons.prems(2) j(2) Suc by simp
    qed
  qed
qed

text \<open>
  The head of a message is a list of lines without a carriage return, none of them empty, joined
  by CR LF and closed by an empty line.
\<close>

definition head_lines :: "string list \<Rightarrow> bool" where
  "head_lines ls \<longleftrightarrow> ls \<noteq> [] \<and> (\<forall>l\<in>set ls. l \<noteq> [] \<and> CHR 0x0D \<notin> set l)"

lemma index_of_map: "inj f \<Longrightarrow> index_of (map f p) (map f s) = index_of p s"
proof (induction s)
  case Nil
  then show ?case by simp
next
  case (Cons c cs)
  have "has_prefix (map f (c # cs)) (map f p) = has_prefix (c # cs) p"
    using inj_map_eq_map [OF Cons.prems, of "take (length p) (c # cs)" p]
    by (simp only: has_prefix_def length_map take_map)
  then show ?case using Cons by simp
qed

lemma index_of_fresh:
  "a \<notin> set s \<Longrightarrow> index_of (a # p) (s @ a # p @ t) = Some (length s)"
  by (induction s) (auto simp: has_prefix_def)

lemma index_of_skip:
  "a \<notin> set s \<Longrightarrow> index_of (a # p) (s @ t) = map_option (\<lambda>i. i + length s) (index_of (a # p) t)"
  by (induction s) (auto simp: has_prefix_def option.map_comp comp_def option.map_ident)

lemma index_of_blank:
  assumes "a \<noteq> b" and "r \<noteq> []" and "hd r \<noteq> a"
  shows "index_of [a, b, a, b] (a # b # r) = map_option (\<lambda>i. i + 2) (index_of [a, b, a, b] r)"
  using assms by (cases r) (auto simp: has_prefix_def option.map_comp comp_def)

lemma join_head: "head_lines (l # ls) \<Longrightarrow> join crlf (l # ls) \<noteq> [] \<and> hd (join crlf (l # ls)) = hd l \<and> hd l \<noteq> CHR 0x0D"
proof -
  assume h: "head_lines (l # ls)"
  then have "l \<noteq> []" "CHR 0x0D \<notin> set l" by (simp_all add: head_lines_def)
  then have "hd l \<noteq> CHR 0x0D" by (cases l) auto
  then show ?thesis using \<open>l \<noteq> []\<close> by (cases ls) (simp_all add: hd_append)
qed

lemma index_of_head:
  "head_lines ls \<Longrightarrow>
   index_of (crlf @ crlf) (join crlf ls @ crlf @ crlf @ t) = Some (length (join crlf ls))"
proof (induction crlf ls rule: join.induct)
  case (1)
  then show ?case by (simp add: head_lines_def)
next
  case (2 l)
  then have "CHR 0x0D \<notin> set l" by (simp add: head_lines_def)
  then show ?case using index_of_fresh [of "CHR 0x0D" l "CHR 0x0A # crlf" t] by (simp add: crlf_def)
next
  case (3 l m ls)
  have rest: "head_lines (m # ls)" and l: "CHR 0x0D \<notin> set l" using "3.prems" by (simp_all add: head_lines_def)
  let ?r = "join crlf (m # ls) @ crlf @ crlf @ t"
  have r: "?r \<noteq> []" "hd ?r \<noteq> CHR 0x0D" using join_head [OF rest] by (simp_all add: hd_append)
  have "index_of (crlf @ crlf) (l @ crlf @ ?r) =
      map_option (\<lambda>i. i + length l) (index_of (crlf @ crlf) (crlf @ ?r))"
    using index_of_skip [OF l, of "CHR 0x0A # crlf" "crlf @ ?r"] by (simp add: crlf_def)
  also have "index_of (crlf @ crlf) (crlf @ ?r) = map_option (\<lambda>i. i + 2) (index_of (crlf @ crlf) ?r)"
    using index_of_blank [of "CHR 0x0D" "CHR 0x0A" ?r] r by (simp add: crlf_def)
  also have "index_of (crlf @ crlf) ?r = Some (length (join crlf (m # ls)))" using "3.hyps" rest by simp
  finally show ?case by (simp add: crlf_def)
qed

lemma split_sep_head: "head_lines ls \<Longrightarrow> split_sep (join crlf ls) crlf = ls"
proof (induction crlf ls rule: join.induct)
  case (1)
  then show ?case by (simp add: head_lines_def)
next
  case (2 l)
  then have "CHR 0x0D \<notin> set l" by (simp add: head_lines_def)
  then have "index_of crlf l = None"
    using index_of_skip [of "CHR 0x0D" l "[CHR 0x0A]" "[]"] by (simp add: crlf_def)
  then show ?case by (subst split_sep.simps) simp
next
  case (3 l m ls)
  have rest: "head_lines (m # ls)" and l: "CHR 0x0D \<notin> set l" using "3.prems" by (simp_all add: head_lines_def)
  have "index_of crlf (l @ crlf @ join crlf (m # ls)) = Some (length l)"
    using index_of_fresh [OF l, of "[CHR 0x0A]"] by (simp add: crlf_def)
  then have "split_sep (l @ crlf @ join crlf (m # ls)) crlf = l # split_sep (join crlf (m # ls)) crlf"
    by (subst split_sep.simps) (simp add: crlf_def)
  then show ?case using "3.hyps" rest by simp
qed

definition message :: "string list \<Rightarrow> bytes \<Rightarrow> bytes" where
  "message ls body = bytes_of_string (join crlf ls) @ crlfcrlf @ body"

lemma crlfcrlf_bytes: "crlfcrlf = bytes_of_string (crlf @ crlf)"
  by (simp add: crlfcrlf_def crlf_def bytes_of_string_def)

lemma inj_byte_of_char: "inj (\<lambda>c. word_of_nat (of_char c) :: byte)"
proof (rule injI)
  fix c d assume "(word_of_nat (of_char c) :: byte) = word_of_nat (of_char d)"
  then have "string_of_bytes (bytes_of_string [c]) = string_of_bytes (bytes_of_string [d])"
    by (simp add: bytes_of_string_def)
  then show "c = d" by simp
qed

lemma bytes_of_string_of_bytes [simp]: "bytes_of_string (string_of_bytes b) = b"
proof -
  have "(word_of_nat (of_char (char_of (unat x) :: char)) :: byte) = x" for x :: byte
    using unat_byte_less [of x] by (simp add: of_char_of)
  then show ?thesis by (induction b) (simp_all add: bytes_of_string_def string_of_bytes_def)
qed

lemma index_of_bytes: "index_of (bytes_of_string p) (bytes_of_string s) = index_of p s"
  unfolding bytes_of_string_def by (rule index_of_map [OF inj_byte_of_char])

lemma bytes_of_string_append [simp]: "bytes_of_string (s @ t) = bytes_of_string s @ bytes_of_string t"
  by (simp add: bytes_of_string_def)

lemma index_of_message:
  assumes "head_lines ls"
  shows "index_of crlfcrlf (message ls body) = Some (length (join crlf ls))"
proof -
  have "message ls body = bytes_of_string (join crlf ls @ crlf @ crlf @ string_of_bytes body)"
    by (simp add: message_def crlfcrlf_bytes)
  then show ?thesis using index_of_head [OF assms] by (simp add: crlfcrlf_bytes index_of_bytes del: bytes_of_string_append)
qed

definition head_length :: "string list \<Rightarrow> nat" where
  "head_length ls = length (join crlf ls) + 4"

lemma splitHeadBody_message:
  "head_lines ls \<Longrightarrow> splitHeadBody (message ls body) = Some (bytes_of_string (join crlf ls), body)"
  by (simp add: splitHeadBody_def index_of_message) (simp add: message_def crlfcrlf_def)

lemma take_append_ge: "length xs \<le> k \<Longrightarrow> take k (xs @ ys) = xs @ take (k - length xs) ys"
  by simp

lemma take_message:
  assumes "head_length ls \<le> k"
  shows "take k (message ls body) = message ls (take (k - head_length ls) body)"
proof -
  let ?h = "bytes_of_string (join crlf ls) @ crlfcrlf"
  have len: "length ?h = head_length ls" by (simp add: head_length_def crlfcrlf_def)
  have "take k (?h @ body) = ?h @ take (k - length ?h) body"
    using assms len by (intro take_append_ge) simp
  then show ?thesis unfolding message_def len by simp
qed

lemma splitHeadBody_cut:
  assumes "head_lines ls"
  shows "splitHeadBody (take k (message ls body)) =
    (if k < head_length ls then None
     else Some (bytes_of_string (join crlf ls), take (k - head_length ls) body))"
proof (cases "k < head_length ls")
  case True
  then have "index_of crlfcrlf (take k (message ls body)) = None"
    by (intro index_of_take_None [OF index_of_message [OF assms]]) (simp add: head_length_def crlfcrlf_def)
  then show ?thesis using True by (simp add: splitHeadBody_def)
next
  case False
  then have "take k (message ls body) = message ls (take (k - head_length ls) body)"
    by (simp add: take_message)
  then show ?thesis using False splitHeadBody_message [OF assms] by simp
qed

lemma head_of_lines [simp]:
  "head_lines ls \<Longrightarrow> split_sep (string_of_bytes (bytes_of_string (join crlf ls))) crlf = ls"
  by (simp add: split_sep_head)

section \<open>Framing by Content-Length\<close>

definition sized_head :: "string list \<Rightarrow> nat \<Rightarrow> bool" where
  "sized_head ls n \<longleftrightarrow>
     head_lines ls \<and> parseContentLength (tl ls) = Some n \<and>
     \<not> contains_sub (to_lower (headerVal (tl ls) ''Transfer-Encoding'')) ''chunked''"

definition request_head :: "string list \<Rightarrow> nat \<Rightarrow> bool" where
  "request_head ls n \<longleftrightarrow>
     sized_head ls n \<and> 2 \<le> length (str_fields (hd ls)) \<and>
     looksLikeHTTPRequest (bytes_of_string (join crlf ls))"

definition response_head :: "string list \<Rightarrow> nat \<Rightarrow> bool" where
  "response_head ls n \<longleftrightarrow>
     sized_head ls n \<and> has_prefix (bytes_of_string (join crlf ls)) (bytes_of_string ''HTTP/'') \<and>
     8 \<le> length (join crlf ls) \<and>
     (let s = status_of (hd ls) in \<not> (100 \<le> s \<and> s < 200) \<and> s \<noteq> 204 \<and> s \<noteq> 304)"

definition request_of :: "codecs \<Rightarrow> string list \<Rightarrow> bytes \<Rightarrow> reqHead" where
  "request_of cd ls body =
     (let rl = str_fields (hd ls); hs = tl ls
      in \<lparr>rq_verb = rl ! 0, rq_path = rl ! 1, rq_host = headerVal hs ''Host'',
          rq_ctype = headerVal hs ''Content-Type'',
          rq_body = body_text (decodeContentEncoding cd body (headerVal hs ''Content-Encoding''))\<rparr>)"

definition response_of :: "codecs \<Rightarrow> string list \<Rightarrow> bytes \<Rightarrow> respHead" where
  "response_of cd ls body =
     (let hs = tl ls
      in \<lparr>rs_status = status_of (hd ls), rs_ctype = headerVal hs ''Content-Type'',
          rs_body = body_text (decodeContentEncoding cd body (headerVal hs ''Content-Encoding''))\<rparr>)"

lemma has_prefix_longer: "has_prefix s p \<Longrightarrow> has_prefix (s @ t) p"
  unfolding has_prefix_def by (metis append.assoc append_eq_conv_conj append_take_drop_id)

lemma looksLike_longer: "looksLikeHTTPRequest p \<Longrightarrow> looksLikeHTTPRequest (p @ q)"
proof -
  assume "looksLikeHTTPRequest p"
  then obtain m where "m \<in> set httpMethods" "length m \<le> length p" "take (length m) p = m"
    unfolding looksLikeHTTPRequest_def by blast
  then have "m \<in> set httpMethods" "length m \<le> length (p @ q)" "take (length m) (p @ q) = m" by simp_all
  then show ?thesis unfolding looksLikeHTTPRequest_def by blast
qed

lemma parseReqComplete_sized:
  assumes "request_head ls n"
  shows "parseReqComplete cd (message ls body) =
    Some (if length body < n then (no_req, False) else (request_of cd ls (take n body), True))"
proof -
  have "looksLikeHTTPRequest (message ls body)"
    using assms unfolding message_def request_head_def by (simp add: looksLike_longer)
  then show ?thesis using assms
    by (simp add: parseReqComplete_def request_head_def sized_head_def splitHeadBody_message split_sep_head
        request_of_def Let_def not_less [symmetric])
qed

lemma parseRespComplete_sized:
  assumes "response_head ls n"
  shows "parseRespComplete cd (message ls body) =
    Some (if length body < n then (no_resp, False) else (response_of cd ls (take n body), True))"
proof -
  have "has_prefix (message ls body) (bytes_of_string ''HTTP/'')"
    using assms unfolding message_def response_head_def by (simp add: has_prefix_longer)
  moreover have "\<not> length (message ls body) < 12"
    using assms by (simp add: message_def crlfcrlf_def response_head_def)
  ultimately show ?thesis using assms
    by (subst parseRespComplete.simps)
      (auto simp: response_head_def sized_head_def splitHeadBody_message split_sep_head response_of_def
        resp_body_def Let_def)
qed

text \<open>A prefix of a message is complete exactly when it holds the announced body.\<close>

lemma parseReqComplete_prefix:
  assumes "request_head ls n" and "length body = n"
  shows "map_option snd (parseReqComplete cd (take k (message ls body))) =
    Some (head_length ls + n \<le> k)"
proof (cases "k < head_length ls")
  case True
  have "head_lines ls" using assms(1) by (simp add: request_head_def sized_head_def)
  then have "parseReqComplete cd (take k (message ls body)) = Some (no_req, False)"
    using True by (simp add: parseReqComplete_def splitHeadBody_cut)
  then show ?thesis using True by simp
next
  case False
  then show ?thesis using parseReqComplete_sized [OF assms(1)] assms(2)
    by (auto simp: take_message)
qed

lemma parseRespComplete_prefix:
  assumes "response_head ls n" and "length body = n"
  shows "map_option snd (parseRespComplete cd (take k (message ls body))) =
    Some (head_length ls + n \<le> k)"
proof (cases "k < head_length ls")
  case True
  have "head_lines ls" using assms(1) by (simp add: response_head_def sized_head_def)
  then have "parseRespComplete cd (take k (message ls body)) = Some (no_resp, False)"
    using True by (subst parseRespComplete.simps) (simp add: splitHeadBody_cut)
  then show ?thesis using True by simp
next
  case False
  then show ?thesis using parseRespComplete_sized [OF assms(1)] assms(2)
    by (auto simp: take_message)
qed

lemma length_message: "length (message ls body) = head_length ls + length body"
  by (simp add: message_def head_length_def crlfcrlf_def)

section \<open>Chunked bodies\<close>

definition chunk :: "bytes \<Rightarrow> bytes" where
  "chunk c = bytes_of_string (show_hex (length c)) @ [0x0D, 0x0A] @ c @ [0x0D, 0x0A]"

definition chunked :: "bytes list \<Rightarrow> bytes" where
  "chunked cs = concat (map chunk cs) @ [0x30, 0x0D, 0x0A, 0x0D, 0x0A]"

lemma digit_val_hex: "d < 16 \<Longrightarrow> digit_val 16 (digit_char d) = Some d"
  by (simp add: digit_val_def digit_char_def Let_def of_char_of)

lemma digits_val_show_hex: "digits_val 16 0 (show_hex n) = Some n"
proof (induction n rule: show_hex.induct)
  case (1 n)
  show ?case
  proof (cases "n < 16")
    case True
    then show ?thesis by (simp add: show_hex.simps [of n] digit_val_hex)
  next
    case False
    with 1 show ?thesis by (simp add: show_hex.simps [of n] digits_val_append digit_val_hex)
  qed
qed

lemma show_hex_chars: "c \<in> set (show_hex n) \<Longrightarrow> 48 \<le> (of_char c :: nat) \<and> (of_char c :: nat) \<notin> {58..96}"
proof (induction n rule: show_hex.induct)
  case (1 n)
  have d: "48 \<le> (of_char (digit_char d) :: nat) \<and> (of_char (digit_char d) :: nat) \<notin> {58..96}"
    if "d < 16" for d
    using that by (auto simp: digit_char_def of_char_of)
  show ?case
  proof (cases "n < 16")
    case True
    with "1.prems" d show ?thesis by (simp add: show_hex.simps [of n])
  next
    case False
    then have "c \<in> set (show_hex (n div 16)) \<or> c = digit_char (n mod 16)"
      using "1.prems" by (auto simp: show_hex.simps [of n])
    then show ?thesis using "1.IH" [OF False] d [of "n mod 16"] by auto
  qed
qed

lemma show_hex_not_Nil [simp]: "show_hex n \<noteq> []"
  by (subst show_hex.simps) simp

lemma chunk_size_hex:
  assumes "n < 2 ^ 63"
  shows "chunk_size (bytes_of_string (show_hex n)) = Some (int n)"
proof -
  let ?s = "show_hex n"
  have ok: "\<not> is_space c \<and> c \<noteq> CHR '';'' \<and> c \<noteq> CHR ''-'' \<and> c \<noteq> CHR ''+''" if "c \<in> set ?s" for c
    using show_hex_chars [OF that] by (auto simp: is_space_def Let_def)
  then have "index_of '';'' ?s = None" by (intro index_of_absent) auto
  moreover have "trim_space ?s = ?s" using ok by (intro trim_space_id) auto
  moreover have "hd ?s \<in> set ?s" by simp
  ultimately show ?thesis using ok [of "hd ?s"] assms
    by (simp add: chunk_size_def parse_int_def Let_def digits_val_show_hex)
qed

lemma hex_line:
  "index_of [0x0D, 0x0A] (bytes_of_string (show_hex n) @ 0x0D # 0x0A # t) =
   Some (length (show_hex n))"
proof -
  have "CHR 0x0D \<notin> set (show_hex n)" using show_hex_chars [of "CHR 0x0D" n] by auto
  from index_of_fresh [OF this, of "[CHR 0x0A]" "string_of_bytes t"]
  have "index_of (bytes_of_string crlf) (bytes_of_string (show_hex n @ crlf @ string_of_bytes t)) =
      Some (length (show_hex n))"
    unfolding index_of_bytes by (simp add: crlf_def)
  moreover have "bytes_of_string crlf = [0x0D, 0x0A]" by (simp add: crlf_def bytes_of_string_def)
  ultimately show ?thesis by simp
qed

lemma dechunk_loop_chunk:
  assumes "c \<noteq> []" and "length c < 2 ^ 63"
  shows "dechunk_loop out (chunk c @ t) = dechunk_loop (out @ c) t"
proof -
  let ?h = "bytes_of_string (show_hex (length c))"
  have b: "chunk c @ t = ?h @ 0x0D # 0x0A # c @ 0x0D # 0x0A # t" by (simp add: chunk_def)
  have "take (length (show_hex (length c))) (chunk c @ t) = ?h" by (simp add: b)
  moreover have "drop (length (show_hex (length c)) + 2) (chunk c @ t) = c @ 0x0D # 0x0A # t"
    by (simp add: b)
  moreover have "index_of [0x0D, 0x0A] (chunk c @ t) = Some (length (show_hex (length c)))"
    unfolding b by (rule hex_line)
  ultimately show ?thesis
    using assms by (subst dechunk_loop.simps) (simp add: chunk_size_hex skip_crlf_def Let_def)
qed

lemma dechunk_loop_end: "dechunk_loop out [0x30, 0x0D, 0x0A, 0x0D, 0x0A] = Some (out, True)"
proof -
  have "bytes_of_string (show_hex 0) = [0x30]"
    by (subst show_hex.simps) (simp add: digit_char_def bytes_of_string_def of_char_of)
  then have "chunk_size [0x30] = Some 0" using chunk_size_hex [of 0] by simp
  then show ?thesis by (subst dechunk_loop.simps) (simp add: has_prefix_def Let_def)
qed

lemma dechunk_loop_chunks:
  "\<forall>c\<in>set cs. c \<noteq> [] \<and> length c < 2 ^ 63 \<Longrightarrow>
   dechunk_loop out (chunked cs) = Some (out @ concat cs, True)"
proof (induction cs arbitrary: out)
  case Nil
  then show ?case by (simp add: chunked_def dechunk_loop_end)
next
  case (Cons c cs)
  have "dechunk_loop out (chunked (c # cs)) = dechunk_loop (out @ c) (chunked cs)"
    using Cons.prems dechunk_loop_chunk [of c out "chunked cs"] by (simp add: chunked_def)
  then show ?case using Cons by simp
qed

section \<open>Properties\<close>

lemmas text_eval = to_lower_def lower_char_def is_space_def trim_space_def has_prefix_def digit_val_def
  parse_int_def str_fields_def contains_sub_def crlf_def bytes_of_string_def string_of_bytes_def Let_def

text \<open>A request with a Content-Length is complete exactly when its announced body has arrived: no proper
  prefix of the message is, whatever its head lines.\<close>

theorem request_complete_iff:
  assumes "request_head ls n" and "length body = n"
  shows "map_option snd (parseReqComplete cd (take k (message ls body))) =
    Some (length (message ls body) \<le> k)"
  using parseReqComplete_prefix [OF assms] assms(2) by (simp add: length_message)

definition no_codecs :: codecs where
  "no_codecs = \<lparr>gzip_reader = \<lambda>_. None, zlib_reader = \<lambda>_. None, flate_reader = \<lambda>_. None\<rparr>"

definition demo_request :: "string list" where
  "demo_request = [''POST /v1 HTTP/1.1'', ''Host: ai'', ''Content-Length: 2'']"

lemma demo_request_head: "request_head demo_request 2"
  by (simp add: text_eval request_head_def sized_head_def head_lines_def demo_request_def
      parseContentLength_def looksLikeHTTPRequest_def httpMethods_def)

theorem request_complete_iff_witness:
  "map_option snd (parseReqComplete no_codecs (take 9 (message demo_request [0x68, 0x69]))) =
    Some (length (message demo_request [0x68, 0x69]) \<le> 9)"
  by (rule request_complete_iff [OF demo_request_head]) simp

text \<open>The chunked transfer coding is undone exactly: any list of non-empty chunks, framed by their hexadecimal
  lengths and closed by the last chunk, is decoded to their concatenation and reported complete.\<close>

theorem dechunk_chunked:
  assumes "list_all (\<lambda>c. c \<noteq> [] \<and> length c < 2 ^ 63) cs"
  shows "dechunk (chunked cs) = Some (concat cs, True)"
  using assms dechunk_loop_chunks [of cs "[]"] by (simp add: dechunk_def list_all_iff)

theorem dechunk_chunked_witness:
  "dechunk (chunked [[1, 2], replicate 17 3]) = Some ([1, 2] @ replicate 17 3, True)"
  using dechunk_chunked [of "[[1, 2], replicate 17 3]"] by simp

text \<open>A chunk size with a minus sign makes the decoder panic, so one crafted response takes down the
  reader that reassembles it.\<close>

theorem dechunk_negative_panics:
  "dechunk (bytes_of_string (''-1'' @ crlf) @ rest) = None"
proof -
  have "bytes_of_string (''-1'' @ crlf) = [0x2D, 0x31, 0x0D, 0x0A]" by (simp add: text_eval)
  have "chunk_size (bytes_of_string ''-1'') = Some (- 1)"
    unfolding chunk_size_def string_of_bytes_of_string by (simp add: text_eval)
  then have "chunk_size [0x2D, 0x31] = Some (- 1)" by (simp add: bytes_of_string_def)
  with \<open>bytes_of_string (''-1'' @ crlf) = _\<close> show ?thesis
    unfolding dechunk_def by (subst dechunk_loop.simps) (simp add: has_prefix_def Let_def)
qed

text \<open>Cleaning a body for the report yields valid UTF-8, keeps text that already is, and never makes it
  longer.\<close>

lemma clean_utf8_correct:
  "valid_utf8 (cleanUTF8 b) \<and> cleanUTF8 (cleanUTF8 b) = cleanUTF8 b \<and>
   length (cleanUTF8 b) \<le> length b"
  unfolding cleanUTF8_def
  using valid_to_valid_utf8 [of b] to_valid_utf8_id [OF valid_to_valid_utf8 [of b]]
    length_to_valid_utf8 [of b] by blast

end
