(* ===== verification/SniParse.thy ===== *)
theory SniParse
  imports GoPrelude "HOL-Library.Sublist"
begin

text \<open>
  The packet parsers of the agent's SNI and DNS capture, \<open>src/cmd/agent/sni_parse.go\<close>: Ethernet,
  VLAN, IPv4 and IPv6 headers, TCP and UDP, DNS answers and the TLS ClientHello. A Go pair
  \<open>(value, ok)\<close> is \<open>accept value\<close> or \<open>reject\<close>; around it stands the panic option of the prelude, so
  the theorem that a parser is never \<^const>\<open>None\<close> says no index or slice expression of it goes out
  of range, whatever bytes arrive from the network. \<open>net.IP.String\<close> is modelled from its
  documentation (dotted quad, and RFC 5952 text for IPv6).
\<close>

abbreviation reject :: "'a option panics" where "reject \<equiv> Some None"
abbreviation accept :: "'a \<Rightarrow> 'a option panics" where "accept x \<equiv> Some (Some x)"

record ip_domain =
  idIp :: string
  idDomain :: string
  idSource :: string

record l4_info =
  proto :: byte
  srcIP :: string
  dstIP :: string
  srcPort :: "16 word"
  dstPort :: "16 word"
  seqNo :: "32 word"
  tcpFlags :: byte
  payload :: bytes

section \<open>Addresses as text\<close>

definition ip4_string :: "bytes \<Rightarrow> string" where
  "ip4_string b = join ''.'' (map (\<lambda>x. show_nat (unat x)) b)"

fun groups16 :: "bytes \<Rightarrow> nat list" where
  "groups16 (a # b # bs) = (unat a * 256 + unat b) # groups16 bs"
| "groups16 _ = []"

definition zero_run :: "nat list \<Rightarrow> nat \<Rightarrow> nat" where
  "zero_run gs i = length (takeWhile (\<lambda>g. g = 0) (drop i gs))"

definition best_run :: "nat list \<Rightarrow> nat \<times> nat" where
  "best_run gs =
     foldl (\<lambda>(zs, ze) i. let l = zero_run gs i in if l \<ge> 2 \<and> l > ze - zs then (i, i + l) else (zs, ze))
       (255, 255) [0..<8]"

definition ip6_string :: "bytes \<Rightarrow> string" where
  "ip6_string b =
     (let gs = groups16 b; (zs, ze) = best_run gs
      in if zs < 8
         then join '':'' (map show_hex (take zs gs)) @ ''::'' @ join '':'' (map show_hex (drop ze gs))
         else join '':'' (map show_hex gs))"

definition ip_string :: "bytes \<Rightarrow> string" where
  "ip_string b =
     (if length b = 4 then ip4_string b
      else if take 10 b = replicate 10 0 \<and> take 2 (drop 10 b) = [0xff, 0xff] then ip4_string (drop 12 b)
      else ip6_string b)"

section \<open>Transport and network headers\<close>

definition parseTransport :: "l4_info \<Rightarrow> bytes \<Rightarrow> l4_info option panics" where
  "parseTransport info l4 =
     (if proto info = 6 then
        (if length l4 < 20 then reject
         else do {
           sp \<leftarrow> be16 l4 0;
           dp \<leftarrow> be16 l4 2;
           sq \<leftarrow> be32 l4 4;
           fl \<leftarrow> at l4 13;
           off \<leftarrow> at l4 12;
           let dataOff = unat (drop_bit 4 off) * 4;
           if dataOff < 20 \<or> length l4 < dataOff then reject
           else do {
             pl \<leftarrow> slice_from l4 dataOff;
             accept (info\<lparr>srcPort := sp, dstPort := dp, seqNo := sq, tcpFlags := fl, payload := pl\<rparr>)
           }
         })
      else if proto info = 17 then
        (if length l4 < 8 then reject
         else do {
           sp \<leftarrow> be16 l4 0;
           dp \<leftarrow> be16 l4 2;
           pl \<leftarrow> slice_from l4 8;
           accept (info\<lparr>srcPort := sp, dstPort := dp, payload := pl\<rparr>)
         })
      else reject)"

definition l4_new :: "byte \<Rightarrow> string \<Rightarrow> string \<Rightarrow> l4_info" where
  "l4_new p s d = \<lparr>proto = p, srcIP = s, dstIP = d, srcPort = 0, dstPort = 0, seqNo = 0,
     tcpFlags = 0, payload = []\<rparr>"

definition parseIPv4 :: "bytes \<Rightarrow> l4_info option panics" where
  "parseIPv4 pkt0 =
     (if length pkt0 < 20 then reject
      else do {
        b0 \<leftarrow> at pkt0 0;
        if drop_bit 4 b0 \<noteq> 4 then reject
        else do {
          let ihl = unat (b0 AND 0x0f) * 4;
          if ihl < 20 \<or> length pkt0 < ihl then reject
          else do {
            total16 \<leftarrow> be16 pkt0 2;
            let total = unat total16;
            pkt \<leftarrow> (if total \<ge> ihl \<and> total < length pkt0 then subslice pkt0 0 total else Some pkt0);
            frag \<leftarrow> be16 pkt 6;
            if frag AND 0x1fff \<noteq> 0 then reject
            else do {
              p \<leftarrow> at pkt 9;
              s \<leftarrow> subslice pkt 12 16;
              d \<leftarrow> subslice pkt 16 20;
              l4 \<leftarrow> slice_from pkt ihl;
              parseTransport (l4_new p (ip_string s) (ip_string d)) l4
            }
          }
        }
      })"

text \<open>The extension-header loop: the first argument counts the iterations left of eight.\<close>

fun ipv6_headers :: "nat \<Rightarrow> bytes \<Rightarrow> byte \<Rightarrow> nat \<Rightarrow> l4_info option panics" where
  "ipv6_headers 0 pkt nxt off = reject"
| "ipv6_headers (Suc n) pkt nxt off =
     (if nxt = 0 \<or> nxt = 43 \<or> nxt = 60 then
        (if length pkt < off + 2 then reject
         else do {
           l \<leftarrow> at pkt (off + 1);
           let hdrLen = (unat l + 1) * 8;
           if hdrLen < 8 \<or> length pkt < off + hdrLen then reject
           else do { nx \<leftarrow> at pkt off; ipv6_headers n pkt nx (off + hdrLen) }
         })
      else if nxt = 44 then
        (if length pkt < off + 8 then reject
         else do {
           fragment \<leftarrow> be16 pkt (off + 2);
           if fragment AND 0xfff8 \<noteq> 0 then reject
           else do { nx \<leftarrow> at pkt off; ipv6_headers n pkt nx (off + 8) }
         })
      else if nxt = 51 then
        (if length pkt < off + 2 then reject
         else do {
           l \<leftarrow> at pkt (off + 1);
           let hdrLen = (unat l + 2) * 4;
           if hdrLen < 8 \<or> length pkt < off + hdrLen then reject
           else do { nx \<leftarrow> at pkt off; ipv6_headers n pkt nx (off + hdrLen) }
         })
      else do {
        s \<leftarrow> subslice pkt 8 24;
        d \<leftarrow> subslice pkt 24 40;
        if off > length pkt then reject
        else do {
          l4 \<leftarrow> slice_from pkt off;
          parseTransport (l4_new nxt (ip_string s) (ip_string d)) l4
        }
      })"

definition parseIPv6 :: "bytes \<Rightarrow> l4_info option panics" where
  "parseIPv6 pkt0 =
     (if length pkt0 < 40 then reject
      else do {
        b0 \<leftarrow> at pkt0 0;
        if drop_bit 4 b0 \<noteq> 6 then reject
        else do {
          pl16 \<leftarrow> be16 pkt0 4;
          let payloadLen = unat pl16;
          pkt \<leftarrow> (if payloadLen > 0 \<and> 40 + payloadLen < length pkt0
                  then subslice pkt0 0 (40 + payloadLen) else Some pkt0);
          nx \<leftarrow> at pkt 6;
          ipv6_headers 8 pkt nx 40
        }
      })"

text \<open>Up to two VLAN tags: the EtherType behind them and its offset.\<close>

fun skip_tags :: "nat \<Rightarrow> bytes \<Rightarrow> 16 word \<Rightarrow> nat \<Rightarrow> (16 word \<times> nat) option panics" where
  "skip_tags 0 frame etherType off = accept (etherType, off)"
| "skip_tags (Suc n) frame etherType off =
     (if etherType = 0x8100 \<or> etherType = 0x88a8 then
        (if length frame < off + 4 then reject
         else do { et \<leftarrow> be16 frame (off + 2); skip_tags n frame et (off + 4) })
      else accept (etherType, off))"

definition parseEthernetFrame :: "bytes \<Rightarrow> l4_info option panics" where
  "parseEthernetFrame frame =
     (if length frame < 14 then reject
      else do {
        et0 \<leftarrow> be16 frame 12;
        r \<leftarrow> skip_tags 2 frame et0 14;
        case r of None \<Rightarrow> reject
        | Some (etherType, off) \<Rightarrow>
            if etherType = 0x0800 then do { pkt \<leftarrow> slice_from frame off; parseIPv4 pkt }
            else if etherType = 0x86dd then do { pkt \<leftarrow> slice_from frame off; parseIPv6 pkt }
            else reject
      })"

definition parseEthIPv4 :: "bytes \<Rightarrow> l4_info option panics" where
  "parseEthIPv4 frame =
     (if length frame < 14 then reject
      else do {
        et0 \<leftarrow> be16 frame 12;
        r \<leftarrow> skip_tags 2 frame et0 14;
        case r of None \<Rightarrow> reject
        | Some (etherType, off) \<Rightarrow>
            if etherType \<noteq> 0x0800 then reject
            else do { pkt \<leftarrow> slice_from frame off; parseIPv4 pkt }
      })"

section \<open>DNS answers\<close>

text \<open>
  \<open>readDNSName\<close>: the loop gives up when its guard passes 128, so the first argument starts at 129
  and counts down.
\<close>

fun dns_name_loop ::
    "nat \<Rightarrow> bytes \<Rightarrow> nat \<Rightarrow> string list \<Rightarrow> bool \<Rightarrow> nat \<Rightarrow> (string \<times> nat) option panics" where
  "dns_name_loop 0 msg off labels jumped nxt = reject"
| "dns_name_loop (Suc n) msg off labels jumped nxt =
     (if off \<ge> length msg then reject
      else do {
        b \<leftarrow> at msg off;
        if b = 0 then accept (join ''.'' labels, if \<not> jumped then off + 1 else nxt)
        else if b AND 0xC0 = 0xC0 then
          (if off + 1 \<ge> length msg then reject
           else do {
             lo \<leftarrow> at msg (off + 1);
             let ptr = unat (b AND 0x3F) * 256 + unat lo;
             dns_name_loop n msg ptr labels True (if \<not> jumped then off + 2 else nxt)
           })
        else if off + 1 + unat b > length msg then reject
        else do {
          lab \<leftarrow> subslice msg (off + 1) (off + 1 + unat b);
          dns_name_loop n msg (off + 1 + unat b) (labels @ [string_of_bytes lab]) jumped nxt
        }
      })"

definition readDNSName :: "bytes \<Rightarrow> nat \<Rightarrow> (string \<times> nat) option panics" where
  "readDNSName msg off = dns_name_loop 129 msg off [] False off"

fun dns_questions :: "nat \<Rightarrow> bool \<Rightarrow> bytes \<Rightarrow> nat \<Rightarrow> string \<Rightarrow> (nat \<times> string) option panics" where
  "dns_questions 0 isFirst pl off qname = accept (off, qname)"
| "dns_questions (Suc n) isFirst pl off qname =
     do {
       r \<leftarrow> readDNSName pl off;
       case r of None \<Rightarrow> reject
       | Some (name, no) \<Rightarrow>
           if no + 4 > length pl then reject
           else dns_questions n False pl (no + 4) (if isFirst then name else qname)
     }"

fun dns_answers :: "nat \<Rightarrow> bytes \<Rightarrow> nat \<Rightarrow> string \<Rightarrow> ip_domain list \<Rightarrow> ip_domain list panics" where
  "dns_answers 0 pl off qname out = Some out"
| "dns_answers (Suc n) pl off qname out =
     do {
       r \<leftarrow> readDNSName pl off;
       case r of None \<Rightarrow> Some out
       | Some (_, no) \<Rightarrow>
           if no + 10 > length pl then Some out
           else do {
             rrType \<leftarrow> be16 pl no;
             rdlen16 \<leftarrow> be16 pl (no + 8);
             let rdlen = unat rdlen16;
             let rdata = no + 10;
             if rdata + rdlen > length pl then Some out
             else do {
               out' \<leftarrow>
                 (if rrType = 1 \<and> rdlen = 4 then do {
                    ip \<leftarrow> subslice pl rdata (rdata + 4);
                    Some (out @ [\<lparr>idIp = ip_string ip, idDomain = qname, idSource = ''dns''\<rparr>]) }
                  else if rrType = 28 \<and> rdlen = 16 then do {
                    ip \<leftarrow> subslice pl rdata (rdata + 16);
                    Some (out @ [\<lparr>idIp = ip_string ip, idDomain = qname, idSource = ''dns''\<rparr>]) }
                  else Some out);
               dns_answers n pl (rdata + rdlen) qname out'
             }
           }
     }"

definition parseDNSResponse :: "bytes \<Rightarrow> ip_domain list panics" where
  "parseDNSResponse pl =
     (if length pl < 12 then Some []
      else do {
        flags \<leftarrow> be16 pl 2;
        if flags AND 0x8000 = 0 then Some []
        else do {
          qd \<leftarrow> be16 pl 4;
          an \<leftarrow> be16 pl 6;
          q \<leftarrow> dns_questions (unat qd) True pl 12 [];
          case q of None \<Rightarrow> Some []
          | Some (off, qname) \<Rightarrow>
              if qname = [] then Some [] else dns_answers (unat an) pl off qname []
        }
      })"

section \<open>The TLS ClientHello\<close>

definition sni_of_extension :: "bytes \<Rightarrow> string panics" where
  "sni_of_extension sni =
     (if length sni \<ge> 5 then do {
        t \<leftarrow> at sni 2;
        if t = 0 then do {
          n \<leftarrow> be16 sni 3;
          if 5 + unat n \<le> length sni
          then do { s \<leftarrow> subslice sni 5 (5 + unat n); Some (string_of_bytes s) }
          else Some []
        } else Some []
      } else Some [])"

function sni_extensions :: "bytes \<Rightarrow> nat \<Rightarrow> nat \<Rightarrow> string panics" where
  "sni_extensions p idx stop =
     (if idx + 4 \<le> stop then do {
        extType \<leftarrow> be16 p idx;
        extSize16 \<leftarrow> be16 p (idx + 2);
        let extSize = unat extSize16;
        if idx + 4 + extSize > stop then Some []
        else if extType = 0 then do {
          sni \<leftarrow> subslice p (idx + 4) (idx + 4 + extSize);
          sni_of_extension sni
        }
        else sni_extensions p (idx + 4 + extSize) stop
      }
      else Some [])"
  by pat_completeness auto
termination
  by (relation "measure (\<lambda>(p, idx, stop). stop - idx)") auto

declare sni_extensions.simps [simp del]

definition parseTLSClientHelloSNI :: "bytes \<Rightarrow> string panics" where
  "parseTLSClientHelloSNI pl =
     (if length pl < 6 then Some []
      else do {
        rt \<leftarrow> at pl 0;
        if rt \<noteq> 0x16 then Some []
        else do {
          p \<leftarrow> slice_from pl 5;
          if length p < 38 then Some []
          else do {
            mt \<leftarrow> at p 0;
            let idx = (4 + 2 + 32 :: nat);
            if mt \<noteq> 0x01 then Some []
            else if idx \<ge> length p then Some []
            else do {
              sidLen \<leftarrow> at p idx;
              let idx = idx + 1 + unat sidLen;
              if idx + 2 > length p then Some []
              else do {
                csLen \<leftarrow> be16 p idx;
                let idx = idx + 2 + unat csLen;
                if idx + 1 > length p then Some []
                else do {
                  cmLen \<leftarrow> at p idx;
                  let idx = idx + 1 + unat cmLen;
                  if idx + 2 > length p then Some []
                  else do {
                    extTotal \<leftarrow> be16 p idx;
                    let idx = idx + 2;
                    let stop = (if idx + unat extTotal > length p then length p else idx + unat extTotal);
                    sni_extensions p idx stop
                  }
                }
              }
            }
          }
        }
      })"

section \<open>No parser panics\<close>

lemma parseTransport_total: "\<exists>r. parseTransport info l4 = Some r"
  by (auto simp: parseTransport_def panic_free Let_def)

lemma parseIPv4_total: "\<exists>r. parseIPv4 pkt = Some r"
proof (cases "length pkt < 20")
  case False
  then have "pkt \<noteq> []" by auto
  with False show ?thesis using parseTransport_total by (auto simp: parseIPv4_def panic_free Let_def)
qed (simp add: parseIPv4_def)

lemma ipv6_headers_total: "40 \<le> length pkt \<Longrightarrow> \<exists>r. ipv6_headers n pkt nxt off = Some r"
  using parseTransport_total
  by (induction n pkt nxt off rule: ipv6_headers.induct) (auto simp: panic_free Let_def)

lemma parseIPv6_total: "\<exists>r. parseIPv6 pkt = Some r"
proof (cases "length pkt < 40")
  case False
  then have "pkt \<noteq> []" by auto
  with False show ?thesis using ipv6_headers_total by (auto simp: parseIPv6_def panic_free Let_def)
qed (simp add: parseIPv6_def)

lemma skip_tags_total:
  "off \<le> length frame \<Longrightarrow>
   skip_tags n frame et off = reject \<or>
   (\<exists>et' off'. skip_tags n frame et off = accept (et', off') \<and> off \<le> off' \<and> off' \<le> length frame)"
proof (induction n frame et off rule: skip_tags.induct)
  case (2 n frame et off)
  show ?case
  proof (cases "(et = 0x8100 \<or> et = 0x88a8) \<and> \<not> length frame < off + 4")
    case True
    then show ?thesis using "2.IH" by (fastforce simp: panic_free)
  next
    case False
    with "2.prems" show ?thesis by auto
  qed
qed simp

lemma parseEthernetFrame_total: "\<exists>r. parseEthernetFrame frame = Some r"
proof (cases "length frame < 14")
  case False
  then obtain et where et: "be16 frame 12 = Some et" by (auto simp: panic_free)
  show ?thesis using skip_tags_total [of 14 frame 2 et] parseIPv4_total parseIPv6_total False
    by (auto simp: parseEthernetFrame_def et panic_free)
qed (simp add: parseEthernetFrame_def)

lemma parseEthIPv4_total: "\<exists>r. parseEthIPv4 frame = Some r"
proof (cases "length frame < 14")
  case False
  then obtain et where et: "be16 frame 12 = Some et" by (auto simp: panic_free)
  show ?thesis using skip_tags_total [of 14 frame 2 et] parseIPv4_total False
    by (auto simp: parseEthIPv4_def et panic_free)
qed (simp add: parseEthIPv4_def)

lemma dns_name_loop_result:
  "jumped \<longrightarrow> nxt \<le> length msg \<Longrightarrow>
   dns_name_loop n msg off labels jumped nxt = reject \<or>
   (\<exists>name no. dns_name_loop n msg off labels jumped nxt = accept (name, no) \<and>
      (jumped \<longrightarrow> no = nxt) \<and> (\<not> jumped \<longrightarrow> off < no \<and> no \<le> length msg))"
proof (induction n msg off labels jumped nxt rule: dns_name_loop.induct)
  case (2 n msg off labels jumped nxt)
  show ?case
  proof (cases "off \<ge> length msg")
    case False
    then have b: "at msg off = Some (msg ! off)" by (simp add: panic_free)
    consider "msg ! off = 0"
      | "msg ! off \<noteq> 0" "msg ! off AND 0xC0 = 0xC0" "off + 1 \<ge> length msg"
      | "msg ! off \<noteq> 0" "msg ! off AND 0xC0 = 0xC0" "\<not> off + 1 \<ge> length msg"
      | "msg ! off \<noteq> 0" "msg ! off AND 0xC0 \<noteq> 0xC0" "off + 1 + unat (msg ! off) > length msg"
      | "msg ! off \<noteq> 0" "msg ! off AND 0xC0 \<noteq> 0xC0" "\<not> off + 1 + unat (msg ! off) > length msg"
      by blast
    then show ?thesis
    proof cases
      case 1
      with False show ?thesis by (simp add: b)
    next
      case 2
      with False show ?thesis by (simp add: b)
    next
      case 3
      then show ?thesis using "2.IH"(1) "2.prems" False
        by (fastforce simp: b panic_free Let_def)
    next
      case 4
      with False show ?thesis by (simp add: b)
    next
      case 5
      then show ?thesis using "2.IH"(2) "2.prems" False
        by (fastforce simp: b panic_free Let_def)
    qed
  qed simp
qed simp

lemma readDNSName_result:
  "readDNSName msg off = reject \<or>
   (\<exists>name no. readDNSName msg off = accept (name, no) \<and> off < no \<and> no \<le> length msg)"
  using dns_name_loop_result [of False off msg 129 off "[]"] by (simp add: readDNSName_def)

lemma dns_questions_result:
  "dns_questions n isFirst pl off qname = reject \<or>
   (\<exists>off' q. dns_questions n isFirst pl off qname = accept (off', q) \<and> off \<le> off')"
proof (induction n isFirst pl off qname rule: dns_questions.induct)
  case (2 n isFirst pl off qname)
  from readDNSName_result [of pl off] show ?case
  proof
    assume "\<exists>name no. readDNSName pl off = accept (name, no) \<and> off < no \<and> no \<le> length pl"
    then obtain name no where r: "readDNSName pl off = accept (name, no)" "off < no" by blast
    show ?thesis
    proof (cases "no + 4 > length pl")
      case False
      with r "2.IH" show ?thesis by fastforce
    qed (simp add: r)
  qed simp
qed simp

text \<open>Every observation of an answer section is one record of the message, under the name asked for.\<close>

definition dns_observation :: "bytes \<Rightarrow> string \<Rightarrow> ip_domain \<Rightarrow> bool" where
  "dns_observation pl qname d \<longleftrightarrow>
     idDomain d = qname \<and> idSource d = ''dns'' \<and>
     (\<exists>ip. sublist ip pl \<and> length ip \<in> {4, 16} \<and> idIp d = ip_string ip)"

lemma sublist_window: "sublist (take n (drop k xs)) xs"
  by (meson sublist_drop sublist_order.order_trans sublist_take)

lemma dns_answers_result:
  "\<exists>more. dns_answers n pl off qname out = Some (out @ more) \<and> length more \<le> n \<and>
     (\<forall>d \<in> set more. dns_observation pl qname d)"
proof (induction n arbitrary: off out)
  case (Suc n)
  show ?case
  proof (cases "\<exists>name no. readDNSName pl off = accept (name, no) \<and> \<not> no + 10 > length pl")
    case False
    with readDNSName_result [of pl off] show ?thesis by auto
  next
    case True
    then obtain name no where r: "readDNSName pl off = accept (name, no)"
      and fits: "\<not> no + 10 > length pl" by blast
    from fits obtain ty len where ty: "be16 pl no = Some ty" and len: "be16 pl (no + 8) = Some len"
      by (simp add: panic_free)
    show ?thesis
    proof (cases "no + 10 + unat len > length pl")
      case True
      with r fits ty len show ?thesis by (simp add: Let_def)
    next
      case False
      define obs where "obs k = \<lparr>idIp = ip_string (take k (drop (no + 10) pl)), idDomain = qname,
        idSource = ''dns''\<rparr>" for k
      have o: "dns_observation pl qname (obs k)" if "k \<in> {4, 16}" "k = unat len" for k
        using that False sublist_window [of k "no + 10" pl]
        by (auto simp: dns_observation_def obs_def intro!: exI [of _ "take k (drop (no + 10) pl)"])
      define new where "new = (if ty = 1 \<and> unat len = 4 then [obs 4]
        else if ty = 28 \<and> unat len = 16 then [obs 16] else [])"
      have step: "dns_answers (Suc n) pl off qname out
          = dns_answers n pl (no + 10 + unat len) qname (out @ new)"
        using r fits ty len False by (simp add: Let_def panic_free new_def obs_def)
      have new: "length new \<le> 1" "\<forall>d \<in> set new. dns_observation pl qname d"
        using o by (auto simp: new_def)
      from Suc.IH [of "no + 10 + unat len" "out @ new"] obtain more
        where "dns_answers n pl (no + 10 + unat len) qname (out @ new) = Some ((out @ new) @ more)"
          and "length more \<le> n" and "\<forall>d \<in> set more. dns_observation pl qname d" by blast
      with new show ?thesis unfolding step by (intro exI [of _ "new @ more"]) auto
    qed
  qed
qed simp

lemma sni_of_extension_total: "\<exists>s. sni_of_extension b = Some s"
  by (auto simp: sni_of_extension_def panic_free)

lemma sni_extensions_total: "stop \<le> length p \<Longrightarrow> \<exists>s. sni_extensions p idx stop = Some s"
proof (induction p idx stop rule: sni_extensions.induct)
  case (1 p idx stop)
  show ?case
  proof (cases "idx + 4 \<le> stop")
    case True
    then obtain ty sz where t: "be16 p idx = Some ty" "be16 p (idx + 2) = Some sz"
      using "1.prems" by (simp add: panic_free)
    show ?thesis
    proof (cases "idx + 4 + unat sz > stop \<or> ty = 0")
      case True
      then show ?thesis using t \<open>idx + 4 \<le> stop\<close> "1.prems" sni_of_extension_total
        by (subst sni_extensions.simps) (auto simp: Let_def panic_free)
    next
      case False
      then show ?thesis using t \<open>idx + 4 \<le> stop\<close> "1.prems" "1.IH" [OF True _ _ refl]
        by (subst sni_extensions.simps) (auto simp: Let_def)
    qed
  qed (subst sni_extensions.simps, simp)
qed

lemma parseTLS_total: "\<exists>s. parseTLSClientHelloSNI pl = Some s"
proof (cases "length pl < 6")
  case False
  then have "pl \<noteq> []" and "drop 5 pl \<noteq> []" by auto
  with False show ?thesis using sni_extensions_total
    by (auto simp: parseTLSClientHelloSNI_def panic_free Let_def)
qed (simp add: parseTLSClientHelloSNI_def)

lemma parseDNSResponse_total: "\<exists>out. parseDNSResponse pl = Some out"
proof (cases "length pl < 12")
  case False
  then obtain fl qd an where b: "be16 pl 2 = Some fl" "be16 pl 4 = Some qd" "be16 pl 6 = Some an"
    by (simp add: panic_free)
  have q: "dns_questions (unat qd) True pl 12 [] = reject \<or>
    (\<exists>off' q. dns_questions (unat qd) True pl 12 [] = accept (off', q))"
    using dns_questions_result by blast
  have a: "\<exists>out. dns_answers n pl off q [] = Some out" for n off q
    using dns_answers_result [of n pl off q "[]"] by blast
  from q a show ?thesis by (auto simp: parseDNSResponse_def b)
qed (simp add: parseDNSResponse_def)

section \<open>Where the results come from\<close>

lemma parseTransport_accept:
  assumes "parseTransport info l4 = accept r"
  shows "sublist (payload r) l4 \<and> proto r = proto info \<and> proto r \<in> {6, 17}
         \<and> srcIP r = srcIP info \<and> dstIP r = dstIP info"
  using assms
  by (auto simp: parseTransport_def Let_def slice_from_def bind_eq_Some_conv split: if_splits)

lemma sublist_of_drop: "sublist xs (drop n ys) \<Longrightarrow> sublist xs ys"
  by (meson sublist_drop sublist_order.order_trans)

lemma sublist_of_take: "sublist xs (take n ys) \<Longrightarrow> sublist xs ys"
  by (meson sublist_take sublist_order.order_trans)

lemma parseIPv4_accept:
  assumes "parseIPv4 pkt = accept r"
  shows "sublist (payload r) pkt \<and> proto r \<in> {6, 17}"
proof -
  from assms obtain n k info where
    t: "parseTransport info (drop n (take k pkt)) = accept r \<or> parseTransport info (drop n pkt) = accept r"
    by (auto simp: parseIPv4_def Let_def subslice_def slice_from_def bind_eq_Some_conv split: if_splits)
  then show ?thesis by (meson parseTransport_accept sublist_of_drop sublist_of_take)
qed

lemma ipv6_headers_accept:
  "ipv6_headers n pkt nxt off = accept r \<Longrightarrow> sublist (payload r) pkt \<and> proto r \<in> {6, 17}"
proof (induction n pkt nxt off rule: ipv6_headers.induct)
  case (2 n pkt nxt off)
  show ?case
  proof (cases "nxt = 0 \<or> nxt = 43 \<or> nxt = 60 \<or> nxt = 44 \<or> nxt = 51")
    case True
    with "2.prems" obtain nx off' where "ipv6_headers n pkt nx off' = accept r"
      by (auto simp: Let_def bind_eq_Some_conv split: if_splits)
    with True "2.prems" "2.IH" show ?thesis
      by (auto simp: Let_def bind_eq_Some_conv split: if_splits)
  next
    case False
    with "2.prems" obtain info where "parseTransport info (drop off pkt) = accept r"
      by (auto simp: slice_from_def bind_eq_Some_conv split: if_splits)
    then show ?thesis by (meson parseTransport_accept sublist_of_drop)
  qed
qed simp

lemma parseIPv6_accept:
  assumes "parseIPv6 pkt = accept r"
  shows "sublist (payload r) pkt \<and> proto r \<in> {6, 17}"
proof -
  from assms obtain n k nxt where
    "ipv6_headers 8 (take k pkt) nxt n = accept r \<or> ipv6_headers 8 pkt nxt n = accept r"
    by (auto simp: parseIPv6_def Let_def subslice_def bind_eq_Some_conv split: if_splits)
  then show ?thesis by (meson ipv6_headers_accept sublist_of_take)
qed

lemma frame_accept:
  assumes "parseEthernetFrame frame = accept r"
  shows "\<exists>et et' off. be16 frame 12 = Some et \<and> skip_tags 2 frame et 14 = accept (et', off) \<and>
    \<not> length frame < 14 \<and> off \<le> length frame \<and>
    (et' = 0x0800 \<and> parseIPv4 (drop off frame) = accept r \<or>
     et' = 0x86dd \<and> parseIPv6 (drop off frame) = accept r)"
proof -
  from assms have len: "\<not> length frame < 14" by (auto simp: parseEthernetFrame_def)
  then obtain et where et: "be16 frame 12 = Some et" by (auto simp: panic_free)
  from assms len obtain et' off where
    t: "skip_tags 2 frame et 14 = accept (et', off)" "off \<le> length frame"
    using skip_tags_total [of 14 frame 2 et] by (auto simp: parseEthernetFrame_def et)
  show ?thesis using assms len t
    by (auto simp: parseEthernetFrame_def et panic_free split: if_splits)
qed

lemma parseEthernetFrame_accept:
  "parseEthernetFrame frame = accept r \<Longrightarrow> sublist (payload r) frame \<and> proto r \<in> {6, 17}"
  by (drule frame_accept) (meson parseIPv4_accept parseIPv6_accept sublist_of_drop)

lemma parseEthIPv4_restricts:
  assumes "parseEthIPv4 frame = accept r"
  shows "parseEthernetFrame frame = accept r"
proof -
  from assms have len: "\<not> length frame < 14" by (auto simp: parseEthIPv4_def)
  then obtain et where et: "be16 frame 12 = Some et" by (auto simp: panic_free)
  from assms len obtain et' off where
    t: "skip_tags 2 frame et 14 = accept (et', off)"
    using skip_tags_total [of 14 frame 2 et] by (auto simp: parseEthIPv4_def et)
  show ?thesis using assms len t
    by (auto simp: parseEthIPv4_def parseEthernetFrame_def et split: if_splits)
qed

lemma sni_of_extension_sub:
  "sni_of_extension b = Some s \<Longrightarrow> \<exists>name. sublist name b \<and> s = string_of_bytes name"
  by (auto simp: sni_of_extension_def subslice_def bind_eq_Some_conv string_of_bytes_def
      split: if_splits intro: sublist_window)

lemma sni_extensions_sub:
  "sni_extensions p idx stop = Some s \<Longrightarrow> \<exists>name. sublist name p \<and> s = string_of_bytes name"
proof (induction p idx stop rule: sni_extensions.induct)
  case (1 p idx stop)
  have empty: "\<exists>name. sublist name p \<and> [] = string_of_bytes name"
    by (rule exI [of _ "[]"]) (simp add: string_of_bytes_def)
  show ?case
  proof (cases "idx + 4 \<le> stop")
    case False
    with "1.prems" empty show ?thesis by (subst (asm) sni_extensions.simps) simp
  next
    case True
    with "1.prems" obtain ty sz where t: "be16 p idx = Some ty" "be16 p (idx + 2) = Some sz"
      by (subst (asm) sni_extensions.simps) (cases "be16 p idx"; cases "be16 p (idx + 2)"; simp)
    consider "idx + 4 + unat sz > stop" | "\<not> idx + 4 + unat sz > stop" "ty = 0"
      | "\<not> idx + 4 + unat sz > stop" "ty \<noteq> 0" by blast
    then show ?thesis
    proof cases
      case 1
      with "1.prems" True t empty show ?thesis by (subst (asm) sni_extensions.simps) simp
    next
      case 2
      with "1.prems" True t obtain b where "subslice p (idx + 4) (idx + 4 + unat sz) = Some b"
        and "sni_of_extension b = Some s"
        by (subst (asm) sni_extensions.simps)
          (cases "subslice p (idx + 4) (idx + 4 + unat sz)"; simp)
      then show ?thesis unfolding subslice_def
        by (metis sni_of_extension_sub sublist_of_drop sublist_of_take option.distinct(1) option.inject)
    next
      case 3
      with "1.prems" True t have "sni_extensions p (idx + 4 + unat sz) stop = Some s"
        by (subst (asm) sni_extensions.simps) simp
      with 3 True t "1.IH" show ?thesis by blast
    qed
  qed
qed

lemma parseTLS_sub:
  assumes "parseTLSClientHelloSNI pl = Some s"
  shows "\<exists>name. sublist name pl \<and> s = string_of_bytes name"
proof (cases "s = []")
  case True
  then show ?thesis by (intro exI [of _ "[]"]) (simp add: string_of_bytes_def)
next
  case False
  with assms obtain idx stop where "sni_extensions (drop 5 pl) idx stop = Some s"
    by (auto simp: parseTLSClientHelloSNI_def Let_def slice_from_def bind_eq_Some_conv split: if_splits)
  then show ?thesis by (meson sni_extensions_sub sublist_of_drop)
qed

section \<open>A ClientHello as RFC 8446 lays it out\<close>

text \<open>
  The reference the parser is measured against: a message built from its parts. A well-formed
  hello carries the name it was built with, whatever the session id, the cipher suites and the
  extensions before and after \<open>server_name\<close>.
\<close>

definition put_be16 :: "nat \<Rightarrow> bytes" where
  "put_be16 n = [word_of_nat (n div 256), word_of_nat (n mod 256)]"

definition hello_extension :: "nat \<times> bytes \<Rightarrow> bytes" where
  "hello_extension e = put_be16 (fst e) @ put_be16 (length (snd e)) @ snd e"

definition server_name_body :: "bytes \<Rightarrow> bytes" where
  "server_name_body name = put_be16 (length name + 3) @ [0] @ put_be16 (length name) @ name"

definition client_hello ::
    "bytes \<Rightarrow> bytes \<Rightarrow> bytes \<Rightarrow> bytes \<Rightarrow> bytes \<Rightarrow> (nat \<times> bytes) list \<Rightarrow> bytes \<Rightarrow> bytes \<Rightarrow> bytes" where
  "client_hello rec hs sid cs cm pre name post =
     (let exts = concat (map hello_extension pre) @ hello_extension (0, server_name_body name) @ post
      in [0x16] @ rec @ [0x01] @ hs @ [word_of_nat (length sid)] @ sid @ put_be16 (length cs) @ cs @
         [word_of_nat (length cm)] @ cm @ put_be16 (length exts) @ exts)"

lemma length_put_be16 [simp]: "length (put_be16 n) = 2"
  by (simp add: put_be16_def)

lemma be_nat_put_be16: "n < 2 ^ 16 \<Longrightarrow> be_nat (put_be16 n) = n"
  by (simp add: put_be16_def unsigned_of_nat take_bit_eq_mod)

lemma be16_at: "n < 2 ^ 16 \<Longrightarrow> be16 (xs @ put_be16 n @ ys) (length xs) = Some (word_of_nat n)"
  by (simp add: be16_Some be_nat_put_be16)

lemma unat_word16: "n < 2 ^ 16 \<Longrightarrow> unat (word_of_nat n :: 16 word) = n"
  by (simp add: unsigned_of_nat take_bit_eq_mod)

lemma unat_word8: "n < 2 ^ 8 \<Longrightarrow> unat (word_of_nat n :: 8 word) = n"
  by (simp add: unsigned_of_nat take_bit_eq_mod)

lemma sni_of_server_name:
  assumes "length name < 2 ^ 16"
  shows "sni_of_extension (server_name_body name) = Some (string_of_bytes name)"
proof -
  let ?b = "server_name_body name"
  have len: "length ?b = 5 + length name" by (simp add: server_name_body_def)
  have t: "at ?b 2 = Some 0" by (simp add: at_def server_name_body_def put_be16_def)
  have n: "be16 ?b 3 = Some (word_of_nat (length name))"
    using be16_at [OF assms, of "put_be16 (length name + 3) @ [0]" name]
    by (simp add: server_name_body_def)
  have d: "drop 5 ?b = name" by (simp add: server_name_body_def put_be16_def)
  have "unat (word_of_nat (length name) :: 16 word) = length name" by (rule unat_word16 [OF assms])
  then show ?thesis by (simp add: sni_of_extension_def len t n subslice_def d)
qed

lemma sni_extensions_found:
  assumes "\<forall>(t, b) \<in> set pre. 0 < t \<and> t < 2 ^ 16 \<and> length b < 2 ^ 16"
    and "length name + 5 < 2 ^ 16"
    and "p = a @ concat (map hello_extension pre) @ hello_extension (0, server_name_body name) @ post"
    and "length p - length post \<le> stop" and "stop \<le> length p"
  shows "sni_extensions p (length a) stop = Some (string_of_bytes name)"
  using assms
proof (induction pre arbitrary: a)
  case Nil
  let ?b = "server_name_body name"
  have len: "length ?b = 5 + length name" by (simp add: server_name_body_def)
  have p: "p = a @ put_be16 0 @ put_be16 (length ?b) @ ?b @ post"
    using Nil.prems(3) by (simp add: hello_extension_def)
  have ty: "be16 p (length a) = Some 0" using be16_at [of 0 a] by (simp add: p)
  have sz: "be16 p (length a + 2) = Some (word_of_nat (length ?b))"
    using be16_at [of "length ?b" "a @ put_be16 0" "?b @ post"] Nil.prems(2) by (simp add: p len)
  have u: "unat (word_of_nat (length ?b) :: 16 word) = length ?b"
    using Nil.prems(2) by (intro unat_word16) (simp add: len)
  have fits: "length a + 4 + length ?b \<le> stop" using Nil.prems(4) by (simp add: p)
  have "subslice p (length a + 4) (length a + 4 + length ?b) = Some ?b"
    using fits Nil.prems(5) by (simp add: subslice_def p)
  with ty sz u fits sni_of_server_name [of name] Nil.prems(2) show ?case
    by (subst sni_extensions.simps) (simp add: Let_def)
next
  case (Cons e pre)
  obtain t b where e: "e = (t, b)" by (cases e)
  then have tb: "0 < t" "t < 2 ^ 16" "length b < 2 ^ 16" using Cons.prems(1) by auto
  let ?rest = "concat (map hello_extension pre) @ hello_extension (0, server_name_body name) @ post"
  have p: "p = a @ put_be16 t @ put_be16 (length b) @ b @ ?rest"
    using Cons.prems(3) by (simp add: hello_extension_def [of "(t, b)"] e)
  have ty: "be16 p (length a) = Some (word_of_nat t)" using be16_at [OF tb(2), of a] by (simp add: p)
  have sz: "be16 p (length a + 2) = Some (word_of_nat (length b))"
    using be16_at [OF tb(3), of "a @ put_be16 t" "b @ ?rest"] by (simp add: p)
  have "word_of_nat t \<noteq> (0 :: 16 word)" using tb unat_word16 [of t] by (metis unat_0 less_irrefl)
  moreover have fits: "length a + 4 + length b \<le> stop" using Cons.prems(4) by (simp add: p)
  moreover have "sni_extensions p (length a + 4 + length b) stop = Some (string_of_bytes name)"
  proof -
    have "length (a @ put_be16 t @ put_be16 (length b) @ b) = length a + 4 + length b" by simp
    then show ?thesis
      using Cons.IH [of "a @ put_be16 t @ put_be16 (length b) @ b"] Cons.prems by (simp only: p) simp
  qed
  ultimately show ?case using ty sz tb
    by (subst sni_extensions.simps) (simp add: Let_def unat_word16)
qed

lemma at_mid: "at (xs @ x # ys) (length xs) = Some x"
  by (simp add: at_def)

lemma parseTLS_client_hello:
  assumes shape: "length rec = 4" "length hs = 37" "length sid < 2 ^ 8" "length cs < 2 ^ 16"
      "length cm < 2 ^ 8"
    and pre: "\<forall>(t, b) \<in> set pre. 0 < t \<and> t < 2 ^ 16 \<and> length b < 2 ^ 16"
    and total: "length (concat (map hello_extension pre)) + length name + 9 + length post < 2 ^ 16"
  shows "parseTLSClientHelloSNI (client_hello rec hs sid cs cm pre name post)
         = Some (string_of_bytes name)"
proof -
  define exts where
    "exts = concat (map hello_extension pre) @ hello_extension (0, server_name_body name) @ post"
  let ?sid = "word_of_nat (length sid) # sid" and ?cm = "word_of_nat (length cm) # cm"
  define a where "a = 0x01 # hs @ ?sid @ put_be16 (length cs) @ cs @ ?cm @ put_be16 (length exts)"
  define p where "p = a @ exts"
  have p1: "p = (0x01 # hs) @ ?sid @ put_be16 (length cs) @ cs @ ?cm @ put_be16 (length exts) @ exts"
    by (simp add: p_def a_def)
  have lex: "length exts < 2 ^ 16"
    using total by (simp add: exts_def hello_extension_def server_name_body_def)
  have i1: "at p 38 = Some (word_of_nat (length sid))"
    using at_mid [of "0x01 # hs" _ "sid @ _"] shape(2) by (simp add: p1)
  have i2: "be16 p (39 + length sid) = Some (word_of_nat (length cs))"
    using be16_at [OF shape(4), of "0x01 # hs @ ?sid"] shape(2) by (simp add: p1)
  have i3: "at p (41 + length sid + length cs) = Some (word_of_nat (length cm))"
    using at_mid [of "0x01 # hs @ ?sid @ put_be16 (length cs) @ cs" _ "cm @ _"] shape(2)
    by (simp add: p1 add.assoc)
  have i4: "be16 p (42 + length sid + length cs + length cm) = Some (word_of_nat (length exts))"
    using be16_at [OF lex, of "0x01 # hs @ ?sid @ put_be16 (length cs) @ cs @ ?cm"] shape(2)
    by (simp add: p1 add.assoc)
  have la: "length a = 44 + length sid + length cs + length cm" using shape(2) by (simp add: a_def)
  have ext: "sni_extensions p (44 + length sid + length cs + length cm) (length p)
             = Some (string_of_bytes name)"
    using sni_extensions_found [OF pre, of name p a post "length p"] total
    by (simp add: p_def la exts_def)
  have pl: "client_hello rec hs sid cs cm pre name post = (0x16 # rec) @ p"
    by (simp add: client_hello_def p1 exts_def Let_def)
  have "length p = length a + length exts" by (simp add: p_def)
  then show ?thesis
    unfolding pl parseTLSClientHelloSNI_def
    using i1 i2 i3 i4 ext la shape unat_word8 [OF shape(3)] unat_word8 [OF shape(5)]
      unat_word16 [OF shape(4)] unat_word16 [OF lex]
    by (simp add: Let_def at_def [of _ 0] slice_from_def p1 add.assoc)
qed

section \<open>Properties\<close>

text \<open>C25. No packet from the network makes a parser of the capture panic: the Ethernet parsers, the DNS
  parser and the ClientHello parser return a value for every sequence of bytes.\<close>

theorem capture_never_panics:
  "parseEthernetFrame frame \<noteq> None \<and> parseEthIPv4 frame \<noteq> None \<and>
   parseDNSResponse pl \<noteq> None \<and> parseTLSClientHelloSNI pl \<noteq> None"
  using parseEthernetFrame_total [of frame] parseEthIPv4_total [of frame]
    parseDNSResponse_total [of pl] parseTLS_total [of pl] by auto

text \<open>What the frame parser accepts is TCP or UDP and its payload is a contiguous part of the frame.\<close>

theorem frame_payload_within:
  "case parseEthernetFrame frame of
     Some (Some r) \<Rightarrow> sublist (payload r) frame \<and> proto r \<in> {6, 17}
   | r \<Rightarrow> r = Some None"
  using parseEthernetFrame_total [of frame] parseEthernetFrame_accept [of frame]
  by (auto split: option.split)

text \<open>Every observation from a DNS answer section carries the name that was asked for and the text of
  four or sixteen consecutive bytes of the message, and there are at most as many as announced.\<close>

theorem dns_answers_faithful:
  "\<exists>more. dns_answers n pl off qname out = Some (out @ more) \<and> length more \<le> n \<and>
     set more \<subseteq> {d. dns_observation pl qname d}"
  using dns_answers_result [of n pl off qname out] by blast

text \<open>The server name of a well-formed ClientHello is found, whatever its session id, cipher suites,
  compression methods and the extensions before and after it.\<close>

theorem client_hello_sni_found:
  assumes "length rec = 4" "length hs = 37" "length sid < 2 ^ 8" "length cs < 2 ^ 16" "length cm < 2 ^ 8"
    and "list_all (\<lambda>(t, b). 0 < t \<and> t < 2 ^ 16 \<and> length b < 2 ^ 16) pre"
    and "length (concat (map hello_extension pre)) + length name + 9 + length post < 2 ^ 16"
  shows "parseTLSClientHelloSNI (client_hello rec hs sid cs cm pre name post) = Some (string_of_bytes name)"
  using assms by (intro parseTLS_client_hello) (simp_all add: list_all_iff)

theorem client_hello_sni_found_witness:
  "parseTLSClientHelloSNI (client_hello [3, 1, 0, 0] (replicate 37 0) [] [0x13, 0x01] [0]
     [(23, [])] (bytes_of_string ''a.io'') []) = Some ''a.io''"
  using client_hello_sni_found [of "[3, 1, 0, 0]" "replicate 37 0" "[]" "[0x13, 0x01]" "[0]"
      "[(23, [])]" "bytes_of_string ''a.io''" "[]"]
  by (simp add: hello_extension_def)

text \<open>What is reported as a server name is text that stands in the packet.\<close>

lemma client_hello_sni_sound:
  "\<exists>name. parseTLSClientHelloSNI pl = Some (string_of_bytes name) \<and> sublist name pl"
  using parseTLS_total [of pl] parseTLS_sub [of pl] by blast

end
