(* ===== verification/Reassembler.thy ===== *)
theory Reassembler
  imports TcpDelivery HttpFraming SniParse "HOL-Library.Multiset"
begin

text \<open>
  The table of connections of the content audit and the events it emits
  (\<open>cmd/agent/content_reassembly.go\<close>, \<open>reassembler\<close>). One worker owns a reassembler, so a run is a
  sequence of \<open>feed\<close> and \<open>sweepIdle\<close> calls.

  The map of connections is an association list. Go's iteration order enters only as the
  parameter \<open>ord\<close> of the loops that range over a map. The clock is the argument \<open>now\<close> (Unix
  seconds), the callback \<open>emit\<close> is the event an operation returns, and \<open>None\<close> is a panic.
\<close>

type_synonym connKey = "string \<times> string \<times> 16 word \<times> 16 word"

definition makeConnKey :: "string \<Rightarrow> 16 word \<Rightarrow> string \<Rightarrow> 16 word \<Rightarrow> connKey" where
  "makeConnKey sIP sPort dIP dPort =
     (if str_less sIP dIP \<or> (sIP = dIP \<and> sPort \<le> dPort) then (sIP, dIP, sPort, dPort)
      else (dIP, sIP, dPort, sPort))"

record httpStream =
  hs_req :: dirStream
  hs_resp :: dirStream
  hs_srcIP :: string
  hs_srcPort :: "16 word"
  hs_dstIP :: string
  hs_dstPort :: "16 word"
  endpointsKnown :: bool
  lastSeen :: int

definition new_stream :: httpStream where
  "new_stream = \<lparr>hs_req = empty_stream, hs_resp = empty_stream, hs_srcIP = [], hs_srcPort = 0,
     hs_dstIP = [], hs_dstPort = 0, endpointsKnown = False, lastSeen = 0\<rparr>"

record audit_event =
  ev_srcIP :: string
  ev_dstIP :: string
  ev_dstPort :: "16 word"
  ev_verb :: string
  ev_host :: string
  ev_path :: string
  ev_ctype :: string
  ev_body :: string
  ev_status :: int
  ev_respCtype :: string
  ev_respBody :: string
  ev_reqTruncated :: bool
  ev_respTruncated :: bool
  ev_ts :: int

record reassembler =
  conns :: "(connKey \<times> httpStream) list"
  ra_ports :: "int list"
  reqCap :: int
  respCap :: int
  maxConn :: nat

definition newReassembler :: "int \<Rightarrow> int list \<Rightarrow> reassembler" where
  "newReassembler maxBody ports =
     (let rq = (if maxBody \<le> 0 then 4096 else maxBody);
          rs0 = rq * 64;
          rs1 = (if rs0 < 65536 then 65536 else rs0);
          rs = (if rs1 > 2 ^ 20 then 2 ^ 20 else rs1)
      in \<lparr>conns = [], ra_ports = ports, reqCap = rq, respCap = rs, maxConn = 8192\<rparr>)"

text \<open>Everything the code takes from outside: the map order, the decompressors.\<close>

record env =
  env_order :: map_order
  env_conns :: "(connKey \<times> httpStream) list \<Rightarrow> (connKey \<times> httpStream) list"
  env_codecs :: codecs

definition env_ok :: "env \<Rightarrow> bool" where
  "env_ok e \<longleftrightarrow> map_order_ok (env_order e) \<and>
     (\<forall>cs. set (env_conns e cs) = set cs \<and> distinct (map fst (env_conns e cs)) = distinct (map fst cs))"

definition zero_key :: connKey where
  "zero_key = ([], [], 0, 0)"

definition evictOldest :: "env \<Rightarrow> reassembler \<Rightarrow> reassembler" where
  "evictOldest e ra =
     (let (oldT, oldK) = foldl (\<lambda>(t, k) (k', s). if lastSeen s < t then (lastSeen s, k') else (t, k))
            (2 ^ 62 - 1, zero_key) (env_conns e (conns ra))
      in ra\<lparr>conns := AList.delete oldK (conns ra)\<rparr>)"

definition event_of ::
    "int \<Rightarrow> httpStream \<Rightarrow> reqHead \<Rightarrow> respHead \<Rightarrow> audit_event" where
  "event_of now s rh sh =
     \<lparr>ev_srcIP = hs_srcIP s, ev_dstIP = hs_dstIP s, ev_dstPort = hs_dstPort s,
      ev_verb = rq_verb rh, ev_host = rq_host rh, ev_path = rq_path rh, ev_ctype = rq_ctype rh,
      ev_body = rq_body rh, ev_status = rs_status sh, ev_respCtype = rs_ctype sh,
      ev_respBody = rs_body sh, ev_reqTruncated = truncated (hs_req s),
      ev_respTruncated = truncated (hs_resp s), ev_ts = now\<rparr>"

text \<open>\<open>tryEmit\<close>: the table afterwards, the event if there is one, and the returned flag.\<close>

definition tryEmit ::
    "env \<Rightarrow> int \<Rightarrow> connKey \<Rightarrow> httpStream \<Rightarrow> bool \<Rightarrow> reassembler \<Rightarrow>
     (reassembler \<times> audit_event option \<times> bool) panics" where
  "tryEmit e now key s fin ra =
     do {
       (rh, reqOK) \<leftarrow> parseReqComplete (env_codecs e) (buf (hs_req s));
       if \<not> reqOK \<and> \<not> fin then Some (ra, None, False)
       else do {
         (sh, respDone) \<leftarrow> parseRespComplete (env_codecs e) (buf (hs_resp s));
         if \<not> respDone \<and> \<not> fin then Some (ra, None, False)
         else let ev = event_of now s rh sh;
                  ra' = ra\<lparr>conns := AList.delete key (conns ra)\<rparr>
              in if ev_verb ev = [] \<and> ev_status ev = 0 then Some (ra', None, True)
                 else Some (ra', Some ev, True)
       }
     }"

definition set_endpoints ::
    "string \<Rightarrow> 16 word \<Rightarrow> string \<Rightarrow> 16 word \<Rightarrow> httpStream \<Rightarrow> httpStream" where
  "set_endpoints sip sp dip dp s =
     s\<lparr>hs_srcIP := sip, hs_srcPort := sp, hs_dstIP := dip, hs_dstPort := dp, endpointsKnown := True\<rparr>"

text \<open>The direction of a segment: \<open>Some True\<close> for a request, \<open>Some False\<close> for a response.\<close>

definition direction :: "int list \<Rightarrow> httpStream option \<Rightarrow> l4_info \<Rightarrow> bool option" where
  "direction ports s info =
     (let reqDir0 = contentPortMatch ports (dstPort info);
          respDir0 = contentPortMatch ports (srcPort info);
          (reqDir, respDir) =
            (case s of
               Some c \<Rightarrow>
                 if endpointsKnown c \<and> srcIP info = hs_srcIP c \<and> srcPort info = hs_srcPort c
                 then (True, False)
                 else if endpointsKnown c \<and> srcIP info = hs_dstIP c \<and> srcPort info = hs_dstPort c
                 then (False, True)
                 else (reqDir0, respDir0)
             | None \<Rightarrow> (reqDir0, respDir0))
      in if \<not> reqDir0 \<and> \<not> respDir0 then None
         else if reqDir \<and> respDir
         then (if has_prefix (payload info) (bytes_of_string ''HTTP/'') then Some False
               else if looksLikeHTTPRequest (payload info) then Some True
               else None)
         else Some reqDir)"

definition add_segment ::
    "env \<Rightarrow> bool \<Rightarrow> l4_info \<Rightarrow> reassembler \<Rightarrow> httpStream \<Rightarrow> httpStream panics" where
  "add_segment e isReq info ra s =
     (if isReq then do {
        d \<leftarrow> appendSeg (env_order e) (reqCap ra) (seqNo info) (payload info) (hs_req s);
        Some ((set_endpoints (srcIP info) (srcPort info) (dstIP info) (dstPort info) s)\<lparr>hs_req := d\<rparr>)
      } else do {
        d \<leftarrow> appendSeg (env_order e) (respCap ra) (seqNo info) (payload info) (hs_resp s);
        let s1 = (if endpointsKnown s then s
                  else set_endpoints (dstIP info) (dstPort info) (srcIP info) (srcPort info) s);
        Some (s1\<lparr>hs_resp := d\<rparr>)
      })"

definition info_key :: "l4_info \<Rightarrow> connKey" where
  "info_key info = makeConnKey (srcIP info) (srcPort info) (dstIP info) (dstPort info)"

definition fin_or_rst :: "l4_info \<Rightarrow> bool" where
  "fin_or_rst info \<longleftrightarrow> tcpFlags info AND 0x01 \<noteq> 0 \<or> tcpFlags info AND 0x04 \<noteq> 0"

definition feed ::
    "env \<Rightarrow> int \<Rightarrow> l4_info \<Rightarrow> reassembler \<Rightarrow> (reassembler \<times> audit_event option) panics" where
  "feed e now info ra =
     (let key = info_key info; known = map_of (conns ra) key in
      case direction (ra_ports ra) known info of
        None \<Rightarrow> Some (ra, None)
      | Some isReq \<Rightarrow>
          let ra1 = (if known = None \<and> maxConn ra \<le> length (conns ra) then evictOldest e ra else ra);
              s = (case known of None \<Rightarrow> new_stream | Some c \<Rightarrow> c)
          in do {
            s1 \<leftarrow> add_segment e isReq info ra1 (s\<lparr>lastSeen := now\<rparr>);
            let ra2 = ra1\<lparr>conns := AList.update key s1 (conns ra1)\<rparr>;
            (ra3, ev, _) \<leftarrow> tryEmit e now key s1 (fin_or_rst info) ra2;
            Some (ra3, ev)
          })"

fun sweep_loop ::
    "env \<Rightarrow> int \<Rightarrow> int \<Rightarrow> (connKey \<times> httpStream) list \<Rightarrow> reassembler \<Rightarrow>
     (reassembler \<times> audit_event list) panics" where
  "sweep_loop e now idleSec [] ra = Some (ra, [])"
| "sweep_loop e now idleSec ((k, s) # rest) ra =
     (if now - lastSeen s > idleSec then do {
        (ra1, ev, _) \<leftarrow> tryEmit e now k s True ra;
        (ra2, evs) \<leftarrow> sweep_loop e now idleSec rest (ra1\<lparr>conns := AList.delete k (conns ra1)\<rparr>);
        Some (ra2, (case ev of None \<Rightarrow> evs | Some v \<Rightarrow> v # evs))
      } else sweep_loop e now idleSec rest ra)"

definition sweepIdle ::
    "env \<Rightarrow> int \<Rightarrow> int \<Rightarrow> reassembler \<Rightarrow> (reassembler \<times> audit_event list) panics" where
  "sweepIdle e now idleSec ra = sweep_loop e now idleSec (env_conns e (conns ra)) ra"

section \<open>Both directions of a connection share an entry\<close>

lemma makeConnKey_sym: "makeConnKey a p b q = makeConnKey b q a p"
  using str_less_asym [of a b] str_less_linear [of a b]
  by (auto simp: makeConnKey_def not_le)

lemma makeConnKey_inj:
  "makeConnKey a p b q = makeConnKey c r d t \<longleftrightarrow>
     (a = c \<and> p = r \<and> b = d \<and> q = t) \<or> (a = d \<and> p = t \<and> b = c \<and> q = r)"
  using str_less_asym [of a b] str_less_linear [of a b] str_less_asym [of c d] str_less_linear [of c d]
  by (auto simp: makeConnKey_def not_le)

section \<open>The table stays bounded\<close>

definition stream_pair_ok :: "int \<Rightarrow> int \<Rightarrow> httpStream \<Rightarrow> bool" where
  "stream_pair_ok rq rs s \<longleftrightarrow> stream_ok rq (hs_req s) \<and> stream_ok rs (hs_resp s) \<and> lastSeen s < 2 ^ 62 - 1"

definition table_ok :: "reassembler \<Rightarrow> bool" where
  "table_ok ra \<longleftrightarrow>
     distinct (map fst (conns ra)) \<and> length (conns ra) \<le> maxConn ra \<and> 0 < maxConn ra \<and>
     0 \<le> reqCap ra \<and> 0 \<le> respCap ra \<and>
     (\<forall>(k, s)\<in>set (conns ra). stream_pair_ok (reqCap ra) (respCap ra) s)"

definition same_limits :: "reassembler \<Rightarrow> reassembler \<Rightarrow> bool" where
  "same_limits a b \<longleftrightarrow> reqCap a = reqCap b \<and> respCap a = respCap b \<and> maxConn a = maxConn b \<and>
     ra_ports a = ra_ports b"

lemma same_limits_refl [simp]: "same_limits a a"
  by (simp add: same_limits_def)

lemma same_limits_trans: "same_limits a b \<Longrightarrow> same_limits b c \<Longrightarrow> same_limits a c"
  by (simp add: same_limits_def)

lemma table_ok_new: "0 \<le> maxBody \<Longrightarrow> table_ok (newReassembler maxBody ports)"
  by (simp add: table_ok_def newReassembler_def Let_def)

lemma table_ok_delete: "table_ok ra \<Longrightarrow> table_ok (ra\<lparr>conns := AList.delete k (conns ra)\<rparr>)"
  using length_delete_le [of k "conns ra"]
  by (auto simp: table_ok_def distinct_delete)

definition older :: "int \<times> connKey \<Rightarrow> connKey \<times> httpStream \<Rightarrow> int \<times> connKey" where
  "older = (\<lambda>(t, k) (k', s). if lastSeen s < t then (lastSeen s, k') else (t, k))"

lemma older_simp [simp]: "older (t, k) (k', s) = (if lastSeen s < t then (lastSeen s, k') else (t, k))"
  by (simp add: older_def)

lemma foldl_oldest:
  assumes "foldl older (t0, k0) cs = (t, k)"
  shows "(t = t0 \<and> k = k0 \<or> (\<exists>s. (k, s) \<in> set cs \<and> lastSeen s = t)) \<and> t \<le> t0 \<and>
    (\<forall>(k', s)\<in>set cs. t \<le> lastSeen s)"
  using assms
proof (induction cs arbitrary: t0 k0)
  case Nil
  then show ?case by simp
next
  case (Cons c cs)
  obtain k' s where c: "c = (k', s)" by fastforce
  show ?case
  proof (cases "lastSeen s < t0")
    case True
    then have "foldl older (lastSeen s, k') cs = (t, k)" using Cons.prems c by simp
    from Cons.IH [OF this] True c show ?thesis by auto
  next
    case False
    then have "foldl older (t0, k0) cs = (t, k)" using Cons.prems c by simp
    from Cons.IH [OF this] False c show ?thesis by auto
  qed
qed

text \<open>The connection that is evicted is one of the table and the one seen longest ago.\<close>

lemma evictOldest_oldest:
  assumes env: "env_ok e" and ok: "table_ok ra" and full: "conns ra \<noteq> []"
  shows "\<exists>k s. (k, s) \<in> set (conns ra) \<and> evictOldest e ra = ra\<lparr>conns := AList.delete k (conns ra)\<rparr> \<and>
    (\<forall>(k', s')\<in>set (conns ra). lastSeen s \<le> lastSeen s')"
proof -
  obtain t k where f: "foldl older (2 ^ 62 - 1, zero_key) (env_conns e (conns ra)) = (t, k)"
    by (rule prod.exhaust)
  have cs: "set (env_conns e (conns ra)) = set (conns ra)" using env by (simp add: env_ok_def)
  obtain c where c: "c \<in> set (conns ra)" using full by (meson hd_in_set)
  then have "lastSeen (snd c) < 2 ^ 62 - 1" using ok by (auto simp: table_ok_def stream_pair_ok_def)
  moreover have "t \<le> lastSeen (snd c)" using foldl_oldest [OF f] cs c by auto
  ultimately obtain s where s: "(k, s) \<in> set (conns ra)" "lastSeen s = t"
    using foldl_oldest [OF f] cs by auto
  have "evictOldest e ra = ra\<lparr>conns := AList.delete k (conns ra)\<rparr>"
    using f by (simp add: evictOldest_def older_def)
  moreover have "\<forall>(k', s')\<in>set (conns ra). lastSeen s \<le> lastSeen s'"
    using s(2) foldl_oldest [OF f] cs by blast
  ultimately show ?thesis using s(1) by blast
qed

lemma evictOldest_ok:
  assumes "env_ok e" and "table_ok ra" and "conns ra \<noteq> []"
  shows "table_ok (evictOldest e ra)" and "same_limits (evictOldest e ra) ra"
    and "length (conns (evictOldest e ra)) < length (conns ra)"
    and "set (conns (evictOldest e ra)) \<subseteq> set (conns ra)"
proof -
  obtain k s where k: "(k, s) \<in> set (conns ra)"
    and e: "evictOldest e ra = ra\<lparr>conns := AList.delete k (conns ra)\<rparr>"
    using evictOldest_oldest [OF assms] by blast
  show "table_ok (evictOldest e ra)" unfolding e by (rule table_ok_delete [OF assms(2)])
  show "same_limits (evictOldest e ra) ra" by (simp add: e same_limits_def)
  show "length (conns (evictOldest e ra)) < length (conns ra)"
    using k by (simp add: e length_delete_less)
  show "set (conns (evictOldest e ra)) \<subseteq> set (conns ra)" by (auto simp: e)
qed

lemma tryEmit_ok:
  assumes "tryEmit e now key s fin ra = Some (ra', ev, b)" and "table_ok ra"
  shows "table_ok ra' \<and> same_limits ra' ra"
  using assms table_ok_delete [OF assms(2), of key]
  by (auto simp: tryEmit_def Let_def bind_eq_Some_conv same_limits_def split: if_splits)

lemma add_segment_ok:
  assumes "env_ok e" and "stream_pair_ok (reqCap ra) (respCap ra) s"
    and "add_segment e isReq info ra s = Some s'"
  shows "stream_pair_ok (reqCap ra) (respCap ra) s'"
  using assms
  by (auto simp: add_segment_def env_ok_def stream_pair_ok_def set_endpoints_def Let_def
      bind_eq_Some_conv intro: appendSeg_ok split: if_splits)

lemma table_ok_update:
  assumes ok: "table_ok ra" and s: "stream_pair_ok (reqCap ra) (respCap ra) s"
    and room: "key \<in> fst ` set (conns ra) \<or> length (conns ra) < maxConn ra"
  shows "table_ok (ra\<lparr>conns := AList.update key s (conns ra)\<rparr>)"
proof -
  have len: "length (AList.update key s cs) = (if key \<in> fst ` set cs then length cs else Suc (length cs))"
    for cs :: "(connKey \<times> httpStream) list"
    by (induction cs) auto
  have "set (AList.update key s cs) \<subseteq> insert (key, s) (set cs)" for cs :: "(connKey \<times> httpStream) list"
    by (induction cs) auto
  moreover have "distinct (map fst (AList.update key s (conns ra)))"
    using ok by (simp add: table_ok_def distinct_update)
  moreover have "length (AList.update key s (conns ra)) \<le> maxConn ra"
    using ok room len [of "conns ra"] by (auto simp: table_ok_def)
  moreover have "\<forall>(k, s)\<in>insert (key, s) (set (conns ra)). stream_pair_ok (reqCap ra) (respCap ra) s"
    using ok s by (auto simp: table_ok_def)
  ultimately have "\<forall>(k, s)\<in>set (AList.update key s (conns ra)). stream_pair_ok (reqCap ra) (respCap ra) s"
    by blast
  with \<open>distinct (map fst (AList.update key s (conns ra)))\<close>
    \<open>length (AList.update key s (conns ra)) \<le> maxConn ra\<close>
  show ?thesis using ok by (simp add: table_ok_def)
qed

lemma feed_ok:
  assumes env: "env_ok e" and ok: "table_ok ra" and now: "now < 2 ^ 62 - 1"
    and f: "feed e now info ra = Some (ra', ev)"
  shows "table_ok ra' \<and> same_limits ra' ra"
proof -
  let ?key = "info_key info"
  let ?known = "map_of (conns ra) ?key"
  show ?thesis
  proof (cases "direction (ra_ports ra) ?known info")
    case None
    then show ?thesis using f ok by (simp add: feed_def Let_def)
  next
    case (Some isReq)
    define ra1 where
      "ra1 = (if ?known = None \<and> maxConn ra \<le> length (conns ra) then evictOldest e ra else ra)"
    define s where "s = (case ?known of None \<Rightarrow> new_stream | Some c \<Rightarrow> c)"
    have full: "conns ra \<noteq> []" if "maxConn ra \<le> length (conns ra)"
      using that ok by (auto simp: table_ok_def)
    have ok1: "table_ok ra1" and lim1: "same_limits ra1 ra"
      using ok evictOldest_ok [OF env ok full] by (auto simp: ra1_def)
    have "?key \<in> fst ` set (conns ra1) \<or> length (conns ra1) < maxConn ra1"
    proof (cases ?known)
      case None
      then show ?thesis
        using ok evictOldest_ok(2,3) [OF env ok full] by (auto simp: ra1_def table_ok_def same_limits_def)
    next
      case (Some c)
      then show ?thesis by (force simp: ra1_def dest: map_of_SomeD)
    qed
    note room = this
    have "stream_pair_ok (reqCap ra1) (respCap ra1) (s\<lparr>lastSeen := now\<rparr>)"
    proof (cases ?known)
      case None
      then show ?thesis using ok lim1 now
        by (simp add: s_def new_stream_def stream_pair_ok_def empty_stream_ok table_ok_def same_limits_def)
    next
      case (Some c)
      then have "stream_pair_ok (reqCap ra) (respCap ra) c"
        using ok by (auto simp: table_ok_def dest: map_of_SomeD)
      then show ?thesis using Some lim1 now by (simp add: s_def stream_pair_ok_def same_limits_def)
    qed
    moreover obtain s1 b where s1: "add_segment e isReq info ra1 (s\<lparr>lastSeen := now\<rparr>) = Some s1"
      and t: "tryEmit e now ?key s1 (fin_or_rst info)
          (ra1\<lparr>conns := AList.update ?key s1 (conns ra1)\<rparr>) = Some (ra', ev, b)"
      using f Some by (auto simp: feed_def Let_def ra1_def [symmetric] s_def [symmetric] bind_eq_Some_conv)
    ultimately have "stream_pair_ok (reqCap ra1) (respCap ra1) s1" using add_segment_ok [OF env] by blast
    from tryEmit_ok [OF t table_ok_update [OF ok1 this room]] lim1
    show ?thesis by (simp add: same_limits_def)
  qed
qed

lemma sweep_loop_ok:
  "table_ok ra \<Longrightarrow> sweep_loop e now idleSec cs ra = Some (ra', evs) \<Longrightarrow>
   table_ok ra' \<and> same_limits ra' ra"
proof (induction cs arbitrary: ra evs)
  case Nil
  then show ?case by simp
next
  case (Cons c cs)
  obtain k s where c: "c = (k, s)" by fastforce
  show ?case
  proof (cases "now - lastSeen s > idleSec")
    case False
    then show ?thesis using Cons c by simp
  next
    case True
    then obtain ra1 ev b evs2 where 1: "tryEmit e now k s True ra = Some (ra1, ev, b)"
      and 2: "sweep_loop e now idleSec cs (ra1\<lparr>conns := AList.delete k (conns ra1)\<rparr>) = Some (ra', evs2)"
      using Cons.prems(2) c by (auto simp: bind_eq_Some_conv)
    have ok1: "table_ok ra1" "same_limits ra1 ra" using tryEmit_ok [OF 1 Cons.prems(1)] by simp_all
    from Cons.IH [OF table_ok_delete [OF ok1(1), of k] 2] ok1(2) show ?thesis
      by (simp add: same_limits_def)
  qed
qed

text \<open>The bytes a table holds.\<close>

definition stream_bytes :: "dirStream \<Rightarrow> int" where
  "stream_bytes d = int (length (buf d)) + int (pending_bytes (pending d))"

definition table_bytes :: "reassembler \<Rightarrow> int" where
  "table_bytes ra = sum_list (map (\<lambda>(k, s). stream_bytes (hs_req s) + stream_bytes (hs_resp s)) (conns ra))"

lemma table_bytes_bound:
  assumes ok: "table_ok ra"
  shows "table_bytes ra \<le> int (maxConn ra) * (reqCap ra + respCap ra)"
proof -
  have each: "stream_bytes (hs_req s) + stream_bytes (hs_resp s) \<le> reqCap ra + respCap ra"
    if "(k, s) \<in> set (conns ra)" for k s
    using that ok by (fastforce simp: table_ok_def stream_pair_ok_def stream_ok_def stream_bytes_def)
  have "sum_list (map (\<lambda>(k, s). stream_bytes (hs_req s) + stream_bytes (hs_resp s)) cs)
      \<le> int (length cs) * (reqCap ra + respCap ra)" if "set cs \<subseteq> set (conns ra)" for cs
    using that by (induction cs) (auto simp: distrib_right add_mono each)
  from this [of "conns ra"] have "table_bytes ra \<le> int (length (conns ra)) * (reqCap ra + respCap ra)"
    by (simp add: table_bytes_def)
  also have "\<dots> \<le> int (maxConn ra) * (reqCap ra + respCap ra)"
    using ok by (intro mult_right_mono) (auto simp: table_ok_def)
  finally show ?thesis .
qed

section \<open>One exchange, end to end\<close>

definition dir_at :: "32 word \<Rightarrow> bytes \<Rightarrow> nat \<Rightarrow> dirStream" where
  "dir_at sq0 M k = \<lparr>haveBase = True, startSeq = sq0, nextSeq = sq_at sq0 k, buf = take k M,
     pending = [], pendingLen = 0, truncated = False\<rparr>"

lemma appendSeg_dir_at:
  assumes "p \<noteq> []" and "is_slice M k p" and "int (length M) \<le> capacity" and "length M < 2 ^ 31"
  shows "appendSeg ord capacity (sq_at sq0 k) p (dir_at sq0 M k) = Some (dir_at sq0 M (k + length p))"
proof -
  have k: "k + length p \<le> length M" and p: "p = take (length p) (drop k M)"
    using assms(2) by (simp_all add: is_slice_def)
  have "take (k + length p) M = take k M @ p" using p by (simp add: take_add)
  then have "appendContiguous capacity p (dir_at sq0 M k) = dir_at sq0 M (k + length p)"
    using k assms(3) by (simp add: appendContiguous_def dir_at_def stream_room_def Let_def sq_at_add)
  moreover have "appendSeg ord capacity (nextSeq (dir_at sq0 M k)) p (dir_at sq0 M k) =
      Some (appendContiguous capacity p (dir_at sq0 M k))"
    by (rule append_in_order [where n = k]) (use assms k in \<open>simp_all add: dir_at_def\<close>)
  ultimately show ?thesis by (simp add: dir_at_def)
qed

lemma appendSeg_first:
  "p \<noteq> [] \<Longrightarrow> appendSeg ord capacity sq p empty_stream = appendSeg ord capacity sq p (dir_at sq M 0)"
  by (simp add: appendSeg_def empty_stream_def dir_at_def sq_at_def)

text \<open>The packets of one direction: consecutive pieces of its bytes, without FIN or RST.\<close>

definition packet :: "string \<Rightarrow> 16 word \<Rightarrow> string \<Rightarrow> 16 word \<Rightarrow> 32 word \<Rightarrow> bytes \<Rightarrow> l4_info" where
  "packet sip sp dip dp sq p = \<lparr>proto = 6, srcIP = sip, dstIP = dip, srcPort = sp, dstPort = dp,
     seqNo = sq, tcpFlags = 0x18, payload = p\<rparr>"

fun packets ::
    "string \<Rightarrow> 16 word \<Rightarrow> string \<Rightarrow> 16 word \<Rightarrow> 32 word \<Rightarrow> nat \<Rightarrow> bytes list \<Rightarrow> l4_info list" where
  "packets sip sp dip dp sq0 k [] = []"
| "packets sip sp dip dp sq0 k (p # ps) =
     packet sip sp dip dp (sq_at sq0 k) p # packets sip sp dip dp sq0 (k + length p) ps"

fun feed_all ::
    "env \<Rightarrow> int \<Rightarrow> l4_info list \<Rightarrow> reassembler \<Rightarrow> (reassembler \<times> audit_event list) panics" where
  "feed_all e now [] ra = Some (ra, [])"
| "feed_all e now (i # infos) ra =
     do { (ra1, ev) \<leftarrow> feed e now i ra;
          (ra2, evs) \<leftarrow> feed_all e now infos ra1;
          Some (ra2, (case ev of None \<Rightarrow> evs | Some v \<Rightarrow> v # evs)) }"

lemma feed_all_append:
  "feed_all e now xs ra = Some (ra1, evs1) \<Longrightarrow> feed_all e now ys ra1 = Some (ra2, evs2) \<Longrightarrow>
   feed_all e now (xs @ ys) ra = Some (ra2, evs1 @ evs2)"
  by (induction xs arbitrary: ra evs1) (auto simp: bind_eq_Some_conv split: option.split)

definition exchange_stream ::
    "string \<Rightarrow> 16 word \<Rightarrow> string \<Rightarrow> 16 word \<Rightarrow> int \<Rightarrow> dirStream \<Rightarrow> dirStream \<Rightarrow> httpStream" where
  "exchange_stream cip cp sip sp now rq rs = \<lparr>hs_req = rq, hs_resp = rs, hs_srcIP = cip,
     hs_srcPort = cp, hs_dstIP = sip, hs_dstPort = sp, endpointsKnown = True, lastSeen = now\<rparr>"

lemma no_fin [simp]: "\<not> fin_or_rst (packet sip sp dip dp sq p)"
  by (simp add: fin_or_rst_def packet_def)

lemma parseRespComplete_short [simp]: "parseRespComplete cd [] = Some (no_resp, False)"
  by (subst parseRespComplete.simps) simp

lemma feed_request_packet:
  assumes room: "length (conns ra) < maxConn ra \<or> map_of (conns ra) key \<noteq> None"
    and key: "key = makeConnKey cip cp sip sp" and ne: "(cip, cp) \<noteq> (sip, sp)"
    and ports: "contentPortMatch (ra_ports ra) sp" "\<not> contentPortMatch (ra_ports ra) cp"
    and st: "map_of (conns ra) key = None \<and> rq = empty_stream \<and> rs = empty_stream \<or>
      map_of (conns ra) key = Some (exchange_stream cip cp sip sp now rq rs)"
    and app: "appendSeg (env_order e) (reqCap ra) sq p rq = Some rq'"
    and parse: "parseReqComplete (env_codecs e) (buf rq') = Some (rh, b)"
    and nob: "\<not> b \<or> rs = empty_stream"
  shows "feed e now (packet cip cp sip sp sq p) ra =
    Some (ra\<lparr>conns := AList.update key (exchange_stream cip cp sip sp now rq' rs) (conns ra)\<rparr>, None)"
proof -
  let ?info = "packet cip cp sip sp sq p"
  let ?s1 = "exchange_stream cip cp sip sp now rq' rs"
  have k: "info_key ?info = key" by (simp add: info_key_def packet_def key)
  have dir: "direction (ra_ports ra) (map_of (conns ra) key) ?info = Some True"
    using st ports by (auto simp: direction_def packet_def exchange_stream_def)
  have empty: "buf empty_stream = []" by (simp add: empty_stream_def)
  have emit: "tryEmit e now key ?s1 False ra2 = Some (ra2, None, False)" for ra2
    using parse nob empty by (auto simp: tryEmit_def exchange_stream_def)
  have add: "add_segment e True ?info ra ((case map_of (conns ra) key of None \<Rightarrow> new_stream | Some c \<Rightarrow> c)
      \<lparr>lastSeen := now\<rparr>) = Some ?s1"
    using st app by (auto simp: add_segment_def packet_def set_endpoints_def exchange_stream_def new_stream_def)
  have ev: "(if map_of (conns ra) key = None \<and> maxConn ra \<le> length (conns ra) then evictOldest e ra else ra) = ra"
    using room by auto
  show ?thesis using dir add emit by (simp add: feed_def Let_def k ev)
qed

lemma feed_response_packet:
  assumes key: "key = makeConnKey cip cp sip sp" and ne: "(cip, cp) \<noteq> (sip, sp)"
    and ports: "contentPortMatch (ra_ports ra) sp" "\<not> contentPortMatch (ra_ports ra) cp"
    and st: "map_of (conns ra) key = Some (exchange_stream cip cp sip sp now rq rs)"
    and app: "appendSeg (env_order e) (respCap ra) sq p rs = Some rs'"
    and req: "parseReqComplete (env_codecs e) (buf rq) = Some (rh, True)"
    and parse: "parseRespComplete (env_codecs e) (buf rs') = Some (sh, b)"
    and verb: "rq_verb rh \<noteq> []"
  shows "feed e now (packet sip sp cip cp sq p) ra =
    Some (if b then (ra\<lparr>conns := AList.delete key (conns ra)\<rparr>,
                 Some (event_of now (exchange_stream cip cp sip sp now rq rs') rh sh))
          else (ra\<lparr>conns := AList.update key (exchange_stream cip cp sip sp now rq rs') (conns ra)\<rparr>, None))"
proof -
  let ?info = "packet sip sp cip cp sq p"
  let ?s1 = "exchange_stream cip cp sip sp now rq rs'"
  have k: "info_key ?info = key" using makeConnKey_sym by (simp add: info_key_def packet_def key)
  have dir: "direction (ra_ports ra) (map_of (conns ra) key) ?info = Some False"
    using st ports ne by (auto simp: direction_def packet_def exchange_stream_def)
  have gone: "AList.delete key (AList.update key v cs) = AList.delete key cs" for v and cs :: "(connKey \<times> httpStream) list"
    by (induction cs) auto
  have emit: "tryEmit e now key ?s1 False ra2 =
      Some (if b then (ra2\<lparr>conns := AList.delete key (conns ra2)\<rparr>, Some (event_of now ?s1 rh sh), True)
            else (ra2, None, False))" for ra2
    using req parse verb by (simp add: tryEmit_def exchange_stream_def event_of_def Let_def)
  have add: "add_segment e False ?info ra ((exchange_stream cip cp sip sp now rq rs)\<lparr>lastSeen := now\<rparr>) = Some ?s1"
    using app by (simp add: add_segment_def packet_def exchange_stream_def)
  show ?thesis using dir add emit by (simp add: feed_def Let_def k st gone)
qed

lemma update_again:
  "AList.update k v (AList.update k w cs) = AList.update k v cs"
  by (induction cs) auto

lemma is_slice_pieces:
  "is_slice M k (p @ q) \<Longrightarrow> is_slice M k p \<and> is_slice M (k + length p) q"
  using is_slice_take [of M k "p @ q" "length p"] is_slice_drop [of M k "p @ q" "length p"] by simp

definition with_conn :: "connKey \<Rightarrow> httpStream \<Rightarrow> reassembler \<Rightarrow> reassembler" where
  "with_conn key s ra = ra\<lparr>conns := AList.update key s (conns ra)\<rparr>"

lemma with_conn_simps [simp]:
  "map_of (conns (with_conn key s ra)) key = Some s" "ra_ports (with_conn key s ra) = ra_ports ra"
  "reqCap (with_conn key s ra) = reqCap ra" "respCap (with_conn key s ra) = respCap ra"
  "with_conn key t (with_conn key s ra) = with_conn key t ra"
  by (simp_all add: with_conn_def update_conv' update_again)

lemma feed_requests:
  assumes key: "key = makeConnKey cip cp sip sp" and ne: "(cip, cp) \<noteq> (sip, sp)"
    and ports: "contentPortMatch (ra_ports ra) sp" "\<not> contentPortMatch (ra_ports ra) cp"
    and M: "M = message ls body" "request_head ls n" "length body = n"
    and cap: "int (length M) \<le> reqCap ra" "length M < 2 ^ 31"
  shows "\<lbrakk>\<forall>p\<in>set ps. p \<noteq> []; is_slice M k (concat ps)\<rbrakk> \<Longrightarrow>
    feed_all e now (packets cip cp sip sp sq0 k ps)
      (with_conn key (exchange_stream cip cp sip sp now (dir_at sq0 M k) empty_stream) ra) =
    Some (with_conn key (exchange_stream cip cp sip sp now (dir_at sq0 M (k + length (concat ps))) empty_stream) ra, [])"
proof (induction ps arbitrary: k)
  case Nil
  then show ?case by simp
next
  case (Cons p ps)
  let ?st = "\<lambda>k. exchange_stream cip cp sip sp now (dir_at sq0 M k) empty_stream"
  have p: "p \<noteq> []" "is_slice M k p" "is_slice M (k + length p) (concat ps)"
    using Cons.prems is_slice_pieces by auto
  obtain rh b where parse: "parseReqComplete (env_codecs e) (take (k + length p) M) = Some (rh, b)"
    using parseReqComplete_prefix [OF M(2,3), of "env_codecs e" "k + length p"] unfolding M(1) by fastforce
  have "feed e now (packet cip cp sip sp (sq_at sq0 k) p) (with_conn key (?st k) ra) =
      Some (with_conn key (?st k) ra\<lparr>conns := AList.update key (?st (k + length p)) (conns (with_conn key (?st k) ra))\<rparr>, None)"
    by (rule feed_request_packet [where rh = rh and b = b and rq = "dir_at sq0 M k" and rs = empty_stream])
      (use key ne ports cap parse appendSeg_dir_at [OF p(1,2)] in \<open>simp_all add: dir_at_def\<close>)
  then have "feed e now (packet cip cp sip sp (sq_at sq0 k) p) (with_conn key (?st k) ra) =
      Some (with_conn key (?st (k + length p)) ra, None)"
    by (simp add: with_conn_def update_again)
  then show ?case using Cons.IH [OF _ p(3)] Cons.prems by (simp add: add.assoc)
qed

lemma feed_responses:
  assumes key: "key = makeConnKey cip cp sip sp" and ne: "(cip, cp) \<noteq> (sip, sp)"
    and ports: "contentPortMatch (ra_ports ra) sp" "\<not> contentPortMatch (ra_ports ra) cp"
    and M: "M = message ls body" "response_head ls n" "length body = n"
    and cap: "int (length M) \<le> respCap ra" "length M < 2 ^ 31"
    and req: "parseReqComplete (env_codecs e) (buf rq) = Some (rh, True)" "rq_verb rh \<noteq> []"
    and rs: "rs 0 = empty_stream"
      "\<And>k. 0 < k \<Longrightarrow> rs k = dir_at sq0 M k"
  shows "\<lbrakk>\<forall>p\<in>set ps. p \<noteq> []; ps \<noteq> []; is_slice M k (concat ps); k + length (concat ps) = length M\<rbrakk> \<Longrightarrow>
    feed_all e now (packets sip sp cip cp sq0 k ps)
      (with_conn key (exchange_stream cip cp sip sp now rq (rs k)) ra) =
    Some (ra\<lparr>conns := AList.delete key (conns ra)\<rparr>,
      [event_of now (exchange_stream cip cp sip sp now rq (dir_at sq0 M (length M))) rh
        (response_of (env_codecs e) ls body)])"
proof (induction ps arbitrary: k)
  case Nil
  then show ?case by simp
next
  case (Cons p ps)
  let ?st = "\<lambda>d. exchange_stream cip cp sip sp now rq d"
  have p: "p \<noteq> []" "is_slice M k p" "is_slice M (k + length p) (concat ps)"
    using Cons.prems is_slice_pieces by auto
  obtain sh b where parse: "parseRespComplete (env_codecs e) (take (k + length p) M) = Some (sh, b)"
    and b: "b = (length M \<le> k + length p)"
    using parseRespComplete_prefix [OF M(2,3), of "env_codecs e" "k + length p"]
    unfolding M(1) by (fastforce simp: length_message M(3))
  have app: "appendSeg (env_order e) (respCap ra) (sq_at sq0 k) p (rs k) = Some (dir_at sq0 M (k + length p))"
  proof (cases "k = 0")
    case True
    then show ?thesis using rs(1) appendSeg_first [OF p(1), of "env_order e" "respCap ra" sq0 M]
        appendSeg_dir_at [OF p(1,2) cap, of "env_order e" sq0] by (auto simp: sq_at_def)
  next
    case False
    then show ?thesis using rs(2) appendSeg_dir_at [OF p(1,2) cap] by simp
  qed
  have step: "feed e now (packet sip sp cip cp (sq_at sq0 k) p) (with_conn key (?st (rs k)) ra) =
      Some (if b then ((with_conn key (?st (rs k)) ra)\<lparr>conns := AList.delete key (conns (with_conn key (?st (rs k)) ra))\<rparr>,
          Some (event_of now (?st (dir_at sq0 M (k + length p))) rh sh))
        else ((with_conn key (?st (rs k)) ra)\<lparr>conns := AList.update key (?st (dir_at sq0 M (k + length p)))
            (conns (with_conn key (?st (rs k)) ra))\<rparr>, None))"
    by (rule feed_response_packet)
      (use key ne ports req parse app in \<open>simp_all add: dir_at_def\<close>)
  have gone: "AList.delete key (AList.update key v cs) = AList.delete key cs" for v and cs :: "(connKey \<times> httpStream) list"
    by (induction cs) auto
  show ?case
  proof (cases "ps = []")
    case True
    then have full: "k + length p = length M" using Cons.prems(4) by simp
    then have "sh = response_of (env_codecs e) ls body"
      using parse parseRespComplete_sized [OF M(2), of "env_codecs e" body] M(1,3) by (simp split: if_splits)
    then show ?thesis using step b full True by (simp add: with_conn_def gone)
  next
    case False
    then obtain q qs where "ps = q # qs" "q \<noteq> []" using Cons.prems(1) by (cases ps) auto
    then have "length (concat ps) > 0" by simp
    moreover have "k + length p + length (concat ps) = length M" using Cons.prems(4) by simp
    ultimately have "\<not> length M \<le> k + length p" by linarith
    then have "\<not> b" using b by simp
    then have "feed e now (packet sip sp cip cp (sq_at sq0 k) p) (with_conn key (?st (rs k)) ra) =
        Some (with_conn key (?st (rs (k + length p))) ra, None)"
      using step rs(2) [of "k + length p"] p(1) by (simp add: with_conn_def update_again)
    then show ?thesis using Cons.IH [OF _ False p(3)] Cons.prems by (simp add: add.assoc)
  qed
qed

lemma request_of_verb:
  assumes "request_head ls n"
  shows "rq_verb (request_of cd ls body) \<noteq> []"
proof -
  have "x \<noteq> []" if "x \<in> set (fields_acc cur t)" for x cur t
    using that by (induction t arbitrary: cur) (auto split: if_splits)
  moreover have "0 < length (str_fields (hd ls))" using assms by (auto simp: request_head_def)
  ultimately have "str_fields (hd ls) ! 0 \<noteq> []" unfolding str_fields_def by (meson nth_mem)
  then show ?thesis by (simp add: request_of_def Let_def)
qed

lemma exchange_emits:
  assumes ne: "(cip, cp) \<noteq> (sip, sp)"
    and ports: "contentPortMatch (ra_ports ra) sp" "\<not> contentPortMatch (ra_ports ra) cp"
    and fresh: "makeConnKey cip cp sip sp \<notin> fst ` set (conns ra)" "length (conns ra) < maxConn ra"
    and rq: "request_head rls n" "length rbody = n" "concat rps = message rls rbody" "\<forall>p\<in>set rps. p \<noteq> []"
      "int (length (message rls rbody)) \<le> reqCap ra" "length (message rls rbody) < 2 ^ 31"
    and rs: "response_head sls m" "length sbody = m" "concat sps = message sls sbody" "\<forall>p\<in>set sps. p \<noteq> []"
      "int (length (message sls sbody)) \<le> respCap ra" "length (message sls sbody) < 2 ^ 31"
  shows "feed_all e now (packets cip cp sip sp sq0 0 rps @ packets sip sp cip cp sq1 0 sps) ra =
    Some (ra, [event_of now (exchange_stream cip cp sip sp now
        (dir_at sq0 (message rls rbody) (length (message rls rbody)))
        (dir_at sq1 (message sls sbody) (length (message sls sbody))))
      (request_of (env_codecs e) rls rbody) (response_of (env_codecs e) sls sbody)])"
proof -
  define key where "key = makeConnKey cip cp sip sp"
  let ?M = "message rls rbody" and ?N = "message sls sbody"
  let ?st = "\<lambda>k. exchange_stream cip cp sip sp now (dir_at sq0 ?M k) empty_stream"
  have whole: "is_slice M 0 (concat ps)" if "concat ps = M" for M and ps :: "bytes list"
    using that by (simp add: is_slice_def)
  have "length ?M > 0" "length ?N > 0" by (simp_all add: length_message head_length_def)
  then obtain p ps where rps: "rps = p # ps" using rq(3) by (cases rps) auto
  have sne: "sps \<noteq> []" using rs(3) \<open>length ?N > 0\<close> by (cases sps) auto
  have p: "p \<noteq> []" "is_slice ?M 0 p" "is_slice ?M (length p) (concat ps)"
    using rq(3,4) rps is_slice_pieces [of ?M 0 p "concat ps"] whole [OF rq(3)] by auto
  obtain rh b where parse: "parseReqComplete (env_codecs e) (take (length p) ?M) = Some (rh, b)"
    using parseReqComplete_prefix [OF rq(1,2), of "env_codecs e" "length p"] by fastforce
  have nokey: "map_of (conns ra) key = None" using fresh(1) by (simp add: key_def map_of_eq_None_iff)
  have "appendSeg (env_order e) (reqCap ra) sq0 p empty_stream = Some (dir_at sq0 ?M (length p))"
    using appendSeg_first [OF p(1), of "env_order e" "reqCap ra" sq0 ?M]
      appendSeg_dir_at [OF p(1,2) rq(5,6), of "env_order e" sq0] by (simp add: sq_at_def)
  then have first: "feed e now (packet cip cp sip sp sq0 p) ra = Some (with_conn key (?st (length p)) ra, None)"
    unfolding with_conn_def
    by (intro feed_request_packet [where rh = rh and b = b and rq = empty_stream])
      (use key_def ne ports fresh(2) nokey parse in \<open>simp_all add: dir_at_def\<close>)
  have "feed_all e now (packets cip cp sip sp sq0 (length p) ps) (with_conn key (?st (length p)) ra) =
      Some (with_conn key (?st (length p + length (concat ps))) ra, [])"
    by (rule feed_requests [OF key_def ne ports refl rq(1,2,5,6) _ p(3)]) (use rq(4) rps in simp)
  moreover have "length p + length (concat ps) = length ?M" using rq(3) rps by (simp flip: rq(3))
  ultimately have reqs: "feed_all e now (packets cip cp sip sp sq0 0 rps) ra =
      Some (with_conn key (?st (length ?M)) ra, [])"
    using first by (simp add: rps sq_at_def)
  have rbuf: "parseReqComplete (env_codecs e) (buf (dir_at sq0 ?M (length ?M))) =
      Some (request_of (env_codecs e) rls rbody, True)"
    using parseReqComplete_sized [OF rq(1), of "env_codecs e" rbody] rq(2) by (simp add: dir_at_def)
  have "feed_all e now (packets sip sp cip cp sq1 0 sps)
      (with_conn key (exchange_stream cip cp sip sp now (dir_at sq0 ?M (length ?M))
        (if (0::nat) = 0 then empty_stream else dir_at sq1 ?N 0)) ra) =
    Some (ra\<lparr>conns := AList.delete key (conns ra)\<rparr>,
      [event_of now (exchange_stream cip cp sip sp now (dir_at sq0 ?M (length ?M)) (dir_at sq1 ?N (length ?N)))
        (request_of (env_codecs e) rls rbody) (response_of (env_codecs e) sls sbody)])"
    by (rule feed_responses [OF key_def ne ports refl rs(1,2,5,6) rbuf request_of_verb [OF rq(1)],
          where rs = "\<lambda>k. if k = 0 then empty_stream else dir_at sq1 ?N k"])
      (use rs(3,4) sne whole [OF rs(3)] in simp_all)
  moreover have "AList.delete key (conns ra) = conns ra" using fresh(1) by (simp add: key_def delete_id)
  ultimately show ?thesis using feed_all_append [OF reqs] by simp
qed

section \<open>Runs of a worker\<close>

text \<open>
  Each operation of a run brings its own map orders; \<open>some_order\<close> reads an arbitrary function as a
  permutation, so every order Go may pick is covered and none that is not a permutation. The clock
  is a 61-bit word of seconds, below the sentinel of \<open>evictOldest\<close>. After a panic the run is \<open>None\<close>.
\<close>

definition some_order :: "('a list \<Rightarrow> 'a list) \<Rightarrow> 'a list \<Rightarrow> 'a list" where
  "some_order f xs = (if mset (f xs) = mset xs then f xs else xs)"

definition ordered_env :: "env \<Rightarrow> env" where
  "ordered_env e = e\<lparr>env_order := some_order (env_order e), env_conns := some_order (env_conns e)\<rparr>"

lemma set_some_order: "set (some_order f xs) = set xs"
  by (auto simp: some_order_def dest: mset_eq_setD)

lemma distinct_some_order: "distinct (map g (some_order f xs)) = distinct (map g xs)"
  by (simp add: some_order_def) (metis mset_eq_imp_distinct_iff mset_map)

lemma ordered_env_ok: "env_ok (ordered_env e)"
  by (simp add: env_ok_def ordered_env_def map_order_ok_def set_some_order distinct_some_order)

datatype worker_op = Packet env "61 word" l4_info | Sweep env "61 word" int

definition worker_step :: "reassembler option \<Rightarrow> worker_op \<Rightarrow> reassembler option" where
  "worker_step st opn =
     (case st of None \<Rightarrow> None
      | Some ra \<Rightarrow>
          (case opn of
             Packet e now info \<Rightarrow> map_option fst (feed (ordered_env e) (uint now) info ra)
           | Sweep e now idleSec \<Rightarrow> map_option fst (sweepIdle (ordered_env e) (uint now) idleSec ra)))"

definition worker_inv :: "reassembler \<Rightarrow> reassembler option \<Rightarrow> bool" where
  "worker_inv ra0 st \<longleftrightarrow> (case st of None \<Rightarrow> True | Some ra \<Rightarrow> table_ok ra \<and> same_limits ra ra0)"

lemma worker_inv_next:
  assumes "same_limits ra ra0"
    and "\<And>ra' x. r = Some (ra', x) \<Longrightarrow> table_ok ra' \<and> same_limits ra' ra"
  shows "worker_inv ra0 (map_option fst r)"
  using assms(2) same_limits_trans [OF _ assms(1)] by (cases r) (auto simp: worker_inv_def)

lemma worker_step_inv: "worker_inv ra0 st \<Longrightarrow> worker_inv ra0 (worker_step st opn)"
proof (cases st)
  case (Some ra)
  assume "worker_inv ra0 st"
  then have ok: "table_ok ra" and lim: "same_limits ra ra0" using Some by (simp_all add: worker_inv_def)
  have now: "uint (t :: 61 word) < 2 ^ 62 - 1" for t
    using unsigned_less [of t, where 'a = int] by simp
  show ?thesis
  proof (cases opn)
    case (Packet e t info)
    have "worker_inv ra0 (map_option fst (feed (ordered_env e) (uint t) info ra))"
      by (rule worker_inv_next [OF lim feed_ok [OF ordered_env_ok ok now]])
    then show ?thesis using Some Packet by (simp add: worker_step_def)
  next
    case (Sweep e t idleSec)
    have "worker_inv ra0 (map_option fst (sweepIdle (ordered_env e) (uint t) idleSec ra))"
      unfolding sweepIdle_def by (rule worker_inv_next [OF lim sweep_loop_ok [OF ok]])
    then show ?thesis using Some Sweep by (simp add: worker_step_def)
  qed
qed (simp add: worker_inv_def worker_step_def)

lemma newReassembler_ok: "table_ok (newReassembler maxBody ports)"
  by (simp add: table_ok_def newReassembler_def Let_def)

interpretation worker: guarded_machine "Some (newReassembler maxBody ports)" worker_step
    "worker_inv (newReassembler maxBody ports)" for maxBody ports
proof unfold_locales
  show "worker_inv (newReassembler maxBody ports) (Some (newReassembler maxBody ports))"
    by (simp add: worker_inv_def newReassembler_ok)
qed (rule worker_step_inv)

section \<open>Properties\<close>

text \<open>C1. A plain exchange, end to end: on a connection not yet in a table that has room, the packets of a request
  with a Content-Length, cut anywhere and in order, and then those of a response with a Content-Length, neither
  larger than its limit, give exactly one event. It holds the addresses, the request line, the host, both content
  types, the status and both decoded bodies, neither is marked truncated, and the connection is forgotten.\<close>

theorem exchange_reported_once:
  assumes "(cip, cp) \<noteq> (sip, sp)"
    and "contentPortMatch (ra_ports ra) sp" and "\<not> contentPortMatch (ra_ports ra) cp"
    and "makeConnKey cip cp sip sp \<notin> fst ` set (conns ra)" and "length (conns ra) < maxConn ra"
    and "request_head rls n" and "length rbody = n" and "concat rps = message rls rbody" and "[] \<notin> set rps"
    and "int (length (message rls rbody)) \<le> reqCap ra" and "length (message rls rbody) < 2 ^ 31"
    and "response_head sls m" and "length sbody = m" and "concat sps = message sls sbody" and "[] \<notin> set sps"
    and "int (length (message sls sbody)) \<le> respCap ra" and "length (message sls sbody) < 2 ^ 31"
  shows "feed_all e now (packets cip cp sip sp sq0 0 rps @ packets sip sp cip cp sq1 0 sps) ra =
    Some (ra, [\<lparr>ev_srcIP = cip, ev_dstIP = sip, ev_dstPort = sp,
      ev_verb = str_fields (hd rls) ! 0, ev_host = headerVal (tl rls) ''Host'', ev_path = str_fields (hd rls) ! 1,
      ev_ctype = headerVal (tl rls) ''Content-Type'',
      ev_body = body_text (decodeContentEncoding (env_codecs e) rbody (headerVal (tl rls) ''Content-Encoding'')),
      ev_status = status_of (hd sls), ev_respCtype = headerVal (tl sls) ''Content-Type'',
      ev_respBody = body_text (decodeContentEncoding (env_codecs e) sbody (headerVal (tl sls) ''Content-Encoding'')),
      ev_reqTruncated = False, ev_respTruncated = False, ev_ts = now\<rparr>])"
proof -
  have "\<forall>p\<in>set rps. p \<noteq> []" and "\<forall>p\<in>set sps. p \<noteq> []" using assms(9,15) by auto
  from exchange_emits [OF assms(1-5) assms(6-8) this(1) assms(10-14) this(2) assms(16,17), of e now sq0 sq1]
  show ?thesis
    by (simp add: event_of_def exchange_stream_def request_of_def response_of_def dir_at_def Let_def)
qed

definition demo_response :: "string list" where
  "demo_response = [''HTTP/1.1 200 OK'', ''Content-Length: 1'']"

definition plain_env :: env where
  "plain_env = \<lparr>env_order = id, env_conns = id, env_codecs = no_codecs\<rparr>"

lemma demo_response_head: "response_head demo_response 1"
  by (simp add: text_eval response_head_def sized_head_def head_lines_def demo_response_def
      parseContentLength_def status_of_def atoi_value_def)

text \<open>The two messages of the witness, cut in two places.\<close>

definition demo_pieces :: "string list \<Rightarrow> bytes \<Rightarrow> bytes list" where
  "demo_pieces ls body = [take 20 (message ls body), drop 20 (message ls body)]"

lemma demo_lengths:
  "length (message demo_request [0x68, 0x69]) = 52" "length (message demo_response [0x21]) = 39"
  by (simp_all add: message_def demo_request_def demo_response_def crlf_def crlfcrlf_def)

lemma demo_pieces_ok:
  "concat (demo_pieces ls body) = message ls body"
  "20 < length (message ls body) \<Longrightarrow> [] \<notin> set (demo_pieces ls body)"
  by (auto simp: demo_pieces_def)

theorem exchange_reported_once_witness:
  "feed_all plain_env 100
      (packets ''10.0.0.1'' 40000 ''10.0.0.2'' 8080 5 0 (demo_pieces demo_request [0x68, 0x69]) @
       packets ''10.0.0.2'' 8080 ''10.0.0.1'' 40000 9 0 (demo_pieces demo_response [0x21]))
      (newReassembler 0 [8080]) =
    Some (newReassembler 0 [8080], [\<lparr>ev_srcIP = ''10.0.0.1'', ev_dstIP = ''10.0.0.2'', ev_dstPort = 8080,
      ev_verb = str_fields (hd demo_request) ! 0, ev_host = headerVal (tl demo_request) ''Host'',
      ev_path = str_fields (hd demo_request) ! 1, ev_ctype = headerVal (tl demo_request) ''Content-Type'',
      ev_body = body_text (decodeContentEncoding no_codecs [0x68, 0x69] (headerVal (tl demo_request) ''Content-Encoding'')),
      ev_status = status_of (hd demo_response), ev_respCtype = headerVal (tl demo_response) ''Content-Type'',
      ev_respBody = body_text (decodeContentEncoding no_codecs [0x21] (headerVal (tl demo_response) ''Content-Encoding'')),
      ev_reqTruncated = False, ev_respTruncated = False, ev_ts = 100\<rparr>])"
  using exchange_reported_once [of "''10.0.0.1''" 40000 "''10.0.0.2''" 8080 "newReassembler 0 [8080]"
      demo_request 2 "[0x68, 0x69]" "demo_pieces demo_request [0x68, 0x69]"
      demo_response 1 "[0x21]" "demo_pieces demo_response [0x21]" plain_env 100 5 9]
    demo_request_head demo_response_head demo_lengths demo_pieces_ok
  by (simp add: contentPortMatch_def newReassembler_def plain_env_def)


end
