(* ===== verification/OpsLink.thy ===== *)
theory OpsLink
  imports Utf8
begin

text \<open>
  The typed cross references between incidents, changes, tickets and hosts
  (\<open>cmd/server/ops_link.go\<close>) and the attachments of a comment (\<open>cmd/server/attachment.go\<close>).

  The map \<open>seen\<close> of \<open>mergeOpsLinks\<close> is the list of its keys. The locale \<open>unique_append\<close> is the
  contract of every routine that appends an element unless its key is there; the merge of links
  and the two \<open>appendUnique\<close> helpers of \<open>change.go\<close> are its interpretations.
\<close>

section \<open>Attachments\<close>

record attachment =
  at_name :: string
  at_mime :: string
  at_kind :: string
  at_data :: string
  at_text :: string

definition maxAttachmentsPerComment :: nat where
  "maxAttachmentsPerComment = 6"

definition maxAttachImageBytes :: nat where
  "maxAttachImageBytes = 2 * 1024 * 1024"

definition maxAttachTextRunes :: nat where
  "maxAttachTextRunes = 100000"

definition ellipsis :: string where
  "ellipsis = utf8_text [0xE2, 0x80, 0xA6]"

definition trim_attachment :: "attachment \<Rightarrow> attachment" where
  "trim_attachment a =
     (let k = to_lower (trim_space (at_kind a)); d = trim_space (at_data a)
      in \<lparr>at_name = trim_space (at_name a), at_mime = trim_space (at_mime a),
          at_kind = (if k \<noteq> ''image'' \<and> k \<noteq> ''file'' then (if d \<noteq> [] then ''image'' else ''file'') else k),
          at_data = d, at_text = trim_space (at_text a)\<rparr>)"

text \<open>One pass of the loop after the trimming: the entry that is kept, if any.\<close>

definition clean_attachment :: "attachment \<Rightarrow> attachment option" where
  "clean_attachment a0 =
     (let a = trim_attachment a0 in
      if at_kind a = ''image'' then
        (if at_data a = [] then None
         else Some (a\<lparr>at_data := (if maxAttachImageBytes < length (at_data a)
                                 then take maxAttachImageBytes (at_data a) else at_data a),
                      at_name := (if at_name a = [] then ''image'' else at_name a),
                      at_text := []\<rparr>))
      else
        (if at_text a = [] then None
         else Some (a\<lparr>at_text := (if maxAttachTextRunes < rune_count (at_text a)
                                 then take_runes maxAttachTextRunes (at_text a) @ ellipsis
                                 else at_text a),
                      at_data := [],
                      at_name := (if at_name a = [] then ''file.txt'' else at_name a)\<rparr>)))"

fun sanitize_loop :: "attachment list \<Rightarrow> attachment list \<Rightarrow> attachment list" where
  "sanitize_loop out [] = out"
| "sanitize_loop out (a # as) =
     (if maxAttachmentsPerComment \<le> length out then out
      else case clean_attachment a of
             None \<Rightarrow> sanitize_loop out as
           | Some b \<Rightarrow> sanitize_loop (out @ [b]) as)"

definition sanitizeAttachments :: "attachment list \<Rightarrow> attachment list" where
  "sanitizeAttachments ats = sanitize_loop [] ats"

section \<open>Links\<close>

record ops_link =
  ol_type :: string
  ol_id :: string
  ol_role :: string
  ol_name :: string

definition linkTypes :: "string list" where
  "linkTypes = [''incident'', ''ticket'', ''change'', ''host'', ''slo'', ''sql_change'', ''datasource'',
     ''k8s'', ''service'', ''alert'']"

definition normalizeOpsLink :: "ops_link \<Rightarrow> ops_link option" where
  "normalizeOpsLink l =
     (let t = to_lower (trim_space (ol_type l)); i = trim_space (ol_id l);
          r = to_lower (trim_space (ol_role l)); n = trim_space (ol_name l)
      in if t \<notin> set linkTypes then None
         else if i = [] then None
         else Some \<lparr>ol_type = t, ol_id = i, ol_role = (if r = [] then ''related'' else r), ol_name = n\<rparr>)"

definition link_key :: "ops_link \<Rightarrow> string" where
  "link_key l = ol_type l @ '':'' @ ol_id l @ '':'' @ ol_role l"

fun merge_loop :: "ops_link list \<Rightarrow> string list \<Rightarrow> ops_link list \<Rightarrow> ops_link list" where
  "merge_loop out seen [] = out"
| "merge_loop out seen (raw # add) =
     (case normalizeOpsLink raw of
        None \<Rightarrow> merge_loop out seen add
      | Some l \<Rightarrow>
          if link_key l \<in> set seen then merge_loop out seen add
          else merge_loop (out @ [l]) (link_key l # seen) add)"

definition mergeOpsLinks :: "ops_link list \<Rightarrow> ops_link list \<Rightarrow> ops_link list" where
  "mergeOpsLinks existing add = merge_loop existing (map link_key existing) add"

definition removeOpsLink :: "ops_link list \<Rightarrow> string \<Rightarrow> string \<Rightarrow> string \<Rightarrow> ops_link list" where
  "removeOpsLink existing typ0 id0 role0 =
     (let typ = to_lower (trim_space typ0); i = trim_space id0; role = to_lower (trim_space role0)
      in filter (\<lambda>l. \<not> (ol_type l = typ \<and> ol_id l = i \<and> (role = [] \<or> ol_role l = role))) existing)"

definition opsLinkIDInt :: "int \<Rightarrow> string" where
  "opsLinkIDInt i = (if i \<le> 0 then [] else show_int i)"

text \<open>\<open>strconv.ParseInt\<close> with its error ignored: 0 for bad syntax, the bound out of range.\<close>

definition parseOpsLinkInt :: "string \<Rightarrow> int" where
  "parseOpsLinkInt s = atoi_value (trim_space s)"

definition firstNonEmptyOrDash :: "string list \<Rightarrow> string" where
  "firstNonEmptyOrDash ss = (case find (\<lambda>s. trim_space s \<noteq> []) ss of None \<Rightarrow> ''-'' | Some s \<Rightarrow> s)"

definition hostOpsLink :: "string \<Rightarrow> string \<Rightarrow> ops_link" where
  "hostOpsLink hostID hostname =
     \<lparr>ol_type = ''host'', ol_id = hostID, ol_role = ''affects'',
      ol_name = firstNonEmptyOrDash [hostname, hostID]\<rparr>"

definition incidentOpsLink :: "int \<Rightarrow> string \<Rightarrow> ops_link" where
  "incidentOpsLink i role =
     \<lparr>ol_type = ''incident'', ol_id = opsLinkIDInt i, ol_role = (if role = [] then ''related'' else role),
      ol_name = []\<rparr>"

definition sloOpsLink :: "string \<Rightarrow> ops_link" where
  "sloOpsLink i = \<lparr>ol_type = ''slo'', ol_id = i, ol_role = ''caused_by'', ol_name = []\<rparr>"

definition sqlChangeOpsLink :: "string \<Rightarrow> ops_link" where
  "sqlChangeOpsLink i = \<lparr>ol_type = ''sql_change'', ol_id = i, ol_role = ''implements'', ol_name = []\<rparr>"

definition changeOpsLink :: "int \<Rightarrow> ops_link" where
  "changeOpsLink i = \<lparr>ol_type = ''change'', ol_id = opsLinkIDInt i, ol_role = ''related'', ol_name = []\<rparr>"

definition ticketOpsLink :: "int \<Rightarrow> ops_link" where
  "ticketOpsLink i = \<lparr>ol_type = ''ticket'', ol_id = opsLinkIDInt i, ol_role = ''related'', ol_name = []\<rparr>"

definition link_label :: "ops_link \<Rightarrow> string" where
  "link_label l = ol_type l @ '':'' @ ol_id l @ (if ol_name l \<noteq> [] then ''('' @ ol_name l @ '')'' else [])"

definition formatOpsLinksHint :: "ops_link list \<Rightarrow> string" where
  "formatOpsLinksHint links =
     (if links = [] then []
      else join '', '' (map link_label (take 8 links) @
        (if 8 < length links then [ellipsis @ ''+'' @ show_nat (length links - 8)] else [])))"

definition appendUniqueInt64 :: "int list \<Rightarrow> int \<Rightarrow> int list" where
  "appendUniqueInt64 xs v = (if v \<in> set xs then xs else xs @ [v])"

definition appendUniqueString :: "string list \<Rightarrow> string \<Rightarrow> string list" where
  "appendUniqueString xs v0 =
     (let v = trim_space v0 in if v = [] then xs else if v \<in> set xs then xs else xs @ [v])"

section \<open>Appending what is not there\<close>

locale unique_append =
  fixes add :: "'s \<Rightarrow> 'e \<Rightarrow> 's" and contents :: "'s \<Rightarrow> 'k set" and key :: "'e \<Rightarrow> 'k option"
  assumes contents_add: "contents (add s e) = contents s \<union> set_option (key e)"
    and add_present: "set_option (key e) \<subseteq> contents s \<Longrightarrow> add s e = s"
begin

lemma contents_foldl: "contents (foldl add s es) = contents s \<union> \<Union> (set_option ` key ` set es)"
  by (induction es arbitrary: s) (auto simp: contents_add)

lemma foldl_present:
  "\<Union> (set_option ` key ` set es) \<subseteq> contents s \<Longrightarrow> foldl add s es = s"
  by (induction es arbitrary: s) (auto simp: add_present)

lemma foldl_idem: "foldl add (foldl add s es) es = foldl add s es"
  by (rule foldl_present) (simp add: contents_foldl)

end

definition merge_one :: "ops_link list \<Rightarrow> ops_link \<Rightarrow> ops_link list" where
  "merge_one ls l = mergeOpsLinks ls [l]"

definition norm_key :: "ops_link \<Rightarrow> string option" where
  "norm_key l = map_option link_key (normalizeOpsLink l)"

lemma merge_one_eq:
  "merge_one ls raw =
     (case normalizeOpsLink raw of
        None \<Rightarrow> ls | Some l \<Rightarrow> if link_key l \<in> link_key ` set ls then ls else ls @ [l])"
  by (simp add: merge_one_def mergeOpsLinks_def split: option.split)

lemma merge_loop_set:
  "set s1 = set s2 \<Longrightarrow> merge_loop out s1 add = merge_loop out s2 add"
proof (induction add arbitrary: out s1 s2)
  case Nil
  then show ?case by simp
next
  case (Cons raw add)
  show ?case
  proof (cases "normalizeOpsLink raw")
    case None
    then show ?thesis using Cons.IH [OF Cons.prems] by simp
  next
    case (Some l)
    have "set (link_key l # s1) = set (link_key l # s2)" using Cons.prems by simp
    from Cons.IH [OF this] Cons.IH [OF Cons.prems] show ?thesis
      using Some by (simp add: Cons.prems)
  qed
qed

lemma mergeOpsLinks_foldl: "mergeOpsLinks ls add = foldl merge_one ls add"
proof (induction add arbitrary: ls)
  case Nil
  then show ?case by (simp add: mergeOpsLinks_def)
next
  case (Cons raw add)
  have "mergeOpsLinks ls (raw # add) = mergeOpsLinks (merge_one ls raw) add"
    unfolding mergeOpsLinks_def merge_one_eq
    by (auto split: option.split intro: merge_loop_set)
  then show ?case using Cons.IH by simp
qed

interpretation links: unique_append merge_one "\<lambda>ls. link_key ` set ls" norm_key
  by unfold_locales (auto simp: merge_one_eq norm_key_def split: option.splits)

interpretation ids: unique_append appendUniqueInt64 set Some
  by unfold_locales (auto simp: appendUniqueInt64_def)

definition string_key :: "string \<Rightarrow> string option" where
  "string_key v = (if trim_space v = [] then None else Some (trim_space v))"

interpretation names: unique_append appendUniqueString set string_key
  by unfold_locales (auto simp: appendUniqueString_def string_key_def Let_def)

lemma mergeOpsLinks_keys:
  "link_key ` set (mergeOpsLinks ls add) = link_key ` set ls \<union> \<Union> (set_option ` norm_key ` set add)"
  unfolding mergeOpsLinks_foldl by (rule links.contents_foldl)

lemma mergeOpsLinks_idem: "mergeOpsLinks (mergeOpsLinks ls add) add = mergeOpsLinks ls add"
  unfolding mergeOpsLinks_foldl by (rule links.foldl_idem)

lemma mergeOpsLinks_present:
  "\<Union> (set_option ` norm_key ` set add) \<subseteq> link_key ` set ls \<Longrightarrow> mergeOpsLinks ls add = ls"
  unfolding mergeOpsLinks_foldl by (rule links.foldl_present)

lemma mergeOpsLinks_prefix: "\<exists>more. mergeOpsLinks ls add = ls @ more"
proof (induction add arbitrary: ls)
  case Nil
  then show ?case by (simp add: mergeOpsLinks_def)
next
  case (Cons raw add)
  have "\<exists>m. merge_one ls raw = ls @ m" by (auto simp: merge_one_eq split: option.split)
  then obtain m where m: "merge_one ls raw = ls @ m" by blast
  obtain k where "mergeOpsLinks (ls @ m) add = (ls @ m) @ k" using Cons.IH by blast
  then show ?case using m by (simp add: mergeOpsLinks_foldl)
qed

end
