(* ===== verification/Incident.thy ===== *)
theory Incident
  imports OpsLink Transition
begin

text \<open>
  The incident manager (\<open>cmd/server/incident.go\<close>): the list of incidents in the order they were
  raised, the counter of ids and the index \<open>openByKey\<close> from a deduplication key to the open
  incident. Every method but \<open>CreateManual\<close> takes the mutex for its whole body, once; the callback \<open>onChange\<close>, called after
  the unlock, is the value an operation returns. The clock is the argument \<open>now\<close>.
\<close>

section \<open>Data\<close>

record citation =
  ci_kind :: string
  ci_source :: string
  ci_title :: string
  ci_summary :: string

record incident_event =
  ie_ts :: int
  ie_kind :: string
  ie_actor :: string
  ie_text :: string
  ie_atts :: "attachment list"
  ie_cites :: "citation list"

record loop_state =
  lp_stage :: string
  lp_diagnosedAt :: int
  lp_dryRunOK :: bool
  lp_dryRunAt :: int
  lp_dryRunNotes :: "string list"
  lp_remediationRunID :: int
  lp_changeID :: int
  lp_verifyOK :: "bool option"
  lp_verifyAt :: int
  lp_verifyNotes :: "string list"
  lp_skillPromoted :: bool
  lp_runID :: string
  lp_force :: bool
  lp_updatedAt :: int

record incident =
  i_id :: int
  i_key :: string
  i_title :: string
  i_severity :: string
  i_status :: string
  i_source :: string
  i_hostID :: string
  i_hostname :: string
  i_type :: string
  i_assignee :: string
  i_timeline :: "incident_event list"
  i_createdAt :: int
  i_ackedAt :: int
  i_resolvedAt :: int
  i_ticketID :: int
  i_links :: "ops_link list"
  i_loop :: "loop_state option"

record incident_mgr =
  im_incidents :: "incident list"
  im_nextID :: int
  im_open :: "string \<Rightarrow> int option"

definition incidentHistoryCap :: nat where
  "incidentHistoryCap = 500"

definition newIncidentManager :: incident_mgr where
  "newIncidentManager = \<lparr>im_incidents = [], im_nextID = 1, im_open = Map.empty\<rparr>"

definition blank_incident :: incident where
  "blank_incident = \<lparr>i_id = 0, i_key = [], i_title = [], i_severity = [], i_status = [], i_source = [],
     i_hostID = [], i_hostname = [], i_type = [], i_assignee = [], i_timeline = [], i_createdAt = 0,
     i_ackedAt = 0, i_resolvedAt = 0, i_ticketID = 0, i_links = [], i_loop = None\<rparr>"

section \<open>Operations\<close>

definition find_incident :: "incident_mgr \<Rightarrow> int \<Rightarrow> incident option" where
  "find_incident m i = find (\<lambda>inc. i_id inc = i) (im_incidents m)"

definition last_n :: "nat \<Rightarrow> 'a list \<Rightarrow> 'a list" where
  "last_n n xs = (if n < length xs then drop (length xs - n) xs else xs)"

definition add_event ::
    "int \<Rightarrow> string \<Rightarrow> string \<Rightarrow> string \<Rightarrow> attachment list \<Rightarrow> incident \<Rightarrow> incident" where
  "add_event now kind actor txt atts inc =
     (let ev = \<lparr>ie_ts = now, ie_kind = kind, ie_actor = actor, ie_text = txt,
                ie_atts = sanitizeAttachments atts, ie_cites = []\<rparr>
      in inc\<lparr>i_timeline := last_n 200 (i_timeline inc @ [ev])\<rparr>)"

definition addEventLocked :: "int \<Rightarrow> string \<Rightarrow> string \<Rightarrow> string \<Rightarrow> incident \<Rightarrow> incident" where
  "addEventLocked now kind actor txt inc = add_event now kind actor txt [] inc"

fun trim_loop :: "nat \<Rightarrow> incident list \<Rightarrow> incident list" where
  "trim_loop n [] = []"
| "trim_loop n (inc # incs) =
     (if 0 < n \<and> i_status inc = ''resolved'' then trim_loop (n - 1) incs
      else inc # trim_loop n incs)"

definition trimLocked :: "incident list \<Rightarrow> incident list" where
  "trimLocked incs =
     (if length incs \<le> incidentHistoryCap then incs
      else trim_loop (length incs - incidentHistoryCap) incs)"

definition initial_links :: "string \<Rightarrow> string \<Rightarrow> string \<Rightarrow> string \<Rightarrow> ops_link list" where
  "initial_links key source hostID hostname =
     (let l1 = (if hostID \<noteq> [] then mergeOpsLinks [] [hostOpsLink hostID hostname] else []);
          l2 = (if has_prefix key ''slo/'' \<or> has_prefix key ''slo-burn/''
                then let sloID = trim_prefix (trim_prefix key ''slo-burn/'') ''slo/''
                     in if sloID \<noteq> [] then mergeOpsLinks l1 [sloOpsLink sloID] else l1
                else l1)
      in if key \<noteq> [] \<and> source = ''alert''
         then mergeOpsLinks l2 [\<lparr>ol_type = ''alert'', ol_id = key, ol_role = ''caused_by'', ol_name = []\<rparr>]
         else l2)"

text \<open>The result of \<open>raise\<close>: the state, the id, whether it is new, and the callback's argument.\<close>

type_synonym notice = "(incident \<times> bool) option"

definition open_new ::
    "int \<Rightarrow> string \<Rightarrow> string \<Rightarrow> string \<Rightarrow> string \<Rightarrow> string \<Rightarrow> string \<Rightarrow> string \<Rightarrow> incident_mgr \<Rightarrow>
     incident_mgr \<times> int \<times> bool \<times> notice" where
  "open_new now key title severity source hostID hostname typ m =
     (let i = im_nextID m + 1;
          inc = addEventLocked now ''created'' source title
            (blank_incident\<lparr>i_id := i, i_key := key, i_title := title, i_severity := severity,
               i_status := ''open'', i_source := source, i_hostID := hostID, i_hostname := hostname,
               i_type := typ, i_createdAt := now,
               i_links := initial_links key source hostID hostname\<rparr>)
      in (m\<lparr>im_nextID := i, im_incidents := trimLocked (im_incidents m @ [inc]),
            im_open := (if key \<noteq> [] then (im_open m)(key \<mapsto> i) else im_open m)\<rparr>,
          i, True, Some (inc, True)))"

definition raise ::
    "int \<Rightarrow> string \<Rightarrow> string \<Rightarrow> string \<Rightarrow> string \<Rightarrow> string \<Rightarrow> string \<Rightarrow> string \<Rightarrow> incident_mgr \<Rightarrow>
     incident_mgr \<times> int \<times> bool \<times> notice" where
  "raise now key title severity source hostID hostname typ m =
     (if key \<noteq> [] then
        (case im_open m key of
           Some i \<Rightarrow>
             (case find_incident m i of
                Some inc \<Rightarrow> (m, i_id inc, False, None)
              | None \<Rightarrow> open_new now key title severity source hostID hostname typ
                          (m\<lparr>im_open := (im_open m)(key := None)\<rparr>))
         | None \<Rightarrow> open_new now key title severity source hostID hostname typ m)
      else open_new now key title severity source hostID hostname typ m)"

definition change_incident :: "int \<Rightarrow> (incident \<Rightarrow> incident) \<Rightarrow> incident_mgr \<Rightarrow> incident_mgr" where
  "change_incident i f m =
     m\<lparr>im_incidents := update_first (\<lambda>inc. i_id inc = i) f (im_incidents m)\<rparr>"

definition resolved_by_key :: "int \<Rightarrow> string \<Rightarrow> incident \<Rightarrow> incident" where
  "resolved_by_key now note inc =
     addEventLocked now ''recovered'' ''alert-engine'' note (inc\<lparr>i_status := ''resolved'', i_resolvedAt := now\<rparr>)"

definition resolveByKey ::
    "int \<Rightarrow> string \<Rightarrow> string \<Rightarrow> incident_mgr \<Rightarrow> incident_mgr \<times> int \<times> notice" where
  "resolveByKey now key note m =
     (if key = [] then (m, 0, None)
      else case im_open m key of
             None \<Rightarrow> (m, 0, None)
           | Some i \<Rightarrow>
               let m1 = m\<lparr>im_open := (im_open m)(key := None)\<rparr> in
               (case find_incident m i of
                  None \<Rightarrow> (m1, 0, None)
                | Some inc \<Rightarrow>
                    if i_status inc = ''resolved'' then (m1, 0, None)
                    else let inc' = resolved_by_key now note inc
                         in (change_incident i (resolved_by_key now note) m1, i_id inc', Some (inc', False))))"

record alert_info =
  al_level :: string
  al_message :: string
  al_hostID :: string
  al_hostname :: string
  al_type :: string

definition OnAlertTransition ::
    "int \<Rightarrow> alert_info \<Rightarrow> string \<Rightarrow> bool \<Rightarrow> incident_mgr \<Rightarrow> incident_mgr \<times> int \<times> notice" where
  "OnAlertTransition now a key firing m =
     (if firing then
        (let sev = (if al_level a = [] then ''warning'' else al_level a);
             (m', i, isNew, ev) =
               raise now key (al_message a) sev ''alert'' (al_hostID a) (al_hostname a) (al_type a) m
         in (m', i, ev))
      else resolveByKey now key (al_message a) m)"

text \<open>The methods that look an incident up by id and change it in place.\<close>

definition with_incident ::
    "int \<Rightarrow> (incident \<Rightarrow> incident) \<Rightarrow> incident_mgr \<Rightarrow> incident_mgr \<times> incident option" where
  "with_incident i f m =
     (case find_incident m i of
        None \<Rightarrow> (m, None)
      | Some inc \<Rightarrow> (change_incident i f m, Some (f inc)))"

definition assigned_to :: string where
  "assigned_to = utf8_text [0xE6, 0x8C, 0x87, 0xE6, 0xB4, 0xBE, 0xE7, 0xBB, 0x99, 0x20]"

definition SetAssignee ::
    "int \<Rightarrow> int \<Rightarrow> string \<Rightarrow> string \<Rightarrow> incident_mgr \<Rightarrow> incident_mgr \<times> incident option" where
  "SetAssignee now i assignee actor =
     with_incident i (\<lambda>inc. addEventLocked now ''note'' actor (assigned_to @ trim_space assignee)
       (inc\<lparr>i_assignee := trim_space assignee\<rparr>))"

definition AddEvent :: "int \<Rightarrow> int \<Rightarrow> string \<Rightarrow> string \<Rightarrow> string \<Rightarrow> incident_mgr \<Rightarrow> incident_mgr" where
  "AddEvent now i kind actor txt m = fst (with_incident i (addEventLocked now kind actor txt) m)"

definition cite_last :: "citation list \<Rightarrow> incident \<Rightarrow> incident" where
  "cite_last cites inc =
     (if cites \<noteq> [] \<and> i_timeline inc \<noteq> [] then
        inc\<lparr>i_timeline := butlast (i_timeline inc) @
          [(last (i_timeline inc))\<lparr>ie_cites := (if 20 < length cites then take 20 cites else cites)\<rparr>]\<rparr>
      else inc)"

definition AddEventWithCitations ::
    "int \<Rightarrow> int \<Rightarrow> string \<Rightarrow> string \<Rightarrow> string \<Rightarrow> citation list \<Rightarrow> incident_mgr \<Rightarrow> incident_mgr" where
  "AddEventWithCitations now i kind actor txt cites m =
     fst (with_incident i (\<lambda>inc. cite_last cites (addEventLocked now kind actor txt inc)) m)"

definition acked :: "int \<Rightarrow> string \<Rightarrow> incident \<Rightarrow> incident" where
  "acked now actor inc =
     (if i_status inc = ''open''
      then addEventLocked now ''acked'' actor [] (inc\<lparr>i_status := ''acknowledged'', i_ackedAt := now\<rparr>)
      else inc)"

definition Ack :: "int \<Rightarrow> int \<Rightarrow> string \<Rightarrow> incident_mgr \<Rightarrow> incident_mgr \<times> incident option" where
  "Ack now i actor = with_incident i (acked now actor)"

definition resolved_manually :: "int \<Rightarrow> string \<Rightarrow> incident \<Rightarrow> incident" where
  "resolved_manually now actor inc =
     addEventLocked now ''resolved'' actor [] (inc\<lparr>i_status := ''resolved'', i_resolvedAt := now\<rparr>)"

definition Resolve :: "int \<Rightarrow> int \<Rightarrow> string \<Rightarrow> incident_mgr \<Rightarrow> incident_mgr \<times> incident option" where
  "Resolve now i actor m =
     (case find_incident m i of
        None \<Rightarrow> (m, None)
      | Some inc \<Rightarrow>
          if i_status inc \<noteq> ''resolved'' then
            (let m1 = change_incident i (resolved_manually now actor) m;
                 m2 = (if i_key inc \<noteq> [] then m1\<lparr>im_open := (im_open m1)(i_key inc := None)\<rparr> else m1)
             in (m2, Some (resolved_manually now actor inc)))
          else (m, Some inc))"

text \<open>The message of the Chinese catalogue, which \<open>Tz\<close> reads, for a comment of attachments alone.\<close>

definition attach_text :: "nat \<Rightarrow> string" where
  "attach_text n = utf8_text [0xE4, 0xB8, 0x8A, 0xE4, 0xBC, 0xA0, 0xE4, 0xBA, 0x86, 0x20] @ show_nat n @
     utf8_text [0x20, 0xE4, 0xB8, 0xAA, 0xE9, 0x99, 0x84, 0xE4, 0xBB, 0xB6]"

definition Comment ::
    "int \<Rightarrow> int \<Rightarrow> string \<Rightarrow> string \<Rightarrow> attachment list \<Rightarrow> incident_mgr \<Rightarrow> incident_mgr \<times> incident option" where
  "Comment now i actor text0 atts0 m =
     (let txt = trim_space text0; atts = sanitizeAttachments atts0
      in if txt = [] \<and> atts = [] then (m, None)
         else with_incident i
           (add_event now ''comment'' actor (if txt = [] then attach_text (length atts) else txt) atts) m)"

definition SetTicket :: "int \<Rightarrow> int \<Rightarrow> int \<Rightarrow> string \<Rightarrow> incident_mgr \<Rightarrow> incident_mgr" where
  "SetTicket now i ticketID actor m =
     fst (with_incident i (\<lambda>inc. addEventLocked now ''escalated'' actor []
       (inc\<lparr>i_ticketID := ticketID, i_links := mergeOpsLinks (i_links inc) [ticketOpsLink ticketID]\<rparr>)) m)"

definition linked_text :: string where
  "linked_text = utf8_text [0xE5, 0x85, 0xB3, 0xE8, 0x81, 0x94, 0xEF, 0xBC, 0x9A]"

definition linked :: "int \<Rightarrow> ops_link list \<Rightarrow> string \<Rightarrow> string \<Rightarrow> incident \<Rightarrow> incident" where
  "linked now ls actor note inc =
     (let inc1 = inc\<lparr>i_links := mergeOpsLinks (i_links inc) ls\<rparr>
      in if length (i_links inc) < length (i_links inc1)
         then addEventLocked now ''note'' actor
           (if note = [] then linked_text @ formatOpsLinksHint ls else note) inc1
         else inc1)"

definition AddLinks ::
    "int \<Rightarrow> int \<Rightarrow> ops_link list \<Rightarrow> string \<Rightarrow> string \<Rightarrow> incident_mgr \<Rightarrow> incident_mgr \<times> incident option" where
  "AddLinks now i ls actor note = with_incident i (linked now ls actor note)"

definition act_last :: "string \<Rightarrow> incident \<Rightarrow> incident" where
  "act_last actor inc =
     (if i_timeline inc \<noteq> [] then
        inc\<lparr>i_timeline := butlast (i_timeline inc) @ [(last (i_timeline inc))\<lparr>ie_actor := actor\<rparr>]\<rparr>
      else inc)"

text \<open>\<open>CreateManual\<close> takes the mutex twice: the incident is raised, which releases it, and then found again to
  name its author. Other operations may come in between.\<close>

definition manual_raise ::
    "int \<Rightarrow> string \<Rightarrow> string \<Rightarrow> string \<Rightarrow> string \<Rightarrow> incident_mgr \<Rightarrow> incident_mgr \<times> int \<times> bool \<times> notice" where
  "manual_raise now title severity0 hostID hostname =
     raise now [] title (if severity0 = [] then ''warning'' else severity0) ''manual'' hostID hostname []"

definition manual_actor :: "int \<Rightarrow> string \<Rightarrow> incident_mgr \<Rightarrow> incident_mgr \<times> incident" where
  "manual_actor i actor m =
     (case with_incident i (act_last actor) m of
        (m', None) \<Rightarrow> (m', blank_incident)
      | (m', Some inc) \<Rightarrow> (m', inc))"

definition CreateManual ::
    "int \<Rightarrow> string \<Rightarrow> string \<Rightarrow> string \<Rightarrow> string \<Rightarrow> string \<Rightarrow> incident_mgr \<Rightarrow>
     incident_mgr \<times> incident \<times> notice" where
  "CreateManual now title severity hostID hostname actor m =
     (let (m1, i, isNew, ev) = manual_raise now title severity hostID hostname m;
          (m2, inc) = manual_actor i actor m1
      in (m2, inc, ev))"

definition SetLoop ::
    "int \<Rightarrow> int \<Rightarrow> loop_state \<Rightarrow> incident_mgr \<Rightarrow> incident_mgr \<times> incident option" where
  "SetLoop now i lp = with_incident i (\<lambda>inc. inc\<lparr>i_loop := Some (lp\<lparr>lp_updatedAt := now\<rparr>)\<rparr>)"

definition incidentGet :: "incident_mgr \<Rightarrow> int \<Rightarrow> incident option" where
  "incidentGet m i = find_incident m i"

text \<open>Newest first; ids are unique, so the unstable sort of the code has one result.\<close>

definition incidentList :: "incident_mgr \<Rightarrow> incident list" where
  "incidentList m = rev (sort_key i_id (im_incidents m))"

definition OpenCount :: "incident_mgr \<Rightarrow> nat" where
  "OpenCount m = length (filter (\<lambda>inc. i_status inc \<noteq> ''resolved'') (im_incidents m))"

definition incidentExport :: "incident_mgr \<Rightarrow> incident list" where
  "incidentExport m = im_incidents m"

fun import_loop :: "int \<Rightarrow> (string \<Rightarrow> int option) \<Rightarrow> incident list \<Rightarrow> int \<times> (string \<Rightarrow> int option)" where
  "import_loop mx idx [] = (mx, idx)"
| "import_loop mx idx (inc # incs) =
     import_loop (if mx < i_id inc then i_id inc else mx)
       (if i_key inc \<noteq> [] \<and> i_status inc \<noteq> ''resolved'' then idx(i_key inc \<mapsto> i_id inc) else idx) incs"

definition incidentImport :: "incident list \<Rightarrow> incident_mgr" where
  "incidentImport incs =
     (let (mx, idx) = import_loop 0 Map.empty incs
      in \<lparr>im_incidents = incs, im_nextID = mx, im_open = idx\<rparr>)"

section \<open>The invariant\<close>

abbreviation resolved :: "incident \<Rightarrow> bool" where
  "resolved inc \<equiv> i_status inc = ''resolved''"

definition incident_ok :: "incident \<Rightarrow> bool" where
  "incident_ok inc \<longleftrightarrow> length (i_timeline inc) \<le> 200 \<and>
     i_status inc \<in> {''open'', ''acknowledged'', ''resolved''}"

text \<open>\<open>openByKey\<close> names exactly the unresolved incidents that have a key.\<close>

definition index_ok :: "incident_mgr \<Rightarrow> bool" where
  "index_ok m \<longleftrightarrow> (\<forall>k i. im_open m k = Some i \<longleftrightarrow>
     k \<noteq> [] \<and> (\<exists>inc\<in>set (im_incidents m). i_id inc = i \<and> i_key inc = k \<and> \<not> resolved inc))"

definition ids_ok :: "incident_mgr \<Rightarrow> bool" where
  "ids_ok m \<longleftrightarrow> sorted_wrt (<) (map i_id (im_incidents m)) \<and> 1 \<le> im_nextID m \<and>
     (im_incidents m \<noteq> [] \<longrightarrow> i_id (last (im_incidents m)) = im_nextID m) \<and>
     (\<forall>inc\<in>set (im_incidents m). 0 < i_id inc)"

definition mgr_ok :: "incident_mgr \<Rightarrow> bool" where
  "mgr_ok m \<longleftrightarrow> ids_ok m \<and> index_ok m \<and> (\<forall>inc\<in>set (im_incidents m). incident_ok inc)"

lemma mgr_ok_new: "mgr_ok newIncidentManager"
  by (simp add: mgr_ok_def ids_ok_def index_ok_def newIncidentManager_def)

lemma sorted_last:
  "sorted_wrt (<) (map i_id xs) \<Longrightarrow> x \<in> set xs \<Longrightarrow> i_id x \<le> i_id (last xs)"
  by (induction xs) (auto simp: less_imp_le split: if_splits)

lemma ids_bounded: "ids_ok m \<Longrightarrow> inc \<in> set (im_incidents m) \<Longrightarrow> i_id inc \<le> im_nextID m"
  using sorted_last [of "im_incidents m" inc] by (auto simp: ids_ok_def)

lemma ids_distinct: "ids_ok m \<Longrightarrow> distinct (map i_id (im_incidents m))"
  unfolding ids_ok_def by (metis strict_sorted_iff)

lemma find_incident_Some:
  "find_incident m i = Some inc \<Longrightarrow> inc \<in> set (im_incidents m) \<and> i_id inc = i"
  by (auto simp: find_incident_def find_Some_iff)

lemma find_incident_None: "find_incident m i = None \<longleftrightarrow> (\<forall>inc\<in>set (im_incidents m). i_id inc \<noteq> i)"
  by (auto simp: find_incident_def find_None_iff)

lemma length_last_n [simp]: "length (last_n n xs) = min n (length xs)"
  by (auto simp: last_n_def)

lemma add_event_fields [simp]:
  "i_id (add_event now k a t ats inc) = i_id inc" "i_key (add_event now k a t ats inc) = i_key inc"
  "i_status (add_event now k a t ats inc) = i_status inc"
  "length (i_timeline (add_event now k a t ats inc)) \<le> 200"
  by (simp_all add: add_event_def Let_def)

lemma addEventLocked_fields [simp]:
  "i_id (addEventLocked now k a t inc) = i_id inc" "i_key (addEventLocked now k a t inc) = i_key inc"
  "i_status (addEventLocked now k a t inc) = i_status inc"
  "length (i_timeline (addEventLocked now k a t inc)) \<le> 200"
  by (simp_all add: addEventLocked_def)

text \<open>Changes in place that keep id, key and whether the incident is resolved.\<close>

definition keeps :: "(incident \<Rightarrow> incident) \<Rightarrow> bool" where
  "keeps f \<longleftrightarrow> (\<forall>inc. i_id (f inc) = i_id inc \<and> i_key (f inc) = i_key inc \<and>
     (resolved (f inc) \<longleftrightarrow> resolved inc) \<and> (incident_ok inc \<longrightarrow> incident_ok (f inc)))"

lemma change_incident_map:
  "ids_ok m \<Longrightarrow> im_incidents (change_incident i f m) =
    map (\<lambda>inc. if i_id inc = i then f inc else inc) (im_incidents m)"
  by (simp add: change_incident_def update_first_map ids_distinct)

lemma change_incident_ids:
  assumes "ids_ok m" and "\<And>inc. i_id (f inc) = i_id inc"
  shows "ids_ok (change_incident i f m)"
proof -
  have ids: "map i_id (im_incidents (change_incident i f m)) = map i_id (im_incidents m)"
    by (simp add: change_incident_def map_update_first assms(2))
  have nil: "im_incidents (change_incident i f m) = [] \<longleftrightarrow> im_incidents m = []"
    by (simp add: change_incident_def)
  have "i_id (last (im_incidents (change_incident i f m))) = i_id (last (im_incidents m))"
    if "im_incidents m \<noteq> []"
    using that nil ids by (metis last_map)
  moreover have "\<forall>inc\<in>set (im_incidents (change_incident i f m)). 0 < i_id inc"
    using assms by (auto simp: change_incident_map ids_ok_def)
  moreover have "im_nextID (change_incident i f m) = im_nextID m" by (simp add: change_incident_def)
  ultimately show ?thesis using assms(1) nil unfolding ids_ok_def ids by simp
qed

lemma change_incident_ok:
  assumes ok: "mgr_ok m" and k: "keeps f"
  shows "mgr_ok (change_incident i f m)"
proof -
  have ids: "ids_ok m" using ok by (simp add: mgr_ok_def)
  define g where "g = (\<lambda>inc. if i_id inc = i then f inc else inc)"
  have cm: "im_incidents (change_incident i f m) = map g (im_incidents m)"
    unfolding g_def by (rule change_incident_map [OF ids])
  have fx: "i_id (f x) = i_id x" "i_key (f x) = i_key x" "resolved (f x) \<longleftrightarrow> resolved x"
    "incident_ok x \<Longrightarrow> incident_ok (f x)" for x
    using k unfolding keeps_def by blast+
  have g: "i_id (g x) = i_id x" "i_key (g x) = i_key x" "resolved (g x) \<longleftrightarrow> resolved x"
    "incident_ok x \<Longrightarrow> incident_ok (g x)" for x
    by (simp_all add: g_def fx)
  have "im_open (change_incident i f m) = im_open m" by (simp add: change_incident_def)
  moreover have "(\<exists>inc\<in>set (im_incidents (change_incident i f m)). i_id inc = j \<and> i_key inc = key \<and> \<not> resolved inc)
      \<longleftrightarrow> (\<exists>inc\<in>set (im_incidents m). i_id inc = j \<and> i_key inc = key \<and> \<not> resolved inc)" for j key
    by (simp add: cm g)
  ultimately have "index_ok (change_incident i f m)" using ok by (simp add: mgr_ok_def index_ok_def)
  moreover have "\<forall>inc\<in>set (im_incidents (change_incident i f m)). incident_ok inc"
    using ok g(4) by (simp add: cm mgr_ok_def)
  moreover have "ids_ok (change_incident i f m)" by (rule change_incident_ids [OF ids fx(1)])
  ultimately show ?thesis by (simp add: mgr_ok_def)
qed

lemma with_incident_ok: "mgr_ok m \<Longrightarrow> keeps f \<Longrightarrow> mgr_ok (fst (with_incident i f m))"
  by (simp add: with_incident_def change_incident_ok split: option.split)

lemma keeps_event: "keeps (addEventLocked now k a t)" "keeps (add_event now k a t ats)"
  by (simp_all add: keeps_def incident_ok_def)

lemma keeps_comp: "keeps f \<Longrightarrow> keeps g \<Longrightarrow> keeps (\<lambda>inc. f (g inc))"
  by (simp add: keeps_def)

text \<open>Resolving takes the incident out of the index.\<close>

lemma resolve_ok:
  assumes ok: "mgr_ok m" and inc: "inc \<in> set (im_incidents m)" "i_id inc = i" "\<not> resolved inc"
    and f: "\<And>x. i_id (f x) = i_id x \<and> i_key (f x) = i_key x \<and> resolved (f x) \<and> length (i_timeline (f x)) \<le> 200"
  shows "mgr_ok ((change_incident i f m)\<lparr>im_open := (im_open m)(i_key inc := None)\<rparr>)"
proof -
  have ids: "ids_ok m" and idx: "index_ok m" using ok by (simp_all add: mgr_ok_def)
  define g where "g = (\<lambda>inc. if i_id inc = i then f inc else inc)"
  have cm: "im_incidents (change_incident i f m) = map g (im_incidents m)"
    unfolding g_def by (rule change_incident_map [OF ids])
  have fx: "i_id (f x) = i_id x" "i_key (f x) = i_key x" "resolved (f x)" "length (i_timeline (f x)) \<le> 200" for x
    using f by blast+
  have g: "i_id (g x) = i_id x" "i_key (g x) = i_key x" "resolved (g x) \<longleftrightarrow> i_id x = i \<or> resolved x"
    "incident_ok x \<Longrightarrow> incident_ok (g x)" for x
    by (simp_all add: g_def fx incident_ok_def)
  have uniq: "x = inc" if "x \<in> set (im_incidents m)" "i_id x = i" for x
    using ids_distinct [OF ids] that inc(1,2) by (metis distinct_map inj_on_eq_iff)
  have "((im_open m)(i_key inc := None)) k = Some j \<longleftrightarrow> k \<noteq> [] \<and>
      (\<exists>x\<in>set (im_incidents (change_incident i f m)). i_id x = j \<and> i_key x = k \<and> \<not> resolved x)" for k j
  proof -
    have left: "(\<exists>x\<in>set (im_incidents (change_incident i f m)). i_id x = j \<and> i_key x = k \<and> \<not> resolved x) \<longleftrightarrow>
        (\<exists>x\<in>set (im_incidents m). i_id x \<noteq> i \<and> i_id x = j \<and> i_key x = k \<and> \<not> resolved x)"
      by (auto simp: cm g)
    show ?thesis
    proof (cases "k = i_key inc")
      case True
      have "\<not> (x \<in> set (im_incidents m) \<and> i_id x \<noteq> i \<and> i_key x = k \<and> \<not> resolved x)" if "k \<noteq> []" for x
      proof
        assume x: "x \<in> set (im_incidents m) \<and> i_id x \<noteq> i \<and> i_key x = k \<and> \<not> resolved x"
        then have "im_open m k = Some (i_id x)" using idx that by (auto simp: index_ok_def)
        moreover have "im_open m k = Some i" using idx that inc True by (auto simp: index_ok_def)
        ultimately show False using x by simp
      qed
      then show ?thesis unfolding left using True by auto
    next
      case False
      have "(\<exists>x\<in>set (im_incidents m). i_id x \<noteq> i \<and> i_id x = j \<and> i_key x = k \<and> \<not> resolved x) \<longleftrightarrow>
          (\<exists>x\<in>set (im_incidents m). i_id x = j \<and> i_key x = k \<and> \<not> resolved x)"
        using uniq False by auto
      then show ?thesis unfolding left using idx False by (simp add: index_ok_def)
    qed
  qed
  then have "index_ok ((change_incident i f m)\<lparr>im_open := (im_open m)(i_key inc := None)\<rparr>)"
    by (simp add: index_ok_def)
  moreover have "\<forall>x\<in>set (im_incidents (change_incident i f m)). incident_ok x"
    using ok g(4) by (simp add: cm mgr_ok_def)
  moreover have "ids_ok ((change_incident i f m)\<lparr>im_open := (im_open m)(i_key inc := None)\<rparr>)"
    using change_incident_ids [OF ids fx(1), of i] by (simp add: ids_ok_def)
  ultimately show ?thesis by (simp add: mgr_ok_def)
qed

section \<open>Trimming\<close>

lemma trim_loop_set: "set (trim_loop n xs) \<subseteq> set xs"
  by (induction n xs rule: trim_loop.induct) auto

lemma trim_loop_keeps: "x \<in> set xs \<Longrightarrow> \<not> resolved x \<Longrightarrow> x \<in> set (trim_loop n xs)"
  by (induction n xs rule: trim_loop.induct) auto

lemma trim_loop_sorted:
  "sorted_wrt (<) (map i_id xs) \<Longrightarrow> sorted_wrt (<) (map i_id (trim_loop n xs))"
proof (induction n xs rule: trim_loop.induct)
  case (2 n inc incs)
  then show ?case using trim_loop_set [of n incs] by auto
qed simp

lemma trim_loop_snoc: "\<not> resolved x \<Longrightarrow> trim_loop n (xs @ [x]) = trim_loop n xs @ [x]"
  by (induction n xs rule: trim_loop.induct) auto

lemma trim_loop_filter:
  "filter (\<lambda>x. \<not> resolved x) (trim_loop n xs) = filter (\<lambda>x. \<not> resolved x) xs"
  by (induction n xs rule: trim_loop.induct) auto

lemma trim_loop_length:
  "length (trim_loop n xs) = length xs - min n (length (filter (\<lambda>x. resolved x) xs))"
proof (induction n xs rule: trim_loop.induct)
  case (2 n inc incs)
  have "min n (length (filter (\<lambda>x. resolved x) incs)) \<le> length incs"
    using length_filter_le [of "\<lambda>x. resolved x" incs] by (rule min.coboundedI2)
  then have suc: "Suc (length incs) - min n (length (filter (\<lambda>x. resolved x) incs)) =
      Suc (length incs - min n (length (filter (\<lambda>x. resolved x) incs)))" by (rule Suc_diff_le)
  show ?case
  proof (cases "0 < n \<and> resolved inc")
    case True
    then show ?thesis using 2 by (cases n) simp_all
  next
    case False
    then have "min n (length (filter (\<lambda>x. resolved x) (inc # incs))) =
        min n (length (filter (\<lambda>x. resolved x) incs))" by auto
    moreover have "trim_loop n (inc # incs) = inc # trim_loop n incs" using False by auto
    ultimately show ?thesis using 2(2) [OF False] suc by (simp only: list.size add_Suc_right add_0_right)
  qed
qed simp

lemma trimLocked_keeps: "x \<in> set xs \<Longrightarrow> \<not> resolved x \<Longrightarrow> x \<in> set (trimLocked xs)"
  by (simp add: trimLocked_def trim_loop_keeps)

lemma trimLocked_set: "set (trimLocked xs) \<subseteq> set xs"
  using trim_loop_set by (auto simp: trimLocked_def)

lemma trimLocked_snoc: "\<not> resolved x \<Longrightarrow> \<exists>ys. trimLocked (xs @ [x]) = ys @ [x]"
  by (simp add: trimLocked_def trim_loop_snoc)

lemma trimLocked_length:
  "length (trimLocked xs) \<le> max 500 (length (filter (\<lambda>x. \<not> resolved x) xs))"
proof -
  have "length (filter (\<lambda>x. \<not> resolved x) xs) + length (filter (\<lambda>x. resolved x) xs) = length xs"
    by (induction xs) auto
  then show ?thesis by (simp add: trimLocked_def trim_loop_length incidentHistoryCap_def) linarith
qed

section \<open>Every operation keeps the invariant\<close>

lemma open_new_ok:
  assumes ok: "mgr_ok m" and free: "key \<noteq> [] \<Longrightarrow> im_open m key = None"
  shows "mgr_ok (fst (open_new now key title severity source hostID hostname typ m))"
proof -
  let ?i = "im_nextID m + 1"
  define inc where "inc = addEventLocked now ''created'' source title
            (blank_incident\<lparr>i_id := ?i, i_key := key, i_title := title, i_severity := severity,
               i_status := ''open'', i_source := source, i_hostID := hostID, i_hostname := hostname,
               i_type := typ, i_createdAt := now,
               i_links := initial_links key source hostID hostname\<rparr>)"
  define m' where "m' = fst (open_new now key title severity source hostID hostname typ m)"
  have m': "im_nextID m' = ?i" "im_incidents m' = trimLocked (im_incidents m @ [inc])"
    "im_open m' = (if key \<noteq> [] then (im_open m)(key \<mapsto> ?i) else im_open m)"
    by (simp_all add: m'_def open_new_def inc_def Let_def)
  have inc: "i_id inc = ?i" "i_key inc = key" "i_status inc = ''open''" "incident_ok inc"
    by (simp_all add: inc_def incident_ok_def)
  have ids: "ids_ok m" and idx: "index_ok m" using ok by (simp_all add: mgr_ok_def)
  have old: "i_id x < ?i" if "x \<in> set (im_incidents m)" for x using ids_bounded [OF ids that] by simp
  have sub: "set (im_incidents m') \<subseteq> insert inc (set (im_incidents m))"
    using trimLocked_set [of "im_incidents m @ [inc]"] by (simp add: m'(2))
  obtain ys where ys: "im_incidents m' = ys @ [inc]"
    using trimLocked_snoc [of inc "im_incidents m"] inc(3) by (auto simp: m'(2))
  have live: "(x \<in> set (im_incidents m') \<and> \<not> resolved x) \<longleftrightarrow> (x = inc \<or> x \<in> set (im_incidents m) \<and> \<not> resolved x)" for x
    using sub trimLocked_keeps [of x "im_incidents m @ [inc]"] inc(3) by (auto simp: m'(2))
  have "sorted_wrt (<) (map i_id (im_incidents m @ [inc]))"
    using ids old inc(1) by (auto simp: ids_ok_def sorted_wrt_append)
  then have "sorted_wrt (<) (map i_id (im_incidents m'))"
    by (simp add: m'(2) trimLocked_def trim_loop_sorted del: map_append)
  moreover have "0 < i_id x" if "x \<in> set (im_incidents m')" for x
    using that sub ids inc(1) by (auto simp: ids_ok_def)
  ultimately have "ids_ok m'" using ids inc(1) ys by (simp add: ids_ok_def m'(1))
  moreover have "index_ok m'"
    unfolding index_ok_def
  proof (intro allI)
    fix k j
    have right: "(\<exists>x\<in>set (im_incidents m'). i_id x = j \<and> i_key x = k \<and> \<not> resolved x) \<longleftrightarrow>
        (?i = j \<and> key = k) \<or> (\<exists>x\<in>set (im_incidents m). i_id x = j \<and> i_key x = k \<and> \<not> resolved x)"
      using live inc by metis
    show "im_open m' k = Some j \<longleftrightarrow> k \<noteq> [] \<and>
        (\<exists>x\<in>set (im_incidents m'). i_id x = j \<and> i_key x = k \<and> \<not> resolved x)"
    proof (cases "k = key \<and> k \<noteq> []")
      case True
      then have "im_open m k = None" using free by (metis True)
      then have "\<not> (\<exists>x\<in>set (im_incidents m). i_id x = j \<and> i_key x = k \<and> \<not> resolved x)"
        using idx True by (simp add: index_ok_def) (metis option.distinct(1))
      then show ?thesis unfolding right using True by (simp add: m'(3)) auto
    next
      case False
      then have "im_open m' k = im_open m k" by (auto simp: m'(3))
      then show ?thesis unfolding right using False idx by (auto simp: index_ok_def)
    qed
  qed
  moreover have "\<forall>x\<in>set (im_incidents m'). incident_ok x" using ok sub inc(4) by (auto simp: mgr_ok_def)
  ultimately show ?thesis by (simp add: mgr_ok_def m'_def)
qed

text \<open>Under the invariant the index never points at an incident that is gone.\<close>

lemma open_found:
  assumes "mgr_ok m" and "im_open m key = Some i"
  shows "\<exists>inc. find_incident m i = Some inc \<and> i_id inc = i \<and> i_key inc = key \<and> \<not> resolved inc \<and> key \<noteq> []"
proof -
  have ids: "ids_ok m" using assms(1) by (simp add: mgr_ok_def)
  obtain x where x: "x \<in> set (im_incidents m)" "i_id x = i" "i_key x = key" "\<not> resolved x" "key \<noteq> []"
    using assms by (auto simp: mgr_ok_def index_ok_def)
  then obtain y where y: "find_incident m i = Some y"
    using find_incident_None [of m i] by (cases "find_incident m i") auto
  then have "y = x" using find_incident_Some [OF y] x(1,2) ids_distinct [OF ids]
    by (metis distinct_map inj_on_eq_iff)
  then show ?thesis using x y by blast
qed

lemma raise_reuses:
  assumes "mgr_ok m" and "im_open m key = Some i"
  shows "raise now key title severity source hostID hostname typ m = (m, i, False, None)"
  using open_found [OF assms] assms(2) by (auto simp: raise_def)

lemma raise_opens:
  assumes "key = [] \<or> im_open m key = None"
  shows "raise now key title severity source hostID hostname typ m =
    open_new now key title severity source hostID hostname typ m"
  using assms by (auto simp: raise_def)

lemma raise_ok:
  assumes "mgr_ok m"
  shows "mgr_ok (fst (raise now key title severity source hostID hostname typ m))"
proof (cases "key = [] \<or> im_open m key = None")
  case True
  then have "mgr_ok (fst (open_new now key title severity source hostID hostname typ m))"
    by (intro open_new_ok [OF assms]) simp
  then show ?thesis using True by (simp add: raise_opens)
next
  case False
  then show ?thesis using raise_reuses [OF assms] assms by auto
qed

lemma resolveByKey_ok: "mgr_ok m \<Longrightarrow> mgr_ok (fst (resolveByKey now key note m))"
proof (cases "key = [] \<or> im_open m key = None")
  case False
  assume ok: "mgr_ok m"
  from False obtain i where i: "im_open m key = Some i" by auto
  from open_found [OF ok i] obtain inc where
    inc: "find_incident m i = Some inc" "i_key inc = key" "\<not> resolved inc" by blast
  have mem: "inc \<in> set (im_incidents m)" "i_id inc = i" using find_incident_Some [OF inc(1)] by simp_all
  have f: "i_id (resolved_by_key now note x) = i_id x \<and> i_key (resolved_by_key now note x) = i_key x \<and>
      resolved (resolved_by_key now note x) \<and> length (i_timeline (resolved_by_key now note x)) \<le> 200" for x
    by (simp add: resolved_by_key_def)
  have "fst (resolveByKey now key note m) =
      (change_incident i (resolved_by_key now note) m)\<lparr>im_open := (im_open m)(i_key inc := None)\<rparr>"
    using False i inc by (simp add: resolveByKey_def Let_def change_incident_def)
  then show ?thesis using resolve_ok [OF ok mem inc(3) f] by simp
qed (auto simp: resolveByKey_def)

lemma Resolve_ok: "mgr_ok m \<Longrightarrow> mgr_ok (fst (Resolve now i actor m))"
proof (cases "find_incident m i")
  case (Some inc)
  assume ok: "mgr_ok m"
  have mem: "inc \<in> set (im_incidents m)" "i_id inc = i" using find_incident_Some [OF Some] by simp_all
  have f: "i_id (resolved_manually now actor x) = i_id x \<and> i_key (resolved_manually now actor x) = i_key x \<and>
      resolved (resolved_manually now actor x) \<and> length (i_timeline (resolved_manually now actor x)) \<le> 200" for x
    by (simp add: resolved_manually_def)
  have open_: "im_open (change_incident i g m) = im_open m" for g by (simp add: change_incident_def)
  show ?thesis
  proof (cases "resolved inc")
    case False
    have "im_open m [] = None" using open_found [OF ok] by (cases "im_open m []") auto
    then have "(im_open m)(i_key inc := None) = im_open m" if "i_key inc = []" using that by auto
    then have "fst (Resolve now i actor m) =
        (change_incident i (resolved_manually now actor) m)\<lparr>im_open := (im_open m)(i_key inc := None)\<rparr>"
      using False Some open_ by (auto simp: Resolve_def Let_def)
    then show ?thesis using resolve_ok [OF ok mem False f] by simp
  qed (use Some ok in \<open>simp add: Resolve_def\<close>)
qed (simp add: Resolve_def)

lemma keeps_ops:
  "keeps (acked now actor)" "keeps (linked now ls actor note)" "keeps (act_last actor)" "keeps (cite_last cites)"
  by (auto simp: keeps_def acked_def linked_def act_last_def cite_last_def Let_def incident_ok_def)

lemma keeps_edits:
  "keeps (\<lambda>inc. addEventLocked now k a t (inc\<lparr>i_assignee := x\<rparr>))"
  "keeps (\<lambda>inc. addEventLocked now k a t (inc\<lparr>i_ticketID := y, i_links := ls inc\<rparr>))"
  "keeps (\<lambda>inc. inc\<lparr>i_loop := lp\<rparr>)"
  by (simp_all add: keeps_def incident_ok_def)

datatype incident_op =
    ORaise int string string string string string string string
  | OResolveKey int string string
  | OAlert int alert_info string bool
  | OAssign int int string string
  | OEvent int int string string string
  | OCite int int string string string "citation list"
  | OAck int int string
  | OResolve int int string
  | OComment int int string string "attachment list"
  | OTicket int int int string
  | OLinks int int "ops_link list" string string
  | OManual int string string string string
  | OManualActor int string
  | OLoop int int loop_state

fun incident_step :: "incident_mgr \<Rightarrow> incident_op \<Rightarrow> incident_mgr" where
  "incident_step m (ORaise now key title severity source hostID hostname typ) =
     fst (raise now key title severity source hostID hostname typ m)"
| "incident_step m (OResolveKey now key note) = fst (resolveByKey now key note m)"
| "incident_step m (OAlert now a key firing) = fst (OnAlertTransition now a key firing m)"
| "incident_step m (OAssign now i assignee actor) = fst (SetAssignee now i assignee actor m)"
| "incident_step m (OEvent now i kind actor txt) = AddEvent now i kind actor txt m"
| "incident_step m (OCite now i kind actor txt cites) = AddEventWithCitations now i kind actor txt cites m"
| "incident_step m (OAck now i actor) = fst (Ack now i actor m)"
| "incident_step m (OResolve now i actor) = fst (Resolve now i actor m)"
| "incident_step m (OComment now i actor txt atts) = fst (Comment now i actor txt atts m)"
| "incident_step m (OTicket now i ticketID actor) = SetTicket now i ticketID actor m"
| "incident_step m (OLinks now i ls actor note) = fst (AddLinks now i ls actor note m)"
| "incident_step m (OManual now title severity hostID hostname) = fst (manual_raise now title severity hostID hostname m)"
| "incident_step m (OManualActor i actor) = fst (manual_actor i actor m)"
| "incident_step m (OLoop now i lp) = fst (SetLoop now i lp m)"

lemma manual_actor_fst: "fst (manual_actor i actor m) = fst (with_incident i (act_last actor) m)"
  by (simp add: manual_actor_def split: prod.split option.split)

text \<open>Undisturbed, the two sections are the whole method.\<close>

lemma CreateManual_steps:
  "fst (CreateManual now title severity hostID hostname actor m) =
   run incident_step m [OManual now title severity hostID hostname,
     OManualActor (fst (snd (manual_raise now title severity hostID hostname m))) actor]"
  by (simp add: CreateManual_def Let_def split_beta)

lemma incident_step_ok: "mgr_ok m \<Longrightarrow> mgr_ok (incident_step m e)"
proof (induction m e rule: incident_step.induct)
  case (3 m now a key firing)
  show ?case
  proof (cases firing)
    case True
    then show ?thesis
      using raise_ok [OF 3, of now key "al_message a" "if al_level a = [] then ''warning'' else al_level a"
          "''alert''" "al_hostID a" "al_hostname a" "al_type a"]
      by (simp add: OnAlertTransition_def Let_def split_beta)
  next
    case False
    then show ?thesis using resolveByKey_ok [OF 3] by (simp add: OnAlertTransition_def)
  qed
next
  case (6 m now i kind actor tx cites)
  have "keeps (\<lambda>inc. cite_last cites (addEventLocked now kind actor tx inc))"
    by (rule keeps_comp [OF keeps_ops(4) keeps_event(1)])
  then show ?case using 6 by (simp add: AddEventWithCitations_def with_incident_ok)
qed (simp_all add: raise_ok resolveByKey_ok Resolve_ok manual_raise_def manual_actor_fst SetAssignee_def AddEvent_def Ack_def Comment_def
    SetTicket_def AddLinks_def SetLoop_def Let_def keeps_ops keeps_event keeps_edits with_incident_ok)

section \<open>Ids are never reused\<close>

lemma with_incident_next [simp]: "im_nextID (fst (with_incident i f m)) = im_nextID m"
  by (simp add: with_incident_def change_incident_def split: option.split)

lemma open_new_next: "im_nextID m \<le> im_nextID (fst (open_new now key title severity source hostID hostname typ m))"
  by (simp add: open_new_def Let_def)

lemma raise_next: "im_nextID m \<le> im_nextID (fst (raise now key title severity source hostID hostname typ m))"
proof (cases "key = [] \<or> im_open m key = None")
  case True
  then show ?thesis using open_new_next by (simp add: raise_opens)
next
  case False
  then obtain i where i: "im_open m key = Some i" by auto
  have "im_nextID m \<le> im_nextID (fst (open_new now key title severity source hostID hostname typ (m\<lparr>im_open := h\<rparr>)))" for h
    using open_new_next [of "m\<lparr>im_open := h\<rparr>"] by simp
  then show ?thesis using False i by (simp add: raise_def split: option.split)
qed

lemma resolveByKey_next: "im_nextID (fst (resolveByKey now key note m)) = im_nextID m"
  by (simp add: resolveByKey_def Let_def change_incident_def split: option.split)

lemma Resolve_next: "im_nextID (fst (Resolve now i actor m)) = im_nextID m"
  by (simp add: Resolve_def Let_def change_incident_def split: option.split)

lemma incident_step_next: "im_nextID m \<le> im_nextID (incident_step m e)"
proof (induction m e rule: incident_step.induct)
  case (3 m now a key firing)
  then show ?case
    using raise_next resolveByKey_next by (simp add: OnAlertTransition_def Let_def split_beta)
qed (simp_all add: raise_next resolveByKey_next Resolve_next manual_raise_def manual_actor_fst SetAssignee_def AddEvent_def Ack_def Comment_def
    AddEventWithCitations_def SetTicket_def AddLinks_def SetLoop_def Let_def)

interpretation incidents: growing_machine newIncidentManager incident_step mgr_ok im_nextID
  by unfold_locales (simp_all add: mgr_ok_new incident_step_ok incident_step_next)

section \<open>The snapshot\<close>

lemma import_loop_index:
  "snd (import_loop mx idx xs) k =
     (case find (\<lambda>inc. i_key inc = k \<and> k \<noteq> [] \<and> \<not> resolved inc) (rev xs) of
        None \<Rightarrow> idx k | Some inc \<Rightarrow> Some (i_id inc))"
proof (induction mx idx xs rule: import_loop.induct)
  case (2 mx idx inc incs)
  have "find P (xs @ ys) = (case find P xs of None \<Rightarrow> find P ys | Some x \<Rightarrow> Some x)" for P :: "incident \<Rightarrow> bool" and xs ys
    by (induction xs) auto
  then show ?case using 2 by (auto split: option.split)
qed simp

lemma import_loop_max:
  "sorted_wrt (<) (map i_id xs) \<Longrightarrow> (\<forall>x\<in>set xs. mx < i_id x) \<Longrightarrow>
   fst (import_loop mx idx xs) = (if xs = [] then mx else i_id (last xs))"
  by (induction mx idx xs rule: import_loop.induct) auto

lemma import_export:
  assumes ok: "mgr_ok m" and ne: "im_incidents m \<noteq> []"
  shows "incidentImport (incidentExport m) = m"
proof -
  let ?xs = "im_incidents m"
  have ids: "ids_ok m" and idx: "index_ok m" using ok by (simp_all add: mgr_ok_def)
  have mx: "fst (import_loop 0 Map.empty ?xs) = im_nextID m"
    using ids ne import_loop_max [of ?xs 0 Map.empty] by (simp add: ids_ok_def)
  have "snd (import_loop 0 Map.empty ?xs) k = im_open m k" for k
  proof (cases "find (\<lambda>inc. i_key inc = k \<and> k \<noteq> [] \<and> \<not> resolved inc) (rev ?xs)")
    case None
    then have "im_open m k \<noteq> Some j" for j using idx by (auto simp: find_None_iff index_ok_def)
    then have "im_open m k = None" by (meson not_Some_eq)
    then show ?thesis using None by (simp add: import_loop_index)
  next
    case (Some inc)
    then have "i_key inc = k \<and> k \<noteq> [] \<and> \<not> resolved inc \<and> inc \<in> set (rev ?xs)"
      unfolding find_Some_iff using nth_mem by blast
    then have "i_key inc = k \<and> k \<noteq> [] \<and> \<not> resolved inc \<and> inc \<in> set ?xs" by simp
    then have "im_open m k = Some (i_id inc)" using idx unfolding index_ok_def by blast
    then show ?thesis using Some by (simp add: import_loop_index)
  qed
  then have idx: "snd (import_loop 0 Map.empty ?xs) = im_open m" by blast
  have "incidentImport (incidentExport m) = \<lparr>im_incidents = ?xs,
      im_nextID = fst (import_loop 0 Map.empty ?xs), im_open = snd (import_loop 0 Map.empty ?xs)\<rparr>"
    by (simp only: incidentImport_def incidentExport_def split_beta Let_def)
  then show ?thesis unfolding mx idx by simp
qed

section \<open>Properties\<close>

lemma distinct_same_length:
  "(\<And>x y. x \<in> set xs \<Longrightarrow> y \<in> set xs \<Longrightarrow> x = y) \<Longrightarrow> distinct xs \<Longrightarrow> length xs \<le> 1"
  by (metis One_nat_def card_le_Suc0_iff_eq distinct_card finite_set)

text \<open>A run of the manager from its start.\<close>

abbreviation reached :: "incident_op list \<Rightarrow> incident_mgr" where
  "reached ops \<equiv> run incident_step newIncidentManager ops"

text \<open>C10. Whatever operations run, no two unresolved incidents share a deduplication key, the index names
  exactly the unresolved incidents with a key, and no timeline exceeds 200 entries.\<close>

theorem incident_dedup_invariant:
  "(im_open (reached ops) k = Some i \<longleftrightarrow>
      k \<noteq> [] \<and> (\<exists>inc\<in>set (im_incidents (reached ops)). i_id inc = i \<and> i_key inc = k \<and> \<not> resolved inc)) \<and>
   length (filter (\<lambda>inc. i_key inc = k \<and> k \<noteq> [] \<and> \<not> resolved inc) (im_incidents (reached ops))) \<le> 1 \<and>
   list_all (\<lambda>inc. length (i_timeline inc) \<le> 200) (im_incidents (reached ops))"
proof -
  let ?m = "reached ops"
  have ok: "mgr_ok ?m" by (rule incidents.inv_run)
  have ids: "ids_ok ?m" and idx: "index_ok ?m" using ok by (simp_all add: mgr_ok_def)
  let ?P = "\<lambda>inc. i_key inc = k \<and> k \<noteq> [] \<and> \<not> resolved inc"
  have "x = y" if "x \<in> set (im_incidents ?m)" "y \<in> set (im_incidents ?m)" "?P x" "?P y" for x y
  proof -
    have "im_open ?m k = Some (i_id x)" "im_open ?m k = Some (i_id y)"
      using idx that unfolding index_ok_def by blast+
    then show ?thesis using that(1,2) ids_distinct [OF ids] by (auto simp: distinct_map dest: inj_onD)
  qed
  then have "x = y" if "x \<in> set (filter ?P (im_incidents ?m))" "y \<in> set (filter ?P (im_incidents ?m))" for x y
    using that by simp
  moreover have "distinct (filter ?P (im_incidents ?m))"
    using ids_distinct [OF ids] by (simp add: distinct_map)
  ultimately have "length (filter ?P (im_incidents ?m)) \<le> 1" by (rule distinct_same_length)
  then show ?thesis using ok idx unfolding index_ok_def mgr_ok_def incident_ok_def list_all_iff by blast
qed

text \<open>Ids only grow: the counter never decreases over a run, every incident's id is at most the counter,
  and a newly opened incident gets an id above all that were ever issued.\<close>

lemma incident_ids_grow:
  "im_nextID (reached ops) \<le> im_nextID (reached (ops @ later)) \<and>
   sorted_wrt (<) (map i_id (im_incidents (reached ops))) \<and>
   list_all (\<lambda>inc. i_id inc \<le> im_nextID (reached ops)) (im_incidents (reached ops)) \<and>
   (case raise now key title severity source hostID hostname typ (reached ops) of
      (m', i, isNew, ev) \<Rightarrow> isNew = (im_nextID (reached ops) < i))"
proof -
  let ?m = "reached ops"
  have ok: "mgr_ok ?m" by (rule incidents.inv_run)
  then have ids: "ids_ok ?m" by (simp add: mgr_ok_def)
  have "case raise now key title severity source hostID hostname typ ?m of
      (m', i, isNew, ev) \<Rightarrow> isNew = (im_nextID ?m < i)"
  proof (cases "key = [] \<or> im_open ?m key = None")
    case True
    then show ?thesis by (simp add: raise_opens open_new_def Let_def)
  next
    case False
    then obtain i where i: "im_open ?m key = Some i" by auto
    from open_found [OF ok i] obtain inc where f: "find_incident ?m i = Some inc" by blast
    have "i \<le> im_nextID ?m" using ids_bounded [OF ids] find_incident_Some [OF f] by auto
    then show ?thesis using raise_reuses [OF ok i] by simp
  qed
  moreover have "list_all (\<lambda>inc. i_id inc \<le> im_nextID ?m) (im_incidents ?m)"
    using ids_bounded [OF ids] by (simp add: list_all_iff)
  moreover have "sorted_wrt (<) (map i_id (im_incidents ?m))" using ids by (simp add: ids_ok_def)
  ultimately show ?thesis using incidents.level_run_prefix [of ops later] by (intro conjI)
qed

text \<open>A flapping condition opens one incident: once an incident with a key is raised, raising the key
  again returns the same id, reports nothing new and changes nothing, until the key recovers; then
  that incident is the one resolved.\<close>

lemma raise_idempotent:
  assumes "key \<noteq> []"
    and "raise now key title severity source hostID hostname typ (reached ops) = (m', i, isNew, ev)"
  shows "raise now2 key title2 severity2 source2 hostID2 hostname2 typ2 m' = (m', i, False, None) \<and>
    fst (snd (resolveByKey now3 key note m')) = i \<and>
    im_open (fst (resolveByKey now3 key note m')) key = None"
proof -
  have ok: "mgr_ok (reached ops)" by (rule incidents.inv_run)
  have ok1: "mgr_ok m'"
    using raise_ok [OF ok, of now key title severity source hostID hostname "typ"] assms(2) by simp
  have i: "im_open m' key = Some i"
  proof (cases "im_open (reached ops) key")
    case None
    then have "open_new now key title severity source hostID hostname typ (reached ops) = (m', i, isNew, ev)"
      using assms(2) by (simp add: raise_opens)
    then show ?thesis using assms(1) by (auto simp: open_new_def Let_def)
  next
    case (Some j)
    then show ?thesis using raise_reuses [OF ok Some] assms(2) by auto
  qed
  from open_found [OF ok1 i] obtain inc where
    "find_incident m' i = Some inc" "i_id inc = i" "\<not> resolved inc" by blast
  then show ?thesis using raise_reuses [OF ok1 i] i assms(1)
    by (simp add: resolveByKey_def Let_def resolved_by_key_def change_incident_def)
qed

theorem raise_idempotent_witness:
  "raise 9 ''cpu'' ''b'' ''info'' ''alert'' ''h'' ''n'' ''t''
      (fst (raise 5 ''cpu'' ''a'' ''critical'' ''alert'' [] [] [] (reached []))) =
    (fst (raise 5 ''cpu'' ''a'' ''critical'' ''alert'' [] [] [] (reached [])), 2, False, None) \<and>
   fst (snd (resolveByKey 11 ''cpu'' ''ok''
      (fst (raise 5 ''cpu'' ''a'' ''critical'' ''alert'' [] [] [] (reached []))))) = 2 \<and>
   im_open (fst (resolveByKey 11 ''cpu'' ''ok''
      (fst (raise 5 ''cpu'' ''a'' ''critical'' ''alert'' [] [] [] (reached []))))) ''cpu'' = None"
proof -
  let ?r = "raise 5 ''cpu'' ''a'' ''critical'' ''alert'' [] [] [] (reached [])"
  have "fst (snd ?r) = 2" by (simp add: raise_def newIncidentManager_def open_new_def Let_def)
  then have "?r = (fst ?r, 2, fst (snd (snd ?r)), snd (snd (snd ?r)))" by (metis prod.collapse)
  from raise_idempotent [OF _ this] show ?thesis by simp
qed

text \<open>Trimming the history never loses an open problem: raising keeps every unresolved incident, and leaves
  at most 500 incidents or only as many as are unresolved.\<close>

lemma history_trim_safe:
  "filter (\<lambda>inc. \<not> resolved inc) (trimLocked incs) = filter (\<lambda>inc. \<not> resolved inc) incs \<and>
   set (trimLocked incs) \<subseteq> set incs \<and>
   length (trimLocked incs) \<le> max 500 (length (filter (\<lambda>inc. \<not> resolved inc) incs))"
  using trimLocked_set [of incs] trimLocked_length [of incs] trim_loop_filter
  by (simp add: trimLocked_def)

text \<open>A snapshot restores the manager: importing what a run exported gives back the same incidents, the
  same counter and the same index.\<close>

theorem incident_snapshot_roundtrip:
  assumes "im_incidents (reached ops) \<noteq> []"
  shows "incidentImport (incidentExport (reached ops)) = reached ops"
  using import_export [OF incidents.inv_run assms] .

theorem incident_snapshot_roundtrip_witness:
  "incidentImport (incidentExport (reached [ORaise 5 ''k'' ''t'' ''info'' ''slo'' [] [] []])) =
   reached [ORaise 5 ''k'' ''t'' ''info'' ''slo'' [] [] []]"
  by (rule incident_snapshot_roundtrip)
    (simp add: raise_def open_new_def newIncidentManager_def Let_def trimLocked_def incidentHistoryCap_def)

end
