(* ===== verification/Change.thy ===== *)
theory Change
  imports OpsLink Transition
begin

text \<open>
  Change records and change windows (\<open>cmd/server/change.go\<close>), the separation of duties of an approval
  (\<open>changeSoDAllows\<close> in \<open>cmd/server/trust_ops.go\<close>) and the gate of the HTTP handler that writes a
  record (\<open>handleUpsertChange\<close> in \<open>cmd/server/enterprise_ops_api.go\<close>).

  The clock is the argument \<open>now\<close>; the local calendar (weekday and minute of the day of a Unix time)
  is the record \<open>clock\<close>. \<open>cs.save()\<close>, which writes the configuration file, is not modelled. The code
  sorts lists by \<open>StartedAt\<close> with an unstable sort; the model's sort is one of its results.
\<close>

section \<open>Statuses\<close>

definition normalizeChangeStatus :: "string \<Rightarrow> string" where
  "normalizeChangeStatus st0 =
     (let st = to_lower (trim_space st0) in
      if st = ''planned'' then ''draft''
      else if st \<in> {''draft'', ''pending_approval'', ''approved'', ''scheduled'', ''in_progress'',
                    ''completed'', ''rolled_back'', ''rejected'', ''cancelled''} then st
      else if st = [] then ''draft'' else st)"

definition changeStatuses :: "string list" where
  "changeStatuses = [''draft'', ''pending_approval'', ''approved'', ''scheduled'', ''in_progress'',
     ''completed'', ''rolled_back'', ''rejected'', ''cancelled'', ''planned'']"

section \<open>Records\<close>

record change_record =
  cr_id :: int
  cr_title :: string
  cr_summary :: string
  cr_kind :: string
  cr_status :: string
  cr_risk :: string
  cr_plan :: string
  cr_rollbackPlan :: string
  cr_testPlan :: string
  cr_hostIDs :: "string list"
  cr_services :: "string list"
  cr_windowID :: string
  cr_ticketIDs :: "int list"
  cr_sqlIDs :: "string list"
  cr_links :: "ops_link list"
  cr_startedAt :: int
  cr_endedAt :: int
  cr_approvedAt :: int
  cr_executedAt :: int
  cr_author :: string
  cr_approver :: string
  cr_externalRef :: string
  cr_incidentIDs :: "int list"
  cr_createdAt :: int
  cr_updatedAt :: int

definition blank_change :: change_record where
  "blank_change = \<lparr>cr_id = 0, cr_title = [], cr_summary = [], cr_kind = [], cr_status = [], cr_risk = [],
     cr_plan = [], cr_rollbackPlan = [], cr_testPlan = [], cr_hostIDs = [], cr_services = [],
     cr_windowID = [], cr_ticketIDs = [], cr_sqlIDs = [], cr_links = [], cr_startedAt = 0, cr_endedAt = 0,
     cr_approvedAt = 0, cr_executedAt = 0, cr_author = [], cr_approver = [], cr_externalRef = [],
     cr_incidentIDs = [], cr_createdAt = 0, cr_updatedAt = 0\<rparr>"

record change_mgr =
  cm_records :: "change_record list"
  cm_nextID :: int

definition newChangeManager :: change_mgr where
  "newChangeManager = \<lparr>cm_records = [], cm_nextID = 0\<rparr>"

text \<open>The links the index fields ask for, in the order of the code's loops.\<close>

definition index_links :: "change_record \<Rightarrow> ops_link list" where
  "index_links r =
     map (\<lambda>i. incidentOpsLink i ''related'') (filter (\<lambda>i. 0 < i) (cr_incidentIDs r)) @
     map ticketOpsLink (filter (\<lambda>i. 0 < i) (cr_ticketIDs r)) @
     map sqlChangeOpsLink (filter (\<lambda>s. s \<noteq> []) (cr_sqlIDs r)) @
     map (\<lambda>h. \<lparr>ol_type = ''host'', ol_id = h, ol_role = ''affects'', ol_name = []\<rparr>)
       (filter (\<lambda>h. h \<noteq> []) (cr_hostIDs r))"

definition index_link :: "change_record \<Rightarrow> ops_link \<Rightarrow> change_record" where
  "index_link r l =
     (if ol_type l = ''incident'' then
        (let i = parseOpsLinkInt (ol_id l)
         in if 0 < i then r\<lparr>cr_incidentIDs := appendUniqueInt64 (cr_incidentIDs r) i\<rparr> else r)
      else if ol_type l = ''ticket'' then
        (let i = parseOpsLinkInt (ol_id l)
         in if 0 < i then r\<lparr>cr_ticketIDs := appendUniqueInt64 (cr_ticketIDs r) i\<rparr> else r)
      else if ol_type l = ''sql_change'' then r\<lparr>cr_sqlIDs := appendUniqueString (cr_sqlIDs r) (ol_id l)\<rparr>
      else if ol_type l = ''host'' then r\<lparr>cr_hostIDs := appendUniqueString (cr_hostIDs r) (ol_id l)\<rparr>
      else r)"

definition syncChangeLinkIndexes :: "change_record \<Rightarrow> change_record" where
  "syncChangeLinkIndexes r =
     (let ls = foldl merge_one (cr_links r) (index_links r)
      in foldl index_link (r\<lparr>cr_links := ls\<rparr>) ls)"

section \<open>The manager\<close>

datatype change_error =
    EmptyTitle | NoSuchChange | SelfApproval string
  | NotSubmittable | NotApprovable | NotRejectable | NotSchedulable | NotStartable | FreezeNeedsApproval
  | NotInProgress | NotRollbackable | TerminalState | UnknownAction string
  | FreezeBlocksStart | FreezeBlocksCreate

definition changeExport :: "change_mgr \<Rightarrow> change_record list" where
  "changeExport m = cm_records m"

definition import_record :: "change_record \<Rightarrow> change_record" where
  "import_record r = syncChangeLinkIndexes (r\<lparr>cr_status := normalizeChangeStatus (cr_status r)\<rparr>)"

definition changeImport :: "change_record list \<Rightarrow> change_mgr \<Rightarrow> change_mgr" where
  "changeImport rs m =
     (let maxID = foldl (\<lambda>mx r. if mx < cr_id r then cr_id r else mx) 0 rs
      in \<lparr>cm_records = map import_record rs,
          cm_nextID = (if cm_nextID m \<le> maxID then maxID else cm_nextID m)\<rparr>)"

definition newest_first :: "change_record list \<Rightarrow> change_record list" where
  "newest_first rs = sort_key (\<lambda>r. - cr_startedAt r) rs"

definition normal_status :: "change_record \<Rightarrow> change_record" where
  "normal_status r = r\<lparr>cr_status := normalizeChangeStatus (cr_status r)\<rparr>"

definition changeList :: "change_mgr \<Rightarrow> change_record list" where
  "changeList m = newest_first (map normal_status (cm_records m))"

definition changeListRow :: "change_record \<Rightarrow> change_record \<times> bool \<times> bool \<times> bool" where
  "changeListRow c =
     (c\<lparr>cr_plan := [], cr_rollbackPlan := [], cr_testPlan := []\<rparr>,
      trim_space (cr_plan c) \<noteq> [], trim_space (cr_rollbackPlan c) \<noteq> [], trim_space (cr_testPlan c) \<noteq> [])"

definition changeListRows :: "change_record list \<Rightarrow> (change_record \<times> bool \<times> bool \<times> bool) list" where
  "changeListRows cs = map changeListRow cs"

definition find_change :: "change_mgr \<Rightarrow> int \<Rightarrow> change_record option" where
  "find_change m i = find (\<lambda>r. cr_id r = i) (cm_records m)"

definition changeGet :: "change_mgr \<Rightarrow> int \<Rightarrow> change_record option" where
  "changeGet m i = map_option normal_status (find_change m i)"

definition set_change :: "int \<Rightarrow> change_record \<Rightarrow> change_mgr \<Rightarrow> change_mgr" where
  "set_change i r m = m\<lparr>cm_records := update_first (\<lambda>x. cr_id x = i) (\<lambda>_. r) (cm_records m)\<rparr>"

text \<open>The input of \<open>Upsert\<close> after its defaults, before it is stored.\<close>

definition upsert_defaults :: "change_record \<Rightarrow> change_record" where
  "upsert_defaults in0 =
     (let st = normalizeChangeStatus (cr_status in0);
          st1 = (if st \<notin> set changeStatuses \<and> st \<noteq> ''planned'' then ''draft'' else st);
          in1 = in0\<lparr>cr_title := trim_space (cr_title in0),
                    cr_kind := (if cr_kind in0 = [] then ''other'' else cr_kind in0),
                    cr_status := normalizeChangeStatus st1,
                    cr_risk := (if cr_risk in0 = [] then ''medium'' else cr_risk in0),
                    cr_links := mergeOpsLinks [] (cr_links in0)\<rparr>
      in syncChangeLinkIndexes in1)"

definition upsert_new :: "int \<Rightarrow> string \<Rightarrow> int \<Rightarrow> change_record \<Rightarrow> change_record" where
  "upsert_new now actor i r =
     r\<lparr>cr_id := i, cr_createdAt := now,
       cr_author := (if cr_author r = [] then actor else cr_author r),
       cr_startedAt := (if cr_startedAt r = 0 then now else cr_startedAt r),
       cr_status := (if cr_status r = [] then ''draft'' else cr_status r),
       cr_updatedAt := now\<rparr>"

definition upsert_existing :: "int \<Rightarrow> change_record \<Rightarrow> change_record \<Rightarrow> change_record" where
  "upsert_existing now prev r =
     (syncChangeLinkIndexes
       (r\<lparr>cr_createdAt := cr_createdAt prev,
          cr_author := (if cr_author r = [] then cr_author prev else cr_author r),
          cr_approvedAt := (if cr_approvedAt r = 0 then cr_approvedAt prev else cr_approvedAt r),
          cr_executedAt := (if cr_executedAt r = 0 then cr_executedAt prev else cr_executedAt r),
          cr_approver := (if cr_approver r = [] then cr_approver prev else cr_approver r),
          cr_links := (if cr_links r = [] then cr_links prev else mergeOpsLinks (cr_links prev) (cr_links r)),
          cr_sqlIDs := (if cr_sqlIDs r = [] then cr_sqlIDs prev else cr_sqlIDs r),
          cr_ticketIDs := (if cr_ticketIDs r = [] then cr_ticketIDs prev else cr_ticketIDs r),
          cr_incidentIDs := (if cr_incidentIDs r = [] then cr_incidentIDs prev else cr_incidentIDs r)\<rparr>))
       \<lparr>cr_updatedAt := now\<rparr>"

definition changeUpsert ::
    "int \<Rightarrow> change_record \<Rightarrow> string \<Rightarrow> change_mgr \<Rightarrow> change_mgr \<times> (change_error + change_record)" where
  "changeUpsert now in0 actor m =
     (if trim_space (cr_title in0) = [] then (m, Inl EmptyTitle)
      else let r = upsert_defaults in0 in
           if cr_id r = 0 then
             (let i = cm_nextID m + 1; r1 = upsert_new now actor i r
              in (m\<lparr>cm_nextID := i, cm_records := cm_records m @ [r1]\<rparr>, Inr r1))
           else case find_change m (cr_id r) of
                  None \<Rightarrow> (m, Inl NoSuchChange)
                | Some prev \<Rightarrow>
                    let r1 = upsert_existing now prev r in (set_change (cr_id r) r1 m, Inr r1))"

section \<open>The workflow\<close>

definition changeSoDAllows :: "change_record \<Rightarrow> string \<Rightarrow> string \<Rightarrow> bool \<Rightarrow> change_error option" where
  "changeSoDAllows rec action0 actor0 breakGlass =
     (let action = to_lower (trim_space action0); author = trim_space (cr_author rec);
          actor = trim_space actor0
      in if action \<noteq> ''approve'' then None
         else if author = [] \<or> actor = [] \<or> \<not> equal_fold author actor then None
         else if breakGlass then None
         else Some (SelfApproval author))"

text \<open>The switch of \<open>TransitionSoD\<close>: the record with its new fields and the next status.\<close>

definition apply_action ::
    "int \<Rightarrow> string \<Rightarrow> string \<Rightarrow> bool \<Rightarrow> change_record \<Rightarrow> change_error + (change_record \<times> string)" where
  "apply_action now action actor freezeActive r =
     (let cur = normalizeChangeStatus (cr_status r) in
      if action = ''submit'' then
        (if cur \<noteq> ''draft'' \<and> cur \<noteq> ''rejected'' then Inl NotSubmittable else Inr (r, ''pending_approval''))
      else if action = ''approve'' then
        (if cur \<noteq> ''pending_approval'' \<and> cur \<noteq> ''draft'' then Inl NotApprovable
         else Inr (r\<lparr>cr_approver := actor, cr_approvedAt := now\<rparr>, ''approved''))
      else if action = ''reject'' then
        (if cur \<noteq> ''pending_approval'' \<and> cur \<noteq> ''draft'' then Inl NotRejectable
         else Inr (r\<lparr>cr_approver := actor\<rparr>, ''rejected''))
      else if action = ''schedule'' then
        (if cur \<noteq> ''approved'' then Inl NotSchedulable else Inr (r, ''scheduled''))
      else if action = ''start'' then
        (if cur \<noteq> ''approved'' \<and> cur \<noteq> ''scheduled'' \<and> cur \<noteq> ''draft'' then Inl NotStartable
         else let needsApproval = freezeActive \<and> (cr_risk r = ''high'' \<or> cr_kind r = ''emergency'') in
              if needsApproval \<and> cur \<noteq> ''approved'' \<and> cur \<noteq> ''scheduled'' then Inl FreezeNeedsApproval
              else Inr (r\<lparr>cr_executedAt := now,
                          cr_startedAt := (if cr_startedAt r = 0 then now else cr_startedAt r)\<rparr>,
                        ''in_progress''))
      else if action = ''complete'' then
        (if cur \<noteq> ''in_progress'' then Inl NotInProgress else Inr (r\<lparr>cr_endedAt := now\<rparr>, ''completed''))
      else if action = ''rollback'' then
        (if cur \<noteq> ''in_progress'' \<and> cur \<noteq> ''completed'' then Inl NotRollbackable
         else Inr (r\<lparr>cr_endedAt := now\<rparr>, ''rolled_back''))
      else if action = ''cancel'' then
        (if cur = ''completed'' \<or> cur = ''rolled_back'' then Inl TerminalState
         else Inr (r\<lparr>cr_endedAt := now\<rparr>, ''cancelled''))
      else Inl (UnknownAction action))"

definition TransitionSoD ::
    "int \<Rightarrow> int \<Rightarrow> string \<Rightarrow> string \<Rightarrow> bool \<Rightarrow> bool \<Rightarrow> change_mgr \<Rightarrow>
     change_mgr \<times> (change_error + change_record)" where
  "TransitionSoD now i action0 actor freezeActive breakGlass m =
     (let action = to_lower (trim_space action0) in
      case find_change m i of
        None \<Rightarrow> (m, Inl NoSuchChange)
      | Some r \<Rightarrow>
          (case changeSoDAllows r action actor breakGlass of
             Some err \<Rightarrow> (m, Inl err)
           | None \<Rightarrow>
               (case apply_action now action actor freezeActive r of
                  Inl err \<Rightarrow> (m, Inl err)
                | Inr (r1, nextSt) \<Rightarrow>
                    let r2 = r1\<lparr>cr_status := nextSt, cr_updatedAt := now\<rparr>
                    in (set_change i r2 m, Inr r2))))"

definition Transition ::
    "int \<Rightarrow> int \<Rightarrow> string \<Rightarrow> string \<Rightarrow> bool \<Rightarrow> change_mgr \<Rightarrow> change_mgr \<times> (change_error + change_record)" where
  "Transition now i action actor freezeActive m = TransitionSoD now i action actor freezeActive False m"

section \<open>Links of a record\<close>

definition relinked ::
    "int \<Rightarrow> ops_link list \<Rightarrow> string \<Rightarrow> string \<Rightarrow> string \<Rightarrow> change_record \<Rightarrow> change_record" where
  "relinked now add removeType removeID removeRole r =
     (let l1 = (if removeType \<noteq> [] \<and> removeID \<noteq> []
                then removeOpsLink (cr_links r) removeType removeID removeRole else cr_links r);
          l2 = (if add \<noteq> [] then mergeOpsLinks l1 add else l1)
      in (syncChangeLinkIndexes (r\<lparr>cr_links := l2\<rparr>))\<lparr>cr_updatedAt := now\<rparr>)"

definition changeLink ::
    "int \<Rightarrow> int \<Rightarrow> ops_link list \<Rightarrow> string \<Rightarrow> string \<Rightarrow> string \<Rightarrow> change_mgr \<Rightarrow>
     change_mgr \<times> (change_error + change_record)" where
  "changeLink now i add removeType removeID removeRole m =
     (case find_change m i of
        None \<Rightarrow> (m, Inl NoSuchChange)
      | Some r \<Rightarrow>
          let r1 = relinked now add removeType removeID removeRole r in (set_change i r1 m, Inr r1))"

definition LinkIncident :: "int \<Rightarrow> int \<Rightarrow> int \<Rightarrow> change_mgr \<Rightarrow> change_mgr \<times> (change_error + change_record)" where
  "LinkIncident now changeID incidentID m =
     changeLink now changeID [incidentOpsLink incidentID ''related''] [] [] [] m"

definition sql_match :: "string \<Rightarrow> change_record \<Rightarrow> bool" where
  "sql_match sqlID r \<longleftrightarrow> sqlID \<in> set (cr_sqlIDs r) \<or>
     (\<exists>l\<in>set (cr_links r). ol_type l = ''sql_change'' \<and> ol_id l = sqlID)"

definition sql_updated :: "int \<Rightarrow> string \<Rightarrow> string \<Rightarrow> string \<Rightarrow> change_record \<Rightarrow> change_record" where
  "sql_updated now title summary status r =
     syncChangeLinkIndexes (r\<lparr>cr_title := (if title \<noteq> [] then title else cr_title r),
       cr_summary := (if summary \<noteq> [] then summary else cr_summary r),
       cr_status := (if status \<noteq> [] then normalizeChangeStatus status else cr_status r),
       cr_updatedAt := now\<rparr>)"

definition UpsertFromSQLChange ::
    "int \<Rightarrow> string \<Rightarrow> string \<Rightarrow> string \<Rightarrow> string \<Rightarrow> string \<Rightarrow> string \<Rightarrow> string \<Rightarrow> change_mgr \<Rightarrow>
     change_mgr \<times> change_record" where
  "UpsertFromSQLChange now sqlID title summary kind0 risk0 author status m =
     (let kind = (if kind0 = [] then ''sql'' else kind0); risk = (if risk0 = [] then ''medium'' else risk0) in
      case find (sql_match sqlID) (cm_records m) of
        Some r \<Rightarrow>
          (m\<lparr>cm_records := update_first (sql_match sqlID) (sql_updated now title summary status) (cm_records m)\<rparr>,
           sql_updated now title summary status r)
      | None \<Rightarrow>
          let i = cm_nextID m + 1;
              r = syncChangeLinkIndexes
                (blank_change\<lparr>cr_id := i, cr_title := title, cr_summary := summary, cr_kind := kind, cr_risk := risk,
                   cr_status := normalizeChangeStatus (firstNonEmptyOrDash [status, ''pending_approval'']),
                   cr_author := author, cr_sqlIDs := [sqlID], cr_links := [sqlChangeOpsLink sqlID],
                   cr_startedAt := now, cr_createdAt := now, cr_updatedAt := now\<rparr>)
          in (m\<lparr>cm_nextID := i, cm_records := cm_records m @ [r]\<rparr>, r))"

definition touches_hosts :: "string list \<Rightarrow> change_record \<Rightarrow> bool" where
  "touches_hosts want r \<longleftrightarrow> want = [] \<or> (\<exists>h\<in>set (cr_hostIDs r). h \<in> set want) \<or>
     (\<exists>l\<in>set (cr_links r). ol_type l = ''host'' \<and> ol_id l \<in> set want)"

definition RelatedToHosts :: "string list \<Rightarrow> int \<Rightarrow> change_mgr \<Rightarrow> change_record list" where
  "RelatedToHosts hostIDs since m =
     (let want = filter (\<lambda>h. h \<noteq> []) hostIDs;
          out = filter (\<lambda>r. \<not> (cr_startedAt r < since \<and> (cr_endedAt r = 0 \<or> cr_endedAt r < since)) \<and>
                  touches_hosts want r) (cm_records m)
      in take 20 (newest_first out))"

section \<open>Change windows\<close>

record change_window =
  cw_id :: string
  cw_name :: string
  cw_start :: int
  cw_end :: int
  cw_hostIDs :: "string list"
  cw_categories :: "string list"
  cw_freeze :: bool
  cw_note :: string
  cw_updatedAt :: int
  cw_sloIDs :: "string list"
  cw_version :: string
  cw_serviceIDs :: "string list"
  cw_dependsOn :: "string list"
  cw_recur :: string
  cw_recurStartHM :: string
  cw_recurEndHM :: string
  cw_recurWeekdays :: "int list"

record clock =
  ck_weekday :: "int \<Rightarrow> int"
  ck_minute :: "int \<Rightarrow> int"

text \<open>A decimal number in Go's 64-bit \<open>int\<close>, which wraps; \<open>None\<close> at a character that is no digit.\<close>

fun hm_digits :: "64 word \<Rightarrow> string \<Rightarrow> 64 word option" where
  "hm_digits h [] = Some h"
| "hm_digits h (c # cs) =
     (let n = of_char c :: nat in
      if n < 48 \<or> 57 < n then None else hm_digits (h * 10 + word_of_nat (n - 48)) cs)"

definition parseHM :: "string \<Rightarrow> int" where
  "parseHM s =
     (case split_sep (trim_space s) '':'' of
        [a, b] \<Rightarrow>
          (case (hm_digits 0 a, hm_digits 0 b) of
             (Some h, Some m) \<Rightarrow> if 23 < sint h \<or> 59 < sint m then - 1 else sint (h * 60 + m)
           | _ \<Rightarrow> - 1)
      | _ \<Rightarrow> - 1)"

definition changeWindowActiveAt :: "clock \<Rightarrow> change_window \<Rightarrow> int \<Rightarrow> bool" where
  "changeWindowActiveAt ck w now =
     (if trim_space (cw_recur w) = [] then
        (if now < cw_start w then False else if 0 < cw_end w \<and> cw_end w < now then False else True)
      else let startMin = parseHM (cw_recurStartHM w); endMin = parseHM (cw_recurEndHM w);
               cur = ck_minute ck now; wd = ck_weekday ck now;
               weekly = equal_fold (cw_recur w) ''weekly'' \<and> cw_recurWeekdays w \<noteq> [];
               hit = wd \<in> set (cw_recurWeekdays w)
           in if startMin < 0 \<or> endMin < 0 then False
              else if weekly \<and> \<not> hit \<and> endMin \<le> startMin
              then (wd + 6) mod 7 \<in> set (cw_recurWeekdays w) \<and> cur < endMin
              else if weekly \<and> \<not> hit then False
              else if startMin < endMin then startMin \<le> cur \<and> cur < endMin
              else startMin \<le> cur \<or> cur < endMin)"

definition window_covers :: "string \<Rightarrow> string \<Rightarrow> change_window \<Rightarrow> bool" where
  "window_covers hostID category w \<longleftrightarrow>
     (cw_hostIDs w = [] \<and> cw_categories w = []) \<or> hostID \<in> set (cw_hostIDs w) \<or>
     (\<exists>c\<in>set (cw_categories w). c \<noteq> [] \<and> c = category)"

definition activeFreezeWindow ::
    "clock \<Rightarrow> change_window list \<Rightarrow> string \<Rightarrow> string \<Rightarrow> int \<Rightarrow> change_window option" where
  "activeFreezeWindow ck ws hostID category now =
     find (\<lambda>w. cw_freeze w \<and> changeWindowActiveAt ck w now \<and> window_covers hostID category w) ws"

fun first_freeze :: "clock \<Rightarrow> change_window list \<Rightarrow> string list \<Rightarrow> int \<Rightarrow> change_window option" where
  "first_freeze ck ws [] now = None"
| "first_freeze ck ws (h # hs) now =
     (case activeFreezeWindow ck ws h [] now of Some w \<Rightarrow> Some w | None \<Rightarrow> first_freeze ck ws hs now)"

definition activeFreezeForHosts ::
    "clock \<Rightarrow> change_window list \<Rightarrow> string list \<Rightarrow> int \<Rightarrow> change_window option" where
  "activeFreezeForHosts ck ws hostIDs now =
     (if hostIDs = [] then activeFreezeWindow ck ws [] [] now else first_freeze ck ws hostIDs now)"

datatype window_error = EmptyWindowName | BadRecurrence | MissingTimes | EndBeforeStart

definition UpsertChangeWindow ::
    "int \<Rightarrow> string \<Rightarrow> change_window \<Rightarrow> change_window list \<Rightarrow>
     change_window list \<times> (window_error + change_window)" where
  "UpsertChangeWindow now token w0 ws =
     (let w1 = w0\<lparr>cw_name := trim_space (cw_name w0), cw_recur := to_lower (trim_space (cw_recur w0))\<rparr> in
      if cw_name w1 = [] then (ws, Inl EmptyWindowName)
      else if cw_recur w1 \<noteq> [] \<and> cw_recur w1 \<noteq> ''daily'' \<and> cw_recur w1 \<noteq> ''weekly'' then (ws, Inl BadRecurrence)
      else if cw_recur w1 \<noteq> [] \<and> (parseHM (cw_recurStartHM w1) < 0 \<or> parseHM (cw_recurEndHM w1) < 0)
      then (ws, Inl MissingTimes)
      else if cw_recur w1 = [] \<and> 0 < cw_end w1 \<and> cw_end w1 < cw_start w1 then (ws, Inl EndBeforeStart)
      else let w2 = w1\<lparr>cw_updatedAt := now\<rparr> in
           if cw_id w2 = [] then
             (let w3 = w2\<lparr>cw_id := take 8 token\<rparr> in (ws @ [w3], Inr w3))
           else if cw_id w2 \<in> cw_id ` set ws
           then (update_first (\<lambda>w. cw_id w = cw_id w2) (\<lambda>_. w2) ws, Inr w2)
           else (ws @ [w2], Inr w2))"

definition DeleteChangeWindow :: "string \<Rightarrow> change_window list \<Rightarrow> change_window list" where
  "DeleteChangeWindow i ws = filter (\<lambda>w. cw_id w \<noteq> i) ws"

section \<open>The handler that writes a record\<close>

definition handleUpsertChange ::
    "clock \<Rightarrow> change_window list \<Rightarrow> int \<Rightarrow> change_record \<Rightarrow> string \<Rightarrow> change_mgr \<Rightarrow>
     change_mgr \<times> (change_error + change_record)" where
  "handleUpsertChange ck ws now in0 actor m =
     (let in1 = in0\<lparr>cr_status := normalizeChangeStatus (cr_status in0)\<rparr>;
          gated = (cr_status in1 = ''in_progress'');
          frozen = (\<lambda>hosts. activeFreezeForHosts ck ws hosts now \<noteq> None)
      in if gated \<and> 0 < cr_id in1 then
           (case changeGet m (cr_id in1) of
              None \<Rightarrow> changeUpsert now in1 actor m
            | Some prev \<Rightarrow>
                let hosts = (if cr_hostIDs in1 = [] then cr_hostIDs prev else cr_hostIDs in1);
                    in2 = in1\<lparr>cr_risk := (if cr_risk in1 = [] then cr_risk prev else cr_risk in1),
                              cr_kind := (if cr_kind in1 = [] then cr_kind prev else cr_kind in1)\<rparr>;
                    prevSt = normalizeChangeStatus (cr_status prev);
                    needs = frozen hosts \<and> (cr_risk in2 = ''high'' \<or> cr_kind in2 = ''emergency'')
                in if needs \<and> prevSt \<noteq> ''approved'' \<and> prevSt \<noteq> ''scheduled'' \<and> prevSt \<noteq> ''in_progress''
                   then (m, Inl FreezeBlocksStart)
                   else changeUpsert now in2 actor m)
         else if gated then
           (if frozen (cr_hostIDs in1) \<and> (cr_risk in1 = ''high'' \<or> cr_kind in1 = ''emergency'')
            then (m, Inl FreezeBlocksCreate)
            else changeUpsert now in1 actor m)
         else changeUpsert now in1 actor m)"

text \<open>The handler behind the routes \<open>/submit\<close>, \<open>/approve\<close>, \<open>/start\<close> and the others.\<close>

definition handleChangeAction ::
    "clock \<Rightarrow> change_window list \<Rightarrow> int \<Rightarrow> int \<Rightarrow> string \<Rightarrow> string \<Rightarrow> bool \<Rightarrow> bool \<Rightarrow> change_mgr \<Rightarrow>
     change_mgr \<times> (change_error + change_record)" where
  "handleChangeAction ck ws now i action actor admin breakGlassAsked m =
     (case changeGet m i of
        None \<Rightarrow> (m, Inl NoSuchChange)
      | Some rec \<Rightarrow>
          TransitionSoD now i action actor (activeFreezeForHosts ck ws (cr_hostIDs rec) now \<noteq> None)
            (admin \<and> breakGlassAsked) m)"

section \<open>Link indexes\<close>

lemma foldl_keeps: "(\<And>r l. g (f r l) = g r) \<Longrightarrow> g (foldl f r ls) = g r"
  by (induction ls arbitrary: r) simp_all

lemma index_link_keeps:
  "cr_id (index_link r l) = cr_id r" "cr_status (index_link r l) = cr_status r"
  "cr_author (index_link r l) = cr_author r" "cr_links (index_link r l) = cr_links r"
  "cr_title (index_link r l) = cr_title r" "cr_risk (index_link r l) = cr_risk r"
  "cr_kind (index_link r l) = cr_kind r"
  by (simp_all add: index_link_def Let_def)

lemma sync_keeps [simp]:
  "cr_id (syncChangeLinkIndexes r) = cr_id r" "cr_status (syncChangeLinkIndexes r) = cr_status r"
  "cr_author (syncChangeLinkIndexes r) = cr_author r" "cr_title (syncChangeLinkIndexes r) = cr_title r"
  "cr_risk (syncChangeLinkIndexes r) = cr_risk r" "cr_kind (syncChangeLinkIndexes r) = cr_kind r"
  by (simp_all add: syncChangeLinkIndexes_def Let_def foldl_keeps [where g = cr_id] foldl_keeps [where g = cr_status]
      foldl_keeps [where g = cr_author] foldl_keeps [where g = cr_title] foldl_keeps [where g = cr_risk]
      foldl_keeps [where g = cr_kind] index_link_keeps)

lemma sync_links: "cr_links (syncChangeLinkIndexes r) = foldl merge_one (cr_links r) (index_links r)"
  by (simp add: syncChangeLinkIndexes_def Let_def foldl_keeps [where g = cr_links] index_link_keeps)

definition link_numbers :: "string \<Rightarrow> ops_link list \<Rightarrow> int set" where
  "link_numbers t ls = {i. 0 < i \<and> (\<exists>l\<in>set ls. ol_type l = t \<and> parseOpsLinkInt (ol_id l) = i)}"

lemma set_appendUniqueInt64: "set (appendUniqueInt64 xs v) = insert v (set xs)"
  by (auto simp: appendUniqueInt64_def)

lemma link_numbers_Cons:
  "link_numbers t (l # ls) =
     (if ol_type l = t \<and> 0 < parseOpsLinkInt (ol_id l) then insert (parseOpsLinkInt (ol_id l)) (link_numbers t ls)
      else link_numbers t ls)"
  by (auto simp: link_numbers_def)

lemma indexed_incidents:
  "set (cr_incidentIDs (foldl index_link r ls)) = set (cr_incidentIDs r) \<union> link_numbers ''incident'' ls"
proof (induction ls arbitrary: r)
  case Nil
  then show ?case by (simp add: link_numbers_def)
next
  case (Cons l ls)
  have "set (cr_incidentIDs (index_link r l)) = set (cr_incidentIDs r) \<union>
      (if ol_type l = ''incident'' \<and> 0 < parseOpsLinkInt (ol_id l) then {parseOpsLinkInt (ol_id l)} else {})"
    by (simp add: index_link_def Let_def set_appendUniqueInt64)
  then show ?case by (auto simp: Cons.IH link_numbers_Cons)
qed

lemma indexed_tickets:
  "set (cr_ticketIDs (foldl index_link r ls)) = set (cr_ticketIDs r) \<union> link_numbers ''ticket'' ls"
proof (induction ls arbitrary: r)
  case Nil
  then show ?case by (simp add: link_numbers_def)
next
  case (Cons l ls)
  have "set (cr_ticketIDs (index_link r l)) = set (cr_ticketIDs r) \<union>
      (if ol_type l = ''ticket'' \<and> 0 < parseOpsLinkInt (ol_id l) then {parseOpsLinkInt (ol_id l)} else {})"
    by (simp add: index_link_def Let_def set_appendUniqueInt64)
  then show ?case by (auto simp: Cons.IH link_numbers_Cons)
qed

lemma cut_first:
  assumes eq: "a @ c # x = b @ c # y" and plain: "c \<notin> set a" "c \<notin> set b"
  shows "a = b \<and> x = y"
proof -
  have first: "takeWhile (\<lambda>z. z \<noteq> c) (s @ c # t) = s" if "c \<notin> set s" for s t
    using that by (induction s) auto
  have "a = b" using first [OF plain(1), of x] first [OF plain(2), of y] eq by simp
  then show ?thesis using eq by simp
qed

lemma link_key_parts:
  assumes key: "link_key l = t @ '':'' @ i @ '':'' @ r"
    and plain: "CHR '':'' \<notin> set t" "CHR '':'' \<notin> set i" "CHR '':'' \<notin> set r"
  shows "ol_type l = t \<and> ol_id l = i \<and> ol_role l = r"
proof -
  let ?c = "\<lambda>s. length (filter (\<lambda>x. x = CHR '':'') s)"
  have zero: "?c s = 0 \<longleftrightarrow> CHR '':'' \<notin> set s" for s :: string
    by (auto simp: filter_empty_conv)
  have "?c t = 0" "?c i = 0" "?c r = 0" unfolding zero using plain by simp_all
  moreover have "?c (ol_type l) + ?c (ol_id l) + ?c (ol_role l) = ?c t + ?c i + ?c r"
    using arg_cong [OF key, of ?c] by (simp add: link_key_def)
  ultimately have "?c (ol_type l) = 0" "?c (ol_id l) = 0" by linarith+
  then have none: "CHR '':'' \<notin> set (ol_type l)" "CHR '':'' \<notin> set (ol_id l)" unfolding zero .
  from key have eq: "ol_type l @ CHR '':'' # (ol_id l @ CHR '':'' # ol_role l) =
      t @ CHR '':'' # (i @ CHR '':'' # r)" by (simp add: link_key_def)
  have "ol_type l = t \<and> ol_id l @ CHR '':'' # ol_role l = i @ CHR '':'' # r"
    by (rule cut_first [OF eq none(1) plain(1)])
  then show ?thesis using cut_first [of "ol_id l" "CHR '':''" "ol_role l" i r] none(2) plain(2) by simp
qed

lemma digits_val_mono: "digits_val 10 acc s = Some n \<Longrightarrow> acc \<le> n"
proof (induction s arbitrary: acc)
  case Nil
  then show ?case by simp
next
  case (Cons c s)
  then obtain d where d: "digit_val 10 c = Some d" "digits_val 10 (acc * 10 + d) s = Some n"
    by (auto split: option.splits)
  from Cons.IH [OF d(2)] show ?case by simp
qed

lemma atoi_digits_val: "digits_val 10 acc s = Some n \<Longrightarrow> n < 2 ^ 64 \<Longrightarrow> atoi_digits acc s = Some n"
proof (induction s arbitrary: acc)
  case Nil
  then show ?case by simp
next
  case (Cons c s)
  then obtain d where d: "digit_val 10 c = Some d" "digits_val 10 (acc * 10 + d) s = Some n"
    by (auto split: option.splits)
  have "acc * 10 + d < 2 ^ 64" using digits_val_mono [OF d(2)] Cons.prems(2) by simp
  then show ?case using Cons.IH [OF d(2) Cons.prems(2)] d(1) by (simp add: Let_def)
qed

lemma show_nat_plain:
  assumes "c \<in> set (show_nat n)"
  shows "\<not> is_space c" "c \<noteq> CHR '':''" "c \<noteq> CHR ''-''" "c \<noteq> CHR ''+''"
  using show_nat_digits [OF assms] by (auto simp: is_space_def)

lemma show_int_plain:
  assumes "0 < i" and "c \<in> set (show_int i)"
  shows "\<not> is_space c" "c \<noteq> CHR '':''"
  using assms show_nat_plain by (auto simp: show_int_def)

lemma trim_show_int [simp]: "0 < i \<Longrightarrow> trim_space (show_int i) = show_int i"
  by (rule trim_space_id) (auto dest: show_int_plain)

lemma parse_show_int: "0 < i \<Longrightarrow> i < 2 ^ 63 \<Longrightarrow> parseOpsLinkInt (show_int i) = i"
proof -
  assume i: "0 < i" "i < 2 ^ 63"
  have nonempty: "show_int i \<noteq> []" using i by (simp add: show_int_def)
  then have "hd (show_int i) \<noteq> CHR ''-''" "hd (show_int i) \<noteq> CHR ''+''"
    using i show_nat_plain(3,4) [of _ "nat i"] by (metis hd_in_set show_int_def less_imp_le not_le)+
  moreover have "atoi_digits 0 (show_int i) = Some (nat i)"
    using i by (auto simp: show_int_def digits_val_show_nat intro!: atoi_digits_val)
  ultimately show ?thesis using i nonempty by (simp add: parseOpsLinkInt_def atoi_value_def)
qed

lemma incident_link_key:
  "0 < i \<Longrightarrow> norm_key (incidentOpsLink i ''related'') = Some (''incident'' @ '':'' @ show_int i @ '':'' @ ''related'')"
  "0 < i \<Longrightarrow> norm_key (ticketOpsLink i) = Some (''ticket'' @ '':'' @ show_int i @ '':'' @ ''related'')"
proof -
  have words: "to_lower (trim_space ''incident'') = ''incident''" "to_lower (trim_space ''ticket'') = ''ticket''"
    "to_lower (trim_space ''related'') = ''related''"
    by (simp_all add: to_lower_def lower_char_def trim_space_def is_space_def Let_def)
  assume i: "0 < i"
  then have "show_int i \<noteq> []" by (simp add: show_int_def)
  then show "norm_key (incidentOpsLink i ''related'') = Some (''incident'' @ '':'' @ show_int i @ '':'' @ ''related'')"
    "norm_key (ticketOpsLink i) = Some (''ticket'' @ '':'' @ show_int i @ '':'' @ ''related'')"
    using i by (simp_all add: norm_key_def incidentOpsLink_def ticketOpsLink_def opsLinkIDInt_def
        normalizeOpsLink_def linkTypes_def words link_key_def)
qed

lemma linked_number:
  assumes "0 < i" "i < 2 ^ 63"
    and "(t @ '':'' @ show_int i @ '':'' @ ''related'') \<in> link_key ` set ls" and "CHR '':'' \<notin> set t"
  shows "i \<in> link_numbers t ls"
proof -
  obtain l where l: "l \<in> set ls" "link_key l = t @ '':'' @ show_int i @ '':'' @ ''related''"
    using assms(3) by force
  have "CHR '':'' \<notin> set (show_int i)" using show_int_plain [OF assms(1)] by blast
  then have "ol_type l = t \<and> ol_id l = show_int i \<and> ol_role l = ''related''"
    by (intro link_key_parts [OF l(2) assms(4)]) simp_all
  then show ?thesis
    using l(1) parse_show_int [OF assms(1,2)] assms(1) by (auto simp: link_numbers_def intro!: bexI [of _ l])
qed

lemma index_links_keys:
  "e \<in> set (index_links r) \<Longrightarrow> norm_key e = Some k \<Longrightarrow> k \<in> link_key ` set (cr_links (syncChangeLinkIndexes r))"
  unfolding sync_links links.contents_foldl by force

text \<open>The index fields and the links of a record agree: after the synchronisation that follows
  every write, the positive incident ids listed are exactly the numbers of the incident links, and the
  same for tickets. (The ids are int64 values.)\<close>

theorem sync_index_agrees:
  assumes "\<forall>i\<in>set (cr_incidentIDs r) \<union> set (cr_ticketIDs r). i < 2 ^ 63"
  shows "{i \<in> set (cr_incidentIDs (syncChangeLinkIndexes r)). 0 < i} =
           link_numbers ''incident'' (cr_links (syncChangeLinkIndexes r)) \<and>
         {i \<in> set (cr_ticketIDs (syncChangeLinkIndexes r)). 0 < i} =
           link_numbers ''ticket'' (cr_links (syncChangeLinkIndexes r))"
proof -
  let ?s = "syncChangeLinkIndexes r"
  have inc: "set (cr_incidentIDs ?s) = set (cr_incidentIDs r) \<union> link_numbers ''incident'' (cr_links ?s)"
    and tick: "set (cr_ticketIDs ?s) = set (cr_ticketIDs r) \<union> link_numbers ''ticket'' (cr_links ?s)"
    unfolding sync_links by (simp_all add: syncChangeLinkIndexes_def Let_def indexed_incidents indexed_tickets)
  have "i \<in> link_numbers ''incident'' (cr_links ?s)" if i: "i \<in> set (cr_incidentIDs r)" "0 < i" for i
  proof (rule linked_number)
    have "incidentOpsLink i ''related'' \<in> set (index_links r)" using i by (simp add: index_links_def)
    from index_links_keys [OF this incident_link_key(1) [OF i(2)]]
    show "(''incident'' @ '':'' @ show_int i @ '':'' @ ''related'') \<in> link_key ` set (cr_links ?s)" .
  qed (use i assms in auto)
  moreover have "i \<in> link_numbers ''ticket'' (cr_links ?s)" if i: "i \<in> set (cr_ticketIDs r)" "0 < i" for i
  proof (rule linked_number)
    have "ticketOpsLink i \<in> set (index_links r)" using i by (simp add: index_links_def)
    from index_links_keys [OF this incident_link_key(2) [OF i(2)]]
    show "(''ticket'' @ '':'' @ show_int i @ '':'' @ ''related'') \<in> link_key ` set (cr_links ?s)" .
  qed (use i assms in auto)
  ultimately show ?thesis unfolding inc tick by (auto simp: link_numbers_def)
qed

definition demo_linked :: change_record where
  "demo_linked = blank_change\<lparr>cr_incidentIDs := [7]\<rparr>"

lemma sync_index_agrees_witness:
  "{i \<in> set (cr_incidentIDs (syncChangeLinkIndexes demo_linked)). 0 < i} =
     link_numbers ''incident'' (cr_links (syncChangeLinkIndexes demo_linked))"
  using sync_index_agrees [of demo_linked] by (simp add: demo_linked_def blank_change_def)

text \<open>Unlinking an incident has no effect: when a change record lists an incident id, the
  synchronisation that ends Link puts the incident's link back, so the call that removes it
  succeeds and the record is still linked to it.\<close>

theorem link_removal_ineffective:
  assumes "find_change m c = Some r" and "i \<in> set (cr_incidentIDs r)" and "0 < i" and "i < 2 ^ 63"
  shows "\<exists>m' r'. changeLink t c [] ''incident'' (show_int i) [] m = (m', Inr r') \<and>
           i \<in> set (cr_incidentIDs r') \<and> i \<in> link_numbers ''incident'' (cr_links r')"
proof -
  let ?r = "relinked t [] ''incident'' (show_int i) [] r"
  let ?u = "r\<lparr>cr_links := removeOpsLink (cr_links r) ''incident'' (show_int i) []\<rparr>"
  have nonempty: "show_int i \<noteq> []" using assms(3) by (simp add: show_int_def)
  then have r: "cr_links ?r = cr_links (syncChangeLinkIndexes ?u)"
      "cr_incidentIDs ?r = cr_incidentIDs (syncChangeLinkIndexes ?u)"
    by (simp_all add: relinked_def)
  have "incidentOpsLink i ''related'' \<in> set (index_links ?u)" using assms(2,3) by (simp add: index_links_def)
  from index_links_keys [OF this incident_link_key(1) [OF assms(3)]]
  have num: "i \<in> link_numbers ''incident'' (cr_links ?r)" unfolding r
    by (rule linked_number [OF assms(3,4)]) simp
  have "i \<in> set (cr_incidentIDs ?r)"
    unfolding r(2) using assms(2) by (simp add: syncChangeLinkIndexes_def Let_def indexed_incidents)
  then show ?thesis using num assms(1) by (simp add: changeLink_def Let_def)
qed

lemma link_removal_ineffective_witness:
  "\<exists>m' r'. changeLink 5 1 [] ''incident'' (show_int 7) []
      \<lparr>cm_records = [demo_linked\<lparr>cr_id := 1\<rparr>], cm_nextID = 1\<rparr> = (m', Inr r') \<and>
    7 \<in> set (cr_incidentIDs r') \<and> 7 \<in> link_numbers ''incident'' (cr_links r')"
  by (rule link_removal_ineffective [where r = "demo_linked\<lparr>cr_id := 1\<rparr>"])
    (simp_all add: find_change_def demo_linked_def blank_change_def)

section \<open>The workflow as an abstract machine\<close>

text \<open>What the actions promise: which action leads from which status to which.\<close>

inductive flow :: "string \<Rightarrow> string \<Rightarrow> string \<Rightarrow> bool" where
  submit: "st = ''draft'' \<or> st = ''rejected'' \<Longrightarrow> flow st ''submit'' ''pending_approval''"
| approve: "st = ''pending_approval'' \<or> st = ''draft'' \<Longrightarrow> flow st ''approve'' ''approved''"
| reject: "st = ''pending_approval'' \<or> st = ''draft'' \<Longrightarrow> flow st ''reject'' ''rejected''"
| schedule: "flow ''approved'' ''schedule'' ''scheduled''"
| start: "st = ''approved'' \<or> st = ''scheduled'' \<or> st = ''draft'' \<Longrightarrow> flow st ''start'' ''in_progress''"
| complete: "flow ''in_progress'' ''complete'' ''completed''"
| rollback: "st = ''in_progress'' \<or> st = ''completed'' \<Longrightarrow> flow st ''rollback'' ''rolled_back''"
| cancel: "st \<noteq> ''completed'' \<Longrightarrow> st \<noteq> ''rolled_back'' \<Longrightarrow> flow st ''cancel'' ''cancelled''"

inductive_simps flow_simps: "flow st a n"

text \<open>The two guards besides the status: separation of duties and the freeze.\<close>

definition self_approval :: "string \<Rightarrow> string \<Rightarrow> change_record \<Rightarrow> bool" where
  "self_approval a actor r \<longleftrightarrow> a = ''approve'' \<and> trim_space (cr_author r) \<noteq> [] \<and> trim_space actor \<noteq> [] \<and>
     equal_fold (trim_space (cr_author r)) (trim_space actor)"

definition frozen_start :: "string \<Rightarrow> bool \<Rightarrow> change_record \<Rightarrow> bool" where
  "frozen_start a freezeActive r \<longleftrightarrow> a = ''start'' \<and> freezeActive \<and>
     (cr_risk r = ''high'' \<or> cr_kind r = ''emergency'') \<and>
     normalizeChangeStatus (cr_status r) \<notin> {''approved'', ''scheduled''}"

lemma sod_self_approval:
  "a = to_lower (trim_space a) \<Longrightarrow>
   changeSoDAllows r a actor bg = None \<longleftrightarrow> \<not> (self_approval a actor r \<and> \<not> bg)"
  by (auto simp: changeSoDAllows_def self_approval_def Let_def)

lemma apply_action_flow:
  "(\<exists>r1. apply_action t a actor fz r = Inr (r1, n)) \<longleftrightarrow>
     flow (normalizeChangeStatus (cr_status r)) a n \<and> \<not> frozen_start a fz r"
  unfolding apply_action_def frozen_start_def flow_simps Let_def
  by (cases "a = ''submit''"; cases "a = ''approve''"; cases "a = ''reject''"; cases "a = ''schedule''";
      cases "a = ''start''"; cases "a = ''complete''"; cases "a = ''rollback''"; cases "a = ''cancel''")
    auto

lemma apply_action_keeps:
  assumes "apply_action t a actor fz r = Inr (r1, n)"
  shows "cr_id r1 = cr_id r \<and> cr_author r1 = cr_author r"
  using assms by (auto simp: apply_action_def Let_def split: if_splits)

lemma find_id: "find (\<lambda>r. cr_id r = i) rs = Some r \<Longrightarrow> cr_id r = i"
  by (auto simp: find_Some_iff)

lemma find_change_set:
  assumes "find_change m i = Some r" and "cr_id r1 = i"
  shows "find_change (set_change i r1 m) j = (if j = i then Some r1 else find_change m j)"
proof -
  have "find (\<lambda>r. cr_id r = i) rs = Some r \<Longrightarrow>
      find (\<lambda>r. cr_id r = j) (update_first (\<lambda>x. cr_id x = i) (\<lambda>_. r1) rs) =
        (if j = i then Some r1 else find (\<lambda>r. cr_id r = j) rs)" for rs
    using assms(2) by (induction rs) (auto split: if_splits)
  then show ?thesis using assms(1) by (simp add: find_change_def set_change_def)
qed

text \<open>C8. The change workflow implements its abstract machine: an action on a stored change succeeds
  with the new status n exactly when the machine allows the step from the current status, the actor
  does not approve a change of their own without break-glass, and no freeze holds back an unapproved
  risky start; then the stored change has the new status and every other change is as before. A refused
  action changes nothing.\<close>

theorem change_workflow_refinement:
  assumes found: "find_change m i = Some r" and a: "a = to_lower (trim_space act)"
  shows "((\<exists>m' r'. TransitionSoD t i act actor fz bg m = (m', Inr r') \<and> cr_status r' = n \<and>
              find_change m' i = Some r' \<and> (\<forall>j. j \<noteq> i \<longrightarrow> find_change m' j = find_change m j)) \<longleftrightarrow>
           flow (normalizeChangeStatus (cr_status r)) a n \<and> \<not> (self_approval a actor r \<and> \<not> bg) \<and>
           \<not> frozen_start a fz r) \<and>
         (\<forall>e. snd (TransitionSoD t i act actor fz bg m) = Inl e \<longrightarrow>
              fst (TransitionSoD t i act actor fz bg m) = m)"
proof -
  have norm: "a = to_lower (trim_space a)" by (simp add: a trim_to_lower)
  have id: "cr_id r = i" using found by (auto simp: find_change_def dest: find_id)
  have T: "TransitionSoD t i act actor fz bg m =
      (case changeSoDAllows r a actor bg of Some err \<Rightarrow> (m, Inl err)
       | None \<Rightarrow> (case apply_action t a actor fz r of Inl err \<Rightarrow> (m, Inl err)
          | Inr (r1, s) \<Rightarrow> (set_change i (r1\<lparr>cr_status := s, cr_updatedAt := t\<rparr>) m,
                            Inr (r1\<lparr>cr_status := s, cr_updatedAt := t\<rparr>))))"
    unfolding TransitionSoD_def Let_def found a by simp
  have refused: "\<forall>e. snd (TransitionSoD t i act actor fz bg m) = Inl e \<longrightarrow>
      fst (TransitionSoD t i act actor fz bg m) = m"
    unfolding T by (auto split: option.splits sum.splits)
  have "(\<exists>m' r'. TransitionSoD t i act actor fz bg m = (m', Inr r') \<and> cr_status r' = n \<and>
              find_change m' i = Some r' \<and> (\<forall>j. j \<noteq> i \<longrightarrow> find_change m' j = find_change m j)) \<longleftrightarrow>
      changeSoDAllows r a actor bg = None \<and> (\<exists>r1. apply_action t a actor fz r = Inr (r1, n))"
    unfolding T using apply_action_keeps [of t a actor fz r] id
    by (auto simp: find_change_set [OF found] split: option.splits sum.splits)
  then show ?thesis
    using refused sod_self_approval [OF norm, of r actor bg] apply_action_flow [of t a actor fz r n] by blast
qed

definition demo_pending :: change_record where
  "demo_pending = blank_change\<lparr>cr_id := 4, cr_status := ''pending_approval'', cr_author := ''ann''\<rparr>"

lemma status_eval [simp]:
  "normalizeChangeStatus ''pending_approval'' = ''pending_approval''"
  "normalizeChangeStatus ''approved'' = ''approved''" "normalizeChangeStatus ''draft'' = ''draft''"
  "normalizeChangeStatus ''in_progress'' = ''in_progress''" "normalizeChangeStatus [] = ''draft''"
  by (simp_all add: normalizeChangeStatus_def Let_def to_lower_def lower_char_def trim_space_def is_space_def)

lemma change_workflow_refinement_witness:
  "\<exists>m' r'. TransitionSoD 9 4 ''approve'' ''bob'' True False \<lparr>cm_records = [demo_pending], cm_nextID = 4\<rparr> =
      (m', Inr r') \<and> cr_status r' = ''approved''"
proof -
  let ?m = "\<lparr>cm_records = [demo_pending], cm_nextID = 4\<rparr>"
  have "find_change ?m 4 = Some demo_pending"
    by (simp add: find_change_def demo_pending_def blank_change_def)
  moreover have "''approve'' = to_lower (trim_space ''approve'')"
    by (simp add: to_lower_def lower_char_def trim_space_def is_space_def)
  moreover have "flow (normalizeChangeStatus (cr_status demo_pending)) ''approve'' ''approved''"
    by (simp add: flow_simps demo_pending_def)
  moreover have "\<not> self_approval ''approve'' ''bob'' demo_pending" "\<not> frozen_start ''approve'' True demo_pending"
    by (simp_all add: self_approval_def frozen_start_def demo_pending_def blank_change_def equal_fold_def
        to_lower_def lower_char_def trim_space_def is_space_def)
  ultimately show ?thesis
    using change_workflow_refinement [of ?m 4 demo_pending "''approve''" "''approve''" 9 "''bob''" True False "''approved''"]
    by blast
qed

section \<open>Runs of the manager\<close>

datatype change_event =
    CUpsert int change_record string
  | CAction int int string string bool bool
  | CLink int int "ops_link list" string string string
  | CSql int string string string string string string string

fun change_step :: "change_mgr \<Rightarrow> change_event \<Rightarrow> change_mgr" where
  "change_step m (CUpsert t r actor) = fst (changeUpsert t r actor m)"
| "change_step m (CAction t i action actor fz bg) = fst (TransitionSoD t i action actor fz bg m)"
| "change_step m (CLink t i add rt ri rr) = fst (changeLink t i add rt ri rr m)"
| "change_step m (CSql t sqlID title summary kind risk author st) =
     fst (UpsertFromSQLChange t sqlID title summary kind risk author st m)"

definition change_inv :: "change_mgr \<Rightarrow> bool" where
  "change_inv m \<longleftrightarrow> distinct (map cr_id (cm_records m)) \<and>
     (\<forall>r\<in>set (cm_records m). 0 < cr_id r \<and> cr_id r \<le> cm_nextID m) \<and> 0 \<le> cm_nextID m"

definition change_ids :: "change_mgr \<Rightarrow> int set" where
  "change_ids m = cr_id ` set (cm_records m)"

text \<open>Every operation keeps the list of ids or appends the next one.\<close>

definition ids_step :: "change_mgr \<Rightarrow> change_mgr \<Rightarrow> bool" where
  "ids_step m m' \<longleftrightarrow>
     (map cr_id (cm_records m') = map cr_id (cm_records m) \<and> cm_nextID m' = cm_nextID m) \<or>
     (map cr_id (cm_records m') = map cr_id (cm_records m) @ [cm_nextID m + 1] \<and>
      cm_nextID m' = cm_nextID m + 1)"

lemma ids_step_refl [simp]: "ids_step m m"
  by (simp add: ids_step_def)

lemma change_inv_ids:
  "change_inv m \<longleftrightarrow> distinct (map cr_id (cm_records m)) \<and>
     (\<forall>i\<in>set (map cr_id (cm_records m)). 0 < i \<and> i \<le> cm_nextID m) \<and> 0 \<le> cm_nextID m"
  by (auto simp: change_inv_def)

lemma ids_step_inv: "change_inv m \<Longrightarrow> ids_step m m' \<Longrightarrow> change_inv m'"
  unfolding ids_step_def change_inv_ids
proof (elim disjE conjE)
  assume ids: "map cr_id (cm_records m') = map cr_id (cm_records m) @ [cm_nextID m + 1]"
    and nxt: "cm_nextID m' = cm_nextID m + 1" and dist: "distinct (map cr_id (cm_records m))"
    and bound: "\<forall>i\<in>set (map cr_id (cm_records m)). 0 < i \<and> i \<le> cm_nextID m" and pos: "0 \<le> cm_nextID m"
  have "cm_nextID m + 1 \<notin> set (map cr_id (cm_records m))" using bound by fastforce
  then show "distinct (map cr_id (cm_records m')) \<and>
      (\<forall>i\<in>set (map cr_id (cm_records m')). 0 < i \<and> i \<le> cm_nextID m') \<and> 0 \<le> cm_nextID m'"
    unfolding ids nxt using dist bound pos by fastforce
qed simp

lemma ids_step_grows: "ids_step m m' \<Longrightarrow> change_ids m \<subseteq> change_ids m'"
  unfolding ids_step_def change_ids_def by (metis Un_upper1 list.set_map set_append subset_refl)

lemma ids_step_set: "cr_id r = i \<Longrightarrow> ids_step m (set_change i r m)"
proof -
  assume "cr_id r = i"
  then have "map cr_id (update_first (\<lambda>x. cr_id x = i) (\<lambda>_. r) rs) = map cr_id rs" for rs
    by (induction rs) auto
  then show ?thesis by (simp add: ids_step_def set_change_def)
qed

lemma ids_step_append:
  "cr_id r = cm_nextID m + 1 \<Longrightarrow>
   ids_step m (m\<lparr>cm_nextID := cm_nextID m + 1, cm_records := cm_records m @ [r]\<rparr>)"
  by (simp add: ids_step_def)

lemma upsert_ids:
  "cr_id (upsert_defaults r) = cr_id r" "cr_id (upsert_existing t prev r) = cr_id r"
  "cr_id (upsert_new t actor i r) = i"
  by (simp_all add: upsert_defaults_def upsert_existing_def upsert_new_def Let_def)

lemma ids_step_change: "ids_step m (change_step m e)"
proof (cases e)
  case (CUpsert t r actor)
  show ?thesis unfolding CUpsert change_step.simps changeUpsert_def Let_def
    by (auto simp: upsert_ids intro!: ids_step_set ids_step_append split: option.split)
next
  case (CAction t i action actor fz bg)
  show ?thesis unfolding CAction change_step.simps TransitionSoD_def Let_def
    by (auto split: option.split sum.split intro!: ids_step_set
        dest!: apply_action_keeps simp: find_change_def dest: find_id)
next
  case (CLink t i add rt ri rr)
  show ?thesis unfolding CLink change_step.simps changeLink_def Let_def
    by (auto split: option.split intro!: ids_step_set simp: relinked_def Let_def find_change_def dest: find_id)
next
  case (CSql t sqlID title summary kind risk author st)
  have "map cr_id (update_first P (sql_updated t title summary st) rs) = map cr_id rs" for P rs
    by (rule map_update_first) (simp add: sql_updated_def)
  then show ?thesis unfolding CSql change_step.simps UpsertFromSQLChange_def Let_def
    by (auto simp: ids_step_def split: option.split)
qed

interpretation changes: growing_machine newChangeManager change_step change_inv change_ids
proof
  show "change_inv newChangeManager" by (simp add: change_inv_def newChangeManager_def)
  show "change_inv (change_step m e)" if "change_inv m" for m e
    using ids_step_inv [OF that ids_step_change] .
  show "change_ids m \<le> change_ids (change_step m e)" if "change_inv m" for m e
    by (rule ids_step_grows [OF ids_step_change])
qed

text \<open>Whatever the order of creations, edits, workflow actions, link edits and SQL-change updates,
  the ids of the change records stay distinct, positive and at most the last id given out, and no
  record disappears.\<close>

theorem change_ids_unique:
  "change_inv (run change_step newChangeManager es) \<and>
   change_ids (run change_step newChangeManager es) \<subseteq> change_ids (run change_step newChangeManager (es @ fs))"
  using changes.inv_run changes.level_run_prefix by blast

section \<open>Freeze windows and the approval gate\<close>

text \<open>C40. Under an active freeze, a high-risk or emergency change that was not approved cannot be
  started through the action routes: the request is refused and nothing changes.\<close>

theorem freeze_blocks_unapproved_start:
  assumes "find_change m i = Some r" and "cr_risk r = ''high'' \<or> cr_kind r = ''emergency''"
    and "normalizeChangeStatus (cr_status r) \<notin> {''approved'', ''scheduled''}"
    and "activeFreezeForHosts ck ws (cr_hostIDs r) t \<noteq> None"
  shows "\<exists>e. handleChangeAction ck ws t i ''start'' actor admin asked m = (m, Inl e)"
proof -
  have start: "to_lower (trim_space ''start'') = ''start''"
    by (simp add: to_lower_def lower_char_def trim_space_def is_space_def)
  have "\<exists>e. apply_action t ''start'' actor True r = Inl e"
    using assms(2,3) by (auto simp: apply_action_def Let_def)
  then show ?thesis using assms(1,4)
    by (auto simp: handleChangeAction_def changeGet_def normal_status_def TransitionSoD_def start Let_def
        changeSoDAllows_def split: option.split)
qed

lemma freeze_blocks_unapproved_start_witness:
  "\<exists>e. handleChangeAction \<lparr>ck_weekday = (\<lambda>_. 1), ck_minute = (\<lambda>_. 600)\<rparr>
      [\<lparr>cw_id = ''w1'', cw_name = ''f'', cw_start = 0, cw_end = 0, cw_hostIDs = [], cw_categories = [],
        cw_freeze = True, cw_note = [], cw_updatedAt = 0, cw_sloIDs = [], cw_version = [], cw_serviceIDs = [],
        cw_dependsOn = [], cw_recur = [], cw_recurStartHM = [], cw_recurEndHM = [], cw_recurWeekdays = []\<rparr>]
      9 4 ''start'' ''bob'' True True \<lparr>cm_records = [demo_pending\<lparr>cr_risk := ''high''\<rparr>], cm_nextID = 4\<rparr> =
    (\<lparr>cm_records = [demo_pending\<lparr>cr_risk := ''high''\<rparr>], cm_nextID = 4\<rparr>, Inl e)"
  by (rule freeze_blocks_unapproved_start [where r = "demo_pending\<lparr>cr_risk := ''high''\<rparr>"])
    (simp_all add: find_change_def demo_pending_def blank_change_def activeFreezeForHosts_def
      activeFreezeWindow_def changeWindowActiveAt_def window_covers_def)

text \<open>The write route has no such gate for the status approved: whoever creates a record may
  send it as already approved, and may then start it, high risk and frozen or not, without anyone
  having approved it and without break-glass.\<close>

theorem upsert_bypasses_approval:
  assumes "cr_id r = 0" and "cr_status r = ''approved''" and "trim_space (cr_title r) \<noteq> []"
    and inv: "change_inv m"
  shows "\<exists>m1 r1 m2 r2. handleUpsertChange ck ws t r author m = (m1, Inr r1) \<and>
           handleChangeAction ck ws t (cr_id r1) ''start'' author False False m1 = (m2, Inr r2) \<and>
           cr_status r2 = ''in_progress''"
proof -
  let ?i = "cm_nextID m + 1"
  let ?r = "upsert_new t author ?i (upsert_defaults (r\<lparr>cr_status := ''approved''\<rparr>))"
  let ?m = "m\<lparr>cm_nextID := ?i, cm_records := cm_records m @ [?r]\<rparr>"
  have up: "handleUpsertChange ck ws t r author m = (?m, Inr ?r)"
    using assms(1-3) by (simp add: handleUpsertChange_def changeUpsert_def upsert_ids Let_def)
  have st: "cr_status ?r = ''approved''"
    by (simp add: upsert_new_def upsert_defaults_def changeStatuses_def Let_def)
  have "find (\<lambda>x. cr_id x = ?i) (cm_records m) = None"
    using inv by (force simp: find_None_iff change_inv_def)
  moreover have "find P (xs @ [x]) = Some x" if "find P xs = None" "P x" for P xs and x :: change_record
    using that by (induction xs) (auto split: if_splits)
  ultimately have found: "find_change ?m ?i = Some ?r" by (simp add: find_change_def upsert_ids)
  have start: "to_lower (trim_space ''start'') = ''start''"
    by (simp add: to_lower_def lower_char_def trim_space_def is_space_def)
  have "handleChangeAction ck ws t ?i ''start'' author False False ?m =
      TransitionSoD t ?i ''start'' author (activeFreezeForHosts ck ws (cr_hostIDs ?r) t \<noteq> None) False ?m"
    using found by (simp add: handleChangeAction_def changeGet_def normal_status_def)
  also have "\<dots> = (let r' = (?r\<lparr>cr_executedAt := t,
          cr_startedAt := (if cr_startedAt ?r = 0 then t else cr_startedAt ?r)\<rparr>)
          \<lparr>cr_status := ''in_progress'', cr_updatedAt := t\<rparr> in (set_change ?i r' ?m, Inr r'))"
    by (simp add: TransitionSoD_def start found changeSoDAllows_def apply_action_def st Let_def)
  finally show ?thesis using up by (simp add: upsert_ids Let_def)
qed

lemma upsert_bypasses_approval_witness:
  "\<exists>m1 r1 m2 r2. handleUpsertChange \<lparr>ck_weekday = (\<lambda>_. 1), ck_minute = (\<lambda>_. 600)\<rparr> [] 9
        (blank_change\<lparr>cr_title := ''drop'', cr_status := ''approved'', cr_risk := ''high''\<rparr>) ''ann''
        newChangeManager = (m1, Inr r1) \<and>
      handleChangeAction \<lparr>ck_weekday = (\<lambda>_. 1), ck_minute = (\<lambda>_. 600)\<rparr> [] 9 (cr_id r1) ''start'' ''ann''
        False False m1 = (m2, Inr r2) \<and> cr_status r2 = ''in_progress''"
  by (rule upsert_bypasses_approval)
    (simp_all add: blank_change_def trim_space_def is_space_def change_inv_def newChangeManager_def)

text \<open>What a weekly window is meant to cover: on each listed weekday the interval from its start to its
  end, which for an overnight window is on the next day.\<close>

definition weekly_schedule :: "clock \<Rightarrow> change_window \<Rightarrow> int \<Rightarrow> bool" where
  "weekly_schedule ck w t =
     (let s = parseHM (cw_recurStartHM w); e = parseHM (cw_recurEndHM w);
          listed = (\<lambda>d. d \<in> set (cw_recurWeekdays w)); d = ck_weekday ck t; cur = ck_minute ck t
      in if s < e then listed d \<and> s \<le> cur \<and> cur < e
         else (listed d \<and> s \<le> cur) \<or> (listed ((d + 6) mod 7) \<and> cur < e))"

text \<open>A weekly window is active exactly when its schedule says so, or, for an overnight window, in
  the early hours of a listed weekday whose day before is not listed: a window for Monday 22:00 to 06:00
  is also active on Monday from 00:00 to 06:00, a night early.\<close>

theorem weekly_window_exact:
  assumes "cw_recur w = ''weekly''" and "cw_recurWeekdays w \<noteq> []"
    and "0 \<le> parseHM (cw_recurStartHM w)" and "0 \<le> parseHM (cw_recurEndHM w)"
  shows "changeWindowActiveAt ck w t \<longleftrightarrow> weekly_schedule ck w t \<or>
     (parseHM (cw_recurEndHM w) \<le> parseHM (cw_recurStartHM w) \<and>
      ck_weekday ck t \<in> set (cw_recurWeekdays w) \<and> (ck_weekday ck t + 6) mod 7 \<notin> set (cw_recurWeekdays w) \<and>
      ck_minute ck t < parseHM (cw_recurEndHM w))"
proof -
  have weekly: "trim_space ''weekly'' \<noteq> []" by (simp add: trim_space_def is_space_def)
  show ?thesis unfolding changeWindowActiveAt_def weekly_schedule_def Let_def using assms weekly by auto
qed

definition demo_window :: change_window where
  "demo_window = \<lparr>cw_id = ''w2'', cw_name = ''night'', cw_start = 0, cw_end = 0, cw_hostIDs = [],
     cw_categories = [], cw_freeze = True, cw_note = [], cw_updatedAt = 0, cw_sloIDs = [], cw_version = [],
     cw_serviceIDs = [], cw_dependsOn = [], cw_recur = ''weekly'', cw_recurStartHM = ''22:00'',
     cw_recurEndHM = ''06:00'', cw_recurWeekdays = [1]\<rparr>"

lemma demo_window_times: "parseHM ''22:00'' = 22 * 60" "parseHM ''06:00'' = 6 * 60"
proof -
  have t: "trim_space ''22:00'' = ''22:00''" "trim_space ''06:00'' = ''06:00''"
    by (simp_all add: trim_space_def is_space_def)
  have "split_sep ''22:00'' '':'' = [''22'', ''00'']" "split_sep ''06:00'' '':'' = [''06'', ''00'']"
    by (simp_all add: split_sep.simps has_prefix_def)
  then show "parseHM ''22:00'' = 22 * 60" "parseHM ''06:00'' = 6 * 60"
    by (simp_all add: parseHM_def t Let_def)
qed

lemma weekly_window_exact_witness:
  "changeWindowActiveAt \<lparr>ck_weekday = (\<lambda>_. 1), ck_minute = (\<lambda>_. 60)\<rparr> demo_window 0 \<and>
   \<not> weekly_schedule \<lparr>ck_weekday = (\<lambda>_. 1), ck_minute = (\<lambda>_. 60)\<rparr> demo_window 0"
proof -
  let ?ck = "\<lparr>ck_weekday = (\<lambda>_. 1), ck_minute = (\<lambda>_. 60)\<rparr>"
  have "\<not> weekly_schedule ?ck demo_window 0"
    by (simp add: weekly_schedule_def demo_window_def demo_window_times Let_def)
  then show ?thesis using weekly_window_exact [of demo_window ?ck 0]
    by (simp add: demo_window_def demo_window_times)
qed

end
