(* ===== verification/GoMap.thy ===== *)
theory GoMap
  imports GoPrelude "HOL-Library.AList"
begin

text \<open>
  Go maps with string keys as association lists with distinct keys, and the helpers that keep the
  program's in-memory maps bounded (\<open>cmd/server/mapbound.go\<close>). Go visits the keys of a map in an
  arbitrary order; a routine that deletes the first few keys it meets takes that order as a
  parameter \<open>ord\<close>, and its lemmas hold for every order.
\<close>

type_synonym 'v go_map = "(string \<times> 'v) list"
type_synonym key_order = "string list \<Rightarrow> string list"

definition order_ok :: "key_order \<Rightarrow> bool" where
  "order_ok ord \<longleftrightarrow> (\<forall>ks. set (ord ks) = set ks \<and> (distinct ks \<longrightarrow> distinct (ord ks)))"

abbreviation keys_distinct :: "'v go_map \<Rightarrow> bool" where
  "keys_distinct m \<equiv> distinct (map fst m)"

definition get_or :: "'v \<Rightarrow> 'v go_map \<Rightarrow> string \<Rightarrow> 'v" where
  "get_or d m k = (case map_of m k of None \<Rightarrow> d | Some v \<Rightarrow> v)"

definition without :: "string list \<Rightarrow> 'v go_map \<Rightarrow> 'v go_map" where
  "without ks m = filter (\<lambda>e. fst e \<notin> set ks) m"

definition map_values :: "('v \<Rightarrow> 'v) \<Rightarrow> 'v go_map \<Rightarrow> 'v go_map" where
  "map_values f m = map (\<lambda>e. (fst e, f (snd e))) m"

definition capStringMap :: "key_order \<Rightarrow> nat \<Rightarrow> 'v go_map \<Rightarrow> 'v go_map" where
  "capStringMap ord mx m =
     (if mx = 0 \<or> length m \<le> mx then m else without (take (length m - mx) (ord (map fst m))) m)"

definition pruneExpiredUnixMap ::
    "key_order \<Rightarrow> int \<Rightarrow> nat \<Rightarrow> ('v \<Rightarrow> int) \<Rightarrow> 'v go_map \<Rightarrow> 'v go_map" where
  "pruneExpiredUnixMap ord now mx expiry m =
     capStringMap ord mx (filter (\<lambda>e. \<not> (0 < expiry (snd e) \<and> expiry (snd e) < now)) m)"

definition maxTermAttempts :: nat where
  "maxTermAttempts = 4096"

definition maxTOTPUsed :: nat where
  "maxTOTPUsed = 8192"

section \<open>Lookup after an operation\<close>

lemma get_or_update: "get_or d (AList.update k v m) j = (if j = k then v else get_or d m j)"
  by (simp add: get_or_def update_conv')

lemma get_or_delete: "get_or d (AList.delete k m) j = (if j = k then d else get_or d m j)"
  by (simp add: get_or_def delete_conv')

lemma map_of_filter:
  "keys_distinct m \<Longrightarrow>
   map_of (filter P m) k = (case map_of m k of Some v \<Rightarrow> if P (k, v) then Some v else None | None \<Rightarrow> None)"
proof (induction m)
  case Nil
  then show ?case by simp
next
  case (Cons e m)
  obtain j v where e: "e = (j, v)" by (cases e)
  have "map_of m j = None" using Cons.prems e by (simp add: map_of_eq_None_iff)
  then show ?case using Cons e by (auto split: option.splits)
qed

lemma map_of_map_values: "map_of (map_values f m) k = map_option f (map_of m k)"
  by (induction m) (auto simp: map_values_def)

lemma map_of_without: "keys_distinct m \<Longrightarrow> map_of (without ks m) k = (if k \<in> set ks then None else map_of m k)"
  by (simp add: without_def map_of_filter split: option.split)

lemma distinct_filter [simp]: "keys_distinct m \<Longrightarrow> keys_distinct (filter P m)"
  by (simp add: distinct_map_filter)

lemma distinct_without [simp]: "keys_distinct m \<Longrightarrow> keys_distinct (without ks m)"
  by (simp add: without_def)

lemma distinct_map_values [simp]: "keys_distinct (map_values f m) = keys_distinct m"
  by (simp add: map_values_def comp_def)

lemma distinct_cap [simp]: "keys_distinct m \<Longrightarrow> keys_distinct (capStringMap ord mx m)"
  by (simp add: capStringMap_def)

lemma cap_small: "length m \<le> mx \<Longrightarrow> capStringMap ord mx m = m"
  by (simp add: capStringMap_def)

lemma set_cap: "set (capStringMap ord mx m) \<subseteq> set m"
  by (auto simp: capStringMap_def without_def)

lemma cap_absent: "map_of m k = None \<Longrightarrow> map_of (capStringMap ord mx m) k = None"
  using set_cap [of ord mx m] by (auto simp: map_of_eq_None_iff)

lemma length_cap:
  assumes "order_ok ord" "keys_distinct m" "0 < mx"
  shows "length (capStringMap ord mx m) \<le> mx"
proof (cases "length m \<le> mx")
  case True
  then show ?thesis by (simp add: cap_small)
next
  case False
  let ?ks = "take (length m - mx) (ord (map fst m))"
  have ord: "distinct (ord (map fst m))" "set (ord (map fst m)) = fst ` set m"
    using assms(1,2) by (simp_all add: order_ok_def)
  have len: "length (ord (map fst m)) = length m"
    using ord assms(2) by (metis distinct_card length_map list.set_map)
  have "distinct ?ks" using ord(1) by simp
  then have ks: "card (set ?ks) = length m - mx" using len by (simp add: distinct_card)
  have sub: "set ?ks \<subseteq> fst ` set m" using ord(2) set_take_subset by metis
  have "length (without ?ks m) = card (fst ` set (without ?ks m))"
    using distinct_without [OF assms(2), of ?ks] by (metis distinct_card length_map list.set_map)
  also have "fst ` set (without ?ks m) = fst ` set m - set ?ks" by (auto simp: without_def)
  also have "card (fst ` set m - set ?ks) = card (fst ` set m) - card (set ?ks)"
    using sub by (simp add: card_Diff_subset)
  also have "card (fst ` set m) = length m" using assms(2) by (metis distinct_card length_map list.set_map)
  finally show ?thesis using ks False assms(3) by (simp add: capStringMap_def)
qed

lemma length_map_update:
  "length (AList.update k v m) = (if k \<in> fst ` set m then length m else Suc (length m))"
  by (induction m) auto

lemma length_map_delete: "length (AList.delete k m) \<le> length m"
  by (simp add: AList.length_delete_le)

end
