(* ===== verification/Throttle.thy ===== *)
theory Throttle
  imports GoPrelude
begin

text \<open>
  The contract of a sliding-window throttle, which the server has one of per client address and one
  of per account: \<open>allowed\<close> counts the recent hits of a key and forgets its old ones, \<open>failed\<close>
  records a hit. The laws of \<open>allowed\<close> hold while the table has at most \<open>room\<close> keys (beyond that the code
  empties it). The two are separate sections under the throttle's lock: a login asks, then checks the secret, which
  takes long, and then records, while other logins go on. From the laws follows, once for all throttles and for
  any interleaving, how many wrong attempts a window can take.
\<close>

text \<open>\<open>Ask\<close> and \<open>Fail\<close> with the reading of the clock, taken to be in the order of the sections; \<open>Leave\<close> is an
  attempt that was let through and ends without a record, for its secret was right. The look at the throttle
  that follows a record, for the automatic defence, is an \<open>Ask\<close> that leaves at once.\<close>

datatype throttle_op = Ask int string | Fail int string | Leave string

text \<open>At every moment at most \<open>c\<close> attempts on the key \<open>k\<close> have been let through and not ended (\<open>n\<close> of them
  now), and only such an attempt records or leaves.\<close>

fun in_flight ::
    "(int \<Rightarrow> string \<Rightarrow> 's \<Rightarrow> 's \<times> bool) \<Rightarrow> (int \<Rightarrow> string \<Rightarrow> 's \<Rightarrow> 's) \<Rightarrow> (string \<Rightarrow> string) \<Rightarrow> nat \<Rightarrow> string \<Rightarrow>
     's \<Rightarrow> nat \<Rightarrow> throttle_op list \<Rightarrow> bool" where
  "in_flight allowed failed norm c k s n [] \<longleftrightarrow> True"
| "in_flight allowed failed norm c k s n (Ask t j # ops) \<longleftrightarrow>
     (if norm j = k \<and> snd (allowed t j s)
      then n < c \<and> in_flight allowed failed norm c k (fst (allowed t j s)) (n + 1) ops
      else in_flight allowed failed norm c k (fst (allowed t j s)) n ops)"
| "in_flight allowed failed norm c k s n (Fail t j # ops) \<longleftrightarrow>
     (if norm j = k then 0 < n \<and> in_flight allowed failed norm c k (failed t j s) (n - 1) ops
      else in_flight allowed failed norm c k (failed t j s) n ops)"
| "in_flight allowed failed norm c k s n (Leave j # ops) \<longleftrightarrow>
     (if norm j = k then 0 < n \<and> in_flight allowed failed norm c k s (n - 1) ops
      else in_flight allowed failed norm c k s n ops)"

fun op_key :: "throttle_op \<Rightarrow> string" where
  "op_key (Ask t k) = k"
| "op_key (Fail t k) = k"
| "op_key (Leave k) = k"

fun op_times :: "throttle_op list \<Rightarrow> int list" where
  "op_times [] = []"
| "op_times (Ask t k # ops) = t # op_times ops"
| "op_times (Fail t k # ops) = t # op_times ops"
| "op_times (Leave k # ops) = op_times ops"

text \<open>The times of the wrong attempts on a key.\<close>

fun failures :: "(string \<Rightarrow> string) \<Rightarrow> string \<Rightarrow> throttle_op list \<Rightarrow> int list" where
  "failures norm k [] = []"
| "failures norm k (Fail t j # ops) = (if norm j = k then [t] else []) @ failures norm k ops"
| "failures norm k (Ask t j # ops) = failures norm k ops"
| "failures norm k (Leave j # ops) = failures norm k ops"

definition in_window :: "int \<Rightarrow> int \<Rightarrow> int list \<Rightarrow> int list" where
  "in_window window t xs = filter (\<lambda>x. t - window \<le> x \<and> x \<le> t) xs"

lemma filter_stronger:
  "c \<le> d \<Longrightarrow> filter (\<lambda>x. d \<le> x) (filter (\<lambda>x. c \<le> x) xs) = filter (\<lambda>x. (d :: int) \<le> x) xs"
  by (induction xs) auto

lemma in_window_snoc:
  "length (in_window window u (log @ [t])) \<le>
     (if u < t then length (in_window window u log) else length (filter (\<lambda>x. u - window \<le> x) log) + 1)"
proof -
  have "length (filter (\<lambda>x. u - window \<le> x \<and> x \<le> u) log) \<le> length (filter (\<lambda>x. u - window \<le> x) log)"
    by (induction log) auto
  then show ?thesis by (auto simp: in_window_def)
qed

locale throttle =
  fixes allowed :: "int \<Rightarrow> string \<Rightarrow> 's \<Rightarrow> 's \<times> bool"
    and failed :: "int \<Rightarrow> string \<Rightarrow> 's \<Rightarrow> 's"
    and hits :: "'s \<Rightarrow> string \<Rightarrow> int list"
    and table :: "'s \<Rightarrow> string list"
    and norm :: "string \<Rightarrow> string"
    and window :: int and limit room :: nat
  assumes hits_allowed: "length (table s) \<le> room \<Longrightarrow> norm k \<noteq> [] \<Longrightarrow>
      hits (fst (allowed t k s)) j = (if j = norm k then filter (\<lambda>x. t - window \<le> x) (hits s j) else hits s j)"
    and allowed_iff: "length (table s) \<le> room \<Longrightarrow> norm k \<noteq> [] \<Longrightarrow>
      snd (allowed t k s) \<longleftrightarrow> length (filter (\<lambda>x. t - window \<le> x) (hits s (norm k))) < limit"
    and hits_failed: "norm k \<noteq> [] \<Longrightarrow>
      hits (failed t k s) j = (if j = norm k then hits s j @ [t] else hits s j)"
    and table_allowed: "set (table (fst (allowed t k s))) \<subseteq> insert (norm k) (set (table s))"
    and table_failed: "set (table (failed t k s)) \<subseteq> insert (norm k) (set (table s))"
    and distinct_allowed: "distinct (table s) \<Longrightarrow> distinct (table (fst (allowed t k s)))"
    and distinct_failed: "distinct (table s) \<Longrightarrow> distinct (table (failed t k s))"
    and window_nonneg: "0 \<le> window"
begin

abbreviation flights :: "nat \<Rightarrow> string \<Rightarrow> 's \<Rightarrow> nat \<Rightarrow> throttle_op list \<Rightarrow> bool" where
  "flights \<equiv> in_flight allowed failed norm"

text \<open>The hits of \<open>k\<close> and the wrong attempts so far agree on everything recent.\<close>

definition agrees :: "int \<Rightarrow> string \<Rightarrow> int list \<Rightarrow> 's \<Rightarrow> bool" where
  "agrees now k log s \<longleftrightarrow>
     (\<forall>c \<ge> now - window. filter (\<lambda>x. c \<le> x) (hits s k) = filter (\<lambda>x. c \<le> x) log)"

text \<open>From now on: the recent wrong attempts and those in flight, and what every window holds.\<close>

definition load_ok :: "nat \<Rightarrow> int \<Rightarrow> nat \<Rightarrow> int list \<Rightarrow> bool" where
  "load_ok c now n log \<longleftrightarrow> (\<forall>w \<ge> now - window. length (filter (\<lambda>x. w \<le> x) log) + n \<le> limit + c - 1)"

text \<open>The table holds keys of \<open>K\<close> only, which there are few enough of not to empty it.\<close>

definition holds :: "string set \<Rightarrow> 's \<Rightarrow> bool" where
  "holds K s \<longleftrightarrow> distinct (table s) \<and> set (table s) \<subseteq> K \<and> finite K \<and> card K \<le> room"

lemma holds_room:
  assumes "holds K s"
  shows "length (table s) \<le> room"
proof -
  have "length (table s) = card (set (table s))" using assms by (simp add: holds_def distinct_card)
  also have "\<dots> \<le> card K" using assms by (intro card_mono) (simp_all add: holds_def)
  finally show ?thesis using assms by (simp add: holds_def)
qed

lemma holds_step:
  assumes "holds K s" and "norm k \<in> K"
  shows "holds K (fst (allowed t k s))" "holds K (failed t k s)"
  using assms table_allowed [of t k s] table_failed [of t k s]
  by (auto simp: holds_def distinct_allowed distinct_failed)

definition few :: "nat \<Rightarrow> int list \<Rightarrow> bool" where
  "few c log \<longleftrightarrow> (\<forall>t. length (in_window window t log) \<le> limit + c - 1)"

lemma agrees_later: "agrees t k log s \<Longrightarrow> t \<le> t' \<Longrightarrow> agrees t' k log s"
  by (auto simp: agrees_def)

lemma load_later: "load_ok c t n log \<Longrightarrow> t \<le> t' \<Longrightarrow> load_ok c t' n log"
  by (auto simp: load_ok_def)

lemma load_less:
  assumes "load_ok c t n log"
  shows "load_ok c t (n - 1) log"
  unfolding load_ok_def
proof (intro allI impI)
  fix w assume "t - window \<le> w"
  then have "length (filter (\<lambda>x. w \<le> x) log) + n \<le> limit + c - 1" using assms by (simp add: load_ok_def)
  then show "length (filter (\<lambda>x. w \<le> x) log) + (n - 1) \<le> limit + c - 1" by linarith
qed

lemma agrees_ask:
  assumes "length (table s) \<le> room" "norm j \<noteq> []" "agrees t k log s"
  shows "agrees t k log (fst (allowed t j s))"
  unfolding agrees_def
proof (intro allI impI)
  fix c assume c: "t - window \<le> c"
  then have "filter (\<lambda>x. c \<le> x) (hits s k) = filter (\<lambda>x. c \<le> x) log" using assms(3) by (simp add: agrees_def)
  then show "filter (\<lambda>x. c \<le> x) (hits (fst (allowed t j s)) k) = filter (\<lambda>x. c \<le> x) log"
    using c by (auto simp: hits_allowed [OF assms(1,2)] filter_stronger simp del: filter_filter)
qed

lemma agrees_fail:
  "norm j \<noteq> [] \<Longrightarrow> agrees t k log s \<Longrightarrow> agrees t k (log @ (if norm j = k then [t] else [])) (failed t j s)"
  by (auto simp: agrees_def hits_failed)

lemma load_ask:
  assumes "length (table s) \<le> room" "norm j \<noteq> []" "agrees t k log s" "norm j = k" "snd (allowed t j s)" "n < c"
  shows "load_ok c t (n + 1) log"
  unfolding load_ok_def
proof (intro allI impI)
  fix w assume w: "t - window \<le> w"
  have "length (filter (\<lambda>x. t - window \<le> x) log) < limit"
    using assms(3-5) allowed_iff [OF assms(1,2)] by (simp add: agrees_def)
  moreover have "length (filter (\<lambda>x. w \<le> x) log) \<le> length (filter (\<lambda>x. t - window \<le> x) log)"
    using w by (induction log) auto
  ultimately show "length (filter (\<lambda>x. w \<le> x) log) + (n + 1) \<le> limit + c - 1" using assms(6) by simp
qed

lemma load_fail:
  assumes "load_ok c t n log" "0 < n"
  shows "load_ok c t (n - 1) (log @ [t])"
  unfolding load_ok_def
proof (intro allI impI)
  fix w assume "t - window \<le> w"
  then have "length (filter (\<lambda>x. w \<le> x) log) + n \<le> limit + c - 1" using assms(1) by (simp add: load_ok_def)
  moreover have "length (filter (\<lambda>x. w \<le> x) (log @ [t])) \<le> length (filter (\<lambda>x. w \<le> x) log) + 1"
    by simp
  ultimately show "length (filter (\<lambda>x. w \<le> x) (log @ [t])) + (n - 1) \<le> limit + c - 1" using assms(2) by linarith
qed

lemma few_fail:
  assumes "load_ok c t n log" "0 < n" "few c log"
  shows "few c (log @ [t])"
  unfolding few_def
proof
  fix u
  show "length (in_window window u (log @ [t])) \<le> limit + c - 1"
  proof (cases "u < t")
    case True
    then have "length (in_window window u (log @ [t])) \<le> length (in_window window u log)"
      using in_window_snoc [of window u log t] by simp
    also have "\<dots> \<le> limit + c - 1" using assms(3) by (simp add: few_def)
    finally show ?thesis .
  next
    case False
    then have "t - window \<le> u - window" by simp
    then have "length (filter (\<lambda>x. u - window \<le> x) log) + n \<le> limit + c - 1" using assms(1) by (simp add: load_ok_def)
    moreover have "length (in_window window u (log @ [t])) \<le> length (filter (\<lambda>x. u - window \<le> x) log) + 1"
      using in_window_snoc [of window u log t] False by simp
    ultimately show ?thesis using assms(2) by linarith
  qed
qed

lemma run_few:
  "holds K s \<Longrightarrow> \<forall>p\<in>set ops. norm (op_key p) \<noteq> [] \<and> norm (op_key p) \<in> K \<Longrightarrow>
   sorted (op_times ops) \<Longrightarrow> \<forall>x\<in>set (op_times ops). t \<le> x \<Longrightarrow> agrees t k log s \<Longrightarrow> load_ok c t n log \<Longrightarrow>
   few c log \<Longrightarrow> flights c k s n ops \<Longrightarrow> few c (log @ failures norm k ops)"
proof (induction ops arbitrary: s t log n)
  case Nil
  then show ?case by simp
next
  case (Cons p ops)
  show ?case
  proof (cases p)
    case (Ask t' j)
    have room: "length (table s) \<le> room" "norm j \<noteq> []" "t \<le> t'"
      using Cons.prems(2,4) Ask holds_room [OF Cons.prems(1)] by simp_all
    have ag: "agrees t' k log (fst (allowed t' j s))"
      by (rule agrees_ask [OF room(1,2) agrees_later [OF Cons.prems(5) room(3)]])
    have less: "holds K (fst (allowed t' j s))"
      using Cons.prems(2) Ask by (intro holds_step [OF Cons.prems(1)]) simp
    have tail: "\<forall>p\<in>set ops. norm (op_key p) \<noteq> [] \<and> norm (op_key p) \<in> K" "sorted (op_times ops)" "\<forall>x\<in>set (op_times ops). t' \<le> x"
      using Cons.prems(2,3) Ask by simp_all
    show ?thesis
    proof (cases "norm j = k \<and> snd (allowed t' j s)")
      case True
      then have n: "n < c" "flights c k (fst (allowed t' j s)) (n + 1) ops" using Cons.prems(8) Ask by simp_all
      have "load_ok c t' (n + 1) log"
        using load_ask [OF room(1,2) agrees_later [OF Cons.prems(5) room(3)] _ _ n(1)] True by blast
      from Cons.IH [OF less tail ag this Cons.prems(7) n(2)] show ?thesis using Ask by simp
    next
      case False
      then have "flights c k (fst (allowed t' j s)) n ops" using Cons.prems(8) Ask by auto
      from Cons.IH [OF less tail ag load_later [OF Cons.prems(6) room(3)] Cons.prems(7) this] show ?thesis
        using Ask by simp
    qed
  next
    case (Fail t' j)
    have room: "norm j \<noteq> []" "t \<le> t'" using Cons.prems Fail by simp_all
    have ag: "agrees t' k (log @ (if norm j = k then [t'] else [])) (failed t' j s)"
      by (rule agrees_fail [OF room(1) agrees_later [OF Cons.prems(5) room(2)]])
    have less: "holds K (failed t' j s)"
      using Cons.prems(2) Fail by (intro holds_step [OF Cons.prems(1)]) simp
    have tail: "\<forall>p\<in>set ops. norm (op_key p) \<noteq> [] \<and> norm (op_key p) \<in> K" "sorted (op_times ops)" "\<forall>x\<in>set (op_times ops). t' \<le> x"
      using Cons.prems(2,3) Fail by simp_all
    have load: "load_ok c t' n log" by (rule load_later [OF Cons.prems(6) room(2)])
    show ?thesis
    proof (cases "norm j = k")
      case True
      then have n: "0 < n" "flights c k (failed t' j s) (n - 1) ops" using Cons.prems(8) Fail by simp_all
      from Cons.IH [OF less tail _ load_fail [OF load n(1)] few_fail [OF load n(1) Cons.prems(7)] n(2)] ag True
      show ?thesis using Fail by simp
    next
      case False
      then have "flights c k (failed t' j s) n ops" using Cons.prems(8) Fail by simp
      from Cons.IH [OF less tail _ load Cons.prems(7) this] ag False show ?thesis using Fail by simp
    qed
  next
    case (Leave j)
    have tail: "holds K s" "\<forall>p\<in>set ops. norm (op_key p) \<noteq> [] \<and> norm (op_key p) \<in> K" "sorted (op_times ops)"
      "\<forall>x\<in>set (op_times ops). t \<le> x"
      using Cons.prems(1-4) Leave by simp_all
    show ?thesis
    proof (cases "norm j = k")
      case True
      then have "flights c k s (n - 1) ops" using Cons.prems(8) Leave by simp
      from Cons.IH [OF tail Cons.prems(5) load_less [OF Cons.prems(6)] Cons.prems(7) this] show ?thesis using Leave by simp
    next
      case False
      then have "flights c k s n ops" using Cons.prems(8) Leave by simp
      from Cons.IH [OF tail Cons.prems(5-7) this] show ?thesis using Leave by simp
    qed
  qed
qed

text \<open>From an empty table, over at most \<open>room\<close> keys and with at most \<open>c\<close> attempts on \<open>k\<close> in flight, no window holds more than
  \<open>limit + c - 1\<close> wrong attempts on it.\<close>

lemma window_bound:
  assumes "table s = []" and "hits s k = []" and "card ((norm \<circ> op_key) ` set ops) \<le> room"
    and "\<forall>p\<in>set ops. norm (op_key p) \<noteq> []" and "sorted (op_times ops)" and "flights c k s 0 ops"
  shows "length (in_window window u (failures norm k ops)) \<le> limit + c - 1"
proof -
  define t where "t = (case op_times ops of [] \<Rightarrow> 0 | x # xs \<Rightarrow> x)"
  have "few c ([] @ failures norm k ops)"
  proof (rule run_few [where K = "(norm \<circ> op_key) ` set ops"])
    show "holds ((norm \<circ> op_key) ` set ops) s" using assms(1,3) by (simp add: holds_def)
    show "\<forall>p\<in>set ops. norm (op_key p) \<noteq> [] \<and> norm (op_key p) \<in> (norm \<circ> op_key) ` set ops"
      using assms(4) by simp
    show "\<forall>x\<in>set (op_times ops). t \<le> x" using assms(5) by (auto simp: t_def split: list.splits)
  qed (use assms in \<open>auto simp: agrees_def load_ok_def few_def in_window_def\<close>)
  then show ?thesis by (simp add: few_def)
qed

end

end
