(* ===== verification/Totp.thy ===== *)
theory Totp
  imports GoPrelude
begin

text \<open>
  One-time passwords (\<open>cmd/server/totp.go\<close>, RFC 6238). The decoder of base32 and HMAC-SHA1 belong to
  Go's library and are the parameters \<open>b32\<close> and \<open>hmac\<close>; a SHA-1 sum has 20 bytes, so the four bytes
  that the dynamic truncation picks (its offset is at most 15) are in range. The clock is an
  argument, in seconds, and is not negative. Random secrets and the provisioning URL are left out.
\<close>

definition totpDigits :: nat where
  "totpDigits = 6"

definition totpPeriod :: int where
  "totpPeriod = 30"

record otp_lib =
  b32 :: "string \<Rightarrow> bytes option"
  hmac :: "bytes \<Rightarrow> bytes \<Rightarrow> bytes"

definition otp_lib_ok :: "otp_lib \<Rightarrow> bool" where
  "otp_lib_ok L \<longleftrightarrow> (\<forall>k m. length (hmac L k m) = 20)"

definition upper_char :: "char \<Rightarrow> char" where
  "upper_char c = (let n = of_char c :: nat in if 97 \<le> n \<and> n \<le> 122 then char_of (n - 32) else c)"

definition be64 :: "64 word \<Rightarrow> bytes" where
  "be64 w = map (\<lambda>i. ucast (drop_bit (56 - 8 * i) w)) [0..<8]"

definition pad6 :: "nat \<Rightarrow> string" where
  "pad6 n = replicate (totpDigits - length (show_nat n)) CHR ''0'' @ show_nat n"

definition truncated :: "bytes \<Rightarrow> nat" where
  "truncated mac =
     (let off = unat (last mac AND 0x0f);
          bin = push_bit 24 (ucast (mac ! off AND 0x7f)) OR push_bit 16 (ucast (mac ! (off + 1))) OR
            push_bit 8 (ucast (mac ! (off + 2))) OR (ucast (mac ! (off + 3)) :: 32 word)
      in unat (bin mod 1000000))"

definition totpAt :: "otp_lib \<Rightarrow> string \<Rightarrow> int \<Rightarrow> string" where
  "totpAt L secret unix =
     (case b32 L (map upper_char (trim_space secret)) of
        None \<Rightarrow> []
      | Some key \<Rightarrow>
          if key = [] then []
          else pad6 (truncated (hmac L key (be64 (word_of_int (unix div totpPeriod))))))"

definition normalizeTOTPCode :: "string \<Rightarrow> string" where
  "normalizeTOTPCode code =
     take totpDigits (filter (\<lambda>c. 48 \<le> (of_char c :: nat) \<and> (of_char c :: nat) \<le> 57) (trim_space code))"

definition totp_offsets :: "int list" where
  "totp_offsets = [0, - totpPeriod, totpPeriod]"

definition totpVerify :: "otp_lib \<Rightarrow> string \<Rightarrow> string \<Rightarrow> int \<Rightarrow> bool" where
  "totpVerify L secret code0 now =
     (let code = normalizeTOTPCode code0 in
      if secret = [] \<or> length code \<noteq> totpDigits then False
      else \<exists>d\<in>set totp_offsets. totpAt L secret (now + d) = code)"

definition match_step :: "otp_lib \<Rightarrow> string \<Rightarrow> string \<Rightarrow> int \<Rightarrow> int option \<Rightarrow> int \<Rightarrow> int option" where
  "match_step L secret code now acc d =
     (if totpAt L secret (now + d) = code then Some ((now + d) div totpPeriod) else acc)"

definition totpMatchStep :: "otp_lib \<Rightarrow> string \<Rightarrow> string \<Rightarrow> int \<Rightarrow> int option" where
  "totpMatchStep L secret code0 now =
     (let code = normalizeTOTPCode code0 in
      if secret = [] \<or> length code \<noteq> totpDigits then None
      else foldl (match_step L secret code now) None totp_offsets)"

section \<open>The code of a time step\<close>

definition step_code :: "otp_lib \<Rightarrow> string \<Rightarrow> int \<Rightarrow> string" where
  "step_code L secret n = totpAt L secret (n * totpPeriod)"

lemma totpAt_step: "totpAt L secret t = step_code L secret (t div totpPeriod)"
proof -
  have "t div totpPeriod * totpPeriod div totpPeriod = t div totpPeriod" by (simp add: totpPeriod_def)
  then show ?thesis by (simp only: step_code_def totpAt_def)
qed

lemma step_shift:
  "(now + - totpPeriod) div totpPeriod = now div totpPeriod - 1"
  "(now + totpPeriod) div totpPeriod = now div totpPeriod + 1"
  by (simp_all add: totpPeriod_def)

lemma truncated_less: "truncated s < 1000000"
proof -
  have "unat (w mod 1000000) < 1000000" for w :: "32 word"
    by (simp add: unat_mod)
  then show ?thesis by (simp add: truncated_def Let_def)
qed

lemma show_nat_length: "n < 10 ^ k \<Longrightarrow> 0 < k \<Longrightarrow> length (show_nat n) \<le> k"
proof (induction n arbitrary: k rule: show_nat.induct)
  case (1 n)
  show ?case
  proof (cases "n < 10")
    case True
    then show ?thesis using "1.prems" by (simp add: show_nat.simps [of n])
  next
    case False
    then have "k \<noteq> 1" using "1.prems" by auto
    then obtain j where k: "k = Suc j" "0 < j"
      using "1.prems" by (metis One_nat_def Suc_pred gr0I)
    have "n div 10 < 10 ^ j" using "1.prems" k by (simp add: div_less_iff_less_mult)
    then show ?thesis using "1.IH" [of j] False k by (simp add: show_nat.simps [of n])
  qed
qed

lemma truncation_in_range: "length s = 20 \<Longrightarrow> unat (last s AND 0x0f) + 3 < length (s :: bytes)"
proof -
  assume len: "length s = 20"
  have "last s AND 0x0f \<le> 0x0f" by (rule word_and_le1)
  then have "unat (last s AND 0x0f) \<le> 15" by (simp add: word_le_nat_alt)
  then show ?thesis using len by simp
qed

lemma code_shape:
  "totpAt L secret t = [] \<or>
   (length (totpAt L secret t) = 6 \<and> (\<forall>c\<in>set (totpAt L secret t). 48 \<le> (of_char c :: nat) \<and> (of_char c :: nat) \<le> 57))"
proof -
  have "length (pad6 n) = 6 \<and> (\<forall>c\<in>set (pad6 n). 48 \<le> (of_char c :: nat) \<and> (of_char c :: nat) \<le> 57)"
    if "n < 1000000" for n
    using show_nat_length [of n 6] that by (auto simp: pad6_def totpDigits_def dest: show_nat_digits)
  then have code: "length (pad6 (truncated m)) = 6 \<and>
      (\<forall>c\<in>set (pad6 (truncated m)). 48 \<le> (of_char c :: nat) \<and> (of_char c :: nat) \<le> 57)" for m
    using truncated_less by blast
  show ?thesis
  proof (cases "b32 L (map upper_char (trim_space secret))")
    case None
    then show ?thesis by (simp add: totpAt_def)
  next
    case (Some key)
    show ?thesis using code [of "hmac L key (be64 (word_of_int (t div totpPeriod)))"]
      by (simp add: totpAt_def Some)
  qed
qed

definition accepted_steps :: "otp_lib \<Rightarrow> string \<Rightarrow> string \<Rightarrow> int \<Rightarrow> int set" where
  "accepted_steps L secret code now =
     {n \<in> {now div totpPeriod - 1, now div totpPeriod, now div totpPeriod + 1}.
        step_code L secret n = normalizeTOTPCode code}"

lemma match_window:
  assumes "secret \<noteq> []" and "length (normalizeTOTPCode code) = totpDigits"
  shows "(totpMatchStep L secret code now = None \<longleftrightarrow> accepted_steps L secret code now = {}) \<and>
         (\<forall>n. totpMatchStep L secret code now = Some n \<longrightarrow> n \<in> accepted_steps L secret code now) \<and>
         (totpVerify L secret code now \<longleftrightarrow> totpMatchStep L secret code now \<noteq> None)"
proof -
  have m: "totpMatchStep L secret code now =
      (if step_code L secret (now div totpPeriod + 1) = normalizeTOTPCode code then Some (now div totpPeriod + 1)
       else if step_code L secret (now div totpPeriod - 1) = normalizeTOTPCode code then Some (now div totpPeriod - 1)
       else if step_code L secret (now div totpPeriod) = normalizeTOTPCode code then Some (now div totpPeriod)
       else None)"
    using assms step_shift [of now]
    by (simp add: totpMatchStep_def match_step_def totp_offsets_def totpAt_step Let_def)
  have v: "totpVerify L secret code now \<longleftrightarrow> accepted_steps L secret code now \<noteq> {}"
    using assms step_shift [of now]
    by (auto simp: totpVerify_def accepted_steps_def totp_offsets_def totpAt_step Let_def)
  show ?thesis unfolding v m by (auto simp: accepted_steps_def)
qed

lemma totp_match_window_steps:
  "secret \<noteq> [] \<Longrightarrow> length (normalizeTOTPCode code) = totpDigits \<Longrightarrow>
   totpMatchStep L secret code now = Some n \<Longrightarrow> n \<in> accepted_steps L secret code now"
  using match_window by blast

text \<open>The verification accepts a code exactly when it is the code of the current time step or of one
  of its two neighbours, and the step it reports is one of those; every code it can be compared with has
  six digits.\<close>

theorem totp_match_window:
  "(totpMatchStep L secret code now \<noteq> None \<longleftrightarrow>
      secret \<noteq> [] \<and> length (normalizeTOTPCode code) = 6 \<and> accepted_steps L secret code now \<noteq> {}) \<and>
   (\<forall>n. totpMatchStep L secret code now = Some n \<longrightarrow> n \<in> accepted_steps L secret code now) \<and>
   (totpVerify L secret code now \<longleftrightarrow> totpMatchStep L secret code now \<noteq> None) \<and>
   (totpAt L secret now = [] \<or> length (totpAt L secret now) = 6)"
proof (cases "secret \<noteq> [] \<and> length (normalizeTOTPCode code) = totpDigits")
  case True
  then show ?thesis using match_window [of secret code L now] code_shape [of L secret now]
    by (auto simp: totpDigits_def)
next
  case False
  then show ?thesis using code_shape [of L secret now]
    by (auto simp: totpMatchStep_def totpVerify_def totpDigits_def)
qed

definition demo_otp :: otp_lib where
  "demo_otp = \<lparr>b32 = (\<lambda>_. Some [1]), hmac = (\<lambda>k m. replicate 20 0)\<rparr>"

lemma totp_match_window_witness:
  "totpMatchStep demo_otp ''S'' ''000000'' 3000 \<noteq> None \<and> totpVerify demo_otp ''S'' ''000000'' 3000"
proof -
  have zero: "show_nat 0 = ''0''" by (simp add: show_nat_eval digit_chars)
  have s: "trim_space ''S'' = ''S''" by (simp add: trim_space_def is_space_def)
  have "truncated (replicate 20 0) = 0" by (simp add: truncated_def Let_def)
  then have code: "step_code demo_otp ''S'' n = ''000000''" for n
    by (simp add: step_code_def totpAt_def demo_otp_def pad6_def zero totpDigits_def s numeral_eq_Suc)
  have norm: "normalizeTOTPCode ''000000'' = ''000000''"
    by (simp add: normalizeTOTPCode_def totpDigits_def trim_space_def is_space_def)
  have "accepted_steps demo_otp ''S'' ''000000'' 3000 \<noteq> {}" by (auto simp: accepted_steps_def code norm)
  then show ?thesis using totp_match_window [of demo_otp "''S''" "''000000''" 3000] norm by simp
qed

end
