(* ===== verification/AuthCore.thy ===== *)
theory AuthCore
  imports GoMap Throttle Totp Transition
begin

text \<open>
  The login state of the server (\<open>cmd/server/auth_core.go\<close>): the sessions, the tokens of the HTTP
  proxy, the throttles of failed logins per address and per account, the lockout of the terminal
  password and the register of spent one-time passwords.

  Times: the sessions, tokens and lockouts use \<open>time.Time\<close>, here nanoseconds; the throttles and the
  register use Unix seconds. A call reads the clock once here. \<open>key\<close> is \<open>sessionKey\<close>, the hex SHA-256
  of a token; the random token of an issued session is an argument. A session cookie is an optional
  string. Go's order of map iteration is the parameter \<open>ord\<close>.
\<close>

section \<open>State\<close>

definition seconds :: "int \<Rightarrow> int" where
  "seconds n = n * 1000000000"

definition sessionTTL :: int where "sessionTTL = seconds (7 * 24 * 3600)"
definition loginWindowSec :: int where "loginWindowSec = 300"
definition loginMaxFailures :: nat where "loginMaxFailures = 8"
definition proxyTokenTTL :: int where "proxyTokenTTL = seconds 60"
definition termMaxAttempts :: int where "termMaxAttempts = 3"
definition termLockoutSec :: int where "termLockoutSec = 300"
definition loginAccountWindowSec :: int where "loginAccountWindowSec = 900"
definition loginAccountMaxFail :: nat where "loginAccountMaxFail = 10"
definition sessionIdleTimeout :: int where "sessionIdleTimeout = seconds (24 * 3600)"

record session =
  se_user :: string
  se_expires :: int
  se_restricted :: bool
  se_pwChangeOnly :: bool
  se_terminalVerified :: bool
  se_lastSeen :: "int option"

record proxy_token =
  pt_user :: string
  pt_expires :: int

record auth =
  au_sessions :: "session go_map"
  au_dirty :: bool
  au_proxyTokens :: "proxy_token go_map"
  au_loginHit :: "int list go_map"
  au_loginHitUser :: "int list go_map"
  au_termAttempts :: "int go_map"
  au_termLocked :: "int go_map"
  au_totpUsed :: "int go_map"

definition NewAuth :: auth where
  "NewAuth = \<lparr>au_sessions = [], au_dirty = False, au_proxyTokens = [], au_loginHit = [],
     au_loginHitUser = [], au_termAttempts = [], au_termLocked = [], au_totpUsed = []\<rparr>"

section \<open>Tokens of the HTTP proxy\<close>

definition prune_proxy :: "key_order \<Rightarrow> int \<Rightarrow> proxy_token go_map \<Rightarrow> proxy_token go_map" where
  "prune_proxy ord now m =
     (if 2048 < length m then
        (let m1 = filter (\<lambda>e. \<not> pt_expires (snd e) < now) m in
         if 2048 < length m1 then without (take (length m1 div 2) (ord (map fst m1))) m1 else m1)
      else m)"

definition generateProxyToken :: "key_order \<Rightarrow> int \<Rightarrow> string \<Rightarrow> string \<Rightarrow> auth \<Rightarrow> auth" where
  "generateProxyToken ord now tok user a =
     a\<lparr>au_proxyTokens := AList.update tok \<lparr>pt_user = user, pt_expires = now + proxyTokenTTL\<rparr>
         (prune_proxy ord now (au_proxyTokens a))\<rparr>"

definition validateProxyToken :: "int \<Rightarrow> string \<Rightarrow> auth \<Rightarrow> auth \<times> string" where
  "validateProxyToken now tok a =
     (a\<lparr>au_proxyTokens := AList.delete tok (au_proxyTokens a)\<rparr>,
      case map_of (au_proxyTokens a) tok of
        None \<Rightarrow> []
      | Some pt \<Rightarrow> if pt_expires pt < now then [] else pt_user pt)"

section \<open>Throttles of failed logins\<close>

text \<open>The body the two \<open>Allowed\<close> methods share: prune the entry of one key, keep it unless empty.\<close>

definition pruned_hits :: "int \<Rightarrow> string \<Rightarrow> int list go_map \<Rightarrow> int list go_map \<times> nat" where
  "pruned_hits cutoff k m =
     (let m1 = (if 4096 < length m then [] else m);
          kept = filter (\<lambda>t. cutoff \<le> t) (get_or [] m1 k)
      in ((if kept = [] then AList.delete k m1 else AList.update k kept m1), length kept))"

definition account_key :: "string \<Rightarrow> string" where
  "account_key user = to_lower (trim_space user)"

definition loginAllowed :: "int \<Rightarrow> string \<Rightarrow> auth \<Rightarrow> auth \<times> bool" where
  "loginAllowed now ip a =
     (let (m, n) = pruned_hits (now - loginWindowSec) ip (au_loginHit a)
      in (a\<lparr>au_loginHit := m\<rparr>, n < loginMaxFailures))"

definition loginFailed :: "int \<Rightarrow> string \<Rightarrow> auth \<Rightarrow> auth" where
  "loginFailed now ip a =
     a\<lparr>au_loginHit := AList.update ip (get_or [] (au_loginHit a) ip @ [now]) (au_loginHit a)\<rparr>"

definition loginAccountAllowed :: "int \<Rightarrow> string \<Rightarrow> auth \<Rightarrow> auth \<times> bool" where
  "loginAccountAllowed now user a =
     (let k = account_key user in
      if k = [] then (a, True)
      else let (m, n) = pruned_hits (now - loginAccountWindowSec) k (au_loginHitUser a)
           in (a\<lparr>au_loginHitUser := m\<rparr>, n < loginAccountMaxFail))"

definition loginAccountFailed :: "int \<Rightarrow> string \<Rightarrow> auth \<Rightarrow> auth" where
  "loginAccountFailed now user a =
     (let k = account_key user in
      if k = [] then a
      else a\<lparr>au_loginHitUser := AList.update k (get_or [] (au_loginHitUser a) k @ [now]) (au_loginHitUser a)\<rparr>)"

definition loginAccountReset :: "string \<Rightarrow> auth \<Rightarrow> auth" where
  "loginAccountReset user a = a\<lparr>au_loginHitUser := AList.delete (account_key user) (au_loginHitUser a)\<rparr>"

section \<open>One-time passwords are spent once\<close>

datatype totp_result = TotpOK | TotpInvalid | TotpReplay

definition totp_key :: "string \<Rightarrow> int \<Rightarrow> string" where
  "totp_key user n = account_key user @ '':'' @ show_int n"

definition prune_used :: "int \<Rightarrow> int go_map \<Rightarrow> int go_map" where
  "prune_used now m = filter (\<lambda>e. \<not> snd e < now) m"

definition consume_key :: "int \<Rightarrow> string \<Rightarrow> int go_map \<Rightarrow> int go_map \<times> totp_result" where
  "consume_key now k m =
     (if map_of m k \<noteq> None then (m, TotpReplay) else (AList.update k (now + 2 * totpPeriod) m, TotpOK))"

definition verifyAndConsumeTOTP ::
    "otp_lib \<Rightarrow> key_order \<Rightarrow> int \<Rightarrow> string \<Rightarrow> string \<Rightarrow> string \<Rightarrow> auth \<Rightarrow> auth \<times> totp_result" where
  "verifyAndConsumeTOTP L ord now user secret code a =
     (case totpMatchStep L secret code now of
        None \<Rightarrow> (a, TotpInvalid)
      | Some n \<Rightarrow>
          let (m, res) = consume_key now (totp_key user n)
                (capStringMap ord maxTOTPUsed (prune_used now (au_totpUsed a)))
          in (a\<lparr>au_totpUsed := m\<rparr>, res))"

definition checkTOTP ::
    "otp_lib \<Rightarrow> int \<Rightarrow> string \<Rightarrow> string \<Rightarrow> string \<Rightarrow> auth \<Rightarrow> auth \<times> totp_result \<times> int" where
  "checkTOTP L now user secret code a =
     (case totpMatchStep L secret code now of
        None \<Rightarrow> (a, TotpInvalid, 0)
      | Some n \<Rightarrow>
          let m = prune_used now (au_totpUsed a)
          in (a\<lparr>au_totpUsed := m\<rparr>, if map_of m (totp_key user n) \<noteq> None then TotpReplay else TotpOK, n))"

definition consumeTOTPStep :: "int \<Rightarrow> string \<Rightarrow> int \<Rightarrow> auth \<Rightarrow> auth \<times> totp_result" where
  "consumeTOTPStep now user n a =
     (let (m, res) = consume_key now (totp_key user n) (prune_used now (au_totpUsed a))
      in (a\<lparr>au_totpUsed := m\<rparr>, res))"

section \<open>Sessions\<close>

definition live_session :: "int \<Rightarrow> session \<Rightarrow> bool" where
  "live_session now s \<longleftrightarrow> \<not> se_expires s < now \<and>
     (case se_lastSeen s of None \<Rightarrow> True | Some l \<Rightarrow> \<not> sessionIdleTimeout < now - l)"

definition validate :: "(string \<Rightarrow> string) \<Rightarrow> int \<Rightarrow> string \<Rightarrow> auth \<Rightarrow> auth \<times> bool" where
  "validate key now tok a =
     (if tok = [] then (a, False)
      else case map_of (au_sessions a) (key tok) of
             None \<Rightarrow> (a, False)
           | Some s \<Rightarrow>
               if \<not> live_session now s
               then (a\<lparr>au_sessions := AList.delete (key tok) (au_sessions a), au_dirty := True\<rparr>, False)
               else (a\<lparr>au_sessions := AList.update (key tok) (s\<lparr>se_lastSeen := Some now\<rparr>) (au_sessions a)\<rparr>, True))"

definition ValidateRequest :: "(string \<Rightarrow> string) \<Rightarrow> int \<Rightarrow> string option \<Rightarrow> auth \<Rightarrow> auth \<times> bool" where
  "ValidateRequest key now cookie a =
     (case cookie of None \<Rightarrow> (a, False) | Some tok \<Rightarrow> validate key now tok a)"

definition Logout :: "(string \<Rightarrow> string) \<Rightarrow> string \<Rightarrow> auth \<Rightarrow> auth" where
  "Logout key tok a = a\<lparr>au_sessions := AList.delete (key tok) (au_sessions a), au_dirty := True\<rparr>"

definition ClearSessions :: "auth \<Rightarrow> auth" where
  "ClearSessions a = a\<lparr>au_sessions := [], au_dirty := True\<rparr>"

definition new_session :: "int \<Rightarrow> string \<Rightarrow> session" where
  "new_session now user = \<lparr>se_user = user, se_expires = now + sessionTTL, se_restricted = False,
     se_pwChangeOnly = False, se_terminalVerified = False, se_lastSeen = Some now\<rparr>"

definition store_session :: "string \<Rightarrow> session \<Rightarrow> auth \<Rightarrow> auth" where
  "store_session k s a = a\<lparr>au_sessions := AList.update k s (au_sessions a), au_dirty := True\<rparr>"

definition issueSession :: "(string \<Rightarrow> string) \<Rightarrow> int \<Rightarrow> string \<Rightarrow> string \<Rightarrow> auth \<Rightarrow> auth" where
  "issueSession key now tok user a = store_session (key tok) (new_session now user) a"

definition issueRestrictedSession :: "(string \<Rightarrow> string) \<Rightarrow> int \<Rightarrow> string \<Rightarrow> string \<Rightarrow> auth \<Rightarrow> auth" where
  "issueRestrictedSession key now tok user a =
     store_session (key tok) ((new_session now user)\<lparr>se_restricted := True\<rparr>) a"

definition issuePasswordChangeSession :: "(string \<Rightarrow> string) \<Rightarrow> int \<Rightarrow> string \<Rightarrow> string \<Rightarrow> auth \<Rightarrow> auth" where
  "issuePasswordChangeSession key now tok user a =
     store_session (key tok) ((new_session now user)\<lparr>se_pwChangeOnly := True\<rparr>) a"

text \<open>The session of a request that is past neither its cookie nor its expiry.\<close>

definition session_of :: "(string \<Rightarrow> string) \<Rightarrow> int \<Rightarrow> string option \<Rightarrow> auth \<Rightarrow> session option" where
  "session_of key now cookie a =
     (case cookie of
        None \<Rightarrow> None
      | Some tok \<Rightarrow>
          (case map_of (au_sessions a) (key tok) of
             None \<Rightarrow> None | Some s \<Rightarrow> if se_expires s < now then None else Some s))"

definition isRestricted :: "(string \<Rightarrow> string) \<Rightarrow> int \<Rightarrow> string option \<Rightarrow> auth \<Rightarrow> bool" where
  "isRestricted key now cookie a =
     (case session_of key now cookie a of None \<Rightarrow> False | Some s \<Rightarrow> se_restricted s)"

definition isPasswordChangeOnly :: "(string \<Rightarrow> string) \<Rightarrow> int \<Rightarrow> string option \<Rightarrow> auth \<Rightarrow> bool" where
  "isPasswordChangeOnly key now cookie a =
     (case session_of key now cookie a of None \<Rightarrow> False | Some s \<Rightarrow> se_pwChangeOnly s)"

definition userForRequest :: "(string \<Rightarrow> string) \<Rightarrow> int \<Rightarrow> string option \<Rightarrow> auth \<Rightarrow> string" where
  "userForRequest key now cookie a =
     (case session_of key now cookie a of None \<Rightarrow> [] | Some s \<Rightarrow> se_user s)"

definition change_session ::
    "(string \<Rightarrow> string) \<Rightarrow> string option \<Rightarrow> (session \<Rightarrow> session) \<Rightarrow> auth \<Rightarrow> auth" where
  "change_session key cookie f a =
     (case cookie of
        None \<Rightarrow> a
      | Some tok \<Rightarrow>
          (case map_of (au_sessions a) (key tok) of
             None \<Rightarrow> a | Some s \<Rightarrow> store_session (key tok) (f s) a))"

definition upgradeSession :: "(string \<Rightarrow> string) \<Rightarrow> string option \<Rightarrow> auth \<Rightarrow> auth" where
  "upgradeSession key cookie a = change_session key cookie (\<lambda>s. s\<lparr>se_restricted := False\<rparr>) a"

definition markTerminalVerified :: "(string \<Rightarrow> string) \<Rightarrow> string option \<Rightarrow> auth \<Rightarrow> auth" where
  "markTerminalVerified key cookie a = change_session key cookie (\<lambda>s. s\<lparr>se_terminalVerified := True\<rparr>) a"

definition clearUserSessions :: "string \<Rightarrow> auth \<Rightarrow> auth" where
  "clearUserSessions name a =
     a\<lparr>au_sessions := filter (\<lambda>e. se_user (snd e) \<noteq> name) (au_sessions a), au_dirty := True\<rparr>"

definition renameSessions :: "string \<Rightarrow> string \<Rightarrow> auth \<Rightarrow> auth" where
  "renameSessions oldName newName a =
     a\<lparr>au_sessions := map_values (\<lambda>s. if se_user s = oldName then s\<lparr>se_user := newName\<rparr> else s) (au_sessions a),
       au_dirty := True\<rparr>"

record db_session =
  ds_user :: string
  ds_expires :: int
  ds_terminalVerified :: bool
  ds_restricted :: bool
  ds_pwChangeOnly :: bool

definition export_session :: "session \<Rightarrow> db_session" where
  "export_session s = \<lparr>ds_user = se_user s, ds_expires = se_expires s div 1000000000,
     ds_terminalVerified = se_terminalVerified s, ds_restricted = se_restricted s,
     ds_pwChangeOnly = se_pwChangeOnly s\<rparr>"

definition exportSessions :: "int \<Rightarrow> auth \<Rightarrow> db_session go_map" where
  "exportSessions now a =
     map (\<lambda>e. (fst e, export_session (snd e))) (filter (\<lambda>e. now < se_expires (snd e)) (au_sessions a))"

definition import_session :: "int \<Rightarrow> db_session \<Rightarrow> session" where
  "import_session now d = \<lparr>se_user = ds_user d, se_expires = seconds (ds_expires d),
     se_restricted = ds_restricted d, se_pwChangeOnly = ds_pwChangeOnly d,
     se_terminalVerified = ds_terminalVerified d, se_lastSeen = Some now\<rparr>"

definition importSessions :: "int \<Rightarrow> db_session go_map \<Rightarrow> auth \<Rightarrow> auth" where
  "importSessions now ds a =
     a\<lparr>au_sessions := foldl (\<lambda>m e. if now < seconds (ds_expires (snd e))
         then AList.update (fst e) (import_session now (snd e)) m else m) (au_sessions a) ds\<rparr>"

definition consumeDirty :: "auth \<Rightarrow> auth \<times> bool" where
  "consumeDirty a = (a\<lparr>au_dirty := False\<rparr>, au_dirty a)"

section \<open>The terminal password\<close>

text \<open>\<open>hasPw\<close> and \<open>requirePw\<close> are what the configuration answers for the user of the request.\<close>

definition isTerminalVerified ::
    "(string \<Rightarrow> string) \<Rightarrow> int \<Rightarrow> (string \<Rightarrow> bool) \<Rightarrow> bool \<Rightarrow> string option \<Rightarrow> auth \<Rightarrow> bool \<times> bool" where
  "isTerminalVerified key now hasPw requirePw cookie a =
     (case cookie of
        None \<Rightarrow> (False, False)
      | Some tok \<Rightarrow>
          let name = userForRequest key now cookie a in
          if name = [] then (False, False)
          else if \<not> hasPw name then (\<not> requirePw, False)
          else (case map_of (au_sessions a) (key tok) of
                  None \<Rightarrow> (False, True) | Some s \<Rightarrow> (se_terminalVerified s, True)))"

definition unlock_expired :: "int \<Rightarrow> auth \<Rightarrow> auth" where
  "unlock_expired now a =
     (let gone = map fst (filter (\<lambda>e. snd e < now) (au_termLocked a))
      in a\<lparr>au_termLocked := without gone (au_termLocked a), au_termAttempts := without gone (au_termAttempts a)\<rparr>)"

definition terminalAttemptAllowed ::
    "key_order \<Rightarrow> int \<Rightarrow> string \<Rightarrow> auth \<Rightarrow> auth \<times> bool \<times> int" where
  "terminalAttemptAllowed ord now user a0 =
     (let a1 = unlock_expired now a0;
          a = a1\<lparr>au_termAttempts := capStringMap ord maxTermAttempts (au_termAttempts a1),
                 au_termLocked := capStringMap ord maxTermAttempts (au_termLocked a1)\<rparr>;
         locked = (case map_of (au_termLocked a) user of None \<Rightarrow> False | Some til \<Rightarrow> now < til);
         n = get_or 0 (au_termAttempts a) user
      in if locked then (a, False, 0)
         else if termMaxAttempts \<le> n
         then (a\<lparr>au_termLocked := AList.update user (now + seconds termLockoutSec) (au_termLocked a),
                 au_termAttempts := AList.delete user (au_termAttempts a)\<rparr>, False, 0)
         else (a, True, termMaxAttempts - n))"

definition terminalAttemptFailed :: "string \<Rightarrow> auth \<Rightarrow> auth" where
  "terminalAttemptFailed user a =
     a\<lparr>au_termAttempts := AList.update user (get_or 0 (au_termAttempts a) user + 1) (au_termAttempts a)\<rparr>"

definition terminalAttemptReset :: "string \<Rightarrow> auth \<Rightarrow> auth" where
  "terminalAttemptReset user a =
     a\<lparr>au_termAttempts := AList.delete user (au_termAttempts a),
       au_termLocked := AList.delete user (au_termLocked a)\<rparr>"

section \<open>The login throttles meet their contract\<close>

lemma get_pruned:
  "length m \<le> 4096 \<Longrightarrow>
   get_or [] (fst (pruned_hits c k m)) j = (if j = k then filter (\<lambda>t. c \<le> t) (get_or [] m j) else get_or [] m j)"
  "length m \<le> 4096 \<Longrightarrow> snd (pruned_hits c k m) = length (filter (\<lambda>t. c \<le> t) (get_or [] m k))"
  by (auto simp: pruned_hits_def Let_def get_or_update get_or_delete)

lemma keys_pruned:
  "set (map fst (fst (pruned_hits c k m))) \<subseteq> insert k (set (map fst m))"
  "distinct (map fst m) \<Longrightarrow> distinct (map fst (fst (pruned_hits c k m)))"
  using AList.dom_delete_subset [of k m]
  by (auto simp: pruned_hits_def Let_def AList.dom_update AList.delete_keys distinct_removeAll AList.distinct_update)

lemmas throttle_simps =
  loginAllowed_def loginFailed_def loginAccountAllowed_def loginAccountFailed_def Let_def split_beta get_pruned
  get_or_update keys_pruned AList.dom_update AList.distinct_update loginWindowSec_def loginAccountWindowSec_def

interpretation ip_throttle: throttle loginAllowed loginFailed "\<lambda>a. get_or [] (au_loginHit a)"
    "\<lambda>a. map fst (au_loginHit a)" "\<lambda>k. k" loginWindowSec loginMaxFailures 4096
  by unfold_locales (use keys_pruned in \<open>auto simp: throttle_simps\<close>)

interpretation account_throttle: throttle loginAccountAllowed loginAccountFailed
    "\<lambda>a. get_or [] (au_loginHitUser a)" "\<lambda>a. map fst (au_loginHitUser a)" account_key
    loginAccountWindowSec loginAccountMaxFail 4096
  by unfold_locales (use keys_pruned in \<open>auto simp: throttle_simps\<close>)



end
