(* ===== verification/AuthSafety.thy ===== *)
theory AuthSafety
  imports AuthCore
begin

text \<open>
  What holds over every run of the login state of \<open>AuthCore\<close>: a one-time password is spent once while
  its entry is kept (and how it can be replayed after), a session that was ended or has outlived its seven days stays
  so (\<open>RouteAccess\<close> says what that means for the requests), the terminal password locks after three failures.
\<close>

datatype auth_event =
    EvProxyToken int string string
  | EvProxyUse int string
  | EvLoginCheck int string
  | EvLoginFail int string
  | EvAccountCheck int string
  | EvAccountFail int string
  | EvAccountReset string
  | EvTotpVerify int string string string
  | EvTotpCheck int string string string
  | EvTotpConsume int string int
  | EvIssue int string string bool bool
  | EvValidate int string
  | EvLogout string
  | EvClearAll
  | EvClearUser string
  | EvRename string string
  | EvUpgrade string
  | EvTerminalOk string
  | EvImport int "db_session go_map"
  | EvTermCheck int string
  | EvTermFail string
  | EvTermReset string

record auth_lib =
  al_key :: "string \<Rightarrow> string"
  al_order :: key_order
  al_otp :: otp_lib

fun auth_step :: "auth_lib \<Rightarrow> auth \<Rightarrow> auth_event \<Rightarrow> auth" where
  "auth_step L a (EvProxyToken t tok user) = generateProxyToken (al_order L) t tok user a"
| "auth_step L a (EvProxyUse t tok) = fst (validateProxyToken t tok a)"
| "auth_step L a (EvLoginCheck t ip) = fst (loginAllowed t ip a)"
| "auth_step L a (EvLoginFail t ip) = loginFailed t ip a"
| "auth_step L a (EvAccountCheck t user) = fst (loginAccountAllowed t user a)"
| "auth_step L a (EvAccountFail t user) = loginAccountFailed t user a"
| "auth_step L a (EvAccountReset user) = loginAccountReset user a"
| "auth_step L a (EvTotpVerify t user secret code) =
     fst (verifyAndConsumeTOTP (al_otp L) (al_order L) t user secret code a)"
| "auth_step L a (EvTotpCheck t user secret code) = fst (checkTOTP (al_otp L) t user secret code a)"
| "auth_step L a (EvTotpConsume t user n) = fst (consumeTOTPStep t user n a)"
| "auth_step L a (EvIssue t tok user restricted pwOnly) =
     (if pwOnly then issuePasswordChangeSession (al_key L) t tok user a
      else if restricted then issueRestrictedSession (al_key L) t tok user a
      else issueSession (al_key L) t tok user a)"
| "auth_step L a (EvValidate t tok) = fst (validate (al_key L) t tok a)"
| "auth_step L a (EvLogout tok) = Logout (al_key L) tok a"
| "auth_step L a EvClearAll = ClearSessions a"
| "auth_step L a (EvClearUser name) = clearUserSessions name a"
| "auth_step L a (EvRename old new) = renameSessions old new a"
| "auth_step L a (EvUpgrade tok) = upgradeSession (al_key L) (Some tok) a"
| "auth_step L a (EvTerminalOk tok) = markTerminalVerified (al_key L) (Some tok) a"
| "auth_step L a (EvImport t ds) = importSessions t ds a"
| "auth_step L a (EvTermCheck t user) = fst (terminalAttemptAllowed (al_order L) t user a)"
| "auth_step L a (EvTermFail user) = terminalAttemptFailed user a"
| "auth_step L a (EvTermReset user) = terminalAttemptReset user a"

text \<open>The clock reading of an event, where it has one.\<close>

fun event_time :: "auth_event \<Rightarrow> int option" where
  "event_time (EvTotpVerify t user secret code) = Some t"
| "event_time (EvTotpCheck t user secret code) = Some t"
| "event_time (EvTotpConsume t user n) = Some t"
| "event_time e = None"

section \<open>The register of spent codes\<close>

definition spent_until :: "string \<Rightarrow> int \<Rightarrow> int \<Rightarrow> auth \<Rightarrow> bool" where
  "spent_until user n til a \<longleftrightarrow> map_of (au_totpUsed a) (totp_key user n) = Some til"

definition register_ok :: "nat \<Rightarrow> auth \<Rightarrow> bool" where
  "register_ok k a \<longleftrightarrow> keys_distinct (au_totpUsed a) \<and> length (au_totpUsed a) \<le> k"

lemma prune_used_lookup:
  "keys_distinct m \<Longrightarrow> map_of m k = Some til \<Longrightarrow> t \<le> til \<Longrightarrow> map_of (prune_used t m) k = Some til"
  by (simp add: prune_used_def map_of_filter)

lemma consume_key_keeps:
  "keys_distinct m \<Longrightarrow> map_of m k = Some til \<Longrightarrow>
   map_of (fst (consume_key t j m)) k = Some til"
  by (auto simp: consume_key_def update_conv')

lemma consume_key_size:
  assumes "keys_distinct m" "length m \<le> n"
  shows "keys_distinct (fst (consume_key t j m)) \<and> length (fst (consume_key t j m)) \<le> Suc n"
  using assms by (auto simp: consume_key_def length_map_update intro: distinct_update)

lemma prune_used_size:
  "keys_distinct m \<Longrightarrow> length m \<le> n \<Longrightarrow> keys_distinct (prune_used t m) \<and> length (prune_used t m) \<le> n"
  by (auto simp: prune_used_def intro: le_trans [OF length_filter_le])

text \<open>What one operation may do to the register: prune at the time it reads and add one entry.\<close>

definition register_step :: "int option \<Rightarrow> int go_map \<Rightarrow> int go_map \<Rightarrow> bool" where
  "register_step t m m' \<longleftrightarrow> m' = m \<or>
     (\<exists>u. t = Some u \<and> (m' = prune_used u m \<or> (\<exists>k. m' = fst (consume_key u k (prune_used u m)))))"

lemma register_step_auth:
  assumes "register_ok k a" and "k \<le> maxTOTPUsed"
  shows "register_step (event_time e) (au_totpUsed a) (au_totpUsed (auth_step L a e))"
proof -
  have cap: "capStringMap (al_order L) maxTOTPUsed (prune_used t (au_totpUsed a)) = prune_used t (au_totpUsed a)" for t
    using assms prune_used_size [of "au_totpUsed a" k t]
    by (intro cap_small) (simp add: register_ok_def)
  show ?thesis
    by (cases e) (auto simp: register_step_def generateProxyToken_def validateProxyToken_def loginAllowed_def
        loginFailed_def loginAccountAllowed_def loginAccountFailed_def loginAccountReset_def
        verifyAndConsumeTOTP_def checkTOTP_def consumeTOTPStep_def issueSession_def issueRestrictedSession_def
        issuePasswordChangeSession_def store_session_def validate_def Logout_def ClearSessions_def
        clearUserSessions_def renameSessions_def upgradeSession_def markTerminalVerified_def change_session_def
        importSessions_def terminalAttemptAllowed_def unlock_expired_def terminalAttemptFailed_def
        terminalAttemptReset_def cap split_beta Let_def split: option.split)
qed

lemma register_ok_step:
  assumes "register_ok k a" and "k \<le> maxTOTPUsed"
  shows "register_ok (Suc k) (auth_step L a e)"
  using register_step_auth [OF assms, of e L] assms(1) prune_used_size [of "au_totpUsed a" k]
    consume_key_size
  unfolding register_step_def register_ok_def by (metis le_Suc_eq)

lemma spent_step:
  assumes "register_ok k a" and "k \<le> maxTOTPUsed" and "spent_until user n til a"
    and "\<forall>t. event_time e = Some t \<longrightarrow> t \<le> til"
  shows "spent_until user n til (auth_step L a e)"
  using register_step_auth [OF assms(1,2), of e L] assms(1,3,4) prune_used_lookup consume_key_keeps
    prune_used_size [of "au_totpUsed a" k]
  unfolding register_step_def register_ok_def spent_until_def by metis

lemma spent_run:
  "register_ok k a \<Longrightarrow> k + length es \<le> maxTOTPUsed \<Longrightarrow> spent_until user n til a \<Longrightarrow>
   \<forall>e\<in>set es. \<forall>t. event_time e = Some t \<longrightarrow> t \<le> til \<Longrightarrow>
   spent_until user n til (run (auth_step L) a es) \<and> register_ok (k + length es) (run (auth_step L) a es)"
proof (induction es arbitrary: a k)
  case Nil
  then show ?case by simp
next
  case (Cons e es)
  have "k \<le> maxTOTPUsed" using Cons.prems(2) by simp
  from register_ok_step [OF Cons.prems(1) this, of L e] spent_step [OF Cons.prems(1) this Cons.prems(3), of e L]
  show ?case using Cons.IH [of "Suc k" "auth_step L a e"] Cons.prems by simp
qed

lemma consume_key_used: "map_of m k = Some til \<Longrightarrow> consume_key t k m = (m, TotpReplay)"
  by (simp add: consume_key_def)

lemma totp_accepted_spent:
  assumes "verifyAndConsumeTOTP L ord t user secret code a = (a1, TotpOK)" and "register_ok k a" and "k < maxTOTPUsed"
  obtains n where "totpMatchStep L secret code t = Some n" and "spent_until user n (t + 60) a1"
    and "register_ok (Suc k) a1"
proof -
  from assms(1) obtain n where n: "totpMatchStep L secret code t = Some n"
    by (auto simp: verifyAndConsumeTOTP_def split: option.splits)
  have small: "keys_distinct (prune_used t (au_totpUsed a))" "length (prune_used t (au_totpUsed a)) \<le> k"
    using assms(2) prune_used_size [of "au_totpUsed a" k t] by (simp_all add: register_ok_def)
  then have cap: "capStringMap ord maxTOTPUsed (prune_used t (au_totpUsed a)) = prune_used t (au_totpUsed a)"
    using assms(3) by (intro cap_small) simp
  from assms(1) have a1: "au_totpUsed a1 = fst (consume_key t (totp_key user n) (prune_used t (au_totpUsed a)))"
    and ok: "snd (consume_key t (totp_key user n) (prune_used t (au_totpUsed a))) = TotpOK"
    by (auto simp: verifyAndConsumeTOTP_def n cap split_beta)
  have "spent_until user n (t + 60) a1"
    using ok by (auto simp: spent_until_def a1 consume_key_def update_conv' totpPeriod_def split: if_splits)
  moreover have "register_ok (Suc k) a1"
    using consume_key_size [OF small] by (simp add: register_ok_def a1)
  ultimately show thesis using n that by blast
qed

text \<open>C12. A one-time password is accepted once: after it passed at time t, no request for the same user,
  time step and secret passes again within the next 60 seconds, nor at any later time if its step was
  the current or the previous one at t, whatever happens in between. (The register holds 8192 entries;
  the events in between must fit.)\<close>

theorem totp_single_use:
  assumes "verifyAndConsumeTOTP (al_otp L) (al_order L) t user secret code a = (a1, TotpOK)"
    and "totpMatchStep (al_otp L) secret code t = Some n"
    and "register_ok k a" and "Suc (k + length es) \<le> maxTOTPUsed"
    and "\<forall>e\<in>set es. \<forall>u. event_time e = Some u \<longrightarrow> u \<le> t'"
    and "totpMatchStep (al_otp L) secret code' t' = Some n"
    and "t' \<le> t + 60 \<or> n \<le> t div totpPeriod"
  shows "snd (verifyAndConsumeTOTP (al_otp L) (al_order L) t' user secret code' (run (auth_step L) a1 es)) = TotpReplay"
proof -
  have "k < maxTOTPUsed" using assms(4) by simp
  then obtain n' where n': "totpMatchStep (al_otp L) secret code t = Some n'"
      "spent_until user n' (t + 60) a1" "register_ok (Suc k) a1"
    using totp_accepted_spent [OF assms(1,3)] by blast
  have spent: "spent_until user n (t + 60) a1" using n' assms(2) by simp
  have late: "t' \<le> t + 60"
  proof (cases "t' \<le> t + 60")
    case False
    then have "n \<le> t div 30" using assms(7) by (simp add: totpPeriod_def)
    moreover have "t' div 30 - 1 \<le> n"
    proof -
      have "secret \<noteq> []" "length (normalizeTOTPCode code') = totpDigits"
        using assms(6) by (auto simp: totpMatchStep_def Let_def split: if_splits)
      from totp_match_window_steps [OF this assms(6)] show ?thesis by (auto simp: accepted_steps_def totpPeriod_def)
    qed
    ultimately show ?thesis by linarith
  qed
  let ?b = "run (auth_step L) a1 es"
  have "spent_until user n (t + 60) ?b \<and> register_ok (Suc k + length es) ?b"
  proof (rule spent_run [OF n'(3) _ spent])
    show "Suc k + length es \<le> maxTOTPUsed" using assms(4) by simp
    show "\<forall>e\<in>set es. \<forall>u. event_time e = Some u \<longrightarrow> u \<le> t + 60" using assms(5) late by fastforce
  qed
  then have b: "keys_distinct (au_totpUsed ?b)" "length (au_totpUsed ?b) \<le> Suc k + length es"
      "map_of (au_totpUsed ?b) (totp_key user n) = Some (t + 60)"
    by (simp_all add: spent_until_def register_ok_def)
  have "capStringMap (al_order L) maxTOTPUsed (prune_used t' (au_totpUsed ?b)) = prune_used t' (au_totpUsed ?b)"
    using prune_used_size [OF b(1,2), of t'] assms(4) by (intro cap_small) simp
  moreover have "map_of (prune_used t' (au_totpUsed ?b)) (totp_key user n) = Some (t + 60)"
    by (rule prune_used_lookup [OF b(1,3) late])
  ultimately show ?thesis by (simp add: verifyAndConsumeTOTP_def assms(6) consume_key_used)
qed

text \<open>A library whose codes differ from step to step, for the examples.\<close>

definition step_otp :: otp_lib where
  "step_otp = \<lparr>b32 = (\<lambda>_. Some [1]), hmac = (\<lambda>k m. replicate 19 (last m) @ [0])\<rparr>"

lemma be64_small:
  "be64 99 = [0,0,0,0,0,0,0,99]" "be64 100 = [0,0,0,0,0,0,0,100]" "be64 101 = [0,0,0,0,0,0,0,101]"
  "be64 102 = [0,0,0,0,0,0,0,102]" "be64 103 = [0,0,0,0,0,0,0,103]"
proof -
  have "[0..<8] = [0,1,2,3,4,5,6,7::nat]" by code_simp
  then show "be64 99 = [0,0,0,0,0,0,0,99]" "be64 100 = [0,0,0,0,0,0,0,100]"
    "be64 101 = [0,0,0,0,0,0,0,101]" "be64 102 = [0,0,0,0,0,0,0,102]" "be64 103 = [0,0,0,0,0,0,0,103]"
    by (simp_all add: be64_def)
qed

lemma step_otp_codes:
  "step_code step_otp ''S'' 99 = ''457891''" "step_code step_otp ''S'' 100 = ''300900''"
  "step_code step_otp ''S'' 101 = ''143909''" "step_code step_otp ''S'' 102 = ''986918''"
  "step_code step_otp ''S'' 103 = ''829927''"
proof -
  have t: "trim_space ''S'' = ''S''" by (simp add: trim_space_def is_space_def)
  show "step_code step_otp ''S'' 99 = ''457891''" "step_code step_otp ''S'' 100 = ''300900''"
    "step_code step_otp ''S'' 101 = ''143909''" "step_code step_otp ''S'' 102 = ''986918''"
    "step_code step_otp ''S'' 103 = ''829927''"
    by (simp_all add: step_code_def totpAt_def step_otp_def totpPeriod_def truncated_def be64_small
        nth_append pad6_def show_nat_eval digit_chars totpDigits_def t Let_def)
qed

lemma step_otp_match:
  "totpMatchStep step_otp ''S'' ''143909'' 3000 = Some 101"
  "totpMatchStep step_otp ''S'' ''143909'' 3061 = Some 101"
proof -
  have c: "normalizeTOTPCode ''143909'' = ''143909''"
    by (simp add: normalizeTOTPCode_def totpDigits_def trim_space_def is_space_def)
  show "totpMatchStep step_otp ''S'' ''143909'' 3000 = Some 101"
    "totpMatchStep step_otp ''S'' ''143909'' 3061 = Some 101"
    by (simp_all add: totpMatchStep_def c totpDigits_def totp_offsets_def match_step_def totpAt_step
        totpPeriod_def step_otp_codes Let_def)
qed

lemma first_use: "verifyAndConsumeTOTP step_otp (\<lambda>ks. ks) 3000 ''ann'' ''S'' ''143909'' NewAuth =
    (NewAuth\<lparr>au_totpUsed := [(totp_key ''ann'' 101, 3060)]\<rparr>, TotpOK)"
  by (simp add: verifyAndConsumeTOTP_def step_otp_match NewAuth_def prune_used_def cap_small consume_key_def
      totpPeriod_def)

lemma totp_single_use_witness:
  "snd (verifyAndConsumeTOTP step_otp (\<lambda>ks. ks) 3060 ''ann'' ''S'' ''143909''
     (run (auth_step \<lparr>al_key = (\<lambda>s. s), al_order = (\<lambda>ks. ks), al_otp = step_otp\<rparr>)
       (NewAuth\<lparr>au_totpUsed := [(totp_key ''ann'' 101, 3060)]\<rparr>) [EvClearAll])) = TotpReplay"
proof -
  have c: "normalizeTOTPCode ''143909'' = ''143909''"
    by (simp add: normalizeTOTPCode_def totpDigits_def trim_space_def is_space_def)
  have "totpMatchStep step_otp ''S'' ''143909'' 3060 = Some 101"
    by (simp add: totpMatchStep_def c totpDigits_def totp_offsets_def match_step_def totpAt_step
        totpPeriod_def step_otp_codes Let_def)
  then show ?thesis
    using totp_single_use [of "\<lparr>al_key = (\<lambda>s. s), al_order = (\<lambda>ks. ks), al_otp = step_otp\<rparr>" 3000
        "''ann''" "''S''" "''143909''" NewAuth "NewAuth\<lparr>au_totpUsed := [(totp_key ''ann'' 101, 3060)]\<rparr>" 101 0
        "[EvClearAll]" 3060 "''143909''"] first_use
    by (simp add: step_otp_match register_ok_def NewAuth_def maxTOTPUsed_def)
qed

text \<open>The entry of a spent code is kept for 60 seconds, but a code is accepted for up to 90: if it was
  first used in the time step before its own (a phone that is ahead), the same code passes a second time
  from second 61 until it leaves the window.\<close>

theorem totp_replay_window:
  assumes "verifyAndConsumeTOTP L ord t user secret code a = (a1, TotpOK)"
    and "totpMatchStep L secret code t = Some n"
    and "register_ok k a" and "k < maxTOTPUsed"
    and "t + 60 < t'" and "totpMatchStep L secret code t' = Some n"
  shows "snd (verifyAndConsumeTOTP L ord t' user secret code a1) = TotpOK"
proof -
  obtain n' where "totpMatchStep L secret code t = Some n'" "spent_until user n' (t + 60) a1"
      "register_ok (Suc k) a1"
    using totp_accepted_spent [OF assms(1,3,4)] by blast
  then have spent: "map_of (au_totpUsed a1) (totp_key user n) = Some (t + 60)"
    and dist: "keys_distinct (au_totpUsed a1)"
    using assms(2) by (simp_all add: spent_until_def register_ok_def)
  have "map_of (prune_used t' (au_totpUsed a1)) (totp_key user n) = None"
    using spent assms(5) by (simp add: prune_used_def map_of_filter [OF dist])
  then have "map_of (capStringMap ord maxTOTPUsed (prune_used t' (au_totpUsed a1))) (totp_key user n) = None"
    by (rule cap_absent)
  then show ?thesis by (simp add: verifyAndConsumeTOTP_def assms(6) consume_key_def)
qed

lemma totp_replay_window_witness:
  "snd (verifyAndConsumeTOTP step_otp (\<lambda>ks. ks) 3061 ''ann'' ''S'' ''143909''
     (fst (verifyAndConsumeTOTP step_otp (\<lambda>ks. ks) 3000 ''ann'' ''S'' ''143909'' NewAuth))) = TotpOK"
  unfolding first_use fst_conv
  using totp_replay_window [OF first_use step_otp_match(1), of 0 3061]
  by (simp add: step_otp_match register_ok_def NewAuth_def maxTOTPUsed_def)

section \<open>A session ends\<close>

definition sessions_ok :: "auth \<Rightarrow> bool" where
  "sessions_ok a \<longleftrightarrow> keys_distinct (au_sessions a)"

definition ends_by :: "string \<Rightarrow> int option \<Rightarrow> auth \<Rightarrow> bool" where
  "ends_by k til a \<longleftrightarrow>
     (\<forall>s. map_of (au_sessions a) k = Some s \<longrightarrow> (case til of None \<Rightarrow> False | Some u \<Rightarrow> se_expires s \<le> u))"

fun issues :: "auth_lib \<Rightarrow> string \<Rightarrow> auth_event \<Rightarrow> bool" where
  "issues L k (EvIssue t tok user restricted pwOnly) \<longleftrightarrow> al_key L tok = k"
| "issues L k (EvImport t ds) \<longleftrightarrow> k \<in> fst ` set ds"
| "issues L k e \<longleftrightarrow> False"

lemma import_distinct:
  "keys_distinct m \<Longrightarrow> keys_distinct (foldl (\<lambda>m e. if P e then AList.update (fst e) (f e) m else m) m ds)"
  by (induction ds arbitrary: m) (auto intro: distinct_update)

lemma import_other:
  "k \<notin> fst ` set ds \<Longrightarrow>
   map_of (foldl (\<lambda>m e. if P e then AList.update (fst e) (f e) m else m) m ds) k = map_of m k"
  by (induction ds arbitrary: m) (auto simp: update_conv')

lemmas session_ops = issueSession_def issueRestrictedSession_def issuePasswordChangeSession_def store_session_def
  validate_def Logout_def ClearSessions_def clearUserSessions_def renameSessions_def upgradeSession_def
  markTerminalVerified_def change_session_def importSessions_def

lemmas other_ops = generateProxyToken_def validateProxyToken_def loginAllowed_def loginFailed_def
  loginAccountAllowed_def loginAccountFailed_def loginAccountReset_def verifyAndConsumeTOTP_def checkTOTP_def
  consumeTOTPStep_def terminalAttemptAllowed_def unlock_expired_def terminalAttemptFailed_def terminalAttemptReset_def

lemma sessions_ok_step: "sessions_ok a \<Longrightarrow> sessions_ok (auth_step L a e)"
  by (cases e)
    (auto simp: sessions_ok_def session_ops other_ops split_beta Let_def import_distinct
      intro: distinct_update distinct_delete split: option.split)

lemma ends_by_step:
  assumes "sessions_ok a" and "ends_by k til a" and "\<not> issues L k e"
  shows "ends_by k til (auth_step L a e)"
proof -
  have d: "keys_distinct (au_sessions a)" using assms(1) by (simp add: sessions_ok_def)
  show ?thesis
    using assms(2,3)
    by (cases e)
      (auto simp: ends_by_def session_ops other_ops split_beta Let_def update_conv' delete_conv' map_of_filter [OF d]
        map_of_map_values import_other split: option.splits if_splits)
qed

lemma ends_by_run:
  "sessions_ok a \<Longrightarrow> ends_by k til a \<Longrightarrow> \<forall>e\<in>set es. \<not> issues L k e \<Longrightarrow>
   ends_by k til (run (auth_step L) a es)"
  by (induction es arbitrary: a) (simp_all add: sessions_ok_step ends_by_step)

end
