(* ===== verification/Password.thy ===== *)
theory Password
  imports GoPrelude
begin

text \<open>
  Password hashes (\<open>cmd/server/auth_core.go\<close>): PBKDF2 over HMAC-SHA256, its self-describing text form
  and the check that also accepts the older salted SHA-256 form. HMAC-SHA256 and SHA-256 are of Go's
  library and enter as the parameters \<open>hmac256\<close> and \<open>sha256\<close>; an HMAC-SHA256 value has 32 bytes.
\<close>

record hash_lib =
  hmac256 :: "bytes \<Rightarrow> bytes \<Rightarrow> bytes"
  sha256 :: "bytes \<Rightarrow> bytes"

definition hash_lib_ok :: "hash_lib \<Rightarrow> bool" where
  "hash_lib_ok H \<longleftrightarrow> (\<forall>k m. length (hmac256 H k m) = 32)"

definition prfSize :: nat where
  "prfSize = 32"

definition put_be32 :: "nat \<Rightarrow> bytes" where
  "put_be32 n = (let w = word_of_nat n :: 32 word in
     [ucast (drop_bit 24 w), ucast (drop_bit 16 w), ucast (drop_bit 8 w), ucast w])"

definition xor_into :: "bytes \<Rightarrow> bytes \<Rightarrow> bytes" where
  "xor_into t u = map (\<lambda>(a, b). a XOR b) (zip t u)"

text \<open>The loop over the iterations: \<open>n\<close> more rounds, the last value and the sum so far.\<close>

fun pbkdf2_rounds :: "(bytes \<Rightarrow> bytes) \<Rightarrow> nat \<Rightarrow> bytes \<Rightarrow> bytes \<Rightarrow> bytes" where
  "pbkdf2_rounds f 0 u t = t"
| "pbkdf2_rounds f (Suc n) u t = pbkdf2_rounds f n (f u) (xor_into t (f u))"

definition pbkdf2_block :: "hash_lib \<Rightarrow> bytes \<Rightarrow> bytes \<Rightarrow> nat \<Rightarrow> nat \<Rightarrow> bytes" where
  "pbkdf2_block H password salt iter block =
     (let u = hmac256 H password (salt @ put_be32 block) in pbkdf2_rounds (hmac256 H password) (iter - 1) u u)"

definition pbkdf2SHA256 :: "hash_lib \<Rightarrow> bytes \<Rightarrow> bytes \<Rightarrow> nat \<Rightarrow> nat \<Rightarrow> bytes" where
  "pbkdf2SHA256 H password salt iter keyLen =
     (let numBlocks = (keyLen + prfSize - 1) div prfSize
      in take keyLen (concat (map (pbkdf2_block H password salt iter) [1..<Suc numBlocks])))"

definition pbkdf2Iter :: nat where
  "pbkdf2Iter = 600000"

fun hex_encode :: "bytes \<Rightarrow> string" where
  "hex_encode [] = []"
| "hex_encode (b # bs) = digit_char (unat b div 16) # digit_char (unat b mod 16) # hex_encode bs"

definition hex_digit :: "char \<Rightarrow> nat option" where
  "hex_digit c = digit_val 16 c"

fun hex_decode :: "string \<Rightarrow> bytes option" where
  "hex_decode [] = Some []"
| "hex_decode [c] = None"
| "hex_decode (c # d # s) =
     (case (hex_digit c, hex_digit d, hex_decode s) of
        (Some x, Some y, Some bs) \<Rightarrow> Some (word_of_nat (16 * x + y) # bs)
      | _ \<Rightarrow> None)"

definition hash_prefix :: string where
  "hash_prefix = ''pbkdf2$''"

definition hashPassword :: "hash_lib \<Rightarrow> string \<Rightarrow> string \<Rightarrow> string" where
  "hashPassword H pass salt =
     ''pbkdf2$sha256$'' @ show_nat pbkdf2Iter @ ''$'' @
     hex_encode (pbkdf2SHA256 H (bytes_of_string pass) (bytes_of_string salt) pbkdf2Iter 32)"

definition verify_pbkdf2 :: "hash_lib \<Rightarrow> string \<Rightarrow> string \<Rightarrow> string \<Rightarrow> bool" where
  "verify_pbkdf2 H pass salt stored =
     (case split_sep stored ''$'' of
        [_, alg, it, dk] \<Rightarrow>
          if alg \<noteq> ''sha256'' then False
          else (case parse_int 10 it of
                  None \<Rightarrow> False
                | Some iter \<Rightarrow>
                    if iter < 1 then False
                    else (case hex_decode dk of
                            None \<Rightarrow> False
                          | Some want \<Rightarrow>
                              if want = [] then False
                              else pbkdf2SHA256 H (bytes_of_string pass) (bytes_of_string salt) (nat iter)
                                     (length want) = want))
      | _ \<Rightarrow> False)"

definition verifyPassword :: "hash_lib \<Rightarrow> string \<Rightarrow> string \<Rightarrow> string \<Rightarrow> bool" where
  "verifyPassword H pass salt stored =
     (if has_prefix stored hash_prefix then verify_pbkdf2 H pass salt stored
      else hex_encode (sha256 H (bytes_of_string (salt @ '':'' @ pass))) = stored)"

definition isLegacyHash :: "string \<Rightarrow> bool" where
  "isLegacyHash stored \<longleftrightarrow> stored \<noteq> [] \<and> \<not> has_prefix stored hash_prefix"

section \<open>The reference: RFC 8018\<close>

text \<open>\<open>U\<^sub>1 = PRF (P, S || INT (i))\<close>, \<open>U\<^sub>c\<close> from \<open>U\<^sub>c\<^sub>-\<^sub>1\<close>; \<open>T\<^sub>i\<close> is the exclusive or of the first \<open>c\<close>.\<close>

fun rfc_U :: "hash_lib \<Rightarrow> bytes \<Rightarrow> bytes \<Rightarrow> nat \<Rightarrow> nat \<Rightarrow> bytes" where
  "rfc_U H P S i 0 = hmac256 H P (S @ put_be32 i)"
| "rfc_U H P S i (Suc c) = hmac256 H P (rfc_U H P S i c)"

definition rfc_T :: "hash_lib \<Rightarrow> bytes \<Rightarrow> bytes \<Rightarrow> nat \<Rightarrow> nat \<Rightarrow> bytes" where
  "rfc_T H P S c i = map (\<lambda>j. foldr (\<lambda>n x. rfc_U H P S i n ! j XOR x) [0..<c] 0) [0..<prfSize]"

definition rfc_pbkdf2 :: "hash_lib \<Rightarrow> bytes \<Rightarrow> bytes \<Rightarrow> nat \<Rightarrow> nat \<Rightarrow> bytes" where
  "rfc_pbkdf2 H P S c dkLen =
     map (\<lambda>j. rfc_T H P S c (Suc (j div prfSize)) ! (j mod prfSize)) [0..<dkLen]"

lemma xor_into_nth: "length t = length u \<Longrightarrow> j < length t \<Longrightarrow> xor_into t u ! j = t ! j XOR u ! j"
  by (simp add: xor_into_def)

lemma length_xor_into [simp]: "length (xor_into t u) = min (length t) (length u)"
  by (simp add: xor_into_def)

lemma rfc_U_length: "hash_lib_ok H \<Longrightarrow> length (rfc_U H P S i n) = prfSize"
  by (cases n) (simp_all add: hash_lib_ok_def prfSize_def)

lemma foldr_xor_last:
  "foldr (\<lambda>n x. f n XOR x) (xs @ [y]) (0 :: byte) = foldr (\<lambda>n x. f n XOR x) xs 0 XOR f y"
proof -
  have "foldr (\<lambda>n x. f n XOR x) xs a = foldr (\<lambda>n x. f n XOR x) xs 0 XOR a" for a :: byte
    by (induction xs) (simp_all add: xor.assoc)
  from this [of "f y"] show ?thesis by simp
qed

lemma rounds_rfc:
  assumes "hash_lib_ok H"
  shows "t = rfc_T H P S (Suc m) i \<Longrightarrow>
    pbkdf2_rounds (hmac256 H P) n (rfc_U H P S i m) t = rfc_T H P S (Suc m + n) i"
proof (induction n arbitrary: m t)
  case 0
  then show ?case by simp
next
  case (Suc n)
  let ?u = "rfc_U H P S i (Suc m)"
  have len: "length (rfc_T H P S c i) = prfSize" for c by (simp add: rfc_T_def)
  have "xor_into t ?u = rfc_T H P S (Suc (Suc m)) i"
  proof (rule nth_equalityI)
    show "length (xor_into t ?u) = length (rfc_T H P S (Suc (Suc m)) i)"
      using Suc.prems len rfc_U_length [OF assms, of P S i "Suc m"] by simp
    fix j assume "j < length (xor_into t ?u)"
    then have j: "j < prfSize" using Suc.prems len rfc_U_length [OF assms, of P S i "Suc m"] by simp
    have "xor_into t ?u ! j = t ! j XOR ?u ! j"
      using j Suc.prems len rfc_U_length [OF assms, of P S i "Suc m"] by (intro xor_into_nth) simp_all
    also have "\<dots> = rfc_T H P S (Suc (Suc m)) i ! j"
      using j Suc.prems foldr_xor_last [of "\<lambda>n. rfc_U H P S i n ! j" "[0..<Suc m]" "Suc m"]
      by (simp add: rfc_T_def)
    finally show "xor_into t ?u ! j = rfc_T H P S (Suc (Suc m)) i ! j" .
  qed
  from Suc.IH [OF this] show ?case by simp
qed

lemma block_rfc:
  assumes "hash_lib_ok H" and "0 < c"
  shows "pbkdf2_block H P S c i = rfc_T H P S c i"
proof -
  have "rfc_U H P S i 0 = rfc_T H P S (Suc 0) i"
    using rfc_U_length [OF assms(1), of P S i 0] by (auto simp: rfc_T_def intro: nth_equalityI)
  from rounds_rfc [OF assms(1) this, of "c - 1"] show ?thesis
    using assms(2) by (simp add: pbkdf2_block_def Let_def)
qed

lemma concat_blocks:
  assumes "\<And>i. length (f i) = n" and "0 < n" and "k \<le> m * n"
  shows "take k (concat (map f [1..<Suc m])) = map (\<lambda>j. f (Suc (j div n)) ! (j mod n)) [0..<k]"
proof -
  have len: "length (concat (map f [1..<Suc m])) = m * n" for m
    by (induction m) (simp_all add: assms(1))
  have nth: "j < m * n \<Longrightarrow> concat (map f [1..<Suc m]) ! j = f (Suc (j div n)) ! (j mod n)" for j m
  proof (induction m)
    case 0
    then show ?case by simp
  next
    case (Suc m)
    show ?case
    proof (cases "j < m * n")
      case True
      then show ?thesis using Suc len [of m] by (simp add: nth_append)
    next
      case False
      then have "j div n = m"
        using Suc.prems assms(2) by (intro div_nat_eqI) (simp_all add: algebra_simps)
      moreover from this have "j mod n = j - m * n" by (metis minus_div_mult_eq_mod)
      ultimately show ?thesis using False len [of m] by (simp add: nth_append)
    qed
  qed
  show ?thesis
    by (rule nth_equalityI) (use assms(3) len [of m] nth in auto)
qed

lemma pbkdf2_is_rfc:
  assumes "hash_lib_ok H" and "0 < iter"
  shows "pbkdf2SHA256 H password salt iter keyLen = rfc_pbkdf2 H password salt iter keyLen \<and>
         length (pbkdf2SHA256 H password salt iter keyLen) = keyLen"
proof -
  have "keyLen \<le> (keyLen + prfSize - 1) div prfSize * prfSize"
    by (simp add: prfSize_def)
  then have "pbkdf2SHA256 H password salt iter keyLen = rfc_pbkdf2 H password salt iter keyLen"
    unfolding pbkdf2SHA256_def rfc_pbkdf2_def Let_def
    by (subst concat_blocks [where n = prfSize])
      (auto simp: block_rfc [OF assms] rfc_T_def prfSize_def)
  then show ?thesis by (simp add: rfc_pbkdf2_def)
qed

text \<open>C32. The key derivation is PBKDF2 as RFC 8018 defines it, for every password, salt, positive iteration
  count and key length.\<close>

theorem pbkdf2_rfc8018:
  assumes "hash_lib_ok H" and "0 < iter"
  shows "pbkdf2SHA256 H password salt iter keyLen = rfc_pbkdf2 H password salt iter keyLen \<and>
         length (pbkdf2SHA256 H password salt iter keyLen) = keyLen"
  by (rule pbkdf2_is_rfc [OF assms])

lemma pbkdf2_rfc8018_witness:
  "pbkdf2SHA256 \<lparr>hmac256 = (\<lambda>k m. replicate 32 (last m)), sha256 = (\<lambda>m. m)\<rparr> [1] [2] 3 5 =
   rfc_pbkdf2 \<lparr>hmac256 = (\<lambda>k m. replicate 32 (last m)), sha256 = (\<lambda>m. m)\<rparr> [1] [2] 3 5"
  using pbkdf2_rfc8018 [of "\<lparr>hmac256 = (\<lambda>k m. replicate 32 (last m)), sha256 = (\<lambda>m. m)\<rparr>" 3 "[1]" "[2]" 5]
  by (simp add: hash_lib_ok_def)

section \<open>The text form\<close>

lemma parse_int_show_nat: "n < 2 ^ 63 \<Longrightarrow> parse_int 10 (show_nat n) = Some (int n)"
proof -
  assume n: "n < 2 ^ 63"
  have "hd (show_nat n) \<in> set (show_nat n)" by simp
  from show_nat_digits [OF this] have "hd (show_nat n) \<noteq> CHR ''-''" "hd (show_nat n) \<noteq> CHR ''+''" by auto
  then show ?thesis using n by (simp add: parse_int_def digits_val_show_nat Let_def)
qed

lemma hex_digit_digit_char: "d < 16 \<Longrightarrow> hex_digit (digit_char d) = Some d"
  by (auto simp: hex_digit_def digit_val_def digit_char_def Let_def of_char_of)

lemma hex_roundtrip: "hex_decode (hex_encode bs) = Some bs"
proof (induction bs)
  case Nil
  then show ?case by simp
next
  case (Cons b bs)
  have "unat b div 16 < 16" using unat_byte_less [of b] by (simp add: div_less_iff_less_mult)
  then show ?case using Cons by (simp add: hex_digit_digit_char)
qed

lemma hex_encode_plain: "CHR ''$'' \<notin> set (hex_encode bs)"
proof (induction bs)
  case Nil
  then show ?case by simp
next
  case (Cons b bs)
  have plain: "digit_char d \<noteq> CHR ''$''" if "d < 16" for d
  proof
    assume "digit_char d = CHR ''$''"
    then have "hex_digit (CHR ''$'') = Some d" using hex_digit_digit_char [OF that] by simp
    then show False by (simp add: hex_digit_def digit_val_def)
  qed
  have "unat b div 16 < 16" using unat_byte_less [of b] by (simp add: div_less_iff_less_mult)
  then show ?case using Cons plain by (metis insert_iff hex_encode.simps(2) list.simps(15) mod_less_divisor zero_less_numeral)
qed

lemma hex_encode_not_Nil [simp]: "hex_encode bs = [] \<longleftrightarrow> bs = []"
  by (cases bs) simp_all

lemma verify_own_hash:
  assumes "hash_lib_ok H"
  shows "verifyPassword H pass salt (hashPassword H pass salt) \<and> \<not> isLegacyHash (hashPassword H pass salt)"
proof -
  let ?dk = "pbkdf2SHA256 H (bytes_of_string pass) (bytes_of_string salt) pbkdf2Iter 32"
  have pos: "0 < pbkdf2Iter" by (simp add: pbkdf2Iter_def)
  then have len: "length ?dk = 32" using pbkdf2_is_rfc [OF assms] by blast
  then have nonempty: "?dk \<noteq> []" by auto
  have plain: "CHR ''$'' \<notin> set (show_nat pbkdf2Iter)" using show_nat_digits by fastforce
  have eq: "hashPassword H pass salt = join ''$'' [''pbkdf2'', ''sha256'', show_nat pbkdf2Iter, hex_encode ?dk]"
    by (simp add: hashPassword_def)
  have parts: "split_sep (hashPassword H pass salt) ''$'' = [''pbkdf2'', ''sha256'', show_nat pbkdf2Iter, hex_encode ?dk]"
    unfolding eq using plain hex_encode_plain [of ?dk] by (intro split_sep_join) auto
  have iter: "parse_int 10 (show_nat pbkdf2Iter) = Some (int pbkdf2Iter)"
    by (rule parse_int_show_nat) (simp add: pbkdf2Iter_def)
  have pre: "has_prefix (hashPassword H pass salt) hash_prefix"
    by (simp add: hashPassword_def hash_prefix_def has_prefix_def)
  have "verify_pbkdf2 H pass salt (hashPassword H pass salt)"
    using pos by (simp add: verify_pbkdf2_def parts iter hex_roundtrip nonempty len)
  then show ?thesis using pre by (simp add: verifyPassword_def isLegacyHash_def)
qed

text \<open>A password verifies against the hash made from it, for every salt, and that hash is in the new
  form, so it is never taken for a legacy one.\<close>

theorem password_hash_roundtrip:
  assumes "hash_lib_ok H"
  shows "verifyPassword H pass salt (hashPassword H pass salt) \<and> \<not> isLegacyHash (hashPassword H pass salt)"
  by (rule verify_own_hash [OF assms])

lemma password_hash_roundtrip_witness:
  "verifyPassword \<lparr>hmac256 = (\<lambda>k m. replicate 32 (last m)), sha256 = (\<lambda>m. m)\<rparr> ''pw'' ''s''
     (hashPassword \<lparr>hmac256 = (\<lambda>k m. replicate 32 (last m)), sha256 = (\<lambda>m. m)\<rparr> ''pw'' ''s'')"
  using password_hash_roundtrip [of "\<lparr>hmac256 = (\<lambda>k m. replicate 32 (last m)), sha256 = (\<lambda>m. m)\<rparr>" "''pw''" "''s''"]
  by (simp add: hash_lib_ok_def)

end
