(* ===== verification/Users.thy ===== *)
theory Users
  imports Password Transition
begin

text \<open>
  The login accounts and their roles (\<open>cmd/server/users.go\<close>). The configuration is the list of
  accounts and the account field of configurations written before there were several; \<open>cs.save()\<close>,
  which writes the configuration file, is left out. A fresh random token is the argument \<open>tok\<close>, the
  clock is \<open>now\<close>.
\<close>

section \<open>Accounts\<close>

record identity =
  id_provider :: string
  id_subject :: string
  id_boundAt :: int

record account =
  ac_username :: string
  ac_displayName :: string
  ac_email :: string
  ac_phone :: string
  ac_salt :: string
  ac_hash :: string
  ac_mfaEnabled :: bool
  ac_mfaSecret :: string
  ac_role :: string
  ac_terminalHash :: string
  ac_terminalSalt :: string
  ac_mustChange :: bool
  ac_folders :: "string list"
  ac_hosts :: "string list"
  ac_tags :: "string list"
  ac_identities :: "identity list"

definition blank_account :: account where
  "blank_account = \<lparr>ac_username = [], ac_displayName = [], ac_email = [], ac_phone = [], ac_salt = [],
     ac_hash = [], ac_mfaEnabled = False, ac_mfaSecret = [], ac_role = [], ac_terminalHash = [],
     ac_terminalSalt = [], ac_mustChange = False, ac_folders = [], ac_hosts = [], ac_tags = [],
     ac_identities = []\<rparr>"

record user_cfg =
  uc_users :: "account list"
  uc_account :: account

datatype user_error =
    UserNotFound | UsernameExists | KeepOneAdmin | KeepOneUser | InvalidIdentity | IdentityBound
  | IdentityNotBound | NoAdmin

definition roleRank :: "string \<Rightarrow> nat" where
  "roleRank role = (if role = ''admin'' then 3 else if role = ''operator'' then 2
     else if role = ''viewer'' then 1 else 0)"

definition validRole :: "string \<Rightarrow> bool" where
  "validRole role \<longleftrightarrow> role = ''admin'' \<or> role = ''operator'' \<or> role = ''viewer''"

definition is_admin :: "account \<Rightarrow> bool" where
  "is_admin u \<longleftrightarrow> ac_role u = ''admin''"

text \<open>\<open>display\<close> is the display name in the language of the server.\<close>

definition defaultAccount :: "hash_lib \<Rightarrow> string \<Rightarrow> string \<Rightarrow> account" where
  "defaultAccount H display tok =
     blank_account\<lparr>ac_username := ''admin'', ac_displayName := display, ac_salt := take 16 tok,
       ac_hash := hashPassword H ''admin'' (take 16 tok), ac_role := ''admin'', ac_mustChange := True\<rparr>"

definition migrateUsers :: "hash_lib \<Rightarrow> string \<Rightarrow> string \<Rightarrow> user_cfg \<Rightarrow> user_cfg \<times> bool" where
  "migrateUsers H display tok c =
     (let empty = (uc_users c = []);
          acc = (if ac_username (uc_account c) = [] then defaultAccount H display tok else uc_account c);
          us1 = (if empty then [acc\<lparr>ac_role := ''admin''\<rparr>] else uc_users c);
          us2 = map (\<lambda>u. if validRole (ac_role u) then u else u\<lparr>ac_role := ''viewer''\<rparr>) us1;
          hasAdmin = (\<exists>u\<in>set us2. is_admin u);
          us3 = (case us2 of [] \<Rightarrow> [] | u # us \<Rightarrow> if hasAdmin then us2 else u\<lparr>ac_role := ''admin''\<rparr> # us);
          legacy = (ac_username (uc_account c) \<noteq> [])
      in (\<lparr>uc_users = us3, uc_account = (if legacy then blank_account else uc_account c)\<rparr>,
          empty \<or> (\<exists>u\<in>set us1. \<not> validRole (ac_role u)) \<or> \<not> hasAdmin \<or> legacy))"

section \<open>Queries\<close>

definition UsersList :: "user_cfg \<Rightarrow> account list" where
  "UsersList c = uc_users c"

definition UserByName :: "string \<Rightarrow> user_cfg \<Rightarrow> account option" where
  "UserByName name c = find (\<lambda>u. ac_username u = name) (uc_users c)"

definition has_identity :: "string \<Rightarrow> string \<Rightarrow> account \<Rightarrow> bool" where
  "has_identity provider subject u \<longleftrightarrow>
     (\<exists>i\<in>set (ac_identities u). equal_fold (id_provider i) provider \<and> id_subject i = subject)"

definition UserByIdentity :: "string \<Rightarrow> string \<Rightarrow> user_cfg \<Rightarrow> account option" where
  "UserByIdentity provider0 subject0 c =
     (let provider = trim_space (to_lower provider0); subject = trim_space subject0 in
      if provider = [] \<or> subject = [] then None else find (has_identity provider subject) (uc_users c))"

definition UserByEmail :: "string \<Rightarrow> user_cfg \<Rightarrow> account option" where
  "UserByEmail email c = find (\<lambda>u. ac_email u \<noteq> [] \<and> equal_fold (ac_email u) email) (uc_users c)"

definition UserByPhone :: "string \<Rightarrow> user_cfg \<Rightarrow> account option" where
  "UserByPhone phone c = find (\<lambda>u. ac_phone u \<noteq> [] \<and> ac_phone u = phone) (uc_users c)"

definition RoleOf :: "string \<Rightarrow> user_cfg \<Rightarrow> string" where
  "RoleOf name c = (case UserByName name c of None \<Rightarrow> [] | Some u \<Rightarrow> ac_role u)"

definition adminCountLocked :: "user_cfg \<Rightarrow> nat" where
  "adminCountLocked c = length (filter is_admin (uc_users c))"

definition HasTerminalPassword :: "string \<Rightarrow> user_cfg \<Rightarrow> bool" where
  "HasTerminalPassword name c =
     (case UserByName name c of None \<Rightarrow> False | Some u \<Rightarrow> ac_terminalHash u \<noteq> [])"

definition VerifyTerminalPassword :: "hash_lib \<Rightarrow> string \<Rightarrow> string \<Rightarrow> user_cfg \<Rightarrow> bool" where
  "VerifyTerminalPassword H name password c =
     (case UserByName name c of
        None \<Rightarrow> False
      | Some u \<Rightarrow> if ac_terminalHash u = [] \<or> ac_terminalSalt u = [] then False
                  else verifyPassword H password (ac_terminalSalt u) (ac_terminalHash u))"

fun alert_loop :: "string list \<Rightarrow> string list \<Rightarrow> account list \<Rightarrow> string list" where
  "alert_loop out seen [] = out"
| "alert_loop out seen (u # us) =
     (let e = trim_space (ac_email u) in
      if e \<noteq> [] \<and> to_lower e \<notin> set seen then alert_loop (out @ [e]) (to_lower e # seen) us
      else alert_loop out seen us)"

definition AlertEmails :: "user_cfg \<Rightarrow> string list" where
  "AlertEmails c = alert_loop [] [] (uc_users c)"

section \<open>Operations\<close>

type_synonym user_result = "user_cfg \<times> user_error option"

text \<open>Change the account of a name, if there is one.\<close>

definition with_user :: "string \<Rightarrow> (account \<Rightarrow> account) \<Rightarrow> user_cfg \<Rightarrow> user_result" where
  "with_user name f c =
     (if UserByName name c = None then (c, Some UserNotFound)
      else (c\<lparr>uc_users := update_first (\<lambda>u. ac_username u = name) f (uc_users c)\<rparr>, None))"

definition CreateUser ::
    "hash_lib \<Rightarrow> string \<Rightarrow> string \<Rightarrow> string \<Rightarrow> string \<Rightarrow> string \<Rightarrow> string \<Rightarrow> user_cfg \<Rightarrow> user_result" where
  "CreateUser H tok username password displayName email role c =
     (if UserByName username c \<noteq> None then (c, Some UsernameExists)
      else let salt = take 16 tok in
           (c\<lparr>uc_users := uc_users c @ [blank_account\<lparr>ac_username := username, ac_displayName := displayName,
                ac_email := email, ac_salt := salt, ac_hash := hashPassword H password salt,
                ac_role := role\<rparr>]\<rparr>, None))"

definition UpdateUserMeta :: "string \<Rightarrow> string \<Rightarrow> string \<Rightarrow> string \<Rightarrow> user_cfg \<Rightarrow> user_result" where
  "UpdateUserMeta username displayName email role c =
     (case UserByName username c of
        None \<Rightarrow> (c, Some UserNotFound)
      | Some u \<Rightarrow>
          if is_admin u \<and> role \<noteq> ''admin'' \<and> adminCountLocked c \<le> 1 then (c, Some KeepOneAdmin)
          else with_user username
            (\<lambda>u. u\<lparr>ac_displayName := displayName, ac_email := email, ac_role := role\<rparr>) c)"

definition UpdateUserHostScope ::
    "string \<Rightarrow> string list \<Rightarrow> string list \<Rightarrow> string list \<Rightarrow> user_cfg \<Rightarrow> user_result" where
  "UpdateUserHostScope username folders hosts tags c =
     with_user username (\<lambda>u. u\<lparr>ac_folders := folders, ac_hosts := hosts, ac_tags := tags\<rparr>) c"

definition SetUserPassword :: "hash_lib \<Rightarrow> string \<Rightarrow> string \<Rightarrow> string \<Rightarrow> user_cfg \<Rightarrow> user_result" where
  "SetUserPassword H tok username password c =
     with_user username (\<lambda>u. u\<lparr>ac_salt := take 16 tok, ac_hash := hashPassword H password (take 16 tok),
       ac_mustChange := False\<rparr>) c"

definition upgradeLoginHash :: "hash_lib \<Rightarrow> string \<Rightarrow> string \<Rightarrow> user_cfg \<Rightarrow> user_result" where
  "upgradeLoginHash H username pass c =
     with_user username
       (\<lambda>u. if isLegacyHash (ac_hash u) then u\<lparr>ac_hash := hashPassword H pass (ac_salt u)\<rparr> else u) c"

definition SetMustChangePassword :: "string \<Rightarrow> user_cfg \<Rightarrow> user_cfg" where
  "SetMustChangePassword username c = fst (with_user username (\<lambda>u. u\<lparr>ac_mustChange := True\<rparr>) c)"

definition ClearMustChangePassword :: "string \<Rightarrow> user_cfg \<Rightarrow> user_cfg" where
  "ClearMustChangePassword username c = fst (with_user username (\<lambda>u. u\<lparr>ac_mustChange := False\<rparr>) c)"

definition SetUserProfile :: "string \<Rightarrow> string \<Rightarrow> string \<Rightarrow> string \<Rightarrow> user_cfg \<Rightarrow> user_result" where
  "SetUserProfile username displayName email phone c =
     with_user username (\<lambda>u. u\<lparr>ac_displayName := displayName, ac_email := email, ac_phone := phone\<rparr>) c"

definition SetTerminalPassword :: "hash_lib \<Rightarrow> string \<Rightarrow> string \<Rightarrow> string \<Rightarrow> user_cfg \<Rightarrow> user_result" where
  "SetTerminalPassword H tok username password c =
     with_user username (\<lambda>u. u\<lparr>ac_terminalSalt := take 16 tok,
       ac_terminalHash := hashPassword H password (take 16 tok)\<rparr>) c"

definition RenameUser :: "string \<Rightarrow> string \<Rightarrow> user_cfg \<Rightarrow> user_result" where
  "RenameUser oldName newName c =
     (if oldName \<noteq> newName \<and> UserByName newName c \<noteq> None then (c, Some UsernameExists)
      else with_user oldName (\<lambda>u. u\<lparr>ac_username := newName\<rparr>) c)"

definition SetUserMFA :: "string \<Rightarrow> bool \<Rightarrow> string \<Rightarrow> user_cfg \<Rightarrow> user_result" where
  "SetUserMFA username enabled secret c =
     with_user username (\<lambda>u. u\<lparr>ac_mfaEnabled := enabled, ac_mfaSecret := (if enabled then secret else [])\<rparr>) c"

fun delete_first :: "('a \<Rightarrow> bool) \<Rightarrow> 'a list \<Rightarrow> 'a list" where
  "delete_first P [] = []"
| "delete_first P (x # xs) = (if P x then xs else x # delete_first P xs)"

definition DeleteUser :: "string \<Rightarrow> user_cfg \<Rightarrow> user_result" where
  "DeleteUser username c =
     (case UserByName username c of
        None \<Rightarrow> (c, Some UserNotFound)
      | Some u \<Rightarrow>
          if length (uc_users c) \<le> 1 then (c, Some KeepOneUser)
          else if is_admin u \<and> adminCountLocked c \<le> 1 then (c, Some KeepOneAdmin)
          else (c\<lparr>uc_users := delete_first (\<lambda>u. ac_username u = username) (uc_users c)\<rparr>, None))"

definition ResetAdminMFA :: "string \<Rightarrow> user_cfg \<Rightarrow> user_cfg \<times> (user_error + string)" where
  "ResetAdminMFA username c =
     (let want = trim_space username;
          hit = (\<lambda>u. if want \<noteq> [] then equal_fold (ac_username u) want else is_admin u)
      in case find hit (uc_users c) of
           None \<Rightarrow> (c, Inl (if want \<noteq> [] then UserNotFound else NoAdmin))
         | Some u \<Rightarrow>
             (c\<lparr>uc_users := update_first hit (\<lambda>u. u\<lparr>ac_mfaEnabled := False, ac_mfaSecret := []\<rparr>) (uc_users c)\<rparr>,
              Inr (ac_username u)))"

definition password_chars :: string where
  "password_chars = ''abcdefghijklmnopqrstuvwxyzABCDEFGHIJKLMNOPQRSTUVWXYZ0123456789!@#$%''"

text \<open>\<open>random\<close> is what the generator read, \<open>None\<close> when it failed.\<close>

definition generateRandomPassword :: "bytes option \<Rightarrow> string" where
  "generateRandomPassword random =
     (case random of
        None \<Rightarrow> ''AIOps-Reset-000000''
      | Some bs \<Rightarrow> map (\<lambda>b. password_chars ! (unat b mod length password_chars)) bs)"

definition ResetAdminPassword ::
    "hash_lib \<Rightarrow> string \<Rightarrow> bytes option \<Rightarrow> user_cfg \<Rightarrow> user_cfg \<times> (user_error + string \<times> string)" where
  "ResetAdminPassword H tok random c =
     (case find is_admin (uc_users c) of
        None \<Rightarrow> (c, Inl NoAdmin)
      | Some u \<Rightarrow>
          let newPass = generateRandomPassword random; salt = take 16 tok in
          (c\<lparr>uc_users := update_first is_admin
               (\<lambda>u. u\<lparr>ac_salt := salt, ac_hash := hashPassword H newPass salt, ac_mustChange := True\<rparr>)
               (uc_users c)\<rparr>, Inr (ac_username u, newPass)))"

definition BindUserIdentity :: "int \<Rightarrow> string \<Rightarrow> string \<Rightarrow> string \<Rightarrow> user_cfg \<Rightarrow> user_result" where
  "BindUserIdentity now username provider0 subject0 c =
     (let provider = trim_space (to_lower provider0); subject = trim_space subject0 in
      if username = [] \<or> provider = [] \<or> subject = [] then (c, Some InvalidIdentity)
      else if \<exists>u\<in>set (uc_users c). has_identity provider subject u \<and> ac_username u \<noteq> username
      then (c, Some IdentityBound)
      else with_user username
        (\<lambda>u. if has_identity provider subject u then u
             else u\<lparr>ac_identities := ac_identities u @
               [\<lparr>id_provider = provider, id_subject = subject, id_boundAt = now\<rparr>]\<rparr>) c)"

definition UnbindUserIdentity :: "string \<Rightarrow> string \<Rightarrow> user_cfg \<Rightarrow> user_result" where
  "UnbindUserIdentity username provider0 c =
     (let provider = trim_space (to_lower provider0) in
      if username = [] \<or> provider = [] then (c, Some InvalidIdentity)
      else case UserByName username c of
             None \<Rightarrow> (c, Some UserNotFound)
           | Some u \<Rightarrow>
               if \<not> (\<exists>i\<in>set (ac_identities u). equal_fold (id_provider i) provider)
               then (c, Some IdentityNotBound)
               else with_user username (\<lambda>u. u\<lparr>ac_identities :=
                 filter (\<lambda>i. \<not> equal_fold (id_provider i) provider) (ac_identities u)\<rparr>) c)"

section \<open>An administrator remains\<close>

datatype user_event =
    UCreate string string string string string string
  | UMeta string string string string
  | UScope string "string list" "string list" "string list"
  | UPassword string string string
  | UUpgrade string string
  | UMust string
  | UClear string
  | UProfile string string string string
  | UTerminal string string string
  | URename string string
  | UMfa string bool string
  | UDelete string
  | UResetMfa string
  | UResetPassword string "bytes option"
  | UBind int string string string
  | UUnbind string string

fun user_step :: "hash_lib \<Rightarrow> user_cfg \<Rightarrow> user_event \<Rightarrow> user_cfg" where
  "user_step H c (UCreate tok n p d e r) = fst (CreateUser H tok n p d e r c)"
| "user_step H c (UMeta n d e r) = fst (UpdateUserMeta n d e r c)"
| "user_step H c (UScope n fs hs ts) = fst (UpdateUserHostScope n fs hs ts c)"
| "user_step H c (UPassword tok n p) = fst (SetUserPassword H tok n p c)"
| "user_step H c (UUpgrade n p) = fst (upgradeLoginHash H n p c)"
| "user_step H c (UMust n) = SetMustChangePassword n c"
| "user_step H c (UClear n) = ClearMustChangePassword n c"
| "user_step H c (UProfile n d e p) = fst (SetUserProfile n d e p c)"
| "user_step H c (UTerminal tok n p) = fst (SetTerminalPassword H tok n p c)"
| "user_step H c (URename old new) = fst (RenameUser old new c)"
| "user_step H c (UMfa n b s) = fst (SetUserMFA n b s c)"
| "user_step H c (UDelete n) = fst (DeleteUser n c)"
| "user_step H c (UResetMfa n) = fst (ResetAdminMFA n c)"
| "user_step H c (UResetPassword tok r) = fst (ResetAdminPassword H tok r c)"
| "user_step H c (UBind t n p s) = fst (BindUserIdentity t n p s c)"
| "user_step H c (UUnbind n p) = fst (UnbindUserIdentity n p c)"

definition users_ok :: "user_cfg \<Rightarrow> bool" where
  "users_ok c \<longleftrightarrow> distinct (map ac_username (uc_users c)) \<and> (\<exists>u\<in>set (uc_users c). is_admin u)"

definition name_role :: "account \<Rightarrow> string \<times> string" where
  "name_role u = (ac_username u, ac_role u)"

lemma users_ok_alt:
  "users_ok c \<longleftrightarrow> distinct (map fst (map name_role (uc_users c))) \<and> ''admin'' \<in> snd ` set (map name_role (uc_users c))"
  by (auto simp: users_ok_def name_role_def is_admin_def comp_def image_image intro: rev_image_eqI)

lemma same_roles: "map name_role (uc_users c') = map name_role (uc_users c) \<Longrightarrow> users_ok c \<Longrightarrow> users_ok c'"
  unfolding users_ok_alt by simp

lemma with_user_keeps: "(\<And>u. name_role (f u) = name_role u) \<Longrightarrow> users_ok c \<Longrightarrow> users_ok (fst (with_user n f c))"
  by (rule same_roles) (auto simp: with_user_def map_update_first)

lemma update_first_keeps:
  "(\<And>u. name_role (f u) = name_role u) \<Longrightarrow> users_ok c \<Longrightarrow>
   users_ok (c\<lparr>uc_users := update_first P f (uc_users c)\<rparr>)"
  by (rule same_roles) (auto simp: map_update_first)

lemma UserByName_None: "UserByName n c = None \<longleftrightarrow> n \<notin> set (map ac_username (uc_users c))"
  by (auto simp: UserByName_def find_None_iff)

lemma count_update: "length (filter P xs) \<le> Suc (length (filter P (update_first Q f xs)))"
  by (induction xs) auto

lemma count_delete: "length (filter P xs) \<le> Suc (length (filter P (delete_first Q xs)))"
  by (induction xs) auto

lemma kept_admin:
  "filter is_admin xs \<noteq> [] \<Longrightarrow> find Q xs = Some u \<Longrightarrow> \<not> is_admin u \<or> is_admin (f u) \<Longrightarrow>
   \<exists>v\<in>set (update_first Q f xs). is_admin v"
  by (induction xs) (auto split: if_splits)

lemma kept_admin_delete:
  "filter is_admin xs \<noteq> [] \<Longrightarrow> find Q xs = Some u \<Longrightarrow> \<not> is_admin u \<Longrightarrow>
   \<exists>v\<in>set (delete_first Q xs). is_admin v"
  by (induction xs) (auto simp: filter_empty_conv split: if_splits)

lemma some_admin: "users_ok c \<Longrightarrow> filter is_admin (uc_users c) \<noteq> []"
  by (auto simp: users_ok_def filter_empty_conv)

lemma nonempty_filter: "0 < length (filter P xs) \<Longrightarrow> \<exists>x\<in>set xs. P x"
  by (metis filter_empty_conv length_greater_0_conv)

lemma users_ok_meta: "users_ok c \<Longrightarrow> users_ok (fst (UpdateUserMeta n d e r c))"
proof -
  assume ok: "users_ok c"
  let ?f = "\<lambda>u. u\<lparr>ac_displayName := d, ac_email := e, ac_role := r\<rparr>"
  show ?thesis
  proof (cases "UserByName n c")
    case None
    then show ?thesis using ok by (simp add: UpdateUserMeta_def)
  next
    case (Some u)
    have names: "map ac_username (update_first Q ?f xs) = map ac_username xs" for Q xs
      by (rule map_update_first) simp
    show ?thesis
    proof (cases "is_admin u \<and> r \<noteq> ''admin'' \<and> adminCountLocked c \<le> 1")
      case True
      then show ?thesis using Some ok by (simp add: UpdateUserMeta_def)
    next
      case False
      have "\<exists>v\<in>set (update_first (\<lambda>u. ac_username u = n) ?f (uc_users c)). is_admin v"
      proof (cases "is_admin u \<and> r \<noteq> ''admin''")
        case True
        then have "1 < length (filter is_admin (uc_users c))" using False by (simp add: adminCountLocked_def)
        then show ?thesis
          using count_update [of is_admin "uc_users c" "\<lambda>u. ac_username u = n" ?f]
          by (intro nonempty_filter) linarith
      next
        case False
        then show ?thesis using some_admin [OF ok] Some
          by (intro kept_admin [where u = u]) (auto simp: UserByName_def is_admin_def)
      qed
      then show ?thesis using ok Some False
        by (simp add: UpdateUserMeta_def with_user_def users_ok_def names)
    qed
  qed
qed

lemma set_delete_first: "set (delete_first Q xs) \<subseteq> set xs"
  by (induction xs) auto

lemma distinct_delete_first: "distinct (map g xs) \<Longrightarrow> distinct (map g (delete_first Q xs))"
  by (induction xs) (use set_delete_first in fastforce)+

lemma users_ok_delete: "users_ok c \<Longrightarrow> users_ok (fst (DeleteUser n c))"
proof -
  assume ok: "users_ok c"
  show ?thesis
  proof (cases "\<exists>u. UserByName n c = Some u \<and> \<not> length (uc_users c) \<le> 1 \<and>
      \<not> (is_admin u \<and> adminCountLocked c \<le> 1)")
    case False
    then show ?thesis using ok by (auto simp: DeleteUser_def split: option.split)
  next
    case True
    then obtain u where u: "UserByName n c = Some u" "\<not> length (uc_users c) \<le> 1"
        "\<not> (is_admin u \<and> adminCountLocked c \<le> 1)" by blast
    have "\<exists>v\<in>set (delete_first (\<lambda>u. ac_username u = n) (uc_users c)). is_admin v"
    proof (cases "is_admin u")
      case True
      then have "1 < length (filter is_admin (uc_users c))" using u(3) by (simp add: adminCountLocked_def)
      then show ?thesis
        using count_delete [of is_admin "uc_users c" "\<lambda>u. ac_username u = n"]
        by (intro nonempty_filter) linarith
    next
      case False
      then show ?thesis using some_admin [OF ok] u(1)
        by (intro kept_admin_delete [where u = u]) (auto simp: UserByName_def)
    qed
    then show ?thesis using ok u by (simp add: DeleteUser_def users_ok_def distinct_delete_first)
  qed
qed

lemma users_ok_rename: "users_ok c \<Longrightarrow> users_ok (fst (RenameUser old new c))"
proof -
  assume ok: "users_ok c"
  have roles: "map ac_role (update_first Q (\<lambda>u. u\<lparr>ac_username := new\<rparr>) xs) = map ac_role xs" for Q xs
    by (rule map_update_first) simp
  have sub: "ac_username ` set (update_first Q (\<lambda>u. u\<lparr>ac_username := new\<rparr>) ys) \<subseteq> insert new (ac_username ` set ys)"
    for Q and ys :: "account list"
    by (induction ys) auto
  have "distinct (map ac_username (update_first (\<lambda>u. ac_username u = old) (\<lambda>u. u\<lparr>ac_username := new\<rparr>) xs))"
    if "distinct (map ac_username xs)" "old = new \<or> new \<notin> ac_username ` set xs" for xs :: "account list"
    using that
  proof (induction xs)
    case Nil
    then show ?case by simp
  next
    case (Cons x xs)
    show ?case
    proof (cases "ac_username x = old")
      case True
      then show ?thesis using Cons.prems by auto
    next
      case False
      have "ac_username x \<notin> ac_username ` set (update_first (\<lambda>u. ac_username u = old) (\<lambda>u. u\<lparr>ac_username := new\<rparr>) xs)"
        using sub [of "\<lambda>u. ac_username u = old" xs] Cons.prems False by auto
      then show ?thesis using Cons.IH Cons.prems False by auto
    qed
  qed
  moreover have "\<exists>u\<in>set (update_first Q (\<lambda>u. u\<lparr>ac_username := new\<rparr>) (uc_users c)). is_admin u" for Q
  proof -
    have "''admin'' \<in> set (map ac_role (uc_users c))" using ok by (force simp: users_ok_def is_admin_def)
    then have "''admin'' \<in> set (map ac_role (update_first Q (\<lambda>u. u\<lparr>ac_username := new\<rparr>) (uc_users c)))"
      by (simp only: roles)
    then show ?thesis by (auto simp: is_admin_def)
  qed
  moreover have "distinct (map ac_username (uc_users c))" using ok by (simp add: users_ok_def)
  ultimately have renamed: "users_ok (c\<lparr>uc_users := update_first (\<lambda>u. ac_username u = old) (\<lambda>u. u\<lparr>ac_username := new\<rparr>) (uc_users c)\<rparr>)"
    if "old = new \<or> new \<notin> ac_username ` set (uc_users c)"
    using that by (simp add: users_ok_def)
  show ?thesis
  proof (cases "old \<noteq> new \<and> UserByName new c \<noteq> None")
    case True
    then show ?thesis using ok by (simp add: RenameUser_def)
  next
    case False
    then have "old = new \<or> new \<notin> ac_username ` set (uc_users c)" by (auto simp: UserByName_None)
    from renamed [OF this] show ?thesis using False ok by (simp add: RenameUser_def with_user_def)
  qed
qed

lemma users_ok_create: "users_ok c \<Longrightarrow> users_ok (fst (CreateUser H tok n p d e r c))"
  by (auto simp: CreateUser_def users_ok_def UserByName_None Let_def blank_account_def)

lemmas user_ops = UpdateUserHostScope_def SetUserPassword_def upgradeLoginHash_def SetMustChangePassword_def
  ClearMustChangePassword_def SetUserProfile_def SetTerminalPassword_def SetUserMFA_def

lemma users_ok_step: "users_ok c \<Longrightarrow> users_ok (user_step H c e)"
proof (cases e)
  case (UResetMfa n)
  assume ok: "users_ok c"
  then show ?thesis unfolding UResetMfa
    by (auto simp: ResetAdminMFA_def Let_def name_role_def intro!: update_first_keeps split: option.split)
next
  case (UResetPassword tok r)
  assume ok: "users_ok c"
  then show ?thesis unfolding UResetPassword
    by (auto simp: ResetAdminPassword_def Let_def name_role_def intro!: update_first_keeps split: option.split)
next
  case (UBind t n p s)
  assume ok: "users_ok c"
  then show ?thesis unfolding UBind
    by (auto simp: BindUserIdentity_def Let_def name_role_def intro!: with_user_keeps)
next
  case (UUnbind n p)
  assume ok: "users_ok c"
  then show ?thesis unfolding UUnbind
    by (auto simp: UnbindUserIdentity_def Let_def name_role_def intro!: with_user_keeps split: option.split)
qed (auto simp: user_ops name_role_def users_ok_create users_ok_meta users_ok_delete users_ok_rename
    intro!: with_user_keeps)

definition fresh_users :: "hash_lib \<Rightarrow> string \<Rightarrow> string \<Rightarrow> user_cfg" where
  "fresh_users H display tok = fst (migrateUsers H display tok \<lparr>uc_users = [], uc_account = blank_account\<rparr>)"

interpretation users: guarded_machine "fresh_users H display tok" "user_step H" users_ok for H display tok
proof
  show "users_ok (fresh_users H display tok)"
    by (simp add: users_ok_def fresh_users_def migrateUsers_def is_admin_def validRole_def blank_account_def Let_def)
qed (rule users_ok_step)

lemma migrate_ok:
  assumes "distinct (map ac_username (uc_users c))"
  shows "users_ok (fst (migrateUsers H display tok c))"
proof (cases "uc_users c")
  case Nil
  then show ?thesis
    by (simp add: migrateUsers_def users_ok_def is_admin_def validRole_def blank_account_def Let_def)
next
  case (Cons u us)
  let ?v = "\<lambda>u. if validRole (ac_role u) then u else u\<lparr>ac_role := ''viewer''\<rparr>"
  have names: "ac_username (?v u) = ac_username u" for u by simp
  show ?thesis
  proof (cases "\<exists>u\<in>set (map ?v (uc_users c)). is_admin u")
    case True
    then have "uc_users (fst (migrateUsers H display tok c)) = map ?v (uc_users c)"
      using Cons by (simp add: migrateUsers_def Let_def)
    then show ?thesis using True assms by (simp add: users_ok_def comp_def names)
  next
    case False
    then have "uc_users (fst (migrateUsers H display tok c)) = (?v u)\<lparr>ac_role := ''admin''\<rparr> # map ?v us"
      using Cons by (simp add: migrateUsers_def Let_def)
    then show ?thesis using assms Cons by (auto simp: users_ok_def comp_def is_admin_def names)
  qed
qed

text \<open>C11. Whatever accounts are created, edited, renamed, demoted or deleted, in any order, the server
  never loses its last administrator and no two accounts share a name; the migration of an old
  configuration establishes this.\<close>

theorem admin_remains:
  assumes "distinct (map ac_username (uc_users c))"
  shows "users_ok (run (user_step H) (fst (migrateUsers H display tok c)) es)"
  by (rule users.inv_run_from [OF migrate_ok [OF assms]])

lemma admin_remains_witness:
  "users_ok (run (user_step \<lparr>hmac256 = (\<lambda>k m. replicate 32 0), sha256 = (\<lambda>m. m)\<rparr>)
     (fst (migrateUsers \<lparr>hmac256 = (\<lambda>k m. replicate 32 0), sha256 = (\<lambda>m. m)\<rparr> ''Admin'' ''0123456789abcdef''
        \<lparr>uc_users = [], uc_account = blank_account\<rparr>))
     [UDelete ''admin'', UMeta ''admin'' ''x'' [] ''viewer''])"
  by (rule admin_remains) simp

end
