(* ===== verification/RouteAccess.thy ===== *)
theory RouteAccess
  imports AuthSafety Users
begin

text \<open>
  The gate in front of every route of the server (\<open>cmd/server/auth.go\<close>): the public paths, the roles a
  route needs and the middleware that resolves the session. A request is its method, its path, its
  cookies and the few headers and parameters the gate reads; what the middleware does is a value of
  \<open>gate\<close>. Log entries are left out.
\<close>

section \<open>Routes\<close>

definition public_exact :: "string list" where
  "public_exact = [''/'', ''/healthz'', ''/style.css'', ''/app.js'', ''/theme-init.js'', ''/i18n-dashboard.js'',
     ''/i18n-dashboard.en.js'', ''/i18n-dashboard.zh-TW.js'',
     ''/sw.js'', ''/manifest.json'', ''/icon.svg'',
     ''/install.sh'', ''/install.ps1'', ''/uninstall.sh'', ''/uninstall.ps1'',
     ''/install-relay.sh'', ''/install-relay.ps1'',
     ''/api/v1/login'', ''/api/v1/login/sms-code'', ''/api/v1/me'',
     ''/api/v1/auth/oidc/info'', ''/api/v1/auth/oidc/login'', ''/api/v1/auth/oidc/callback'',
     ''/api/v1/auth/sso/info'',
     ''/api/v1/auth/feishu/login'', ''/api/v1/auth/feishu/callback'',
     ''/api/v1/auth/dingtalk/login'', ''/api/v1/auth/dingtalk/callback'',
     ''/api/v1/auth/wechat/login'', ''/api/v1/auth/wechat/callback'',
     ''/api/v1/auth/wecom/login'', ''/api/v1/auth/wecom/callback'',
     ''/api/v1/forward/health'',
     ''/api/v1/account/recover-send-code'', ''/api/v1/account/recover-verify'',
     ''/api/v1/account/recover-verify-mfa'', ''/api/v1/account/recover-username'',
     ''/api/v1/account/send-reset-code'', ''/api/v1/account/reset-password'',
     ''/api/v1/agent/register'', ''/api/v1/agent/report'',
     ''/api/v1/mcp'', ''/api/v1/prom/write'', ''/api/v1/integrations/content-audit'',
     ''/api/v1/agent/logs'', ''/api/v1/brand'', ''/status'', ''/api/v1/public/status'']"

definition agent_exact :: "string list" where
  "agent_exact = [''/api/v1/agent/hardware'', ''/api/v1/agent/netflow'', ''/api/v1/agent/hyperv'',
     ''/api/v1/agent/containers'', ''/api/v1/agent/backfill'',
     ''/api/v1/agent/snmp'', ''/api/v1/agent/snmp/trap'', ''/api/v1/agent/dnsmap'',
     ''/api/v1/agent/content-audit'', ''/api/v1/agent/probe-results'']"

definition isPublicPath :: "string \<Rightarrow> bool" where
  "isPublicPath p \<longleftrightarrow>
     p \<in> set public_exact \<or> has_prefix p ''/api/v1/brand/logo/'' \<or> p \<in> set agent_exact \<or>
     has_prefix p ''/js/'' \<or> has_prefix p ''/css/'' \<or>
     has_prefix p ''/api/v1/agent/terminal/'' \<or> has_prefix p ''/api/v1/agent/desktop/'' \<or>
     has_prefix p ''/api/v1/agent/forward/'' \<or> has_prefix p ''/dl/''"

definition own_account :: "string list" where
  "own_account = [''/api/v1/logout'', ''/api/v1/password'', ''/api/v1/profile'', ''/api/v1/account/init'',
     ''/api/v1/mfa/setup'', ''/api/v1/mfa/enable'', ''/api/v1/mfa/disable'',
     ''/api/v1/mfa/unbind-via-email'', ''/api/v1/auth/sso/identities'']"

definition config_writes :: "string list" where
  "config_writes = [''/api/v1/config'', ''/api/v1/config/test'', ''/api/v1/ai/config'', ''/api/v1/ai/test'',
     ''/api/v1/ai/test-embed'', ''/api/v1/ai/test-speech'', ''/api/v1/ai/test-rerank'',
     ''/api/v1/ai/test-weknora'', ''/api/v1/ai/list-weknora-kbs'', ''/api/v1/ai/models'',
     ''/api/v1/ai/terminal-access'', ''/api/v1/ai/mcp-clients/test'', ''/api/v1/ai/mcp-clients/sync'']"

text \<open>The lowest rank a route asks for; \<open>get\<close> says that the method is GET.\<close>

definition admin_rank :: nat where "admin_rank = roleRank ''admin''"
definition operator_rank :: nat where "operator_rank = roleRank ''operator''"
definition viewer_rank :: nat where "viewer_rank = roleRank ''viewer''"

definition sql_rank :: "string \<Rightarrow> string \<Rightarrow> nat" where
  "sql_rank meth p =
     (let get = (meth = ''GET'') in
      if has_prefix p ''/api/v1/sql/change-requests'' then
        (if has_suffix p ''/approve'' \<or> has_suffix p ''/reject'' then admin_rank else operator_rank)
      else if has_suffix p ''/slow-sql/run'' \<or> has_suffix p ''/processlist'' \<or> has_suffix p ''/locks'' \<or>
              has_suffix p ''/schema/health'' \<or> has_suffix p ''/slow-sql/ps-limits/apply'' then operator_rank
      else if get then viewer_rank
      else if p = ''/api/v1/sql/beautify'' \<or> p = ''/api/v1/sql/audit'' \<or> p = ''/api/v1/sql/optimize'' \<or>
              p = ''/api/v1/sql/analyze'' \<or> has_suffix p ''/explain'' \<or> has_suffix p ''/query'' then viewer_rank
      else if has_suffix p ''/exec-ddl'' then operator_rank
      else admin_rank)"

definition k8s_rank :: "string \<Rightarrow> string \<Rightarrow> nat" where
  "k8s_rank meth p =
     (if meth = ''GET'' then viewer_rank
      else if has_suffix p ''/scale'' \<or> has_suffix p ''/restart'' \<or> has_suffix p ''/undo'' \<or>
              has_suffix p ''/exec'' \<or> has_suffix p ''/apply'' \<or>
              (meth = ''POST'' \<and> has_suffix p ''/namespaces'') \<or>
              (meth = ''DELETE'' \<and> contains_sub p ''/pods/'') then operator_rank
      else admin_rank)"

definition security_rank :: "string \<Rightarrow> string \<Rightarrow> nat" where
  "security_rank meth p =
     (if (p = ''/api/v1/security/web/config'' \<or> p = ''/api/v1/security/host/config'' \<or>
          p = ''/api/v1/security/web/engine/refresh'' \<or> has_prefix p ''/api/v1/security/feeds/'') \<and>
         meth \<noteq> ''GET'' then admin_rank
      else if has_prefix p ''/api/v1/security/findings/'' \<and> meth = ''GET'' then viewer_rank
      else operator_rank)"

definition is_security :: "string \<Rightarrow> bool" where
  "is_security p \<longleftrightarrow> p = ''/api/v1/security/overview'' \<or> has_prefix p ''/api/v1/security/host'' \<or>
     has_prefix p ''/api/v1/security/web'' \<or> has_prefix p ''/api/v1/security/feeds'' \<or>
     has_prefix p ''/api/v1/security/findings/''"

definition is_user_admin :: "string \<Rightarrow> bool" where
  "is_user_admin p \<longleftrightarrow> has_prefix p ''/api/v1/users'' \<or> p = ''/api/v1/mfa/global'' \<or>
     has_prefix p ''/api/v1/admin/'' \<or> p = ''/api/v1/security/secret-rotate'' \<or>
     p = ''/api/v1/security/rewrap-secrets'' \<or> p = ''/api/v1/security/key-status''"

definition is_install_admin :: "string \<Rightarrow> string \<Rightarrow> bool" where
  "is_install_admin meth p \<longleftrightarrow> p = ''/api/v1/audit-export'' \<or> has_prefix p ''/api/v1/auth/oidc/config'' \<or>
     has_prefix p ''/api/v1/auth/sso/config'' \<or> p = ''/api/v1/install/revoke-token'' \<or>
     p = ''/api/v1/install/token-policy'' \<or> p = ''/api/v1/install/reset-token'' \<or>
     (p = ''/api/v1/agents/auto-update-policy'' \<and> meth \<noteq> ''GET'')"

definition is_platform_write :: "string \<Rightarrow> string \<Rightarrow> bool" where
  "is_platform_write meth p \<longleftrightarrow> meth \<noteq> ''GET'' \<and>
     ((has_prefix p ''/api/v1/hyperv/'' \<and> (has_suffix p ''/power'' \<or> has_suffix p ''/config'')) \<or>
      (has_prefix p ''/api/v1/containers/'' \<and>
       (has_suffix p ''/action'' \<or> has_suffix p ''/exec'' \<or> contains_sub p ''/compose/'')))"

definition is_remote :: "string \<Rightarrow> bool" where
  "is_remote p \<longleftrightarrow> contains_sub p ''/terminal'' \<or> contains_sub p ''/desktop'' \<or>
     has_prefix p ''/api/v1/forward'' \<or> has_prefix p ''/proxy/'' \<or> p = ''/api/v1/proxy-token''"

definition routeAllowed :: "string \<Rightarrow> string \<Rightarrow> string \<Rightarrow> bool" where
  "routeAllowed meth p role =
     (let rank = roleRank role in
      if rank = 0 then False
      else if p \<in> set own_account then True
      else if has_prefix p ''/api/v1/auth/sso/identities/'' then True
      else if is_user_admin p then admin_rank \<le> rank
      else if has_prefix p ''/api/v1/content-audit'' \<or> p = ''/api/v1/ai/tool-audit'' then operator_rank \<le> rank
      else if is_security p then security_rank meth p \<le> rank
      else if is_install_admin meth p then admin_rank \<le> rank
      else if has_prefix p ''/api/v1/sql/'' then sql_rank meth p \<le> rank
      else if has_prefix p ''/api/v1/cicd/'' then
        (if meth = ''GET'' then viewer_rank \<le> rank
         else if has_prefix p ''/api/v1/cicd/connections'' then admin_rank \<le> rank
         else operator_rank \<le> rank)
      else if has_prefix p ''/api/v1/k8s/'' then k8s_rank meth p \<le> rank
      else if is_platform_write meth p then operator_rank \<le> rank
      else if p \<in> set config_writes \<and> meth \<noteq> ''GET'' then admin_rank \<le> rank
      else if is_remote p then operator_rank \<le> rank
      else if meth = ''GET'' then viewer_rank \<le> rank
      else operator_rank \<le> rank)"

definition validatePasswordStrength :: "nat \<Rightarrow> string \<Rightarrow> bool" where
  "validatePasswordStrength runeCount pw =
     (let in_range = (\<lambda>lo hi c. lo \<le> (of_char c :: nat) \<and> (of_char c :: nat) \<le> hi);
          up = in_range 65 90; lo = in_range 97 122; dg = in_range 48 57
      in if runeCount < 8 then False
         else (\<exists>c\<in>set pw. up c) \<and> (\<exists>c\<in>set pw. lo c) \<and> (\<exists>c\<in>set pw. dg c) \<and>
              (\<exists>c\<in>set pw. \<not> up c \<and> \<not> lo c \<and> \<not> dg c))"

section \<open>The middleware\<close>

record request =
  rq_method :: string
  rq_path :: string
  rq_cookie :: "string option"
  rq_proxyCookie :: "string option"
  rq_proxyQuery :: string
  rq_relaySecret :: string

datatype gate =
    PassPublic
  | PassProxy string
  | PassSession string
  | RelayUnauthorized
  | InsufficientPermission
  | Unauthorized
  | MustChangePassword
  | MfaRequiredFirst

definition proxy_token_of :: "request \<Rightarrow> string" where
  "proxy_token_of r =
     (case rq_proxyCookie r of
        Some c \<Rightarrow> if c \<noteq> [] then c else rq_proxyQuery r
      | None \<Rightarrow> rq_proxyQuery r)"

definition session_gate :: "(string \<Rightarrow> string) \<Rightarrow> int \<Rightarrow> user_cfg \<Rightarrow> request \<Rightarrow> auth \<Rightarrow> gate" where
  "session_gate key now cfg r a =
     (let name = userForRequest key now (rq_cookie r) a; p = rq_path r in
      if name = [] then Unauthorized
      else if isPasswordChangeOnly key now (rq_cookie r) a \<and>
              p \<notin> {''/api/v1/me'', ''/api/v1/password'', ''/api/v1/account/init'', ''/api/v1/logout''}
      then MustChangePassword
      else if isRestricted key now (rq_cookie r) a \<and>
              p \<notin> {''/api/v1/mfa/setup'', ''/api/v1/mfa/enable'', ''/api/v1/logout''}
      then MfaRequiredFirst
      else if \<not> routeAllowed (rq_method r) p (RoleOf name cfg) then InsufficientPermission
      else PassSession name)"

definition authMiddleware ::
    "(string \<Rightarrow> string) \<Rightarrow> int \<Rightarrow> string \<Rightarrow> user_cfg \<Rightarrow> request \<Rightarrow> auth \<Rightarrow> auth \<times> gate" where
  "authMiddleware key now relaySecret cfg r a =
     (if relaySecret \<noteq> [] \<and> rq_relaySecret r \<noteq> [] \<and> rq_relaySecret r \<noteq> relaySecret
      then (a, RelayUnauthorized)
      else if isPublicPath (rq_path r) then (a, PassPublic)
      else if has_prefix (rq_path r) ''/proxy/'' \<and> proxy_token_of r \<noteq> [] then
        (let (a1, user) = validateProxyToken now (proxy_token_of r) a in
         if user \<noteq> [] then
           (if routeAllowed (rq_method r) (rq_path r) (RoleOf user cfg) then (a1, PassProxy user)
            else (a1, InsufficientPermission))
         else (a1, session_gate key now cfg r a1))
      else (a, session_gate key now cfg r a))"

section \<open>What the gate lets through\<close>

lemma ranks: "admin_rank = 3" "operator_rank = 2" "viewer_rank = 1"
  by (simp_all add: admin_rank_def operator_rank_def viewer_rank_def roleRank_def)

text \<open>The decision as one number: the least rank a route asks of a known role.\<close>

definition route_rank :: "string \<Rightarrow> string \<Rightarrow> nat" where
  "route_rank meth p =
     (if p \<in> set own_account then 1
      else if has_prefix p ''/api/v1/auth/sso/identities/'' then 1
      else if is_user_admin p then admin_rank
      else if has_prefix p ''/api/v1/content-audit'' \<or> p = ''/api/v1/ai/tool-audit'' then operator_rank
      else if is_security p then security_rank meth p
      else if is_install_admin meth p then admin_rank
      else if has_prefix p ''/api/v1/sql/'' then sql_rank meth p
      else if has_prefix p ''/api/v1/cicd/'' then
        (if meth = ''GET'' then viewer_rank
         else if has_prefix p ''/api/v1/cicd/connections'' then admin_rank else operator_rank)
      else if has_prefix p ''/api/v1/k8s/'' then k8s_rank meth p
      else if is_platform_write meth p then operator_rank
      else if p \<in> set config_writes \<and> meth \<noteq> ''GET'' then admin_rank
      else if is_remote p then operator_rank
      else if meth = ''GET'' then viewer_rank
      else operator_rank)"

lemma routeAllowed_rank: "routeAllowed meth p role \<longleftrightarrow> roleRank role \<noteq> 0 \<and> route_rank meth p \<le> roleRank role"
proof (cases "roleRank role = 0")
  case True
  then show ?thesis by (simp add: routeAllowed_def)
next
  case False
  then have "1 \<le> roleRank role" by simp
  then show ?thesis
    unfolding routeAllowed_def route_rank_def Let_def if_distrib [where f = "\<lambda>n. n \<le> roleRank role"]
    using False by simp
qed

lemma user_admin_rank:
  assumes "is_user_admin p"
  shows "route_rank meth p = 3"
proof -
  have "p \<notin> set own_account" using assms by (auto simp: own_account_def is_user_admin_def has_prefix_iff)
  moreover have "\<not> has_prefix p ''/api/v1/auth/sso/identities/''"
    using assms by (auto simp: is_user_admin_def has_prefix_iff)
  ultimately show ?thesis using assms by (simp add: route_rank_def ranks)
qed

text \<open>Rights grow with the role: what a role may do, every higher role may; an unknown role may do
  nothing; and only an administrator reaches the accounts, the administration, the key rotation and the
  global MFA policy.\<close>

theorem rbac_monotone:
  "(routeAllowed meth p role \<and> roleRank role \<le> roleRank role' \<longrightarrow> routeAllowed meth p role') \<and>
   (\<not> validRole role \<longrightarrow> \<not> routeAllowed meth p role) \<and>
   (routeAllowed meth p role \<and> is_user_admin p \<longrightarrow> role = ''admin'')"
proof (intro conjI impI)
  show "role = ''admin''" if "routeAllowed meth p role \<and> is_user_admin p"
    using that user_admin_rank [of p meth] by (simp add: routeAllowed_rank roleRank_def split: if_splits)
qed (auto simp: routeAllowed_rank validRole_def roleRank_def)

lemma rbac_monotone_witness:
  "routeAllowed ''GET'' ''/api/v1/hosts'' ''operator'' \<and> \<not> routeAllowed ''DELETE'' ''/api/v1/users/bob'' ''operator''"
proof -
  have "routeAllowed ''GET'' ''/api/v1/hosts'' ''viewer''"
    by (simp add: routeAllowed_def roleRank_def own_account_def has_prefix_def is_user_admin_def is_security_def
        is_install_admin_def is_platform_write_def is_remote_def config_writes_def contains_sub_def ranks)
  moreover have "is_user_admin ''/api/v1/users/bob''" by (simp add: is_user_admin_def has_prefix_def)
  ultimately show ?thesis
    using rbac_monotone [of "''GET''" "''/api/v1/hosts''" "''viewer''" "''operator''"]
      rbac_monotone [of "''DELETE''" "''/api/v1/users/bob''" "''operator''" "''operator''"]
    by (simp add: roleRank_def)
qed

lemma gate_sessions [simp]:
  "session_gate key now cfg r (a\<lparr>au_proxyTokens := m\<rparr>) = session_gate key now cfg r a"
proof -
  have "session_of key now c (a\<lparr>au_proxyTokens := m\<rparr>) = session_of key now c a" for c
    by (cases c) (simp_all add: session_of_def)
  then show ?thesis
    by (simp only: session_gate_def userForRequest_def isPasswordChangeOnly_def isRestricted_def)
qed

text \<open>C5. Behind the gate: a request that is neither public nor carries a proxy token passes only with the
  cookie of a session that has not expired, under the name of that session's user, whose present role may
  use the route; a session that must first change its password or set up MFA reaches only those pages.\<close>

theorem middleware_sound:
  assumes "authMiddleware key now relaySecret cfg r a = (a', PassSession name)"
  shows "\<exists>tok s. rq_cookie r = Some tok \<and> map_of (au_sessions a) (key tok) = Some s \<and> now \<le> se_expires s \<and>
           name = se_user s \<and> name \<noteq> [] \<and> routeAllowed (rq_method r) (rq_path r) (RoleOf name cfg) \<and>
           (se_pwChangeOnly s \<longrightarrow> rq_path r \<in> {''/api/v1/me'', ''/api/v1/password'', ''/api/v1/account/init'', ''/api/v1/logout''}) \<and>
           (se_restricted s \<longrightarrow> rq_path r \<in> {''/api/v1/mfa/setup'', ''/api/v1/mfa/enable'', ''/api/v1/logout''})"
proof -
  have gate: "session_gate key now cfg r a = PassSession name"
    using assms by (auto simp: authMiddleware_def validateProxyToken_def split_beta split: if_splits)
  then obtain s where s: "session_of key now (rq_cookie r) a = Some s" "name = se_user s" "name \<noteq> []"
    by (auto simp: session_gate_def userForRequest_def Let_def split: if_splits option.splits)
  then obtain tok where tok: "rq_cookie r = Some tok" "map_of (au_sessions a) (key tok) = Some s" "now \<le> se_expires s"
    by (auto simp: session_of_def split: option.splits if_splits)
  have "isPasswordChangeOnly key now (rq_cookie r) a = se_pwChangeOnly s"
    "isRestricted key now (rq_cookie r) a = se_restricted s"
    by (simp_all add: isPasswordChangeOnly_def isRestricted_def s(1))
  then have "routeAllowed (rq_method r) (rq_path r) (RoleOf name cfg)"
    "se_pwChangeOnly s \<longrightarrow> rq_path r \<in> {''/api/v1/me'', ''/api/v1/password'', ''/api/v1/account/init'', ''/api/v1/logout''}"
    "se_restricted s \<longrightarrow> rq_path r \<in> {''/api/v1/mfa/setup'', ''/api/v1/mfa/enable'', ''/api/v1/logout''}"
    using gate s by (auto simp: session_gate_def userForRequest_def Let_def split: if_splits)
  then show ?thesis using tok s by blast
qed

definition demo_session :: session where
  "demo_session = (new_session 0 ''ann'')\<lparr>se_user := ''ann''\<rparr>"

definition demo_auth :: auth where
  "demo_auth = NewAuth\<lparr>au_sessions := [(''k'', demo_session)]\<rparr>"

definition demo_cfg :: user_cfg where
  "demo_cfg = \<lparr>uc_users = [blank_account\<lparr>ac_username := ''ann'', ac_role := ''viewer''\<rparr>], uc_account = blank_account\<rparr>"

definition demo_request_hosts :: request where
  "demo_request_hosts = \<lparr>rq_method = ''GET'', rq_path = ''/api/v1/hosts'', rq_cookie = Some ''k'',
     rq_proxyCookie = None, rq_proxyQuery = [], rq_relaySecret = []\<rparr>"

lemma demo_route:
  "routeAllowed ''GET'' ''/api/v1/hosts'' ''viewer''" "\<not> isPublicPath ''/api/v1/hosts''"
  "\<not> has_prefix ''/api/v1/hosts'' ''/proxy/''"
  by (simp_all add: routeAllowed_def roleRank_def own_account_def has_prefix_def is_user_admin_def is_security_def
      is_install_admin_def is_platform_write_def is_remote_def config_writes_def contains_sub_def ranks
      isPublicPath_def public_exact_def agent_exact_def)

lemma demo_passes:
  "authMiddleware (\<lambda>s. s) (seconds 600000) [] demo_cfg demo_request_hosts demo_auth = (demo_auth, PassSession ''ann'')"
  by (simp add: authMiddleware_def demo_request_hosts_def demo_route session_gate_def userForRequest_def
      session_of_def demo_auth_def demo_session_def new_session_def NewAuth_def isPasswordChangeOnly_def
      isRestricted_def RoleOf_def UserByName_def demo_cfg_def sessionTTL_def seconds_def)

lemma middleware_sound_witness:
  "\<exists>tok s. rq_cookie demo_request_hosts = Some tok \<and> map_of (au_sessions demo_auth) tok = Some s \<and>
     ''ann'' = se_user s \<and> routeAllowed ''GET'' ''/api/v1/hosts'' (RoleOf ''ann'' demo_cfg)"
  using middleware_sound [OF demo_passes] by (auto simp: demo_request_hosts_def)

section \<open>A session that has ended\<close>

text \<open>The server does not know the sender of the request as a user, and the gate lets it through under no
  session.\<close>

definition refused ::
    "(string \<Rightarrow> string) \<Rightarrow> int \<Rightarrow> string \<Rightarrow> user_cfg \<Rightarrow> request \<Rightarrow> auth \<Rightarrow> bool" where
  "refused key now relaySecret cfg r a \<longleftrightarrow>
     userForRequest key now (rq_cookie r) a = [] \<and>
     (case snd (authMiddleware key now relaySecret cfg r a) of PassSession name \<Rightarrow> False | _ \<Rightarrow> True)"

lemma ended_refused:
  assumes "ends_by (key tok) til a" and "\<forall>u. til = Some u \<longrightarrow> u < now" and "rq_cookie r = Some tok"
  shows "refused key now relaySecret cfg r a"
proof -
  have gone: "session_of key now (rq_cookie r) a = None"
    using assms by (auto simp: ends_by_def session_of_def split: option.splits)
  have "snd (authMiddleware key now relaySecret cfg r a) \<noteq> PassSession name" for name
  proof
    assume "snd (authMiddleware key now relaySecret cfg r a) = PassSession name"
    then have "authMiddleware key now relaySecret cfg r a =
        (fst (authMiddleware key now relaySecret cfg r a), PassSession name)" by (simp add: prod_eq_iff)
    then have "session_gate key now cfg r a = PassSession name"
      by (auto simp: authMiddleware_def validateProxyToken_def split_beta split: if_splits)
    then show False by (simp add: session_gate_def userForRequest_def gone)
  qed
  then show ?thesis by (simp add: refused_def userForRequest_def gone split: gate.split)
qed

lemma ended_stays_refused:
  assumes "sessions_ok a" and "ends_by (al_key L tok) til a" and "\<forall>e\<in>set es. \<not> issues L (al_key L tok) e"
    and "\<forall>u. til = Some u \<longrightarrow> u < now" and "rq_cookie r = Some tok"
  shows "refused (al_key L) now relaySecret cfg r (run (auth_step L) a es)"
  by (rule ended_refused [where key = "al_key L" and tok = tok, OF ends_by_run [OF assms(1-3)] assms(4,5)])

text \<open>C22. A session cookie dies for good: after its logout, after all sessions were cleared, after the
  sessions of its user were cleared, and seven days after it was issued, the server takes a request with it
  for nobody's and the gate lets it through under no session, whatever other operations come in between
  (short of the server issuing or importing the same token anew).\<close>

theorem session_ends:
  assumes "sessions_ok a" and "\<forall>e\<in>set es. \<not> issues L (al_key L tok) e" and "rq_cookie r = Some tok"
  shows "refused (al_key L) t' relaySecret cfg r (run (auth_step L) (Logout (al_key L) tok a) es) \<and>
         refused (al_key L) t' relaySecret cfg r (run (auth_step L) (ClearSessions a) es) \<and>
         (map_of (au_sessions a) (al_key L tok) = Some s \<longrightarrow>
          refused (al_key L) t' relaySecret cfg r (run (auth_step L) (clearUserSessions (se_user s) a) es)) \<and>
         (t + seconds (7 * 24 * 3600) < t' \<longrightarrow>
          refused (al_key L) t' relaySecret cfg r
            (run (auth_step L) (auth_step L a (EvIssue t tok user restricted pwOnly)) es))"
proof (intro conjI impI)
  note step = sessions_ok_step [OF assms(1), of L]
  have "ends_by (al_key L tok) None (Logout (al_key L) tok a)" "ends_by (al_key L tok) None (ClearSessions a)"
    by (auto simp: ends_by_def Logout_def ClearSessions_def delete_conv')
  then show "refused (al_key L) t' relaySecret cfg r (run (auth_step L) (Logout (al_key L) tok a) es)"
    "refused (al_key L) t' relaySecret cfg r (run (auth_step L) (ClearSessions a) es)"
    using step [of "EvLogout tok"] step [of EvClearAll] assms(2,3)
    by (auto intro: ended_stays_refused)
next
  assume s: "map_of (au_sessions a) (al_key L tok) = Some s"
  have "keys_distinct (au_sessions a)" using assms(1) by (simp add: sessions_ok_def)
  then have "ends_by (al_key L tok) None (clearUserSessions (se_user s) a)"
    using s by (simp add: ends_by_def clearUserSessions_def map_of_filter)
  then show "refused (al_key L) t' relaySecret cfg r (run (auth_step L) (clearUserSessions (se_user s) a) es)"
    using sessions_ok_step [OF assms(1), of L "EvClearUser (se_user s)"] assms(2,3)
    by (auto intro: ended_stays_refused)
next
  assume late: "t + seconds (7 * 24 * 3600) < t'"
  have "ends_by (al_key L tok) (Some (t + seconds (7 * 24 * 3600)))
      (auth_step L a (EvIssue t tok user restricted pwOnly))"
    by (simp add: ends_by_def session_ops update_conv' new_session_def sessionTTL_def)
  from ended_stays_refused [OF sessions_ok_step [OF assms(1)] this assms(2) _ assms(3)] late
  show "refused (al_key L) t' relaySecret cfg r
      (run (auth_step L) (auth_step L a (EvIssue t tok user restricted pwOnly)) es)" by simp
qed

definition plain_auth_lib :: auth_lib where
  "plain_auth_lib = \<lparr>al_key = (\<lambda>s. s), al_order = (\<lambda>ks. ks), al_otp = demo_otp\<rparr>"

lemma session_ends_witness:
  "refused (\<lambda>s. s) 5 [] demo_cfg demo_request_hosts
     (run (auth_step plain_auth_lib) (clearUserSessions ''ann'' demo_auth) [EvUpgrade ''k'']) \<and>
   refused (\<lambda>s. s) (seconds 700000) [] demo_cfg demo_request_hosts
     (run (auth_step plain_auth_lib)
       (auth_step plain_auth_lib demo_auth (EvIssue 0 ''k'' ''ann'' False False)) [EvUpgrade ''k''])"
  using session_ends [of demo_auth "[EvUpgrade ''k'']" plain_auth_lib "''k''" demo_request_hosts 5 "[]" demo_cfg
      demo_session 0 "[]" False False]
    session_ends [of demo_auth "[EvUpgrade ''k'']" plain_auth_lib "''k''" demo_request_hosts "seconds 700000" "[]"
      demo_cfg demo_session 0 "''ann''" False False]
  by (simp add: sessions_ok_def demo_auth_def NewAuth_def seconds_def demo_request_hosts_def demo_session_def
      new_session_def plain_auth_lib_def)

text \<open>The idle timeout is not enforced: the gate never consults validate, so a full session whose last
  activity is more than 24 hours ago still passes until its seven days are over, although validate itself
  would refuse it.\<close>

theorem idle_session_passes:
  assumes "rq_cookie r = Some tok" and "tok \<noteq> []" and "map_of (au_sessions a) (key tok) = Some s"
    and "se_lastSeen s = Some l" and "l + seconds (24 * 3600) < now" and "now \<le> se_expires s"
    and "\<not> se_restricted s" and "\<not> se_pwChangeOnly s" and "se_user s \<noteq> []"
    and "\<not> isPublicPath (rq_path r)" and "\<not> has_prefix (rq_path r) ''/proxy/''"
    and "routeAllowed (rq_method r) (rq_path r) (RoleOf (se_user s) cfg)"
  shows "authMiddleware key now [] cfg r a = (a, PassSession (se_user s)) \<and> \<not> snd (validate key now tok a)"
  using assms
  by (simp add: authMiddleware_def session_gate_def userForRequest_def session_of_def isPasswordChangeOnly_def
      isRestricted_def validate_def live_session_def sessionIdleTimeout_def Let_def)

lemma idle_session_passes_witness:
  "authMiddleware (\<lambda>s. s) (seconds 600000) [] demo_cfg demo_request_hosts demo_auth = (demo_auth, PassSession ''ann'') \<and>
   \<not> snd (validate (\<lambda>s. s) (seconds 600000) ''k'' demo_auth)"
proof -
  have "RoleOf ''ann'' demo_cfg = ''viewer''" by (simp add: RoleOf_def UserByName_def demo_cfg_def)
  then show ?thesis
    using idle_session_passes [of demo_request_hosts "''k''" demo_auth "\<lambda>s. s" demo_session 0 "seconds 600000" demo_cfg]
    by (simp add: demo_request_hosts_def demo_route demo_auth_def demo_session_def new_session_def seconds_def
        sessionTTL_def)
qed

end
