(* ===== verification/Login.thy ===== *)
theory Login
  imports RouteAccess
begin

text \<open>
  The login handlers (\<open>handleLogin\<close> and what it calls in \<open>cmd/server/auth.go\<close>, \<open>CheckPassword\<close> in
  \<open>auth_core.go\<close>) and the check of the terminal password (\<open>terminal_auth.go\<close>), over the login state,
  the accounts and the pending SMS codes; the change of one's password and the end of a single sign-on,
  which issue sessions too. A handler returns the new state and its answer. Log entries,
  the cookie's attributes and the automatic defence that a lockout may trigger are left out.
\<close>

record sms_entry =
  sms_code :: string
  sms_expires :: int

record login_state =
  lg_auth :: auth
  lg_cfg :: user_cfg
  lg_sms :: "sms_entry go_map"

text \<open>What a request brings from outside: the libraries, the clock in nanoseconds, a fresh token, the
  global MFA policy.\<close>

record login_env =
  le_hash :: hash_lib
  le_lib :: auth_lib
  le_now :: int
  le_token :: string
  le_mfaRequired :: bool

definition unix :: "login_env \<Rightarrow> int" where
  "unix E = le_now E div 1000000000"

datatype reply =
    TooManyAttempts | InvalidJSON | InvalidCredentials | SmsCodeRequired | SmsCodeInvalid | MfaCodeRequired
  | TotpReplayed | TotpWrong | MustChange | RequireMfaSetup | LoggedIn

definition CheckPassword :: "hash_lib \<Rightarrow> string \<Rightarrow> string \<Rightarrow> user_cfg \<Rightarrow> user_cfg \<times> account option" where
  "CheckPassword H user pass c =
     (case UserByName user c of
        None \<Rightarrow> (c, None)
      | Some acc \<Rightarrow>
          if \<not> verifyPassword H pass (ac_salt acc) (ac_hash acc) then (c, None)
          else if isLegacyHash (ac_hash acc) then
            (let (c1, err) = upgradeLoginHash H user pass c in
             if err = None then (c1, Some (case UserByName user c1 of Some u \<Rightarrow> u | None \<Rightarrow> acc)) else (c1, Some acc))
          else (c, Some acc))"

definition looksLikePhone :: "string \<Rightarrow> bool" where
  "looksLikePhone i =
     (let s = filter (\<lambda>c. c \<noteq> CHR '' '' \<and> c \<noteq> CHR ''-'') (trim_space i) in
      if length s \<noteq> 11 \<or> hd s \<noteq> CHR ''1'' then False
      else \<forall>c\<in>set s. 48 \<le> (of_char c :: nat) \<and> (of_char c :: nat) \<le> 57)"

text \<open>A failed attempt: both counters, then the look at the address that may trigger the defence.\<close>

definition note_failure :: "login_env \<Rightarrow> string \<Rightarrow> string \<Rightarrow> login_state \<Rightarrow> login_state" where
  "note_failure E ip user st =
     st\<lparr>lg_auth := fst (loginAllowed (unix E) ip
          (loginAccountFailed (unix E) user (loginFailed (unix E) ip (lg_auth st))))\<rparr>"

definition note_failure_quiet :: "login_env \<Rightarrow> string \<Rightarrow> string \<Rightarrow> login_state \<Rightarrow> login_state" where
  "note_failure_quiet E ip user st =
     st\<lparr>lg_auth := loginAccountFailed (unix E) user (loginFailed (unix E) ip (lg_auth st))\<rparr>"

definition authenticateUsernameLogin ::
    "login_env \<Rightarrow> string \<Rightarrow> string \<Rightarrow> string \<Rightarrow> login_state \<Rightarrow> login_state \<times> (reply + account)" where
  "authenticateUsernameLogin E username password ip st =
     (let (c, found) = CheckPassword (le_hash E) username password (lg_cfg st); st1 = st\<lparr>lg_cfg := c\<rparr> in
      case found of
        None \<Rightarrow> (note_failure E ip username st1, Inl InvalidCredentials)
      | Some acc \<Rightarrow> (st1, Inr acc))"

definition account_gate ::
    "login_env \<Rightarrow> account \<Rightarrow> login_state \<Rightarrow> login_state \<times> bool" where
  "account_gate E acc st =
     (let (a, ok) = loginAccountAllowed (unix E) (ac_username acc) (lg_auth st) in (st\<lparr>lg_auth := a\<rparr>, ok))"

definition authenticatePhoneLogin ::
    "login_env \<Rightarrow> string \<Rightarrow> string \<Rightarrow> string \<Rightarrow> login_state \<Rightarrow> login_state \<times> (reply + account)" where
  "authenticatePhoneLogin E phone password ip st =
     (case UserByPhone phone (lg_cfg st) of
        None \<Rightarrow> (note_failure E ip phone st, Inl InvalidCredentials)
      | Some acc \<Rightarrow>
          if \<not> verifyPassword (le_hash E) password (ac_salt acc) (ac_hash acc)
          then (note_failure E ip (ac_username acc) st, Inl InvalidCredentials)
          else let (st1, ok) = account_gate E acc st in
               (st1, if ok then Inr acc else Inl TooManyAttempts))"

definition authenticateAccountLogin ::
    "login_env \<Rightarrow> string \<Rightarrow> string \<Rightarrow> string \<Rightarrow> login_state \<Rightarrow> login_state \<times> (reply + account)" where
  "authenticateAccountLogin E id0 password ip st =
     (let i = trim_space id0 in
      if looksLikePhone i \<and> UserByPhone i (lg_cfg st) \<noteq> None then authenticatePhoneLogin E i password ip st
      else authenticateUsernameLogin E i password ip st)"

definition authenticateSMSLogin ::
    "login_env \<Rightarrow> string \<Rightarrow> string \<Rightarrow> string \<Rightarrow> login_state \<Rightarrow> login_state \<times> (reply + account)" where
  "authenticateSMSLogin E phone0 smsCode0 ip st =
     (let phone = trim_space phone0; smsCode = trim_space smsCode0 in
      if phone = [] \<or> smsCode = [] then (st, Inl SmsCodeRequired)
      else case UserByPhone phone (lg_cfg st) of
             None \<Rightarrow> (note_failure_quiet E ip phone st, Inl InvalidCredentials)
           | Some acc \<Rightarrow>
               let (st1, ok) = account_gate E acc st in
               if \<not> ok then (st1, Inl TooManyAttempts)
               else if (case map_of (lg_sms st1) phone of
                          None \<Rightarrow> True
                        | Some e \<Rightarrow> \<not> (le_now E < sms_expires e \<and> sms_code e = smsCode))
               then (note_failure_quiet E ip (ac_username acc) st1, Inl SmsCodeInvalid)
               else (st1, Inr acc))"

definition consumeSMSLoginCode :: "string \<Rightarrow> login_state \<Rightarrow> login_state" where
  "consumeSMSLoginCode phone0 st =
     (let phone = trim_space phone0 in
      if phone = [] then st else st\<lparr>lg_sms := AList.delete phone (lg_sms st)\<rparr>)"

text \<open>The end of \<open>completeLogin\<close>, after the second factor.\<close>

definition issue_login :: "login_env \<Rightarrow> account \<Rightarrow> login_state \<Rightarrow> login_state \<times> reply" where
  "issue_login E acc st0 =
     (let st = consumeSMSLoginCode (ac_phone acc)
                 (st0\<lparr>lg_auth := loginAccountReset (ac_username acc) (lg_auth st0)\<rparr>);
          key = al_key (le_lib E); user = ac_username acc
      in if ac_mustChange acc
         then (st\<lparr>lg_auth := issuePasswordChangeSession key (le_now E) (le_token E) user (lg_auth st)\<rparr>, MustChange)
         else if le_mfaRequired E \<and> \<not> ac_mfaEnabled acc
         then (st\<lparr>lg_auth := issueRestrictedSession key (le_now E) (le_token E) user (lg_auth st)\<rparr>, RequireMfaSetup)
         else (st\<lparr>lg_auth := issueSession key (le_now E) (le_token E) user (lg_auth st)\<rparr>, LoggedIn))"

definition default_credentials :: "account \<Rightarrow> string \<Rightarrow> bool" where
  "default_credentials acc password \<longleftrightarrow> ac_username acc = ''admin'' \<and> password = ''admin''"

definition completeLogin ::
    "login_env \<Rightarrow> account \<Rightarrow> string \<Rightarrow> string \<Rightarrow> string \<Rightarrow> login_state \<Rightarrow> login_state \<times> reply" where
  "completeLogin E acc0 password code ip st0 =
     (let force = default_credentials acc0 password \<and> \<not> ac_mustChange acc0;
          st = (if force then st0\<lparr>lg_cfg := SetMustChangePassword (ac_username acc0) (lg_cfg st0)\<rparr> else st0);
          acc = (if force then acc0\<lparr>ac_mustChange := True\<rparr> else acc0)
      in if \<not> ac_mfaEnabled acc then issue_login E acc st
         else if trim_space code = [] then (st, MfaCodeRequired)
         else let (a, res) = verifyAndConsumeTOTP (al_otp (le_lib E)) (al_order (le_lib E)) (unix E)
                               (ac_username acc) (ac_mfaSecret acc) code (lg_auth st);
                  st1 = st\<lparr>lg_auth := a\<rparr>
              in case res of
                   TotpOK \<Rightarrow> issue_login E acc st1
                 | TotpReplay \<Rightarrow> (st1, TotpReplayed)
                 | TotpInvalid \<Rightarrow> (note_failure_quiet E ip (ac_username acc) st1, TotpWrong))"

record login_request =
  lr_username :: string
  lr_password :: string
  lr_loginType :: string
  lr_code :: string
  lr_smsCode :: string

text \<open>\<open>None\<close> for a body that is no valid JSON.\<close>

definition handleLogin ::
    "login_env \<Rightarrow> string \<Rightarrow> login_request option \<Rightarrow> login_state \<Rightarrow> login_state \<times> reply" where
  "handleLogin E ip req st0 =
     (let (a, ok) = loginAllowed (unix E) ip (lg_auth st0); st = st0\<lparr>lg_auth := a\<rparr> in
      if \<not> ok then (st, TooManyAttempts)
      else case req of
             None \<Rightarrow> (st, InvalidJSON)
           | Some r \<Rightarrow>
               let sms = (lr_loginType r = ''sms'');
                   (st1, res) = (if sms then authenticateSMSLogin E (lr_username r) (lr_smsCode r) ip st
                                 else authenticateAccountLogin E (lr_username r) (lr_password r) ip st)
               in case res of
                    Inl rep \<Rightarrow> (st1, rep)
                  | Inr acc \<Rightarrow> completeLogin E acc (if sms then [] else lr_password r) (lr_code r) ip st1)"

section \<open>Sessions that are not issued by a login\<close>

text \<open>\<open>proxyUser\<close> is the user the middleware put into the request's context.\<close>

definition currentUser ::
    "(string \<Rightarrow> string) \<Rightarrow> int \<Rightarrow> string option \<Rightarrow> string option \<Rightarrow> login_state \<Rightarrow> account option" where
  "currentUser key now cookie proxyUser st =
     (let n = userForRequest key now cookie (lg_auth st);
          name = (if n = [] then (case proxyUser of None \<Rightarrow> [] | Some v \<Rightarrow> v) else n)
      in if name = [] then None else UserByName name (lg_cfg st))"

datatype password_reply =
    PwUnauthorized | PwInvalidJSON | PwWrongOld | PwPolicy | PwChanged

text \<open>\<open>body\<close> is the old and the new password, \<open>None\<close> if it is no valid JSON; \<open>runes\<close> counts the characters of
  a string and \<open>salt\<close> is the fresh salt.\<close>

definition handleSetPassword ::
    "login_env \<Rightarrow> (string \<Rightarrow> nat) \<Rightarrow> string \<Rightarrow> string option \<Rightarrow> string option \<Rightarrow> (string \<times> string) option \<Rightarrow>
     login_state \<Rightarrow> login_state \<times> password_reply" where
  "handleSetPassword E runes salt cookie proxyUser body st =
     (case currentUser (al_key (le_lib E)) (le_now E) cookie proxyUser st of
        None \<Rightarrow> (st, PwUnauthorized)
      | Some acc \<Rightarrow>
          (case body of
             None \<Rightarrow> (st, PwInvalidJSON)
           | Some (old, new) \<Rightarrow>
               if \<not> verifyPassword (le_hash E) old (ac_salt acc) (ac_hash acc) then (st, PwWrongOld)
               else if \<not> validatePasswordStrength (runes (trim_space new)) (trim_space new) then (st, PwPolicy)
               else
                 (let user = ac_username acc;
                      c = ClearMustChangePassword user (fst (SetUserPassword (le_hash E) salt user new (lg_cfg st)));
                      a = issueSession (al_key (le_lib E)) (le_now E) (le_token E) user
                            (clearUserSessions user (lg_auth st))
                  in (st\<lparr>lg_cfg := c, lg_auth := a\<rparr>, PwChanged))))"

definition finishSSOLogin :: "login_env \<Rightarrow> string \<Rightarrow> login_state \<Rightarrow> login_state" where
  "finishSSOLogin E username st =
     st\<lparr>lg_auth := issueSession (al_key (le_lib E)) (le_now E) (le_token E) username (lg_auth st)\<rparr>"

section \<open>The terminal password\<close>

datatype terminal_reply = TermNotSet | TermLocked | TermBadRequest | TermWrong int | TermOk

text \<open>\<open>user\<close> is the account of the session, \<open>body\<close> the password sent, \<open>None\<close> if it was no valid JSON.\<close>

definition handleTerminalPasswordVerify ::
    "hash_lib \<Rightarrow> auth_lib \<Rightarrow> int \<Rightarrow> user_cfg \<Rightarrow> string \<Rightarrow> string option \<Rightarrow> string option \<Rightarrow> auth \<Rightarrow>
     auth \<times> terminal_reply" where
  "handleTerminalPasswordVerify H L now cfg user cookie body a =
     (if \<not> HasTerminalPassword user cfg then (a, TermNotSet)
      else let (a1, allowed, remaining) = terminalAttemptAllowed (al_order L) now user a in
           if \<not> allowed then (a1, TermLocked)
           else case body of
                  None \<Rightarrow> (a1, TermBadRequest)
                | Some password \<Rightarrow>
                    if \<not> VerifyTerminalPassword H user password cfg
                    then (terminalAttemptFailed user a1, TermWrong (remaining - 1))
                    else (markTerminalVerified (al_key L) cookie (terminalAttemptReset user a1), TermOk))"

section \<open>A full session needs every factor\<close>

lemma issue_login_full:
  "issue_login E acc st = (st', LoggedIn) \<Longrightarrow>
   \<not> ac_mustChange acc \<and> (le_mfaRequired E \<longrightarrow> ac_mfaEnabled acc) \<and>
   map_of (au_sessions (lg_auth st')) (al_key (le_lib E) (le_token E)) =
     Some (new_session (le_now E) (ac_username acc))"
  by (auto simp: issue_login_def issueSession_def store_session_def update_conv' Let_def split: if_splits)

definition second_factor_ok :: "login_env \<Rightarrow> account \<Rightarrow> string \<Rightarrow> bool" where
  "second_factor_ok E acc code \<longleftrightarrow> (ac_mfaEnabled acc \<longrightarrow>
     totpMatchStep (al_otp (le_lib E)) (ac_mfaSecret acc) code (unix E) \<noteq> None)"

definition first_factor_ok :: "login_env \<Rightarrow> login_request \<Rightarrow> login_state \<Rightarrow> account \<Rightarrow> bool" where
  "first_factor_ok E r st acc \<longleftrightarrow>
     (if lr_loginType r = ''sms'' then
        UserByPhone (trim_space (lr_username r)) (lg_cfg st) = Some acc \<and>
        (\<exists>e. map_of (lg_sms st) (trim_space (lr_username r)) = Some e \<and> le_now E < sms_expires e \<and>
             sms_code e = trim_space (lr_smsCode r))
      else \<exists>u. (UserByPhone (trim_space (lr_username r)) (lg_cfg st) = Some u \<or>
                UserByName (trim_space (lr_username r)) (lg_cfg st) = Some u) \<and>
               verifyPassword (le_hash E) (lr_password r) (ac_salt u) (ac_hash u) \<and>
               ac_username acc = ac_username u \<and> ac_mfaEnabled acc = ac_mfaEnabled u \<and>
               ac_mfaSecret acc = ac_mfaSecret u)"

lemma complete_login_full:
  assumes "completeLogin E acc pw code ip st = (st', LoggedIn)"
  shows "second_factor_ok E acc code \<and> \<not> ac_mustChange acc \<and> \<not> default_credentials acc pw \<and>
         (le_mfaRequired E \<longrightarrow> ac_mfaEnabled acc) \<and>
         map_of (au_sessions (lg_auth st')) (al_key (le_lib E) (le_token E)) =
           Some (new_session (le_now E) (ac_username acc))"
proof (cases "default_credentials acc pw \<and> \<not> ac_mustChange acc")
  case True
  then show ?thesis using assms
    by (auto simp: completeLogin_def split_beta Let_def dest!: issue_login_full split: if_splits totp_result.splits)
next
  case False
  show ?thesis
  proof (cases "ac_mfaEnabled acc")
    case True
    then obtain st1 where "issue_login E acc st1 = (st', LoggedIn)"
        and "snd (verifyAndConsumeTOTP (al_otp (le_lib E)) (al_order (le_lib E)) (unix E)
               (ac_username acc) (ac_mfaSecret acc) code (lg_auth st)) = TotpOK"
      using assms False
      by (auto simp: completeLogin_def split_beta Let_def split: if_splits totp_result.splits)
    then show ?thesis using False
      by (auto simp: second_factor_ok_def verifyAndConsumeTOTP_def dest!: issue_login_full split: option.splits)
  next
    case False
    with assms \<open>\<not> (default_credentials acc pw \<and> \<not> ac_mustChange acc)\<close>
    have "issue_login E acc st = (st', LoggedIn)" by (auto simp: completeLogin_def Let_def)
    then show ?thesis using \<open>\<not> (default_credentials acc pw \<and> \<not> ac_mustChange acc)\<close> False
      by (auto simp: second_factor_ok_def dest!: issue_login_full)
  qed
qed

lemma with_user_find:
  assumes "UserByName n c = Some u" and "\<And>u. ac_username (f u) = ac_username u"
  shows "UserByName n (fst (with_user n f c)) = Some (f u)"
proof -
  have "find (\<lambda>u. ac_username u = n) us = Some u \<Longrightarrow>
      find (\<lambda>u. ac_username u = n) (update_first (\<lambda>u. ac_username u = n) f us) = Some (f u)" for us
    using assms(2) by (induction us) (auto split: if_splits)
  then show ?thesis using assms(1) by (simp add: UserByName_def with_user_def)
qed

lemma CheckPassword_sound:
  assumes "snd (CheckPassword H name pw c) = Some acc"
  shows "\<exists>u. UserByName name c = Some u \<and> verifyPassword H pw (ac_salt u) (ac_hash u) \<and>
    ac_username acc = ac_username u \<and> ac_mfaEnabled acc = ac_mfaEnabled u \<and> ac_mfaSecret acc = ac_mfaSecret u"
proof -
  obtain u where u: "UserByName name c = Some u" "verifyPassword H pw (ac_salt u) (ac_hash u)"
    using assms by (auto simp: CheckPassword_def split: option.splits if_splits)
  let ?f = "\<lambda>u. if isLegacyHash (ac_hash u) then u\<lparr>ac_hash := hashPassword H pw (ac_salt u)\<rparr> else u"
  have "UserByName name (fst (upgradeLoginHash H name pw c)) = Some (?f u)"
    unfolding upgradeLoginHash_def by (rule with_user_find [OF u(1)]) simp
  then show ?thesis using assms u
    by (auto simp: CheckPassword_def split_beta Let_def split: if_splits)
qed

lemma account_gate_keeps: "account_gate E acc st = (st1, ok) \<Longrightarrow> lg_cfg st1 = lg_cfg st \<and> lg_sms st1 = lg_sms st"
  by (auto simp: account_gate_def split_beta Let_def)

lemma authenticated_factor:
  assumes "(if lr_loginType r = ''sms'' then authenticateSMSLogin E (lr_username r) (lr_smsCode r) ip st
            else authenticateAccountLogin E (lr_username r) (lr_password r) ip st) = (st1, Inr acc)"
  shows "first_factor_ok E r st acc"
proof (cases "lr_loginType r = ''sms''")
  case True
  then show ?thesis using assms
    by (auto simp: first_factor_ok_def authenticateSMSLogin_def Let_def split_beta account_gate_def
        split: option.splits if_splits)
next
  case False
  then show ?thesis using assms
    by (auto simp: first_factor_ok_def authenticateAccountLogin_def authenticatePhoneLogin_def
        authenticateUsernameLogin_def Let_def split_beta split: option.splits if_splits
        dest!: CheckPassword_sound)
qed

lemma auth_not_logged:
  "(if lr_loginType r = ''sms'' then authenticateSMSLogin E (lr_username r) (lr_smsCode r) ip st
    else authenticateAccountLogin E (lr_username r) (lr_password r) ip st) \<noteq> (st1, Inl LoggedIn)"
  by (auto simp: authenticateSMSLogin_def authenticateAccountLogin_def authenticatePhoneLogin_def
      authenticateUsernameLogin_def Let_def split_beta split: option.splits)


text \<open>The two other handlers that issue a full session ask for no second factor: a password change turns
  the session that only allows one into a full one, where the policy requires MFA and the account has none
  too, and so does the return from a provider of single sign-on.\<close>

lemma password_change_skips_mfa:
  assumes "currentUser (al_key (le_lib E)) (le_now E) cookie proxyUser st = Some acc"
    and "verifyPassword (le_hash E) old (ac_salt acc) (ac_hash acc)"
    and "validatePasswordStrength (runes (trim_space new)) (trim_space new)"
  shows "snd (handleSetPassword E runes salt cookie proxyUser (Some (old, new)) st) = PwChanged \<and>
         map_of (au_sessions (lg_auth (fst (handleSetPassword E runes salt cookie proxyUser (Some (old, new)) st))))
           (al_key (le_lib E) (le_token E)) = Some (new_session (le_now E) (ac_username acc))"
  using assms by (simp add: handleSetPassword_def issueSession_def store_session_def update_conv' Let_def)

lemma sso_skips_mfa:
  "map_of (au_sessions (lg_auth (finishSSOLogin E user st))) (al_key (le_lib E) (le_token E)) =
     Some (new_session (le_now E) user)"
  by (simp add: finishSSOLogin_def issueSession_def store_session_def update_conv')

lemma username_login_outcome:
  assumes "snd (loginAllowed (unix E) ip (lg_auth st))" and "lr_loginType r = ''username''"
    and "\<not> looksLikePhone (trim_space (lr_username r))"
    and "UserByName (trim_space (lr_username r)) (lg_cfg st) = Some u"
    and "\<not> isLegacyHash (ac_hash u)" and "\<not> ac_mfaEnabled u" and "\<not> ac_mustChange u"
    and "\<not> le_mfaRequired E" and "\<not> default_credentials u (lr_password r)"
  shows "snd (handleLogin E ip (Some r) st) =
     (if verifyPassword (le_hash E) (lr_password r) (ac_salt u) (ac_hash u) then LoggedIn else InvalidCredentials)"
proof -
  let ?st = "st\<lparr>lg_auth := fst (loginAllowed (unix E) ip (lg_auth st))\<rparr>"
  have check: "CheckPassword (le_hash E) (trim_space (lr_username r)) (lr_password r) (lg_cfg st) =
      (lg_cfg st, if verifyPassword (le_hash E) (lr_password r) (ac_salt u) (ac_hash u) then Some u else None)"
    using assms(4,5) by (simp add: CheckPassword_def)
  have "\<exists>st1. authenticateAccountLogin E (lr_username r) (lr_password r) ip ?st =
      (st1, if verifyPassword (le_hash E) (lr_password r) (ac_salt u) (ac_hash u) then Inr u else Inl InvalidCredentials)"
    using assms(3) by (simp add: authenticateAccountLogin_def authenticateUsernameLogin_def check Let_def)
  then obtain st1 where auth: "authenticateAccountLogin E (lr_username r) (lr_password r) ip ?st =
      (st1, if verifyPassword (le_hash E) (lr_password r) (ac_salt u) (ac_hash u) then Inr u else Inl InvalidCredentials)"
    by blast
  have "snd (completeLogin E u (lr_password r) (lr_code r) ip st1) = LoggedIn"
    using assms(6-9) by (simp add: completeLogin_def issue_login_def Let_def)
  then show ?thesis using assms(1,2) auth
    by (simp add: handleLogin_def split_beta Let_def)
qed

text \<open>The throttle per account is not consulted when a user name logs in: however many failures the
  account has collected, from however many addresses, a guess from an address with room is still
  evaluated, and the right password logs in at once.\<close>

theorem username_login_unthrottled:
  assumes "\<not> snd (loginAccountAllowed (unix E) (trim_space (lr_username r)) (lg_auth st))"
    and "snd (loginAllowed (unix E) ip (lg_auth st))" and "lr_loginType r = ''username''"
    and "\<not> looksLikePhone (trim_space (lr_username r))"
    and "UserByName (trim_space (lr_username r)) (lg_cfg st) = Some u"
    and "\<not> isLegacyHash (ac_hash u)" and "\<not> ac_mfaEnabled u" and "\<not> ac_mustChange u"
    and "\<not> le_mfaRequired E" and "\<not> default_credentials u (lr_password r)"
  shows "snd (handleLogin E ip (Some r) st) =
     (if verifyPassword (le_hash E) (lr_password r) (ac_salt u) (ac_hash u) then LoggedIn else InvalidCredentials)"
  by (rule username_login_outcome [OF assms(2-)])

definition demo_hash :: hash_lib where
  "demo_hash = \<lparr>hmac256 = (\<lambda>k m. replicate 32 0), sha256 = (\<lambda>m. m)\<rparr>"

definition demo_user :: account where
  "demo_user = blank_account\<lparr>ac_username := ''ann'', ac_salt := ''s'', ac_hash := ''pbkdf2$'', ac_role := ''viewer''\<rparr>"

definition demo_login :: login_state where
  "demo_login = \<lparr>lg_auth = NewAuth\<lparr>au_loginHitUser := [(''ann'', replicate 10 0)]\<rparr>,
     lg_cfg = \<lparr>uc_users = [demo_user], uc_account = blank_account\<rparr>, lg_sms = []\<rparr>"

definition demo_env :: login_env where
  "demo_env = \<lparr>le_hash = demo_hash, le_lib = \<lparr>al_key = (\<lambda>s. s), al_order = (\<lambda>ks. ks), al_otp = demo_otp\<rparr>,
     le_now = 0, le_token = ''t'', le_mfaRequired = False\<rparr>"

lemma username_login_unthrottled_witness:
  "\<not> snd (loginAccountAllowed 0 ''ann'' (lg_auth demo_login)) \<and>
   snd (handleLogin demo_env ''10.0.0.9''
     (Some \<lparr>lr_username = ''ann'', lr_password = ''guess'', lr_loginType = ''username'', lr_code = [], lr_smsCode = []\<rparr>)
     demo_login) \<noteq> TooManyAttempts"
proof -
  let ?r = "\<lparr>lr_username = ''ann'', lr_password = ''guess'', lr_loginType = ''username'', lr_code = [], lr_smsCode = []\<rparr>"
  have ann: "trim_space ''ann'' = ''ann''" "to_lower ''ann'' = ''ann''"
    by (simp_all add: trim_space_def is_space_def to_lower_def lower_char_def)
  have "filter (\<lambda>t. - 900 \<le> t) (replicate 10 (0::int)) = replicate 10 0" by (simp add: filter_replicate)
  then have blocked: "\<not> snd (loginAccountAllowed 0 ''ann'' (lg_auth demo_login))"
    by (simp add: loginAccountAllowed_def account_key_def ann demo_login_def pruned_hits_def get_or_def
        loginAccountWindowSec_def loginAccountMaxFail_def Let_def)
  have "snd (handleLogin demo_env ''10.0.0.9'' (Some ?r) demo_login) =
      (if verifyPassword demo_hash ''guess'' ''s'' ''pbkdf2$'' then LoggedIn else InvalidCredentials)"
    using username_login_unthrottled [of demo_env ?r demo_login "''10.0.0.9''" demo_user] blocked
    by (simp add: demo_env_def unix_def ann demo_login_def UserByName_def demo_user_def blank_account_def
        isLegacyHash_def has_prefix_def hash_prefix_def default_credentials_def looksLikePhone_def
        loginAllowed_def pruned_hits_def get_or_def NewAuth_def loginMaxFailures_def Let_def)
  then show ?thesis using blocked by simp
qed

definition demo_ok_user :: account where
  "demo_ok_user = demo_user\<lparr>ac_hash := hashPassword demo_hash ''pw'' ''s''\<rparr>"

definition demo_ok_login :: login_state where
  "demo_ok_login = demo_login\<lparr>lg_cfg := \<lparr>uc_users = [demo_ok_user], uc_account = blank_account\<rparr>\<rparr>"

definition demo_ok_request :: login_request where
  "demo_ok_request = \<lparr>lr_username = ''ann'', lr_password = ''pw'', lr_loginType = ''username'', lr_code = [], lr_smsCode = []\<rparr>"

lemma demo_logs_in: "snd (handleLogin demo_env ''10.0.0.9'' (Some demo_ok_request) demo_ok_login) = LoggedIn"
proof -
  have ann: "trim_space ''ann'' = ''ann''" by (simp add: trim_space_def is_space_def)
  have "hash_lib_ok demo_hash" by (simp add: hash_lib_ok_def demo_hash_def)
  from verify_own_hash [OF this]
  have "verifyPassword demo_hash ''pw'' ''s'' (ac_hash demo_ok_user)" "\<not> isLegacyHash (ac_hash demo_ok_user)"
    by (simp_all add: demo_ok_user_def)
  moreover have "snd (handleLogin demo_env ''10.0.0.9'' (Some demo_ok_request) demo_ok_login) =
      (if verifyPassword demo_hash ''pw'' ''s'' (ac_hash demo_ok_user) then LoggedIn else InvalidCredentials)"
    using username_login_outcome [of demo_env "''10.0.0.9''" demo_ok_login demo_ok_request demo_ok_user] calculation(2)
    by (simp add: demo_ok_request_def demo_env_def unix_def ann demo_ok_login_def demo_login_def UserByName_def
        demo_ok_user_def demo_user_def blank_account_def default_credentials_def looksLikePhone_def
        loginAllowed_def pruned_hits_def get_or_def NewAuth_def loginMaxFailures_def Let_def)
  ultimately show ?thesis by simp
qed


section \<open>The terminal password locks\<close>

text \<open>The lock table and the counters are small enough not to be capped.\<close>

definition term_ok :: "nat \<Rightarrow> auth \<Rightarrow> bool" where
  "term_ok k a \<longleftrightarrow> keys_distinct (au_termLocked a) \<and> keys_distinct (au_termAttempts a) \<and>
     length (au_termLocked a) \<le> k \<and> length (au_termAttempts a) \<le> k"

definition locked_until :: "string \<Rightarrow> int \<Rightarrow> auth \<Rightarrow> bool" where
  "locked_until user til a \<longleftrightarrow> map_of (au_termLocked a) user = Some til"

fun lock_safe :: "string \<Rightarrow> int \<Rightarrow> auth_event \<Rightarrow> bool" where
  "lock_safe user til (EvTermCheck t u) \<longleftrightarrow> t < til"
| "lock_safe user til (EvTermReset u) \<longleftrightarrow> u \<noteq> user"
| "lock_safe user til e \<longleftrightarrow> True"

lemma without_size: "length (without ks m) \<le> length m"
  by (simp add: without_def)

lemma unlock_ok: "term_ok k a \<Longrightarrow> term_ok k (unlock_expired t a)"
  by (auto simp: term_ok_def unlock_expired_def Let_def intro: le_trans [OF without_size])

lemma check_uncapped:
  assumes "term_ok k a" and "k \<le> maxTermAttempts"
  shows "terminalAttemptAllowed ord t user a =
    (let b = unlock_expired t a; n = get_or 0 (au_termAttempts b) user in
     if (case map_of (au_termLocked b) user of None \<Rightarrow> False | Some til \<Rightarrow> t < til) then (b, False, 0)
     else if termMaxAttempts \<le> n
     then (b\<lparr>au_termLocked := AList.update user (t + seconds termLockoutSec) (au_termLocked b),
             au_termAttempts := AList.delete user (au_termAttempts b)\<rparr>, False, 0)
     else (b, True, termMaxAttempts - n))"
proof -
  have "term_ok k (unlock_expired t a)" by (rule unlock_ok [OF assms(1)])
  then have "capStringMap ord maxTermAttempts (au_termAttempts (unlock_expired t a)) = au_termAttempts (unlock_expired t a)"
    "capStringMap ord maxTermAttempts (au_termLocked (unlock_expired t a)) = au_termLocked (unlock_expired t a)"
    using assms(2) by (simp_all add: cap_small term_ok_def)
  then show ?thesis by (simp add: terminalAttemptAllowed_def Let_def)
qed

lemma unlock_lookup:
  assumes "term_ok k a"
  shows "map_of (au_termLocked a) user = None \<Longrightarrow> map_of (au_termLocked (unlock_expired t a)) user = None"
    and "map_of (au_termLocked a) user = None \<Longrightarrow>
         get_or d (au_termAttempts (unlock_expired t a)) user = get_or d (au_termAttempts a) user"
    and "map_of (au_termLocked a) user = Some til \<Longrightarrow> t \<le> til \<Longrightarrow>
         map_of (au_termLocked (unlock_expired t a)) user = Some til"
proof -
  have d: "keys_distinct (au_termLocked a)" "keys_distinct (au_termAttempts a)" using assms by (simp_all add: term_ok_def)
  let ?gone = "map fst (filter (\<lambda>e. snd e < t) (au_termLocked a))"
  have gone: "user \<in> set ?gone \<longleftrightarrow> (\<exists>til. map_of (au_termLocked a) user = Some til \<and> til < t)"
    using d(1) by (force simp: map_of_eq_Some_iff)
  show "map_of (au_termLocked a) user = None \<Longrightarrow> map_of (au_termLocked (unlock_expired t a)) user = None"
    "map_of (au_termLocked a) user = None \<Longrightarrow>
       get_or d (au_termAttempts (unlock_expired t a)) user = get_or d (au_termAttempts a) user"
    "map_of (au_termLocked a) user = Some til \<Longrightarrow> t \<le> til \<Longrightarrow>
       map_of (au_termLocked (unlock_expired t a)) user = Some til"
    using gone by (auto simp: unlock_expired_def map_of_without d get_or_def Let_def simp del: set_map)
qed

lemma lock_size:
  assumes "term_ok k a"
  shows "term_ok (Suc k) (a\<lparr>au_termLocked := AList.update u x (au_termLocked a),
           au_termAttempts := AList.delete u (au_termAttempts a)\<rparr>)"
    and "term_ok (Suc k) (a\<lparr>au_termAttempts := AList.update u y (au_termAttempts a)\<rparr>)"
    and "term_ok (Suc k) a"
    and "term_ok (Suc k) (a\<lparr>au_termAttempts := AList.delete u (au_termAttempts a),
           au_termLocked := AList.delete u (au_termLocked a)\<rparr>)"
  using assms length_map_delete [of u "au_termAttempts a"] length_map_delete [of u "au_termLocked a"]
  by (auto simp: term_ok_def length_map_update intro: distinct_update distinct_delete)

lemma check_ok:
  assumes "term_ok k a" and "k \<le> maxTermAttempts"
  shows "term_ok (Suc k) (fst (terminalAttemptAllowed ord t u a))"
  using lock_size [OF unlock_ok [OF assms(1)]] by (auto simp: check_uncapped [OF assms] Let_def)

lemma check_locked:
  assumes "term_ok k a" and "k \<le> maxTermAttempts" and "locked_until user til a" and "t < til"
  shows "locked_until user til (fst (terminalAttemptAllowed ord t u a))"
    and "\<not> fst (snd (terminalAttemptAllowed ord t user a))"
proof -
  have l: "map_of (au_termLocked (unlock_expired t a)) user = Some til"
    using unlock_lookup(3) [OF assms(1)] assms(3,4) by (simp add: locked_until_def)
  then show "locked_until user til (fst (terminalAttemptAllowed ord t u a))"
    "\<not> fst (snd (terminalAttemptAllowed ord t user a))"
    using assms(4) by (auto simp: check_uncapped [OF assms(1,2)] locked_until_def Let_def update_conv')
qed

lemma term_step:
  assumes "term_ok k a" and "k \<le> maxTermAttempts"
  shows "term_ok (Suc k) (auth_step L a e)"
proof (cases e)
  case (EvTermCheck t u)
  then show ?thesis using check_ok [OF assms] by simp
next
  case (EvTermFail u)
  then show ?thesis using lock_size(2) [OF assms(1)] by (simp add: terminalAttemptFailed_def)
next
  case (EvTermReset u)
  then show ?thesis using lock_size(4) [OF assms(1)] by (simp add: terminalAttemptReset_def)
qed (use lock_size(3) [OF assms(1)] in \<open>auto simp: term_ok_def session_ops other_ops split_beta Let_def
      split: option.split\<close>)

lemma locked_step:
  assumes "term_ok k a" and "k \<le> maxTermAttempts" and "locked_until user til a" and "lock_safe user til e"
  shows "locked_until user til (auth_step L a e)"
proof (cases e)
  case (EvTermCheck t u)
  then show ?thesis using check_locked(1) [OF assms(1-3)] assms(4) by simp
next
  case (EvTermReset u)
  then show ?thesis using assms(3,4) by (simp add: terminalAttemptReset_def locked_until_def delete_conv')
qed (use assms(3) in \<open>auto simp: locked_until_def session_ops terminalAttemptFailed_def generateProxyToken_def
      validateProxyToken_def loginAllowed_def loginFailed_def loginAccountAllowed_def loginAccountFailed_def
      loginAccountReset_def verifyAndConsumeTOTP_def checkTOTP_def consumeTOTPStep_def split_beta Let_def
      split: option.split\<close>)

lemma locked_run:
  "term_ok k a \<Longrightarrow> k + length es \<le> maxTermAttempts \<Longrightarrow> locked_until user til a \<Longrightarrow> \<forall>e\<in>set es. lock_safe user til e \<Longrightarrow>
   locked_until user til (run (auth_step L) a es) \<and> term_ok (k + length es) (run (auth_step L) a es)"
proof (induction es arbitrary: a k)
  case Nil
  then show ?case by simp
next
  case (Cons e es)
  have "k \<le> maxTermAttempts" using Cons.prems(2) by simp
  from term_step [OF Cons.prems(1) this, of L e] locked_step [OF Cons.prems(1) this Cons.prems(3), of e L]
  show ?case using Cons.IH [of "Suc k" "auth_step L a e"] Cons.prems by simp
qed

definition fresh_count :: "string \<Rightarrow> int \<Rightarrow> auth \<Rightarrow> bool" where
  "fresh_count user n a \<longleftrightarrow> map_of (au_termLocked a) user = None \<and> get_or 0 (au_termAttempts a) user = n"

lemma wrong_try:
  assumes "term_ok k a" and "k \<le> maxTermAttempts" and "fresh_count user n a" and "n < 3"
    and "HasTerminalPassword user cfg" and "\<not> VerifyTerminalPassword H user w cfg"
  shows "term_ok (Suc k) (fst (handleTerminalPasswordVerify H L t cfg user c (Some w) a)) \<and>
         fresh_count user (n + 1) (fst (handleTerminalPasswordVerify H L t cfg user c (Some w) a))"
proof -
  let ?b = "unlock_expired t a"
  have b: "map_of (au_termLocked ?b) user = None" "get_or 0 (au_termAttempts ?b) user = n"
    using unlock_lookup(1,2) [OF assms(1)] assms(3) by (simp_all add: fresh_count_def)
  then have "fst (handleTerminalPasswordVerify H L t cfg user c (Some w) a) = terminalAttemptFailed user ?b"
    using assms(4-6) check_uncapped [OF assms(1,2), of "al_order L" t user]
    by (simp add: handleTerminalPasswordVerify_def termMaxAttempts_def Let_def)
  then show ?thesis
    using b lock_size(2) [OF unlock_ok [OF assms(1)]]
    by (simp add: terminalAttemptFailed_def fresh_count_def get_or_update)
qed

text \<open>C21. Three wrong terminal passwords lock the account: the next request is refused whatever it sends,
  and so is every request in the 300 seconds after it, whatever other requests come in between (4096
  accounts fit the tables; the operator's explicit reset is excepted).\<close>

theorem terminal_lockout:
  assumes "term_ok k a" and "k + 4 + length es \<le> maxTermAttempts" and "fresh_count user 0 a"
    and "HasTerminalPassword user cfg"
    and "\<forall>w\<in>{w1, w2, w3}. \<not> VerifyTerminalPassword H user w cfg"
    and "a3 = fst (handleTerminalPasswordVerify H L t3 cfg user c (Some w3)
               (fst (handleTerminalPasswordVerify H L t2 cfg user c (Some w2)
                 (fst (handleTerminalPasswordVerify H L t1 cfg user c (Some w1) a)))))"
    and "\<forall>e\<in>set es. lock_safe user (t4 + seconds 300) e" and "t5 < t4 + seconds 300"
  shows "snd (handleTerminalPasswordVerify H L t4 cfg user c body a3) = TermLocked \<and>
         snd (handleTerminalPasswordVerify H L t5 cfg user c body'
               (run (auth_step L) (fst (handleTerminalPasswordVerify H L t4 cfg user c body a3)) es)) = TermLocked"
proof -
  have k: "k \<le> maxTermAttempts" "Suc k \<le> maxTermAttempts" "Suc (Suc k) \<le> maxTermAttempts"
    "Suc (Suc (Suc k)) \<le> maxTermAttempts" using assms(2) by simp_all
  from wrong_try [OF assms(1) k(1) assms(3) _ assms(4), of H w1 L t1 c] assms(5)
  have s1: "term_ok (Suc k) (fst (handleTerminalPasswordVerify H L t1 cfg user c (Some w1) a))"
    "fresh_count user 1 (fst (handleTerminalPasswordVerify H L t1 cfg user c (Some w1) a))" by simp_all
  from wrong_try [OF s1(1) k(2) s1(2) _ assms(4), of H w2 L t2 c] assms(5)
  have s2: "term_ok (Suc (Suc k)) (fst (handleTerminalPasswordVerify H L t2 cfg user c (Some w2)
      (fst (handleTerminalPasswordVerify H L t1 cfg user c (Some w1) a))))"
    "fresh_count user 2 (fst (handleTerminalPasswordVerify H L t2 cfg user c (Some w2)
      (fst (handleTerminalPasswordVerify H L t1 cfg user c (Some w1) a))))" by simp_all
  from wrong_try [OF s2(1) k(3) s2(2) _ assms(4), of H w3 L t3 c] assms(5)
  have s3: "term_ok (Suc (Suc (Suc k))) a3" "fresh_count user 3 a3" unfolding assms(6) by simp_all
  let ?b = "unlock_expired t4 a3" and ?a4 = "fst (handleTerminalPasswordVerify H L t4 cfg user c body a3)"
  have b: "map_of (au_termLocked ?b) user = None" "get_or 0 (au_termAttempts ?b) user = 3"
    using unlock_lookup(1,2) [OF s3(1)] s3(2) by (simp_all add: fresh_count_def)
  then have four: "handleTerminalPasswordVerify H L t4 cfg user c body a3 =
      (?b\<lparr>au_termLocked := AList.update user (t4 + seconds 300) (au_termLocked ?b),
          au_termAttempts := AList.delete user (au_termAttempts ?b)\<rparr>, TermLocked)"
    using assms(4) check_uncapped [OF s3(1) k(4), of "al_order L" t4 user]
    by (simp add: handleTerminalPasswordVerify_def termMaxAttempts_def termLockoutSec_def Let_def)
  have a4: "locked_until user (t4 + seconds 300) ?a4" "term_ok (Suc (Suc (Suc (Suc k)))) ?a4"
    using lock_size(1) [OF unlock_ok [OF s3(1)]] by (simp_all add: four locked_until_def update_conv')
  have "Suc (Suc (Suc (Suc k))) + length es \<le> maxTermAttempts" using assms(2) by simp
  from locked_run [OF a4(2) this a4(1) assms(7), of L]
  have last: "locked_until user (t4 + seconds 300) (run (auth_step L) ?a4 es)"
    "term_ok (Suc (Suc (Suc (Suc k))) + length es) (run (auth_step L) ?a4 es)" by simp_all
  have "\<not> fst (snd (terminalAttemptAllowed (al_order L) t5 user (run (auth_step L) ?a4 es)))"
    by (rule check_locked(2) [OF last(2) _ last(1) assms(8)]) (use assms(2) in simp)
  then have "snd (handleTerminalPasswordVerify H L t5 cfg user c body' (run (auth_step L) ?a4 es)) = TermLocked"
    using assms(4) by (simp add: handleTerminalPasswordVerify_def split_beta Let_def)
  then show ?thesis using four by simp
qed

definition demo_term_cfg :: user_cfg where
  "demo_term_cfg = \<lparr>uc_users = [demo_user\<lparr>ac_terminalHash := ''x''\<rparr>], uc_account = blank_account\<rparr>"

definition demo_try :: "int \<Rightarrow> string \<Rightarrow> auth \<Rightarrow> auth \<times> terminal_reply" where
  "demo_try t w a = handleTerminalPasswordVerify demo_hash (le_lib demo_env) t demo_term_cfg ''ann'' None (Some w) a"

lemma terminal_lockout_witness:
  "snd (demo_try 4 ''right'' (fst (demo_try 3 ''c'' (fst (demo_try 2 ''b'' (fst (demo_try 1 ''a'' NewAuth))))))) = TermLocked"
proof -
  have "HasTerminalPassword ''ann'' demo_term_cfg" "\<not> VerifyTerminalPassword demo_hash ''ann'' w demo_term_cfg" for w
    by (simp_all add: HasTerminalPassword_def VerifyTerminalPassword_def UserByName_def demo_user_def
        blank_account_def demo_term_cfg_def)
  then show ?thesis unfolding demo_try_def
    using terminal_lockout [of 0 NewAuth "[]" "''ann''" demo_term_cfg "''a''" "''b''" "''c''" demo_hash _
        "le_lib demo_env" 3 None 2 1 4 4 "Some ''right''"]
    by (simp add: term_ok_def NewAuth_def maxTermAttempts_def fresh_count_def get_or_def seconds_def)
qed

end
