(* ===== verification/Base64.thy ===== *)
theory Base64
  imports GoPrelude
begin

text \<open>
  Go's \<open>base64.StdEncoding\<close>, which the program uses to put sealed secrets into text: the padded
  encoding of RFC 4648 and its decoder, which skips line breaks and rejects everything else that
  is not a group of four letters of the alphabet with at most two pads at the end.
\<close>

definition b64_char :: "nat \<Rightarrow> char" where
  "b64_char n =
     char_of (if n < 26 then 65 + n else if n < 52 then 71 + n else if n < 62 then n - 4
              else if n = 62 then 43 else 47)"

definition b64_val :: "char \<Rightarrow> nat option" where
  "b64_val c =
     (let n = of_char c :: nat in
      if 65 \<le> n \<and> n \<le> 90 then Some (n - 65)
      else if 97 \<le> n \<and> n \<le> 122 then Some (n - 71)
      else if 48 \<le> n \<and> n \<le> 57 then Some (n + 4)
      else if n = 43 then Some 62
      else if n = 47 then Some 63 else None)"

definition b64_pack :: "byte \<Rightarrow> byte \<Rightarrow> byte \<Rightarrow> nat" where
  "b64_pack a b c = unat a * 65536 + unat b * 256 + unat c"

definition b64_quad :: "nat \<Rightarrow> string" where
  "b64_quad v = map b64_char [v div 262144, v div 4096 mod 64, v div 64 mod 64, v mod 64]"

fun b64_encode :: "bytes \<Rightarrow> string" where
  "b64_encode [] = []"
| "b64_encode [a] = take 2 (b64_quad (b64_pack a 0 0)) @ ''==''"
| "b64_encode [a, b] = take 3 (b64_quad (b64_pack a b 0)) @ ''=''"
| "b64_encode (a # b # c # rest) = b64_quad (b64_pack a b c) @ b64_encode rest"

definition b64_bytes :: "nat \<Rightarrow> bytes" where
  "b64_bytes v = [word_of_nat (v div 65536), word_of_nat (v div 256 mod 256), word_of_nat (v mod 256)]"

fun b64_join :: "nat list \<Rightarrow> nat" where
  "b64_join ds = foldl (\<lambda>acc d. acc * 64 + d) 0 ds"

definition b64_last :: "char \<Rightarrow> char \<Rightarrow> char \<Rightarrow> char \<Rightarrow> bytes option" where
  "b64_last w x y z =
     (case (b64_val w, b64_val x) of
        (Some p, Some q) \<Rightarrow>
          if z = CHR ''='' then
            if y = CHR ''='' then Some (take 1 (b64_bytes (b64_join [p, q, 0, 0])))
            else (case b64_val y of None \<Rightarrow> None
                  | Some r \<Rightarrow> Some (take 2 (b64_bytes (b64_join [p, q, r, 0]))))
          else (case (b64_val y, b64_val z) of
                  (Some r, Some s) \<Rightarrow> Some (b64_bytes (b64_join [p, q, r, s]))
                | _ \<Rightarrow> None)
      | _ \<Rightarrow> None)"

fun b64_groups :: "string \<Rightarrow> bytes option" where
  "b64_groups [] = Some []"
| "b64_groups [w, x, y, z] = b64_last w x y z"
| "b64_groups (w # x # y # z # rest) =
     (case (b64_val w, b64_val x, b64_val y, b64_val z, b64_groups rest) of
        (Some p, Some q, Some r, Some s, Some bs) \<Rightarrow> Some (b64_bytes (b64_join [p, q, r, s]) @ bs)
      | _ \<Rightarrow> None)"
| "b64_groups _ = None"

definition b64_decode :: "string \<Rightarrow> bytes option" where
  "b64_decode s = b64_groups (filter (\<lambda>c. c \<noteq> CHR 0x0A \<and> c \<noteq> CHR 0x0D) s)"

section \<open>Decoding undoes encoding\<close>

lemma b64_char_code: "n < 64 \<Longrightarrow> (of_char (b64_char n) :: nat) =
    (if n < 26 then 65 + n else if n < 52 then 71 + n else if n < 62 then n - 4 else if n = 62 then 43 else 47)"
  by (simp add: b64_char_def of_char_of)

lemma b64_val_char: "n < 64 \<Longrightarrow> b64_val (b64_char n) = Some n"
  by (simp add: b64_val_def Let_def b64_char_code) auto

lemma b64_char_plain:
  assumes "n < 64"
  shows "b64_char n \<noteq> CHR ''=''" and "b64_char n \<noteq> CHR 0x0A" and "b64_char n \<noteq> CHR 0x0D"
proof -
  have "b64_val (CHR ''='') = None" and "b64_val (CHR 0x0A) = None" and "b64_val (CHR 0x0D) = None"
    by (simp_all add: b64_val_def)
  then show "b64_char n \<noteq> CHR ''=''" and "b64_char n \<noteq> CHR 0x0A" and "b64_char n \<noteq> CHR 0x0D"
    using b64_val_char [OF assms] by force+
qed

lemma b64_pack_less: "b64_pack a b c < 16777216"
  unfolding b64_pack_def using unat_byte_less [of a] unat_byte_less [of b] unat_byte_less [of c] by simp

lemma b64_digits: "v < 16777216 \<Longrightarrow> v div 262144 < 64 \<and> v div 4096 mod 64 < 64 \<and> v div 64 mod 64 < 64 \<and> v mod 64 < (64 :: nat)"
  by simp

lemma b64_join_digits: "b64_join [v div 262144, v div 4096 mod 64, v div 64 mod 64, v mod 64] = v"
proof -
  have "v div 4096 = v div 262144 * 64 + v div 4096 mod 64"
    using div_mult_mod_eq [of "v div 4096" 64] by (simp add: div_mult2_eq [symmetric])
  moreover have "v div 64 = v div 4096 * 64 + v div 64 mod 64"
    using div_mult_mod_eq [of "v div 64" 64] by (simp add: div_mult2_eq [symmetric])
  moreover have "v = v div 64 * 64 + v mod 64" by simp
  ultimately show ?thesis by simp
qed

lemma div_mod_byte: "(c :: nat) < 256 \<Longrightarrow> (x * 256 + c) div 256 = x \<and> (x * 256 + c) mod 256 = c"
  by simp

lemma b64_bytes_pack: "b64_bytes (b64_pack a b c) = [a, b, c]"
proof -
  let ?v = "(unat a * 256 + unat b) * 256 + unat c"
  have v: "b64_pack a b c = ?v" by (simp add: b64_pack_def)
  have hi: "?v div 256 = unat a * 256 + unat b" and lo: "?v mod 256 = unat c"
    using div_mod_byte [OF unat_byte_less [of c]] by blast+
  have "?v div 65536 = ?v div 256 div 256" by (simp only: div_mult2_eq [symmetric]) simp
  then have "?v div 65536 = unat a" using div_mod_byte [OF unat_byte_less [of b]] by (simp only: hi)
  moreover have "?v div 256 mod 256 = unat b" using div_mod_byte [OF unat_byte_less [of b]] by (simp only: hi)
  ultimately show ?thesis unfolding b64_bytes_def v by (simp only: lo) simp
qed

lemma b64_tail1: "b64_join [v div 262144, v div 4096 mod 64, 0, 0] = v div 4096 * 4096"
proof -
  have "v div 4096 = v div 262144 * 64 + v div 4096 mod 64"
    using div_mult_mod_eq [of "v div 4096" 64] by (simp add: div_mult2_eq [symmetric])
  then show ?thesis by simp
qed

lemma b64_pack_low:
  "b64_pack a 0 0 div 4096 * 4096 = b64_pack a 0 0" "b64_pack a b 0 mod 64 = 0"
  by (simp_all add: b64_pack_def)

lemma b64_encode_plain: "c \<in> set (b64_encode bs) \<Longrightarrow> c \<noteq> CHR 0x0A \<and> c \<noteq> CHR 0x0D"
proof (induction bs rule: b64_encode.induct)
  case (2 a)
  then show ?case using b64_digits [OF b64_pack_less [of a 0 0]] by (auto simp: b64_quad_def b64_char_plain)
next
  case (3 a b)
  then show ?case using b64_digits [OF b64_pack_less [of a b 0]] by (auto simp: b64_quad_def b64_char_plain)
next
  case (4 a b c rest)
  then show ?case using b64_digits [OF b64_pack_less [of a b c]] by (auto simp: b64_quad_def b64_char_plain)
qed simp

lemma b64_groups_quad:
  assumes "v < 16777216" and "b64_groups rest = Some bs"
  shows "b64_groups (b64_quad v @ rest) = Some (b64_bytes v @ bs)"
proof -
  note d = b64_digits [OF assms(1)]
  show ?thesis
  proof (cases rest)
    case Nil
    then show ?thesis using assms(2) d
      by (simp add: b64_quad_def b64_last_def b64_val_char b64_char_plain b64_join_digits del: b64_join.simps)
  next
    case (Cons c cs)
    then show ?thesis using assms(2) d
      by (simp add: b64_quad_def b64_val_char b64_join_digits del: b64_join.simps)
  qed
qed

lemma b64_groups_encode: "b64_groups (b64_encode bs) = Some bs"
proof (induction bs rule: b64_encode.induct)
  case (2 a)
  note d = b64_digits [OF b64_pack_less [of a 0 0]]
  then show ?case
    by (simp add: b64_quad_def b64_last_def b64_val_char b64_tail1 b64_pack_low b64_bytes_pack del: b64_join.simps)
next
  case (3 a b)
  note d = b64_digits [OF b64_pack_less [of a b 0]]
  have "b64_join [b64_pack a b 0 div 262144, b64_pack a b 0 div 4096 mod 64, b64_pack a b 0 div 64 mod 64, 0] = b64_pack a b 0"
    using b64_join_digits [of "b64_pack a b 0"] by (simp only: b64_pack_low(2))
  then show ?case using d
    by (simp add: b64_quad_def b64_last_def b64_val_char b64_char_plain b64_bytes_pack del: b64_join.simps)
next
  case (4 a b c rest)
  show ?case using b64_groups_quad [OF b64_pack_less "4.IH"] by (simp add: b64_bytes_pack)
qed simp

lemma b64_roundtrip: "b64_decode (b64_encode bs) = Some bs"
proof -
  have "filter (\<lambda>c. c \<noteq> CHR 0x0A \<and> c \<noteq> CHR 0x0D) (b64_encode bs) = b64_encode bs"
    by (simp add: filter_id_conv b64_encode_plain)
  then show ?thesis by (simp add: b64_decode_def b64_groups_encode)
qed

end
