(* ===== verification/SecretKeys.thy ===== *)
theory SecretKeys
  imports Base64 Password
begin

text \<open>
  The master keys of the server (\<open>cmd/server/crypto.go\<close>, \<open>cmd/server/crypto_v2.go\<close>,
  \<open>cmd/server/secret_rotate.go\<close>): the keys read from the environment, the text form of a sealed secret,
  and the rotation of the current key with its key store file.

  AES-GCM is of Go's library and enters as \<open>sl_seal\<close> and \<open>sl_open\<close> (key, nonce, text); SHA-256 comes
  with \<open>hash_lib\<close>. Random bytes are arguments, \<^term>\<open>None :: 'a option\<close> when the generator fails. An environment
  variable that is not set is the empty string, as \<open>os.Getenv\<close> has it.
\<close>

record secret_lib =
  sl_hash :: hash_lib
  sl_seal :: "bytes \<Rightarrow> bytes \<Rightarrow> bytes \<Rightarrow> bytes"
  sl_open :: "bytes \<Rightarrow> bytes \<Rightarrow> bytes \<Rightarrow> bytes option"

definition secret_lib_ok :: "secret_lib \<Rightarrow> bool" where
  "secret_lib_ok L \<longleftrightarrow> (\<forall>m. length (sha256 (sl_hash L) m) = 32) \<and>
     (\<forall>k n p. sl_open L k n (sl_seal L k n p) = Some p)"

record secret_env =
  env_key :: string
  env_key_id :: string
  env_prev :: string

record secretKeyEntry =
  sk_ID :: string
  sk_Key :: bytes

definition secretEncPrefix :: string where "secretEncPrefix = ''enc:v1:''"
definition secretEncPrefixV2 :: string where "secretEncPrefixV2 = ''enc:v2:''"

section \<open>The keys of the environment\<close>

definition deriveKeyFromPassphrase :: "hash_lib \<Rightarrow> string \<Rightarrow> bytes" where
  "deriveKeyFromPassphrase H pass = sha256 H (bytes_of_string pass)"

definition id_char :: "char \<Rightarrow> bool" where
  "id_char c = (let n = of_char c :: nat in
     (97 \<le> n \<and> n \<le> 122) \<or> (65 \<le> n \<and> n \<le> 90) \<or> (48 \<le> n \<and> n \<le> 57) \<or> n = 45 \<or> n = 95)"

definition currentSecretKeyID :: "secret_env \<Rightarrow> string" where
  "currentSecretKeyID E =
     (let i = trim_space (env_key_id E) in
      if i = [] then ''v1''
      else let j = filter id_char i in if j = [] then ''v1'' else j)"

definition loadSecretKey :: "hash_lib \<Rightarrow> secret_env \<Rightarrow> bytes option" where
  "loadSecretKey H E =
     (let raw = trim_space (env_key E) in
      if raw = [] then None else Some (sha256 H (bytes_of_string raw)))"

definition secretEncryptionEnabled :: "hash_lib \<Rightarrow> secret_env \<Rightarrow> bool" where
  "secretEncryptionEnabled H E \<longleftrightarrow> loadSecretKey H E \<noteq> None"

text \<open>The loop over the comma-separated \<open>id:passphrase\<close> pairs of \<open>AIOPS_SECRET_KEYS_PREV\<close>.\<close>

fun prev_keys :: "hash_lib \<Rightarrow> string list \<Rightarrow> string list \<Rightarrow> secretKeyEntry list" where
  "prev_keys H seen [] = []"
| "prev_keys H seen (raw # parts) =
     (let part = trim_space raw in
      if part = [] then prev_keys H seen parts
      else case index_of '':'' part of
             None \<Rightarrow> prev_keys H seen parts
           | Some idx \<Rightarrow>
               if idx = 0 \<or> length part - 1 \<le> idx then prev_keys H seen parts
               else let i = trim_space (take idx part); pass = drop (Suc idx) part in
                    if i = [] \<or> pass = [] \<or> i \<in> set seen then prev_keys H seen parts
                    else \<lparr>sk_ID = i, sk_Key = deriveKeyFromPassphrase H pass\<rparr> # prev_keys H (i # seen) parts)"

definition loadAllSecretKeys :: "hash_lib \<Rightarrow> secret_env \<Rightarrow> secretKeyEntry list" where
  "loadAllSecretKeys H E =
     (let raw = trim_space (env_key E);
          out = (if raw = [] then []
                 else [\<lparr>sk_ID = currentSecretKeyID E, sk_Key = deriveKeyFromPassphrase H raw\<rparr>]);
          prev = trim_space (env_prev E)
      in if prev = [] then out
         else out @ prev_keys H (map sk_ID out) (split_sep prev '',''))"

definition secretKeyStatus :: "hash_lib \<Rightarrow> secret_env \<Rightarrow> bool \<times> string \<times> string list" where
  "secretKeyStatus H E =
     (let keys = loadAllSecretKeys H E in (keys \<noteq> [], currentSecretKeyID E, map sk_ID keys))"

section \<open>Sealing and opening\<close>

definition nonceSize :: nat where "nonceSize = 12"

definition newGCM_ok :: "bytes \<Rightarrow> bool" where
  "newGCM_ok key \<longleftrightarrow> length key \<in> {16, 24, 32}"

definition tryOpenGCM :: "secret_lib \<Rightarrow> bytes \<Rightarrow> bytes \<Rightarrow> string" where
  "tryOpenGCM L key data =
     (if \<not> newGCM_ok key \<or> length data < nonceSize then []
      else case sl_open L key (take nonceSize data) (drop nonceSize data) of
             None \<Rightarrow> []
           | Some pt \<Rightarrow> string_of_bytes pt)"

fun first_open :: "secret_lib \<Rightarrow> bytes \<Rightarrow> secretKeyEntry list \<Rightarrow> string" where
  "first_open L data [] = []"
| "first_open L data (e # es) =
     (let pt = tryOpenGCM L (sk_Key e) data in if pt \<noteq> [] then pt else first_open L data es)"

definition isEncryptedSecret :: "string \<Rightarrow> bool" where
  "isEncryptedSecret v \<longleftrightarrow> has_prefix v secretEncPrefix \<or> has_prefix v secretEncPrefixV2"

definition encryptSecretV2 :: "secret_lib \<Rightarrow> secret_env \<Rightarrow> bytes option \<Rightarrow> string \<Rightarrow> string" where
  "encryptSecretV2 L E rnd plain =
     (if plain = [] \<or> isEncryptedSecret plain then plain
      else case loadAllSecretKeys (sl_hash L) E of
             [] \<Rightarrow> plain
           | primary # _ \<Rightarrow>
               if \<not> newGCM_ok (sk_Key primary) then []
               else case rnd of
                      None \<Rightarrow> []
                    | Some nonce \<Rightarrow>
                        secretEncPrefixV2 @ sk_ID primary @ '':'' @
                        b64_encode (nonce @ sl_seal L (sk_Key primary) nonce (bytes_of_string plain)))"

definition encryptSecret :: "secret_lib \<Rightarrow> secret_env \<Rightarrow> bytes option \<Rightarrow> string \<Rightarrow> string" where
  "encryptSecret L E rnd plain =
     (if plain = [] \<or> isEncryptedSecret plain then plain
      else if loadAllSecretKeys (sl_hash L) E \<noteq> [] then encryptSecretV2 L E rnd plain
      else plain)"

definition decryptSecretV2 :: "secret_lib \<Rightarrow> secret_env \<Rightarrow> string \<Rightarrow> string \<times> bool" where
  "decryptSecretV2 L E v =
     (if \<not> has_prefix v secretEncPrefixV2 then ([], False)
      else let rest = trim_prefix v secretEncPrefixV2 in
           case index_of '':'' rest of
             None \<Rightarrow> ([], True)
           | Some idx \<Rightarrow>
               if idx = 0 then ([], True)
               else let kid = take idx rest in
                    case b64_decode (drop (Suc idx) rest) of
                      None \<Rightarrow> ([], True)
                    | Some data \<Rightarrow>
                        let keys = loadAllSecretKeys (sl_hash L) E;
                            pt = first_open L data (filter (\<lambda>e. sk_ID e = kid) keys)
                        in if pt \<noteq> [] then (pt, True) else (first_open L data keys, True))"

definition decryptSecret :: "secret_lib \<Rightarrow> secret_env \<Rightarrow> string \<Rightarrow> string" where
  "decryptSecret L E v =
     (case decryptSecretV2 L E v of
        (pt, True) \<Rightarrow> pt
      | (_, False) \<Rightarrow>
          if \<not> has_prefix v secretEncPrefix then v
          else case b64_decode (trim_prefix v secretEncPrefix) of
                 None \<Rightarrow> []
               | Some data \<Rightarrow>
                   (case loadSecretKey (sl_hash L) E of
                      None \<Rightarrow> first_open L data (loadAllSecretKeys (sl_hash L) E)
                    | Some key \<Rightarrow>
                        let pt = tryOpenGCM L key data in
                        if pt \<noteq> [] then pt else first_open L data (loadAllSecretKeys (sl_hash L) E)))"

definition rewrapSecretIfNeeded :: "secret_lib \<Rightarrow> secret_env \<Rightarrow> bytes option \<Rightarrow> string \<Rightarrow> string" where
  "rewrapSecretIfNeeded L E rnd v =
     (let plain = decryptSecret L E v in if plain = [] \<or> plain = v then v else encryptSecret L E rnd plain)"

definition deriveLogKey :: "hash_lib \<Rightarrow> secret_env \<Rightarrow> string \<Rightarrow> bytes option" where
  "deriveLogKey H E fingerprint =
     (case loadSecretKey H E of
        None \<Rightarrow> None
      | Some master \<Rightarrow>
          if trim_space fingerprint = [] then None
          else Some (sha256 H (master @ bytes_of_string ('':logenc:v1:'' @ fingerprint))))"

section \<open>The key store file and the rotation\<close>

record secretKeyMaterial =
  km_ID :: string
  km_Passphrase :: string

record secretKeyStoreFile =
  kf_Current :: secretKeyMaterial
  kf_Previous :: "secretKeyMaterial list"
  kf_RotatedAt :: int
  kf_IntervalDay :: int

text \<open>
  The process: its environment, the store file (\<^term>\<open>None :: 'a option\<close> while it cannot be read), whether the
  \<open>sync.Once\<close> has run, the secrets of the configuration in memory and their sealed form on disk.
\<close>

record key_state =
  ks_env :: secret_env
  ks_file :: "secretKeyStoreFile option"
  ks_once :: bool
  ks_secrets :: "string list"
  ks_stored :: "string list"

definition applySecretKeyStoreToEnv :: "secretKeyStoreFile \<Rightarrow> secret_env \<Rightarrow> secret_env" where
  "applySecretKeyStoreToEnv st E =
     (if trim_space (km_Passphrase (kf_Current st)) = [] then E
      else let E1 = E\<lparr>env_key := km_Passphrase (kf_Current st)\<rparr>;
               E2 = (if km_ID (kf_Current st) \<noteq> [] then E1\<lparr>env_key_id := km_ID (kf_Current st)\<rparr> else E1);
               parts = map (\<lambda>p. km_ID p @ '':'' @ km_Passphrase p)
                 (filter (\<lambda>p. km_ID p \<noteq> [] \<and> km_Passphrase p \<noteq> []) (kf_Previous st))
           in if parts \<noteq> [] then E2\<lparr>env_prev := join '','' parts\<rparr> else E2)"

fun prev_materials :: "string list \<Rightarrow> secretKeyMaterial list" where
  "prev_materials [] = []"
| "prev_materials (raw # parts) =
     (let part = trim_space raw in
      case index_of '':'' part of
        None \<Rightarrow> prev_materials parts
      | Some idx \<Rightarrow>
          if idx = 0 then prev_materials parts
          else \<lparr>km_ID = trim_space (take idx part), km_Passphrase = drop (Suc idx) part\<rparr> # prev_materials parts)"

definition initSecretKeyStoreFromEnv :: "int \<Rightarrow> bool \<Rightarrow> key_state \<Rightarrow> key_state" where
  "initSecretKeyStoreFromEnv now write_ok s =
     (if ks_once s then s
      else let s1 = s\<lparr>ks_once := True\<rparr>; E = ks_env s; cur = trim_space (env_key E); prev = trim_space (env_prev E);
               seed = \<lparr>kf_Current = \<lparr>km_ID = currentSecretKeyID E, km_Passphrase = cur\<rparr>,
                       kf_Previous = (if prev = [] then [] else prev_materials (split_sep prev '','')),
                       kf_RotatedAt = now, kf_IntervalDay = 90\<rparr>;
               fresh = (if cur = [] then s1 else if write_ok then s1\<lparr>ks_file := Some seed\<rparr> else s1)
           in case ks_file s of
                None \<Rightarrow> fresh
              | Some st \<Rightarrow>
                  if km_Passphrase (kf_Current st) \<noteq> [] then s1\<lparr>ks_env := applySecretKeyStoreToEnv st E\<rparr> else fresh)"

datatype rotate_error = NoSecretKey | RandomFailed | StoreWriteFailed | ConfigSaveFailed

text \<open>
  What a rotation reads from outside: the clock as seconds and as the UTC date \<open>yyyymmdd\<close>, the new
  passphrase (hex of 32 random bytes), the nonces of the re-encryption and which writes succeed.
\<close>

record rotate_input =
  ri_now :: int
  ri_day :: string
  ri_pass :: "string option"
  ri_nonce :: "nat \<Rightarrow> bytes option"
  ri_init_write :: bool
  ri_store_write :: bool
  ri_config_write :: bool

definition save_config :: "secret_lib \<Rightarrow> (nat \<Rightarrow> bytes option) \<Rightarrow> key_state \<Rightarrow> key_state" where
  "save_config L nonce s =
     s\<lparr>ks_stored := map (\<lambda>i. encryptSecret L (ks_env s) (nonce i) (ks_secrets s ! i)) [0..<length (ks_secrets s)]\<rparr>"

definition rotation_base :: "key_state \<Rightarrow> secretKeyStoreFile option" where
  "rotation_base s =
     (let cur = trim_space (env_key (ks_env s));
          seed = (if cur = [] then None
                  else Some \<lparr>kf_Current = \<lparr>km_ID = currentSecretKeyID (ks_env s), km_Passphrase = cur\<rparr>,
                             kf_Previous = [], kf_RotatedAt = 0, kf_IntervalDay = 0\<rparr>)
      in case ks_file s of
           None \<Rightarrow> seed
         | Some st \<Rightarrow> if km_Passphrase (kf_Current st) = [] then seed else Some st)"

definition rotation_id :: "rotate_input \<Rightarrow> secretKeyStoreFile \<Rightarrow> string" where
  "rotation_id I st =
     (let newID = CHR ''v'' # ri_day I in
      if km_ID (kf_Current st) = newID then newID @ ''-'' @ show_int (ri_now I mod 1000) else newID)"

definition rotated_store :: "rotate_input \<Rightarrow> int \<Rightarrow> string \<Rightarrow> secretKeyStoreFile \<Rightarrow> secretKeyStoreFile" where
  "rotated_store I intervalDays pass st =
     \<lparr>kf_Current = \<lparr>km_ID = rotation_id I st, km_Passphrase = pass\<rparr>,
      kf_Previous = (if km_Passphrase (kf_Current st) \<noteq> [] then take 5 (kf_Current st # kf_Previous st) else kf_Previous st),
      kf_RotatedAt = ri_now I,
      kf_IntervalDay = (if 0 < intervalDays then intervalDays else if kf_IntervalDay st \<le> 0 then 90 else kf_IntervalDay st)\<rparr>"

definition rotateConfigSecretKey ::
    "secret_lib \<Rightarrow> rotate_input \<Rightarrow> int \<Rightarrow> key_state \<Rightarrow> key_state \<times> (rotate_error + string \<times> nat)" where
  "rotateConfigSecretKey L I intervalDays s0 =
     (let s = initSecretKeyStoreFromEnv (ri_now I) (ri_init_write I) s0 in
      case rotation_base s of
        None \<Rightarrow> (s, Inl NoSecretKey)
      | Some st0 \<Rightarrow>
          (case ri_pass I of
             None \<Rightarrow> (s, Inl RandomFailed)
           | Some pass \<Rightarrow>
               let st = rotated_store I intervalDays pass st0;
                   s1 = s\<lparr>ks_env := applySecretKeyStoreToEnv st (ks_env s)\<rparr>
               in if \<not> ri_store_write I then (s1, Inl StoreWriteFailed)
                  else let s2 = s1\<lparr>ks_file := Some st\<rparr> in
                       if \<not> ri_config_write I then (s2, Inl ConfigSaveFailed)
                       else (save_config L (ri_nonce I) s2, Inr (km_ID (kf_Current st), length (kf_Previous st)))))"

definition handleRotateSecretKey ::
    "secret_lib \<Rightarrow> rotate_input \<Rightarrow> string \<Rightarrow> int \<Rightarrow> key_state \<Rightarrow> key_state \<times> nat" where
  "handleRotateSecretKey L I confirm intervalDays s =
     (if confirm \<noteq> ''ROTATE'' then (s, 400)
      else case rotateConfigSecretKey L I intervalDays s of
             (s', Inl _) \<Rightarrow> (s', 400)
           | (s', Inr _) \<Rightarrow> (s', 200))"

text \<open>One tick of the scheduler of \<open>startSecretRotateScheduler\<close> (every six hours).\<close>

definition scheduler_tick :: "secret_lib \<Rightarrow> rotate_input \<Rightarrow> key_state \<Rightarrow> key_state" where
  "scheduler_tick L I s =
     (case ks_file s of
        None \<Rightarrow> s
      | Some st \<Rightarrow>
          if kf_IntervalDay st \<le> 0 \<or> km_Passphrase (kf_Current st) = [] then s
          else if ri_now I < kf_RotatedAt st + kf_IntervalDay st * 86400 then s
          else fst (rotateConfigSecretKey L I (kf_IntervalDay st) s))"

text \<open>A restart: the environment the process is deployed with, the key store applied at start, the
  configuration read back.\<close>

definition restart_server :: "secret_lib \<Rightarrow> int \<Rightarrow> bool \<Rightarrow> secret_env \<Rightarrow> key_state \<Rightarrow> key_state" where
  "restart_server L now write_ok E s =
     (let s1 = initSecretKeyStoreFromEnv now write_ok (s\<lparr>ks_env := E, ks_once := False\<rparr>)
      in s1\<lparr>ks_secrets := map (decryptSecret L (ks_env s1)) (ks_stored s1)\<rparr>)"

end
