(* ===== verification/KeyRotation.thy ===== *)
theory KeyRotation
  imports SecretKeys
begin

text \<open>
  What the rotation of \<open>SecretKeys\<close> does to sealed values. A key ring is the current key followed by
  the previous ones; the lemmas relate the ring in the store file to the ring the environment gives
  back after \<open>applySecretKeyStoreToEnv\<close>, and a sealed value to the ring it can be opened with.
\<close>

section \<open>Trimming and joining\<close>

lemma trim_space_ends:
  "s \<noteq> [] \<Longrightarrow> \<not> is_space (hd s) \<Longrightarrow> \<not> is_space (last s) \<Longrightarrow> trim_space s = s"
proof -
  assume s: "s \<noteq> []" "\<not> is_space (hd s)" "\<not> is_space (last s)"
  have "dropWhile is_space s = s" using s by (cases s) auto
  moreover have "dropWhile is_space (rev s) = rev s" using s by (cases s rule: rev_cases) auto
  ultimately show "trim_space s = s" by (simp add: trim_space_def)
qed

lemma trimmed_last: "trim_space s = s \<Longrightarrow> s \<noteq> [] \<Longrightarrow> \<not> is_space (last s)"
proof -
  assume "trim_space s = s" and s: "s \<noteq> []"
  then have "rev (dropWhile is_space (rev (dropWhile is_space s))) = s" by (simp add: trim_space_def)
  then have "dropWhile is_space (rev (dropWhile is_space s)) = rev s" by (metis rev_rev_ident)
  moreover have "rev s \<noteq> []" using s by simp
  ultimately have "\<not> is_space (hd (rev s))" by (metis hd_dropWhile)
  then show "\<not> is_space (last s)" using s by (simp add: hd_rev)
qed

lemma id_char_plain: "id_char c \<Longrightarrow> \<not> is_space c \<and> c \<noteq> CHR '','' \<and> c \<noteq> CHR '':''"
  by (auto simp: id_char_def is_space_def Let_def)

lemma join_ends:
  assumes "xs \<noteq> []" and "\<forall>x\<in>set xs. x \<noteq> [] \<and> \<not> is_space (hd x) \<and> \<not> is_space (last x)"
  shows "join sep xs \<noteq> [] \<and> \<not> is_space (hd (join sep xs)) \<and> \<not> is_space (last (join sep xs))"
  using assms by (induction sep xs rule: join.induct) (auto simp: hd_append last_append)

section \<open>Key rings\<close>

definition wf_key :: "secretKeyMaterial \<Rightarrow> bool" where
  "wf_key m \<longleftrightarrow> km_ID m \<noteq> [] \<and> (\<forall>c\<in>set (km_ID m). id_char c) \<and> km_Passphrase m \<noteq> [] \<and>
     CHR '','' \<notin> set (km_Passphrase m) \<and> trim_space (km_Passphrase m) = km_Passphrase m"

definition wf_ring :: "secretKeyMaterial list \<Rightarrow> bool" where
  "wf_ring ms \<longleftrightarrow> (\<forall>m\<in>set ms. wf_key m) \<and> distinct (map km_ID ms)"

definition ring_entry :: "hash_lib \<Rightarrow> secretKeyMaterial \<Rightarrow> secretKeyEntry" where
  "ring_entry H m = \<lparr>sk_ID = km_ID m, sk_Key = deriveKeyFromPassphrase H (km_Passphrase m)\<rparr>"

definition store_ring :: "secretKeyStoreFile \<Rightarrow> secretKeyMaterial list" where
  "store_ring st = kf_Current st # kf_Previous st"

definition key_part :: "secretKeyMaterial \<Rightarrow> string" where
  "key_part m = km_ID m @ '':'' @ km_Passphrase m"

lemma key_part_trim: "wf_key m \<Longrightarrow> key_part m \<noteq> [] \<and> \<not> is_space (hd (key_part m)) \<and> \<not> is_space (last (key_part m))"
  using trimmed_last [of "km_Passphrase m"] by (auto simp: wf_key_def key_part_def id_char_plain hd_append)

lemma key_part_index: "wf_key m \<Longrightarrow> index_of '':'' (key_part m) = Some (length (km_ID m))"
  using index_of_first [of "CHR '':''" "km_ID m" "km_Passphrase m"] id_char_plain by (auto simp: wf_key_def key_part_def)

lemma prev_keys_parts:
  "wf_ring ms \<Longrightarrow> set seen \<inter> km_ID ` set ms = {} \<Longrightarrow> prev_keys H seen (map key_part ms) = map (ring_entry H) ms"
proof (induction ms arbitrary: seen)
  case Nil
  then show ?case by simp
next
  case (Cons m ms)
  then have m: "wf_key m" and ms: "wf_ring ms" by (simp_all add: wf_ring_def)
  have seen: "set (km_ID m # seen) \<inter> km_ID ` set ms = {}" using Cons.prems by (auto simp: wf_ring_def)
  have t: "trim_space (key_part m) = key_part m" using key_part_trim [OF m] by (intro trim_space_ends) auto
  have i: "trim_space (km_ID m) = km_ID m"
    using m id_char_plain by (intro trim_space_id) (auto simp: wf_key_def)
  have len: "\<not> length (key_part m) - 1 \<le> length (km_ID m)"
    using m by (auto simp: wf_key_def key_part_def)
  have parts: "take (length (km_ID m)) (key_part m) = km_ID m" "drop (Suc (length (km_ID m))) (key_part m) = km_Passphrase m"
    by (simp_all add: key_part_def)
  have ne: "key_part m \<noteq> []" "km_ID m \<noteq> []" "km_Passphrase m \<noteq> []" "km_ID m \<notin> set seen"
    using m Cons.prems key_part_trim by (auto simp: wf_key_def)
  show ?case using Cons.IH [OF ms seen] ne len
    by (simp add: t key_part_index [OF m] parts i ring_entry_def Let_def)
qed

lemma wf_key_current_id: "wf_key m \<Longrightarrow> env_key_id E = km_ID m \<Longrightarrow> currentSecretKeyID E = km_ID m"
proof -
  assume m: "wf_key m" and E: "env_key_id E = km_ID m"
  then have "trim_space (km_ID m) = km_ID m" using id_char_plain by (intro trim_space_id) (auto simp: wf_key_def)
  moreover have "filter id_char (km_ID m) = km_ID m" using m by (simp add: wf_key_def filter_id_conv)
  ultimately show ?thesis using m E by (simp add: currentSecretKeyID_def wf_key_def)
qed

lemma load_applied:
  assumes wf: "wf_ring (store_ring st)" and prev: "kf_Previous st \<noteq> [] \<or> env_prev E = []"
  shows "loadAllSecretKeys H (applySecretKeyStoreToEnv st E) = map (ring_entry H) (store_ring st)"
proof -
  let ?E = "applySecretKeyStoreToEnv st E" and ?m = "kf_Current st" and ?ms = "kf_Previous st"
  have m: "wf_key ?m" and ms: "wf_ring ?ms" and new: "km_ID ?m \<notin> km_ID ` set ?ms"
    using wf by (auto simp: wf_ring_def store_ring_def)
  have all: "filter (\<lambda>p. km_ID p \<noteq> [] \<and> km_Passphrase p \<noteq> []) ?ms = ?ms"
    using ms by (simp add: filter_id_conv wf_ring_def wf_key_def)
  have key: "env_key ?E = km_Passphrase ?m" "env_key_id ?E = km_ID ?m"
    and prv: "env_prev ?E = (if ?ms = [] then env_prev E else join '','' (map key_part ?ms))"
    using m by (simp_all add: applySecretKeyStoreToEnv_def wf_key_def all Let_def key_part_def [abs_def])
  have head: "trim_space (env_key ?E) = km_Passphrase ?m" "currentSecretKeyID ?E = km_ID ?m" "km_Passphrase ?m \<noteq> []"
    using m key wf_key_current_id [OF m] by (simp_all add: wf_key_def)
  show ?thesis
  proof (cases "?ms = []")
    case True
    then have "trim_space (env_prev ?E) = []" using prev prv by simp
    then show ?thesis using head True by (simp add: loadAllSecretKeys_def store_ring_def ring_entry_def Let_def)
  next
    case False
    have parts: "map key_part ?ms \<noteq> []" "\<forall>x\<in>set (map key_part ?ms). x \<noteq> [] \<and> \<not> is_space (hd x) \<and> \<not> is_space (last x)"
      using False ms key_part_trim by (auto simp: wf_ring_def)
    have comma: "\<forall>x\<in>set (map key_part ?ms). CHR '','' \<notin> set x"
      using ms id_char_plain by (auto simp: wf_ring_def wf_key_def key_part_def)
    have "trim_space (env_prev ?E) = join '','' (map key_part ?ms)" "env_prev ?E \<noteq> []"
      using False prv join_ends [OF parts] by (auto intro: trim_space_ends)
    then show ?thesis
      using head prv False new split_sep_join [OF parts(1) comma] prev_keys_parts [OF ms, of "[km_ID ?m]" H]
      by (simp add: loadAllSecretKeys_def store_ring_def ring_entry_def Let_def)
  qed
qed

section \<open>Opening a sealed value\<close>

definition sealed_text :: "secret_lib \<Rightarrow> secretKeyEntry \<Rightarrow> bytes \<Rightarrow> string \<Rightarrow> string" where
  "sealed_text L e nonce plain =
     secretEncPrefixV2 @ sk_ID e @ '':'' @ b64_encode (nonce @ sl_seal L (sk_Key e) nonce (bytes_of_string plain))"

lemma encrypt_ring:
  assumes "secret_lib_ok L" and "loadAllSecretKeys (sl_hash L) E = map (ring_entry (sl_hash L)) (m # ms)"
    and "plain \<noteq> []" and "\<not> isEncryptedSecret plain"
  shows "encryptSecret L E (Some nonce) plain = sealed_text L (ring_entry (sl_hash L) m) nonce plain"
  using assms
  by (simp add: encryptSecret_def encryptSecretV2_def sealed_text_def ring_entry_def newGCM_ok_def
      secret_lib_ok_def deriveKeyFromPassphrase_def)

lemma tryOpen_own:
  "secret_lib_ok L \<Longrightarrow> length nonce = nonceSize \<Longrightarrow>
   tryOpenGCM L (deriveKeyFromPassphrase (sl_hash L) pass)
     (nonce @ sl_seal L (deriveKeyFromPassphrase (sl_hash L) pass) nonce (bytes_of_string plain)) = plain"
  by (simp add: tryOpenGCM_def secret_lib_ok_def newGCM_ok_def deriveKeyFromPassphrase_def)

lemma decrypt_sealed:
  assumes "sk_ID e \<noteq> []" and "CHR '':'' \<notin> set (sk_ID e)"
  shows "decryptSecret L E (sealed_text L e nonce plain) =
     (let data = nonce @ sl_seal L (sk_Key e) nonce (bytes_of_string plain);
          keys = loadAllSecretKeys (sl_hash L) E;
          pt = first_open L data (filter (\<lambda>k. sk_ID k = sk_ID e) keys)
      in if pt \<noteq> [] then pt else first_open L data keys)"
proof -
  let ?b = "b64_encode (nonce @ sl_seal L (sk_Key e) nonce (bytes_of_string plain))"
  have rest: "trim_prefix (sealed_text L e nonce plain) secretEncPrefixV2 = sk_ID e @ CHR '':'' # ?b"
    by (simp add: trim_prefix_def sealed_text_def)
  have idx: "index_of '':'' (sk_ID e @ CHR '':'' # ?b) = Some (length (sk_ID e))"
    using assms(2) by (rule index_of_first)
  have pre: "has_prefix (sealed_text L e nonce plain) secretEncPrefixV2" by (simp add: sealed_text_def)
  have "decryptSecretV2 L E (sealed_text L e nonce plain) =
     (let data = nonce @ sl_seal L (sk_Key e) nonce (bytes_of_string plain);
          keys = loadAllSecretKeys (sl_hash L) E;
          pt = first_open L data (filter (\<lambda>k. sk_ID k = sk_ID e) keys)
      in if pt \<noteq> [] then (pt, True) else (first_open L data keys, True))"
    using pre assms(1) by (simp add: decryptSecretV2_def rest idx b64_roundtrip Let_def)
  then show ?thesis by (simp add: decryptSecret_def Let_def split: if_splits)
qed

lemma decrypt_in_ring:
  assumes L: "secret_lib_ok L" and ring: "loadAllSecretKeys (sl_hash L) E = map (ring_entry (sl_hash L)) ms"
    and wf: "wf_ring ms" and m: "m \<in> set ms" and nonce: "length nonce = nonceSize" and plain: "plain \<noteq> []"
  shows "decryptSecret L E (sealed_text L (ring_entry (sl_hash L) m) nonce plain) = plain"
proof -
  let ?e = "ring_entry (sl_hash L)"
  have "wf_key m" using wf m by (simp add: wf_ring_def)
  then have i: "sk_ID (?e m) \<noteq> []" "CHR '':'' \<notin> set (sk_ID (?e m))"
    using id_char_plain by (auto simp: ring_entry_def wf_key_def)
  have "filter (\<lambda>x. km_ID x = km_ID m) ms = [m]"
    using wf m unfolding wf_ring_def
  proof (induction ms)
    case (Cons x xs)
    then show ?case by (cases "x = m") (auto simp: filter_empty_conv rev_image_eqI)
  qed simp
  then have one: "filter (\<lambda>k. sk_ID k = sk_ID (?e m)) (map ?e ms) = [?e m]"
    by (simp add: filter_map comp_def ring_entry_def)
  show ?thesis
    using plain tryOpen_own [OF L nonce, of "km_Passphrase m" plain]
    by (simp add: decrypt_sealed [OF i] ring one Let_def) (simp add: ring_entry_def)
qed

lemma first_open_none: "\<forall>k\<in>set keys. tryOpenGCM L (sk_Key k) data = [] \<Longrightarrow> first_open L data keys = []"
  by (induction keys) (simp_all add: Let_def)

text \<open>A 32-byte key that did not seal the value does not open it (the tag of AES-GCM does not match).\<close>

definition authentic :: "secret_lib \<Rightarrow> bool" where
  "authentic L \<longleftrightarrow>
     (\<forall>k k' n p. length k = 32 \<and> length k' = 32 \<and> k \<noteq> k' \<longrightarrow> sl_open L k n (sl_seal L k' n p) = None)"

lemma decrypt_without_key:
  assumes auth: "authentic L" and e: "sk_ID e \<noteq> []" "CHR '':'' \<notin> set (sk_ID e)"
    and nonce: "length nonce = nonceSize" and len: "length (sk_Key e) = 32"
    and other: "\<forall>k\<in>set (loadAllSecretKeys (sl_hash L) E). length (sk_Key k) = 32 \<and> sk_Key k \<noteq> sk_Key e"
  shows "decryptSecret L E (sealed_text L e nonce plain) = []"
proof -
  let ?data = "nonce @ sl_seal L (sk_Key e) nonce (bytes_of_string plain)"
  have closed: "\<forall>k\<in>set (loadAllSecretKeys (sl_hash L) E). tryOpenGCM L (sk_Key k) ?data = []"
    using auth other nonce len by (simp add: tryOpenGCM_def authentic_def)
  have "first_open L ?data (loadAllSecretKeys (sl_hash L) E) = []"
    "first_open L ?data (filter (\<lambda>k. sk_ID k = sk_ID e) (loadAllSecretKeys (sl_hash L) E)) = []"
    using closed by (auto intro: first_open_none)
  then show ?thesis by (simp add: decrypt_sealed [OF e] Let_def)
qed

section \<open>Rotations\<close>

definition good_rotation :: "rotate_input \<Rightarrow> secretKeyStoreFile \<Rightarrow> bool" where
  "good_rotation I st \<longleftrightarrow>
     (case ri_pass I of None \<Rightarrow> False
      | Some pass \<Rightarrow> pass \<noteq> [] \<and> CHR '','' \<notin> set pass \<and> trim_space pass = pass) \<and>
     (\<forall>c\<in>set (ri_day I). id_char c) \<and>
     rotation_id I st \<notin> km_ID ` set (take 5 (store_ring st))"

definition ring_state :: "secretKeyStoreFile \<Rightarrow> key_state \<Rightarrow> bool" where
  "ring_state st s \<longleftrightarrow> ks_once s \<and> ks_file s = Some st \<and> wf_ring (store_ring st)"

lemma show_int_id_chars: "c \<in> set (show_int n) \<Longrightarrow> id_char c"
proof -
  assume c: "c \<in> set (show_int n)"
  have "id_char c" if "48 \<le> (of_char c :: nat) \<and> (of_char c :: nat) \<le> 57" using that by (simp add: id_char_def Let_def)
  moreover have "id_char (CHR ''-'')" by (simp add: id_char_def)
  ultimately show ?thesis using c show_nat_digits by (auto simp: show_int_def split: if_splits)
qed

lemma rotation_id_chars: "\<forall>c\<in>set (ri_day I). id_char c \<Longrightarrow> \<forall>c\<in>set (rotation_id I st). id_char c"
proof -
  have v: "id_char (CHR ''v'')" "id_char (CHR ''-'')" by (simp_all add: id_char_def)
  assume "\<forall>c\<in>set (ri_day I). id_char c"
  then show ?thesis using v show_int_id_chars by (auto simp: rotation_id_def Let_def)
qed

lemma rotated_ring:
  assumes wf: "wf_ring (store_ring st)" and good: "good_rotation I st" and pass: "ri_pass I = Some pass"
  shows "store_ring (rotated_store I iv pass st) = take 6 (\<lparr>km_ID = rotation_id I st, km_Passphrase = pass\<rparr> # store_ring st)"
    and "wf_ring (store_ring (rotated_store I iv pass st))"
proof -
  let ?n = "\<lparr>km_ID = rotation_id I st, km_Passphrase = pass\<rparr>"
  have cur: "km_Passphrase (kf_Current st) \<noteq> []" using wf by (simp add: wf_ring_def store_ring_def wf_key_def)
  then show eq: "store_ring (rotated_store I iv pass st) = take 6 (?n # store_ring st)"
    by (simp add: rotated_store_def store_ring_def)
  have "wf_key ?n" using good pass rotation_id_chars [of I st]
    by (auto simp: good_rotation_def wf_key_def rotation_id_def Let_def)
  moreover have "\<forall>m\<in>set (take 5 (store_ring st)). wf_key m" using wf by (auto simp: wf_ring_def dest: in_set_takeD)
  moreover have "distinct (map km_ID (take 5 (store_ring st)))" using wf by (simp add: wf_ring_def take_map [symmetric])
  moreover have "take 6 (?n # store_ring st) = ?n # take 5 (store_ring st)" by simp
  ultimately show "wf_ring (store_ring (rotated_store I iv pass st))"
    using good unfolding eq wf_ring_def good_rotation_def by simp
qed

lemma rotate_state:
  assumes s: "ring_state st s" and good: "good_rotation I st" and pass: "ri_pass I = Some pass"
  shows "rotateConfigSecretKey L I iv s =
     (let st' = rotated_store I iv pass st;
          s1 = s\<lparr>ks_env := applySecretKeyStoreToEnv st' (ks_env s)\<rparr>;
          s2 = s1\<lparr>ks_file := Some st'\<rparr>
      in if \<not> ri_store_write I then (s1, Inl StoreWriteFailed)
         else if \<not> ri_config_write I then (s2, Inl ConfigSaveFailed)
         else (save_config L (ri_nonce I) s2, Inr (km_ID (kf_Current st'), length (kf_Previous st'))))"
proof -
  have "km_Passphrase (kf_Current st) \<noteq> []" using s by (simp add: ring_state_def wf_ring_def store_ring_def wf_key_def)
  then show ?thesis
    using s pass by (simp add: rotateConfigSecretKey_def initSecretKeyStoreFromEnv_def ring_state_def rotation_base_def Let_def)
qed

fun rotations :: "secret_lib \<Rightarrow> (rotate_input \<times> int) list \<Rightarrow> key_state \<Rightarrow> key_state" where
  "rotations L [] s = s"
| "rotations L ((I, iv) # Is) s = rotations L Is (fst (rotateConfigSecretKey L I iv s))"

text \<open>Every rotation of the sequence finds its inputs good and its writes succeed.\<close>

fun rotations_good :: "secret_lib \<Rightarrow> (rotate_input \<times> int) list \<Rightarrow> key_state \<Rightarrow> bool" where
  "rotations_good L [] s = True"
| "rotations_good L ((I, iv) # Is) s =
     ((case ks_file s of None \<Rightarrow> False | Some st \<Rightarrow> good_rotation I st) \<and> ri_store_write I \<and> ri_config_write I \<and>
      rotations_good L Is (fst (rotateConfigSecretKey L I iv s)))"

definition loads_ring :: "secret_lib \<Rightarrow> secretKeyStoreFile \<Rightarrow> key_state \<Rightarrow> bool" where
  "loads_ring L st s \<longleftrightarrow>
     loadAllSecretKeys (sl_hash L) (ks_env s) = map (ring_entry (sl_hash L)) (store_ring st)"

lemma save_config_simps [simp]:
  "ks_env (save_config L n s) = ks_env s" "ks_file (save_config L n s) = ks_file s"
  "ks_once (save_config L n s) = ks_once s" "ks_secrets (save_config L n s) = ks_secrets s"
  by (simp_all add: save_config_def)

lemma rotate_good:
  assumes s: "ring_state st s" and good: "good_rotation I st" and w: "ri_store_write I" "ri_config_write I"
  obtains st' m where "ring_state st' (fst (rotateConfigSecretKey L I iv s))"
    and "loads_ring L st' (fst (rotateConfigSecretKey L I iv s))"
    and "store_ring st' = take 6 (m # store_ring st)" and "Some (km_Passphrase m) = ri_pass I"
proof -
  obtain pass where pass: "ri_pass I = Some pass" using good by (auto simp: good_rotation_def split: option.splits)
  let ?st = "rotated_store I iv pass st" and ?m = "\<lparr>km_ID = rotation_id I st, km_Passphrase = pass\<rparr>"
  note ring = rotated_ring [OF _ good pass, where iv = iv]
  have wf: "wf_ring (store_ring st)" using s by (simp add: ring_state_def)
  have prev: "kf_Previous ?st \<noteq> []" using wf by (simp add: rotated_store_def wf_ring_def store_ring_def wf_key_def)
  show thesis
  proof (rule that [of ?st ?m])
    show "ring_state ?st (fst (rotateConfigSecretKey L I iv s))"
      using s w ring(2) [OF wf] by (simp add: rotate_state [OF s good pass] ring_state_def Let_def)
    show "loads_ring L ?st (fst (rotateConfigSecretKey L I iv s))"
      using w load_applied [OF ring(2) [OF wf]] prev by (simp add: rotate_state [OF s good pass] loads_ring_def Let_def)
  qed (use ring(1) [OF wf] pass in simp_all)
qed

lemma take_take_append: "take 6 (xs @ take 6 ys) = take 6 (xs @ ys)"
  by simp

lemma rotations_ring:
  assumes "ring_state st s" and "loads_ring L st s" and "rotations_good L Is s"
  obtains st' news where "ring_state st' (rotations L Is s)" and "loads_ring L st' (rotations L Is s)"
    and "store_ring st' = (if Is = [] then store_ring st else take 6 (news @ store_ring st))"
    and "length news = length Is"
    and "\<forall>m\<in>set news. \<exists>x\<in>set Is. ri_pass (fst x) = Some (km_Passphrase m)"
  using assms
proof (induction Is arbitrary: st s thesis)
  case Nil
  show ?case by (rule Nil.prems(1) [of st "[]"]) (use Nil.prems in simp_all)
next
  case (Cons x Is)
  obtain I iv where x: "x = (I, iv)" by (cases x)
  have good: "good_rotation I st" and w: "ri_store_write I" "ri_config_write I"
    and rest: "rotations_good L Is (fst (rotateConfigSecretKey L I iv s))"
    using Cons.prems(2,4) x by (auto simp: ring_state_def)
  obtain st1 m where st1: "ring_state st1 (fst (rotateConfigSecretKey L I iv s))"
    "loads_ring L st1 (fst (rotateConfigSecretKey L I iv s))"
    "store_ring st1 = take 6 (m # store_ring st)" "Some (km_Passphrase m) = ri_pass I"
    by (rule rotate_good [OF Cons.prems(2) good w])
  obtain st' news where st': "ring_state st' (rotations L Is (fst (rotateConfigSecretKey L I iv s)))"
    "loads_ring L st' (rotations L Is (fst (rotateConfigSecretKey L I iv s)))"
    "store_ring st' = (if Is = [] then store_ring st1 else take 6 (news @ store_ring st1))"
    "length news = length Is" "\<forall>m\<in>set news. \<exists>x\<in>set Is. ri_pass (fst x) = Some (km_Passphrase m)"
    by (rule Cons.IH [OF _ st1(1,2) rest])
  have "store_ring st' = take 6 ((news @ [m]) @ store_ring st)"
    using st'(3,4) st1(3) take_take_append [of news "m # store_ring st"] by auto
  then show ?case
    using st' st1(4) x by (intro Cons.prems(1) [of st' "news @ [m]"]) auto
qed

lemma ring_key_length: "secret_lib_ok L \<Longrightarrow> length (sk_Key (ring_entry (sl_hash L) m)) = 32"
  by (simp add: ring_entry_def deriveKeyFromPassphrase_def secret_lib_ok_def)

lemma survives_five:
  assumes L: "secret_lib_ok L" and s: "ring_state st s" "loads_ring L st s" and good: "rotations_good L Is s"
    and n: "length Is \<le> 5" and nonce: "length nonce = nonceSize" and plain: "plain \<noteq> []" "\<not> isEncryptedSecret plain"
  shows "decryptSecret L (ks_env (rotations L Is s)) (encryptSecret L (ks_env s) (Some nonce) plain) = plain"
proof -
  obtain st' news where st': "ring_state st' (rotations L Is s)" "loads_ring L st' (rotations L Is s)"
    "store_ring st' = (if Is = [] then store_ring st else take 6 (news @ store_ring st))" "length news = length Is"
    by (rule rotations_ring [OF s good])
  have "kf_Current st \<in> set (store_ring st')"
  proof (cases "Is = []")
    case False
    then obtain k where "6 - length Is = Suc k" using n by (cases "6 - length Is") auto
    then show ?thesis using False st'(3,4) by (simp add: store_ring_def)
  qed (use st'(3) in \<open>simp add: store_ring_def\<close>)
  moreover have "encryptSecret L (ks_env s) (Some nonce) plain =
      sealed_text L (ring_entry (sl_hash L) (kf_Current st)) nonce plain"
    using s(2) by (intro encrypt_ring [OF L _ plain, of _ _ "kf_Previous st"]) (simp add: loads_ring_def store_ring_def)
  ultimately show ?thesis
    using st'(1,2) decrypt_in_ring [OF L _ _ _ nonce plain(1)] by (simp add: ring_state_def loads_ring_def)
qed

lemma lost_at_six:
  assumes L: "secret_lib_ok L" "authentic L" and s: "ring_state st s" "loads_ring L st s" and good: "rotations_good L Is s"
    and n: "6 \<le> length Is" and nonce: "length nonce = nonceSize" and plain: "plain \<noteq> []" "\<not> isEncryptedSecret plain"
    and fresh: "\<forall>x\<in>set Is. \<forall>pass. ri_pass (fst x) = Some pass \<longrightarrow>
      deriveKeyFromPassphrase (sl_hash L) pass \<noteq> deriveKeyFromPassphrase (sl_hash L) (km_Passphrase (kf_Current st))"
  shows "decryptSecret L (ks_env (rotations L Is s)) (encryptSecret L (ks_env s) (Some nonce) plain) = []"
proof -
  let ?e = "ring_entry (sl_hash L) (kf_Current st)"
  obtain st' news where st': "ring_state st' (rotations L Is s)" "loads_ring L st' (rotations L Is s)"
    "store_ring st' = (if Is = [] then store_ring st else take 6 (news @ store_ring st))" "length news = length Is"
    "\<forall>m\<in>set news. \<exists>x\<in>set Is. ri_pass (fst x) = Some (km_Passphrase m)"
    by (rule rotations_ring [OF s good])
  have "set (store_ring st') \<subseteq> set news" using st'(3,4) n by (auto dest: in_set_takeD)
  then have other: "\<forall>k\<in>set (loadAllSecretKeys (sl_hash L) (ks_env (rotations L Is s))).
      length (sk_Key k) = 32 \<and> sk_Key k \<noteq> sk_Key ?e"
    using st'(2,5) fresh ring_key_length [OF L(1)] by (fastforce simp: loads_ring_def ring_entry_def)
  have "wf_key (kf_Current st)" using s(1) by (simp add: ring_state_def wf_ring_def store_ring_def)
  then have e: "sk_ID ?e \<noteq> []" "CHR '':'' \<notin> set (sk_ID ?e)" using id_char_plain by (auto simp: ring_entry_def wf_key_def)
  have "encryptSecret L (ks_env s) (Some nonce) plain = sealed_text L ?e nonce plain"
    using s(2) by (intro encrypt_ring [OF L(1) _ plain, of _ _ "kf_Previous st"]) (simp add: loads_ring_def store_ring_def)
  then show ?thesis using decrypt_without_key [OF L(2) e nonce ring_key_length [OF L(1)] other] by simp
qed

section \<open>The configuration across a restart\<close>

definition plain_secrets :: "key_state \<Rightarrow> bool" where
  "plain_secrets s \<longleftrightarrow> (\<forall>p\<in>set (ks_secrets s). p \<noteq> [] \<and> \<not> isEncryptedSecret p)"

definition nonces_ok :: "(nat \<Rightarrow> bytes option) \<Rightarrow> bool" where
  "nonces_ok nonce \<longleftrightarrow> (\<forall>i. case nonce i of None \<Rightarrow> False | Some n \<Rightarrow> length n = nonceSize)"

lemma restart_env:
  assumes "ks_file s = Some st" and "wf_ring (store_ring st)"
  shows "ks_env (restart_server L t w E s) = applySecretKeyStoreToEnv st E \<and>
    ks_secrets (restart_server L t w E s) = map (decryptSecret L (applySecretKeyStoreToEnv st E)) (ks_stored s)"
proof -
  have "km_Passphrase (kf_Current st) \<noteq> []" using assms by (simp add: wf_ring_def store_ring_def wf_key_def)
  then show ?thesis using assms by (simp add: restart_server_def initSecretKeyStoreFromEnv_def Let_def)
qed

lemma stored_sealed:
  assumes L: "secret_lib_ok L" and ring: "loads_ring L st s" and plain: "plain_secrets s" and nonces: "nonces_ok nonce"
    and i: "i < length (ks_secrets s)"
  obtains n where "length n = nonceSize" and "ks_stored (save_config L nonce s) ! i =
    sealed_text L (ring_entry (sl_hash L) (kf_Current st)) n (ks_secrets s ! i)"
proof -
  obtain n where n: "nonce i = Some n" "length n = nonceSize"
    using nonces by (auto simp: nonces_ok_def split: option.splits dest: spec [of _ i])
  have "ks_secrets s ! i \<noteq> []" "\<not> isEncryptedSecret (ks_secrets s ! i)" using plain i by (simp_all add: plain_secrets_def)
  then have "encryptSecret L (ks_env s) (Some n) (ks_secrets s ! i) =
      sealed_text L (ring_entry (sl_hash L) (kf_Current st)) n (ks_secrets s ! i)"
    using ring by (intro encrypt_ring [OF L, of _ _ "kf_Previous st"]) (simp_all add: loads_ring_def store_ring_def)
  then show thesis using n i by (intro that [of n]) (simp_all add: save_config_def)
qed

lemma rotation_keeps:
  assumes L: "secret_lib_ok L" and s: "ring_state st s" and good: "good_rotation I st"
    and w: "ri_store_write I" "ri_config_write I" and plain: "plain_secrets s" and nonces: "nonces_ok (ri_nonce I)"
  shows "ks_secrets (restart_server L t wr E (fst (rotateConfigSecretKey L I iv s))) = ks_secrets s"
proof -
  obtain pass where pass: "ri_pass I = Some pass" using good by (auto simp: good_rotation_def split: option.splits)
  let ?st = "rotated_store I iv pass st"
  let ?s = "s\<lparr>ks_env := applySecretKeyStoreToEnv ?st (ks_env s), ks_file := Some ?st\<rparr>"
  have wf: "wf_ring (store_ring st)" using s by (simp add: ring_state_def)
  have wf': "wf_ring (store_ring ?st)" by (rule rotated_ring(2) [OF wf good pass])
  have prev: "kf_Previous ?st \<noteq> []" using wf by (simp add: rotated_store_def wf_ring_def store_ring_def wf_key_def)
  have rot: "fst (rotateConfigSecretKey L I iv s) = save_config L (ri_nonce I) ?s"
    using w by (simp add: rotate_state [OF s good pass] Let_def)
  have loads: "loads_ring L ?st ?s" using load_applied [OF wf'] prev by (simp add: loads_ring_def)
  have "decryptSecret L (applySecretKeyStoreToEnv ?st E) (ks_stored (save_config L (ri_nonce I) ?s) ! i) = ks_secrets s ! i"
    if i: "i < length (ks_secrets s)" for i
  proof -
    obtain n where "length n = nonceSize" "ks_stored (save_config L (ri_nonce I) ?s) ! i =
        sealed_text L (ring_entry (sl_hash L) (kf_Current ?st)) n (ks_secrets s ! i)"
      by (rule stored_sealed [OF L loads _ nonces, of i]) (use plain i in \<open>simp_all add: plain_secrets_def\<close>)
    moreover have "ks_secrets s ! i \<noteq> []" using plain i by (simp add: plain_secrets_def)
    ultimately show ?thesis
      using decrypt_in_ring [OF L load_applied wf', of E "kf_Current ?st" n "ks_secrets s ! i"] wf' prev
      by (simp add: store_ring_def)
  qed
  then have "map (decryptSecret L (applySecretKeyStoreToEnv ?st E)) (ks_stored (save_config L (ri_nonce I) ?s)) = ks_secrets s"
    by (intro nth_equalityI) (simp_all add: save_config_def)
  then show ?thesis using restart_env [OF _ wf', of "save_config L (ri_nonce I) ?s"] by (simp add: rot)
qed

lemma failed_rotation:
  assumes L: "secret_lib_ok L" "authentic L" and s: "ring_state st s" and good: "good_rotation I st"
    and pass: "ri_pass I = Some pass" and w: "\<not> ri_store_write I"
    and plain: "plain_secrets s" and nonces: "nonces_ok nonce" and E: "kf_Previous st \<noteq> [] \<or> env_prev E = []"
    and fresh: "\<forall>m\<in>set (store_ring st). deriveKeyFromPassphrase (sl_hash L) pass \<noteq> deriveKeyFromPassphrase (sl_hash L) (km_Passphrase m)"
  shows "ks_secrets (restart_server L t wr E (save_config L nonce (fst (rotateConfigSecretKey L I iv s)))) =
    replicate (length (ks_secrets s)) []"
proof -
  let ?st = "rotated_store I iv pass st"
  let ?s = "s\<lparr>ks_env := applySecretKeyStoreToEnv ?st (ks_env s)\<rparr>"
  have wf: "wf_ring (store_ring st)" using s by (simp add: ring_state_def)
  have wf': "wf_ring (store_ring ?st)" by (rule rotated_ring(2) [OF wf good pass])
  have prev: "kf_Previous ?st \<noteq> []" using wf by (simp add: rotated_store_def wf_ring_def store_ring_def wf_key_def)
  have rot: "fst (rotateConfigSecretKey L I iv s) = ?s" using w by (simp add: rotate_state [OF s good pass] Let_def)
  have loads: "loads_ring L ?st ?s" using load_applied [OF wf'] prev by (simp add: loads_ring_def)
  let ?e = "ring_entry (sl_hash L) (kf_Current ?st)"
  have key: "wf_key (kf_Current ?st)" using wf' by (simp add: wf_ring_def store_ring_def)
  have e: "sk_ID ?e \<noteq> []" "CHR '':'' \<notin> set (sk_ID ?e)"
    using key id_char_plain by (auto simp: ring_entry_def wf_key_def)
  have other: "\<forall>k\<in>set (loadAllSecretKeys (sl_hash L) (applySecretKeyStoreToEnv st E)).
      length (sk_Key k) = 32 \<and> sk_Key k \<noteq> sk_Key ?e"
    using load_applied [OF wf E, of "sl_hash L"] fresh ring_key_length [OF L(1)]
    by (auto simp: ring_entry_def rotated_store_def)
  have "decryptSecret L (applySecretKeyStoreToEnv st E) (ks_stored (save_config L nonce ?s) ! i) = []"
    if i: "i < length (ks_secrets s)" for i
  proof -
    obtain n where "length n = nonceSize" "ks_stored (save_config L nonce ?s) ! i = sealed_text L ?e n (ks_secrets s ! i)"
      by (rule stored_sealed [OF L(1) loads _ nonces, of i]) (use plain i in \<open>simp_all add: plain_secrets_def\<close>)
    then show ?thesis using decrypt_without_key [OF L(2) e _ ring_key_length [OF L(1)] other] by simp
  qed
  then have "map (decryptSecret L (applySecretKeyStoreToEnv st E)) (ks_stored (save_config L nonce ?s)) =
      replicate (length (ks_secrets s)) []"
    by (intro nth_equalityI) (simp_all add: save_config_def)
  moreover have "ks_file (save_config L nonce ?s) = Some st" using s by (simp add: ring_state_def)
  ultimately show ?thesis using restart_env [OF _ wf, of "save_config L nonce ?s"] by (simp add: rot)
qed

section \<open>Properties\<close>

text \<open>C27. A rotation that reports success loses no secret of the configuration: after a restart, whatever the
  environment the server is deployed with, every secret is read back as it was.\<close>

theorem rotation_keeps_secrets:
  assumes "secret_lib_ok L" and "ring_state st s" and "good_rotation I st"
    and "ri_store_write I" and "ri_config_write I" and "plain_secrets s" and "nonces_ok (ri_nonce I)"
  shows "ks_secrets (restart_server L t wr E (fst (rotateConfigSecretKey L I iv s))) = ks_secrets s"
  by (rule rotation_keeps [OF assms])

text \<open>A value sealed before a sequence of rotations and stored outside the configuration (the CI/CD tokens)
  is opened after at most five of them, and after six it is not: the ring then holds newer keys only.\<close>

theorem sealed_value_lifetime:
  assumes "secret_lib_ok L" and "authentic L" and "ring_state st s" and "loads_ring L st s" and "rotations_good L Is s"
    and "length nonce = nonceSize" and "plain \<noteq> []" and "\<not> isEncryptedSecret plain"
    and "\<forall>x\<in>set Is. \<forall>pass. ri_pass (fst x) = Some pass \<longrightarrow>
      deriveKeyFromPassphrase (sl_hash L) pass \<noteq> deriveKeyFromPassphrase (sl_hash L) (km_Passphrase (kf_Current st))"
  shows "decryptSecret L (ks_env (rotations L Is s)) (encryptSecret L (ks_env s) (Some nonce) plain) =
    (if length Is \<le> 5 then plain else [])"
proof (cases "length Is \<le> 5")
  case True
  then show ?thesis using survives_five [OF assms(1,3,4,5) True assms(6-8)] by simp
next
  case False
  then show ?thesis using lost_at_six [OF assms(1-5) _ assms(6-9)] by simp
qed

text \<open>A rotation whose key store file cannot be written reports an error, and yet the process goes on with
  the new key: the next save of the configuration seals every secret with a key that is nowhere on
  disk, and after a restart each of them reads as the empty string.\<close>

theorem failed_rotation_loses_secrets:
  assumes "secret_lib_ok L" and "authentic L" and "ring_state st s" and "good_rotation I st"
    and "ri_pass I = Some pass" and "\<not> ri_store_write I"
    and "plain_secrets s" and "nonces_ok nonce" and "kf_Previous st \<noteq> [] \<or> env_prev E = []"
    and "\<forall>m\<in>set (store_ring st). deriveKeyFromPassphrase (sl_hash L) pass \<noteq> deriveKeyFromPassphrase (sl_hash L) (km_Passphrase m)"
  shows "snd (rotateConfigSecretKey L I iv s) = Inl StoreWriteFailed \<and>
    ks_secrets (restart_server L t wr E (save_config L nonce (fst (rotateConfigSecretKey L I iv s)))) =
      replicate (length (ks_secrets s)) []"
  using failed_rotation [OF assms] assms(6) by (simp add: rotate_state [OF assms(3-5)] Let_def)

section \<open>Witnesses\<close>

text \<open>A toy library: the digest is the text padded to 32 bytes, sealing puts the key in front.\<close>

definition toy_secret_lib :: secret_lib where
  "toy_secret_lib =
     \<lparr>sl_hash = \<lparr>hmac256 = (\<lambda>k m. take 32 (rev m @ replicate 32 0)), sha256 = (\<lambda>m. take 32 (m @ replicate 32 0))\<rparr>,
      sl_seal = (\<lambda>k n p. k @ p),
      sl_open = (\<lambda>k n c. if has_prefix c k then Some (drop (length k) c) else None)\<rparr>"

definition toy_store :: secretKeyStoreFile where
  "toy_store = \<lparr>kf_Current = \<lparr>km_ID = ''v1'', km_Passphrase = ''a''\<rparr>, kf_Previous = [], kf_RotatedAt = 0, kf_IntervalDay = 90\<rparr>"

definition toy_keys :: "string list \<Rightarrow> key_state" where
  "toy_keys secrets =
     \<lparr>ks_env = \<lparr>env_key = ''a'', env_key_id = ''v1'', env_prev = []\<rparr>, ks_file = Some toy_store, ks_once = True,
      ks_secrets = secrets, ks_stored = []\<rparr>"

definition toy_rotation :: "string \<Rightarrow> string \<Rightarrow> bool \<Rightarrow> rotate_input" where
  "toy_rotation day pass ok =
     \<lparr>ri_now = 5, ri_day = day, ri_pass = Some pass, ri_nonce = (\<lambda>i. Some (replicate 12 0)), ri_init_write = True,
      ri_store_write = ok, ri_config_write = True\<rparr>"

lemma toy_lib_ok: "secret_lib_ok toy_secret_lib" "authentic toy_secret_lib"
proof -
  show "secret_lib_ok toy_secret_lib" by (simp add: secret_lib_ok_def toy_secret_lib_def min_def)
  show "authentic toy_secret_lib" by (auto simp: authentic_def toy_secret_lib_def has_prefix_def)
qed

lemma toy_ring: "ring_state toy_store (toy_keys secrets)"
  by (simp add: ring_state_def toy_keys_def toy_store_def wf_ring_def wf_key_def store_ring_def trim_space_def
      is_space_def id_char_def)

lemma toy_good: "good_rotation (toy_rotation ''1'' ''b'' ok) toy_store"
  by (simp add: good_rotation_def toy_rotation_def toy_store_def trim_space_def is_space_def id_char_def rotation_id_def
      store_ring_def)

lemma toy_loads: "loads_ring toy_secret_lib toy_store (toy_keys secrets)"
  by (simp add: loads_ring_def toy_keys_def toy_store_def store_ring_def ring_entry_def loadAllSecretKeys_def
      trim_space_def is_space_def currentSecretKeyID_def id_char_def)

lemma rotation_keeps_secrets_witness:
  "ks_secrets (restart_server toy_secret_lib 9 True \<lparr>env_key = ''a'', env_key_id = [], env_prev = []\<rparr>
     (fst (rotateConfigSecretKey toy_secret_lib (toy_rotation ''1'' ''b'' True) 0 (toy_keys [''s3cret''])))) = [''s3cret'']"
  using rotation_keeps_secrets [OF toy_lib_ok(1) toy_ring toy_good [of True],
      of "[''s3cret'']" 9 True "\<lparr>env_key = ''a'', env_key_id = [], env_prev = []\<rparr>" 0]
  by (simp add: toy_rotation_def toy_keys_def plain_secrets_def nonces_ok_def isEncryptedSecret_def has_prefix_def
      secretEncPrefix_def secretEncPrefixV2_def nonceSize_def)

lemma sealed_value_lifetime_witness:
  "decryptSecret toy_secret_lib (ks_env (rotations toy_secret_lib [(toy_rotation ''1'' ''b'' True, 0)] (toy_keys [])))
     (encryptSecret toy_secret_lib (ks_env (toy_keys [])) (Some (replicate 12 0)) ''tok'') = ''tok''"
proof -
  let ?Is = "[(toy_rotation ''1'' ''b'' True, 0)]"
  have good: "rotations_good toy_secret_lib ?Is (toy_keys [])"
    using toy_good [of True] by (simp add: toy_keys_def) (simp add: toy_rotation_def)
  have "deriveKeyFromPassphrase (sl_hash toy_secret_lib) ''b'' \<noteq> deriveKeyFromPassphrase (sl_hash toy_secret_lib) ''a''"
    by (simp add: deriveKeyFromPassphrase_def toy_secret_lib_def bytes_of_string_def)
  then have fresh: "\<forall>x\<in>set ?Is. \<forall>pass. ri_pass (fst x) = Some pass \<longrightarrow>
      deriveKeyFromPassphrase (sl_hash toy_secret_lib) pass \<noteq>
      deriveKeyFromPassphrase (sl_hash toy_secret_lib) (km_Passphrase (kf_Current toy_store))"
    by (simp add: toy_rotation_def toy_store_def)
  have plain: "length (replicate 12 (0 :: byte)) = nonceSize" "''tok'' \<noteq> []" "\<not> isEncryptedSecret ''tok''"
    by (simp_all add: nonceSize_def isEncryptedSecret_def has_prefix_def secretEncPrefix_def secretEncPrefixV2_def)
  from sealed_value_lifetime [OF toy_lib_ok toy_ring toy_loads good plain fresh] show ?thesis
    by (simp del: rotations.simps)
qed

lemma failed_rotation_loses_secrets_witness:
  "ks_secrets (restart_server toy_secret_lib 9 True \<lparr>env_key = ''a'', env_key_id = [], env_prev = []\<rparr>
     (save_config toy_secret_lib (\<lambda>i. Some (replicate 12 0))
       (fst (rotateConfigSecretKey toy_secret_lib (toy_rotation ''1'' ''b'' False) 0 (toy_keys [''s3cret'']))))) = [[]]"
  using failed_rotation_loses_secrets [OF toy_lib_ok toy_ring toy_good [of False],
      of "''b''" "[''s3cret'']" "\<lambda>i. Some (replicate 12 0)" "\<lparr>env_key = ''a'', env_key_id = [], env_prev = []\<rparr>" 0 9 True]
  by (simp add: toy_rotation_def toy_keys_def plain_secrets_def nonces_ok_def isEncryptedSecret_def has_prefix_def
      secretEncPrefix_def secretEncPrefixV2_def nonceSize_def toy_store_def store_ring_def deriveKeyFromPassphrase_def
      toy_secret_lib_def bytes_of_string_def)

end
