(* ===== verification/AuditChain.thy ===== *)
theory AuditChain
  imports SecretKeys Utf8
begin

text \<open>
  The hash chain of the audit log (\<open>cmd/server/audit_chain.go\<close>, \<open>cmd/server/audit_chain_format.go\<close>
  and \<open>reconcileAuditMirrors\<close> of \<open>cmd/server/pg_partition.go\<close>): one row per log entry, each with the
  HMAC of its predecessor's hash, its payload and its number, written to two tables in one
  transaction.

  A table is the list of its rows; the queries of the program are functions on that list. What
  lies outside enters as \<open>audit_lib\<close>: HMAC-SHA256, Go's JSON encoder and decoder for a log entry, and the
  \<open>jsonb\<close> column of PostgreSQL, which keeps the value of a JSON text but not its layout and refuses a
  text with an escaped NUL (\<^term>\<open>None :: 'a option\<close>). Errors of the database are arguments of the operations.
\<close>

record LogEntry =
  le_Timestamp :: int
  le_Kind :: string
  le_Level :: string
  le_Actor :: string
  le_Username :: string
  le_IP :: string
  le_Host :: string
  le_Message :: string

record audit_lib =
  ac_hash :: hash_lib
  ac_marshal :: "LogEntry \<Rightarrow> bytes"
  ac_unmarshal :: "bytes \<Rightarrow> LogEntry option"
  ac_jsonb :: "bytes \<Rightarrow> bytes option"

text \<open>The values a decoded entry can have: text is valid UTF-8, the time stamp an \<open>int64\<close>.\<close>

definition entry_ok :: "LogEntry \<Rightarrow> bool" where
  "entry_ok e \<longleftrightarrow>
     (\<forall>s\<in>{le_Kind e, le_Level e, le_Actor e, le_Username e, le_IP e, le_Host e, le_Message e}.
        valid_utf8 (bytes_of_string s)) \<and> - (2 ^ 63) \<le> le_Timestamp e \<and> le_Timestamp e < 2 ^ 63"

text \<open>
  The documented behaviour of the library: decoding yields valid text, undoes the encoding of valid
  text, also after a round through the \<open>jsonb\<close> column, and encoded JSON has no NUL byte; HMAC-SHA256
  has 32 bytes.
\<close>

definition audit_lib_ok :: "audit_lib \<Rightarrow> bool" where
  "audit_lib_ok L \<longleftrightarrow> hash_lib_ok (ac_hash L) \<and>
     (\<forall>b e. ac_unmarshal L b = Some e \<longrightarrow> entry_ok e) \<and>
     (\<forall>e. entry_ok e \<longrightarrow> ac_unmarshal L (ac_marshal L e) = Some e) \<and>
     (\<forall>e d. entry_ok e \<and> ac_jsonb L (ac_marshal L e) = Some d \<longrightarrow> ac_unmarshal L d = Some e) \<and>
     (\<forall>e. 0 \<notin> set (ac_marshal L e))"

section \<open>The format of a row\<close>

definition auditChainVersionV1 :: int where "auditChainVersionV1 = 1"
definition auditChainVersionV2 :: int where "auditChainVersionV2 = 2"

record auditChainEntry =
  ce_ID :: int
  ce_TS :: int
  ce_Data :: bytes
  ce_ContentHash :: string
  ce_PrevHash :: string
  ce_Seq :: int
  ce_ChainVersion :: int
  ce_ChainKeyID :: string

record auditHashResult =
  hr_Matched :: bool
  hr_Code :: string
  hr_KeyID :: string

datatype audit_error =
    DecodePayload | InvalidPayload | InvalidLimit | ConnDone | QueryFailed | TxFailed | MirrorConflict string string

definition canonicalAuditPayload :: "audit_lib \<Rightarrow> bytes \<Rightarrow> audit_error + bytes" where
  "canonicalAuditPayload L raw =
     (case ac_unmarshal L raw of
        None \<Rightarrow> Inl DecodePayload
      | Some e \<Rightarrow>
          if le_Timestamp e \<le> 0 \<or> trim_space (le_Kind e) = [] \<or> trim_space (le_Message e) = [] then Inl InvalidPayload
          else Inr (ac_marshal L e))"

definition default_audit_secret :: string where
  "default_audit_secret = ''aiops-audit-chain-default''"

definition auditChainSigningKeys :: "hash_lib \<Rightarrow> secret_env \<Rightarrow> secretKeyEntry list \<times> bool" where
  "auditChainSigningKeys H E =
     (let keys = loadAllSecretKeys H E in
      if loadSecretKey H E \<noteq> None then (keys, False)
      else (\<lparr>sk_ID = currentSecretKeyID E, sk_Key = sha256 H (bytes_of_string default_audit_secret)\<rparr> # keys, True))"

definition auditChainSecretDegraded :: "hash_lib \<Rightarrow> secret_env \<Rightarrow> bool" where
  "auditChainSecretDegraded H E = snd (auditChainSigningKeys H E)"

definition chain_message :: "int \<Rightarrow> string \<Rightarrow> bytes \<Rightarrow> int \<Rightarrow> bytes" where
  "chain_message version prevHash payload seq =
     (if version = auditChainVersionV2 then bytes_of_string ''aiops-audit-chain/v2'' @ [0] else []) @
     bytes_of_string prevHash @ [0] @ payload @ [0] @ bytes_of_string (show_int seq)"

definition computeAuditChainHash :: "hash_lib \<Rightarrow> bytes \<Rightarrow> int \<Rightarrow> string \<Rightarrow> bytes \<Rightarrow> int \<Rightarrow> string" where
  "computeAuditChainHash H key version prevHash payload seq =
     hex_encode (hmac256 H key (chain_message version prevHash payload seq))"

fun match_v1 :: "hash_lib \<Rightarrow> auditChainEntry \<Rightarrow> bytes \<Rightarrow> secretKeyEntry list \<Rightarrow> auditHashResult" where
  "match_v1 H e payload [] = \<lparr>hr_Matched = False, hr_Code = ''legacy_key_or_content_mismatch'', hr_KeyID = []\<rparr>"
| "match_v1 H e payload (k # ks) =
     (if computeAuditChainHash H (sk_Key k) auditChainVersionV1 (ce_PrevHash e) payload (ce_Seq e) = ce_ContentHash e
      then \<lparr>hr_Matched = True, hr_Code = ''ok'', hr_KeyID = sk_ID k\<rparr>
      else match_v1 H e payload ks)"

fun match_v2 :: "hash_lib \<Rightarrow> auditChainEntry \<Rightarrow> bytes \<Rightarrow> secretKeyEntry list \<Rightarrow> auditHashResult" where
  "match_v2 H e payload [] = \<lparr>hr_Matched = False, hr_Code = ''key_unavailable'', hr_KeyID = ce_ChainKeyID e\<rparr>"
| "match_v2 H e payload (k # ks) =
     (if sk_ID k \<noteq> ce_ChainKeyID e then match_v2 H e payload ks
      else if computeAuditChainHash H (sk_Key k) auditChainVersionV2 (ce_PrevHash e) payload (ce_Seq e) = ce_ContentHash e
      then \<lparr>hr_Matched = True, hr_Code = ''ok'', hr_KeyID = sk_ID k\<rparr>
      else \<lparr>hr_Matched = False, hr_Code = ''content_hash_mismatch'', hr_KeyID = sk_ID k\<rparr>)"

definition verifyAuditEntryHash :: "audit_lib \<Rightarrow> auditChainEntry \<Rightarrow> secretKeyEntry list \<Rightarrow> auditHashResult" where
  "verifyAuditEntryHash L e keys =
     (case canonicalAuditPayload L (ce_Data e) of
        Inl _ \<Rightarrow> \<lparr>hr_Matched = False, hr_Code = ''invalid_payload'', hr_KeyID = []\<rparr>
      | Inr payload \<Rightarrow>
          if ce_ChainVersion e = auditChainVersionV1 then match_v1 (ac_hash L) e payload keys
          else if ce_ChainVersion e = auditChainVersionV2 then match_v2 (ac_hash L) e payload keys
          else \<lparr>hr_Matched = False, hr_Code = ''unsupported_chain_version'', hr_KeyID = []\<rparr>)"

section \<open>The tables\<close>

record audit_db =
  db_legacy :: "auditChainEntry list"
  db_part :: "auditChainEntry list"

definition hashed :: "auditChainEntry list \<Rightarrow> auditChainEntry list" where
  "hashed rows = filter (\<lambda>r. ce_ContentHash r \<noteq> []) rows"

text \<open>\<open>ORDER BY chain_seq, id\<close> and the newest \<open>n\<close> rows in that order.\<close>

definition by_seq :: "auditChainEntry list \<Rightarrow> auditChainEntry list" where
  "by_seq rows = sort_key ce_Seq (sort_key ce_ID rows)"

definition latest_rows :: "nat \<Rightarrow> auditChainEntry list \<Rightarrow> auditChainEntry list" where
  "latest_rows n rows = (let s = by_seq (hashed rows) in drop (length s - n) s)"

definition same_record :: "auditChainEntry \<Rightarrow> auditChainEntry \<Rightarrow> bool" where
  "same_record r s \<longleftrightarrow> ce_TS r = ce_TS s \<and> ce_Data r = ce_Data s \<and> ce_PrevHash r = ce_PrevHash s \<and>
     ce_Seq r = ce_Seq s \<and> ce_ChainVersion r = ce_ChainVersion s \<and> ce_ChainKeyID r = ce_ChainKeyID s"

record auditMirrorState =
  ms_LegacyHashes :: nat
  ms_PartitionHashes :: nat
  ms_Drift :: bool
  ms_Conflict :: bool

definition loadAuditMirrorState :: "audit_db \<Rightarrow> auditMirrorState" where
  "loadAuditMirrorState db =
     (let legacy = hashed (db_legacy db); partitioned = hashed (db_part db); combined = legacy @ partitioned;
          lh = remdups (map ce_ContentHash legacy); ph = remdups (map ce_ContentHash partitioned)
      in \<lparr>ms_LegacyHashes = length lh, ms_PartitionHashes = length ph,
          ms_Drift = (list_ex (\<lambda>h. h \<notin> set ph) lh \<or> list_ex (\<lambda>h. h \<notin> set lh) ph),
          ms_Conflict = (list_ex (\<lambda>r. list_ex (\<lambda>s. ce_Seq r = ce_Seq s \<and> ce_ContentHash r \<noteq> ce_ContentHash s) combined) combined \<or>
            list_ex (\<lambda>r. list_ex (\<lambda>s. ce_ContentHash r = ce_ContentHash s \<and> \<not> same_record r s) combined) combined)\<rparr>)"

section \<open>Appending a link\<close>

text \<open>Where the transaction of an append can fail in the database.\<close>

datatype append_fault = FBegin | FLock | FTip | FInsertLegacy | FInsertPartition | FCommit

text \<open>The unique indexes of the two tables.\<close>

definition legacy_unique :: "auditChainEntry \<Rightarrow> audit_db \<Rightarrow> bool" where
  "legacy_unique r db \<longleftrightarrow> ce_ContentHash r = [] \<or> list_all (\<lambda>s. ce_ContentHash s \<noteq> ce_ContentHash r) (db_legacy db)"

definition part_unique :: "auditChainEntry \<Rightarrow> audit_db \<Rightarrow> bool" where
  "part_unique r db \<longleftrightarrow> ce_ContentHash r = [] \<or>
     list_all (\<lambda>s. \<not> (ce_ContentHash s = ce_ContentHash r \<and> ce_TS s = ce_TS r)) (db_part db)"

definition chain_tip :: "audit_db \<Rightarrow> string \<times> int" where
  "chain_tip db = (case latest_rows 1 (db_part db) of [] \<Rightarrow> ([], 0) | r # _ \<Rightarrow> (ce_ContentHash r, ce_Seq r))"

text \<open>\<open>i\<close> is the id the sequence of the table hands out; the second component is \<open>nextSeq\<close>.\<close>

definition appendAuditChained ::
    "audit_lib \<Rightarrow> secret_env \<Rightarrow> int \<Rightarrow> int \<Rightarrow> append_fault option \<Rightarrow> LogEntry \<Rightarrow> audit_db \<Rightarrow>
     audit_db \<times> int \<times> audit_error option" where
  "appendAuditChained L E now i fault entry db =
     (if fault = Some FBegin \<or> fault = Some FLock \<or> fault = Some FTip then (db, 0, Some TxFailed)
      else let (prevHash, tipSeq) = chain_tip db;
               entry' = (if le_Timestamp entry \<le> 0 then entry\<lparr>le_Timestamp := now\<rparr> else entry)
           in case canonicalAuditPayload L (ac_marshal L entry') of
                Inl err \<Rightarrow> (db, 0, Some err)
              | Inr payload \<Rightarrow>
                  let nextSeq = tipSeq + 1;
                      key = hd (fst (auditChainSigningKeys (ac_hash L) E));
                      contentHash = computeAuditChainHash (ac_hash L) (sk_Key key) auditChainVersionV2 prevHash payload nextSeq
                  in case ac_jsonb L payload of
                       None \<Rightarrow> (db, nextSeq, Some TxFailed)
                     | Some stored \<Rightarrow>
                         let row = \<lparr>ce_ID = i, ce_TS = le_Timestamp entry', ce_Data = stored, ce_ContentHash = contentHash,
                                    ce_PrevHash = prevHash, ce_Seq = nextSeq, ce_ChainVersion = auditChainVersionV2,
                                    ce_ChainKeyID = sk_ID key\<rparr>
                         in if fault = Some FInsertLegacy \<or> \<not> legacy_unique row db then (db, nextSeq, Some TxFailed)
                            else if fault = Some FInsertPartition \<or> \<not> part_unique row db then (db, nextSeq, Some TxFailed)
                            else if fault = Some FCommit then (db, nextSeq, Some TxFailed)
                            else (\<lparr>db_legacy = db_legacy db @ [row], db_part = db_part db @ [row]\<rparr>, nextSeq, None))"

end
