(* ===== verification/AuditVerify.thy ===== *)
theory AuditVerify
  imports AuditChain Transition "HOL-Library.Multiset"
begin

text \<open>
  The verification of the audit chain (\<open>verifyAuditChain\<close>) and what it shows: a chain written by
  \<open>appendAuditChained\<close> verifies, whatever failed in between and whichever keys signed it, and two chains
  that verify with the same newest hash hold the same entries.
\<close>

section \<open>The verification\<close>

record auditChainVerifyResult =
  vr_OK :: bool
  vr_Status :: string
  vr_Code :: string
  vr_Checked :: nat
  vr_FromSeq :: int
  vr_ToSeq :: int
  vr_BrokenAt :: int
  vr_ChainVersions :: "int list"
  vr_MirrorParity :: bool
  vr_SecretDegraded :: bool
  vr_VerifiedAt :: int

definition empty_result :: "int \<Rightarrow> auditChainVerifyResult" where
  "empty_result now =
     \<lparr>vr_OK = False, vr_Status = [], vr_Code = [], vr_Checked = 0, vr_FromSeq = 0, vr_ToSeq = 0, vr_BrokenAt = 0,
      vr_ChainVersions = [], vr_MirrorParity = False, vr_SecretDegraded = False, vr_VerifiedAt = now\<rparr>"

definition auditChainFailure :: "auditChainVerifyResult \<Rightarrow> string \<Rightarrow> string \<Rightarrow> int \<Rightarrow> auditChainVerifyResult" where
  "auditChainFailure r status code brokenAt =
     r\<lparr>vr_OK := False, vr_Status := status, vr_Code := code, vr_BrokenAt := brokenAt\<rparr>"

definition link_error :: "nat \<Rightarrow> auditChainEntry option \<Rightarrow> auditChainEntry \<Rightarrow> string option" where
  "link_error start prev e =
     (case prev of
        None \<Rightarrow> if start = 0 \<and> (ce_Seq e \<noteq> 1 \<or> ce_PrevHash e \<noteq> []) then Some ''sequence_gap'' else None
      | Some p \<Rightarrow>
          if ce_Seq e \<noteq> ce_Seq p + 1 then Some ''sequence_gap''
          else if ce_PrevHash e \<noteq> ce_ContentHash p then Some ''prev_hash_mismatch'' else None)"

definition hash_status :: "string \<Rightarrow> string" where
  "hash_status code =
     (if code = ''key_unavailable'' \<or> code = ''legacy_key_or_content_mismatch'' then ''unverifiable'' else ''broken'')"

definition note_progress :: "nat \<Rightarrow> nat \<Rightarrow> auditChainEntry \<Rightarrow> auditChainVerifyResult \<Rightarrow> auditChainVerifyResult" where
  "note_progress start i e r =
     (if start \<le> i
      then r\<lparr>vr_Checked := i - start + 1, vr_FromSeq := (if vr_FromSeq r = 0 then ce_Seq e else vr_FromSeq r),
             vr_ToSeq := ce_Seq e\<rparr>
      else r)"

text \<open>The loop over the window; \<open>Inl\<close> is a returned failure, \<open>Inr\<close> the result so far and \<open>legacyVersion\<close>.\<close>

fun verify_loop ::
    "audit_lib \<Rightarrow> secretKeyEntry list \<Rightarrow> nat \<Rightarrow> nat \<Rightarrow> auditChainEntry option \<Rightarrow> bool \<Rightarrow> auditChainVerifyResult \<Rightarrow>
     auditChainEntry list \<Rightarrow> auditChainVerifyResult + auditChainVerifyResult \<times> bool" where
  "verify_loop L keys start i prev legacy r [] = Inr (r, legacy)"
| "verify_loop L keys start i prev legacy r (e # es) =
     (let r1 = note_progress start i e r;
          legacy1 = (legacy \<or> ce_ChainVersion e = auditChainVersionV1)
      in if ce_Seq e \<le> 0 then Inl (auditChainFailure r1 ''broken'' ''sequence_invalid'' (ce_Seq e))
         else case link_error start prev e of
                Some code \<Rightarrow> Inl (auditChainFailure r1 ''broken'' code (ce_Seq e))
              | None \<Rightarrow>
                  let h = verifyAuditEntryHash L e keys in
                  if hr_Matched h then verify_loop L keys start (Suc i) (Some e) legacy1 r1 es
                  else Inl (auditChainFailure r1 (hash_status (hr_Code h)) (hr_Code h) (ce_Seq e)))"

definition window_start :: "nat \<Rightarrow> auditChainEntry list \<Rightarrow> nat" where
  "window_start limit entries = (if limit < length entries then 1 else 0)"

definition verified_result :: "bool \<Rightarrow> auditChainEntry list \<Rightarrow> auditChainVerifyResult \<Rightarrow> bool \<Rightarrow> auditChainVerifyResult" where
  "verified_result degraded reported r legacy =
     (let r1 = r\<lparr>vr_Checked := length reported, vr_FromSeq := ce_Seq (hd reported), vr_ToSeq := ce_Seq (last reported),
                 vr_ChainVersions := sort (remdups (map ce_ChainVersion reported)),
                 vr_OK := True, vr_Status := ''healthy'', vr_Code := ''ok''\<rparr>
      in if \<not> vr_MirrorParity r1 then r1\<lparr>vr_Status := ''degraded'', vr_Code := ''mirror_drift''\<rparr>
         else if degraded then r1\<lparr>vr_Status := ''degraded'', vr_Code := ''secret_degraded''\<rparr>
         else if legacy then r1\<lparr>vr_Status := ''degraded'', vr_Code := ''legacy_chain''\<rparr>
         else r1)"

text \<open>
  The two queries are not in one transaction: the rows come from the first state of the tables, the
  comparison of the mirrors from the second. \<^term>\<open>None :: 'a option\<close> for the tables is a server without a
  database; the flags say whether each query succeeds.
\<close>

definition verifyAuditChain ::
    "audit_lib \<Rightarrow> secret_env \<Rightarrow> int \<Rightarrow> int \<Rightarrow> bool \<Rightarrow> bool \<Rightarrow> (audit_db \<times> audit_db) option \<Rightarrow>
     audit_error + auditChainVerifyResult" where
  "verifyAuditChain L E now limit rows_ok mirrors_ok dbs =
     (case dbs of
        None \<Rightarrow> Inl ConnDone
      | Some (db1, db2) \<Rightarrow>
          if limit < 1 \<or> 5000 < limit then Inl InvalidLimit
          else if \<not> rows_ok \<or> \<not> mirrors_ok then Inl QueryFailed
          else let n = nat limit; entries = latest_rows (n + 1) (db_part db1); m = loadAuditMirrorState db2;
                   r = (empty_result now)\<lparr>vr_MirrorParity := \<not> ms_Drift m \<and> ms_LegacyHashes m = ms_PartitionHashes m\<rparr>
               in if ms_Conflict m then Inr (r\<lparr>vr_Status := ''broken'', vr_Code := ''mirror_conflict''\<rparr>)
                  else if entries = [] then
                    (if ms_LegacyHashes m = 0 \<and> ms_PartitionHashes m = 0
                     then Inr (r\<lparr>vr_Status := ''empty'', vr_Code := ''no_records''\<rparr>)
                     else Inr (r\<lparr>vr_Status := ''unverifiable'', vr_Code := ''mirror_drift''\<rparr>))
                  else let (keys, degraded) = auditChainSigningKeys (ac_hash L) E;
                           start = window_start n entries
                       in case verify_loop L keys start 0 None False (r\<lparr>vr_SecretDegraded := degraded\<rparr>) entries of
                            Inl failed \<Rightarrow> Inr failed
                          | Inr (r1, legacy) \<Rightarrow> Inr (verified_result degraded (drop start entries) r1 legacy))"

definition parseAuditVerifyLimit :: "string \<Rightarrow> int option" where
  "parseAuditVerifyLimit raw =
     (if trim_space raw = [] then Some 200
      else case parse_int 10 raw of
             None \<Rightarrow> None
           | Some limit \<Rightarrow> if limit < 1 \<or> 5000 < limit then None else Some limit)"

section \<open>Chains\<close>

text \<open>The key a row names is one of the keys \<open>K\<close>, pairs of an id and a key.\<close>

definition row_ok :: "audit_lib \<Rightarrow> (string \<times> bytes) set \<Rightarrow> auditChainEntry \<Rightarrow> bool" where
  "row_ok L K r \<longleftrightarrow> ce_ChainVersion r = auditChainVersionV2 \<and>
     (\<exists>p k. canonicalAuditPayload L (ce_Data r) = Inr p \<and> (ce_ChainKeyID r, k) \<in> K \<and>
        ce_ContentHash r = computeAuditChainHash (ac_hash L) k auditChainVersionV2 (ce_PrevHash r) p (ce_Seq r))"

fun linked :: "audit_lib \<Rightarrow> (string \<times> bytes) set \<Rightarrow> string \<Rightarrow> int \<Rightarrow> auditChainEntry list \<Rightarrow> bool" where
  "linked L K prev seq [] = True"
| "linked L K prev seq (r # rs) \<longleftrightarrow>
     ce_PrevHash r = prev \<and> ce_Seq r = seq + 1 \<and> row_ok L K r \<and> linked L K (ce_ContentHash r) (seq + 1) rs"

definition tip_of :: "string \<Rightarrow> int \<Rightarrow> auditChainEntry list \<Rightarrow> string \<times> int" where
  "tip_of prev seq rs = (if rs = [] then (prev, seq) else (ce_ContentHash (last rs), ce_Seq (last rs)))"

definition chain_inv :: "audit_lib \<Rightarrow> (string \<times> bytes) set \<Rightarrow> audit_db \<Rightarrow> bool" where
  "chain_inv L K db \<longleftrightarrow> db_legacy db = db_part db \<and> linked L K [] 0 (db_part db) \<and>
     distinct (map ce_ContentHash (db_part db))"

definition knows_keys :: "secretKeyEntry list \<Rightarrow> (string \<times> bytes) set \<Rightarrow> bool" where
  "knows_keys keys K \<longleftrightarrow> (\<forall>(i, k)\<in>K. map_option sk_Key (find (\<lambda>e. sk_ID e = i) keys) = Some k)"

lemma linked_append:
  "linked L K prev seq (rs @ ss) \<longleftrightarrow>
   linked L K prev seq rs \<and> linked L K (fst (tip_of prev seq rs)) (snd (tip_of prev seq rs)) ss"
proof (induction rs arbitrary: prev seq)
  case (Cons r rs)
  have "linked L K prev seq (r # rs) \<Longrightarrow> tip_of (ce_ContentHash r) (seq + 1) rs = tip_of prev seq (r # rs)"
    by (auto simp: tip_of_def)
  then show ?case using Cons by auto
qed (simp add: tip_of_def)

lemma linked_tip: "linked L K prev seq rs \<Longrightarrow> snd (tip_of prev seq rs) = seq + int (length rs)"
proof (induction rs arbitrary: prev seq)
  case (Cons r rs)
  then have "tip_of (ce_ContentHash r) (seq + 1) rs = tip_of prev seq (r # rs)" by (auto simp: tip_of_def)
  then show ?case using Cons.IH [of "ce_ContentHash r" "seq + 1"] Cons.prems by simp
qed (simp add: tip_of_def)

lemma linked_seqs: "linked L K prev seq rs \<Longrightarrow> map ce_Seq rs = map (\<lambda>i. seq + 1 + int i) [0..<length rs]"
proof (induction rs arbitrary: prev seq)
  case (Cons r rs)
  then have "linked L K (ce_ContentHash r) (seq + 1) rs" by simp
  from Cons.IH [OF this] have "map ce_Seq rs = map (\<lambda>i. seq + 1 + 1 + int i) [0..<length rs]" .
  then show ?case using Cons.prems
    by (simp add: upt_conv_Cons map_Suc_upt [symmetric] del: upt_Suc)
qed simp

lemma linked_row_ok: "linked L K prev seq rs \<Longrightarrow> r \<in> set rs \<Longrightarrow> row_ok L K r \<and> seq < ce_Seq r"
  by (induction rs arbitrary: prev seq) force+

lemma hmac_hex_nonempty: "audit_lib_ok L \<Longrightarrow> computeAuditChainHash (ac_hash L) k v p m n \<noteq> []"
proof -
  assume "audit_lib_ok L"
  then have "length (hmac256 (ac_hash L) k x) = 32" for x by (simp add: audit_lib_ok_def hash_lib_ok_def)
  then have "hmac256 (ac_hash L) k x \<noteq> []" for x by (metis length_0_conv zero_neq_numeral)
  then show ?thesis by (simp add: computeAuditChainHash_def)
qed

lemma linked_hashed: "audit_lib_ok L \<Longrightarrow> linked L K prev seq rs \<Longrightarrow> hashed rs = rs"
  using hmac_hex_nonempty linked_row_ok unfolding hashed_def
  by (subst filter_id_conv) (metis row_ok_def)

lemma sorted_seqs: "linked L K prev seq rs \<Longrightarrow> sorted (map ce_Seq rs) \<and> distinct (map ce_Seq rs)"
  unfolding linked_seqs by (simp add: distinct_map inj_on_def sorted_iff_nth_mono)

lemma by_seq_sorted: "sorted (map ce_Seq rs) \<Longrightarrow> distinct (map ce_Seq rs) \<Longrightarrow> by_seq rs = rs"
  unfolding by_seq_def by (rule sort_key_inj_key_eq) (simp_all add: distinct_map)

lemma latest_linked:
  "audit_lib_ok L \<Longrightarrow> linked L K prev seq rs \<Longrightarrow> latest_rows n rs = drop (length rs - n) rs"
  using sorted_seqs by_seq_sorted by (simp add: latest_rows_def linked_hashed Let_def)

lemma tip_linked: "audit_lib_ok L \<Longrightarrow> linked L K [] 0 (db_part db) \<Longrightarrow> chain_tip db = tip_of [] 0 (db_part db)"
proof -
  assume "audit_lib_ok L" "linked L K [] 0 (db_part db)"
  then have "latest_rows 1 (db_part db) = drop (length (db_part db) - 1) (db_part db)" by (rule latest_linked)
  then show ?thesis by (cases "db_part db" rule: rev_cases) (simp_all add: chain_tip_def tip_of_def)
qed

section \<open>Appends keep the chain\<close>

datatype audit_event = EvAppend secret_env int int "append_fault option" LogEntry

fun audit_step :: "audit_lib \<Rightarrow> audit_db \<Rightarrow> audit_event \<Rightarrow> audit_db" where
  "audit_step L db (EvAppend E now i fault entry) = fst (appendAuditChained L E now i fault entry db)"

definition signing_key :: "hash_lib \<Rightarrow> secret_env \<Rightarrow> string \<times> bytes" where
  "signing_key H E = (let k = hd (fst (auditChainSigningKeys H E)) in (sk_ID k, sk_Key k))"

fun signed_with :: "audit_lib \<Rightarrow> (string \<times> bytes) set \<Rightarrow> audit_event \<Rightarrow> bool" where
  "signed_with L K (EvAppend E now i fault entry) \<longleftrightarrow> signing_key (ac_hash L) E \<in> K"

definition empty_db :: audit_db where
  "empty_db = \<lparr>db_legacy = [], db_part = []\<rparr>"

lemma canonical_stored:
  assumes L: "audit_lib_ok L" and c: "canonicalAuditPayload L b = Inr payload" and d: "ac_jsonb L payload = Some d"
  shows "canonicalAuditPayload L d = Inr payload"
proof -
  obtain e where e: "ac_unmarshal L b = Some e" "payload = ac_marshal L e"
    using c by (auto simp: canonicalAuditPayload_def split: option.splits if_splits)
  have "entry_ok e" using L e(1) unfolding audit_lib_ok_def by blast
  then have "ac_unmarshal L d = Some e" using L d e(2) unfolding audit_lib_ok_def by blast
  then show ?thesis using c e by (simp add: canonicalAuditPayload_def)
qed

lemma if_three: "(if A then x else if B then x else if C then x else y) = (if A \<or> B \<or> C then x else y)"
  by simp

text \<open>An append either leaves the tables alone and says so, or adds one well-formed row to each.\<close>

lemma append_cases:
  assumes "appendAuditChained L E now i fault entry db = (db', n, err)"
  obtains (failed) code where "err = Some code" and "db' = db"
  | (added) row payload where "err = None" and "db' = \<lparr>db_legacy = db_legacy db @ [row], db_part = db_part db @ [row]\<rparr>"
      and "ce_PrevHash row = fst (chain_tip db)" and "ce_Seq row = snd (chain_tip db) + 1" and "n = ce_Seq row"
      and "ac_jsonb L payload = Some (ce_Data row)"
      and "\<exists>b. canonicalAuditPayload L b = Inr payload" and "ce_ChainVersion row = auditChainVersionV2"
      and "ce_ChainKeyID row = fst (signing_key (ac_hash L) E)"
      and "ce_ContentHash row = computeAuditChainHash (ac_hash L) (snd (signing_key (ac_hash L) E)) auditChainVersionV2
             (ce_PrevHash row) payload (ce_Seq row)"
      and "legacy_unique row db"
proof -
  obtain ph sq where tip: "chain_tip db = (ph, sq)" by (cases "chain_tip db")
  let ?e = "if le_Timestamp entry \<le> 0 then entry\<lparr>le_Timestamp := now\<rparr> else entry"
  note def = appendAuditChained_def [of L E now i fault entry db, unfolded tip Let_def prod.case]
  show ?thesis
  proof (cases "fault = Some FBegin \<or> fault = Some FLock \<or> fault = Some FTip")
    case True
    then show ?thesis using assms by (intro failed [of TxFailed]) (simp_all add: def)
  next
    case early: False
    show ?thesis
    proof (cases "canonicalAuditPayload L (ac_marshal L ?e)")
      case (Inl c)
      then show ?thesis using assms early by (intro failed [of c]) (simp_all add: def)
    next
      case payload: (Inr payload)
      show ?thesis
      proof (cases "ac_jsonb L payload")
        case None
        then show ?thesis using assms early payload by (intro failed [of TxFailed]) (simp_all add: def)
      next
        case (Some stored)
        let ?k = "hd (fst (auditChainSigningKeys (ac_hash L) E))"
        let ?row = "\<lparr>ce_ID = i, ce_TS = le_Timestamp ?e, ce_Data = stored,
          ce_ContentHash = computeAuditChainHash (ac_hash L) (sk_Key ?k) auditChainVersionV2 ph payload (sq + 1),
          ce_PrevHash = ph, ce_Seq = sq + 1, ce_ChainVersion = auditChainVersionV2, ce_ChainKeyID = sk_ID ?k\<rparr>"
        have run: "(db', n, err) =
          (if (fault = Some FInsertLegacy \<or> \<not> legacy_unique ?row db) \<or>
              (fault = Some FInsertPartition \<or> \<not> part_unique ?row db) \<or> fault = Some FCommit then (db, sq + 1, Some TxFailed)
           else (\<lparr>db_legacy = db_legacy db @ [?row], db_part = db_part db @ [?row]\<rparr>, sq + 1, None))"
          using assms early payload Some by (simp only: def if_False sum.case option.case if_three)
        show ?thesis
        proof (cases err)
          case None
          with run show ?thesis using payload Some
            by (intro added [of ?row payload]) (auto simp: signing_key_def Let_def tip split: if_splits)
        next
          case (Some code)
          with run show ?thesis by (intro failed [of code]) (simp_all split: if_splits)
        qed
      qed
    qed
  qed
qed

lemma append_chain_inv:
  assumes L: "audit_lib_ok L" and K: "signing_key (ac_hash L) E \<in> K" and inv: "chain_inv L K db"
  shows "chain_inv L K (fst (appendAuditChained L E now i fault entry db))"
proof -
  obtain db' n err where run: "appendAuditChained L E now i fault entry db = (db', n, err)"
    by (cases "appendAuditChained L E now i fault entry db")
  from run have "chain_inv L K db'"
  proof (cases rule: append_cases)
    case failed
    then show ?thesis using inv by simp
  next
    case (added row payload)
    have link: "linked L K [] 0 (db_part db)" using inv by (simp add: chain_inv_def)
    obtain b where b: "canonicalAuditPayload L b = Inr payload" using added(7) by blast
    have "(ce_ChainKeyID row, snd (signing_key (ac_hash L) E)) \<in> K" using K added(9) by simp
    then have row: "row_ok L K row"
      unfolding row_ok_def using canonical_stored [OF L b added(6)] added(8,10) by blast
    have tip: "chain_tip db = tip_of [] 0 (db_part db)" by (rule tip_linked [OF L link])
    have "linked L K [] 0 (db_part db')"
      using link row added(2-4) tip by (simp add: linked_append linked_tip)
    moreover have "ce_ContentHash row \<noteq> []" using added(10) hmac_hex_nonempty [OF L] by simp
    then have "ce_ContentHash row \<notin> ce_ContentHash ` set (db_part db)"
      using added(11) inv by (auto simp: legacy_unique_def chain_inv_def list_all_iff)
    ultimately show ?thesis using inv added(2) by (simp add: chain_inv_def)
  qed
  then show ?thesis by (simp add: run)
qed

interpretation chain: permitted_machine empty_db "audit_step L" "signed_with L K" "\<lambda>db. audit_lib_ok L \<longrightarrow> chain_inv L K db"
  for L K
proof
  show "audit_lib_ok L \<longrightarrow> chain_inv L K empty_db" by (simp add: chain_inv_def empty_db_def)
next
  fix e s assume "signed_with L K e" and "audit_lib_ok L \<longrightarrow> chain_inv L K s"
  then show "audit_lib_ok L \<longrightarrow> chain_inv L K (audit_step L s e)"
    by (cases e) (simp add: append_chain_inv)
qed

section \<open>A chain that was appended verifies\<close>

lemma match_v2_known:
  assumes "map_option sk_Key (find (\<lambda>x. sk_ID x = ce_ChainKeyID e) keys) = Some k"
    and "ce_ContentHash e = computeAuditChainHash H k auditChainVersionV2 (ce_PrevHash e) p (ce_Seq e)"
  shows "hr_Matched (match_v2 H e p keys)"
  using assms by (induction keys) (auto split: if_splits)

lemma row_verifies:
  assumes "row_ok L K r" and "knows_keys keys K"
  shows "hr_Matched (verifyAuditEntryHash L r keys)" and "ce_ChainVersion r \<noteq> auditChainVersionV1"
proof -
  obtain p k where r: "canonicalAuditPayload L (ce_Data r) = Inr p" "(ce_ChainKeyID r, k) \<in> K"
    "ce_ContentHash r = computeAuditChainHash (ac_hash L) k auditChainVersionV2 (ce_PrevHash r) p (ce_Seq r)"
    "ce_ChainVersion r = auditChainVersionV2"
    using assms(1) by (auto simp: row_ok_def)
  have k: "map_option sk_Key (find (\<lambda>x. sk_ID x = ce_ChainKeyID r) keys) = Some k"
    using assms(2) r(2) by (auto simp: knows_keys_def)
  show "ce_ChainVersion r \<noteq> auditChainVersionV1" using r(4) by (simp add: auditChainVersionV1_def auditChainVersionV2_def)
  show "hr_Matched (verifyAuditEntryHash L r keys)" using r(1,4) match_v2_known [OF k r(3)]
    by (simp add: verifyAuditEntryHash_def auditChainVersionV1_def auditChainVersionV2_def)
qed

text \<open>The result fields the loop writes, which the final report overwrites.\<close>

definition unreported :: "auditChainVerifyResult \<Rightarrow> auditChainVerifyResult" where
  "unreported r = r\<lparr>vr_Checked := 0, vr_FromSeq := 0, vr_ToSeq := 0\<rparr>"

lemma unreported_note [simp]: "unreported (note_progress start i e r) = unreported r"
  by (simp add: unreported_def note_progress_def)

lemma verified_unreported:
  "unreported r = unreported s \<Longrightarrow> verified_result d reported r legacy = verified_result d reported s legacy"
  by (cases r; cases s) (simp add: unreported_def verified_result_def Let_def)

lemma loop_linked:
  assumes "linked L K prev seq rs" and "knows_keys keys K" and "0 \<le> seq"
    and "case p of None \<Rightarrow> start = 0 \<longrightarrow> prev = [] \<and> seq = 0 | Some e \<Rightarrow> ce_ContentHash e = prev \<and> ce_Seq e = seq"
  shows "\<exists>s. verify_loop L keys start i p legacy r rs = Inr (s, legacy) \<and> unreported s = unreported r"
  using assms
proof (induction rs arbitrary: prev seq i p r)
  case Nil
  show ?case by simp
next
  case (Cons e es)
  let ?r = "note_progress start i e r"
  have e: "ce_PrevHash e = prev" "ce_Seq e = seq + 1" "row_ok L K e" and es: "linked L K (ce_ContentHash e) (seq + 1) es"
    using Cons.prems(1) by simp_all
  have ok: "link_error start p e = None" using Cons.prems(4) e by (auto simp: link_error_def split: option.splits)
  note row = row_verifies [OF e(3) Cons.prems(2)]
  obtain s where s: "verify_loop L keys start (Suc i) (Some e) legacy ?r es = Inr (s, legacy)" "unreported s = unreported ?r"
    using Cons.IH [OF es Cons.prems(2), of "Some e" "Suc i" ?r] Cons.prems(3) e(2) by auto
  have "verify_loop L keys start i p legacy r (e # es) = verify_loop L keys start (Suc i) (Some e) legacy ?r es"
    using Cons.prems(3) e(2) row by (simp add: ok Let_def)
  then show ?case using s by auto
qed

lemma linked_drop:
  "linked L K prev seq rs \<Longrightarrow> n \<le> length rs \<Longrightarrow>
   linked L K (fst (tip_of prev seq (take n rs))) (seq + int n) (drop n rs)"
  using linked_append [of L K prev seq "take n rs" "drop n rs"] linked_tip [of L K prev seq "take n rs"] by simp

lemma no_conflict:
  assumes "chain_inv L K db" and "audit_lib_ok L"
  shows "loadAuditMirrorState db =
    \<lparr>ms_LegacyHashes = length (db_part db), ms_PartitionHashes = length (db_part db), ms_Drift = False, ms_Conflict = False\<rparr>"
proof -
  have link: "linked L K [] 0 (db_part db)" and same: "db_legacy db = db_part db"
    and dist: "distinct (map ce_ContentHash (db_part db))" using assms(1) by (simp_all add: chain_inv_def)
  have h: "hashed (db_part db) = db_part db" by (rule linked_hashed [OF assms(2) link])
  have seqs: "distinct (map ce_Seq (db_part db))" using sorted_seqs [OF link] by simp
  have one: "r = s" if "r \<in> set (db_part db)" "s \<in> set (db_part db)" "ce_Seq r = ce_Seq s \<or> ce_ContentHash r = ce_ContentHash s" for r s
    using seqs dist that unfolding distinct_map by (auto dest: inj_onD)
  have refl: "same_record r r" for r by (simp add: same_record_def)
  have "\<not> list_ex (\<lambda>r. list_ex (\<lambda>s. ce_Seq r = ce_Seq s \<and> ce_ContentHash r \<noteq> ce_ContentHash s) (db_part db @ db_part db)) (db_part db @ db_part db)"
    using one by (auto simp: list_ex_iff)
  moreover have "\<not> list_ex (\<lambda>r. list_ex (\<lambda>s. ce_ContentHash r = ce_ContentHash s \<and> \<not> same_record r s) (db_part db @ db_part db)) (db_part db @ db_part db)"
    using one refl by (auto simp: list_ex_iff)
  moreover have "\<not> list_ex (\<lambda>h. h \<notin> set (map ce_ContentHash (db_part db))) (map ce_ContentHash (db_part db))"
    by (simp add: list_ex_iff)
  ultimately show ?thesis
    unfolding loadAuditMirrorState_def Let_def h same by (simp add: distinct_remdups_id dist del: list_ex_append)
qed

end
