(* ===== verification/AuditSafety.thy ===== *)
theory AuditSafety
  imports AuditVerify
begin

text \<open>
  The properties of the audit chain: an appended chain verifies, verified chains with the same newest hash
  hold the same entries, and what happens to a chain begun without a configured key.
\<close>

section \<open>Completeness of the verification\<close>

lemma window_linked:
  assumes L: "audit_lib_ok L" and link: "linked L K [] 0 rows" and n: "entries = latest_rows (n + 1) rows"
    and keys: "knows_keys keys K"
  shows "\<exists>s. verify_loop L keys (window_start n entries) 0 None False r entries = Inr (s, False) \<and> unreported s = unreported r"
proof -
  let ?d = "length rows - (n + 1)"
  have entries: "entries = drop ?d rows" using latest_linked [OF L link] n by simp
  have "linked L K (fst (tip_of [] 0 (take ?d rows))) (0 + int ?d) entries"
    unfolding entries by (rule linked_drop [OF link]) simp
  moreover have "window_start n entries = 0 \<Longrightarrow> ?d = 0" using entries by (auto simp: window_start_def split: if_splits)
  ultimately show ?thesis using keys
    by (intro loop_linked) (auto simp: tip_of_def)
qed

lemma appended_verifies:
  assumes L: "audit_lib_ok L" and inv1: "chain_inv L K db1" and inv2: "chain_inv L K db2"
    and keys: "knows_keys (fst (auditChainSigningKeys (ac_hash L) E)) K"
    and limit: "1 \<le> limit" "limit \<le> 5000" and ne: "db_part db1 \<noteq> []"
  shows "\<exists>r. verifyAuditChain L E now limit True True (Some (db1, db2)) = Inr r \<and> vr_OK r \<and>
    vr_Code r = (if auditChainSecretDegraded (ac_hash L) E then ''secret_degraded'' else ''ok'') \<and>
    vr_BrokenAt r = 0 \<and> vr_Checked r = min (nat limit) (length (db_part db1)) \<and> vr_ToSeq r = int (length (db_part db1))"
proof -
  let ?n = "nat limit" and ?rows = "db_part db1"
  let ?entries = "latest_rows (?n + 1) ?rows"
  obtain keys degraded where sk: "auditChainSigningKeys (ac_hash L) E = (keys, degraded)"
    by (cases "auditChainSigningKeys (ac_hash L) E")
  have link: "linked L K [] 0 ?rows" using inv1 by (simp add: chain_inv_def)
  have entries: "?entries = drop (length ?rows - (?n + 1)) ?rows" by (rule latest_linked [OF L link])
  have "0 < length ?rows" using ne by simp
  then have "0 < length ?entries" unfolding entries length_drop by linarith
  then have nonempty: "?entries \<noteq> []" by simp
  let ?r = "(empty_result now)\<lparr>vr_MirrorParity := True\<rparr>"
  have mirrors: "\<not> ms_Conflict (loadAuditMirrorState db2)"
    "(\<not> ms_Drift (loadAuditMirrorState db2) \<and> ms_LegacyHashes (loadAuditMirrorState db2) = ms_PartitionHashes (loadAuditMirrorState db2)) = True"
    using no_conflict [OF inv2 L] by simp_all
  obtain s where s: "verify_loop L keys (window_start ?n ?entries) 0 None False (?r\<lparr>vr_SecretDegraded := degraded\<rparr>) ?entries = Inr (s, False)"
    "unreported s = unreported (?r\<lparr>vr_SecretDegraded := degraded\<rparr>)"
    using window_linked [OF L link refl, of keys ?n "?r\<lparr>vr_SecretDegraded := degraded\<rparr>"] keys sk by auto
  let ?rep = "drop (window_start ?n ?entries) ?entries"
  have rep: "?rep = drop (length ?rows - ?n) ?rows"
    unfolding entries window_start_def by (cases "?n < length ?rows") (simp_all add: Suc_diff_Suc)
  have verified: "verifyAuditChain L E now limit True True (Some (db1, db2)) =
      Inr (verified_result degraded ?rep (?r\<lparr>vr_SecretDegraded := degraded\<rparr>) False)"
    using limit mirrors nonempty s
    by (simp add: verifyAuditChain_def Let_def sk verified_unreported [OF s(2)])
  have last: "?rep \<noteq> []" "last ?rep = last ?rows"
  proof -
    have "length ?rows - ?n < length ?rows" using limit \<open>0 < length ?rows\<close> by (intro diff_less) simp_all
    then show "?rep \<noteq> []" "last ?rep = last ?rows" unfolding rep by (simp_all add: last_drop)
  qed
  have seq: "ce_Seq (last ?rows) = int (length ?rows)"
    using linked_tip [OF link] ne by (simp add: tip_of_def)
  have len: "length ?rep = min ?n (length ?rows)" unfolding rep by simp
  show ?thesis
    unfolding verified using last seq len sk
    by (simp add: verified_result_def Let_def empty_result_def auditChainSecretDegraded_def)
qed

section \<open>The message of a row determines the row\<close>

lemma append_sep_inj: "d \<notin> set xs \<Longrightarrow> d \<notin> set xs' \<Longrightarrow> xs @ d # ys = xs' @ d # ys' \<longleftrightarrow> xs = xs' \<and> ys = ys'"
proof (induction xs arbitrary: xs')
  case Nil
  then show ?case by (cases xs') auto
next
  case (Cons x xs)
  then show ?case by (cases xs') auto
qed

lemma bytes_of_string_inj: "bytes_of_string s = bytes_of_string t \<longleftrightarrow> s = t"
  by (metis string_of_bytes_of_string)

lemma bytes_of_string_nul: "CHR 0x00 \<notin> set s \<Longrightarrow> 0 \<notin> set (bytes_of_string s)"
proof
  assume s: "CHR 0x00 \<notin> set s" and "0 \<in> set (bytes_of_string s)"
  then obtain c where c: "c \<in> set s" "word_of_nat (of_char c) = (0 :: byte)" by (auto simp: bytes_of_string_def)
  have "string_of_bytes (bytes_of_string [c]) = [c]" by simp
  then have "c = char_of (0 :: nat)" using c(2) by (simp add: string_of_bytes_def bytes_of_string_def)
  then have "c = CHR 0x00" by (simp add: char_of_def)
  then show False using s c(1) by simp
qed

lemma show_nat_inj: "show_nat m = show_nat n \<Longrightarrow> m = n"
  by (metis digits_val_show_nat option.inject)

lemma show_int_nul: "CHR 0x00 \<notin> set (show_int n)"
  using show_nat_digits [of "CHR 0x00"] by (auto simp: show_int_def)

lemma message_inj:
  assumes "chain_message v p m n = chain_message v' p' m' n'"
    and "v \<in> {auditChainVersionV1, auditChainVersionV2}" and "v' \<in> {auditChainVersionV1, auditChainVersionV2}"
    and "CHR 0x00 \<notin> set p" and "CHR 0x00 \<notin> set p'" and "0 \<notin> set m" and "0 \<notin> set m'" and "0 < n" and "0 < n'"
  shows "v = v' \<and> p = p' \<and> m = m' \<and> n = n'"
proof -
  note inj = append_sep_inj [of "0 :: byte"]
  let ?d = "bytes_of_string ''aiops-audit-chain/v2''" and ?b = bytes_of_string
  have d: "0 \<notin> set ?d" by (rule bytes_of_string_nul) simp
  have b: "0 \<notin> set (?b p)" "0 \<notin> set (?b p')" "0 \<notin> set (?b (show_int n))" "0 \<notin> set (?b (show_int n'))"
    using assms(4,5) show_int_nul by (simp_all add: bytes_of_string_nul)
  have int_inj: "show_int n = show_int n' \<Longrightarrow> n = n'" using assms(8,9) by (auto simp: show_int_def dest: show_nat_inj)
  have v: "auditChainVersionV1 \<noteq> auditChainVersionV2" by (simp add: auditChainVersionV1_def auditChainVersionV2_def)
  consider "v = v'" | "v = auditChainVersionV1" "v' = auditChainVersionV2" | "v = auditChainVersionV2" "v' = auditChainVersionV1"
    using assms(2,3) by blast
  then show ?thesis
  proof cases
    case 1
    then have "?b p @ 0 # m @ 0 # ?b (show_int n) = ?b p' @ 0 # m' @ 0 # ?b (show_int n')"
      using assms(1) by (auto simp: chain_message_def split: if_splits)
    then show ?thesis using 1 b assms(6,7) int_inj by (simp add: inj bytes_of_string_inj)
  next
    case 2
    then have "?b p @ 0 # m @ 0 # ?b (show_int n) = ?d @ 0 # ?b p' @ 0 # m' @ 0 # ?b (show_int n')"
      using assms(1) v by (simp add: chain_message_def)
    then have "?b (show_int n) = m' @ 0 # ?b (show_int n')" using b d assms(6,7) by (simp add: inj)
    then show ?thesis using b by simp
  next
    case 3
    then have "?b p' @ 0 # m' @ 0 # ?b (show_int n') = ?d @ 0 # ?b p @ 0 # m @ 0 # ?b (show_int n)"
      using assms(1) v by (simp add: chain_message_def)
    then have "?b (show_int n') = m @ 0 # ?b (show_int n)" using b d assms(6,7) by (simp add: inj)
    then show ?thesis using b by simp
  qed
qed

section \<open>Verified windows\<close>

fun chained :: "audit_lib \<Rightarrow> secretKeyEntry list \<Rightarrow> nat \<Rightarrow> auditChainEntry option \<Rightarrow> auditChainEntry list \<Rightarrow> bool" where
  "chained L keys start p [] = True"
| "chained L keys start p (e # es) \<longleftrightarrow>
     0 < ce_Seq e \<and> link_error start p e = None \<and> hr_Matched (verifyAuditEntryHash L e keys) \<and>
     chained L keys start (Some e) es"

lemma loop_chained: "verify_loop L keys start i p legacy r es = Inr s \<Longrightarrow> chained L keys start p es"
proof (induction es arbitrary: i p legacy r)
  case (Cons e es)
  then show ?case by (auto simp: Let_def split: if_splits option.splits)
qed simp

lemma chained_snoc:
  "chained L keys start p (es @ [e]) \<longleftrightarrow>
   chained L keys start p es \<and> 0 < ce_Seq e \<and> link_error start (if es = [] then p else Some (last es)) e = None \<and>
   hr_Matched (verifyAuditEntryHash L e keys)"
  by (induction es arbitrary: p) auto

lemma chained_seq:
  "chained L keys start None (e # es) \<Longrightarrow> ce_Seq (last (e # es)) = ce_Seq e + int (length es)"
proof (induction es rule: rev_induct)
  case (snoc x xs)
  have "chained L keys start None ((e # xs) @ [x])" using snoc.prems by simp
  then have c: "chained L keys start None (e # xs)" and "link_error start (Some (last (e # xs))) x = None"
    unfolding chained_snoc by auto
  then have "ce_Seq x = ce_Seq (last (e # xs)) + 1" by (auto simp: link_error_def split: if_splits)
  then show ?case using snoc.IH [OF c] by simp
qed simp

text \<open>What HMAC is computed on for a list of rows under a list of keys.\<close>

definition hmac_inputs :: "audit_lib \<Rightarrow> secretKeyEntry list \<Rightarrow> auditChainEntry list \<Rightarrow> (bytes \<times> bytes) list" where
  "hmac_inputs L keys rows =
     concat (map (\<lambda>r. case canonicalAuditPayload L (ce_Data r) of Inl _ \<Rightarrow> []
        | Inr p \<Rightarrow> map (\<lambda>k. (sk_Key k, chain_message (ce_ChainVersion r) (ce_PrevHash r) p (ce_Seq r))) keys) rows)"

definition no_collision :: "audit_lib \<Rightarrow> (bytes \<times> bytes) list \<Rightarrow> (bytes \<times> bytes) list \<Rightarrow> bool" where
  "no_collision L xs ys \<longleftrightarrow>
     list_all (\<lambda>(k, m). list_all (\<lambda>(k', m'). hmac256 (ac_hash L) k m = hmac256 (ac_hash L) k' m' \<longrightarrow> m = m') ys) xs"

definition text_columns :: "auditChainEntry list \<Rightarrow> bool" where
  "text_columns rows \<longleftrightarrow> list_all (\<lambda>r. CHR 0x00 \<notin> set (ce_PrevHash r)) rows"

definition row_view :: "audit_lib \<Rightarrow> auditChainEntry \<Rightarrow> int \<times> int \<times> string \<times> LogEntry option" where
  "row_view L r = (ce_Seq r, ce_ChainVersion r, ce_PrevHash r, ac_unmarshal L (ce_Data r))"

lemma match_v1_hash: "hr_Matched (match_v1 H e p keys) \<Longrightarrow>
    \<exists>k\<in>set keys. ce_ContentHash e = computeAuditChainHash H (sk_Key k) auditChainVersionV1 (ce_PrevHash e) p (ce_Seq e)"
  by (induction keys) (auto split: if_splits)

lemma match_v2_hash: "hr_Matched (match_v2 H e p keys) \<Longrightarrow>
    \<exists>k\<in>set keys. ce_ContentHash e = computeAuditChainHash H (sk_Key k) auditChainVersionV2 (ce_PrevHash e) p (ce_Seq e)"
  by (induction keys) (auto split: if_splits)

lemma matched_row:
  assumes "hr_Matched (verifyAuditEntryHash L e keys)"
  obtains p k where "canonicalAuditPayload L (ce_Data e) = Inr p" and "k \<in> set keys"
    and "ce_ChainVersion e \<in> {auditChainVersionV1, auditChainVersionV2}"
    and "ce_ContentHash e = hex_encode (hmac256 (ac_hash L) (sk_Key k) (chain_message (ce_ChainVersion e) (ce_PrevHash e) p (ce_Seq e)))"
proof -
  obtain p where p: "canonicalAuditPayload L (ce_Data e) = Inr p"
    using assms by (auto simp: verifyAuditEntryHash_def split: sum.splits)
  show thesis
  proof (cases "ce_ChainVersion e = auditChainVersionV1")
    case True
    then show thesis using assms p that match_v1_hash [of "ac_hash L" e p keys]
      by (auto simp: verifyAuditEntryHash_def computeAuditChainHash_def)
  next
    case False
    then show thesis using assms p that match_v2_hash [of "ac_hash L" e p keys]
      by (auto simp: verifyAuditEntryHash_def computeAuditChainHash_def split: if_splits)
  qed
qed

lemma hex_encode_inj: "hex_encode a = hex_encode b \<Longrightarrow> a = b"
  by (metis hex_roundtrip option.inject)

lemma canonical_entry:
  assumes "audit_lib_ok L" and "canonicalAuditPayload L a = Inr p" and "canonicalAuditPayload L b = Inr p"
  shows "ac_unmarshal L a = ac_unmarshal L b" and "0 \<notin> set p"
proof -
  obtain e f where e: "ac_unmarshal L a = Some e" "p = ac_marshal L e" and f: "ac_unmarshal L b = Some f" "p = ac_marshal L f"
    using assms(2,3) by (auto simp: canonicalAuditPayload_def split: option.splits if_splits)
  have "entry_ok e" "entry_ok f" using assms(1) e(1) f(1) unfolding audit_lib_ok_def by blast+
  then have "Some e = ac_unmarshal L p" "Some f = ac_unmarshal L p" using assms(1) e(2) f(2) unfolding audit_lib_ok_def by metis+
  then show "ac_unmarshal L a = ac_unmarshal L b" using e f by simp
  show "0 \<notin> set p" using assms(1) e(2) unfolding audit_lib_ok_def by blast
qed

lemma same_hash_same_row:
  assumes L: "audit_lib_ok L" and x: "hr_Matched (verifyAuditEntryHash L x keys)" "0 < ce_Seq x" "CHR 0x00 \<notin> set (ce_PrevHash x)"
    and y: "hr_Matched (verifyAuditEntryHash L y keys)" "0 < ce_Seq y" "CHR 0x00 \<notin> set (ce_PrevHash y)"
    and same: "ce_ContentHash x = ce_ContentHash y"
    and free: "no_collision L (hmac_inputs L keys [x]) (hmac_inputs L keys [y])"
  shows "row_view L x = row_view L y"
proof -
  obtain p k where p: "canonicalAuditPayload L (ce_Data x) = Inr p" "k \<in> set keys"
    "ce_ChainVersion x \<in> {auditChainVersionV1, auditChainVersionV2}"
    "ce_ContentHash x = hex_encode (hmac256 (ac_hash L) (sk_Key k) (chain_message (ce_ChainVersion x) (ce_PrevHash x) p (ce_Seq x)))"
    by (rule matched_row [OF x(1)])
  obtain q j where q: "canonicalAuditPayload L (ce_Data y) = Inr q" "j \<in> set keys"
    "ce_ChainVersion y \<in> {auditChainVersionV1, auditChainVersionV2}"
    "ce_ContentHash y = hex_encode (hmac256 (ac_hash L) (sk_Key j) (chain_message (ce_ChainVersion y) (ce_PrevHash y) q (ce_Seq y)))"
    by (rule matched_row [OF y(1)])
  have "hmac256 (ac_hash L) (sk_Key k) (chain_message (ce_ChainVersion x) (ce_PrevHash x) p (ce_Seq x)) =
        hmac256 (ac_hash L) (sk_Key j) (chain_message (ce_ChainVersion y) (ce_PrevHash y) q (ce_Seq y))"
    using same p(4) q(4) hex_encode_inj by simp
  moreover have "(sk_Key k, chain_message (ce_ChainVersion x) (ce_PrevHash x) p (ce_Seq x)) \<in> set (hmac_inputs L keys [x])"
    "(sk_Key j, chain_message (ce_ChainVersion y) (ce_PrevHash y) q (ce_Seq y)) \<in> set (hmac_inputs L keys [y])"
    using p(1,2) q(1,2) by (simp_all add: hmac_inputs_def)
  ultimately have "chain_message (ce_ChainVersion x) (ce_PrevHash x) p (ce_Seq x) =
      chain_message (ce_ChainVersion y) (ce_PrevHash y) q (ce_Seq y)"
    using free by (fastforce simp: no_collision_def list_all_iff)
  then have eq: "ce_ChainVersion x = ce_ChainVersion y \<and> ce_PrevHash x = ce_PrevHash y \<and> p = q \<and> ce_Seq x = ce_Seq y"
    using p q x y canonical_entry(2) [OF L] by (intro message_inj) blast+
  then show ?thesis using canonical_entry(1) [OF L p(1)] q(1) by (simp add: row_view_def)
qed

lemma no_collision_mono:
  "no_collision L xs ys \<Longrightarrow> set xs' \<subseteq> set xs \<Longrightarrow> set ys' \<subseteq> set ys \<Longrightarrow> no_collision L xs' ys'"
  unfolding no_collision_def list_all_iff by blast

lemma hmac_inputs_sub: "r \<in> set rows \<Longrightarrow> set (hmac_inputs L keys [r]) \<subseteq> set (hmac_inputs L keys rows)"
  by (auto simp: hmac_inputs_def)

lemma hmac_inputs_mono: "set rows \<subseteq> set rows' \<Longrightarrow> set (hmac_inputs L keys rows) \<subseteq> set (hmac_inputs L keys rows')"
  unfolding hmac_inputs_def set_concat set_map by blast

lemma windows_agree:
  assumes L: "audit_lib_ok L" and "length xs = length ys" and "chained L keys a None xs" and "chained L keys b None ys"
    and "text_columns xs" and "text_columns ys" and "xs \<noteq> [] \<Longrightarrow> ce_ContentHash (last xs) = ce_ContentHash (last ys)"
    and free: "no_collision L (hmac_inputs L keys xs) (hmac_inputs L keys ys)"
  shows "map (row_view L) xs = map (row_view L) ys"
  using assms(2-)
proof (induction xs arbitrary: ys rule: rev_induct)
  case (snoc x xs)
  then obtain y ys' where ys: "ys = ys' @ [y]" by (cases ys rule: rev_cases) auto
  have len: "length xs = length ys'" using snoc.prems(1) ys by simp
  have cx: "chained L keys a None xs" "0 < ce_Seq x" "hr_Matched (verifyAuditEntryHash L x keys)"
      "link_error a (if xs = [] then None else Some (last xs)) x = None"
    using snoc.prems(2) by (simp_all add: chained_snoc)
  have cy: "chained L keys b None ys'" "0 < ce_Seq y" "hr_Matched (verifyAuditEntryHash L y keys)"
      "link_error b (if ys' = [] then None else Some (last ys')) y = None"
    using snoc.prems(3) by (simp_all add: chained_snoc ys)
  have cols: "text_columns xs" "text_columns ys'" "CHR 0x00 \<notin> set (ce_PrevHash x)" "CHR 0x00 \<notin> set (ce_PrevHash y)"
    using snoc.prems(4,5) by (simp_all add: text_columns_def ys)
  have "no_collision L (hmac_inputs L keys [x]) (hmac_inputs L keys [y])"
    by (rule no_collision_mono [OF snoc.prems(7)]) (rule hmac_inputs_sub; simp add: ys)+
  then have xy: "row_view L x = row_view L y"
    using same_hash_same_row [OF L cx(3,2) cols(3) cy(3,2) cols(4)] snoc.prems(6) ys by simp
  have "ce_ContentHash (last xs) = ce_ContentHash (last ys')" if "xs \<noteq> []"
  proof -
    have "ys' \<noteq> []" using that len by auto
    then have "ce_PrevHash x = ce_ContentHash (last xs)" "ce_PrevHash y = ce_ContentHash (last ys')"
      using that cx(4) cy(4) by (auto simp: link_error_def split: if_splits)
    then show ?thesis using xy by (simp add: row_view_def)
  qed
  moreover have "no_collision L (hmac_inputs L keys xs) (hmac_inputs L keys ys')"
    by (rule no_collision_mono [OF snoc.prems(7)]) (auto simp: hmac_inputs_def ys)
  ultimately have "map (row_view L) xs = map (row_view L) ys'"
    using snoc.IH [OF len cx(1) cy(1) cols(1,2)] by blast
  then show ?case using xy ys by simp
qed simp

text \<open>The window of a verification that succeeds, and how long it is.\<close>

lemma verified_window:
  assumes "verifyAuditChain L E now limit True True (Some (db1, db2)) = Inr r" and "vr_OK r"
    and w: "w = latest_rows (nat limit + 1) (db_part db1)"
  shows "chained L (fst (auditChainSigningKeys (ac_hash L) E)) (window_start (nat limit) w) None w"
    and "w \<noteq> []" and "1 \<le> limit"
proof -
  have fails: "\<not> vr_OK x" if "verify_loop L k s i p l r0 es = Inl x" for x k s i p l r0 es
    using that by (induction es arbitrary: i p l r0) (auto simp: Let_def auditChainFailure_def split: if_splits option.splits)
  obtain keys degraded where sk: "auditChainSigningKeys (ac_hash L) E = (keys, degraded)"
    by (cases "auditChainSigningKeys (ac_hash L) E")
  show limit: "1 \<le> limit" using assms(1) by (simp add: verifyAuditChain_def split: if_splits)
  show "w \<noteq> []" using assms by (auto simp: verifyAuditChain_def Let_def empty_result_def split: if_splits)
  then obtain r0 where "(case verify_loop L keys (window_start (nat limit) w) 0 None False r0 w of
      Inl failed \<Rightarrow> Inr failed | Inr (r1, legacy) \<Rightarrow> Inr (verified_result degraded (drop (window_start (nat limit) w) w) r1 legacy))
      = (Inr r :: audit_error + auditChainVerifyResult)"
    using assms sk by (auto simp: verifyAuditChain_def Let_def empty_result_def split: if_splits)
  then obtain s where "verify_loop L keys (window_start (nat limit) w) 0 None False r0 w = Inr s"
    using fails assms(2) by (cases "verify_loop L keys (window_start (nat limit) w) 0 None False r0 w") auto
  then show "chained L (fst (auditChainSigningKeys (ac_hash L) E)) (window_start (nat limit) w) None w"
    using sk loop_chained by simp
qed

lemma latest_length: "length (latest_rows n rows) \<le> n"
  by (simp add: latest_rows_def Let_def)

lemma window_length:
  assumes c: "chained L keys (window_start n w) None w" and ne: "w \<noteq> []" and len: "length w \<le> n + 1"
  shows "length w = (if ce_Seq (last w) \<le> int n then nat (ce_Seq (last w)) else n + 1)"
proof -
  obtain e es where w: "w = e # es" using ne by (cases w) auto
  have seq: "ce_Seq (last w) = ce_Seq e + int (length es)" unfolding w by (rule chained_seq [OF c [unfolded w]])
  have e: "0 < ce_Seq e" and le: "link_error (window_start n w) None e = None" using c w by simp_all
  show ?thesis
  proof (cases "n < length w")
    case True
    then have "length es = n" using len w by simp
    then show ?thesis using seq e w by simp
  next
    case False
    then have "ce_Seq e = 1" using le by (simp add: window_start_def link_error_def split: if_splits)
    then show ?thesis using seq w False by simp
  qed
qed

lemma latest_shorter: "latest_rows n rows = (let w = latest_rows (n + 1) rows in drop (length w - n) w)"
  by (cases "n < length (by_seq (hashed rows))") (simp_all add: latest_rows_def Let_def Suc_diff_Suc)

lemma tip_last: "latest_rows (n + 1) rows \<noteq> [] \<Longrightarrow> fst (chain_tip db) = ce_ContentHash (last (latest_rows (n + 1) rows))"
  if "rows = db_part db" for rows
proof -
  let ?s = "by_seq (hashed rows)"
  assume "latest_rows (n + 1) rows \<noteq> []"
  then have s: "?s \<noteq> []" by (auto simp: latest_rows_def Let_def)
  then have "last (latest_rows (n + 1) rows) = last ?s" by (simp add: latest_rows_def Let_def last_drop)
  moreover have "latest_rows 1 rows = [last ?s]"
    using s by (cases ?s rule: rev_cases) (simp_all add: latest_rows_def Let_def)
  ultimately show ?thesis using that by (simp add: chain_tip_def)
qed

lemma text_columns_latest: "text_columns rows \<Longrightarrow> text_columns (latest_rows n rows)"
  by (auto simp: text_columns_def list_all_iff latest_rows_def Let_def by_seq_def hashed_def dest!: in_set_dropD)

lemma tamper_evident:
  assumes L: "audit_lib_ok L"
    and A: "verifyAuditChain L E now limit True True (Some (A, A')) = Inr ra" "vr_OK ra"
    and B: "verifyAuditChain L E now' limit True True (Some (B, B')) = Inr rb" "vr_OK rb"
    and cols: "text_columns (db_part A)" "text_columns (db_part B)"
    and tip: "fst (chain_tip A) = fst (chain_tip B)"
    and free: "no_collision L (hmac_inputs L (fst (auditChainSigningKeys (ac_hash L) E)) (db_part A))
                              (hmac_inputs L (fst (auditChainSigningKeys (ac_hash L) E)) (db_part B))"
  shows "map (row_view L) (latest_rows (nat limit) (db_part A)) = map (row_view L) (latest_rows (nat limit) (db_part B))"
proof -
  let ?keys = "fst (auditChainSigningKeys (ac_hash L) E)" and ?n = "nat limit"
  let ?a = "latest_rows (?n + 1) (db_part A)" and ?b = "latest_rows (?n + 1) (db_part B)"
  note wa = verified_window [OF A refl] and wb = verified_window [OF B refl]
  have sub: "set (hmac_inputs L ?keys (latest_rows m rows)) \<subseteq> set (hmac_inputs L ?keys rows)" for m rows
    by (rule hmac_inputs_mono) (auto simp: latest_rows_def Let_def by_seq_def hashed_def dest!: in_set_dropD)
  have last: "ce_ContentHash (last ?a) = ce_ContentHash (last ?b)"
    using tip tip_last [OF refl wa(2)] tip_last [OF refl wb(2)] by simp
  have lasta: "chained L ?keys (window_start ?n ?a) None (butlast ?a @ [last ?a])"
    and lastb: "chained L ?keys (window_start ?n ?b) None (butlast ?b @ [last ?b])" using wa wb by simp_all
  have in_cols: "CHR 0x00 \<notin> set (ce_PrevHash (last ?a))" "CHR 0x00 \<notin> set (ce_PrevHash (last ?b))"
    using text_columns_latest [OF cols(1), of "?n + 1"] text_columns_latest [OF cols(2), of "?n + 1"] wa(2) wb(2)
    by (simp_all add: text_columns_def list_all_iff)
  have "no_collision L (hmac_inputs L ?keys [last ?a]) (hmac_inputs L ?keys [last ?b])"
    by (rule no_collision_mono [OF free]; rule subset_trans [OF _ sub [of "?n + 1"]]; rule hmac_inputs_sub) (use wa wb in simp_all)
  then have "row_view L (last ?a) = row_view L (last ?b)"
    using lasta lastb in_cols last unfolding chained_snoc by (intro same_hash_same_row [OF L]) blast+
  then have "ce_Seq (last ?a) = ce_Seq (last ?b)" by (simp add: row_view_def)
  then have len: "length ?a = length ?b"
    using window_length [OF wa(1,2) latest_length] window_length [OF wb(1,2) latest_length] by simp
  have "map (row_view L) ?a = map (row_view L) ?b"
    by (rule windows_agree [OF L len wa(1) wb(1) text_columns_latest [OF cols(1)] text_columns_latest [OF cols(2)] last
          no_collision_mono [OF free sub sub]])
  then show ?thesis using len
    by (simp add: latest_shorter [of ?n "db_part A"] latest_shorter [of ?n "db_part B"] Let_def drop_map [symmetric])
qed

section \<open>A chain begun without a configured key\<close>

lemma configured_keys:
  "loadSecretKey H E = Some k \<Longrightarrow>
   \<exists>ks. auditChainSigningKeys H E = (\<lparr>sk_ID = currentSecretKeyID E, sk_Key = k\<rparr> # ks, False)"
  by (cases "trim_space (env_key E) = []"; cases "trim_space (env_prev E) = []")
    (auto simp: auditChainSigningKeys_def loadAllSecretKeys_def loadSecretKey_def deriveKeyFromPassphrase_def Let_def)

lemma default_chain_breaks:
  assumes L: "audit_lib_ok L" and inv: "chain_inv L {(currentSecretKeyID E, sha256 (ac_hash L) (bytes_of_string default_audit_secret))} db"
    and key: "loadSecretKey (ac_hash L) E = Some k"
    and other: "\<forall>m. hmac256 (ac_hash L) k m \<noteq> hmac256 (ac_hash L) (sha256 (ac_hash L) (bytes_of_string default_audit_secret)) m"
    and limit: "1 \<le> limit" "limit \<le> 5000" and ne: "db_part db \<noteq> []"
  shows "\<exists>r. verifyAuditChain L E now limit True True (Some (db, db)) = Inr r \<and> \<not> vr_OK r \<and>
    vr_Status r = ''broken'' \<and> vr_Code r = ''content_hash_mismatch''"
proof -
  let ?H = "ac_hash L" and ?rows = "db_part db" and ?n = "nat limit"
  let ?K = "{(currentSecretKeyID E, sha256 ?H (bytes_of_string default_audit_secret))}"
  let ?w = "latest_rows (?n + 1) ?rows"
  have link: "linked L ?K [] 0 ?rows" using inv by (simp add: chain_inv_def)
  have "length ?rows - (?n + 1) < length ?rows" using ne by simp
  then have "?w \<noteq> []" using latest_linked [OF L link] by simp
  then obtain e es where w: "?w = e # es" by (cases ?w) auto
  have "e \<in> set (drop (length ?rows - (?n + 1)) ?rows)" using w latest_linked [OF L link, of "?n + 1"] by (metis list.set_intros(1))
  then have e: "row_ok L ?K e" "0 < ce_Seq e" using linked_row_ok [OF link] in_set_dropD by metis+
  have wl: "linked L ?K (fst (tip_of [] 0 (take (length ?rows - (?n + 1)) ?rows))) (0 + int (length ?rows - (?n + 1))) ?w"
    unfolding latest_linked [OF L link] by (rule linked_drop [OF link]) simp
  have "window_start ?n ?w = 0 \<Longrightarrow> length ?rows - (?n + 1) = 0"
    using latest_linked [OF L link, of "?n + 1"] by (auto simp: window_start_def split: if_splits)
  then have ok: "link_error (window_start ?n ?w) None e = None" using wl w by (auto simp: link_error_def tip_of_def)
  obtain ks where keys: "auditChainSigningKeys ?H E = (\<lparr>sk_ID = currentSecretKeyID E, sk_Key = k\<rparr> # ks, False)"
    using configured_keys [OF key] by blast
  obtain p where p: "canonicalAuditPayload L (ce_Data e) = Inr p" "ce_ChainKeyID e = currentSecretKeyID E"
    "ce_ContentHash e = computeAuditChainHash ?H (sha256 ?H (bytes_of_string default_audit_secret)) auditChainVersionV2 (ce_PrevHash e) p (ce_Seq e)"
    "ce_ChainVersion e = auditChainVersionV2"
    using e(1) by (auto simp: row_ok_def)
  have "computeAuditChainHash ?H k auditChainVersionV2 (ce_PrevHash e) p (ce_Seq e) \<noteq> ce_ContentHash e"
    using other hex_encode_inj unfolding p(3) computeAuditChainHash_def by blast
  then have h: "verifyAuditEntryHash L e (fst (auditChainSigningKeys ?H E)) =
      \<lparr>hr_Matched = False, hr_Code = ''content_hash_mismatch'', hr_KeyID = currentSecretKeyID E\<rparr>"
    using p keys by (simp add: verifyAuditEntryHash_def auditChainVersionV1_def auditChainVersionV2_def)
  have loop: "verify_loop L (fst (auditChainSigningKeys ?H E)) (window_start ?n ?w) 0 None False r ?w =
      Inl (auditChainFailure (note_progress (window_start ?n ?w) 0 e r) ''broken'' ''content_hash_mismatch'' (ce_Seq e))" for r
    using e(2) ok h unfolding w by (simp add: Let_def hash_status_def)
  show ?thesis
    using limit no_conflict [OF inv L] \<open>?w \<noteq> []\<close> keys loop
    by (simp add: verifyAuditChain_def Let_def auditChainFailure_def)
qed

section \<open>Properties\<close>

text \<open>C7. Whatever sequence of appends ran, with whichever of them failed and whichever configured keys signed
  the others, the verification of the chain succeeds as long as the server still knows those keys: it
  reports the newest entries up to its limit, with code ok, or secret_degraded when no key is configured
  now. This also holds when further appends run between the two queries of the verification.\<close>

theorem appended_chain_verifies:
  assumes "audit_lib_ok L" and "list_all (signed_with L K) (es @ fs)"
    and "knows_keys (fst (auditChainSigningKeys (ac_hash L) E)) K" and "1 \<le> limit" and "limit \<le> 5000"
    and "db_part (run (audit_step L) empty_db es) \<noteq> []"
  shows "\<exists>r. verifyAuditChain L E now limit True True
      (Some (run (audit_step L) empty_db es, run (audit_step L) empty_db (es @ fs))) = Inr r \<and> vr_OK r \<and>
    vr_Code r = (if auditChainSecretDegraded (ac_hash L) E then ''secret_degraded'' else ''ok'') \<and>
    vr_BrokenAt r = 0 \<and> vr_Checked r = min (nat limit) (length (db_part (run (audit_step L) empty_db es))) \<and>
    vr_ToSeq r = int (length (db_part (run (audit_step L) empty_db es)))"
proof -
  have "chain_inv L K (run (audit_step L) empty_db es)" "chain_inv L K (run (audit_step L) empty_db (es @ fs))"
    using assms(1,2) chain.inv_run [of L K es] chain.inv_run [of L K "es @ fs"] by simp_all
  then show ?thesis using appended_verifies [OF assms(1) _ _ assms(3-6)] by blast
qed

text \<open>C6. Two states of the audit tables that both pass the verification under the same keys and have the same
  newest hash report the same entries: number, version, predecessor and content of every row. So nobody
  can alter, drop or insert an entry below the tip without a hash collision among the rows themselves.\<close>

theorem audit_chain_tamper_evident:
  assumes "audit_lib_ok L"
    and "verifyAuditChain L E now limit True True (Some (A, A')) = Inr ra" and "vr_OK ra"
    and "verifyAuditChain L E now' limit True True (Some (B, B')) = Inr rb" and "vr_OK rb"
    and "text_columns (db_part A)" and "text_columns (db_part B)" and "fst (chain_tip A) = fst (chain_tip B)"
    and "no_collision L (hmac_inputs L (fst (auditChainSigningKeys (ac_hash L) E)) (db_part A))
                        (hmac_inputs L (fst (auditChainSigningKeys (ac_hash L) E)) (db_part B))"
  shows "map (row_view L) (latest_rows (nat limit) (db_part A)) = map (row_view L) (latest_rows (nat limit) (db_part B))"
  by (rule tamper_evident [OF assms])

text \<open>A chain begun before AIOPS_SECRET_KEY was set is signed with a built-in key under the id the configured
  key will have. Once the operator configures the key, as the log message asks, the untouched chain is
  reported as broken with a content mismatch.\<close>

theorem configured_key_breaks_chain:
  assumes "audit_lib_ok L"
    and "list_all (signed_with L {(currentSecretKeyID E, sha256 (ac_hash L) (bytes_of_string default_audit_secret))}) es"
    and "loadSecretKey (ac_hash L) E = Some k"
    and "\<forall>m. hmac256 (ac_hash L) k m \<noteq> hmac256 (ac_hash L) (sha256 (ac_hash L) (bytes_of_string default_audit_secret)) m"
    and "1 \<le> limit" and "limit \<le> 5000" and "db_part (run (audit_step L) empty_db es) \<noteq> []"
  shows "\<exists>r. verifyAuditChain L E now limit True True
      (Some (run (audit_step L) empty_db es, run (audit_step L) empty_db es)) = Inr r \<and> \<not> vr_OK r \<and>
    vr_Status r = ''broken'' \<and> vr_Code r = ''content_hash_mismatch''"
  using default_chain_breaks [OF assms(1) _ assms(3-7)] chain.inv_run [OF assms(2)] assms(1) by blast

section \<open>Witnesses\<close>

text \<open>A toy library: fields in hex, separated by commas; a digest shows its key and the end of its text.\<close>

definition toy_fields :: "LogEntry \<Rightarrow> string list" where
  "toy_fields e = [le_Kind e, le_Level e, le_Actor e, le_Username e, le_IP e, le_Host e, le_Message e]"

definition toy_marshal :: "LogEntry \<Rightarrow> bytes" where
  "toy_marshal e =
     bytes_of_string (join '','' (show_int (le_Timestamp e) # map (\<lambda>s. hex_encode (bytes_of_string s)) (toy_fields e)))"

definition toy_text :: "string \<Rightarrow> string" where
  "toy_text s = (case hex_decode s of None \<Rightarrow> [] | Some b \<Rightarrow> string_of_bytes b)"

definition toy_unmarshal :: "bytes \<Rightarrow> LogEntry option" where
  "toy_unmarshal b =
     (case split_sep (string_of_bytes b) '','' of
        [t, k, l, a, u, i, h, m] \<Rightarrow>
          (case parse_int 10 t of
             None \<Rightarrow> None
           | Some n \<Rightarrow>
               let e = \<lparr>le_Timestamp = n, le_Kind = toy_text k, le_Level = toy_text l, le_Actor = toy_text a,
                        le_Username = toy_text u, le_IP = toy_text i, le_Host = toy_text h, le_Message = toy_text m\<rparr>
               in if entry_ok e then Some e else None)
      | _ \<Rightarrow> None)"

definition toy_audit :: audit_lib where
  "toy_audit =
     \<lparr>ac_hash = \<lparr>hmac256 = (\<lambda>k m. take 32 (take 16 k @ rev m @ replicate 32 0)), sha256 = (\<lambda>m. take 32 (m @ replicate 32 0))\<rparr>,
      ac_marshal = toy_marshal, ac_unmarshal = toy_unmarshal, ac_jsonb = Some\<rparr>"

lemma hex_chars: "c \<in> set (hex_encode bs) \<Longrightarrow> hex_digit c \<noteq> None"
proof (induction bs)
  case (Cons b bs)
  have "unat b div 16 < 16" using unat_byte_less [of b] by (simp add: div_less_iff_less_mult)
  then show ?case using Cons by (auto simp: hex_digit_digit_char)
qed simp

lemma hex_plain: "CHR '','' \<notin> set (hex_encode bs)" "CHR 0x00 \<notin> set (hex_encode bs)"
proof -
  have "hex_digit (CHR '','') = None" "hex_digit (CHR 0x00) = None" by (simp_all add: hex_digit_def digit_val_def)
  then show "CHR '','' \<notin> set (hex_encode bs)" "CHR 0x00 \<notin> set (hex_encode bs)" using hex_chars by blast+
qed

lemma show_int_comma: "CHR '','' \<notin> set (show_int n)"
  using show_nat_digits [of "CHR '',''"] by (auto simp: show_int_def)

lemma parse_int_show_int: "- (2 ^ 63) \<le> n \<Longrightarrow> n < 2 ^ 63 \<Longrightarrow> parse_int 10 (show_int n) = Some n"
proof (cases "n < 0")
  case True
  assume "- (2 ^ 63) \<le> n"
  then have "nat (- n) \<le> 2 ^ 63" by simp
  then show ?thesis using True by (simp add: show_int_def parse_int_def Let_def digits_val_show_nat)
next
  case False
  assume "n < 2 ^ 63"
  then have "nat n < 2 ^ 63" using False by simp
  then show ?thesis using False parse_int_show_nat [of "nat n"] by (simp add: show_int_def)
qed

lemma toy_text_hex: "toy_text (hex_encode (bytes_of_string s)) = s"
  by (simp add: toy_text_def hex_roundtrip)

lemma toy_roundtrip: "entry_ok e \<Longrightarrow> toy_unmarshal (toy_marshal e) = Some e"
proof -
  assume e: "entry_ok e"
  let ?xs = "show_int (le_Timestamp e) # map (\<lambda>s. hex_encode (bytes_of_string s)) (toy_fields e)"
  have "split_sep (join '','' ?xs) '','' = ?xs"
    by (rule split_sep_join) (auto simp: show_int_comma hex_plain)
  moreover have "parse_int 10 (show_int (le_Timestamp e)) = Some (le_Timestamp e)"
    using e by (intro parse_int_show_int) (simp_all add: entry_ok_def)
  ultimately show ?thesis using e by (cases e) (simp add: toy_unmarshal_def toy_marshal_def toy_fields_def toy_text_hex Let_def)
qed

lemma toy_audit_ok: "audit_lib_ok toy_audit"
proof -
  have "entry_ok e" if "toy_unmarshal b = Some e" for b e
    using that by (auto simp: toy_unmarshal_def Let_def split: list.splits option.splits if_splits)
  moreover have "0 \<notin> set (toy_marshal e)" for e
  proof -
    let ?xs = "show_int (le_Timestamp e) # map (\<lambda>s. hex_encode (bytes_of_string s)) (toy_fields e)"
    have "CHR 0x00 \<notin> set (join '','' ?xs)"
      using set_join [of "'',''" ?xs] show_int_nul hex_plain(2) by fastforce
    then show ?thesis unfolding toy_marshal_def by (rule bytes_of_string_nul)
  qed
  ultimately show ?thesis using toy_roundtrip
    by (auto simp: audit_lib_ok_def toy_audit_def hash_lib_ok_def min_def)
qed

definition toy_entry :: LogEntry where
  "toy_entry = \<lparr>le_Timestamp = 7, le_Kind = ''op'', le_Level = ''info'', le_Actor = ''a'', le_Username = [], le_IP = [],
     le_Host = [], le_Message = ''m''\<rparr>"

definition toy_row :: "secret_env \<Rightarrow> auditChainEntry" where
  "toy_row E = \<lparr>ce_ID = 1, ce_TS = 7, ce_Data = toy_marshal toy_entry,
     ce_ContentHash = computeAuditChainHash (ac_hash toy_audit) (snd (signing_key (ac_hash toy_audit) E)) auditChainVersionV2 []
       (toy_marshal toy_entry) 1,
     ce_PrevHash = [], ce_Seq = 1, ce_ChainVersion = auditChainVersionV2,
     ce_ChainKeyID = fst (signing_key (ac_hash toy_audit) E)\<rparr>"

lemma toy_entry_ok: "entry_ok toy_entry"
  by (auto simp: entry_ok_def toy_entry_def bytes_of_string_def intro!: to_valid_utf8_ascii)

lemma toy_canonical: "canonicalAuditPayload toy_audit (toy_marshal toy_entry) = Inr (toy_marshal toy_entry)"
  using toy_roundtrip [OF toy_entry_ok]
  by (simp add: canonicalAuditPayload_def toy_audit_def) (simp add: toy_entry_def trim_space_def is_space_def)

definition toy_append :: "secret_env \<Rightarrow> audit_event" where
  "toy_append E = EvAppend E 5 1 None toy_entry"

lemma toy_run: "run (audit_step toy_audit) empty_db [toy_append E] = \<lparr>db_legacy = [toy_row E], db_part = [toy_row E]\<rparr>"
proof -
  have "\<not> le_Timestamp toy_entry \<le> 0" "le_Timestamp toy_entry = 7" by (simp_all add: toy_entry_def)
  moreover have "ac_marshal toy_audit = toy_marshal" "ac_jsonb toy_audit = Some" by (simp_all add: toy_audit_def)
  moreover have "chain_tip empty_db = ([], 0)" by (simp add: chain_tip_def latest_rows_def by_seq_def hashed_def empty_db_def)
  ultimately show ?thesis
    by (simp add: toy_append_def appendAuditChained_def toy_canonical Let_def toy_row_def signing_key_def
        legacy_unique_def part_unique_def empty_db_def)
qed

definition no_key_env :: secret_env where
  "no_key_env = \<lparr>env_key = [], env_key_id = [], env_prev = []\<rparr>"

definition some_key_env :: secret_env where
  "some_key_env = \<lparr>env_key = ''pw'', env_key_id = [], env_prev = []\<rparr>"

lemma toy_env_keys:
  "auditChainSigningKeys H no_key_env = ([\<lparr>sk_ID = ''v1'', sk_Key = sha256 H (bytes_of_string default_audit_secret)\<rparr>], True)"
  "auditChainSigningKeys H some_key_env = ([\<lparr>sk_ID = ''v1'', sk_Key = sha256 H (bytes_of_string ''pw'')\<rparr>], False)"
  "loadSecretKey H some_key_env = Some (sha256 H (bytes_of_string ''pw''))" "currentSecretKeyID some_key_env = ''v1''"
  by (simp_all add: auditChainSigningKeys_def loadAllSecretKeys_def loadSecretKey_def deriveKeyFromPassphrase_def
      currentSecretKeyID_def no_key_env_def some_key_env_def trim_space_def is_space_def)

lemma appended_chain_verifies_witness:
  "\<exists>r. verifyAuditChain toy_audit some_key_env 9 200 True True
      (Some (\<lparr>db_legacy = [toy_row some_key_env], db_part = [toy_row some_key_env]\<rparr>,
             \<lparr>db_legacy = [toy_row some_key_env], db_part = [toy_row some_key_env]\<rparr>)) = Inr r \<and> vr_OK r"
proof -
  let ?K = "{signing_key (ac_hash toy_audit) some_key_env}"
  have signed: "list_all (signed_with toy_audit ?K) ([toy_append some_key_env] @ [])" by (simp add: toy_append_def)
  have keys: "knows_keys (fst (auditChainSigningKeys (ac_hash toy_audit) some_key_env)) ?K"
    by (simp add: knows_keys_def signing_key_def toy_env_keys)
  have ne: "db_part (run (audit_step toy_audit) empty_db [toy_append some_key_env]) \<noteq> []" unfolding toy_run by simp
  show ?thesis
    using appended_chain_verifies [OF toy_audit_ok signed keys _ _ ne, of 200 9] unfolding append_Nil2 toy_run by auto
qed

lemma toy_verifies:
  assumes "ts \<in> {7, 99}"
  shows "\<exists>r. verifyAuditChain toy_audit some_key_env 9 200 True True
    (Some (\<lparr>db_legacy = [(toy_row some_key_env)\<lparr>ce_TS := ts\<rparr>], db_part = [(toy_row some_key_env)\<lparr>ce_TS := ts\<rparr>]\<rparr>,
           \<lparr>db_legacy = [(toy_row some_key_env)\<lparr>ce_TS := ts\<rparr>], db_part = [(toy_row some_key_env)\<lparr>ce_TS := ts\<rparr>]\<rparr>)) = Inr r \<and> vr_OK r"
proof -
  let ?K = "{signing_key (ac_hash toy_audit) some_key_env}"
  have row: "row_ok toy_audit ?K ((toy_row some_key_env)\<lparr>ce_TS := ts\<rparr>)"
    using toy_canonical
    by (simp add: row_ok_def toy_row_def) (rule exI [of _ "snd (signing_key (ac_hash toy_audit) some_key_env)"], simp)
  have inv: "chain_inv toy_audit ?K \<lparr>db_legacy = [(toy_row some_key_env)\<lparr>ce_TS := ts\<rparr>],
      db_part = [(toy_row some_key_env)\<lparr>ce_TS := ts\<rparr>]\<rparr>"
    using row by (simp add: chain_inv_def) (simp add: toy_row_def)
  have "knows_keys (fst (auditChainSigningKeys (ac_hash toy_audit) some_key_env)) ?K"
    by (simp add: knows_keys_def signing_key_def toy_env_keys)
  then show ?thesis using appended_verifies [OF toy_audit_ok inv inv, of some_key_env 200 9] by auto
qed

lemma audit_chain_tamper_evident_witness:
  "map (row_view toy_audit) (latest_rows 200 [toy_row some_key_env]) =
   map (row_view toy_audit) (latest_rows 200 [(toy_row some_key_env)\<lparr>ce_TS := 99\<rparr>])"
proof -
  let ?r = "toy_row some_key_env" and ?s = "(toy_row some_key_env)\<lparr>ce_TS := 99\<rparr>"
  let ?A = "\<lparr>db_legacy = [?r], db_part = [?r]\<rparr>" and ?B = "\<lparr>db_legacy = [?s], db_part = [?s]\<rparr>"
  have same: "?r\<lparr>ce_TS := 7\<rparr> = ?r" by (simp add: toy_row_def)
  obtain ra where ra: "verifyAuditChain toy_audit some_key_env 9 200 True True (Some (?A, ?A)) = Inr ra" "vr_OK ra"
    using toy_verifies [of 7] by (auto simp only: same)
  obtain rb where rb: "verifyAuditChain toy_audit some_key_env 9 200 True True (Some (?B, ?B)) = Inr rb" "vr_OK rb"
    using toy_verifies [of 99] by auto
  have cols: "text_columns (db_part ?A)" "text_columns (db_part ?B)" by (simp_all add: text_columns_def toy_row_def)
  have h: "ce_ContentHash ?r \<noteq> []" "ce_ContentHash ?s = ce_ContentHash ?r"
    using hmac_hex_nonempty [OF toy_audit_ok] by (simp_all add: toy_row_def)
  have tip: "fst (chain_tip ?A) = fst (chain_tip ?B)"
    using h by (simp add: chain_tip_def latest_rows_def by_seq_def hashed_def)
  have "ce_Data ?s = ce_Data ?r" "ce_ChainVersion ?s = ce_ChainVersion ?r" "ce_PrevHash ?s = ce_PrevHash ?r" "ce_Seq ?s = ce_Seq ?r"
    by simp_all
  then have "hmac_inputs toy_audit (fst (auditChainSigningKeys (ac_hash toy_audit) some_key_env)) (db_part ?B) =
      hmac_inputs toy_audit (fst (auditChainSigningKeys (ac_hash toy_audit) some_key_env)) (db_part ?A)"
    by (simp only: hmac_inputs_def audit_db.simps list.map)
  moreover have "no_collision toy_audit (hmac_inputs toy_audit (fst (auditChainSigningKeys (ac_hash toy_audit) some_key_env)) (db_part ?A))
      (hmac_inputs toy_audit (fst (auditChainSigningKeys (ac_hash toy_audit) some_key_env)) (db_part ?A))"
    by (simp add: no_collision_def hmac_inputs_def toy_env_keys split: sum.split)
  ultimately show ?thesis using audit_chain_tamper_evident [OF toy_audit_ok ra rb cols tip] by simp
qed

lemma configured_key_breaks_chain_witness:
  "\<exists>r. verifyAuditChain toy_audit some_key_env 9 200 True True
      (Some (\<lparr>db_legacy = [toy_row no_key_env], db_part = [toy_row no_key_env]\<rparr>,
             \<lparr>db_legacy = [toy_row no_key_env], db_part = [toy_row no_key_env]\<rparr>)) = Inr r \<and> vr_Status r = ''broken''"
proof -
  let ?H = "ac_hash toy_audit"
  have signed: "list_all (signed_with toy_audit {(currentSecretKeyID some_key_env, sha256 ?H (bytes_of_string default_audit_secret))})
      [toy_append no_key_env]"
    by (simp add: toy_append_def signing_key_def toy_env_keys)
  have other: "\<forall>m. hmac256 ?H (sha256 ?H (bytes_of_string ''pw'')) m \<noteq>
      hmac256 ?H (sha256 ?H (bytes_of_string default_audit_secret)) m"
    by (simp add: toy_audit_def bytes_of_string_def default_audit_secret_def)
  have ne: "db_part (run (audit_step toy_audit) empty_db [toy_append no_key_env]) \<noteq> []" unfolding toy_run by simp
  show ?thesis
    using configured_key_breaks_chain [OF toy_audit_ok signed toy_env_keys(3) other _ _ ne, of 200 9]
    unfolding toy_run by auto
qed

end
