(* ===== verification/AuditMirror.thy ===== *)
theory AuditMirror
  imports AuditChain
begin

text \<open>
  The repair of the two audit tables at start (\<open>reconcileAuditMirrors\<close> and the unique indexes of
  \<open>migrateDualTrackPartitions\<close>, \<open>cmd/server/pg_partition.go\<close>). The statements run in one transaction, so a
  failing one leaves the tables as they are; the model is the run in which the database does its part.
  The ids of inserted rows come from the sequences of the tables, here functions of the row's position.
\<close>

record auditMirrorStats =
  st_LegacyRows :: nat
  st_PartitionRows :: nat
  st_UniqueHashes :: nat
  st_RemovedDuplicates :: nat
  st_BackfilledLegacy :: nat
  st_BackfilledPartition :: nat

definition content_conflict :: "auditChainEntry list \<Rightarrow> auditChainEntry option" where
  "content_conflict u = find (\<lambda>r. list_ex (\<lambda>s. ce_ContentHash s = ce_ContentHash r \<and> \<not> same_record s r) u) u"

definition seq_conflict :: "auditChainEntry list \<Rightarrow> auditChainEntry option" where
  "seq_conflict u = find (\<lambda>r. list_ex (\<lambda>s. ce_Seq s = ce_Seq r \<and> ce_ContentHash s \<noteq> ce_ContentHash r) u) u"

text \<open>The first copy of each hash stays; rows without a hash are not touched.\<close>

fun first_copies :: "string list \<Rightarrow> auditChainEntry list \<Rightarrow> auditChainEntry list" where
  "first_copies seen [] = []"
| "first_copies seen (r # rs) =
     (if ce_ContentHash r = [] then r # first_copies seen rs
      else if ce_ContentHash r \<in> set seen then first_copies seen rs
      else r # first_copies (ce_ContentHash r # seen) rs)"

definition missing_rows :: "auditChainEntry list \<Rightarrow> auditChainEntry list \<Rightarrow> auditChainEntry list" where
  "missing_rows src dst = by_seq (filter (\<lambda>r. \<not> list_ex (\<lambda>s. ce_ContentHash s = ce_ContentHash r) dst) (hashed src))"

definition insert_rows :: "(nat \<Rightarrow> int) \<Rightarrow> auditChainEntry list \<Rightarrow> auditChainEntry list \<Rightarrow> auditChainEntry list" where
  "insert_rows ids rows table = table @ map (\<lambda>(n, r). r\<lparr>ce_ID := ids n\<rparr>) (zip [0..<length rows] rows)"

definition reconcileAuditMirrors ::
    "(nat \<Rightarrow> int) \<Rightarrow> (nat \<Rightarrow> int) \<Rightarrow> audit_db \<Rightarrow> audit_error + audit_db \<times> auditMirrorStats" where
  "reconcileAuditMirrors ids pids db =
     (let u = hashed (db_legacy db) @ hashed (db_part db) in
      case content_conflict u of
        Some r \<Rightarrow> Inl (MirrorConflict ''content_hash'' (ce_ContentHash r))
      | None \<Rightarrow>
          (case seq_conflict u of
             Some r \<Rightarrow> Inl (MirrorConflict ''chain_seq'' (show_int (ce_Seq r)))
           | None \<Rightarrow>
               let part1 = first_copies [] (db_part db);
                   to_legacy = missing_rows part1 (db_legacy db);
                   legacy1 = insert_rows ids to_legacy (db_legacy db);
                   to_part = missing_rows legacy1 part1;
                   part2 = insert_rows pids to_part part1
               in Inr (\<lparr>db_legacy = legacy1, db_part = part2\<rparr>,
                       \<lparr>st_LegacyRows = length legacy1, st_PartitionRows = length part2,
                        st_UniqueHashes = length (remdups (map ce_ContentHash (hashed legacy1 @ hashed part2))),
                        st_RemovedDuplicates = length (db_part db) - length part1,
                        st_BackfilledLegacy = length to_legacy, st_BackfilledPartition = length to_part\<rparr>)))"

definition migrate_mirrors ::
    "(nat \<Rightarrow> int) \<Rightarrow> (nat \<Rightarrow> int) \<Rightarrow> audit_db \<Rightarrow> audit_error + audit_db \<times> auditMirrorStats" where
  "migrate_mirrors ids pids db =
     (case reconcileAuditMirrors ids pids db of
        Inl err \<Rightarrow> Inl err
      | Inr (db', stats) \<Rightarrow>
          if distinct (map ce_ContentHash (hashed (db_legacy db'))) \<and>
             distinct (map (\<lambda>r. (ce_ContentHash r, ce_TS r)) (hashed (db_part db')))
          then Inr (db', stats) else Inl TxFailed)"

section \<open>Rows up to their id\<close>

definition anon :: "auditChainEntry \<Rightarrow> auditChainEntry" where
  "anon r = r\<lparr>ce_ID := 0\<rparr>"

lemma anon_fields [simp]:
  "ce_ContentHash (anon r) = ce_ContentHash r" "ce_Seq (anon r) = ce_Seq r" "ce_TS (anon r) = ce_TS r"
  by (simp_all add: anon_def)

lemma anon_eq: "anon r = anon s \<longleftrightarrow> ce_ContentHash r = ce_ContentHash s \<and> same_record r s"
  by (cases r; cases s) (auto simp: anon_def same_record_def)

lemma anon_id [simp]: "anon (r\<lparr>ce_ID := i\<rparr>) = anon r"
  by (simp add: anon_def)

lemma set_by_seq [simp]: "set (by_seq rs) = set rs"
  by (simp add: by_seq_def)

lemma hashed_insert: "set (hashed rows) = set rows \<Longrightarrow> anon ` set (hashed (insert_rows ids rows t)) = anon ` set (hashed t) \<union> anon ` set rows"
proof -
  assume rows: "set (hashed rows) = set rows"
  have "map anon (map (\<lambda>(n, r). r\<lparr>ce_ID := ids n\<rparr>) (zip [0..<length rows] rows)) = map anon rows"
    by (rule nth_equalityI) simp_all
  then have img: "anon ` set (map (\<lambda>(n, r). r\<lparr>ce_ID := ids n\<rparr>) (zip [0..<length rows] rows)) = anon ` set rows"
    by (metis set_map)
  have ne: "ce_ContentHash r \<noteq> []" if r: "anon r \<in> anon ` set rows" for r
  proof -
    obtain t where "t \<in> set rows" "anon r = anon t" using r by blast
    then have "t \<in> set (hashed rows)" "ce_ContentHash r = ce_ContentHash t" using rows by (auto dest: arg_cong [of _ _ ce_ContentHash])
    then show ?thesis by (simp add: hashed_def)
  qed
  have "\<forall>r\<in>set (map (\<lambda>(n, r). r\<lparr>ce_ID := ids n\<rparr>) (zip [0..<length rows] rows)). ce_ContentHash r \<noteq> []"
    using ne imageI [of _ _ anon] unfolding img [symmetric] by blast
  then have "hashed (map (\<lambda>(n, r). r\<lparr>ce_ID := ids n\<rparr>) (zip [0..<length rows] rows)) =
      map (\<lambda>(n, r). r\<lparr>ce_ID := ids n\<rparr>) (zip [0..<length rows] rows)"
    unfolding hashed_def filter_id_conv .
  then show ?thesis using img by (simp add: insert_rows_def hashed_def image_Un)
qed

lemma missing_hashed [simp]: "set (hashed (missing_rows src dst)) = set (missing_rows src dst)"
  by (auto simp: missing_rows_def hashed_def)

lemma set_missing: "set (missing_rows src dst) = {r \<in> set (hashed src). ce_ContentHash r \<notin> ce_ContentHash ` set (hashed dst)}"
  by (auto simp: missing_rows_def hashed_def list_ex_iff image_iff)

lemma first_copies_sub: "set (first_copies seen rs) \<subseteq> set rs"
  by (induction seen rs rule: first_copies.induct) auto

lemma first_copies_hashes:
  "ce_ContentHash ` set (hashed (first_copies seen rs)) \<union> set seen = ce_ContentHash ` set (hashed rs) \<union> set seen"
proof (induction seen rs rule: first_copies.induct)
  case (2 seen r rs)
  have skip: "hashed (x # xs) = (if ce_ContentHash x = [] then hashed xs else x # hashed xs)" for x xs
    by (simp add: hashed_def)
  show ?case
  proof (cases "ce_ContentHash r = [] \<or> ce_ContentHash r \<in> set seen")
    case True
    then show ?thesis using 2 by (auto simp: skip)
  next
    case False
    then have "ce_ContentHash ` set (hashed (first_copies (ce_ContentHash r # seen) rs)) \<union> set (ce_ContentHash r # seen) =
        ce_ContentHash ` set (hashed rs) \<union> set (ce_ContentHash r # seen)" by (intro "2.IH") simp_all
    then show ?thesis using False by (simp add: skip)
  qed
qed (simp add: hashed_def)

definition consistent :: "auditChainEntry list \<Rightarrow> bool" where
  "consistent u \<longleftrightarrow> (\<forall>r\<in>set u. \<forall>s\<in>set u. (ce_ContentHash r = ce_ContentHash s \<longleftrightarrow> anon r = anon s) \<and>
     (ce_Seq r = ce_Seq s \<longrightarrow> ce_ContentHash r = ce_ContentHash s))"

lemma conflicts_none: "content_conflict u = None \<and> seq_conflict u = None \<longleftrightarrow> consistent u"
  unfolding content_conflict_def seq_conflict_def consistent_def find_None_iff list_ex_iff anon_eq
  by (auto simp: same_record_def)

lemma consistent_anon: "consistent u \<Longrightarrow> anon ` set v \<subseteq> anon ` set u \<Longrightarrow> consistent v"
proof -
  assume u: "consistent u" and sub: "anon ` set v \<subseteq> anon ` set u"
  have pre: "\<exists>r'\<in>set u. anon r' = anon r" if "r \<in> set v" for r using sub that by force
  show "consistent v"
    unfolding consistent_def
  proof (intro ballI)
    fix r s assume "r \<in> set v" "s \<in> set v"
    then obtain r' s' where u': "r' \<in> set u" "s' \<in> set u" and eq: "anon r' = anon r" "anon s' = anon s"
      using pre by blast
    have "ce_ContentHash r' = ce_ContentHash r" "ce_Seq r' = ce_Seq r" "ce_ContentHash s' = ce_ContentHash s" "ce_Seq s' = ce_Seq s"
      using eq by (metis anon_fields)+
    then show "(ce_ContentHash r = ce_ContentHash s \<longleftrightarrow> anon r = anon s) \<and> (ce_Seq r = ce_Seq s \<longrightarrow> ce_ContentHash r = ce_ContentHash s)"
      using u u' eq unfolding consistent_def by metis
  qed
qed

lemma mirror_state_consistent:
  assumes "consistent (hashed (db_legacy db) @ hashed (db_part db))"
    and "ce_ContentHash ` set (hashed (db_legacy db)) = ce_ContentHash ` set (hashed (db_part db))"
  shows "\<not> ms_Drift (loadAuditMirrorState db) \<and> \<not> ms_Conflict (loadAuditMirrorState db) \<and>
    ms_LegacyHashes (loadAuditMirrorState db) = ms_PartitionHashes (loadAuditMirrorState db)"
proof (intro conjI)
  show "\<not> ms_Drift (loadAuditMirrorState db)"
  proof -
    have "set (map ce_ContentHash (hashed (db_legacy db))) = set (map ce_ContentHash (hashed (db_part db)))"
      using assms(2) by simp
    then show ?thesis unfolding loadAuditMirrorState_def Let_def auditMirrorState.simps list_ex_iff set_remdups by blast
  qed
  show "ms_LegacyHashes (loadAuditMirrorState db) = ms_PartitionHashes (loadAuditMirrorState db)"
    using assms(2) by (simp add: loadAuditMirrorState_def Let_def length_remdups_card_conv)
  show "\<not> ms_Conflict (loadAuditMirrorState db)"
    using assms(1) unfolding consistent_def anon_eq loadAuditMirrorState_def Let_def auditMirrorState.simps list_ex_iff by blast
qed

lemma union_squeeze: "A = B \<union> C \<Longrightarrow> C \<subseteq> D \<Longrightarrow> D \<subseteq> B \<union> C \<Longrightarrow> B \<subseteq> D \<Longrightarrow> A = D"
  by blast

lemma reconcile_parity:
  assumes "reconcileAuditMirrors ids pids db = Inr (db', stats)"
  shows "consistent (hashed (db_legacy db') @ hashed (db_part db'))"
    and "anon ` set (hashed (db_legacy db')) = anon ` (set (hashed (db_legacy db)) \<union> set (hashed (db_part db)))"
    and "anon ` set (hashed (db_part db')) = anon ` (set (hashed (db_legacy db)) \<union> set (hashed (db_part db)))"
proof -
  let ?l = "db_legacy db" and ?p = "db_part db"
  let ?p1 = "first_copies [] ?p"
  let ?l1 = "insert_rows ids (missing_rows ?p1 ?l) ?l"
  let ?p2 = "insert_rows pids (missing_rows ?l1 ?p1) ?p1"
  have none: "content_conflict (hashed ?l @ hashed ?p) = None" "seq_conflict (hashed ?l @ hashed ?p) = None"
  proof -
    show c: "content_conflict (hashed ?l @ hashed ?p) = None"
      using assms by (cases "content_conflict (hashed ?l @ hashed ?p)") (simp_all add: reconcileAuditMirrors_def)
    show "seq_conflict (hashed ?l @ hashed ?p) = None"
      using assms c by (cases "seq_conflict (hashed ?l @ hashed ?p)") (simp_all add: reconcileAuditMirrors_def)
  qed
  then have db': "db_legacy db' = ?l1" "db_part db' = ?p2"
    using assms unfolding reconcileAuditMirrors_def Let_def by (simp_all only: option.case sum.inject prod.inject) auto
  have con: "consistent (hashed ?l @ hashed ?p)" using none conflicts_none by blast
  have same: "anon r = anon s" if "r \<in> set (hashed ?l) \<union> set (hashed ?p)" "s \<in> set (hashed ?l) \<union> set (hashed ?p)"
      "ce_ContentHash r = ce_ContentHash s" for r s
    using con that unfolding consistent_def set_append by blast
  have p1: "set (hashed ?p1) \<subseteq> set (hashed ?p)" using first_copies_sub by (auto simp: hashed_def)
  have p1h: "ce_ContentHash ` set (hashed ?p1) = ce_ContentHash ` set (hashed ?p)" using first_copies_hashes [of "[]"] by simp
  have p1a: "anon ` set (hashed ?p1) = anon ` set (hashed ?p)"
  proof
    show "anon ` set (hashed ?p) \<subseteq> anon ` set (hashed ?p1)"
    proof
      fix x assume "x \<in> anon ` set (hashed ?p)"
      then obtain r where r: "r \<in> set (hashed ?p)" "x = anon r" by blast
      have "ce_ContentHash r \<in> ce_ContentHash ` set (hashed ?p1)" unfolding p1h using r(1) by (rule imageI)
      then obtain s where s: "s \<in> set (hashed ?p1)" "ce_ContentHash r = ce_ContentHash s" by (rule imageE)
      have "anon s = anon r" using r(1) s p1 by (intro same) auto
      then show "x \<in> anon ` set (hashed ?p1)" using s(1) unfolding r(2) by (metis imageI)
    qed
  qed (use p1 in blast)
  have la: "anon ` set (hashed ?l1) = anon ` (set (hashed ?l) \<union> set (hashed ?p))" (is "?A = ?B")
  proof
    show "?A \<subseteq> ?B" using p1 by (auto simp: hashed_insert set_missing)
    show "?B \<subseteq> ?A"
    proof
      fix x assume x: "x \<in> ?B"
      then consider r where "r \<in> set (hashed ?l)" "x = anon r" | r where "r \<in> set (hashed ?p1)" "x = anon r"
        unfolding image_Un p1a [symmetric] by blast
      then show "x \<in> ?A"
      proof cases
        case 2
        show ?thesis
        proof (cases "ce_ContentHash r \<in> ce_ContentHash ` set (hashed ?l)")
          case True
          then obtain s where s: "s \<in> set (hashed ?l)" "ce_ContentHash r = ce_ContentHash s" by (rule imageE)
          then have "anon r = anon s" using 2(1) p1 by (intro same) auto
          then show ?thesis using s(1) 2(2) by (simp add: hashed_insert)
        qed (use 2 in \<open>auto simp: hashed_insert set_missing\<close>)
      qed (auto simp: hashed_insert)
    qed
  qed
  then show legacy: "anon ` set (hashed (db_legacy db')) = anon ` (set (hashed ?l) \<union> set (hashed ?p))" by (simp add: db')
  show part: "anon ` set (hashed (db_part db')) = anon ` (set (hashed ?l) \<union> set (hashed ?p))"
  proof -
    have "anon ` set (hashed ?p2) = anon ` set (hashed ?p1) \<union> anon ` set (missing_rows ?l1 ?p1)" by (simp add: hashed_insert)
    moreover have "anon ` set (missing_rows ?l1 ?p1) \<subseteq> anon ` set (hashed ?l1)" by (auto simp: set_missing)
    moreover have "anon ` set (hashed ?l1) \<subseteq> anon ` set (hashed ?p1) \<union> anon ` set (missing_rows ?l1 ?p1)"
    proof
      fix x assume "x \<in> anon ` set (hashed ?l1)"
      then obtain r where r: "r \<in> set (hashed ?l1)" "x = anon r" by blast
      show "x \<in> anon ` set (hashed ?p1) \<union> anon ` set (missing_rows ?l1 ?p1)"
      proof (cases "ce_ContentHash r \<in> ce_ContentHash ` set (hashed ?p1)")
        case True
        then obtain s where s: "s \<in> set (hashed ?p1)" "ce_ContentHash r = ce_ContentHash s" by (rule imageE)
        have "anon r \<in> anon ` (set (hashed ?l) \<union> set (hashed ?p))" using r(1) la by blast
        then obtain t where t: "t \<in> set (hashed ?l) \<union> set (hashed ?p)" "anon r = anon t" by blast
        then have "ce_ContentHash t = ce_ContentHash s" using s(2) by (metis anon_fields(1))
        then have "anon t = anon s" using t(1) s(1) p1 by (intro same) auto
        then show ?thesis using s(1) t(2) r(2) by simp
      qed (use r in \<open>auto simp: set_missing\<close>)
    qed
    moreover have "anon ` set (hashed ?p1) \<subseteq> anon ` set (hashed ?l1)" unfolding la p1a image_Un by (rule Un_upper2)
    ultimately have "anon ` set (hashed ?p2) = anon ` set (hashed ?l1)" by (rule union_squeeze)
    then show ?thesis unfolding db' la .
  qed
  show "consistent (hashed (db_legacy db') @ hashed (db_part db'))"
    by (rule consistent_anon [OF con]) (simp add: legacy part image_Un)
qed

section \<open>Property\<close>

text \<open>When the repair at start goes through, the two tables hold the same hashes and do not conflict, so the
  verification sees no drift, and no hashed row of either table is lost or changed: each of them then
  holds the rows of both, up to the row id.\<close>

theorem mirrors_reconciled:
  assumes "migrate_mirrors ids pids db = Inr (db', stats)"
  shows "\<not> ms_Drift (loadAuditMirrorState db') \<and> \<not> ms_Conflict (loadAuditMirrorState db') \<and>
    ms_LegacyHashes (loadAuditMirrorState db') = ms_PartitionHashes (loadAuditMirrorState db') \<and>
    anon ` set (hashed (db_legacy db')) = anon ` (set (hashed (db_legacy db)) \<union> set (hashed (db_part db))) \<and>
    anon ` set (hashed (db_part db')) = anon ` (set (hashed (db_legacy db)) \<union> set (hashed (db_part db)))"
proof -
  have r: "reconcileAuditMirrors ids pids db = Inr (db', stats)"
    using assms by (auto simp: migrate_mirrors_def split: sum.splits if_splits)
  note parity = reconcile_parity [OF r]
  have "ce_ContentHash ` set rs = ce_ContentHash ` anon ` set rs" for rs by (simp add: image_image)
  then have "ce_ContentHash ` set (hashed (db_legacy db')) = ce_ContentHash ` set (hashed (db_part db'))"
    using parity(2,3) by metis
  then show ?thesis using mirror_state_consistent [OF parity(1)] parity(2,3) by blast
qed

definition lone_row :: auditChainEntry where
  "lone_row = \<lparr>ce_ID = 4, ce_TS = 7, ce_Data = [], ce_ContentHash = ''h'', ce_PrevHash = [], ce_Seq = 1, ce_ChainVersion = 2,
     ce_ChainKeyID = ''v1''\<rparr>"

lemma mirrors_reconciled_witness:
  "\<not> ms_Drift (loadAuditMirrorState \<lparr>db_legacy = [lone_row], db_part = [lone_row\<lparr>ce_ID := 9\<rparr>]\<rparr>)"
proof -
  have "migrate_mirrors (\<lambda>n. 8 + int n) (\<lambda>n. 9 + int n) \<lparr>db_legacy = [lone_row], db_part = []\<rparr> =
    Inr (\<lparr>db_legacy = [lone_row], db_part = [lone_row\<lparr>ce_ID := 9\<rparr>]\<rparr>, \<lparr>st_LegacyRows = 1, st_PartitionRows = 1,
      st_UniqueHashes = 1, st_RemovedDuplicates = 0, st_BackfilledLegacy = 0, st_BackfilledPartition = 1\<rparr>)"
    by code_simp
  from mirrors_reconciled [OF this] show ?thesis by blast
qed

end
