(* ===== verification/AuditGate.thy ===== *)
theory AuditGate
  imports AuditVerify "HOL-Library.AList"
begin

text \<open>
  The gate in front of the verification (\<open>auditVerifyGate\<close>, \<open>cmd/server/audit_chain.go\<close>): a result is
  cached for 30 seconds, equal requests wait for the one that runs, other requests are turned away.

  The gate's mutex is taken for short sections only, so this component is modelled as a step relation
  of the requests in flight: each rule is one section under the mutex, or the closing of the channel,
  or the end of a wait. Times are in nanoseconds.
\<close>

datatype gate_error = VerifyBusy | DeadlineExceeded | CanceledCtx | StorageError

type_synonym gate_answer = "auditChainVerifyResult \<times> gate_error option"

record auditVerifyOutcome =
  oc_answer :: gate_answer
  oc_at :: int

record auditVerifyGate =
  g_running :: bool
  g_limit :: int
  g_done :: "nat option"
  g_last :: auditVerifyOutcome
  g_cache :: "(int \<times> auditVerifyOutcome) list"

definition auditVerifyCacheTTL :: int where
  "auditVerifyCacheTTL = 30 * 10 ^ 9"

definition no_outcome :: auditVerifyOutcome where
  "no_outcome = \<lparr>oc_answer = (empty_result 0, None), oc_at = 0\<rparr>"

definition gate_reset :: auditVerifyGate where
  "gate_reset = \<lparr>g_running = False, g_limit = 0, g_done = None, g_last = no_outcome, g_cache = []\<rparr>"

datatype gate_decision = Hit gate_answer | Busy | WaitOn "nat option" | RunOn nat

definition fresh_hit :: "int \<Rightarrow> int \<Rightarrow> auditVerifyGate \<Rightarrow> auditVerifyOutcome option" where
  "fresh_hit now limit g =
     (case map_of (g_cache g) limit of
        None \<Rightarrow> None
      | Some hit \<Rightarrow> if now - oc_at hit < auditVerifyCacheTTL then Some hit else None)"

text \<open>The first section of \<open>run\<close>; \<open>c\<close> is the channel it makes when it decides to run.\<close>

definition gate_enter :: "int \<Rightarrow> int \<Rightarrow> nat \<Rightarrow> auditVerifyGate \<Rightarrow> auditVerifyGate \<times> gate_decision" where
  "gate_enter now limit c g =
     (case fresh_hit now limit g of
        Some hit \<Rightarrow> (g, Hit (oc_answer hit))
      | None \<Rightarrow>
          if g_running g then (if g_limit g \<noteq> limit then (g, Busy) else (g, WaitOn (g_done g)))
          else (g\<lparr>g_running := True, g_limit := limit, g_done := Some c\<rparr>, RunOn c))"

text \<open>The section after the verification ended with \<open>out\<close>.\<close>

definition gate_finish :: "int \<Rightarrow> auditVerifyOutcome \<Rightarrow> auditVerifyGate \<Rightarrow> auditVerifyGate" where
  "gate_finish limit out g =
     g\<lparr>g_running := False, g_done := None, g_last := out,
       g_cache := (if snd (oc_answer out) = None
                   then AList.update limit out
                     (filter (\<lambda>e. oc_at out - oc_at (snd e) < auditVerifyCacheTTL) (g_cache g))
                   else g_cache g)\<rparr>"

datatype answer_way = ByHit | ByRun | ByWait | Refused

datatype request_phase =
    PWaiting int "nat option"
  | PRunning int nat
  | PClosing int nat auditVerifyOutcome
  | PDone int answer_way gate_answer

definition entered :: "int \<Rightarrow> gate_decision \<Rightarrow> request_phase" where
  "entered limit d =
     (case d of
        Hit ans \<Rightarrow> PDone limit ByHit ans
      | Busy \<Rightarrow> PDone limit Refused (empty_result 0, Some VerifyBusy)
      | WaitOn c \<Rightarrow> PWaiting limit c
      | RunOn c \<Rightarrow> PRunning limit c)"

record gate_sys =
  gs_gate :: auditVerifyGate
  gs_requests :: "nat \<Rightarrow> request_phase option"
  gs_closed :: "nat set"
  gs_next :: nat

text \<open>\<open>outcome_of limit out\<close>: the verification with this limit can end with this outcome.\<close>

inductive gate_step :: "(int \<Rightarrow> auditVerifyOutcome \<Rightarrow> bool) \<Rightarrow> gate_sys \<Rightarrow> gate_sys \<Rightarrow> bool" for outcome_of where
  enter: "gs_requests s t = None \<Longrightarrow> gate_enter now limit (gs_next s) (gs_gate s) = (g, d) \<Longrightarrow>
    gate_step outcome_of s (s\<lparr>gs_gate := g, gs_requests := (gs_requests s)(t \<mapsto> entered limit d), gs_next := Suc (gs_next s)\<rparr>)"
| finish: "gs_requests s t = Some (PRunning limit c) \<Longrightarrow> outcome_of limit out \<Longrightarrow>
    gate_step outcome_of s (s\<lparr>gs_gate := gate_finish limit out (gs_gate s),
      gs_requests := (gs_requests s)(t \<mapsto> PClosing limit c out)\<rparr>)"
| close: "gs_requests s t = Some (PClosing limit c out) \<Longrightarrow>
    gate_step outcome_of s (s\<lparr>gs_closed := insert c (gs_closed s),
      gs_requests := (gs_requests s)(t \<mapsto> PDone limit ByRun (oc_answer out))\<rparr>)"
| wake: "gs_requests s t = Some (PWaiting limit (Some c)) \<Longrightarrow> c \<in> gs_closed s \<Longrightarrow>
    gate_step outcome_of s (s\<lparr>gs_requests := (gs_requests s)(t \<mapsto> PDone limit ByWait (oc_answer (g_last (gs_gate s))))\<rparr>)"
| cancel: "gs_requests s t = Some (PWaiting limit c) \<Longrightarrow>
    gate_step outcome_of s (s\<lparr>gs_requests := (gs_requests s)(t \<mapsto> PDone limit Refused (empty_result 0, Some CanceledCtx))\<rparr>)"

inductive_cases gate_stepE: "gate_step outcome_of s s'"

definition gate_start :: gate_sys where
  "gate_start = \<lparr>gs_gate = gate_reset, gs_requests = (\<lambda>_. None), gs_closed = {}, gs_next = 0\<rparr>"

abbreviation gate_reachable :: "(int \<Rightarrow> auditVerifyOutcome \<Rightarrow> bool) \<Rightarrow> gate_sys \<Rightarrow> bool" where
  "gate_reachable outcome_of s \<equiv> (gate_step outcome_of)\<^sup>*\<^sup>* gate_start s"

text \<open>The reply of \<open>handleAuditVerifyChain\<close> to the answer of the gate; nothing is written for a caller that left.\<close>

definition unavailable :: "int \<Rightarrow> string \<Rightarrow> string \<Rightarrow> auditChainVerifyResult" where
  "unavailable now status code = (empty_result now)\<lparr>vr_Status := status, vr_Code := code\<rparr>"

definition handleAuditVerifyChain ::
    "int \<Rightarrow> string \<Rightarrow> bool \<Rightarrow> (int \<Rightarrow> gate_answer) \<Rightarrow> (nat \<times> auditChainVerifyResult) option" where
  "handleAuditVerifyChain now raw has_pg gate =
     (case parseAuditVerifyLimit raw of
        None \<Rightarrow> Some (400, unavailable now ''unavailable'' ''invalid_limit'')
      | Some limit \<Rightarrow>
          if \<not> has_pg then Some (503, unavailable now ''unavailable'' ''storage_unavailable'')
          else case gate limit of
                 (r, None) \<Rightarrow> Some (200, r)
               | (r, Some VerifyBusy) \<Rightarrow> Some (429, unavailable now ''unavailable'' ''verification_busy'')
               | (r, Some DeadlineExceeded) \<Rightarrow> Some (200, unavailable now ''unverifiable'' ''verify_timeout'')
               | (r, Some CanceledCtx) \<Rightarrow> None
               | (r, Some StorageError) \<Rightarrow> Some (503, unavailable now ''unavailable'' ''storage_unavailable''))"

section \<open>The invariant\<close>

definition running_at :: "gate_sys \<Rightarrow> nat \<Rightarrow> int \<Rightarrow> nat \<Rightarrow> bool" where
  "running_at s t limit c \<longleftrightarrow> gs_requests s t = Some (PRunning limit c)"

definition gate_inv :: "(int \<Rightarrow> auditVerifyOutcome \<Rightarrow> bool) \<Rightarrow> gate_sys \<Rightarrow> bool" where
  "gate_inv outcome_of s \<longleftrightarrow>
     (\<forall>t l c. running_at s t l c \<longrightarrow> g_running (gs_gate s) \<and> g_limit (gs_gate s) = l) \<and>
     (\<forall>t u l c k d. running_at s t l c \<and> running_at s u k d \<longrightarrow> t = u) \<and>
     (\<forall>l out. (l, out) \<in> set (g_cache (gs_gate s)) \<longrightarrow> outcome_of l out) \<and>
     (\<forall>t l c out. gs_requests s t = Some (PClosing l c out) \<longrightarrow> outcome_of l out) \<and>
     (\<forall>t l w ans. gs_requests s t = Some (PDone l w ans) \<and> w \<in> {ByHit, ByRun} \<longrightarrow>
        (\<exists>out. outcome_of l out \<and> oc_answer out = ans))"

lemma gate_invD:
  assumes "gate_inv outcome_of s"
  shows "running_at s t l c \<Longrightarrow> g_running (gs_gate s) \<and> g_limit (gs_gate s) = l"
    and "running_at s t l c \<Longrightarrow> running_at s u k d \<Longrightarrow> t = u"
    and "(l, out) \<in> set (g_cache (gs_gate s)) \<Longrightarrow> outcome_of l out"
    and "gs_requests s t = Some (PClosing l c out) \<Longrightarrow> outcome_of l out"
    and "gs_requests s t = Some (PDone l w ans) \<Longrightarrow> w \<in> {ByHit, ByRun} \<Longrightarrow> \<exists>out. outcome_of l out \<and> oc_answer out = ans"
  using assms unfolding gate_inv_def by blast+

lemma gate_enter_cases:
  assumes "gate_enter now limit c g = (g', d)"
  obtains (answered) out where "d = Hit (oc_answer out)" "g' = g" "map_of (g_cache g) limit = Some out" "now - oc_at out < auditVerifyCacheTTL"
  | (refused) "d = Busy" "g' = g"
  | (waits) "d = WaitOn (g_done g)" "g' = g" "g_running g" "g_limit g = limit"
  | (runs) "d = RunOn c" "\<not> g_running g" "g' = g\<lparr>g_running := True, g_limit := limit, g_done := Some c\<rparr>"
proof -
  have eq: "g' = fst (gate_enter now limit c g)" "d = snd (gate_enter now limit c g)" by (simp_all add: assms)
  show ?thesis
  proof (cases "fresh_hit now limit g")
    case (Some out)
    then have "map_of (g_cache g) limit = Some out" "now - oc_at out < auditVerifyCacheTTL"
      by (auto simp: fresh_hit_def split: option.splits if_splits)
    moreover have "d = Hit (oc_answer out)" "g' = g" using eq Some by (simp_all add: gate_enter_def)
    ultimately show ?thesis by (intro answered [of out])
  next
    case None
    show ?thesis
    proof (cases "g_running g")
      case True
      show ?thesis
      proof (cases "g_limit g = limit")
        case same: True
        show ?thesis by (rule waits) (use eq None True same in \<open>simp_all add: gate_enter_def\<close>)
      next
        case False
        show ?thesis by (rule refused) (use eq None True False in \<open>simp_all add: gate_enter_def\<close>)
      qed
    next
      case False
      show ?thesis by (rule runs) (use eq None False in \<open>simp_all add: gate_enter_def\<close>)
    qed
  qed
qed

lemma set_update_sub: "set (AList.update k v m) \<subseteq> insert (k, v) (set m)"
  by (induction m) auto

lemma finish_cache: "(l, o') \<in> set (g_cache (gate_finish limit out g)) \<Longrightarrow> (l = limit \<and> o' = out) \<or> (l, o') \<in> set (g_cache g)"
  using set_update_sub by (fastforce simp: gate_finish_def split: if_splits)

lemma finish_gate [simp]:
  "g_running (gate_finish limit out g) = False"
  by (simp add: gate_finish_def)

text \<open>A request that changes phase without starting a run or touching the gate keeps the invariant.\<close>

lemma inv_move:
  assumes inv: "gate_inv P s" and g: "gs_gate s' = gs_gate s" and r: "gs_requests s' = (gs_requests s)(t \<mapsto> p)"
    and run: "\<And>l c. p \<noteq> PRunning l c" and closing: "\<And>l c out. p = PClosing l c out \<Longrightarrow> P l out"
    and fin: "\<And>l w ans. p = PDone l w ans \<Longrightarrow> w \<in> {ByHit, ByRun} \<Longrightarrow> \<exists>out. P l out \<and> oc_answer out = ans"
  shows "gate_inv P s'"
proof -
  note I = gate_invD [OF inv]
  have old: "running_at s' u l c \<Longrightarrow> running_at s u l c" for u l c
    using run by (auto simp: running_at_def r split: if_splits)
  show ?thesis
    unfolding gate_inv_def
  proof (intro conjI allI impI)
    show "g_running (gs_gate s')" "g_limit (gs_gate s') = l" if "running_at s' u l c" for u l c
      using I(1) [OF old [OF that]] by (simp_all add: g)
    show "u = v" if "running_at s' u l c \<and> running_at s' v k d" for u v l c k d
      using I(2) old that by blast
    show "P l out" if "(l, out) \<in> set (g_cache (gs_gate s'))" for l out using I(3) that by (simp add: g)
    show "P l out" if "gs_requests s' u = Some (PClosing l c out)" for u l c out
      using that closing I(4) by (auto simp: r split: if_splits)
    show "\<exists>out. P l out \<and> oc_answer out = ans" if "gs_requests s' u = Some (PDone l w ans) \<and> w \<in> {ByHit, ByRun}" for u l w ans
    proof (cases "u = t")
      case True
      then show ?thesis using that fin by (simp add: r)
    next
      case False
      then have "gs_requests s u = Some (PDone l w ans)" using that by (simp add: r)
      then show ?thesis using that I(5) by blast
    qed
  qed
qed

lemma inv_enter_run:
  assumes inv: "gate_inv P s" and t: "gs_requests s t = None" and idle: "\<not> g_running (gs_gate s)"
    and g: "gs_gate s' = (gs_gate s)\<lparr>g_running := True, g_limit := limit, g_done := e\<rparr>"
    and r: "gs_requests s' = (gs_requests s)(t \<mapsto> PRunning limit c)"
  shows "gate_inv P s'"
proof -
  note I = gate_invD [OF inv]
  have none: "\<not> running_at s u l d" for u l d using I(1) idle by blast
  have only: "running_at s' u l d \<Longrightarrow> u = t \<and> l = limit" for u l d
    using none by (auto simp: running_at_def r split: if_splits)
  have other: "gs_requests s' u = Some p \<Longrightarrow> p \<noteq> PRunning limit c \<Longrightarrow> gs_requests s u = Some p" for u p
    by (auto simp: r split: if_splits)
  show ?thesis
    unfolding gate_inv_def
  proof (intro conjI allI impI)
    show "g_running (gs_gate s')" "g_limit (gs_gate s') = l" if "running_at s' u l d" for u l d
      using only [OF that] by (simp_all add: g)
    show "u = v" if "running_at s' u l d \<and> running_at s' v k e" for u v l d k e using only that by blast
    show "P l out" if "(l, out) \<in> set (g_cache (gs_gate s'))" for l out using I(3) that by (simp add: g)
    show "P l out" if "gs_requests s' u = Some (PClosing l d out)" for u l d out using I(4) other [OF that] by simp
    show "\<exists>out. P l out \<and> oc_answer out = ans" if "gs_requests s' u = Some (PDone l w ans) \<and> w \<in> {ByHit, ByRun}" for u l w ans
      using I(5) other that by blast
  qed
qed

lemma inv_finish:
  assumes inv: "gate_inv P s" and t: "gs_requests s t = Some (PRunning limit c)" and out: "P limit out"
    and g: "gs_gate s' = gate_finish limit out (gs_gate s)" and r: "gs_requests s' = (gs_requests s)(t \<mapsto> PClosing limit c out)"
  shows "gate_inv P s'"
proof -
  note I = gate_invD [OF inv]
  have none: "\<not> running_at s' u l d" for u l d
  proof
    assume "running_at s' u l d"
    then have u: "running_at s u l d" "u \<noteq> t" by (auto simp: running_at_def r split: if_splits)
    moreover have "running_at s t limit c" using t by (simp add: running_at_def)
    ultimately show False using I(2) by blast
  qed
  have other: "gs_requests s' u = Some p \<Longrightarrow> p \<noteq> PClosing limit c out \<Longrightarrow> gs_requests s u = Some p" for u p
    by (auto simp: r split: if_splits)
  show ?thesis
    unfolding gate_inv_def
  proof (intro conjI allI impI)
    show "P l o'" if "(l, o') \<in> set (g_cache (gs_gate s'))" for l o'
      using finish_cache [of l o' limit out "gs_gate s"] that I(3) out by (auto simp: g)
    show "P l o'" if p: "gs_requests s' u = Some (PClosing l d o')" for u l d o'
    proof (cases "PClosing l d o' = PClosing limit c out")
      case True
      then show ?thesis using out by simp
    next
      case False
      then show ?thesis using I(4) other [OF p] by blast
    qed
    show "\<exists>out. P l out \<and> oc_answer out = ans" if "gs_requests s' u = Some (PDone l w ans) \<and> w \<in> {ByHit, ByRun}" for u l w ans
      using I(5) other that by blast
  qed (use none in blast)+
qed

lemma gate_inv_step: "gate_step P s s' \<Longrightarrow> gate_inv P s \<Longrightarrow> gate_inv P s'"
proof (induction rule: gate_step.induct)
  case (enter s t now limit g d)
  let ?s = "s\<lparr>gs_gate := g, gs_requests := (gs_requests s)(t \<mapsto> entered limit d), gs_next := Suc (gs_next s)\<rparr>"
  from enter.hyps(2) show ?case
  proof (cases rule: gate_enter_cases)
    case (answered out)
    have "P limit out" using gate_invD(3) [OF enter.prems map_of_SomeD [OF answered(3)]] .
    then show ?thesis by (intro inv_move [OF enter.prems]) (auto simp: answered entered_def)
  next
    case refused
    then show ?thesis by (intro inv_move [OF enter.prems]) (auto simp: entered_def)
  next
    case waits
    then show ?thesis by (intro inv_move [OF enter.prems]) (auto simp: entered_def)
  next
    case runs
    then show ?thesis
      by (intro inv_enter_run [where limit = limit and e = "Some (gs_next s)" and c = "gs_next s", OF enter.prems enter.hyps(1)])
        (simp_all add: entered_def)
  qed
next
  case (finish s t limit c out)
  show ?case by (rule inv_finish [OF finish.prems finish.hyps]) simp_all
next
  case (close s t limit c out)
  have "P limit out" by (rule gate_invD(4) [OF close.prems close.hyps])
  then show ?case by (intro inv_move [OF close.prems]) auto
next
  case (wake s t limit c)
  show ?case by (rule inv_move [OF wake.prems]) auto
next
  case (cancel s t limit c)
  show ?case by (rule inv_move [OF cancel.prems]) auto
qed

lemma gate_inv_reachable: "gate_reachable P s \<Longrightarrow> gate_inv P s"
proof (induction rule: rtranclp_induct)
  case base
  show ?case by (simp add: gate_inv_def gate_start_def running_at_def gate_reset_def)
next
  case (step s s')
  then show ?case using gate_inv_step by blast
qed

section \<open>Properties\<close>

text \<open>C28. However the requests interleave, at most one verification runs at a time, and a caller that ran the
  verification itself or was answered from the cache gets the outcome of a verification with its own
  limit.\<close>

theorem gate_runs_one_verification:
  assumes "gate_reachable outcome_of s"
  shows "(\<forall>t u l c k d. gs_requests s t = Some (PRunning l c) \<and> gs_requests s u = Some (PRunning k d) \<longrightarrow> t = u) \<and>
    (\<forall>t l w ans. gs_requests s t = Some (PDone l w ans) \<and> w \<in> {ByHit, ByRun} \<longrightarrow>
       (\<exists>out. outcome_of l out \<and> oc_answer out = ans))"
  using gate_inv_reachable [OF assms] unfolding gate_inv_def running_at_def by blast

text \<open>The rules as functions, to follow one interleaving.\<close>

definition do_enter :: "nat \<Rightarrow> int \<Rightarrow> int \<Rightarrow> gate_sys \<Rightarrow> gate_sys" where
  "do_enter t now limit s =
     s\<lparr>gs_gate := fst (gate_enter now limit (gs_next s) (gs_gate s)),
       gs_requests := (gs_requests s)(t \<mapsto> entered limit (snd (gate_enter now limit (gs_next s) (gs_gate s)))),
       gs_next := Suc (gs_next s)\<rparr>"

definition do_finish :: "nat \<Rightarrow> int \<Rightarrow> nat \<Rightarrow> auditVerifyOutcome \<Rightarrow> gate_sys \<Rightarrow> gate_sys" where
  "do_finish t limit c out s =
     s\<lparr>gs_gate := gate_finish limit out (gs_gate s), gs_requests := (gs_requests s)(t \<mapsto> PClosing limit c out)\<rparr>"

definition do_close :: "nat \<Rightarrow> int \<Rightarrow> nat \<Rightarrow> auditVerifyOutcome \<Rightarrow> gate_sys \<Rightarrow> gate_sys" where
  "do_close t limit c out s =
     s\<lparr>gs_closed := insert c (gs_closed s), gs_requests := (gs_requests s)(t \<mapsto> PDone limit ByRun (oc_answer out))\<rparr>"

definition do_wake :: "nat \<Rightarrow> int \<Rightarrow> gate_sys \<Rightarrow> gate_sys" where
  "do_wake t limit s = s\<lparr>gs_requests := (gs_requests s)(t \<mapsto> PDone limit ByWait (oc_answer (g_last (gs_gate s))))\<rparr>"

lemma do_steps:
  "gs_requests s t = None \<Longrightarrow> gate_step P s (do_enter t now limit s)"
  "gs_requests s t = Some (PRunning limit c) \<Longrightarrow> P limit out \<Longrightarrow> gate_step P s (do_finish t limit c out s)"
  "gs_requests s t = Some (PClosing limit c out) \<Longrightarrow> gate_step P s (do_close t limit c out s)"
  "gs_requests s t = Some (PWaiting limit (Some c)) \<Longrightarrow> c \<in> gs_closed s \<Longrightarrow> gate_step P s (do_wake t limit s)"
  unfolding do_enter_def do_finish_def do_close_def do_wake_def
  by (rule gate_step.intros; simp)+

definition checked_outcome :: "nat \<Rightarrow> auditVerifyOutcome" where
  "checked_outcome n = \<lparr>oc_answer = ((empty_result 0)\<lparr>vr_Checked := n\<rparr>, None), oc_at = 0\<rparr>"

lemma waiter_interleaving:
  "\<exists>s t ans. gate_reachable (\<lambda>l out. vr_Checked (fst (oc_answer out)) = nat l) s \<and>
     gs_requests s t = Some (PDone 200 ByWait ans) \<and> vr_Checked (fst ans) = 5"
proof -
  let ?P = "\<lambda>l out. vr_Checked (fst (oc_answer out)) = nat l"
  let ?a = "checked_outcome 200" and ?b = "checked_outcome 5"
  define s1 where "s1 = do_enter 0 0 200 gate_start"
  define s2 where "s2 = do_enter 7 0 200 s1"
  define s3 where "s3 = do_finish 0 200 0 ?a s2"
  define s4 where "s4 = do_close 0 200 0 ?a s3"
  define s5 where "s5 = do_enter 2 0 5 s4"
  define s6 where "s6 = do_finish 2 5 2 ?b s5"
  note defs = do_enter_def do_finish_def do_close_def do_wake_def gate_start_def gate_enter_def fresh_hit_def gate_reset_def
    entered_def gate_finish_def
  have r1: "gate_reachable ?P s1" unfolding s1_def by (rule r_into_rtranclp, rule do_steps) (simp add: gate_start_def)
  have v1: "gs_requests s1 = [0 \<mapsto> PRunning 200 0]" "gs_next s1 = Suc 0" "gs_closed s1 = {}"
    "gs_gate s1 = gate_reset\<lparr>g_running := True, g_limit := 200, g_done := Some 0\<rparr>"
    by (simp_all add: s1_def defs)
  have r2: "gate_reachable ?P s2" unfolding s2_def by (rule rtranclp.rtrancl_into_rtrancl [OF r1 do_steps(1)]) (simp add: v1)
  have v2: "gs_requests s2 = [0 \<mapsto> PRunning 200 0, 7 \<mapsto> PWaiting 200 (Some 0)]" "gs_next s2 = 2" "gs_closed s2 = {}"
    "gs_gate s2 = gs_gate s1"
    by (simp_all add: s2_def v1 do_enter_def gate_enter_def fresh_hit_def gate_reset_def entered_def)
  have r3: "gate_reachable ?P s3" unfolding s3_def
    by (rule rtranclp.rtrancl_into_rtrancl [OF r2 do_steps(2)]) (simp_all add: v2 checked_outcome_def)
  have v3: "gs_requests s3 = [0 \<mapsto> PClosing 200 0 ?a, 7 \<mapsto> PWaiting 200 (Some 0)]" "gs_next s3 = 2" "gs_closed s3 = {}"
    "g_running (gs_gate s3) = False" "g_cache (gs_gate s3) = [(200, ?a)]"
    by (simp_all add: s3_def v2 v1 do_finish_def gate_finish_def gate_reset_def checked_outcome_def fun_upd_twist)
  have r4: "gate_reachable ?P s4" unfolding s4_def by (rule rtranclp.rtrancl_into_rtrancl [OF r3 do_steps(3)]) (simp add: v3)
  have v4: "gs_requests s4 2 = None" "gs_requests s4 7 = Some (PWaiting 200 (Some 0))" "gs_closed s4 = {0}" "gs_next s4 = 2"
    "gs_gate s4 = gs_gate s3"
    by (simp_all add: s4_def v3 do_close_def)
  have r5: "gate_reachable ?P s5" unfolding s5_def by (rule rtranclp.rtrancl_into_rtrancl [OF r4 do_steps(1)]) (simp add: v4)
  have v5: "gs_requests s5 2 = Some (PRunning 5 2)" "gs_requests s5 7 = Some (PWaiting 200 (Some 0))" "gs_closed s5 = {0}"
    by (simp_all add: s5_def v4 v3 do_enter_def gate_enter_def fresh_hit_def entered_def)
  have r6: "gate_reachable ?P s6" unfolding s6_def
    by (rule rtranclp.rtrancl_into_rtrancl [OF r5 do_steps(2)]) (simp_all add: v5 checked_outcome_def)
  have v6: "gs_requests s6 7 = Some (PWaiting 200 (Some 0))" "gs_closed s6 = {0}" "g_last (gs_gate s6) = ?b"
    by (simp_all add: s6_def v5 do_finish_def gate_finish_def)
  have "gate_reachable ?P (do_wake 7 200 s6)"
    by (rule rtranclp.rtrancl_into_rtrancl [OF r6 do_steps(4)]) (simp_all add: v6)
  moreover have "gs_requests (do_wake 7 200 s6) 7 = Some (PDone 200 ByWait (oc_answer ?b))" by (simp add: do_wake_def v6)
  moreover have "vr_Checked (fst (oc_answer ?b)) = 5" by (simp add: checked_outcome_def)
  ultimately show ?thesis by blast
qed

text \<open>A request that waits is not safe from its neighbours: it takes the last outcome only after it woke up, so when another
  verification with a different limit ran in between, the waiter is answered with that one's result. Here a request
  for 200 rows is told that 5 rows were checked.\<close>

theorem waiter_gets_other_limit:
  "\<exists>s t ans. gate_reachable (\<lambda>l out. vr_Checked (fst (oc_answer out)) = nat l) s \<and>
     gs_requests s t = Some (PDone 200 ByWait ans) \<and> vr_Checked (fst ans) = 5"
  by (rule waiter_interleaving)

lemma gate_runs_one_verification_witness:
  "gs_requests (do_enter 2 0 200 gate_start) 2 = Some (PRunning 200 0) \<and>
   gs_requests (do_enter 2 0 200 gate_start) 3 \<noteq> Some (PRunning 200 0)"
proof -
  have "gate_reachable (\<lambda>l out. True) (do_enter 2 0 200 gate_start)"
    by (rule r_into_rtranclp, rule do_steps) (simp add: gate_start_def)
  note one = conjunct1 [OF gate_runs_one_verification [OF this], rule_format, of 2 200 0 3 200 0]
  have run: "gs_requests (do_enter 2 0 200 gate_start) 2 = Some (PRunning 200 0)"
    by (simp add: do_enter_def gate_start_def gate_enter_def fresh_hit_def gate_reset_def entered_def)
  have "gs_requests (do_enter 2 0 200 gate_start) 3 \<noteq> Some (PRunning 200 0)"
  proof
    assume "gs_requests (do_enter 2 0 200 gate_start) 3 = Some (PRunning 200 0)"
    then have "(2 :: nat) = 3" using run one by blast
    then show False by simp
  qed
  then show ?thesis using run by blast
qed

end
