(* ===== verification/FolderTree.thy ===== *)
theory FolderTree
  imports GoMap Utf8 "HOL-Library.Multiset"
begin

text \<open>
  The tree of host folders (\<open>cmd/server/host_folders.go\<close>, the functions on \<open>[]HostFolderNode\<close>). A tree is
  the list of its roots. The shape of a tree is the multiset of its edges (a folder and the one above
  it, the empty id above a root): what an operation does to the tree is what it does to the edges.
  A pointer into the tree is the node it points at, and a function that changes the slice it is given
  returns the changed tree; \<open>cloneFolderTree\<close>, a deep copy, is then the identity and left out.
\<close>

section \<open>Trees and their well-formedness\<close>

datatype folder = Folder (hf_id: string) (hf_name: string) (hf_children: "folder list")

datatype folder_error =
    FolderTooDeep | InvalidFolderId | DuplicateFolderId | EmptyFolderName | ParentNotFound
  | FolderNotFound | CannotMove | MoveIntoItself | MoveIntoSubtree | CannotRename | CannotDelete | NoHosts

definition HostFolderUngroupedID :: string where
  "HostFolderUngroupedID = ''__ungrouped__''"

definition MaxHostFolderDepth :: nat where
  "MaxHostFolderDepth = 32"

definition name_char :: "char \<Rightarrow> bool" where
  "name_char c \<longleftrightarrow> (of_char c :: nat) \<notin> {47, 92, 10, 13, 9}"

definition sanitizeFolderName :: "string \<Rightarrow> string" where
  "sanitizeFolderName s =
     (let s1 = filter name_char (trim_space s);
          s2 = (if 48 < rune_count s1 then take_runes 48 s1 else s1)
      in trim_space s2)"

fun validate_walk :: "nat \<Rightarrow> string list \<Rightarrow> folder list \<Rightarrow> folder_error + string list" where
  "validate_walk d seen [] = Inr seen"
| "validate_walk d seen (Folder i n cs # rest) =
     (if MaxHostFolderDepth < d then Inl FolderTooDeep
      else if i = [] \<or> i = HostFolderUngroupedID then Inl InvalidFolderId
      else if i \<in> set seen then Inl DuplicateFolderId
      else if sanitizeFolderName n = [] then Inl EmptyFolderName
      else case validate_walk (d + 1) (i # seen) cs of
             Inl e \<Rightarrow> Inl e
           | Inr seen' \<Rightarrow> validate_walk d seen' rest)"

definition validateFolderTree :: "folder list \<Rightarrow> folder_error option" where
  "validateFolderTree ts = (case validate_walk 1 [] ts of Inl e \<Rightarrow> Some e | Inr _ \<Rightarrow> None)"

fun findFolderNode :: "folder list \<Rightarrow> string \<Rightarrow> folder option" where
  "findFolderNode [] x = None"
| "findFolderNode (Folder i n cs # rest) x =
     (if i = x then Some (Folder i n cs)
      else case findFolderNode cs x of Some m \<Rightarrow> Some m | None \<Rightarrow> findFolderNode rest x)"

fun path_walk :: "string go_map \<Rightarrow> string \<Rightarrow> folder list \<Rightarrow> string go_map" where
  "path_walk out pre [] = out"
| "path_walk out pre (Folder i n cs # rest) =
     (let p = (if pre \<noteq> [] then pre @ '' / '' @ n else n)
      in path_walk (path_walk (AList.update i p out) p cs) pre rest)"

definition folderPathMap :: "folder list \<Rightarrow> string go_map" where
  "folderPathMap ts = path_walk [] [] ts"

fun subtree_ids :: "folder list \<Rightarrow> string list" where
  "subtree_ids [] = []"
| "subtree_ids (Folder i n cs # rest) = i # subtree_ids cs @ subtree_ids rest"

definition folderSubtreeIDs :: "folder \<Rightarrow> string list" where
  "folderSubtreeIDs r = hf_id r # subtree_ids (hf_children r)"

section \<open>Operations\<close>

fun removeFolderNode :: "folder list \<Rightarrow> string \<Rightarrow> folder list \<times> (folder \<times> string) option" where
  "removeFolderNode [] x = ([], None)"
| "removeFolderNode (Folder i n cs # rest) x =
     (if i = x then (rest, Some (Folder i n cs, []))
      else case removeFolderNode cs x of
             (cs', Some (rm, pid)) \<Rightarrow> (Folder i n cs' # rest, Some (rm, if pid = [] then i else pid))
           | (_, None) \<Rightarrow>
               (case removeFolderNode rest x of (rest', r) \<Rightarrow> (Folder i n cs # rest', r)))"

fun add_under :: "nat \<Rightarrow> string \<Rightarrow> folder \<Rightarrow> folder list \<Rightarrow> folder_error + folder list \<times> bool" where
  "add_under d par child [] = Inr ([], False)"
| "add_under d par child (Folder i n cs # rest) =
     (if i = par then
        (if MaxHostFolderDepth < d + 1 then Inl FolderTooDeep
         else Inr (Folder i n (cs @ [child]) # rest, True))
      else case add_under (d + 1) par child cs of
             Inl e \<Rightarrow> Inl e
           | Inr (cs', True) \<Rightarrow> Inr (Folder i n cs' # rest, True)
           | Inr (_, False) \<Rightarrow>
               (case add_under d par child rest of
                  Inl e \<Rightarrow> Inl e
                | Inr (rest', found) \<Rightarrow> Inr (Folder i n cs # rest', found)))"

definition addChildFolder :: "folder list \<Rightarrow> string \<Rightarrow> folder \<Rightarrow> folder_error + folder list" where
  "addChildFolder ts par child =
     (if par = [] \<or> par = HostFolderUngroupedID then
        (case validateFolderTree (ts @ [child]) of Some e \<Rightarrow> Inl e | None \<Rightarrow> Inr (ts @ [child]))
      else case add_under 1 par child ts of
             Inl e \<Rightarrow> Inl e
           | Inr (out, found) \<Rightarrow> if found then Inr out else Inl ParentNotFound)"

fun renameFolderNode :: "folder list \<Rightarrow> string \<Rightarrow> string \<Rightarrow> folder list \<times> bool" where
  "renameFolderNode [] x name = ([], False)"
| "renameFolderNode (Folder i n cs # rest) x name =
     (if i = x then (Folder i name cs # rest, True)
      else case renameFolderNode cs x name of
             (cs', True) \<Rightarrow> (Folder i n cs' # rest, True)
           | (_, False) \<Rightarrow>
               (case renameFolderNode rest x name of (rest', ok) \<Rightarrow> (Folder i n cs # rest', ok)))"

definition folderSubtreeContains :: "folder \<Rightarrow> string \<Rightarrow> bool" where
  "folderSubtreeContains r x \<longleftrightarrow> x \<in> set (folderSubtreeIDs r)"

text \<open>An error returns the tree it was given, so it is left out of the result.\<close>

definition moveFolderNode :: "folder list \<Rightarrow> string \<Rightarrow> string \<Rightarrow> folder_error + folder list" where
  "moveFolderNode ts x np =
     (if x = [] \<or> x = HostFolderUngroupedID then Inl CannotMove
      else let par = (if np = HostFolderUngroupedID then [] else np) in
      if par = x then Inl MoveIntoItself
      else case findFolderNode ts x of
        None \<Rightarrow> Inl FolderNotFound
      | Some node \<Rightarrow>
          if par \<noteq> [] \<and> folderSubtreeContains node par then Inl MoveIntoSubtree
          else if par \<noteq> [] \<and> findFolderNode ts par = None then Inl ParentNotFound
          else case removeFolderNode ts x of
            (work, None) \<Rightarrow> Inl FolderNotFound
          | (work, Some (removed, old)) \<Rightarrow>
              if old = par then Inr ts
              else case addChildFolder work par removed of
                     Inl e \<Rightarrow> Inl e
                   | Inr out \<Rightarrow>
                       (case validateFolderTree out of Some e \<Rightarrow> Inl e | None \<Rightarrow> Inr out))"

definition findL1FolderByName :: "folder list \<Rightarrow> string \<Rightarrow> folder option" where
  "findL1FolderByName ts name = find (\<lambda>n. hf_name n = name) ts"

fun sanitizeFolderTreeNames :: "folder list \<Rightarrow> folder list" where
  "sanitizeFolderTreeNames [] = []"
| "sanitizeFolderTreeNames (Folder i n cs # rest) =
     Folder i (sanitizeFolderName n) (sanitizeFolderTreeNames cs) # sanitizeFolderTreeNames rest"

section \<open>The shape of a tree\<close>

fun edges :: "string \<Rightarrow> folder list \<Rightarrow> (string \<times> string) list" where
  "edges p [] = []"
| "edges p (Folder i n cs # rest) = (i, p) # edges i cs @ edges p rest"

fun fits :: "nat \<Rightarrow> folder list \<Rightarrow> bool" where
  "fits d [] \<longleftrightarrow> True"
| "fits d (Folder i n cs # rest) \<longleftrightarrow> d \<le> MaxHostFolderDepth \<and> fits (d + 1) cs \<and> fits d rest"

fun subtree_names :: "folder list \<Rightarrow> string list" where
  "subtree_names [] = []"
| "subtree_names (Folder i n cs # rest) = n # subtree_names cs @ subtree_names rest"

definition good_ids :: "string list \<Rightarrow> bool" where
  "good_ids is \<longleftrightarrow> distinct is \<and> [] \<notin> set is \<and> HostFolderUngroupedID \<notin> set is"

definition well_formed_tree :: "folder list \<Rightarrow> bool" where
  "well_formed_tree ts \<longleftrightarrow> good_ids (subtree_ids ts) \<and> fits 1 ts \<and>
     (\<forall>n\<in>set (subtree_names ts). sanitizeFolderName n \<noteq> [])"

lemma ids_edges: "map fst (edges p ts) = subtree_ids ts"
  by (induction p ts rule: edges.induct) simp_all

lemma ids_append [simp]: "subtree_ids (ts @ us) = subtree_ids ts @ subtree_ids us"
  by (induction ts rule: subtree_ids.induct) simp_all

lemma names_append [simp]: "subtree_names (ts @ us) = subtree_names ts @ subtree_names us"
  by (induction ts rule: subtree_names.induct) simp_all

lemma edges_append [simp]: "edges p (ts @ us) = edges p ts @ edges p us"
  by (induction p ts rule: edges.induct) simp_all

lemma fits_append [simp]: "fits d (ts @ us) \<longleftrightarrow> fits d ts \<and> fits d us"
  by (induction d ts rule: fits.induct) auto

lemma validate_walk_iff:
  "(case validate_walk d seen ts of Inl e \<Rightarrow> False | Inr s \<Rightarrow> s = rev (subtree_ids ts) @ seen) \<longleftrightarrow>
     fits d ts \<and> (\<forall>n\<in>set (subtree_names ts). sanitizeFolderName n \<noteq> []) \<and>
     good_ids (subtree_ids ts) \<and> set (subtree_ids ts) \<inter> set seen = {}"
  "validate_walk d seen ts = Inr s \<Longrightarrow> s = rev (subtree_ids ts) @ seen"
proof (induction d seen ts arbitrary: s rule: validate_walk.induct)
  case (1 d seen)
  {
    case 1
    show ?case by (simp add: good_ids_def)
  next
    case 2
    then show ?case by simp
  }
next
  case (2 d seen i n cs rest)
  {
    case 1
    show ?case
    proof (cases "d \<le> MaxHostFolderDepth \<and> i \<noteq> [] \<and> i \<noteq> HostFolderUngroupedID \<and> i \<notin> set seen \<and>
        sanitizeFolderName n \<noteq> []")
      case False
      then show ?thesis by (auto simp: good_ids_def)
    next
      case True
      then have pre: "\<not> MaxHostFolderDepth < d" "\<not> (i = [] \<or> i = HostFolderUngroupedID)"
        "i \<notin> set seen" "sanitizeFolderName n \<noteq> []" by simp_all
      note IH = 2(1,2) [OF pre]
      show ?thesis
      proof (cases "validate_walk (d + 1) (i # seen) cs")
        case (Inl e)
        then show ?thesis using True IH(1) by (auto simp: good_ids_def)
      next
        case (Inr s1)
        then have s1: "s1 = rev (subtree_ids cs) @ i # seen" using IH(2) by blast
        show ?thesis using True IH(1) 2(3) [OF pre Inr] Inr s1
          by (auto simp: good_ids_def split: sum.splits)
      qed
    qed
  next
    case 2
    then show ?case using "2.IH"(2,4) by (fastforce split: if_splits sum.splits)
  }
qed

lemma validate_iff: "validateFolderTree ts = None \<longleftrightarrow> well_formed_tree ts"
  using validate_walk_iff(1) [where d = 1 and seen = "[]" and ts = ts]
    validate_walk_iff(2) [where d = 1 and seen = "[]" and ts = ts]
  by (auto simp: validateFolderTree_def well_formed_tree_def split: sum.splits)


text \<open>The identifiers of a tree with their names, in the order of the walk: what a lookup sees.\<close>

fun labels :: "folder list \<Rightarrow> (string \<times> string) list" where
  "labels [] = []"
| "labels (Folder i n cs # rest) = (i, n) # labels cs @ labels rest"

lemma fst_labels [simp]: "map fst (labels ts) = subtree_ids ts"
  by (induction ts rule: labels.induct) simp_all

lemma snd_labels [simp]: "map snd (labels ts) = subtree_names ts"
  by (induction ts rule: labels.induct) simp_all

lemma labels_append [simp]: "labels (ts @ us) = labels ts @ labels us"
  by (induction ts rule: labels.induct) simp_all

definition folder_name :: "folder list \<Rightarrow> string \<Rightarrow> string option" where
  "folder_name ts x = map_of (labels ts) x"

lemma folder_name_None: "folder_name ts x = None \<longleftrightarrow> x \<notin> set (subtree_ids ts)"
  by (simp add: folder_name_def map_of_eq_None_iff flip: fst_labels)

lemma folder_name_mset:
  assumes "mset (labels ts) = mset (labels us)" and "distinct (subtree_ids ts)"
  shows "folder_name ts x = folder_name us x"
proof -
  have "mset (map fst (labels ts)) = mset (map fst (labels us))" using assms(1) by (metis mset_map)
  then have d: "distinct (map fst (labels ts))" "distinct (map fst (labels us))"
    using assms(2) by (auto dest: mset_eq_imp_distinct_iff)
  moreover have "set (labels ts) = set (labels us)" using assms(1) by (rule mset_eq_setD)
  ultimately have "map_of (labels ts) = map_of (labels us)" using map_of_inject_set by blast
  then show ?thesis by (simp add: folder_name_def)
qed

lemma find_name: "map_option hf_name (findFolderNode ts x) = folder_name ts x"
  by (induction ts x rule: findFolderNode.induct)
    (auto simp: folder_name_def map_add_def split: option.splits)

lemma find_None: "findFolderNode ts x = None \<longleftrightarrow> x \<notin> set (subtree_ids ts)"
  using find_name [of ts x] folder_name_None [of ts x] by (cases "findFolderNode ts x") auto

lemma find_Some:
  "findFolderNode ts x = Some n \<Longrightarrow>
     hf_id n = x \<and> set (folderSubtreeIDs n) \<subseteq> set (subtree_ids ts)"
  by (induction ts x rule: findFolderNode.induct)
    (auto simp: folderSubtreeIDs_def split: if_splits option.splits)

section \<open>What the operations do\<close>

lemma ids_single [simp]: "subtree_ids [n] = folderSubtreeIDs n"
  by (cases n) (simp add: folderSubtreeIDs_def)

lemma remove_None: "removeFolderNode ts x = (ts', None) \<Longrightarrow> ts' = ts \<and> x \<notin> set (subtree_ids ts)"
proof (induction ts x arbitrary: ts' rule: removeFolderNode.induct)
  case (1 x)
  then show ?case by simp
next
  case (2 i n cs rest x)
  obtain cs' r where c: "removeFolderNode cs x = (cs', r)" by (cases "removeFolderNode cs x")
  obtain rest' r' where d: "removeFolderNode rest x = (rest', r')" by (cases "removeFolderNode rest x")
  show ?case using 2 c d by (auto split: if_splits option.splits)
qed

definition taken_out :: "folder list \<Rightarrow> folder list \<Rightarrow> folder \<Rightarrow> string \<Rightarrow> bool" where
  "taken_out ts ts' rm pid \<longleftrightarrow>
     (\<forall>p. mset (edges p ts) = mset (edges p ts') + mset (edges (if pid = [] then p else pid) [rm])) \<and>
     mset (labels ts) = mset (labels ts') + mset (labels [rm]) \<and>
     (\<forall>d. fits d ts \<longrightarrow> fits d ts') \<and> (pid = [] \<or> pid \<in> set (subtree_ids ts'))"

lemma remove_Some:
  "removeFolderNode ts x = (ts', Some (rm, pid)) \<Longrightarrow> [] \<notin> set (subtree_ids ts) \<Longrightarrow>
   findFolderNode ts x = Some rm \<and> taken_out ts ts' rm pid"
proof (induction ts x arbitrary: ts' rm pid rule: removeFolderNode.induct)
  case (1 x)
  then show ?case by simp
next
  case (2 i n cs rest x)
  obtain cs' r where c: "removeFolderNode cs x = (cs', r)" by (cases "removeFolderNode cs x")
  obtain rest' r' where rs: "removeFolderNode rest x = (rest', r')" by (cases "removeFolderNode rest x")
  have ne: "i \<noteq> []" "[] \<notin> set (subtree_ids cs)" "[] \<notin> set (subtree_ids rest)"
    using "2.prems"(2) by auto
  consider (here) "i = x" | (below) rm' pid' where "i \<noteq> x" "r = Some (rm', pid')"
    | (later) rm' pid' where "i \<noteq> x" "r = None" "r' = Some (rm', pid')" | (no) "i \<noteq> x" "r = None" "r' = None"
    by (cases r; cases r') auto
  then show ?case
  proof cases
    case here
    then show ?thesis using "2.prems"(1) by (auto simp: taken_out_def)
  next
    case below
    have "findFolderNode cs x = Some rm' \<and> taken_out cs cs' rm' pid'"
      using "2.IH"(1) [OF below(1)] c below(2) ne(2) by simp
    then show ?thesis using "2.prems"(1) c below ne by (auto simp: taken_out_def split: if_splits)
  next
    case later
    have nf: "findFolderNode cs x = None" using c later(2) remove_None [of cs x cs'] by (simp add: find_None)
    have "findFolderNode rest x = Some rm' \<and> taken_out rest rest' rm' pid'"
      using "2.IH"(2) [OF later(1)] c rs later ne(3) by simp
    then show ?thesis using "2.prems"(1) c rs later ne nf by (auto simp: taken_out_def)
  next
    case no
    then show ?thesis using "2.prems"(1) c rs by simp
  qed
qed

lemma add_under_cases:
  "add_under d par child ts = Inr (ts', found) \<Longrightarrow>
   (found \<longrightarrow> par \<in> set (subtree_ids ts)) \<and> (\<not> found \<longrightarrow> ts' = ts \<and> par \<notin> set (subtree_ids ts)) \<and>
   mset (edges p ts') = mset (edges p ts) + (if found then mset (edges par [child]) else {#}) \<and>
   mset (labels ts') = mset (labels ts) + (if found then mset (labels [child]) else {#}) \<and>
   (fits d ts \<longrightarrow> hf_children child = [] \<longrightarrow> fits d ts')"
proof (induction d par child ts arbitrary: ts' found p rule: add_under.induct)
  case (1 d par child)
  then show ?case by simp
next
  case (2 d par child i n cs rest)
  show ?case
  proof (cases "i = par")
    case True
    then show ?thesis using "2.prems" by (cases child) (auto split: if_splits)
  next
    case False
    then obtain cs' f where c: "add_under (d + 1) par child cs = Inr (cs', f)"
      using "2.prems" by (auto split: sum.splits)
    note IH1 = "2.IH"(1) [OF False c]
    show ?thesis
    proof (cases f)
      case True
      then show ?thesis using "2.prems" False c IH1 [where p = i] by auto
    next
      case f: False
      then obtain rest' where r: "add_under d par child rest = Inr (rest', found)"
        and ts': "ts' = Folder i n cs # rest'"
        using "2.prems" False c by (auto split: sum.splits)
      note IH2 = "2.IH"(2) [OF False c refl _ r]
      show ?thesis using False ts' f IH1 [where p = i] IH2 [where p = p] by auto
    qed
  qed
qed

lemma rename_same:
  "renameFolderNode ts x name = (ts', ok) \<Longrightarrow>
   edges p ts' = edges p ts \<and> (fits d ts' \<longleftrightarrow> fits d ts) \<and> (ok \<longleftrightarrow> x \<in> set (subtree_ids ts)) \<and>
   folder_name ts' y = (if y = x \<and> ok then Some name else folder_name ts y) \<and>
   set (subtree_names ts') \<subseteq> insert name (set (subtree_names ts))"
proof (induction ts x name arbitrary: ts' ok p d rule: renameFolderNode.induct)
  case (1 x name)
  then show ?case by simp
next
  case (2 i n cs rest x name)
  obtain cs' f where c: "renameFolderNode cs x name = (cs', f)" by (cases "renameFolderNode cs x name")
  obtain rest' g where r: "renameFolderNode rest x name = (rest', g)" by (cases "renameFolderNode rest x name")
  show ?case
  proof (cases "i = x")
    case True
    then show ?thesis using "2.prems" by (auto simp: folder_name_def)
  next
    case False
    note IH1 = "2.IH"(1) [OF False c]
    show ?thesis
    proof (cases f)
      case True
      then show ?thesis using "2.prems" False c IH1 [where p = i and d = "d + 1"]
        by (auto simp: folder_name_def map_add_def split: option.splits)
    next
      case f: False
      then have "g = ok" and "ts' = Folder i n cs # rest'" using "2.prems" False c r by auto
      have IH2: "edges p rest' = edges p rest \<and> (fits d rest' \<longleftrightarrow> fits d rest) \<and>
          (g \<longleftrightarrow> x \<in> set (subtree_ids rest)) \<and>
          folder_name rest' y = (if y = x \<and> g then Some name else folder_name rest y) \<and>
          set (subtree_names rest') \<subseteq> insert name (set (subtree_names rest))" for p d
        using "2.IH"(2) [OF False c [symmetric] _ r, of p d] f by simp
      have nx: "x \<notin> set (subtree_ids cs)" using IH1 f by blast
      have nc: "map_of (labels cs) x = None" using nx folder_name_None [of cs x] by (simp add: folder_name_def)
      note ts' = \<open>ts' = Folder i n cs # rest'\<close> and ok = \<open>g = ok\<close>
      have "folder_name ts' y = (if y = x \<and> ok then Some name else folder_name (Folder i n cs # rest) y)"
      proof (cases "y = x")
        case True
        then show ?thesis using IH2 nc False ok ts' by (simp add: folder_name_def map_add_def)
      next
        case y: False
        then have "map_of (labels rest') y = map_of (labels rest) y" using IH2 by (simp add: folder_name_def)
        then show ?thesis using y ts' by (simp add: folder_name_def map_add_def split: option.split)
      qed
      moreover have "set (subtree_names ts') \<subseteq> insert name (set (subtree_names (Folder i n cs # rest)))"
        using IH2 ts' by auto
      ultimately show ?thesis using False nx ts' ok IH2 [of p d] by simp
    qed
  qed
qed

section \<open>Operations keep a tree well-formed\<close>

lemma edges_single: "edges q [n] = (hf_id n, q) # edges (hf_id n) (hf_children n)"
  by (cases n) simp

lemma mset_edges_ids: "mset (edges p ts) = mset (edges p us) \<Longrightarrow> mset (subtree_ids ts) = mset (subtree_ids us)"
  by (metis ids_edges mset_map)

lemma mset_labels_ids: "mset (labels ts) = mset (labels us) \<Longrightarrow> mset (subtree_ids ts) = mset (subtree_ids us)"
  by (metis fst_labels mset_map)

lemma mset_labels_names: "mset (labels ts) = mset (labels us) \<Longrightarrow> mset (subtree_names ts) = mset (subtree_names us)"
  by (metis snd_labels mset_map)

lemma good_ids_mset: "mset is = mset js \<Longrightarrow> good_ids is = good_ids js"
  using mset_eq_imp_distinct_iff mset_eq_setD unfolding good_ids_def by metis

lemma well_formed_fits:
  assumes "mset (labels ts) = mset (labels us)" and "well_formed_tree ts"
  shows "well_formed_tree us \<longleftrightarrow> fits 1 us"
  using assms(2) good_ids_mset [OF mset_labels_ids [OF assms(1)]] mset_eq_setD [OF mset_labels_names [OF assms(1)]]
  by (simp add: well_formed_tree_def)

lemma validate_walk_too_deep:
  "validate_walk d seen ts = Inl e \<Longrightarrow> good_ids (subtree_ids ts) \<Longrightarrow> set (subtree_ids ts) \<inter> set seen = {} \<Longrightarrow>
   \<forall>n\<in>set (subtree_names ts). sanitizeFolderName n \<noteq> [] \<Longrightarrow> e = FolderTooDeep"
proof (induction d seen ts rule: validate_walk.induct)
  case (1 d seen)
  then show ?case by simp
next
  case (2 d seen i n cs rest)
  show ?case
  proof (cases "MaxHostFolderDepth < d")
    case True
    then show ?thesis using "2.prems"(1) by simp
  next
    case False
    have pre: "\<not> (i = [] \<or> i = HostFolderUngroupedID)" "i \<notin> set seen" "sanitizeFolderName n \<noteq> []"
      using "2.prems"(2-4) by (auto simp: good_ids_def)
    have good: "good_ids (subtree_ids cs)" "good_ids (subtree_ids rest)"
      "set (subtree_ids cs) \<inter> set (i # seen) = {}"
      "\<forall>n\<in>set (subtree_names cs). sanitizeFolderName n \<noteq> []"
      "\<forall>n\<in>set (subtree_names rest). sanitizeFolderName n \<noteq> []"
      using "2.prems"(2-4) by (auto simp: good_ids_def)
    show ?thesis
    proof (cases "validate_walk (d + 1) (i # seen) cs")
      case (Inl e')
      then show ?thesis using "2.IH"(1) [OF False pre] good "2.prems"(1) False pre by simp
    next
      case (Inr s1)
      then have "s1 = rev (subtree_ids cs) @ i # seen" by (rule validate_walk_iff(2))
      then have "set (subtree_ids rest) \<inter> set s1 = {}" using "2.prems"(2,3) by (auto simp: good_ids_def)
      then show ?thesis using "2.IH"(2) [OF False pre Inr] good "2.prems"(1) False pre Inr by simp
    qed
  qed
qed

lemma validate_too_deep:
  "validateFolderTree us = Some e \<Longrightarrow> well_formed_tree ts \<Longrightarrow> mset (labels ts) = mset (labels us) \<Longrightarrow> e = FolderTooDeep"
  using validate_walk_too_deep [where d = 1 and seen = "[]" and ts = us and e = e]
    good_ids_mset [OF mset_labels_ids [of ts us]] mset_eq_setD [OF mset_labels_names [of ts us]]
  by (auto simp: validateFolderTree_def well_formed_tree_def split: sum.splits)

lemma add_under_too_deep: "add_under d par child ts = Inl e \<Longrightarrow> e = FolderTooDeep"
  by (induction d par child ts rule: add_under.induct) (auto split: if_splits sum.splits bool.splits)

text \<open>What a removal and the insertion of the removed folder elsewhere do together.\<close>

lemma add_child_shape:
  assumes "addChildFolder work par rm = Inr out" and "par \<noteq> HostFolderUngroupedID"
  shows "mset (edges [] out) = mset (edges [] work) + mset (edges par [rm])"
    and "mset (labels out) = mset (labels work) + mset (labels [rm])"
proof -
  have "mset (edges [] out) = mset (edges [] work) + mset (edges par [rm]) \<and>
      mset (labels out) = mset (labels work) + mset (labels [rm])"
  proof (cases "par = []")
    case True
    then show ?thesis using assms(1) by (auto simp: addChildFolder_def split: option.splits)
  next
    case False
    then obtain found where a: "add_under 1 par rm work = Inr (out, found)" "found"
      using assms by (auto simp: addChildFolder_def split: sum.splits if_splits)
    then show ?thesis using add_under_cases [OF a(1), of "[]"] by simp
  qed
  then show "mset (edges [] out) = mset (edges [] work) + mset (edges par [rm])"
    and "mset (labels out) = mset (labels work) + mset (labels [rm])" by simp_all
qed

lemma move_cases:
  assumes wf: "well_formed_tree ts" and np: "par = (if np = HostFolderUngroupedID then [] else np)"
    and x: "x \<in> set (subtree_ids ts)"
    and par: "par = [] \<or> par \<in> set (subtree_ids ts) \<and> par \<notin> set (folderSubtreeIDs (the (findFolderNode ts x)))"
  obtains (same) old where "(x, old) \<in> set (edges [] ts)" and "old = par" and "moveFolderNode ts x np = Inr ts"
  | (moved) old work rm where "old \<noteq> par" and "removeFolderNode ts x = (work, Some (rm, old))" and "hf_id rm = x"
      and "taken_out ts work rm old"
      and "moveFolderNode ts x np =
        (case addChildFolder work par rm of Inl e \<Rightarrow> Inl e
         | Inr out \<Rightarrow> (case validateFolderTree out of Some e \<Rightarrow> Inl e | None \<Rightarrow> Inr out))"
proof -
  have good: "[] \<notin> set (subtree_ids ts)" "HostFolderUngroupedID \<notin> set (subtree_ids ts)"
    using wf by (auto simp: well_formed_tree_def good_ids_def)
  then have xs: "x \<noteq> []" "x \<noteq> HostFolderUngroupedID" using x by auto
  obtain node where n: "findFolderNode ts x = Some node" using x find_None [of ts x] by auto
  obtain work r where rem: "removeFolderNode ts x = (work, r)" by (cases "removeFolderNode ts x")
  then obtain rm old where r: "r = Some (rm, old)" using x remove_None [of ts x work] by (cases r) auto
  note R = remove_Some [OF rem [unfolded r] good(1)]
  have id: "hf_id rm = x" using R find_Some by blast
  have self: "par \<noteq> x" using par n find_Some [OF n] x xs by (auto simp: folderSubtreeIDs_def)
  have edge: "(x, old) \<in> set (edges [] ts)"
  proof -
    have "mset (edges [] ts) = mset (edges [] work) + mset (edges (if old = [] then [] else old) [rm])"
      using R unfolding taken_out_def by blast
    then have "mset (edges [] ts) = mset (edges [] work @ edges old [rm])" by simp
    then have "set (edges [] ts) = set (edges [] work @ edges old [rm])" by (rule mset_eq_setD)
    then show ?thesis using id by (simp add: edges_single)
  qed
  have eq: "moveFolderNode ts x np =
      (if old = par then Inr ts else case addChildFolder work par rm of Inl e \<Rightarrow> Inl e
         | Inr out \<Rightarrow> (case validateFolderTree out of Some e \<Rightarrow> Inl e | None \<Rightarrow> Inr out))"
    using xs self par n rem r
    by (auto simp: moveFolderNode_def np [symmetric] folderSubtreeContains_def find_None Let_def)
  show thesis
  proof (cases "old = par")
    case True
    then show thesis using same [of old] edge eq by simp
  next
    case False
    then show thesis using moved [of old work rm] rem r id R eq by simp
  qed
qed

lemma move_possible:
  assumes "moveFolderNode ts x np = Inr out" and "par = (if np = HostFolderUngroupedID then [] else np)"
  shows "x \<in> set (subtree_ids ts)"
    and "par = [] \<or> par \<in> set (subtree_ids ts) \<and> par \<notin> set (folderSubtreeIDs (the (findFolderNode ts x)))"
  using assms find_None [of ts x] find_None [of ts par]
  by (auto simp: moveFolderNode_def Let_def folderSubtreeContains_def split: if_splits option.splits)

lemma move_keeps:
  assumes wf: "well_formed_tree ts" and mv: "moveFolderNode ts x np = Inr out"
    and par: "par = (if np = HostFolderUngroupedID then [] else np)"
  shows "well_formed_tree out \<and> mset (labels out) = mset (labels ts) \<and>
    (\<exists>old. (x, old) \<in> set (edges [] ts) \<and>
       add_mset (x, old) (mset (edges [] out)) = add_mset (x, par) (mset (edges [] ts)))"
  using wf par move_possible [OF mv par]
proof (cases rule: move_cases)
  case (same old)
  then show ?thesis using mv wf by auto
next
  case (moved old work rm)
  then have add: "addChildFolder work par rm = Inr out" and v: "validateFolderTree out = None"
    using mv by (auto split: sum.splits option.splits)
  have nU: "par \<noteq> HostFolderUngroupedID" by (auto simp: par HostFolderUngroupedID_def)
  have lab: "mset (labels ts) = mset (labels out)"
    using moved(4) add_child_shape(2) [OF add nU] by (simp add: taken_out_def)
  have e1: "mset (edges [] ts) = mset (edges [] work) + mset (edges (if old = [] then [] else old) [rm])"
    using moved(4) unfolding taken_out_def by blast
  have "mset (edges [] ts) = add_mset (x, old) (mset (edges [] work) + mset (edges x (hf_children rm)))"
    using e1 moved(3) by (simp add: edges_single)
  moreover have "mset (edges [] out) = add_mset (x, par) (mset (edges [] work) + mset (edges x (hf_children rm)))"
    using add_child_shape(1) [OF add nU] moved(3) by (simp add: edges_single)
  ultimately have E: "add_mset (x, old) (mset (edges [] out)) = add_mset (x, par) (mset (edges [] ts))" by simp
  have "(x, old) \<in> set_mset (mset (edges [] ts))"
    using \<open>mset (edges [] ts) = add_mset (x, old) _\<close> by simp
  then show ?thesis using E lab v validate_iff by (metis set_mset_mset)
qed

lemma move_fails_only:
  assumes wf: "well_formed_tree ts" and mv: "moveFolderNode ts x np = Inl e"
    and par: "par = (if np = HostFolderUngroupedID then [] else np)"
    and x: "x \<in> set (subtree_ids ts)"
    and ok: "par = [] \<or> par \<in> set (subtree_ids ts) \<and> par \<notin> set (folderSubtreeIDs (the (findFolderNode ts x)))"
  shows "e = FolderTooDeep"
  using wf par x ok
proof (cases rule: move_cases)
  case (same old)
  then show ?thesis using mv by simp
next
  case (moved old work rm)
  have nU: "par \<noteq> HostFolderUngroupedID" by (auto simp: par HostFolderUngroupedID_def)
  have lab: "mset (labels ts) = mset (labels work) + mset (labels [rm])"
    using moved(4) by (simp add: taken_out_def)
  show ?thesis
  proof (cases "addChildFolder work par rm")
    case (Inr out)
    then have "validateFolderTree out = Some e" using mv moved(5) by (auto split: option.splits)
    then show ?thesis using validate_too_deep [OF _ wf] lab add_child_shape(2) [OF Inr nU] by simp
  next
    case (Inl e')
    then have e: "addChildFolder work par rm = Inl e" using mv moved(5) by simp
    show ?thesis
    proof (cases "par = []")
      case True
      then have "validateFolderTree (work @ [rm]) = Some e" using e by (auto simp: addChildFolder_def split: option.splits)
      then show ?thesis using validate_too_deep [OF _ wf] lab by simp
    next
      case False
      have ids: "mset (subtree_ids ts) = mset (subtree_ids (work @ [rm]))"
        using mset_labels_ids [of ts "work @ [rm]"] lab by simp
      have "findFolderNode ts x = Some rm"
        using remove_Some [OF moved(2)] wf by (simp add: well_formed_tree_def good_ids_def)
      then have "par \<notin> set (folderSubtreeIDs rm)" using ok False by simp
      moreover have "par \<in> set (subtree_ids (work @ [rm]))" using ok False mset_eq_setD [OF ids] by simp
      ultimately have pw: "par \<in> set (subtree_ids work)" by simp
      show ?thesis
      proof (cases "add_under 1 par rm work")
        case (Inl e2)
        then show ?thesis using e add_under_too_deep [OF Inl] False nU by (simp add: addChildFolder_def)
      next
        case (Inr res)
        obtain out found where res: "res = (out, found)" by (cases res)
        have found using add_under_cases [OF Inr [unfolded res]] pw by blast
        then show ?thesis using e Inr res False nU by (simp add: addChildFolder_def)
      qed
    qed
  qed
qed

lemma add_leaf_keeps:
  assumes wf: "well_formed_tree ts" and add: "addChildFolder ts par (Folder i n []) = Inr out"
    and "i \<noteq> []" "i \<noteq> HostFolderUngroupedID" "i \<notin> set (subtree_ids ts)" "sanitizeFolderName n \<noteq> []"
  shows "well_formed_tree out" and "mset (labels out) = add_mset (i, n) (mset (labels ts))"
proof -
  have "well_formed_tree out \<and> mset (labels out) = add_mset (i, n) (mset (labels ts))"
  proof (cases "par = [] \<or> par = HostFolderUngroupedID")
    case True
    then show ?thesis using add validate_iff by (auto simp: addChildFolder_def split: option.splits)
  next
    case False
    then obtain found where a: "add_under 1 par (Folder i n []) ts = Inr (out, found)" "found"
      using add by (auto simp: addChildFolder_def split: sum.splits if_splits)
    note A = add_under_cases [OF a(1), of "[]"]
    have lab: "mset (labels out) = mset ((i, n) # labels ts)" using A a(2) by simp
    have "mset (subtree_ids out) = mset (map fst ((i, n) # labels ts))"
      by (metis lab fst_labels mset_map)
    then have ids: "mset (subtree_ids out) = mset (i # subtree_ids ts)" by simp
    have "set (subtree_names out) = set (map snd ((i, n) # labels ts))"
      by (metis lab snd_labels mset_map mset_eq_setD)
    then have names: "set (subtree_names out) = insert n (set (subtree_names ts))" by simp
    have "good_ids (i # subtree_ids ts)" using wf assms(3-5) by (simp add: well_formed_tree_def good_ids_def)
    then show ?thesis
      using A a(2) wf names assms(6) lab good_ids_mset [OF ids] by (simp add: well_formed_tree_def)
  qed
  then show "well_formed_tree out" and "mset (labels out) = add_mset (i, n) (mset (labels ts))" by simp_all
qed

lemma rename_keeps:
  assumes "well_formed_tree ts" and "sanitizeFolderName name \<noteq> []" and "renameFolderNode ts x name = (ts', ok)"
  shows "well_formed_tree ts'"
proof -
  have r: "edges [] ts' = edges [] ts" "fits 1 ts' \<longleftrightarrow> fits 1 ts"
    "set (subtree_names ts') \<subseteq> insert name (set (subtree_names ts))"
    using rename_same [OF assms(3), of "[]" 1] by simp_all
  have "subtree_ids ts' = subtree_ids ts" by (metis r(1) ids_edges)
  then show ?thesis using assms(1,2) r(2,3) unfolding well_formed_tree_def by auto
qed

lemma remove_keeps:
  assumes "well_formed_tree ts" and "removeFolderNode ts x = (ts', Some (rm, pid))"
  shows "well_formed_tree ts'"
proof -
  have t: "taken_out ts ts' rm pid"
    using remove_Some [OF assms(2)] assms(1) by (simp add: well_formed_tree_def good_ids_def)
  then have lab: "mset (labels ts) = mset (labels (ts' @ [rm]))" by (simp add: taken_out_def)
  have "good_ids (subtree_ids (ts' @ [rm]))"
    using good_ids_mset [OF mset_labels_ids [OF lab]] assms(1) by (simp add: well_formed_tree_def)
  moreover have "set (subtree_names ts') \<subseteq> set (subtree_names ts)"
    using mset_eq_setD [OF mset_labels_names [OF lab]] by auto
  ultimately show ?thesis using t assms(1) by (auto simp: well_formed_tree_def good_ids_def taken_out_def)
qed

lemma labels_sanitize: "labels (sanitizeFolderTreeNames ts) = map (map_prod id sanitizeFolderName) (labels ts)"
  by (induction ts rule: sanitizeFolderTreeNames.induct) simp_all

section \<open>Names\<close>

lemma runes_bytes: "set (concat (runes bs)) \<subseteq> set bs \<union> {0xEF, 0xBF, 0xBD}"
proof (induction bs rule: runes.induct)
  case (1 bs)
  consider "bs = []" | "bs \<noteq> []" "rune_width bs = 0" | "bs \<noteq> []" "rune_width bs \<noteq> 0" by blast
  then show ?case
  proof cases
    case 1
    then show ?thesis by (subst runes.simps) simp
  next
    case 2
    then have "set (concat (runes (tl bs))) \<subseteq> set bs \<union> {0xEF, 0xBF, 0xBD}"
      using "1.IH"(1) [OF 2(1) refl 2(2)] list.set_sel(2) [of bs] by blast
    then show ?thesis using 2 by (subst runes.simps) (auto simp: Let_def)
  next
    case 3
    have "set (concat (runes (drop (rune_width bs) bs))) \<subseteq> set bs \<union> {0xEF, 0xBF, 0xBD}"
      using "1.IH"(2) [OF 3(1) refl 3(2)] set_drop_subset [of "rune_width bs" bs] by blast
    then show ?thesis using 3 set_take_subset [of "rune_width bs" bs]
      by (subst runes.simps) (simp add: Let_def, blast)
  qed
qed

lemma char_of_byte: "char_of (unat (word_of_nat (of_char c) :: byte)) = c"
  using string_of_bytes_of_string [of "[c]"] by (simp add: string_of_bytes_def bytes_of_string_def)

lemma take_runes_chars: "c \<in> set (take_runes n s) \<Longrightarrow> c \<in> set s \<or> (of_char c :: nat) \<in> {0xEF, 0xBF, 0xBD}"
proof -
  assume "c \<in> set (take_runes n s)"
  then obtain b where b: "b \<in> set (concat (take n (runes (bytes_of_string s))))" "c = char_of (unat b)"
    by (auto simp: take_runes_def string_of_bytes_def)
  have "b \<in> set (concat (runes (bytes_of_string s)))"
    using b(1) unfolding set_concat by (meson UN_iff in_set_takeD)
  then have "b \<in> set (bytes_of_string s) \<or> b \<in> {0xEF, 0xBF, 0xBD}" using runes_bytes by blast
  then show ?thesis
  proof
    assume "b \<in> set (bytes_of_string s)"
    then show ?thesis using b(2) by (auto simp: bytes_of_string_def char_of_byte)
  next
    assume "b \<in> {0xEF, 0xBF, 0xBD}"
    then show ?thesis using b(2) by auto
  qed
qed

lemma take_runes_first:
  assumes "0 < n"
  shows "\<exists>r. take_runes n (c # cs) = c # r \<or> (\<exists>x. take_runes n (c # cs) = x # r \<and> (of_char x :: nat) = 0xEF)"
proof -
  let ?b = "bytes_of_string (c # cs)"
  obtain m where n: "n = Suc m" using assms by (cases n) auto
  have b: "?b = word_of_nat (of_char c) # bytes_of_string cs" by (simp add: bytes_of_string_def)
  show ?thesis
  proof (cases "rune_width ?b = 0")
    case True
    then have "runes ?b = [0xEF, 0xBF, 0xBD] # runes (tl ?b)" using b by (subst runes.simps) (simp add: Let_def)
    then show ?thesis by (auto simp: take_runes_def n string_of_bytes_def)
  next
    case False
    then obtain w where w: "rune_width ?b = Suc w" by (cases "rune_width ?b") auto
    have "runes ?b = take (rune_width ?b) ?b # runes (drop (rune_width ?b) ?b)"
      using b False by (subst runes.simps) (simp add: Let_def)
    then show ?thesis using b w by (auto simp: take_runes_def n string_of_bytes_def char_of_byte)
  qed
qed

lemma trim_space_Nil_iff: "trim_space s = [] \<longleftrightarrow> (\<forall>c\<in>set s. is_space c)"
proof -
  have "trim_space s = [] \<longleftrightarrow> (\<forall>c\<in>set (dropWhile is_space s). is_space c)"
    by (simp add: trim_space_def)
  also have "\<dots> \<longleftrightarrow> (\<forall>c\<in>set s. is_space c)"
    by (induction s) auto
  finally show ?thesis .
qed

lemma set_trim_space: "set (trim_space s) \<subseteq> set s"
  by (auto simp: trim_space_def dest!: set_dropWhileD)

lemma sanitize_chars: "c \<in> set (sanitizeFolderName s) \<Longrightarrow> name_char c"
proof -
  let ?s1 = "filter name_char (trim_space s)"
  assume "c \<in> set (sanitizeFolderName s)"
  then have "c \<in> set (if 48 < rune_count ?s1 then take_runes 48 ?s1 else ?s1)"
    using set_trim_space unfolding sanitizeFolderName_def Let_def by blast
  then have "c \<in> set ?s1 \<or> (of_char c :: nat) \<in> {0xEF, 0xBF, 0xBD}"
    using take_runes_chars [of c 48 ?s1] by (auto split: if_splits)
  then show ?thesis by (auto simp: name_char_def)
qed

lemma sanitize_hd:
  assumes "sanitizeFolderName s = c # cs"
  shows "\<not> is_space c"
proof -
  have "trim_space (c # cs) = c # cs" using assms unfolding sanitizeFolderName_def Let_def by (metis trim_space_idem)
  then show ?thesis
  proof (rule contrapos_pn)
    assume "is_space c"
    then have "trim_space (c # cs) = trim_space cs" by (simp add: trim_space_def)
    moreover have "length (trim_space cs) \<le> length cs"
      using length_dropWhile_le [of is_space cs] length_dropWhile_le [of is_space "rev (dropWhile is_space cs)"]
      by (simp add: trim_space_def)
    ultimately have "length (trim_space (c # cs)) < length (c # cs)" by simp
    then show "trim_space (c # cs) \<noteq> c # cs" by (rule contrapos_pn) simp
  qed
qed

text \<open>A name that passed the sanitiser passes it again.\<close>

lemma sanitize_again:
  assumes "sanitizeFolderName s \<noteq> []"
  shows "sanitizeFolderName (sanitizeFolderName s) \<noteq> []"
proof -
  obtain c cs where t: "sanitizeFolderName s = c # cs" using assms by (cases "sanitizeFolderName s") auto
  have trim: "trim_space (c # cs) = c # cs" using t unfolding sanitizeFolderName_def Let_def by (metis trim_space_idem)
  have "name_char c" using sanitize_chars [of c s] t by simp
  then have f: "filter name_char (trim_space (c # cs)) = c # filter name_char cs" using trim by simp
  let ?s1 = "c # filter name_char cs"
  have "\<exists>x\<in>set (if 48 < rune_count ?s1 then take_runes 48 ?s1 else ?s1). \<not> is_space x"
  proof (cases "48 < rune_count ?s1")
    case False
    then show ?thesis using sanitize_hd [OF t] by simp
  next
    case True
    obtain r where "take_runes 48 ?s1 = c # r \<or> (\<exists>x. take_runes 48 ?s1 = x # r \<and> (of_char x :: nat) = 0xEF)"
      using take_runes_first [of 48 c "filter name_char cs"] by auto
    then show ?thesis using True sanitize_hd [OF t] by (auto simp: is_space_def)
  qed
  then show ?thesis unfolding t unfolding sanitizeFolderName_def Let_def f trim_space_Nil_iff by blast
qed

section \<open>Properties\<close>

text \<open>validateFolderTree accepts exactly the well-formed trees: distinct ids other than the empty one
  and the reserved one, names that are not blank after sanitising, and at most 32 levels.\<close>

theorem folder_tree_validated: "validateFolderTree ts = None \<longleftrightarrow> well_formed_tree ts"
  by (rule validate_iff)

text \<open>C33. Moving a folder of a well-formed tree yields a well-formed tree in which exactly one edge is
  different (the one above the moved folder, which now leads to the new parent) and every folder keeps
  its id and name; when the folder exists and the new parent is the root or an existing folder outside
  the moved subtree, the depth limit is the only reason for refusal.\<close>

theorem folder_move_exact:
  assumes "well_formed_tree ts" and "par = (if np = HostFolderUngroupedID then [] else np)"
  shows "(\<forall>out. moveFolderNode ts x np = Inr out \<longrightarrow>
            well_formed_tree out \<and> mset (labels out) = mset (labels ts) \<and>
            (\<exists>old. (x, old) \<in> set (edges [] ts) \<and>
               add_mset (x, old) (mset (edges [] out)) = add_mset (x, par) (mset (edges [] ts)))) \<and>
         (x \<in> set (subtree_ids ts) \<and>
          (par = [] \<or> par \<in> set (subtree_ids ts) \<and> par \<notin> set (folderSubtreeIDs (the (findFolderNode ts x)))) \<longrightarrow>
            (\<forall>e. moveFolderNode ts x np = Inl e \<longrightarrow> e = FolderTooDeep))"
  using move_keeps [OF assms(1) _ assms(2)] move_fails_only [OF assms(1) _ assms(2)] by blast

definition example_tree :: "folder list" where
  "example_tree = [Folder ''a'' ''A'' [Folder ''b'' ''B'' [Folder ''c'' ''C'' []]], Folder ''d'' ''D'' []]"

theorem folder_move_exact_witness:
  "well_formed_tree example_tree \<and> moveFolderNode example_tree ''b'' ''d'' =
     Inr [Folder ''a'' ''A'' [], Folder ''d'' ''D'' [Folder ''b'' ''B'' [Folder ''c'' ''C'' []]]] \<and>
   mset (labels [Folder ''a'' ''A'' [], Folder ''d'' ''D'' [Folder ''b'' ''B'' [Folder ''c'' ''C'' []]]]) =
     mset (labels example_tree) \<and>
   moveFolderNode example_tree ''a'' ''c'' = Inl MoveIntoSubtree"
proof -
  have wf: "well_formed_tree example_tree"
    by code_simp
  have mv: "moveFolderNode example_tree ''b'' ''d'' =
      Inr [Folder ''a'' ''A'' [], Folder ''d'' ''D'' [Folder ''b'' ''B'' [Folder ''c'' ''C'' []]]]"
    by code_simp
  have "moveFolderNode example_tree ''a'' ''c'' = Inl MoveIntoSubtree" by code_simp
  then show ?thesis using folder_move_exact [OF wf refl, where np = "''d''" and x = "''b''"] wf mv by blast
qed

end
