(* ===== verification/HostFolders.thy ===== *)
theory HostFolders
  imports FolderTree Transition
begin

text \<open>
  The part of the configuration that places hosts in folders (\<open>cmd/server/host_folders.go\<close>, the methods
  of \<open>ConfigStore\<close>): the folder tree, the folder of each host and the older category of each host, which
  is kept equal to the name of its folder. \<open>cs.save()\<close>, which writes the configuration file, is left
  out. A fresh folder id is the argument \<open>new\<close>; within one migration the id made for a category is
  \<open>new\<close> of the category, because the loop makes at most one folder per category. A nil map and a nil
  tree are \<^term>\<open>None :: 'a option\<close>.

  The loops over the assignment write only the category of the host they are at, so the order in which
  Go visits the map does not matter (\<open>each_host_lookup\<close>). \<open>applyAgentFolderHint\<close> releases the mutex
  between its look at the tree and the assignment, which checks the folder again: it is a read followed
  by one of the other operations.
\<close>

section \<open>State\<close>

record folder_cfg =
  fc_folders :: "folder list option"
  fc_assign :: "string go_map option"
  fc_cats :: "string go_map option"

record host_entry =
  he_id :: string
  he_category :: string

definition or_empty :: "'a list option \<Rightarrow> 'a list" where
  "or_empty x = (case x of None \<Rightarrow> [] | Some xs \<Rightarrow> xs)"

abbreviation folders_of :: "folder_cfg \<Rightarrow> folder list" where
  "folders_of c \<equiv> or_empty (fc_folders c)"

abbreviation assign_of :: "folder_cfg \<Rightarrow> string go_map" where
  "assign_of c \<equiv> or_empty (fc_assign c)"

abbreviation cats_of :: "folder_cfg \<Rightarrow> string go_map" where
  "cats_of c \<equiv> or_empty (fc_cats c)"

text \<open>The loops \<open>for hid, fid := range cs.cfg.HostFolderAssign\<close>: \<open>act fid\<close> is what happens to the category
  of the host, nothing, a deletion or a new value.\<close>

definition set_cat :: "(string \<Rightarrow> string option option) \<Rightarrow> string \<times> string \<Rightarrow> string go_map \<Rightarrow> string go_map" where
  "set_cat act e m = (case act (snd e) of None \<Rightarrow> m | Some None \<Rightarrow> AList.delete (fst e) m
     | Some (Some v) \<Rightarrow> AList.update (fst e) v m)"

definition each_host :: "(string \<Rightarrow> string option option) \<Rightarrow> string go_map \<Rightarrow> string go_map \<Rightarrow> string go_map" where
  "each_host act a m = foldl (\<lambda>m e. set_cat act e m) m a"

section \<open>Operations on the tree\<close>

definition setHostFoldersTree :: "folder list \<Rightarrow> folder_cfg \<Rightarrow> folder_cfg \<times> folder_error option" where
  "setHostFoldersTree folders0 c =
     (let ts = sanitizeFolderTreeNames folders0 in
      case validateFolderTree ts of
        Some e \<Rightarrow> (c, Some e)
      | None \<Rightarrow>
          let valid = subtree_ids ts;
              act = (\<lambda>f. if f \<notin> set valid then Some None
                        else case findFolderNode ts f of None \<Rightarrow> None | Some n \<Rightarrow> Some (Some (hf_name n)))
          in (\<lparr>fc_folders = Some ts, fc_assign = Some (filter (\<lambda>e. snd e \<in> set valid) (assign_of c)),
               fc_cats = Some (each_host act (assign_of c) (cats_of c))\<rparr>, None))"

definition addHostFolder :: "string \<Rightarrow> string \<Rightarrow> string \<Rightarrow> folder_cfg \<Rightarrow> folder_cfg \<times> (folder_error + folder)" where
  "addHostFolder par name0 new c =
     (let name = sanitizeFolderName name0 in
      if name = [] then (c, Inl EmptyFolderName)
      else let c1 = c\<lparr>fc_folders := Some (folders_of c), fc_assign := Some (assign_of c)\<rparr>;
               child = Folder new name []
      in case addChildFolder (folders_of c1) par child of
           Inl e \<Rightarrow> (c1, Inl e)
         | Inr out \<Rightarrow> (c1\<lparr>fc_folders := Some out\<rparr>, Inr child))"

definition renameHostFolder :: "string \<Rightarrow> string \<Rightarrow> folder_cfg \<Rightarrow> folder_cfg \<times> folder_error option" where
  "renameHostFolder x name0 c =
     (let name = sanitizeFolderName name0 in
      if name = [] then (c, Some EmptyFolderName)
      else if x = [] \<or> x = HostFolderUngroupedID then (c, Some CannotRename)
      else case renameFolderNode (folders_of c) x name of
             (_, False) \<Rightarrow> (c, Some FolderNotFound)
           | (out, True) \<Rightarrow>
               (c\<lparr>fc_folders := Some out,
                  fc_cats := Some (each_host (\<lambda>f. if f = x then Some (Some name) else None)
                    (assign_of c) (cats_of c))\<rparr>, None))"

definition moveHostFolder :: "string \<Rightarrow> string \<Rightarrow> folder_cfg \<Rightarrow> folder_cfg \<times> folder_error option" where
  "moveHostFolder x np c =
     (case moveFolderNode (folders_of c) x np of
        Inl e \<Rightarrow> (c, Some e)
      | Inr out \<Rightarrow> (c\<lparr>fc_folders := Some out\<rparr>, None))"

definition deleteHostFolder :: "string \<Rightarrow> folder_cfg \<Rightarrow> folder_cfg \<times> folder_error option" where
  "deleteHostFolder x c =
     (if x = [] \<or> x = HostFolderUngroupedID then (c, Some CannotDelete)
      else case removeFolderNode (folders_of c) x of
             (_, None) \<Rightarrow> (c, Some FolderNotFound)
           | (out, Some (removed, target)) \<Rightarrow>
               let drop = folderSubtreeIDs removed;
                   dest = (if target = [] then HostFolderUngroupedID else target);
                   act = (\<lambda>f. if f \<notin> set drop then None
                             else if target = [] then Some (Some [])
                             else case findFolderNode out target of None \<Rightarrow> None | Some n \<Rightarrow> Some (Some (hf_name n)))
               in (c\<lparr>fc_folders := Some out,
                     fc_assign := map_option (map_values (\<lambda>f. if f \<in> set drop then dest else f)) (fc_assign c),
                     fc_cats := Some (each_host act (assign_of c) (cats_of c))\<rparr>, None))"

section \<open>Operations on the hosts\<close>

text \<open>The two writes that put a host in a folder.\<close>

definition put_host :: "string \<Rightarrow> string \<Rightarrow> string \<Rightarrow> folder_cfg \<Rightarrow> folder_cfg" where
  "put_host h f name c =
     c\<lparr>fc_assign := Some (AList.update h f (assign_of c)), fc_cats := Some (AList.update h name (cats_of c))\<rparr>"

definition assignHostFoldersBatch :: "string list \<Rightarrow> string \<Rightarrow> folder_cfg \<Rightarrow> folder_cfg \<times> folder_error option" where
  "assignHostFoldersBatch hs f c =
     (if hs = [] then (c, Some NoHosts)
      else let c1 = c\<lparr>fc_assign := Some (assign_of c), fc_cats := Some (cats_of c)\<rparr>;
               hs' = filter (\<lambda>h. trim_space h \<noteq> []) hs
      in if f \<noteq> [] \<and> f \<noteq> HostFolderUngroupedID then
           (case findFolderNode (folders_of c) f of
              None \<Rightarrow> (c1, Some FolderNotFound)
            | Some n \<Rightarrow> (foldl (\<lambda>c h. put_host h f (hf_name n) c) c1 hs', None))
         else (foldl (\<lambda>c h. put_host h HostFolderUngroupedID [] c) c1 hs', None))"

definition assignHostFolder :: "string \<Rightarrow> string \<Rightarrow> folder_cfg \<Rightarrow> folder_cfg \<times> folder_error option" where
  "assignHostFolder h f c =
     (let c1 = \<lparr>fc_folders = Some (folders_of c), fc_assign = Some (assign_of c), fc_cats = Some (cats_of c)\<rparr> in
      if f = [] \<or> f = HostFolderUngroupedID then (put_host h HostFolderUngroupedID [] c1, None)
      else case findFolderNode (folders_of c1) f of
             None \<Rightarrow> (c1, Some FolderNotFound)
           | Some n \<Rightarrow> (put_host h f (hf_name n) c1, None))"

definition forgetHost :: "string \<Rightarrow> folder_cfg \<Rightarrow> folder_cfg" where
  "forgetHost h0 c =
     (let h = trim_space h0 in
      if h = [] then c
      else if map_of (cats_of c) h = None \<and> map_of (assign_of c) h = None then c
      else c\<lparr>fc_cats := map_option (AList.delete h) (fc_cats c),
             fc_assign := map_option (AList.delete h) (fc_assign c)\<rparr>)"

text \<open>The folder of a name on the first level, made when there is none.\<close>

definition find_or_create :: "string \<Rightarrow> string \<Rightarrow> folder list \<Rightarrow> folder list \<times> folder" where
  "find_or_create new name ts =
     (case findL1FolderByName ts name of
        Some n \<Rightarrow> (ts, n) | None \<Rightarrow> (ts @ [Folder new name []], Folder new name []))"

definition setCategoryWithFolder :: "string \<Rightarrow> string \<Rightarrow> string \<Rightarrow> folder_cfg \<Rightarrow> folder_cfg \<times> folder_error option" where
  "setCategoryWithFolder h cat0 new c =
     (let cat = sanitizeFolderName cat0 in
      if cat = [] then assignHostFolder h HostFolderUngroupedID c
      else let (ts, n) = find_or_create new cat (folders_of c);
               c1 = \<lparr>fc_folders = Some ts, fc_assign = Some (assign_of c), fc_cats = Some (cats_of c)\<rparr>
           in (put_host h (hf_id n) (hf_name n) c1, None))"

definition folder_id_char :: "char \<Rightarrow> bool" where
  "folder_id_char ch \<longleftrightarrow> (let n = of_char ch :: nat in
     97 \<le> n \<and> n \<le> 122 \<or> 65 \<le> n \<and> n \<le> 90 \<or> 48 \<le> n \<and> n \<le> 57 \<or> n = 45 \<or> n = 95)"

definition sanitizeFolderID :: "string \<Rightarrow> string" where
  "sanitizeFolderID s0 =
     (let s = trim_space s0 in
      if s = [] then [] else if s = HostFolderUngroupedID then HostFolderUngroupedID
      else take 64 (filter folder_id_char s))"

definition applyAgentFolderHint ::
    "string \<Rightarrow> string \<Rightarrow> string \<Rightarrow> string \<Rightarrow> folder_cfg \<Rightarrow> folder_cfg \<times> folder_error option" where
  "applyAgentFolderHint h0 f0 cat0 new c =
     (let h = trim_space h0; f = sanitizeFolderID f0; cat = sanitizeFolderName cat0 in
      if h = [] then (c, None)
      else if f = HostFolderUngroupedID then assignHostFolder h HostFolderUngroupedID c
      else if f \<noteq> [] \<and> findFolderNode (folders_of c) f \<noteq> None then assignHostFolder h f c
      else if cat = [] then (c, None)
      else if map_of (assign_of c) h \<noteq> None then (c, None)
      else setCategoryWithFolder h cat new c)"

definition hostFolderOf :: "folder_cfg \<Rightarrow> string \<Rightarrow> string" where
  "hostFolderOf c h =
     (case map_of (assign_of c) h of None \<Rightarrow> HostFolderUngroupedID
      | Some f \<Rightarrow> if f \<noteq> [] then f else HostFolderUngroupedID)"

section \<open>Migration of categories\<close>

definition hostFoldersSettled :: "host_entry list \<Rightarrow> folder_cfg \<Rightarrow> bool" where
  "hostFoldersSettled hosts c \<longleftrightarrow>
     fc_cats c \<noteq> None \<and> fc_assign c \<noteq> None \<and> fc_folders c \<noteq> None \<and>
     (\<forall>h\<in>set hosts. get_or [] (assign_of c) (he_id h) \<noteq> [])"

definition known_category :: "folder_cfg \<Rightarrow> host_entry \<Rightarrow> string" where
  "known_category c h = (case map_of (cats_of c) (he_id h) of Some ov \<Rightarrow> ov | None \<Rightarrow> he_category h)"

text \<open>First run: \<open>byName\<close> finds the folder of a category again.\<close>

definition migrate_first :: "(string \<Rightarrow> string) \<Rightarrow> folder_cfg \<times> string go_map \<Rightarrow> host_entry \<Rightarrow> folder_cfg \<times> string go_map" where
  "migrate_first new st h =
     (let (c, byName) = st; cat = sanitizeFolderName (trim_space (known_category c h)) in
      if cat = [] then st
      else case map_of byName cat of
             Some f \<Rightarrow> (put_host (he_id h) f cat c, byName)
           | None \<Rightarrow> (put_host (he_id h) (new cat) cat (c\<lparr>fc_folders := Some (folders_of c @ [Folder (new cat) cat []])\<rparr>),
                      AList.update cat (new cat) byName))"

definition migrate_next :: "(string \<Rightarrow> string) \<Rightarrow> folder_cfg \<times> bool \<Rightarrow> host_entry \<Rightarrow> folder_cfg \<times> bool" where
  "migrate_next new st h =
     (let (c, dirty) = st in
      if get_or [] (assign_of c) (he_id h) \<noteq> [] then st
      else if map_of (cats_of c) (he_id h) \<noteq> None \<and> trim_space (get_or [] (cats_of c) (he_id h)) = [] then
        (c\<lparr>fc_assign := Some (AList.update (he_id h) HostFolderUngroupedID (assign_of c))\<rparr>, True)
      else let cat = sanitizeFolderName (known_category c h) in
      if cat = [] then st
      else let (ts, n) = find_or_create (new cat) cat (folders_of c)
           in (put_host (he_id h) (hf_id n) (hf_name n) (c\<lparr>fc_folders := Some ts\<rparr>), True))"

definition ensureHostFoldersMigrated :: "(string \<Rightarrow> string) \<Rightarrow> host_entry list \<Rightarrow> folder_cfg \<Rightarrow> folder_cfg \<times> bool" where
  "ensureHostFoldersMigrated new hosts c =
     (if hostFoldersSettled hosts c then (c, False)
      else let c1 = c\<lparr>fc_cats := Some (cats_of c), fc_assign := Some (assign_of c)\<rparr> in
      case fc_folders c of
        None \<Rightarrow> (fst (foldl (migrate_first new) (c1\<lparr>fc_folders := Some [], fc_assign := Some []\<rparr>, []) hosts), True)
      | Some ts \<Rightarrow> foldl (migrate_next new) (c1, fc_assign c = None) hosts)"

section \<open>Runs\<close>

datatype folder_op =
    PutTree "folder list"
  | PostFolder string string string
  | RenameTo string string
  | MoveTo string string
  | DeleteFolder string
  | AssignHost string string
  | AssignBatch "string list" string
  | ForgetHost string
  | SetCategory string string string
  | AgentReport string string string string
  | ListHosts "string \<Rightarrow> string" "host_entry list"

fun folder_step :: "folder_cfg \<Rightarrow> folder_op \<Rightarrow> folder_cfg" where
  "folder_step c (PutTree ts) = fst (setHostFoldersTree ts c)"
| "folder_step c (PostFolder par name new) = fst (addHostFolder par name new c)"
| "folder_step c (RenameTo x name) = fst (renameHostFolder x name c)"
| "folder_step c (MoveTo x np) = fst (moveHostFolder x np c)"
| "folder_step c (DeleteFolder x) = fst (deleteHostFolder x c)"
| "folder_step c (AssignHost h f) = fst (assignHostFolder h f c)"
| "folder_step c (AssignBatch hs f) = fst (assignHostFoldersBatch hs f c)"
| "folder_step c (ForgetHost h) = forgetHost h c"
| "folder_step c (SetCategory h cat new) = fst (setCategoryWithFolder h cat new c)"
| "folder_step c (AgentReport h f cat new) = fst (applyAgentFolderHint h f cat new c)"
| "folder_step c (ListHosts new hosts) = fst (ensureHostFoldersMigrated new hosts c)"

text \<open>The ids the random source hands out are new.\<close>

definition fresh_id :: "folder_cfg \<Rightarrow> string \<Rightarrow> bool" where
  "fresh_id c new \<longleftrightarrow> new \<noteq> [] \<and> new \<noteq> HostFolderUngroupedID \<and> new \<notin> set (subtree_ids (folders_of c))"

fun folder_ok :: "folder_cfg \<Rightarrow> folder_op \<Rightarrow> bool" where
  "folder_ok c (PostFolder par name new) \<longleftrightarrow> fresh_id c new"
| "folder_ok c (SetCategory h cat new) \<longleftrightarrow> fresh_id c new"
| "folder_ok c (AgentReport h f cat new) \<longleftrightarrow> fresh_id c new"
| "folder_ok c (ListHosts new hosts) \<longleftrightarrow> inj new \<and> (\<forall>cat. fresh_id c (new cat))"
| "folder_ok c _ \<longleftrightarrow> True"

definition empty_folders :: folder_cfg where
  "empty_folders = \<lparr>fc_folders = None, fc_assign = None, fc_cats = None\<rparr>"

section \<open>Lookups\<close>

lemma or_empty_simps [simp]: "or_empty None = []" "or_empty (Some xs) = xs"
  by (simp_all add: or_empty_def)

lemma or_empty_map [simp]: "or_empty (map_option (map f) x) = map f (or_empty x)"
  by (cases x) simp_all

lemma or_empty_values [simp]: "or_empty (map_option (map_values f) x) = map_values f (or_empty x)"
  by (cases x) (simp_all add: map_values_def)

lemma or_empty_delete [simp]: "or_empty (map_option (AList.delete h) x) = AList.delete h (or_empty x)"
  by (cases x) simp_all

lemma each_host_lookup:
  "keys_distinct a \<Longrightarrow> map_of (each_host act a m) h =
     (case map_of a h of None \<Rightarrow> map_of m h
      | Some f \<Rightarrow> (case act f of None \<Rightarrow> map_of m h | Some r \<Rightarrow> r))"
proof (induction a arbitrary: m)
  case Nil
  then show ?case by (simp add: each_host_def)
next
  case (Cons e a)
  have eq: "each_host act (e # a) m = each_host act a (set_cat act e m)" by (simp add: each_host_def)
  have at: "map_of (set_cat act e m) h =
      (if fst e = h then (case act (snd e) of None \<Rightarrow> map_of m h | Some r \<Rightarrow> r) else map_of m h)"
    by (simp add: set_cat_def update_conv' delete_conv' split: option.split)
  show ?case
  proof (cases "fst e = h")
    case True
    then have "map_of a h = None" using Cons.prems by (auto simp: map_of_eq_None_iff)
    then show ?thesis using Cons True eq at by (cases e) simp
  next
    case False
    then show ?thesis using Cons eq at by (cases e) (simp split: option.split)
  qed
qed

lemma each_host_distinct: "keys_distinct m \<Longrightarrow> keys_distinct (each_host act a m)"
  by (induction a arbitrary: m)
    (auto simp: each_host_def set_cat_def distinct_update distinct_delete split: option.split)

lemma put_host_simps [simp]:
  "fc_folders (put_host h f n c) = fc_folders c"
  "assign_of (put_host h f n c) = AList.update h f (assign_of c)"
  "cats_of (put_host h f n c) = AList.update h n (cats_of c)"
  by (simp_all add: put_host_def)

section \<open>The invariant\<close>

text \<open>A host stands in a folder of the tree, whose name is its category, or is marked as ungrouped.\<close>

definition placed :: "folder_cfg \<Rightarrow> string \<Rightarrow> string \<Rightarrow> bool" where
  "placed c h f \<longleftrightarrow>
     (if f = HostFolderUngroupedID then trim_space (get_or [] (cats_of c) h) = []
      else folder_name (folders_of c) f \<noteq> None \<and> map_of (cats_of c) h = folder_name (folders_of c) f)"

definition folders_inv :: "folder_cfg \<Rightarrow> bool" where
  "folders_inv c \<longleftrightarrow> keys_distinct (assign_of c) \<and> keys_distinct (cats_of c) \<and>
     well_formed_tree (folders_of c) \<and> (\<forall>h f. map_of (assign_of c) h = Some f \<longrightarrow> placed c h f)"

lemma folders_invD:
  assumes "folders_inv c"
  shows "keys_distinct (assign_of c)" "keys_distinct (cats_of c)" "well_formed_tree (folders_of c)"
    "map_of (assign_of c) h = Some f \<Longrightarrow> placed c h f"
  using assms by (simp_all add: folders_inv_def)

lemma inv_empty: "folders_inv empty_folders"
  by (simp add: folders_inv_def empty_folders_def well_formed_tree_def good_ids_def)

text \<open>Only the contents of the three fields count, not whether they are nil.\<close>

lemma folders_inv_cong:
  "folders_of c = folders_of d \<Longrightarrow> assign_of c = assign_of d \<Longrightarrow> cats_of c = cats_of d \<Longrightarrow>
   folders_inv c = folders_inv d"
  by (simp add: folders_inv_def placed_def)

lemma put_host_inv:
  assumes inv: "folders_inv c"
    and name: "f = HostFolderUngroupedID \<and> n = [] \<or> f \<noteq> HostFolderUngroupedID \<and> folder_name (folders_of c) f = Some n"
  shows "folders_inv (put_host h f n c)"
proof -
  note I = folders_invD [OF inv]
  have "placed (put_host h f n c) j g" if j: "map_of (assign_of (put_host h f n c)) j = Some g" for j g
  proof (cases "j = h")
    case True
    then have "g = f" using j by (simp add: update_conv')
    then show ?thesis using True name by (auto simp: placed_def get_or_def update_conv')
  next
    case False
    then have "placed c j g" using j I(4) by (simp add: update_conv')
    then show ?thesis using False by (simp add: placed_def get_or_def update_conv' split: if_splits)
  qed
  then show ?thesis using I(1-3) by (simp add: folders_inv_def distinct_update)
qed

lemma find_folder_name: "findFolderNode ts f = Some n \<Longrightarrow> folder_name ts f = Some (hf_name n)"
  by (simp flip: find_name)

lemma reserved_not_found: "well_formed_tree ts \<Longrightarrow> folder_name ts HostFolderUngroupedID = None"
  by (simp add: folder_name_None well_formed_tree_def good_ids_def)

text \<open>A tree that knows the same folders under the same names, and perhaps more.\<close>

lemma extend_tree_inv:
  assumes inv: "folders_inv c" and wf: "well_formed_tree ts"
    and names: "\<And>f n. folder_name (folders_of c) f = Some n \<Longrightarrow> folder_name ts f = Some n"
    and "assign_of d = assign_of c" "cats_of d = cats_of c" "folders_of d = ts"
  shows "folders_inv d"
proof -
  have "placed d h f" if "map_of (assign_of c) h = Some f" for h f
    using folders_invD(4) [OF inv that] names assms(4-6) by (auto simp: placed_def)
  then show ?thesis using folders_invD(1,2) [OF inv] wf assms(4-6) by (simp add: folders_inv_def)
qed

section \<open>Every operation keeps it\<close>

lemma SetTree_inv:
  assumes inv: "folders_inv c"
  shows "folders_inv (fst (setHostFoldersTree ts0 c))"
proof (cases "validateFolderTree (sanitizeFolderTreeNames ts0)")
  case (Some e)
  then show ?thesis using inv by (simp add: setHostFoldersTree_def Let_def)
next
  case None
  define ts where "ts = sanitizeFolderTreeNames ts0"
  define act where "act f = (if f \<notin> set (subtree_ids ts) then Some None
      else case findFolderNode ts f of None \<Rightarrow> None | Some n \<Rightarrow> Some (Some (hf_name n)))" for f
  define d where "d = fst (setHostFoldersTree ts0 c)"
  have wf: "well_formed_tree ts" using None validate_iff by (simp add: ts_def)
  note I = folders_invD [OF inv]
  have f: "folders_of d = ts" and a: "assign_of d = filter (\<lambda>e. snd e \<in> set (subtree_ids ts)) (assign_of c)"
    and m: "cats_of d = each_host act (assign_of c) (cats_of c)"
    using None unfolding d_def setHostFoldersTree_def Let_def ts_def act_def [abs_def] by simp_all
  have "placed d h g" if "map_of (assign_of d) h = Some g" for h g
  proof -
    have g: "map_of (assign_of c) h = Some g" "g \<in> set (subtree_ids ts)"
      using that I(1) unfolding a by (auto simp: map_of_filter split: option.splits if_splits)
    then obtain n where n: "findFolderNode ts g = Some n" using find_None [of ts g] by auto
    have "g \<noteq> HostFolderUngroupedID" using wf g(2) by (auto simp: well_formed_tree_def good_ids_def)
    moreover have "map_of (cats_of d) h = Some (hf_name n)"
      using g n unfolding m each_host_lookup [OF I(1)] by (simp add: act_def)
    ultimately show ?thesis using f find_folder_name [OF n] by (simp add: placed_def)
  qed
  then have "folders_inv d" using wf I(1,2) a m f by (simp add: folders_inv_def each_host_distinct)
  then show ?thesis by (simp add: d_def)
qed

lemma AddFolder_inv:
  assumes inv: "folders_inv c" and fresh: "fresh_id c new"
  shows "folders_inv (fst (addHostFolder par name new c))"
proof (cases "sanitizeFolderName name = []")
  case True
  then show ?thesis using inv by (simp add: addHostFolder_def Let_def)
next
  case False
  show ?thesis
  proof (cases "addChildFolder (folders_of c) par (Folder new (sanitizeFolderName name) [])")
    case (Inl e)
    then show ?thesis using inv False by (simp add: addHostFolder_def Let_def folders_inv_def placed_def)
  next
    case (Inr out)
    have n: "new \<noteq> []" "new \<noteq> HostFolderUngroupedID" "new \<notin> set (subtree_ids (folders_of c))"
      using fresh by (simp_all add: fresh_id_def)
    note wf = folders_invD(3) [OF inv]
    note A = add_leaf_keeps [OF wf Inr n sanitize_again [OF False]]
    have names: "folder_name out f = Some v" if v: "folder_name (folders_of c) f = Some v" for f v
    proof -
      have d: "distinct (subtree_ids out)" using A(1) by (simp add: well_formed_tree_def good_ids_def)
      have "folder_name out f = folder_name (Folder new (sanitizeFolderName name) [] # folders_of c) f"
        using A(2) d by (intro folder_name_mset) simp_all
      moreover have "f \<noteq> new" using v n(3) by (metis folder_name_None option.distinct(1))
      ultimately show ?thesis using v by (simp add: folder_name_def)
    qed
    show ?thesis
      by (rule extend_tree_inv [OF inv A(1) names]) (use False Inr in \<open>simp_all add: addHostFolder_def Let_def\<close>)
  qed
qed

lemma Rename_inv:
  assumes inv: "folders_inv c"
  shows "folders_inv (fst (renameHostFolder x name0 c))"
proof -
  define name where "name = sanitizeFolderName name0"
  obtain out ok where r: "renameFolderNode (folders_of c) x name = (out, ok)"
    by (cases "renameFolderNode (folders_of c) x name")
  note I = folders_invD [OF inv]
  show ?thesis
  proof (cases "name = [] \<or> x = [] \<or> x = HostFolderUngroupedID \<or> \<not> ok")
    case True
    then show ?thesis using inv r by (auto simp: renameHostFolder_def Let_def simp flip: name_def)
  next
    case False
    define act where "act f = (if f = x then Some (Some name) else None)" for f
    define d where "d = fst (renameHostFolder x name0 c)"
    have d: "folders_of d = out" "assign_of d = assign_of c" "cats_of d = each_host act (assign_of c) (cats_of c)"
      using False r unfolding d_def renameHostFolder_def Let_def name_def [symmetric] act_def [abs_def]
      by (simp_all add: or_empty_def)
    have names: "folder_name out y = (if y = x then Some name else folder_name (folders_of c) y)" for y
      using rename_same [OF r, of "[]" 1 y] False by simp
    have wf: "well_formed_tree out"
      using rename_keeps [OF I(3) _ r] sanitize_again [of name0] False by (simp add: name_def)
    have "placed d h f" if h: "map_of (assign_of c) h = Some f" for h f
      using I(4) [OF h] h False by (auto simp: placed_def d names get_or_def each_host_lookup [OF I(1)] act_def)
    then have "folders_inv d" using I(1,2) wf d by (simp add: folders_inv_def each_host_distinct)
    then show ?thesis by (simp add: d_def)
  qed
qed

lemma Move_inv:
  assumes inv: "folders_inv c"
  shows "folders_inv (fst (moveHostFolder x np c))"
proof (cases "moveFolderNode (folders_of c) x np")
  case (Inl e)
  then show ?thesis using inv by (simp add: moveHostFolder_def)
next
  case (Inr out)
  note wf = folders_invD(3) [OF inv]
  have k: "well_formed_tree out" "mset (labels out) = mset (labels (folders_of c))"
    using move_keeps [OF wf Inr refl] by blast+
  then have "folder_name out f = folder_name (folders_of c) f" for f
    by (intro folder_name_mset) (simp_all add: well_formed_tree_def good_ids_def)
  then show ?thesis
    by (intro extend_tree_inv [OF inv k(1)]) (simp_all add: moveHostFolder_def Inr)
qed

lemma remaining_names:
  assumes wf: "well_formed_tree ts" and rm: "removeFolderNode ts x = (out, Some (rm, pid))"
    and f: "f \<in> set (subtree_ids ts)"
  shows "if f \<in> set (folderSubtreeIDs rm) then f \<notin> set (subtree_ids out) else folder_name out f = folder_name ts f"
proof -
  have t: "taken_out ts out rm pid"
    using remove_Some [OF rm] wf by (simp add: well_formed_tree_def good_ids_def)
  then have lab: "mset (labels ts) = mset (labels (out @ [rm]))" by (simp add: taken_out_def)
  have d: "distinct (subtree_ids ts)" using wf by (simp add: well_formed_tree_def good_ids_def)
  have ids: "mset (subtree_ids ts) = mset (subtree_ids out @ folderSubtreeIDs rm)"
    using mset_labels_ids [OF lab] by simp
  have d2: "set (subtree_ids out) \<inter> set (folderSubtreeIDs rm) = {}"
    using mset_eq_imp_distinct_iff [OF ids] d by simp
  have "folder_name ts f = folder_name (out @ [rm]) f" by (rule folder_name_mset [OF lab d])
  moreover have "f \<in> set (subtree_ids out)" if "f \<notin> set (folderSubtreeIDs rm)"
    using that f mset_eq_setD [OF ids] by auto
  ultimately show ?thesis using d2 folder_name_None [of out f]
    by (auto simp: folder_name_def map_add_def split: option.split)
qed

lemma Delete_inv:
  assumes inv: "folders_inv c"
  shows "folders_inv (fst (deleteHostFolder x c))"
proof (cases "x = [] \<or> x = HostFolderUngroupedID \<or> snd (removeFolderNode (folders_of c) x) = None")
  case True
  then show ?thesis using inv by (cases "removeFolderNode (folders_of c) x") (auto simp: deleteHostFolder_def)
next
  case False
  then obtain out rm target where r: "removeFolderNode (folders_of c) x = (out, Some (rm, target))"
    by (cases "removeFolderNode (folders_of c) x") auto
  note I = folders_invD [OF inv]
  note wf = remove_keeps [OF I(3) r]
  define drop where "drop = folderSubtreeIDs rm"
  define dest where "dest = (if target = [] then HostFolderUngroupedID else target)"
  define act where "act f = (if f \<notin> set drop then None else if target = [] then Some (Some [])
      else case findFolderNode out target of None \<Rightarrow> None | Some n \<Rightarrow> Some (Some (hf_name n)))" for f
  define d where "d = fst (deleteHostFolder x c)"
  have d: "folders_of d = out" "assign_of d = map_values (\<lambda>f. if f \<in> set drop then dest else f) (assign_of c)"
    "cats_of d = each_host act (assign_of c) (cats_of c)"
    using False r unfolding d_def deleteHostFolder_def Let_def drop_def dest_def act_def [abs_def] by simp_all
  have target: "target = [] \<or> target \<in> set (subtree_ids out)"
    using remove_Some [OF r] I(3) by (simp add: well_formed_tree_def good_ids_def taken_out_def)
  have "placed d h g" if g: "map_of (assign_of d) h = Some g" for h g
  proof -
    obtain f where f: "map_of (assign_of c) h = Some f" "g = (if f \<in> set drop then dest else f)"
      using g by (auto simp: d map_of_map_values)
    have cat: "map_of (cats_of d) h = (case act f of None \<Rightarrow> map_of (cats_of c) h | Some r \<Rightarrow> r)"
      unfolding d each_host_lookup [OF I(1)] by (simp add: f)
    consider (root) "f \<in> set drop" "target = []" | (up) "f \<in> set drop" "target \<noteq> []" | (stay) "f \<notin> set drop" by blast
    then show ?thesis
    proof cases
      case root
      then show ?thesis using cat f by (simp add: placed_def dest_def act_def get_or_def)
    next
      case up
      then obtain n where n: "findFolderNode out target = Some n" using target find_None [of out target] by auto
      have "target \<noteq> HostFolderUngroupedID"
        using up target wf by (auto simp: well_formed_tree_def good_ids_def)
      then show ?thesis using up cat f n find_folder_name [OF n] by (simp add: placed_def dest_def act_def d)
    next
      case stay
      have p: "placed c h f" by (rule I(4) [OF f(1)])
      show ?thesis
      proof (cases "f = HostFolderUngroupedID")
        case True
        then show ?thesis using stay cat f p by (simp add: placed_def act_def get_or_def)
      next
        case False
        then have "f \<in> set (subtree_ids (folders_of c))" using p folder_name_None by (auto simp: placed_def)
        then have "folder_name out f = folder_name (folders_of c) f"
          using remaining_names [OF I(3) r, of f] stay by (simp add: drop_def)
        then show ?thesis using stay cat f p False by (simp add: placed_def act_def d)
      qed
    qed
  qed
  then have "folders_inv d" using wf I(1,2) d by (simp add: folders_inv_def each_host_distinct)
  then show ?thesis by (simp add: d_def)
qed

lemma found_name: "folders_inv c \<Longrightarrow> findFolderNode (folders_of c) f = Some n \<Longrightarrow>
    f \<noteq> HostFolderUngroupedID \<and> folder_name (folders_of c) f = Some (hf_name n)"
  using reserved_not_found [OF folders_invD(3)] find_folder_name [of "folders_of c" f n] by auto

lemma Assign_inv:
  assumes inv: "folders_inv c"
  shows "folders_inv (fst (assignHostFolder h f c))"
proof -
  let ?c1 = "\<lparr>fc_folders = Some (folders_of c), fc_assign = Some (assign_of c), fc_cats = Some (cats_of c)\<rparr>"
  have I: "folders_inv ?c1" using inv by (simp add: folders_inv_def placed_def)
  show ?thesis
  proof (cases "f = [] \<or> f = HostFolderUngroupedID")
    case True
    then have "fst (assignHostFolder h f c) = put_host h HostFolderUngroupedID [] ?c1"
      by (auto simp: assignHostFolder_def)
    then show ?thesis using put_host_inv [OF I] by simp
  next
    case False
    then have "fst (assignHostFolder h f c) = (case findFolderNode (folders_of c) f of None \<Rightarrow> ?c1
        | Some n \<Rightarrow> put_host h f (hf_name n) ?c1)"
      by (simp add: assignHostFolder_def split: option.split)
    then show ?thesis using I found_name [OF inv] put_host_inv [OF I] by (simp split: option.split)
  qed
qed

lemma put_hosts_inv:
  "folders_inv c \<Longrightarrow>
   f = HostFolderUngroupedID \<and> n = [] \<or> f \<noteq> HostFolderUngroupedID \<and> folder_name (folders_of c) f = Some n \<Longrightarrow>
   folders_inv (foldl (\<lambda>c h. put_host h f n c) c hs)"
  by (induction hs arbitrary: c) (simp_all add: put_host_inv)

lemma Batch_inv:
  assumes inv: "folders_inv c"
  shows "folders_inv (fst (assignHostFoldersBatch hs f c))"
proof -
  let ?c1 = "c\<lparr>fc_assign := Some (assign_of c), fc_cats := Some (cats_of c)\<rparr>"
  have I: "folders_inv ?c1" using inv by (simp add: folders_inv_def placed_def)
  show ?thesis
    using inv I put_hosts_inv [OF I] found_name [OF inv]
    by (auto simp: assignHostFoldersBatch_def Let_def split: option.split)
qed

lemma Forget_inv:
  assumes inv: "folders_inv c"
  shows "folders_inv (forgetHost h0 c)"
proof -
  let ?d = "c\<lparr>fc_cats := map_option (AList.delete (trim_space h0)) (fc_cats c),
     fc_assign := map_option (AList.delete (trim_space h0)) (fc_assign c)\<rparr>"
  note I = folders_invD [OF inv]
  have "placed ?d h f" if "map_of (assign_of ?d) h = Some f" for h f
    using that I(4) [of h f] by (auto simp: delete_conv' placed_def get_or_def split: if_splits)
  then have "folders_inv ?d" using I(1-3) by (simp add: folders_inv_def distinct_delete)
  then show ?thesis using inv by (simp add: forgetHost_def Let_def)
qed

lemma create_props:
  assumes wf: "well_formed_tree ts" and fresh: "findL1FolderByName ts name = None \<Longrightarrow>
      new \<noteq> [] \<and> new \<noteq> HostFolderUngroupedID \<and> new \<notin> set (subtree_ids ts)"
    and name: "sanitizeFolderName name \<noteq> []" and f: "find_or_create new name ts = (ts', n)"
  shows "well_formed_tree ts'" and "folder_name ts g = Some v \<Longrightarrow> folder_name ts' g = Some v"
    and "folder_name ts' (hf_id n) = Some (hf_name n)" and "hf_id n \<noteq> HostFolderUngroupedID" and "hf_name n = name"
proof -
  have r: "well_formed_tree ts' \<and> (folder_name ts g = Some v \<longrightarrow> folder_name ts' g = Some v) \<and>
      folder_name ts' (hf_id n) = Some (hf_name n) \<and> hf_name n = name"
  proof (cases "findL1FolderByName ts name")
    case None
    then have n: "new \<noteq> []" "new \<noteq> HostFolderUngroupedID" "new \<notin> set (subtree_ids ts)"
      and ts': "ts' = ts @ [Folder new name []]" "n = Folder new name []"
      using fresh f by (auto simp: find_or_create_def)
    have "well_formed_tree ts'" using wf n name
      by (simp add: ts' well_formed_tree_def good_ids_def folderSubtreeIDs_def MaxHostFolderDepth_def)
    moreover have "folder_name ts new = None" using n folder_name_None by blast
    ultimately show ?thesis by (auto simp: ts' folder_name_def map_add_def split: option.split)
  next
    case (Some m)
    then have eq: "ts' = ts" "n = m" using f by (simp_all add: find_or_create_def)
    have m: "m \<in> set ts" "hf_name m = name"
      using Some by (auto simp: findL1FolderByName_def find_Some_iff)
    have "(hf_id m, hf_name m) \<in> set (labels [m])" by (cases m) simp
    moreover obtain us vs where "ts = us @ m # vs" using m(1) by (meson split_list)
    ultimately have "(hf_id m, hf_name m) \<in> set (labels ts)"
      using labels_append [of "[m]" vs] by auto
    then have "map_of (labels ts) (hf_id m) = Some (hf_name m)"
      using wf by (simp add: well_formed_tree_def good_ids_def)
    then show ?thesis using wf eq m by (simp add: folder_name_def)
  qed
  then show "well_formed_tree ts'" and "folder_name ts g = Some v \<Longrightarrow> folder_name ts' g = Some v"
    and "folder_name ts' (hf_id n) = Some (hf_name n)" and "hf_name n = name" by simp_all
  show "hf_id n \<noteq> HostFolderUngroupedID" using r reserved_not_found [of ts'] by auto
qed

text \<open>A host put into a folder of the first level that is made when missing.\<close>

lemma create_inv:
  assumes inv: "folders_inv c" and name: "sanitizeFolderName name \<noteq> []"
    and fresh: "findL1FolderByName (folders_of c) name = None \<Longrightarrow> fresh_id c new"
    and f: "find_or_create new name (folders_of c) = (ts, n)"
    and d: "folders_of d = ts" "assign_of d = assign_of c" "cats_of d = cats_of c"
  shows "folders_inv (put_host h (hf_id n) (hf_name n) d)"
proof -
  note C = create_props [OF folders_invD(3) [OF inv] _ name f]
  have fr: "findL1FolderByName (folders_of c) name = None \<Longrightarrow>
      new \<noteq> [] \<and> new \<noteq> HostFolderUngroupedID \<and> new \<notin> set (subtree_ids (folders_of c))"
    using fresh by (simp add: fresh_id_def)
  have "folders_inv d"
    by (rule extend_tree_inv [OF inv C(1) [OF fr] C(2) [OF fr]]) (use d in simp_all)
  then show ?thesis using C(3,4) [OF fr] d by (intro put_host_inv) simp_all
qed

lemma SetCategory_inv:
  assumes inv: "folders_inv c" and fresh: "fresh_id c new"
  shows "folders_inv (fst (setCategoryWithFolder h cat new c))"
proof (cases "sanitizeFolderName cat = []")
  case True
  then show ?thesis using Assign_inv [OF inv] by (simp add: setCategoryWithFolder_def)
next
  case False
  obtain ts n where f: "find_or_create new (sanitizeFolderName cat) (folders_of c) = (ts, n)"
    by (cases "find_or_create new (sanitizeFolderName cat) (folders_of c)")
  show ?thesis
    using create_inv [OF inv sanitize_again [OF False] fresh f] False f
    by (simp add: setCategoryWithFolder_def Let_def)
qed

lemma AgentHint_inv:
  "folders_inv c \<Longrightarrow> fresh_id c new \<Longrightarrow> folders_inv (fst (applyAgentFolderHint h f cat new c))"
  using Assign_inv SetCategory_inv by (simp add: applyAgentFolderHint_def Let_def)

lemma known_L1: "findL1FolderByName ts k = None \<longleftrightarrow> (\<forall>n\<in>set ts. hf_name n \<noteq> k)"
  by (auto simp: findL1FolderByName_def find_None_iff)

text \<open>The first migration: every folder was made for a category that \<open>byName\<close> knows.\<close>

definition first_inv :: "(string \<Rightarrow> string) \<Rightarrow> folder_cfg \<times> string go_map \<Rightarrow> bool" where
  "first_inv new st \<longleftrightarrow> folders_inv (fst st) \<and>
     (\<forall>i\<in>set (subtree_ids (folders_of (fst st))). \<exists>k. map_of (snd st) k \<noteq> None \<and> i = new k) \<and>
     (\<forall>k f. map_of (snd st) k = Some f \<longrightarrow> f \<noteq> HostFolderUngroupedID \<and> folder_name (folders_of (fst st)) f = Some k)"

lemma migrate_first_inv:
  assumes new: "inj new" "\<And>k. new k \<noteq> [] \<and> new k \<noteq> HostFolderUngroupedID"
    and inv: "first_inv new st"
  shows "first_inv new (migrate_first new st h)"
proof -
  obtain c byName where st: "st = (c, byName)" by (cases st)
  define cat where "cat = sanitizeFolderName (trim_space (known_category c h))"
  have I: "folders_inv c"
    and ids: "\<And>i. i \<in> set (subtree_ids (folders_of c)) \<Longrightarrow> \<exists>k. map_of byName k \<noteq> None \<and> i = new k"
    and named: "\<And>k f. map_of byName k = Some f \<Longrightarrow> f \<noteq> HostFolderUngroupedID \<and> folder_name (folders_of c) f = Some k"
    using inv by (auto simp: first_inv_def st)
  consider (skip) "cat = []" | (known) f where "cat \<noteq> []" "map_of byName cat = Some f"
    | (fresh) "cat \<noteq> []" "map_of byName cat = None" by (cases "map_of byName cat") auto
  then show ?thesis
  proof cases
    case skip
    then show ?thesis using inv by (simp add: migrate_first_def st flip: cat_def)
  next
    case known
    then have eq: "migrate_first new st h = (put_host (he_id h) f cat c, byName)"
      by (simp add: migrate_first_def st flip: cat_def)
    have "folders_inv (put_host (he_id h) f cat c)"
      using named [OF known(2)] by (intro put_host_inv [OF I]) simp
    then show ?thesis using ids named unfolding eq first_inv_def by simp
  next
    case fresh
    let ?d = "c\<lparr>fc_folders := Some (folders_of c @ [Folder (new cat) cat []])\<rparr>"
    have eq: "migrate_first new st h = (put_host (he_id h) (new cat) cat ?d, AList.update cat (new cat) byName)"
      using fresh by (simp add: migrate_first_def st flip: cat_def)
    have nn: "new cat \<notin> set (subtree_ids (folders_of c))"
      using ids fresh(2) new(1) by (metis injD)
    have nf: "folder_name (folders_of c) (new cat) = None" using nn by (simp add: folder_name_None)
    have wf: "well_formed_tree (folders_of ?d)"
      using folders_invD(3) [OF I] nn new(2) [of cat] new(2) [of cat, THEN conjunct1, THEN not_sym]
        new(2) [of cat, THEN conjunct2, THEN not_sym] sanitize_again [of "trim_space (known_category c h)"] fresh(1)
      by (simp add: well_formed_tree_def good_ids_def folderSubtreeIDs_def MaxHostFolderDepth_def flip: cat_def)
    have keep: "folder_name (folders_of ?d) f = Some v" if "folder_name (folders_of c) f = Some v" for f v
      using that by (simp add: folder_name_def map_add_def)
    have own: "folder_name (folders_of ?d) (new cat) = Some cat"
      using nf by (simp add: folder_name_def map_add_def)
    have "folders_inv ?d" by (rule extend_tree_inv [OF I wf keep]) simp_all
    then have "folders_inv (put_host (he_id h) (new cat) cat ?d)"
      using own new(2) [of cat] by (intro put_host_inv) simp_all
    moreover have "f \<noteq> HostFolderUngroupedID \<and> folder_name (folders_of ?d) f = Some k"
      if "map_of (AList.update cat (new cat) byName) k = Some f" for k f
      using that named [of k f] own keep [of f k] new(2) [of cat] by (auto simp: update_conv' split: if_splits)
    moreover have "\<exists>k. map_of (AList.update cat (new cat) byName) k \<noteq> None \<and> i = new k"
      if i: "i \<in> set (subtree_ids (folders_of ?d))" for i
    proof (cases "i = new cat")
      case True
      then show ?thesis by (auto simp: update_conv')
    next
      case False
      then obtain k where "map_of byName k \<noteq> None" "i = new k" using i ids [of i] by (auto simp: folderSubtreeIDs_def)
      moreover have "k \<noteq> cat" using False calculation(2) by auto
      ultimately have "map_of (AList.update cat (new cat) byName) k \<noteq> None \<and> i = new k"
        by (simp add: update_conv')
      then show ?thesis by blast
    qed
    ultimately show ?thesis unfolding eq first_inv_def by simp
  qed
qed

text \<open>Later listings: an id made in this listing stands on the first level under its category.\<close>

definition next_inv :: "(string \<Rightarrow> string) \<Rightarrow> folder_cfg \<Rightarrow> bool" where
  "next_inv new c \<longleftrightarrow> folders_inv c \<and>
     (\<forall>k. new k \<in> set (subtree_ids (folders_of c)) \<longrightarrow> findL1FolderByName (folders_of c) k \<noteq> None)"

lemma migrate_next_inv:
  assumes new: "inj new" "\<And>k. new k \<noteq> [] \<and> new k \<noteq> HostFolderUngroupedID"
    and inv: "next_inv new (fst st)"
  shows "next_inv new (fst (migrate_next new st h))"
proof -
  obtain c dirty where st: "st = (c, dirty)" by (cases st)
  define cat where "cat = sanitizeFolderName (known_category c h)"
  have I: "folders_inv c"
    and ids: "\<And>k. new k \<in> set (subtree_ids (folders_of c)) \<Longrightarrow> findL1FolderByName (folders_of c) k \<noteq> None"
    using inv by (auto simp: next_inv_def st)
  have cats: "known_category c h = get_or (he_category h) (cats_of c) (he_id h)"
    by (simp add: known_category_def get_or_def)
  consider (skip) "get_or [] (assign_of c) (he_id h) \<noteq> []"
    | (blank) "get_or [] (assign_of c) (he_id h) = []" "map_of (cats_of c) (he_id h) \<noteq> None"
        "trim_space (get_or [] (cats_of c) (he_id h)) = []"
    | (noname) "get_or [] (assign_of c) (he_id h) = []"
        "\<not> (map_of (cats_of c) (he_id h) \<noteq> None \<and> trim_space (get_or [] (cats_of c) (he_id h)) = [])" "cat = []"
    | (filed) "get_or [] (assign_of c) (he_id h) = []"
        "\<not> (map_of (cats_of c) (he_id h) \<noteq> None \<and> trim_space (get_or [] (cats_of c) (he_id h)) = [])" "cat \<noteq> []"
    by blast
  then show ?thesis
  proof cases
    case skip
    then show ?thesis using inv by (simp add: migrate_next_def st)
  next
    case blank
    let ?d = "c\<lparr>fc_assign := Some (AList.update (he_id h) HostFolderUngroupedID (assign_of c))\<rparr>"
    have eq: "fst (migrate_next new st h) = ?d" using blank by (simp add: migrate_next_def st)
    have "placed ?d j g" if "map_of (assign_of ?d) j = Some g" for j g
      using that blank(3) folders_invD(4) [OF I, of j g] by (auto simp: placed_def update_conv' split: if_splits)
    then have "folders_inv ?d" using folders_invD(1-3) [OF I] by (simp add: folders_inv_def distinct_update)
    then show ?thesis using ids unfolding eq next_inv_def by simp
  next
    case noname
    then have "migrate_next new st h = st"
      unfolding migrate_next_def st cat_def by (simp only: Let_def prod.case if_False if_True simp_thms)
    then show ?thesis using inv by simp
  next
    case filed
    obtain ts n where f: "find_or_create (new cat) cat (folders_of c) = (ts, n)"
      by (cases "find_or_create (new cat) cat (folders_of c)")
    let ?d = "put_host (he_id h) (hf_id n) (hf_name n) (c\<lparr>fc_folders := Some ts\<rparr>)"
    have eq: "fst (migrate_next new st h) = ?d"
      using filed f by (auto simp: migrate_next_def st Let_def cat_def)
    have fresh: "fresh_id c (new cat)" if "findL1FolderByName (folders_of c) cat = None"
      using that ids [of cat] new(2) [of cat] by (auto simp: fresh_id_def)
    have inv': "folders_inv ?d"
      by (rule create_inv [OF I _ fresh f]) (use sanitize_again [of "known_category c h"] filed(3) in \<open>simp_all add: cat_def\<close>)
    have "findL1FolderByName ts k \<noteq> None" if k: "new k \<in> set (subtree_ids ts)" for k
    proof (cases "findL1FolderByName (folders_of c) cat")
      case None
      then have ts: "ts = folders_of c @ [Folder (new cat) cat []]" using f by (auto simp: find_or_create_def)
      show ?thesis
      proof (cases "k = cat")
        case True
        then show ?thesis unfolding known_L1 by (simp add: ts)
      next
        case False
        then have "new k \<noteq> new cat" using new(1) by (meson injD)
        then have "new k \<in> set (subtree_ids (folders_of c))" using k by (simp add: ts folderSubtreeIDs_def)
        then show ?thesis using ids [of k] unfolding known_L1 by (auto simp: ts)
      qed
    next
      case (Some m)
      then have "ts = folders_of c" using f by (simp add: find_or_create_def)
      then show ?thesis using k ids [of k] by simp
    qed
    then show ?thesis using inv' unfolding eq next_inv_def by simp
  qed
qed

lemma Migrate_inv:
  assumes inv: "folders_inv c" and ok: "folder_ok c (ListHosts new hosts)"
  shows "folders_inv (fst (ensureHostFoldersMigrated new hosts c))"
proof (cases "hostFoldersSettled hosts c")
  case True
  then show ?thesis using inv by (simp add: ensureHostFoldersMigrated_def)
next
  case False
  have new: "inj new" "\<And>k. new k \<noteq> [] \<and> new k \<noteq> HostFolderUngroupedID"
    "\<And>k. new k \<notin> set (subtree_ids (folders_of c))"
    using ok by (auto simp: fresh_id_def)
  let ?c1 = "c\<lparr>fc_cats := Some (cats_of c), fc_assign := Some (assign_of c)\<rparr>"
  have I1: "folders_inv ?c1" using inv by (simp add: folders_inv_def placed_def)
  show ?thesis
  proof (cases "fc_folders c")
    case None
    have "first_inv new (?c1\<lparr>fc_folders := Some [], fc_assign := Some []\<rparr>, [])"
      using folders_invD(2) [OF inv] by (simp add: first_inv_def folders_inv_def well_formed_tree_def good_ids_def)
    then have "first_inv new (foldl (migrate_first new) (?c1\<lparr>fc_folders := Some [], fc_assign := Some []\<rparr>, []) hosts)"
      by (rule rev_mp, induction hosts rule: rev_induct) (auto intro: migrate_first_inv [OF new(1,2)])
    then show ?thesis using False None by (simp add: ensureHostFoldersMigrated_def first_inv_def)
  next
    case (Some ts)
    have "next_inv new (fst (?c1, b))" for b :: bool using I1 new(3) by (simp add: next_inv_def)
    then have "next_inv new (fst (foldl (migrate_next new) (?c1, b) hosts))" for b
      by (induction hosts rule: rev_induct) (auto intro: migrate_next_inv [OF new(1,2)])
    then show ?thesis using False Some by (simp add: ensureHostFoldersMigrated_def next_inv_def)
  qed
qed

lemma folder_step_inv: "folder_ok c e \<Longrightarrow> folders_inv c \<Longrightarrow> folders_inv (folder_step c e)"
  by (cases e) (simp_all add: SetTree_inv AddFolder_inv Rename_inv Move_inv Delete_inv Assign_inv Batch_inv
    Forget_inv SetCategory_inv AgentHint_inv Migrate_inv del: folder_ok.simps, simp_all add: AddFolder_inv SetCategory_inv AgentHint_inv)

interpretation folder_store: fresh_machine empty_folders folder_step folder_ok folders_inv
  by unfold_locales (rule inv_empty, rule folder_step_inv)

section \<open>Properties\<close>

text \<open>C14. Over every run of the operations on folders and hosts (the agents' reports and the migration at
  each listing included), starting from a fresh configuration and with fresh random ids, the tree is
  well-formed, and every host with a folder is in a folder of the tree and has its name as category, or
  is marked as ungrouped with no category.\<close>

theorem host_placement_invariant:
  "run_ok folder_step folder_ok empty_folders es \<Longrightarrow> folders_inv (run folder_step empty_folders es)"
  by (rule folder_store.inv_run)

definition example_ops :: "folder_op list" where
  "example_ops = [PostFolder [] ''Prod'' ''hf-1'', PostFolder ''hf-1'' ''DB'' ''hf-2'',
     AssignHost ''h1'' ''hf-2'', SetCategory ''h2'' ''Web'' ''hf-3'', MoveTo ''hf-3'' ''hf-1'',
     DeleteFolder ''hf-2'', RenameTo ''hf-1'' ''Live'']"

theorem host_placement_invariant_witness:
  "folders_inv (run folder_step empty_folders example_ops) \<and>
   assign_of (run folder_step empty_folders example_ops) = [(''h1'', ''hf-1''), (''h2'', ''hf-3'')] \<and>
   cats_of (run folder_step empty_folders example_ops) = [(''h1'', ''Live''), (''h2'', ''Web'')]"
proof -
  have "run_ok folder_step folder_ok empty_folders example_ops"
    unfolding example_ops_def run_ok.simps folder_ok.simps by code_simp
  then have "folders_inv (run folder_step empty_folders example_ops)" by (rule host_placement_invariant)
  moreover have "assign_of (run folder_step empty_folders example_ops) = [(''h1'', ''hf-1''), (''h2'', ''hf-3'')] \<and>
      cats_of (run folder_step empty_folders example_ops) = [(''h1'', ''Live''), (''h2'', ''Web'')]"
    by code_simp
  ultimately show ?thesis by blast
qed

text \<open>Deleting a folder moves each host of its subtree to the folder above (to the ungrouped mark
  from a root) and leaves every other host where it is.\<close>

theorem delete_rehouses:
  assumes inv: "folders_inv c" and del: "deleteHostFolder x c = (c', None)"
    and rm: "removeFolderNode (folders_of c) x = (out, Some (removed, par))"
  shows "folders_of c' = out \<and>
    map_of (assign_of c') h =
      (case map_of (assign_of c) h of
         None \<Rightarrow> None
       | Some f \<Rightarrow> Some (if f \<in> set (folderSubtreeIDs removed)
                       then (if par = [] then HostFolderUngroupedID else par) else f)) \<and>
    (par = [] \<or> (x, par) \<in> set (edges [] (folders_of c)) \<and> par \<in> set (subtree_ids out))"
proof -
  have nn: "x \<noteq> []" "x \<noteq> HostFolderUngroupedID" using del by (auto simp: deleteHostFolder_def split: if_splits)
  have e: "folders_of c' = out" and a: "assign_of c' =
      map_values (\<lambda>f. if f \<in> set (folderSubtreeIDs removed) then (if par = [] then HostFolderUngroupedID else par) else f) (assign_of c)"
    using del nn rm by (auto simp: deleteHostFolder_def Let_def)
  have t: "findFolderNode (folders_of c) x = Some removed" "taken_out (folders_of c) out removed par"
    using remove_Some [OF rm] folders_invD(3) [OF inv] by (simp_all add: well_formed_tree_def good_ids_def)
  have "mset (edges [] (folders_of c)) = mset (edges [] out) + mset (edges (if par = [] then [] else par) [removed])"
    using t(2) unfolding taken_out_def by blast
  then have "set (edges [] (folders_of c)) = set (edges [] out @ edges par [removed])"
    by (intro mset_eq_setD) simp
  moreover have "hf_id removed = x" using find_Some [OF t(1)] by simp
  ultimately have "(x, par) \<in> set (edges [] (folders_of c))" by (simp add: edges_single)
  then show ?thesis using e t(2) by (simp add: a map_of_map_values taken_out_def split: option.split)
qed

definition example_cfg :: folder_cfg where
  "example_cfg = \<lparr>fc_folders = Some example_tree, fc_assign = Some [(''h1'', ''c''), (''h2'', ''d''), (''h3'', HostFolderUngroupedID)],
     fc_cats = Some [(''h1'', ''C''), (''h2'', ''D''), (''h3'', [])]\<rparr>"

lemma inv_example: "folders_inv example_cfg"
proof -
  have "well_formed_tree example_tree" by code_simp
  moreover have "folder_name example_tree ''c'' = Some ''C''" "folder_name example_tree ''d'' = Some ''D''"
    by code_simp+
  ultimately show ?thesis
    by (auto simp: folders_inv_def example_cfg_def placed_def get_or_def HostFolderUngroupedID_def split: if_splits)
qed

theorem delete_rehouses_witness:
  "folders_of (fst (deleteHostFolder ''b'' example_cfg)) = [Folder ''a'' ''A'' [], Folder ''d'' ''D'' []] \<and>
   map_of (assign_of (fst (deleteHostFolder ''b'' example_cfg))) ''h1'' = Some ''a''"
proof -
  have d: "deleteHostFolder ''b'' example_cfg = (fst (deleteHostFolder ''b'' example_cfg), None)"
    by code_simp
  have r: "removeFolderNode (folders_of example_cfg) ''b'' =
      ([Folder ''a'' ''A'' [], Folder ''d'' ''D'' []], Some (Folder ''b'' ''B'' [Folder ''c'' ''C'' []], ''a''))"
    by code_simp
  show ?thesis
    using delete_rehouses [OF inv_example d r, of "''h1''"]
    by (simp add: example_cfg_def folderSubtreeIDs_def)
qed

text \<open>Saving the tree, even unchanged, drops the mark of a host that was put into no folder on purpose;
  the next listing files the host under the category its agent reports.\<close>

theorem ungrouped_mark_lost:
  assumes inv: "folders_inv c" and tree: "fc_folders c \<noteq> None" and mark: "map_of (assign_of c) (he_id h) = Some HostFolderUngroupedID"
    and cat: "sanitizeFolderName (he_category h) \<noteq> []"
  shows "snd (setHostFoldersTree (folders_of c) c) = None \<and>
    hostFolderOf (fst (ensureHostFoldersMigrated new [h] c)) (he_id h) = HostFolderUngroupedID \<and>
    (\<exists>n. hf_name n = sanitizeFolderName (he_category h) \<and>
      map_of (assign_of (fst (ensureHostFoldersMigrated new [h] (fst (setHostFoldersTree (folders_of c) c))))) (he_id h) =
        Some (hf_id n))"
proof -
  define ts where "ts = sanitizeFolderTreeNames (folders_of c)"
  have ids: "subtree_ids ts = subtree_ids (folders_of c)"
    using labels_sanitize [of "folders_of c"] fst_labels [of ts] fst_labels [of "folders_of c"] by (simp add: ts_def)
  have names: "subtree_names ts = map sanitizeFolderName (subtree_names (folders_of c))"
    unfolding ts_def snd_labels [symmetric] labels_sanitize by (simp add: comp_def del: snd_labels)
  have fits: "fits d (sanitizeFolderTreeNames us) = fits d us" for d us by (induction d us rule: fits.induct) simp_all
  have "well_formed_tree ts"
    using folders_invD(3) [OF inv] fits [of 1 "folders_of c"] sanitize_again
    unfolding well_formed_tree_def ids names ts_def [symmetric] by (metis (no_types, lifting) imageE list.set_map)
  then have v: "validateFolderTree (sanitizeFolderTreeNames (folders_of c)) = None" using validate_iff by (simp add: ts_def)
  define d where "d = fst (setHostFoldersTree (folders_of c) c)"
  have gone: "HostFolderUngroupedID \<notin> set (subtree_ids ts)"
    using \<open>well_formed_tree ts\<close> by (simp add: well_formed_tree_def good_ids_def)
  have a: "map_of (assign_of d) (he_id h) = None" and f: "fc_folders d = Some ts"
    using v mark folders_invD(1) [OF inv] gone
    by (simp_all add: d_def setHostFoldersTree_def Let_def map_of_filter flip: ts_def)
  have m: "map_of (cats_of d) (he_id h) = None"
    using v mark gone by (simp add: d_def setHostFoldersTree_def Let_def each_host_lookup [OF folders_invD(1) [OF inv]] flip: ts_def)
  obtain us n where n: "find_or_create (new (sanitizeFolderName (he_category h))) (sanitizeFolderName (he_category h)) ts = (us, n)"
    by (cases "find_or_create (new (sanitizeFolderName (he_category h))) (sanitizeFolderName (he_category h)) ts")
  have nn: "hf_name n = sanitizeFolderName (he_category h)"
    using n by (auto simp: find_or_create_def findL1FolderByName_def find_Some_iff split: option.splits)
  have "map_of (assign_of (fst (ensureHostFoldersMigrated new [h] d))) (he_id h) = Some (hf_id n)"
    using a m f cat n
    by (simp add: ensureHostFoldersMigrated_def hostFoldersSettled_def migrate_next_def known_category_def get_or_def update_conv')
  moreover have "hostFolderOf (fst (ensureHostFoldersMigrated new [h] c)) (he_id h) = HostFolderUngroupedID"
  proof (cases "fc_folders c")
    case None
    then show ?thesis using tree by simp
  next
    case (Some us)
    have "get_or [] (assign_of c) (he_id h) \<noteq> []" using mark by (simp add: get_or_def HostFolderUngroupedID_def)
    then show ?thesis using Some mark by (simp add: ensureHostFoldersMigrated_def migrate_next_def hostFolderOf_def HostFolderUngroupedID_def)
  qed
  ultimately show ?thesis using v nn by (auto simp: setHostFoldersTree_def Let_def d_def)
qed

theorem ungrouped_mark_lost_witness:
  "map_of (assign_of example_cfg) ''h3'' = Some HostFolderUngroupedID \<and>
   (\<exists>n. hf_name n = ''Web'' \<and>
     map_of (assign_of (fst (ensureHostFoldersMigrated (\<lambda>k. ''hf-'' @ k) [\<lparr>he_id = ''h3'', he_category = ''Web''\<rparr>]
       (fst (setHostFoldersTree (folders_of example_cfg) example_cfg))))) ''h3'' = Some (hf_id n))"
proof -
  let ?h = "\<lparr>he_id = ''h3'', he_category = ''Web''\<rparr>"
  have m: "map_of (assign_of example_cfg) (he_id ?h) = Some HostFolderUngroupedID" by code_simp
  have c: "sanitizeFolderName (he_category ?h) = ''Web''" by code_simp
  have t: "fc_folders example_cfg \<noteq> None" by (simp add: example_cfg_def)
  show ?thesis
    using ungrouped_mark_lost [OF inv_example t m, of "\<lambda>k. ''hf-'' @ k"] c m by simp
qed

text \<open>A host whose agent was installed with a folder id is back in that folder after the agent's next
  report, whatever folder an operator has put it in.\<close>

theorem report_undoes_assignment:
  assumes "folders_inv c" and "sanitizeFolderID f0 = f" and "f \<in> set (subtree_ids (folders_of c))"
    and "h = trim_space h" and "h \<noteq> []"
  shows "map_of (assign_of (fst (applyAgentFolderHint h f0 cat new (fst (assignHostFolder h g c))))) h = Some f"
proof -
  let ?d = "fst (assignHostFolder h g c)"
  have same: "folders_of ?d = folders_of c"
    by (simp add: assignHostFolder_def Let_def split: option.split)
  have f: "f \<noteq> []" "f \<noteq> HostFolderUngroupedID"
    using assms(3) folders_invD(3) [OF assms(1)] by (auto simp: well_formed_tree_def good_ids_def)
  obtain n where n: "findFolderNode (folders_of ?d) f = Some n"
    using assms(3) find_None [of "folders_of ?d" f] same by auto
  have "applyAgentFolderHint h f0 cat new ?d = assignHostFolder h f ?d"
    using f n assms(2,5) assms(4) [symmetric] by (simp add: applyAgentFolderHint_def Let_def)
  then show ?thesis using f n by (simp add: assignHostFolder_def [of h f] update_conv')
qed

theorem report_undoes_assignment_witness:
  "map_of (assign_of (fst (applyAgentFolderHint ''h2'' ''d'' [] ''hf-9'' (fst (assignHostFolder ''h2'' ''a'' example_cfg))))) ''h2''
     = Some ''d'' \<and>
   map_of (assign_of (fst (assignHostFolder ''h2'' ''a'' example_cfg))) ''h2'' = Some ''a''"
proof -
  have "map_of (assign_of (fst (assignHostFolder ''h2'' ''a'' example_cfg))) ''h2'' = Some ''a''" by code_simp
  moreover have "map_of (assign_of (fst (applyAgentFolderHint ''h2'' ''d'' [] ''hf-9''
      (fst (assignHostFolder ''h2'' ''a'' example_cfg))))) ''h2'' = Some ''d''"
    by (rule report_undoes_assignment [OF inv_example]; code_simp)
  ultimately show ?thesis by blast
qed

end
