(* ===== verification/NaturalOrder.thy ===== *)
theory NaturalOrder
  imports FolderTree
begin

text \<open>
  The order in which folders are shown (\<open>naturalLess\<close> and \<open>sortFolderTreeForDisplay\<close> of
  \<open>cmd/server/host_folders.go\<close>): runs of digits compare as numbers, everything else letter by letter
  without regard to case. The reference is a key of pairs compared lexicographically; since a Go sort
  is only determined for a strict weak order, that the comparison is one matters.
\<close>

section \<open>The comparison\<close>

definition isASCIIDigit :: "char \<Rightarrow> bool" where
  "isASCIIDigit c \<longleftrightarrow> (48 :: nat) \<le> of_char c \<and> of_char c \<le> (57 :: nat)"

definition trim_zeros :: "string \<Rightarrow> string" where
  "trim_zeros = dropWhile (\<lambda>c. c = CHR ''0'')"

function naturalLess :: "string \<Rightarrow> string \<Rightarrow> bool" where
  "naturalLess [] bs \<longleftrightarrow> bs \<noteq> []"
| "naturalLess (a # as) [] \<longleftrightarrow> False"
| "naturalLess (a # as) (b # bs) \<longleftrightarrow>
     (if isASCIIDigit a \<and> isASCIIDigit b then
        (let na = trim_zeros (takeWhile isASCIIDigit (a # as)); nb = trim_zeros (takeWhile isASCIIDigit (b # bs)) in
         if length na \<noteq> length nb then length na < length nb
         else if na \<noteq> nb then str_less na nb
         else naturalLess (dropWhile isASCIIDigit (a # as)) (dropWhile isASCIIDigit (b # bs)))
      else let ca = of_char (lower_char a) :: nat; cb = of_char (lower_char b) in
           if ca \<noteq> cb then ca < cb else naturalLess as bs)"
  by pat_completeness auto
termination
proof (relation "measure (\<lambda>(a, b). length a + length b)")
  fix a b :: char and as bs na nb
  assume "isASCIIDigit a \<and> isASCIIDigit b"
  then have "length (dropWhile isASCIIDigit (a # as)) < length (a # as)"
    and "length (dropWhile isASCIIDigit (b # bs)) \<le> length (b # bs)"
    using length_dropWhile_le [of isASCIIDigit as] length_dropWhile_le [of isASCIIDigit "b # bs"]
    by (simp_all del: dropWhile.simps(2), simp add: le_imp_less_Suc)
  then show "((dropWhile isASCIIDigit (a # as), dropWhile isASCIIDigit (b # bs)), (a # as, b # bs)) \<in>
      measure (\<lambda>(a, b). length a + length b)"
    by (simp del: dropWhile.simps(2))
qed simp_all

declare naturalLess.simps(3) [simp del]

text \<open>\<open>sort.SliceStable\<close>: elements that are not less than each other keep their order.\<close>

fun insert_stable :: "('a \<Rightarrow> 'a \<Rightarrow> bool) \<Rightarrow> 'a \<Rightarrow> 'a list \<Rightarrow> 'a list" where
  "insert_stable lt x [] = [x]"
| "insert_stable lt x (y # ys) = (if lt y x then y # insert_stable lt x ys else x # y # ys)"

definition sort_stable :: "('a \<Rightarrow> 'a \<Rightarrow> bool) \<Rightarrow> 'a list \<Rightarrow> 'a list" where
  "sort_stable lt xs = foldr (insert_stable lt) xs []"

fun sort_children :: "folder list \<Rightarrow> folder list" where
  "sort_children [] = []"
| "sort_children (Folder i n cs # rest) =
     Folder i n (sort_stable (\<lambda>x y. naturalLess (hf_name x) (hf_name y)) (sort_children cs)) # sort_children rest"

text \<open>The code sorts a level before it descends; the sort of a level looks only at the names on it.\<close>

definition sortFolderTreeForDisplay :: "folder list \<Rightarrow> folder list" where
  "sortFolderTreeForDisplay ts =
     sort_stable (\<lambda>x y. naturalLess (hf_name x) (hf_name y)) (sort_children ts)"

section \<open>The key\<close>

definition digit_nat :: "char \<Rightarrow> nat" where
  "digit_nat c = of_char c - 48"

definition number_of :: "string \<Rightarrow> nat" where
  "number_of s = foldl (\<lambda>n c. n * 10 + digit_nat c) 0 s"

text \<open>A number stands among the letters where the digits stand; its value decides next.\<close>

function natural_key :: "string \<Rightarrow> (nat \<times> nat) list" where
  "natural_key [] = []"
| "natural_key (a # as) =
     (if isASCIIDigit a
      then (48, number_of (takeWhile isASCIIDigit (a # as))) # natural_key (dropWhile isASCIIDigit (a # as))
      else (of_char (lower_char a), 0) # natural_key as)"
  by pat_completeness auto
termination
proof (relation "measure length")
  fix a :: char and as
  assume "isASCIIDigit a"
  then show "(dropWhile isASCIIDigit (a # as), a # as) \<in> measure length"
    using length_dropWhile_le [of isASCIIDigit as] by (simp add: le_imp_less_Suc)
qed simp_all

declare natural_key.simps(2) [simp del]

fun key_less :: "(nat \<times> nat) list \<Rightarrow> (nat \<times> nat) list \<Rightarrow> bool" where
  "key_less _ [] \<longleftrightarrow> False"
| "key_less [] (_ # _) \<longleftrightarrow> True"
| "key_less (x # xs) (y # ys) \<longleftrightarrow>
     fst x < fst y \<or> fst x = fst y \<and> snd x < snd y \<or> x = y \<and> key_less xs ys"

section \<open>Numbers\<close>

lemma number_snoc: "number_of (s @ [c]) = number_of s * 10 + digit_nat c"
  by (simp add: number_of_def)

lemma number_Cons: "number_of (c # s) = digit_nat c * 10 ^ length s + number_of s"
proof (induction s rule: rev_induct)
  case Nil
  then show ?case by (simp add: number_of_def)
next
  case (snoc x s)
  have "number_of (c # s @ [x]) = number_of (c # s) * 10 + digit_nat x"
    using number_snoc [of "c # s" x] by simp
  then show ?case using snoc by (simp add: number_snoc algebra_simps)
qed

lemma number_Nil [simp]: "number_of [] = 0"
  by (simp add: number_of_def)

lemma digit_nat_less: "isASCIIDigit c \<Longrightarrow> digit_nat c < 10"
  by (auto simp: isASCIIDigit_def digit_nat_def)

lemma digit_nat_eq: "isASCIIDigit c \<Longrightarrow> isASCIIDigit d \<Longrightarrow> digit_nat c = digit_nat d \<longleftrightarrow> c = d"
  by (auto simp: isASCIIDigit_def digit_nat_def eq_diff_iff)

lemma digit_nat_order:
  "isASCIIDigit c \<Longrightarrow> isASCIIDigit d \<Longrightarrow> digit_nat c < digit_nat d \<longleftrightarrow> (of_char c :: nat) < of_char d"
  by (auto simp: isASCIIDigit_def digit_nat_def)

lemma number_less: "\<forall>c\<in>set s. isASCIIDigit c \<Longrightarrow> number_of s < 10 ^ length s"
proof (induction s)
  case Nil
  then show ?case by simp
next
  case (Cons c s)
  have "Suc (digit_nat c) * 10 ^ length s \<le> 10 * 10 ^ length s"
    using digit_nat_less [of c] Cons.prems by (intro mult_le_mono1) simp
  then have "digit_nat c * 10 ^ length s + 10 ^ length s \<le> 10 ^ length (c # s)" by simp
  moreover have "number_of s < 10 ^ length s" using Cons by simp
  ultimately show ?case by (simp only: number_Cons)
qed

lemma number_str_less:
  "length s = length t \<Longrightarrow> \<forall>c\<in>set s. isASCIIDigit c \<Longrightarrow> \<forall>c\<in>set t. isASCIIDigit c \<Longrightarrow>
   (number_of s < number_of t \<longleftrightarrow> str_less s t) \<and> (number_of s = number_of t \<longleftrightarrow> s = t)"
proof (induction s t rule: list_induct2)
  case Nil
  then show ?case by simp
next
  case (Cons c s d t)
  have IH: "number_of s < number_of t \<longleftrightarrow> str_less s t" "number_of s = number_of t \<longleftrightarrow> s = t"
    using Cons by simp_all
  have cd: "isASCIIDigit c" "isASCIIDigit d" using Cons.prems by simp_all
  have s: "number_of s < 10 ^ length s" and t: "number_of t < 10 ^ length s"
    using number_less [of s] number_less [of t] Cons by simp_all
  consider "digit_nat c < digit_nat d" | "digit_nat c = digit_nat d" | "digit_nat d < digit_nat c" by linarith
  then show ?case
  proof cases
    case 1
    have "Suc (digit_nat c) * 10 ^ length s \<le> digit_nat d * 10 ^ length s" using 1 by (intro mult_le_mono1) simp
    then have "number_of (c # s) < number_of (d # t)" using s Cons.hyps by (simp add: number_Cons)
    then show ?thesis using 1 digit_nat_order [OF cd] by auto
  next
    case 2
    then have "c = d" using digit_nat_eq [OF cd] by simp
    then show ?thesis using IH Cons.hyps by (simp add: number_Cons)
  next
    case 3
    have "Suc (digit_nat d) * 10 ^ length s \<le> digit_nat c * 10 ^ length s" using 3 by (intro mult_le_mono1) simp
    then have "number_of (d # t) < number_of (c # s)" using t Cons.hyps by (simp add: number_Cons)
    then show ?thesis using 3 digit_nat_order [OF cd] digit_nat_order [OF cd(2,1)] by auto
  qed
qed

lemma number_trim_zeros: "number_of (trim_zeros s) = number_of s"
  by (induction s) (simp_all add: trim_zeros_def number_Cons digit_nat_def)

lemma trim_zeros_digits: "\<forall>c\<in>set s. isASCIIDigit c \<Longrightarrow> \<forall>c\<in>set (trim_zeros s). isASCIIDigit c"
  by (auto simp: trim_zeros_def dest: set_dropWhileD)

lemma trimmed_lower_bound:
  assumes "\<forall>c\<in>set s. isASCIIDigit c" "trim_zeros s \<noteq> []"
  shows "10 ^ (length (trim_zeros s) - 1) \<le> number_of (trim_zeros s)"
proof -
  obtain c r where c: "trim_zeros s = c # r" using assms(2) by (cases "trim_zeros s") auto
  then have "c \<noteq> CHR ''0''" unfolding trim_zeros_def using dropWhile_eq_Cons_conv [of "\<lambda>c. c = CHR ''0''" s c r] by simp
  moreover have "isASCIIDigit c" using trim_zeros_digits [OF assms(1)] c by simp
  ultimately have "digit_nat c \<noteq> 0" using digit_nat_eq [of c "CHR ''0''"] by (auto simp: isASCIIDigit_def digit_nat_def)
  then have "1 * 10 ^ length r \<le> digit_nat c * 10 ^ length r" by (intro mult_le_mono1) simp
  then have "10 ^ length r \<le> number_of (c # r)" unfolding number_Cons by linarith
  then show ?thesis by (simp add: c)
qed

text \<open>Comparing the lengths and then the strings compares the numbers.\<close>

lemma trimmed_compare:
  assumes s: "\<forall>c\<in>set s. isASCIIDigit c" and t: "\<forall>c\<in>set t. isASCIIDigit c"
  shows "number_of s < number_of t \<longleftrightarrow>
      (if length (trim_zeros s) \<noteq> length (trim_zeros t) then length (trim_zeros s) < length (trim_zeros t)
       else str_less (trim_zeros s) (trim_zeros t))"
    and "number_of s = number_of t \<longleftrightarrow> trim_zeros s = trim_zeros t"
proof -
  let ?a = "trim_zeros s" and ?b = "trim_zeros t"
  have shorter: "number_of (trim_zeros u) < number_of (trim_zeros v)"
    if "length (trim_zeros u) < length (trim_zeros v)" "\<forall>c\<in>set u. isASCIIDigit c" "\<forall>c\<in>set v. isASCIIDigit c" for u v
  proof -
    have "number_of (trim_zeros u) < 10 ^ length (trim_zeros u)" using number_less trim_zeros_digits that(2) by blast
    also have "\<dots> \<le> 10 ^ (length (trim_zeros v) - 1)" using that(1) by (intro power_increasing) simp_all
    also have "\<dots> \<le> number_of (trim_zeros v)" using that(1,3) by (intro trimmed_lower_bound) auto
    finally show ?thesis .
  qed
  consider "length ?a < length ?b" | "length ?b < length ?a" | "length ?a = length ?b" by linarith
  then have "(number_of ?a < number_of ?b \<longleftrightarrow> (if length ?a \<noteq> length ?b then length ?a < length ?b else str_less ?a ?b)) \<and>
      (number_of ?a = number_of ?b \<longleftrightarrow> ?a = ?b)"
  proof cases
    case 1
    then show ?thesis using shorter [OF 1 s t] by auto
  next
    case 2
    then show ?thesis using shorter [OF 2 t s] by auto
  next
    case 3
    then show ?thesis using number_str_less [OF 3 trim_zeros_digits [OF s] trim_zeros_digits [OF t]] by simp
  qed
  then show "number_of s < number_of t \<longleftrightarrow>
      (if length (trim_zeros s) \<noteq> length (trim_zeros t) then length (trim_zeros s) < length (trim_zeros t)
       else str_less (trim_zeros s) (trim_zeros t))"
    and "number_of s = number_of t \<longleftrightarrow> trim_zeros s = trim_zeros t"
    by (simp_all add: number_trim_zeros)
qed

section \<open>The comparison is the order of the keys\<close>

lemma lower_char_digit: "isASCIIDigit a \<Longrightarrow> lower_char a = a"
  by (simp add: isASCIIDigit_def lower_char_def Let_def)

lemma lower_char_nondigit: "\<not> isASCIIDigit a \<Longrightarrow> (of_char (lower_char a) :: nat) < 48 \<or> (57 :: nat) < of_char (lower_char a)"
  by (auto simp: isASCIIDigit_def lower_char_def Let_def of_char_of not_le)

lemma naturalLess_key: "naturalLess a b \<longleftrightarrow> key_less (natural_key a) (natural_key b)"
proof (induction a b rule: naturalLess.induct)
  case (1 bs)
  then show ?case by (cases bs) (simp_all add: natural_key.simps(2))
next
  case (2 a as)
  then show ?case by simp
next
  case (3 a as b bs)
  show ?case
  proof (cases "isASCIIDigit a \<and> isASCIIDigit b")
    case True
    let ?s = "takeWhile isASCIIDigit (a # as)" and ?t = "takeWhile isASCIIDigit (b # bs)"
    have "\<forall>c\<in>set ?s. isASCIIDigit c" "\<forall>c\<in>set ?t. isASCIIDigit c" by (meson set_takeWhileD)+
    note cmp = trimmed_compare [OF this]
    show ?thesis
    proof (cases "trim_zeros ?s = trim_zeros ?t")
      case eq: True
      then have "naturalLess (dropWhile isASCIIDigit (a # as)) (dropWhile isASCIIDigit (b # bs)) \<longleftrightarrow>
          key_less (natural_key (dropWhile isASCIIDigit (a # as))) (natural_key (dropWhile isASCIIDigit (b # bs)))"
        using "3.IH"(1) [OF True refl refl] by simp
      then show ?thesis using True eq cmp(2)
        by (simp add: naturalLess.simps(3) natural_key.simps(2) Let_def del: takeWhile.simps dropWhile.simps)
    next
      case False
      then show ?thesis using True cmp
        by (auto simp add: naturalLess.simps(3) natural_key.simps(2) Let_def simp del: takeWhile.simps dropWhile.simps)
    qed
  next
    case False
    let ?ca = "of_char (lower_char a) :: nat" and ?cb = "of_char (lower_char b) :: nat"
    have less: "naturalLess (a # as) (b # bs) \<longleftrightarrow> (if ?ca \<noteq> ?cb then ?ca < ?cb else naturalLess as bs)"
      unfolding naturalLess.simps(3) [of a as b bs] if_not_P [OF False] Let_def ..
    consider (a) "isASCIIDigit a" "\<not> isASCIIDigit b" | (b) "\<not> isASCIIDigit a" "isASCIIDigit b"
      | (no) "\<not> isASCIIDigit a" "\<not> isASCIIDigit b" using False by blast
    then show ?thesis
    proof cases
      case a
      then have "48 \<le> ?ca \<and> ?ca \<le> 57" using lower_char_digit [OF a(1)] by (simp add: isASCIIDigit_def)
      then show ?thesis using less lower_char_nondigit [OF a(2)] a
        by (auto simp: natural_key.simps(2) simp del: takeWhile.simps dropWhile.simps)
    next
      case b
      then have "48 \<le> ?cb \<and> ?cb \<le> 57" using lower_char_digit [OF b(2)] by (simp add: isASCIIDigit_def)
      then show ?thesis using less lower_char_nondigit [OF b(1)] b
        by (auto simp: natural_key.simps(2) simp del: takeWhile.simps dropWhile.simps)
    next
      case no
      then show ?thesis using less "3.IH"(2) [OF False refl refl] by (auto simp: natural_key.simps(2))
    qed
  qed
qed

section \<open>Sorting by the key\<close>

lemma key_less_irrefl: "\<not> key_less a a"
  by (induction a) auto

lemma key_less_asym: "key_less a b \<Longrightarrow> \<not> key_less b a"
  by (induction a b rule: key_less.induct) auto

lemma key_less_linear: "key_less a b \<or> a = b \<or> key_less b a"
proof (induction a b rule: key_less.induct)
  case (1 xs)
  then show ?case by (cases xs) auto
next
  case (2 y ys)
  then show ?case by simp
next
  case (3 x xs y ys)
  then show ?case by (cases x; cases y) auto
qed

lemma key_less_trans: "key_less a b \<Longrightarrow> key_less b c \<Longrightarrow> key_less a c"
proof (induction a b arbitrary: c rule: key_less.induct)
  case (1 xs)
  then show ?case by simp
next
  case (2 y ys)
  then show ?case by (cases c) auto
next
  case (3 x xs y ys)
  then obtain z zs where c: "c = z # zs" by (cases c) auto
  show ?case using 3 unfolding c by (cases x; cases y; cases z) auto
qed

text \<open>Not being less is transitive, which a sort needs.\<close>

lemma naturalLess_weak: "\<not> naturalLess b a \<Longrightarrow> \<not> naturalLess c b \<Longrightarrow> \<not> naturalLess c a"
  unfolding naturalLess_key using key_less_linear key_less_trans by metis

lemma mset_sort_stable: "mset (sort_stable lt xs) = mset xs"
proof -
  have ins: "mset (insert_stable lt x ys) = add_mset x (mset ys)" for x :: 'a and ys
    by (induction ys) auto
  show ?thesis by (induction xs) (simp_all add: sort_stable_def ins)
qed

lemma sorted_sort_stable:
  assumes weak: "\<And>x y z. \<not> lt y x \<Longrightarrow> \<not> lt z y \<Longrightarrow> \<not> lt z x" and asym: "\<And>x y. lt x y \<Longrightarrow> \<not> lt y x"
  shows "sorted_wrt (\<lambda>x y. \<not> lt y x) (sort_stable lt xs)"
proof -
  have ins: "sorted_wrt (\<lambda>x y. \<not> lt y x) (insert_stable lt x ys)" if "sorted_wrt (\<lambda>x y. \<not> lt y x) ys" for x ys
    using that
  proof (induction ys)
    case Nil
    then show ?case by simp
  next
    case (Cons y ys)
    have set: "set (insert_stable lt x ys) = insert x (set ys)"
      by (induction ys) auto
    show ?case
    proof (cases "lt y x")
      case True
      then show ?thesis using Cons asym set by auto
    next
      case False
      then show ?thesis using Cons.prems weak by auto
    qed
  qed
  show ?thesis by (induction xs) (simp_all add: sort_stable_def ins)
qed

fun levels_sorted :: "folder list \<Rightarrow> bool" where
  "levels_sorted [] \<longleftrightarrow> True"
| "levels_sorted (Folder i n cs # rest) \<longleftrightarrow>
     sorted_wrt (\<lambda>x y. \<not> naturalLess (hf_name y) (hf_name x)) cs \<and> levels_sorted cs \<and> levels_sorted rest"

lemma levels_sorted_all: "levels_sorted ts \<longleftrightarrow> (\<forall>n\<in>set ts. levels_sorted [n])"
  by (induction ts rule: levels_sorted.induct) auto

lemma edges_concat: "mset (edges p ts) = (\<Sum>n\<in>#mset ts. mset (edges p [n]))"
proof (induction ts)
  case Nil
  then show ?case by simp
next
  case (Cons n ts)
  then show ?case using edges_append [of p "[n]" ts] by simp
qed

lemma labels_concat: "mset (labels ts) = (\<Sum>n\<in>#mset ts. mset (labels [n]))"
proof (induction ts)
  case Nil
  then show ?case by simp
next
  case (Cons n ts)
  then show ?case using labels_append [of "[n]" ts] by simp
qed

lemma shape_of_mset:
  "mset ts = mset us \<Longrightarrow> mset (edges p ts) = mset (edges p us) \<and> mset (labels ts) = mset (labels us)"
  using edges_concat [of p ts] edges_concat [of p us] labels_concat [of ts] labels_concat [of us] by simp

abbreviation by_name :: "folder \<Rightarrow> folder \<Rightarrow> bool" where
  "by_name x y \<equiv> naturalLess (hf_name x) (hf_name y)"

lemma sorted_by_name: "sorted_wrt (\<lambda>x y. \<not> by_name y x) (sort_stable by_name xs)"
  by (rule sorted_sort_stable, erule (1) naturalLess_weak, simp add: naturalLess_key key_less_asym)

lemma sort_children_shape:
  "mset (edges p (sort_children ts)) = mset (edges p ts) \<and> mset (labels (sort_children ts)) = mset (labels ts) \<and>
   levels_sorted (sort_children ts)"
proof (induction ts arbitrary: p rule: sort_children.induct)
  case 1
  then show ?case by simp
next
  case (2 i n cs rest)
  let ?s = "sort_stable by_name (sort_children cs)"
  have m: "mset ?s = mset (sort_children cs)" by (rule mset_sort_stable)
  have "levels_sorted ?s"
    using 2(1) levels_sorted_all [of ?s] levels_sorted_all [of "sort_children cs"] mset_eq_setD [OF m] by simp
  then show ?case using 2 shape_of_mset [OF m, of i] sorted_by_name [of "sort_children cs"] by simp
qed

section \<open>Properties\<close>

text \<open>naturalLess compares the keys of two names: runs of digits by their value, other characters by
  their lower case, position by position. The lexicographic order of the keys is a strict linear one.\<close>

theorem natural_order_exact: "naturalLess a b \<longleftrightarrow> key_less (natural_key a) (natural_key b)"
  by (rule naturalLess_key)

text \<open>The tree that is displayed has the folders, names and edges of the stored one, and on every
  level the names stand in natural order.\<close>

theorem display_order:
  "mset (edges p (sortFolderTreeForDisplay ts)) = mset (edges p ts) \<and>
   mset (labels (sortFolderTreeForDisplay ts)) = mset (labels ts) \<and>
   levels_sorted (sortFolderTreeForDisplay ts) \<and>
   sorted_wrt (\<lambda>x y. \<not> naturalLess (hf_name y) (hf_name x)) (sortFolderTreeForDisplay ts)"
proof -
  let ?s = "sort_stable by_name (sort_children ts)"
  have m: "mset ?s = mset (sort_children ts)" by (rule mset_sort_stable)
  have "levels_sorted ?s"
    using sort_children_shape [of p ts] levels_sorted_all [of ?s] levels_sorted_all [of "sort_children ts"]
      mset_eq_setD [OF m] by simp
  then show ?thesis
    using sort_children_shape [of p ts] shape_of_mset [OF m, of p] sorted_by_name [of "sort_children ts"]
    by (simp add: sortFolderTreeForDisplay_def)
qed

end
