(* ===== verification/HostScope.thy ===== *)
theory HostScope
  imports HostFolders NaturalOrder RouteAccess
begin

text \<open>
  Which hosts an account may see and act on (\<open>cmd/server/host_rbac.go\<close>) and the handlers that change
  the folders those rights hang on (\<open>cmd/server/host_folders.go\<close>). The store is the list of its hosts.
  What \<open>currentUser\<close> resolves of a request is the argument \<open>me\<close>, \<^term>\<open>None :: 'a option\<close> when there is no
  account. A filter works on any kind of entry; \<open>hid\<close> reads the host id of one.
\<close>

section \<open>Scope of an account\<close>

record host_info = host_entry +
  he_lastSeen :: int

definition GetHost :: "host_info list \<Rightarrow> string \<Rightarrow> host_info option" where
  "GetHost store h = find (\<lambda>e. he_id e = h) store"

definition hostScopeRestricted :: "account \<Rightarrow> bool" where
  "hostScopeRestricted u \<longleftrightarrow> ac_folders u \<noteq> [] \<or> ac_hosts u \<noteq> [] \<or> ac_tags u \<noteq> []"

definition FolderDescendantIDs :: "folder_cfg \<Rightarrow> string \<Rightarrow> string list" where
  "FolderDescendantIDs c r =
     (case findFolderNode (folders_of c) r of None \<Rightarrow> [] | Some n \<Rightarrow> subtree_ids (hf_children n))"

definition allowed_folders :: "folder_cfg \<Rightarrow> account \<Rightarrow> string list" where
  "allowed_folders c u = concat (map (\<lambda>f. f # FolderDescendantIDs c f) (ac_folders u))"

definition tag_matches :: "account \<Rightarrow> host_info \<Rightarrow> bool" where
  "tag_matches u h \<longleftrightarrow> (\<exists>t\<in>set (ac_tags u). equal_fold (trim_space t) (trim_space (he_category h)))"

definition hostAccessFor :: "folder_cfg \<Rightarrow> host_info list \<Rightarrow> account \<Rightarrow> string \<Rightarrow> bool" where
  "hostAccessFor c store u h =
     (if admin_rank \<le> roleRank (ac_role u) \<or> \<not> hostScopeRestricted u then True
      else if h \<in> set (ac_hosts u) then True
      else case GetHost store h of
             None \<Rightarrow> False
           | Some e \<Rightarrow>
               if tag_matches u e then True
               else if ac_folders u = [] then False
               else let f = get_or [] (assign_of c) h in
                    if f = [] then False else f \<in> set (allowed_folders c u))"

definition userCanAccessHost :: "folder_cfg \<Rightarrow> host_info list \<Rightarrow> account \<Rightarrow> string \<Rightarrow> bool" where
  "userCanAccessHost c store u h = hostAccessFor c store u h"

text \<open>The early return of every filter.\<close>

definition unfiltered :: "account option \<Rightarrow> bool" where
  "unfiltered me \<longleftrightarrow> (case me of None \<Rightarrow> True
     | Some u \<Rightarrow> \<not> hostScopeRestricted u \<or> admin_rank \<le> roleRank (ac_role u))"

section \<open>Gates and filters\<close>

datatype access_reply = AccessGranted | AccessUnauthorized | AccessForbidden | AccessNotFound

definition requireHostAccess ::
    "folder_cfg \<Rightarrow> host_info list \<Rightarrow> account option \<Rightarrow> string \<Rightarrow> access_reply" where
  "requireHostAccess c store me h =
     (case me of None \<Rightarrow> AccessUnauthorized
      | Some u \<Rightarrow> if userCanAccessHost c store u h then AccessGranted else AccessForbidden)"

definition requireForwardRuleAccess ::
    "(string \<Rightarrow> string option) \<Rightarrow> folder_cfg \<Rightarrow> host_info list \<Rightarrow> account option \<Rightarrow> string \<Rightarrow> access_reply" where
  "requireForwardRuleAccess rule_host c store me rule =
     (case rule_host rule of None \<Rightarrow> AccessNotFound | Some h \<Rightarrow> requireHostAccess c store me h)"

definition requireForwardGroupAccess ::
    "(string \<Rightarrow> string option) \<Rightarrow> string list \<Rightarrow> folder_cfg \<Rightarrow> host_info list \<Rightarrow> account option \<Rightarrow> access_reply" where
  "requireForwardGroupAccess rule_host rules c store me =
     (case me of None \<Rightarrow> AccessUnauthorized
      | Some u \<Rightarrow>
          if unfiltered me then AccessGranted
          else if \<exists>r\<in>set rules. case rule_host r of None \<Rightarrow> False | Some h \<Rightarrow> \<not> userCanAccessHost c store u h
          then AccessForbidden else AccessGranted)"

text \<open>The proxies of the configuration are a list of id and host id.\<close>

definition requireHTTPProxyAccess ::
    "(string \<times> string) list \<Rightarrow> folder_cfg \<Rightarrow> host_info list \<Rightarrow> account option \<Rightarrow> string \<Rightarrow> access_reply" where
  "requireHTTPProxyAccess proxies c store me proxy =
     (case find (\<lambda>p. fst p = proxy) proxies of
        None \<Rightarrow> AccessNotFound | Some p \<Rightarrow> requireHostAccess c store me (snd p))"

definition requireIncidentAccess ::
    "folder_cfg \<Rightarrow> host_info list \<Rightarrow> account option \<Rightarrow> string \<Rightarrow> access_reply" where
  "requireIncidentAccess c store me h =
     (if trim_space h = [] then AccessGranted else requireHostAccess c store me h)"

definition scope_filter ::
    "(account \<Rightarrow> 'a \<Rightarrow> bool) \<Rightarrow> account option \<Rightarrow> 'a list \<Rightarrow> 'a list" where
  "scope_filter keep me xs =
     (if unfiltered me then xs else case me of None \<Rightarrow> xs | Some u \<Rightarrow> filter (keep u) xs)"

definition filterHostsForUser ::
    "folder_cfg \<Rightarrow> host_info list \<Rightarrow> account option \<Rightarrow> host_info option list \<Rightarrow> host_info option list" where
  "filterHostsForUser c store me hosts =
     scope_filter (\<lambda>u h. case h of None \<Rightarrow> False | Some e \<Rightarrow> hostAccessFor c store u (he_id e)) me hosts"

definition filterForwardRulesForUser ::
    "('a \<Rightarrow> string) \<Rightarrow> folder_cfg \<Rightarrow> host_info list \<Rightarrow> account option \<Rightarrow> 'a list \<Rightarrow> 'a list" where
  "filterForwardRulesForUser hid c store me xs =
     scope_filter (\<lambda>u x. userCanAccessHost c store u (hid x)) me xs"

definition filterIncidentsForUser ::
    "('a \<Rightarrow> string) \<Rightarrow> folder_cfg \<Rightarrow> host_info list \<Rightarrow> account option \<Rightarrow> 'a list \<Rightarrow> 'a list" where
  "filterIncidentsForUser hid c store me xs =
     scope_filter (\<lambda>u x. trim_space (hid x) = [] \<or> userCanAccessHost c store u (hid x)) me xs"

definition filterAlertsForUser ::
    "('a \<Rightarrow> string) \<Rightarrow> folder_cfg \<Rightarrow> host_info list \<Rightarrow> account option \<Rightarrow> 'a list \<Rightarrow> 'a list" where
  "filterAlertsForUser hid c store me xs =
     scope_filter (\<lambda>u x. hid x = [] \<or> hostAccessFor c store u (hid x)) me xs"

definition filterAlertRecordsForUser ::
    "('a \<Rightarrow> string) \<Rightarrow> folder_cfg \<Rightarrow> host_info list \<Rightarrow> account option \<Rightarrow> 'a list \<Rightarrow> 'a list" where
  "filterAlertRecordsForUser hid c store me xs =
     scope_filter (\<lambda>u x. hid x = [] \<or> userCanAccessHost c store u (hid x)) me xs"

definition filterInventoryRows ::
    "('a \<Rightarrow> string) \<Rightarrow> folder_cfg \<Rightarrow> host_info list \<Rightarrow> account option \<Rightarrow> 'a list \<Rightarrow> 'a list" where
  "filterInventoryRows hid c store me xs =
     scope_filter (\<lambda>u x. hid x \<noteq> [] \<and> userCanAccessHost c store u (hid x)) me xs"

text \<open>The predicate of a log search with its cache, which the closure carries from call to call.\<close>

definition hostLogVisibility ::
    "folder_cfg \<Rightarrow> host_info list \<Rightarrow> account \<Rightarrow> bool go_map \<Rightarrow> string \<Rightarrow> bool go_map \<times> bool" where
  "hostLogVisibility c store u cache h =
     (case map_of cache h of
        Some v \<Rightarrow> (cache, v)
      | None \<Rightarrow> let v = userCanAccessHost c store u h in (AList.update h v cache, v))"

section \<open>Handlers of the folder tree\<close>

datatype folder_reply =
    FolderOk | FolderBadRequest "folder_error option" | FolderForbidden | FolderUnauthorized
  | BatchDone "string list" "string list" "string list"

definition handlePutHostFolders :: "folder list \<Rightarrow> folder_cfg \<Rightarrow> folder_cfg \<times> folder_reply" where
  "handlePutHostFolders ts c =
     (case setHostFoldersTree ts c of
        (c', Some e) \<Rightarrow> (c', FolderBadRequest (Some e)) | (c', None) \<Rightarrow> (c', FolderOk))"

definition handlePostHostFolder :: "string \<Rightarrow> string \<Rightarrow> string \<Rightarrow> folder_cfg \<Rightarrow> folder_cfg \<times> folder_reply" where
  "handlePostHostFolder par name new c =
     (case addHostFolder par name new c of
        (c', Inl e) \<Rightarrow> (c', FolderBadRequest (Some e)) | (c', Inr n) \<Rightarrow> (c', FolderOk))"

definition handlePatchHostFolder ::
    "string \<Rightarrow> string \<Rightarrow> string option \<Rightarrow> folder_cfg \<Rightarrow> folder_cfg \<times> folder_reply" where
  "handlePatchHostFolder x name par c =
     (case (if trim_space name \<noteq> [] then renameHostFolder x name c else (c, None)) of
        (c1, Some e) \<Rightarrow> (c1, FolderBadRequest (Some e))
      | (c1, None) \<Rightarrow>
          (case (case par of None \<Rightarrow> (c1, None) | Some p \<Rightarrow> moveHostFolder x (sanitizeFolderID p) c1) of
             (c2, Some e) \<Rightarrow> (c2, FolderBadRequest (Some e))
           | (c2, None) \<Rightarrow>
               if trim_space name = [] \<and> par = None then (c2, FolderBadRequest None) else (c2, FolderOk)))"

definition handleDeleteHostFolder :: "string \<Rightarrow> folder_cfg \<Rightarrow> folder_cfg \<times> folder_reply" where
  "handleDeleteHostFolder x c =
     (case deleteHostFolder x c of
        (c', Some e) \<Rightarrow> (c', FolderBadRequest (Some e)) | (c', None) \<Rightarrow> (c', FolderOk))"

definition handleSetHostFolder ::
    "host_info list \<Rightarrow> account option \<Rightarrow> string \<Rightarrow> string \<Rightarrow> folder_cfg \<Rightarrow> folder_cfg \<times> folder_reply" where
  "handleSetHostFolder store me h f c =
     (case requireHostAccess c store me h of
        AccessUnauthorized \<Rightarrow> (c, FolderUnauthorized)
      | AccessGranted \<Rightarrow>
          (case assignHostFolder h f c of
             (c', Some e) \<Rightarrow> (c', FolderBadRequest (Some e)) | (c', None) \<Rightarrow> (c', FolderOk))
      | _ \<Rightarrow> (c, FolderForbidden))"

definition maxBatchFolderHosts :: nat where
  "maxBatchFolderHosts = 500"

fun dedup_ids :: "string list \<Rightarrow> string list \<Rightarrow> string list" where
  "dedup_ids seen [] = []"
| "dedup_ids seen (h # hs) =
     (let t = trim_space h in
      if t = [] \<or> t \<in> set seen then dedup_ids seen hs else t # dedup_ids (t # seen) hs)"

definition no_account :: account where
  "no_account = blank_account"

definition handleSetHostFolderBatch ::
    "host_info list \<Rightarrow> account option \<Rightarrow> string list \<Rightarrow> string \<Rightarrow> folder_cfg \<Rightarrow> folder_cfg \<times> folder_reply" where
  "handleSetHostFolderBatch store me hostIDs folder c =
     (let ids = dedup_ids [] hostIDs; target = sanitizeFolderID folder;
          u = (case me of None \<Rightarrow> no_account | Some u \<Rightarrow> u) in
      if ids = [] \<or> maxBatchFolderHosts < length ids then (c, FolderBadRequest None)
      else if target \<noteq> [] \<and> target \<noteq> HostFolderUngroupedID \<and> findFolderNode (folders_of c) target = None
      then (c, FolderBadRequest None)
      else let denied = filter (\<lambda>h. \<not> userCanAccessHost c store u h) ids;
               missing = filter (\<lambda>h. userCanAccessHost c store u h \<and> GetHost store h = None) ids;
               applied = filter (\<lambda>h. userCanAccessHost c store u h \<and> GetHost store h \<noteq> None) ids
      in if applied = [] then
           (if denied \<noteq> [] \<and> missing = [] then (c, FolderForbidden) else (c, FolderBadRequest None))
         else case assignHostFoldersBatch applied target c of
                (c', Some e) \<Rightarrow> (c', FolderBadRequest (Some e))
              | (c', None) \<Rightarrow> (c', BatchDone applied missing denied))"

section \<open>Numbers of hosts in the tree\<close>

type_synonym counts = "nat \<times> nat"

definition bump :: "bool \<Rightarrow> counts \<Rightarrow> counts" where
  "bump online n = (fst n + 1, snd n + (if online then 1 else 0))"

text \<open>The loop over the hosts; a folder the tree does not have counts as ungrouped.\<close>

definition count_host :: "folder_cfg \<Rightarrow> int \<Rightarrow> int \<Rightarrow> counts go_map \<Rightarrow> host_info \<Rightarrow> counts go_map" where
  "count_host c now offlineAfter m h =
     (let f0 = get_or [] (assign_of c) (he_id h);
          f1 = (if f0 = [] then HostFolderUngroupedID else f0);
          f = (if map_of m f1 = None then HostFolderUngroupedID else f1)
      in AList.update f (bump (now - he_lastSeen h \<le> offlineAfter) (get_or (0, 0) m f)) m)"

definition init_counts :: "folder list \<Rightarrow> counts go_map" where
  "init_counts ts = foldl (\<lambda>m i. AList.update i (0, 0) m) [(HostFolderUngroupedID, (0, 0))] (subtree_ids ts)"

definition direct_counts :: "folder_cfg \<Rightarrow> int \<Rightarrow> int \<Rightarrow> host_info list \<Rightarrow> counts go_map" where
  "direct_counts c now offlineAfter hosts =
     foldl (count_host c now offlineAfter) (init_counts (folders_of c)) hosts"

definition add_counts :: "counts \<Rightarrow> counts \<Rightarrow> counts" where
  "add_counts a b = (fst a + fst b, snd a + snd b)"

text \<open>\<open>rollupNode\<close> on a list of siblings: the table with every folder's total, and the sum of them.\<close>

fun rollup :: "counts go_map \<Rightarrow> counts go_map \<Rightarrow> folder list \<Rightarrow> counts go_map \<times> counts" where
  "rollup direct m [] = (m, (0, 0))"
| "rollup direct m (Folder i n cs # rest) =
     (let (m1, below) = rollup direct m cs;
          own = add_counts (get_or (0, 0) direct i) below;
          (m2, others) = rollup direct (AList.update i own m1) rest
      in (m2, add_counts own others))"

record folder_view =
  fv_folders :: "folder list"
  fv_assign :: "string go_map"
  fv_paths :: "string go_map"
  fv_counts :: "counts go_map"

definition handleGetHostFolders ::
    "(string \<Rightarrow> string) \<Rightarrow> int \<Rightarrow> int \<Rightarrow> host_info list \<Rightarrow> folder_cfg \<Rightarrow> folder_cfg \<times> folder_view" where
  "handleGetHostFolders new now offlineAfter hosts c0 =
     (let c = fst (ensureHostFoldersMigrated new (map host_entry.truncate hosts) c0);
          direct = direct_counts c now offlineAfter hosts
      in (c, \<lparr>fv_folders = sortFolderTreeForDisplay (folders_of c), fv_assign = assign_of c,
              fv_paths = folderPathMap (folders_of c), fv_counts = fst (rollup direct direct (folders_of c))\<rparr>))"

section \<open>Descendants\<close>

abbreviation tree_edges :: "folder list \<Rightarrow> (string \<times> string) set" where
  "tree_edges ts \<equiv> set (edges [] ts)"

lemma edge_child: "(x, y) \<in> set (edges p ts) \<Longrightarrow> x \<in> set (subtree_ids ts)"
  by (metis ids_edges image_eqI fst_conv list.set_map)

lemma below_reach: "x \<in> set (subtree_ids ts) \<Longrightarrow> (x, p) \<in> (set (edges p ts))\<^sup>+"
proof (induction p ts rule: edges.induct)
  case (1 p)
  then show ?case by simp
next
  case (2 p i n cs rest)
  let ?E = "set (edges p (Folder i n cs # rest))"
  have sub: "set (edges i cs) \<subseteq> ?E" "set (edges p rest) \<subseteq> ?E" and top: "(i, p) \<in> ?E" by auto
  consider "x = i" | "x \<in> set (subtree_ids cs)" | "x \<in> set (subtree_ids rest)" using 2(3) by auto
  then show ?case
  proof cases
    case 1
    then show ?thesis using top by blast
  next
    case 2
    then have "(x, i) \<in> ?E\<^sup>+" using "2.IH"(1) sub(1) trancl_mono by blast
    then show ?thesis using top by (meson trancl.trancl_into_trancl)
  next
    case 3
    then show ?thesis using "2.IH"(2) sub(2) trancl_mono by blast
  qed
qed

lemma find_edges: "findFolderNode ts r = Some n \<Longrightarrow> set (edges r (hf_children n)) \<subseteq> set (edges p ts)"
proof (induction ts r arbitrary: p rule: findFolderNode.induct)
  case (1 x)
  then show ?case by simp
next
  case (2 i m cs rest x)
  consider "i = x" | "i \<noteq> x" "findFolderNode cs x = Some n" | "i \<noteq> x" "findFolderNode cs x = None" "findFolderNode rest x = Some n"
    using "2.prems" by (auto split: if_splits option.splits)
  then show ?case
  proof cases
    case 1
    then show ?thesis using "2.prems" by auto
  next
    case 2
    then show ?thesis using "2.IH"(1) [OF 2(1), of i] by auto
  next
    case 3
    then show ?thesis using "2.IH"(2) [OF 3(1,2), of p] by auto
  qed
qed

text \<open>An edge below a folder ends at a child of it, and lies inside every subtree its upper end lies in.\<close>

lemma edge_inside:
  "distinct (subtree_ids ts) \<Longrightarrow> p \<notin> set (subtree_ids ts) \<Longrightarrow> (x, y) \<in> set (edges p ts) \<Longrightarrow>
   findFolderNode ts r = Some n \<Longrightarrow> y = r \<or> y \<in> set (subtree_ids (hf_children n)) \<Longrightarrow>
   x \<in> set (subtree_ids (hf_children n))"
proof (induction p ts rule: edges.induct)
  case (1 p)
  then show ?case by simp
next
  case (2 p i m cs rest)
  have d: "distinct (subtree_ids cs)" "distinct (subtree_ids rest)" "i \<notin> set (subtree_ids cs)"
    "i \<notin> set (subtree_ids rest)" "set (subtree_ids cs) \<inter> set (subtree_ids rest) = {}" "p \<noteq> i"
    "p \<notin> set (subtree_ids cs)" "p \<notin> set (subtree_ids rest)" using "2.prems"(1,2) by auto
  have parents: "y' = q \<or> y' \<in> set (subtree_ids us)" if "(x', y') \<in> set (edges q us)" for q us x' y'
    using that by (induction q us rule: edges.induct) auto
  consider (here) "i = r" "n = Folder i m cs" | (below) "i \<noteq> r" "findFolderNode cs r = Some n"
    | (later) "i \<noteq> r" "findFolderNode cs r = None" "findFolderNode rest r = Some n"
    using "2.prems"(4) by (auto split: if_splits option.splits)
  then show ?case
  proof cases
    case here
    then have y: "y = i \<or> y \<in> set (subtree_ids cs)" using "2.prems"(5) by simp
    consider "(x, y) = (i, p)" | "(x, y) \<in> set (edges i cs)" | "(x, y) \<in> set (edges p rest)" using "2.prems"(3) by auto
    then show ?thesis
    proof cases
      case 1
      then show ?thesis using y d by auto
    next
      case 2
      then show ?thesis using here edge_child by simp
    next
      case 3
      then have "y = p \<or> y \<in> set (subtree_ids rest)" by (rule parents)
      then show ?thesis using y d by auto
    qed
  next
    case below
    have sub: "set (folderSubtreeIDs n) \<subseteq> set (subtree_ids cs)" using find_Some [OF below(2)] by blast
    then have y: "y \<in> set (subtree_ids cs)"
      using "2.prems"(5) find_Some [OF below(2)] by (auto simp: folderSubtreeIDs_def)
    have "(x, y) \<in> set (edges i cs)"
      using "2.prems"(3) y d parents [of x y p rest] by auto
    then show ?thesis using "2.IH"(1) [OF d(1,3) _ below(2) "2.prems"(5)] by blast
  next
    case later
    have sub: "set (folderSubtreeIDs n) \<subseteq> set (subtree_ids rest)" using find_Some [OF later(3)] by blast
    then have y: "y \<in> set (subtree_ids rest)"
      using "2.prems"(5) find_Some [OF later(3)] by (auto simp: folderSubtreeIDs_def)
    have "(x, y) \<in> set (edges p rest)"
      using "2.prems"(3) y d parents [of x y i cs] by auto
    then show ?thesis using "2.IH"(2) [OF d(2,8) _ later(3) "2.prems"(5)] by blast
  qed
qed

lemma descendants_iff:
  assumes wf: "well_formed_tree (folders_of c)" and r: "r \<noteq> []"
  shows "x \<in> set (FolderDescendantIDs c r) \<longleftrightarrow> (x, r) \<in> (tree_edges (folders_of c))\<^sup>+"
proof -
  let ?ts = "folders_of c"
  have d: "distinct (subtree_ids ?ts)" "[] \<notin> set (subtree_ids ?ts)"
    using wf by (simp_all add: well_formed_tree_def good_ids_def)
  have parents: "y = [] \<or> y \<in> set (subtree_ids ?ts)" if "(x', y) \<in> tree_edges ?ts" for x' y
  proof -
    have "y' = q \<or> y' \<in> set (subtree_ids us)" if "(x', y') \<in> set (edges q us)" for q us x' y'
      using that by (induction q us rule: edges.induct) auto
    then show ?thesis using that by blast
  qed
  show ?thesis
  proof (cases "findFolderNode ?ts r")
    case None
    then have nr: "r \<notin> set (subtree_ids ?ts)" by (simp add: find_None)
    have "(x, r) \<notin> (tree_edges ?ts)\<^sup>+"
    proof
      assume "(x, r) \<in> (tree_edges ?ts)\<^sup>+"
      then obtain z where "(z, r) \<in> tree_edges ?ts" by (meson tranclE)
      then show False using parents nr r by blast
    qed
    then show ?thesis using None by (simp add: FolderDescendantIDs_def)
  next
    case (Some n)
    have down: "x \<in> set (subtree_ids (hf_children n))" if "(x, r) \<in> (tree_edges ?ts)\<^sup>+"
      using that
    proof (induction rule: converse_trancl_induct)
      case (base y)
      then show ?case using edge_inside [OF d(1,2) base Some] by simp
    next
      case (step y z)
      then show ?case using edge_inside [OF d(1,2) step(1) Some] by simp
    qed
    have up: "(x, r) \<in> (tree_edges ?ts)\<^sup>+" if "x \<in> set (subtree_ids (hf_children n))"
      using below_reach [OF that, of r] find_edges [OF Some, of "[]"] trancl_mono by blast
    show ?thesis using down up Some by (auto simp: FolderDescendantIDs_def)
  qed
qed

lemma allowed_iff:
  assumes wf: "well_formed_tree (folders_of c)" and x: "x \<noteq> []"
  shows "x \<in> set (allowed_folders c u) \<longleftrightarrow>
    (\<exists>f\<in>set (ac_folders u). f \<noteq> [] \<and> (x, f) \<in> (tree_edges (folders_of c))\<^sup>*)"
proof -
  have "x \<in> set (f # FolderDescendantIDs c f) \<longleftrightarrow> f \<noteq> [] \<and> (x, f) \<in> (tree_edges (folders_of c))\<^sup>*" for f
  proof (cases "f = []")
    case True
    have "[] \<notin> set (subtree_ids (folders_of c))" using wf by (simp add: well_formed_tree_def good_ids_def)
    then have "FolderDescendantIDs c [] = []" using find_None [of "folders_of c" "[]"] by (simp add: FolderDescendantIDs_def)
    then show ?thesis using True x by simp
  next
    case False
    then show ?thesis using descendants_iff [OF wf False, of x] by (auto simp: rtrancl_eq_or_trancl)
  qed
  then show ?thesis by (auto simp: allowed_folders_def)
qed

section \<open>Counts\<close>

definition sum_counts :: "counts go_map \<Rightarrow> string list \<Rightarrow> counts" where
  "sum_counts m is = (sum_list (map (\<lambda>i. fst (get_or (0, 0) m i)) is), sum_list (map (\<lambda>i. snd (get_or (0, 0) m i)) is))"

lemma rollup_spec:
  "distinct (subtree_ids ts) \<Longrightarrow> rollup direct m ts = (m', s) \<Longrightarrow>
   s = sum_counts direct (subtree_ids ts) \<and>
   (\<forall>x n. findFolderNode ts x = Some n \<longrightarrow> map_of m' x = Some (sum_counts direct (folderSubtreeIDs n))) \<and>
   (\<forall>x. x \<notin> set (subtree_ids ts) \<longrightarrow> map_of m' x = map_of m x)"
proof (induction direct m ts arbitrary: m' s rule: rollup.induct)
  case (1 direct m)
  then show ?case by (simp add: sum_counts_def)
next
  case (2 direct m i n cs rest)
  obtain m1 below where a: "rollup direct m cs = (m1, below)" by (cases "rollup direct m cs")
  define own where "own = add_counts (get_or (0, 0) direct i) below"
  obtain m2 others where b: "rollup direct (AList.update i own m1) rest = (m2, others)"
    by (cases "rollup direct (AList.update i own m1) rest")
  have d: "distinct (subtree_ids cs)" "distinct (subtree_ids rest)" "i \<notin> set (subtree_ids cs)"
    "i \<notin> set (subtree_ids rest)" "set (subtree_ids cs) \<inter> set (subtree_ids rest) = {}" using "2.prems"(1) by auto
  note A = "2.IH"(1) [OF d(1) a]
  note B = "2.IH"(2) [OF a [symmetric] refl own_def d(2)]
  have B': "others = sum_counts direct (subtree_ids rest)"
    "\<And>x n. findFolderNode rest x = Some n \<Longrightarrow> map_of m2 x = Some (sum_counts direct (folderSubtreeIDs n))"
    "\<And>x. x \<notin> set (subtree_ids rest) \<Longrightarrow> map_of m2 x = map_of (AList.update i own m1) x"
    using B [OF b] by blast+
  have res: "m' = m2" "s = add_counts own others"
    using "2.prems"(2) a b by (simp_all add: own_def Let_def)
  have own: "own = sum_counts direct (i # subtree_ids cs)"
    using A by (simp add: own_def sum_counts_def add_counts_def)
  have "map_of m' x = Some (sum_counts direct (folderSubtreeIDs k))"
    if k: "findFolderNode (Folder i n cs # rest) x = Some k" for x k
  proof -
    consider (here) "i = x" "k = Folder i n cs" | (below) "i \<noteq> x" "findFolderNode cs x = Some k"
      | (later) "findFolderNode rest x = Some k" using k by (auto split: if_splits option.splits)
    then show ?thesis
    proof cases
      case here
      then show ?thesis using B'(3) [of x] d res own by (auto simp: update_conv' folderSubtreeIDs_def)
    next
      case below
      then have "x \<in> set (subtree_ids cs)" using find_None [of cs x] by auto
      then show ?thesis using below A B'(3) [of x] d res by (auto simp: update_conv')
    next
      case later
      then show ?thesis using B'(2) res by simp
    qed
  qed
  moreover have "map_of m' x = map_of m x" if "x \<notin> set (subtree_ids (Folder i n cs # rest))" for x
    using that A B'(3) [of x] res by (simp add: update_conv')
  moreover have "s = sum_counts direct (subtree_ids (Folder i n cs # rest))"
    using own B'(1) res by (simp add: sum_counts_def add_counts_def)
  ultimately show ?case by blast
qed

definition on_line :: "int \<Rightarrow> int \<Rightarrow> host_info \<Rightarrow> bool" where
  "on_line now offlineAfter h \<longleftrightarrow> now - he_lastSeen h \<le> offlineAfter"

definition in_folder :: "folder_cfg \<Rightarrow> string list \<Rightarrow> host_info \<Rightarrow> bool" where
  "in_folder c is h \<longleftrightarrow> get_or [] (assign_of c) (he_id h) \<in> set is"

lemma init_keys: "map_of (foldl (\<lambda>m i. AList.update i (0, 0) m) m is) x = (if x \<in> set is then Some (0, 0) else map_of m x)"
  by (induction "is" arbitrary: m) (simp_all add: update_conv')

lemma direct_spec:
  assumes wf: "well_formed_tree (folders_of c)" and i: "i \<in> set (subtree_ids (folders_of c))"
  shows "map_of (direct_counts c now off hosts) i =
    Some (length (filter (in_folder c [i]) hosts), length (filter (\<lambda>h. in_folder c [i] h \<and> on_line now off h) hosts))"
proof -
  have good: "i \<noteq> HostFolderUngroupedID" "i \<noteq> []" using wf i by (auto simp: well_formed_tree_def good_ids_def)
  have "map_of (direct_counts c now off hosts) i =
      Some (length (filter (in_folder c [i]) hosts), length (filter (\<lambda>h. in_folder c [i] h \<and> on_line now off h) hosts)) \<and>
    (\<forall>x\<in>set (subtree_ids (folders_of c)). map_of (direct_counts c now off hosts) x \<noteq> None)"
  proof (induction hosts rule: rev_induct)
    case Nil
    then show ?case using i by (simp add: direct_counts_def init_counts_def init_keys)
  next
    case (snoc h hosts)
    let ?m = "direct_counts c now off hosts" and ?f = "get_or [] (assign_of c) (he_id h)"
    have step: "direct_counts c now off (hosts @ [h]) = count_host c now off ?m h" by (simp add: direct_counts_def)
    have known: "\<forall>x\<in>set (subtree_ids (folders_of c)). map_of (count_host c now off ?m h) x \<noteq> None"
      using snoc by (auto simp: count_host_def Let_def update_conv')
    show ?case
    proof (cases "?f = i")
      case True
      then have "count_host c now off ?m h = AList.update i (bump (on_line now off h) (get_or (0, 0) ?m i)) ?m"
        using snoc i good by (auto simp: count_host_def Let_def on_line_def)
      then show ?thesis using True snoc known
        by (simp add: step update_conv' in_folder_def get_or_def bump_def)
    next
      case False
      then have "map_of (count_host c now off ?m h) i = map_of ?m i"
        using good by (auto simp: count_host_def Let_def update_conv')
      then show ?thesis using False snoc known by (simp add: step in_folder_def)
    qed
  qed
  then show ?thesis by blast
qed

lemma count_by_key:
  "distinct is \<Longrightarrow> sum_list (map (\<lambda>i. length (filter (\<lambda>h. g h = i \<and> P h) hs)) is) =
     length (filter (\<lambda>h. g h \<in> set is \<and> P h) hs)"
proof (induction hs)
  case Nil
  then show ?case by (simp add: sum_list_0)
next
  case (Cons h hs)
  have "sum_list (map (\<lambda>i. length (filter (\<lambda>h. g h = i \<and> P h) (h # hs))) is) =
      sum_list (map (\<lambda>i. if g h = i \<and> P h then 1 else 0) is) +
      sum_list (map (\<lambda>i. length (filter (\<lambda>h. g h = i \<and> P h) hs)) is)"
    by (induction "is") auto
  moreover have "sum_list (map (\<lambda>i. if g h = i \<and> P h then 1 else (0 :: nat)) is) = (if g h \<in> set is \<and> P h then 1 else 0)"
    using Cons.prems by (induction "is") auto
  ultimately show ?case using Cons by simp
qed

lemma in_folder_eq: "in_folder c [i] = (\<lambda>h. get_or [] (assign_of c) (he_id h) = i)"
  by (auto simp: in_folder_def)

lemma counts_spec:
  assumes wf: "well_formed_tree (folders_of c)" and n: "findFolderNode (folders_of c) x = Some n"
  shows "map_of (fst (rollup (direct_counts c now off hosts) (direct_counts c now off hosts) (folders_of c))) x =
    Some (length (filter (in_folder c (folderSubtreeIDs n)) hosts),
          length (filter (\<lambda>h. in_folder c (folderSubtreeIDs n) h \<and> on_line now off h) hosts))"
proof -
  let ?d = "direct_counts c now off hosts" and ?ids = "folderSubtreeIDs n"
  obtain m s where r: "rollup ?d ?d (folders_of c) = (m, s)" by (cases "rollup ?d ?d (folders_of c)")
  have d: "distinct (subtree_ids (folders_of c))" using wf by (simp add: well_formed_tree_def good_ids_def)
  have sub: "set ?ids \<subseteq> set (subtree_ids (folders_of c))" using find_Some [OF n] by blast
  have m: "map_of m x = Some (sum_counts ?d ?ids)" using rollup_spec [OF d r] n by blast
  have dist: "distinct ?ids"
  proof -
    have "distinct (subtree_ids ts) \<Longrightarrow> findFolderNode ts x = Some n \<Longrightarrow> distinct (folderSubtreeIDs n)" for ts
      by (induction ts x rule: findFolderNode.induct) (auto simp: folderSubtreeIDs_def split: if_splits option.splits)
    then show ?thesis using d n by blast
  qed
  have at: "get_or (0, 0) ?d i = (length (filter (in_folder c [i]) hosts),
      length (filter (\<lambda>h. in_folder c [i] h \<and> on_line now off h) hosts))" if "i \<in> set ?ids" for i
    using direct_spec [OF wf, of i now off hosts] that sub by (auto simp: get_or_def)
  have "sum_list (map (\<lambda>i. fst (get_or (0, 0) ?d i)) ?ids) =
      sum_list (map (\<lambda>i. length (filter (\<lambda>h. get_or [] (assign_of c) (he_id h) = i \<and> True) hosts)) ?ids)"
    using at by (intro arg_cong [of _ _ sum_list] map_cong) (auto simp: in_folder_eq)
  moreover have "sum_list (map (\<lambda>i. snd (get_or (0, 0) ?d i)) ?ids) =
      sum_list (map (\<lambda>i. length (filter (\<lambda>h. get_or [] (assign_of c) (he_id h) = i \<and> on_line now off h) hosts)) ?ids)"
    using at by (intro arg_cong [of _ _ sum_list] map_cong) (auto simp: in_folder_eq)
  ultimately show ?thesis
    using m r unfolding sum_counts_def count_by_key [OF dist] by (simp add: in_folder_def [abs_def])
qed

section \<open>Batches\<close>

lemma dedup_ids_set: "h \<in> set (dedup_ids seen hs) \<Longrightarrow> h \<in> trim_space ` set hs \<and> h \<noteq> []"
  by (induction seen hs rule: dedup_ids.induct) (auto simp: Let_def split: if_splits)

lemma dedup_ids_distinct: "distinct (dedup_ids seen hs) \<and> set (dedup_ids seen hs) \<inter> set seen = {}"
  by (induction seen hs rule: dedup_ids.induct) (auto simp: Let_def)

lemma put_hosts_assign:
  "map_of (assign_of (foldl (\<lambda>c h. put_host h f n c) c hs)) j = (if j \<in> set hs then Some f else map_of (assign_of c) j)"
  by (induction hs arbitrary: c) (auto simp: update_conv')

lemma batch_assign:
  "map_of (assign_of (fst (assignHostFoldersBatch hs f c))) j \<noteq> map_of (assign_of c) j \<Longrightarrow> j \<in> set hs"
  by (auto simp: assignHostFoldersBatch_def Let_def put_hosts_assign split: if_splits option.splits)

section \<open>Properties\<close>

text \<open>C13. An account reaches a host exactly when it is an administrator, has no scope, lists the host, lists a
  tag equal to the category of the known host (without regard to case and outer blanks), or lists a
  folder that is the folder of the known host or lies anywhere above it.\<close>

theorem host_access_exact:
  assumes "well_formed_tree (folders_of c)"
  shows "userCanAccessHost c store u h \<longleftrightarrow>
    admin_rank \<le> roleRank (ac_role u) \<or> \<not> hostScopeRestricted u \<or> h \<in> set (ac_hosts u) \<or>
    (\<exists>e. GetHost store h = Some e \<and>
      (tag_matches u e \<or>
       (\<exists>f g. f \<in> set (ac_folders u) \<and> f \<noteq> [] \<and> map_of (assign_of c) h = Some g \<and> g \<noteq> [] \<and>
          (g, f) \<in> (set (edges [] (folders_of c)))\<^sup>*)))"
proof (cases "admin_rank \<le> roleRank (ac_role u) \<or> \<not> hostScopeRestricted u \<or> h \<in> set (ac_hosts u) \<or> GetHost store h = None")
  case True
  then show ?thesis by (auto simp: userCanAccessHost_def hostAccessFor_def)
next
  case False
  then obtain e where e: "GetHost store h = Some e" by auto
  let ?g = "get_or [] (assign_of c) h"
  have eq: "userCanAccessHost c store u h \<longleftrightarrow>
      tag_matches u e \<or> ac_folders u \<noteq> [] \<and> ?g \<noteq> [] \<and> ?g \<in> set (allowed_folders c u)"
    using False e by (auto simp: userCanAccessHost_def hostAccessFor_def Let_def)
  have "ac_folders u \<noteq> [] \<and> ?g \<noteq> [] \<and> ?g \<in> set (allowed_folders c u) \<longleftrightarrow>
      (\<exists>f g. f \<in> set (ac_folders u) \<and> f \<noteq> [] \<and> map_of (assign_of c) h = Some g \<and> g \<noteq> [] \<and>
          (g, f) \<in> (tree_edges (folders_of c))\<^sup>*)"
  proof (cases "?g = []")
    case True
    then show ?thesis by (auto simp: get_or_def split: option.splits)
  next
    case g: False
    then have "map_of (assign_of c) h = Some ?g" by (auto simp: get_or_def split: option.splits)
    then show ?thesis using allowed_iff [OF assms g, of u] g by (auto simp: allowed_folders_def)
  qed
  then show ?thesis using False e eq by auto
qed

definition scoped_user :: account where
  "scoped_user = blank_account\<lparr>ac_username := ''op'', ac_role := ''operator'', ac_folders := [''a'']\<rparr>"

definition example_store :: "host_info list" where
  "example_store = [\<lparr>he_id = ''h1'', he_category = ''C'', he_lastSeen = 100\<rparr>,
     \<lparr>he_id = ''h2'', he_category = ''D'', he_lastSeen = 10\<rparr>]"

lemma wf_example: "well_formed_tree (folders_of example_cfg)"
  by (rule folders_invD(3) [OF inv_example])

theorem host_access_exact_witness:
  "userCanAccessHost example_cfg example_store scoped_user ''h1'' \<and>
   (\<exists>f g. f \<in> set (ac_folders scoped_user) \<and> map_of (assign_of example_cfg) ''h1'' = Some g \<and>
      (g, f) \<in> (set (edges [] (folders_of example_cfg)))\<^sup>*) \<and>
   \<not> userCanAccessHost example_cfg example_store scoped_user ''h2''"
proof -
  have y: "userCanAccessHost example_cfg example_store scoped_user ''h1''" by code_simp
  have n: "\<not> userCanAccessHost example_cfg example_store scoped_user ''h2''" by code_simp
  have "\<not> admin_rank \<le> roleRank (ac_role scoped_user)" "hostScopeRestricted scoped_user" "''h1'' \<notin> set (ac_hosts scoped_user)"
    "\<not> tag_matches scoped_user (the (GetHost example_store ''h1''))"
    by code_simp+
  then show ?thesis
    using y n host_access_exact [OF wf_example, of example_store scoped_user "''h1''"] by auto
qed

lemma folder_route: "routeAllowed ''PATCH'' (''/api/v1/host-folders/'' @ g) ''operator''"
proof -
  let ?p = "''/api/v1/host-folders/'' @ g"
  have "?p \<notin> set own_account" "?p \<notin> set config_writes" "\<not> has_prefix ?p ''/api/v1/auth/sso/identities/''"
    "\<not> is_user_admin ?p" "\<not> is_security ?p" "\<not> is_install_admin ''PATCH'' ?p"
    "\<not> has_prefix ?p ''/api/v1/sql/''" "\<not> has_prefix ?p ''/api/v1/cicd/''" "\<not> has_prefix ?p ''/api/v1/k8s/''"
    by (simp_all add: own_account_def config_writes_def is_user_admin_def is_security_def is_install_admin_def has_prefix_def)
  then show ?thesis by (simp add: routeAllowed_def ranks roleRank_def Let_def)
qed

text \<open>The route that moves folders asks for no right over them: an operator confined to a folder may call
  it for any folder, and once a folder is moved below the own one reaches every known host in it.\<close>

theorem folder_move_escalates:
  assumes wf: "well_formed_tree (folders_of c)" and f: "f \<in> set (ac_folders u)" "f \<noteq> []" "f \<noteq> HostFolderUngroupedID"
    and role: "ac_role u = ''operator''"
    and host: "GetHost store h = Some e" "map_of (assign_of c) h = Some g" "g \<noteq> []"
    and mv: "handlePatchHostFolder g [] (Some f) c = (c', FolderOk)" and id: "sanitizeFolderID f = f"
  shows "routeAllowed ''PATCH'' (''/api/v1/host-folders/'' @ g) (ac_role u) \<and> userCanAccessHost c' store u h"
proof -
  have m: "moveHostFolder g f c = (c', None)"
    using mv id by (auto simp: handlePatchHostFolder_def split: prod.splits option.splits)
  then obtain out where out: "moveFolderNode (folders_of c) g f = Inr out" "c' = c\<lparr>fc_folders := Some out\<rparr>"
    by (auto simp: moveHostFolder_def split: sum.splits)
  obtain old where k: "well_formed_tree out" "add_mset (g, old) (mset (edges [] out)) = add_mset (g, f) (mset (edges [] (folders_of c)))"
    "(g, old) \<in> set (edges [] (folders_of c))"
    using move_keeps [OF wf out(1) refl] f(3) by auto
  have "(g, f) \<in> set (edges [] out)"
  proof (cases "old = f")
    case True
    then show ?thesis using k(2,3) by (metis add_mset_add_mset_same_iff set_mset_mset)
  next
    case False
    then have "(g, f) \<in># add_mset (g, old) (mset (edges [] out))" unfolding k(2) by simp
    then show ?thesis using False by simp
  qed
  then have "(g, f) \<in> (set (edges [] (folders_of c')))\<^sup>*" using out(2) by auto
  moreover have "map_of (assign_of c') h = Some g" using out(2) host(2) by simp
  moreover have "well_formed_tree (folders_of c')" using k(1) out(2) by simp
  ultimately have acc: "userCanAccessHost c' store u h"
    using host(1,3) f(1,2) allowed_iff [of c' g u]
    by (auto simp: userCanAccessHost_def hostAccessFor_def Let_def get_or_def)
  then show ?thesis using role folder_route by simp
qed

theorem folder_move_escalates_witness:
  "\<not> userCanAccessHost example_cfg example_store scoped_user ''h2'' \<and>
   userCanAccessHost (fst (handlePatchHostFolder ''d'' [] (Some ''a'') example_cfg)) example_store scoped_user ''h2''"
proof -
  have n: "\<not> userCanAccessHost example_cfg example_store scoped_user ''h2''" by code_simp
  have f: "''a'' \<in> set (ac_folders scoped_user)" "''a'' \<noteq> []" "''a'' \<noteq> HostFolderUngroupedID"
    and r: "ac_role scoped_user = ''operator''"
    and h: "GetHost example_store ''h2'' = Some \<lparr>he_id = ''h2'', he_category = ''D'', he_lastSeen = 10\<rparr>"
      "map_of (assign_of example_cfg) ''h2'' = Some ''d''" "''d'' \<noteq> []"
    and i: "sanitizeFolderID ''a'' = ''a''"
    by code_simp+
  have m: "handlePatchHostFolder ''d'' [] (Some ''a'') example_cfg =
      (fst (handlePatchHostFolder ''d'' [] (Some ''a'') example_cfg), FolderOk)"
    by code_simp
  show ?thesis using folder_move_escalates [OF wf_example f r h m i] n by blast
qed

text \<open>The numbers shown at a folder count the hosts assigned to it or below it, and those of them that
  were heard of in time.\<close>

theorem folder_counts_exact:
  assumes "handleGetHostFolders new now off hosts c0 = (c, v)" and "folders_inv c0"
    and "folder_ok c0 (ListHosts new (map host_entry.truncate hosts))" and "findFolderNode (folders_of c) x = Some n"
  shows "map_of (fv_counts v) x =
    Some (length (filter (\<lambda>h. get_or [] (assign_of c) (he_id h) \<in> set (folderSubtreeIDs n)) hosts),
          length (filter (\<lambda>h. get_or [] (assign_of c) (he_id h) \<in> set (folderSubtreeIDs n) \<and>
                               now - he_lastSeen h \<le> off) hosts))"
proof -
  have c: "c = fst (ensureHostFoldersMigrated new (map host_entry.truncate hosts) c0)"
    and v: "fv_counts v = fst (rollup (direct_counts c now off hosts) (direct_counts c now off hosts) (folders_of c))"
    using assms(1) by (auto simp: handleGetHostFolders_def Let_def)
  have "folders_inv c" unfolding c by (rule Migrate_inv [OF assms(2,3)])
  then show ?thesis
    unfolding v by (simp add: counts_spec [OF folders_invD(3) assms(4)] in_folder_def [abs_def] on_line_def [abs_def])
qed

theorem folder_counts_exact_witness:
  "map_of (fv_counts (snd (handleGetHostFolders (\<lambda>k. ''hf-'' @ k) 100 60 example_store example_cfg))) ''a'' = Some (1, 1)"
proof -
  let ?r = "handleGetHostFolders (\<lambda>k. ''hf-'' @ k) 100 60 example_store example_cfg"
  have r: "?r = (fst ?r, snd ?r)" by simp
  have ok: "folder_ok example_cfg (ListHosts (\<lambda>k. ''hf-'' @ k) (map host_entry.truncate example_store))"
    by (auto simp: fresh_id_def inj_def example_cfg_def example_tree_def HostFolderUngroupedID_def folderSubtreeIDs_def)
  have n: "findFolderNode (folders_of (fst ?r)) ''a'' = Some (hd example_tree)" by code_simp
  show ?thesis unfolding folder_counts_exact [OF r inv_example ok n] by code_simp
qed

text \<open>A batch changes only hosts that were asked for, that the caller may access and that exist, and at
  most 500 of them; and it never leaves a host in a folder the tree does not have.\<close>

theorem batch_respects_scope:
  assumes "handleSetHostFolderBatch store me hostIDs folder c = (c', r)" and "folders_inv c"
    and "map_of (assign_of c') h \<noteq> map_of (assign_of c) h"
  shows "h \<in> trim_space ` set hostIDs \<and> GetHost store h \<noteq> None \<and>
    userCanAccessHost c store (case me of None \<Rightarrow> no_account | Some u \<Rightarrow> u) h \<and>
    card {h. map_of (assign_of c') h \<noteq> map_of (assign_of c) h} \<le> maxBatchFolderHosts \<and> folders_inv c'"
proof -
  let ?u = "case me of None \<Rightarrow> no_account | Some u \<Rightarrow> u" and ?ids = "dedup_ids [] hostIDs"
  let ?applied = "filter (\<lambda>h. userCanAccessHost c store ?u h \<and> GetHost store h \<noteq> None) ?ids"
  have c': "c' = fst (assignHostFoldersBatch ?applied (sanitizeFolderID folder) c)" and len: "length ?ids \<le> maxBatchFolderHosts"
    using assms(1,3) by (auto simp: handleSetHostFolderBatch_def Let_def split: if_splits prod.splits option.splits)
  have sub: "{h. map_of (assign_of c') h \<noteq> map_of (assign_of c) h} \<subseteq> set ?applied"
    unfolding c' using batch_assign by blast
  have "card {h. map_of (assign_of c') h \<noteq> map_of (assign_of c) h} \<le> card (set ?applied)"
    by (rule card_mono [OF _ sub]) simp
  also have "\<dots> \<le> length ?ids" by (meson card_length length_filter_le le_trans)
  finally have card: "card {h. map_of (assign_of c') h \<noteq> map_of (assign_of c) h} \<le> maxBatchFolderHosts" using len by simp
  have "h \<in> set ?applied" using sub assms(3) by blast
  then show ?thesis using card dedup_ids_set [of h "[]" hostIDs] Batch_inv [OF assms(2)] c' by simp
qed

theorem batch_respects_scope_witness:
  "handleSetHostFolderBatch example_store (Some scoped_user) [''h1'', ''h2'', ''h9''] ''a'' example_cfg =
     (fst (handleSetHostFolderBatch example_store (Some scoped_user) [''h1'', ''h2'', ''h9''] ''a'' example_cfg),
      BatchDone [''h1''] [] [''h2'', ''h9'']) \<and>
   userCanAccessHost example_cfg example_store scoped_user ''h1''"
proof -
  let ?r = "handleSetHostFolderBatch example_store (Some scoped_user) [''h1'', ''h2'', ''h9''] ''a'' example_cfg"
  have r: "?r = (fst ?r, BatchDone [''h1''] [] [''h2'', ''h9''])" by code_simp
  have h: "map_of (assign_of (fst ?r)) ''h1'' \<noteq> map_of (assign_of example_cfg) ''h1''" by code_simp
  show ?thesis using batch_respects_scope [OF r inv_example h] r by simp
qed

text \<open>A blank entry among the tags of an account gives it every known host without a category.\<close>

theorem blank_tag_grants:
  assumes "t \<in> set (ac_tags u)" and "trim_space t = []" and "GetHost store h = Some e" and "trim_space (he_category e) = []"
  shows "userCanAccessHost c store u h"
proof -
  have "tag_matches u e" unfolding tag_matches_def using assms(1,2,4) by (intro bexI [of _ t]) simp_all
  then show ?thesis using assms(3) by (simp add: userCanAccessHost_def hostAccessFor_def)
qed

theorem blank_tag_grants_witness:
  "userCanAccessHost example_cfg [\<lparr>he_id = ''h5'', he_category = [], he_lastSeen = 0\<rparr>]
     (blank_account\<lparr>ac_role := ''viewer'', ac_tags := ['' '']\<rparr>) ''h5''"
  by (rule blank_tag_grants [where t = "'' ''" and e = "\<lparr>he_id = ''h5'', he_category = [], he_lastSeen = 0\<rparr>"]; code_simp)

end
