(* ===== verification/VmBreaker.thy ===== *)
theory VmBreaker
  imports Transition
begin

text \<open>
  The circuit breaker in front of VictoriaMetrics (\<open>cmd/server/vm_breaker.go\<close>). Times are nanoseconds; the
  zero time is \<^term>\<open>None :: 'a option\<close>. A method of a nil breaker is the case \<^term>\<open>None :: 'a option\<close> of the
  breaker. The HTTP request is not modelled beyond its outcome; between the admission of a request and
  its report other requests run, so the two halves of \<open>doVMWithBreaker\<close> are steps of a relation whose
  states list the requests in flight, with the time they were let through.
\<close>

section \<open>The breaker\<close>

record breaker =
  br_failures :: int
  br_openUntil :: "int option"
  br_threshold :: int
  br_coolDown :: int
  br_probe :: bool

definition second :: int where
  "second = 1000000000"

text \<open>A positive number in an environment variable, or the default.\<close>

definition env_positive :: "string \<Rightarrow> int \<Rightarrow> int" where
  "env_positive v d =
     (let s = trim_space v in
      if s = [] then d else case parse_int 10 s of None \<Rightarrow> d | Some n \<Rightarrow> if 0 < n then n else d)"

text \<open>A product of \<open>time.Duration\<close> wraps at 64 bits.\<close>

definition wrap64 :: "int \<Rightarrow> int" where
  "wrap64 n = (n + 2 ^ 63) mod 2 ^ 64 - 2 ^ 63"

definition newVMCircuitBreaker :: "string \<Rightarrow> string \<Rightarrow> breaker" where
  "newVMCircuitBreaker threshold coolDown =
     \<lparr>br_failures = 0, br_openUntil = None, br_threshold = env_positive threshold 5,
      br_coolDown = wrap64 (env_positive coolDown 30 * second), br_probe = False\<rparr>"

definition vmQueryTimeout :: "string \<Rightarrow> int" where
  "vmQueryTimeout v = wrap64 (env_positive v 15 * second)"

definition still_open :: "int \<Rightarrow> breaker \<Rightarrow> bool" where
  "still_open now b \<longleftrightarrow> (case br_openUntil b of None \<Rightarrow> False | Some u \<Rightarrow> now < u)"

definition breaker_state :: "int \<Rightarrow> breaker option \<Rightarrow> string" where
  "breaker_state now b0 =
     (case b0 of None \<Rightarrow> ''disabled''
      | Some b \<Rightarrow> if br_openUntil b \<noteq> None \<and> still_open now b then ''open''
                  else if br_probe b then ''half-open''
                  else if 0 < br_failures b then ''closed(degraded)'' else ''closed'')"

definition breaker_allow :: "int \<Rightarrow> breaker option \<Rightarrow> breaker option \<times> bool" where
  "breaker_allow now b0 =
     (case b0 of None \<Rightarrow> (None, True)
      | Some b \<Rightarrow>
          if still_open now b then (Some b, False)
          else if br_openUntil b \<noteq> None then
            (if br_probe b then (Some b, False) else (Some (b\<lparr>br_probe := True\<rparr>), True))
          else (Some b, True))"

definition breaker_success :: "breaker option \<Rightarrow> breaker option" where
  "breaker_success = map_option (\<lambda>b. b\<lparr>br_failures := 0, br_probe := False, br_openUntil := None\<rparr>)"

definition breaker_failure :: "int \<Rightarrow> breaker option \<Rightarrow> breaker option" where
  "breaker_failure now = map_option (\<lambda>b.
     if br_probe b then b\<lparr>br_probe := False, br_openUntil := Some (now + br_coolDown b), br_failures := 0\<rparr>
     else let b1 = b\<lparr>br_failures := br_failures b + 1\<rparr> in
          if br_threshold b \<le> br_failures b1
          then b1\<lparr>br_openUntil := Some (now + br_coolDown b), br_failures := 0\<rparr> else b1)"

section \<open>A request\<close>

datatype http_outcome = DoError | Status int

datatype vm_result = CircuitOpen | RequestError | Response int

definition report :: "int \<Rightarrow> http_outcome \<Rightarrow> breaker option \<Rightarrow> breaker option \<times> vm_result" where
  "report now out b =
     (case out of
        DoError \<Rightarrow> (breaker_failure now b, RequestError)
      | Status n \<Rightarrow> if 500 \<le> n then (breaker_failure now b, Response n) else (breaker_success b, Response n))"

text \<open>A request with no other one between its two halves, admitted at \<open>t0\<close> and answered at \<open>t1\<close>.\<close>

definition doVMWithBreaker :: "int \<Rightarrow> int \<Rightarrow> http_outcome \<Rightarrow> breaker option \<Rightarrow> breaker option \<times> vm_result" where
  "doVMWithBreaker t0 t1 out b =
     (case breaker_allow t0 b of
        (b1, False) \<Rightarrow> (b1, CircuitOpen)
      | (b1, True) \<Rightarrow> report t1 out b1)"

text \<open>Ingest and queries have a breaker each.\<close>

record vm_writer =
  vm_breaker :: "breaker option"
  vm_readBreaker :: "breaker option"

definition doVMRequest :: "int \<Rightarrow> int \<Rightarrow> http_outcome \<Rightarrow> vm_writer \<Rightarrow> vm_writer \<times> vm_result" where
  "doVMRequest t0 t1 out v = (case doVMWithBreaker t0 t1 out (vm_breaker v) of (b, r) \<Rightarrow> (v\<lparr>vm_breaker := b\<rparr>, r))"

definition doVMQuery :: "int \<Rightarrow> int \<Rightarrow> http_outcome \<Rightarrow> vm_writer \<Rightarrow> vm_writer \<times> vm_result" where
  "doVMQuery t0 t1 out v = (case doVMWithBreaker t0 t1 out (vm_readBreaker v) of (b, r) \<Rightarrow> (v\<lparr>vm_readBreaker := b\<rparr>, r))"

section \<open>Concurrent requests\<close>

text \<open>A request in flight is its id, the time of its admission and whether the breaker was tripped then,
  which makes it a probe.\<close>

record vm_sys =
  vs_breaker :: breaker
  vs_now :: int
  vs_flight :: "(nat \<times> int \<times> bool) list"

datatype vm_event = Enter nat bool | Finish nat http_outcome | Pass int

text \<open>\<open>tmo\<close> is the timeout of the request's context: time does not pass a request beyond it.\<close>

inductive vm_step :: "int \<Rightarrow> vm_sys \<Rightarrow> vm_event \<Rightarrow> vm_sys \<Rightarrow> bool" for tmo :: int where
  enter: "breaker_allow (vs_now s) (Some (vs_breaker s)) = (Some b, ok) \<Longrightarrow> i \<notin> fst ` set (vs_flight s) \<Longrightarrow>
    vm_step tmo s (Enter i ok)
      (s\<lparr>vs_breaker := b,
         vs_flight := (if ok then (i, vs_now s, br_openUntil (vs_breaker s) \<noteq> None) # vs_flight s else vs_flight s)\<rparr>)"
| finish: "i \<in> fst ` set (vs_flight s) \<Longrightarrow> report (vs_now s) out (Some (vs_breaker s)) = (Some b, r) \<Longrightarrow>
    vm_step tmo s (Finish i out) (s\<lparr>vs_breaker := b, vs_flight := filter (\<lambda>q. fst q \<noteq> i) (vs_flight s)\<rparr>)"
| pass: "0 \<le> d \<Longrightarrow> \<forall>q\<in>set (vs_flight s). vs_now s + d \<le> fst (snd q) + tmo \<Longrightarrow>
    vm_step tmo s (Pass d) (s\<lparr>vs_now := vs_now s + d\<rparr>)"

inductive vm_steps :: "int \<Rightarrow> vm_sys \<Rightarrow> vm_event list \<Rightarrow> vm_sys \<Rightarrow> bool" for tmo :: int where
  refl: "vm_steps tmo s [] s"
| step: "vm_step tmo s e s' \<Longrightarrow> vm_steps tmo s' es s'' \<Longrightarrow> vm_steps tmo s (e # es) s''"

inductive_cases vm_stepE: "vm_step tmo s e s'"
inductive_simps vm_step_enter: "vm_step tmo s (Enter i ok) s'"
inductive_simps vm_step_finish: "vm_step tmo s (Finish i out) s'"
inductive_simps vm_step_pass: "vm_step tmo s (Pass d) s'"
inductive_simps vm_steps_simps: "vm_steps tmo s [] s'" "vm_steps tmo s (e # es) s'"

definition vm_start :: "breaker \<Rightarrow> int \<Rightarrow> vm_sys" where
  "vm_start b now = \<lparr>vs_breaker = b, vs_now = now, vs_flight = []\<rparr>"

definition probes :: "vm_sys \<Rightarrow> (nat \<times> int \<times> bool) list" where
  "probes s = filter (\<lambda>q. snd (snd q)) (vs_flight s)"

section \<open>The abstract breaker\<close>

text \<open>What the comments promise: closed and counting, open until a time, or half open with one probe out.\<close>

datatype mode = Closed int | Open int int | HalfOpen

fun mode_allow :: "int \<Rightarrow> mode \<Rightarrow> mode \<times> bool" where
  "mode_allow now (Closed n) = (Closed n, True)"
| "mode_allow now (Open u n) = (if now < u then (Open u n, False) else (HalfOpen, True))"
| "mode_allow now HalfOpen = (HalfOpen, False)"

fun mode_failure :: "int \<Rightarrow> int \<Rightarrow> int \<Rightarrow> mode \<Rightarrow> mode" where
  "mode_failure th cd now (Closed n) = (if th \<le> n + 1 then Open (now + cd) 0 else Closed (n + 1))"
| "mode_failure th cd now (Open u n) = (if th \<le> n + 1 then Open (now + cd) 0 else Open u (n + 1))"
| "mode_failure th cd now HalfOpen = Open (now + cd) 0"

definition mode_of :: "breaker \<Rightarrow> mode" where
  "mode_of b = (case br_openUntil b of None \<Rightarrow> Closed (br_failures b)
     | Some u \<Rightarrow> if br_probe b then HalfOpen else Open u (br_failures b))"

datatype breaker_op = Allow int | Succeeded | Failed int

fun breaker_step :: "breaker \<Rightarrow> breaker_op \<Rightarrow> breaker" where
  "breaker_step b (Allow now) = the (fst (breaker_allow now (Some b)))"
| "breaker_step b Succeeded = the (breaker_success (Some b))"
| "breaker_step b (Failed now) = the (breaker_failure now (Some b))"

fun mode_step :: "int \<Rightarrow> int \<Rightarrow> mode \<Rightarrow> breaker_op \<Rightarrow> mode" where
  "mode_step th cd m (Allow now) = fst (mode_allow now m)"
| "mode_step th cd m Succeeded = Closed 0"
| "mode_step th cd m (Failed now) = mode_failure th cd now m"

definition breaker_inv :: "int \<Rightarrow> int \<Rightarrow> breaker \<Rightarrow> bool" where
  "breaker_inv th cd b \<longleftrightarrow> (br_probe b \<longrightarrow> br_openUntil b \<noteq> None) \<and>
     0 \<le> br_failures b \<and> br_failures b < br_threshold b \<and> br_threshold b = th \<and> br_coolDown b = cd"

lemma breaker_inv_new:
  "breaker_inv (br_threshold (newVMCircuitBreaker th cd)) (br_coolDown (newVMCircuitBreaker th cd)) (newVMCircuitBreaker th cd)"
  by (auto simp: breaker_inv_def newVMCircuitBreaker_def env_positive_def Let_def split: option.split)

lemma allow_refines:
  "breaker_inv th cd b \<Longrightarrow> breaker_allow now (Some b) = (Some b', ok) \<Longrightarrow>
   mode_allow now (mode_of b) = (mode_of b', ok) \<and> breaker_inv th cd b'"
  by (auto simp: breaker_allow_def still_open_def mode_of_def breaker_inv_def split: if_splits option.splits)

lemma failure_refines:
  "breaker_inv th cd b \<Longrightarrow> breaker_failure now (Some b) = Some b' \<Longrightarrow>
   mode_of b' = mode_failure th cd now (mode_of b) \<and> breaker_inv th cd b'"
  by (auto simp: breaker_failure_def mode_of_def breaker_inv_def Let_def split: if_splits option.splits)

lemma success_refines:
  "breaker_inv th cd b \<Longrightarrow> breaker_success (Some b) = Some b' \<Longrightarrow> mode_of b' = Closed 0 \<and> breaker_inv th cd b'"
  by (auto simp: breaker_success_def mode_of_def breaker_inv_def)

lemma allow_Some: "\<exists>b' ok. breaker_allow now (Some b) = (Some b', ok)"
  by (auto simp: breaker_allow_def)

lemma breaker_step_refines:
  assumes "breaker_inv th cd b"
  shows "mode_of (breaker_step b op) = mode_step th cd (mode_of b) op \<and> breaker_inv th cd (breaker_step b op)"
proof (cases op)
  case (Allow now)
  obtain b' ok where a: "breaker_allow now (Some b) = (Some b', ok)" using allow_Some by blast
  then show ?thesis using Allow allow_refines [OF assms a] by simp
next
  case Succeeded
  then show ?thesis using success_refines [OF assms, of "the (breaker_success (Some b))"]
    by (simp add: breaker_success_def)
next
  case (Failed now)
  then show ?thesis using failure_refines [OF assms, of now "the (breaker_failure now (Some b))"]
    by (simp add: breaker_failure_def)
qed

interpretation breaker_machine: guarded_machine
    "newVMCircuitBreaker th cd" breaker_step
    "breaker_inv (br_threshold (newVMCircuitBreaker th cd)) (br_coolDown (newVMCircuitBreaker th cd))"
  for th cd
  by unfold_locales (rule breaker_inv_new, simp add: breaker_step_refines)

lemma run_refines:
  "breaker_inv th cd b \<Longrightarrow> mode_of (run breaker_step b ops) = run (mode_step th cd) (mode_of b) ops"
  by (induction ops arbitrary: b) (simp_all add: breaker_step_refines)

section \<open>One probe\<close>

text \<open>While the breaker is tripped and a probe is out, nothing else is in flight; while it is tripped and no
  probe is out, what is in flight was admitted before the last trip.\<close>

definition flight_inv :: "int \<Rightarrow> int \<Rightarrow> vm_sys \<Rightarrow> bool" where
  "flight_inv tmo cd s \<longleftrightarrow>
     br_coolDown (vs_breaker s) = cd \<and> (br_probe (vs_breaker s) \<longrightarrow> br_openUntil (vs_breaker s) \<noteq> None) \<and>
     (\<forall>q\<in>set (vs_flight s). fst (snd q) \<le> vs_now s \<and> vs_now s \<le> fst (snd q) + tmo) \<and>
     (br_openUntil (vs_breaker s) = None \<longrightarrow> probes s = []) \<and>
     (\<forall>u. br_openUntil (vs_breaker s) = Some u \<longrightarrow>
        (if br_probe (vs_breaker s) then \<exists>i t. vs_flight s = [(i, t, True)]
         else probes s = [] \<and> (\<forall>q\<in>set (vs_flight s). fst (snd q) \<le> u - cd)))"

lemma flight_inv_enter:
  assumes tmo: "0 < tmo" "tmo < cd" and inv: "flight_inv tmo cd s"
    and a: "breaker_allow (vs_now s) (Some (vs_breaker s)) = (Some b, ok)"
  shows "flight_inv tmo cd (s\<lparr>vs_breaker := b,
    vs_flight := (if ok then (i, vs_now s, br_openUntil (vs_breaker s) \<noteq> None) # vs_flight s else vs_flight s)\<rparr>)"
proof -
  consider (refused) "\<not> ok" "b = vs_breaker s" | (closed) "ok" "b = vs_breaker s" "br_openUntil (vs_breaker s) = None"
    | (probe) u where "ok" "b = (vs_breaker s)\<lparr>br_probe := True\<rparr>" "br_openUntil (vs_breaker s) = Some u" "u \<le> vs_now s"
        "\<not> br_probe (vs_breaker s)"
    using a by (auto simp: breaker_allow_def still_open_def split: if_splits option.splits)
  then show ?thesis
  proof cases
    case refused
    then show ?thesis using inv by simp
  next
    case closed
    then show ?thesis using inv tmo(1) by (auto simp: flight_inv_def probes_def)
  next
    case probe
    have "vs_flight s = []"
    proof (rule ccontr)
      assume "vs_flight s \<noteq> []"
      then obtain q where q: "q \<in> set (vs_flight s)" by (meson last_in_set)
      then have "fst (snd q) \<le> u - cd" "vs_now s \<le> fst (snd q) + tmo" using inv probe by (auto simp: flight_inv_def)
      then show False using tmo(2) probe(4) by simp
    qed
    then show ?thesis using inv probe tmo(1) by (auto simp: flight_inv_def probes_def)
  qed
qed

lemma report_cases:
  assumes "report now out (Some b) = (Some b', r)"
  obtains (good) "b' = b\<lparr>br_failures := 0, br_probe := False, br_openUntil := None\<rparr>"
  | (reopen) "b' = b\<lparr>br_probe := False, br_openUntil := Some (now + br_coolDown b), br_failures := 0\<rparr>"
  | (counted) "\<not> br_probe b" "b' = b\<lparr>br_failures := br_failures b + 1\<rparr>"
proof -
  have "b' = b\<lparr>br_failures := 0, br_probe := False, br_openUntil := None\<rparr> \<or>
      b' = b\<lparr>br_probe := False, br_openUntil := Some (now + br_coolDown b), br_failures := 0\<rparr> \<or>
      \<not> br_probe b \<and> b' = b\<lparr>br_failures := br_failures b + 1\<rparr>"
    using assms by (cases b) (auto simp: report_def breaker_success_def breaker_failure_def Let_def split: http_outcome.splits if_splits)
  then show thesis using good reopen counted by blast
qed

lemma flight_inv_finish:
  assumes inv: "flight_inv tmo cd s" and i: "i \<in> fst ` set (vs_flight s)"
    and r: "report (vs_now s) out (Some (vs_breaker s)) = (Some b, res)"
  shows "flight_inv tmo cd (s\<lparr>vs_breaker := b, vs_flight := filter (\<lambda>q. fst q \<noteq> i) (vs_flight s)\<rparr>)"
proof (cases "br_probe (vs_breaker s)")
  case True
  then obtain j t where "vs_flight s = [(j, t, True)]" using inv by (auto simp: flight_inv_def)
  then have "filter (\<lambda>q. fst q \<noteq> i) (vs_flight s) = []" using i by auto
  then show ?thesis using inv True by (cases rule: report_cases [OF r]) (auto simp: flight_inv_def probes_def)
next
  case False
  then have none: "probes s = []" using inv by (cases "br_openUntil (vs_breaker s)") (auto simp: flight_inv_def)
  then have "filter (\<lambda>q. snd (snd q)) (filter (\<lambda>q. fst q \<noteq> i) (vs_flight s)) = []"
    by (auto simp: probes_def filter_empty_conv)
  then show ?thesis using inv False by (cases rule: report_cases [OF r]) (auto simp: flight_inv_def probes_def)
qed

lemma flight_inv_step:
  assumes "0 < tmo" "tmo < cd" and "vm_step tmo s e s'" and "flight_inv tmo cd s"
  shows "flight_inv tmo cd s'"
  using assms(3,4)
proof (cases rule: vm_step.cases)
  case (enter b ok i)
  then show ?thesis using flight_inv_enter [OF assms(1,2,4)] by simp
next
  case (finish i out b r)
  then show ?thesis using flight_inv_finish [OF assms(4)] by simp
next
  case (pass d)
  then show ?thesis using assms(4) by (auto simp: flight_inv_def probes_def)
qed

lemma vm_steps_inv:
  assumes "\<And>s e s'. vm_step tmo s e s' \<Longrightarrow> P s \<Longrightarrow> P s'" and "vm_steps tmo s es s'" and "P s"
  shows "P s'"
  using assms(2,3) by (induction rule: vm_steps.induct) (auto intro: assms(1))

text \<open>The flag of the probe never outlives the requests in flight.\<close>

definition probe_flies :: "vm_sys \<Rightarrow> bool" where
  "probe_flies s \<longleftrightarrow> (br_probe (vs_breaker s) \<longrightarrow> vs_flight s \<noteq> [])"

lemma probe_flies_step:
  assumes "vm_step tmo s e s'" and "probe_flies s"
  shows "probe_flies s'"
  using assms
proof (cases rule: vm_step.cases)
  case (enter b ok i)
  then show ?thesis using assms(2) by (auto simp: probe_flies_def breaker_allow_def split: if_splits)
next
  case (finish i out b r)
  then have "\<not> br_probe b" by (cases rule: report_cases [OF finish(4)]) simp_all
  then show ?thesis using finish by (simp add: probe_flies_def)
next
  case (pass d)
  then show ?thesis using assms(2) by (simp add: probe_flies_def)
qed

section \<open>Properties\<close>

text \<open>C30. The breaker implements the machine of its comments: closed and counting failures, open for the
  cool-down after the threshold, half open with one probe out. Over every sequence of calls and reports
  the two stand in the same mode and give the next caller the same answer.\<close>

theorem breaker_refinement:
  "let b = newVMCircuitBreaker th cd; r = run breaker_step b ops;
       m = run (mode_step (br_threshold b) (br_coolDown b)) (Closed 0) ops
   in mode_of r = m \<and> snd (breaker_allow now (Some r)) = snd (mode_allow now m)"
proof -
  let ?b = "newVMCircuitBreaker th cd"
  have m: "mode_of ?b = Closed 0" by (simp add: mode_of_def newVMCircuitBreaker_def)
  obtain b' ok where a: "breaker_allow now (Some (run breaker_step ?b ops)) = (Some b', ok)" using allow_Some by blast
  show ?thesis
    using run_refines [OF breaker_inv_new, of th cd ops] m a allow_refines [OF breaker_machine.inv_run a]
    by (simp add: Let_def)
qed

text \<open>When requests time out before the cool-down ends (15 and 30 seconds by default), at most one probe
  is in flight, whatever requests were under way when the breaker tripped, and while a probe is out no
  other request is.\<close>

theorem single_probe_in_flight:
  assumes "0 < tmo" and "tmo < br_coolDown b" and "b = newVMCircuitBreaker th cd"
    and "vm_steps tmo (vm_start b t0) es s"
  shows "length (probes s) \<le> 1 \<and> (br_probe (vs_breaker s) \<longrightarrow> vs_flight s = probes s)"
proof -
  have start: "flight_inv tmo (br_coolDown b) (vm_start b t0)"
    by (simp add: flight_inv_def vm_start_def assms(3) newVMCircuitBreaker_def probes_def)
  have "flight_inv tmo (br_coolDown b) s"
    by (rule vm_steps_inv [where P = "flight_inv tmo (br_coolDown b)", OF _ assms(4) start])
      (rule flight_inv_step [OF assms(1,2)])
  then show ?thesis
    by (cases "br_openUntil (vs_breaker s)") (auto simp: flight_inv_def probes_def split: if_splits)
qed

text \<open>A run by name of request and outcome, for the examples: one failure trips this breaker.\<close>

definition quick_breaker :: breaker where
  "quick_breaker = newVMCircuitBreaker ''1'' ''10''"

lemma quick_breaker: "quick_breaker =
    \<lparr>br_failures = 0, br_openUntil = None, br_threshold = 1, br_coolDown = 10000000000, br_probe = False\<rparr>"
proof -
  have "env_positive ''1'' 5 = 1" "env_positive ''10'' 30 = 10"
    by (simp_all add: env_positive_def parse_int_def trim_space_def is_space_def digit_val_def Let_def)
  then show ?thesis by (simp add: quick_breaker_def newVMCircuitBreaker_def wrap64_def second_def)
qed

lemmas vm_step_simps = vm_steps_simps vm_step_enter vm_step_finish vm_step_pass breaker_allow_def still_open_def
  report_def breaker_failure_def breaker_success_def vm_start_def quick_breaker probes_def Let_def

definition probe_run :: "vm_event list" where
  "probe_run = [Enter 7 True, Finish 7 DoError, Pass 10000000000, Enter 8 True, Enter 9 False]"

definition probe_end :: vm_sys where
  "probe_end = \<lparr>vs_breaker = quick_breaker\<lparr>br_openUntil := Some 10000000000, br_probe := True\<rparr>,
     vs_now = 10000000000, vs_flight = [(8, 10000000000, True)]\<rparr>"

lemma probe_run: "vm_steps 5000000000 (vm_start quick_breaker 0) probe_run probe_end"
  by (auto simp: probe_run_def probe_end_def vm_step_simps)

theorem single_probe_in_flight_witness:
  "length (probes probe_end) \<le> 1 \<and> probes probe_end = [(8, 10000000000, True)] \<and> vs_flight probe_end = probes probe_end"
proof -
  have "probes probe_end = [(8, 10000000000, True)]" "br_probe (vs_breaker probe_end)"
    by (simp_all add: probe_end_def probes_def)
  then show ?thesis
    using single_probe_in_flight [OF _ _ quick_breaker_def probe_run] by (simp add: quick_breaker)
qed

text \<open>With a cool-down shorter than the timeout, which the two environment variables allow, a request from
  before the trip can report in place of the probe, and two probes are in flight at once.\<close>

theorem short_cooldown_two_probes:
  "\<exists>es s. vm_steps (15 * second) (vm_start quick_breaker 0) es s \<and> length (probes s) = 2"
proof -
  let ?es = "[Enter 7 True, Enter 8 True, Finish 7 DoError, Pass 10000000000, Enter 9 True, Finish 8 DoError,
    Pass 10000000000, Enter 10 True]"
  let ?s = "\<lparr>vs_breaker = quick_breaker\<lparr>br_openUntil := Some 20000000000, br_probe := True\<rparr>,
     vs_now = 20000000000, vs_flight = [(10, 20000000000, True), (9, 10000000000, True)]\<rparr>"
  have "vm_steps (15 * second) (vm_start quick_breaker 0) ?es ?s"
    by (auto simp: vm_step_simps second_def)
  then show ?thesis by (intro exI [of _ ?es] exI [of _ ?s]) (simp add: probes_def)
qed

text \<open>A tripped breaker never stays tripped for want of a probe: once the requests in flight have
  reported, waiting for the end of the cool-down lets the next caller through, and its success closes
  the breaker.\<close>

theorem breaker_recovers:
  assumes "vm_steps tmo (vm_start (newVMCircuitBreaker th cd) t0) es s" and "vs_flight s = []"
  shows "\<exists>d s'. vm_steps tmo s [Pass d, Enter 0 True, Finish 0 (Status 200)] s' \<and>
    mode_of (vs_breaker s') = Closed 0 \<and> vs_flight s' = []"
proof -
  have start: "probe_flies (vm_start (newVMCircuitBreaker th cd) t0)"
    by (simp add: probe_flies_def vm_start_def newVMCircuitBreaker_def)
  have "probe_flies s"
    by (rule vm_steps_inv [where P = probe_flies, OF probe_flies_step assms(1) start])
  then have idle: "\<not> br_probe (vs_breaker s)" using assms(2) by (simp add: probe_flies_def)
  let ?d = "case br_openUntil (vs_breaker s) of None \<Rightarrow> 0 | Some u \<Rightarrow> max 0 (u - vs_now s)"
  let ?s' = "s\<lparr>vs_breaker := (vs_breaker s)\<lparr>br_failures := 0, br_probe := False, br_openUntil := None\<rparr>,
    vs_now := vs_now s + ?d, vs_flight := []\<rparr>"
  have "vm_steps tmo s [Pass ?d, Enter 0 True, Finish 0 (Status 200)] ?s'"
    using idle assms(2)
    by (cases "br_openUntil (vs_breaker s)")
      (simp_all add: vm_steps_simps vm_step_enter vm_step_finish vm_step_pass breaker_allow_def still_open_def report_def
        breaker_success_def)
  then show ?thesis by (intro exI [of _ ?d] exI [of _ ?s']) (simp add: mode_of_def)
qed

theorem breaker_recovers_witness:
  "\<exists>d s'. vm_steps 5 (vm_start quick_breaker 0) [Pass d, Enter 0 True, Finish 0 (Status 200)] s' \<and>
    mode_of (vs_breaker s') = Closed 0 \<and> vs_flight s' = []"
  unfolding quick_breaker_def by (rule breaker_recovers [OF vm_steps.refl]) (simp add: vm_start_def)

end
