(* ===== verification/ApiRateLimit.thy ===== *)
theory ApiRateLimit
  imports AuthCore
begin

text \<open>
  The global rate limit of the API (\<open>cmd/server/api_ratelimit.go\<close>): a sliding window per account or, for
  requests without a session, per address. Times are seconds. The reference keeps every request it
  ever let through; the limiter, which forgets old times and drops idle keys when it holds more than
  10000 of them, gives the same answers. The code reads the clock before it takes the lock; a call is one step
  here, so the calls count as made in the order of their readings, which two calls of the same moment can swap.
\<close>

section \<open>The limiter\<close>

definition apiRateWindowSec :: int where "apiRateWindowSec = 60"
definition apiRateMaxAnonPerIP :: nat where "apiRateMaxAnonPerIP = 300"
definition apiRateMaxAuthPerUser :: nat where "apiRateMaxAuthPerUser = 1800"
definition apiRateRetryAfterSec :: nat where "apiRateRetryAfterSec = 5"

type_synonym rate_table = "int list go_map"

definition newAPIRateLimiter :: rate_table where
  "newAPIRateLimiter = []"

definition effective_max :: "int \<Rightarrow> nat" where
  "effective_max mx = (if mx \<le> 0 then apiRateMaxAnonPerIP else nat mx)"

definition prune_idle :: "int \<Rightarrow> rate_table \<Rightarrow> rate_table" where
  "prune_idle old m =
     (if 10000 < length m then filter (\<lambda>e. \<not> (snd e = [] \<or> last (snd e) < old)) m else m)"

definition rate_allow :: "int \<Rightarrow> string \<Rightarrow> int \<Rightarrow> rate_table \<Rightarrow> rate_table \<times> bool" where
  "rate_allow now key mx m =
     (if key = [] then (m, True)
      else let old = now - apiRateWindowSec; arr = filter (\<lambda>t. old < t) (get_or [] m key) in
      if effective_max mx \<le> length arr then (AList.update key arr m, False)
      else (prune_idle old (AList.update key (arr @ [now]) m), True))"

section \<open>Requests\<close>

definition apiRateLimitSkip :: "string \<Rightarrow> bool" where
  "apiRateLimitSkip p \<longleftrightarrow>
     p = ''/healthz'' \<or> p = ''/'' \<or> has_prefix p ''/dl/'' \<or> has_prefix p ''/js/'' \<or> has_prefix p ''/css/'' \<or>
     has_prefix p ''/api/v1/agent/'' \<or>
     p = ''/api/v1/prom/write'' \<or> p = ''/api/v1/mcp'' \<or> p = ''/api/v1/integrations/content-audit'' \<or>
     has_prefix p ''/proxy/'' \<or> \<not> has_prefix p ''/api/''"

text \<open>\<open>user\<close> is what \<open>userForRequest\<close> resolves the cookie to.\<close>

definition apiRateBucket :: "string \<Rightarrow> string \<Rightarrow> string \<times> nat" where
  "apiRateBucket ip user0 =
     (let user = to_lower (trim_space user0) in
      if user \<noteq> [] then (''u:'' @ user, apiRateMaxAuthPerUser) else (''ip:'' @ ip, apiRateMaxAnonPerIP))"

datatype rate_reply = Next | TooManyRequests nat

record api_request =
  ar_time :: int
  ar_path :: string
  ar_ip :: string
  ar_cookie :: "string option"

definition apiRateLimitMiddleware ::
    "(string \<Rightarrow> string) \<Rightarrow> auth \<Rightarrow> api_request \<Rightarrow> rate_table \<Rightarrow> rate_table \<times> rate_reply" where
  "apiRateLimitMiddleware hkey a r m =
     (if apiRateLimitSkip (ar_path r) then (m, Next)
      else let (key, mx) = apiRateBucket (ar_ip r) (userForRequest hkey (ar_time r) (ar_cookie r) a) in
      case rate_allow (ar_time r) key (int mx) m of
        (m', True) \<Rightarrow> (m', Next) | (m', False) \<Rightarrow> (m', TooManyRequests apiRateRetryAfterSec))"

section \<open>The reference\<close>

text \<open>A call is its time, key and limit; the log lists the calls let through.\<close>

type_synonym rate_call = "int \<times> string \<times> int"

definition recent :: "int \<Rightarrow> string \<Rightarrow> (string \<times> int) list \<Rightarrow> int list" where
  "recent old key log = filter (\<lambda>t. old < t) (map snd (filter (\<lambda>e. fst e = key) log))"

fun reference :: "(string \<times> int) list \<Rightarrow> rate_call list \<Rightarrow> bool list" where
  "reference log [] = []"
| "reference log ((now, key, mx) # es) =
     (let ok = (key = [] \<or> length (recent (now - apiRateWindowSec) key log) < effective_max mx)
      in ok # reference (if ok \<and> key \<noteq> [] then log @ [(key, now)] else log) es)"

fun answers :: "rate_table \<Rightarrow> rate_call list \<Rightarrow> bool list" where
  "answers m [] = []"
| "answers m ((now, key, mx) # es) = (case rate_allow now key mx m of (m', ok) \<Rightarrow> ok # answers m' es)"

definition rate_inv :: "int \<Rightarrow> (string \<times> int) list \<Rightarrow> rate_table \<Rightarrow> bool" where
  "rate_inv now log m \<longleftrightarrow> keys_distinct m \<and>
     (\<forall>k. sorted (get_or [] m k) \<and> (\<forall>t\<in>set (get_or [] m k). t \<le> now)) \<and>
     (\<forall>k. \<forall>c \<ge> now - apiRateWindowSec. filter (\<lambda>t. c < t) (get_or [] m k) = recent c k log)"

lemma recent_later: "c \<le> d \<Longrightarrow> filter (\<lambda>t. d < t) (recent c k log) = recent d k log"
  unfolding recent_def by (induction log) auto

lemma rate_inv_later: "rate_inv now log m \<Longrightarrow> now \<le> t \<Longrightarrow> rate_inv t log m"
  by (fastforce simp: rate_inv_def)

lemma sorted_le_last: "sorted v \<Longrightarrow> (t :: int) \<in> set v \<Longrightarrow> t \<le> last v"
  by (induction v) auto

lemma prune_lookup:
  assumes "keys_distinct m" and "\<forall>k. sorted (get_or [] m k)" and "old \<le> c"
  shows "filter (\<lambda>t. c < t) (get_or [] (prune_idle old m) k) = filter (\<lambda>t. c < t) (get_or [] m k)"
proof (cases "10000 < length m \<and> (\<exists>v. map_of m k = Some v \<and> (v = [] \<or> last v < old))")
  case False
  then show ?thesis
    using assms(1) by (auto simp: prune_idle_def get_or_def map_of_filter split: option.splits)
next
  case True
  then obtain v where v: "map_of m k = Some v" "v = [] \<or> last v < old" by blast
  have "sorted v" using assms(2) v(1) by (metis get_or_def option.simps(5))
  have "t \<le> last v" if "t \<in> set v" for t
    by (rule sorted_le_last [OF \<open>sorted v\<close> that])
  then have "filter (\<lambda>t. c < t) v = []" using v(2) assms(3) by (fastforce simp: filter_empty_conv)
  then show ?thesis using True v assms(1) by (auto simp: prune_idle_def get_or_def map_of_filter)
qed

lemma prune_keeps:
  assumes "keys_distinct m" and "\<forall>k. sorted (get_or [] m k) \<and> (\<forall>t\<in>set (get_or [] m k). t \<le> now)"
  shows "keys_distinct (prune_idle old m)"
    and "sorted (get_or [] (prune_idle old m) k) \<and> (\<forall>t\<in>set (get_or [] (prune_idle old m) k). t \<le> now)"
proof -
  show "keys_distinct (prune_idle old m)" using assms(1) by (simp add: prune_idle_def)
  have "get_or [] (prune_idle old m) k = get_or [] m k \<or> get_or [] (prune_idle old m) k = []"
    using assms(1) by (auto simp: prune_idle_def get_or_def map_of_filter split: option.splits)
  then show "sorted (get_or [] (prune_idle old m) k) \<and> (\<forall>t\<in>set (get_or [] (prune_idle old m) k). t \<le> now)"
    using assms(2) by auto
qed

lemma rate_allow_inv:
  assumes inv: "rate_inv now log m" and key: "key \<noteq> []" and r: "rate_allow now key mx m = (m', ok)"
  shows "ok \<longleftrightarrow> length (recent (now - apiRateWindowSec) key log) < effective_max mx"
    and "rate_inv now (if ok then log @ [(key, now)] else log) m'"
proof -
  define old where "old = now - apiRateWindowSec"
  define arr where "arr = filter (\<lambda>t. old < t) (get_or [] m key)"
  have d: "keys_distinct m" and s: "\<And>k. sorted (get_or [] m k)" "\<And>k t. t \<in> set (get_or [] m k) \<Longrightarrow> t \<le> now"
    and h: "\<And>k c. old \<le> c \<Longrightarrow> filter (\<lambda>t. c < t) (get_or [] m k) = recent c k log"
    using inv by (auto simp: rate_inv_def old_def)
  have arr: "arr = recent old key log" unfolding arr_def by (rule h) simp
  have eq: "rate_allow now key mx m =
      (if effective_max mx \<le> length arr then (AList.update key arr m, False)
       else (prune_idle old (AList.update key (arr @ [now]) m), True))"
    using key by (simp add: rate_allow_def Let_def old_def arr_def)
  show ok: "ok \<longleftrightarrow> length (recent (now - apiRateWindowSec) key log) < effective_max mx"
    using r eq arr by (auto simp: old_def split: if_splits)
  have arr_s: "sorted arr" "\<forall>t\<in>set arr. t \<le> now" using s(1) [of key] s(2) [of _ key] by (auto simp: arr_def sorted_wrt_filter)
  have arr_c: "filter (\<lambda>t. c < t) arr = recent c key log" if "old \<le> c" for c
    using that unfolding arr by (rule recent_later)
  show "rate_inv now (if ok then log @ [(key, now)] else log) m'"
  proof (cases ok)
    case False
    then have m': "m' = AList.update key arr m" using r eq by (auto split: if_splits)
    have g: "get_or [] m' k = (if k = key then arr else get_or [] m k)" for k by (simp add: m' get_or_update)
    have "keys_distinct m'" using d by (simp add: m' distinct_update)
    then show ?thesis using False s h arr_s arr_c by (auto simp: rate_inv_def g old_def)
  next
    case True
    let ?m1 = "AList.update key (arr @ [now]) m"
    have m': "m' = prune_idle old ?m1" using r eq True by (auto split: if_splits)
    have g: "get_or [] ?m1 k = (if k = key then arr @ [now] else get_or [] m k)" for k by (simp add: get_or_update)
    have d1: "keys_distinct ?m1" using d by (simp add: distinct_update)
    have s1: "\<forall>k. sorted (get_or [] ?m1 k) \<and> (\<forall>t\<in>set (get_or [] ?m1 k). t \<le> now)"
      using s arr_s by (auto simp: g sorted_append)
    have "filter (\<lambda>t. c < t) (get_or [] m' k) = recent c k (log @ [(key, now)])" if c: "old \<le> c" for c k
    proof -
      have "filter (\<lambda>t. c < t) (get_or [] m' k) = filter (\<lambda>t. c < t) (get_or [] ?m1 k)"
        unfolding m' by (rule prune_lookup [OF d1 _ c]) (use s1 in blast)
      then show ?thesis using arr_c [OF c] h [OF c] by (simp add: g recent_def)
    qed
    then show ?thesis using True prune_keeps [OF d1 s1] by (simp add: rate_inv_def m' old_def)
  qed
qed

lemma answers_reference:
  "rate_inv t log m \<Longrightarrow> sorted (map fst es) \<Longrightarrow> \<forall>e\<in>set es. t \<le> fst e \<Longrightarrow> answers m es = reference log es"
proof (induction es arbitrary: t log m)
  case Nil
  then show ?case by simp
next
  case (Cons e es)
  obtain now key mx where e: "e = (now, key, mx)" by (cases e)
  obtain m' ok where r: "rate_allow now key mx m = (m', ok)" by (cases "rate_allow now key mx m")
  have inv: "rate_inv now log m" by (rule rate_inv_later [OF Cons.prems(1)]) (use Cons.prems(3) e in simp)
  have rest: "sorted (map fst es)" "\<forall>e\<in>set es. now \<le> fst e" using Cons.prems(2) e by auto
  show ?case
  proof (cases "key = []")
    case True
    then have "m' = m" "ok" using r by (simp_all add: rate_allow_def)
    then show ?thesis using Cons.IH [OF inv rest] True r e by simp
  next
    case False
    note A = rate_allow_inv [OF inv False r]
    show ?thesis using Cons.IH [OF A(2) rest] A(1) r e False by (simp add: Let_def)
  qed
qed

lemma rate_inv_start: "rate_inv t [] newAPIRateLimiter"
  by (simp add: rate_inv_def newAPIRateLimiter_def get_or_def recent_def)

lemma answers_exact:
  assumes "sorted (map fst es)"
  shows "answers newAPIRateLimiter es = reference [] es"
proof (cases es)
  case Nil
  then show ?thesis by simp
next
  case (Cons e es')
  show ?thesis
    by (rule answers_reference [OF rate_inv_start assms, of "fst e"]) (use assms Cons in auto)
qed

section \<open>Windows\<close>

text \<open>The times at which calls with a key were let through, seen from a run.\<close>

fun passed_times :: "string \<Rightarrow> rate_call list \<Rightarrow> bool list \<Rightarrow> int list" where
  "passed_times k ((now, key, mx) # es) (ok # oks) =
     (if ok \<and> key = k then now # passed_times k es oks else passed_times k es oks)"
| "passed_times k _ _ = []"

lemma reference_window:
  assumes "k \<noteq> []" and "\<forall>e\<in>set es. fst (snd e) = k \<longrightarrow> effective_max (snd (snd e)) \<le> L" and "sorted (map fst es)"
    and "\<forall>e\<in>set es. \<forall>x\<in>set (recent u k log). x \<le> fst e"
    and "length (filter (\<lambda>x. u < x \<and> x \<le> u + apiRateWindowSec) (recent u k log)) \<le> L"
  shows "length (filter (\<lambda>x. u < x \<and> x \<le> u + apiRateWindowSec)
    (recent u k log @ passed_times k es (reference log es))) \<le> L"
  using assms
proof (induction es arbitrary: log)
  case Nil
  then show ?case by simp
next
  case (Cons e es)
  obtain now key mx where e: "e = (now, key, mx)" by (cases e)
  define ok where "ok = (key = [] \<or> length (recent (now - apiRateWindowSec) key log) < effective_max mx)"
  define log' where "log' = (if ok \<and> key \<noteq> [] then log @ [(key, now)] else log)"
  have ref: "reference log (e # es) = ok # reference log' es" by (simp add: e ok_def log'_def Let_def)
  have rec: "recent u k log' = recent u k log @ (if ok \<and> key = k \<and> u < now then [now] else [])"
    using Cons.prems(1) by (auto simp: log'_def recent_def)
  have order: "\<forall>e\<in>set es. \<forall>x\<in>set (recent u k log'). x \<le> fst e"
  proof (intro ballI)
    fix d x assume "d \<in> set es" "x \<in> set (recent u k log')"
    then show "x \<le> fst d" using Cons.prems(3,4) unfolding rec e by (auto split: if_splits)
  qed
  have few: "length (filter (\<lambda>x. u < x \<and> x \<le> u + apiRateWindowSec) (recent u k log')) \<le> L"
  proof (cases "ok \<and> key = k \<and> u < now \<and> now \<le> u + apiRateWindowSec")
    case False
    then show ?thesis using Cons.prems(5) unfolding rec by auto
  next
    case True
    have "length (recent u k log) \<le> length (recent (now - apiRateWindowSec) k log)"
      using True unfolding recent_def by (induction log) auto
    also have "\<dots> < effective_max mx" using True Cons.prems(1) unfolding ok_def by auto
    also have "\<dots> \<le> L" using Cons.prems(2) True by (simp add: e)
    finally have "length (recent u k log) < L" .
    then have "length (filter (\<lambda>x. u < x \<and> x \<le> u + apiRateWindowSec) (recent u k log)) < L"
      by (meson length_filter_le order_le_less_trans)
    then show ?thesis using True unfolding rec by simp
  qed
  have IH: "length (filter (\<lambda>x. u < x \<and> x \<le> u + apiRateWindowSec)
      (recent u k log' @ passed_times k es (reference log' es))) \<le> L"
    by (rule Cons.IH [OF Cons.prems(1) _ _ order few]) (use Cons.prems(2,3) in auto)
  then show ?case unfolding ref rec by (auto simp: e split: if_splits)
qed

section \<open>Properties\<close>

text \<open>C31. With a clock that does not go back, the limiter lets a call through exactly when fewer than its
  maximum of calls with the same key were let through in the last 60 seconds; neither the calls of other
  keys nor the dropping of idle keys ever changes an answer.\<close>

theorem rate_limit_exact:
  assumes "sorted (map fst es)"
  shows "answers newAPIRateLimiter es = reference [] es"
  using assms by (rule answers_exact)

theorem rate_limit_exact_witness:
  "answers newAPIRateLimiter [(0, ''a'', 1), (30, ''a'', 1), (40, ''b'', 1), (60, ''a'', 1)] = [True, False, True, True]"
proof -
  have "answers newAPIRateLimiter [(0, ''a'', 1), (30, ''a'', 1), (40, ''b'', 1), (60, ''a'', 1)] =
      reference [] [(0, ''a'', 1), (30, ''a'', 1), (40, ''b'', 1), (60, ''a'', 1)]"
    by (rule rate_limit_exact) simp
  then show ?thesis by (simp add: recent_def effective_max_def apiRateWindowSec_def)
qed

text \<open>Requests to limited paths as calls of the limiter, and the requests of a run let through.\<close>

definition call_of :: "(string \<Rightarrow> string) \<Rightarrow> auth \<Rightarrow> api_request \<Rightarrow> rate_call" where
  "call_of hkey a r =
     (case apiRateBucket (ar_ip r) (userForRequest hkey (ar_time r) (ar_cookie r) a) of
        (key, mx) \<Rightarrow> (ar_time r, key, int mx))"

fun served :: "(string \<Rightarrow> string) \<Rightarrow> auth \<Rightarrow> rate_table \<Rightarrow> api_request list \<Rightarrow> api_request list" where
  "served hkey a m [] = []"
| "served hkey a m (r # rs) =
     (case apiRateLimitMiddleware hkey a r m of
        (m', Next) \<Rightarrow> r # served hkey a m' rs
      | (m', TooManyRequests _) \<Rightarrow> served hkey a m' rs)"

definition limited :: "api_request \<Rightarrow> bool" where
  "limited r \<longleftrightarrow> \<not> apiRateLimitSkip (ar_path r)"

definition bucket_key :: "(string \<Rightarrow> string) \<Rightarrow> auth \<Rightarrow> api_request \<Rightarrow> string" where
  "bucket_key hkey a r = fst (snd (call_of hkey a r))"

lemma served_passed:
  "map ar_time (filter (\<lambda>r. limited r \<and> bucket_key hkey a r = k) (served hkey a m rs)) =
     passed_times k (map (call_of hkey a) (filter limited rs)) (answers m (map (call_of hkey a) (filter limited rs)))"
proof (induction rs arbitrary: m)
  case Nil
  then show ?case by simp
next
  case (Cons r rs)
  show ?case
  proof (cases "limited r")
    case False
    then show ?thesis using Cons by (simp add: apiRateLimitMiddleware_def limited_def)
  next
    case True
    obtain key mx where b: "apiRateBucket (ar_ip r) (userForRequest hkey (ar_time r) (ar_cookie r) a) = (key, mx)"
      by (cases "apiRateBucket (ar_ip r) (userForRequest hkey (ar_time r) (ar_cookie r) a)")
    obtain m' ok where ra: "rate_allow (ar_time r) key (int mx) m = (m', ok)"
      by (cases "rate_allow (ar_time r) key (int mx) m")
    have c: "call_of hkey a r = (ar_time r, key, int mx)" by (simp add: call_of_def b)
    show ?thesis
      using Cons True b ra c by (cases ok) (simp_all add: apiRateLimitMiddleware_def limited_def bucket_key_def)
  qed
qed

lemma bucket_max:
  "apiRateBucket ip user = (key, mx) \<Longrightarrow> key \<noteq> [] \<and> effective_max (int mx) \<le> apiRateMaxAuthPerUser \<and>
     (take 3 key = ''ip:'' \<longrightarrow> effective_max (int mx) \<le> apiRateMaxAnonPerIP)"
  by (auto simp: apiRateBucket_def effective_max_def apiRateMaxAuthPerUser_def apiRateMaxAnonPerIP_def Let_def
    split: if_splits)

text \<open>In every window of 60 seconds at most 1800 requests of one account, and at most 300 requests without
  a session from one address, get past the limit on a limited path.\<close>

theorem api_window_bound:
  assumes "sorted (map ar_time rs)" and "k \<noteq> []"
  shows "length (filter (\<lambda>r. limited r \<and> bucket_key hkey a r = k \<and> u < ar_time r \<and> ar_time r \<le> u + 60)
      (served hkey a newAPIRateLimiter rs)) \<le> (if take 3 k = ''ip:'' then 300 else 1800)"
proof -
  let ?es = "map (call_of hkey a) (filter limited rs)" and ?L = "if take 3 k = ''ip:'' then 300 else 1800 :: nat"
  have times: "map fst ?es = map ar_time (filter limited rs)"
    by (simp add: call_of_def comp_def split: prod.split)
  have "sorted (map ar_time (filter limited rs))" using assms(1) by (simp add: sorted_filter)
  then have s: "sorted (map fst ?es)" by (simp only: times)
  have mx: "\<forall>e\<in>set ?es. fst (snd e) = k \<longrightarrow> effective_max (snd (snd e)) \<le> ?L"
  proof (intro ballI impI)
    fix e assume "e \<in> set ?es" and k: "fst (snd e) = k"
    then obtain r where r: "e = call_of hkey a r" by auto
    obtain key m where b: "apiRateBucket (ar_ip r) (userForRequest hkey (ar_time r) (ar_cookie r) a) = (key, m)"
      by (cases "apiRateBucket (ar_ip r) (userForRequest hkey (ar_time r) (ar_cookie r) a)")
    show "effective_max (snd (snd e)) \<le> ?L"
      using bucket_max [OF b] k r b by (auto simp: call_of_def apiRateMaxAuthPerUser_def apiRateMaxAnonPerIP_def)
  qed
  have "length (filter (\<lambda>x. u < x \<and> x \<le> u + apiRateWindowSec) (recent u k [] @ passed_times k ?es (reference [] ?es))) \<le> ?L"
    by (rule reference_window [OF assms(2) mx s]) (simp_all add: recent_def)
  then have "length (filter (\<lambda>x. u < x \<and> x \<le> u + 60)
      (map ar_time (filter (\<lambda>r. limited r \<and> bucket_key hkey a r = k) (served hkey a newAPIRateLimiter rs)))) \<le> ?L"
    unfolding served_passed answers_exact [OF s] by (simp add: recent_def apiRateWindowSec_def)
  then show ?thesis by (simp add: filter_map comp_def conj_assoc)
qed

theorem api_window_bound_witness:
  "length (filter (\<lambda>r. limited r \<and> bucket_key id NewAuth r = ''ip:9'' \<and> 0 < ar_time r \<and> ar_time r \<le> 0 + 60)
     (served id NewAuth newAPIRateLimiter
       (replicate 400 \<lparr>ar_time = 5, ar_path = ''/api/v1/me'', ar_ip = ''9'', ar_cookie = None\<rparr>))) \<le> 300"
  using api_window_bound [of "replicate 400 \<lparr>ar_time = 5, ar_path = ''/api/v1/me'', ar_ip = ''9'', ar_cookie = None\<rparr>" "''ip:9''"
    id NewAuth 0] by (simp add: map_replicate_const)

end
