(* ===== verification/RegexMatch.thy ===== *)
theory RegexMatch
  imports GoPrelude
begin

text \<open>
  A matcher for the regular expressions the sources compile with package \<open>regexp\<close>: literals, character
  classes, \<open>\b\<close>, \<open>$\<close>, sequence, choice and greedy repetition. \<open>ends\<close> lists where the matches that begin at a
  position end, the preferred one first, as the leftmost-first rule of the package wants it; \<open>span\<close> says
  without an order which stretches of a text match, and the two agree (\<open>ends_span\<close>). Texts are byte
  strings; the only \<open>.\<close> in use stands before an ASCII character, where counting bytes or code points makes
  no difference.
\<close>

section \<open>Expressions\<close>

datatype char_class =
    SpaceClass | AnyClass | LetterClass | NameStart | WordClass | AnyChar | DigitClass | IdentClass | NotClose

datatype re = Str string | One char_class | WordB | EndT | Cat re re | Alt re re | Star re

definition code :: "char \<Rightarrow> nat" where
  "code c = of_char c"

definition letter_code :: "nat \<Rightarrow> bool" where
  "letter_code n \<longleftrightarrow> 65 \<le> n \<and> n \<le> 90 \<or> 97 \<le> n \<and> n \<le> 122"

definition word_char :: "char \<Rightarrow> bool" where
  "word_char c \<longleftrightarrow> letter_code (code c) \<or> 48 \<le> code c \<and> code c \<le> 57 \<or> code c = 95"

fun in_class :: "char_class \<Rightarrow> char \<Rightarrow> bool" where
  "in_class SpaceClass c \<longleftrightarrow> code c \<in> {9, 10, 12, 13, 32}"
| "in_class AnyClass c \<longleftrightarrow> code c \<noteq> 10"
| "in_class LetterClass c \<longleftrightarrow> letter_code (code c)"
| "in_class NameStart c \<longleftrightarrow> letter_code (code c) \<or> code c = 95"
| "in_class WordClass c \<longleftrightarrow> word_char c"
| "in_class AnyChar c \<longleftrightarrow> True"
| "in_class DigitClass c \<longleftrightarrow> 48 \<le> code c \<and> code c \<le> 57"
| "in_class IdentClass c \<longleftrightarrow>
     97 \<le> code c \<and> code c \<le> 122 \<or> 48 \<le> code c \<and> code c \<le> 57 \<or> code c \<in> {95, 36, 46}"
| "in_class NotClose c \<longleftrightarrow> code c \<noteq> 41"

definition word_at :: "string \<Rightarrow> nat \<Rightarrow> bool" where
  "word_at s i \<longleftrightarrow> i < length s \<and> word_char (s ! i)"

definition boundary :: "string \<Rightarrow> nat \<Rightarrow> bool" where
  "boundary s i \<longleftrightarrow> (0 < i \<and> word_at s (i - 1)) \<noteq> word_at s i"

text \<open>One or more, at most one, and a sequence.\<close>

definition plus_re :: "re \<Rightarrow> re" where
  "plus_re r = Cat r (Star r)"

definition opt_re :: "re \<Rightarrow> re" where
  "opt_re r = Alt r (Str [])"

fun seq_re :: "re list \<Rightarrow> re" where
  "seq_re [] = Str []"
| "seq_re [r] = r"
| "seq_re (r # rs) = Cat r (seq_re rs)"

fun alt_re :: "re list \<Rightarrow> re" where
  "alt_re [] = Str []"
| "alt_re [r] = r"
| "alt_re (r # rs) = Alt r (alt_re rs)"

text \<open>
  Under the flag \<open>i\<close> a letter stands for its two cases, and Unicode folds two more characters onto \<open>k\<close> and
  \<open>s\<close>: the sign of the kelvin (U+212A) and the long s (U+017F).
\<close>

definition upper_char :: "char \<Rightarrow> char" where
  "upper_char c = (if 97 \<le> code c \<and> code c \<le> 122 then char_of (code c - 32) else c)"

definition kelvin :: string where
  "kelvin = [char_of (226 :: nat), char_of (132 :: nat), char_of (170 :: nat)]"

definition long_s :: string where
  "long_s = [char_of (197 :: nat), char_of (191 :: nat)]"

definition fold_forms :: "char \<Rightarrow> string list" where
  "fold_forms c =
     [c] # (if upper_char c \<noteq> c then [[upper_char c]] else []) @
     (if c = CHR ''k'' then [kelvin] else []) @ (if c = CHR ''s'' then [long_s] else [])"

definition fold_char :: "char \<Rightarrow> re" where
  "fold_char c = alt_re (map Str (fold_forms c))"

definition fold_word :: "string \<Rightarrow> re" where
  "fold_word w = seq_re (map fold_char w)"

definition fold_letter :: re where
  "fold_letter = alt_re [One LetterClass, Str kelvin, Str long_s]"

section \<open>Matching\<close>

primrec star_ends :: "(nat \<Rightarrow> nat list) \<Rightarrow> nat \<Rightarrow> nat \<Rightarrow> nat list" where
  "star_ends f 0 i = [i]"
| "star_ends f (Suc n) i = concat (map (star_ends f n) (filter (\<lambda>j. i < j) (f i))) @ [i]"

primrec ends :: "re \<Rightarrow> string \<Rightarrow> nat \<Rightarrow> nat list" where
  "ends (Str w) s i = (if has_prefix (drop i s) w then [i + length w] else [])"
| "ends (One k) s i = (if i < length s \<and> in_class k (s ! i) then [Suc i] else [])"
| "ends WordB s i = (if boundary s i then [i] else [])"
| "ends EndT s i = (if i = length s then [i] else [])"
| "ends (Cat p q) s i = concat (map (ends q s) (ends p s i))"
| "ends (Alt p q) s i = ends p s i @ ends q s i"
| "ends (Star p) s i = star_ends (ends p s) (length s - i) i"

definition re_match :: "re \<Rightarrow> string \<Rightarrow> bool" where
  "re_match r s \<longleftrightarrow> (\<exists>i\<in>set [0..<Suc (length s)]. ends r s i \<noteq> [])"

text \<open>The first match at or after a position, as the positions where it begins and ends.\<close>

definition re_find :: "re \<Rightarrow> string \<Rightarrow> nat \<Rightarrow> (nat \<times> nat) option" where
  "re_find r s i =
     (case filter (\<lambda>a. ends r s a \<noteq> []) [i..<Suc (length s)] of
        [] \<Rightarrow> None
      | a # _ \<Rightarrow> Some (a, hd (ends r s a)))"

text \<open>\<open>FindAllString\<close> and \<open>ReplaceAllStringFunc\<close>, for an expression that matches no empty text.\<close>

function find_all :: "re \<Rightarrow> string \<Rightarrow> nat \<Rightarrow> string list" where
  "find_all r s i =
     (case re_find r s i of
        None \<Rightarrow> []
      | Some (a, b) \<Rightarrow> if i < b \<and> b \<le> length s then take (b - a) (drop a s) # find_all r s b else [])"
  by pat_completeness auto
termination by (relation "measure (\<lambda>(r, s, i). length s - i)") auto

function replace_from :: "re \<Rightarrow> (string \<Rightarrow> string) \<Rightarrow> string \<Rightarrow> nat \<Rightarrow> string" where
  "replace_from r g s i =
     (case re_find r s i of
        None \<Rightarrow> drop i s
      | Some (a, b) \<Rightarrow>
          if i < b \<and> b \<le> length s
          then take (a - i) (drop i s) @ g (take (b - a) (drop a s)) @ replace_from r g s b else drop i s)"
  by pat_completeness auto
termination by (relation "measure (\<lambda>(r, g, s, i). length s - i)") auto

declare find_all.simps [simp del] replace_from.simps [simp del]

definition replace_all :: "re \<Rightarrow> (string \<Rightarrow> string) \<Rightarrow> string \<Rightarrow> string" where
  "replace_all r g s = replace_from r g s 0"

section \<open>What a match is\<close>

inductive span :: "string \<Rightarrow> re \<Rightarrow> nat \<Rightarrow> nat \<Rightarrow> bool" for s where
  span_str: "take (length w) (drop i s) = w \<Longrightarrow> span s (Str w) i (i + length w)"
| span_one: "i < length s \<Longrightarrow> in_class k (s ! i) \<Longrightarrow> span s (One k) i (Suc i)"
| span_bound: "boundary s i \<Longrightarrow> span s WordB i i"
| span_end: "span s EndT (length s) (length s)"
| span_cat: "span s p i j \<Longrightarrow> span s q j k \<Longrightarrow> span s (Cat p q) i k"
| span_left: "span s p i j \<Longrightarrow> span s (Alt p q) i j"
| span_right: "span s q i j \<Longrightarrow> span s (Alt p q) i j"
| span_stop: "span s (Star p) i i"
| span_more: "span s p i j \<Longrightarrow> span s (Star p) j k \<Longrightarrow> span s (Star p) i k"

inductive_cases span_StrE: "span s (Str w) i j"
inductive_cases span_OneE: "span s (One k) i j"
inductive_cases span_WordBE: "span s WordB i j"
inductive_cases span_EndTE: "span s EndT i j"
inductive_cases span_CatE: "span s (Cat p q) i j"
inductive_cases span_AltE: "span s (Alt p q) i j"

lemmas span_cases = span_StrE span_OneE span_WordBE span_EndTE span_CatE span_AltE

lemma span_bounds: "span s r i j \<Longrightarrow> i \<le> length s \<Longrightarrow> i \<le> j \<and> j \<le> length s"
proof (induction rule: span.induct)
  case (span_str w i)
  then have "length (take (length w) (drop i s)) = length w" by simp
  with span_str.prems show ?case by auto
qed auto

lemma star_ends_span:
  assumes "\<And>i j. i \<le> length s \<Longrightarrow> j \<in> set (f i) \<longleftrightarrow> span s p i j"
    and "i \<le> length s" "j \<in> set (star_ends f n i)"
  shows "span s (Star p) i j"
  using assms(2, 3)
proof (induction n arbitrary: i)
  case 0
  then show ?case by (simp add: span_stop)
next
  case (Suc n)
  from Suc.prems consider "j = i" | k where "k \<in> set (f i)" "i < k" "j \<in> set (star_ends f n k)" by auto
  then show ?case
  proof cases
    case 2
    from 2(1) Suc.prems(1) assms(1) have "span s p i k" by blast
    moreover from this Suc.prems(1) span_bounds have "k \<le> length s" by blast
    ultimately show ?thesis using Suc.IH [OF _ 2(3)] span_more by blast
  qed (simp add: span_stop)
qed

lemma star_ends_complete:
  assumes "\<And>i j. i \<le> length s \<Longrightarrow> j \<in> set (f i) \<longleftrightarrow> span s p i j"
    and "span s r i j" "r = Star p" "i \<le> length s" "length s - i \<le> n"
  shows "j \<in> set (star_ends f n i)"
  using assms(2 - 5)
proof (induction arbitrary: n rule: span.induct)
  case (span_stop q i)
  then show ?case by (cases n) auto
next
  case (span_more q i j k)
  then have p: "span s p i j" by simp
  have j: "i \<le> j" "j \<le> length s" using span_bounds [OF p span_more.prems(2)] by auto
  show ?case
  proof (cases "i = j")
    case True
    with span_more show ?thesis by blast
  next
    case False
    with j span_more.prems(3) obtain m where m: "n = Suc m" "length s - j \<le> m" by (cases n) auto
    have "k \<in> set (star_ends f m j)"
      using span_more.IH(2) [OF _ j(2) m(2)] span_more.prems(1) by simp
    moreover have "j \<in> set (f i)" using p assms(1) span_more.prems(2) by blast
    ultimately show ?thesis using False j m by auto
  qed
qed auto

lemma ends_span: "i \<le> length s \<Longrightarrow> j \<in> set (ends r s i) \<longleftrightarrow> span s r i j"
proof (induction r arbitrary: i j)
  case (Str w)
  show ?case by (auto simp: has_prefix_def intro: span_str elim: span_StrE)
next
  case (Cat p q)
  have "j \<in> set (ends (Cat p q) s i) \<longleftrightarrow> (\<exists>k. k \<in> set (ends p s i) \<and> j \<in> set (ends q s k))" by auto
  also have "\<dots> \<longleftrightarrow> (\<exists>k. span s p i k \<and> span s q k j)"
    using Cat span_bounds by metis
  also have "\<dots> \<longleftrightarrow> span s (Cat p q) i j" by (auto intro: span_cat elim: span_CatE)
  finally show ?case .
next
  case (Star p)
  then show ?case
    using star_ends_span [of s "ends p s" p i j "length s - i"]
      star_ends_complete [of s "ends p s" p "Star p" i j "length s - i"] by auto
qed (auto intro: span.intros elim: span_cases)

lemma re_match_span: "re_match r s \<longleftrightarrow> (\<exists>i j. i \<le> length s \<and> span s r i j)"
proof -
  have "re_match r s \<longleftrightarrow> (\<exists>i\<le>length s. \<exists>j. j \<in> set (ends r s i))"
    by (simp add: re_match_def less_Suc_eq_le atLeast0LessThan Bex_def ex_in_conv del: upt_Suc)
  then show ?thesis using ends_span by blast
qed

lemma re_find_None_iff: "re_find r s i = None \<longleftrightarrow> (\<forall>a j. i \<le> a \<longrightarrow> a \<le> length s \<longrightarrow> \<not> span s r a j)"
proof -
  have "re_find r s i = None \<longleftrightarrow> filter (\<lambda>a. ends r s a \<noteq> []) [i..<Suc (length s)] = []"
    by (simp add: re_find_def del: upt_Suc split: list.splits)
  also have "\<dots> \<longleftrightarrow> (\<forall>a\<in>set [i..<Suc (length s)]. ends r s a = [])"
    by (simp add: filter_empty_conv del: upt_Suc)
  also have "\<dots> \<longleftrightarrow> (\<forall>a. i \<le> a \<longrightarrow> a \<le> length s \<longrightarrow> set (ends r s a) = {})" by auto
  also have "\<dots> \<longleftrightarrow> (\<forall>a. i \<le> a \<longrightarrow> a \<le> length s \<longrightarrow> (\<forall>j. \<not> span s r a j))"
    by (simp add: ends_span set_eq_iff [of "set _"] del: set_empty)
  also have "\<dots> \<longleftrightarrow> (\<forall>a j. i \<le> a \<longrightarrow> a \<le> length s \<longrightarrow> \<not> span s r a j)" by blast
  finally show ?thesis .
qed

section \<open>Evaluation on suffixes\<close>

text \<open>
  The same matches with a position given by the character before it and the text after it: nothing is
  counted, which makes the evaluation of a match fast.
\<close>

type_synonym place = "char option \<times> string"

definition place_of :: "string \<Rightarrow> nat \<Rightarrow> place" where
  "place_of s i = (if i = 0 then None else Some (s ! (i - 1)), drop i s)"

fun strip :: "string \<Rightarrow> place \<Rightarrow> place list" where
  "strip [] st = [st]"
| "strip (c # w) (p, []) = []"
| "strip (c # w) (p, d # s) = (if c = d then strip w (Some d, s) else [])"

definition front_word :: "string \<Rightarrow> bool" where
  "front_word s \<longleftrightarrow> (case s of [] \<Rightarrow> False | c # _ \<Rightarrow> word_char c)"

definition back_word :: "char option \<Rightarrow> bool" where
  "back_word p \<longleftrightarrow> (case p of None \<Rightarrow> False | Some c \<Rightarrow> word_char c)"

primrec star_go :: "(place \<Rightarrow> place list) \<Rightarrow> string \<Rightarrow> place \<Rightarrow> place list" where
  "star_go f [] st = [st]"
| "star_go f (x # n) st = concat (map (star_go f n) (filter (\<lambda>st'. snd st' \<noteq> snd st) (f st))) @ [st]"

primrec go :: "re \<Rightarrow> place \<Rightarrow> place list" where
  "go (Str w) st = strip w st"
| "go (One k) st = (case snd st of [] \<Rightarrow> [] | c # s \<Rightarrow> if in_class k c then [(Some c, s)] else [])"
| "go WordB st = (if back_word (fst st) \<noteq> front_word (snd st) then [st] else [])"
| "go EndT st = (if snd st = [] then [st] else [])"
| "go (Cat p q) st = concat (map (go q) (go p st))"
| "go (Alt p q) st = go p st @ go q st"
| "go (Star p) st = star_go (go p) (snd st) st"

fun match_from :: "re \<Rightarrow> char option \<Rightarrow> string \<Rightarrow> bool" where
  "match_from r p [] \<longleftrightarrow> go r (p, []) \<noteq> []"
| "match_from r p (c # s) \<longleftrightarrow> go r (p, c # s) \<noteq> [] \<or> match_from r (Some c) s"

lemma place_Suc: "i < length s \<Longrightarrow> place_of s i = (fst (place_of s i), s ! i # drop (Suc i) s)"
  "i < length s \<Longrightarrow> place_of s (Suc i) = (Some (s ! i), drop (Suc i) s)"
  by (simp_all add: place_of_def Cons_nth_drop_Suc)

lemma strip_ends:
  "i \<le> length s \<Longrightarrow> strip w (place_of s i) = (if has_prefix (drop i s) w then [place_of s (i + length w)] else [])"
proof (induction w arbitrary: i)
  case (Cons c w)
  show ?case
  proof (cases "i < length s")
    case True
    then have "has_prefix (drop i s) (c # w) \<longleftrightarrow> s ! i = c \<and> has_prefix (drop (Suc i) s) w"
      by (simp add: has_prefix_def Cons_nth_drop_Suc [symmetric])
    with True Cons.IH [of "Suc i"] show ?thesis
      by (subst place_Suc) (auto simp: place_Suc(2) [symmetric])
  next
    case False
    then show ?thesis by (simp add: place_of_def has_prefix_def)
  qed
qed (simp add: has_prefix_def)

lemma place_words:
  assumes "i \<le> length s"
  shows "front_word (snd (place_of s i)) = word_at s i" "back_word (fst (place_of s i)) = (0 < i \<and> word_at s (i - 1))"
proof -
  show "front_word (snd (place_of s i)) = word_at s i"
    by (cases "i < length s") (simp_all add: place_of_def front_word_def word_at_def Cons_nth_drop_Suc [symmetric])
  show "back_word (fst (place_of s i)) = (0 < i \<and> word_at s (i - 1))"
    using assms by (auto simp: place_of_def back_word_def word_at_def)
qed

lemma place_inj: "i \<le> length s \<Longrightarrow> j \<le> length s \<Longrightarrow> snd (place_of s i) = snd (place_of s j) \<longleftrightarrow> i = j"
  by (auto simp: place_of_def dest: arg_cong [of _ _ length])

lemma star_go_ends:
  assumes "\<And>i. i \<le> length s \<Longrightarrow> F (place_of s i) = map (place_of s) (f i)"
    and "\<And>i j. i \<le> length s \<Longrightarrow> j \<in> set (f i) \<Longrightarrow> i \<le> j \<and> j \<le> length s"
    and "i \<le> length s"
  shows "star_go F n (place_of s i) = map (place_of s) (star_ends f (length n) i)"
  using assms(3)
proof (induction n arbitrary: i)
  case (Cons x n)
  have "filter (\<lambda>st'. snd st' \<noteq> snd (place_of s i)) (map (place_of s) (f i)) =
      map (place_of s) (filter (\<lambda>j. i < j) (f i))"
    unfolding filter_map o_def
    by (rule arg_cong [of _ _ "map (place_of s)"], rule filter_cong [OF refl])
      (use assms(2) [OF Cons.prems] place_inj [of _ s i] Cons.prems in fastforce)
  moreover have "map (\<lambda>j. star_go F n (place_of s j)) (filter (\<lambda>j. i < j) (f i)) =
      map (\<lambda>j. map (place_of s) (star_ends f (length n) j)) (filter (\<lambda>j. i < j) (f i))"
    using Cons.IH assms(2) [OF Cons.prems] by auto
  ultimately show ?case using assms(1) [OF Cons.prems]
    by (simp only: star_go.simps star_ends.simps list.size add_Suc_right add_0_right map_append map_concat map_map o_def list.map)
qed simp

lemma ends_bounds: "i \<le> length s \<Longrightarrow> j \<in> set (ends r s i) \<Longrightarrow> i \<le> j \<and> j \<le> length s"
  using ends_span span_bounds by blast

lemma go_ends: "i \<le> length s \<Longrightarrow> go r (place_of s i) = map (place_of s) (ends r s i)"
proof (induction r arbitrary: i)
  case (One k)
  then show ?case
  proof (cases "i < length s")
    case True
    then have "drop i s = s ! i # drop (Suc i) s" by (simp add: Cons_nth_drop_Suc)
    with True show ?thesis by (simp add: place_of_def)
  qed (simp add: place_of_def)
next
  case (Cat p q)
  have "map (\<lambda>k. go q (place_of s k)) (ends p s i) = map (\<lambda>k. map (place_of s) (ends q s k)) (ends p s i)"
    using Cat.IH(2) ends_bounds [OF Cat.prems] by auto
  then show ?case using Cat.IH(1) [OF Cat.prems] by (simp only: go.simps ends.simps map_concat map_map o_def)
next
  case (Star p)
  have "snd (place_of s i) = drop i s" by (simp add: place_of_def)
  moreover have "star_go (go p) (drop i s) (place_of s i) =
      map (place_of s) (star_ends (ends p s) (length (drop i s)) i)"
    by (rule star_go_ends) (fact Star.IH, rule ends_bounds, assumption+, fact Star.prems)
  ultimately show ?case by simp
next
  case (Str w)
  then show ?case using strip_ends [of i s w] by (simp del: strip.simps)
next
  case WordB
  then show ?case using place_words [of i s] by (simp add: boundary_def)
next
  case EndT
  then show ?case by (simp add: place_of_def)
qed simp

lemma match_from_ends:
  "i \<le> length s \<Longrightarrow> match_from r (fst (place_of s i)) (drop i s) \<longleftrightarrow> (\<exists>a. i \<le> a \<and> a \<le> length s \<and> ends r s a \<noteq> [])"
proof (induction "length s - i" arbitrary: i)
  case 0
  then have "i = length s" by simp
  with go_ends [of i s r] show ?case by (auto simp: place_of_def)
next
  case (Suc n)
  then have i: "i < length s" by simp
  have "match_from r (fst (place_of s i)) (drop i s) \<longleftrightarrow>
      go r (place_of s i) \<noteq> [] \<or> match_from r (fst (place_of s (Suc i))) (drop (Suc i) s)"
    using i by (simp add: place_of_def Cons_nth_drop_Suc [symmetric])
  also have "\<dots> \<longleftrightarrow> ends r s i \<noteq> [] \<or> (\<exists>a. Suc i \<le> a \<and> a \<le> length s \<and> ends r s a \<noteq> [])"
    using Suc go_ends [of i s r] i by simp
  also have "\<dots> \<longleftrightarrow> (\<exists>a. i \<le> a \<and> a \<le> length s \<and> ends r s a \<noteq> [])"
    using i by (metis Suc_leD le_antisym less_imp_le_nat not_less_eq_eq)
  finally show ?case .
qed

lemma re_match_code [code]: "re_match r s \<longleftrightarrow> match_from r None s"
  using match_from_ends [of 0 s r] by (auto simp: re_match_def place_of_def less_Suc_eq_le simp del: upt_Suc)

lemma word_char_code [code]:
  "word_char (Char b0 b1 b2 b3 b4 b5 b6 b7) \<longleftrightarrow> \<not> b7 \<and>
     (if b6 then (b0 \<or> b1 \<or> b2 \<or> b3 \<or> b4) \<and> \<not> (b4 \<and> b3 \<and> (b2 \<or> b1 \<and> b0)) \<or> \<not> b5 \<and> b4 \<and> b3 \<and> b2 \<and> b1 \<and> b0
      else b5 \<and> b4 \<and> \<not> (b3 \<and> (b2 \<or> b1)))"
  by (cases b0; cases b1; cases b2; cases b3; cases b4; cases b5; cases b6; cases b7)
    (simp_all add: word_char_def letter_code_def code_def)

definition letter_char :: "char \<Rightarrow> bool" where
  "letter_char c \<longleftrightarrow> letter_code (code c)"

definition space_char :: "char \<Rightarrow> bool" where
  "space_char c \<longleftrightarrow> code c \<in> {9, 10, 12, 13, 32}"

lemma letter_char_code [code]:
  "letter_char (Char b0 b1 b2 b3 b4 b5 b6 b7) \<longleftrightarrow>
     \<not> b7 \<and> b6 \<and> (b0 \<or> b1 \<or> b2 \<or> b3 \<or> b4) \<and> \<not> (b4 \<and> b3 \<and> (b2 \<or> b1 \<and> b0))"
  by (cases b0; cases b1; cases b2; cases b3; cases b4; cases b5; cases b6; cases b7)
    (simp_all add: letter_char_def letter_code_def code_def)

lemma space_char_code [code]:
  "space_char (Char b0 b1 b2 b3 b4 b5 b6 b7) \<longleftrightarrow>
     \<not> b7 \<and> \<not> b6 \<and> (if b5 then \<not> b4 \<and> \<not> b3 \<and> \<not> b2 \<and> \<not> b1 \<and> \<not> b0
       else \<not> b4 \<and> b3 \<and> (if b2 then \<not> b1 else b1 \<noteq> b0))"
  by (cases b0; cases b1; cases b2; cases b3; cases b4; cases b5; cases b6; cases b7)
    (simp_all add: space_char_def code_def)

definition digit_code :: "char \<Rightarrow> bool" where
  "digit_code c \<longleftrightarrow> 48 \<le> code c \<and> code c \<le> 57"

lemma digit_code_code [code]:
  "digit_code (Char b0 b1 b2 b3 b4 b5 b6 b7) \<longleftrightarrow> \<not> b7 \<and> \<not> b6 \<and> b5 \<and> b4 \<and> \<not> (b3 \<and> (b2 \<or> b1))"
  by (cases b0; cases b1; cases b2; cases b3; cases b4; cases b5; cases b6; cases b7)
    (simp_all add: digit_code_def code_def)

definition small_letter :: "char \<Rightarrow> bool" where
  "small_letter c \<longleftrightarrow> 97 \<le> code c \<and> code c \<le> 122"

lemma small_letter_code [code]:
  "small_letter (Char b0 b1 b2 b3 b4 b5 b6 b7) \<longleftrightarrow> b5 \<and> letter_char (Char b0 b1 b2 b3 b4 b5 b6 b7)"
  by (cases b0; cases b1; cases b2; cases b3; cases b4; cases b5; cases b6; cases b7)
    (simp_all add: letter_char_code, simp_all add: small_letter_def code_def)

lemma in_class_code [code]:
  "in_class SpaceClass c = space_char c"
  "in_class AnyClass c = (c \<noteq> CHR 0x0A)"
  "in_class LetterClass c = letter_char c"
  "in_class NameStart c = (letter_char c \<or> c = CHR ''_'')"
  "in_class WordClass c = word_char c"
  "in_class AnyChar c = True"
  "in_class DigitClass c = digit_code c"
  "in_class IdentClass c = (small_letter c \<or> digit_code c \<or> c = CHR ''_'' \<or> c = CHR ''$'' \<or> c = CHR ''.'')"
  "in_class NotClose c = (c \<noteq> CHR '')'')"
proof -
  have "code c = code d \<longleftrightarrow> c = d" for d by (simp only: code_def of_char_eq_iff)
  from this [of "CHR 0x0A"] this [of "CHR ''_''"] this [of "CHR ''$''"] this [of "CHR ''.''"] this [of "CHR '')''"]
  have "code c = 10 \<longleftrightarrow> c = CHR 0x0A" "code c = 95 \<longleftrightarrow> c = CHR ''_''" "code c = 36 \<longleftrightarrow> c = CHR ''$''"
    "code c = 46 \<longleftrightarrow> c = CHR ''.''" "code c = 41 \<longleftrightarrow> c = CHR '')''"
    by (simp_all add: code_def)
  then show "in_class AnyClass c = (c \<noteq> CHR 0x0A)" "in_class NameStart c = (letter_char c \<or> c = CHR ''_'')"
    "in_class IdentClass c = (small_letter c \<or> digit_code c \<or> c = CHR ''_'' \<or> c = CHR ''$'' \<or> c = CHR ''.'')"
    "in_class NotClose c = (c \<noteq> CHR '')'')"
    by (auto simp: letter_char_def small_letter_def digit_code_def)
qed (simp_all add: letter_char_def space_char_def digit_code_def)

lemma upper_char_code [code]:
  "upper_char (Char b0 b1 b2 b3 b4 b5 b6 b7) =
     (if b5 \<and> letter_char (Char b0 b1 b2 b3 b4 b5 b6 b7) then Char b0 b1 b2 b3 b4 False b6 b7
      else Char b0 b1 b2 b3 b4 b5 b6 b7)"
  by (cases b0; cases b1; cases b2; cases b3; cases b4; cases b5; cases b6; cases b7)
    (simp_all add: letter_char_code, simp_all add: upper_char_def code_def char_of_def bit_Suc_0_iff)

end
