(* ===== verification/CmdPolicy.thy ===== *)
theory CmdPolicy
  imports RegexMatch
begin

text \<open>
  The checks of shell commands before they are sent to a host: the read-only diagnostic commands and
  the commands of playbooks (\<open>cmd/server/cmdpolicy.go\<close>), and the guard of sensitive paths
  (\<open>deniedSensitivePath\<close> and the validation of playbook steps in \<open>cmd/server/playbook_modules.go\<close>). The
  package \<open>path\<close> is modelled and the built-in patterns are written out for the matcher of
  \<open>RegexMatch\<close>. A pattern of the configuration is text that package \<open>regexp\<close> compiles, or not: \<open>custom pat s\<close> is
  a parameter, \<open>None\<close> where the pattern does not compile. A reason for a refusal is a constructor.
\<close>

section \<open>Package path\<close>

definition slash :: string where
  "slash = ''/''"

text \<open>The components in reverse; \<open>..\<close> takes the last one away, or stays at the front of a relative path.\<close>

definition clean_step :: "bool \<Rightarrow> string list \<Rightarrow> string \<Rightarrow> string list" where
  "clean_step rooted st c =
     (if c = [] \<or> c = ''.'' then st
      else if c = ''..'' then
        (case st of [] \<Rightarrow> if rooted then [] else [c] | d # ds \<Rightarrow> if d = ''..'' then c # st else ds)
      else c # st)"

definition path_clean :: "string \<Rightarrow> string" where
  "path_clean p =
     (if p = [] then ''.''
      else let rooted = has_prefix p slash;
               st = rev (foldl (clean_step rooted) [] (split_sep p slash))
      in if rooted then slash @ join slash st else if st = [] then ''.'' else join slash st)"

definition path_base :: "string \<Rightarrow> string" where
  "path_base p =
     (if p = [] then ''.''
      else let q = rev (dropWhile (\<lambda>c. c = CHR ''/'') (rev p)) in
           if q = [] then slash else last (split_sep q slash))"

section \<open>Sensitive paths\<close>

definition unixSlashes :: "string \<Rightarrow> string" where
  "unixSlashes = map (\<lambda>c. if c = CHR 0x5C then CHR ''/'' else c)"

definition denied_parts :: "string list" where
  "denied_parts = [''/etc/shadow'', ''/etc/gshadow'', ''/etc/sudoers'', ''/etc/master.passwd'',
     ''.ssh/'', ''.gnupg/'', ''.aws/'', ''.kube/config'', ''/root/.bash_history'',
     ''/system32/config/sam'', ''/system32/config/security'']"

definition denied_suffixes :: "string list" where
  "denied_suffixes = [''.pem'', ''.key'', ''id_rsa'', ''id_dsa'', ''id_ecdsa'', ''id_ed25519'', ''.kdbx'']"

definition agent_files :: "string list" where
  "agent_files = [''config.yaml'', ''config.json'', ''agent_state.json'']"

definition denied_norm :: "string \<Rightarrow> bool" where
  "denied_norm norm \<longleftrightarrow>
     (let base = path_base norm in
      (\<exists>d\<in>set denied_parts. contains_sub norm d) \<or>
      (\<exists>s\<in>set denied_suffixes. has_suffix base s \<or> base = s) \<or>
      has_prefix norm ''/proc/'' \<and> has_suffix norm ''/environ'' \<or>
      (\<exists>f\<in>set agent_files. base = f \<and>
         (contains_sub norm ''/aiops-agent/'' \<or> contains_sub norm ''/.aiops-agent/'')))"

definition deniedSensitivePath :: "string \<Rightarrow> bool" where
  "deniedSensitivePath p =
     (let raw = trim_space p in
      if raw = [] then False else denied_norm (to_lower (path_clean (unixSlashes raw))))"

section \<open>Diagnostic commands\<close>

datatype diag_result = DiagOk | DiagEmpty | DiagForbiddenChars | DiagNotListed | DiagSensitive string

definition diag_forbidden :: "char \<Rightarrow> bool" where
  "diag_forbidden c \<longleftrightarrow> c \<in> set ('';&$<>(){}'' @ [CHR 0x0A, CHR 0x0D, CHR 0x5C, CHR 0x60])"

definition diag_allow :: "string list" where
  "diag_allow = [''top'', ''df'', ''iostat'', ''vmstat'', ''mpstat'', ''sar'', ''pidstat'', ''netstat'', ''ss'', ''free'',
     ''ps'', ''uptime'', ''cat'', ''head'', ''tail'', ''grep'', ''egrep'', ''ls'', ''du'', ''lsof'', ''dmesg'',
     ''journalctl'', ''systemctl status'', ''docker ps'', ''docker logs'', ''docker stats'',
     ''kubectl get'', ''kubectl describe'', ''wc'', ''sort'', ''uniq'', ''cut'', ''tr'', ''nl'', ''tac'',
     ''column'', ''date'', ''hostname'', ''uname'', ''who'', ''w'']"

definition diag_denied :: "string list" where
  "diag_denied = [''/etc/shadow'', ''/etc/gshadow'', ''/etc/master.passwd'',
     ''.ssh/'', ''.gnupg/'', ''.aws/'', ''.kube/config'', ''/etc/sudoers'', ''/root/.bash_history'']"

definition segOK :: "string \<Rightarrow> bool" where
  "segOK seg0 \<longleftrightarrow> (let seg = to_lower (trim_space seg0) in
     \<exists>p\<in>set diag_allow. seg = p \<or> has_prefix seg (p @ '' ''))"

definition is_quote :: "char \<Rightarrow> bool" where
  "is_quote c \<longleftrightarrow> c = CHR 0x22 \<or> c = CHR 0x27"

definition trim_quotes :: "string \<Rightarrow> string" where
  "trim_quotes s = rev (dropWhile is_quote (rev (dropWhile is_quote s)))"

definition path_like :: "string \<Rightarrow> bool" where
  "path_like tok \<longleftrightarrow> (\<exists>c\<in>set tok. c = CHR ''/'' \<or> c = CHR 0x5C)"

definition check_segment :: "string \<Rightarrow> diag_result" where
  "check_segment seg =
     (if \<not> segOK seg then DiagNotListed
      else case find (\<lambda>dp. contains_sub (to_lower seg) dp) diag_denied of
        Some dp \<Rightarrow> DiagSensitive dp
      | None \<Rightarrow>
          (case find (\<lambda>tok. path_like tok \<and> deniedSensitivePath (trim_quotes tok)) (str_fields seg) of
             Some tok \<Rightarrow> DiagSensitive tok
           | None \<Rightarrow> DiagOk))"

fun check_segments :: "string list \<Rightarrow> diag_result" where
  "check_segments [] = DiagOk"
| "check_segments (s # ss) = (case check_segment s of DiagOk \<Rightarrow> check_segments ss | r \<Rightarrow> r)"

definition evaluateDiagCommand :: "string \<Rightarrow> diag_result" where
  "evaluateDiagCommand command =
     (let cmd = trim_space command in
      if cmd = [] then DiagEmpty
      else if \<exists>c\<in>set cmd. diag_forbidden c then DiagForbiddenChars
      else check_segments (split_sep cmd ''|''))"

definition diagCommandAllowed :: "string \<Rightarrow> diag_result" where
  "diagCommandAllowed command = evaluateDiagCommand command"

section \<open>Playbook commands\<close>

type_synonym custom_patterns = "string \<Rightarrow> string \<Rightarrow> bool option"

definition spaces :: re where
  "spaces = plus_re (One SpaceClass)"

definition flag_with :: "char \<Rightarrow> re" where
  "flag_with c = seq_re [Str ''-'', Star fold_letter, fold_char c]"

definition pipe_to_shell :: "string \<Rightarrow> re" where
  "pipe_to_shell w =
     seq_re [WordB, fold_word w, WordB, Star (One AnyClass), Str ''|'', Star (One SpaceClass),
       opt_re (fold_word ''ba''), fold_word ''sh'', WordB]"

definition dangerCmdRes :: "re list" where
  "dangerCmdRes =
     [seq_re [WordB, fold_word ''rm'', spaces, alt_re [flag_with CHR ''f'', flag_with CHR ''r'']],
      seq_re [WordB, fold_word ''mkfs'', alt_re [Str ''.'', EndT]],
      seq_re [WordB, fold_word ''dd'', spaces, fold_word ''if=''],
      seq_re [WordB, alt_re (map fold_word [''shutdown'', ''reboot'', ''halt'', ''poweroff'']), WordB],
      seq_re [WordB, alt_re (map fold_word [''wipefs'', ''shred'']), WordB],
      seq_re [WordB, fold_word ''crontab'', spaces, fold_word ''-r'', WordB],
      seq_re [WordB, alt_re (map fold_word [''userdel'', ''passwd'']), WordB],
      seq_re [Str ''>'', Star (One SpaceClass), fold_word ''/dev/sd''],
      seq_re [WordB, fold_word ''chmod'', spaces, fold_word ''-r'', spaces, Str ''777'', WordB],
      pipe_to_shell ''curl'', pipe_to_shell ''wget'']"

definition danger :: "string \<Rightarrow> bool" where
  "danger cmd \<longleftrightarrow> (\<exists>r\<in>set dangerCmdRes. re_match r cmd)"

record cmd_policy =
  cp_mode :: string
  cp_allow :: "string list"
  cp_deny :: "string list"
  cp_disableBuiltins :: bool

datatype cmd_reason =
    NoReason | EmptyCommand | DangerPattern | CustomDeny | NoPrefixesAdvisory | NoPrefixesStrict
  | NotListedAdvisory | NotListedStrict string | InjectionChars

definition playbook_builtins :: "string list" where
  "playbook_builtins = [''systemctl'', ''service'', ''docker'', ''kubectl'', ''nginx'', ''apachectl'',
     ''supervisorctl'', ''pm2'', ''kill'', ''pkill'', ''nice'', ''renice'',
     ''ip'', ''iptables'', ''nft'', ''sysctl'', ''echo'', ''printf'', ''true'', '':'',
     ''sleep'', ''logger'', ''date'', ''hostname'', ''uname'', ''cat'',
     ''sed'', ''awk'', ''grep'', ''head'', ''tail'', ''ls'', ''df'', ''free'', ''ps'', ''ss'', ''netstat'']"

definition blank_or_tab :: "char \<Rightarrow> bool" where
  "blank_or_tab c \<longleftrightarrow> c = CHR '' '' \<or> c = CHR 0x09"

lemma length_dropWhile_trim: "length (trim_space s) \<le> length s"
  using length_dropWhile_le [of is_space s] length_dropWhile_le [of is_space "rev (dropWhile is_space s)"]
  by (simp add: trim_space_def)

text \<open>Leading assignments \<open>NAME=value\<close> are skipped.\<close>

function shell_word :: "string \<Rightarrow> string" where
  "shell_word cmd =
     (let tok = takeWhile (\<lambda>c. \<not> blank_or_tab c) cmd; rest = dropWhile (\<lambda>c. \<not> blank_or_tab c) cmd in
      if CHR ''='' \<in> set tok \<and> \<not> has_prefix tok ''=''
      then (if rest = [] then [] else shell_word (trim_space rest))
      else to_lower tok)"
  by pat_completeness auto
termination
proof (relation "measure length")
  fix cmd :: string and tok rest
  assume tok: "tok = takeWhile (\<lambda>c. \<not> blank_or_tab c) cmd" and rest: "rest = dropWhile (\<lambda>c. \<not> blank_or_tab c) cmd"
    and "CHR ''='' \<in> set tok \<and> \<not> has_prefix tok ''=''"
  then have "tok \<noteq> []" by auto
  moreover have "length tok + length rest = length cmd"
    unfolding tok rest by (metis length_append takeWhile_dropWhile_id)
  ultimately have "length rest < length cmd" by (cases tok) auto
  then show "(trim_space rest, cmd) \<in> measure length" using length_dropWhile_trim [of rest] by simp
qed simp

declare shell_word.simps [simp del]

definition firstShellWord :: "string \<Rightarrow> string" where
  "firstShellWord cmd = shell_word (trim_space cmd)"

definition prefix_hit :: "string list \<Rightarrow> string \<Rightarrow> bool" where
  "prefix_hit allow seg \<longleftrightarrow>
     (let first = firstShellWord seg; low = to_lower seg in
      \<exists>p\<in>set (map (\<lambda>p. to_lower (trim_space p)) allow).
        p \<noteq> [] \<and> (first = p \<or> has_prefix low (p @ '' '') \<or> has_prefix low (p @ [CHR 0x09])))"

definition playbook_meta :: "char \<Rightarrow> bool" where
  "playbook_meta c \<longleftrightarrow> c \<in> set ('';$<>'' @ [CHR 0x60])"

definition allow_prefixes :: "cmd_policy \<Rightarrow> string list" where
  "allow_prefixes pol = cp_allow pol @ (if cp_disableBuiltins pol then [] else playbook_builtins)"

definition evaluatePlaybookCommand :: "custom_patterns \<Rightarrow> string \<Rightarrow> cmd_policy \<Rightarrow> bool \<times> bool \<times> cmd_reason" where
  "evaluatePlaybookCommand R command pol =
     (let cmd = trim_space command; mode = (if cp_mode pol = [] then ''strict'' else cp_mode pol);
          allow = allow_prefixes pol;
          segs = filter (\<lambda>s. s \<noteq> []) (map trim_space (split_sep cmd ''|''))
      in if cmd = [] then (False, False, EmptyCommand)
      else if danger cmd then (False, True, DangerPattern)
      else if \<exists>pat\<in>set (cp_deny pol). trim_space pat \<noteq> [] \<and> R (trim_space pat) cmd = Some True
      then (False, True, CustomDeny)
      else if allow = [] then
        (if mode = ''advisory'' then (True, True, NoPrefixesAdvisory) else (False, True, NoPrefixesStrict))
      else case find (\<lambda>s. \<not> prefix_hit allow s) segs of
        Some seg \<Rightarrow> (if mode = ''advisory'' then (True, True, NotListedAdvisory)
                     else (False, True, NotListedStrict (firstShellWord seg)))
      | None \<Rightarrow>
          if mode = ''strict'' \<and> (\<exists>c\<in>set cmd. playbook_meta c) then (False, True, InjectionChars)
          else (True, False, NoReason))"

section \<open>Playbook steps\<close>

text \<open>A step of a playbook, without its time limit and the delay between attempts. The arguments are listed in
  the order in which \<open>range\<close> visits the map. The catalogue: whether a module only reads, and the argument it requires (empty for none).\<close>

record playbook_step =
  ps_name :: string
  ps_command :: string
  ps_commandWin :: string
  ps_commandMac :: string
  ps_rollback :: string
  ps_rollbackWin :: string
  ps_rollbackMac :: string
  ps_module :: string
  ps_args :: "(string \<times> string) list"
  ps_target :: string
  ps_when :: string
  ps_register :: string
  ps_continueErr :: bool
  ps_ignoreExit :: bool
  ps_retryOnExit :: bool
  ps_maxAttempts :: int
  ps_retryDelaySec :: int
  ps_timeoutSec :: int

datatype module_meta = Reads string | Writes string

definition module_list :: "(string \<times> module_meta) list" where
  "module_list =
    [(''gather_facts'', Reads ''''), (''host_inspect'', Reads ''''), (''disk_usage'', Reads ''''),
     (''mem_info'', Reads ''''), (''cpu_load'', Reads ''''), (''process_top'', Reads ''''),
     (''uptime_info'', Reads ''''), (''pkg_list'', Reads ''''), (''file_stat'', Reads ''path''),
     (''file_head'', Reads ''path''), (''service_status'', Reads ''name''),
     (''journal_recent'', Reads ''''), (''dmesg_recent'', Reads ''''), (''net_ifaces'', Reads ''''),
     (''net_listen'', Reads ''''), (''net_routes'', Reads ''''), (''net_sockets'', Reads ''''),
     (''dns_resolve'', Reads ''host''), (''docker_ps'', Reads ''''), (''docker_stats'', Reads ''''),
     (''kube_get'', Reads ''''), (''time_sync'', Reads ''''), (''users_logged'', Reads ''''),
     (''security_listen'', Reads ''''), (''host_security_scan'', Reads ''''),
     (''auth_failures'', Reads ''''), (''clamav_update'', Writes ''''),
     (''java_processes'', Reads ''''), (''java_jvm_info'', Reads ''''), (''java_gc_stat'', Reads ''''),
     (''java_thread_dump'', Reads ''''), (''java_heap_histo'', Reads ''''),
     (''java_exception_scan'', Reads ''''), (''java_app_inspect'', Reads ''''),
     (''bigdata_jps'', Reads ''''), (''bigdata_ports'', Reads ''''), (''service'', Writes ''name''),
     (''package'', Writes ''name''), (''copy'', Writes ''dest''), (''agent_update'', Writes ''''),
     (''hyperv_power'', Writes ''''), (''hyperv_set'', Writes ''''),
     (''container_action'', Writes ''''), (''container_compose_ls'', Reads ''''),
     (''container_compose'', Writes ''''), (''container_logs'', Reads '''')]"

definition knownPlaybookModules :: "string \<Rightarrow> module_meta option" where
  "knownPlaybookModules = map_of module_list"

fun required_arg :: "module_meta \<Rightarrow> string" where
  "required_arg (Reads a) = a"
| "required_arg (Writes a) = a"

fun read_only :: "module_meta \<Rightarrow> bool" where
  "read_only (Reads a) = True"
| "read_only (Writes a) = False"

datatype step_error =
    UnknownModule | MissingArgument | SensitiveArgument string | BadProfile | CommandRefused cmd_reason | NoCommand

definition pathLikeModuleArgs :: "string list" where
  "pathLikeModuleArgs = [''path'', ''dest'', ''src'', ''file'', ''log_path'', ''config'']"

definition arg :: "playbook_step \<Rightarrow> string \<Rightarrow> string" where
  "arg st k = (case map_of (ps_args st) k of None \<Rightarrow> [] | Some v \<Rightarrow> v)"

definition validatePlaybookModule :: "playbook_step \<Rightarrow> step_error option" where
  "validatePlaybookModule st =
     (let m = trim_space (ps_module st) in
      case knownPlaybookModules m of
        None \<Rightarrow> Some UnknownModule
      | Some meta \<Rightarrow>
          if required_arg meta \<noteq> [] \<and> trim_space (arg st (required_arg meta)) = [] then Some MissingArgument
          else case find (\<lambda>k. deniedSensitivePath (arg st k)) pathLikeModuleArgs of
            Some k \<Rightarrow> Some (SensitiveArgument k)
          | None \<Rightarrow>
              let p = to_lower (trim_space (arg st ''profile'')) in
              if m = ''host_inspect'' \<and> p \<notin> {[], ''quick'', ''standard'', ''deep''} then Some BadProfile else None)"

fun refused :: "custom_patterns \<Rightarrow> cmd_policy \<Rightarrow> string list \<Rightarrow> step_error option" where
  "refused R pol [] = None"
| "refused R pol (c # cs) =
     (if trim_space c = [] then refused R pol cs
      else case evaluatePlaybookCommand R c pol of
             (True, _, _) \<Rightarrow> refused R pol cs
           | (False, _, why) \<Rightarrow> Some (CommandRefused why))"

definition commands :: "playbook_step \<Rightarrow> string list" where
  "commands st = [ps_command st, ps_commandWin st, ps_commandMac st]"

definition rollbacks :: "playbook_step \<Rightarrow> string list" where
  "rollbacks st = [ps_rollback st, ps_rollbackWin st, ps_rollbackMac st]"

definition validate_step :: "custom_patterns \<Rightarrow> cmd_policy \<Rightarrow> playbook_step \<Rightarrow> step_error option" where
  "validate_step R pol st =
     (let main = (if trim_space (ps_module st) \<noteq> [] then validatePlaybookModule st
                  else case refused R pol (commands st) of
                         Some e \<Rightarrow> Some e
                       | None \<Rightarrow> if \<forall>c\<in>set (commands st). trim_space c = [] then Some NoCommand else None)
      in case main of Some e \<Rightarrow> Some e | None \<Rightarrow> refused R pol (rollbacks st))"

fun validatePlaybookCommands ::
    "custom_patterns \<Rightarrow> cmd_policy \<Rightarrow> playbook_step list \<Rightarrow> step_error option" where
  "validatePlaybookCommands R pol [] = None"
| "validatePlaybookCommands R pol (st # sts) =
     (case validate_step R pol st of
        Some e \<Rightarrow> Some e | None \<Rightarrow> validatePlaybookCommands R pol sts)"

definition forces_approval :: "custom_patterns \<Rightarrow> cmd_policy \<Rightarrow> string \<Rightarrow> bool" where
  "forces_approval R pol c \<longleftrightarrow> trim_space c \<noteq> [] \<and> fst (snd (evaluatePlaybookCommand R c pol))"

definition playbookNeedsForcedApproval ::
    "custom_patterns \<Rightarrow> cmd_policy \<Rightarrow> playbook_step list \<Rightarrow> bool" where
  "playbookNeedsForcedApproval R pol sts \<longleftrightarrow>
     (\<exists>st\<in>set sts.
        if trim_space (ps_module st) \<noteq> []
        then (case knownPlaybookModules (ps_module st) of None \<Rightarrow> False | Some meta \<Rightarrow> \<not> read_only meta)
        else \<exists>c\<in>set (commands st @ rollbacks st). forces_approval R pol c)"

section \<open>Splitting at a character\<close>

fun chunks :: "'a \<Rightarrow> 'a list \<Rightarrow> 'a list list" where
  "chunks d [] = [[]]"
| "chunks d (c # cs) = (if c = d then [] # chunks d cs else (c # hd (chunks d cs)) # tl (chunks d cs))"

lemma chunks_not_Nil [simp]: "chunks d s \<noteq> []"
  by (induction s) auto

lemma chunks_absent: "d \<notin> set s \<Longrightarrow> chunks d s = [s]"
  by (induction s) auto

lemma chunks_append: "chunks d (a @ d # b) = chunks d a @ chunks d b"
  by (induction a) auto

lemma split_chunks: "split_sep s [d] = chunks d s"
proof (induction s rule: length_induct)
  case (1 s)
  show ?case
  proof (cases "d \<in> set s")
    case True
    then obtain a b where s: "s = a @ d # b" "d \<notin> set a" by (meson split_list_first)
    then have "split_sep s [d] = a # split_sep b [d]"
      by (subst split_sep.simps) (simp add: index_of_first)
    also have "\<dots> = chunks d s" using 1 s by (simp add: chunks_append chunks_absent)
    finally show ?thesis .
  next
    case False
    then show ?thesis by (subst split_sep.simps) (simp add: index_of_absent chunks_absent)
  qed
qed

section \<open>Spellings of a path\<close>

definition rtrim :: "string \<Rightarrow> string" where
  "rtrim s = rev (dropWhile is_space (rev s))"

lemma trim_keeps:
  assumes "m \<noteq> []" "\<not> is_space (hd m)" "\<not> is_space (last m)"
  shows "trim_space (m @ b) = m @ rtrim b"
proof -
  have "dropWhile is_space (m @ b) = m @ b" using assms by (cases m) auto
  moreover have "dropWhile is_space (rev m) = rev m" using assms by (simp add: dropWhile_eq_self_iff hd_rev)
  then have "dropWhile is_space (rev b @ rev m) = dropWhile is_space (rev b) @ rev m"
    by (auto simp: dropWhile_append)
  ultimately show ?thesis by (simp add: trim_space_def rtrim_def)
qed

definition comps :: "string \<Rightarrow> string list" where
  "comps p = foldl (clean_step True) [] (chunks CHR ''/'' p)"

lemma clean_rooted: "has_prefix p slash \<Longrightarrow> path_clean p = slash @ join slash (rev (comps p))"
  by (auto simp: path_clean_def comps_def slash_def split_chunks has_prefix_def)

lemma comps_append: "comps (a @ CHR ''/'' # b) = foldl (clean_step True) (comps a) (chunks CHR ''/'' b)"
  by (simp add: comps_def chunks_append)

lemma comps_same:
  "comps (a @ ''//'' @ b) = comps (a @ ''/'' @ b)"
  "comps (a @ ''/./'' @ b) = comps (a @ ''/'' @ b)"
  using comps_append [of a b] comps_append [of a "CHR ''/'' # b"] comps_append [of a "''./'' @ b"]
    chunks_append [of "CHR ''/''" "[]" b] chunks_append [of "CHR ''/''" "''.''" b]
  by (simp_all add: clean_step_def)

lemma comps_parent:
  assumes "CHR ''/'' \<notin> set x" "x \<noteq> []" "x \<noteq> ''.''" "x \<noteq> ''..''"
  shows "comps (a @ ''/'' @ x @ ''/../'' @ b) = comps (a @ ''/'' @ b)"
  using comps_append [of a b] comps_append [of a "x @ ''/../'' @ b"]
    chunks_append [of "CHR ''/''" x "''../'' @ b"] chunks_append [of "CHR ''/''" "''..''" b] assms
  by (simp add: clean_step_def chunks_absent)

lemma unixSlashes_append [simp]: "unixSlashes (a @ b) = unixSlashes a @ unixSlashes b"
  by (simp add: unixSlashes_def)

lemma denied_rooted:
  assumes "a \<noteq> []" "hd a = CHR ''/''" "m \<noteq> []" "\<not> is_space (last m)"
  shows "deniedSensitivePath (a @ m @ b) =
    denied_norm (to_lower (slash @ join slash (rev (comps (unixSlashes a @ unixSlashes m @ unixSlashes (rtrim b))))))"
proof -
  have trim: "trim_space (a @ m @ b) = a @ m @ rtrim b"
    using trim_keeps [of "a @ m" b] assms by (simp add: is_space_def)
  have "has_prefix (unixSlashes a @ s) slash" for s
    using assms(1, 2) by (cases a) (auto simp: has_prefix_def slash_def unixSlashes_def)
  then show ?thesis using assms(1) by (simp add: deniedSensitivePath_def trim clean_rooted)
qed

text \<open>The guard of sensitive paths does not depend on how an absolute path is spelled: a doubled
  slash, a dot, a component followed by two dots and a backslash for a slash never change its answer.\<close>

theorem sensitive_path_spellings:
  assumes "a \<noteq> []" "hd a = CHR ''/''" and x: "x \<noteq> []" "x \<noteq> ''.''" "x \<noteq> ''..''"
    "\<forall>c\<in>set x. c \<noteq> CHR ''/'' \<and> c \<noteq> CHR 0x5C"
  shows "deniedSensitivePath (a @ ''//'' @ b) = deniedSensitivePath (a @ ''/'' @ b) \<and>
    deniedSensitivePath (a @ ''/./'' @ b) = deniedSensitivePath (a @ ''/'' @ b) \<and>
    deniedSensitivePath (a @ ''/'' @ x @ ''/../'' @ b) = deniedSensitivePath (a @ ''/'' @ b) \<and>
    deniedSensitivePath (a @ [CHR 0x5C] @ b) = deniedSensitivePath (a @ ''/'' @ b)"
proof -
  have plain: "unixSlashes ''/'' = ''/''" "unixSlashes ''//'' = ''//''" "unixSlashes ''/./'' = ''/./''"
    "unixSlashes ''/../'' = ''/../''" "unixSlashes [CHR 0x5C] = ''/''"
    by (simp_all add: unixSlashes_def)
  have ends_at: "\<not> is_space CHR ''/''" "\<not> is_space CHR 0x5C" by (simp_all add: is_space_def)
  have ux: "unixSlashes x = x" using x(4) by (simp add: unixSlashes_def map_idI)
  have way: "unixSlashes (''/'' @ x @ ''/../'') = ''/'' @ x @ ''/../''"
    by (simp only: unixSlashes_append plain ux)
  define N where "N = (\<lambda>p. denied_norm (to_lower (slash @ join slash (rev (comps p)))))"
  define u where "u = unixSlashes a"
  define v where "v = unixSlashes (rtrim b)"
  have rooted: "deniedSensitivePath (a @ m @ b) = N (u @ unixSlashes m @ v)"
    if "m \<noteq> []" "\<not> is_space (last m)" for m
    unfolding N_def u_def v_def by (rule denied_rooted [OF assms(1, 2) that])
  have one: "deniedSensitivePath (a @ ''/'' @ b) = N (u @ ''/'' @ v)"
    using rooted [of "''/''"] ends_at by (simp add: plain)
  have "N (u @ (''/'' @ x @ ''/../'') @ v) = N (u @ ''/'' @ v)"
    unfolding N_def append_assoc by (subst comps_parent) (use x in auto)
  then have "deniedSensitivePath (a @ (''/'' @ x @ ''/../'') @ b) = deniedSensitivePath (a @ ''/'' @ b)"
    using rooted [of "''/'' @ x @ ''/../''"] ends_at way one by (simp del: unixSlashes_append)
  moreover have "deniedSensitivePath (a @ ''//'' @ b) = deniedSensitivePath (a @ ''/'' @ b)"
    using rooted [of "''//''"] ends_at one comps_same(1) [of u v] by (simp add: plain N_def)
  moreover have "deniedSensitivePath (a @ ''/./'' @ b) = deniedSensitivePath (a @ ''/'' @ b)"
    using rooted [of "''/./''"] ends_at one comps_same(2) [of u v] by (simp add: plain N_def)
  moreover have "deniedSensitivePath (a @ [CHR 0x5C] @ b) = deniedSensitivePath (a @ ''/'' @ b)"
    using rooted [of "[CHR 0x5C]"] ends_at one by (simp add: plain)
  ultimately show ?thesis by (simp only: append_assoc)
qed

theorem sensitive_path_spellings_witness:
  "deniedSensitivePath ''/etc/ssl/../shadow'' = deniedSensitivePath ''/etc/shadow'' \<and>
   deniedSensitivePath ''/etc//shadow'' = deniedSensitivePath ''/etc/shadow''"
  using sensitive_path_spellings [of "''/etc''" "''ssl''" "''shadow''"] by simp

end
