(* ===== verification/CmdSafety.thy ===== *)
theory CmdSafety
  imports CmdPolicy
begin

text \<open>
  What the checks of \<open>CmdPolicy\<close> guarantee about the shell that runs an accepted command, and what they let
  through. \<open>shell_pipes\<close> is the shell's view of a pipeline: it splits at the bars outside quotes only.
\<close>

section \<open>Pipelines as the shell reads them\<close>

fun pipes_acc :: "char option \<Rightarrow> string \<Rightarrow> string \<Rightarrow> string list" where
  "pipes_acc q cur [] = [rev cur]"
| "pipes_acc None cur (c # cs) =
     (if c = CHR ''|'' then rev cur # pipes_acc None [] cs
      else pipes_acc (if is_quote c then Some c else None) (c # cur) cs)"
| "pipes_acc (Some d) cur (c # cs) = pipes_acc (if c = d then None else Some d) (c # cur) cs"

definition shell_pipes :: "string \<Rightarrow> string list" where
  "shell_pipes s = pipes_acc None [] s"

text \<open>
  A text is a piece at the front of an element when it is the whole element, or when a bar follows and a
  quote stands before that bar.
\<close>

definition leads :: "bool \<Rightarrow> string \<Rightarrow> string \<Rightarrow> bool" where
  "leads quoted seg e \<longleftrightarrow>
     e = seg \<or> (\<exists>r. e = seg @ CHR ''|'' # r) \<and> (quoted \<or> (\<exists>c\<in>set seg. is_quote c))"

lemma leads_cons: "leads (quoted \<or> is_quote c) seg e \<Longrightarrow> leads quoted (c # seg) (c # e)"
  by (auto simp: leads_def)

lemma is_quote_bar: "\<not> is_quote CHR ''|''"
  by (simp add: is_quote_def)

lemma chunks_parts: "set (chunks d s) = insert (hd (chunks d s)) (set (tl (chunks d s)))"
  by (cases "chunks d s") auto

lemma pipes_lead:
  assumes "q = None \<or> (\<exists>d. q = Some d \<and> is_quote d)"
  shows "(\<exists>x. hd (pipes_acc q cur s) = rev cur @ x \<and> leads (q \<noteq> None) (hd (chunks CHR ''|'' s)) x) \<and>
    (\<forall>e\<in>set (tl (pipes_acc q cur s)). \<exists>seg\<in>set (tl (chunks CHR ''|'' s)). leads False seg e)"
  using assms
proof (induction q cur s rule: pipes_acc.induct)
  case (1 q cur)
  then show ?case by (auto simp: leads_def)
next
  case (2 cur c cs)
  show ?case
  proof (cases "c = CHR ''|''")
    case True
    from 2(1) [OF True] have ih: "leads False (hd (chunks CHR ''|'' cs)) (hd (pipes_acc None [] cs))"
      "\<forall>e\<in>set (tl (pipes_acc None [] cs)). \<exists>seg\<in>set (tl (chunks CHR ''|'' cs)). leads False seg e" by auto
    have "set (pipes_acc None [] cs) \<subseteq> insert (hd (pipes_acc None [] cs)) (set (tl (pipes_acc None [] cs)))"
      by (cases "pipes_acc None [] cs") auto
    with ih chunks_parts [of "CHR ''|''" cs] have "\<forall>e\<in>set (pipes_acc None [] cs). \<exists>seg\<in>set (chunks CHR ''|'' cs). leads False seg e" by blast
    with True show ?thesis by (auto simp: leads_def)
  next
    case False
    define q' where "q' = (if is_quote c then Some c else None)"
    have q: "q' = None \<or> (\<exists>d. q' = Some d \<and> is_quote d)" "q' \<noteq> None \<longleftrightarrow> False \<or> is_quote c" by (simp_all add: q'_def)
    from 2(2) [OF False q(1) [unfolded q'_def], folded q'_def, unfolded q(2)] obtain x where
      x: "hd (pipes_acc q' (c # cur) cs) = rev cur @ c # x" "leads (False \<or> is_quote c) (hd (chunks CHR ''|'' cs)) x"
      and rest: "\<forall>e\<in>set (tl (pipes_acc q' (c # cur) cs)). \<exists>seg\<in>set (tl (chunks CHR ''|'' cs)). leads False seg e"
      by auto
    from x(1) leads_cons [OF x(2)] rest False show ?thesis by (simp add: q'_def)
  qed
next
  case (3 d cur c cs)
  define q' where "q' = (if c = d then None else Some d)"
  from 3 have q: "is_quote d" "q' = None \<or> (\<exists>d. q' = Some d \<and> is_quote d)" by (auto simp: q'_def)
  obtain x where
    x: "hd (pipes_acc q' (c # cur) cs) = rev cur @ c # x" "leads (q' \<noteq> None) (hd (chunks CHR ''|'' cs)) x"
    and rest: "\<forall>e\<in>set (tl (pipes_acc q' (c # cur) cs)). \<exists>seg\<in>set (tl (chunks CHR ''|'' cs)). leads False seg e"
    using 3(1) [OF q(2) [unfolded q'_def]] by (auto simp: q'_def)
  show ?case
  proof (cases "c = CHR ''|''")
    case True
    have "\<forall>e\<in>set (tl (pipes_acc q' (c # cur) cs)). \<exists>seg\<in>set (chunks CHR ''|'' cs). leads False seg e"
      using rest chunks_parts [of "CHR ''|''" cs] by blast
    moreover have "leads True [] (c # x)" using True by (simp add: leads_def)
    ultimately show ?thesis using x(1) True by (simp add: q'_def)
  next
    case False
    have "leads (True \<or> is_quote c) (hd (chunks CHR ''|'' cs)) x" using x(2) by (auto simp: leads_def)
    from x(1) leads_cons [OF this] rest False show ?thesis by (simp add: q'_def)
  qed
qed


section \<open>Diagnostic commands\<close>

text \<open>The words at the front of a command line, case aside: nothing, or a space, follows them.\<close>

definition runs :: "string \<Rightarrow> string \<Rightarrow> bool" where
  "runs p e \<longleftrightarrow> (\<exists>t. to_lower (trim_space e) = p @ t \<and> (t = [] \<or> hd t = CHR '' ''))"

lemma segOK_listed:
  assumes "segOK seg"
  obtains p where "p \<in> set diag_allow" "to_lower (trim_space seg) = p \<or> (\<exists>t. to_lower (trim_space seg) = p @ CHR '' '' # t)"
  using assms by (auto simp: segOK_def has_prefix_iff Let_def)

lemma trim_split:
  obtains a b where "s = a @ trim_space s @ b" "\<forall>c\<in>set a. is_space c" "\<forall>c\<in>set b. is_space c"
    "trim_space s \<noteq> [] \<longrightarrow> \<not> is_space (hd (trim_space s)) \<and> \<not> is_space (last (trim_space s))"
proof -
  define u where "u = dropWhile is_space s"
  define b where "b = rev (takeWhile is_space (rev u))"
  have u: "u = trim_space s @ b"
    by (metis b_def rev_append rev_rev_ident takeWhile_dropWhile_id trim_space_def u_def)
  have "s = takeWhile is_space s @ u" unfolding u_def by simp
  with u have s: "s = takeWhile is_space s @ trim_space s @ b" by simp
  have ends: "trim_space s \<noteq> [] \<longrightarrow> \<not> is_space (hd (trim_space s)) \<and> \<not> is_space (last (trim_space s))"
  proof (intro impI conjI)
    assume that: "trim_space s \<noteq> []"
    have "hd u = hd (trim_space s)" "u \<noteq> []" using that by (subst u, simp)+
    then show "\<not> is_space (hd (trim_space s))" by (metis hd_dropWhile u_def)
  next
    assume "trim_space s \<noteq> []"
    then show "\<not> is_space (last (trim_space s))" unfolding trim_space_def last_rev by (metis hd_dropWhile rev.simps(1))
  qed
  show ?thesis by (rule that [OF s _ _ ends]) (auto simp: b_def dest: set_takeWhileD)
qed

lemma trim_spaces_front: "\<forall>c\<in>set a. is_space c \<Longrightarrow> trim_space (a @ s) = trim_space s"
  by (simp add: trim_space_def)

lemma no_quote_listed: "p \<in> set diag_allow \<Longrightarrow> p \<noteq> [] \<and> (\<forall>c\<in>set p. \<not> is_quote c)"
  by (auto simp: diag_allow_def is_quote_def)

lemma is_quote_lower: "is_quote (lower_char c) = is_quote c"
  by (cases c) (auto simp: is_quote_def lower_char_code)

lemma leads_runs:
  assumes "segOK seg" "leads False seg e"
  shows "\<exists>p\<in>set diag_allow. runs p e"
proof (cases "e = seg")
  case True
  with assms(1) show ?thesis by (auto simp: runs_def elim!: segOK_listed) fastforce
next
  case False
  with assms(2) obtain r c where e: "e = seg @ CHR ''|'' # r" and c: "c \<in> set seg" "is_quote c"
    by (auto simp: leads_def)
  obtain p where p: "p \<in> set diag_allow"
    "to_lower (trim_space seg) = p \<or> (\<exists>t. to_lower (trim_space seg) = p @ CHR '' '' # t)"
    using assms(1) by (rule segOK_listed)
  obtain a b where s: "seg = a @ trim_space seg @ b" "\<forall>c\<in>set a. is_space c" "\<forall>c\<in>set b. is_space c"
    "trim_space seg \<noteq> [] \<longrightarrow> \<not> is_space (hd (trim_space seg)) \<and> \<not> is_space (last (trim_space seg))"
    by (rule trim_split [of seg])
  have "\<not> is_space c" using c(2) by (auto simp: is_quote_def is_space_def)
  with c(1) s(1 - 3) have c': "c \<in> set (trim_space seg)" by (metis Un_iff set_append)
  have "to_lower (trim_space seg) \<noteq> p"
  proof
    assume "to_lower (trim_space seg) = p"
    with c' have "lower_char c \<in> set p" by (auto simp: to_lower_def)
    with no_quote_listed [OF p(1)] c(2) is_quote_lower show False by blast
  qed
  with p obtain t where t: "to_lower (trim_space seg) = p @ CHR '' '' # t" by blast
  have m: "trim_space seg \<noteq> []" using c' by auto
  have "e = a @ trim_space seg @ b @ CHR ''|'' # r" using e s(1) by simp
  then have "trim_space e = trim_space seg @ rtrim (b @ CHR ''|'' # r)"
    using trim_spaces_front [OF s(2)] trim_keeps [OF m] s(4) m by simp
  then have "to_lower (trim_space e) = p @ CHR '' '' # t @ to_lower (rtrim (b @ CHR ''|'' # r))"
    using t by (simp add: to_lower_def)
  with p(1) show ?thesis unfolding runs_def by fastforce
qed

lemma check_segments_ok: "check_segments ss = DiagOk \<longleftrightarrow> (\<forall>s\<in>set ss. check_segment s = DiagOk)"
  by (induction ss) (auto split: diag_result.splits)

lemma check_segment_ok: "check_segment s = DiagOk \<longleftrightarrow> segOK s \<and>
    (\<forall>dp\<in>set diag_denied. \<not> contains_sub (to_lower s) dp) \<and>
    (\<forall>tok\<in>set (str_fields s). path_like tok \<longrightarrow> \<not> deniedSensitivePath (trim_quotes tok))"
  by (auto simp: check_segment_def find_None_iff find_Some_iff split: option.splits)

text \<open>Whatever the shell runs for an accepted diagnostic command is on the list: every element of the
  pipeline it sees, with the bars inside quotes read as text, starts with the words of a listed command, and
  no character that chains, redirects or expands commands is left.\<close>

theorem diag_runs_listed:
  assumes "evaluateDiagCommand command = DiagOk" "e \<in> set (shell_pipes (trim_space command))"
  shows "(\<exists>p\<in>set diag_allow. runs p e) \<and> (\<forall>c\<in>set (trim_space command). \<not> diag_forbidden c)"
proof
  define s where "s = trim_space command"
  from assms(1) have ok: "\<forall>seg\<in>set (chunks CHR ''|'' s). segOK seg"
    and "\<forall>c\<in>set s. \<not> diag_forbidden c"
    by (auto simp: evaluateDiagCommand_def s_def split_chunks check_segments_ok check_segment_ok Let_def split: if_splits)
  then show "\<forall>c\<in>set (trim_space command). \<not> diag_forbidden c" by (simp add: s_def)
  from assms(2) have "e = hd (pipes_acc None [] s) \<or> e \<in> set (tl (pipes_acc None [] s))"
    unfolding shell_pipes_def s_def by (cases "pipes_acc None [] (trim_space command)") auto
  then obtain seg where "seg \<in> set (chunks CHR ''|'' s)" "leads False seg e"
    using pipes_lead [of None "[]" s] chunks_parts [of "CHR ''|''" s] by auto
  with ok leads_runs show "\<exists>p\<in>set diag_allow. runs p e" by blast
qed

theorem diag_runs_listed_witness:
  "\<exists>p\<in>set diag_allow. runs p ''grep -e 'ps | df ' /var/log/syslog ''"
proof -
  have "evaluateDiagCommand ''grep -e 'ps | df ' /var/log/syslog | wc -l'' = DiagOk" by code_simp
  moreover have "''grep -e 'ps | df ' /var/log/syslog '' \<in>
    set (shell_pipes (trim_space ''grep -e 'ps | df ' /var/log/syslog | wc -l''))" by code_simp
  ultimately show ?thesis using diag_runs_listed by blast
qed

text \<open>Pathname expansion of the shell: \<open>?\<close> stands for a character, \<open>*\<close> for any text.\<close>

fun glob_match :: "string \<Rightarrow> string \<Rightarrow> bool" where
  "glob_match [] s \<longleftrightarrow> s = []"
| "glob_match (g # gs) [] \<longleftrightarrow> g = CHR ''*'' \<and> glob_match gs []"
| "glob_match (g # gs) (c # cs) \<longleftrightarrow>
     (if g = CHR ''*'' then glob_match gs (c # cs) \<or> c \<noteq> CHR ''/'' \<and> glob_match (g # gs) cs
      else (g = CHR ''?'' \<and> c \<noteq> CHR ''/'' \<or> g = c) \<and> glob_match gs cs)"

text \<open>The list is neither read-only nor closed under what the shell does to a word: a pattern that expands
  to a refused file is accepted, as is reading a directory above one, and so are commands that write a file,
  set the clock, rename the host or clear the kernel log.\<close>

theorem diag_check_bypassed:
  "evaluateDiagCommand ''cat /etc/shadow'' = DiagSensitive ''/etc/shadow'' \<and>
   evaluateDiagCommand ''cat /etc/shad?w'' = DiagOk \<and> glob_match ''/etc/shad?w'' ''/etc/shadow'' \<and>
   list_all (\<lambda>c. evaluateDiagCommand c = DiagOk)
     [''grep -r root /etc'', ''sort -o /etc/cron.d/job /tmp/job'', ''date -s 10:00'', ''hostname web1'', ''dmesg -C'']"
proof (intro conjI)
  show "evaluateDiagCommand ''cat /etc/shadow'' = DiagSensitive ''/etc/shadow''" by code_simp
  show "evaluateDiagCommand ''cat /etc/shad?w'' = DiagOk" by code_simp
  show "glob_match ''/etc/shad?w'' ''/etc/shadow''" by code_simp
qed code_simp

section \<open>Commands of playbooks\<close>

lemma refused_None:
  "refused R pol cs = None \<longleftrightarrow> (\<forall>c\<in>set cs. trim_space c \<noteq> [] \<longrightarrow> fst (evaluatePlaybookCommand R c pol))"
  by (induction cs) (auto split: prod.splits bool.splits)

definition strict :: "cmd_policy \<Rightarrow> bool" where
  "strict pol \<longleftrightarrow> cp_mode pol = [] \<or> cp_mode pol = ''strict''"

lemma accepted_command:
  assumes "fst (evaluatePlaybookCommand R c pol)" "strict pol"
  shows "trim_space c \<noteq> []" "\<not> danger (trim_space c)" "\<forall>ch\<in>set (trim_space c). \<not> playbook_meta ch"
    "\<forall>seg\<in>set (split_sep (trim_space c) ''|''). trim_space seg \<noteq> [] \<longrightarrow> prefix_hit (allow_prefixes pol) (trim_space seg)"
    "\<not> forces_approval R pol c"
    "\<forall>pat\<in>set (cp_deny pol). trim_space pat \<noteq> [] \<longrightarrow> R (trim_space pat) (trim_space c) \<noteq> Some True"
  using assms
  by (auto simp: evaluatePlaybookCommand_def forces_approval_def strict_def find_None_iff Let_def
      split: if_splits option.splits)

lemma validate_None:
  "validatePlaybookCommands R pol sts = None \<longleftrightarrow> (\<forall>st\<in>set sts. validate_step R pol st = None)"
  by (induction sts) (auto split: option.splits)

lemma validatePlaybookModule_None:
  assumes "validatePlaybookModule st = None"
  shows "knownPlaybookModules (trim_space (ps_module st)) \<noteq> None"
    "\<forall>k\<in>set pathLikeModuleArgs. \<not> deniedSensitivePath (arg st k)"
  using assms by (auto simp: validatePlaybookModule_def find_None_iff Let_def split: option.splits if_splits)

text \<open>What a step may make a host run: its commands, unless it names a module, and its ways back.\<close>

definition step_commands :: "playbook_step \<Rightarrow> string list" where
  "step_commands st = (if trim_space (ps_module st) \<noteq> [] then [] else commands st) @ rollbacks st"

lemma validated_commands:
  assumes "validatePlaybookCommands R pol sts = None" "st \<in> set sts" "c \<in> set (step_commands st)" "trim_space c \<noteq> []"
  shows "fst (evaluatePlaybookCommand R c pol)"
proof -
  from assms(1, 2) have "validate_step R pol st = None" by (simp add: validate_None)
  with assms(3, 4) show ?thesis
    by (auto simp: validate_step_def step_commands_def refused_None Let_def split: option.splits if_splits)
qed

text \<open>Whatever the mode, an accepted command matches no dangerous pattern and no refusal of the configuration.\<close>

lemma accepted_command_clean:
  assumes "fst (evaluatePlaybookCommand R c pol)"
  shows "trim_space c \<noteq> []" "\<not> danger (trim_space c)"
    "\<forall>pat\<in>set (cp_deny pol). trim_space pat \<noteq> [] \<longrightarrow> R (trim_space pat) (trim_space c) \<noteq> Some True"
  using assms by (auto simp: evaluatePlaybookCommand_def Let_def split: if_splits)

text \<open>What the strict policy promises of a command: no stretch of it matches a dangerous pattern or a refusal of
  the configuration, none of its characters is one of \<open>;$<>\<close> or a backquote, and every part between two bars
  starts with a listed prefix. Parts joined by \<open>&&\<close>, by \<open>&\<close> or by a line break are one part to the policy.\<close>

definition policy_clean :: "custom_patterns \<Rightarrow> cmd_policy \<Rightarrow> string \<Rightarrow> bool" where
  "policy_clean R pol s \<longleftrightarrow>
     (\<forall>r\<in>set dangerCmdRes. \<forall>i\<le>length s. \<forall>j. \<not> span s r i j) \<and>
     (\<forall>pat\<in>set (cp_deny pol). trim_space pat \<noteq> [] \<longrightarrow> R (trim_space pat) s \<noteq> Some True)"

definition policy_listed :: "cmd_policy \<Rightarrow> string \<Rightarrow> bool" where
  "policy_listed pol s \<longleftrightarrow>
     (\<forall>ch\<in>set s. ch \<notin> set ('';$<>'' @ [CHR 0x60])) \<and>
     (\<forall>seg\<in>set (split_sep s ''|''). trim_space seg \<noteq> [] \<longrightarrow> prefix_hit (allow_prefixes pol) (trim_space seg))"

lemma danger_spans: "\<not> danger s \<longleftrightarrow> (\<forall>r\<in>set dangerCmdRes. \<forall>i\<le>length s. \<forall>j. \<not> span s r i j)"
  by (auto simp: danger_def re_match_span)

lemma accepted_clean: "fst (evaluatePlaybookCommand R c pol) \<Longrightarrow> policy_clean R pol (trim_space c)"
  using accepted_command_clean [of R c pol] by (simp add: policy_clean_def danger_spans)

lemma accepted_listed: "fst (evaluatePlaybookCommand R c pol) \<Longrightarrow> strict pol \<Longrightarrow> policy_listed pol (trim_space c)"
  using accepted_command [of R c pol] by (simp add: policy_listed_def playbook_meta_def)

text \<open>C16. A playbook that passes the validation holds, in every command and way back of its steps as written,
  no stretch that matches a dangerous pattern or a refusal of the configuration; under the strict policy none of
  them holds a semicolon, dollar sign, angle bracket or backquote, every part between two bars starts with a listed prefix, and none
  asks for an approval. A module is of the catalogue and is given no sensitive path.\<close>

theorem accepted_playbook_sound:
  assumes "validatePlaybookCommands R pol sts = None" "st \<in> set sts"
  shows "(\<forall>c\<in>set (step_commands st). trim_space c \<noteq> [] \<longrightarrow> policy_clean R pol (trim_space c) \<and>
      (strict pol \<longrightarrow> policy_listed pol (trim_space c) \<and> \<not> forces_approval R pol c)) \<and>
    (trim_space (ps_module st) \<noteq> [] \<longrightarrow> knownPlaybookModules (trim_space (ps_module st)) \<noteq> None \<and>
      (\<forall>k\<in>set pathLikeModuleArgs. \<not> deniedSensitivePath (arg st k)))"
proof -
  from assms have step: "validate_step R pol st = None" by (simp add: validate_None)
  have "\<forall>c\<in>set (step_commands st). trim_space c \<noteq> [] \<longrightarrow> fst (evaluatePlaybookCommand R c pol)"
    using validated_commands [OF assms] by blast
  then show ?thesis
    using step accepted_clean accepted_listed accepted_command(5) validatePlaybookModule_None [of st]
    by (auto simp: Let_def validate_step_def split: option.splits if_splits)
qed

definition empty_step :: playbook_step where
  "empty_step = \<lparr>ps_name = [], ps_command = [], ps_commandWin = [], ps_commandMac = [], ps_rollback = [],
     ps_rollbackWin = [], ps_rollbackMac = [], ps_module = [], ps_args = [], ps_target = ''all'', ps_when = [],
     ps_register = [], ps_continueErr = False, ps_ignoreExit = False, ps_retryOnExit = False, ps_maxAttempts = 3,
     ps_retryDelaySec = 2, ps_timeoutSec = 30\<rparr>"

definition restart_step :: playbook_step where
  "restart_step = empty_step\<lparr>ps_command := ''systemctl restart nginx'', ps_rollback := ''systemctl stop nginx | cat''\<rparr>"

definition default_policy :: cmd_policy where
  "default_policy = \<lparr>cp_mode = [], cp_allow = [], cp_deny = [], cp_disableBuiltins = False\<rparr>"

theorem accepted_playbook_sound_witness:
  "validatePlaybookCommands (\<lambda>_ _. None) default_policy [restart_step] = None \<and>
   policy_clean (\<lambda>_ _. None) default_policy ''systemctl stop nginx | cat'' \<and>
   policy_listed default_policy ''systemctl stop nginx | cat'' \<and>
   \<not> forces_approval (\<lambda>_ _. None) default_policy ''systemctl restart nginx''"
proof -
  have v: "validatePlaybookCommands (\<lambda>_ _. None) default_policy [restart_step] = None" by code_simp
  have s: "strict default_policy" by (simp add: strict_def default_policy_def)
  have c: "''systemctl restart nginx'' \<in> set (step_commands restart_step)"
    "''systemctl stop nginx | cat'' \<in> set (step_commands restart_step)"
    by (simp_all add: step_commands_def commands_def rollbacks_def restart_step_def empty_step_def)
  have t: "trim_space ''systemctl stop nginx | cat'' = ''systemctl stop nginx | cat''"
    "trim_space ''systemctl restart nginx'' \<noteq> []" "''systemctl stop nginx | cat'' \<noteq> []" by code_simp+
  note sound = accepted_playbook_sound [OF v, of restart_step, THEN conjunct1]
  from bspec [OF sound c(2)] s t have "policy_clean (\<lambda>_ _. None) default_policy ''systemctl stop nginx | cat'' \<and>
      policy_listed default_policy ''systemctl stop nginx | cat''" by (simp only: list.set_intros simp_thms)
  moreover from bspec [OF sound c(1)] s t have "\<not> forces_approval (\<lambda>_ _. None) default_policy ''systemctl restart nginx''"
    by (simp only: list.set_intros simp_thms)
  ultimately show ?thesis using v by (simp only: simp_thms)
qed

end
