(* ===== verification/OsIdentity.thy ===== *)
theory OsIdentity
  imports HostScope
begin

text \<open>
  The operating system of a host, read from what its agent reports, and the selectors of playbooks on it
  (\<open>cmd/server/os_identity.go\<close>). A host is the entry of the store with the fields used here; the nil host of the
  Go functions, which no caller passes, is left out.
\<close>

record os_host = host_info +
  oh_hostname :: string
  oh_ip :: string
  oh_os :: string
  oh_arch :: string
  oh_platform :: string

record hostDistroProfile =
  dp_goos :: string
  dp_id :: string
  dp_family :: string
  dp_version :: string
  dp_platform :: string

definition has_any :: "string \<Rightarrow> string list \<Rightarrow> bool" where
  "has_any blob ps \<longleftrightarrow> (\<exists>p\<in>set ps. contains_sub blob p)"

definition mac_names :: "string list" where
  "mac_names = [''macos'', ''osx'', ''mac'']"

definition classifyHostDistro :: "string \<Rightarrow> string \<times> string" where
  "classifyHostDistro blob =
     (if has_any blob [''kylin'', ''neokylin'', ''kylinos''] then (''kylin'', ''kylin'')
      else if has_any blob [''uos'', ''deepin''] then (''uos'', ''uos'')
      else if has_any blob [''rocky''] then (''rocky'', ''rhel'')
      else if has_any blob [''alma''] then (''almalinux'', ''rhel'')
      else if has_any blob [''centos''] then (''centos'', ''rhel'')
      else if has_any blob [''red hat'', ''rhel'', ''redhat''] then (''rhel'', ''rhel'')
      else if has_any blob [''openeuler''] then (''openeuler'', ''rhel'')
      else if has_any blob [''euleros'', ''euler os''] then (''euleros'', ''rhel'')
      else if has_any blob [''alibaba cloud linux'', ''alibabacloudlinux'', ''alinux''] \<or>
        has_any blob [''alibaba''] \<and> has_any blob [''linux''] then (''alinux'', ''rhel'')
      else if has_any blob [''anolis''] then (''anolis'', ''rhel'')
      else if has_any blob [''amazon linux'', ''amzn''] then (''amzn'', ''rhel'')
      else if has_any blob [''fedora''] then (''fedora'', ''rhel'')
      else if has_any blob [''ubuntu''] then (''ubuntu'', ''debian'')
      else if has_any blob [''debian''] then (''debian'', ''debian'')
      else if has_any blob [''suse'', ''sles''] then (''suse'', ''suse'')
      else if has_any blob [''alpine''] then (''alpine'', ''alpine'')
      else if has_any blob [''arch''] then (''arch'', ''arch'')
      else if has_any blob [''linux''] then (''linux'', ''linux'')
      else ([], ''linux''))"

definition is_digit :: "char \<Rightarrow> bool" where
  "is_digit c \<longleftrightarrow> 48 \<le> (of_char c :: nat) \<and> (of_char c :: nat) \<le> 57"

fun leading_number :: "string list \<Rightarrow> string" where
  "leading_number [] = []"
| "leading_number (t # ts) =
     (let n = takeWhile is_digit (dropWhile (\<lambda>c. c = CHR ''v'' \<or> c = CHR ''('') t) in
      if n \<noteq> [] then n else leading_number ts)"

definition normalizeHostDistroMajor :: "string \<Rightarrow> string" where
  "normalizeHostDistroMajor raw =
     (let s = trim_space raw; lower = to_lower s in
      if s = [] then []
      else if contains_sub lower ''kylin'' \<or>
        has_prefix (dropWhile (\<lambda>c. c = CHR '' '' \<or> c = CHR 0x09) lower) ''v''
      then (case find (\<lambda>m. contains_sub lower (CHR ''v'' # m)) [''11'', ''10'', ''9'', ''8''] of
              Some m \<Rightarrow> m
            | None \<Rightarrow> leading_number (str_fields lower))
      else leading_number (str_fields lower))"

definition normalizeWindowsVersion :: "string \<Rightarrow> string" where
  "normalizeWindowsVersion platform =
     (let lower = to_lower platform in
      case find (\<lambda>yr. contains_sub lower ''server'' \<and> contains_sub lower yr)
          [''2025'', ''2022'', ''2019'', ''2016'', ''2012''] of
        Some yr \<Rightarrow> yr
      | None \<Rightarrow>
          if has_any lower [''windows 11'', ''windows11''] then ''11''
          else if has_any lower [''windows 10'', ''windows10''] then ''10''
          else normalizeHostDistroMajor platform)"

definition windows_profile :: "string \<Rightarrow> hostDistroProfile" where
  "windows_profile platform =
     \<lparr>dp_goos = ''windows'', dp_id = ''windows'', dp_family = ''windows'',
      dp_version = normalizeWindowsVersion platform, dp_platform = platform\<rparr>"

definition darwin_profile :: "string \<Rightarrow> hostDistroProfile" where
  "darwin_profile platform =
     \<lparr>dp_goos = ''darwin'', dp_id = ''darwin'', dp_family = ''darwin'',
      dp_version = normalizeHostDistroMajor platform, dp_platform = platform\<rparr>"

definition linux_profile :: "string \<Rightarrow> string \<Rightarrow> string \<Rightarrow> hostDistroProfile" where
  "linux_profile goos blob platform =
     \<lparr>dp_goos = goos, dp_id = fst (classifyHostDistro blob), dp_family = snd (classifyHostDistro blob),
      dp_version = normalizeHostDistroMajor platform, dp_platform = platform\<rparr>"

definition hostDistro :: "'a os_host_scheme \<Rightarrow> hostDistroProfile" where
  "hostDistro h =
     (let raw = to_lower (trim_space (oh_os h));
          goos = (if raw \<in> set mac_names then ''darwin'' else raw);
          platform = trim_space (oh_platform h);
          blob = to_lower (platform @ '' '' @ goos)
      in if goos = ''windows'' then windows_profile platform
      else if goos = ''darwin'' then darwin_profile platform
      else if goos = ''linux'' then linux_profile goos blob platform
      else if contains_sub blob ''windows'' then windows_profile platform
      else if has_any blob [''macos'', ''darwin''] then darwin_profile platform
      else linux_profile (if goos = [] then ''linux'' else goos) blob platform)"

definition distroVersionMatches :: "string \<Rightarrow> string \<Rightarrow> bool" where
  "distroVersionMatches want0 have0 =
     (let want = trim_space (to_lower want0); hv = trim_space (to_lower have0) in
      if want = [] then True
      else if hv = [] then False
      else want = hv \<or> normalizeHostDistroMajor hv = want \<or>
        has_prefix hv (want @ ''.'') \<or> has_prefix want (hv @ ''.''))"

text \<open>The switch over the part of a selector before the first colon.\<close>

definition base_matches :: "'a os_host_scheme \<Rightarrow> hostDistroProfile \<Rightarrow> string \<Rightarrow> bool" where
  "base_matches h p base =
     (if base = ''linux'' then dp_goos p = ''linux''
      else if base = ''windows'' then dp_goos p = ''windows''
      else if base = ''darwin'' \<or> base \<in> set mac_names then dp_goos p = ''darwin''
      else if base \<in> {''rocky'', ''rockylinux''} then dp_id p = ''rocky'' \<or> contains_sub (to_lower (dp_platform p)) ''rocky''
      else if base \<in> {''kylin'', ''neokylin'', ''kylinos''} then dp_id p = ''kylin'' \<or> dp_family p = ''kylin''
      else if base \<in> {''rhel'', ''redhat''} then dp_family p = ''rhel'' \<or> dp_id p = ''rhel''
      else if base = ''centos'' then dp_id p = ''centos''
      else if base \<in> {''alma'', ''almalinux''} then dp_id p = ''almalinux''
      else if base = ''debian'' then dp_family p = ''debian'' \<or> dp_id p = ''debian''
      else if base = ''ubuntu'' then dp_id p = ''ubuntu''
      else if base = ''uos'' then dp_id p = ''uos'' \<or> dp_family p = ''uos''
      else if base = ''openeuler'' then dp_id p = ''openeuler''
      else if base \<in> {''euleros'', ''euler''} then dp_id p = ''euleros''
      else if base \<in> {''alinux'', ''alibaba'', ''alibabacloudlinux''} then dp_id p = ''alinux''
      else if base = ''anolis'' then dp_id p = ''anolis''
      else if base \<in> {''amzn'', ''amazon'', ''amazonlinux''} then dp_id p = ''amzn''
      else if base = ''fedora'' then dp_id p = ''fedora''
      else to_lower (oh_os h) = base \<or> dp_id p = base \<or> dp_family p = base \<or>
        contains_sub (to_lower (dp_platform p)) base)"

definition colon_split :: "string \<Rightarrow> string \<times> string" where
  "colon_split sys =
     (case index_of '':'' sys of None \<Rightarrow> (sys, []) | Some i \<Rightarrow> (take i sys, drop (i + 1) sys))"

definition matchHostSystemSelector :: "'a os_host_scheme \<Rightarrow> string \<Rightarrow> bool" where
  "matchHostSystemSelector h sys0 =
     (let sys = to_lower (trim_space sys0); p = hostDistro h; base = fst (colon_split sys); want = snd (colon_split sys) in
      if sys = [] then False
      else if \<not> base_matches h p base then False
      else if want = [] then True
      else distroVersionMatches want (dp_version p) \<or> contains_sub (to_lower (dp_platform p)) want)"

definition system_bases :: "string list" where
  "system_bases = [''linux'', ''windows'', ''macos'', ''darwin'', ''osx'', ''mac'', ''rocky'', ''rockylinux'',
     ''kylin'', ''neokylin'', ''kylinos'', ''rhel'', ''redhat'', ''centos'', ''alma'', ''almalinux'', ''ubuntu'',
     ''debian'', ''uos'', ''openeuler'', ''euleros'', ''euler'', ''alinux'', ''alibaba'', ''alibabacloudlinux'',
     ''anolis'', ''amzn'', ''amazon'', ''amazonlinux'', ''fedora'']"

definition knownPlaybookSystemBase :: "string \<Rightarrow> bool" where
  "knownPlaybookSystemBase base \<longleftrightarrow> to_lower (trim_space base) \<in> set system_bases"

section \<open>Versions\<close>

definition linux_host :: "string \<Rightarrow> string \<Rightarrow> os_host" where
  "linux_host i platform = \<lparr>he_id = i, he_category = [], he_lastSeen = 0, oh_hostname = i, oh_ip = [],
     oh_os = ''linux'', oh_arch = ''amd64'', oh_platform = platform\<rparr>"

text \<open>A version in a selector does not keep other versions out: the fallback on the platform text takes
  the number anywhere in it, so a playbook for Rocky 9 also runs on Rocky 8.9, whose version is read
  correctly as 8.\<close>

theorem version_selector_leaks:
  "dp_version (hostDistro (linux_host ''a'' ''Rocky Linux 8.9'')) = ''8'' \<and>
   matchHostSystemSelector (linux_host ''a'' ''Rocky Linux 8.9'') ''rocky:9''"
proof
  show "dp_version (hostDistro (linux_host ''a'' ''Rocky Linux 8.9'')) = ''8''" by code_simp
qed code_simp

end
