(* ===== verification/Playbook.thy ===== *)
theory Playbook
  imports CmdPolicy OsIdentity
begin

text \<open>
  What a playbook says and how it is read for a host: the targets of its steps (\<open>cmd/server/playbook.go\<close>), the
  variables in its texts, their validation (\<open>cmd/server/playbook_modules.go\<close>), the conditions and the command of
  a step on a host (\<open>cmd/server/playbook_api.go\<close>). A command is a shell line or the call of a module, whose JSON
  envelope is left out. The comparison of two decimals by \<open>strconv.ParseFloat\<close> and \<open>strings.ToLower\<close> on a whole
  condition are parameters (\<open>go_text\<close>); a slice out of range is \<^term>\<open>None :: 'a option\<close>.
\<close>

section \<open>Targets\<close>

definition drop_seen :: "string list \<Rightarrow> string list" where
  "drop_seen ps = foldl (\<lambda>out p. if p = [] \<or> p \<in> set out then out else out @ [p]) [] ps"

definition splitPlaybookTargets :: "string \<Rightarrow> string list" where
  "splitPlaybookTargets target0 =
     (let target = trim_space target0 in
      if target = [] then []
      else if CHR '','' \<notin> set target then [target]
      else drop_seen (map trim_space (split_sep target '','')))"

definition target_prefixes :: "string list" where
  "target_prefixes = [''folder:'', ''category:'', ''system:'', ''host:'']"

definition validPlaybookTargetOne :: "string \<Rightarrow> bool" where
  "validPlaybookTargetOne target0 =
     (let target = trim_space target0 in
      if target = [] \<or> target = ''all'' then True
      else case find (has_prefix target) target_prefixes of
             None \<Rightarrow> False
           | Some p \<Rightarrow>
               let v = trim_space (drop (length p) target) in
               if v = [] then False
               else if p = ''system:'' then knownPlaybookSystemBase (fst (colon_split v)) else True)"

definition validPlaybookTarget :: "string \<Rightarrow> bool" where
  "validPlaybookTarget target0 =
     (let target = trim_space target0; parts = splitPlaybookTargets target in
      if target = [] then False
      else if target = ''all'' then True
      else parts \<noteq> [] \<and> (\<forall>p\<in>set parts. validPlaybookTargetOne p))"

text \<open>The category of a host is the one an operator set, before the one its agent reports.\<close>

definition effective_category :: "folder_cfg \<Rightarrow> 'a os_host_scheme \<Rightarrow> string" where
  "effective_category c h = (case map_of (cats_of c) (he_id h) of Some ov \<Rightarrow> ov | None \<Rightarrow> he_category h)"

definition target_takes :: "string \<Rightarrow> folder_cfg \<Rightarrow> string \<Rightarrow> 'a os_host_scheme \<Rightarrow> bool" where
  "target_takes uncategorized c target h =
     (if target = [] \<or> target = ''all'' then True
      else if has_prefix target ''folder:'' then
        (let f = trim_space (drop 7 target) in
         f \<noteq> [] \<and> (hostFolderOf c (he_id h) = f \<or>
           f \<noteq> HostFolderUngroupedID \<and> hostFolderOf c (he_id h) \<in> set (FolderDescendantIDs c f)))
      else if has_prefix target ''category:'' then
        (let cat = drop 9 target; e = effective_category c h in e = cat \<or> e = [] \<and> cat = uncategorized)
      else if has_prefix target ''system:'' then matchHostSystemSelector h (to_lower (drop 7 target))
      else if has_prefix target ''host:'' then he_id h = drop 5 target
      else False)"

definition resolveOneTarget :: "string \<Rightarrow> folder_cfg \<Rightarrow> string \<Rightarrow> 'a os_host_scheme list \<Rightarrow> 'a os_host_scheme list" where
  "resolveOneTarget uncategorized c target hosts = filter (target_takes uncategorized c (trim_space target)) hosts"

definition add_new :: "'a os_host_scheme list \<Rightarrow> 'a os_host_scheme list \<Rightarrow> 'a os_host_scheme list" where
  "add_new out hs = foldl (\<lambda>out h. if he_id h \<in> he_id ` set out then out else out @ [h]) out hs"

fun union_targets :: "string \<Rightarrow> folder_cfg \<Rightarrow> string list \<Rightarrow> 'a os_host_scheme list \<Rightarrow> 'a os_host_scheme list \<Rightarrow>
    'a os_host_scheme list" where
  "union_targets u c [] hosts out = out"
| "union_targets u c (p # ps) hosts out =
     (if p = ''all'' then resolveOneTarget u c ''all'' hosts
      else union_targets u c ps hosts (add_new out (resolveOneTarget u c p hosts)))"

definition ResolveTargets :: "string \<Rightarrow> folder_cfg \<Rightarrow> string \<Rightarrow> 'a os_host_scheme list \<Rightarrow> 'a os_host_scheme list" where
  "ResolveTargets uncategorized c target hosts =
     (case splitPlaybookTargets (trim_space target) of
        [] \<Rightarrow> resolveOneTarget uncategorized c ''all'' hosts
      | [p] \<Rightarrow> resolveOneTarget uncategorized c p hosts
      | ps \<Rightarrow> union_targets uncategorized c ps hosts [])"

text \<open>The hosts a run goes to: those online that some step names. Go keeps them in a map; the order here is
  that of their first mention.\<close>

definition host_online :: "int \<Rightarrow> int \<Rightarrow> 'a os_host_scheme \<Rightarrow> bool" where
  "host_online offlineSec now h \<longleftrightarrow> now - he_lastSeen h \<le> offlineSec"

definition onlinePlaybookTargets :: "string \<Rightarrow> folder_cfg \<Rightarrow> int \<Rightarrow> int \<Rightarrow> playbook_step list \<Rightarrow>
    'a os_host_scheme list \<Rightarrow> 'a os_host_scheme list" where
  "onlinePlaybookTargets u c offlineSec now sts store =
     (let hosts = filter (host_online offlineSec now) store in
      add_new [] (concat (map (\<lambda>st. ResolveTargets u c (ps_target st) hosts) sts)))"

section \<open>Variables\<close>

definition pbVarRE :: re where
  "pbVarRE = seq_re [Str ''{{'', Star (One SpaceClass), One NameStart, Star (One WordClass), Star (One SpaceClass), Str ''}}'']"

text \<open>The submatch of \<open>pbVarRE\<close>: the name between the braces.\<close>

definition var_name :: "string \<Rightarrow> string" where
  "var_name m = takeWhile word_char (dropWhile (in_class SpaceClass) (drop 2 m))"

type_synonym pb_vars = "string \<Rightarrow> string option"

definition var_value :: "pb_vars \<Rightarrow> string \<Rightarrow> string" where
  "var_value vars v = (case vars v of None \<Rightarrow> [] | Some x \<Rightarrow> x)"

definition substitutePlaybookVars :: "string \<Rightarrow> pb_vars \<Rightarrow> string" where
  "substitutePlaybookVars s vars = replace_all pbVarRE (\<lambda>m. var_value vars (var_name m)) s"

definition playbookHostVars :: "'a os_host_scheme \<Rightarrow> pb_vars" where
  "playbookHostVars h =
     (let d = hostDistro h; raw = to_lower (oh_os h); os = (if raw \<in> set mac_names then ''darwin'' else raw) in
      map_of [(''host_id'', he_id h), (''hostname'', oh_hostname h), (''ip'', oh_ip h), (''os'', os),
        (''arch'', to_lower (trim_space (oh_arch h))), (''platform'', oh_platform h), (''os_family'', dp_family d),
        (''distro'', dp_id d), (''distro_id'', dp_id d), (''distro_version'', dp_version d),
        (''category'', he_category h)])"

datatype var_error = UnknownVariable string string | BadRegister

definition known_at_start :: "string list" where
  "known_at_start = [''host_id'', ''hostname'', ''ip'', ''os'', ''category'']"

definition var_fields :: "playbook_step \<Rightarrow> (string \<times> string) list" where
  "var_fields st =
     [(''command'', ps_command st), (''command_win'', ps_commandWin st), (''command_mac'', ps_commandMac st),
      (''when'', ps_when st), (''rollback'', ps_rollback st), (''rollback_win'', ps_rollbackWin st),
      (''rollback_mac'', ps_rollbackMac st)] @ map (\<lambda>(k, v). (''args.'' @ k, v)) (ps_args st)"

definition references :: "string \<Rightarrow> string list" where
  "references v = map var_name (find_all pbVarRE v 0)"

definition first_unknown :: "string list \<Rightarrow> (string \<times> string) list \<Rightarrow> var_error option" where
  "first_unknown known fs =
     (case find (\<lambda>(f, x). x \<notin> set known) (concat (map (\<lambda>(f, v). map (\<lambda>x. (f, x)) (references v)) fs)) of
        None \<Rightarrow> None | Some (f, x) \<Rightarrow> Some (UnknownVariable f x))"

definition register_ok :: "string \<Rightarrow> bool" where
  "register_ok reg \<longleftrightarrow> ends (seq_re [One NameStart, Star (One WordClass), EndT]) reg 0 \<noteq> []"

fun validatePlaybookVariables :: "string list \<Rightarrow> playbook_step list \<Rightarrow> var_error option" where
  "validatePlaybookVariables known [] = None"
| "validatePlaybookVariables known (st # sts) =
     (case first_unknown known (var_fields st) of
        Some e \<Rightarrow> Some e
      | None \<Rightarrow>
          if ps_register st = [] then validatePlaybookVariables known sts
          else let reg = trim_space (ps_register st) in
               if register_ok reg then validatePlaybookVariables (reg # known) sts else Some BadRegister)"

section \<open>Conditions\<close>

record go_text =
  gt_lower :: "string \<Rightarrow> string"
  gt_less :: "string \<Rightarrow> string \<Rightarrow> bool option"
  gt_less_equal :: "string \<Rightarrow> string \<Rightarrow> bool option"

definition normalizeWhenToken :: "string \<Rightarrow> string" where
  "normalizeWhenToken s0 =
     (let s = to_lower (trim_space s0) in
      if s \<in> set mac_names then ''darwin''
      else if s = ''rockylinux'' then ''rocky''
      else if s \<in> {''kylinos'', ''neokylin''} then ''kylin''
      else if s = ''redhat'' then ''rhel''
      else if s = ''almalinux'' then ''alma''
      else if s = ''euler'' then ''euleros''
      else if s \<in> {''alibaba'', ''alibabacloudlinux''} then ''alinux''
      else if s \<in> {''amazon'', ''amazonlinux''} then ''amzn''
      else s)"

definition whenValuesEqual :: "string \<Rightarrow> string \<Rightarrow> bool" where
  "whenValuesEqual a b \<longleftrightarrow> trim_space a = trim_space b \<or> normalizeWhenToken a = normalizeWhenToken b"

definition when_ops :: "string list" where
  "when_ops = [''contains'', ''>='', ''<='', ''=='', ''!='', ''>'', ''<'']"

definition compares :: "bool option \<Rightarrow> bool" where
  "compares r \<longleftrightarrow> r = Some True"

definition when_op :: "go_text \<Rightarrow> string \<Rightarrow> string \<Rightarrow> string \<Rightarrow> bool" where
  "when_op T op l r =
     (if op = ''contains'' then contains_sub (gt_lower T l) (gt_lower T r)
      else if op = ''=='' then whenValuesEqual l r
      else if op = ''!='' then \<not> whenValuesEqual l r
      else if op = ''>='' then compares (gt_less_equal T r l)
      else if op = ''<='' then compares (gt_less_equal T l r)
      else if op = ''>'' then compares (gt_less T r l)
      else compares (gt_less T l r))"

definition when_true :: "go_text \<Rightarrow> string \<Rightarrow> bool" where
  "when_true T w \<longleftrightarrow> gt_lower T w \<notin> {[], ''false'', ''0'', ''no'', ''off''}"

definition evalPlaybookWhen :: "go_text \<Rightarrow> string \<Rightarrow> pb_vars \<Rightarrow> bool panics" where
  "evalPlaybookWhen T when0 vars =
     (let w = trim_space (substitutePlaybookVars when0 vars); lower = gt_lower T w in
      if w = [] then Some False
      else case find (\<lambda>op. contains_sub lower op) when_ops of
             None \<Rightarrow> Some (when_true T w)
           | Some op \<Rightarrow>
               let i = the (index_of op lower) in
               (case (subslice w 0 i, slice_from w (i + length op)) of
                  (Some l, Some r) \<Rightarrow> Some (when_op T op (trim_space l) (trim_space r))
                | _ \<Rightarrow> None))"

section \<open>The command of a step on a host\<close>

datatype host_command = Shell string | Module string "(string \<times> string) list"

definition by_system :: "'a os_host_scheme \<Rightarrow> string \<Rightarrow> string \<Rightarrow> string \<Rightarrow> string" where
  "by_system h dflt win mac =
     (let os = normalizeWhenToken (oh_os h) in
      if os = ''windows'' \<and> trim_space win \<noteq> [] then win
      else if os = ''darwin'' \<and> trim_space mac \<noteq> [] then mac
      else dflt)"

definition buildModuleCommand :: "string \<Rightarrow> (string \<times> string) list \<Rightarrow> pb_vars \<Rightarrow> host_command" where
  "buildModuleCommand m args vars = Module m (map (\<lambda>(k, v). (k, substitutePlaybookVars v vars)) args)"

definition resolvePlaybookCommand :: "playbook_step \<Rightarrow> 'a os_host_scheme \<Rightarrow> pb_vars \<Rightarrow> host_command" where
  "resolvePlaybookCommand st h vars =
     (if ps_module st \<noteq> [] then buildModuleCommand (ps_module st) (ps_args st) vars
      else Shell (substitutePlaybookVars (by_system h (ps_command st) (ps_commandWin st) (ps_commandMac st)) vars))"

definition resolvePlaybookRollback :: "playbook_step \<Rightarrow> 'a os_host_scheme \<Rightarrow> pb_vars \<Rightarrow> string" where
  "resolvePlaybookRollback st h vars =
     substitutePlaybookVars (by_system h (ps_rollback st) (ps_rollbackWin st) (ps_rollbackMac st)) vars"

end
