(* ===== verification/PlaybookRun.thy ===== *)
theory PlaybookRun
  imports Playbook CmdSafety
begin

text \<open>
  The run of a playbook on its hosts (\<open>runPlaybookExecution\<close> in \<open>cmd/server/playbook_api.go\<close>). What happens
  outside is an environment: \<open>en_exec n c\<close> is the outcome of the command sent at tick \<open>n\<close>, \<open>en_stopped n\<close> whether
  the run has been stopped when the context is looked at for the \<open>n\<close>-th time; every look and every command is
  a tick. The hosts run one beside the other and share nothing but the record of the execution
  (\<open>PlaybookStore\<close>), so a host is a function of its own environment. Left out: the delays between attempts, the
  bound on hosts at a time, durations, and the output kept for display. The notes that retries append to an
  output are part of the environment, because a registered variable contains them.
\<close>

section \<open>The outcome of a command\<close>

datatype exec_kind = ExecOK | ExecExit | ExecTimeout | ExecNoPickup | ExecAbnormal | ExecCancelled

definition retryable :: "exec_kind \<Rightarrow> bool" where
  "retryable k \<longleftrightarrow> k = ExecTimeout \<or> k = ExecNoPickup \<or> k = ExecAbnormal"

fun execKindReason :: "exec_kind \<Rightarrow> string" where
  "execKindReason ExecNoPickup = ''no_pickup''"
| "execKindReason ExecTimeout = ''timeout''"
| "execKindReason ExecExit = ''exit''"
| "execKindReason ExecAbnormal = ''error''"
| "execKindReason ExecCancelled = ''cancelled''"
| "execKindReason ExecOK = ''error''"

definition last_index_of :: "string \<Rightarrow> string \<Rightarrow> nat option" where
  "last_index_of p s = map_option (\<lambda>j. length s - length p - j) (index_of (rev p) (rev s))"

text \<open>\<open>fmt.Sscanf\<close> with \<open>%d\<close>: a sign and digits, zero when there are none or they do not fit.\<close>

definition scan_int :: "string \<Rightarrow> int" where
  "scan_int s =
     (let sign = takeWhile (\<lambda>c. c = CHR ''-'' \<or> c = CHR ''+'') (take 1 s);
          ds = takeWhile is_digit (drop (length sign) s)
      in if ds = [] then 0 else case parse_int 10 (sign @ ds) of None \<Rightarrow> 0 | Some v \<Rightarrow> v)"

definition exit_marker :: string where
  "exit_marker = ''[AIOPS_EXIT]''"

definition trim_newlines :: "string \<Rightarrow> string" where
  "trim_newlines s = rev (dropWhile (\<lambda>c. c = CHR 0x0A \<or> c = CHR 0x0D) (rev s))"

definition parseExecOutput :: "string \<Rightarrow> bool \<Rightarrow> string \<times> exec_kind" where
  "parseExecOutput s timedOut =
     (case last_index_of exit_marker s of
        Some i \<Rightarrow>
          let code = scan_int (trim_space (drop (i + length exit_marker) s)) in
          (trim_newlines (take i s), if code \<noteq> 0 then ExecExit else ExecOK)
      | None \<Rightarrow>
          let body = trim_newlines s in
          (body, if timedOut then if trim_space body = [] then ExecNoPickup else ExecTimeout else ExecAbnormal))"

section \<open>Attempts\<close>

record run_env =
  en_exec :: "nat \<Rightarrow> host_command \<Rightarrow> string \<times> exec_kind"
  en_stopped :: "nat \<Rightarrow> bool"
  en_recovered :: "nat \<Rightarrow> string"
  en_gave_up :: "nat \<Rightarrow> string"
  en_ignored :: string

record try_result =
  tr_output :: string
  tr_kind :: exec_kind
  tr_attempts :: nat
  tr_cancelled :: bool

definition newline :: string where
  "newline = [CHR 0x0A]"

text \<open>The loop over the attempts of a step: \<open>k\<close> are left, \<open>n\<close> are done, \<open>t\<close> is the tick.\<close>

fun try_step :: "run_env \<Rightarrow> bool \<Rightarrow> host_command \<Rightarrow> nat \<Rightarrow> nat \<Rightarrow> nat \<Rightarrow> try_result \<times> nat" where
  "try_step E onExit cmd 0 n t = (\<lparr>tr_output = [], tr_kind = ExecOK, tr_attempts = n, tr_cancelled = False\<rparr>, t)"
| "try_step E onExit cmd (Suc k) n t =
     (if en_stopped E t
      then (\<lparr>tr_output = [], tr_kind = ExecCancelled, tr_attempts = n, tr_cancelled = True\<rparr>, t + 1)
      else let (out, kind) = en_exec E (t + 1) cmd;
               res = \<lparr>tr_output = out, tr_kind = kind, tr_attempts = n + 1, tr_cancelled = False\<rparr>
      in if kind = ExecCancelled \<or> en_stopped E (t + 2) then (res\<lparr>tr_cancelled := True\<rparr>, t + 3)
      else if kind = ExecOK
      then (if 0 < n then res\<lparr>tr_output := out @ newline @ en_recovered E (n + 1)\<rparr> else res, t + 3)
      else if \<not> retryable kind \<and> \<not> (onExit \<and> kind = ExecExit) then (res, t + 3)
      else if k = 0 then (res\<lparr>tr_output := out @ newline @ en_gave_up E (n + 1)\<rparr>, t + 3)
      else if en_stopped E (t + 3)
      then (\<lparr>tr_output = [], tr_kind = ExecCancelled, tr_attempts = n + 1, tr_cancelled = True\<rparr>, t + 4)
      else try_step E onExit cmd k (n + 1) (t + 4))"

definition playbookMaxAttempts :: int where
  "playbookMaxAttempts = 3"

definition attempts_of :: "playbook_step \<Rightarrow> int" where
  "attempts_of st = (if ps_maxAttempts st \<le> 0 then playbookMaxAttempts else ps_maxAttempts st)"

definition step_attempts :: "playbook_step \<Rightarrow> nat" where
  "step_attempts st = nat (min 6 (attempts_of st))"

section \<open>The steps on one host\<close>

record step_result =
  sr_name :: string
  sr_status :: string
  sr_output :: string
  sr_attempts :: nat
  sr_rollback :: bool

record host_result =
  hr_hostname :: string
  hr_status :: string
  hr_reason :: string
  hr_steps :: "step_result list"

record run_state =
  rs_tick :: nat
  rs_vars :: pb_vars
  rs_result :: host_result
  rs_rollbacks :: "(playbook_step \<times> string) list"
  rs_sent :: "host_command list"

definition plain_step :: "string \<Rightarrow> string \<Rightarrow> string \<Rightarrow> nat \<Rightarrow> step_result" where
  "plain_step name status out n = \<lparr>sr_name = name, sr_status = status, sr_output = out, sr_attempts = n, sr_rollback = False\<rparr>"

definition push :: "step_result \<Rightarrow> host_result \<Rightarrow> host_result" where
  "push sr r = r\<lparr>hr_steps := hr_steps r @ [sr]\<rparr>"

definition cancel_result :: "step_result \<Rightarrow> host_result \<Rightarrow> host_result" where
  "cancel_result sr r = push sr (r\<lparr>hr_status := ''cancelled'', hr_reason := ''cancelled''\<rparr>)"

fun blank_command :: "host_command \<Rightarrow> bool" where
  "blank_command (Shell s) \<longleftrightarrow> trim_space s = []"
| "blank_command (Module m args) \<longleftrightarrow> False"

definition skip_step :: "playbook_step \<Rightarrow> run_state \<Rightarrow> run_state" where
  "skip_step st s = s\<lparr>rs_result := push (plain_step (ps_name st) ''skipped'' [] 0) (rs_result s)\<rparr>"

definition skip_when :: "playbook_step \<Rightarrow> run_state \<Rightarrow> run_state" where
  "skip_when st s =
     skip_step st (s\<lparr>rs_result := (rs_result s)\<lparr>hr_reason := if hr_reason (rs_result s) = [] then ''skipped_when'' else hr_reason (rs_result s)\<rparr>\<rparr>)"

text \<open>A step that is not skipped; the flag says whether the loop goes on.\<close>

definition exec_step :: "run_env \<Rightarrow> 'a os_host_scheme \<Rightarrow> playbook_step \<Rightarrow> host_command \<Rightarrow> run_state \<Rightarrow> run_state \<times> bool" where
  "exec_step E h st cmd s =
     (let (r, t) = try_step E (ps_retryOnExit st) cmd (step_attempts st) 0 (rs_tick s);
          s1 = s\<lparr>rs_tick := t, rs_sent := rs_sent s @ replicate (tr_attempts r) cmd\<rparr>
      in if tr_cancelled r
      then (s1\<lparr>rs_result := cancel_result (plain_step (ps_name st) ''cancelled'' (tr_output r) (tr_attempts r)) (rs_result s)\<rparr>, False)
      else let ignored = (ps_ignoreExit st \<and> tr_kind r = ExecExit);
               failed = (tr_kind r \<noteq> ExecOK \<and> \<not> ignored);
               out = (if ignored then tr_output r @ newline @ en_ignored E else tr_output r);
               vars = (if ps_register st \<noteq> [] then (rs_vars s)(ps_register st \<mapsto> trim_space out) else rs_vars s);
               s2 = s1\<lparr>rs_vars := vars\<rparr>
      in if failed
      then (s2\<lparr>rs_result := push (plain_step (ps_name st) ''failed'' out (tr_attempts r))
                 ((rs_result s)\<lparr>hr_status := ''failed'', hr_reason := execKindReason (tr_kind r)\<rparr>)\<rparr>, ps_continueErr st)
      else let rb = trim_space (resolvePlaybookRollback st h vars)
      in (s2\<lparr>rs_result := push (plain_step (ps_name st) ''success'' out (tr_attempts r)) (rs_result s),
             rs_rollbacks := rs_rollbacks s @ (if rb \<noteq> [] then [(st, rb)] else [])\<rparr>, True))"

fun run_steps :: "go_text \<Rightarrow> run_env \<Rightarrow> 'a os_host_scheme \<Rightarrow> playbook_step list \<Rightarrow> run_state \<Rightarrow> run_state panics" where
  "run_steps T E h [] s = Some s"
| "run_steps T E h (st # sts) s =
     (let s0 = s\<lparr>rs_tick := rs_tick s + 1\<rparr> in
      if en_stopped E (rs_tick s)
      then Some (s0\<lparr>rs_result := cancel_result (plain_step (ps_name st) ''cancelled'' [] 0) (rs_result s)\<rparr>)
      else case (if ps_when st = [] then Some True else evalPlaybookWhen T (ps_when st) (rs_vars s)) of
        None \<Rightarrow> None
      | Some False \<Rightarrow> run_steps T E h sts (skip_when st s0)
      | Some True \<Rightarrow>
          let cmd = resolvePlaybookCommand st h (rs_vars s) in
          if blank_command cmd then run_steps T E h sts (skip_step st s0)
          else case exec_step E h st cmd s0 of
                 (s1, True) \<Rightarrow> run_steps T E h sts s1
               | (s1, False) \<Rightarrow> Some s1)"

section \<open>Rolling back\<close>

fun try_rollback :: "run_env \<Rightarrow> host_command \<Rightarrow> nat \<Rightarrow> nat \<Rightarrow> string \<times> exec_kind \<Rightarrow> nat \<Rightarrow> (string \<times> exec_kind) \<times> nat \<times> nat" where
  "try_rollback E cmd 0 n prior t = (prior, n, t)"
| "try_rollback E cmd (Suc k) n prior t =
     (if en_stopped E t then (prior, n, t + 1)
      else let (out, kind) = en_exec E (t + 1) cmd in
      if kind = ExecOK \<or> \<not> retryable kind \<or> k = 0 then ((out, kind), n + 1, t + 2)
      else try_rollback E cmd k (n + 1) (out, kind) (t + 2))"

definition rollback_attempts :: "playbook_step \<Rightarrow> nat" where
  "rollback_attempts st = nat (attempts_of st)"

definition rollback_step :: "run_env \<Rightarrow> playbook_step \<times> string \<Rightarrow> run_state \<Rightarrow> run_state" where
  "rollback_step E a s =
     (let (r, n, t) = try_rollback E (Shell (snd a)) (rollback_attempts (fst a)) 0 ([], ExecOK) (rs_tick s);
          sr = \<lparr>sr_name = ps_name (fst a), sr_status = if snd r = ExecOK then ''rollback_success'' else ''rollback_failed'',
                sr_output = fst r, sr_attempts = n, sr_rollback = True\<rparr>
      in s\<lparr>rs_tick := t, rs_result := push sr (rs_result s), rs_sent := rs_sent s @ replicate n (Shell (snd a))\<rparr>)"

fun run_rollbacks :: "run_env \<Rightarrow> (playbook_step \<times> string) list \<Rightarrow> run_state \<Rightarrow> run_state" where
  "run_rollbacks E [] s = s"
| "run_rollbacks E (a # as) s =
     (if en_stopped E (rs_tick s) then s\<lparr>rs_tick := rs_tick s + 1\<rparr>
      else run_rollbacks E as (rollback_step E a (s\<lparr>rs_tick := rs_tick s + 1\<rparr>)))"

definition finish_host :: "run_state \<Rightarrow> run_state" where
  "finish_host s =
     (if hr_status (rs_result s) \<noteq> ''failed'' \<and> hr_status (rs_result s) \<noteq> ''cancelled''
      then s\<lparr>rs_result := (rs_result s)\<lparr>hr_status := ''success''\<rparr>\<rparr> else s)"

definition roll_back :: "run_env \<Rightarrow> bool \<Rightarrow> run_state \<Rightarrow> run_state" where
  "roll_back E auto s =
     (if hr_status (rs_result s) = ''failed'' \<and> auto \<and> rs_rollbacks s \<noteq> []
      then (let s1 = s\<lparr>rs_tick := rs_tick s + 1\<rparr> in
            if en_stopped E (rs_tick s) then s1 else run_rollbacks E (rev (rs_rollbacks s)) s1)
      else s)"

definition start_host :: "'a os_host_scheme \<Rightarrow> run_state" where
  "start_host h =
     \<lparr>rs_tick = 0, rs_vars = playbookHostVars h,
      rs_result = \<lparr>hr_hostname = oh_hostname h, hr_status = ''running'', hr_reason = [], hr_steps = []\<rparr>,
      rs_rollbacks = [], rs_sent = []\<rparr>"

text \<open>Before the first step the goroutine of a host looks three times whether the run was stopped: at its start,
  while it waits for a place among the parallel hosts (\<open>select\<close> may take either branch, the answer of the second
  look is the branch taken), and once more when it has one.\<close>

definition not_started :: "nat \<Rightarrow> run_state \<Rightarrow> run_state" where
  "not_started t s =
     s\<lparr>rs_tick := t, rs_result := cancel_result (plain_step ''not started'' ''cancelled'' [] 0) (rs_result s)\<rparr>"

definition run_host :: "go_text \<Rightarrow> run_env \<Rightarrow> bool \<Rightarrow> playbook_step list \<Rightarrow> 'a os_host_scheme \<Rightarrow> run_state panics" where
  "run_host T E auto sts h =
     (let s = start_host h in
      if en_stopped E 0 then Some (not_started 1 s)
      else if en_stopped E 1 then Some (not_started 2 s)
      else if en_stopped E 2 then Some (not_started 3 s)
      else map_option (\<lambda>s. finish_host (roll_back E auto s)) (run_steps T E h sts (s\<lparr>rs_tick := 3\<rparr>)))"

text \<open>The whole run: the policy is checked again, then every host runs every step.\<close>

definition runPlaybookExecution ::
    "custom_patterns \<Rightarrow> cmd_policy \<Rightarrow> go_text \<Rightarrow> (string \<Rightarrow> run_env) \<Rightarrow> bool \<Rightarrow> playbook_step list \<Rightarrow>
     'a os_host_scheme list \<Rightarrow> (string \<times> run_state panics) list" where
  "runPlaybookExecution R pol T E auto sts hosts =
     (if validatePlaybookCommands R pol sts \<noteq> None then []
      else map (\<lambda>h. (he_id h, run_host T (E (he_id h)) auto sts h)) hosts)"

end
