(* ===== verification/PlaybookStore.thy ===== *)
theory PlaybookStore
  imports PlaybookRun Transition
begin

text \<open>
  The record of playbook executions and the schedules (\<open>playbookManager\<close> in \<open>cmd/server/playbook.go\<close> and
  \<open>playbook_cancel.go\<close>), and the handlers that approve, reject and cancel an execution
  (\<open>cmd/server/playbook_api.go\<close>). A method holds the mutex for its whole body; a handler is several methods, between
  which others may run. Schedules use nanoseconds and executions seconds; the local time of day and the day of
  the week are parameters. The texts a cancellation writes are short English ones here.
\<close>

section \<open>Executions\<close>

record execution =
  ex_id :: int
  ex_playbook :: string
  ex_operator :: string
  ex_start :: int
  ex_end :: int
  ex_status :: string
  ex_hosts :: "host_result go_map"
  ex_trigger :: string

record pb_manager =
  pm_execs :: "execution list"
  pm_nextID :: int
  pm_lastCheck :: "int option"
  pm_lastRun :: "int go_map"
  pm_busy :: "bool go_map"

definition newPlaybookManager :: pb_manager where
  "newPlaybookManager = \<lparr>pm_execs = [], pm_nextID = 1, pm_lastCheck = None, pm_lastRun = [], pm_busy = []\<rparr>"

definition terminal_statuses :: "string list" where
  "terminal_statuses = [''completed'', ''failed'', ''partial'', ''cancelled'', ''rejected'']"

definition playbookTerminalStatus :: "string \<Rightarrow> bool" where
  "playbookTerminalStatus st \<longleftrightarrow> trim_space st \<in> set terminal_statuses"

text \<open>The in-memory ring keeps the newest 100.\<close>

definition newest :: "execution list \<Rightarrow> execution list" where
  "newest es = drop (length es - 100) es"

definition pending_hosts :: "'a os_host_scheme list \<Rightarrow> host_result go_map" where
  "pending_hosts hosts =
     foldl (\<lambda>m h. AList.update (he_id h) \<lparr>hr_hostname = oh_hostname h, hr_status = ''pending'', hr_reason = [], hr_steps = []\<rparr> m) [] hosts"

definition startExecution ::
    "int \<Rightarrow> string \<Rightarrow> string \<Rightarrow> 'a os_host_scheme list \<Rightarrow> string \<Rightarrow> string \<Rightarrow> pb_manager \<Rightarrow> pb_manager \<times> execution" where
  "startExecution now pb operator hosts status trigger m =
     (let n = pm_nextID m + 1;
          e = \<lparr>ex_id = n, ex_playbook = pb, ex_operator = operator, ex_start = now, ex_end = 0, ex_status = status,
               ex_hosts = pending_hosts hosts, ex_trigger = trigger\<rparr>
      in (m\<lparr>pm_nextID := n, pm_execs := newest (pm_execs m @ [e])\<rparr>, e))"

definition StartExecution :: "int \<Rightarrow> string \<Rightarrow> string \<Rightarrow> 'a os_host_scheme list \<Rightarrow> pb_manager \<Rightarrow> pb_manager \<times> execution" where
  "StartExecution now pb operator hosts m = startExecution now pb operator hosts ''running'' ''manual'' m"

definition StartScheduledExecution :: "int \<Rightarrow> string \<Rightarrow> string \<Rightarrow> 'a os_host_scheme list \<Rightarrow> pb_manager \<Rightarrow> pb_manager \<times> execution" where
  "StartScheduledExecution now pb operator hosts m = startExecution now pb operator hosts ''running'' ''schedule'' m"

definition StartPendingExecution :: "int \<Rightarrow> string \<Rightarrow> string \<Rightarrow> 'a os_host_scheme list \<Rightarrow> pb_manager \<Rightarrow> pb_manager \<times> execution" where
  "StartPendingExecution now pb operator hosts m = startExecution now pb operator hosts ''pending_approval'' ''schedule'' m"

definition GetExecution :: "int \<Rightarrow> pb_manager \<Rightarrow> execution option" where
  "GetExecution i m = find (\<lambda>e. ex_id e = i) (pm_execs m)"

definition on_exec :: "int \<Rightarrow> (execution \<Rightarrow> execution) \<Rightarrow> pb_manager \<Rightarrow> pb_manager" where
  "on_exec i f m = m\<lparr>pm_execs := update_first (\<lambda>e. ex_id e = i) f (pm_execs m)\<rparr>"

definition SetExecutionStatus :: "int \<Rightarrow> int \<Rightarrow> string \<Rightarrow> bool \<Rightarrow> pb_manager \<Rightarrow> pb_manager \<times> bool" where
  "SetExecutionStatus now i status finished m =
     (on_exec i (\<lambda>e. e\<lparr>ex_status := status, ex_end := if finished then now else ex_end e\<rparr>) m, GetExecution i m \<noteq> None)"

definition update_host :: "string \<Rightarrow> host_result \<Rightarrow> execution \<Rightarrow> execution" where
  "update_host h r e =
     (if playbookTerminalStatus (ex_status e) then e
      else case map_of (ex_hosts e) h of
             Some p \<Rightarrow> if hr_status p = ''cancelled'' \<and> hr_status r \<noteq> ''cancelled'' then e
                       else e\<lparr>ex_hosts := AList.update h r (ex_hosts e)\<rparr>
           | None \<Rightarrow> e\<lparr>ex_hosts := AList.update h r (ex_hosts e)\<rparr>)"

definition UpdateHostResult :: "int \<Rightarrow> string \<Rightarrow> host_result \<Rightarrow> pb_manager \<Rightarrow> pb_manager" where
  "UpdateHostResult i h r m = on_exec i (update_host h r) m"

definition finish_exec :: "int \<Rightarrow> string \<Rightarrow> execution \<Rightarrow> execution" where
  "finish_exec now status e =
     (if playbookTerminalStatus (ex_status e) \<and> ex_status e \<noteq> status
      then (if ex_end e = 0 then e\<lparr>ex_end := now\<rparr> else e)
      else e\<lparr>ex_end := now, ex_status := status\<rparr>)"

definition FinishExecution :: "int \<Rightarrow> int \<Rightarrow> string \<Rightarrow> pb_manager \<Rightarrow> pb_manager" where
  "FinishExecution now i status m = on_exec i (finish_exec now status) m"

definition close_steps :: "string \<Rightarrow> string list \<Rightarrow> step_result list \<Rightarrow> step_result list" where
  "close_steps note open = map (\<lambda>sr. if sr_status sr \<notin> set open then sr
     else sr\<lparr>sr_status := ''cancelled'', sr_output := if trim_space (sr_output sr) = [] then note else sr_output sr\<rparr>)"

definition by_hand :: string where
  "by_hand = ''stopped by hand''"

definition by_restart :: string where
  "by_restart = ''interrupted by a restart''"

definition cancel_host :: "host_result \<Rightarrow> host_result" where
  "cancel_host r =
     (if trim_space (hr_status r) \<in> {''success'', ''failed'', ''timeout'', ''skipped'', ''cancelled''}
      then r\<lparr>hr_steps := close_steps by_hand [''running'', []] (hr_steps r)\<rparr>
      else r\<lparr>hr_status := ''cancelled'', hr_reason := ''cancelled'',
             hr_steps := (if hr_steps r = [] then [plain_step ''not started'' ''cancelled'' by_hand 0]
               else close_steps by_hand [''running'', ''pending'', []] (hr_steps r))\<rparr>)"

definition CancelUnfinishedHosts :: "int \<Rightarrow> pb_manager \<Rightarrow> pb_manager" where
  "CancelUnfinishedHosts i m = on_exec i (\<lambda>e. e\<lparr>ex_hosts := map_values cancel_host (ex_hosts e)\<rparr>) m"

definition ensureExecution :: "execution \<Rightarrow> pb_manager \<Rightarrow> pb_manager" where
  "ensureExecution e m =
     (if GetExecution (ex_id e) m \<noteq> None then on_exec (ex_id e) (\<lambda>_. e) m
      else m\<lparr>pm_execs := newest (pm_execs m @ [e]),
             pm_nextID := if pm_nextID m \<le> ex_id e then ex_id e + 1 else pm_nextID m\<rparr>)"

text \<open>At start the history comes from the database; what was running cannot be resumed.\<close>

definition orphan_host :: "host_result \<Rightarrow> host_result" where
  "orphan_host r =
     (if trim_space (hr_status r) \<in> {''pending'', ''running'', []}
      then r\<lparr>hr_status := ''cancelled'', hr_reason := ''cancelled'',
             hr_steps := (if hr_steps r = [] then [plain_step ''restart'' ''cancelled'' by_restart 0]
               else close_steps by_restart [''running'', ''pending'', []] (hr_steps r))\<rparr>
      else r)"

definition orphan :: "int \<Rightarrow> execution \<Rightarrow> execution" where
  "orphan now e =
     (if ex_status e = ''running'' \<or> ex_status e = ''pending_approval''
      then e\<lparr>ex_status := ''cancelled'', ex_end := (if ex_end e = 0 then now else ex_end e),
             ex_hosts := map_values orphan_host (ex_hosts e)\<rparr>
      else e)"

definition importExecutions :: "int \<Rightarrow> execution list \<Rightarrow> pb_manager \<Rightarrow> pb_manager" where
  "importExecutions now es m =
     (let kept = newest es in
      m\<lparr>pm_execs := map (orphan now) kept,
        pm_nextID := foldl (\<lambda>n e. if n \<le> ex_id e then ex_id e + 1 else n) (pm_nextID m) kept\<rparr>)"

definition exportExecutions :: "pb_manager \<Rightarrow> execution list" where
  "exportExecutions m = pm_execs m"

definition ExecutionHistory :: "pb_manager \<Rightarrow> execution list" where
  "ExecutionHistory m = rev (pm_execs m)"

section \<open>Schedules\<close>

record pb_schedule =
  sc_enabled :: bool
  sc_kind :: string
  sc_interval :: int
  sc_at :: string
  sc_weekday :: int

record playbook =
  pb_id :: string
  pb_name :: string
  pb_description :: string
  pb_steps :: "playbook_step list"
  pb_maxParallel :: int
  pb_autoRollback :: bool
  pb_schedule :: "pb_schedule option"
  pb_createdAt :: int
  pb_updatedAt :: int

text \<open>\<open>local_at now mins\<close> is the instant \<open>mins\<close> minutes after midnight on the day of \<open>now\<close>.\<close>

record local_clock =
  local_at :: "int \<Rightarrow> int \<Rightarrow> int"
  weekday_of :: "int \<Rightarrow> int"

definition nanos :: int where
  "nanos = 1000000000"

text \<open>One number of \<open>fmt.Sscanf\<close>: blanks, a sign, digits.\<close>

definition scan_number :: "string \<Rightarrow> (int \<times> string) option" where
  "scan_number s0 =
     (let s = dropWhile (\<lambda>c. is_space c \<and> c \<noteq> CHR 0x0A) s0;
          sign = takeWhile (\<lambda>c. c = CHR ''-'' \<or> c = CHR ''+'') (take 1 s);
          ds = takeWhile is_digit (drop (length sign) s)
      in if ds = [] then None
         else map_option (\<lambda>v. (v, drop (length sign + length ds) s)) (parse_int 10 (sign @ ds)))"

definition parseHHMM :: "string \<Rightarrow> int option" where
  "parseHHMM s =
     (case scan_number (trim_space s) of
        Some (h, CHR '':'' # rest) \<Rightarrow>
          (case scan_number rest of
             Some (m, _) \<Rightarrow> if h < 0 \<or> 23 < h \<or> m < 0 \<or> 59 < m then None else Some (h * 60 + m)
           | None \<Rightarrow> None)
      | _ \<Rightarrow> None)"

definition scheduledInstant :: "local_clock \<Rightarrow> int \<Rightarrow> string \<Rightarrow> int option" where
  "scheduledInstant ck now hhmm = map_option (local_at ck now) (parseHHMM hhmm)"

datatype schedule_error = BadInterval | BadTime | BadWeekday | BadKind

definition sanitizeSchedule :: "pb_schedule option \<Rightarrow> schedule_error option" where
  "sanitizeSchedule sc0 =
     (case sc0 of None \<Rightarrow> None
      | Some sc \<Rightarrow>
          if \<not> sc_enabled sc then None
          else if sc_kind sc = ''interval'' then (if sc_interval sc < 1 then Some BadInterval else None)
          else if sc_kind sc = ''daily'' then (if parseHHMM (sc_at sc) = None then Some BadTime else None)
          else if sc_kind sc = ''weekly'' then
            (if sc_weekday sc < 0 \<or> 6 < sc_weekday sc then Some BadWeekday
             else if parseHHMM (sc_at sc) = None then Some BadTime else None)
          else Some BadKind)"

definition instant_passed :: "local_clock \<Rightarrow> int \<Rightarrow> int \<Rightarrow> string \<Rightarrow> bool" where
  "instant_passed ck prev now hhmm \<longleftrightarrow>
     (case scheduledInstant ck now hhmm of None \<Rightarrow> False | Some i \<Rightarrow> prev < i \<and> i \<le> now)"

definition interval_due :: "int \<Rightarrow> pb_schedule \<Rightarrow> int option \<Rightarrow> bool" where
  "interval_due now sc prior \<longleftrightarrow>
     1 \<le> sc_interval sc \<and> (case prior of None \<Rightarrow> False | Some l \<Rightarrow> sc_interval sc * 60 * nanos \<le> now - l)"

definition fires :: "local_clock \<Rightarrow> int \<Rightarrow> int \<Rightarrow> pb_schedule \<Rightarrow> int option \<Rightarrow> bool" where
  "fires ck prev now sc prior \<longleftrightarrow>
     (if sc_kind sc = ''interval'' then interval_due now sc prior
      else if sc_kind sc = ''daily'' then instant_passed ck prev now (sc_at sc)
      else sc_kind sc = ''weekly'' \<and> weekday_of ck now = sc_weekday sc \<and> instant_passed ck prev now (sc_at sc))"

text \<open>One playbook in the loop of a tick.\<close>

definition consider_due :: "local_clock \<Rightarrow> int \<Rightarrow> int \<Rightarrow> pb_manager \<times> playbook list \<Rightarrow> playbook \<Rightarrow> pb_manager \<times> playbook list" where
  "consider_due ck prev now acc p =
     (let (m, due) = acc in
      case pb_schedule p of None \<Rightarrow> (m, due)
      | Some sc \<Rightarrow>
          if \<not> sc_enabled sc \<or> get_or False (pm_busy m) (pb_id p) then (m, due)
          else let prior = map_of (pm_lastRun m) (pb_id p) in
          if fires ck prev now sc prior
          then (m\<lparr>pm_lastRun := AList.update (pb_id p) now (pm_lastRun m), pm_busy := AList.update (pb_id p) True (pm_busy m)\<rparr>,
                due @ [p])
          else if sc_kind sc = ''interval'' \<and> 1 \<le> sc_interval sc \<and> prior = None
          then (m\<lparr>pm_lastRun := AList.update (pb_id p) now (pm_lastRun m)\<rparr>, due)
          else (m, due))"

definition dueSchedules :: "local_clock \<Rightarrow> int \<Rightarrow> playbook list \<Rightarrow> pb_manager \<Rightarrow> pb_manager \<times> playbook list" where
  "dueSchedules ck now pbs m =
     (let prev = (case pm_lastCheck m of None \<Rightarrow> now | Some t \<Rightarrow> t);
          (m1, due) = foldl (consider_due ck prev now) (m, []) pbs
      in (m1\<lparr>pm_lastCheck := Some now\<rparr>, due))"

definition clearSchedBusy :: "string \<Rightarrow> pb_manager \<Rightarrow> pb_manager" where
  "clearSchedBusy p m = m\<lparr>pm_busy := AList.delete p (pm_busy m)\<rparr>"

text \<open>The times of the last runs survive a restart as whole seconds.\<close>

definition exportLastRun :: "pb_manager \<Rightarrow> int go_map" where
  "exportLastRun m = map_values (\<lambda>t. t div nanos) (pm_lastRun m)"

definition importLastRun :: "int go_map \<Rightarrow> pb_manager \<Rightarrow> pb_manager" where
  "importLastRun r m =
     m\<lparr>pm_lastRun := foldl (\<lambda>l (k, ts). if 0 < ts then AList.update k (ts * nanos) l else l) (pm_lastRun m) r\<rparr>"

section \<open>Handlers\<close>

datatype exec_reply = ExecOkay | AlreadyCancelled | ExecNotFound | ExecConflict | PlaybookGone | NoTarget

text \<open>A row only the database has (\<open>row\<close>) is brought into memory first.\<close>

definition handleCancelPlaybookExecution :: "int \<Rightarrow> int \<Rightarrow> execution option \<Rightarrow> pb_manager \<Rightarrow> pb_manager \<times> exec_reply" where
  "handleCancelPlaybookExecution now i row m0 =
     (let (m, found) = (case GetExecution i m0 of
            Some e \<Rightarrow> (m0, Some e)
          | None \<Rightarrow> (case row of Some e \<Rightarrow> (ensureExecution e m0, Some e) | None \<Rightarrow> (m0, None)))
      in case found of None \<Rightarrow> (m, ExecNotFound)
      | Some e \<Rightarrow>
          if ex_status e = ''cancelled'' then (m, AlreadyCancelled)
          else if ex_status e \<noteq> ''running'' \<and> ex_status e \<noteq> ''pending_approval'' then (m, ExecConflict)
          else (clearSchedBusy (ex_playbook e) (FinishExecution now i ''cancelled'' (CancelUnfinishedHosts i m)), ExecOkay))"

text \<open>The approval reads, and later writes: what happens between the two is not looked at again.\<close>

definition approve_check :: "int \<Rightarrow> (string \<Rightarrow> playbook option) \<Rightarrow> pb_manager \<Rightarrow> exec_reply + playbook" where
  "approve_check i pbs m =
     (case GetExecution i m of None \<Rightarrow> Inl ExecNotFound
      | Some e \<Rightarrow>
          if ex_status e \<noteq> ''pending_approval'' then Inl ExecConflict
          else case pbs (ex_playbook e) of None \<Rightarrow> Inl PlaybookGone | Some p \<Rightarrow> Inr p)"

definition approve_commit :: "int \<Rightarrow> int \<Rightarrow> playbook \<Rightarrow> 'a os_host_scheme list \<Rightarrow> pb_manager \<Rightarrow> pb_manager \<times> exec_reply" where
  "approve_commit now i p hosts m =
     (if hosts = [] then (clearSchedBusy (pb_id p) (FinishExecution now i ''failed'' m), NoTarget)
      else (foldl (\<lambda>m h. UpdateHostResult i (he_id h)
                \<lparr>hr_hostname = oh_hostname h, hr_status = ''pending'', hr_reason = [], hr_steps = []\<rparr> m)
              (fst (SetExecutionStatus now i ''running'' False m)) hosts, ExecOkay))"

definition handleApprovePlaybookExecution ::
    "int \<Rightarrow> int \<Rightarrow> (string \<Rightarrow> playbook option) \<Rightarrow> (playbook \<Rightarrow> 'a os_host_scheme list) \<Rightarrow> pb_manager \<Rightarrow> pb_manager \<times> exec_reply" where
  "handleApprovePlaybookExecution now i pbs targets m =
     (case approve_check i pbs m of Inl r \<Rightarrow> (m, r) | Inr p \<Rightarrow> approve_commit now i p (targets p) m)"

definition handleRejectPlaybookExecution :: "int \<Rightarrow> int \<Rightarrow> pb_manager \<Rightarrow> pb_manager \<times> exec_reply" where
  "handleRejectPlaybookExecution now i m =
     (case GetExecution i m of None \<Rightarrow> (m, ExecNotFound)
      | Some e \<Rightarrow>
          if ex_status e \<noteq> ''pending_approval'' then (m, ExecConflict)
          else (clearSchedBusy (ex_playbook e) (FinishExecution now i ''rejected'' m), ExecOkay))"

end
