(* ===== verification/PlaybookGate.thy ===== *)
theory PlaybookGate
  imports PlaybookStore Change
begin

text \<open>
  What stands between a playbook and its hosts: saving it (\<open>Upsert\<close> of \<open>cmd/server/playbook.go\<close> and
  \<open>UpsertPlaybook\<close>, \<open>DeletePlaybook\<close> of \<open>config.go\<close>), the plan made before a run, the handler that starts one
  by hand and the scheduler (\<open>cmd/server/playbook_api.go\<close>). The writing of the configuration file, audit rows and
  notifications are left out. \<open>pick\<close> is the order in which Go walks a map of host ids. A handler that checks the
  configuration and then acts is one step here, as if no other request came in between (only the approval of an
  execution, in \<open>PlaybookStore\<close>, has its check and its act apart).
\<close>

section \<open>Saving\<close>

datatype save_error =
    NameRequired | TooManyAttempts string | DelayTooLong string | BadTarget string | StepRequired
  | BadCommand step_error | BadVariable var_error | TooParallel | BadSchedule schedule_error

definition sanitize_step :: "playbook_step \<Rightarrow> save_error + playbook_step" where
  "sanitize_step st0 =
     (let st1 = st0\<lparr>ps_name := trim_space (ps_name st0), ps_command := trim_space (ps_command st0),
            ps_timeoutSec := (if ps_timeoutSec st0 < 5 then 30 else ps_timeoutSec st0),
            ps_maxAttempts := (if ps_maxAttempts st0 \<le> 0 then 3 else ps_maxAttempts st0)\<rparr>
      in if 6 < ps_maxAttempts st1 then Inl (TooManyAttempts (ps_name st1))
      else let st2 = st1\<lparr>ps_retryDelaySec := (if ps_retryDelaySec st1 \<le> 0 then 2 else ps_retryDelaySec st1)\<rparr>
      in if 60 < ps_retryDelaySec st2 then Inl (DelayTooLong (ps_name st2))
      else if \<not> validPlaybookTarget (ps_target st2) then Inl (BadTarget (ps_name st2))
      else Inr st2)"

fun sanitize_steps :: "playbook_step list \<Rightarrow> save_error + playbook_step list" where
  "sanitize_steps [] = Inr []"
| "sanitize_steps (st # sts) =
     (case sanitize_step st of
        Inl e \<Rightarrow> Inl e
      | Inr st' \<Rightarrow> (case sanitize_steps sts of Inl e \<Rightarrow> Inl e | Inr sts' \<Rightarrow> Inr (st' # sts')))"

definition UpsertPlaybook :: "playbook \<Rightarrow> playbook list \<Rightarrow> playbook list" where
  "UpsertPlaybook p pbs =
     (if pb_id p = [] then pbs @ [p]
      else if \<exists>q\<in>set pbs. pb_id q = pb_id p then update_first (\<lambda>q. pb_id q = pb_id p) (\<lambda>_. p) pbs
      else pbs @ [p])"

definition DeletePlaybook :: "string \<Rightarrow> playbook list \<Rightarrow> playbook list" where
  "DeletePlaybook i pbs = filter (\<lambda>p. pb_id p \<noteq> i) pbs"

definition GetPlaybook :: "string \<Rightarrow> playbook list \<Rightarrow> playbook option" where
  "GetPlaybook i pbs = find (\<lambda>p. pb_id p = i) pbs"

text \<open>\<open>token\<close> is the first eight characters of a random token.\<close>

definition Upsert ::
    "custom_patterns \<Rightarrow> cmd_policy \<Rightarrow> int \<Rightarrow> string \<Rightarrow> playbook \<Rightarrow> playbook list \<Rightarrow> playbook list \<times> (save_error + playbook)" where
  "Upsert R pol now token p0 pbs =
     (if trim_space (pb_name p0) = [] then (pbs, Inl NameRequired)
      else case sanitize_steps (pb_steps p0) of
        Inl e \<Rightarrow> (pbs, Inl e)
      | Inr sts \<Rightarrow>
          if sts = [] then (pbs, Inl StepRequired)
          else case validatePlaybookCommands R pol sts of
            Some e \<Rightarrow> (pbs, Inl (BadCommand e))
          | None \<Rightarrow> (case validatePlaybookVariables known_at_start sts of
              Some e \<Rightarrow> (pbs, Inl (BadVariable e))
            | None \<Rightarrow>
                let n = (if pb_maxParallel p0 \<le> 0 then 30 else pb_maxParallel p0) in
                if 100 < n then (pbs, Inl TooParallel)
                else case sanitizeSchedule (pb_schedule p0) of
                  Some e \<Rightarrow> (pbs, Inl (BadSchedule e))
                | None \<Rightarrow>
                    let p1 = p0\<lparr>pb_name := trim_space (pb_name p0), pb_steps := sts, pb_maxParallel := n, pb_updatedAt := now\<rparr>;
                        p2 = (if pb_id p1 = [] then p1\<lparr>pb_id := token, pb_createdAt := now\<rparr> else p1)
                    in (UpsertPlaybook p2 pbs, Inr p2)))"

section \<open>The plan before a run\<close>

datatype plan_warning =
    CommandsRefused step_error | VariablesRefused var_error | NoRollback string | Frozen string
  | NoOnlineTarget | OfflineSkipped nat

record plan_step =
  ls_name :: string
  ls_target :: string
  ls_online :: nat
  ls_offline :: int
  ls_risk :: string
  ls_hasRollback :: bool

record preflight =
  pf_valid :: bool
  pf_level :: string
  pf_approval :: bool
  pf_online :: nat
  pf_offline :: nat
  pf_parallel :: int
  pf_autoRollback :: bool
  pf_warnings :: "plan_warning list"
  pf_steps :: "plan_step list"
  pf_freeze :: "change_window option"

definition module_risk :: "playbook_step \<Rightarrow> string" where
  "module_risk st =
     (if ps_module st = [] then ''command''
      else case knownPlaybookModules (ps_module st) of
             None \<Rightarrow> ''change''
           | Some meta \<Rightarrow> if read_only meta then ''read_only'' else ''change'')"

definition step_risk :: "custom_patterns \<Rightarrow> cmd_policy \<Rightarrow> playbook_step \<Rightarrow> string" where
  "step_risk R pol st = (if \<exists>c\<in>set (commands st). forces_approval R pol c then ''change'' else module_risk st)"

definition raise_level :: "string \<Rightarrow> string \<Rightarrow> string \<Rightarrow> string" where
  "raise_level level by_module risk =
     (if risk = ''change'' then ''high''
      else if by_module = ''command'' \<and> level = ''low'' then ''medium'' else level)"

definition plan_for ::
    "custom_patterns \<Rightarrow> cmd_policy \<Rightarrow> string \<Rightarrow> folder_cfg \<Rightarrow> bool \<Rightarrow> 'a os_host_scheme list \<Rightarrow> 'a os_host_scheme list \<Rightarrow>
     playbook_step \<Rightarrow> plan_step \<times> plan_warning list" where
  "plan_for R pol u c auto store online st =
     (let everywhere = ResolveTargets u c (ps_target st) store; reached = ResolveTargets u c (ps_target st) online;
          risk = step_risk R pol st; undo = (\<exists>rb\<in>set (rollbacks st). trim_space rb \<noteq> [])
      in (\<lparr>ls_name = ps_name st, ls_target = ps_target st, ls_online = length reached,
           ls_offline = int (length everywhere) - int (length reached), ls_risk = risk, ls_hasRollback = undo\<rparr>,
          if auto \<and> risk = ''change'' \<and> \<not> undo then [NoRollback (ps_name st)] else []))"

definition offline_ids :: "string \<Rightarrow> folder_cfg \<Rightarrow> 'a os_host_scheme list \<Rightarrow> 'a os_host_scheme list \<Rightarrow> playbook_step list \<Rightarrow> string list" where
  "offline_ids u c store online sts =
     remdups (concat (map (\<lambda>st. filter (\<lambda>i. i \<notin> he_id ` set (ResolveTargets u c (ps_target st) online))
       (map he_id (ResolveTargets u c (ps_target st) store))) sts))"

definition online_ids :: "string \<Rightarrow> folder_cfg \<Rightarrow> 'a os_host_scheme list \<Rightarrow> playbook_step list \<Rightarrow> string list" where
  "online_ids u c online sts = remdups (concat (map (\<lambda>st. map he_id (ResolveTargets u c (ps_target st) online)) sts))"

definition category_in :: "'a os_host_scheme list \<Rightarrow> string \<Rightarrow> string" where
  "category_in store i = (case find (\<lambda>h. he_id h = i) store of None \<Rightarrow> [] | Some h \<Rightarrow> he_category h)"

fun freeze_of :: "clock \<Rightarrow> change_window list \<Rightarrow> int \<Rightarrow> (string \<times> string) list \<Rightarrow> change_window option" where
  "freeze_of ck ws now [] = None"
| "freeze_of ck ws now ((i, cat) # hs) =
     (case activeFreezeWindow ck ws i cat now of Some w \<Rightarrow> Some w | None \<Rightarrow> freeze_of ck ws now hs)"

definition window_label :: "change_window \<Rightarrow> string" where
  "window_label w = (if trim_space (cw_name w) = [] then cw_id w else trim_space (cw_name w))"

text \<open>What a plan and the handlers read of the rest of the server.\<close>

record 'a site =
  si_patterns :: custom_patterns
  si_policy :: cmd_policy
  si_uncategorized :: string
  si_folders :: folder_cfg
  si_store :: "'a os_host_scheme list"
  si_offlineSec :: int
  si_clock :: clock
  si_windows :: "change_window list"
  si_pick :: "string list \<Rightarrow> string list"

definition risk_level :: "'a site \<Rightarrow> playbook_step list \<Rightarrow> string" where
  "risk_level S sts =
     foldl (\<lambda>l st. raise_level l (module_risk st) (step_risk (si_patterns S) (si_policy S) st)) ''low'' sts"

definition buildPlaybookPreflight :: "'a site \<Rightarrow> int \<Rightarrow> playbook \<Rightarrow> preflight" where
  "buildPlaybookPreflight S now pb =
     (let R = si_patterns S; pol = si_policy S; u = si_uncategorized S; c = si_folders S; store = si_store S; sts = pb_steps pb;
          online = filter (host_online (si_offlineSec S) now) store;
          bad_commands = (case validatePlaybookCommands R pol sts of None \<Rightarrow> [] | Some e \<Rightarrow> [CommandsRefused e]);
          bad_variables = (case validatePlaybookVariables known_at_start sts of None \<Rightarrow> [] | Some e \<Rightarrow> [VariablesRefused e]);
          planned = map (plan_for R pol u c (pb_autoRollback pb) store online) sts;
          level = risk_level S sts;
          up = online_ids u c online sts; down = offline_ids u c store online sts;
          freeze = freeze_of (si_clock S) (si_windows S) now (map (\<lambda>i. (i, category_in store i)) (si_pick S up))
      in \<lparr>pf_valid = bad_commands = [] \<and> bad_variables = [] \<and> up \<noteq> [], pf_level = level,
          pf_approval = level = ''high'' \<or> playbookNeedsForcedApproval R pol sts \<or> freeze \<noteq> None,
          pf_online = length up, pf_offline = length down,
          pf_parallel = (if pb_maxParallel pb \<le> 0 then 30 else pb_maxParallel pb), pf_autoRollback = pb_autoRollback pb,
          pf_warnings = bad_commands @ bad_variables @ concat (map snd planned) @
            (case freeze of None \<Rightarrow> [] | Some w \<Rightarrow> [Frozen (window_label w)]) @
            (if up = [] then [NoOnlineTarget] else []) @ (if down = [] then [] else [OfflineSkipped (length down)]),
          pf_steps = map fst planned, pf_freeze = freeze\<rparr>)"

section \<open>Starting a run\<close>

definition targets_now :: "'a site \<Rightarrow> int \<Rightarrow> playbook \<Rightarrow> 'a os_host_scheme list" where
  "targets_now S now pb =
     onlinePlaybookTargets (si_uncategorized S) (si_folders S) (si_offlineSec S) now (pb_steps pb) (si_store S)"

datatype run_reply = Started int | Planned preflight | NeedsConsent preflight | Unknown | NoHost

text \<open>\<open>filterHostsForUser\<close> on the hosts of a run; \<open>me\<close> is the account of the request.\<close>

definition targets_for :: "'a site \<Rightarrow> int \<Rightarrow> account option \<Rightarrow> playbook \<Rightarrow> 'a os_host_scheme list" where
  "targets_for S now me pb =
     scope_filter (\<lambda>u h. hostAccessFor (si_folders S) (map host_info.truncate (si_store S)) u (he_id h)) me (targets_now S now pb)"

definition handleExecutePlaybook ::
    "'a site \<Rightarrow> int \<Rightarrow> account option \<Rightarrow> string \<Rightarrow> string \<Rightarrow> string \<Rightarrow> playbook list \<Rightarrow> pb_manager \<Rightarrow> pb_manager \<times> run_reply" where
  "handleExecutePlaybook S now me operator i accepted pbs m =
     (case GetPlaybook i pbs of
        None \<Rightarrow> (m, Unknown)
      | Some pb \<Rightarrow>
          let pf = buildPlaybookPreflight S now pb in
          if \<not> pf_valid pf then (m, Planned pf)
          else if pf_approval pf \<and> \<not> equal_fold accepted ''true'' then (m, NeedsConsent pf)
          else let hosts = targets_for S now me pb in
          if hosts = [] then (m, NoHost)
          else let (m', e) = StartExecution now i operator hosts m in (m', Started (ex_id e)))"

datatype fired = NothingOnline | SkippedFrozen string | SkippedInvalid | Pending int | Fired int

definition fireScheduledPlaybook :: "'a site \<Rightarrow> int \<Rightarrow> playbook \<Rightarrow> pb_manager \<Rightarrow> pb_manager \<times> fired" where
  "fireScheduledPlaybook S now pb m =
     (let hosts = targets_now S now pb in
      if hosts = [] then (clearSchedBusy (pb_id pb) m, NothingOnline)
      else case freeze_of (si_clock S) (si_windows S) now (map (\<lambda>h. (he_id h, he_category h)) hosts) of
        Some w \<Rightarrow> (clearSchedBusy (pb_id pb) m, SkippedFrozen (window_label w))
      | None \<Rightarrow>
          let pf = buildPlaybookPreflight S now pb in
          if \<not> pf_valid pf then (clearSchedBusy (pb_id pb) m, SkippedInvalid)
          else if pf_approval pf
          then let (m', e) = StartPendingExecution now (pb_id pb) ''scheduler'' hosts m in (m', Pending (ex_id e))
          else let (m', e) = StartScheduledExecution now (pb_id pb) ''scheduler'' hosts m in (m', Fired (ex_id e)))"

definition playbook_tick :: "local_clock \<Rightarrow> (playbook \<Rightarrow> int) \<Rightarrow> int \<Rightarrow> 'a site \<Rightarrow> playbook list \<Rightarrow> pb_manager \<Rightarrow> pb_manager \<times> fired list" where
  "playbook_tick lc fired_at now S pbs m =
     (let (m1, due) = dueSchedules lc now pbs m in
      foldl (\<lambda>(m, out) pb. let (m', f) = fireScheduledPlaybook S (fired_at pb) pb m in (m', out @ [f])) (m1, []) due)"

end
