(* ===== verification/PlaybookLedger.thy ===== *)
theory PlaybookLedger
  imports PlaybookStore
begin

text \<open>
  Runs of the record of executions: the identifiers it issues, what is final, which schedules fire, and the
  one write that does not respect what is final.
\<close>

section \<open>Runs\<close>

datatype pm_op =
    StartOp int string string "os_host list" string string
  | UpdateOp int string host_result
  | FinishOp int int string
  | CancelHostsOp int
  | DueOp local_clock int "playbook list"
  | ClearOp string
  | SetOp int int string bool
  | EnsureOp execution

fun pm_step :: "pb_manager \<Rightarrow> pm_op \<Rightarrow> pb_manager" where
  "pm_step m (StartOp now p u hosts status trigger) = fst (startExecution now p u hosts status trigger m)"
| "pm_step m (UpdateOp i h r) = UpdateHostResult i h r m"
| "pm_step m (FinishOp now i status) = FinishExecution now i status m"
| "pm_step m (CancelHostsOp i) = CancelUnfinishedHosts i m"
| "pm_step m (DueOp ck now pbs) = fst (dueSchedules ck now pbs m)"
| "pm_step m (ClearOp p) = clearSchedBusy p m"
| "pm_step m (SetOp now i status finished) = fst (SetExecutionStatus now i status finished m)"
| "pm_step m (EnsureOp e) = ensureExecution e m"

lemma consider_due_frame:
  "pm_execs (fst (consider_due ck prev now acc p)) = pm_execs (fst acc)"
  "pm_nextID (fst (consider_due ck prev now acc p)) = pm_nextID (fst acc)"
  "pm_lastCheck (fst (consider_due ck prev now acc p)) = pm_lastCheck (fst acc)"
  by (auto simp: consider_due_def Let_def split: prod.splits option.splits)

lemma dueSchedules_frame:
  "pm_execs (fst (dueSchedules ck now pbs m)) = pm_execs m"
  "pm_nextID (fst (dueSchedules ck now pbs m)) = pm_nextID m"
  "pm_lastCheck (fst (dueSchedules ck now pbs m)) = Some now"
proof -
  have "pm_execs (fst (foldl (consider_due ck prev now) acc pbs)) = pm_execs (fst acc) \<and>
      pm_nextID (fst (foldl (consider_due ck prev now) acc pbs)) = pm_nextID (fst acc)" for prev acc
    by (induction pbs arbitrary: acc) (simp_all add: consider_due_frame)
  then show "pm_execs (fst (dueSchedules ck now pbs m)) = pm_execs m"
    "pm_nextID (fst (dueSchedules ck now pbs m)) = pm_nextID m"
    "pm_lastCheck (fst (dueSchedules ck now pbs m)) = Some now"
    by (simp_all add: dueSchedules_def Let_def split: prod.splits) (metis fst_conv)+
qed

section \<open>Identifiers\<close>

definition pm_inv :: "pb_manager \<Rightarrow> bool" where
  "pm_inv m \<longleftrightarrow> distinct (map ex_id (pm_execs m)) \<and> (\<forall>e\<in>set (pm_execs m). ex_id e \<le> pm_nextID m) \<and>
     length (pm_execs m) \<le> 100"

lemma keeps_id [simp]:
  "ex_id (update_host h r e) = ex_id e" "ex_id (finish_exec now status e) = ex_id e"
  by (auto simp: update_host_def finish_exec_def split: option.splits)

lemma pm_inv_ids:
  "pm_inv m \<longleftrightarrow> distinct (map ex_id (pm_execs m)) \<and> (\<forall>k\<in>set (map ex_id (pm_execs m)). k \<le> pm_nextID m) \<and>
     length (map ex_id (pm_execs m)) \<le> 100"
  by (simp add: pm_inv_def)

lemma on_exec_ids:
  assumes "\<And>e. ex_id e = i \<Longrightarrow> ex_id (f e) = i"
  shows "map ex_id (pm_execs (on_exec i f m)) = map ex_id (pm_execs m)" "pm_nextID (on_exec i f m) = pm_nextID m"
proof -
  have "map ex_id (update_first (\<lambda>e. ex_id e = i) f es) = map ex_id es" for es
    by (induction es) (auto simp: assms)
  then show "map ex_id (pm_execs (on_exec i f m)) = map ex_id (pm_execs m)" "pm_nextID (on_exec i f m) = pm_nextID m"
    by (simp_all add: on_exec_def)
qed

lemma on_exec_inv:
  assumes "pm_inv m" "\<And>e. ex_id e = i \<Longrightarrow> ex_id (f e) = i"
  shows "pm_inv (on_exec i f m)"
proof -
  have "map ex_id (pm_execs (on_exec i f m)) = map ex_id (pm_execs m)" "pm_nextID (on_exec i f m) = pm_nextID m"
    by (rule on_exec_ids; erule assms(2))+
  with assms(1) show ?thesis unfolding pm_inv_ids by metis
qed

lemma append_inv:
  assumes "pm_inv m" "\<forall>x\<in>set (pm_execs m). ex_id x \<noteq> ex_id e" "pm_nextID m \<le> n" "ex_id e \<le> n"
  shows "pm_inv (m\<lparr>pm_execs := newest (pm_execs m @ [e]), pm_nextID := n\<rparr>)"
proof -
  have kept: "set (newest (pm_execs m @ [e])) \<subseteq> insert e (set (pm_execs m))"
    unfolding newest_def using set_drop_subset [of _ "pm_execs m @ [e]"] by auto
  have "\<forall>x\<in>set (newest (pm_execs m @ [e])). ex_id x \<le> n"
  proof
    fix x assume "x \<in> set (newest (pm_execs m @ [e]))"
    with kept have "x = e \<or> x \<in> set (pm_execs m)" by auto
    with assms show "ex_id x \<le> n" by (fastforce simp: pm_inv_def)
  qed
  moreover have "distinct (map ex_id (pm_execs m @ [e]))" using assms(1, 2) by (auto simp: pm_inv_def)
  then have "distinct (map ex_id (newest (pm_execs m @ [e])))" unfolding newest_def by (metis distinct_drop drop_map)
  moreover have "length (newest (pm_execs m @ [e])) \<le> 100" by (simp add: newest_def)
  ultimately show ?thesis by (simp add: pm_inv_def)
qed

lemma pm_step_inv: "pm_inv m \<Longrightarrow> pm_inv (pm_step m op)"
proof (cases op)
  case (StartOp now p u hosts status trigger)
  assume "pm_inv m"
  then show ?thesis
    using append_inv [of m "\<lparr>ex_id = pm_nextID m + 1, ex_playbook = p, ex_operator = u, ex_start = now, ex_end = 0,
        ex_status = status, ex_hosts = pending_hosts hosts, ex_trigger = trigger\<rparr>" "pm_nextID m + 1"] StartOp
    by (fastforce simp: startExecution_def Let_def pm_inv_def)
next
  case (DueOp ck now pbs)
  assume "pm_inv m"
  with DueOp show ?thesis by (simp add: pm_inv_def dueSchedules_frame)
next
  case (EnsureOp e)
  assume inv: "pm_inv m"
  show ?thesis
  proof (cases "GetExecution (ex_id e) m = None")
    case True
    then have "\<forall>x\<in>set (pm_execs m). ex_id x \<noteq> ex_id e" by (auto simp: GetExecution_def find_None_iff)
    with inv append_inv [of m e "if pm_nextID m \<le> ex_id e then ex_id e + 1 else pm_nextID m"] EnsureOp True
    show ?thesis by (auto simp: ensureExecution_def)
  qed (use EnsureOp inv in \<open>auto simp: ensureExecution_def intro: on_exec_inv\<close>)
qed (auto simp: UpdateHostResult_def FinishExecution_def CancelUnfinishedHosts_def SetExecutionStatus_def
    intro!: on_exec_inv, simp add: clearSchedBusy_def pm_inv_def)

lemma pm_step_next: "pm_nextID m \<le> pm_nextID (pm_step m op)"
  by (cases op) (auto simp: startExecution_def UpdateHostResult_def FinishExecution_def CancelUnfinishedHosts_def
      SetExecutionStatus_def ensureExecution_def clearSchedBusy_def on_exec_def dueSchedules_frame Let_def)

interpretation executions: growing_machine newPlaybookManager pm_step pm_inv pm_nextID
  by unfold_locales (simp_all add: pm_step_inv pm_step_next, simp add: pm_inv_def newPlaybookManager_def)

text \<open>Whatever was started, finished, cancelled or loaded before, at most 100 executions are kept, each under
  its own number, and a new one gets a number that none of the executions known at any earlier time had.\<close>

theorem execution_ids_fresh:
  "pm_inv (run pm_step newPlaybookManager (es @ fs)) \<and>
   (\<forall>e\<in>set (pm_execs (run pm_step newPlaybookManager es)).
      ex_id e < ex_id (snd (startExecution now p u hosts status trigger (run pm_step newPlaybookManager (es @ fs)))))"
proof
  show "pm_inv (run pm_step newPlaybookManager (es @ fs))" by (rule executions.inv_run)
  have "\<forall>e\<in>set (pm_execs (run pm_step newPlaybookManager es)). ex_id e \<le> pm_nextID (run pm_step newPlaybookManager es)"
    using executions.inv_run [of es] by (simp add: pm_inv_def)
  moreover have "pm_nextID (run pm_step newPlaybookManager es) \<le> pm_nextID (run pm_step newPlaybookManager (es @ fs))"
    by (rule executions.level_run_prefix)
  ultimately show "\<forall>e\<in>set (pm_execs (run pm_step newPlaybookManager es)).
      ex_id e < ex_id (snd (startExecution now p u hosts status trigger (run pm_step newPlaybookManager (es @ fs))))"
    by (fastforce simp: startExecution_def Let_def)
qed

section \<open>What is final\<close>

lemma close_steps_twice:
  assumes "set open' \<subseteq> set open" "''cancelled'' \<notin> set open"
  shows "close_steps note' open' (close_steps note open srs) = close_steps note open srs"
  using assms by (auto simp: close_steps_def)

lemma cancel_host_idem: "cancel_host (cancel_host r) = cancel_host r"
proof -
  let ?over = "{''success'', ''failed'', ''timeout'', ''skipped'', ''cancelled''}"
  have cancelled: "trim_space ''cancelled'' = ''cancelled''" by code_simp
  show ?thesis
  proof (cases "trim_space (hr_status r) \<in> ?over")
    case True
    then have once: "cancel_host r = r\<lparr>hr_steps := close_steps by_hand [''running'', []] (hr_steps r)\<rparr>"
      unfolding cancel_host_def by (rule if_P)
    with True have "cancel_host (cancel_host r) =
        (cancel_host r)\<lparr>hr_steps := close_steps by_hand [''running'', []] (hr_steps (cancel_host r))\<rparr>"
      unfolding cancel_host_def [of "cancel_host r"] by simp
    with once show ?thesis by (simp add: close_steps_twice)
  next
    case False
    define srs where "srs = (if hr_steps r = [] then [plain_step ''not started'' ''cancelled'' by_hand 0]
      else close_steps by_hand [''running'', ''pending'', []] (hr_steps r))"
    from False have once: "cancel_host r = r\<lparr>hr_status := ''cancelled'', hr_reason := ''cancelled'', hr_steps := srs\<rparr>"
      unfolding cancel_host_def srs_def by (rule if_not_P)
    have "close_steps by_hand [''running'', []] srs = srs"
    proof (cases "hr_steps r = []")
      case True
      then show ?thesis by (simp add: srs_def close_steps_def plain_step_def)
    next
      case False
      then show ?thesis unfolding srs_def by (simp add: close_steps_twice)
    qed
    moreover have "cancel_host (cancel_host r) =
        (cancel_host r)\<lparr>hr_steps := close_steps by_hand [''running'', []] (hr_steps (cancel_host r))\<rparr>"
      unfolding cancel_host_def [of "cancel_host r"] by (simp add: once cancelled)
    ultimately show ?thesis by (simp add: once)
  qed
qed

lemma GetExecution_on_exec:
  assumes "\<And>e. ex_id e = i \<Longrightarrow> ex_id (f e) = i"
  shows "GetExecution k (on_exec i f m) = map_option (\<lambda>e. if k = i then f e else e) (GetExecution k m)"
proof -
  have "find (\<lambda>e. ex_id e = k) (update_first (\<lambda>e. ex_id e = i) f es) =
      map_option (\<lambda>e. if k = i then f e else e) (find (\<lambda>e. ex_id e = k) es)" for es
    by (induction es) (auto simp: assms option.map_ident)
  then show ?thesis by (simp add: GetExecution_def on_exec_def)
qed

lemma find_drop:
  assumes "distinct (map ex_id es)" "find (\<lambda>e. ex_id e = k) (drop n es) = Some e"
  shows "find (\<lambda>e. ex_id e = k) es = Some e"
  using assms
proof (induction es arbitrary: n)
  case (Cons x es)
  show ?case
  proof (cases n)
    case (Suc j)
    with Cons have "find (\<lambda>e. ex_id e = k) es = Some e" by simp
    moreover from this have "e \<in> set es" "ex_id e = k" by (auto simp: find_Some_iff)
    then have "ex_id x \<noteq> k" using Cons.prems(1) by auto
    ultimately show ?thesis by simp
  qed (use Cons in simp)
qed simp

lemma find_snoc: "find P (xs @ [y]) = (case find P xs of None \<Rightarrow> if P y then Some y else None | Some z \<Rightarrow> Some z)"
  by (induction xs) simp_all

lemma GetExecution_appended:
  assumes "distinct (map ex_id (pm_execs m @ [e]))" "GetExecution k (m\<lparr>pm_execs := newest (pm_execs m @ [e])\<rparr>) = Some x"
    "k \<noteq> ex_id e"
  shows "GetExecution k m = Some x"
proof -
  have "find (\<lambda>e. ex_id e = k) (newest (pm_execs m @ [e])) = Some x" using assms(2) by (simp add: GetExecution_def)
  then have "find (\<lambda>e. ex_id e = k) (pm_execs m @ [e]) = Some x" unfolding newest_def by (rule find_drop [OF assms(1)])
  then show ?thesis using assms(3) by (auto simp: GetExecution_def find_snoc split: option.splits)
qed

text \<open>The two writes that may reopen an execution: a status set by hand, and a row loaded from the database.\<close>

fun reopens :: "int \<Rightarrow> pm_op \<Rightarrow> bool" where
  "reopens i (SetOp now k status finished) \<longleftrightarrow> k = i"
| "reopens i (EnsureOp e) \<longleftrightarrow> ex_id e = i"
| "reopens i _ \<longleftrightarrow> False"


definition keeps_final :: "int \<Rightarrow> string \<Rightarrow> host_result go_map \<Rightarrow> pb_manager \<Rightarrow> bool" where
  "keeps_final i status hosts m \<longleftrightarrow> pm_inv m \<and> i \<le> pm_nextID m \<and>
     (case GetExecution i m of None \<Rightarrow> True
      | Some e \<Rightarrow> ex_status e = status \<and> (ex_hosts e = hosts \<or> ex_hosts e = map_values cancel_host hosts))"

lemma GetExecution_frame: "pm_execs m = pm_execs n \<Longrightarrow> GetExecution k m = GetExecution k n"
  by (simp add: GetExecution_def)

lemma keeps_final_on_exec:
  assumes "keeps_final i st hs m" "\<And>e. ex_id e = k \<Longrightarrow> ex_id (f e) = k"
    "\<And>e. ex_status e = st \<Longrightarrow> ex_status (f e) = st"
    "\<And>e. ex_status e = st \<Longrightarrow> ex_hosts (f e) = ex_hosts e \<or> ex_hosts (f e) = map_values cancel_host (ex_hosts e)"
  shows "keeps_final i st hs (on_exec k f m)"
proof -
  have twice: "map_values cancel_host (map_values cancel_host xs) = map_values cancel_host xs" for xs
    by (induction xs) (auto simp: map_values_def cancel_host_idem)
  have "pm_inv (on_exec k f m)" using assms(1, 2) by (auto simp: keeps_final_def intro: on_exec_inv)
  with assms show ?thesis
    by (cases "GetExecution i m"; fastforce simp: keeps_final_def GetExecution_on_exec on_exec_ids(2) twice)
qed

lemma keeps_final_append:
  assumes "keeps_final i st hs m" "\<forall>x\<in>set (pm_execs m). ex_id x \<noteq> ex_id e" "pm_nextID m \<le> n" "ex_id e \<le> n" "ex_id e \<noteq> i"
  shows "keeps_final i st hs (m\<lparr>pm_execs := newest (pm_execs m @ [e]), pm_nextID := n\<rparr>)"
proof -
  have inv: "pm_inv m" using assms(1) by (simp add: keeps_final_def)
  then have "pm_inv (m\<lparr>pm_execs := newest (pm_execs m @ [e]), pm_nextID := n\<rparr>)" by (rule append_inv) (use assms in auto)
  moreover have "GetExecution i m = Some x"
    if "GetExecution i (m\<lparr>pm_execs := newest (pm_execs m @ [e]), pm_nextID := n\<rparr>) = Some x" for x
  proof (rule GetExecution_appended [where e = e])
    show "distinct (map ex_id (pm_execs m @ [e]))" using inv assms(2) by (auto simp: pm_inv_def)
  qed (use that assms(5) in \<open>simp_all add: GetExecution_def\<close>)
  ultimately show ?thesis using assms(1, 3) by (auto simp: keeps_final_def split: option.splits)
qed

lemma keeps_final_step:
  assumes "playbookTerminalStatus st" "keeps_final i st hs m" "\<not> reopens i op"
  shows "keeps_final i st hs (pm_step m op)"
proof (cases op)
  case (StartOp now p u hosts status trigger)
  define e where "e = \<lparr>ex_id = pm_nextID m + 1, ex_playbook = p, ex_operator = u, ex_start = now, ex_end = 0,
    ex_status = status, ex_hosts = pending_hosts hosts, ex_trigger = trigger\<rparr>"
  have "pm_inv m" "i \<le> pm_nextID m" using assms(2) by (simp_all add: keeps_final_def)
  then have "keeps_final i st hs (m\<lparr>pm_execs := newest (pm_execs m @ [e]), pm_nextID := pm_nextID m + 1\<rparr>)"
    by (intro keeps_final_append [OF assms(2)]) (force simp: e_def pm_inv_def)+
  moreover have "pm_step m op = m\<lparr>pm_execs := newest (pm_execs m @ [e]), pm_nextID := pm_nextID m + 1\<rparr>"
    unfolding StartOp by (simp add: startExecution_def e_def Let_def)
  ultimately show ?thesis by simp
next
  case (DueOp ck now pbs)
  with assms(2) show ?thesis
    using GetExecution_frame [OF dueSchedules_frame(1)] by (simp add: keeps_final_def pm_inv_def dueSchedules_frame)
next
  case (ClearOp p)
  with assms(2) show ?thesis by (simp add: keeps_final_def pm_inv_def clearSchedBusy_def GetExecution_def)
next
  case (EnsureOp e)
  show ?thesis
  proof (cases "GetExecution (ex_id e) m = None")
    case True
    then have "\<forall>x\<in>set (pm_execs m). ex_id x \<noteq> ex_id e" by (auto simp: GetExecution_def find_None_iff)
    with keeps_final_append [OF assms(2), of e "if pm_nextID m \<le> ex_id e then ex_id e + 1 else pm_nextID m"] EnsureOp True assms(3)
    show ?thesis by (auto simp: ensureExecution_def)
  next
    case False
    have "keeps_final i st hs (on_exec (ex_id e) (\<lambda>_. e) m)"
      using assms(2, 3) EnsureOp by (cases "GetExecution i m")
        (auto simp: keeps_final_def on_exec_ids(2) GetExecution_on_exec intro: on_exec_inv)
    with False EnsureOp show ?thesis by (simp add: ensureExecution_def)
  qed
next
  case (SetOp now k status finished)
  have "keeps_final i st hs (on_exec k (\<lambda>e. e\<lparr>ex_status := status, ex_end := if finished then now else ex_end e\<rparr>) m)"
    using assms(2, 3) SetOp by (cases "GetExecution i m")
      (auto simp: keeps_final_def on_exec_ids(2) GetExecution_on_exec intro: on_exec_inv)
  with SetOp show ?thesis by (simp add: SetExecutionStatus_def)
next
  case (UpdateOp k h r)
  have "keeps_final i st hs (on_exec k (update_host h r) m)"
    by (rule keeps_final_on_exec [OF assms(2)]) (use assms(1) in \<open>auto simp: update_host_def split: option.splits\<close>)
  with UpdateOp show ?thesis by (simp add: UpdateHostResult_def)
next
  case (FinishOp now k status)
  have "keeps_final i st hs (on_exec k (finish_exec now status) m)"
    by (rule keeps_final_on_exec [OF assms(2)]) (use assms(1) in \<open>auto simp: finish_exec_def\<close>)
  with FinishOp show ?thesis by (simp add: FinishExecution_def)
next
  case (CancelHostsOp k)
  have "keeps_final i st hs (on_exec k (\<lambda>e. e\<lparr>ex_hosts := map_values cancel_host (ex_hosts e)\<rparr>) m)"
    by (rule keeps_final_on_exec [OF assms(2)]) auto
  with CancelHostsOp show ?thesis by (simp add: CancelUnfinishedHosts_def)
qed

text \<open>C18. An execution that has come to its end keeps its status and the results of its hosts, whatever is written
  to it afterwards, apart from the open hosts and steps that a cancellation closes; only a status set by hand or
  a row loaded again from the database can change it.\<close>

theorem terminal_sticky:
  assumes "pm_inv m" "GetExecution i m = Some e" "playbookTerminalStatus (ex_status e)"
    "\<forall>op\<in>set ops. \<not> reopens i op" "GetExecution i (run pm_step m ops) = Some e'"
  shows "ex_status e' = ex_status e \<and> (ex_hosts e' = ex_hosts e \<or> ex_hosts e' = map_values cancel_host (ex_hosts e))"
proof -
  have "e \<in> set (pm_execs m)" "ex_id e = i" using assms(2) by (auto simp: GetExecution_def find_Some_iff)
  then have "i \<le> pm_nextID m" using assms(1) by (auto simp: pm_inv_def)
  then have "keeps_final i (ex_status e) (ex_hosts e) m" using assms(1, 2) by (simp add: keeps_final_def)
  then have "keeps_final i (ex_status e) (ex_hosts e) (run pm_step m ops)"
    using assms(4) by (induction ops arbitrary: m) (simp_all add: keeps_final_step [OF assms(3)])
  with assms(5) show ?thesis by (simp add: keeps_final_def)
qed

text \<open>An execution that waits for approval, and the same one after a cancellation.\<close>

definition waiting :: pb_manager where
  "waiting = fst (StartPendingExecution 5 ''p'' ''scheduler'' ([] :: os_host list) newPlaybookManager)"

definition stopped :: pb_manager where
  "stopped = fst (handleCancelPlaybookExecution 7 2 None waiting)"

lemma terminal_sticky_witness:
  "pm_inv stopped \<and> GetExecution 2 stopped \<noteq> None \<and>
   ex_status (the (GetExecution 2 (run pm_step stopped [FinishOp 9 2 ''completed'', ClearOp ''p'']))) = ''cancelled''"
proof -
  have inv: "pm_inv stopped" unfolding pm_inv_def by code_simp
  have found: "GetExecution 2 stopped = Some (the (GetExecution 2 stopped))" by code_simp
  have later: "GetExecution 2 (run pm_step stopped [FinishOp 9 2 ''completed'', ClearOp ''p'']) =
      Some (the (GetExecution 2 (run pm_step stopped [FinishOp 9 2 ''completed'', ClearOp ''p''])))" by code_simp
  have final: "playbookTerminalStatus (ex_status (the (GetExecution 2 stopped)))" by code_simp
  have "ex_status (the (GetExecution 2 stopped)) = ''cancelled''" by code_simp
  with terminal_sticky [OF inv found final _ later] have "ex_status (the (GetExecution 2 (run pm_step stopped [FinishOp 9 2 ''completed'', ClearOp ''p'']))) = ''cancelled''" by simp
  with inv found show ?thesis by (metis option.distinct(1))
qed

section \<open>Approvals and cancellations\<close>

lemma update_host_status [simp]: "ex_status (update_host h r e) = ex_status e"
  by (auto simp: update_host_def split: option.splits)

lemma commit_hosts:
  "map_option ex_status (GetExecution i (foldl (\<lambda>m h. UpdateHostResult i (k h) (r h) m) m hosts)) =
   map_option ex_status (GetExecution i m)"
  by (induction hosts arbitrary: m) (simp_all add: UpdateHostResult_def GetExecution_on_exec option.map_comp comp_def)

lemma cancelled_outcome:
  assumes "GetExecution i m = Some e" "ex_status e = ''running'' \<or> ex_status e = ''pending_approval''"
  shows "snd (handleCancelPlaybookExecution now i row m) = ExecOkay"
    "GetExecution i (fst (handleCancelPlaybookExecution now i row m)) =
       Some (e\<lparr>ex_hosts := map_values cancel_host (ex_hosts e), ex_end := now, ex_status := ''cancelled''\<rparr>)"
    "\<not> get_or False (pm_busy (fst (handleCancelPlaybookExecution now i row m))) (ex_playbook e)"
proof -
  have "\<not> playbookTerminalStatus (ex_status e)"
    using assms(2) by (elim disjE) (simp_all add: playbookTerminalStatus_def terminal_statuses_def, code_simp+)
  moreover have "GetExecution k (clearSchedBusy p m) = GetExecution k m" for k p m
    by (simp add: GetExecution_def clearSchedBusy_def)
  moreover have "\<not> get_or False (pm_busy (clearSchedBusy p m)) p" for p m
    by (simp add: clearSchedBusy_def get_or_def delete_conv)
  ultimately show "snd (handleCancelPlaybookExecution now i row m) = ExecOkay"
    "GetExecution i (fst (handleCancelPlaybookExecution now i row m)) =
       Some (e\<lparr>ex_hosts := map_values cancel_host (ex_hosts e), ex_end := now, ex_status := ''cancelled''\<rparr>)"
    "\<not> get_or False (pm_busy (fst (handleCancelPlaybookExecution now i row m))) (ex_playbook e)"
    using assms by (auto simp: handleCancelPlaybookExecution_def FinishExecution_def CancelUnfinishedHosts_def
        GetExecution_on_exec finish_exec_def)
qed

text \<open>The cancellation of any execution of a playbook clears the playbook's busy mark, also when it is another
  execution, started by the scheduler, that is in flight and goes on: the next tick may start the playbook beside it.\<close>

lemma manual_cancel_frees_schedule:
  assumes "GetExecution i m = Some e" "ex_status e = ''running'' \<or> ex_status e = ''pending_approval''"
    and "GetExecution j m = Some e'" "j \<noteq> i" "ex_status e' = ''running''" "ex_playbook e' = ex_playbook e"
  shows "\<not> get_or False (pm_busy (fst (handleCancelPlaybookExecution now i row m))) (ex_playbook e') \<and>
    GetExecution j (fst (handleCancelPlaybookExecution now i row m)) = Some e'"
proof
  show "\<not> get_or False (pm_busy (fst (handleCancelPlaybookExecution now i row m))) (ex_playbook e')"
    using cancelled_outcome(3) [OF assms(1,2)] assms(6) by simp
  have "GetExecution k (clearSchedBusy p m) = GetExecution k m" for k p m
    by (simp add: GetExecution_def clearSchedBusy_def)
  then show "GetExecution j (fst (handleCancelPlaybookExecution now i row m)) = Some e'"
    using assms by (auto simp: handleCancelPlaybookExecution_def FinishExecution_def CancelUnfinishedHosts_def GetExecution_on_exec)
qed

text \<open>A cancellation between the two halves of an approval is answered with success and then undone: the
  approval sets the execution running, although it is final.\<close>

theorem cancelled_run_restarts:
  assumes "GetExecution i m = Some e" "ex_status e = ''pending_approval''" "pbs (ex_playbook e) = Some p" "hosts \<noteq> []"
  shows "approve_check i pbs m = Inr p"
    "snd (handleCancelPlaybookExecution now i row m) = ExecOkay \<and>
     map_option ex_status (GetExecution i (fst (handleCancelPlaybookExecution now i row m))) = Some ''cancelled'' \<and>
     map_option ex_status (GetExecution i (fst (approve_commit later i p hosts (fst (handleCancelPlaybookExecution now i row m))))) =
       Some ''running''"
proof -
  show "approve_check i pbs m = Inr p" using assms by (simp add: approve_check_def)
  note out = cancelled_outcome [OF assms(1) disjI2, OF assms(2)]
  show "snd (handleCancelPlaybookExecution now i row m) = ExecOkay \<and>
     map_option ex_status (GetExecution i (fst (handleCancelPlaybookExecution now i row m))) = Some ''cancelled'' \<and>
     map_option ex_status (GetExecution i (fst (approve_commit later i p hosts (fst (handleCancelPlaybookExecution now i row m))))) =
       Some ''running''"
    using assms(4) out by (simp add: approve_commit_def commit_hosts SetExecutionStatus_def GetExecution_on_exec)
qed

definition by_name :: "string \<Rightarrow> playbook" where
  "by_name p = \<lparr>pb_id = p, pb_name = p, pb_description = [], pb_steps = [], pb_maxParallel = 30, pb_autoRollback = False,
     pb_schedule = None, pb_createdAt = 0, pb_updatedAt = 0\<rparr>"

lemma cancelled_run_restarts_witness:
  "approve_check 2 (\<lambda>_. Some (by_name ''p'')) waiting =
     Inr (by_name ''p'')"
proof -
  have found: "GetExecution 2 waiting = Some (the (GetExecution 2 waiting))" by code_simp
  have status: "ex_status (the (GetExecution 2 waiting)) = ''pending_approval''" by code_simp
  show ?thesis
    by (rule cancelled_run_restarts(1) [OF found status, of _ _ "[\<lparr>he_id = ''h1'', he_category = [], he_lastSeen = 0, oh_hostname = ''web1'', oh_ip = [], oh_os = [], oh_arch = [], oh_platform = []\<rparr>]"]) simp_all
qed

section \<open>Schedules\<close>

text \<open>The instant a daily or weekly schedule stands for on the day of a tick.\<close>

definition instant_of :: "local_clock \<Rightarrow> int \<Rightarrow> playbook \<Rightarrow> int option" where
  "instant_of ck now p =
     (case pb_schedule p of None \<Rightarrow> None
      | Some sc \<Rightarrow> if sc_kind sc = ''interval'' then None else scheduledInstant ck now (sc_at sc))"

lemma consider_due_cases:
  assumes "consider_due ck prev now (m, ps) p = (m', ps')"
  obtains "ps' = ps" "pm_busy m' = pm_busy m"
  | sc where "ps' = ps @ [p]" "pb_schedule p = Some sc" "\<not> get_or False (pm_busy m) (pb_id p)" "fires ck prev now sc (map_of (pm_lastRun m) (pb_id p))"
    "pm_busy m' = AList.update (pb_id p) True (pm_busy m)"
proof (cases "pb_schedule p")
  case None
  with assms that(1) show ?thesis by (simp add: consider_due_def)
next
  case (Some sc)
  let ?idle = "sc_enabled sc \<and> \<not> get_or False (pm_busy m) (pb_id p)"
  consider (skip) "\<not> ?idle" | (fire) "?idle" "fires ck prev now sc (map_of (pm_lastRun m) (pb_id p))"
    | (wait) "?idle" "\<not> fires ck prev now sc (map_of (pm_lastRun m) (pb_id p))" by blast
  then show ?thesis
  proof cases
    case skip
    with assms Some have "m' = m" "ps' = ps" by (auto simp: consider_due_def)
    with that(1) show ?thesis by simp
  next
    case fire
    with assms Some have "ps' = ps @ [p]" "pm_busy m' = AList.update (pb_id p) True (pm_busy m)"
      by (auto simp: consider_due_def)
    with that(2) Some fire show ?thesis by blast
  next
    case wait
    with assms Some have "ps' = ps" "pm_busy m' = pm_busy m" by (auto simp: consider_due_def Let_def split: if_splits)
    with that(1) show ?thesis by simp
  qed
qed

lemma fires_instant:
  assumes "fires ck prev now sc prior" "pb_schedule p = Some sc" "instant_of ck now p = Some i"
  shows "prev < i \<and> i \<le> now"
  using assms by (auto simp: fires_def instant_of_def instant_passed_def split: if_splits option.splits)

text \<open>What a tick's list of due playbooks guarantees, relative to the busy marks before it.\<close>

definition due_ok :: "local_clock \<Rightarrow> int \<Rightarrow> int \<Rightarrow> bool go_map \<Rightarrow> pb_manager \<times> playbook list \<Rightarrow> bool" where
  "due_ok ck prev now busy acc \<longleftrightarrow> distinct (map pb_id (snd acc)) \<and>
     (\<forall>k. get_or False (pm_busy (fst acc)) k \<longleftrightarrow> get_or False busy k \<or> k \<in> pb_id ` set (snd acc)) \<and>
     (\<forall>p\<in>set (snd acc). \<not> get_or False busy (pb_id p)) \<and>
     (\<forall>p\<in>set (snd acc). \<forall>i. instant_of ck now p = Some i \<longrightarrow> prev < i \<and> i \<le> now)"

lemma consider_due_ok:
  assumes "due_ok ck prev now busy (m, ps)"
  shows "due_ok ck prev now busy (consider_due ck prev now (m, ps) p)"
proof -
  obtain m' ps' where res: "consider_due ck prev now (m, ps) p = (m', ps')" by (rule prod.exhaust)
  then show ?thesis
  proof (cases rule: consider_due_cases)
    case 1
    with assms show ?thesis by (simp add: res due_ok_def)
  next
    case (2 sc)
    with fires_instant [OF 2(4, 2)] assms show ?thesis by (auto simp: res due_ok_def get_or_def update_conv')
  qed
qed

lemma dueSchedules_ok:
  "due_ok ck (case pm_lastCheck m of None \<Rightarrow> now | Some t \<Rightarrow> t) now (pm_busy m) (dueSchedules ck now pbs m)"
proof -
  have "due_ok ck prev now busy acc \<Longrightarrow> due_ok ck prev now busy (foldl (consider_due ck prev now) acc pbs)" for prev busy acc
  proof (induction pbs arbitrary: acc)
    case (Cons p pbs)
    then show ?case using consider_due_ok [of ck prev now busy "fst acc" "snd acc" p] by simp
  qed simp
  note keep = this
  have "due_ok ck prev now (pm_busy m) (m, [])" for prev by (simp add: due_ok_def)
  then have folded: "due_ok ck prev now (pm_busy m) (foldl (consider_due ck prev now) (m, []) pbs)" for prev by (rule keep)
  define prev where "prev = (case pm_lastCheck m of None \<Rightarrow> now | Some t \<Rightarrow> t)"
  obtain m1 due where res: "foldl (consider_due ck prev now) (m, []) pbs = (m1, due)" by (rule prod.exhaust)
  then have "dueSchedules ck now pbs m = (m1\<lparr>pm_lastCheck := Some now\<rparr>, due)" by (simp add: dueSchedules_def prev_def)
  moreover have "due_ok ck prev now (pm_busy m) (m1, due)" using folded [of prev] unfolding res .
  then have "due_ok ck prev now (pm_busy m) (m1\<lparr>pm_lastCheck := Some now\<rparr>, due)" by (simp add: due_ok_def)
  ultimately show ?thesis unfolding prev_def by simp
qed

lemma schedule_frame:
  assumes "\<forall>ck now pbs. op \<noteq> DueOp ck now pbs"
  shows "pm_lastCheck (pm_step m op) = pm_lastCheck m"
    "\<forall>p. op \<noteq> ClearOp p \<Longrightarrow> pm_busy (pm_step m op) = pm_busy m"
  by (cases op; use assms in \<open>simp add: startExecution_def UpdateHostResult_def FinishExecution_def
      CancelUnfinishedHosts_def SetExecutionStatus_def ensureExecution_def clearSchedBusy_def on_exec_def Let_def\<close>)+

lemma busy_step:
  assumes "get_or False (pm_busy m) k" "ClearOp k \<noteq> op"
  shows "get_or False (pm_busy (pm_step m op)) k"
proof -
  consider ck now pbs where "op = DueOp ck now pbs" | p where "op = ClearOp p"
    | "\<forall>ck now pbs. op \<noteq> DueOp ck now pbs" "\<forall>p. op \<noteq> ClearOp p" by blast
  then show ?thesis
  proof cases
    case (1 ck now pbs)
    with dueSchedules_ok [where ck = ck and now = now and m = m and pbs = pbs] assms(1) show ?thesis
      by (simp add: due_ok_def)
  next
    case (2 p)
    with assms show ?thesis by (simp add: clearSchedBusy_def get_or_delete)
  qed (use assms schedule_frame in auto)
qed

text \<open>A clock that does not run backwards: no tick is earlier than \<open>t\<close> or than a tick before it.\<close>

fun ticks_from :: "int \<Rightarrow> pm_op list \<Rightarrow> bool" where
  "ticks_from t [] \<longleftrightarrow> True"
| "ticks_from t (DueOp ck now pbs # ops) \<longleftrightarrow> t \<le> now \<and> ticks_from now ops"
| "ticks_from t (op # ops) \<longleftrightarrow> ticks_from t ops"

lemma lastCheck_run:
  assumes "pm_lastCheck m = Some t" "ticks_from t ops"
  shows "\<exists>t'\<ge>t. pm_lastCheck (run pm_step m ops) = Some t'"
  using assms
proof (induction ops arbitrary: m t)
  case (Cons op ops)
  show ?case
  proof (cases "\<forall>ck now pbs. op \<noteq> DueOp ck now pbs")
    case True
    moreover from this have "ticks_from t (op # ops) = ticks_from t ops" by (cases op) auto
    ultimately show ?thesis using Cons.prems Cons.IH [of "pm_step m op" t] by (simp add: schedule_frame(1))
  next
    case False
    then obtain ck now pbs where "op = DueOp ck now pbs" by blast
    with Cons.prems Cons.IH [of "pm_step m op" now] show ?thesis by (force simp: dueSchedules_frame)
  qed
qed simp

text \<open>C17. A playbook a tick of the scheduler starts is not started again by a later tick before its busy mark has been
  cleared, whatever else happens (the mark is cleared at the end, the rejection and the cancellation of any execution
  of the playbook, see manual_cancel_frees_schedule); and when a daily or weekly schedule starts it again, it is
  for a later instant: no instant starts a playbook twice.\<close>

theorem schedule_fires_once:
  assumes "dueSchedules ck now pbs m = (m1, due)" "p \<in> set due" "ticks_from now ops"
    "dueSchedules ck' now' pbs' (run pm_step m1 ops) = (m2, due')" "p' \<in> set due'" "pb_id p' = pb_id p"
  shows "ClearOp (pb_id p) \<in> set ops \<and>
     (\<forall>i i'. instant_of ck now p = Some i \<and> instant_of ck' now' p' = Some i' \<longrightarrow> i < i')"
proof
  note ok = dueSchedules_ok [where ck = ck and now = now and m = m and pbs = pbs, unfolded assms(1)]
    dueSchedules_ok [where ck = ck' and now = now' and m = "run pm_step m1 ops" and pbs = pbs', unfolded assms(4)]
  have "get_or False (pm_busy n) k \<Longrightarrow> ClearOp k \<notin> set os \<Longrightarrow> get_or False (pm_busy (run pm_step n os)) k" for n k os
    by (induction os arbitrary: n) (simp_all add: busy_step)
  moreover have "get_or False (pm_busy m1) (pb_id p)" using ok(1) assms(2) by (auto simp: due_ok_def)
  moreover have "\<not> get_or False (pm_busy (run pm_step m1 ops)) (pb_id p)" using ok(2) assms(5, 6) by (auto simp: due_ok_def)
  ultimately show "ClearOp (pb_id p) \<in> set ops" by blast
  have "pm_lastCheck m1 = Some now" using dueSchedules_frame(3) [of ck now pbs m] assms(1) by simp
  then obtain t where "now \<le> t" "pm_lastCheck (run pm_step m1 ops) = Some t" using lastCheck_run assms(3) by blast
  then show "\<forall>i i'. instant_of ck now p = Some i \<and> instant_of ck' now' p' = Some i' \<longrightarrow> i < i'"
    using ok assms(2, 5) by (fastforce simp: due_ok_def)
qed

definition day_clock :: local_clock where
  "day_clock = \<lparr>local_at = (\<lambda>now mins. if now < 1440 then mins else 1440 + mins), weekday_of = (\<lambda>_. 0)\<rparr>"

definition nightly :: playbook where
  "nightly = (by_name ''p'')\<lparr>pb_schedule :=
     Some \<lparr>sc_enabled = True, sc_kind = ''daily'', sc_interval = 0, sc_at = ''00:01'', sc_weekday = 0\<rparr>\<rparr>"

definition first_night :: "pb_manager \<times> playbook list" where
  "first_night = dueSchedules day_clock 2 [nightly] (newPlaybookManager\<lparr>pm_lastCheck := Some 0\<rparr>)"

definition second_night :: "pb_manager \<times> playbook list" where
  "second_night = dueSchedules day_clock 1442 [nightly] (run pm_step (fst first_night) [ClearOp ''p''])"

lemma at_one: "parseHHMM ''00:01'' = Some 1"
proof -
  have "trim_space ''00:01'' = ''00:01''" by code_simp
  moreover have "scan_number ''00:01'' = Some (0, '':01'')" "scan_number ''01'' = Some (1, [])"
    by (simp_all add: scan_number_def Let_def is_space_def is_digit_def parse_int_def digit_val_def)
  ultimately show ?thesis by (simp add: parseHHMM_def)
qed

lemma schedule_fires_once_witness:
  "\<exists>i i'. instant_of day_clock 2 nightly = Some i \<and> instant_of day_clock 1442 nightly = Some i' \<and> i < i'"
proof -
  note tick = dueSchedules_def consider_due_def fires_def instant_passed_def scheduledInstant_def at_one nightly_def by_name_def
    day_clock_def get_or_def clearSchedBusy_def newPlaybookManager_def
  have first: "first_night = (fst first_night, [nightly])"
    unfolding first_night_def by (simp add: tick)
  have "second_night = (fst second_night, [nightly])"
    unfolding second_night_def first_night_def by (simp add: tick)
  from schedule_fires_once [OF first [unfolded first_night_def] _ _ this [unfolded second_night_def first_night_def], of nightly nightly]
  have "\<forall>i i'. instant_of day_clock 2 nightly = Some i \<and> instant_of day_clock 1442 nightly = Some i' \<longrightarrow> i < i'" by simp
  moreover have "instant_of day_clock 2 nightly = Some 1" "instant_of day_clock 1442 nightly = Some 1441"
    by (simp_all add: instant_of_def tick)
  ultimately show ?thesis by blast
qed

end
