(* ===== verification/PlaybookSafety.thy ===== *)
theory PlaybookSafety
  imports PlaybookRun
begin

text \<open>
  What a run of a playbook sends to its hosts, how often, and how it is rolled back; and where the checks made
  when the playbook is saved do not reach the run.
\<close>

section \<open>What is sent\<close>

lemma no_match_no_change: "find_all r s i = [] \<Longrightarrow> replace_from r g s i = drop i s"
  by (subst replace_from.simps, subst (asm) find_all.simps) (auto split: option.splits if_splits)

lemma no_reference: "references v = [] \<Longrightarrow> substitutePlaybookVars v vars = v"
  using no_match_no_change [of pbVarRE v 0] by (simp add: references_def substitutePlaybookVars_def replace_all_def)

text \<open>The commands a playbook can give a host, whatever the variables hold.\<close>

definition of_playbook :: "playbook_step list \<Rightarrow> 'a os_host_scheme \<Rightarrow> host_command \<Rightarrow> bool" where
  "of_playbook sts h c \<longleftrightarrow> (\<exists>st\<in>set sts. \<exists>vars.
     c = resolvePlaybookCommand st h vars \<or> c = Shell (trim_space (resolvePlaybookRollback st h vars)))"

definition sent_inv :: "playbook_step list \<Rightarrow> 'a os_host_scheme \<Rightarrow> run_state \<Rightarrow> bool" where
  "sent_inv sts h s \<longleftrightarrow> (\<forall>c\<in>set (rs_sent s). of_playbook sts h c) \<and>
     (\<forall>(st, rb)\<in>set (rs_rollbacks s). of_playbook sts h (Shell rb))"

lemma sent_inv_same [simp]:
  "sent_inv sts h (s\<lparr>rs_tick := t\<rparr>) = sent_inv sts h s"
  "sent_inv sts h (s\<lparr>rs_vars := v\<rparr>) = sent_inv sts h s"
  "sent_inv sts h (s\<lparr>rs_result := r\<rparr>) = sent_inv sts h s"
  "sent_inv sts h (skip_when st s) = sent_inv sts h s"
  "sent_inv sts h (skip_step st s) = sent_inv sts h s"
  "sent_inv sts h (finish_host s) = sent_inv sts h s"
  by (simp_all add: sent_inv_def skip_when_def skip_step_def finish_host_def)

lemma sent_inv_send:
  "sent_inv sts h s \<Longrightarrow> of_playbook sts h c \<Longrightarrow> sent_inv sts h (s\<lparr>rs_sent := rs_sent s @ replicate n c\<rparr>)"
  by (auto simp: sent_inv_def)

lemma exec_step_fields:
  assumes "try_step E (ps_retryOnExit st) cmd (step_attempts st) 0 (rs_tick s) = (r, t)"
  shows "rs_sent (fst (exec_step E h st cmd s)) = rs_sent s @ replicate (tr_attempts r) cmd"
    "rs_tick (fst (exec_step E h st cmd s)) = t"
    "\<exists>vars. rs_rollbacks (fst (exec_step E h st cmd s)) = rs_rollbacks s \<or>
       rs_rollbacks (fst (exec_step E h st cmd s)) = rs_rollbacks s @ [(st, trim_space (resolvePlaybookRollback st h vars))]"
proof -
  show "rs_sent (fst (exec_step E h st cmd s)) = rs_sent s @ replicate (tr_attempts r) cmd"
    "rs_tick (fst (exec_step E h st cmd s)) = t"
    by (simp_all add: exec_step_def assms Let_def)
  have "rs_rollbacks (fst (exec_step E h st cmd s)) = rs_rollbacks s \<or>
    (\<exists>vars. rs_rollbacks (fst (exec_step E h st cmd s)) = rs_rollbacks s @ [(st, trim_space (resolvePlaybookRollback st h vars))])"
    unfolding exec_step_def assms Let_def prod.case by (auto split: if_splits)
  then show "\<exists>vars. rs_rollbacks (fst (exec_step E h st cmd s)) = rs_rollbacks s \<or>
       rs_rollbacks (fst (exec_step E h st cmd s)) = rs_rollbacks s @ [(st, trim_space (resolvePlaybookRollback st h vars))]"
    by blast
qed

lemma exec_step_sent:
  assumes "sent_inv sts h s" "st \<in> set sts" "of_playbook sts h cmd"
  shows "sent_inv sts h (fst (exec_step E h st cmd s))"
proof -
  have "of_playbook sts h (Shell (trim_space (resolvePlaybookRollback st h vars)))" for vars
    using assms(2) by (auto simp: of_playbook_def)
  moreover obtain r t where "try_step E (ps_retryOnExit st) cmd (step_attempts st) 0 (rs_tick s) = (r, t)" by force
  ultimately show ?thesis
    using exec_step_fields [of E st cmd s r t h] assms(1, 3) by (auto simp: sent_inv_def)
qed

lemma run_steps_sent:
  assumes "run_steps T E h sts s = Some s'" "sent_inv all h s" "set sts \<subseteq> set all"
  shows "sent_inv all h s'"
  using assms
proof (induction sts arbitrary: s)
  case (Cons st sts)
  define s0 where "s0 = s\<lparr>rs_tick := rs_tick s + 1\<rparr>"
  define w where "w = (if ps_when st = [] then Some True else evalPlaybookWhen T (ps_when st) (rs_vars s))"
  define cmd where "cmd = resolvePlaybookCommand st h (rs_vars s)"
  have inv: "sent_inv all h s0" using Cons.prems(2) by (simp add: s0_def)
  have cmd: "of_playbook all h cmd" using Cons.prems(3) by (auto simp: of_playbook_def cmd_def)
  have run: "(if en_stopped E (rs_tick s)
      then Some (s0\<lparr>rs_result := cancel_result (plain_step (ps_name st) ''cancelled'' [] 0) (rs_result s)\<rparr>)
      else case w of None \<Rightarrow> None | Some False \<Rightarrow> run_steps T E h sts (skip_when st s0)
      | Some True \<Rightarrow> if blank_command cmd then run_steps T E h sts (skip_step st s0)
          else case exec_step E h st cmd s0 of (s1, True) \<Rightarrow> run_steps T E h sts s1 | (s1, False) \<Rightarrow> Some s1) = Some s'"
    using Cons.prems(1) by (simp only: run_steps.simps Let_def s0_def w_def cmd_def)
  have on: "sent_inv all h s'" if "run_steps T E h sts s1 = Some s'" "sent_inv all h s1" for s1
    using Cons.IH [OF that] Cons.prems(3) by simp
  obtain s1 b where e: "exec_step E h st cmd s0 = (s1, b)" by force
  have "sent_inv all h s1" using exec_step_sent [OF inv _ cmd, of st E] Cons.prems(3) e by simp
  then show ?case
    using run on [of "skip_when st s0"] on [of "skip_step st s0"] on [of s1] inv
    by (auto simp: e split: if_splits option.splits bool.splits)
qed simp

lemma rollbacks_sent:
  assumes "sent_inv all h s" "\<forall>(st, rb)\<in>set as. of_playbook all h (Shell rb)"
  shows "sent_inv all h (run_rollbacks E as s)"
  using assms
proof (induction as arbitrary: s)
  case (Cons a as)
  have "sent_inv all h (rollback_step E a s)" if "sent_inv all h s" for s
  proof -
    obtain r n t where "try_rollback E (Shell (snd a)) (rollback_attempts (fst a)) 0 ([], ExecOK) (rs_tick s) = (r, n, t)"
      by (metis prod_cases3)
    moreover have "of_playbook all h (Shell (snd a))" using Cons.prems(2) by auto
    ultimately show ?thesis using that by (auto simp: rollback_step_def sent_inv_def Let_def)
  qed
  with Cons show ?case by auto
qed simp

lemma run_host_cases:
  assumes "run_host T E auto sts h = Some s"
  obtains "rs_sent s = []" "rs_rollbacks s = []"
  | s1 where "\<not> en_stopped E 0" "run_steps T E h sts (start_host h\<lparr>rs_tick := 3\<rparr>) = Some s1"
      "s = finish_host (roll_back E auto s1)"
  using assms by (auto simp: run_host_def Let_def start_host_def not_started_def split: if_splits)

lemma run_host_sent:
  assumes "run_host T E auto sts h = Some s"
  shows "sent_inv sts h s"
  using assms
proof (cases rule: run_host_cases)
  case 1
  then show ?thesis by (simp add: sent_inv_def)
next
  case (2 s1)
  have inv: "sent_inv sts h s1" using run_steps_sent [OF 2(2)] by (simp add: sent_inv_def start_host_def)
  then have "\<forall>(st, rb)\<in>set (rev (rs_rollbacks s1)). of_playbook sts h (Shell rb)" by (simp add: sent_inv_def)
  with inv have "sent_inv sts h (roll_back E auto s1)"
    using rollbacks_sent [of sts h "s1\<lparr>rs_tick := rs_tick s1 + 1\<rparr>"] by (simp add: roll_back_def Let_def)
  then show ?thesis by (simp add: 2(3))
qed

lemma by_system_cases: "by_system h d w m \<in> {d, w, m}"
  by (simp add: by_system_def Let_def)

text \<open>A shell line a playbook without variables can send is one that was validated.\<close>

lemma shell_line_validated:
  assumes "of_playbook sts h (Shell line)"
    and plain: "\<forall>st\<in>set sts. \<forall>(f, v)\<in>set (var_fields st). references v = []"
  obtains st c where "st \<in> set sts" "c \<in> set (step_commands st)" "trim_space line = trim_space c"
proof -
  from assms(1) obtain st vars where st: "st \<in> set sts"
    and line: "Shell line = resolvePlaybookCommand st h vars \<or> line = trim_space (resolvePlaybookRollback st h vars)"
    by (auto simp: of_playbook_def)
  have same: "substitutePlaybookVars v vars = v" if "v \<in> set (commands st @ rollbacks st)" for v
    using plain st that by (intro no_reference) (auto simp: commands_def rollbacks_def var_fields_def)
  from line show ?thesis
  proof
    assume "Shell line = resolvePlaybookCommand st h vars"
    then have "ps_module st = []"
      and "line = substitutePlaybookVars (by_system h (ps_command st) (ps_commandWin st) (ps_commandMac st)) vars"
      by (auto simp: resolvePlaybookCommand_def buildModuleCommand_def split: if_splits)
    moreover have "by_system h (ps_command st) (ps_commandWin st) (ps_commandMac st) \<in> set (commands st)"
      using by_system_cases [of h "ps_command st"] by (auto simp: commands_def)
    ultimately show ?thesis using same that [OF st] by (auto simp: step_commands_def)
  next
    assume "line = trim_space (resolvePlaybookRollback st h vars)"
    moreover have "by_system h (ps_rollback st) (ps_rollbackWin st) (ps_rollbackMac st) \<in> set (rollbacks st)"
      using by_system_cases [of h "ps_rollback st"] by (auto simp: rollbacks_def)
    ultimately show ?thesis using same that [OF st]
      by (auto simp: step_commands_def resolvePlaybookRollback_def)
  qed
qed

text \<open>C9. A run sends a host only commands and ways back of its playbook, each put together for that host. When no
  text of the playbook holds a variable, every shell line that is sent, a way back included, matches no dangerous
  pattern and no refusal of the configuration; under the strict policy it also holds no semicolon,
  dollar sign, angle bracket or backquote, and every part of it between two bars starts with a listed prefix.\<close>

theorem run_sends_checked_commands:
  assumes "(i, Some s) \<in> set (runPlaybookExecution R pol T E auto sts hosts)" "c \<in> set (rs_sent s)"
  shows "\<exists>h\<in>set hosts. he_id h = i \<and> of_playbook sts h c \<and>
    ((\<forall>st\<in>set sts. \<forall>(f, v)\<in>set (var_fields st). references v = []) \<longrightarrow>
     (\<forall>line. c = Shell line \<longrightarrow> trim_space line = [] \<or>
       policy_clean R pol (trim_space line) \<and> (strict pol \<longrightarrow> policy_listed pol (trim_space line))))"
proof -
  from assms(1) obtain h where h: "h \<in> set hosts" "he_id h = i" "run_host T (E i) auto sts h = Some s"
    and valid: "validatePlaybookCommands R pol sts = None"
    by (auto simp: runPlaybookExecution_def split: if_splits)
  have c: "of_playbook sts h c" using run_host_sent [OF h(3)] assms(2) by (simp add: sent_inv_def)
  have "trim_space line = [] \<or> policy_clean R pol (trim_space line) \<and> (strict pol \<longrightarrow> policy_listed pol (trim_space line))"
    if p: "\<forall>st\<in>set sts. \<forall>(f, v)\<in>set (var_fields st). references v = []" "c = Shell line" for line
  proof -
    have "of_playbook sts h (Shell line)" using c p(2) by simp
    then obtain st d where "st \<in> set sts" "d \<in> set (step_commands st)" and eq: "trim_space line = trim_space d"
      using p(1) by (rule shell_line_validated)
    then show ?thesis
      using accepted_clean [OF validated_commands [OF valid]] accepted_listed [OF validated_commands [OF valid]] by (metis eq)
  qed
  with h c show ?thesis by blast
qed

section \<open>What variables change\<close>

definition ascii_text :: go_text where
  "ascii_text = \<lparr>gt_lower = to_lower, gt_less = (\<lambda>_ _. None), gt_less_equal = (\<lambda>_ _. None)\<rparr>"

definition answering :: "(string \<Rightarrow> string \<times> exec_kind) \<Rightarrow> run_env" where
  "answering f = \<lparr>en_exec = (\<lambda>n c. case c of Shell s \<Rightarrow> f s | Module m a \<Rightarrow> ([], ExecOK)), en_stopped = (\<lambda>n. False),
     en_recovered = (\<lambda>n. []), en_gave_up = (\<lambda>n. []), en_ignored = []\<rparr>"

definition sent_to :: "(string \<times> run_state panics) list \<Rightarrow> (string \<times> host_command list option) list" where
  "sent_to = map (\<lambda>(i, r). (i, map_option rs_sent r))"

definition any_host :: os_host where
  "any_host = linux_host ''a'' ''Rocky Linux 9.4''"

lemma run_valid:
  "validatePlaybookCommands R pol sts = None \<Longrightarrow>
   runPlaybookExecution R pol T E auto sts hosts = map (\<lambda>h. (he_id h, run_host T (E (he_id h)) auto sts h)) hosts"
  by (simp add: runPlaybookExecution_def)

definition echo_steps :: "playbook_step list" where
  "echo_steps = [empty_step\<lparr>ps_command := ''printf rm'', ps_register := ''x''\<rparr>,
     empty_step\<lparr>ps_command := ''true && {{x}} -rf /srv''\<rparr>]"

text \<open>The policy judges the texts of a playbook before the variables are put in, when it is saved and again
  when it runs, and nothing judges the lines that are sent: a playbook of two harmless lines that the strict
  policy accepts runs a command every policy refuses, with the word a host printed.\<close>

theorem variables_escape_policy:
  "validatePlaybookCommands (\<lambda>_ _. None) default_policy echo_steps = None \<and>
   validatePlaybookVariables known_at_start echo_steps = None \<and>
   sent_to (runPlaybookExecution (\<lambda>_ _. None) default_policy ascii_text (\<lambda>_. answering (\<lambda>s. (drop 7 s, ExecOK)))
      False echo_steps [any_host]) =
     [(''a'', Some [Shell ''printf rm'', Shell ''true && rm -rf /srv''])] \<and>
   danger ''true && rm -rf /srv''"
proof (intro conjI)
  show valid: "validatePlaybookCommands (\<lambda>_ _. None) default_policy echo_steps = None" by code_simp
  show "validatePlaybookVariables known_at_start echo_steps = None" by code_simp
  show "danger ''true && rm -rf /srv''" by code_simp
  show "sent_to (runPlaybookExecution (\<lambda>_ _. None) default_policy ascii_text (\<lambda>_. answering (\<lambda>s. (drop 7 s, ExecOK)))
      False echo_steps [any_host]) =
     [(''a'', Some [Shell ''printf rm'', Shell ''true && rm -rf /srv''])]"
    unfolding run_valid [OF valid] by code_simp
qed

definition restart_run :: run_env where
  "restart_run = answering (\<lambda>s. ([], ExecOK))"

theorem run_sends_checked_commands_witness:
  "he_id any_host = ''a'' \<and> of_playbook [restart_step] any_host (Shell ''systemctl restart nginx'') \<and>
   policy_clean (\<lambda>_ _. None) default_policy ''systemctl restart nginx'' \<and>
   policy_listed default_policy ''systemctl restart nginx''"
proof -
  define s where "s = the (run_host ascii_text restart_run False [restart_step] any_host)"
  have r: "map_option rs_sent (run_host ascii_text restart_run False [restart_step] any_host) =
      Some [Shell ''systemctl restart nginx'']" by code_simp
  then have s: "run_host ascii_text restart_run False [restart_step] any_host = Some s"
    "Shell ''systemctl restart nginx'' \<in> set (rs_sent s)" by (auto simp: s_def)
  have "validatePlaybookCommands (\<lambda>_ _. None) default_policy [restart_step] = None" by code_simp
  then have "(''a'', Some s) \<in> set (runPlaybookExecution (\<lambda>_ _. None) default_policy ascii_text (\<lambda>_. restart_run)
      False [restart_step] [any_host])"
    using s(1) by (simp add: run_valid any_host_def linux_host_def)
  note sent = run_sends_checked_commands [OF this s(2)]
  moreover have "list_all (\<lambda>(f, v). references v = []) (var_fields restart_step)" by code_simp
  then have "\<forall>st\<in>set [restart_step]. \<forall>(f, v)\<in>set (var_fields st). references v = []" by (simp add: list_all_iff)
  moreover have "trim_space ''systemctl restart nginx'' = ''systemctl restart nginx''"
    "''systemctl restart nginx'' \<noteq> []" by code_simp+
  moreover have "strict default_policy" by (simp add: strict_def default_policy_def)
  ultimately show ?thesis by (metis empty_iff list.set(1) set_ConsD)
qed

section \<open>How much is sent\<close>

lemma try_step_attempts: "tr_attempts (fst (try_step E onExit cmd k n t)) \<le> n + k"
proof (induction k arbitrary: n t)
  case (Suc k)
  from Suc.IH [of "n + 1" "t + 4"] show ?case by (auto simp: Let_def split: prod.splits)
qed simp

lemma try_rollback_attempts: "fst (snd (try_rollback E cmd k n prior t)) \<le> n + k"
proof (induction k arbitrary: n t prior)
  case (Suc k)
  obtain out kind where e: "en_exec E (t + 1) cmd = (out, kind)" by force
  from Suc.IH [of "n + 1" "(out, kind)" "t + 2"] e show ?case by simp
qed simp

definition sent_bound :: "nat \<Rightarrow> nat \<Rightarrow> run_state \<Rightarrow> bool" where
  "sent_bound k m s \<longleftrightarrow> length (rs_sent s) \<le> 6 * k \<and> length (rs_rollbacks s) \<le> k \<and>
     (\<forall>(st, rb)\<in>set (rs_rollbacks s). rollback_attempts st \<le> m)"

lemma sent_bound_same [simp]:
  "sent_bound k m (s\<lparr>rs_tick := t\<rparr>) = sent_bound k m s"
  "sent_bound k m (s\<lparr>rs_result := r\<rparr>) = sent_bound k m s"
  "sent_bound k m (skip_when st s) = sent_bound k m s"
  "sent_bound k m (skip_step st s) = sent_bound k m s"
  by (simp_all add: sent_bound_def skip_when_def skip_step_def)

lemma sent_bound_Suc: "sent_bound k m s \<Longrightarrow> sent_bound (k + j) m s"
  by (auto simp: sent_bound_def)

lemma exec_step_bound:
  assumes "sent_bound k m s" "rollback_attempts st \<le> m"
  shows "sent_bound (Suc k) m (fst (exec_step E h st cmd s))"
proof -
  obtain r t where e: "try_step E (ps_retryOnExit st) cmd (step_attempts st) 0 (rs_tick s) = (r, t)" by force
  then have "tr_attempts r \<le> 6"
    using try_step_attempts [of E "ps_retryOnExit st" cmd "step_attempts st" 0 "rs_tick s"]
    by (simp add: step_attempts_def)
  then show ?thesis using exec_step_fields [OF e, of h] assms by (auto simp: sent_bound_def)
qed

lemma run_steps_cases:
  assumes "run_steps T E h (st # sts) s = Some s'"
  obtains sr where "s' = s\<lparr>rs_tick := rs_tick s + 1, rs_result := cancel_result sr (rs_result s)\<rparr>"
  | "run_steps T E h sts (skip_when st (s\<lparr>rs_tick := rs_tick s + 1\<rparr>)) = Some s'"
  | "run_steps T E h sts (skip_step st (s\<lparr>rs_tick := rs_tick s + 1\<rparr>)) = Some s'"
  | s1 b where "exec_step E h st (resolvePlaybookCommand st h (rs_vars s)) (s\<lparr>rs_tick := rs_tick s + 1\<rparr>) = (s1, b)"
      "if b then run_steps T E h sts s1 = Some s' else s' = s1"
proof -
  define s0 where "s0 = s\<lparr>rs_tick := rs_tick s + 1\<rparr>"
  define w where "w = (if ps_when st = [] then Some True else evalPlaybookWhen T (ps_when st) (rs_vars s))"
  define cmd where "cmd = resolvePlaybookCommand st h (rs_vars s)"
  obtain s1 b where e: "exec_step E h st cmd s0 = (s1, b)" by force
  have "(if en_stopped E (rs_tick s)
      then Some (s0\<lparr>rs_result := cancel_result (plain_step (ps_name st) ''cancelled'' [] 0) (rs_result s)\<rparr>)
      else case w of None \<Rightarrow> None | Some False \<Rightarrow> run_steps T E h sts (skip_when st s0)
      | Some True \<Rightarrow> if blank_command cmd then run_steps T E h sts (skip_step st s0)
          else case (s1, b) of (s1, True) \<Rightarrow> run_steps T E h sts s1 | (s1, False) \<Rightarrow> Some s1) = Some s'"
    using assms by (simp only: run_steps.simps Let_def s0_def w_def cmd_def e [unfolded s0_def cmd_def])
  then consider "s' = s0\<lparr>rs_result := cancel_result (plain_step (ps_name st) ''cancelled'' [] 0) (rs_result s)\<rparr>"
    | "run_steps T E h sts (skip_when st s0) = Some s'" | "run_steps T E h sts (skip_step st s0) = Some s'"
    | "if b then run_steps T E h sts s1 = Some s' else s' = s1"
    by (cases "en_stopped E (rs_tick s)"; cases w; cases "the w"; cases "blank_command cmd"; cases b) simp_all
  then show ?thesis
  proof cases
    case 1
    then show ?thesis by (intro that(1)) (simp add: s0_def)
  next
    case 2
    then show ?thesis unfolding s0_def by (rule that(2))
  next
    case 3
    then show ?thesis unfolding s0_def by (rule that(3))
  next
    case 4
    with e show ?thesis unfolding s0_def cmd_def by (rule that(4))
  qed
qed

lemma run_steps_bound:
  assumes "run_steps T E h sts s = Some s'" "sent_bound k m s" "\<forall>st\<in>set sts. rollback_attempts st \<le> m"
  shows "sent_bound (k + length sts) m s'"
  using assms
proof (induction sts arbitrary: s k)
  case (Cons st sts)
  have on: "sent_bound (k + length (st # sts)) m s'" if "run_steps T E h sts s1 = Some s'" "sent_bound (Suc k) m s1" for s1
    using Cons.IH [OF that] Cons.prems(3) by simp
  from Cons.prems(1) show ?case
  proof (cases rule: run_steps_cases)
    case (1 sr)
    then show ?thesis using sent_bound_Suc [OF Cons.prems(2), of "length (st # sts)"] by simp
  next
    case 2
    then show ?thesis using on sent_bound_Suc [OF Cons.prems(2), of 1] by simp
  next
    case 3
    then show ?thesis using on sent_bound_Suc [OF Cons.prems(2), of 1] by simp
  next
    case (4 s1 b)
    have b: "sent_bound (Suc k) m s1"
      using exec_step_bound [of k m "s\<lparr>rs_tick := rs_tick s + 1\<rparr>" st E h] Cons.prems(2, 3) 4(1)
      by (metis fst_conv list.set_intros(1) sent_bound_same(1))
    with 4(2) on [of s1] sent_bound_Suc [OF b, of "length sts"] show ?thesis by (cases b) simp_all
  qed
qed simp

lemma run_rollbacks_bound:
  assumes "\<forall>(st, rb)\<in>set as. rollback_attempts st \<le> m"
  shows "length (rs_sent (run_rollbacks E as s)) \<le> length (rs_sent s) + m * length as"
  using assms
proof (induction as arbitrary: s)
  case (Cons a as)
  have "length (rs_sent (rollback_step E a s)) \<le> length (rs_sent s) + m" for s
  proof -
    obtain r n t where e: "try_rollback E (Shell (snd a)) (rollback_attempts (fst a)) 0 ([], ExecOK) (rs_tick s) = (r, n, t)"
      by (metis prod_cases3)
    moreover have "rollback_attempts (fst a) \<le> m" using Cons.prems by auto
    ultimately show ?thesis
      using try_rollback_attempts [of E "Shell (snd a)" "rollback_attempts (fst a)" 0 "([], ExecOK)" "rs_tick s"]
      by (simp add: rollback_step_def Let_def)
  qed
  from this [of "s\<lparr>rs_tick := rs_tick s + 1\<rparr>"] Cons.IH [of "rollback_step E a (s\<lparr>rs_tick := rs_tick s + 1\<rparr>)"] Cons.prems
  show ?case by (auto intro: order_trans)
qed simp

text \<open>C35. A run of a playbook ends, and sends a host at most twelve commands for each of its steps when no step
  asks for more than six attempts, which is what is enforced when a playbook is saved: at most six for the
  command and six for the way back, whatever the host answers and however often it fails.\<close>

theorem commands_bounded:
  assumes "\<forall>st\<in>set sts. ps_maxAttempts st \<le> 6" "run_host T E auto sts h = Some s"
  shows "length (rs_sent s) \<le> 12 * length sts"
  using assms(2)
proof (cases rule: run_host_cases)
  case (2 s1)
  have m: "\<forall>st\<in>set sts. rollback_attempts st \<le> 6"
    using assms(1) by (auto simp: rollback_attempts_def attempts_of_def playbookMaxAttempts_def)
  have "sent_bound 0 6 (start_host h\<lparr>rs_tick := 3\<rparr>)" by (simp add: sent_bound_def start_host_def)
  from run_steps_bound [OF 2(2) this m] have b: "length (rs_sent s1) \<le> 6 * length sts"
    "length (rs_rollbacks s1) \<le> length sts" "\<forall>(st, rb)\<in>set (rev (rs_rollbacks s1)). rollback_attempts st \<le> 6"
    by (simp_all add: sent_bound_def)
  have "rs_sent s = rs_sent (roll_back E auto s1)" by (simp add: 2(3) finish_host_def)
  with b run_rollbacks_bound [OF b(3), of E "s1\<lparr>rs_tick := rs_tick s1 + 1\<rparr>"] show ?thesis
    by (auto simp: roll_back_def Let_def intro: order_trans)
qed simp

theorem commands_bounded_witness:
  "\<exists>s. run_host ascii_text restart_run False [restart_step] any_host = Some s \<and> length (rs_sent s) \<le> 12"
proof -
  have "map_option rs_sent (run_host ascii_text restart_run False [restart_step] any_host) =
      Some [Shell ''systemctl restart nginx'']" by code_simp
  then obtain s where s: "run_host ascii_text restart_run False [restart_step] any_host = Some s" by auto
  have "\<forall>st\<in>set [restart_step]. ps_maxAttempts st \<le> 6" by (simp add: restart_step_def empty_step_def)
  from commands_bounded [OF this s] s show ?thesis by simp
qed

end
