(* ===== verification/PlaybookRollback.thy ===== *)
theory PlaybookRollback
  imports PlaybookSafety
begin

text \<open>
  Rolling back after a failed run, the marker that carries a command's exit code, and three places where a run
  does other than its playbook says: the targets of steps, failures that are to be ignored, and conditions.
\<close>

section \<open>The ways back\<close>

definition never_stopped :: "run_env \<Rightarrow> bool" where
  "never_stopped E \<longleftrightarrow> (\<forall>n. \<not> en_stopped E n)"

lemma try_rollback_once: "never_stopped E \<Longrightarrow> n \<le> fst (snd (try_rollback E cmd k n prior t))"
proof (induction k arbitrary: n t prior)
  case (Suc k)
  obtain out kind where e: "en_exec E (t + 1) cmd = (out, kind)" by force
  from Suc.IH [OF Suc.prems, of "n + 1" "(out, kind)" "t + 2"] e Suc.prems show ?case
    by (simp add: never_stopped_def)
qed simp

lemma try_rollback_sends:
  assumes "never_stopped E" "0 < k"
  shows "1 \<le> fst (snd (try_rollback E cmd k 0 prior t))"
proof (cases k)
  case (Suc j)
  obtain out kind where e: "en_exec E (t + 1) cmd = (out, kind)" by force
  from try_rollback_once [OF assms(1), of 1 cmd j "(out, kind)" "t + 2"] e Suc assms(1) show ?thesis
    by (simp add: never_stopped_def)
qed (use assms in simp)

text \<open>What a sequence of ways back adds to the record of a host and to what was sent.\<close>

definition rolled_back :: "(playbook_step \<times> string) list \<Rightarrow> run_state \<Rightarrow> run_state \<Rightarrow> bool" where
  "rolled_back as s s' \<longleftrightarrow> (\<exists>rs ns.
     hr_steps (rs_result s') = hr_steps (rs_result s) @ rs \<and> hr_status (rs_result s') = hr_status (rs_result s) \<and>
     map sr_name rs = map (ps_name \<circ> fst) as \<and> list_all sr_rollback rs \<and>
     rs_sent s' = rs_sent s @ concat (map2 (\<lambda>a n. replicate n (Shell (snd a))) as ns) \<and>
     length ns = length as \<and> list_all (\<lambda>n. 1 \<le> n) ns)"

lemma rollback_step_rolled:
  assumes "never_stopped E" "rolled_back as (rollback_step E a (s\<lparr>rs_tick := u\<rparr>)) s'"
  shows "rolled_back (a # as) s s'"
proof -
  define s0 where "s0 = s\<lparr>rs_tick := u\<rparr>"
  obtain r n t where e: "try_rollback E (Shell (snd a)) (rollback_attempts (fst a)) 0 ([], ExecOK) u = (r, n, t)"
    by (metis prod_cases3)
  have "0 < rollback_attempts (fst a)" by (simp add: rollback_attempts_def attempts_of_def playbookMaxAttempts_def)
  with try_rollback_sends [OF assms(1), of "rollback_attempts (fst a)"] e have n: "1 \<le> n" by (metis fst_conv snd_conv)
  obtain sr where step: "hr_steps (rs_result (rollback_step E a s0)) = hr_steps (rs_result s) @ [sr]"
    "sr_name sr = ps_name (fst a)" "sr_rollback sr"
    "hr_status (rs_result (rollback_step E a s0)) = hr_status (rs_result s)"
    "rs_sent (rollback_step E a s0) = rs_sent s @ replicate n (Shell (snd a))"
    by (auto simp: rollback_step_def e push_def s0_def Let_def)
  from assms(2) obtain rs ns where rest:
    "hr_steps (rs_result s') = hr_steps (rs_result s) @ sr # rs" "hr_status (rs_result s') = hr_status (rs_result s)"
    "map sr_name rs = map (ps_name \<circ> fst) as" "list_all sr_rollback rs"
    "rs_sent s' = rs_sent s @ replicate n (Shell (snd a)) @ concat (map2 (\<lambda>a n. replicate n (Shell (snd a))) as ns)"
    "length ns = length as" "list_all (\<lambda>n. 1 \<le> n) ns"
    unfolding rolled_back_def s0_def [symmetric] step by auto
  show ?thesis unfolding rolled_back_def
    by (rule exI [of _ "sr # rs"], rule exI [of _ "n # ns"]) (use rest step n in simp)
qed

lemma run_rollbacks_rolled: "never_stopped E \<Longrightarrow> rolled_back as s (run_rollbacks E as s)"
proof (induction as arbitrary: s)
  case Nil
  then show ?case by (simp add: rolled_back_def)
next
  case (Cons a as)
  then show ?case using rollback_step_rolled [where E = E and s = s and u = "rs_tick s + 1"] by (simp add: never_stopped_def)
qed

definition success_names :: "run_state \<Rightarrow> string list" where
  "success_names s = map sr_name (filter (\<lambda>r. sr_status r = ''success'') (hr_steps (rs_result s)))"

text \<open>The steps that succeed in a run from a state, in their order, each with the variables as they are after it.
  Whether one succeeded is read off the result it leaves in the record.\<close>

fun succeeded :: "go_text \<Rightarrow> run_env \<Rightarrow> 'a os_host_scheme \<Rightarrow> playbook_step list \<Rightarrow> run_state \<Rightarrow> (playbook_step \<times> pb_vars) list" where
  "succeeded T E h [] s = []"
| "succeeded T E h (st # sts) s =
     (let s0 = s\<lparr>rs_tick := rs_tick s + 1\<rparr> in
      if en_stopped E (rs_tick s) then []
      else case (if ps_when st = [] then Some True else evalPlaybookWhen T (ps_when st) (rs_vars s)) of
        None \<Rightarrow> []
      | Some False \<Rightarrow> succeeded T E h sts (skip_when st s0)
      | Some True \<Rightarrow>
          let cmd = resolvePlaybookCommand st h (rs_vars s) in
          if blank_command cmd then succeeded T E h sts (skip_step st s0)
          else let (s1, go_on) = exec_step E h st cmd s0 in
            (if sr_status (last (hr_steps (rs_result s1))) = ''success'' then [(st, rs_vars s1)] else []) @
            (if go_on then succeeded T E h sts s1 else []))"

text \<open>The way back of each, with its variables put in, where it has one.\<close>

definition ways_back :: "'a os_host_scheme \<Rightarrow> (playbook_step \<times> pb_vars) list \<Rightarrow> (playbook_step \<times> string) list" where
  "ways_back h ss = filter (\<lambda>(st, rb). rb \<noteq> []) (map (\<lambda>(st, vars). (st, trim_space (resolvePlaybookRollback st h vars))) ss)"

lemma ways_back_simps [simp]:
  "ways_back h [] = []" "ways_back h (ss @ ts) = ways_back h ss @ ways_back h ts"
  by (simp_all add: ways_back_def)

lemma exec_step_ways:
  assumes "exec_step E h st cmd s0 = (s1, b)"
  obtains sr where "hr_steps (rs_result s1) = hr_steps (rs_result s0) @ [sr]" "sr_name sr = ps_name st"
    "rs_rollbacks s1 = rs_rollbacks s0 @ (if sr_status sr = ''success'' then ways_back h [(st, rs_vars s1)] else [])"
proof -
  obtain r u where e: "try_step E (ps_retryOnExit st) cmd (step_attempts st) 0 (rs_tick s0) = (r, u)" by force
  define failed where "failed \<longleftrightarrow> tr_kind r \<noteq> ExecOK \<and> \<not> (ps_ignoreExit st \<and> tr_kind r = ExecExit)"
  note unfold = exec_step_def e prod.case Let_def failed_def [symmetric]
  have s1: "s1 = fst (exec_step E h st cmd s0)" using assms by simp
  consider "tr_cancelled r" | "\<not> tr_cancelled r" failed | "\<not> tr_cancelled r" "\<not> failed" by blast
  then show thesis
  proof cases
    case 1
    then show thesis by (intro that [of "plain_step (ps_name st) ''cancelled'' (tr_output r) (tr_attempts r)"])
      (simp_all add: s1 unfold cancel_result_def push_def plain_step_def)
  next
    case 2
    define x where "x = plain_step (ps_name st) ''failed'' (if ps_ignoreExit st \<and> tr_kind r = ExecExit
        then tr_output r @ newline @ en_ignored E else tr_output r) (tr_attempts r)"
    have "hr_steps (rs_result s1) = hr_steps (rs_result s0) @ [x]" "rs_rollbacks s1 = rs_rollbacks s0"
      using 2 by (simp_all only: s1 unfold if_True if_False fst_conv) (simp_all add: push_def x_def)
    then show thesis by (intro that [of x]) (simp_all add: x_def plain_step_def)
  next
    case 3
    define x where "x = plain_step (ps_name st) ''success'' (if ps_ignoreExit st \<and> tr_kind r = ExecExit
        then tr_output r @ newline @ en_ignored E else tr_output r) (tr_attempts r)"
    have "hr_steps (rs_result s1) = hr_steps (rs_result s0) @ [x]"
      "rs_rollbacks s1 = rs_rollbacks s0 @ ways_back h [(st, rs_vars s1)]"
      using 3 by (simp_all only: s1 unfold if_False fst_conv) (simp_all add: push_def x_def ways_back_def)
    then show thesis by (intro that [of x]) (simp_all add: x_def plain_step_def)
  qed
qed

lemma skip_fields [simp]:
  "rs_rollbacks (skip_when st s) = rs_rollbacks s" "rs_rollbacks (skip_step st s) = rs_rollbacks s"
  "success_names (skip_when st s) = success_names s" "success_names (skip_step st s) = success_names s"
  by (simp_all add: skip_when_def skip_step_def push_def success_names_def plain_step_def)

lemma run_steps_ways:
  "run_steps T E h sts s = Some s' \<Longrightarrow>
   rs_rollbacks s' = rs_rollbacks s @ ways_back h (succeeded T E h sts s) \<and>
   success_names s' = success_names s @ map (ps_name \<circ> fst) (succeeded T E h sts s)"
proof (induction sts arbitrary: s)
  case (Cons st sts)
  define s0 where "s0 = s\<lparr>rs_tick := rs_tick s + 1\<rparr>"
  define w where "w = (if ps_when st = [] then Some True else evalPlaybookWhen T (ps_when st) (rs_vars s))"
  define cmd where "cmd = resolvePlaybookCommand st h (rs_vars s)"
  have s0: "rs_rollbacks s0 = rs_rollbacks s" "rs_result s0 = rs_result s" "success_names s0 = success_names s"
    by (simp_all add: s0_def success_names_def)
  obtain s1 b where e: "exec_step E h st cmd s0 = (s1, b)" by force
  from exec_step_ways [OF e] obtain sr where sr:
    "hr_steps (rs_result s1) = hr_steps (rs_result s0) @ [sr]" "sr_name sr = ps_name st"
    "rs_rollbacks s1 = rs_rollbacks s0 @ (if sr_status sr = ''success'' then ways_back h [(st, rs_vars s1)] else [])" .
  have names: "success_names s1 = success_names s @ (if sr_status sr = ''success'' then [ps_name st] else [])"
    using sr(1,2) s0(2) by (simp add: success_names_def)
  have run: "(if en_stopped E (rs_tick s)
      then Some (s0\<lparr>rs_result := cancel_result (plain_step (ps_name st) ''cancelled'' [] 0) (rs_result s)\<rparr>)
      else case w of None \<Rightarrow> None | Some False \<Rightarrow> run_steps T E h sts (skip_when st s0)
      | Some True \<Rightarrow> if blank_command cmd then run_steps T E h sts (skip_step st s0)
          else case exec_step E h st cmd s0 of (s1, True) \<Rightarrow> run_steps T E h sts s1 | (s1, False) \<Rightarrow> Some s1) = Some s'"
    using Cons.prems by (simp only: run_steps.simps Let_def s0_def w_def cmd_def)
  have spec: "succeeded T E h (st # sts) s =
      (if en_stopped E (rs_tick s) then []
       else case w of None \<Rightarrow> [] | Some False \<Rightarrow> succeeded T E h sts (skip_when st s0)
       | Some True \<Rightarrow> if blank_command cmd then succeeded T E h sts (skip_step st s0)
           else (if sr_status sr = ''success'' then [(st, rs_vars s1)] else []) @ (if b then succeeded T E h sts s1 else []))"
    by (simp only: succeeded.simps Let_def s0_def [symmetric] w_def [symmetric] cmd_def [symmetric] e prod.case sr(1) last_snoc)
  show ?case
  proof (cases "en_stopped E (rs_tick s)")
    case True
    then show ?thesis using run s0
      by (auto simp: spec cancel_result_def push_def success_names_def plain_step_def simp del: succeeded.simps)
  next
    case False
    show ?thesis
    proof (cases w)
      case None
      then show ?thesis using run False by simp
    next
      case (Some x)
      show ?thesis
      proof (cases x)
        case False
        with run \<open>\<not> en_stopped E (rs_tick s)\<close> Some Cons.IH [of "skip_when st s0"] show ?thesis by (simp add: spec s0 del: succeeded.simps)
      next
        case True
        show ?thesis
        proof (cases "blank_command cmd")
          case blank: True
          with run \<open>\<not> en_stopped E (rs_tick s)\<close> Some True Cons.IH [of "skip_step st s0"] show ?thesis by (simp add: spec s0 del: succeeded.simps)
        next
          case False
          with run \<open>\<not> en_stopped E (rs_tick s)\<close> Some True e have "(if b then run_steps T E h sts s1 else Some s1) = Some s'"
            by (cases b) simp_all
          with Cons.IH [of s1] sr(3) s0(1) names False \<open>\<not> en_stopped E (rs_tick s)\<close> Some True show ?thesis
            by (cases b) (auto simp: spec simp del: succeeded.simps)
        qed
      qed
    qed
  qed
qed simp

text \<open>C34. When a playbook asks for automatic rollback and a run that is never stopped fails on a host, then, after
  everything else, the ways back of exactly the steps that had succeeded and have one are run, with the variables
  as they were after each step, in reverse order, each at least once; nothing of the record before them changes
  and the host stays failed.\<close>

theorem rollback_in_reverse:
  assumes "never_stopped E" "run_steps T E h sts (start_host h\<lparr>rs_tick := 3\<rparr>) = Some s1"
    "hr_status (rs_result s1) = ''failed''"
  shows "\<exists>s. run_host T E True sts h = Some s \<and>
    rolled_back (rev (ways_back h (succeeded T E h sts (start_host h\<lparr>rs_tick := 3\<rparr>)))) s1 s \<and>
    map (ps_name \<circ> fst) (succeeded T E h sts (start_host h\<lparr>rs_tick := 3\<rparr>)) = success_names s1"
proof -
  define s where "s = finish_host (roll_back E True s1)"
  have go: "\<not> en_stopped E n" for n using assms(1) by (simp add: never_stopped_def)
  have ways: "rs_rollbacks s1 = ways_back h (succeeded T E h sts (start_host h\<lparr>rs_tick := 3\<rparr>))"
    "success_names s1 = map (ps_name \<circ> fst) (succeeded T E h sts (start_host h\<lparr>rs_tick := 3\<rparr>))"
    using run_steps_ways [OF assms(2)] by (simp_all add: start_host_def success_names_def)
  have "rolled_back (rev (rs_rollbacks s1)) s1 (roll_back E True s1)"
  proof (cases "rs_rollbacks s1 = []")
    case True
    then show ?thesis by (simp add: roll_back_def rolled_back_def)
  next
    case False
    have "rolled_back (rev (rs_rollbacks s1)) (s1\<lparr>rs_tick := rs_tick s1 + 1\<rparr>) (roll_back E True s1)"
      using run_rollbacks_rolled [OF assms(1), of "rev (rs_rollbacks s1)"] assms(3) False go
      by (simp add: roll_back_def Let_def)
    then show ?thesis by (simp add: rolled_back_def)
  qed
  moreover from this have "hr_status (rs_result (roll_back E True s1)) = ''failed''"
    using assms(3) by (auto simp: rolled_back_def)
  then have "s = roll_back E True s1" by (simp add: s_def finish_host_def)
  moreover have "run_host T E True sts h = Some s"
    using assms(2) go by (simp add: run_host_def Let_def s_def)
  ultimately show ?thesis unfolding ways by auto
qed

definition named :: "string \<Rightarrow> string \<Rightarrow> string \<Rightarrow> playbook_step" where
  "named n cmd rb = empty_step\<lparr>ps_name := n, ps_command := cmd, ps_rollback := rb\<rparr>"

definition undo_steps :: "playbook_step list" where
  "undo_steps = [named ''one'' ''true 1'' ''echo 1'', named ''two'' ''true 2'' ''echo 2'', named ''three'' ''kill 3'' ''echo 3'']"

definition failing_kill :: run_env where
  "failing_kill = answering (\<lambda>s. ([], if has_prefix s ''kill'' then ExecExit else ExecOK))"

theorem rollback_in_reverse_witness:
  "\<exists>s. run_host ascii_text failing_kill True undo_steps any_host = Some s \<and>
     rs_sent s = map Shell [''true 1'', ''true 2'', ''kill 3'', ''echo 2'', ''echo 1'']"
proof -
  have n: "never_stopped failing_kill" by (simp add: never_stopped_def failing_kill_def answering_def)
  define s1 where "s1 = the (run_steps ascii_text failing_kill any_host undo_steps (start_host any_host\<lparr>rs_tick := 3\<rparr>))"
  have "map_option (\<lambda>s. (hr_status (rs_result s), rs_sent s)) (run_steps ascii_text failing_kill any_host undo_steps
      (start_host any_host\<lparr>rs_tick := 3\<rparr>)) = Some (''failed'', map Shell [''true 1'', ''true 2'', ''kill 3''])" by code_simp
  then have "run_steps ascii_text failing_kill any_host undo_steps (start_host any_host\<lparr>rs_tick := 3\<rparr>) = Some s1"
    "hr_status (rs_result s1) = ''failed''" by (auto simp: s1_def)
  from rollback_in_reverse [OF n this] obtain s where s: "run_host ascii_text failing_kill True undo_steps any_host = Some s"
    by blast
  have "map_option rs_sent (run_host ascii_text failing_kill True undo_steps any_host) =
      Some (map Shell [''true 1'', ''true 2'', ''kill 3'', ''echo 2'', ''echo 1''])" by code_simp
  with s show ?thesis by auto
qed

section \<open>Where a run departs from its playbook\<close>

text \<open>A failure that a step declares to be ignored still makes the host fail: the run goes on to the end,
  and then the automatic rollback undoes every step, the ones that succeeded after the failure included.\<close>

theorem ignored_failure_rolls_back:
  "map_option (\<lambda>s. (hr_status (rs_result s), rs_sent s))
     (run_host ascii_text failing_kill True
       [named ''one'' ''true 1'' ''echo 1'', (named ''two'' ''kill 2'' [])\<lparr>ps_continueErr := True\<rparr>,
        named ''three'' ''true 3'' ''echo 3''] any_host) =
   Some (''failed'', map Shell [''true 1'', ''kill 2'', ''true 3'', ''echo 3'', ''echo 1''])"
  by code_simp

definition host_a :: os_host where
  "host_a = linux_host ''a'' []"

definition host_b :: os_host where
  "host_b = linux_host ''b'' []"

definition no_folders :: folder_cfg where
  "no_folders = \<lparr>fc_folders = None, fc_assign = None, fc_cats = None\<rparr>"

definition split_steps :: "playbook_step list" where
  "split_steps = [(named ''drain'' ''true 1'' [])\<lparr>ps_target := ''host:a''\<rparr>,
     (named ''restart'' ''true 2'' [])\<lparr>ps_target := ''host:b''\<rparr>]"

text \<open>The targets of the steps are only joined: every step runs on every host that some step names, so a
  step meant for one host also runs on the hosts of the other steps.\<close>

theorem step_targets_joined:
  "map he_id (ResolveTargets [] no_folders ''host:b'' [host_a, host_b]) = [''b''] \<and>
   sent_to (runPlaybookExecution (\<lambda>_ _. None) default_policy ascii_text (\<lambda>_. restart_run) False split_steps
      (onlinePlaybookTargets [] no_folders 60 0 split_steps [host_a, host_b])) =
   [(''a'', Some [Shell ''true 1'', Shell ''true 2'']), (''b'', Some [Shell ''true 1'', Shell ''true 2''])]"
proof
  show "map he_id (ResolveTargets [] no_folders ''host:b'' [host_a, host_b]) = [''b'']" by code_simp
  have valid: "validatePlaybookCommands (\<lambda>_ _. None) default_policy split_steps = None" by code_simp
  have hosts: "onlinePlaybookTargets [] no_folders 60 0 split_steps [host_a, host_b] = [host_a, host_b]" by code_simp
  show "sent_to (runPlaybookExecution (\<lambda>_ _. None) default_policy ascii_text (\<lambda>_. restart_run) False split_steps
      (onlinePlaybookTargets [] no_folders 60 0 split_steps [host_a, host_b])) =
   [(''a'', Some [Shell ''true 1'', Shell ''true 2'']), (''b'', Some [Shell ''true 1'', Shell ''true 2''])]"
    unfolding run_valid [OF valid] hosts by code_simp
qed

text \<open>\<open>strings.ToLower\<close> on two letters: the capital A with a stroke has two bytes, its small letter three.\<close>

fun lower_stroke :: "string \<Rightarrow> string" where
  "lower_stroke (c # d # s) =
     (if c = CHR 0xC8 \<and> d = CHR 0xBA then [CHR 0xE2, CHR 0xB1, CHR 0xA5] @ lower_stroke s
      else lower_char c # lower_stroke (d # s))"
| "lower_stroke s = map lower_char s"

definition stroke_text :: go_text where
  "stroke_text = \<lparr>gt_lower = lower_stroke, gt_less = (\<lambda>_ _. None), gt_less_equal = (\<lambda>_ _. None)\<rparr>"

definition strokes :: string where
  "strokes = concat (replicate 7 [CHR 0xC8, CHR 0xBA])"

text \<open>The place of the operator of a condition is looked up in the lower-case text and cut out of the
  original one: a letter whose small form is longer shifts the cut, and a host that prints enough of them makes
  the run panic at the next condition on what it printed.\<close>

theorem condition_panics:
  "evalPlaybookWhen stroke_text ''{{x}} == ok'' [''x'' \<mapsto> strokes] = None \<and>
   evalPlaybookWhen stroke_text ''{{x}} == ok'' [''x'' \<mapsto> ''ok''] = Some True \<and>
   run_host stroke_text (answering (\<lambda>s. (strokes, ExecOK))) False
     [(named ''ask'' ''true'' [])\<lparr>ps_register := ''x''\<rparr>, (named ''act'' ''true'' [])\<lparr>ps_when := ''{{x}} == ok''\<rparr>] any_host = None"
proof (intro conjI)
  show "evalPlaybookWhen stroke_text ''{{x}} == ok'' [''x'' \<mapsto> strokes] = None" by code_simp
  show "evalPlaybookWhen stroke_text ''{{x}} == ok'' [''x'' \<mapsto> ''ok''] = Some True" by code_simp
qed code_simp

section \<open>The exit marker\<close>

text \<open>What the agent sends at the end of a command (\<open>cmd/agent/terminal.go\<close>, \<open>runExec\<close>).\<close>

definition exec_output :: "string \<Rightarrow> int \<Rightarrow> string" where
  "exec_output out n = out @ newline @ exit_marker @ show_int n @ newline"

lemma index_of_behind: "p \<noteq> [] \<Longrightarrow> hd p \<notin> set a \<Longrightarrow> index_of p (a @ p @ b) = Some (length a)"
proof (induction a)
  case Nil
  then show ?case by (cases p) (auto simp: has_prefix_def)
next
  case (Cons c a)
  then have "\<not> has_prefix ((c # a) @ p @ b) p" by (cases p) (auto simp: has_prefix_def)
  with Cons show ?case by simp
qed

lemma show_int_chars: "c \<in> set (show_int n) \<Longrightarrow> c = CHR ''-'' \<or> is_digit c"
  by (auto simp: show_int_def is_digit_def dest: show_nat_digits split: if_splits)

lemma show_nat_is_digits: "takeWhile is_digit (show_nat n) = show_nat n"
  using show_nat_digits by (simp add: is_digit_def takeWhile_eq_all_conv)

lemma show_nat_head: "hd (show_nat n) \<noteq> CHR ''-'' \<and> hd (show_nat n) \<noteq> CHR ''+''"
proof -
  have "48 \<le> (of_char (hd (show_nat n)) :: nat)" using show_nat_digits [of "hd (show_nat n)" n] by simp
  then show ?thesis by auto
qed

lemma scan_show_int:
  assumes "- (2 ^ 63) \<le> n" "n < 2 ^ 63"
  shows "scan_int (show_int n) = n"
proof (cases "n < 0")
  case True
  then have s: "show_int n = CHR ''-'' # show_nat (nat (- n))" by (simp add: show_int_def)
  have "nat (- n) \<le> 2 ^ 63" using assms(1) by (simp add: nat_le_iff)
  then have "parse_int 10 (show_int n) = Some n"
    using True by (simp add: s parse_int_def digits_val_show_nat Let_def)
  then show ?thesis by (simp add: scan_int_def s show_nat_is_digits Let_def)
next
  case False
  then have s: "show_int n = show_nat (nat n)" by (simp add: show_int_def)
  have "nat n < 2 ^ 63" using assms(2) by (simp add: nat_less_iff False)
  then have p: "parse_int 10 (show_nat (nat n)) = Some n"
    using False show_nat_head [of "nat n"] by (simp add: parse_int_def digits_val_show_nat Let_def)
  have "takeWhile (\<lambda>c. c = CHR ''-'' \<or> c = CHR ''+'') (take 1 (show_nat (nat n))) = []"
    using show_nat_head [of "nat n"] by (cases "show_nat (nat n)") auto
  with p show ?thesis by (simp add: scan_int_def s show_nat_is_digits Let_def)
qed

lemma show_int_trim: "trim_space (show_int n @ newline) = show_int n"
proof -
  have "\<not> is_space c" if "c \<in> set (show_int n)" for c
    using show_int_chars [OF that] by (auto simp: is_digit_def is_space_def Let_def)
  moreover have "show_int n \<noteq> []" by (simp add: show_int_def)
  ultimately show ?thesis using trim_keeps [of "show_int n" newline]
    by (simp add: rtrim_def newline_def is_space_def)
qed

text \<open>The server reads back from what the agent sends the output and the exit code, whatever the output
  contains, copies of the marker included, and whether or not its timer has run out.\<close>

theorem exit_code_roundtrip:
  assumes "- (2 ^ 63) \<le> n" "n < 2 ^ 63"
  shows "parseExecOutput (exec_output out n) timedOut =
    (trim_newlines (out @ newline), if n = 0 then ExecOK else ExecExit)"
proof -
  define tail where "tail = show_int n @ newline"
  have "CHR '']'' \<notin> set (rev tail)"
    using show_int_chars [of "CHR '']''" n] by (auto simp: tail_def newline_def is_digit_def)
  then have "index_of (rev exit_marker) (rev tail @ rev exit_marker @ rev (out @ newline)) = Some (length tail)"
    using index_of_behind [of "rev exit_marker" "rev tail" "rev (out @ newline)"] by (simp add: exit_marker_def)
  moreover have "rev (exec_output out n) = rev tail @ rev exit_marker @ rev (out @ newline)"
    by (simp add: exec_output_def tail_def)
  ultimately have at: "last_index_of exit_marker (exec_output out n) = Some (length (out @ newline))"
    by (simp add: last_index_of_def exec_output_def tail_def)
  have "drop (length (out @ newline) + length exit_marker) (exec_output out n) = tail"
    "take (length (out @ newline)) (exec_output out n) = out @ newline"
    by (simp_all add: exec_output_def tail_def)
  with at show ?thesis using scan_show_int [OF assms]
    by (simp add: parseExecOutput_def tail_def show_int_trim Let_def)
qed

theorem exit_code_roundtrip_witness:
  "parseExecOutput (exec_output ''[AIOPS_EXIT]0'' 137) True = (''[AIOPS_EXIT]0'', ExecExit)"
proof -
  have "trim_newlines (''[AIOPS_EXIT]0'' @ newline) = ''[AIOPS_EXIT]0''" by code_simp
  with exit_code_roundtrip [of 137 "''[AIOPS_EXIT]0''" True] show ?thesis by simp
qed

end
