(* ===== verification/PlaybookGuard.thy ===== *)
theory PlaybookGuard
  imports PlaybookGate PlaybookLedger PlaybookRollback
begin

text \<open>
  What is saved is well formed, what the scheduler starts needs no approval and meets no freeze, what a user starts
  is within the user's hosts; and which changes the scheduler starts without asking.
\<close>

section \<open>Saved playbooks\<close>

definition step_ok :: "playbook_step \<Rightarrow> bool" where
  "step_ok st \<longleftrightarrow> 1 \<le> ps_maxAttempts st \<and> ps_maxAttempts st \<le> 6 \<and> 1 \<le> ps_retryDelaySec st \<and> ps_retryDelaySec st \<le> 60 \<and>
     5 \<le> ps_timeoutSec st \<and> validPlaybookTarget (ps_target st)"

definition saved_ok :: "custom_patterns \<Rightarrow> cmd_policy \<Rightarrow> playbook \<Rightarrow> bool" where
  "saved_ok R pol p \<longleftrightarrow> trim_space (pb_name p) \<noteq> [] \<and> pb_steps p \<noteq> [] \<and> list_all step_ok (pb_steps p) \<and>
     validatePlaybookCommands R pol (pb_steps p) = None \<and> validatePlaybookVariables known_at_start (pb_steps p) = None \<and>
     1 \<le> pb_maxParallel p \<and> pb_maxParallel p \<le> 100 \<and> sanitizeSchedule (pb_schedule p) = None"

datatype pb_op = UpsertOp int string playbook | DeleteOp string

fun pb_step :: "custom_patterns \<Rightarrow> cmd_policy \<Rightarrow> playbook list \<Rightarrow> pb_op \<Rightarrow> playbook list" where
  "pb_step R pol pbs (UpsertOp now token p) = fst (Upsert R pol now token p pbs)"
| "pb_step R pol pbs (DeleteOp i) = DeletePlaybook i pbs"

definition playbooks_inv :: "custom_patterns \<Rightarrow> cmd_policy \<Rightarrow> playbook list \<Rightarrow> bool" where
  "playbooks_inv R pol pbs \<longleftrightarrow> distinct (map pb_id pbs) \<and> (\<forall>p\<in>set pbs. pb_id p \<noteq> [] \<and> saved_ok R pol p)"

text \<open>Tokens are not empty.\<close>

fun named_op :: "pb_op \<Rightarrow> bool" where
  "named_op (UpsertOp now token p) \<longleftrightarrow> token \<noteq> []"
| "named_op (DeleteOp i) \<longleftrightarrow> True"

lemma sanitize_step_ok: "sanitize_step st = Inr st' \<Longrightarrow> step_ok st'"
  by (auto simp: sanitize_step_def step_ok_def Let_def split: if_splits)

lemma sanitize_steps_ok: "sanitize_steps sts = Inr sts' \<Longrightarrow> list_all step_ok sts'"
  by (induction sts arbitrary: sts') (auto simp: sanitize_step_ok split: sum.splits)

lemma Upsert_cases:
  assumes "Upsert R pol now token p pbs = (pbs', r)"
  obtains e where "pbs' = pbs" "r = Inl e"
  | q where "pbs' = UpsertPlaybook q pbs" "r = Inr q" "saved_ok R pol q" "token \<noteq> [] \<longrightarrow> pb_id q \<noteq> []"
proof (cases r)
  case (Inl e)
  with assms have "pbs' = pbs"
    by (auto simp: Upsert_def Let_def split: if_splits sum.splits option.splits)
  with Inl that(1) show ?thesis by blast
next
  case (Inr q)
  with assms obtain sts where sts: "sanitize_steps (pb_steps p) = Inr sts" "trim_space (pb_name p) \<noteq> []"
    by (auto simp: Upsert_def split: if_splits sum.splits)
  with Inr assms have "pbs' = UpsertPlaybook q pbs" "saved_ok R pol q" "token \<noteq> [] \<longrightarrow> pb_id q \<noteq> []"
    using sanitize_steps_ok [OF sts(1)]
    by (auto simp: Upsert_def Let_def saved_ok_def trim_space_idem split: if_splits option.splits)
  with Inr that(2) show ?thesis by blast
qed

lemma UpsertPlaybook_inv:
  assumes "playbooks_inv R pol pbs" "saved_ok R pol q" "pb_id q \<noteq> []"
  shows "playbooks_inv R pol (UpsertPlaybook q pbs)"
proof (cases "\<exists>x\<in>set pbs. pb_id x = pb_id q")
  case True
  have "map pb_id (update_first (\<lambda>x. pb_id x = pb_id q) (\<lambda>_. q) pbs) = map pb_id pbs"
    by (induction pbs) auto
  moreover have "set (update_first (\<lambda>x. pb_id x = pb_id q) (\<lambda>_. q) pbs) \<subseteq> insert q (set pbs)"
    by (induction pbs) auto
  ultimately show ?thesis using assms True by (auto simp: playbooks_inv_def UpsertPlaybook_def)
qed (use assms in \<open>auto simp: playbooks_inv_def UpsertPlaybook_def\<close>)

lemma pb_step_inv:
  assumes "named_op op" "playbooks_inv R pol pbs"
  shows "playbooks_inv R pol (pb_step R pol pbs op)"
proof (cases op)
  case (UpsertOp now token p)
  obtain pbs' r where res: "Upsert R pol now token p pbs = (pbs', r)" by (rule prod.exhaust)
  then show ?thesis
    by (cases rule: Upsert_cases) (use assms UpsertOp res in \<open>auto intro: UpsertPlaybook_inv\<close>)
next
  case (DeleteOp i)
  with assms(2) show ?thesis by (auto simp: playbooks_inv_def DeletePlaybook_def distinct_map_filter)
qed

interpretation playbooks: permitted_machine "[]" "pb_step R pol" named_op "playbooks_inv R pol" for R pol
  by unfold_locales (simp add: playbooks_inv_def, rule pb_step_inv)

text \<open>C37. Under a fixed command policy every playbook in the configuration has a name, at least one step, one to six
  attempts and a pause of one to sixty seconds per step, valid targets, only commands the policy accepts, no unknown
  variable, one to a hundred hosts at a time and a usable schedule; and no two share an id.\<close>

theorem saved_playbooks_sound:
  assumes "list_all named_op ops"
  shows "playbooks_inv R pol (run (pb_step R pol) [] ops)"
  by (rule playbooks.inv_run [OF assms])

section \<open>What may start\<close>

lemma risk_level_high:
  "risk_level S sts = ''high'' \<longleftrightarrow> (\<exists>st\<in>set sts. step_risk (si_patterns S) (si_policy S) st = ''change'')"
proof -
  have "foldl (\<lambda>l st. raise_level l (module_risk st) (step_risk R pol st)) l sts = ''high'' \<longleftrightarrow>
      l = ''high'' \<or> (\<exists>st\<in>set sts. step_risk R pol st = ''change'')" for l R pol
    by (induction sts arbitrary: l) (auto simp: raise_level_def)
  then show ?thesis by (simp add: risk_level_def)
qed

lemma freeze_of_None:
  "freeze_of ck ws now hs = None \<longleftrightarrow> (\<forall>(i, cat)\<in>set hs. activeFreezeWindow ck ws i cat now = None)"
  by (induction hs) (auto split: option.splits)

lemma started_execution:
  assumes "startExecution now p u hosts st t m = (m', e)" "pm_inv m"
  shows "GetExecution (ex_id e) m' = Some e" "ex_status e = st" "ex_hosts e = pending_hosts hosts" "ex_playbook e = p"
proof -
  have e: "e = \<lparr>ex_id = pm_nextID m + 1, ex_playbook = p, ex_operator = u, ex_start = now, ex_end = 0, ex_status = st,
      ex_hosts = pending_hosts hosts, ex_trigger = t\<rparr>"
    and m': "m' = m\<lparr>pm_nextID := pm_nextID m + 1, pm_execs := newest (pm_execs m @ [e])\<rparr>"
    using assms(1) by (auto simp: startExecution_def Let_def)
  have fresh: "\<forall>x\<in>set (pm_execs m). ex_id x \<noteq> ex_id e" using assms(2) by (force simp: pm_inv_def e)
  have kept: "newest (pm_execs m @ [e]) = drop (length (pm_execs m) - 99) (pm_execs m) @ [e]" by (simp add: newest_def)
  have "find (\<lambda>x. ex_id x = ex_id e) (drop (length (pm_execs m) - 99) (pm_execs m)) = None"
    using fresh by (auto simp: find_None_iff dest: in_set_dropD)
  then show "GetExecution (ex_id e) m' = Some e"
    unfolding GetExecution_def m' by (simp add: kept find_snoc)
qed (use assms(1) in \<open>auto simp: startExecution_def Let_def\<close>)


text \<open>A run a user starts by hand goes to hosts the user may reach only, has a valid plan, and where the plan
  asks for confirmation the request carried it.\<close>

theorem manual_run_gated:
  assumes "pm_inv m" "handleExecutePlaybook S now me operator i accepted pbs m = (m', Started n)"
  shows "\<exists>pb e. GetPlaybook i pbs = Some pb \<and> GetExecution n m' = Some e \<and> ex_status e = ''running'' \<and>
     ex_hosts e = pending_hosts (targets_for S now me pb) \<and> pf_valid (buildPlaybookPreflight S now pb) \<and>
     (pf_approval (buildPlaybookPreflight S now pb) \<longrightarrow> equal_fold accepted ''true'') \<and>
     (\<forall>u. me = Some u \<longrightarrow> (\<forall>h\<in>set (targets_for S now me pb).
        unfiltered me \<or> userCanAccessHost (si_folders S) (map host_info.truncate (si_store S)) u (he_id h)))"
proof -
  obtain pb e where run: "GetPlaybook i pbs = Some pb" "pf_valid (buildPlaybookPreflight S now pb)"
      "pf_approval (buildPlaybookPreflight S now pb) \<longrightarrow> equal_fold accepted ''true''"
      "StartExecution now i operator (targets_for S now me pb) m = (m', e)" "ex_id e = n"
    using assms(2) by (auto simp: handleExecutePlaybook_def Let_def split: option.splits if_splits prod.splits)
  note started = started_execution [OF run(4) [unfolded StartExecution_def] assms(1)]
  have "\<forall>h\<in>set (targets_for S now me pb). unfiltered me \<or> userCanAccessHost (si_folders S) (map host_info.truncate (si_store S)) u (he_id h)"
    if "me = Some u" for u
    using that by (auto simp: targets_for_def scope_filter_def userCanAccessHost_def split: if_splits)
  with run started show ?thesis by blast
qed

section \<open>What is never asked about\<close>

lemma strict_risk:
  assumes "strict pol" "validatePlaybookCommands R pol sts = None" "st \<in> set sts" "ps_module st = []"
  shows "step_risk R pol st = ''command''" "\<not> (\<exists>c\<in>set (commands st @ rollbacks st). forces_approval R pol c)"
proof -
  have "trim_space (ps_module st) = []" using assms(4) by simp
  then have "\<not> forces_approval R pol c" if "c \<in> set (commands st @ rollbacks st)" for c
    using that accepted_command(5) [OF _ assms(1)] validated_commands [OF assms(2, 3), of c]
    by (cases "trim_space c = []") (auto simp: step_commands_def forces_approval_def)
  then show "\<not> (\<exists>c\<in>set (commands st @ rollbacks st). forces_approval R pol c)"
    "step_risk R pol st = ''command''" using assms(4) by (auto simp: step_risk_def module_risk_def)
qed

text \<open>Under the strict policy a playbook of shell commands that may be saved never needs confirmation, whatever its
  commands change, except during a freeze: the scheduler starts it at once on its online hosts.\<close>

theorem shell_playbooks_unconfirmed:
  assumes "strict (si_policy S)" "validatePlaybookCommands (si_patterns S) (si_policy S) (pb_steps pb) = None"
    "\<forall>st\<in>set (pb_steps pb). ps_module st = []"
  shows "(pf_approval (buildPlaybookPreflight S now pb) \<longleftrightarrow> pf_freeze (buildPlaybookPreflight S now pb) \<noteq> None) \<and>
     (pf_valid (buildPlaybookPreflight S now pb) \<and> si_windows S = [] \<and> targets_now S now pb \<noteq> [] \<longrightarrow>
      snd (fireScheduledPlaybook S now pb m) = Fired (pm_nextID m + 1))"
proof -
  note risk = strict_risk [OF assms(1, 2)]
  have "risk_level S (pb_steps pb) \<noteq> ''high''" using risk(1) assms(3) by (auto simp: risk_level_high)
  moreover have "\<not> playbookNeedsForcedApproval (si_patterns S) (si_policy S) (pb_steps pb)"
    using risk(2) assms(3) unfolding playbookNeedsForcedApproval_def by auto
  ultimately have asked: "pf_approval (buildPlaybookPreflight S now pb) \<longleftrightarrow> pf_freeze (buildPlaybookPreflight S now pb) \<noteq> None"
    by (simp add: buildPlaybookPreflight_def Let_def)
  have "freeze_of (si_clock S) [] now hs = None" for hs by (auto simp: freeze_of_None activeFreezeWindow_def)
  then have "snd (fireScheduledPlaybook S now pb m) = Fired (pm_nextID m + 1)"
    if "pf_valid (buildPlaybookPreflight S now pb)" "si_windows S = []" "targets_now S now pb \<noteq> []"
    using that asked by (auto simp: fireScheduledPlaybook_def Let_def StartScheduledExecution_def startExecution_def
        buildPlaybookPreflight_def)
  with asked show ?thesis by blast
qed

definition quiet_site :: "unit site" where
  "quiet_site = \<lparr>si_patterns = (\<lambda>_ _. None), si_policy = default_policy, si_uncategorized = [], si_folders = no_folders,
     si_store = [host_a], si_offlineSec = 60, si_clock = \<lparr>ck_weekday = (\<lambda>_. 0), ck_minute = (\<lambda>_. 0)\<rparr>, si_windows = [],
     si_pick = (\<lambda>is. is)\<rparr>"

definition restart_playbook :: playbook where
  "restart_playbook = (by_name ''p'')\<lparr>pb_steps := [restart_step]\<rparr>"

lemma restart_playbook_steps: "pb_steps restart_playbook = [restart_step]" "pb_maxParallel restart_playbook = 30"
    "pb_schedule restart_playbook = None" "pb_name restart_playbook = ''p''" "pb_id restart_playbook = ''p''"
  by (simp_all add: restart_playbook_def by_name_def)

lemma restart_accepted: "validatePlaybookCommands (\<lambda>_ _. None) default_policy [restart_step] = None"
  by code_simp

lemma restart_playbook_valid:
  "map he_id (targets_now quiet_site 0 restart_playbook) = [''a'']" "ps_module restart_step = []"
  "pf_valid (buildPlaybookPreflight quiet_site 0 restart_playbook)"
proof -
  show "map he_id (targets_now quiet_site 0 restart_playbook) = [''a'']" "ps_module restart_step = []" by code_simp+
  have "validatePlaybookVariables known_at_start [restart_step] = None"
    "online_ids [] no_folders (filter (host_online 60 0) [host_a]) [restart_step] \<noteq> []" by code_simp+
  with restart_accepted show "pf_valid (buildPlaybookPreflight quiet_site 0 restart_playbook)"
    by (simp add: buildPlaybookPreflight_def Let_def quiet_site_def restart_playbook_steps)
qed

lemma shell_playbooks_unconfirmed_witness:
  "commands restart_step = [''systemctl restart nginx'', [], []] \<and>
   snd (fireScheduledPlaybook quiet_site 0 restart_playbook newPlaybookManager) = Fired 2"
proof
  show "commands restart_step = [''systemctl restart nginx'', [], []]" by code_simp
  have "strict (si_policy quiet_site)" by (simp add: strict_def quiet_site_def default_policy_def)
  moreover have "validatePlaybookCommands (si_patterns quiet_site) (si_policy quiet_site) (pb_steps restart_playbook) = None"
    using restart_accepted by (simp add: quiet_site_def restart_playbook_steps)
  moreover have "targets_now quiet_site 0 restart_playbook \<noteq> []" using restart_playbook_valid(1) by auto
  ultimately show "snd (fireScheduledPlaybook quiet_site 0 restart_playbook newPlaybookManager) = Fired 2"
    using shell_playbooks_unconfirmed [of quiet_site restart_playbook 0 newPlaybookManager] restart_playbook_valid
    by (simp add: restart_playbook_steps quiet_site_def newPlaybookManager_def)
qed

lemma new_manager_inv: "pm_inv newPlaybookManager"
  by (simp add: pm_inv_def newPlaybookManager_def)

lemma restart_approval: "\<not> pf_approval (buildPlaybookPreflight quiet_site 0 restart_playbook)"
proof -
  have "strict default_policy" by (simp add: strict_def default_policy_def)
  note risk = strict_risk [OF this restart_accepted, of restart_step, simplified restart_playbook_valid(2)]
  have "risk_level quiet_site [restart_step] \<noteq> ''high''" "\<not> playbookNeedsForcedApproval (\<lambda>_ _. None) default_policy [restart_step]"
    using risk restart_playbook_valid(2) by (simp_all add: risk_level_high quiet_site_def playbookNeedsForcedApproval_def)
  moreover have "freeze_of ck [] now hs = None" for ck now hs by (auto simp: freeze_of_None activeFreezeWindow_def)
  ultimately show ?thesis
    by (simp add: buildPlaybookPreflight_def Let_def restart_playbook_steps) (simp add: quiet_site_def)
qed


lemma manual_run_gated_witness:
  "\<exists>e :: execution. ex_status e = ''running'' \<and> ex_hosts e = pending_hosts (targets_for quiet_site 0 None restart_playbook)"
proof -
  have "GetPlaybook ''p'' [restart_playbook] = Some restart_playbook" by (simp add: GetPlaybook_def restart_playbook_steps)
  moreover have "targets_for quiet_site 0 None restart_playbook \<noteq> []"
    using restart_playbook_valid(1) by (auto simp: targets_for_def scope_filter_def)
  ultimately obtain m' n where
    "handleExecutePlaybook quiet_site 0 None ''u'' ''p'' [] [restart_playbook] newPlaybookManager = (m', Started n)"
    using restart_approval restart_playbook_valid(3)
    by (auto simp: handleExecutePlaybook_def Let_def StartExecution_def startExecution_def)
  from manual_run_gated [OF new_manager_inv this] show ?thesis by (auto simp: GetPlaybook_def split: if_splits)
qed

lemma saved_playbooks_sound_witness:
  "playbooks_inv (\<lambda>_ _. None) default_policy (run (pb_step (\<lambda>_ _. None) default_policy) [] [UpsertOp 0 ''t'' restart_playbook])"
  by (rule saved_playbooks_sound) simp

end
