(* ===== verification/SqlText.thy ===== *)
theory SqlText
  imports RegexMatch
begin

text \<open>
  What the server reads off a text of SQL before it reaches a database (\<open>cmd/server/sqltoolkit/util.go\<close>,
  \<open>strict_readonly.go\<close>, \<open>rowlimit.go\<close>). Texts are lists of ASCII characters. The scans work on the text with its
  comments and strings blanked out; the data base reads the text itself.
\<close>

section \<open>Comments and strings\<close>

datatype sql_mode = Plain | LineComment | BlockComment | Quote | Name char

fun rank :: "sql_mode \<Rightarrow> nat" where
  "rank Plain = 0"
| "rank m = 1"

function strip_sql :: "sql_mode \<Rightarrow> string \<Rightarrow> string" where
  "strip_sql m [] = []"
| "strip_sql Plain (c # s) =
     (if c = CHR ''-'' \<and> has_prefix s ''-'' then CHR '' '' # strip_sql LineComment s
      else if c = CHR ''#'' then CHR '' '' # strip_sql LineComment s
      else if c = CHR ''/'' \<and> has_prefix s ''*'' then CHR '' '' # CHR '' '' # strip_sql BlockComment (tl s)
      else if c = CHR 0x27 then CHR '' '' # strip_sql Quote s
      else if c = CHR 0x22 \<or> c = CHR 0x60 then CHR '' '' # strip_sql (Name c) s
      else c # strip_sql Plain s)"
| "strip_sql LineComment (c # s) =
     (if c = CHR 0x0A then c # strip_sql Plain s else CHR '' '' # strip_sql LineComment s)"
| "strip_sql BlockComment [c] = strip_sql Plain [c]"
| "strip_sql BlockComment (c # d # s) =
     (if c = CHR ''*'' \<and> d = CHR ''/'' then CHR '' '' # CHR '' '' # strip_sql Plain s
      else (if c = CHR 0x0A then CHR 0x0A else CHR '' '') # strip_sql BlockComment (d # s))"
| "strip_sql Quote (c # s) =
     (if c = CHR 0x5C \<and> s \<noteq> [] then CHR '' '' # CHR '' '' # strip_sql Quote (tl s)
      else if c = CHR 0x27
      then CHR '' '' # (if has_prefix s [CHR 0x27] then CHR '' '' # strip_sql Quote (tl s) else strip_sql Plain s)
      else CHR '' '' # strip_sql Quote s)"
| "strip_sql (Name q) (c # s) =
     (if c = q then CHR '' '' # strip_sql Plain s else CHR ''x'' # strip_sql (Name q) s)"
  by pat_completeness auto
termination by (relation "measures [\<lambda>(m, s). length s, \<lambda>(m, s). rank m]") (auto simp: has_prefix_def)

definition StripCommentsAndStrings :: "string \<Rightarrow> string" where
  "StripCommentsAndStrings s = strip_sql Plain s"

fun compact :: "bool \<Rightarrow> string \<Rightarrow> string" where
  "compact prev [] = []"
| "compact prev (c # s) =
     (if is_space c then (if prev then compact True s else CHR '' '' # compact True s) else c # compact False s)"

definition compactSpaces :: "string \<Rightarrow> string" where
  "compactSpaces s = trim_space (compact False s)"

section \<open>Statements that only read\<close>

definition trim_suffix :: "string \<Rightarrow> string \<Rightarrow> string" where
  "trim_suffix s p = (if has_suffix s p then take (length s - length p) s else s)"

definition semicolons :: "string \<Rightarrow> nat" where
  "semicolons s = length (filter (\<lambda>c. c = CHR '';'') s)"

definition FirstKeyword :: "string \<Rightarrow> string" where
  "FirstKeyword sql =
     (let s = compactSpaces (trim_space (StripCommentsAndStrings sql)) in
      case str_fields s of [] \<Rightarrow> [] | w # _ \<Rightarrow> to_lower w)"

definition read_words :: "string list" where
  "read_words = [''select'', ''with'', ''explain'', ''show'', ''desc'', ''describe'', ''values'', ''table'']"

definition IsReadOnlyQuery :: "string \<Rightarrow> bool" where
  "IsReadOnlyQuery sql0 =
     (let t = trim_space sql0 in
      if CHR '';'' \<in> set sql0 \<and> (1 < semicolons t \<or> \<not> has_suffix t '';'') then False
      else let sql = (if CHR '';'' \<in> set sql0 then trim_suffix t '';'' else sql0)
      in FirstKeyword sql \<in> set read_words)"

definition sql_flat :: "string \<Rightarrow> string" where
  "sql_flat sql = to_lower (compactSpaces (StripCommentsAndStrings sql))"

definition padded :: "string \<Rightarrow> string" where
  "padded s = '' '' @ s @ '' ''"

definition write_words :: "string list" where
  "write_words = ['' insert '', '' update '', '' delete '', '' drop '', '' alter '', '' create '',
     '' truncate '', '' replace '', '' grant '', '' revoke '', '' rename '',
     '' into outfile'', '' into dumpfile'', '' load data'', '' call '',
     '' lock tables'', '' unlock tables'', '' set global'', '' set @@'',
     '' copy '', '' '' @ [CHR 0x5C] @ ''copy '', '' execute '', '' prepare '', '' deallocate '',
     '' do '', '' listen '', '' notify '', '' vacuum '', '' reindex '',
     '' pg_sleep('', '' sleep('', '' benchmark('', '' get_lock('']"

definition write_first :: "string list" where
  "write_first = [''insert'', ''update'', ''delete'', ''drop'', ''alter'', ''create'', ''truncate'', ''replace'', ''grant'',
     ''revoke'', ''call'', ''load'', ''copy'', ''execute'', ''prepare'', ''do'', ''vacuum'', ''reindex'']"

definition ForbiddenWrite :: "string \<Rightarrow> bool" where
  "ForbiddenWrite sql \<longleftrightarrow>
     (\<exists>b\<in>set write_words. contains_sub (padded (sql_flat sql)) b) \<or> FirstKeyword sql \<in> set write_first"

definition isIdentByte :: "char \<Rightarrow> bool" where
  "isIdentByte c \<longleftrightarrow> small_letter c \<or> digit_code c \<or> c = CHR ''_''"

text \<open>\<open>before\<close> is the character in front of the rest of the text that is searched.\<close>

function keyword_from :: "char option \<Rightarrow> string \<Rightarrow> string \<Rightarrow> bool" where
  "keyword_from before kw s =
     (if kw = [] then False
      else case index_of kw s of
        None \<Rightarrow> False
      | Some i \<Rightarrow>
          let beforeOK = (if i = 0 then (case before of None \<Rightarrow> True | Some c \<Rightarrow> \<not> isIdentByte c)
                          else \<not> isIdentByte (s ! (i - 1)));
              rest = drop (i + length kw) s;
              afterOK = (case rest of [] \<Rightarrow> True | c # _ \<Rightarrow> \<not> isIdentByte c)
          in beforeOK \<and> afterOK \<or> (rest \<noteq> [] \<and> keyword_from (Some (last kw)) kw rest))"
  by pat_completeness auto
termination
proof (relation "measure (\<lambda>(before, kw, s). length s)")
  fix before :: "char option" and kw s :: string and i and beforeOK :: bool and rest afterOK
  assume "kw \<noteq> []" "index_of kw s = Some i" "rest = drop (i + length kw) s"
  then show "((Some (last kw), kw, rest), (before, kw, s)) \<in> measure (\<lambda>(before, kw, s). length s)"
    using index_of_bound [of kw s i] by (cases kw) auto
qed simp

declare keyword_from.simps [simp del]

definition containsSQLKeyword :: "string \<Rightarrow> string \<Rightarrow> bool" where
  "containsSQLKeyword s kw = keyword_from None (to_lower kw) (to_lower s)"

datatype read_error =
    EmptySql | MultipleStatements | NotReadOnly | KeywordRefused string | ForbiddenClause string
  | ForbiddenFunction string | SetRefused | CopyRefused | Mutating string | WriteKeyword | ForbiddenPattern | WriteStatement

definition clause_words :: "string list" where
  "clause_words = ['' for update'', '' for share'', '' lock in share mode'', '' into outfile'', '' into dumpfile'']"

definition clause_error :: "string \<Rightarrow> read_error option" where
  "clause_error s =
     (case find (contains_sub (padded s)) clause_words of
        Some b \<Rightarrow> Some (ForbiddenClause b)
      | None \<Rightarrow> if contains_sub (padded s) '' into '' \<and> contains_sub s ''select'' \<and> contains_sub s '' into ''
                then Some (ForbiddenClause ''INTO'') else None)"

definition danger_calls :: "string list" where
  "danger_calls = [''pg_sleep('', ''sleep('', ''benchmark('', ''get_lock('', ''load_file('', ''set_config('', ''lo_export('', ''lo_import('']"

definition meta_words :: "string list" where
  "meta_words = ['' insert '', '' update '', '' delete '', '' drop '', '' alter '', '' create '', '' truncate '', '' copy '']"

definition query_words :: "string list" where
  "query_words = ['' insert '', '' update '', '' delete '', '' drop '', '' alter '', '' create '',
     '' truncate '', '' replace '', '' grant '', '' revoke '', '' into outfile'', '' into dumpfile'', '' load data'',
     '' pg_sleep('', '' sleep('', '' benchmark('', '' get_lock('']"

definition write_error :: "string \<Rightarrow> string \<Rightarrow> read_error option" where
  "write_error kw s =
     (if kw \<in> {''show'', ''desc'', ''describe'', ''values'', ''table'', ''explain''}
      then (if \<exists>w\<in>set meta_words. contains_sub (padded s) w then Some WriteKeyword else None)
      else if kw = ''select'' \<or> kw = ''with''
      then (if \<exists>w\<in>set query_words. contains_sub (padded s) w then Some ForbiddenPattern else None)
      else Some WriteStatement)"

definition scan_error :: "string \<Rightarrow> string \<Rightarrow> read_error option" where
  "scan_error kw s =
     (case clause_error s of Some e \<Rightarrow> Some e
      | None \<Rightarrow>
      case find (contains_sub s) danger_calls of Some d \<Rightarrow> Some (ForbiddenFunction (trim_suffix d ''(''))
      | None \<Rightarrow>
          if has_prefix s ''set '' then Some SetRefused
          else if has_prefix s ''copy '' \<or> contains_sub (padded s) '' copy '' then Some CopyRefused
          else if kw = ''with'' \<or> kw = ''select''
          then map_option Mutating (find (containsSQLKeyword s) [''delete'', ''insert'', ''update'', ''drop'', ''truncate''])
          else None)"

definition strictReadOnly :: "string \<Rightarrow> read_error option" where
  "strictReadOnly sql =
     (let raw = trim_space sql in
      if raw = [] then Some EmptySql
      else if CHR '';'' \<in> set raw \<and> (1 < semicolons raw \<or> \<not> has_suffix raw '';'') then Some MultipleStatements
      else let t = (if CHR '';'' \<in> set raw then trim_suffix raw '';'' else raw) in
      if \<not> IsReadOnlyQuery (t @ '';'') \<and> \<not> IsReadOnlyQuery t then Some NotReadOnly
      else let kw = FirstKeyword t in
      if kw \<notin> set read_words then Some (KeywordRefused kw)
      else case scan_error kw (sql_flat t) of Some e \<Rightarrow> Some e
      | None \<Rightarrow> if ForbiddenWrite t then write_error kw (sql_flat t) else None)"

definition StrictReadOnlyMySQL :: "string \<Rightarrow> read_error option" where
  "StrictReadOnlyMySQL sql = strictReadOnly sql"

definition StrictReadOnlyPostgres :: "string \<Rightarrow> read_error option" where
  "StrictReadOnlyPostgres sql = strictReadOnly sql"

section \<open>Index statements\<close>

definition ddl_refused :: "string list" where
  "ddl_refused =
     ['' drop '', '' truncate '', '' delete '', '' insert '', '' update '', '' grant '', '' revoke '',
      '' create table'', '' create database'', '' create view'', '' create procedure'', '' create function'',
      '' create trigger'', '' create event'', '' rename '', '' into outfile'', '' load data'', '' call '',
      '' add column'', '' modify column'', '' change column'', '' partition '', '' disable keys'', '' enable keys'',
      '' add constraint'', '' add foreign'', '' add primary'', '' add fulltext'', '' add spatial'']"

definition sql_spaces :: re where
  "sql_spaces = plus_re (One SpaceClass)"

definition ident_re :: re where
  "ident_re = Alt (plus_re (One IdentClass)) (seq_re [Str [CHR 0x60], plus_re (One IdentClass), Str [CHR 0x60]])"

definition unique_re :: re where
  "unique_re = opt_re (Cat (Str ''unique'') sql_spaces)"

definition columns_re :: re where
  "columns_re = seq_re [Star (One SpaceClass), Str ''('', plus_re (One NotClose), Str '')'', EndT]"

definition reCreate :: re where
  "reCreate = seq_re [Str ''create'', sql_spaces, unique_re, Str ''index'', sql_spaces, ident_re, sql_spaces, Str ''on'', sql_spaces, ident_re, columns_re]"

definition reAlter :: re where
  "reAlter = seq_re [Str ''alter'', sql_spaces, Str ''table'', sql_spaces, ident_re, sql_spaces, Str ''add'', sql_spaces, unique_re,
     Alt (Str ''index'') (Str ''key''), sql_spaces, ident_re, columns_re]"

definition IsAllowedIndexDDL :: "string \<Rightarrow> bool" where
  "IsAllowedIndexDDL sql =
     (let t = trim_space sql in
      if t = [] then False
      else if 1 < semicolons t \<or> CHR '';'' \<in> set t \<and> \<not> has_suffix t '';'' then False
      else let s = trim_space (sql_flat (trim_suffix t '';'')) in
      if s = [] \<or> CHR '';'' \<in> set s then False
      else if \<exists>bad\<in>set ddl_refused. contains_sub (padded s) bad \<or> has_prefix s (trim_space bad) then False
      else if has_prefix s ''alter '' \<and> CHR '','' \<in> set s then False
      else ends reCreate s 0 \<noteq> [] \<or> ends reAlter s 0 \<noteq> [])"

section \<open>Row limits\<close>

definition reTailLimit :: re where
  "reTailLimit = seq_re [WordB, fold_word ''limit'', sql_spaces, plus_re (One DigitClass),
     opt_re (seq_re [Star (One SpaceClass), Str '','', Star (One SpaceClass), plus_re (One DigitClass)]),
     opt_re (seq_re [sql_spaces, fold_word ''offset'', sql_spaces, plus_re (One DigitClass)]), Star (One SpaceClass), EndT]"

definition reTailFetch :: re where
  "reTailFetch = seq_re [WordB, fold_word ''fetch'', sql_spaces, Alt (fold_word ''first'') (fold_word ''next''), WordB,
     Star (One AnyChar), WordB, fold_word ''only'', Star (One SpaceClass), EndT]"

definition HasOuterRowLimit :: "string \<Rightarrow> bool" where
  "HasOuterRowLimit sql =
     (let s = trim_space (trim_suffix (trim_space (StripCommentsAndStrings sql)) '';'') in
      s \<noteq> [] \<and> (re_match reTailLimit s \<or> re_match reTailFetch s))"

definition open_paren :: "char \<Rightarrow> bool" where
  "open_paren c \<longleftrightarrow> c \<in> {CHR ''('', CHR '' '', CHR 0x09, CHR 0x0D, CHR 0x0A}"

definition ApplyRowLimit :: "string \<Rightarrow> int \<Rightarrow> int \<Rightarrow> string \<times> bool" where
  "ApplyRowLimit sql limit offset =
     (let t = trim_space (trim_suffix (trim_space sql) '';'') in
      if t = [] \<or> limit \<le> 0 then (t, False)
      else if FirstKeyword (dropWhile open_paren t) \<notin> {''select'', ''with'', ''values'', ''table''} then (t, False)
      else if HasOuterRowLimit t then (t, False)
      else (t @ [CHR 0x0A] @ ''LIMIT '' @ show_int limit @ (if 0 < offset then '' OFFSET '' @ show_int offset else []), True))"

end
