(* ===== verification/SqlGuard.thy ===== *)
theory SqlGuard
  imports SqlText
begin

text \<open>
  What the scans of \<open>SqlText\<close> establish: a key word is found exactly where it stands as a word, an accepted index
  statement has one of two shapes, the row limit ends up outside the statement; and which texts pass although the data
  base runs more than the scan has seen.
\<close>

section \<open>Key words\<close>

definition border_free :: "string \<Rightarrow> bool" where
  "border_free kw \<longleftrightarrow> kw \<noteq> [] \<and> (\<forall>k. 0 < k \<and> k < length kw \<longrightarrow> drop k kw \<noteq> take (length kw - k) kw)"

definition word_end :: "string \<Rightarrow> bool" where
  "word_end s \<longleftrightarrow> (case s of [] \<Rightarrow> True | c # _ \<Rightarrow> \<not> isIdentByte c)"

text \<open>The key word stands in the text, with no letter, digit or underscore on either side.\<close>

definition word_in :: "char option \<Rightarrow> string \<Rightarrow> string \<Rightarrow> bool" where
  "word_in before kw s \<longleftrightarrow> (\<exists>a b. s = a @ kw @ b \<and> word_end b \<and>
     (if a = [] then (case before of None \<Rightarrow> True | Some c \<Rightarrow> \<not> isIdentByte c) else \<not> isIdentByte (last a)))"

lemma index_of_split:
  assumes "index_of kw s = Some i"
  shows "s = take i s @ kw @ drop (i + length kw) s" "\<And>a b. s = a @ kw @ b \<Longrightarrow> i \<le> length a"
proof -
  have "has_prefix (drop i s) kw \<and> (\<forall>j<i. \<not> has_prefix (drop j s) kw)"
    using assms
  proof (induction s arbitrary: i)
    case Nil
    then show ?case by (auto simp: has_prefix_def split: if_splits)
  next
    case (Cons c cs)
    show ?case
    proof (cases "has_prefix (c # cs) kw")
      case False
      with Cons.prems obtain i' where i: "i = Suc i'" "index_of kw cs = Some i'" by auto
      from Cons.IH [OF i(2)] False show ?thesis unfolding i(1) by (auto simp: less_Suc_eq_0_disj)
    qed (use Cons.prems in auto)
  qed
  then have at: "take (length kw) (drop i s) = kw" and before: "\<And>j. j < i \<Longrightarrow> \<not> has_prefix (drop j s) kw"
    by (auto simp: has_prefix_def)
  have "drop i s = take (length kw) (drop i s) @ drop (length kw) (drop i s)" by (rule append_take_drop_id [symmetric])
  also have "\<dots> = kw @ drop (i + length kw) s" using at by (simp add: add.commute)
  finally show "s = take i s @ kw @ drop (i + length kw) s" using append_take_drop_id [of i s] by metis
  show "i \<le> length a" if "s = a @ kw @ b" for a b
    using before [of "length a"] that by (force simp: has_prefix_def)
qed

lemma index_of_none:
  assumes "index_of kw s = None"
  shows "s \<noteq> a @ kw @ b"
proof
  have prefix: "has_prefix (kw @ b) kw" by simp
  have front: "index_of kw (kw @ b) \<noteq> None"
    by (cases "kw @ b") (use prefix in \<open>simp_all del: has_prefix_append\<close>)
  have "index_of kw (a @ kw @ b) \<noteq> None" by (induction a) (use front in \<open>auto\<close>)
  moreover assume "s = a @ kw @ b"
  ultimately show False using assms by simp
qed

lemma no_overlap:
  assumes "border_free kw" "s = a @ kw @ b" "s = a' @ kw @ b'" "length a < length a'"
  shows "length a + length kw \<le> length a'"
proof (rule ccontr)
  define k where "k = length a' - length a"
  assume "\<not> ?thesis"
  then have k: "0 < k" "k < length kw" "length a' = length a + k" using assms(4) by (auto simp: k_def)
  have "drop (length a') s = drop k (kw @ b)" using assms(2) k(3) by simp
  moreover have "drop (length a') s = kw @ b'" using assms(3) by simp
  ultimately have "drop k kw @ b = kw @ b'" using k(2) by simp
  then have "take (length kw - k) (drop k kw @ b) = take (length kw - k) (kw @ b')" by simp
  then have "drop k kw = take (length kw - k) kw" using k by simp
  with assms(1) k show False by (auto simp: border_free_def)
qed

lemma keyword_from_exact:
  assumes "border_free kw"
  shows "keyword_from before kw s \<longleftrightarrow> word_in before kw s"
proof (induction "length s" arbitrary: before s rule: less_induct)
  case less
  have kw: "kw \<noteq> []" using assms by (simp add: border_free_def)
  show ?case
  proof (cases "index_of kw s")
    case None
    with kw show ?thesis by (subst keyword_from.simps) (auto simp: word_in_def dest: index_of_none)
  next
    case (Some i)
    define a b where "a = take i s" and "b = drop (i + length kw) s"
    have s: "s = a @ kw @ b" using index_of_split(1) [OF Some] by (simp add: a_def b_def)
    have bound: "i + length kw \<le> length s" by (rule index_of_bound [OF Some])
    then have a: "length a = i" by (simp add: a_def)
    have shorter: "length b < length s" using kw s by simp
    have first: "(if i = 0 then (case before of None \<Rightarrow> True | Some c \<Rightarrow> \<not> isIdentByte c) else \<not> isIdentByte (s ! (i - 1))) =
        (if a = [] then (case before of None \<Rightarrow> True | Some c \<Rightarrow> \<not> isIdentByte c) else \<not> isIdentByte (last a))"
      using a by (auto simp: s last_conv_nth nth_append)
    have step: "keyword_from before kw s \<longleftrightarrow>
        (if a = [] then (case before of None \<Rightarrow> True | Some c \<Rightarrow> \<not> isIdentByte c) else \<not> isIdentByte (last a)) \<and> word_end b \<or>
        b \<noteq> [] \<and> word_in (Some (last kw)) kw b"
      using kw Some first less.hyps [OF shorter, of "Some (last kw)"]
      by (subst keyword_from.simps) (simp add: Let_def b_def word_end_def)
    have later: "word_in before kw s \<longleftrightarrow>
        (if a = [] then (case before of None \<Rightarrow> True | Some c \<Rightarrow> \<not> isIdentByte c) else \<not> isIdentByte (last a)) \<and> word_end b \<or>
        b \<noteq> [] \<and> word_in (Some (last kw)) kw b" (is "?l \<longleftrightarrow> ?here \<or> ?there")
    proof
      assume ?l
      then obtain a' b' where w: "s = a' @ kw @ b'" "word_end b'"
        "if a' = [] then (case before of None \<Rightarrow> True | Some c \<Rightarrow> \<not> isIdentByte c) else \<not> isIdentByte (last a')"
        by (auto simp: word_in_def)
      have "length a \<le> length a'" using index_of_split(2) [OF Some w(1)] a by simp
      then consider "length a' = length a" | "length a < length a'" by linarith
      then show "?here \<or> ?there"
      proof cases
        case 1
        with s w have "a' = a" "b' = b" by (metis append_eq_append_conv same_append_eq)+
        with w show ?thesis by auto
      next
        case 2
        define n where "n = length (a @ kw)"
        have n: "n \<le> length a'" using no_overlap [OF assms s w(1) 2] by (simp add: n_def)
        have "take n s = a @ kw" using s by (simp add: n_def)
        moreover have "take n s = take n a'" using w(1) n by simp
        ultimately obtain c where c: "a' = a @ kw @ c" using append_take_drop_id [of n a'] by (metis append_assoc)
        with s w(1) have b: "b = c @ kw @ b'" by simp
        have "word_in (Some (last kw)) kw b"
          unfolding word_in_def using w(2, 3) kw c b by (intro exI [of _ c] exI [of _ b']) (auto split: if_splits)
        with b kw show ?thesis by auto
      qed
    next
      assume "?here \<or> ?there"
      then show ?l
      proof
        assume ?here
        with s show ?l unfolding word_in_def by blast
      next
        assume ?there
        then obtain c d where c: "b = c @ kw @ d" "word_end d"
            "if c = [] then \<not> isIdentByte (last kw) else \<not> isIdentByte (last c)"
          by (auto simp: word_in_def cong: if_cong)
        have "s = (a @ kw @ c) @ kw @ d" using s c(1) by simp
        moreover have "a @ kw @ c \<noteq> []" "\<not> isIdentByte (last (a @ kw @ c))" using kw c(3) by (auto split: if_splits)
        ultimately show ?l unfolding word_in_def using c(2) by (metis (no_types))
      qed
    qed
    from step later show ?thesis by simp
  qed
qed

text \<open>C36. The scan for a key word finds it exactly when it stands in the text, in any case, as a word of its own, for key
  words that do not overlap themselves, such as the five it is used for.\<close>

theorem keyword_scan_exact:
  "(border_free (to_lower kw) \<longrightarrow> containsSQLKeyword s kw = word_in None (to_lower kw) (to_lower s)) \<and>
   (\<forall>w\<in>set [''delete'', ''insert'', ''update'', ''drop'', ''truncate'']. border_free (to_lower w))"
proof
  show "border_free (to_lower kw) \<longrightarrow> containsSQLKeyword s kw = word_in None (to_lower kw) (to_lower s)"
    by (simp add: containsSQLKeyword_def keyword_from_exact)
  have "list_all (\<lambda>w. to_lower w \<noteq> [] \<and>
        list_all (\<lambda>k. drop k (to_lower w) \<noteq> take (length (to_lower w) - k) (to_lower w)) [1..<length (to_lower w)])
      [''delete'', ''insert'', ''update'', ''drop'', ''truncate'']" by code_simp
  then show "\<forall>w\<in>set [''delete'', ''insert'', ''update'', ''drop'', ''truncate'']. border_free (to_lower w)"
    unfolding list_all_iff border_free_def by (metis One_nat_def Suc_leI atLeastLessThan_iff set_upt)
qed

theorem keyword_scan_exact_witness:
  "word_in None ''update'' (to_lower ''with u as (UPDATE t set a=1) select 1'') \<and>
   \<not> word_in None ''update'' (to_lower ''select last_update from t'')"
proof -
  have free: "border_free (to_lower ''update'')" using keyword_scan_exact [of "''update''"] by simp
  have "to_lower ''update'' = ''update''" "containsSQLKeyword ''with u as (UPDATE t set a=1) select 1'' ''update''"
    "\<not> containsSQLKeyword ''select last_update from t'' ''update''" by code_simp+
  with keyword_scan_exact [of "''update''"] free show ?thesis by metis
qed

section \<open>Words of an expression\<close>

inductive word_of :: "re \<Rightarrow> string \<Rightarrow> bool" where
  word_str: "word_of (Str w) w"
| word_one: "in_class k c \<Longrightarrow> word_of (One k) [c]"
| word_bound: "word_of WordB []"
| word_stop: "word_of EndT []"
| word_cat: "word_of p v \<Longrightarrow> word_of q w \<Longrightarrow> word_of (Cat p q) (v @ w)"
| word_left: "word_of p w \<Longrightarrow> word_of (Alt p q) w"
| word_right: "word_of q w \<Longrightarrow> word_of (Alt p q) w"
| word_none: "word_of (Star p) []"
| word_more: "word_of p v \<Longrightarrow> word_of (Star p) w \<Longrightarrow> word_of (Star p) (v @ w)"

inductive_simps word_of_simps:
  "word_of (Str v) w" "word_of (One k) w" "word_of WordB w" "word_of EndT w" "word_of (Cat p q) w" "word_of (Alt p q) w"

lemma word_of_star: "word_of r w \<Longrightarrow> r = Star (One k) \<Longrightarrow> \<forall>c\<in>set w. in_class k c"
  by (induction rule: word_of.induct) (auto simp: word_of_simps)

lemma word_of_plus: "word_of (plus_re (One k)) w \<Longrightarrow> w \<noteq> [] \<and> (\<forall>c\<in>set w. in_class k c)"
  by (auto simp: plus_re_def word_of_simps dest!: word_of_star)

definition between :: "string \<Rightarrow> nat \<Rightarrow> nat \<Rightarrow> string" where
  "between s i j = take (j - i) (drop i s)"

lemma between_append: "i \<le> j \<Longrightarrow> j \<le> k \<Longrightarrow> between s i k = between s i j @ between s j k"
proof -
  assume le: "i \<le> j" "j \<le> k"
  have "take (k - i) (drop i s) = take (j - i + (k - j)) (drop i s)" using le by simp
  also have "\<dots> = take (j - i) (drop i s) @ take (k - j) (drop (j - i) (drop i s))" by (rule take_add)
  also have "drop (j - i) (drop i s) = drop j s" using le by simp
  finally show ?thesis by (simp add: between_def)
qed

lemma span_word: "span s r i j \<Longrightarrow> i \<le> length s \<Longrightarrow> word_of r (between s i j)"
proof (induction rule: span.induct)
  case (span_one i k)
  then show ?case by (simp add: between_def take_Suc hd_drop_conv_nth word_one)
next
  case (span_cat p i j q k)
  with span_bounds [OF span_cat.hyps(1)] span_bounds [OF span_cat.hyps(2)]
  show ?case by (auto simp: between_append [of i j k] intro: word_of.intros)
next
  case (span_more p i j k)
  with span_bounds [OF span_more.hyps(1)] span_bounds [OF span_more.hyps(2)]
  show ?case by (auto simp: between_append [of i j k] intro: word_of.intros)
qed (auto simp: between_def intro: word_of.intros)

section \<open>Blanked and compacted texts\<close>

definition blank_quotes :: "string \<Rightarrow> bool" where
  "blank_quotes s \<longleftrightarrow> CHR 0x60 \<notin> set s \<and> CHR 0x22 \<notin> set s \<and> CHR 0x27 \<notin> set s \<and> CHR ''#'' \<notin> set s"

lemma strip_length: "length (strip_sql m s) = length s"
proof (induction m s rule: strip_sql.induct)
  case (2 c s)
  then show ?case by (cases s) (auto simp: has_prefix_def)
next
  case (6 c s)
  then show ?case by (cases s) (auto simp: has_prefix_def)
qed auto

lemma strip_quotes:
  "(\<forall>q. m = Name q \<longrightarrow> q \<noteq> CHR 0x0A) \<Longrightarrow> blank_quotes (strip_sql m s)"
  by (induction m s rule: strip_sql.induct) (auto simp: blank_quotes_def)

fun tight :: "string \<Rightarrow> bool" where
  "tight [] \<longleftrightarrow> True"
| "tight (c # s) \<longleftrightarrow> (is_space c \<longrightarrow> c = CHR '' '' \<and> (s = [] \<or> \<not> is_space (hd s))) \<and> tight s"

lemma tight_drop: "tight (a @ b) \<Longrightarrow> tight b"
  by (induction a) auto

lemma tight_take: "tight (a @ b) \<Longrightarrow> tight a"
  by (induction a) (auto simp: hd_append split: if_splits)

lemma tight_compact: "tight (compact prev s) \<and> (prev \<longrightarrow> compact prev s = [] \<or> \<not> is_space (hd (compact prev s)))"
  by (induction prev s rule: compact.induct) (auto simp: is_space_def)

lemma trim_sub: "\<exists>a b. s = a @ trim_space s @ b"
proof -
  define t where "t = dropWhile is_space s"
  have "s = takeWhile is_space s @ t" by (simp add: t_def)
  moreover have "rev t = takeWhile is_space (rev t) @ dropWhile is_space (rev t)" by simp
  then have "t = rev (dropWhile is_space (rev t)) @ rev (takeWhile is_space (rev t))" by (metis rev_append rev_rev_ident)
  ultimately show ?thesis unfolding trim_space_def t_def [symmetric] by metis
qed

lemma set_trim: "set (trim_space s) \<subseteq> set s"
  using trim_sub [of s] by (metis (no_types, lifting) Un_iff set_append subsetI)

lemma tight_trim: "tight s \<Longrightarrow> tight (trim_space s)"
  using trim_sub [of s] by (metis tight_drop tight_take)

lemma set_compact: "set (compact prev s) \<subseteq> insert (CHR '' '') (set s)"
  by (induction prev s rule: compact.induct) auto

lemma tight_lower: "tight s \<Longrightarrow> tight (to_lower s)"
proof (induction s)
  case (Cons c s)
  have "lower_char (CHR '' '') = CHR '' ''" by code_simp
  with Cons show ?case by (cases s) (auto simp: to_lower_def)
qed (simp add: to_lower_def)

lemma sql_flat_tight: "tight (trim_space (sql_flat s))"
  unfolding sql_flat_def compactSpaces_def by (intro tight_trim tight_lower) (simp add: tight_compact)

lemma tight_gap:
  assumes "tight (a @ g @ b)" "\<forall>c\<in>set g. in_class SpaceClass c"
  shows "g = [] \<or> g = '' ''"
proof -
  have g: "tight g" using assms(1) tight_drop tight_take by blast
  have sp: "\<forall>c\<in>set g. is_space c" using assms(2) by (auto simp: is_space_def code_def Let_def)
  show ?thesis
  proof (cases g)
    case (Cons c r)
    with g sp have "c = CHR '' ''" "r = [] \<or> \<not> is_space (hd r)" by auto
    moreover have "r \<noteq> [] \<Longrightarrow> is_space (hd r)" using sp Cons by (cases r) auto
    ultimately show ?thesis using Cons by auto
  qed simp
qed

section \<open>Index statements\<close>

definition ident_word :: "string \<Rightarrow> bool" where
  "ident_word w \<longleftrightarrow> w \<noteq> [] \<and> (\<forall>c\<in>set w. in_class IdentClass c)"

text \<open>The two forms, with single blanks.\<close>

definition create_form :: "string \<Rightarrow> bool" where
  "create_form s \<longleftrightarrow> (\<exists>u name tab gap cols. s = ''create '' @ u @ ''index '' @ name @ '' on '' @ tab @ gap @ ''('' @ cols @ '')'' \<and>
     u \<in> {[], ''unique ''} \<and> ident_word name \<and> ident_word tab \<and> gap \<in> {[], '' ''} \<and> cols \<noteq> [] \<and> CHR '')'' \<notin> set cols)"

definition alter_form :: "string \<Rightarrow> bool" where
  "alter_form s \<longleftrightarrow> (\<exists>u k name tab gap cols.
     s = ''alter table '' @ tab @ '' add '' @ u @ k @ name @ gap @ ''('' @ cols @ '')'' \<and>
     u \<in> {[], ''unique ''} \<and> k \<in> {''index '', ''key ''} \<and> ident_word name \<and> ident_word tab \<and> gap \<in> {[], '' ''} \<and>
     cols \<noteq> [] \<and> CHR '')'' \<notin> set cols \<and> CHR '','' \<notin> set cols)"

lemma word_of_spaces: "word_of sql_spaces w \<Longrightarrow> w \<noteq> [] \<and> (\<forall>c\<in>set w. in_class SpaceClass c)"
  unfolding sql_spaces_def by (rule word_of_plus)

lemma word_of_gap: "word_of (Star (One SpaceClass)) w \<Longrightarrow> \<forall>c\<in>set w. in_class SpaceClass c"
  using word_of_star by blast

lemma word_of_ident: "word_of ident_re w \<Longrightarrow> CHR 0x60 \<notin> set w \<Longrightarrow> ident_word w"
  by (auto simp: ident_re_def word_of_simps ident_word_def dest!: word_of_plus)

lemma word_of_unique:
  assumes "word_of unique_re u"
  obtains "u = []" | w where "u = ''unique'' @ w" "word_of sql_spaces w"
  using assms by (auto simp: unique_re_def opt_re_def word_of_simps)

lemma word_of_columns:
  assumes "word_of columns_re w"
  obtains gap cols where "w = gap @ ''('' @ cols @ '')''" "\<forall>c\<in>set gap. in_class SpaceClass c" "cols \<noteq> []" "CHR '')'' \<notin> set cols"
proof -
  from assms obtain gap cols where "w = gap @ ''('' @ cols @ '')''" "word_of (Star (One SpaceClass)) gap" "word_of (plus_re (One NotClose)) cols"
    by (auto simp: columns_re_def word_of_simps)
  moreover from this word_of_plus [of NotClose cols] in_class_code(9) have "cols \<noteq> []" "CHR '')'' \<notin> set cols" by blast+
  ultimately show ?thesis using word_of_gap by (intro that [of gap cols])
qed

lemma tight_spaces: "tight (w @ b) \<Longrightarrow> word_of sql_spaces w \<Longrightarrow> w = '' ''"
  using tight_gap [of "[]" w b] word_of_spaces by auto

lemma tight_unique:
  assumes "tight (u @ b)" "word_of unique_re u"
  shows "u \<in> {[], ''unique ''}"
  using assms(2)
proof (cases rule: word_of_unique)
  case (2 w)
  with assms(1) have "tight (w @ b)" using tight_drop [of "''unique''" "w @ b"] by simp
  with 2 tight_spaces show ?thesis by auto
qed simp

lemma create_words:
  assumes "word_of reCreate s" "tight s" "CHR 0x60 \<notin> set s"
  shows "create_form s"
proof -
  from assms(1) obtain w1 u w2 name w3 w4 tab c where
    s: "s = ''create'' @ w1 @ u @ ''index'' @ w2 @ name @ w3 @ ''on'' @ w4 @ tab @ c" and
    w: "word_of sql_spaces w1" "word_of unique_re u" "word_of sql_spaces w2" "word_of ident_re name" "word_of sql_spaces w3"
      "word_of sql_spaces w4" "word_of ident_re tab" "word_of columns_re c"
    unfolding reCreate_def seq_re.simps word_of_simps by blast
  from w(8) obtain gap cols where c: "c = gap @ ''('' @ cols @ '')''" "\<forall>x\<in>set gap. in_class SpaceClass x" "cols \<noteq> []" "CHR '')'' \<notin> set cols"
    by (rule word_of_columns)
  note t = assms(2) [unfolded s, THEN tight_drop]
  have t2: "tight (u @ ''index'' @ w2 @ name @ w3 @ ''on'' @ w4 @ tab @ c)" by (rule tight_drop [OF t])
  have t3: "tight (w2 @ name @ w3 @ ''on'' @ w4 @ tab @ c)" by (rule tight_drop [OF tight_drop [OF t2]])
  have t5: "tight (w3 @ ''on'' @ w4 @ tab @ c)" by (rule tight_drop [OF tight_drop [OF t3]])
  have t6: "tight (w4 @ tab @ c)" by (rule tight_drop [OF tight_drop [OF t5]])
  have t8: "tight c" by (rule tight_drop [OF tight_drop [OF t6]])
  have "w1 = '' ''" "w2 = '' ''" "w3 = '' ''" "w4 = '' ''" "u \<in> {[], ''unique ''}"
    using tight_spaces [OF t w(1)] tight_spaces [OF t3 w(3)] tight_spaces [OF t5 w(5)] tight_spaces [OF t6 w(6)] tight_unique [OF t2 w(2)]
    by blast+
  moreover have "ident_word name" "ident_word tab" using w(4, 7) assms(3) s by (auto intro!: word_of_ident)
  moreover have "gap \<in> {[], '' ''}" using tight_gap [of "[]" gap] t8 c(1, 2) by auto
  ultimately show ?thesis unfolding create_form_def using s c
    by (intro exI [of _ u] exI [of _ name] exI [of _ tab] exI [of _ gap] exI [of _ cols]) simp
qed

lemma alter_words:
  assumes "word_of reAlter s" "tight s" "CHR 0x60 \<notin> set s" "has_prefix s ''alter '' \<longrightarrow> CHR '','' \<notin> set s"
  shows "alter_form s"
proof -
  define kinds where "kinds = Alt (Str ''index'') (Str ''key'')"
  from assms(1) obtain w1 w2 tab w3 w4 u k w5 name c where
    s: "s = ''alter'' @ w1 @ ''table'' @ w2 @ tab @ w3 @ ''add'' @ w4 @ u @ k @ w5 @ name @ c" and
    w: "word_of sql_spaces w1" "word_of sql_spaces w2" "word_of ident_re tab" "word_of sql_spaces w3" "word_of sql_spaces w4"
      "word_of unique_re u" "word_of kinds k" "word_of sql_spaces w5" "word_of ident_re name" "word_of columns_re c"
    unfolding reAlter_def seq_re.simps kinds_def [symmetric] word_of_simps by blast
  from w(10) obtain gap cols where c: "c = gap @ ''('' @ cols @ '')''" "\<forall>x\<in>set gap. in_class SpaceClass x" "cols \<noteq> []" "CHR '')'' \<notin> set cols"
    by (rule word_of_columns)
  note t1 = assms(2) [unfolded s, THEN tight_drop]
  have t2: "tight (w2 @ tab @ w3 @ ''add'' @ w4 @ u @ k @ w5 @ name @ c)" by (rule tight_drop [OF tight_drop [OF t1]])
  have t3: "tight (w3 @ ''add'' @ w4 @ u @ k @ w5 @ name @ c)" by (rule tight_drop [OF tight_drop [OF t2]])
  have t4: "tight (w4 @ u @ k @ w5 @ name @ c)" by (rule tight_drop [OF tight_drop [OF t3]])
  have t5: "tight (u @ k @ w5 @ name @ c)" by (rule tight_drop [OF t4])
  have t6: "tight (w5 @ name @ c)" by (rule tight_drop [OF tight_drop [OF t5]])
  have t7: "tight c" by (rule tight_drop [OF tight_drop [OF t6]])
  have blank: "w1 = '' ''" "w2 = '' ''" "w3 = '' ''" "w4 = '' ''" "w5 = '' ''" "u \<in> {[], ''unique ''}"
    using tight_spaces [OF t1 w(1)] tight_spaces [OF t2 w(2)] tight_spaces [OF t3 w(4)] tight_spaces [OF t4 w(5)]
      tight_spaces [OF t6 w(8)] tight_unique [OF t5 w(6)] by blast+
  have "CHR 0x60 \<notin> set name" "CHR 0x60 \<notin> set tab" using assms(3) unfolding s by simp_all
  then have "ident_word name" "ident_word tab" using w(3, 9) by (blast intro: word_of_ident)+
  moreover have "gap \<in> {[], '' ''}" using tight_gap [of "[]" gap] t7 c(1, 2) by auto
  moreover have comma: "CHR '','' \<notin> set s" using assms(4) s blank(1) by (simp add: has_prefix_def)
  then have "CHR '','' \<notin> set cols" unfolding s c(1) by simp
  moreover have "k @ '' '' \<in> {''index '', ''key ''}" using w(7) by (auto simp: kinds_def word_of_simps)
  moreover have "s = ''alter table '' @ tab @ '' add '' @ u @ (k @ '' '') @ name @ gap @ ''('' @ cols @ '')''"
    using s blank(1-5) c(1) by simp
  ultimately show ?thesis unfolding alter_form_def using c(3, 4) blank(6)
    by (intro exI [of _ u] exI [of _ "k @ '' ''"] exI [of _ name] exI [of _ tab] exI [of _ gap] exI [of _ cols] conjI)
qed

lemma flat_backtick: "CHR 0x60 \<notin> set (trim_space (sql_flat s))"
proof -
  have "blank_quotes (StripCommentsAndStrings s)" by (simp add: StripCommentsAndStrings_def strip_quotes)
  moreover have "set (compactSpaces t) \<subseteq> insert (CHR '' '') (set t)" for t
    unfolding compactSpaces_def using set_trim set_compact by (rule subset_trans)
  ultimately have "CHR 0x60 \<notin> set (compactSpaces (StripCommentsAndStrings s))"
    by (fastforce simp: blank_quotes_def)
  moreover have "lower_char c = CHR 0x60 \<Longrightarrow> c = CHR 0x60" for c
    by (cases c) (auto simp: lower_char_code split: if_splits)
  ultimately have "CHR 0x60 \<notin> set (sql_flat s)" unfolding sql_flat_def to_lower_def set_map image_iff by metis
  then show ?thesis using set_trim [of "sql_flat s"] by auto
qed

text \<open>C29. An accepted index statement holds one statement, and once its comments and strings are blanked out as the code
  does and its blanks are joined, what remains is exactly a creation of one index on one table, or an alteration of one
  table that adds one index on one column, with no further clause. (What a server runs out of a comment is not seen:
  see sql_guard_bypassed.)\<close>

theorem index_ddl_shape:
  assumes "IsAllowedIndexDDL sql"
  shows "semicolons (trim_space sql) \<le> 1 \<and>
    (let s = trim_space (sql_flat (trim_suffix (trim_space sql) '';'')) in create_form s \<or> alter_form s)"
proof -
  define s where "s = trim_space (sql_flat (trim_suffix (trim_space sql) '';''))"
  from assms have one: "semicolons (trim_space sql) \<le> 1" and comma: "has_prefix s ''alter '' \<longrightarrow> CHR '','' \<notin> set s"
    and found: "ends reCreate s 0 \<noteq> [] \<or> ends reAlter s 0 \<noteq> []"
    by (auto simp: IsAllowedIndexDDL_def Let_def s_def split: if_splits)
  have whole: "j = length s" if "span s r 0 j" "r = reCreate \<or> r = reAlter" for r j
    using that by (auto simp: reCreate_def reAlter_def columns_re_def elim!: span_CatE span_EndTE)
  have tight: "tight s" and quotes: "CHR 0x60 \<notin> set s" unfolding s_def by (rule sql_flat_tight, rule flat_backtick)
  have "\<exists>r. (r = reCreate \<or> r = reAlter) \<and> word_of r s"
  proof -
    from found obtain r j where r: "r = reCreate \<or> r = reAlter" "j \<in> set (ends r s 0)"
      by (metis list.set_intros(1) neq_Nil_conv)
    then have "span s r 0 j" by (simp add: ends_span)
    moreover from this r(1) whole have "j = length s" by blast
    ultimately have "word_of r (between s 0 (length s))" using span_word by blast
    with r(1) show ?thesis by (auto simp: between_def)
  qed
  with create_words [OF _ tight quotes] alter_words [OF _ tight quotes comma] one show ?thesis by (auto simp: s_def Let_def)
qed

section \<open>Words found at the end of a text\<close>

fun still :: "re \<Rightarrow> bool" where
  "still (Str w) \<longleftrightarrow> True"
| "still (One k) \<longleftrightarrow> True"
| "still WordB \<longleftrightarrow> False"
| "still EndT \<longleftrightarrow> False"
| "still (Cat p q) \<longleftrightarrow> still p \<and> still q"
| "still (Alt p q) \<longleftrightarrow> still p \<and> still q"
| "still (Star p) \<longleftrightarrow> still p"

lemma drop_next:
  assumes "i \<le> length s" "drop i s = v @ w"
  shows "i + length v \<le> length s" "drop (i + length v) s = w"
proof -
  have "length (drop i s) = length v + length w" using assms(2) by simp
  with assms(1) show "i + length v \<le> length s" by simp
  have "drop (i + length v) s = drop (length v) (drop i s)" by (simp add: add.commute)
  with assms(2) show "drop (i + length v) s = w" by simp
qed

lemma still_span:
  "word_of r v \<Longrightarrow> still r \<Longrightarrow> i \<le> length s \<Longrightarrow> drop i s = v @ w \<Longrightarrow> span s r i (i + length v)"
proof (induction arbitrary: i w rule: word_of.induct)
  case (word_str u)
  then show ?case by (auto intro!: span_str)
next
  case (word_one k c)
  from drop_next [OF word_one.prems(2,3)] have "i < length s" by simp
  moreover from this word_one.prems(3) have "s ! i = c" by (simp add: Cons_nth_drop_Suc [symmetric])
  ultimately show ?case using word_one.hyps span_one [of i s k] by simp
next
  case (word_cat p v q u)
  then have "drop i s = v @ (u @ w)" by simp
  from drop_next [OF word_cat.prems(2) this] word_cat.IH(1) [OF _ word_cat.prems(2) this] word_cat.IH(2) [of "i + length v" w] word_cat.prems(1)
  show ?case by (auto simp: add.assoc intro: span_cat)
next
  case (word_more p v u)
  then have "drop i s = v @ (u @ w)" by simp
  from drop_next [OF word_more.prems(2) this] word_more.IH(1) [OF _ word_more.prems(2) this] word_more.IH(2) [of "i + length v" w] word_more.prems(1)
  show ?case by (auto simp: add.assoc intro: span_more)
qed (auto intro: span.intros)

definition ends_with :: "re \<Rightarrow> string \<Rightarrow> bool" where
  "ends_with r w \<longleftrightarrow> (\<forall>s i. i \<le> length s \<longrightarrow> drop i s = w \<longrightarrow> span s r i (length s))"

lemma ends_with_stop: "ends_with EndT []"
  by (auto simp: ends_with_def intro: span.intros)

lemma ends_with_cat:
  assumes "ends_with q w" "word_of p v" "still p"
  shows "ends_with (Cat p q) (v @ w)"
  unfolding ends_with_def
proof (intro allI impI)
  fix s :: string and i
  assume i: "i \<le> length s" "drop i s = v @ w"
  from drop_next [OF i] still_span [OF assms(2,3) i] assms(1)
  show "span s (Cat p q) i (length s)" by (auto simp: ends_with_def intro: span_cat)
qed

lemma class_star: "(\<forall>c\<in>set w. in_class k c) \<Longrightarrow> word_of (Star (One k)) w"
  by (induction w) (use word_more [of "One k"] in \<open>fastforce intro: word_of.intros\<close>)+

lemma class_plus: "w \<noteq> [] \<Longrightarrow> (\<forall>c\<in>set w. in_class k c) \<Longrightarrow> word_of (plus_re (One k)) w"
  using word_cat [OF word_one [of k "hd w"] class_star [of "tl w" k]] by (cases w) (auto simp: plus_re_def)

section \<open>The row limit\<close>

text \<open>Where a text ends: in plain text, in a comment, in a string or in a quoted name.\<close>

function mode_after :: "sql_mode \<Rightarrow> string \<Rightarrow> sql_mode" where
  "mode_after m [] = m"
| "mode_after Plain (c # s) =
     (if c = CHR ''-'' \<and> has_prefix s ''-'' then mode_after LineComment s
      else if c = CHR ''#'' then mode_after LineComment s
      else if c = CHR ''/'' \<and> has_prefix s ''*'' then mode_after BlockComment (tl s)
      else if c = CHR 0x27 then mode_after Quote s
      else if c = CHR 0x22 \<or> c = CHR 0x60 then mode_after (Name c) s
      else mode_after Plain s)"
| "mode_after LineComment (c # s) = (if c = CHR 0x0A then mode_after Plain s else mode_after LineComment s)"
| "mode_after BlockComment [c] = BlockComment"
| "mode_after BlockComment (c # d # s) =
     (if c = CHR ''*'' \<and> d = CHR ''/'' then mode_after Plain s else mode_after BlockComment (d # s))"
| "mode_after Quote (c # s) =
     (if c = CHR 0x5C \<and> s \<noteq> [] then mode_after Quote (tl s)
      else if c = CHR 0x27 then (if has_prefix s [CHR 0x27] then mode_after Quote (tl s) else mode_after Plain s)
      else mode_after Quote s)"
| "mode_after (Name q) (c # s) = (if c = q then mode_after Plain s else mode_after (Name q) s)"
  by pat_completeness auto
termination by (relation "measure (\<lambda>(m, s). length s)") (auto simp: has_prefix_def)

lemma prefix_newline: "d \<noteq> CHR 0x0A \<Longrightarrow> has_prefix (s @ CHR 0x0A # t) [d] = has_prefix s [d]"
  by (cases s) (auto simp: has_prefix_def)

lemma prefix_cons: "has_prefix s [d] \<longleftrightarrow> (\<exists>r. s = d # r)"
  by (cases s) (auto simp: has_prefix_def)

lemma strip_append:
  "mode_after m s = Plain \<or> mode_after m s = LineComment \<Longrightarrow>
   strip_sql m (s @ CHR 0x0A # t) = strip_sql m s @ CHR 0x0A # strip_sql Plain t"
proof (induction m s rule: mode_after.induct)
  case (2 c s)
  consider r where "c = CHR ''-''" "s = CHR ''-'' # r" | r where "c = CHR ''/''" "s = CHR ''*'' # r"
    | "c = CHR 0x27" | "c = CHR 0x22 \<or> c = CHR 0x60"
    | "c \<noteq> CHR 0x27" "\<not> (c = CHR 0x22 \<or> c = CHR 0x60)" "\<not> (c = CHR ''-'' \<and> has_prefix s ''-'')" "\<not> (c = CHR ''/'' \<and> has_prefix s ''*'')"
    by (auto simp: prefix_cons)
  then show ?case
  proof cases
    case 4
    then have name: "strip_sql Plain (c # u) = CHR '' '' # strip_sql (Name c) u" "mode_after Plain (c # u) = mode_after (Name c) u" for u
      by auto
    from 4 have "strip_sql (Name c) (s @ CHR 0x0A # t) = strip_sql (Name c) s @ CHR 0x0A # strip_sql Plain t"
      by (intro "2.IH"(5)) (use 4 2(7) name in auto)
    then show ?thesis by (simp only: append_Cons name)
  next
    case 5
    with 2 have "c \<noteq> CHR ''-'' \<or> \<not> has_prefix (s @ CHR 0x0A # t) ''-''" "c \<noteq> CHR ''/'' \<or> \<not> has_prefix (s @ CHR 0x0A # t) ''*''"
      by (auto simp: prefix_newline)
    with 5 2(2,6,7) show ?thesis by (simp split: if_splits)
  qed (use 2 in \<open>simp_all add: prefix_cons [of "_ # _"]\<close>)
next
  case (6 c s)
  consider r where "c = CHR 0x27" "s = CHR 0x27 # r" | d r where "c = CHR 0x5C" "s = d # r" | "c = CHR 0x5C" "s = []"
    | "c \<noteq> CHR 0x5C" "\<not> (c = CHR 0x27 \<and> has_prefix s [CHR 0x27])" by (cases s) (auto simp: prefix_cons)
  then show ?case by cases (use 6 in \<open>simp_all add: prefix_newline prefix_cons [of "_ # _"] split: if_splits\<close>)
qed (auto split: if_splits)

definition inert :: "char \<Rightarrow> bool" where
  "inert c \<longleftrightarrow> c \<notin> {CHR ''-'', CHR ''#'', CHR ''/'', CHR 0x27, CHR 0x22, CHR 0x60}"

lemma strip_inert: "(\<forall>c\<in>set s. inert c) \<Longrightarrow> strip_sql Plain s = s"
  by (induction s) (auto simp: inert_def)

definition limit_tail :: "int \<Rightarrow> int \<Rightarrow> string" where
  "limit_tail limit offset = ''LIMIT '' @ show_int limit @ (if 0 < offset then '' OFFSET '' @ show_int offset else [])"

lemma show_pos: "0 < n \<Longrightarrow> show_int n \<noteq> [] \<and> (\<forall>c\<in>set (show_int n). in_class DigitClass c)"
  using show_nat_digits by (auto simp: show_int_def code_def)

lemma word_of_ends: "ends r w 0 = [length w] \<Longrightarrow> word_of r w"
  using ends_span [of 0 w "length w" r] span_word [of w r 0 "length w"] by (simp add: between_def)

lemma word_limit: "word_of (fold_word ''limit'') ''LIMIT''"
  by (rule word_of_ends) code_simp

lemma word_offset: "word_of (fold_word ''offset'') ''OFFSET''"
  by (rule word_of_ends) code_simp

lemma word_blank: "word_of sql_spaces '' ''"
  by (rule word_of_ends) code_simp

lemma still_words: "still (fold_word ''limit'')" "still (fold_word ''offset'')" "still sql_spaces" "still (plus_re (One DigitClass))"
  by code_simp+

definition limit_rest :: re where
  "limit_rest = seq_re [fold_word ''limit'', sql_spaces, plus_re (One DigitClass),
     opt_re (seq_re [Star (One SpaceClass), Str '','', Star (One SpaceClass), plus_re (One DigitClass)]),
     opt_re (seq_re [sql_spaces, fold_word ''offset'', sql_spaces, plus_re (One DigitClass)]), Star (One SpaceClass), EndT]"

lemma limit_rest: "reTailLimit = Cat WordB limit_rest"
  by (simp add: reTailLimit_def limit_rest_def)

lemma limit_tail_ends:
  assumes "0 < limit"
  shows "ends_with limit_rest (limit_tail limit offset)"
proof -
  have none: "word_of (opt_re r) []" for r by (simp add: opt_re_def word_of_simps)
  define more where "more = (if 0 < offset then '' OFFSET '' @ show_int offset else [])"
  have off: "word_of (opt_re (seq_re [sql_spaces, fold_word ''offset'', sql_spaces, plus_re (One DigitClass)])) more"
  proof (cases "0 < offset")
    case True
    then have "word_of (plus_re (One DigitClass)) (show_int offset)" using show_pos class_plus by blast
    then have "word_of (seq_re [sql_spaces, fold_word ''offset'', sql_spaces, plus_re (One DigitClass)]) ('' '' @ ''OFFSET'' @ '' '' @ show_int offset)"
      unfolding seq_re.simps by (intro word_cat word_blank word_offset)
    with True show ?thesis by (simp add: more_def opt_re_def word_left)
  qed (simp add: more_def none)
  have digits: "word_of (plus_re (One DigitClass)) (show_int limit)" using show_pos [OF assms] class_plus by blast
  have "ends_with limit_rest (''LIMIT'' @ '' '' @ show_int limit @ [] @ more @ [] @ [])"
    unfolding limit_rest_def seq_re.simps
    by (intro ends_with_cat ends_with_stop word_limit word_blank digits none off [unfolded seq_re.simps] word_none)
      (simp_all add: still_words opt_re_def)
  then show ?thesis by (simp add: limit_tail_def more_def)
qed

lemma limit_tail_plain: "0 < limit \<Longrightarrow> c \<in> set (limit_tail limit offset) \<Longrightarrow> inert c \<and> c \<noteq> CHR '';''"
proof -
  have digit: "inert c \<and> c \<noteq> CHR '';''" if "in_class DigitClass c" for c
    using that by (auto simp: inert_def code_def)
  have word: "\<forall>c\<in>set ''LIMIT OFFSET ''. inert c \<and> c \<noteq> CHR '';''" by (simp add: inert_def)
  assume "0 < limit" "c \<in> set (limit_tail limit offset)"
  then show ?thesis using digit show_pos word by (force simp: limit_tail_def split: if_splits)
qed

lemma limit_tail_edges:
  assumes "0 < limit"
  shows "\<not> is_space (last (limit_tail limit offset))" "word_char (hd (limit_tail limit offset))"
    "\<not> is_space (hd (limit_tail limit offset))" "limit_tail limit offset \<noteq> []" "last (limit_tail limit offset) \<noteq> CHR '';''"
proof -
  have digit: "\<not> is_space c" if "in_class DigitClass c" for c using that by (auto simp: is_space_def code_def Let_def)
  have "last (limit_tail limit offset) \<in> set (show_int (if 0 < offset then offset else limit))"
    using show_pos [of offset] show_pos [OF assms] by (auto simp: limit_tail_def)
  then show "\<not> is_space (last (limit_tail limit offset))" using digit show_pos [of "if 0 < offset then offset else limit"] assms by auto
  show ne: "limit_tail limit offset \<noteq> []" by (simp add: limit_tail_def)
  show "last (limit_tail limit offset) \<noteq> CHR '';''" using limit_tail_plain [OF assms last_in_set [OF ne]] by blast
  have "hd (limit_tail limit offset) = CHR ''L''" by (simp add: limit_tail_def)
  moreover have "word_char (CHR ''L'') \<and> \<not> is_space (CHR ''L'')" by code_simp
  ultimately show "word_char (hd (limit_tail limit offset))" "\<not> is_space (hd (limit_tail limit offset))" by simp_all
qed

lemma trim_tail:
  assumes "l \<noteq> []" "\<not> is_space (hd l)" "\<not> is_space (last l)"
  obtains z where "trim_space (a @ CHR 0x0A # l) = z @ l" "z = [] \<or> last z = CHR 0x0A" "trim_space (z @ l) = z @ l"
proof -
  have left: "dropWhile is_space (CHR 0x0A # l) = l"
    using assms by (cases l) (simp_all, code_simp)
  define z where "z = (if \<forall>c\<in>set a. is_space c then [] else dropWhile is_space a @ [CHR 0x0A])"
  have z: "dropWhile is_space (a @ CHR 0x0A # l) = z @ l"
    using left by (auto simp: z_def dropWhile_append)
  have right: "rev (dropWhile is_space (rev (u @ l))) = u @ l" for u
    using assms(1,3) by (cases l rule: rev_cases) auto
  have again: "dropWhile is_space (z @ l) = z @ l"
    using z dropWhile_idem [of is_space "a @ CHR 0x0A # l"] by simp
  show ?thesis
    by (rule that [of z]) (use z right again in \<open>auto simp: trim_space_def z_def\<close>)
qed

lemma trim_suffix_last: "s \<noteq> [] \<Longrightarrow> last s \<noteq> c \<Longrightarrow> trim_suffix s [c] = s"
  by (cases s rule: rev_cases) (auto simp: trim_suffix_def has_suffix_def has_prefix_def)

lemma limit_found:
  assumes "0 < limit" "StripCommentsAndStrings out = a @ CHR 0x0A # limit_tail limit offset"
  shows "HasOuterRowLimit out"
proof -
  let ?l = "limit_tail limit offset"
  note edges = limit_tail_edges [OF assms(1), of offset]
  obtain z where z: "trim_space (a @ CHR 0x0A # ?l) = z @ ?l" "z = [] \<or> last z = CHR 0x0A" "trim_space (z @ ?l) = z @ ?l"
    by (rule trim_tail [OF edges(4) edges(3) edges(1)])
  have suffix: "trim_suffix (z @ ?l) '';'' = z @ ?l" using edges(4,5) by (intro trim_suffix_last) simp_all
  have "boundary (z @ ?l) (length z)"
  proof -
    have "word_at (z @ ?l) (length z)" using edges(2,4) by (simp add: word_at_def nth_append hd_conv_nth)
    moreover have "\<not> word_char (CHR 0x0A)" by code_simp
    ultimately show ?thesis using z(2) by (cases z rule: rev_cases) (auto simp: boundary_def word_at_def nth_append)
  qed
  then have "span (z @ ?l) WordB (length z) (length z)" by (rule span_bound)
  moreover have "span (z @ ?l) limit_rest (length z) (length (z @ ?l))"
    by (rule limit_tail_ends [OF assms(1), of offset, unfolded ends_with_def, rule_format]) simp_all
  ultimately have "span (z @ ?l) reTailLimit (length z) (length (z @ ?l))" unfolding limit_rest by (rule span_cat)
  then have "re_match reTailLimit (z @ ?l)" unfolding re_match_span by (intro exI [of _ "length z"] exI) auto
  then show ?thesis using z(1,3) suffix edges(4) by (simp add: HasOuterRowLimit_def assms(2) Let_def)
qed

lemma trim_both: "s \<noteq> [] \<Longrightarrow> \<not> is_space (hd s) \<Longrightarrow> \<not> is_space (last s) \<Longrightarrow> trim_space s = s"
proof -
  assume s: "s \<noteq> []" "\<not> is_space (hd s)" "\<not> is_space (last s)"
  have "dropWhile is_space s = s" using s(1,2) by (cases s) auto
  moreover have "dropWhile is_space (rev s) = rev s" using s(1,3) by (cases s rule: rev_cases) auto
  ultimately show ?thesis by (simp add: trim_space_def)
qed

lemma trim_hd: "trim_space s = s \<Longrightarrow> s \<noteq> [] \<Longrightarrow> \<not> is_space (hd s)"
proof
  assume s: "trim_space s = s" "s \<noteq> []" "is_space (hd s)"
  then have "length (dropWhile is_space s) < length s"
    by (cases s) (auto simp: less_Suc_eq_le length_dropWhile_le)
  moreover have "length (trim_space s) \<le> length (dropWhile is_space s)"
    using length_dropWhile_le [of is_space "rev (dropWhile is_space s)"] by (simp add: trim_space_def)
  ultimately show False using s(1) by simp
qed

text \<open>C39. When the row limit is added, to a query that does not end inside a string, a quoted name or a block comment, it
  is outside every comment of the query (a line comment at its end included), is recognised as the limit of the whole
  statement, and a second application adds nothing.\<close>

theorem row_limit_applied:
  assumes "ApplyRowLimit sql limit offset = (out, True)"
    and "mode_after Plain (trim_space (trim_suffix (trim_space sql) '';'')) \<in> {Plain, LineComment}"
  shows "StripCommentsAndStrings out =
      StripCommentsAndStrings (trim_space (trim_suffix (trim_space sql) '';'')) @ CHR 0x0A # limit_tail limit offset \<and>
    HasOuterRowLimit out \<and> ApplyRowLimit out limit' offset' = (out, False)"
proof -
  define t where "t = trim_space (trim_suffix (trim_space sql) '';'')"
  from assms(1) have limit: "0 < limit" and t: "t \<noteq> []" and out: "out = t @ CHR 0x0A # limit_tail limit offset"
    by (auto simp: ApplyRowLimit_def Let_def t_def [symmetric] limit_tail_def split: if_splits)
  note edges = limit_tail_edges [OF limit, of offset]
  have "strip_sql Plain (limit_tail limit offset) = limit_tail limit offset"
    using limit_tail_plain [OF limit] by (intro strip_inert) blast
  then have strip: "StripCommentsAndStrings out = StripCommentsAndStrings t @ CHR 0x0A # limit_tail limit offset"
    using assms(2) strip_append [of Plain t] by (simp add: out StripCommentsAndStrings_def t_def [symmetric])
  then have found: "HasOuterRowLimit out" by (rule limit_found [OF limit])
  have "\<not> is_space (hd t)" using t by (intro trim_hd) (simp_all add: t_def)
  then have trim: "trim_space out = out" using t edges(1,4) by (intro trim_both) (simp_all add: out)
  have "last out \<noteq> CHR '';''" "out \<noteq> []" using edges(4,5) by (simp_all add: out)
  with trim_suffix_last have "trim_suffix out '';'' = out" by blast
  with trim found have "ApplyRowLimit out limit' offset' = (out, False)" by (simp add: ApplyRowLimit_def Let_def)
  with strip found show ?thesis by (simp add: t_def)
qed

theorem row_limit_applied_witness:
  "let sql = ''select a from t -- limit 5''; out = sql @ CHR 0x0A # ''LIMIT 10'' in
   ApplyRowLimit sql 10 0 = (out, True) \<and> HasOuterRowLimit out \<and> ApplyRowLimit out 20 5 = (out, False)"
proof -
  have run: "ApplyRowLimit ''select a from t -- limit 5'' 10 0 = (''select a from t -- limit 5'' @ CHR 0x0A # ''LIMIT 10'', True)"
    by code_simp
  have "mode_after Plain (trim_space (trim_suffix (trim_space ''select a from t -- limit 5'') '';'')) \<in> {Plain, LineComment}"
    by code_simp
  from row_limit_applied [OF run this, of 20 5] run show ?thesis by (simp add: Let_def)
qed

text \<open>The checks read a text as no data base does, and each of these passes them: an index statement whose executable
  comment drops a column of the table (MySQL runs the content of such a comment), a query whose executable comment locks the
  rows it reads, and a query that calls a refused function behind the PostgreSQL operator that the check takes for a comment.\<close>

theorem sql_guard_bypassed:
  "IsAllowedIndexDDL ''ALTER TABLE t ADD INDEX i (c) /*!, DROP COLUMN d */'' \<and>
   \<not> IsAllowedIndexDDL ''ALTER TABLE t ADD INDEX i (c) , DROP COLUMN d '' \<and>
   StrictReadOnlyMySQL ''SELECT * FROM t /*! FOR UPDATE */'' = None \<and>
   StrictReadOnlyMySQL ''SELECT * FROM t FOR UPDATE '' = Some (ForbiddenClause '' for update'') \<and>
   StrictReadOnlyPostgres ''SELECT 1 # 2, lo_export(1, 2)'' = None \<and>
   StrictReadOnlyPostgres ''SELECT 1, lo_export(1, 2)'' = Some (ForbiddenFunction ''lo_export'')"
  by (intro conjI; code_simp)

theorem index_ddl_shape_witness:
  "let sql = ''CREATE INDEX i ON t (c);''; s = trim_space (sql_flat (trim_suffix (trim_space sql) '';'')) in
   IsAllowedIndexDDL sql \<and> semicolons (trim_space sql) \<le> 1 \<and> (create_form s \<or> alter_form s)"
proof -
  have "IsAllowedIndexDDL ''CREATE INDEX i ON t (c);''" by code_simp
  from index_ddl_shape [OF this] this show ?thesis by (simp add: Let_def)
qed

end
