(* ===== verification/SqlApproval.thy ===== *)
theory SqlApproval
  imports SqlText Change GoMap
begin

text \<open>
  The tickets that let a statement change a data base (\<open>cmd/server/sql_change_request.go\<close>), the direct path for index
  statements (\<open>handleMySQLExecDDL\<close> of \<open>sql_api.go\<close>), \<open>parseKillSQL\<close> and \<open>mysqlKillSession\<close> of
  \<open>sql_processlist.go\<close>, \<open>pgKillSession\<close> and \<open>driverOf\<close> of \<open>sql_pg.go\<close>, \<open>mysqlExecDDL\<close> of \<open>sql_mysql.go\<close> and
  the connections of \<open>sql_store.go\<close>. Each ticket is mirrored by a change record (\<open>Change\<close>).

  The data base is the parameter \<open>db\<close>: what it answers to a call, an error as the text the code reports. Every handler returns the calls it made. The
  EXPLAIN readings that \<open>execDDLWithExplain\<close> adds to the reply are left out. Random ticket ids and the
  clock are arguments, the configured windows and connections are the record \<open>sql_env\<close>.
\<close>

section \<open>Connections and calls\<close>

record sql_conn =
  my_ID :: string
  my_Name :: string
  my_Env :: string
  my_Enabled :: bool
  my_Driver :: string

definition GetMySQLConnection :: "sql_conn list \<Rightarrow> string \<Rightarrow> sql_conn option" where
  "GetMySQLConnection cs i = find (\<lambda>c. my_ID c = i) cs"

definition driverOf :: "sql_conn \<Rightarrow> string" where
  "driverOf c =
     (let d = to_lower (trim_space (my_Driver c)) in
      if d = ''postgres'' \<or> d = ''postgresql'' \<or> d = ''pg'' then ''postgres'' else ''mysql'')"

definition sqlConnectionEnv :: "sql_conn \<Rightarrow> string" where
  "sqlConnectionEnv c = (let env = to_lower (trim_space (my_Env c)) in if env = [] then ''prod'' else env)"

datatype db_call = KillMySQL string int | TerminatePg string int | RunDDL string string int

type_synonym db_result = "(string \<times> string) list"

datatype sql_error =
    ConnectionGone | BadKill | PostgresNoDDL | BadDDL | BadKind | ReasonTooLong | NoTicket | TicketIs string
  | OwnApproval | OwnExecution | TicketMismatch | SqlFrozen string | PostgresReadOnly | BadSqlText
  | ProdNeedsTicket | NeedsAllowExec | DbFailed string

definition parseKillSQL :: "string \<Rightarrow> int option" where
  "parseKillSQL sqlText =
     (let fields = str_fields (trim_suffix (trim_space sqlText) '';'') in
      if length fields < 2 then None
      else if \<not> equal_fold (hd fields) ''KILL'' then None
      else if (if length fields = 3 then map upper_char (fields ! 1) \<notin> {''CONNECTION'', ''QUERY''} else length fields \<noteq> 2) then None
      else case parse_int 10 (last fields) of
             None \<Rightarrow> None
           | Some i \<Rightarrow> if i \<le> 0 then None else Some i)"

definition mysqlKillSession :: "(db_call \<Rightarrow> string + db_result) \<Rightarrow> sql_conn \<Rightarrow> int \<Rightarrow> db_call list \<times> (string + db_result)" where
  "mysqlKillSession db c pid =
     (if pid \<le> 0 then ([], Inl ''invalid process id'') else ([KillMySQL (my_ID c) pid], db (KillMySQL (my_ID c) pid)))"

definition pgKillSession :: "(db_call \<Rightarrow> string + db_result) \<Rightarrow> sql_conn \<Rightarrow> int \<Rightarrow> db_call list \<times> (string + db_result)" where
  "pgKillSession db c pid =
     (if pid \<le> 0 then ([], Inl ''invalid pid'') else ([TerminatePg (my_ID c) pid], db (TerminatePg (my_ID c) pid)))"

definition mysqlExecDDL ::
    "(db_call \<Rightarrow> string + db_result) \<Rightarrow> sql_conn \<Rightarrow> string \<Rightarrow> int \<Rightarrow> db_call list \<times> (string + db_result)" where
  "mysqlExecDDL db c ddl0 timeoutSec =
     (let ddl = trim_space ddl0 in
      if ddl = [] then ([], Inl ''sql required'')
      else if \<not> IsAllowedIndexDDL ddl then ([], Inl ''index statements only'')
      else let t1 = (if timeoutSec < 5 then 30 else timeoutSec);
               t2 = (if 120 < t1 then 120 else t1);
               call = RunDDL (my_ID c) (trim_suffix ddl '';'') t2
           in ([call], db call))"

section \<open>Tickets\<close>

record sql_ticket =
  tk_ID :: string
  tk_ConnectionID :: string
  tk_Connection :: string
  tk_Environment :: string
  tk_Kind :: string
  tk_SQL :: string
  tk_Reason :: string
  tk_Status :: string
  tk_Proposer :: string
  tk_Approver :: string
  tk_Executor :: string
  tk_ChangeID :: int
  tk_CreatedAt :: int
  tk_ApprovedAt :: int
  tk_ExpiresAt :: int
  tk_ExecutedAt :: int
  tk_Error :: string
  tk_Result :: db_result

definition sqlChangeApprovalTTL :: int where
  "sqlChangeApprovalTTL = 30 * 60"

definition new_ticket :: "int \<Rightarrow> string \<Rightarrow> sql_conn \<Rightarrow> string \<Rightarrow> string \<Rightarrow> string \<Rightarrow> string \<Rightarrow> sql_ticket" where
  "new_ticket now i c sqlText reason proposer kind0 =
     (let kind = to_lower (trim_space kind0) in
      \<lparr>tk_ID = i, tk_ConnectionID = my_ID c, tk_Connection = my_Name c, tk_Environment = sqlConnectionEnv c,
       tk_Kind = (if kind = [] then ''ddl'' else kind), tk_SQL = trim_space sqlText, tk_Reason = trim_space reason,
       tk_Status = ''pending'', tk_Proposer = proposer, tk_Approver = [], tk_Executor = [], tk_ChangeID = 0,
       tk_CreatedAt = now, tk_ApprovedAt = 0, tk_ExpiresAt = 0, tk_ExecutedAt = 0, tk_Error = [], tk_Result = []\<rparr>)"

definition sqlCreate ::
    "int \<Rightarrow> string \<Rightarrow> sql_conn \<Rightarrow> string \<Rightarrow> string \<Rightarrow> string \<Rightarrow> string \<Rightarrow> sql_ticket go_map \<Rightarrow> sql_ticket go_map \<times> sql_ticket" where
  "sqlCreate now i c sqlText reason proposer kind m =
     (let cr = new_ticket now i c sqlText reason proposer kind in (AList.update i cr m, cr))"

definition expireLocked :: "int \<Rightarrow> sql_ticket \<Rightarrow> sql_ticket" where
  "expireLocked now cr =
     (if tk_Status cr = ''approved'' \<and> 0 < tk_ExpiresAt cr \<and> tk_ExpiresAt cr \<le> now then cr\<lparr>tk_Status := ''expired''\<rparr> else cr)"

text \<open>The listing also expires what it visits.\<close>

definition sqlList :: "int \<Rightarrow> sql_ticket go_map \<Rightarrow> sql_ticket go_map \<times> sql_ticket list" where
  "sqlList now m =
     (let m1 = map_values (expireLocked now) m in (m1, sort_key (\<lambda>t. - tk_CreatedAt t) (map snd m1)))"

definition renamed :: "string \<Rightarrow> string \<Rightarrow> string \<Rightarrow> string" where
  "renamed oldName newName x = (if x = oldName then newName else x)"

definition RenameActor :: "string \<Rightarrow> string \<Rightarrow> sql_ticket go_map \<Rightarrow> sql_ticket go_map" where
  "RenameActor oldName newName m =
     (if oldName = [] \<or> newName = [] \<or> oldName = newName then m
      else map_values (\<lambda>cr. cr\<lparr>tk_Proposer := renamed oldName newName (tk_Proposer cr),
             tk_Approver := renamed oldName newName (tk_Approver cr),
             tk_Executor := renamed oldName newName (tk_Executor cr)\<rparr>) m)"

definition SetChangeID :: "string \<Rightarrow> int \<Rightarrow> sql_ticket go_map \<Rightarrow> sql_ticket go_map" where
  "SetChangeID i changeID m =
     (case map_of m i of None \<Rightarrow> m | Some cr \<Rightarrow> AList.update i (cr\<lparr>tk_ChangeID := changeID\<rparr>) m)"

definition sqlGet :: "int \<Rightarrow> string \<Rightarrow> sql_ticket go_map \<Rightarrow> sql_ticket go_map \<times> sql_ticket option" where
  "sqlGet now i m =
     (case map_of m i of None \<Rightarrow> (m, None)
      | Some cr \<Rightarrow> (AList.update i (expireLocked now cr) m, Some (expireLocked now cr)))"

definition sqlApprove ::
    "int \<Rightarrow> string \<Rightarrow> string \<Rightarrow> sql_ticket go_map \<Rightarrow> sql_ticket go_map \<times> (sql_error + sql_ticket)" where
  "sqlApprove now i approver m =
     (case map_of m i of None \<Rightarrow> (m, Inl NoTicket)
      | Some cr \<Rightarrow>
          if tk_Status cr \<noteq> ''pending'' then (m, Inl (TicketIs (tk_Status cr)))
          else let cr1 = cr\<lparr>tk_Status := ''approved'', tk_Approver := approver, tk_ApprovedAt := now,
                            tk_ExpiresAt := now + sqlChangeApprovalTTL\<rparr>
               in (AList.update i cr1 m, Inr cr1))"

definition sqlReject ::
    "int \<Rightarrow> string \<Rightarrow> string \<Rightarrow> sql_ticket go_map \<Rightarrow> sql_ticket go_map \<times> (sql_error + sql_ticket)" where
  "sqlReject now i approver m =
     (case map_of m i of None \<Rightarrow> (m, Inl NoTicket)
      | Some cr0 \<Rightarrow>
          let cr = expireLocked now cr0 in
          if tk_Status cr \<noteq> ''pending'' \<and> tk_Status cr \<noteq> ''approved''
          then (AList.update i cr m, Inl (TicketIs (tk_Status cr)))
          else let cr1 = cr\<lparr>tk_Status := ''rejected'', tk_Approver := approver, tk_ExpiresAt := 0\<rparr>
               in (AList.update i cr1 m, Inr cr1))"

definition BeginExecute ::
    "int \<Rightarrow> string \<Rightarrow> string \<Rightarrow> string \<Rightarrow> string \<Rightarrow> sql_ticket go_map \<Rightarrow> sql_ticket go_map \<times> (sql_error + sql_ticket)" where
  "BeginExecute now i connectionID sqlText executor m =
     (case map_of m i of None \<Rightarrow> (m, Inl NoTicket)
      | Some cr0 \<Rightarrow>
          let cr = expireLocked now cr0; m1 = AList.update i cr m in
          if tk_Status cr \<noteq> ''approved'' then (m1, Inl (TicketIs (tk_Status cr)))
          else if tk_ConnectionID cr \<noteq> connectionID \<or> tk_SQL cr \<noteq> trim_space sqlText then (m1, Inl TicketMismatch)
          else let cr1 = cr\<lparr>tk_Status := ''executing'', tk_Executor := executor\<rparr> in (AList.update i cr1 m, Inr cr1))"

definition blank_ticket :: sql_ticket where
  "blank_ticket = \<lparr>tk_ID = [], tk_ConnectionID = [], tk_Connection = [], tk_Environment = [], tk_Kind = [], tk_SQL = [], tk_Reason = [],
     tk_Status = [], tk_Proposer = [], tk_Approver = [], tk_Executor = [], tk_ChangeID = 0, tk_CreatedAt = 0, tk_ApprovedAt = 0,
     tk_ExpiresAt = 0, tk_ExecutedAt = 0, tk_Error = [], tk_Result = []\<rparr>"

definition FinishExecute ::
    "int \<Rightarrow> string \<Rightarrow> (string + db_result) \<Rightarrow> sql_ticket go_map \<Rightarrow> sql_ticket go_map \<times> sql_ticket" where
  "FinishExecute now i outcome m =
     (case map_of m i of None \<Rightarrow> (m, blank_ticket)
      | Some cr0 \<Rightarrow>
          let cr = cr0\<lparr>tk_ExecutedAt := now\<rparr>;
              cr1 = (case outcome of Inl e \<Rightarrow> cr\<lparr>tk_Status := ''failed'', tk_Error := e\<rparr>
                     | Inr r \<Rightarrow> cr\<lparr>tk_Status := ''executed'', tk_Result := r\<rparr>)
          in (AList.update i cr1 m, cr1))"

section \<open>The change record of a ticket\<close>

record sql_desk =
  sd_items :: "sql_ticket go_map"
  sd_changes :: change_mgr

definition truncateRunes :: "string \<Rightarrow> nat \<Rightarrow> string" where
  "truncateRunes s n = (if rune_count s \<le> n then s else take_runes n s @ ellipsis)"

definition firstNonEmpty :: "string list \<Rightarrow> string" where
  "firstNonEmpty ss = (case find (\<lambda>s. trim_space s \<noteq> []) ss of None \<Rightarrow> [] | Some s \<Rightarrow> s)"

definition bridgeSQLChangeToRecord :: "int \<Rightarrow> sql_ticket \<Rightarrow> string \<Rightarrow> change_mgr \<Rightarrow> change_mgr \<times> change_record" where
  "bridgeSQLChangeToRecord now cr status m =
     (let title = ''SQL '' @ map upper_char (firstNonEmptyOrDash [tk_Kind cr, ''ddl'']) @ utf8_text [0x20, 0xC2, 0xB7, 0x20] @
            firstNonEmptyOrDash [tk_Connection cr, tk_ConnectionID cr];
          summary = firstNonEmptyOrDash [tk_Reason cr, truncateRunes (tk_SQL cr) 120];
          risk = (if tk_Environment cr = ''prod'' \<or> tk_Kind cr = ''kill'' then ''high'' else ''medium'')
      in UpsertFromSQLChange now (tk_ID cr) title summary ''sql'' risk (tk_Proposer cr) status m)"

text \<open>A transition tried during the synchronisation, and the status the record has after it.\<close>

definition try_transition :: "int \<Rightarrow> int \<Rightarrow> string \<Rightarrow> string \<Rightarrow> change_mgr \<times> string \<Rightarrow> change_mgr \<times> string" where
  "try_transition now i action actor ms =
     (case Transition now i action actor False (fst ms) of
        (m1, Inr out) \<Rightarrow> (m1, normalizeChangeStatus (cr_status out))
      | (m1, Inl _) \<Rightarrow> (m1, case changeGet m1 i of Some got \<Rightarrow> normalizeChangeStatus (cr_status got) | None \<Rightarrow> snd ms))"

definition record_waits :: "string \<Rightarrow> bool" where
  "record_waits st \<longleftrightarrow> st = ''pending_approval'' \<or> st = ''draft''"

definition executed_transitions :: "int \<Rightarrow> int \<Rightarrow> string \<Rightarrow> string \<Rightarrow> string \<Rightarrow> change_mgr \<Rightarrow> change_mgr" where
  "executed_transitions now i approver actor st m =
     (let a = (if record_waits st then try_transition now i ''approve'' approver (m, st) else (m, st));
          b = (if snd a = ''approved'' \<or> snd a = ''scheduled'' then try_transition now i ''start'' actor a else a)
      in if snd b = ''in_progress'' then fst (Transition now i ''complete'' actor False (fst b)) else fst b)"

definition syncSQLChangeRecordStatus :: "int \<Rightarrow> sql_ticket \<Rightarrow> string \<Rightarrow> sql_desk \<Rightarrow> sql_desk" where
  "syncSQLChangeRecordStatus now cr actor S =
     (if tk_ID cr = [] then S
      else let (m1, rec) = bridgeSQLChangeToRecord now cr [] (sd_changes S) in
      if cr_id rec = 0 then S\<lparr>sd_changes := m1\<rparr>
      else let i = cr_id rec; st = normalizeChangeStatus (cr_status rec);
               m2 = (if tk_Status cr = ''approved'' then (if record_waits st then fst (Transition now i ''approve'' actor False m1) else m1)
                     else if tk_Status cr = ''rejected'' then (if record_waits st then fst (Transition now i ''reject'' actor False m1) else m1)
                     else if tk_Status cr \<in> {''executed'', ''done'', ''completed''}
                     then executed_transitions now i (firstNonEmpty [tk_Approver cr, actor]) actor st m1
                     else m1)
           in S\<lparr>sd_items := SetChangeID (tk_ID cr) i (sd_items S), sd_changes := m2\<rparr>)"

section \<open>The handlers\<close>

record sql_env =
  sv_conns :: "sql_conn list"
  sv_clock :: clock
  sv_windows :: "change_window list"

definition ticket_kind :: "string \<Rightarrow> string \<Rightarrow> string" where
  "ticket_kind kind0 sqlText =
     (let kind = to_lower (trim_space kind0) in
      if kind = [] then (if parseKillSQL sqlText \<noteq> None then ''kill'' else ''ddl'') else kind)"

definition kind_error :: "sql_conn \<Rightarrow> string \<Rightarrow> string \<Rightarrow> sql_error option" where
  "kind_error c kind sqlText =
     (if kind = ''kill'' then (if parseKillSQL sqlText = None \<or> 128 < length sqlText then Some BadKill else None)
      else if kind = ''ddl'' then
        (if driverOf c = ''postgres'' then Some PostgresNoDDL
         else if sqlText = [] \<or> 16 * 1024 < length sqlText \<or> \<not> IsAllowedIndexDDL sqlText then Some BadDDL else None)
      else Some BadKind)"

definition handleCreateSQLChangeRequest ::
    "sql_env \<Rightarrow> int \<Rightarrow> string \<Rightarrow> string \<Rightarrow> string \<Rightarrow> string \<Rightarrow> string \<Rightarrow> string \<Rightarrow> sql_desk \<Rightarrow> sql_desk \<times> (sql_error + sql_ticket)" where
  "handleCreateSQLChangeRequest v now newID connectionID sql0 reason kind0 actor S =
     (case GetMySQLConnection (sv_conns v) (trim_space connectionID) of
        None \<Rightarrow> (S, Inl ConnectionGone)
      | Some c \<Rightarrow>
          if \<not> my_Enabled c then (S, Inl ConnectionGone)
          else let sqlText = trim_space sql0; kind = ticket_kind kind0 sqlText in
          case kind_error c kind sqlText of Some e \<Rightarrow> (S, Inl e)
          | None \<Rightarrow>
              if 2000 < length reason then (S, Inl ReasonTooLong)
              else let (items, cr) = sqlCreate now newID c sqlText reason actor kind (sd_items S);
                       (m1, rec) = bridgeSQLChangeToRecord now cr ''pending_approval'' (sd_changes S)
                   in if 0 < cr_id rec
                      then (\<lparr>sd_items = SetChangeID (tk_ID cr) (cr_id rec) items, sd_changes = m1\<rparr>, Inr (cr\<lparr>tk_ChangeID := cr_id rec\<rparr>))
                      else (\<lparr>sd_items = items, sd_changes = m1\<rparr>, Inr cr))"

definition own_ticket :: "sql_ticket go_map \<Rightarrow> string \<Rightarrow> string \<Rightarrow> bool" where
  "own_ticket m i who \<longleftrightarrow>
     (case map_of m i of None \<Rightarrow> False | Some t \<Rightarrow> equal_fold (trim_space (tk_Proposer t)) (trim_space who))"

definition fresh_copy :: "int \<Rightarrow> sql_ticket \<Rightarrow> sql_desk \<Rightarrow> sql_desk \<times> sql_ticket" where
  "fresh_copy now cr S =
     (case sqlGet now (tk_ID cr) (sd_items S) of
        (m, Some cr2) \<Rightarrow> (S\<lparr>sd_items := m\<rparr>, cr2)
      | (m, None) \<Rightarrow> (S\<lparr>sd_items := m\<rparr>, cr))"

definition handleApproveSQLChangeRequest ::
    "int \<Rightarrow> string \<Rightarrow> string \<Rightarrow> sql_desk \<Rightarrow> sql_desk \<times> (sql_error + sql_ticket)" where
  "handleApproveSQLChangeRequest now pathID approver S =
     (let i = trim_space pathID; (m0, _) = sqlList now (sd_items S) in
      if own_ticket m0 i approver then (S\<lparr>sd_items := m0\<rparr>, Inl OwnApproval)
      else case sqlApprove now i approver m0 of
             (m1, Inl e) \<Rightarrow> (S\<lparr>sd_items := m1\<rparr>, Inl e)
           | (m1, Inr cr) \<Rightarrow>
               (let (S2, cr2) = fresh_copy now cr (syncSQLChangeRecordStatus now cr approver (S\<lparr>sd_items := m1\<rparr>)) in (S2, Inr cr2)))"

definition handleRejectSQLChangeRequest ::
    "int \<Rightarrow> string \<Rightarrow> string \<Rightarrow> sql_desk \<Rightarrow> sql_desk \<times> (sql_error + sql_ticket)" where
  "handleRejectSQLChangeRequest now pathID actor S =
     (case sqlReject now (trim_space pathID) actor (sd_items S) of
        (m1, Inl e) \<Rightarrow> (S\<lparr>sd_items := m1\<rparr>, Inl e)
      | (m1, Inr cr) \<Rightarrow>
          (let (S2, cr2) = fresh_copy now cr (syncSQLChangeRecordStatus now cr actor (S\<lparr>sd_items := m1\<rparr>)) in (S2, Inr cr2)))"

text \<open>The execution in three parts, as the code runs it: the checks on a copy of the ticket, the call of the data base
  after \<open>BeginExecute\<close>, and what follows \<open>FinishExecute\<close>. Other requests may run in between.\<close>

record exec_request =
  er_ticketID :: string
  er_connectionID :: string
  er_sql :: string
  er_timeoutSec :: int
  er_executor :: string

definition execute_checks ::
    "sql_env \<Rightarrow> int \<Rightarrow> exec_request \<Rightarrow> sql_ticket go_map \<Rightarrow> sql_error + (sql_ticket \<times> sql_conn)" where
  "execute_checks v now q m =
     (case map_of m (er_ticketID q) of
        None \<Rightarrow> Inl NoTicket
      | Some t \<Rightarrow>
          if equal_fold (trim_space (tk_Proposer t)) (trim_space (er_executor q)) then Inl OwnExecution
          else if er_connectionID q \<noteq> [] \<and> (tk_ConnectionID t \<noteq> er_connectionID q \<or> tk_SQL t \<noteq> trim_space (er_sql q))
          then Inl TicketMismatch
          else case GetMySQLConnection (sv_conns v) (tk_ConnectionID t) of
                 None \<Rightarrow> Inl ConnectionGone
               | Some c \<Rightarrow>
                   if \<not> my_Enabled c then Inl ConnectionGone
                   else case activeFreezeWindow (sv_clock v) (sv_windows v) [] ''sql'' now of
                          Some w \<Rightarrow> if tk_Kind t \<noteq> ''kill'' then Inl (SqlFrozen (cw_name w)) else Inr (t, c)
                        | None \<Rightarrow> Inr (t, c))"

definition execute_call ::
    "(db_call \<Rightarrow> string + db_result) \<Rightarrow> sql_conn \<Rightarrow> sql_ticket \<Rightarrow> int \<Rightarrow> db_call list \<times> (string + db_result)" where
  "execute_call db c cr timeoutSec =
     (if tk_Kind cr = ''kill'' then
        (case parseKillSQL (tk_SQL cr) of
           None \<Rightarrow> ([], Inl ''invalid KILL statement'')
         | Some pid \<Rightarrow>
             if driverOf c = ''postgres''
             then map_prod id (map_sum id (\<lambda>_. [(''killed'', show_int pid), (''via'', ''pg_terminate_backend'')])) (pgKillSession db c pid)
             else map_prod id (map_sum id (\<lambda>_. [(''killed'', show_int pid)])) (mysqlKillSession db c pid))
      else if driverOf c = ''postgres'' then ([], Inl ''PostgreSQL has no DDL tickets'')
      else mysqlExecDDL db c (tk_SQL cr) timeoutSec)"

definition execute_end :: "int \<Rightarrow> string \<Rightarrow> string \<Rightarrow> string + db_result \<Rightarrow> sql_desk \<Rightarrow> sql_desk \<times> (sql_error + sql_ticket)" where
  "execute_end now i executor outcome S =
     (let (m, cr) = FinishExecute now i outcome (sd_items S);
          S1 = S\<lparr>sd_items := m\<rparr>;
          (S2, cr2) = (if tk_Status cr = ''executed'' then fresh_copy now cr (syncSQLChangeRecordStatus now cr executor S1) else (S1, cr))
      in (S2, case outcome of Inl e \<Rightarrow> Inl (DbFailed e) | Inr _ \<Rightarrow> Inr cr2))"

definition executeSQLChangeRequest ::
    "(db_call \<Rightarrow> string + db_result) \<Rightarrow> sql_env \<Rightarrow> int \<Rightarrow> int \<Rightarrow> exec_request \<Rightarrow> sql_desk \<Rightarrow>
     sql_desk \<times> db_call list \<times> (sql_error + sql_ticket)" where
  "executeSQLChangeRequest db v now later q S =
     (let m0 = fst (sqlList now (sd_items S)) in
      case execute_checks v now q m0 of
        Inl e \<Rightarrow> (S\<lparr>sd_items := m0\<rparr>, [], Inl e)
      | Inr (t, c) \<Rightarrow>
          (case BeginExecute now (er_ticketID q) (my_ID c) (tk_SQL t) (er_executor q) m0 of
             (m1, Inl e) \<Rightarrow> (S\<lparr>sd_items := m1\<rparr>, [], Inl e)
           | (m1, Inr cr) \<Rightarrow>
               (let (calls, outcome) = execute_call db c cr (er_timeoutSec q);
                    (S2, reply) = execute_end later (er_ticketID q) (er_executor q) outcome (S\<lparr>sd_items := m1\<rparr>)
                in (S2, calls, reply))))"

definition handleExecuteSQLChangeRequest ::
    "(db_call \<Rightarrow> string + db_result) \<Rightarrow> sql_env \<Rightarrow> int \<Rightarrow> int \<Rightarrow> string \<Rightarrow> int \<Rightarrow> string \<Rightarrow> sql_desk \<Rightarrow>
     sql_desk \<times> db_call list \<times> (sql_error + sql_ticket)" where
  "handleExecuteSQLChangeRequest db v now later pathID timeoutSec actor S =
     executeSQLChangeRequest db v now later
       \<lparr>er_ticketID = trim_space pathID, er_connectionID = [], er_sql = [], er_timeoutSec = timeoutSec, er_executor = actor\<rparr> S"

datatype ddl_reply = ByTicket sql_ticket | Direct db_result

definition handleMySQLExecDDL ::
    "(db_call \<Rightarrow> string + db_result) \<Rightarrow> sql_env \<Rightarrow> int \<Rightarrow> int \<Rightarrow> string \<Rightarrow> string \<Rightarrow> int \<Rightarrow> bool \<Rightarrow> string \<Rightarrow> string \<Rightarrow> sql_desk \<Rightarrow>
     sql_desk \<times> db_call list \<times> (sql_error + ddl_reply)" where
  "handleMySQLExecDDL db v now later pathID sql0 timeoutSec allowExec ticketID0 actor S =
     (case GetMySQLConnection (sv_conns v) (trim_space pathID) of
        None \<Rightarrow> (S, [], Inl ConnectionGone)
      | Some c \<Rightarrow>
          if \<not> my_Enabled c then (S, [], Inl ConnectionGone)
          else if driverOf c = ''postgres'' then (S, [], Inl PostgresReadOnly)
          else let sqlText = trim_space sql0 in
          if sqlText = [] \<or> 16 * 1024 < length sqlText then (S, [], Inl BadSqlText)
          else if \<not> IsAllowedIndexDDL sqlText then (S, [], Inl BadDDL)
          else case activeFreezeWindow (sv_clock v) (sv_windows v) [] ''sql'' now of
                 Some w \<Rightarrow> (S, [], Inl (SqlFrozen (cw_name w)))
               | None \<Rightarrow>
                   let ticketID = trim_space ticketID0 in
                   if ticketID \<noteq> [] then
                     map_prod id (map_prod id (map_sum id ByTicket)) (executeSQLChangeRequest db v now later
                       \<lparr>er_ticketID = ticketID, er_connectionID = my_ID c, er_sql = sqlText, er_timeoutSec = timeoutSec,
                        er_executor = actor\<rparr> S)
                   else if sqlConnectionEnv c = ''prod'' then (S, [], Inl ProdNeedsTicket)
                   else if \<not> allowExec then (S, [], Inl NeedsAllowExec)
                   else (case mysqlExecDDL db c sqlText timeoutSec of
                           (calls, Inl e) \<Rightarrow> (S, calls, Inl (DbFailed e))
                         | (calls, Inr r) \<Rightarrow> (S, calls, Inr (Direct r))))"

end
