(* ===== verification/SqlTickets.thy ===== *)
theory SqlTickets
  imports SqlApproval
begin

text \<open>
  What the approval of SQL changes guarantees, for every interleaving of the requests: an execution is three steps
  (checks, \<open>BeginExecute\<close> with the call, \<open>FinishExecute\<close>) and any other request may run between them.
  Renaming an account during an execution is not part of these runs.
\<close>

section \<open>Runs\<close>

record sql_run =
  sr_desk :: sql_desk
  sr_waiting :: "(int \<times> exec_request \<times> sql_ticket \<times> sql_conn) list"
  sr_running :: "(exec_request \<times> sql_conn \<times> sql_ticket) list"
  sr_asked :: "sql_ticket list"
  sr_approved :: "(string \<times> string \<times> int) list"
  sr_begun :: "(sql_ticket \<times> sql_conn \<times> int) list"

definition sql_start :: sql_run where
  "sql_start = \<lparr>sr_desk = \<lparr>sd_items = [], sd_changes = newChangeManager\<rparr>, sr_waiting = [], sr_running = [],
     sr_asked = [], sr_approved = [], sr_begun = []\<rparr>"

datatype sql_event =
    Propose int string string string string string string
  | Approve int string string
  | Reject int string string
  | Listing int
  | Arrive int exec_request
  | Begin nat
  | Finish nat int "string + db_result"

fun sql_step :: "sql_env \<Rightarrow> sql_run \<Rightarrow> sql_event \<Rightarrow> sql_run" where
  "sql_step v R (Propose now i connectionID sqlText reason kind actor) =
     (case handleCreateSQLChangeRequest v now i connectionID sqlText reason kind actor (sr_desk R) of
        (S, Inl e) \<Rightarrow> R\<lparr>sr_desk := S\<rparr>
      | (S, Inr cr) \<Rightarrow> R\<lparr>sr_desk := S, sr_asked := cr # sr_asked R\<rparr>)"
| "sql_step v R (Approve now pathID who) =
     (case handleApproveSQLChangeRequest now pathID who (sr_desk R) of
        (S, Inl e) \<Rightarrow> R\<lparr>sr_desk := S\<rparr>
      | (S, Inr cr) \<Rightarrow> R\<lparr>sr_desk := S, sr_approved := (trim_space pathID, who, now) # sr_approved R\<rparr>)"
| "sql_step v R (Reject now pathID who) =
     R\<lparr>sr_desk := fst (handleRejectSQLChangeRequest now pathID who (sr_desk R))\<rparr>"
| "sql_step v R (Listing now) = R\<lparr>sr_desk := (sr_desk R)\<lparr>sd_items := fst (sqlList now (sd_items (sr_desk R)))\<rparr>\<rparr>"
| "sql_step v R (Arrive now q) =
     (let S = sr_desk R; m = fst (sqlList now (sd_items S)) in
      case execute_checks v now q m of
        Inl e \<Rightarrow> R\<lparr>sr_desk := S\<lparr>sd_items := m\<rparr>\<rparr>
      | Inr (t, c) \<Rightarrow> R\<lparr>sr_desk := S\<lparr>sd_items := m\<rparr>, sr_waiting := sr_waiting R @ [(now, q, t, c)]\<rparr>)"
| "sql_step v R (Begin n) =
     (if n < length (sr_waiting R)
      then let (now, q, t, c) = sr_waiting R ! n; S = sr_desk R;
               R1 = R\<lparr>sr_waiting := take n (sr_waiting R) @ drop (Suc n) (sr_waiting R)\<rparr>
           in (case BeginExecute now (er_ticketID q) (my_ID c) (tk_SQL t) (er_executor q) (sd_items S) of
                 (m, Inl e) \<Rightarrow> R1\<lparr>sr_desk := S\<lparr>sd_items := m\<rparr>\<rparr>
               | (m, Inr cr) \<Rightarrow> R1\<lparr>sr_desk := S\<lparr>sd_items := m\<rparr>, sr_running := sr_running R @ [(q, c, cr)],
                                   sr_begun := (cr, c, now) # sr_begun R\<rparr>)
      else R)"
| "sql_step v R (Finish n now outcome) =
     (if n < length (sr_running R)
      then let (q, c, cr) = sr_running R ! n in
           R\<lparr>sr_desk := fst (execute_end now (er_ticketID q) (er_executor q) outcome (sr_desk R)),
             sr_running := take n (sr_running R) @ drop (Suc n) (sr_running R)\<rparr>
      else R)"

text \<open>Ids of new tickets are fresh (they are random) and the clock is not before 1970.\<close>

fun sql_ok :: "sql_run \<Rightarrow> sql_event \<Rightarrow> bool" where
  "sql_ok R (Propose now i _ _ _ _ _) \<longleftrightarrow> i \<notin> fst ` set (sd_items (sr_desk R))"
| "sql_ok R (Approve now _ _) \<longleftrightarrow> 0 \<le> now"
| "sql_ok R _ \<longleftrightarrow> True"

section \<open>What is kept\<close>

definition differ :: "string \<Rightarrow> string \<Rightarrow> bool" where
  "differ a b \<longleftrightarrow> \<not> equal_fold (trim_space a) (trim_space b)"

definition busy :: "sql_ticket \<Rightarrow> bool" where
  "busy t \<longleftrightarrow> tk_Status t \<in> {''executing'', ''executed'', ''failed''}"

text \<open>Two states of a ticket that say the same of what was proposed.\<close>

definition same_proposal :: "sql_ticket \<Rightarrow> sql_ticket \<Rightarrow> bool" where
  "same_proposal a b \<longleftrightarrow> tk_ID a = tk_ID b \<and> tk_ConnectionID a = tk_ConnectionID b \<and> tk_Kind a = tk_Kind b \<and>
     tk_SQL a = tk_SQL b \<and> tk_Proposer a = tk_Proposer b"

text \<open>A statement the checks at the proposal let through.\<close>

definition checked_proposal :: "sql_ticket \<Rightarrow> bool" where
  "checked_proposal t \<longleftrightarrow> tk_Kind t = ''kill'' \<and> parseKillSQL (tk_SQL t) \<noteq> None \<or> tk_Kind t = ''ddl'' \<and> IsAllowedIndexDDL (tk_SQL t)"

definition approval_of :: "(string \<times> string \<times> int) list \<Rightarrow> sql_ticket \<Rightarrow> int \<Rightarrow> bool" where
  "approval_of as t now \<longleftrightarrow>
     (\<exists>a at0. (tk_ID t, a, at0) \<in> set as \<and> differ (tk_Proposer t) a \<and> now < at0 + sqlChangeApprovalTTL)"

type_synonym waiting = "int \<times> exec_request \<times> sql_ticket \<times> sql_conn"

definition ticket_inv :: "sql_ticket list \<Rightarrow> (string \<times> string \<times> int) list \<Rightarrow> string set \<Rightarrow> string \<Rightarrow> sql_ticket \<Rightarrow> bool" where
  "ticket_inv A P used k t \<longleftrightarrow> tk_ID t = k \<and> checked_proposal t \<and> (\<exists>a\<in>set A. same_proposal a t) \<and>
     (tk_Status t = ''approved'' \<longrightarrow>
       (\<exists>a at0. (k, a, at0) \<in> set P \<and> differ (tk_Proposer t) a \<and> tk_ExpiresAt t = at0 + sqlChangeApprovalTTL \<and> 0 < tk_ExpiresAt t)) \<and>
     (k \<in> used \<longrightarrow> busy t)"

definition begun_inv :: "sql_ticket list \<Rightarrow> (string \<times> string \<times> int) list \<Rightarrow> sql_ticket \<times> sql_conn \<times> int \<Rightarrow> bool" where
  "begun_inv A P b \<longleftrightarrow> (case b of (cr, c, now) \<Rightarrow>
     (\<exists>a\<in>set A. same_proposal a cr) \<and> checked_proposal cr \<and> my_ID c = tk_ConnectionID cr \<and>
     differ (tk_Proposer cr) (tk_Executor cr) \<and> approval_of P cr now)"

definition waiting_inv :: "sql_ticket go_map \<Rightarrow> waiting \<Rightarrow> bool" where
  "waiting_inv m w \<longleftrightarrow> (case w of (now, q, t, c) \<Rightarrow>
     (\<exists>t'. map_of m (er_ticketID q) = Some t' \<and> same_proposal t t') \<and> differ (tk_Proposer t) (er_executor q) \<and>
     my_ID c = tk_ConnectionID t)"

definition desk_inv ::
    "sql_ticket go_map \<Rightarrow> waiting list \<Rightarrow> sql_ticket list \<Rightarrow> (string \<times> string \<times> int) list \<Rightarrow> (sql_ticket \<times> sql_conn \<times> int) list \<Rightarrow> bool" where
  "desk_inv m W A P B \<longleftrightarrow> keys_distinct m \<and>
     (\<forall>k t. map_of m k = Some t \<longrightarrow> ticket_inv A P (tk_ID ` fst ` set B) k t) \<and>
     (\<forall>w\<in>set W. waiting_inv m w) \<and>
     distinct (map (tk_ID \<circ> fst) B) \<and> tk_ID ` fst ` set B \<subseteq> dom (map_of m) \<and> (\<forall>b\<in>set B. begun_inv A P b)"

lemma desk_invD:
  assumes "desk_inv m W A P B"
  shows "keys_distinct m" "map_of m k = Some t \<Longrightarrow> ticket_inv A P (tk_ID ` fst ` set B) k t" "w \<in> set W \<Longrightarrow> waiting_inv m w"
    "distinct (map (tk_ID \<circ> fst) B)" "tk_ID ` fst ` set B \<subseteq> dom (map_of m)" "b \<in> set B \<Longrightarrow> begun_inv A P b"
  using assms unfolding desk_inv_def by blast+

lemma desk_invI:
  assumes "keys_distinct m" "\<And>k t. map_of m k = Some t \<Longrightarrow> ticket_inv A P (tk_ID ` fst ` set B) k t" "\<And>w. w \<in> set W \<Longrightarrow> waiting_inv m w"
    "distinct (map (tk_ID \<circ> fst) B)" "tk_ID ` fst ` set B \<subseteq> dom (map_of m)" "\<And>b. b \<in> set B \<Longrightarrow> begun_inv A P b"
  shows "desk_inv m W A P B"
  using assms unfolding desk_inv_def by blast

text \<open>What every operation but a proposal and an approval does to a ticket.\<close>

definition mild :: "sql_ticket \<Rightarrow> sql_ticket \<Rightarrow> bool" where
  "mild t t' \<longleftrightarrow> same_proposal t t' \<and> (tk_Status t' = ''approved'' \<longrightarrow> tk_Status t = ''approved'' \<and> tk_ExpiresAt t' = tk_ExpiresAt t) \<and>
     (busy t \<longrightarrow> busy t')"

definition evolves :: "sql_ticket go_map \<Rightarrow> sql_ticket go_map \<Rightarrow> bool" where
  "evolves m m' \<longleftrightarrow> (keys_distinct m \<longrightarrow> keys_distinct m') \<and>
     (\<forall>k. case map_of m k of None \<Rightarrow> map_of m' k = None | Some t \<Rightarrow> \<exists>t'. map_of m' k = Some t' \<and> mild t t')"

lemma same_proposal_refl [simp]: "same_proposal t t"
  by (simp add: same_proposal_def)

lemma same_proposal_trans: "same_proposal a b \<Longrightarrow> same_proposal b c \<Longrightarrow> same_proposal a c"
  by (simp add: same_proposal_def)

lemma same_proposal_sym: "same_proposal a b \<Longrightarrow> same_proposal b a"
  by (simp add: same_proposal_def)

lemma mild_refl [simp]: "mild t t"
  by (simp add: mild_def)

lemma mild_trans: "mild a b \<Longrightarrow> mild b c \<Longrightarrow> mild a c"
  by (auto simp: mild_def intro: same_proposal_trans)

lemma evolves_refl [simp]: "evolves m m"
  by (simp add: evolves_def split: option.split)

lemma evolves_trans: "evolves a b \<Longrightarrow> evolves b c \<Longrightarrow> evolves a c"
  unfolding evolves_def
proof (intro conjI allI impI, goal_cases)
  case (2 k)
  then have "case map_of a k of None \<Rightarrow> map_of b k = None | Some t \<Rightarrow> \<exists>t'. map_of b k = Some t' \<and> mild t t'"
    "case map_of b k of None \<Rightarrow> map_of c k = None | Some t \<Rightarrow> \<exists>t'. map_of c k = Some t' \<and> mild t t'" by blast+
  then show ?case by (auto split: option.splits intro: mild_trans)
qed simp

lemma evolves_update: "map_of m k = Some t \<Longrightarrow> mild t t' \<Longrightarrow> evolves m (AList.update k t' m)"
  by (auto simp: evolves_def update_conv' distinct_update split: option.split)

lemma evolves_values: "(\<And>t. mild t (f t)) \<Longrightarrow> evolves m (map_values f m)"
  by (auto simp: evolves_def map_of_map_values split: option.split)

lemma mild_expire [simp]: "mild t (expireLocked now t)"
  by (simp add: mild_def expireLocked_def same_proposal_def busy_def)

lemma evolves_list [simp]: "evolves m (fst (sqlList now m))"
  by (simp add: sqlList_def Let_def evolves_values)

lemma evolves_get: "sqlGet now k m = (m', r) \<Longrightarrow> evolves m m'"
  by (auto simp: sqlGet_def intro: evolves_update split: option.splits)

lemma evolves_change_id [simp]: "evolves m (SetChangeID k i m)"
  by (auto simp: SetChangeID_def mild_def same_proposal_def busy_def intro!: evolves_update split: option.split)

lemma evolves_reject: "sqlReject now k who m = (m', r) \<Longrightarrow> evolves m m'"
  by (auto simp: sqlReject_def Let_def expireLocked_def mild_def same_proposal_def busy_def intro!: evolves_update split: option.splits if_splits)

lemma evolves_finish: "FinishExecute now k outcome m = (m', r) \<Longrightarrow> evolves m m'"
  by (auto simp: FinishExecute_def Let_def mild_def same_proposal_def busy_def intro!: evolves_update split: option.splits sum.splits)

lemma evolves_begin: "BeginExecute now k c q who m = (m', r) \<Longrightarrow> evolves m m'"
  by (auto simp: BeginExecute_def Let_def expireLocked_def mild_def same_proposal_def busy_def intro!: evolves_update split: option.splits if_splits)

lemma evolves_sync [simp]: "evolves (sd_items S) (sd_items (syncSQLChangeRecordStatus now cr who S))"
  by (simp add: syncSQLChangeRecordStatus_def Let_def split: prod.split)

lemma evolves_copy: "fresh_copy now cr S = (S', r) \<Longrightarrow> evolves (sd_items S) (sd_items S')"
  by (auto simp: fresh_copy_def dest: evolves_get split: prod.splits option.splits)

lemma evolves_at: "evolves m m' \<Longrightarrow> map_of m k = Some t \<Longrightarrow> \<exists>t'. map_of m' k = Some t' \<and> mild t t'"
  by (auto simp: evolves_def dest!: spec [of _ k])

lemma evolves_from: "evolves m m' \<Longrightarrow> map_of m' k = Some t' \<Longrightarrow> \<exists>t. map_of m k = Some t \<and> mild t t'"
  by (cases "map_of m k") (auto simp: evolves_def dest!: spec [of _ k])

lemma checked_same: "same_proposal a b \<Longrightarrow> checked_proposal a = checked_proposal b"
  by (simp add: checked_proposal_def same_proposal_def)

lemma ticket_inv_mild: "ticket_inv A P U k t \<Longrightarrow> mild t t' \<Longrightarrow> ticket_inv A P U k t'"
proof -
  assume inv: "ticket_inv A P U k t" and mild: "mild t t'"
  then have same: "same_proposal t t'" by (simp add: mild_def)
  have "checked_proposal t'" "\<exists>a\<in>set A. same_proposal a t'"
    using inv checked_same [OF same] same_proposal_trans [OF _ same] by (auto simp: ticket_inv_def)
  with inv mild show ?thesis by (auto simp: ticket_inv_def mild_def same_proposal_def)
qed

lemma waiting_evolves: "waiting_inv m w \<Longrightarrow> evolves m m' \<Longrightarrow> waiting_inv m' w"
  unfolding waiting_inv_def using evolves_at same_proposal_trans by (fastforce simp: mild_def)

lemma desk_evolves: "desk_inv m W A P B \<Longrightarrow> evolves m m' \<Longrightarrow> desk_inv m' W A P B"
  unfolding desk_inv_def
proof (elim conjE, intro conjI allI impI ballI, goal_cases)
  case 1
  then show ?case by (simp add: evolves_def)
next
  case (2 k t)
  with evolves_from [OF \<open>evolves m m'\<close>, of k t] show ?case by (blast intro: ticket_inv_mild)
next
  case (3 w)
  then show ?case by (blast intro: waiting_evolves)
next
  case 5
  have "dom (map_of m) \<subseteq> dom (map_of m')" using evolves_at [OF \<open>evolves m m'\<close>] by fastforce
  with 5 show ?case by blast
qed simp_all

lemma desk_waiting: "desk_inv m W A P B \<Longrightarrow> set W' \<subseteq> set W \<Longrightarrow> desk_inv m W' A P B"
  unfolding desk_inv_def by blast

text \<open>A longer history changes nothing of what holds of it.\<close>

lemma ticket_inv_more: "ticket_inv A P U k t \<Longrightarrow> set A \<subseteq> set A' \<Longrightarrow> set P \<subseteq> set P' \<Longrightarrow> ticket_inv A' P' U k t"
  unfolding ticket_inv_def by blast

lemma begun_inv_more: "begun_inv A P b \<Longrightarrow> set A \<subseteq> set A' \<Longrightarrow> set P \<subseteq> set P' \<Longrightarrow> begun_inv A' P' b"
  unfolding begun_inv_def approval_of_def by fast

lemma desk_more: "desk_inv m W A P B \<Longrightarrow> set A \<subseteq> set A' \<Longrightarrow> set P \<subseteq> set P' \<Longrightarrow> desk_inv m W A' P' B"
  unfolding desk_inv_def by (meson ticket_inv_more begun_inv_more)

lemma desk_update:
  assumes "desk_inv m W A P B" "map_of m k = Some t" "same_proposal t t'" "ticket_inv A P (tk_ID ` fst ` set B) k t'"
  shows "desk_inv (AList.update k t' m) W A P B"
proof -
  have "waiting_inv (AList.update k t' m) w" if "waiting_inv m w" for w
    using that assms(2,3) same_proposal_trans by (fastforce simp: waiting_inv_def update_conv')
  note waiting = this
  have look: "map_of (AList.update k t' m) j = (if j = k then Some t' else map_of m j)" for j by (simp add: update_conv')
  show ?thesis
  proof (rule desk_invI)
    show "keys_distinct (AList.update k t' m)" using desk_invD(1) [OF assms(1)] by (rule distinct_update)
    show "ticket_inv A P (tk_ID ` fst ` set B) j u" if "map_of (AList.update k t' m) j = Some u" for j u
      using that assms(4) desk_invD(2) [OF assms(1), of j u] by (simp only: look split: if_splits) blast
    show "waiting_inv (AList.update k t' m) w" if "w \<in> set W" for w
      by (rule waiting [OF desk_invD(3) [OF assms(1) that]])
    show "tk_ID ` fst ` set B \<subseteq> dom (map_of (AList.update k t' m))"
      using desk_invD(5) [OF assms(1)] look by (auto simp: dom_def)
  qed (fact desk_invD(4) [OF assms(1)], rule desk_invD(6) [OF assms(1)])
qed

lemma desk_approve:
  assumes "desk_inv m W A P B" "\<not> own_ticket m k who" "sqlApprove now k who m = (m', Inr cr)" "0 \<le> now"
  shows "desk_inv m' W A ((k, who, now) # P) B \<and> tk_ID cr = k"
proof -
  from assms(3) obtain t where t: "map_of m k = Some t" "tk_Status t = ''pending''" and
    cr: "cr = t\<lparr>tk_Status := ''approved'', tk_Approver := who, tk_ApprovedAt := now, tk_ExpiresAt := now + sqlChangeApprovalTTL\<rparr>" and
    m': "m' = AList.update k cr m"
    by (auto simp: sqlApprove_def Let_def split: option.splits if_splits)
  have inv: "ticket_inv A P (tk_ID ` fst ` set B) k t" using assms(1) t(1) by (simp add: desk_inv_def)
  have "differ (tk_Proposer t) who" using assms(2) t(1) by (simp add: own_ticket_def differ_def)
  with inv t(2) assms(4) have "ticket_inv A ((k, who, now) # P) (tk_ID ` fst ` set B) k cr"
    by (auto simp: ticket_inv_def cr checked_proposal_def same_proposal_def sqlChangeApprovalTTL_def busy_def)
  moreover have "desk_inv m W A ((k, who, now) # P) B" by (rule desk_more [OF assms(1)]) auto
  ultimately show ?thesis using desk_update [of m W A "(k, who, now) # P" B k t cr] t(1) inv
    by (simp add: m' cr same_proposal_def ticket_inv_def)
qed

lemma desk_begin:
  assumes "desk_inv m W A P B" "waiting_inv m (now, q, t, c)"
    and "BeginExecute now (er_ticketID q) (my_ID c) (tk_SQL t) (er_executor q) m = (m', Inr cr)"
  shows "desk_inv m' W A P ((cr, c, now) # B)"
proof -
  define k where "k = er_ticketID q"
  from assms(3) obtain t0 where t0: "map_of m k = Some t0" "tk_Status (expireLocked now t0) = ''approved''" and
    cr: "cr = (expireLocked now t0)\<lparr>tk_Status := ''executing'', tk_Executor := er_executor q\<rparr>" and
    m': "m' = AList.update k cr m"
    by (auto simp: BeginExecute_def k_def Let_def split: option.splits if_splits)
  have live: "expireLocked now t0 = t0" "tk_Status t0 = ''approved''" "\<not> (0 < tk_ExpiresAt t0 \<and> tk_ExpiresAt t0 \<le> now)"
    using t0(2) by (auto simp: expireLocked_def split: if_splits)
  have inv: "ticket_inv A P (tk_ID ` fst ` set B) k t0" using assms(1) t0(1) by (simp add: desk_inv_def)
  then obtain a at0 where a: "(k, a, at0) \<in> set P" "differ (tk_Proposer t0) a" "tk_ExpiresAt t0 = at0 + sqlChangeApprovalTTL" "0 < tk_ExpiresAt t0"
    using live(2) by (auto simp: ticket_inv_def)
  have fresh: "k \<notin> tk_ID ` fst ` set B" using inv live(2) by (simp add: ticket_inv_def busy_def)
  have cr': "cr = t0\<lparr>tk_Status := ''executing'', tk_Executor := er_executor q\<rparr>" by (simp add: cr live(1))
  have id: "tk_ID t0 = k" using inv by (simp add: ticket_inv_def)
  have w: "same_proposal t t0" "differ (tk_Proposer t) (er_executor q)" "my_ID c = tk_ConnectionID t"
    using assms(2) t0(1) by (auto simp: waiting_inv_def k_def)
  have "approval_of P cr now" unfolding approval_of_def
    by (rule exI [of _ a], rule exI [of _ at0]) (use a live(3) id in \<open>simp add: cr'\<close>)
  then have "begun_inv A P (cr, c, now)"
    using inv w by (auto simp: begun_inv_def cr' ticket_inv_def checked_proposal_def same_proposal_def)
  note begun = this
  have same: "same_proposal t0 cr" "busy cr" by (simp_all add: cr' same_proposal_def busy_def)
  have new: "ticket_inv A P (tk_ID ` fst ` set ((cr, c, now) # B)) k cr" "ticket_inv A P (tk_ID ` fst ` set B) k cr"
    using inv same_proposal_trans [OF _ same(1)] checked_same [OF same(1)] same(2) id by (auto simp: ticket_inv_def cr')
  have upd: "desk_inv m' W A P B" unfolding m' by (rule desk_update [OF assms(1) t0(1) same(1) new(2)])
  have look: "map_of m' j = (if j = k then Some cr else map_of m j)" for j by (simp add: m' update_conv')
  show ?thesis
  proof (rule desk_invI)
    show "ticket_inv A P (tk_ID ` fst ` set ((cr, c, now) # B)) j u" if "map_of m' j = Some u" for j u
    proof (cases "j = k")
      case True
      with that new(1) show ?thesis by (simp add: look)
    next
      case False
      moreover from desk_invD(2) [OF upd that] have "ticket_inv A P (tk_ID ` fst ` set B) j u" .
      ultimately show ?thesis using id by (auto simp: ticket_inv_def cr')
    qed
    show "distinct (map (tk_ID \<circ> fst) ((cr, c, now) # B))"
      using desk_invD(4) [OF assms(1)] fresh id by (auto simp: cr' image_image)
    show "tk_ID ` fst ` set ((cr, c, now) # B) \<subseteq> dom (map_of m')"
      using desk_invD(5) [OF upd] look [of k] id by (auto simp: cr')
    show "begun_inv A P b" if "b \<in> set ((cr, c, now) # B)" for b
      using that begun desk_invD(6) [OF assms(1), of b] by auto
  qed (fact desk_invD(1) [OF upd], rule desk_invD(3) [OF upd])
qed

lemma desk_new:
  assumes "desk_inv m W A P B" "k \<notin> fst ` set m" "tk_ID t = k" "tk_Status t = ''pending''" "checked_proposal t" "same_proposal a t"
  shows "desk_inv (AList.update k t m) W (a # A) P B"
proof -
  have none: "map_of m k = None" using assms(2) by (simp add: map_of_eq_None_iff)
  have look: "map_of (AList.update k t m) j = (if j = k then Some t else map_of m j)" for j by (simp add: update_conv')
  have unused: "k \<notin> tk_ID ` fst ` set B" using desk_invD(5) [OF assms(1)] none by blast
  have more: "set A \<subseteq> set (a # A)" by auto
  show ?thesis
  proof (rule desk_invI)
    show "keys_distinct (AList.update k t m)" using desk_invD(1) [OF assms(1)] by (rule distinct_update)
    show "ticket_inv (a # A) P (tk_ID ` fst ` set B) j u" if "map_of (AList.update k t m) j = Some u" for j u
    proof (cases "j = k")
      case True
      with that unused assms(3-6) show ?thesis by (auto simp: look ticket_inv_def)
    next
      case False
      with that desk_invD(2) [OF assms(1), of j u] more show ?thesis by (auto simp: look intro: ticket_inv_more)
    qed
    show "waiting_inv (AList.update k t m) w" if "w \<in> set W" for w
      using desk_invD(3) [OF assms(1) that] none by (auto simp: waiting_inv_def look)
    show "tk_ID ` fst ` set B \<subseteq> dom (map_of (AList.update k t m))"
      using desk_invD(5) [OF assms(1)] by (auto simp: look dom_def)
    show "begun_inv (a # A) P b" if "b \<in> set B" for b using desk_invD(6) [OF assms(1) that] more by (auto intro: begun_inv_more)
  qed (fact desk_invD(4) [OF assms(1)])
qed

lemma kind_checked:
  assumes "kind_error c kind sqlText = None" "sqlText = trim_space sqlText"
  shows "checked_proposal (new_ticket now i c sqlText reason actor kind)"
proof -
  have "to_lower (trim_space ''kill'') = ''kill''" "to_lower (trim_space ''ddl'') = ''ddl''" by code_simp+
  with assms show ?thesis
    by (auto simp: kind_error_def checked_proposal_def new_ticket_def Let_def split: if_splits)
qed

lemma desk_create:
  assumes "desk_inv (sd_items S) W A P B" "i \<notin> fst ` set (sd_items S)"
    and "handleCreateSQLChangeRequest v now i connectionID sqlText reason kind actor S = (S', Inr cr)"
  shows "desk_inv (sd_items S') W (cr # A) P B"
proof -
  define sql where "sql = trim_space sqlText"
  from assms(3) obtain c where ok: "kind_error c (ticket_kind kind sql) sql = None" and
    S': "(let t = new_ticket now i c sql reason actor (ticket_kind kind sql);
          (m1, rec) = bridgeSQLChangeToRecord now t ''pending_approval'' (sd_changes S)
      in if 0 < cr_id rec
         then (\<lparr>sd_items = SetChangeID (tk_ID t) (cr_id rec) (AList.update i t (sd_items S)), sd_changes = m1\<rparr>, t\<lparr>tk_ChangeID := cr_id rec\<rparr>)
         else (\<lparr>sd_items = AList.update i t (sd_items S), sd_changes = m1\<rparr>, t)) = (S', cr)"
    by (auto simp: handleCreateSQLChangeRequest_def sql_def [symmetric] Let_def sqlCreate_def split: option.splits if_splits prod.splits)
  define t where "t = new_ticket now i c sql reason actor (ticket_kind kind sql)"
  have t: "tk_ID t = i" "tk_Status t = ''pending''" "checked_proposal t"
    using kind_checked [OF ok, of now i reason actor] by (auto simp: t_def sql_def) (simp_all add: new_ticket_def Let_def)
  have "same_proposal cr t" and items: "evolves (AList.update i t (sd_items S)) (sd_items S')"
    using S' unfolding t_def [symmetric] Let_def by (auto simp: same_proposal_def split: prod.splits if_splits)
  then have "desk_inv (AList.update i t (sd_items S)) W (cr # A) P B" using desk_new [OF assms(1,2) t] by blast
  then show ?thesis using items by (rule desk_evolves)
qed

lemma evolves_create_error:
  "handleCreateSQLChangeRequest v now i connectionID sqlText reason kind actor S = (S', Inl e) \<Longrightarrow> S' = S"
  by (auto simp: handleCreateSQLChangeRequest_def Let_def split: option.splits if_splits prod.splits)

lemma desk_arrive:
  assumes "desk_inv m W A P B" "execute_checks v now q m = Inr (t, c)"
  shows "waiting_inv m (now, q, t, c)"
proof -
  from assms(2) have t: "map_of m (er_ticketID q) = Some t" "differ (tk_Proposer t) (er_executor q)"
    and c: "GetMySQLConnection (sv_conns v) (tk_ConnectionID t) = Some c"
    by (auto simp: execute_checks_def differ_def split: option.splits if_splits)
  from c have "my_ID c = tk_ConnectionID t" by (auto simp: GetMySQLConnection_def find_Some_iff)
  with t show ?thesis by (auto simp: waiting_inv_def)
qed

definition run_inv :: "sql_run \<Rightarrow> bool" where
  "run_inv R \<longleftrightarrow> desk_inv (sd_items (sr_desk R)) (sr_waiting R) (sr_asked R) (sr_approved R) (sr_begun R)"

lemma approve_step:
  assumes "desk_inv (sd_items S) W A P B" "0 \<le> now" "handleApproveSQLChangeRequest now pathID who S = (S', r)"
  shows "desk_inv (sd_items S') W A (case r of Inl e \<Rightarrow> P | Inr cr \<Rightarrow> (trim_space pathID, who, now) # P) B"
proof -
  define m0 where "m0 = fst (sqlList now (sd_items S))"
  have m0: "desk_inv m0 W A P B" using desk_evolves [OF assms(1)] by (simp add: m0_def)
  show ?thesis
  proof (cases "own_ticket m0 (trim_space pathID) who")
    case True
    with assms(3) m0 show ?thesis
      by (auto simp: handleApproveSQLChangeRequest_def Let_def m0_def split: prod.splits)
  next
    case False
    show ?thesis
    proof (cases "sqlApprove now (trim_space pathID) who m0")
      case (Pair m1 res)
      show ?thesis
      proof (cases res)
        case (Inl e)
        with Pair have "m1 = m0" by (auto simp: sqlApprove_def Let_def split: option.splits if_splits)
        with assms(3) m0 False Pair Inl show ?thesis
          by (auto simp: handleApproveSQLChangeRequest_def Let_def m0_def split: prod.splits)
      next
        case (Inr cr)
        let ?S = "syncSQLChangeRecordStatus now cr who (S\<lparr>sd_items := m1\<rparr>)"
        have "desk_inv m1 W A ((trim_space pathID, who, now) # P) B"
          using desk_approve [OF m0 False] Pair Inr assms(2) by blast
        moreover have "evolves m1 (sd_items ?S)" using evolves_sync [of "S\<lparr>sd_items := m1\<rparr>"] by simp
        moreover obtain cr2 where "fresh_copy now cr ?S = (S', cr2)" "r = Inr cr2"
          using assms(3) False Pair Inr
          by (auto simp: handleApproveSQLChangeRequest_def Let_def m0_def split: prod.splits)
        ultimately show ?thesis using desk_evolves evolves_copy evolves_trans by fastforce
      qed
    qed
  qed
qed

lemma set_without: "set (take n xs @ drop (Suc n) xs) \<subseteq> set xs"
  using set_take_subset [of n xs] set_drop_subset [of "Suc n" xs] by auto

lemma reject_evolves: "evolves (sd_items S) (sd_items (fst (handleRejectSQLChangeRequest now pathID who S)))"
proof (cases "sqlReject now (trim_space pathID) who (sd_items S)")
  case (Pair m1 r)
  note m1 = evolves_reject [OF Pair]
  show ?thesis
  proof (cases r)
    case (Inr cr)
    let ?S = "syncSQLChangeRecordStatus now cr who (S\<lparr>sd_items := m1\<rparr>)"
    obtain S2 cr2 where copy: "fresh_copy now cr ?S = (S2, cr2)" by (cases "fresh_copy now cr ?S")
    have "evolves m1 (sd_items ?S)" using evolves_sync [of "S\<lparr>sd_items := m1\<rparr>"] by simp
    then have "evolves (sd_items S) (sd_items S2)" using m1 evolves_copy [OF copy] evolves_trans by blast
    with Pair Inr copy show ?thesis by (simp add: handleRejectSQLChangeRequest_def)
  qed (use Pair m1 in \<open>simp add: handleRejectSQLChangeRequest_def\<close>)
qed

lemma end_evolves: "evolves (sd_items S) (sd_items (fst (execute_end now k who outcome S)))"
proof (cases "FinishExecute now k outcome (sd_items S)")
  case (Pair m1 cr)
  note m1 = evolves_finish [OF Pair]
  show ?thesis
  proof (cases "tk_Status cr = ''executed''")
    case True
    let ?S = "syncSQLChangeRecordStatus now cr who (S\<lparr>sd_items := m1\<rparr>)"
    obtain S2 cr2 where copy: "fresh_copy now cr ?S = (S2, cr2)" by (cases "fresh_copy now cr ?S")
    have "evolves m1 (sd_items ?S)" using evolves_sync [of "S\<lparr>sd_items := m1\<rparr>"] by simp
    then have "evolves (sd_items S) (sd_items S2)" using m1 evolves_copy [OF copy] evolves_trans by blast
    with Pair True copy show ?thesis by (simp add: execute_end_def)
  qed (use Pair m1 in \<open>simp add: execute_end_def\<close>)
qed

lemma run_inv_step: "sql_ok R e \<Longrightarrow> run_inv R \<Longrightarrow> run_inv (sql_step v R e)"
proof (cases e)
  case (Propose now i connectionID sqlText reason kind actor)
  assume ok: "sql_ok R e" and inv: "run_inv R"
  show ?thesis
  proof (cases "handleCreateSQLChangeRequest v now i connectionID sqlText reason kind actor (sr_desk R)")
    case (Pair S r)
    show ?thesis
    proof (cases r)
      case (Inl err)
      with evolves_create_error [OF Pair [unfolded Inl]] Pair inv show ?thesis by (simp add: Propose)
    next
      case (Inr cr)
      with desk_create [OF inv [unfolded run_inv_def] _ Pair [unfolded Inr]] ok Pair show ?thesis
        by (simp add: Propose run_inv_def)
    qed
  qed
next
  case (Approve now pathID who)
  assume ok: "sql_ok R e" and inv: "run_inv R"
  show ?thesis
  proof (cases "handleApproveSQLChangeRequest now pathID who (sr_desk R)")
    case (Pair S r)
    with approve_step [OF inv [unfolded run_inv_def] _ Pair] ok show ?thesis
      by (cases r) (simp_all add: Approve run_inv_def)
  qed
next
  case (Reject now pathID who)
  assume inv: "run_inv R"
  from desk_evolves [OF inv [unfolded run_inv_def] reject_evolves] show ?thesis by (simp add: Reject run_inv_def)
next
  case (Listing now)
  assume inv: "run_inv R"
  from desk_evolves [OF inv [unfolded run_inv_def] evolves_list] show ?thesis by (simp add: Listing run_inv_def)
next
  case (Arrive now q)
  let ?m = "fst (sqlList now (sd_items (sr_desk R)))"
  assume "run_inv R"
  then have m: "desk_inv ?m (sr_waiting R) (sr_asked R) (sr_approved R) (sr_begun R)"
    unfolding run_inv_def using desk_evolves evolves_list by blast
  show ?thesis
  proof (cases "execute_checks v now q ?m")
    case (Inr tc)
    obtain t c where tc: "tc = (t, c)" by (cases tc)
    with Inr have "waiting_inv ?m (now, q, t, c)" using desk_arrive [OF m] by simp
    with m have "desk_inv ?m (sr_waiting R @ [(now, q, t, c)]) (sr_asked R) (sr_approved R) (sr_begun R)"
      unfolding desk_inv_def by auto
    with Inr tc show ?thesis by (simp add: Arrive run_inv_def Let_def)
  qed (use m in \<open>simp add: Arrive run_inv_def Let_def\<close>)
next
  case (Begin n)
  assume inv: "run_inv R"
  show ?thesis
  proof (cases "n < length (sr_waiting R)")
    case True
    obtain now q t c where w: "sr_waiting R ! n = (now, q, t, c)" by (cases "sr_waiting R ! n") auto
    let ?m = "sd_items (sr_desk R)" and ?W = "take n (sr_waiting R) @ drop (Suc n) (sr_waiting R)"
    have less: "desk_inv ?m ?W (sr_asked R) (sr_approved R) (sr_begun R)"
      using inv set_without unfolding run_inv_def by (rule desk_waiting)
    have ready: "waiting_inv ?m (now, q, t, c)"
      using desk_invD(3) [OF inv [unfolded run_inv_def]] True w nth_mem by metis
    show ?thesis
    proof (cases "BeginExecute now (er_ticketID q) (my_ID c) (tk_SQL t) (er_executor q) ?m")
      case (Pair m' r)
      show ?thesis
      proof (cases r)
        case (Inl e)
        with desk_evolves [OF less evolves_begin [OF Pair]] Pair True w show ?thesis by (simp add: Begin run_inv_def Let_def)
      next
        case (Inr cr)
        with desk_begin [OF less ready] Pair True w show ?thesis by (simp add: Begin run_inv_def Let_def)
      qed
    qed
  qed (use inv in \<open>simp add: Begin\<close>)
next
  case (Finish n now outcome)
  assume inv: "run_inv R"
  from desk_evolves [OF inv [unfolded run_inv_def] end_evolves] inv show ?thesis
    by (auto simp: Finish run_inv_def split: prod.split)
qed

interpretation sql_tickets: fresh_machine sql_start "sql_step v" sql_ok run_inv for v
proof
  show "run_inv sql_start" by (simp add: run_inv_def desk_inv_def sql_start_def)
  show "run_inv (sql_step v R e)" if "sql_ok R e" "run_inv R" for R e using that by (rule run_inv_step)
qed

text \<open>C3. However requests interleave, an approval is used for at most one execution, and whatever is executed was
  proposed with exactly that connection and statement, passed the check of its kind, was approved less than thirty minutes before
  by an account other than the proposer's, and is executed by an account other than the proposer's.\<close>

theorem approval_used_once:
  assumes "run_ok (sql_step v) sql_ok sql_start es"
  defines "R \<equiv> run (sql_step v) sql_start es"
  shows "distinct (map (tk_ID \<circ> fst) (sr_begun R)) \<and>
    (\<forall>cr c now. (cr, c, now) \<in> set (sr_begun R) \<longrightarrow>
       my_ID c = tk_ConnectionID cr \<and> checked_proposal cr \<and> (\<exists>a\<in>set (sr_asked R). same_proposal a cr) \<and>
       approval_of (sr_approved R) cr now \<and> differ (tk_Proposer cr) (tk_Executor cr))"
proof -
  have "run_inv R" using sql_tickets.inv_run [OF assms(1)] by (simp add: R_def)
  then have inv: "desk_inv (sd_items (sr_desk R)) (sr_waiting R) (sr_asked R) (sr_approved R) (sr_begun R)"
    by (simp add: run_inv_def)
  from desk_invD(4) [OF inv] desk_invD(6) [OF inv] show ?thesis by (force simp: begun_inv_def)
qed

definition demo_conn :: sql_conn where
  "demo_conn = \<lparr>my_ID = ''c1'', my_Name = ''orders'', my_Env = ''prod'', my_Enabled = True, my_Driver = []\<rparr>"

definition demo_env :: sql_env where
  "demo_env = \<lparr>sv_conns = [demo_conn], sv_clock = \<lparr>ck_weekday = (\<lambda>_. 1), ck_minute = (\<lambda>_. 600)\<rparr>, sv_windows = []\<rparr>"

definition demo_sql :: string where
  "demo_sql = ''create index i on t (c)''"

definition demo_events :: "sql_event list" where
  "demo_events =
     [Propose 100 ''k1'' ''c1'' demo_sql [] ''ddl'' ''ann'', Approve 200 ''k1'' ''bob'',
      Arrive 300 \<lparr>er_ticketID = ''k1'', er_connectionID = [], er_sql = [], er_timeoutSec = 30, er_executor = ''bob''\<rparr>,
      Arrive 300 \<lparr>er_ticketID = ''k1'', er_connectionID = [], er_sql = [], er_timeoutSec = 30, er_executor = ''eve''\<rparr>,
      Begin 1, Begin 0]"

lemma demo_run:
  "run_ok (sql_step demo_env) sql_ok sql_start demo_events"
  "map (\<lambda>b. (tk_ID (fst b), tk_Executor (fst b), snd (snd b))) (sr_begun (run (sql_step demo_env) sql_start demo_events)) =
     [(''k1'', ''eve'', 300)]"
  by code_simp+

theorem approval_used_once_witness:
  "\<exists>cr c. sr_begun (run (sql_step demo_env) sql_start demo_events) = [(cr, c, 300)] \<and> tk_Executor cr = ''eve'' \<and>
     checked_proposal cr \<and> differ (tk_Proposer cr) (tk_Executor cr)"
proof -
  from demo_run(2) obtain cr c where "sr_begun (run (sql_step demo_env) sql_start demo_events) = [(cr, c, 300)]" "tk_Executor cr = ''eve''"
    by (auto simp: map_eq_Cons_conv)
  moreover from this approval_used_once [OF demo_run(1)] have "checked_proposal cr" "differ (tk_Proposer cr) (tk_Executor cr)"
    by simp_all
  ultimately show ?thesis by blast
qed

section \<open>The direct path\<close>

lemma ticket_calls:
  assumes "executeSQLChangeRequest db v now later q S = (S', calls, r)" "calls \<noteq> []"
  shows "\<exists>t c. map_of (sd_items S) (er_ticketID q) = Some t \<and> tk_Status (expireLocked now t) = ''approved'' \<and>
    differ (tk_Proposer t) (er_executor q) \<and> GetMySQLConnection (sv_conns v) (tk_ConnectionID t) = Some c \<and> my_Enabled c \<and>
    (er_connectionID q \<noteq> [] \<longrightarrow> tk_ConnectionID t = er_connectionID q \<and> tk_SQL t = trim_space (er_sql q)) \<and>
    (tk_Kind t \<noteq> ''kill'' \<longrightarrow> activeFreezeWindow (sv_clock v) (sv_windows v) [] ''sql'' now = None)"
proof -
  define m0 where "m0 = fst (sqlList now (sd_items S))"
  have run: "(case execute_checks v now q m0 of
        Inl e \<Rightarrow> (S\<lparr>sd_items := m0\<rparr>, [], Inl e)
      | Inr (t, c) \<Rightarrow>
          (case BeginExecute now (er_ticketID q) (my_ID c) (tk_SQL t) (er_executor q) m0 of
             (m1, Inl e) \<Rightarrow> (S\<lparr>sd_items := m1\<rparr>, [], Inl e)
           | (m1, Inr cr) \<Rightarrow>
               (let (calls, outcome) = execute_call db c cr (er_timeoutSec q);
                    (S2, reply) = execute_end later (er_ticketID q) (er_executor q) outcome (S\<lparr>sd_items := m1\<rparr>)
                in (S2, calls, reply)))) = (S', calls, r)"
    using assms(1) unfolding executeSQLChangeRequest_def m0_def Let_def .
  then obtain t c where chk: "execute_checks v now q m0 = Inr (t, c)"
    using assms(2) by (auto split: sum.splits prod.splits)
  obtain m1 cr where started: "BeginExecute now (er_ticketID q) (my_ID c) (tk_SQL t) (er_executor q) m0 = (m1, Inr cr)"
    using run chk assms(2) by (auto split: sum.splits prod.splits)
  from chk have t: "map_of m0 (er_ticketID q) = Some t" "differ (tk_Proposer t) (er_executor q)"
      "GetMySQLConnection (sv_conns v) (tk_ConnectionID t) = Some c" "my_Enabled c"
      "er_connectionID q \<noteq> [] \<longrightarrow> tk_ConnectionID t = er_connectionID q \<and> tk_SQL t = trim_space (er_sql q)"
      "tk_Kind t \<noteq> ''kill'' \<longrightarrow> activeFreezeWindow (sv_clock v) (sv_windows v) [] ''sql'' now = None"
    by (auto simp: execute_checks_def differ_def split: option.splits if_splits)
  from t(1) obtain t0 where t0: "map_of (sd_items S) (er_ticketID q) = Some t0" "t = expireLocked now t0"
    by (auto simp: m0_def sqlList_def Let_def map_of_map_values)
  have "tk_Status (expireLocked now t) = ''approved''"
    using started t(1) by (auto simp: BeginExecute_def Let_def split: if_splits)
  then have "tk_Status (expireLocked now t0) = ''approved''" by (auto simp: t0(2) expireLocked_def split: if_splits)
  moreover have "tk_Proposer t0 = tk_Proposer t" "tk_ConnectionID t0 = tk_ConnectionID t" "tk_SQL t0 = tk_SQL t" "tk_Kind t0 = tk_Kind t"
    by (simp_all add: t0(2) expireLocked_def)
  ultimately show ?thesis using t0(1) t(2-6) by auto
qed

text \<open>C15. The route that runs an index statement reaches the data base only outside a freeze, with a statement of the
  accepted shape on an enabled MySQL connection, and then either with an approved, unexpired ticket of another account for just
  this connection and statement, or on a connection that is not marked as production and with the explicit flag.\<close>

theorem direct_ddl_gated:
  assumes "handleMySQLExecDDL db v now later pathID sql0 timeoutSec allowExec ticketID actor S = (S', calls, r)"
    and "calls \<noteq> []" and "trim_space pathID \<noteq> []"
  shows "IsAllowedIndexDDL (trim_space sql0) \<and> activeFreezeWindow (sv_clock v) (sv_windows v) [] ''sql'' now = None \<and>
    (\<exists>c. GetMySQLConnection (sv_conns v) (trim_space pathID) = Some c \<and> my_Enabled c \<and> driverOf c = ''mysql'' \<and>
       (if trim_space ticketID = [] then sqlConnectionEnv c \<noteq> ''prod'' \<and> allowExec
        else \<exists>t. map_of (sd_items S) (trim_space ticketID) = Some t \<and> tk_Status (expireLocked now t) = ''approved'' \<and>
               tk_ConnectionID t = my_ID c \<and> tk_SQL t = trim_space sql0 \<and> differ (tk_Proposer t) actor))"
proof -
  from assms(1,2) obtain c where c: "GetMySQLConnection (sv_conns v) (trim_space pathID) = Some c" "my_Enabled c"
      "driverOf c \<noteq> ''postgres''" and ddl: "IsAllowedIndexDDL (trim_space sql0)" and
      free: "activeFreezeWindow (sv_clock v) (sv_windows v) [] ''sql'' now = None"
    by (auto simp: handleMySQLExecDDL_def Let_def split: option.splits if_splits)
  have driver: "driverOf c = ''mysql''" using c(3) by (auto simp: driverOf_def Let_def)
  have id: "my_ID c \<noteq> []" using c(1) assms(3) by (auto simp: GetMySQLConnection_def find_Some_iff)
  show ?thesis
  proof (cases "trim_space ticketID = []")
    case True
    with assms(1,2) c ddl free have "sqlConnectionEnv c \<noteq> ''prod'' \<and> allowExec"
      by (auto simp: handleMySQLExecDDL_def Let_def split: if_splits)
    with True c driver ddl free show ?thesis by auto
  next
    case False
    define q where "q = \<lparr>er_ticketID = trim_space ticketID, er_connectionID = my_ID c, er_sql = trim_space sql0,
      er_timeoutSec = timeoutSec, er_executor = actor\<rparr>"
    obtain S2 calls2 r2 where ex: "executeSQLChangeRequest db v now later q S = (S2, calls2, r2)"
      by (cases "executeSQLChangeRequest db v now later q S") auto
    with assms(1,2) c ddl free False have "calls2 = calls"
      by (auto simp: handleMySQLExecDDL_def Let_def q_def [symmetric] split: if_splits)
    with ticket_calls [OF ex] assms(2) id False c driver ddl free show ?thesis by (auto simp: q_def)
  qed
qed

text \<open>A ticket that asks to cancel a running statement (\<open>KILL QUERY n\<close>) is accepted, and its execution kills the whole
  session n: what is approved is not what runs.\<close>

theorem kill_query_kills_session:
  "kind_error c ''kill'' ''KILL QUERY 7'' = None \<and>
   (driverOf c = ''mysql'' \<longrightarrow>
      fst (execute_call db c (cr\<lparr>tk_Kind := ''kill'', tk_SQL := ''KILL QUERY 7''\<rparr>) t) = [KillMySQL (my_ID c) 7] \<and>
      execute_call db c (cr\<lparr>tk_Kind := ''kill'', tk_SQL := ''KILL QUERY 7''\<rparr>) t =
        execute_call db c (cr\<lparr>tk_Kind := ''kill'', tk_SQL := ''KILL 7''\<rparr>) t)"
proof -
  have "str_fields (trim_suffix (trim_space ''KILL QUERY 7'') '';'') = [''KILL'', ''QUERY'', ''7'']"
    "str_fields (trim_suffix (trim_space ''KILL 7'') '';'') = [''KILL'', ''7'']" "map upper_char ''QUERY'' = ''QUERY''" by code_simp+
  moreover have "parse_int 10 ''7'' = Some 7" by (simp add: parse_int_def digit_val_def)
  ultimately have "parseKillSQL ''KILL QUERY 7'' = Some 7" "parseKillSQL ''KILL 7'' = Some 7"
    by (simp_all add: parseKillSQL_def equal_fold_def)
  then show ?thesis by (simp add: kind_error_def execute_call_def mysqlKillSession_def map_prod_def)
qed

definition demo_dev :: sql_env where
  "demo_dev = demo_env\<lparr>sv_conns := [demo_conn\<lparr>my_Env := ''dev''\<rparr>]\<rparr>"

theorem direct_ddl_gated_witness:
  "fst (snd (handleMySQLExecDDL (\<lambda>_. Inr []) demo_dev 100 101 ''c1'' demo_sql 30 True [] ''ann'' (sr_desk sql_start))) =
     [RunDDL ''c1'' demo_sql 30] \<and> IsAllowedIndexDDL (trim_space demo_sql)"
proof -
  have run: "handleMySQLExecDDL (\<lambda>_. Inr []) demo_dev 100 101 ''c1'' demo_sql 30 True [] ''ann'' (sr_desk sql_start) =
      (sr_desk sql_start, [RunDDL ''c1'' demo_sql 30], Inr (Direct []))" by code_simp
  have "trim_space ''c1'' \<noteq> []" by code_simp
  from direct_ddl_gated [OF run _ this] run show ?thesis by simp
qed

section \<open>The change record of an executed ticket\<close>

lemma transition_ok:
  assumes "find_change m i = Some r" "changeSoDAllows r a actor False = None" "apply_action now a actor False r = Inr (r1, n)"
    and "a = to_lower (trim_space a)"
  obtains m2 r2 where "Transition now i a actor False m = (m2, Inr r2)" "find_change m2 i = Some r2" "cr_status r2 = n" "cr_author r2 = cr_author r"
proof -
  let ?r = "r1\<lparr>cr_status := n, cr_updatedAt := now\<rparr>"
  have id: "cr_id r = i" using assms(1) by (auto simp: find_change_def dest: find_id)
  have "Transition now i a actor False m = (set_change i ?r m, Inr ?r)"
    using assms by (simp add: Transition_def TransitionSoD_def assms(4) [symmetric] Let_def)
  moreover have "find_change (set_change i ?r m) i = Some ?r"
    using find_change_set [OF assms(1), of ?r i] id apply_action_keeps [OF assms(3)] by simp
  ultimately show ?thesis using apply_action_keeps [OF assms(3)] by (intro that [of _ ?r]) simp_all
qed

lemma find_member: "find P xs = Some x \<Longrightarrow> x \<in> set xs"
  by (auto simp: find_Some_iff)

lemma find_update_first:
  assumes "find P rs = Some r" "distinct (map cr_id rs)" "\<And>x. cr_id (f x) = cr_id x"
  shows "find (\<lambda>x. cr_id x = cr_id r) (update_first P f rs) = Some (f r)"
  using assms
proof (induction rs)
  case (Cons x rs)
  show ?case
  proof (cases "P x")
    case False
    with Cons.prems(1) have r: "find P rs = Some r" by simp
    with find_member [OF r] Cons.prems(2) have "cr_id x \<noteq> cr_id r" by auto
    with False Cons.IH [OF r] Cons.prems(2,3) show ?thesis by simp
  qed (use Cons.prems in simp)
qed simp

lemma sync_start:
  assumes "find (sql_match (tk_ID cr)) (cm_records m) = Some r" "distinct (map cr_id (cm_records m))"
    and "bridgeSQLChangeToRecord now cr [] m = (m1, rec)"
  shows "cr_id rec = cr_id r" "cr_status rec = cr_status r" "cr_author rec = cr_author r" "find_change m1 (cr_id r) = Some rec"
proof -
  obtain title summary where m1: "m1 = m\<lparr>cm_records := update_first (sql_match (tk_ID cr)) (sql_updated now title summary []) (cm_records m)\<rparr>"
    and rec: "rec = sql_updated now title summary [] r"
    using assms(1,3) by (auto simp: bridgeSQLChangeToRecord_def UpsertFromSQLChange_def Let_def)
  show "cr_id rec = cr_id r" "cr_status rec = cr_status r" "cr_author rec = cr_author r"
    by (simp_all add: rec sql_updated_def)
  show "find_change m1 (cr_id r) = Some rec"
    using find_update_first [OF assms(1,2), of "sql_updated now title summary []"]
    by (simp add: m1 rec find_change_def sql_updated_def)
qed

text \<open>The three transitions of a finished execution, from any status a record can be executed from.\<close>

lemma complete_chain:
  fixes now :: int and actor :: string
  assumes "find_change m i = Some r" "st = normalizeChangeStatus (cr_status r)"
    and "record_waits st \<or> st \<in> {''approved'', ''scheduled'', ''in_progress''}"
    and "record_waits st \<Longrightarrow> \<not> equal_fold (trim_space (cr_author r)) (trim_space who)"
  shows "\<exists>r'. find_change (executed_transitions now i who actor st m) i = Some r' \<and> cr_status r' = ''completed''"
proof -
  define a where "a = (if record_waits st then try_transition now i ''approve'' who (m, st) else (m, st))"
  define b where "b = (if snd a = ''approved'' \<or> snd a = ''scheduled'' then try_transition now i ''start'' actor a else a)"
  have words: "to_lower (trim_space ''approve'') = ''approve''" "to_lower (trim_space ''start'') = ''start''"
    "to_lower (trim_space ''complete'') = ''complete''" "normalizeChangeStatus ''approved'' = ''approved''"
    "normalizeChangeStatus ''in_progress'' = ''in_progress''" by code_simp+
  obtain ra where ra: "find_change (fst a) i = Some ra" "normalizeChangeStatus (cr_status ra) = snd a" "snd a \<in> {''approved'', ''scheduled'', ''in_progress''}"
  proof (cases "record_waits st")
    case True
    then have sod: "changeSoDAllows r ''approve'' who False = None"
      using assms(4) by (simp add: changeSoDAllows_def Let_def words)
    have "normalizeChangeStatus (cr_status r) = ''pending_approval'' \<or> normalizeChangeStatus (cr_status r) = ''draft''"
      using True assms(2) by (simp add: record_waits_def)
    then obtain r1 where act: "apply_action now ''approve'' who False r = Inr (r1, ''approved'')"
      by (elim disjE) (simp_all add: apply_action_def)
    from transition_ok [OF assms(1) sod act words(1) [symmetric]]
    obtain m2 r2 where T: "Transition now i ''approve'' who False m = (m2, Inr r2)" "find_change m2 i = Some r2" "cr_status r2 = ''approved''" .
    have "a = (m2, ''approved'')" using True T(1,3) words(4) by (simp add: a_def try_transition_def)
    with T(2,3) words(4) that show thesis by simp
  next
    case False
    then have "a = (m, st)" by (simp add: a_def)
    with that assms(1-3) False show thesis by simp
  qed
  obtain rb where rb: "find_change (fst b) i = Some rb" "normalizeChangeStatus (cr_status rb) = ''in_progress''" "snd b = ''in_progress''"
  proof (cases "snd a = ''approved'' \<or> snd a = ''scheduled''")
    case True
    have sod: "changeSoDAllows ra ''start'' actor False = None" by (simp add: changeSoDAllows_def Let_def words)
    obtain r1 where act: "apply_action now ''start'' actor False ra = Inr (r1, ''in_progress'')"
      using True ra(2) by (elim disjE) (simp_all add: apply_action_def Let_def)
    from transition_ok [OF ra(1) sod act words(2) [symmetric]]
    obtain m2 r2 where T: "Transition now i ''start'' actor False (fst a) = (m2, Inr r2)" "find_change m2 i = Some r2" "cr_status r2 = ''in_progress''" .
    have "b = (m2, ''in_progress'')" using True T(1,3) words(5) by (simp add: b_def try_transition_def)
    with T(2,3) words(5) that show thesis by simp
  next
    case False
    then have "b = a" "snd a = ''in_progress''" using ra(3) by (auto simp: b_def)
    with that ra show thesis by simp
  qed
  have sod: "changeSoDAllows rb ''complete'' actor False = None" by (simp add: changeSoDAllows_def Let_def words)
  obtain r1 where act: "apply_action now ''complete'' actor False rb = Inr (r1, ''completed'')"
    using rb(2) by (simp add: apply_action_def)
  from transition_ok [OF rb(1) sod act words(3) [symmetric]]
  obtain m2 r2 where "Transition now i ''complete'' actor False (fst b) = (m2, Inr r2)" "find_change m2 i = Some r2" "cr_status r2 = ''completed''" .
  with rb(3) show ?thesis by (simp add: executed_transitions_def Let_def a_def [symmetric] b_def [symmetric])
qed

text \<open>C38. A successful execution carries the change record of its ticket to completion, from whatever open status it has,
  when the approver of the ticket is not the author of the record; a failed one leaves the records untouched, so that a record
  which was approved stays approved though its ticket can never run again.\<close>

theorem executed_ticket_completes_record:
  assumes "map_of (sd_items S) k = Some t" "tk_ID t = k" "k \<noteq> []"
    and "change_inv (sd_changes S)" "find (sql_match k) (cm_records (sd_changes S)) = Some r"
    and "st = normalizeChangeStatus (cr_status r)"
    and "record_waits st \<and> \<not> equal_fold (trim_space (cr_author r)) (trim_space (firstNonEmpty [tk_Approver t, who])) \<or>
      st \<in> {''approved'', ''scheduled'', ''in_progress''}"
  shows "(\<exists>r'. find_change (sd_changes (fst (execute_end now k who (Inr res) S))) (cr_id r) = Some r' \<and> cr_status r' = ''completed'') \<and>
    sd_changes (fst (execute_end now k who (Inl err) S)) = sd_changes S"
proof
  define cr where "cr = t\<lparr>tk_ExecutedAt := now, tk_Status := ''executed'', tk_Result := res\<rparr>"
  define S1 where "S1 = S\<lparr>sd_items := AList.update k cr (sd_items S)\<rparr>"
  have fin: "FinishExecute now k (Inr res) (sd_items S) = (AList.update k cr (sd_items S), cr)"
    using assms(1) by (simp add: FinishExecute_def cr_def Let_def)
  have copy: "sd_changes (fst (fresh_copy now cr S')) = sd_changes S'" for S'
    by (auto simp: fresh_copy_def split: prod.split option.split)
  have ended: "sd_changes (fst (execute_end now k who (Inr res) S)) = sd_changes (syncSQLChangeRecordStatus now cr who S1)"
  proof (cases "fresh_copy now cr (syncSQLChangeRecordStatus now cr who S1)")
    case (Pair S2 cr2)
    moreover have "tk_Status cr = ''executed''" by (simp add: cr_def)
    ultimately show ?thesis using copy [of "syncSQLChangeRecordStatus now cr who S1"]
      by (simp add: execute_end_def fin S1_def [symmetric])
  qed
  obtain m1 rec where bridge: "bridgeSQLChangeToRecord now cr [] (sd_changes S) = (m1, rec)"
    by (cases "bridgeSQLChangeToRecord now cr [] (sd_changes S)")
  have "find (sql_match (tk_ID cr)) (cm_records (sd_changes S)) = Some r" using assms(2,5) by (simp add: cr_def)
  note rec = sync_start [OF this _ bridge]
  have ids: "distinct (map cr_id (cm_records (sd_changes S)))" "0 < cr_id r"
    using assms(4) find_member [OF assms(5)] by (auto simp: change_inv_def)
  have chain: "record_waits st \<or> st \<in> {''approved'', ''scheduled'', ''in_progress''}"
    "record_waits st \<Longrightarrow> \<not> equal_fold (trim_space (cr_author rec)) (trim_space (firstNonEmpty [tk_Approver cr, who]))"
    using assms(7) rec(3) [OF ids(1)] by (auto simp: record_waits_def cr_def)
  have st: "st = normalizeChangeStatus (cr_status rec)" using assms(6) rec(2) [OF ids(1)] by simp
  from complete_chain [OF rec(4) [OF ids(1)] st chain, of now who] bridge rec(1) [OF ids(1)] ids(2) st assms(2,3)
  show "\<exists>r'. find_change (sd_changes (fst (execute_end now k who (Inr res) S))) (cr_id r) = Some r' \<and> cr_status r' = ''completed''"
    unfolding ended by (simp add: syncSQLChangeRecordStatus_def S1_def Let_def) (simp add: cr_def)
  show "sd_changes (fst (execute_end now k who (Inl err) S)) = sd_changes S"
    using assms(1) by (simp add: execute_end_def FinishExecute_def Let_def)
qed

definition demo_desk :: sql_desk where
  "demo_desk = \<lparr>sd_items = [(''k1'', blank_ticket\<lparr>tk_ID := ''k1'', tk_Status := ''executing'', tk_Approver := ''bob''\<rparr>)],
     sd_changes = \<lparr>cm_records = [blank_change\<lparr>cr_id := 1, cr_status := ''pending_approval'', cr_author := ''ann'', cr_sqlIDs := [''k1'']\<rparr>],
       cm_nextID = 1\<rparr>\<rparr>"

theorem executed_ticket_completes_record_witness:
  "\<exists>r'. find_change (sd_changes (fst (execute_end 9 ''k1'' ''eve'' (Inr []) demo_desk))) 1 = Some r' \<and> cr_status r' = ''completed''"
proof -
  let ?r = "blank_change\<lparr>cr_id := 1, cr_status := ''pending_approval'', cr_author := ''ann'', cr_sqlIDs := [''k1'']\<rparr>"
  let ?t = "blank_ticket\<lparr>tk_ID := ''k1'', tk_Status := ''executing'', tk_Approver := ''bob''\<rparr>"
  have "map_of (sd_items demo_desk) ''k1'' = Some ?t" "tk_ID ?t = ''k1''" "find (sql_match ''k1'') (cm_records (sd_changes demo_desk)) = Some ?r"
    "change_inv (sd_changes demo_desk)"
    by (simp_all add: demo_desk_def blank_ticket_def sql_match_def change_inv_def)
  moreover have "record_waits (normalizeChangeStatus (cr_status ?r)) \<and>
      \<not> equal_fold (trim_space (cr_author ?r)) (trim_space (firstNonEmpty [tk_Approver ?t, ''eve'']))" by code_simp
  ultimately show ?thesis
    using executed_ticket_completes_record [of demo_desk "''k1''" ?t ?r _ "''eve''" 9 "[]"] by simp
qed

end
