(* ===== verification/AlertGov.thy ===== *)
theory AlertGov
  imports GoMap Incident Change Complex_Main
begin

text \<open>
  Alerts and what decides who hears of them (\<open>cmd/server/alertgov.go\<close>, \<open>alertgov_api.go\<close>, and
  \<open>pushChannels\<close> of \<open>notify.go\<close>): rules that silence an alert, rules by which one alert hides
  another, and routes that choose the channels. The texts of a message and the sending itself are
  outside the model: a channel is a name with its recipients and \<open>deliver\<close> says which of them can
  be reached. The fields of an alert an incident uses are those of \<open>alert_info\<close>.
\<close>

section \<open>Alerts\<close>

record alert = alert_info +
  al_ip :: string
  al_scope :: string
  al_group :: string
  al_since :: int
  al_value :: rat
  al_timestamp :: int
  al_status :: string

definition alertKey :: "alert \<Rightarrow> string" where
  "alertKey a = al_hostID a @ ''/'' @ al_type a @ ''/'' @ al_scope a"

section \<open>Rules\<close>

record alert_match =
  mt_host :: string
  mt_types :: "string list"
  mt_levels :: "string list"

definition containsFold :: "string list \<Rightarrow> string \<Rightarrow> bool" where
  "containsFold xs v \<longleftrightarrow> (\<exists>s\<in>set xs. equal_fold (trim_space s) v)"

definition alert_matches :: "alert_match \<Rightarrow> alert \<Rightarrow> bool" where
  "alert_matches m a \<longleftrightarrow>
     (let p = to_lower (trim_space (mt_host m)) in
      if p \<noteq> [] \<and> \<not> contains_sub (to_lower (al_hostname a)) p \<and> \<not> contains_sub (to_lower (al_ip a)) p then False
      else if mt_types m \<noteq> [] \<and> \<not> containsFold (mt_types m) (al_type a) then False
      else if mt_levels m \<noteq> [] \<and> \<not> containsFold (mt_levels m) (al_level a) then False
      else True)"

record silence_rule =
  si_id :: string
  si_name :: string
  si_enabled :: bool
  si_match :: alert_match
  si_start :: string
  si_end :: string
  si_weekdays :: "int list"

record inhibit_rule =
  ih_id :: string
  ih_name :: string
  ih_enabled :: bool
  ih_source :: alert_match
  ih_target :: alert_match
  ih_sameHost :: bool

record notify_route =
  nr_id :: string
  nr_name :: string
  nr_enabled :: bool
  nr_match :: alert_match
  nr_channels :: "string list"
  nr_continue :: bool

record governance =
  go_silences :: "silence_rule list"
  go_inhibits :: "inhibit_rule list"
  go_routes :: "notify_route list"

section \<open>The time of day\<close>

text \<open>Numbers are read into Go's 64-bit \<open>int\<close>, as by \<open>parseHM\<close>; a blank text is no number.\<close>

definition atoiSafe :: "string \<Rightarrow> int option" where
  "atoiSafe s = (let t = trim_space s in if t = [] then None else map_option sint (hm_digits 0 t))"

definition govHHMM :: "string \<Rightarrow> int" where
  "govHHMM s0 =
     (let s = trim_space s0 in
      case index_of '':'' s of
        None \<Rightarrow> - 1
      | Some i \<Rightarrow>
          if i = 0 then - 1
          else (case (atoiSafe (take i s), atoiSafe (drop (i + 1) s)) of
                  (Some h, Some m) \<Rightarrow> if h < 0 \<or> 23 < h \<or> m < 0 \<or> 59 < m then - 1 else h * 60 + m
                | _ \<Rightarrow> - 1))"

definition activeNow :: "clock \<Rightarrow> int \<Rightarrow> silence_rule \<Rightarrow> bool" where
  "activeNow ck now r \<longleftrightarrow>
     (if si_weekdays r \<noteq> [] \<and> ck_weekday ck now \<notin> set (si_weekdays r) then False
      else let s = govHHMM (si_start r); e = govHHMM (si_end r); cur = ck_minute ck now in
           if s < 0 \<or> e < 0 then True
           else if s \<le> e then s \<le> cur \<and> cur < e
           else s \<le> cur \<or> cur < e)"

section \<open>The decisions\<close>

definition govSilenced :: "clock \<Rightarrow> governance \<Rightarrow> alert \<Rightarrow> int \<Rightarrow> string option" where
  "govSilenced ck g a now =
     map_option si_name (find (\<lambda>r. si_enabled r \<and> alert_matches (si_match r) a \<and> activeNow ck now r) (go_silences g))"

definition inhibits :: "inhibit_rule \<Rightarrow> alert \<Rightarrow> alert \<Rightarrow> bool" where
  "inhibits r a x \<longleftrightarrow> alertKey x \<noteq> alertKey a \<and> \<not> (ih_sameHost r \<and> al_hostID x \<noteq> al_hostID a) \<and>
     alert_matches (ih_source r) x"

definition govInhibited :: "governance \<Rightarrow> alert \<Rightarrow> alert list \<Rightarrow> string option" where
  "govInhibited g a active =
     map_option ih_name (find (\<lambda>r. ih_enabled r \<and> alert_matches (ih_target r) a \<and>
       (\<exists>x\<in>set active. inhibits r a x)) (go_inhibits g))"

fun route_loop :: "alert \<Rightarrow> notify_route list \<Rightarrow> string list \<times> bool \<Rightarrow> string list \<times> bool" where
  "route_loop a [] acc = acc"
| "route_loop a (r # rs) (sel, routed) =
     (if \<not> nr_enabled r \<or> \<not> alert_matches (nr_match r) a then route_loop a rs (sel, routed)
      else let sel' = sel @ map (\<lambda>ch. to_lower (trim_space ch)) (nr_channels r) in
           if nr_continue r then route_loop a rs (sel', True) else (sel', True))"

definition govRouteChannels :: "governance \<Rightarrow> alert \<Rightarrow> string list \<times> bool" where
  "govRouteChannels g a = route_loop a (go_routes g) ([], False)"

section \<open>Saving the rules\<close>

text \<open>A rule without an id gets the first eight characters of a fresh token.\<close>

fun fill_ids :: "('r \<Rightarrow> string) \<Rightarrow> (string \<Rightarrow> 'r \<Rightarrow> 'r) \<Rightarrow> (nat \<Rightarrow> string) \<Rightarrow> nat \<Rightarrow> 'r list \<Rightarrow> 'r list \<times> nat" where
  "fill_ids get put token n [] = ([], n)"
| "fill_ids get put token n (r # rs) =
     (if trim_space (get r) = []
      then (let (rs', n') = fill_ids get put token (n + 1) rs in (put (take 8 (token n)) r # rs', n'))
      else (let (rs', n') = fill_ids get put token n rs in (r # rs', n')))"

definition SetGovernance :: "(nat \<Rightarrow> string) \<Rightarrow> governance \<Rightarrow> governance" where
  "SetGovernance token g =
     (let (ss, n1) = fill_ids si_id (\<lambda>i r. r\<lparr>si_id := i\<rparr>) token 0 (go_silences g);
          (hs, n2) = fill_ids ih_id (\<lambda>i r. r\<lparr>ih_id := i\<rparr>) token n1 (go_inhibits g);
          (rs, n3) = fill_ids nr_id (\<lambda>i r. r\<lparr>nr_id := i\<rparr>) token n2 (go_routes g)
      in \<lparr>go_silences = ss, go_inhibits = hs, go_routes = rs\<rparr>)"

definition handleSetGovernance :: "(nat \<Rightarrow> string) \<Rightarrow> governance \<Rightarrow> governance" where
  "handleSetGovernance token g =
     SetGovernance token
       \<lparr>go_silences = filter (\<lambda>r. si_name r \<noteq> []) (map (\<lambda>r. r\<lparr>si_name := trim_space (si_name r)\<rparr>) (go_silences g)),
        go_inhibits = filter (\<lambda>r. ih_name r \<noteq> []) (map (\<lambda>r. r\<lparr>ih_name := trim_space (ih_name r)\<rparr>) (go_inhibits g)),
        go_routes = filter (\<lambda>r. nr_name r \<noteq> []) (map (\<lambda>r. r\<lparr>nr_name := trim_space (nr_name r)\<rparr>) (go_routes g))\<rparr>"

section \<open>Sending\<close>

record channel_config =
  cc_feishu :: bool
  cc_feishuHook :: string
  cc_dingtalk :: bool
  cc_dingtalkHook :: string
  cc_smtp :: bool
  cc_smtpHost :: string
  cc_webhook :: bool
  cc_webhookURL :: string
  cc_sms :: bool
  cc_smsKey :: string
  cc_voice :: bool
  cc_voiceKey :: string

record alert_config =
  ac_enabled :: bool
  ac_governance :: governance
  ac_windows :: "change_window list"
  ac_channels :: channel_config

text \<open>The channels in the order of the code: name, whether it can be used, its recipients, and
  whether a failure is also reported as a fault of the platform.\<close>

definition channel_plan :: "channel_config \<Rightarrow> string list \<Rightarrow> (string \<times> bool \<times> string list \<times> bool) list" where
  "channel_plan c emails =
     [(''feishu'', cc_feishu c \<and> cc_feishuHook c \<noteq> [], [cc_feishuHook c], True),
      (''dingtalk'', cc_dingtalk c \<and> cc_dingtalkHook c \<noteq> [], [cc_dingtalkHook c], True),
      (''email'', cc_smtp c \<and> cc_smtpHost c \<noteq> [], emails, True),
      (''webhook'', cc_webhook c \<and> cc_webhookURL c \<noteq> [], [cc_webhookURL c], True),
      (''sms'', cc_sms c \<and> cc_smsKey c \<noteq> [], [cc_smsKey c], False),
      (''voicecall'', cc_voice c \<and> cc_voiceKey c \<noteq> [], [cc_voiceKey c], False)]"

datatype push_event =
    Sending string string
  | SendFailed string bool
  | SilencedBy string
  | InhibitedBy string
  | PushedTo "string list"

definition send_channel :: "(string \<Rightarrow> string \<Rightarrow> bool) \<Rightarrow> string \<Rightarrow> string list \<Rightarrow> bool \<Rightarrow> push_event list" where
  "send_channel deliver ch targets fault =
     concat (map (\<lambda>t. Sending ch t # (if deliver ch t then [] else [SendFailed ch fault])) targets)"

definition send_all ::
    "(string \<Rightarrow> string \<Rightarrow> bool) \<Rightarrow> (string \<Rightarrow> bool) \<Rightarrow> (string \<times> bool \<times> string list \<times> bool) list \<Rightarrow> push_event list" where
  "send_all deliver allowed plan =
     (let used = filter (\<lambda>(ch, usable, targets, fault). allowed ch \<and> usable) plan;
          sent = map fst (filter (\<lambda>(ch, usable, targets, fault). \<exists>t\<in>set targets. deliver ch t) used)
      in concat (map (\<lambda>(ch, usable, targets, fault). send_channel deliver ch targets fault) used) @
         (if sent \<noteq> [] then [PushedTo sent] else []))"

definition pushChannels ::
    "clock \<Rightarrow> int \<Rightarrow> (string \<Rightarrow> string \<Rightarrow> bool) \<Rightarrow> string list \<Rightarrow> alert list \<Rightarrow> alert_config \<Rightarrow> alert \<Rightarrow> bool \<Rightarrow>
     push_event list" where
  "pushChannels ck now deliver emails active cfg a firing =
     (let g = ac_governance cfg;
          send = (let (sel, routed) = govRouteChannels g a in
                  send_all deliver (\<lambda>ch. \<not> routed \<or> ch \<in> set sel) (channel_plan (ac_channels cfg) emails))
      in if firing
         then (case govSilenced ck g a now of
                 Some rule \<Rightarrow> [SilencedBy rule]
               | None \<Rightarrow> (case govInhibited g a active of
                   Some rule \<Rightarrow> [InhibitedBy rule]
                 | None \<Rightarrow> send))
         else send)"


section \<open>Which channels are tried\<close>

definition applies :: "alert \<Rightarrow> notify_route \<Rightarrow> bool" where
  "applies a r \<longleftrightarrow> nr_enabled r \<and> alert_matches (nr_match r) a"

text \<open>The routes an alert goes through: those that apply to it, up to the first that does not pass it on.\<close>

definition reached_route :: "alert \<Rightarrow> notify_route list \<Rightarrow> nat \<Rightarrow> bool" where
  "reached_route a rs i \<longleftrightarrow> i < length rs \<and> applies a (rs ! i) \<and>
     (\<forall>j<i. applies a (rs ! j) \<longrightarrow> nr_continue (rs ! j))"

definition names_channel :: "notify_route \<Rightarrow> string \<Rightarrow> bool" where
  "names_channel r ch \<longleftrightarrow> (\<exists>c\<in>set (nr_channels r). to_lower (trim_space c) = ch)"

lemma names_channel_set: "names_channel r ch \<longleftrightarrow> ch \<in> set (map (\<lambda>c. to_lower (trim_space c)) (nr_channels r))"
  by (auto simp: names_channel_def)

lemma reached_route_Nil [simp]: "\<not> reached_route a [] i"
  by (simp add: reached_route_def)

lemma reached_route_0: "reached_route a (r # rs) 0 \<longleftrightarrow> applies a r"
  by (simp add: reached_route_def)

lemma reached_route_Suc:
  "reached_route a (r # rs) (Suc i) \<longleftrightarrow> (applies a r \<longrightarrow> nr_continue r) \<and> reached_route a rs i"
  by (auto simp: reached_route_def All_less_Suc2)

definition routed_to :: "alert \<Rightarrow> notify_route list \<Rightarrow> string \<Rightarrow> bool" where
  "routed_to a rs ch \<longleftrightarrow> (\<exists>i. reached_route a rs i \<and> names_channel (rs ! i) ch)"

lemma routed_to_Nil: "\<not> routed_to a [] ch"
  by (simp add: routed_to_def)

lemma routed_to_Cons:
  "routed_to a (r # rs) ch \<longleftrightarrow>
     applies a r \<and> names_channel r ch \<or> (applies a r \<longrightarrow> nr_continue r) \<and> routed_to a rs ch"
proof -
  have split: "(\<exists>i. P i) \<longleftrightarrow> P 0 \<or> (\<exists>i. P (Suc i))" for P :: "nat \<Rightarrow> bool" by (metis not0_implies_Suc)
  show ?thesis unfolding routed_to_def
    by (subst split) (auto simp: reached_route_0 reached_route_Suc)
qed

lemma route_loop_exact:
  "route_loop a rs (sel, b) = (sel', b') \<Longrightarrow>
     b' = (b \<or> (\<exists>r\<in>set rs. applies a r)) \<and> (ch \<in> set sel' \<longleftrightarrow> ch \<in> set sel \<or> routed_to a rs ch)"
proof (induction rs arbitrary: sel b)
  case Nil
  then show ?case by (simp add: routed_to_Nil)
next
  case (Cons r rs)
  let ?sel = "sel @ map (\<lambda>c. to_lower (trim_space c)) (nr_channels r)"
  have sel: "ch \<in> set ?sel \<longleftrightarrow> ch \<in> set sel \<or> names_channel r ch" by (simp add: names_channel_set)
  show ?case
  proof (cases "applies a r")
    case False
    then have "route_loop a rs (sel, b) = (sel', b')" using Cons.prems by (auto simp: applies_def)
    from Cons.IH [OF this] False show ?thesis unfolding routed_to_Cons by auto
  next
    case on: True
    show ?thesis
    proof (cases "nr_continue r")
      case True
      then have "route_loop a rs (?sel, True) = (sel', b')" using Cons.prems on by (simp add: applies_def)
      from Cons.IH [OF this] on True sel show ?thesis unfolding routed_to_Cons by (metis list.set_intros(1))
    next
      case False
      then have "sel' = ?sel" "b'" using Cons.prems on by (auto simp: applies_def)
      with on False sel show ?thesis unfolding routed_to_Cons by (metis list.set_intros(1))
    qed
  qed
qed

lemma channels_exact:
  assumes "govRouteChannels g a = (sel, routed)"
  shows "routed \<longleftrightarrow> (\<exists>r\<in>set (go_routes g). applies a r)"
    and "ch \<in> set sel \<longleftrightarrow> routed_to a (go_routes g) ch"
  using route_loop_exact [OF assms [unfolded govRouteChannels_def], of ch] by auto

lemma sending_channel: "Sending c t \<in> set (send_channel deliver ch targets fault) \<longleftrightarrow> c = ch \<and> t \<in> set targets"
  by (auto simp: send_channel_def split: if_splits)

lemma sending_all:
  "Sending c t \<in> set (send_all deliver allowed plan) \<longleftrightarrow>
     allowed c \<and> (\<exists>targets fault. (c, True, targets, fault) \<in> set plan \<and> t \<in> set targets)"
  by (force simp: send_all_def Let_def sending_channel)

definition held_back :: "clock \<Rightarrow> int \<Rightarrow> governance \<Rightarrow> alert list \<Rightarrow> alert \<Rightarrow> bool" where
  "held_back ck now g active a \<longleftrightarrow>
     (\<exists>r\<in>set (go_silences g). si_enabled r \<and> alert_matches (si_match r) a \<and> activeNow ck now r) \<or>
     (\<exists>r\<in>set (go_inhibits g). ih_enabled r \<and> alert_matches (ih_target r) a \<and>
        (\<exists>x\<in>set active. alertKey x \<noteq> alertKey a \<and> (ih_sameHost r \<longrightarrow> al_hostID x = al_hostID a) \<and>
           alert_matches (ih_source r) x))"

lemma silenced_iff:
  "govSilenced ck g a now = None \<longleftrightarrow>
     \<not> (\<exists>r\<in>set (go_silences g). si_enabled r \<and> alert_matches (si_match r) a \<and> activeNow ck now r)"
  by (auto simp: govSilenced_def find_None_iff)

lemma inhibited_iff:
  "govInhibited g a active = None \<longleftrightarrow>
     \<not> (\<exists>r\<in>set (go_inhibits g). ih_enabled r \<and> alert_matches (ih_target r) a \<and>
        (\<exists>x\<in>set active. alertKey x \<noteq> alertKey a \<and> (ih_sameHost r \<longrightarrow> al_hostID x = al_hostID a) \<and>
           alert_matches (ih_source r) x))"
  by (auto simp: govInhibited_def find_None_iff inhibits_def)

lemma held_back_iff:
  "held_back ck now g active a \<longleftrightarrow> govSilenced ck g a now \<noteq> None \<or> govInhibited g a active \<noteq> None"
  unfolding silenced_iff inhibited_iff held_back_def by blast

text \<open>A message goes to a recipient of a channel exactly when the channel is set up, no rule holds the
  alert back (a recovery is never held back), and either no route applies or a route the alert goes
  through names the channel.\<close>

theorem notification_routing_exact:
  "Sending ch t \<in> set (pushChannels ck now deliver emails active cfg a firing) \<longleftrightarrow>
     (\<exists>targets fault. (ch, True, targets, fault) \<in> set (channel_plan (ac_channels cfg) emails) \<and> t \<in> set targets) \<and>
     \<not> (firing \<and> held_back ck now (ac_governance cfg) active a) \<and>
     ((\<nexists>r. r \<in> set (go_routes (ac_governance cfg)) \<and> applies a r) \<or>
      (\<exists>i. reached_route a (go_routes (ac_governance cfg)) i \<and> names_channel (go_routes (ac_governance cfg) ! i) ch))"
proof -
  let ?g = "ac_governance cfg"
  obtain sel routed where r: "govRouteChannels ?g a = (sel, routed)" by (rule prod.exhaust)
  define send where "send = send_all deliver (\<lambda>ch. \<not> routed \<or> ch \<in> set sel) (channel_plan (ac_channels cfg) emails)"
  have push: "pushChannels ck now deliver emails active cfg a firing =
      (if firing then (case govSilenced ck ?g a now of Some rule \<Rightarrow> [SilencedBy rule]
         | None \<Rightarrow> (case govInhibited ?g a active of Some rule \<Rightarrow> [InhibitedBy rule] | None \<Rightarrow> send)) else send)"
    unfolding pushChannels_def Let_def r send_def prod.case by (rule refl)
  have "Sending ch t \<in> set (pushChannels ck now deliver emails active cfg a firing) \<longleftrightarrow>
      \<not> (firing \<and> held_back ck now ?g active a) \<and> Sending ch t \<in> set send"
    unfolding push held_back_iff by (auto split: option.split)
  then show ?thesis unfolding send_def sending_all using channels_exact [OF r] unfolding routed_to_def by blast
qed

text \<open>A silence from 22:00 to 08:00 on Mondays is in force in the early hours of Monday, which belong to the
  night before, and not in the early hours of Tuesday, in which the night it names ends.\<close>

definition monday_night :: silence_rule where
  "monday_night = \<lparr>si_id = ''a'', si_name = ''night'', si_enabled = True,
     si_match = \<lparr>mt_host = [], mt_types = [], mt_levels = []\<rparr>, si_start = ''22:00'', si_end = ''08:00'', si_weekdays = [1]\<rparr>"

lemma overnight_silence_misplaced:
  "activeNow \<lparr>ck_weekday = (\<lambda>_. 1), ck_minute = (\<lambda>_. 60)\<rparr> now monday_night \<and>
   \<not> activeNow \<lparr>ck_weekday = (\<lambda>_. 2), ck_minute = (\<lambda>_. 60)\<rparr> now monday_night"
proof -
  have "govHHMM ''22:00'' = 22 * 60" "govHHMM ''08:00'' = 8 * 60"
    by (simp_all add: govHHMM_def atoiSafe_def trim_space_def is_space_def has_prefix_def Let_def numeral_2_eq_2)
  then show ?thesis by (simp add: activeNow_def monday_night_def)
qed

text \<open>Two rules by which each of two alerts hides the other keep both from being sent.\<close>

lemma mutual_inhibition_silences_both:
  assumes "r1 \<in> set (go_inhibits g)" "ih_enabled r1" "alert_matches (ih_source r1) a" "alert_matches (ih_target r1) b"
    and "r2 \<in> set (go_inhibits g)" "ih_enabled r2" "alert_matches (ih_source r2) b" "alert_matches (ih_target r2) a"
    and "a \<in> set active" "b \<in> set active" "alertKey a \<noteq> alertKey b" "al_hostID a = al_hostID b"
  shows "held_back ck now g active a \<and> held_back ck now g active b"
  unfolding held_back_def using assms by metis

lemma govHHMM_range: "govHHMM s = - 1 \<or> 0 \<le> govHHMM s \<and> govHHMM s < 24 * 60"
  by (auto simp: govHHMM_def Let_def split: option.splits)

end
