(* ===== verification/AlertEngine.thy ===== *)
theory AlertEngine
  imports AlertGov
begin

text \<open>
  The alert engine (\<open>Notifier\<close> of \<open>cmd/server/notify.go\<close>) and the history of alerts it keeps (\<open>store.go\<close>).
  Every ten seconds it compares the alerts evaluated from the hosts with those it takes for active. An
  alert fires after two rounds in a row and recovers after two rounds without it; each transition is
  written to the history, queued for the worker that sends messages, and passed to the incidents and,
  when it fires, to the remediation, of which the model keeps the calls. The order in which Go visits
  the keys of a map is a parameter; queue, history and incidents change under their own locks, each
  operation here being one of them or a round as a whole. (\<open>Trigger\<close>, after a change of the configuration, can
  run a round beside that of the ticker; rounds are taken one after the other here.)
\<close>

section \<open>The history of alerts\<close>

record alert_record =
  hi_id :: int
  hi_key :: string
  hi_hostID :: string
  hi_hostname :: string
  hi_ip :: string
  hi_level :: string
  hi_type :: string
  hi_scope :: string
  hi_message :: string
  hi_value :: rat
  hi_firedAt :: int
  hi_resolvedAt :: int
  hi_status :: string

record alert_log =
  lg_records :: "alert_record list"
  lg_seq :: int

definition maxAlertHistory :: nat where
  "maxAlertHistory = 500"

definition AddAlertRecord :: "int \<Rightarrow> alert_record \<Rightarrow> alert_log \<Rightarrow> alert_log \<times> int" where
  "AddAlertRecord now r l =
     (let i = lg_seq l + 1;
          r' = r\<lparr>hi_id := i, hi_firedAt := if hi_firedAt r = 0 then now else hi_firedAt r, hi_status := ''firing''\<rparr>
      in (l\<lparr>lg_seq := i, lg_records := last_n maxAlertHistory (lg_records l @ [r'])\<rparr>, i))"

definition ResolveAlert :: "string \<Rightarrow> int \<Rightarrow> alert_log \<Rightarrow> alert_log" where
  "ResolveAlert key t l =
     l\<lparr>lg_records := rev (update_first (\<lambda>r. hi_key r = key \<and> hi_resolvedAt r = 0)
         (\<lambda>r. r\<lparr>hi_resolvedAt := t, hi_status := ''resolved''\<rparr>) (rev (lg_records l)))\<rparr>"

definition AlertHistory :: "int \<Rightarrow> bool \<Rightarrow> alert_log \<Rightarrow> alert_record list" where
  "AlertHistory limit activeOnly l =
     take (if limit \<le> 0 then maxAlertHistory else nat limit)
       (filter (\<lambda>r. \<not> (activeOnly \<and> hi_resolvedAt r \<noteq> 0)) (rev (lg_records l)))"

definition ImportAlertHistory :: "alert_record list \<Rightarrow> alert_log \<Rightarrow> alert_log" where
  "ImportAlertHistory rs l =
     (if rs = [] then l
      else l\<lparr>lg_records := last_n maxAlertHistory rs, lg_seq := foldl (\<lambda>s r. if s < hi_id r then hi_id r else s) (lg_seq l) rs\<rparr>)"

section \<open>The engine\<close>

record push_job =
  pj_config :: alert_config
  pj_alert :: alert
  pj_firing :: bool

record notifier =
  nt_active :: "alert go_map"
  nt_since :: "int go_map"
  nt_records :: "int go_map"
  nt_pending :: "int go_map"
  nt_missing :: "int go_map"
  nt_queue :: "push_job list"
  nt_dropped :: int

definition NewNotifier :: notifier where
  "NewNotifier = \<lparr>nt_active = [], nt_since = [], nt_records = [], nt_pending = [], nt_missing = [],
     nt_queue = [], nt_dropped = 0\<rparr>"

definition notifyPushQueue :: nat where "notifyPushQueue = 512"
definition alertConfirmTicks :: int where "alertConfirmTicks = 2"
definition alertClearTicks :: int where "alertClearTicks = 2"

definition AlertActive :: "string \<Rightarrow> notifier \<Rightarrow> bool" where
  "AlertActive key n \<longleftrightarrow> key \<noteq> [] \<and> map_of (nt_active n) key \<noteq> None"

definition ResetState :: "notifier \<Rightarrow> notifier" where
  "ResetState n = n\<lparr>nt_active := [], nt_pending := [], nt_missing := []\<rparr>"

definition ActiveAlerts :: "key_order \<Rightarrow> notifier \<Rightarrow> alert list" where
  "ActiveAlerts ord n = map (\<lambda>k. the (map_of (nt_active n) k)) (ord (map fst (nt_active n)))"

definition ActiveSince :: "notifier \<Rightarrow> int go_map" where
  "ActiveSince n = nt_since n"

text \<open>The three loops of \<open>reconcile\<close>: over the alerts of this round, over the candidates, over the active ones.\<close>

definition see_one :: "int \<Rightarrow> alert go_map \<Rightarrow> notifier \<times> alert list \<Rightarrow> string \<Rightarrow> notifier \<times> alert list" where
  "see_one now cur s k =
     (let (n, fires) = s in
      case map_of cur k of None \<Rightarrow> (n, fires)
      | Some a \<Rightarrow>
          if map_of (nt_active n) k \<noteq> None
          then (n\<lparr>nt_active := AList.update k a (nt_active n), nt_missing := AList.delete k (nt_missing n)\<rparr>, fires)
          else let c = get_or 0 (nt_pending n) k + 1 in
            if alertConfirmTicks \<le> c
            then (n\<lparr>nt_active := AList.update k a (nt_active n), nt_since := AList.update k now (nt_since n),
                    nt_pending := AList.delete k (nt_pending n)\<rparr>, fires @ [a])
            else (n\<lparr>nt_pending := AList.update k c (nt_pending n)\<rparr>, fires))"

definition drop_candidates :: "alert go_map \<Rightarrow> notifier \<Rightarrow> notifier" where
  "drop_candidates cur n = n\<lparr>nt_pending := filter (\<lambda>e. map_of cur (fst e) \<noteq> None) (nt_pending n)\<rparr>"

definition clear_one :: "alert go_map \<Rightarrow> notifier \<times> alert list \<Rightarrow> string \<Rightarrow> notifier \<times> alert list" where
  "clear_one cur s k =
     (let (n, resolves) = s in
      case map_of (nt_active n) k of None \<Rightarrow> (n, resolves)
      | Some a \<Rightarrow>
          if map_of cur k \<noteq> None then (n, resolves)
          else let c = get_or 0 (nt_missing n) k + 1 in
            if alertClearTicks \<le> c
            then (n\<lparr>nt_active := AList.delete k (nt_active n), nt_missing := AList.delete k (nt_missing n),
                    nt_since := AList.delete k (nt_since n)\<rparr>, resolves @ [a])
            else (n\<lparr>nt_missing := AList.update k c (nt_missing n)\<rparr>, resolves))"

definition reconcile ::
    "key_order \<Rightarrow> key_order \<Rightarrow> int \<Rightarrow> alert go_map \<Rightarrow> notifier \<Rightarrow> notifier \<times> alert list \<times> alert list" where
  "reconcile ord1 ord2 now cur n =
     (let (n1, fires) = foldl (see_one now cur) (n, []) (ord1 (map fst cur));
          n2 = drop_candidates cur n1;
          (n3, resolves) = foldl (clear_one cur) (n2, []) (ord2 (map fst (nt_active n2)))
      in (n3, fires, resolves))"

definition enqueuePush :: "alert_config \<Rightarrow> alert \<Rightarrow> bool \<Rightarrow> notifier \<Rightarrow> notifier" where
  "enqueuePush cfg a firing n =
     (if length (nt_queue n) < notifyPushQueue
      then n\<lparr>nt_queue := nt_queue n @ [\<lparr>pj_config = cfg, pj_alert = a, pj_firing = firing\<rparr>]\<rparr>
      else n\<lparr>nt_dropped := nt_dropped n + 1\<rparr>)"

section \<open>A round\<close>

text \<open>What a round works on. The last two fields are outputs: the lines of the activity log and the
  alerts passed to the remediation with their incidents.\<close>

record alert_desk =
  ad_engine :: notifier
  ad_log :: alert_log
  ad_incidents :: incident_mgr
  ad_activity :: "(bool \<times> string \<times> string \<times> string) list"
  ad_remedies :: "(alert \<times> int) list"

definition new_desk :: alert_desk where
  "new_desk = \<lparr>ad_engine = NewNotifier, ad_log = \<lparr>lg_records = [], lg_seq = 0\<rparr>, ad_incidents = newIncidentManager,
     ad_activity = [], ad_remedies = []\<rparr>"

record tick_input =
  ti_now :: int
  ti_clock :: clock
  ti_config :: alert_config
  ti_alerts :: "alert list"
  ti_ord1 :: key_order
  ti_ord2 :: key_order

definition record_of :: "alert \<Rightarrow> alert_record" where
  "record_of a = \<lparr>hi_id = 0, hi_key = alertKey a, hi_hostID = al_hostID a, hi_hostname = al_hostname a, hi_ip = al_ip a,
     hi_level = al_level a, hi_type = al_type a, hi_scope = al_scope a, hi_message = al_message a, hi_value = al_value a,
     hi_firedAt = al_timestamp a, hi_resolvedAt = 0, hi_status = []\<rparr>"

definition dispatch :: "int \<Rightarrow> alert_config \<Rightarrow> alert \<Rightarrow> bool \<Rightarrow> alert_desk \<Rightarrow> alert_desk" where
  "dispatch now cfg a firing d =
     (let key = alertKey a;
          d1 = d\<lparr>ad_activity := ad_activity d @ [(firing, if firing then al_level a else ''info'', al_hostname a, al_message a)]\<rparr>;
          n = ad_engine d1;
          d2 = (if firing
                then (let (l, i) = AddAlertRecord now (record_of a) (ad_log d1)
                      in d1\<lparr>ad_log := l, ad_engine := n\<lparr>nt_records := AList.update key i (nt_records n)\<rparr>\<rparr>)
                else d1\<lparr>ad_log := ResolveAlert key now (ad_log d1),
                        ad_engine := n\<lparr>nt_records := AList.delete key (nt_records n)\<rparr>\<rparr>)
      in d2\<lparr>ad_engine := enqueuePush cfg a firing (ad_engine d2)\<rparr>)"

definition freeze_note :: "string \<Rightarrow> string" where
  "freeze_note name = utf8_text [0xE5, 0xA4, 0x84, 0xE4, 0xBA, 0x8E, 0xE5, 0x8F, 0x98, 0xE6, 0x9B, 0xB4, 0xE7, 0xAA, 0x97,
       0x2F, 0xE5, 0x86, 0xBB, 0xE7, 0xBB, 0x93, 0xE6, 0x9C, 0x9F, 0xE3, 0x80, 0x8C] @ name @ utf8_text [0xE3, 0x80, 0x8D]"

definition annotate_freeze :: "int \<Rightarrow> clock \<Rightarrow> change_window list \<Rightarrow> alert \<Rightarrow> int \<Rightarrow> incident_mgr \<Rightarrow> incident_mgr" where
  "annotate_freeze now ck ws a i m =
     (case activeFreezeWindow ck ws (al_hostID a) (al_type a) now of None \<Rightarrow> m
      | Some w \<Rightarrow>
          let note = freeze_note (cw_name w);
              already = (case incidentGet m i of None \<Rightarrow> False
                         | Some inc \<Rightarrow> \<exists>ev\<in>set (i_timeline inc). ie_actor ev = ''change-window'' \<and> ie_text ev = note)
          in if already then m else AddEvent now i ''note'' ''change-window'' note m)"

definition handle_transition :: "tick_input \<Rightarrow> alert_desk \<Rightarrow> alert \<times> bool \<Rightarrow> alert_desk" where
  "handle_transition t d tr =
     (let (a, firing) = tr; now = ti_now t; cfg = ti_config t;
          d1 = dispatch now cfg a firing d;
          (m, i, ev) = OnAlertTransition now (alert_info.truncate a) (alertKey a) firing (ad_incidents d1)
      in if firing \<and> i \<noteq> 0
         then d1\<lparr>ad_incidents := annotate_freeze now (ti_clock t) (ac_windows cfg) a i m,
                 ad_remedies := ad_remedies d1 @ [(a, i)]\<rparr>
         else d1\<lparr>ad_incidents := m\<rparr>)"

definition current_alerts :: "alert list \<Rightarrow> alert go_map" where
  "current_alerts as = foldl (\<lambda>m a. AList.update (alertKey a) a m) [] as"

definition tick :: "tick_input \<Rightarrow> alert_desk \<Rightarrow> alert_desk" where
  "tick t d =
     (let (n, fires, resolves) = reconcile (ti_ord1 t) (ti_ord2 t) (ti_now t) (current_alerts (ti_alerts t)) (ad_engine d);
          todo = (if ac_enabled (ti_config t) then map (\<lambda>a. (a, True)) fires @ map (\<lambda>a. (a, False)) resolves else [])
      in foldl (handle_transition t) (d\<lparr>ad_engine := n\<rparr>) todo)"

text \<open>The worker that sends takes the oldest job; what it reads of the active alerts is as of now.\<close>

definition push_next ::
    "clock \<Rightarrow> int \<Rightarrow> (string \<Rightarrow> string \<Rightarrow> bool) \<Rightarrow> string list \<Rightarrow> key_order \<Rightarrow> notifier \<Rightarrow> notifier \<times> push_event list" where
  "push_next ck now deliver emails ord n =
     (case nt_queue n of [] \<Rightarrow> (n, [])
      | j # js \<Rightarrow> (n\<lparr>nt_queue := js\<rparr>,
          pushChannels ck now deliver emails (ActiveAlerts ord n) (pj_config j) (pj_alert j) (pj_firing j)))"

end
