(* ===== verification/AlertSafety.thy ===== *)
theory AlertSafety
  imports AlertEngine Transition
begin

text \<open>
  The alert engine against a machine of four phases per alert key, over any run of rounds and operations of
  the console: what one key goes through does not depend on the others nor on the order in which Go walks its
  maps. Saving the configuration (\<open>ResetState\<close>, called by \<open>admin_api.go\<close>) and a restart forget every phase.
\<close>

section \<open>One key\<close>

type_synonym key_view = "alert option \<times> int option \<times> int option"

definition view :: "notifier \<Rightarrow> string \<Rightarrow> key_view" where
  "view n k = (map_of (nt_active n) k, map_of (nt_pending n) k, map_of (nt_missing n) k)"

definition count_up :: "int option \<Rightarrow> int" where
  "count_up c = (case c of None \<Rightarrow> 0 | Some i \<Rightarrow> i) + 1"

fun seen_view :: "alert option \<Rightarrow> key_view \<Rightarrow> key_view" where
  "seen_view None v = v"
| "seen_view (Some a) (Some b, pen, mis) = (Some a, pen, None)"
| "seen_view (Some a) (None, pen, mis) =
     (if 2 \<le> count_up pen then (Some a, None, mis) else (None, Some (count_up pen), mis))"

fun dropped_view :: "alert option \<Rightarrow> key_view \<Rightarrow> key_view" where
  "dropped_view u (act, pen, mis) = (act, if u = None then None else pen, mis)"

fun cleared_view :: "alert option \<Rightarrow> key_view \<Rightarrow> key_view" where
  "cleared_view u (None, pen, mis) = (None, pen, mis)"
| "cleared_view (Some a) (Some b, pen, mis) = (Some b, pen, mis)"
| "cleared_view None (Some b, pen, mis) =
     (if 2 \<le> count_up mis then (None, pen, None) else (Some b, pen, Some (count_up mis)))"

fun raises :: "alert option \<Rightarrow> key_view \<Rightarrow> alert list" where
  "raises (Some a) (None, pen, mis) = (if 2 \<le> count_up pen then [a] else [])"
| "raises u v = []"

fun clears :: "alert option \<Rightarrow> key_view \<Rightarrow> alert list" where
  "clears None (Some b, pen, mis) = (if 2 \<le> count_up mis then [b] else [])"
| "clears u v = []"

lemma get_or_count: "get_or 0 m k + 1 = count_up (map_of m k)"
  by (simp add: get_or_def count_up_def)

lemma see_one_view:
  "view (fst (see_one now cur (n, fs) k)) j = (if j = k then seen_view (map_of cur k) (view n k) else view n j)"
proof (cases "map_of cur k")
  case (Some a)
  then show ?thesis
    by (cases "map_of (nt_active n) k")
      (simp_all add: see_one_def view_def get_or_count Let_def alertConfirmTicks_def update_conv' delete_conv')
qed (simp add: see_one_def view_def)

lemma see_one_fires: "snd (see_one now cur (n, fs) k) = fs @ raises (map_of cur k) (view n k)"
proof (cases "map_of cur k")
  case (Some a)
  then show ?thesis
    by (cases "map_of (nt_active n) k")
      (simp_all add: see_one_def view_def get_or_count Let_def alertConfirmTicks_def)
qed (simp add: see_one_def)

lemma see_one_distinct:
  "keys_distinct (nt_active n) \<Longrightarrow> keys_distinct (nt_active (fst (see_one now cur (n, fs) k)))"
  by (simp add: see_one_def Let_def distinct_update split: option.split)

lemma clear_one_view:
  "view (fst (clear_one cur (n, rs) k)) j = (if j = k then cleared_view (map_of cur k) (view n k) else view n j)"
proof (cases "map_of (nt_active n) k")
  case (Some a)
  then show ?thesis
    by (cases "map_of cur k")
      (simp_all add: clear_one_def view_def get_or_count Let_def alertClearTicks_def update_conv' delete_conv')
qed (simp add: clear_one_def view_def)

lemma clear_one_resolves: "snd (clear_one cur (n, rs) k) = rs @ clears (map_of cur k) (view n k)"
proof (cases "map_of (nt_active n) k")
  case (Some a)
  then show ?thesis
    by (cases "map_of cur k") (simp_all add: clear_one_def view_def get_or_count Let_def alertClearTicks_def)
qed (cases "map_of cur k"; simp add: clear_one_def view_def)

lemma clear_one_distinct:
  "keys_distinct (nt_active n) \<Longrightarrow> keys_distinct (nt_active (fst (clear_one cur (n, rs) k)))"
  by (simp add: clear_one_def Let_def distinct_delete split: option.split)

lemma see_one_frame:
  "nt_queue (fst (see_one now cur (n, fs) k)) = nt_queue n" "nt_records (fst (see_one now cur (n, fs) k)) = nt_records n"
  by (simp_all add: see_one_def Let_def split: option.split)

lemma clear_one_frame:
  "nt_queue (fst (clear_one cur (n, rs) k)) = nt_queue n" "nt_records (fst (clear_one cur (n, rs) k)) = nt_records n"
  by (simp_all add: clear_one_def Let_def split: option.split)

lemma drop_candidates_view: "view (drop_candidates cur n) k = dropped_view (map_of cur k) (view n k)"
proof -
  have "map_of (filter (\<lambda>e. map_of cur (fst e) \<noteq> None) m) k = (if map_of cur k = None then None else map_of m k)"
    for m :: "int go_map"
    by (induction m) auto
  then show ?thesis by (simp add: drop_candidates_def view_def)
qed

text \<open>A loop over distinct keys that touches, for each key, only that key.\<close>

lemma keyed_loop:
  assumes "distinct ks"
    and view: "\<And>n fs k j. view (fst (f (n, fs) k)) j = (if j = k then g k (view n k) else view n j)"
    and outp: "\<And>n fs k. snd (f (n, fs) k) = fs @ h k (view n k)"
  shows "view (fst (foldl f (n, fs) ks)) j = (if j \<in> set ks then g j (view n j) else view n j)"
    and "snd (foldl f (n, fs) ks) = fs @ concat (map (\<lambda>k. h k (view n k)) ks)"
  using assms(1)
proof (induction ks arbitrary: n fs)
  case (Cons k ks)
  {
    case 1
    obtain n1 fs1 where s: "f (n, fs) k = (n1, fs1)" by (rule prod.exhaust)
    have "view n1 i = (if i = k then g k (view n k) else view n i)" for i using view [of n fs k i] s by simp
    then show ?case using Cons(1) [of n1 fs1] 1 s by auto
  next
    case 2
    obtain n1 fs1 where s: "f (n, fs) k = (n1, fs1)" by (rule prod.exhaust)
    have v: "view n1 i = (if i = k then g k (view n k) else view n i)" for i using view [of n fs k i] s by simp
    have "fs1 = fs @ h k (view n k)" using outp [of n fs k] s by simp
    moreover have m: "map (\<lambda>i. h i (view n1 i)) ks = map (\<lambda>i. h i (view n i)) ks"
      using 2 v by (auto intro!: map_cong)
    moreover have "snd (foldl f (n1, fs1) ks) = fs1 @ concat (map (\<lambda>i. h i (view n1 i)) ks)"
      using Cons(2) [of n1 fs1] 2 by simp
    ultimately show ?case by (simp only: foldl_Cons s list.map concat.simps append_assoc)
  }
qed simp_all

lemma loop_keeps:
  assumes "\<And>n fs k. P n \<Longrightarrow> P (fst (f (n, fs) k))" and "P n"
  shows "P (fst (foldl f (n, fs) ks))"
  using assms(2)
proof (induction ks arbitrary: n fs)
  case (Cons k ks)
  obtain n1 fs1 where s: "f (n, fs) k = (n1, fs1)" by (rule prod.exhaust)
  then have "P n1" using assms(1) [OF Cons.prems, of fs k] by simp
  then show ?case using Cons.IH s by simp
qed simp


section \<open>The four phases\<close>

datatype phase = Quiet | Rising | Firing | Fading

text \<open>What a round does to a key that is present in it or not.\<close>

fun next_phase :: "phase \<Rightarrow> bool \<Rightarrow> phase" where
  "next_phase Quiet p = (if p then Rising else Quiet)"
| "next_phase Rising p = (if p then Firing else Quiet)"
| "next_phase Firing p = (if p then Firing else Fading)"
| "next_phase Fading p = (if p then Firing else Quiet)"

fun view_phase :: "key_view \<Rightarrow> phase" where
  "view_phase (Some a, pen, mis) = (if mis = None then Firing else Fading)"
| "view_phase (None, pen, mis) = (if pen = None then Quiet else Rising)"

definition phase_of :: "notifier \<Rightarrow> string \<Rightarrow> phase" where
  "phase_of n k = view_phase (view n k)"

fun view_ok :: "string \<Rightarrow> key_view \<Rightarrow> bool" where
  "view_ok k (Some a, pen, mis) \<longleftrightarrow> alertKey a = k \<and> pen = None \<and> (mis = None \<or> mis = Some 1)"
| "view_ok k (None, pen, mis) \<longleftrightarrow> mis = None \<and> (pen = None \<or> pen = Some 1)"

definition engine_ok :: "notifier \<Rightarrow> bool" where
  "engine_ok n \<longleftrightarrow> keys_distinct (nt_active n) \<and> (\<forall>k. view_ok k (view n k))"

definition round_view :: "alert option \<Rightarrow> key_view \<Rightarrow> key_view" where
  "round_view u v = cleared_view u (dropped_view u (seen_view u v))"

lemma round_view_ok:
  assumes "view_ok k v" "\<And>a. u = Some a \<Longrightarrow> alertKey a = k"
  shows "view_ok k (round_view u v) \<and> view_phase (round_view u v) = next_phase (view_phase v) (u \<noteq> None) \<and>
     fst (round_view u v) = (if view_phase (round_view u v) \<in> {Firing, Fading} then (if u = None then fst v else u) else None) \<and>
     raises u v = (if view_phase v = Rising \<and> u \<noteq> None then [the u] else []) \<and>
     clears u (dropped_view u (seen_view u v)) = (if view_phase v = Fading \<and> u = None then [the (fst v)] else [])"
proof -
  obtain act pen mis where v: "v = (act, pen, mis)" by (cases v) auto
  show ?thesis using assms unfolding v
    by (cases act; cases u) (auto simp: round_view_def count_up_def)
qed

lemma active_phase: "map_of (nt_active n) k \<noteq> None \<longleftrightarrow> phase_of n k \<in> {Firing, Fading}"
  by (cases "map_of (nt_active n) k") (auto simp: phase_of_def view_def)

lemma current_alerts_keys: "keys_distinct (current_alerts as)"
proof -
  have "keys_distinct m \<Longrightarrow> keys_distinct (foldl (\<lambda>m a. AList.update (alertKey a) a m) m as)" for m
    by (induction as arbitrary: m) (simp_all add: distinct_update)
  then show ?thesis by (simp add: current_alerts_def)
qed

lemma current_alerts_key: "map_of (current_alerts as) k = Some a \<Longrightarrow> alertKey a = k \<and> a \<in> set as"
proof -
  have "map_of (foldl (\<lambda>m a. AList.update (alertKey a) a m) m as) k = Some a \<Longrightarrow>
      map_of m k = Some a \<or> alertKey a = k \<and> a \<in> set as" for m
  proof (induction as arbitrary: m)
    case (Cons b as)
    from Cons.IH [of "AList.update (alertKey b) b m"] Cons.prems show ?case by (auto simp: update_conv' split: if_splits)
  qed simp
  from this [of "[]"] show "map_of (current_alerts as) k = Some a \<Longrightarrow> alertKey a = k \<and> a \<in> set as"
    by (simp add: current_alerts_def)
qed

lemma current_alerts_present: "map_of (current_alerts as) k \<noteq> None \<longleftrightarrow> k \<in> alertKey ` set as"
proof -
  have "map_of (foldl (\<lambda>m a. AList.update (alertKey a) a m) m as) k \<noteq> None \<longleftrightarrow>
      map_of m k \<noteq> None \<or> k \<in> alertKey ` set as" for m
    by (induction as arbitrary: m) (auto simp: update_conv' split: if_splits)
  from this [of "[]"] show ?thesis by (simp add: current_alerts_def)
qed

definition present :: "alert list \<Rightarrow> string \<Rightarrow> bool" where
  "present as k \<longleftrightarrow> k \<in> alertKey ` set as"

lemma concat_keys:
  assumes "distinct ks" "\<And>k a. k \<in> set ks \<Longrightarrow> a \<in> set (F k) \<Longrightarrow> alertKey a = k" "\<And>k. distinct (F k)"
    and "\<And>k. length (F k) \<le> 1"
  shows "distinct (map alertKey (concat (map F ks)))"
  using assms(1,2)
proof (induction ks)
  case (Cons k ks)
  have "distinct (map alertKey (F k))" using assms(4) [of k] by (cases "F k") auto
  moreover have "alertKey ` set (F k) \<subseteq> {k}" using Cons.prems(2) by auto
  moreover have "k \<notin> alertKey ` set (concat (map F ks))"
  proof
    assume "k \<in> alertKey ` set (concat (map F ks))"
    then obtain j a where "j \<in> set ks" "a \<in> set (F j)" "alertKey a = k" by auto
    then show False using Cons.prems(1) Cons.prems(2) [of j a] by auto
  qed
  ultimately show ?case using Cons by (auto simp: map_concat)
qed simp

lemma reconcile_exact:
  assumes ok: "engine_ok n" and ords: "order_ok ord1" "order_ok ord2"
    and r: "reconcile ord1 ord2 now (current_alerts as) n = (n', fires, resolves)"
  shows "engine_ok n'" "phase_of n' k = next_phase (phase_of n k) (present as k)"
    "map_of (nt_active n') k = (if phase_of n' k \<in> {Firing, Fading}
       then (if present as k then map_of (current_alerts as) k else map_of (nt_active n) k) else None)"
    "distinct (map alertKey fires)" "distinct (map alertKey resolves)"
    "a \<in> set fires \<longleftrightarrow> phase_of n (alertKey a) = Rising \<and> map_of (current_alerts as) (alertKey a) = Some a"
    "a \<in> set resolves \<longleftrightarrow> phase_of n (alertKey a) = Fading \<and> \<not> present as (alertKey a) \<and>
       map_of (nt_active n) (alertKey a) = Some a"
    "nt_queue n' = nt_queue n" "nt_records n' = nt_records n"
proof -
  let ?cur = "current_alerts as"
  let ?u = "\<lambda>k. map_of ?cur k"
  have dist: "keys_distinct (nt_active n)" and ok1: "view_ok k (view n k)" for k using ok by (auto simp: engine_ok_def)
  have ks1: "distinct (ord1 (map fst ?cur))" "set (ord1 (map fst ?cur)) = fst ` set ?cur"
    using ords(1) current_alerts_keys [of as] by (simp_all add: order_ok_def)
  have key: "alertKey b = j" if "?u j = Some b" for j b using current_alerts_key that by blast
  have pres: "present as j \<longleftrightarrow> ?u j \<noteq> None" for j by (simp only: present_def current_alerts_present)
  obtain n1 where l1: "foldl (see_one now ?cur) (n, []) (ord1 (map fst ?cur)) = (n1, fires)"
    using r by (auto simp: reconcile_def Let_def split: prod.splits)
  define n2 where "n2 = drop_candidates ?cur n1"
  have l2: "foldl (clear_one ?cur) (n2, []) (ord2 (map fst (nt_active n2))) = (n', resolves)"
    using r l1 by (simp add: reconcile_def Let_def n2_def split: prod.splits)
  have out: "?u j = None" if "j \<notin> set (ord1 (map fst ?cur))" for j using that ks1(2) by (simp add: map_of_eq_None_iff)
  have v1: "view n1 j = seen_view (?u j) (view n j)" for j
    using keyed_loop(1) [of "ord1 (map fst ?cur)" "see_one now ?cur" "\<lambda>k. seen_view (?u k)" "\<lambda>k. raises (?u k)", OF ks1(1) see_one_view see_one_fires, of n "[]" j]
      l1 out by auto
  have f1: "fires = concat (map (\<lambda>k. raises (?u k) (view n k)) (ord1 (map fst ?cur)))"
    using keyed_loop(2) [of "ord1 (map fst ?cur)" "see_one now ?cur" "\<lambda>k. seen_view (?u k)" "\<lambda>k. raises (?u k)", OF ks1(1) see_one_view see_one_fires, of n "[]"]
      l1 by simp
  have v2: "view n2 j = dropped_view (?u j) (seen_view (?u j) (view n j))" for j
    by (simp add: n2_def drop_candidates_view v1)
  have d1: "keys_distinct (nt_active n1)"
    using loop_keeps [of "\<lambda>n. keys_distinct (nt_active n)" "see_one now ?cur", OF see_one_distinct dist, of "[]"] l1 by (metis fst_conv)
  then have d2: "keys_distinct (nt_active n2)" by (simp add: n2_def drop_candidates_def)
  have ks2: "distinct (ord2 (map fst (nt_active n2)))" "set (ord2 (map fst (nt_active n2))) = fst ` set (nt_active n2)"
    using ords(2) d2 by (simp_all add: order_ok_def)
  have out2: "cleared_view (?u j) (view n2 j) = view n2 j" if "j \<notin> set (ord2 (map fst (nt_active n2)))" for j
  proof -
    have "map_of (nt_active n2) j = None" using that ks2(2) by (simp add: map_of_eq_None_iff)
    then show ?thesis by (simp add: view_def)
  qed
  have v3: "view n' j = round_view (?u j) (view n j)" for j
    using keyed_loop(1) [of "ord2 (map fst (nt_active n2))" "clear_one ?cur" "\<lambda>k. cleared_view (?u k)" "\<lambda>k. clears (?u k)", OF ks2(1) clear_one_view clear_one_resolves, of n2 "[]" j]
      l2 out2 [of j] v2 by (auto simp: round_view_def)
  have f2: "resolves = concat (map (\<lambda>k. clears (?u k) (view n2 k)) (ord2 (map fst (nt_active n2))))"
    using keyed_loop(2) [of "ord2 (map fst (nt_active n2))" "clear_one ?cur" "\<lambda>k. cleared_view (?u k)" "\<lambda>k. clears (?u k)", OF ks2(1) clear_one_view clear_one_resolves, of n2 "[]"]
      l2 by simp
  have d3: "keys_distinct (nt_active n')"
    using loop_keeps [of "\<lambda>n. keys_distinct (nt_active n)" "clear_one ?cur", OF clear_one_distinct d2, of "[]"] l2 by (metis fst_conv)
  show "engine_ok n'" using d3 round_view_ok [OF ok1 key] by (simp add: engine_ok_def v3)
  show "phase_of n' k = next_phase (phase_of n k) (present as k)" using round_view_ok [where u = "?u k" and k = k, OF ok1 key] by (simp add: phase_of_def v3 pres)
  show "map_of (nt_active n') k = (if phase_of n' k \<in> {Firing, Fading}
       then (if present as k then ?u k else map_of (nt_active n) k) else None)"
    proof -
    have "fst (view m k) = map_of (nt_active m) k" for m by (simp add: view_def)
    moreover have "view_phase (view n' k) = phase_of n' k" by (simp add: phase_of_def)
    ultimately show ?thesis
      using round_view_ok [where u = "?u k" and k = k, OF ok1 key] pres [of k] unfolding v3 [symmetric] by presburger
  qed
  have F: "raises (?u j) (view n j) = (if phase_of n j = Rising \<and> present as j then [the (?u j)] else [])" for j
    using round_view_ok [where u = "?u j" and k = j, OF ok1 key] by (simp add: phase_of_def pres)
  have C: "clears (?u j) (view n2 j) = (if phase_of n j = Fading \<and> \<not> present as j then [the (map_of (nt_active n) j)] else [])" for j
    using round_view_ok [where u = "?u j" and k = j, OF ok1 key] by (simp add: phase_of_def pres v2) (simp add: view_def)
  have keyF: "alertKey b = j" if "b \<in> set (raises (?u j) (view n j))" for b j
    using that key [of j] by (auto simp: F pres split: if_splits)
  have actK: "alertKey b = j" if "map_of (nt_active n) j = Some b" for b j
    using ok1 [of j] that by (simp add: view_def)
  have fad: "map_of (nt_active n) j \<noteq> None" if "phase_of n j = Fading" for j using that active_phase [of n j] by simp
  have keyC: "alertKey b = j" if "b \<in> set (clears (?u j) (view n2 j))" for b j
    using that actK [of j] fad [of j] by (auto simp: C split: if_splits)
  show "distinct (map alertKey fires)" unfolding f1
    by (rule concat_keys [OF ks1(1)]) (use keyF in blast, simp_all add: F)
  show "distinct (map alertKey resolves)" unfolding f2
    by (rule concat_keys [OF ks2(1)]) (use keyC in blast, simp_all add: C)
  show "a \<in> set fires \<longleftrightarrow> phase_of n (alertKey a) = Rising \<and> ?u (alertKey a) = Some a"
  proof
    assume "a \<in> set fires"
    then obtain j where j: "a \<in> set (raises (?u j) (view n j))" by (auto simp: f1)
    then have "alertKey a = j" by (rule keyF)
    with j show "phase_of n (alertKey a) = Rising \<and> ?u (alertKey a) = Some a" by (auto simp: F pres split: if_splits)
  next
    assume h: "phase_of n (alertKey a) = Rising \<and> ?u (alertKey a) = Some a"
    then have "alertKey a \<in> set (ord1 (map fst ?cur))" using out by fastforce
    moreover have "raises (?u (alertKey a)) (view n (alertKey a)) = [a]"
      using h F [of "alertKey a"] pres [of "alertKey a"] by simp
    ultimately show "a \<in> set fires" by (force simp: f1)
  qed
  show "a \<in> set resolves \<longleftrightarrow> phase_of n (alertKey a) = Fading \<and> \<not> present as (alertKey a) \<and> map_of (nt_active n) (alertKey a) = Some a"
  proof
    assume "a \<in> set resolves"
    then obtain j where j: "a \<in> set (clears (?u j) (view n2 j))" by (auto simp: f2)
    then have "alertKey a = j" by (rule keyC)
    with j fad [of j] show "phase_of n (alertKey a) = Fading \<and> \<not> present as (alertKey a) \<and> map_of (nt_active n) (alertKey a) = Some a"
      by (auto simp: C split: if_splits)
  next
    assume h: "phase_of n (alertKey a) = Fading \<and> \<not> present as (alertKey a) \<and> map_of (nt_active n) (alertKey a) = Some a"
    then have "map_of (nt_active n2) (alertKey a) = Some a"
      using v2 [of "alertKey a"] pres [of "alertKey a"] by (simp add: view_def)
    then have "alertKey a \<in> set (ord2 (map fst (nt_active n2)))" using ks2(2) by (force dest: map_of_SomeD)
    moreover have "clears (?u (alertKey a)) (view n2 (alertKey a)) = [a]" using h C [of "alertKey a"] by simp
    ultimately show "a \<in> set resolves" by (force simp: f2)
  qed
  have q1: "nt_queue n1 = nt_queue n \<and> nt_records n1 = nt_records n"
    using loop_keeps [where P = "\<lambda>m. nt_queue m = nt_queue n \<and> nt_records m = nt_records n" and f = "see_one now ?cur"
        and n = n and fs = "[]" and ks = "ord1 (map fst ?cur)"] l1
    by (simp add: see_one_frame)
  have q2: "nt_queue n' = nt_queue n2 \<and> nt_records n' = nt_records n2"
    using loop_keeps [where P = "\<lambda>m. nt_queue m = nt_queue n2 \<and> nt_records m = nt_records n2" and f = "clear_one ?cur"
        and n = n2 and fs = "[]" and ks = "ord2 (map fst (nt_active n2))"] l2
    by (simp add: clear_one_frame)
  show "nt_queue n' = nt_queue n" "nt_records n' = nt_records n"
    using q1 q2 by (simp_all add: n2_def drop_candidates_def)
qed


section \<open>Runs\<close>

text \<open>\<open>Round\<close> is a tick, \<open>Saved\<close> what the handler of the configuration does before it triggers a round, \<open>Restart\<close>
  the loss of the engine's memory with the process (history and incidents come back from the database),
  \<open>Sent\<close> a job taken by the worker, \<open>Console\<close> any other operation on the incidents.\<close>

datatype desk_event =
    Round tick_input
  | Saved
  | Restart
  | Sent
  | Console incident_op

fun desk_step :: "alert_desk \<Rightarrow> desk_event \<Rightarrow> alert_desk" where
  "desk_step d (Round t) = tick t d"
| "desk_step d Saved = d\<lparr>ad_engine := ResetState (ad_engine d)\<rparr>"
| "desk_step d Restart = d\<lparr>ad_engine := NewNotifier\<rparr>"
| "desk_step d Sent = d\<lparr>ad_engine := (ad_engine d)\<lparr>nt_queue := tl (nt_queue (ad_engine d))\<rparr>\<rparr>"
| "desk_step d (Console op) = d\<lparr>ad_incidents := incident_step (ad_incidents d) op\<rparr>"

abbreviation desk_after :: "desk_event list \<Rightarrow> alert_desk" where
  "desk_after es \<equiv> run desk_step new_desk es"

lemma push_next_queue: "fst (push_next ck now deliver emails ord n) = n\<lparr>nt_queue := tl (nt_queue n)\<rparr>"
  by (cases "nt_queue n") (simp_all add: push_next_def)

fun event_ok :: "desk_event \<Rightarrow> bool" where
  "event_ok (Round t) \<longleftrightarrow> order_ok (ti_ord1 t) \<and> order_ok (ti_ord2 t)"
| "event_ok e \<longleftrightarrow> True"

lemma same_view [simp]:
  "view (n\<lparr>nt_queue := q\<rparr>) = view n" "view (n\<lparr>nt_dropped := x\<rparr>) = view n" "view (n\<lparr>nt_records := r\<rparr>) = view n"
  by (simp_all add: view_def fun_eq_iff)

lemma same_engine [simp]:
  "engine_ok (n\<lparr>nt_queue := q\<rparr>) = engine_ok n" "engine_ok (n\<lparr>nt_dropped := x\<rparr>) = engine_ok n"
  "engine_ok (n\<lparr>nt_records := r\<rparr>) = engine_ok n"
  by (simp_all add: engine_ok_def)

lemma same_phase [simp]:
  "phase_of (n\<lparr>nt_queue := q\<rparr>) = phase_of n" "phase_of (n\<lparr>nt_dropped := x\<rparr>) = phase_of n"
  "phase_of (n\<lparr>nt_records := r\<rparr>) = phase_of n"
  by (simp_all add: phase_of_def fun_eq_iff)

lemma enqueue_view [simp]:
  "view (enqueuePush cfg a b n) = view n" "engine_ok (enqueuePush cfg a b n) = engine_ok n"
  "phase_of (enqueuePush cfg a b n) = phase_of n"
  by (simp_all add: enqueuePush_def)

lemma handle_view:
  "phase_of (ad_engine (handle_transition t d tr)) = phase_of (ad_engine d)"
  "engine_ok (ad_engine (handle_transition t d tr)) = engine_ok (ad_engine d)"
  by (cases tr; simp add: handle_transition_def dispatch_def Let_def split: prod.split)+

lemma handle_all_view:
  "phase_of (ad_engine (foldl (handle_transition t) d trs)) = phase_of (ad_engine d)"
  "engine_ok (ad_engine (foldl (handle_transition t) d trs)) = engine_ok (ad_engine d)"
  by (induction trs arbitrary: d) (simp_all add: handle_view)

lemma tick_engine:
  assumes "engine_ok (ad_engine d)" "order_ok (ti_ord1 t)" "order_ok (ti_ord2 t)"
  shows "engine_ok (ad_engine (tick t d))"
    and "phase_of (ad_engine (tick t d)) k = next_phase (phase_of (ad_engine d) k) (present (ti_alerts t) k)"
proof -
  obtain n fires resolves where r: "reconcile (ti_ord1 t) (ti_ord2 t) (ti_now t) (current_alerts (ti_alerts t)) (ad_engine d)
      = (n, fires, resolves)" by (rule prod_cases3)
  note ex = reconcile_exact [OF assms r]
  show "engine_ok (ad_engine (tick t d))" using ex(1) by (simp add: tick_def r Let_def handle_all_view)
  show "phase_of (ad_engine (tick t d)) k = next_phase (phase_of (ad_engine d) k) (present (ti_alerts t) k)"
    using ex(2) [of k] by (simp add: tick_def r Let_def handle_all_view)
qed

lemma engine_ok_new: "engine_ok NewNotifier" "engine_ok (ResetState n)" "phase_of NewNotifier k = Quiet"
  "phase_of (ResetState n) k = Quiet"
  by (simp_all add: engine_ok_def NewNotifier_def ResetState_def view_def phase_of_def)

lemma desk_engine_step: "event_ok e \<Longrightarrow> engine_ok (ad_engine d) \<Longrightarrow> engine_ok (ad_engine (desk_step d e))"
  by (cases e) (simp_all add: tick_engine engine_ok_new)

interpretation alert_rounds: permitted_machine new_desk desk_step event_ok "\<lambda>d. engine_ok (ad_engine d)"
  by unfold_locales (simp add: new_desk_def engine_ok_new, rule desk_engine_step)

text \<open>The machine of one key: a round moves it by presence, a save or a restart forgets it.\<close>

fun key_step :: "string \<Rightarrow> phase \<Rightarrow> desk_event \<Rightarrow> phase" where
  "key_step k ph (Round t) = next_phase ph (present (ti_alerts t) k)"
| "key_step k ph Saved = Quiet"
| "key_step k ph Restart = Quiet"
| "key_step k ph Sent = ph"
| "key_step k ph (Console op) = ph"

lemma key_refines:
  "event_ok e \<Longrightarrow> engine_ok (ad_engine d) \<Longrightarrow>
   phase_of (ad_engine (desk_step d e)) k = key_step k (phase_of (ad_engine d) k) e"
  by (cases e) (simp_all add: tick_engine engine_ok_new)

lemma key_run:
  "list_all event_ok es \<Longrightarrow> engine_ok (ad_engine d) \<Longrightarrow>
   phase_of (ad_engine (run desk_step d es)) k = run (key_step k) (phase_of (ad_engine d) k) es"
proof (induction es arbitrary: d)
  case (Cons e es)
  then have "engine_ok (ad_engine (desk_step d e))" by (simp add: desk_engine_step)
  with Cons show ?case by (simp add: key_refines)
qed simp

lemma transitions_logged:
  "map (\<lambda>(f, l, h, m). (f, h, m)) (ad_activity (foldl (handle_transition t) d trs)) =
     map (\<lambda>(f, l, h, m). (f, h, m)) (ad_activity d) @ map (\<lambda>(a, f). (f, al_hostname a, al_message a)) trs"
proof (induction trs arbitrary: d)
  case (Cons tr trs)
  obtain a f where tr: "tr = (a, f)" by (rule prod.exhaust)
  have "ad_activity (handle_transition t d tr) = ad_activity d @
      [(f, if f then al_level a else ''info'', al_hostname a, al_message a)]"
    unfolding tr by (simp add: handle_transition_def dispatch_def Let_def split: prod.split)
  then show ?case using Cons tr by simp
qed simp

text \<open>In every run, whatever else happens, the engine runs a machine of four phases for each key, moved by
  whether the key is present in a round: an alert fires in the second round in a row it is present, stays
  active until the second round in a row it is absent, and recovers then; a round reports exactly the keys
  that cross, each once, the ones that fire with their present values.\<close>

theorem alert_debounce_refinement:
  assumes "list_all event_ok es" "order_ok (ti_ord1 t)" "order_ok (ti_ord2 t)"
  shows "phase_of (ad_engine (desk_after es)) k = run (key_step k) Quiet es \<and>
    (\<exists>n fires resolves.
       reconcile (ti_ord1 t) (ti_ord2 t) (ti_now t) (current_alerts (ti_alerts t)) (ad_engine (desk_after es)) = (n, fires, resolves) \<and>
       distinct (map alertKey fires) \<and> distinct (map alertKey resolves) \<and>
       (\<forall>a. a \<in> set fires \<longleftrightarrow> run (key_step (alertKey a)) Quiet es = Rising \<and>
          map_of (current_alerts (ti_alerts t)) (alertKey a) = Some a) \<and>
       (\<forall>a. a \<in> set resolves \<longleftrightarrow> run (key_step (alertKey a)) Quiet es = Fading \<and> \<not> present (ti_alerts t) (alertKey a) \<and>
          map_of (nt_active (ad_engine (desk_after es))) (alertKey a) = Some a))"
proof -
  have ok: "engine_ok (ad_engine (desk_after es))" by (rule alert_rounds.inv_run [OF assms(1)])
  have ph: "phase_of (ad_engine (desk_after es)) j = run (key_step j) Quiet es" for j
    using key_run [OF assms(1), of new_desk j] by (simp add: new_desk_def engine_ok_new)
  obtain n fires resolves where r:
    "reconcile (ti_ord1 t) (ti_ord2 t) (ti_now t) (current_alerts (ti_alerts t)) (ad_engine (desk_after es)) = (n, fires, resolves)"
    by (rule prod_cases3)
  note ex = reconcile_exact [OF ok assms(2,3) r]
  show ?thesis using r ex(4,5,6,7) unfolding ph by blast
qed


definition demo_alert :: alert where
  "demo_alert = \<lparr>al_level = ''critical'', al_message = ''down'', al_hostID = ''h'', al_hostname = ''web'', al_type = ''offline'',
     al_ip = [], al_scope = [], al_group = [], al_since = 0, al_value = 1, al_timestamp = 5, al_status = []\<rparr>"

definition demo_config :: alert_config where
  "demo_config = \<lparr>ac_enabled = True, ac_governance = \<lparr>go_silences = [], go_inhibits = [], go_routes = []\<rparr>, ac_windows = [],
     ac_channels = \<lparr>cc_feishu = False, cc_feishuHook = [], cc_dingtalk = False, cc_dingtalkHook = [], cc_smtp = False,
       cc_smtpHost = [], cc_webhook = False, cc_webhookURL = [], cc_sms = False, cc_smsKey = [], cc_voice = False, cc_voiceKey = []\<rparr>\<rparr>"

definition demo_tick :: "alert list \<Rightarrow> tick_input" where
  "demo_tick as = \<lparr>ti_now = 7, ti_clock = \<lparr>ck_weekday = (\<lambda>_. 1), ck_minute = (\<lambda>_. 60)\<rparr>, ti_config = demo_config,
     ti_alerts = as, ti_ord1 = (\<lambda>ks. ks), ti_ord2 = (\<lambda>ks. ks)\<rparr>"

lemma demo_tick_orders: "order_ok (ti_ord1 (demo_tick as))" "order_ok (ti_ord2 (demo_tick as))"
  by (simp_all add: demo_tick_def order_ok_def)

lemma demo_present: "ti_alerts (demo_tick as) = as" "present [demo_alert] (alertKey demo_alert)"
  "map_of (current_alerts [demo_alert]) (alertKey demo_alert) = Some demo_alert"
  by (simp_all add: demo_tick_def present_def current_alerts_def)

lemma alert_debounce_refinement_witness:
  "phase_of (ad_engine (desk_after [Round (demo_tick [demo_alert])])) (alertKey demo_alert) = Rising \<and>
   (\<exists>n fires resolves. reconcile (\<lambda>ks. ks) (\<lambda>ks. ks) 7 (current_alerts [demo_alert])
      (ad_engine (desk_after [Round (demo_tick [demo_alert])])) = (n, fires, resolves) \<and> demo_alert \<in> set fires)"
proof -
  have ok: "list_all event_ok [Round (demo_tick [demo_alert])]" by (simp add: demo_tick_orders)
  have t: "ti_ord1 (demo_tick [demo_alert]) = (\<lambda>ks. ks)" "ti_ord2 (demo_tick [demo_alert]) = (\<lambda>ks. ks)"
    "ti_now (demo_tick [demo_alert]) = 7" by (simp_all add: demo_tick_def)
  have r: "run (key_step (alertKey demo_alert)) Quiet [Round (demo_tick [demo_alert])] = Rising"
    by (simp add: demo_present)
  from alert_debounce_refinement [OF ok demo_tick_orders(1) [of "[demo_alert]"] demo_tick_orders(2), of "alertKey demo_alert"]
  show ?thesis unfolding r t demo_present(1) using r demo_present(3) by blast
qed

end
