(* ===== verification/Spec2Isabelle.thy ===== *)
theory Spec2Isabelle
  imports Transition SnmpPdu Reassembler Incident Change Login KeyRotation AuditSafety AuditMirror AuditGate
    HostScope VmBreaker ApiRateLimit CmdSafety PlaybookGuard
    SqlGuard SqlTickets AlertSafety
begin

text \<open>
  A verification library for OpenAIOps, a monitoring and operations platform written in Go: a server
  (\<open>cmd/server\<close>) that keeps hosts, incidents, changes, accounts and an audit log and serves the web
  console, and an agent (\<open>cmd/agent\<close>) on every host that collects data and listens to traffic.

  \<^bold>\<open>How the parts work together.\<close> Every request of the console passes the middleware of \<open>auth.go\<close>
  (\<open>RouteAccess\<close>), which asks the session table (\<open>AuthCore\<close>) for the user and the accounts
  (\<open>Users\<close>) for the role. Sessions are issued by the login handlers (\<open>Login\<close>), after the throttles,
  the password hash (\<open>Password\<close>) and the one-time password (\<open>Totp\<close>). Incidents and changes are
  kept by two managers (\<open>Incident\<close>, \<open>Change\<close>) and point at each other by typed links (\<open>OpsLink\<close>).
  Which hosts an account reaches follows from the tree of folders (\<open>FolderTree\<close>, \<open>HostFolders\<close>) and its scope
  (\<open>HostScope\<close>); how often it may call follows from \<open>ApiRateLimit\<close>. Commands reach the hosts through playbooks: one
  is checked when it is saved (\<open>CmdPolicy\<close>, \<open>PlaybookGate\<close>), planned, confirmed or scheduled
  (\<open>PlaybookStore\<close>, \<open>PlaybookGate\<close>) and run host by host (\<open>PlaybookRun\<close>). Statements for data bases are judged by
  their text (\<open>SqlGuard\<close>), and those that change data go through a ticket (\<open>SqlApproval\<close>, \<open>SqlTickets\<close>) that keeps a
  change record (\<open>Change\<close>) in step. Alerts that stay for two rounds open incidents and are sent to the
  channels the rules choose (\<open>AlertEngine\<close>, \<open>AlertGov\<close>). What users do is written to the audit log, a chain of hashes in two mirrored tables (\<open>AuditChain\<close> and
  the theories on it), signed with the master keys of \<open>SecretKeys\<close>, which also seal the secrets of the
  configuration. On the agent's side the SNMP collector uses the BER codec (\<open>SnmpBer\<close>, \<open>SnmpPdu\<close>),
  and the content audit takes captured frames apart (\<open>SniParse\<close>), puts TCP streams together (\<open>TcpStream\<close>,
  \<open>TcpDelivery\<close>), cuts them into HTTP messages (\<open>HttpFraming\<close>) and reports one event per exchange
  (\<open>Reassembler\<close>).

  \<^bold>\<open>Conventions.\<close> Definitions carry the names of the Go functions and stand in the order of the source. A
  struct is a record; a method takes the state and returns the changed state. A run-time panic is
  \<^term>\<open>None :: 'a option\<close>, an error a value of a sum type or a reply. The clock, random bytes, the order in
  which Go visits a map, and the success of writes to disk or database are arguments; a call reads the clock once,
  where the source may read it again a moment later. A method holds the mutex of its component for its whole
  body, so a concurrent run is a list of operations (\<open>Transition\<close>: locales \<open>guarded_machine\<close>,
  \<open>permitted_machine\<close>, \<open>fresh_machine\<close>, \<open>growing_machine\<close>, interpreted for the accounts, incidents, changes, folders,
  capture worker, breaker, audit chain, playbooks, executions, tickets and alert rounds). Where a method
  takes the mutex more than once, its sections are operations of their own: the check and the record of a
  login throttle (\<open>Throttle\<close>), \<open>CreateManual\<close> (\<open>Incident\<close>), the calls through the breaker (\<open>VmBreaker\<close>), the two halves
  of an approval (\<open>PlaybookStore\<close>), begin and end of a ticket's execution (\<open>SqlTickets\<close>), and the gate of the audit
  verification, a step relation (\<open>AuditGate\<close>). A handler that reads, checks and acts through several methods is
  otherwise one step. Integers that can
  wrap are words; counters of rows, ids and seconds are \<^typ>\<open>int\<close>, which differs from \<open>int64\<close> only beyond
  \<open>2 ^ 63\<close> of them. Hash functions, ciphers, decompressors, the JSON codec and the data base are parameters (records of
  functions such as \<open>hash_lib\<close>, \<open>secret_lib\<close>, \<open>audit_lib\<close>) with predicates that state their documented
  laws. So are the regular expressions a configuration brings (\<open>custom_patterns\<close>), the lower case and the
  decimals of a condition (\<open>go_text\<close>), and what the hosts answer to a command (\<open>run_env\<close>).

  \<^bold>\<open>Theories and sources.\<close>
  \<^item> \<open>GoPrelude\<close>, \<open>GoMap\<close>, \<open>Utf8\<close>, \<open>Base64\<close>: what the sources use of Go and its library; \<open>mapbound.go\<close>.
  \<^item> \<open>SnmpBer\<close>: \<open>cmd/agent/snmp_ber.go\<close>; \<open>SnmpPdu\<close>: \<open>snmp_pdu.go\<close>. Codecs undo each other, a request parses
    back to what was asked, a decoder never reads past its input.
  \<^item> \<open>SniParse\<close>: \<open>sni_parse.go\<close>. No input makes a parser panic; answers and server names are those in the packet.
  \<^item> \<open>TcpStream\<close>, \<open>TcpDelivery\<close>: \<open>dirStream\<close> of \<open>content_reassembly.go\<close>. The bytes delivered are the bytes sent,
    whatever the order and overlap of segments, within the bounds on memory.
  \<^item> \<open>HttpFraming\<close>, \<open>Reassembler\<close>: the rest of \<open>content_reassembly.go\<close>. An exchange is reported exactly once; the
    table stays bounded.
  \<^item> \<open>OpsLink\<close>, \<open>Incident\<close>, \<open>Change\<close>: \<open>ops_link.go\<close>, \<open>attachment.go\<close>, \<open>incident.go\<close>, \<open>change.go\<close>, \<open>trust_ops.go\<close> and two
    handlers of \<open>enterprise_ops_api.go\<close>. The index of open incidents, the workflow of changes and its
    separation of duties, change windows.
  \<^item> \<open>Throttle\<close> (a locale, interpreted for both login throttles), \<open>Totp\<close>, \<open>AuthCore\<close>, \<open>AuthSafety\<close>, \<open>Password\<close>, \<open>Users\<close>,
    \<open>RouteAccess\<close>, \<open>Login\<close>: \<open>totp.go\<close>, \<open>auth_core.go\<close>, \<open>users.go\<close>, \<open>auth.go\<close>, \<open>terminal_auth.go\<close> and the end of \<open>sso.go\<close>. Which factors a
    session needs, what it may reach and when it ends; how often a secret can be guessed.
  \<^item> \<open>SecretKeys\<close>, \<open>KeyRotation\<close>: \<open>crypto.go\<close>, \<open>crypto_v2.go\<close>, \<open>secret_rotate.go\<close>. Which sealed values survive a
    rotation and a restart.
  \<^item> \<open>AuditChain\<close>, \<open>AuditVerify\<close>, \<open>AuditSafety\<close>, \<open>AuditMirror\<close>, \<open>AuditGate\<close>: \<open>audit_chain.go\<close>, \<open>audit_chain_format.go\<close> and
    \<open>reconcileAuditMirrors\<close> of \<open>pg_partition.go\<close>. An appended chain verifies, a verified chain cannot be altered
    below its tip, the repair loses nothing, the gate runs one verification at a time.

  \<^item> \<open>NaturalOrder\<close>, \<open>FolderTree\<close>, \<open>HostFolders\<close>, \<open>HostScope\<close>: \<open>host_folders.go\<close>, \<open>host_rbac.go\<close>. Every host is in one folder
    that exists; a move changes nothing else; an account reaches exactly the hosts its scope names.
  \<^item> \<open>VmBreaker\<close>: \<open>vm_breaker.go\<close>; \<open>ApiRateLimit\<close>: \<open>api_ratelimit.go\<close>. Both against a reference: the states of a
    breaker, the calls of the last minute.
  \<^item> \<open>RegexMatch\<close>, \<open>CmdPolicy\<close>, \<open>CmdSafety\<close>: \<open>cmdpolicy.go\<close>, \<open>playbook_modules.go\<close>. What a command that is accepted
    cannot hold, and what it still can.
  \<^item> \<open>OsIdentity\<close>, \<open>Playbook\<close>, \<open>PlaybookRun\<close>, \<open>PlaybookSafety\<close>, \<open>PlaybookRollback\<close>: \<open>os_identity.go\<close>, \<open>playbook.go\<close> and
    \<open>runPlaybookExecution\<close> of \<open>playbook_api.go\<close>. What a run sends, how often, and how it takes steps back.
  \<^item> \<open>PlaybookStore\<close>, \<open>PlaybookLedger\<close>, \<open>PlaybookGate\<close>, \<open>PlaybookGuard\<close>: the rest of \<open>playbook.go\<close>, \<open>playbook_api.go\<close> and
    \<open>playbook_cancel.go\<close>. Finished executions stay finished, schedules, confirmations and freezes hold.
  \<^item> \<open>SqlText\<close>, \<open>SqlGuard\<close>: \<open>util.go\<close>, \<open>strict_readonly.go\<close> and \<open>rowlimit.go\<close> of \<open>sqltoolkit\<close>. What the checks of a
    statement let through.
  \<^item> \<open>SqlApproval\<close>, \<open>SqlTickets\<close>: \<open>sql_change_request.go\<close>, and of the data base files \<open>sql_pg.go\<close>, \<open>sql_mysql.go\<close>,
    \<open>sql_processlist.go\<close>, \<open>sql_store.go\<close>, \<open>sql_api.go\<close> the operations a ticket uses. An approval is used once, by the
    statement it was given for.
  \<^item> \<open>AlertGov\<close>, \<open>AlertEngine\<close>, \<open>AlertSafety\<close>: \<open>alertgov.go\<close>, \<open>alertgov_api.go\<close>, the engine of \<open>notify.go\<close> and the history
    of alerts in \<open>store.go\<close>. Which channels hear of an alert, and the four phases each alert key runs through.

  \<^bold>\<open>Fuel.\<close> The loops that are not structural recurse on a measure and terminate as they are. The loop that drains
  pending segments takes the number of pending segments as fuel, and each round that goes on removes one
  (\<open>TcpStream\<close>); the extension and label loops of \<open>SniParse\<close> take the length of the packet, and each
  round consumes a byte.

  \<^bold>\<open>Not modelled.\<close> PostgreSQL and VictoriaMetrics beyond the queries of the audit tables; the web console
  (JavaScript); the evaluation of samples against thresholds; work orders, service levels and the loop that
  drives incidents with the language model; the language-model features, whose inputs and outputs are free
  text; dashboards and conversions of foreign formats; scanners, probes and clients of outside services;
  terminals, desktop streams and port forwarding, which copy bytes between connections; collectors that read
  the operating system, the NetFlow parser and SNMP v3; installers and backups. ToLower, TrimSpace and EqualFold
  are modelled on ASCII only (\<open>GoPrelude\<close>), but for the conditions of playbooks (\<open>go_text\<close>).
\<close>

end
